(* ===== verification/Prelude.thy ===== *)
theory Prelude
  imports Main "HOL-Library.Word"
begin

unbundle bit_operations_syntax

text \<open>
  Shared vocabulary of the DionysOS development: faults and the result type of kernel code that
  may dereference NULL or panic, pointers and pointer paths through a heap of linked nodes, and
  the generic list and word facts the component theories use.
\<close>

section \<open>Faults and results\<close>

text \<open>
  A kernel routine either returns or stops the machine. \<open>NullDeref\<close> is a dereference of NULL or of
  memory that has been returned to the allocator, \<open>Panic\<close> a call of \<^verbatim>\<open>panic\<close> with its message,
  \<open>OutOfBounds\<close> an access past the end of an array or buffer, \<open>DivideError\<close> a division by zero,
  \<open>Hangs\<close> a wait for a device that the device never ends,
  \<open>Unmodelled\<close> a path of the C code
  that the model leaves out (each use says which).
\<close>

datatype fault = NullDeref | Panic string | OutOfBounds | DivideError | Hangs | Unmodelled

type_synonym 'a res = "fault + 'a"

definition bindR :: "'a res \<Rightarrow> ('a \<Rightarrow> 'b res) \<Rightarrow> 'b res" where
  "bindR m f = (case m of Inl e \<Rightarrow> Inl e | Inr x \<Rightarrow> f x)"

lemma bindR_Inl [simp]: "bindR (Inl e) f = Inl e"
  by (simp add: bindR_def)

lemma bindR_Inr [simp]: "bindR (Inr x) f = f x"
  by (simp add: bindR_def)

lemma bindR_eq_Inr: "bindR m f = Inr y \<longleftrightarrow> (\<exists>x. m = Inr x \<and> f x = Inr y)"
  by (cases m) auto

lemma bindR_cong [fundef_cong]:
  "m = m' \<Longrightarrow> (\<And>x. m' = Inr x \<Longrightarrow> f x = f' x) \<Longrightarrow> bindR m f = bindR m' f'"
  by (cases m') auto

lemma bindR_assoc: "bindR (bindR m f) g = bindR m (\<lambda>x. bindR (f x) g)"
  by (cases m) auto

lemma bindR_split:
  "P (bindR m f) \<longleftrightarrow> (\<forall>e. m = Inl e \<longrightarrow> P (Inl e)) \<and> (\<forall>x. m = Inr x \<longrightarrow> P (f x))"
  by (cases m) auto

text \<open>A counting loop: the body runs once for each element of the list and stops at the first fault.\<close>

primrec fold_res :: "('a \<Rightarrow> 's \<Rightarrow> 's res) \<Rightarrow> 'a list \<Rightarrow> 's \<Rightarrow> 's res" where
  "fold_res f [] s = Inr s"
| "fold_res f (x # xs) s = bindR (f x s) (fold_res f xs)"

lemma fold_res_append [simp]: "fold_res f (xs @ ys) s = bindR (fold_res f xs s) (fold_res f ys)"
  by (induction xs arbitrary: s) (simp_all add: bindR_def split: sum.splits)

lemma fold_res_inv:
  assumes "\<And>x s. x \<in> set xs \<Longrightarrow> P s \<Longrightarrow> \<exists>s'. f x s = Inr s' \<and> P s'" and "P s"
  shows "\<exists>s'. fold_res f xs s = Inr s' \<and> P s'"
  using assms
proof (induction xs arbitrary: s)
  case Nil
  then show ?case by simp
next
  case (Cons x xs)
  obtain s' where "f x s = Inr s'" "P s'" using Cons.prems by (meson list.set_intros(1))
  with Cons show ?case by simp
qed

section \<open>Pointers and paths\<close>

text \<open>Addresses of heap objects; \<open>0\<close> is NULL.\<close>

type_synonym addr = nat

abbreviation (input) NULL :: addr where
  "NULL \<equiv> 0"

text \<open>Reading through a pointer: NULL and unmapped addresses fault.\<close>

definition deref :: "(addr \<rightharpoonup> 'n) \<Rightarrow> addr \<Rightarrow> 'n res" where
  "deref m p = (if p = NULL then Inl NullDeref
                else case m p of None \<Rightarrow> Inl NullDeref | Some n \<Rightarrow> Inr n)"

lemma deref_Some [simp]: "m p = Some n \<Longrightarrow> p \<noteq> NULL \<Longrightarrow> deref m p = Inr n"
  by (simp add: deref_def)

lemma deref_NULL [simp]: "deref m 0 = Inl NullDeref"
  by (simp add: deref_def)

lemma deref_eq_Inr: "deref m p = Inr n \<longleftrightarrow> p \<noteq> NULL \<and> m p = Some n"
  by (auto simp: deref_def split: option.splits)

lemma deref_upd_same [simp]: "p \<noteq> NULL \<Longrightarrow> deref (m(p \<mapsto> n)) p = Inr n"
  by (simp add: deref_def)

lemma deref_upd_other [simp]: "p \<noteq> q \<Longrightarrow> deref (m(q \<mapsto> n)) p = deref m p"
  by (simp add: deref_def)

text \<open>Writing through a pointer: the object must be there, and \<open>f\<close> updates it.\<close>

definition modify :: "(addr \<rightharpoonup> 'n) \<Rightarrow> addr \<Rightarrow> ('n \<Rightarrow> 'n) \<Rightarrow> (addr \<rightharpoonup> 'n) res" where
  "modify m p f = bindR (deref m p) (\<lambda>n. Inr (m(p \<mapsto> f n)))"

lemma modify_Some [simp]: "m p = Some n \<Longrightarrow> p \<noteq> NULL \<Longrightarrow> modify m p f = Inr (m(p \<mapsto> f n))"
  by (simp add: modify_def)

lemma modify_NULL [simp]: "modify m 0 f = Inl NullDeref"
  by (simp add: modify_def)

lemma modify_eq_Inr:
  "modify m p f = Inr m' \<longleftrightarrow> p \<noteq> NULL \<and> (\<exists>n. m p = Some n \<and> m' = m(p \<mapsto> f n))"
  by (auto simp: modify_def bindR_eq_Inr deref_eq_Inr)

text \<open>
  \<open>path nx p as q\<close>: following the partial successor function \<open>nx\<close> from \<open>p\<close> visits the cells
  \<open>as\<close>, all of them allocated and none NULL, and ends at \<open>q\<close>.
\<close>

primrec path :: "(addr \<rightharpoonup> addr) \<Rightarrow> addr \<Rightarrow> addr list \<Rightarrow> addr \<Rightarrow> bool" where
  "path nx p [] q \<longleftrightarrow> p = q"
| "path nx p (a # as) q \<longleftrightarrow> p = a \<and> a \<noteq> NULL \<and> (\<exists>b. nx a = Some b \<and> path nx b as q)"

lemma path_NULL [simp]: "path nx 0 as q \<longleftrightarrow> as = [] \<and> q = NULL"
  by (cases as) auto

lemma path_nonnull:
  "p \<noteq> NULL \<Longrightarrow> path nx p as NULL \<longleftrightarrow> (\<exists>b bs. as = p # bs \<and> nx p = Some b \<and> path nx b bs NULL)"
  by (cases as) auto

lemma path_append: "path nx p (as @ bs) q \<longleftrightarrow> (\<exists>r. path nx p as r \<and> path nx r bs q)"
  by (induction as arbitrary: p) auto

lemma path_upd [simp]: "a \<notin> set as \<Longrightarrow> path (nx(a := v)) p as q \<longleftrightarrow> path nx p as q"
  by (induction as arbitrary: p) auto

lemma path_cong:
  "(\<And>a. a \<in> set as \<Longrightarrow> nx a = nx' a) \<Longrightarrow> path nx p as q \<longleftrightarrow> path nx' p as q"
  by (induction as arbitrary: p) auto

lemma path_nonzero: "path nx p as q \<Longrightarrow> a \<in> set as \<Longrightarrow> a \<noteq> NULL"
  by (induction as arbitrary: p) auto

lemma path_zero_notin: "path nx p as q \<Longrightarrow> 0 \<notin> set as"
  by (induction as arbitrary: p) auto

lemma path_dom: "path nx p as q \<Longrightarrow> set as \<subseteq> dom nx"
  by (induction as arbitrary: p) auto

lemma path_unique: "path nx p as NULL \<Longrightarrow> path nx p bs NULL \<Longrightarrow> as = bs"
proof (induction as arbitrary: p bs)
  case Nil
  then show ?case by simp
next
  case (Cons a as)
  then show ?case by (cases bs) auto
qed

lemma path_head_notin_tail:
  assumes "path nx b as NULL" and "nx a = Some b"
  shows "a \<notin> set as"
proof
  assume "a \<in> set as"
  then obtain xs ys where as: "as = xs @ a # ys" by (meson split_list)
  with assms have "path nx b ys NULL" by (auto simp: path_append)
  with assms(1) have "as = ys" by (rule path_unique)
  with as show False by simp
qed

lemma path_distinct: "path nx p as NULL \<Longrightarrow> distinct as"
  by (induction as arbitrary: p) (auto dest: path_head_notin_tail)

lemma path_snoc: "path nx p (as @ [a]) q \<longleftrightarrow> path nx p as a \<and> a \<noteq> NULL \<and> nx a = Some q"
  by (auto simp: path_append)

lemma path_hd: "path nx p as NULL \<Longrightarrow> as \<noteq> [] \<Longrightarrow> p = hd as"
  by (cases as) auto

lemma path_first_two:
  assumes "path nx h (as @ [p, q] @ bs) z"
  shows "h = hd (as @ [p])" and "h \<noteq> NULL" and "nx h = Some (hd (List.tl (as @ [p]) @ [q]))"
proof -
  have "h = hd (as @ [p]) \<and> h \<noteq> NULL \<and> nx h = Some (hd (List.tl (as @ [p]) @ [q]))"
  proof (cases as)
    case Nil
    with assms show ?thesis by auto
  next
    case (Cons a list)
    with assms show ?thesis by (cases list) auto
  qed
  then show "h = hd (as @ [p])" and "h \<noteq> NULL" and "nx h = Some (hd (List.tl (as @ [p]) @ [q]))"
    by blast+
qed

lemma path_extend:
  assumes "path f h ps NULL" and "ps \<noteq> []" and "q \<noteq> NULL" and "q \<notin> set ps"
  shows "path (f(q \<mapsto> NULL, last ps \<mapsto> q)) h (ps @ [q]) NULL"
proof -
  have "ps = butlast ps @ [last ps]" using assms(2) by simp
  moreover have "distinct ps" using assms(1) by (rule path_distinct)
  ultimately have nb: "last ps \<notin> set (butlast ps)" by (metis distinct_butlast not_distinct_conv_prefix)
  have "path f h (butlast ps @ [last ps]) NULL" using assms(1,2) by simp
  then have "path f h (butlast ps) (last ps)" "last ps \<noteq> NULL" by (auto simp: path_snoc)
  moreover have "q \<notin> set (butlast ps)" "q \<noteq> last ps"
    using assms(2,4) by (auto dest: in_set_butlastD)
  ultimately have "path (f(q \<mapsto> NULL, last ps \<mapsto> q)) h (butlast ps @ [last ps, q]) NULL"
    using nb assms(3) by (auto simp: path_append)
  then show ?thesis using assms(2) by (metis append.assoc append_Cons append_Nil append_butlast_last_id)
qed

section \<open>Lists\<close>

lemma map_upd_notin: "p \<notin> set ps \<Longrightarrow> map (\<lambda>q. f ((m(p \<mapsto> n)) q)) ps = map (\<lambda>q. f (m q)) ps"
  by (rule map_cong) auto

lemma butlast_last_eq: "xs \<noteq> [] \<Longrightarrow> xs = butlast xs @ [last xs]"
  by simp

text \<open>
  Overwriting \<open>length ys\<close> elements of a buffer from position \<open>n\<close> on, the effect of \<^verbatim>\<open>memcpy\<close>.
\<close>

definition overwrite :: "'a list \<Rightarrow> nat \<Rightarrow> 'a list \<Rightarrow> 'a list" where
  "overwrite xs n ys = take n xs @ ys @ drop (n + length ys) xs"

definition window :: "'a list \<Rightarrow> nat \<Rightarrow> nat \<Rightarrow> 'a list" where
  "window xs n k = take k (drop n xs)"

lemma length_overwrite [simp]: "n + length ys \<le> length xs \<Longrightarrow> length (overwrite xs n ys) = length xs"
  by (simp add: overwrite_def)

lemma length_window [simp]: "n + k \<le> length xs \<Longrightarrow> length (window xs n k) = k"
  by (simp add: window_def)

lemma window_add: "window xs n (j + k) = window xs n j @ window xs (n + j) k"
  by (simp add: window_def take_add add.commute)

lemma window_window: "a + k \<le> n \<Longrightarrow> window (window xs p n) a k = window xs (p + a) k"
  by (simp add: window_def drop_take min_absorb1 add.commute)

lemma window_0 [simp]: "window xs n 0 = []"
  by (simp add: window_def)

lemma concat_windows:
  "concat (map (\<lambda>i. window buf (pos + (i - b) * k) k) [b..<b + n]) = window buf pos (n * k)"
proof (induction n)
  case 0
  then show ?case by simp
next
  case (Suc n)
  have "window buf pos (Suc n * k) = window buf pos (n * k) @ window buf (pos + n * k) k"
    using window_add [of buf pos "n * k" k] by (simp add: add.commute)
  with Suc show ?case by simp
qed

lemma window_overwrite_same:
  "n + length ys \<le> length xs \<Longrightarrow> k = length ys \<Longrightarrow> window (overwrite xs n ys) n k = ys"
  by (simp add: window_def overwrite_def)

lemma nth_overwrite:
  assumes "n + length ys \<le> length xs" and "i < length xs"
  shows "overwrite xs n ys ! i = (if n \<le> i \<and> i < n + length ys then ys ! (i - n) else xs ! i)"
  using assms by (auto simp: overwrite_def nth_append)

lemma nth_window: "n + k \<le> length xs \<Longrightarrow> i < k \<Longrightarrow> window xs n k ! i = xs ! (n + i)"
  by (simp add: window_def)

lemma window_overwrite_other:
  assumes "n + length ys \<le> length xs" and "m + k \<le> length xs"
    and "m + k \<le> n \<or> n + length ys \<le> m"
  shows "window (overwrite xs n ys) m k = window xs m k"
proof (rule nth_equalityI)
  show "length (window (overwrite xs n ys) m k) = length (window xs m k)"
    using assms by simp
  fix i assume "i < length (window (overwrite xs n ys) m k)"
  then have "i < k" using assms by simp
  then show "window (overwrite xs n ys) m k ! i = window xs m k ! i"
    using assms by (auto simp: nth_window nth_overwrite)
qed

lemma bit_le_unat:
  fixes w :: "64 word"
  assumes "bit w i"
  shows "2 ^ i \<le> unat w"
proof (rule ccontr)
  assume "\<not> 2 ^ i \<le> unat w"
  then have "\<not> bit (unat w) i" by (simp add: bit_iff_odd)
  moreover have "i < 64" using bit_imp_le_length [OF assms] by simp
  ultimately show False using assms by (simp add: bit_unsigned_iff)
qed

end
