(* ===== verification/Interfaces.thy ===== *)
theory Interfaces
  imports Prelude
begin

text \<open>
  The contracts between components, as locales. \<open>lifo_store\<close> is what the users of a list as a stack
  rely on (the pool of unused buddy blocks, the free vnodes, the hash buckets), \<open>fifo_store\<close> what
  the scheduler relies on of a run queue. \<open>rep s l xs\<close> reads: in memory \<open>s\<close> the header \<open>l\<close> holds the
  sequence \<open>xs\<close>; \<open>room s\<close> is the number of elements that can still be allocated.
\<close>

section \<open>Sequences of operations\<close>

fun push_all :: "('s \<Rightarrow> 'l \<Rightarrow> 'a \<Rightarrow> ('s \<times> 'l) res) \<Rightarrow> 's \<Rightarrow> 'l \<Rightarrow> 'a list \<Rightarrow> ('s \<times> 'l) res" where
  "push_all push s l [] = Inr (s, l)"
| "push_all push s l (x # xs) = bindR (push s l x) (\<lambda>(s, l). push_all push s l xs)"

fun pop_n :: "('s \<Rightarrow> 'l \<Rightarrow> ('s \<times> 'l \<times> 'a) res) \<Rightarrow> nat \<Rightarrow> 's \<Rightarrow> 'l \<Rightarrow> ('s \<times> 'l \<times> 'a list) res" where
  "pop_n pop 0 s l = Inr (s, l, [])"
| "pop_n pop (Suc n) s l =
     bindR (pop s l) (\<lambda>(s, l, x). bindR (pop_n pop n s l) (\<lambda>(s, l, xs). Inr (s, l, x # xs)))"

section \<open>A store that grows and shrinks\<close>

locale pop_store =
  fixes rep :: "'s \<Rightarrow> 'l \<Rightarrow> 'a list \<Rightarrow> bool"
    and room :: "'s \<Rightarrow> nat"
    and pop :: "'s \<Rightarrow> 'l \<Rightarrow> ('s \<times> 'l \<times> 'a) res"
  assumes pop_ok: "rep s l (x # xs) \<Longrightarrow>
    \<exists>s' l'. pop s l = Inr (s', l', x) \<and> rep s' l' xs \<and> room s' = room s + 1"
begin

lemma pop_n_ok:
  "rep s l (xs @ ys) \<Longrightarrow>
    \<exists>s' l'. pop_n pop (length xs) s l = Inr (s', l', xs) \<and> rep s' l' ys \<and> room s' = room s + length xs"
proof (induction xs arbitrary: s l)
  case Nil
  then show ?case by simp
next
  case (Cons x xs)
  then obtain s1 l1 where "pop s l = Inr (s1, l1, x)" "rep s1 l1 (xs @ ys)" "room s1 = room s + 1"
    using pop_ok by fastforce
  with Cons.IH [of s1 l1] show ?case by auto
qed

end

locale lifo_store = pop_store rep room pop
  for rep :: "'s \<Rightarrow> 'l \<Rightarrow> 'a list \<Rightarrow> bool" and room :: "'s \<Rightarrow> nat"
    and pop :: "'s \<Rightarrow> 'l \<Rightarrow> ('s \<times> 'l \<times> 'a) res" +
  fixes push :: "'s \<Rightarrow> 'l \<Rightarrow> 'a \<Rightarrow> ('s \<times> 'l) res"
  assumes push_ok: "rep s l xs \<Longrightarrow> 0 < room s \<Longrightarrow>
    \<exists>s' l'. push s l x = Inr (s', l') \<and> rep s' l' (x # xs) \<and> room s' = room s - 1"
begin

lemma push_all_ok:
  "rep s l xs \<Longrightarrow> length ys \<le> room s \<Longrightarrow>
    \<exists>s' l'. push_all push s l ys = Inr (s', l') \<and> rep s' l' (rev ys @ xs) \<and>
      room s' = room s - length ys"
proof (induction ys arbitrary: s l xs)
  case Nil
  then show ?case by simp
next
  case (Cons y ys)
  then obtain s1 l1 where "push s l y = Inr (s1, l1)" "rep s1 l1 (y # xs)" "room s1 = room s - 1"
    using push_ok [of s l xs y] by auto
  with Cons.IH [of s1 l1 "y # xs"] Cons.prems show ?case by auto
qed

lemma push_all_pop_n:
  assumes "rep s l xs" and "length ys \<le> room s"
  shows "\<exists>s1 l1 s2 l2. push_all push s l ys = Inr (s1, l1) \<and>
    pop_n pop (length ys) s1 l1 = Inr (s2, l2, rev ys) \<and> rep s2 l2 xs \<and> room s2 = room s"
proof -
  obtain s1 l1 where p: "push_all push s l ys = Inr (s1, l1)" "rep s1 l1 (rev ys @ xs)"
    "room s1 = room s - length ys"
    using push_all_ok [OF assms] by auto
  from pop_n_ok [OF p(2)] obtain s2 l2 where "pop_n pop (length ys) s1 l1 = Inr (s2, l2, rev ys)"
    "rep s2 l2 xs" "room s2 = room s1 + length ys"
    by auto
  with p assms(2) show ?thesis by auto
qed

end

locale fifo_store = pop_store rep room pop
  for rep :: "'s \<Rightarrow> 'l \<Rightarrow> 'a list \<Rightarrow> bool" and room :: "'s \<Rightarrow> nat"
    and pop :: "'s \<Rightarrow> 'l \<Rightarrow> ('s \<times> 'l \<times> 'a) res" +
  fixes push :: "'s \<Rightarrow> 'l \<Rightarrow> 'a \<Rightarrow> ('s \<times> 'l) res" and ok :: "'a \<Rightarrow> bool"
  assumes push_ok: "rep s l xs \<Longrightarrow> 0 < room s \<Longrightarrow> ok x \<Longrightarrow>
    \<exists>s' l'. push s l x = Inr (s', l') \<and> rep s' l' (xs @ [x]) \<and> room s' = room s - 1"
begin

lemma push_all_ok:
  "rep s l xs \<Longrightarrow> length ys \<le> room s \<Longrightarrow> list_all ok ys \<Longrightarrow>
    \<exists>s' l'. push_all push s l ys = Inr (s', l') \<and> rep s' l' (xs @ ys) \<and>
      room s' = room s - length ys"
proof (induction ys arbitrary: s l xs)
  case Nil
  then show ?case by simp
next
  case (Cons y ys)
  then obtain s1 l1 where "push s l y = Inr (s1, l1)" "rep s1 l1 (xs @ [y])" "room s1 = room s - 1"
    using push_ok [of s l xs y] by auto
  with Cons.IH [of s1 l1 "xs @ [y]"] Cons.prems show ?case by auto
qed

lemma push_all_pop_n:
  assumes "rep s l xs" and "length ys \<le> room s" and "list_all ok ys"
  shows "\<exists>s1 l1 s2 l2. push_all push s l ys = Inr (s1, l1) \<and>
    pop_n pop (length (xs @ ys)) s1 l1 = Inr (s2, l2, xs @ ys) \<and> rep s2 l2 []"
proof -
  obtain s1 l1 where p: "push_all push s l ys = Inr (s1, l1)" "rep s1 l1 (xs @ ys)"
    using push_all_ok [OF assms] by auto
  then have "rep s1 l1 ((xs @ ys) @ [])" by simp
  from pop_n_ok [OF this] p(1) show ?thesis by auto
qed

end

section \<open>A store of keyed buckets\<close>

text \<open>
  \<open>bucket_store\<close> is what the owner of a hash table relies on: inserting under a key of the table's
  range puts the element in front of one bucket, changes no other bucket and keeps the dimension of
  the table. \<open>spread\<close> is the effect of a sequence of insertions on the buckets.
\<close>

fun insert_all :: "('s \<Rightarrow> 't \<Rightarrow> 'k \<Rightarrow> 'a \<Rightarrow> ('s \<times> 't) res) \<Rightarrow> 's \<Rightarrow> 't \<Rightarrow> ('k \<times> 'a) list \<Rightarrow> ('s \<times> 't) res" where
  "insert_all ins s t [] = Inr (s, t)"
| "insert_all ins s t ((k, d) # kvs) = bindR (ins s t k d) (\<lambda>(s, t). insert_all ins s t kvs)"

fun spread :: "('k \<Rightarrow> nat) \<Rightarrow> ('k \<times> 'a) list \<Rightarrow> (nat \<Rightarrow> 'a list) \<Rightarrow> nat \<Rightarrow> 'a list" where
  "spread idx [] B = B"
| "spread idx ((k, d) # kvs) B = spread idx kvs (B(idx k := d # B (idx k)))"

lemma spread_bucket:
  "spread idx kvs B i = rev (map snd (filter (\<lambda>(k, d). idx k = i) kvs)) @ B i"
  by (induction idx kvs B rule: spread.induct) (auto simp: fun_upd_def)

locale bucket_store =
  fixes rep :: "'s \<Rightarrow> 't \<Rightarrow> (nat \<Rightarrow> 'a list) \<Rightarrow> bool"
    and room :: "'s \<Rightarrow> nat"
    and dim :: "'t \<Rightarrow> 'd"
    and idx :: "'d \<Rightarrow> 'k \<Rightarrow> nat"
    and fits :: "'d \<Rightarrow> 'k \<Rightarrow> bool"
    and ins :: "'s \<Rightarrow> 't \<Rightarrow> 'k \<Rightarrow> 'a \<Rightarrow> ('s \<times> 't) res"
  assumes ins_ok: "rep s t B \<Longrightarrow> fits (dim t) k \<Longrightarrow> 0 < room s \<Longrightarrow>
    \<exists>s' t'. ins s t k d = Inr (s', t') \<and> rep s' t' (B(idx (dim t) k := d # B (idx (dim t) k))) \<and>
      room s' = room s - 1 \<and> dim t' = dim t"
begin

lemma insert_all_ok:
  "rep s t B \<Longrightarrow> \<forall>(k, d)\<in>set kvs. fits (dim t) k \<Longrightarrow> length kvs \<le> room s \<Longrightarrow>
    \<exists>s' t'. insert_all ins s t kvs = Inr (s', t') \<and> rep s' t' (spread (idx (dim t)) kvs B) \<and>
      room s' = room s - length kvs \<and> dim t' = dim t"
proof (induction kvs arbitrary: s t B)
  case Nil
  then show ?case by simp
next
  case (Cons kd kvs)
  obtain k d where kd: "kd = (k, d)" by fastforce
  with Cons.prems obtain s1 t1 where "ins s t k d = Inr (s1, t1)"
    "rep s1 t1 (B(idx (dim t) k := d # B (idx (dim t) k)))" "room s1 = room s - 1" "dim t1 = dim t"
    using ins_ok [of s t B k d] by auto
  with Cons.IH [of s1 t1 "B(idx (dim t) k := d # B (idx (dim t) k))"] Cons.prems kd show ?case
    by (auto simp: fun_upd_def)
qed

end

section \<open>A search structure of queues\<close>

text \<open>
  \<open>keyed_queue\<close> is what the physical memory manager and the device layer rely on of a tree: inserting
  an element puts it at the end of its key's queue, and looking a key up shows the oldest element.
  \<open>enqueue_map\<close> is the insertion on the abstract map.
\<close>

definition enqueue_map :: "('k \<rightharpoonup> 'a list) \<Rightarrow> 'k \<Rightarrow> 'a \<Rightarrow> ('k \<rightharpoonup> 'a list)" where
  "enqueue_map M k d = M(k \<mapsto> (case M k of None \<Rightarrow> [d] | Some xs \<Rightarrow> xs @ [d]))"

definition queue_of :: "('a \<times> 'k) list \<Rightarrow> 'k \<Rightarrow> 'a list" where
  "queue_of dks k = map fst (filter (\<lambda>(d, j). j = k) dks)"

lemma queue_of_simps [simp]:
  "queue_of [] k = []" "queue_of ((d, j) # dks) k = (if j = k then d # queue_of dks k else queue_of dks k)"
  by (simp_all add: queue_of_def)

fun enqueue_all :: "('s \<Rightarrow> 't \<Rightarrow> 'a \<Rightarrow> 'k \<Rightarrow> ('s \<times> 't \<times> nat) res) \<Rightarrow> 's \<Rightarrow> 't \<Rightarrow> ('a \<times> 'k) list \<Rightarrow> ('s \<times> 't) res" where
  "enqueue_all ins s t [] = Inr (s, t)"
| "enqueue_all ins s t ((d, k) # dks) = bindR (ins s t d k) (\<lambda>(s, t, _). enqueue_all ins s t dks)"

locale keyed_queue =
  fixes rep :: "'s \<Rightarrow> 't \<Rightarrow> ('k \<rightharpoonup> 'a list) \<Rightarrow> bool"
    and room :: "'s \<Rightarrow> nat"
    and fits :: "'k \<Rightarrow> bool"
    and ins :: "'s \<Rightarrow> 't \<Rightarrow> 'a \<Rightarrow> 'k \<Rightarrow> ('s \<times> 't \<times> nat) res"
    and peek :: "'s \<Rightarrow> 't \<Rightarrow> 'k \<Rightarrow> ('s \<times> 't \<times> 'a) res"
    and none :: 'a
  assumes ins_ok: "rep s t M \<Longrightarrow> fits k \<Longrightarrow> 0 < room s \<Longrightarrow>
      \<exists>s' t'. ins s t d k = Inr (s', t', 0) \<and> rep s' t' (enqueue_map M k d) \<and> room s - 1 \<le> room s'"
    and peek_ok: "rep s t M \<Longrightarrow> peek s t k = Inr (s, t, case M k of None \<Rightarrow> none | Some xs \<Rightarrow> hd xs)"
begin

lemma enqueue_all_ok:
  "rep s t M \<Longrightarrow> \<forall>(d, k)\<in>set dks. fits k \<Longrightarrow> length dks \<le> room s \<Longrightarrow>
    \<exists>s' t'. enqueue_all ins s t dks = Inr (s', t') \<and>
      rep s' t' (foldl (\<lambda>M (d, k). enqueue_map M k d) M dks)"
proof (induction dks arbitrary: s t M)
  case Nil
  then show ?case by simp
next
  case (Cons dk dks)
  obtain d k where dk: "dk = (d, k)" by fastforce
  with Cons.prems obtain s1 t1 where i: "ins s t d k = Inr (s1, t1, 0)" "rep s1 t1 (enqueue_map M k d)"
    "room s - 1 \<le> room s1"
    using ins_ok [of s t M k d] by auto
  moreover have "length dks \<le> room s1" using Cons.prems(3) i(3) by simp
  ultimately show ?case using Cons.IH [OF i(2)] Cons.prems(2) dk by simp
qed

lemma foldl_enqueue:
  "foldl (\<lambda>M (d, k). enqueue_map M k d) M dks k =
    (case M k of None \<Rightarrow> (if queue_of dks k = [] then None else Some (queue_of dks k))
     | Some xs \<Rightarrow> Some (xs @ queue_of dks k))"
proof (induction dks arbitrary: M)
  case Nil
  then show ?case by (simp split: option.splits)
next
  case (Cons dk dks)
  obtain d j where "dk = (d, j)" by fastforce
  with Cons.IH [of "enqueue_map M j d"] show ?case by (auto simp: enqueue_map_def split: option.splits)
qed

lemma enqueue_all_peek:
  assumes "rep s t Map.empty" "\<forall>(d, k)\<in>set dks. fits k" "length dks \<le> room s"
  shows "\<exists>s' t'. enqueue_all ins s t dks = Inr (s', t') \<and>
    rep s' t' (\<lambda>k. if queue_of dks k = [] then None else Some (queue_of dks k)) \<and>
    (\<forall>k. peek s' t' k = Inr (s', t', if queue_of dks k = [] then none else hd (queue_of dks k)))"
proof -
  obtain s' t' where r: "enqueue_all ins s t dks = Inr (s', t')"
    "rep s' t' (foldl (\<lambda>M (d, k). enqueue_map M k d) Map.empty dks)"
    using enqueue_all_ok [OF assms] by blast
  have "foldl (\<lambda>M (d, k). enqueue_map M k d) Map.empty dks =
      (\<lambda>k. if queue_of dks k = [] then None else Some (queue_of dks k))"
    by (rule ext) (simp add: foldl_enqueue)
  with r peek_ok [of s' t'] show ?thesis by auto
qed

end

end
