(* ===== verification/Singly_Linked.thy ===== *)
theory Singly_Linked
  imports Interfaces
begin

unbundle bit_operations_syntax

text \<open>
  \<^verbatim>\<open>kernel/src/data_structures/singly_linked_list.c\<close>: the generic singly linked list, its static
  node pool (itself a list, \<^verbatim>\<open>free_nodes\<close>, whose nodes are their own data) and the fallback to the
  kernel heap. Every list operation takes the memory state and the list header and returns both,
  updated; a NULL dereference is a fault. Spinlocks are left out here: each operation holds the
  list's lock from its first to its last statement.
\<close>

section \<open>State\<close>

record sll_node =
  data :: addr
  "next" :: addr
  nflags :: "64 word"

record sll =
  head :: addr
  tail :: addr
  node_count :: nat
  lflags :: "64 word"

abbreviation (input) STATIC_POOL_NODE :: "64 word" where "STATIC_POOL_NODE \<equiv> 4"
abbreviation (input) STATIC_POOL_FREE_NODE :: "64 word" where "STATIC_POOL_FREE_NODE \<equiv> 8"
abbreviation (input) LIST_FLAG_FREE_NODES :: "64 word" where "LIST_FLAG_FREE_NODES \<equiv> 16"

text \<open>
  \<open>nodes\<close> is the memory that holds list nodes (the static pool and nodes taken from the kernel
  heap), \<open>free_nodes\<close> the header of the free list, \<open>static_pool_setup\<close> its initialisation flag, and
  \<open>kheap\<close> the addresses the kernel heap will hand out for nodes, in order; when it is empty
  \<^verbatim>\<open>_kalloc\<close> returns NULL.
\<close>

record sll_mem =
  nodes :: "addr \<rightharpoonup> sll_node"
  free_nodes :: sll
  static_pool_setup :: bool
  kheap :: "addr list"

section \<open>Operations\<close>

text \<open>
  The part of \<^verbatim>\<open>singly_linked_list_insert_head\<close> after the node for the new head has been chosen.
\<close>

definition link_head :: "(addr \<rightharpoonup> sll_node) \<Rightarrow> sll \<Rightarrow> addr \<Rightarrow> addr \<Rightarrow> ((addr \<rightharpoonup> sll_node) \<times> sll) res" where
  "link_head m l new_head d =
     (if new_head = NULL then Inl (Panic ''singly_linked_list_insert_tail : Allocation Failure'')
      else bindR (modify m new_head (\<lambda>n. n\<lparr>data := d\<rparr>)) (\<lambda>m.
        if node_count l = 0 then
          bindR (modify m new_head (\<lambda>n. n\<lparr>next := NULL\<rparr>)) (\<lambda>m.
            Inr (m, l\<lparr>head := new_head, tail := NULL, node_count := node_count l + 1\<rparr>))
        else if node_count l = 1 then
          bindR (modify m new_head (\<lambda>n. n\<lparr>next := head l\<rparr>)) (\<lambda>m.
            let new_tail = head l in
            bindR (modify m new_tail (\<lambda>n. n\<lparr>next := NULL\<rparr>)) (\<lambda>m.
              Inr (m, l\<lparr>head := new_head, tail := new_tail, node_count := node_count l + 1\<rparr>)))
        else
          bindR (modify m new_head (\<lambda>n. n\<lparr>next := head l\<rparr>)) (\<lambda>m.
            Inr (m, l\<lparr>head := new_head, node_count := node_count l + 1\<rparr>))))"

text \<open>
  \<^verbatim>\<open>singly_linked_list_remove_head\<close> on a list that carries \<^verbatim>\<open>LIST_FLAG_FREE_NODES\<close>: the node is not
  returned to the pool, and the tail is left as it is.
\<close>

definition free_list_remove_head :: "(addr \<rightharpoonup> sll_node) \<Rightarrow> sll \<Rightarrow> (sll \<times> addr) res" where
  "free_list_remove_head m l =
     (if node_count l = 0 \<or> head l = NULL then Inr (l, NULL)
      else bindR (deref m (head l)) (\<lambda>h.
        Inr (l\<lparr>head := next h, node_count := node_count l - 1\<rparr>, data h)))"

definition singly_linked_list_node_alloc :: "sll_mem \<Rightarrow> (sll_mem \<times> addr) res" where
  "singly_linked_list_node_alloc s =
     bindR (free_list_remove_head (nodes s) (free_nodes s)) (\<lambda>(fl, p).
       let (s, p) =
         (if p = NULL then
            (case kheap s of
               [] \<Rightarrow> (s\<lparr>free_nodes := fl\<rparr>, NULL)
             | a # rest \<Rightarrow> (s\<lparr>free_nodes := fl, kheap := rest,
                             nodes := (nodes s)(a \<mapsto> \<lparr>data = 0, next = 0, nflags = 0\<rparr>)\<rparr>, a))
          else (s\<lparr>free_nodes := fl\<rparr>, p))
       in bindR (modify (nodes s) p
                   (\<lambda>n. n\<lparr>nflags := nflags n AND NOT STATIC_POOL_FREE_NODE, data := NULL\<rparr>)) (\<lambda>m.
            Inr (s\<lparr>nodes := m\<rparr>, p)))"

text \<open>
  \<^verbatim>\<open>free_nodes\<close> carries \<^verbatim>\<open>LIST_FLAG_FREE_NODES\<close>, so the insertion into it takes the node itself as
  the new head. A free list without the flag is not modelled.
\<close>

definition singly_linked_list_node_free :: "sll_mem \<Rightarrow> addr \<Rightarrow> sll_mem res" where
  "singly_linked_list_node_free s p =
     bindR (deref (nodes s) p) (\<lambda>n.
       if nflags n AND STATIC_POOL_NODE \<noteq> 0 then
         bindR (modify (nodes s) p
                 (\<lambda>n. n\<lparr>nflags := nflags n AND NOT STATIC_POOL_FREE_NODE, data := NULL, next := NULL\<rparr>)) (\<lambda>m.
           if lflags (free_nodes s) AND LIST_FLAG_FREE_NODES = 0 then Inl Unmodelled
           else bindR (link_head m (free_nodes s) p p) (\<lambda>(m, fl).
             Inr (s\<lparr>nodes := m, free_nodes := fl\<rparr>)))
       else Inr (s\<lparr>nodes := (nodes s)(p := None), kheap := p # kheap s\<rparr>))"

definition singly_linked_list_insert_head :: "sll_mem \<Rightarrow> sll \<Rightarrow> addr \<Rightarrow> (sll_mem \<times> sll) res" where
  "singly_linked_list_insert_head s l d =
     bindR (if lflags l AND LIST_FLAG_FREE_NODES \<noteq> 0 then Inr (s, d)
            else singly_linked_list_node_alloc s) (\<lambda>(s, new_head).
       bindR (link_head (nodes s) l new_head d) (\<lambda>(m, l). Inr (s\<lparr>nodes := m\<rparr>, l)))"

definition singly_linked_list_insert_tail :: "sll_mem \<Rightarrow> sll \<Rightarrow> addr \<Rightarrow> (sll_mem \<times> sll) res" where
  "singly_linked_list_insert_tail s l d =
     bindR (if lflags l AND LIST_FLAG_FREE_NODES \<noteq> 0 then Inr (s, d)
            else singly_linked_list_node_alloc s) (\<lambda>(s, new_node).
       if new_node = NULL then Inl (Panic ''singly_linked_list_insert_tail : Allocation Failure'')
       else bindR (modify (nodes s) new_node (\<lambda>n. n\<lparr>data := d, next := NULL\<rparr>)) (\<lambda>m.
         if tail l = NULL \<and> node_count l = 1 then
           bindR (modify m (head l) (\<lambda>n. n\<lparr>next := new_node\<rparr>)) (\<lambda>m.
             Inr (s\<lparr>nodes := m\<rparr>, l\<lparr>tail := new_node, node_count := node_count l + 1\<rparr>))
         else
           bindR (modify m (tail l) (\<lambda>n. n\<lparr>next := new_node\<rparr>)) (\<lambda>m.
             Inr (s\<lparr>nodes := m\<rparr>, l\<lparr>tail := new_node, node_count := node_count l + 1\<rparr>))))"

definition singly_linked_list_remove_head :: "sll_mem \<Rightarrow> sll \<Rightarrow> (sll_mem \<times> sll \<times> addr) res" where
  "singly_linked_list_remove_head s l =
     (if node_count l = 0 \<or> head l = NULL then Inr (s, l, NULL)
      else bindR (deref (nodes s) (head l)) (\<lambda>h.
        let return_value = data h in
        if lflags l AND LIST_FLAG_FREE_NODES \<noteq> 0 then
          Inr (s, l\<lparr>head := next h, node_count := node_count l - 1\<rparr>, return_value)
        else if node_count l = 1 then
          bindR (singly_linked_list_node_free s (head l)) (\<lambda>s.
            Inr (s, l\<lparr>head := NULL, tail := NULL, node_count := node_count l - 1\<rparr>, return_value))
        else if node_count l = 2 then
          bindR (modify (nodes s) (tail l) (\<lambda>n. n\<lparr>next := NULL\<rparr>)) (\<lambda>m.
          bindR (modify m (head l) (\<lambda>n. n\<lparr>next := NULL\<rparr>)) (\<lambda>m.
          bindR (singly_linked_list_node_free (s\<lparr>nodes := m\<rparr>) (head l)) (\<lambda>s.
            Inr (s, l\<lparr>head := tail l, tail := NULL, node_count := node_count l - 1\<rparr>, return_value))))
        else
          bindR (singly_linked_list_node_free s (head l)) (\<lambda>s.
            Inr (s, l\<lparr>head := next h, node_count := node_count l - 1\<rparr>, return_value))))"

text \<open>
  The walk of \<^verbatim>\<open>singly_linked_list_remove_tail\<close> and of \<^verbatim>\<open>singly_linked_list_remove_node_by_address\<close>
  follows \<open>next\<close> pointers; on a cyclic list the C code would not stop. The walks take fuel, and
  running out of it is the fault \<open>Unmodelled\<close>; the lemmas show that the number of nodes is enough.
\<close>

fun remove_tail_walk :: "nat \<Rightarrow> (addr \<rightharpoonup> sll_node) \<Rightarrow> addr \<Rightarrow> addr \<Rightarrow> ((addr \<rightharpoonup> sll_node) \<times> addr) res" where
  "remove_tail_walk 0 m node old_tail = (if node = NULL then Inr (m, old_tail) else Inl Unmodelled)"
| "remove_tail_walk (Suc fuel) m node old_tail =
     (if node = NULL then Inr (m, old_tail)
      else bindR (deref m node) (\<lambda>n.
          if next n = old_tail then
            bindR (modify m node (\<lambda>n. n\<lparr>next := NULL\<rparr>)) (\<lambda>m. remove_tail_walk fuel m NULL node)
          else remove_tail_walk fuel m (next n) old_tail))"

text \<open>
  \<^verbatim>\<open>return_value\<close> is uninitialised in C when the tail is NULL and there is more than one node; such a
  list is not well formed, and the model faults there.
\<close>

definition singly_linked_list_remove_tail :: "sll_mem \<Rightarrow> sll \<Rightarrow> (sll_mem \<times> sll \<times> addr) res" where
  "singly_linked_list_remove_tail s l =
     (if node_count l = 0 then Inr (s, l, NULL)
      else if node_count l = 1 then
        bindR (deref (nodes s) (head l)) (\<lambda>h.
        bindR (modify (nodes s) (head l) (\<lambda>n. n\<lparr>next := NULL\<rparr>)) (\<lambda>m.
        bindR (singly_linked_list_node_free (s\<lparr>nodes := m\<rparr>) (head l)) (\<lambda>s.
          Inr (s, l\<lparr>head := NULL, tail := NULL, node_count := node_count l - 1\<rparr>, data h))))
      else
        bindR (deref (nodes s) (tail l)) (\<lambda>t.
        bindR (remove_tail_walk (node_count l) (nodes s) (head l) (tail l)) (\<lambda>(m, new_tail).
        bindR (modify m (tail l) (\<lambda>n. n\<lparr>next := NULL\<rparr>)) (\<lambda>m.
        bindR (singly_linked_list_node_free (s\<lparr>nodes := m\<rparr>) (tail l)) (\<lambda>s.
          Inr (s, l\<lparr>tail := new_tail, node_count := node_count l - 1\<rparr>, data t))))))"

abbreviation (input) NODE_NOT_FOUND :: nat where "NODE_NOT_FOUND \<equiv> 1"
abbreviation (input) KERN_SUCCESS :: nat where "KERN_SUCCESS \<equiv> 0"

fun remove_by_address_walk :: "nat \<Rightarrow> sll_mem \<Rightarrow> sll \<Rightarrow> addr \<Rightarrow> addr \<Rightarrow> addr \<Rightarrow> (sll_mem \<times> sll \<times> nat) res" where
  "remove_by_address_walk 0 s l d prev node =
     (if node = NULL then Inr (s, l, NODE_NOT_FOUND) else Inl Unmodelled)"
| "remove_by_address_walk (Suc fuel) s l d prev node =
     (if node = NULL then Inr (s, l, NODE_NOT_FOUND)
      else bindR (deref (nodes s) node) (\<lambda>n.
          if data n = d then
            bindR (modify (nodes s) prev (\<lambda>p. p\<lparr>next := next n\<rparr>)) (\<lambda>m.
            bindR (singly_linked_list_node_free (s\<lparr>nodes := m\<rparr>) node) (\<lambda>s.
              Inr (s, l\<lparr>node_count := node_count l - 1\<rparr>, KERN_SUCCESS)))
          else bindR (deref (nodes s) prev) (\<lambda>p. remove_by_address_walk fuel s l d (next p) (next n))))"

definition singly_linked_list_remove_node_by_address :: "sll_mem \<Rightarrow> sll \<Rightarrow> addr \<Rightarrow> (sll_mem \<times> sll \<times> nat) res" where
  "singly_linked_list_remove_node_by_address s l d =
     bindR (deref (nodes s) (head l)) (\<lambda>h.
       if data h = d then
         bindR (singly_linked_list_remove_head s l) (\<lambda>(s, l, _). Inr (s, l, KERN_SUCCESS))
       else remove_by_address_walk (node_count l) s l d (head l) (next h))"

fun destroy_walk :: "nat \<Rightarrow> sll_mem \<Rightarrow> addr \<Rightarrow> sll_mem res" where
  "destroy_walk 0 s p = Inr s"
| "destroy_walk (Suc k) s p =
     (if p = NULL then Inr s
      else bindR (deref (nodes s) p) (\<lambda>n.
           bindR (singly_linked_list_node_free s p) (\<lambda>s. destroy_walk k s (next n))))"

definition singly_linked_list_destroy :: "sll_mem \<Rightarrow> sll \<Rightarrow> sll_mem res" where
  "singly_linked_list_destroy s l = destroy_walk (node_count l) s (head l)"

text \<open>
  \<^verbatim>\<open>singly_linked_list_init\<close> with the static pool given as the list of its node addresses, in array
  order; the first call threads them all onto the free list.
\<close>

fun pool_init :: "addr list \<Rightarrow> (addr \<rightharpoonup> sll_node) \<Rightarrow> sll \<Rightarrow> ((addr \<rightharpoonup> sll_node) \<times> sll) res" where
  "pool_init [] m fl = Inr (m, fl)"
| "pool_init (p # ps) m fl =
     bindR (modify m p (\<lambda>n. n\<lparr>nflags := nflags n OR STATIC_POOL_NODE OR STATIC_POOL_FREE_NODE\<rparr>)) (\<lambda>m.
     bindR (link_head m fl p p) (\<lambda>(m, fl). pool_init ps m fl))"

definition singly_linked_list_init :: "addr list \<Rightarrow> sll_mem \<Rightarrow> 64 word \<Rightarrow> (sll_mem \<times> sll) res" where
  "singly_linked_list_init pool s fl =
     bindR (if static_pool_setup s then Inr s
            else bindR (pool_init pool (nodes s)
                          \<lparr>head = NULL, tail = NULL, node_count = 0, lflags = LIST_FLAG_FREE_NODES\<rparr>) (\<lambda>(m, f).
                   Inr (s\<lparr>nodes := m, free_nodes := f, static_pool_setup := True\<rparr>))) (\<lambda>s.
       Inr (s, \<lparr>head = NULL, tail = NULL, node_count = 0, lflags = fl\<rparr>))"

section \<open>Representation\<close>

text \<open>
  \<open>nx\<close> is the successor function of the node memory. A list header represents the cells \<open>ps\<close> when
  following \<open>next\<close> from its head visits exactly them, the count is their number and the tail is as
  the operations keep it: NULL for an empty list, NULL or the only node for a singleton, the last
  node otherwise.
\<close>

definition nx :: "(addr \<rightharpoonup> sll_node) \<Rightarrow> addr \<rightharpoonup> addr" where
  "nx m a = map_option next (m a)"

fun tail_ok :: "addr \<Rightarrow> addr list \<Rightarrow> bool" where
  "tail_ok t [] = (t = NULL)"
| "tail_ok t [p] = (t = NULL \<or> t = p)"
| "tail_ok t (p # q # ps) = (t = last (q # ps))"

definition sll_rep :: "(addr \<rightharpoonup> sll_node) \<Rightarrow> sll \<Rightarrow> addr list \<Rightarrow> bool" where
  "sll_rep m l ps \<longleftrightarrow>
     path (nx m) (head l) ps NULL \<and> node_count l = length ps \<and> tail_ok (tail l) ps"

definition vals :: "(addr \<rightharpoonup> sll_node) \<Rightarrow> addr list \<Rightarrow> addr list" where
  "vals m ps = map (\<lambda>p. data (the (m p))) ps"

text \<open>
  The allocator's invariant: \<open>fs\<close> are the free static nodes, each its own data, and the addresses
  the kernel heap will hand out are fresh.
\<close>

definition mem_ok :: "sll_mem \<Rightarrow> addr list \<Rightarrow> bool" where
  "mem_ok s fs \<longleftrightarrow>
     path (nx (nodes s)) (head (free_nodes s)) fs NULL \<and>
     node_count (free_nodes s) = length fs \<and>
     lflags (free_nodes s) AND LIST_FLAG_FREE_NODES \<noteq> 0 \<and>
     (\<forall>p\<in>set fs. \<exists>n. nodes s p = Some n \<and> data n = p \<and> nflags n AND STATIC_POOL_NODE \<noteq> 0) \<and>
     distinct (kheap s) \<and> NULL \<notin> set (kheap s) \<and> (\<forall>a\<in>set (kheap s). nodes s a = None)"

text \<open>A live list: the allocator is sound and the list owns its cells.\<close>

definition live :: "sll_mem \<Rightarrow> addr list \<Rightarrow> sll \<Rightarrow> addr list \<Rightarrow> bool" where
  "live s fs l ps \<longleftrightarrow> mem_ok s fs \<and> sll_rep (nodes s) l ps \<and> set ps \<inter> set fs = {} \<and>
     lflags l AND LIST_FLAG_FREE_NODES = 0"

text \<open>The list read as a sequence of data pointers, and whether a node can be allocated.\<close>

definition sll_list :: "sll_mem \<Rightarrow> sll \<Rightarrow> addr list \<Rightarrow> bool" where
  "sll_list s l xs \<longleftrightarrow> (\<exists>fs ps. live s fs l ps \<and> vals (nodes s) ps = xs)"

definition room :: "sll_mem \<Rightarrow> nat" where
  "room s = node_count (free_nodes s) + length (kheap s)"

text \<open>What an operation on one list leaves alone: every allocated cell that is neither free nor its own.\<close>

definition frame :: "sll_mem \<Rightarrow> addr list \<Rightarrow> addr list \<Rightarrow> sll_mem \<Rightarrow> addr list \<Rightarrow> bool" where
  "frame s fs ps s' fs' \<longleftrightarrow>
     (\<forall>a. a \<in> dom (nodes s) \<and> a \<notin> set fs \<and> a \<notin> set ps \<longrightarrow> nodes s' a = nodes s a \<and> a \<notin> set fs')"

text \<open>
  A small concrete memory for the witnesses: free static nodes 1 and 2, one kernel heap address, and
  a list of three static nodes that hold 70, 71, 72.
\<close>

definition demo_mem :: sll_mem where
  "demo_mem = \<lparr>nodes = [1 \<mapsto> \<lparr>data = 1, next = 2, nflags = 4\<rparr>, 2 \<mapsto> \<lparr>data = 2, next = 0, nflags = 4\<rparr>,
       5 \<mapsto> \<lparr>data = 70, next = 6, nflags = 4\<rparr>, 6 \<mapsto> \<lparr>data = 71, next = 7, nflags = 4\<rparr>,
       7 \<mapsto> \<lparr>data = 72, next = 0, nflags = 4\<rparr>],
     free_nodes = \<lparr>head = 1, tail = 2, node_count = 2, lflags = 16\<rparr>,
     static_pool_setup = True, kheap = [9]\<rparr>"

definition demo_list :: sll where
  "demo_list = \<lparr>head = 5, tail = 7, node_count = 3, lflags = 0\<rparr>"

definition demo_raw :: sll_mem where
  "demo_raw = \<lparr>nodes = [1 \<mapsto> \<lparr>data = 0, next = 0, nflags = 0\<rparr>, 2 \<mapsto> \<lparr>data = 0, next = 0, nflags = 0\<rparr>],
     free_nodes = \<lparr>head = 0, tail = 0, node_count = 0, lflags = 0\<rparr>,
     static_pool_setup = False, kheap = [9]\<rparr>"

lemma nx_upd [simp]: "nx (m(a \<mapsto> n)) = (nx m)(a \<mapsto> next n)"
  by (auto simp: nx_def)

lemma nx_del [simp]: "nx (m(a := None)) = (nx m)(a := None)"
  by (auto simp: nx_def)

lemma nx_Some [simp]: "nx m a = Some b \<longleftrightarrow> (\<exists>n. m a = Some n \<and> next n = b)"
  by (auto simp: nx_def)

lemma dom_nx [simp]: "dom (nx m) = dom m"
  by (auto simp: nx_def dom_def)

lemma vals_Nil [simp]: "vals m [] = []"
  by (simp add: vals_def)

lemma vals_Cons [simp]: "vals m (p # ps) = data (the (m p)) # vals m ps"
  by (simp add: vals_def)

lemma vals_append [simp]: "vals m (ps @ qs) = vals m ps @ vals m qs"
  by (simp add: vals_def)

lemma vals_upd [simp]: "a \<notin> set ps \<Longrightarrow> vals (m(a := v)) ps = vals m ps"
  by (auto simp: vals_def)

lemma length_vals [simp]: "length (vals m ps) = length ps"
  by (simp add: vals_def)

lemma vals_eq_Nil [simp]: "vals m ps = [] \<longleftrightarrow> ps = []"
  by (simp add: vals_def)

lemma path_nodes: "path (nx m) p ps q \<Longrightarrow> a \<in> set ps \<Longrightarrow> \<exists>n. m a = Some n"
  using path_dom [of "nx m" p ps q] by auto

lemma tail_ok_ge2: "2 \<le> length ps \<Longrightarrow> tail_ok t ps \<longleftrightarrow> t = last ps"
  by (cases "(t, ps)" rule: tail_ok.cases) auto

lemma tail_ok_in: "tail_ok t ps \<Longrightarrow> t \<noteq> NULL \<Longrightarrow> t \<in> set ps"
  by (cases "(t, ps)" rule: tail_ok.cases) auto

lemma tail_ok_snoc [simp]: "tail_ok p (ps @ [p])"
  by (cases ps) (simp_all add: tail_ok_ge2)

section \<open>Linking a head and the node allocator\<close>

lemma link_head_eq:
  assumes "path (nx m) (head l) ps NULL" "node_count l = length ps"
    and "p \<noteq> NULL" "p \<notin> set ps" "m p = Some n"
  shows "link_head m l p d =
    Inr (m(p \<mapsto> n\<lparr>data := d, next := head l\<rparr>),
         l\<lparr>head := p, tail := (if ps = [] then NULL else if length ps = 1 then head l else tail l),
           node_count := Suc (length ps)\<rparr>)"
proof -
  consider "ps = []" | q where "ps = [q]" | "2 \<le> length ps"
    by (cases ps; cases "List.tl ps") auto
  then show ?thesis
  proof cases
    case 1
    with assms show ?thesis by (simp add: link_head_def)
  next
    case (2 q)
    with assms obtain k where k: "m q = Some k" "next k = NULL" "head l = q" "q \<noteq> NULL" "q \<noteq> p"
      by auto
    then have "m(p \<mapsto> x, q \<mapsto> k\<lparr>next := 0\<rparr>) = m(p \<mapsto> x)" for x
      by (auto simp: fun_eq_iff)
    with k 2 assms show ?thesis by (simp add: link_head_def)
  next
    case 3
    with assms show ?thesis by (auto simp: link_head_def)
  qed
qed

lemma tail_ok_link:
  assumes "tail_ok t ps" and "ps \<noteq> [] \<Longrightarrow> h = hd ps"
  shows "tail_ok (if ps = [] then NULL else if length ps = 1 then h else t) (p # ps)"
proof -
  consider "ps = []" | q where "ps = [q]" | q r rs where "ps = q # r # rs"
    by (metis neq_Nil_conv)
  then show ?thesis using assms by cases auto
qed

lemma link_head_rep:
  assumes "sll_rep m l ps" "p \<noteq> NULL" "p \<notin> set ps" "m p = Some n"
  obtains l' where "link_head m l p d = Inr (m(p \<mapsto> n\<lparr>data := d, next := head l\<rparr>), l')"
    and "sll_rep (m(p \<mapsto> n\<lparr>data := d, next := head l\<rparr>)) l' (p # ps)"
    and "lflags l' = lflags l"
proof -
  let ?l' = "l\<lparr>head := p,
      tail := (if ps = [] then NULL else if length ps = 1 then head l else tail l),
      node_count := Suc (length ps)\<rparr>"
  let ?m' = "m(p \<mapsto> n\<lparr>data := d, next := head l\<rparr>)"
  from assms(1) have pth: "path (nx m) (head l) ps NULL" and c: "node_count l = length ps"
    and t: "tail_ok (tail l) ps"
    by (auto simp: sll_rep_def)
  have "tail_ok (tail ?l') (p # ps)"
    using tail_ok_link [OF t, of "head l" p] path_hd [OF pth] by auto
  then have "sll_rep ?m' ?l' (p # ps)"
    using pth assms by (simp add: sll_rep_def)
  then show thesis
    using that [OF link_head_eq [OF pth c assms(2-4)]] by simp
qed

text \<open>
  Allocation takes the head of the free list, or the next kernel heap address when the free list is
  empty. Only the cell it returns changes.
\<close>

lemma node_alloc_ok:
  assumes ok: "mem_ok s fs" and r: "0 < room s"
  obtains s' p n fs' where "singly_linked_list_node_alloc s = Inr (s', p)"
    and "p \<noteq> NULL" and "mem_ok s' fs'" and "set fs' \<subseteq> set fs" and "p \<notin> set fs'"
    and "p \<notin> set (kheap s')" and "nodes s' = (nodes s)(p \<mapsto> n)"
    and "p \<in> set fs \<or> nodes s p = None" and "room s' = room s - 1"
proof (cases fs)
  case Nil
  with ok r obtain a rest where a: "kheap s = a # rest" "a \<noteq> NULL" "nodes s a = None"
    by (cases "kheap s") (auto simp: mem_ok_def room_def)
  with ok Nil show thesis
    by (intro that [where s' = "s\<lparr>kheap := rest, nodes := (nodes s)(a \<mapsto> \<lparr>data = 0, next = 0, nflags = 0\<rparr>)\<rparr>"
          and p = a and n = "\<lparr>data = 0, next = 0, nflags = 0\<rparr>" and fs' = "[]"])
      (auto simp: singly_linked_list_node_alloc_def free_list_remove_head_def mem_ok_def room_def)
next
  case (Cons p fs')
  with ok obtain k where k: "nodes s p = Some k" "data k = p" "p \<noteq> NULL" "head (free_nodes s) = p"
    "path (nx (nodes s)) (next k) fs' NULL"
    by (auto simp: mem_ok_def)
  have "path (nx (nodes s)) (head (free_nodes s)) (p # fs') NULL"
    using ok Cons by (simp add: mem_ok_def)
  from path_distinct [OF this] have dist: "p \<notin> set fs'" by simp
  let ?k = "k\<lparr>nflags := nflags k AND NOT STATIC_POOL_FREE_NODE, data := NULL\<rparr>"
  let ?f = "(free_nodes s)\<lparr>head := next k, node_count := node_count (free_nodes s) - 1\<rparr>"
  have "p \<notin> set (kheap s)"
    using ok k by (auto simp: mem_ok_def)
  with ok Cons k dist show thesis
    by (intro that [where s' = "s\<lparr>free_nodes := ?f, nodes := (nodes s)(p \<mapsto> ?k)\<rparr>" and p = p and n = ?k
            and fs' = fs'])
      (auto simp: singly_linked_list_node_alloc_def free_list_remove_head_def mem_ok_def room_def)
qed

text \<open>
  Freeing a node gives it back to the pool it came from: only that cell changes, and it is not part
  of any list any more.
\<close>

lemma node_free_ok:
  assumes ok: "mem_ok s fs" and n: "nodes s p = Some n" and p: "p \<noteq> NULL" "p \<notin> set fs"
  obtains s' v fs' where "singly_linked_list_node_free s p = Inr s'" and "mem_ok s' fs'"
    and "set fs' \<subseteq> insert p (set fs)" and "nodes s' = (nodes s)(p := v)" and "room s' = room s + 1"
proof (cases "nflags n AND STATIC_POOL_NODE \<noteq> 0")
  case True
  let ?n = "n\<lparr>nflags := nflags n AND NOT STATIC_POOL_FREE_NODE, data := NULL, next := NULL\<rparr>"
  let ?m = "(nodes s)(p \<mapsto> ?n)"
  let ?n' = "?n\<lparr>data := p, next := head (free_nodes s)\<rparr>"
  have keep: "(x AND - 9) AND 4 = x AND (4 :: 64 word)" for x
    by (simp add: and.assoc)
  from ok p have "path (nx ?m) (head (free_nodes s)) fs NULL"
    by (simp add: mem_ok_def)
  from link_head_eq [OF this _ p(1,2), of ?n p] ok
  obtain fl where lh: "link_head ?m (free_nodes s) p p = Inr (?m(p \<mapsto> ?n'), fl)"
    and fl: "head fl = p" "node_count fl = Suc (length fs)" "lflags fl = lflags (free_nodes s)"
    by (auto simp: mem_ok_def)
  have "p \<notin> set (kheap s)" using ok n by (auto simp: mem_ok_def)
  with ok n p True lh fl show thesis
    by (intro that [where s' = "s\<lparr>nodes := ?m(p \<mapsto> ?n'), free_nodes := fl\<rparr>" and fs' = "p # fs" and v = "Some ?n'"])
      (auto simp: singly_linked_list_node_free_def mem_ok_def room_def keep)
next
  case False
  have fresh: "p \<notin> set (kheap s)" using ok n by (auto simp: mem_ok_def)
  with ok n p False show thesis
    by (intro that [where s' = "s\<lparr>nodes := (nodes s)(p := None), kheap := p # kheap s\<rparr>" and fs' = fs and v = None])
      (auto simp: singly_linked_list_node_free_def mem_ok_def room_def)
qed

section \<open>The list operations\<close>

lemma sll_rep_cong:
  assumes "\<And>a. a \<in> set ps \<Longrightarrow> m a = m' a"
  shows "sll_rep m l ps \<longleftrightarrow> sll_rep m' l ps" and "vals m ps = vals m' ps"
  using path_cong [of ps "nx m" "nx m'"] assms by (auto simp: sll_rep_def nx_def vals_def)

lemma sll_rep_upd [simp]: "a \<notin> set ps \<Longrightarrow> sll_rep (m(a := v)) l ps = sll_rep m l ps"
  by (rule sll_rep_cong(1)) auto

lemma frame_other_list:
  assumes "frame s fs ps s' fs'" "mem_ok s' fs'" and o: "live s fs k qs" and "set qs \<inter> set ps = {}"
  shows "live s' fs' k qs" and "vals (nodes s') qs = vals (nodes s) qs"
proof -
  from o have "set qs \<subseteq> dom (nodes s)"
    using path_dom by (fastforce simp: live_def sll_rep_def)
  with assms have eq: "\<And>a. a \<in> set qs \<Longrightarrow> nodes s a = nodes s' a \<and> a \<notin> set fs'"
    by (fastforce simp: frame_def live_def)
  with o assms(2) show "live s' fs' k qs"
    using sll_rep_cong(1) [of qs "nodes s" "nodes s'" k] by (auto simp: live_def)
  show "vals (nodes s') qs = vals (nodes s) qs"
    using sll_rep_cong(2) [of qs "nodes s" "nodes s'"] eq by auto
qed

lemma live_path: "live s fs l ps \<Longrightarrow> path (nx (nodes s)) (head l) ps NULL"
  by (simp add: live_def sll_rep_def)

lemma live_alloc:
  assumes "live s fs l ps" and "0 < room s"
  obtains s' p n fs' where "singly_linked_list_node_alloc s = Inr (s', p)" and "p \<noteq> NULL"
    and "live s' fs' l ps" and "p \<notin> set fs'" and "p \<notin> set (kheap s')" and "p \<notin> set ps"
    and "nodes s' = (nodes s)(p \<mapsto> n)" and "room s' = room s - 1" and "frame s fs ps s' fs'"
    and "p \<in> set fs \<or> nodes s p = None"
proof -
  have ok: "mem_ok s fs" using assms(1) by (simp add: live_def)
  obtain s' p n fs' where a: "singly_linked_list_node_alloc s = Inr (s', p)" "p \<noteq> NULL"
    "mem_ok s' fs'" "set fs' \<subseteq> set fs" "p \<notin> set fs'" "p \<notin> set (kheap s')"
    "nodes s' = (nodes s)(p \<mapsto> n)" "p \<in> set fs \<or> nodes s p = None" "room s' = room s - 1"
    by (rule node_alloc_ok [OF ok assms(2)])
  have np: "p \<notin> set ps"
    using a(8) assms(1) path_nodes [OF live_path [OF assms(1)], of p] by (auto simp: live_def)
  have "sll_rep (nodes s') l ps"
    using assms(1) np a(7) by (auto simp: live_def sll_rep_def)
  with a np assms(1) show thesis
    by (intro that [of s' p fs' n]) (auto simp: live_def frame_def)
qed

lemma live_upd_new:
  assumes "live s fs l ps" "p \<notin> set fs" "p \<notin> set (kheap s)" "sll_rep ((nodes s)(p \<mapsto> n)) l' ps'"
    "set ps' \<subseteq> insert p (set ps)" "lflags l' = lflags l"
  shows "live (s\<lparr>nodes := (nodes s)(p \<mapsto> n)\<rparr>) fs l' ps'"
  using assms by (auto simp: live_def mem_ok_def)

lemma insert_head_live:
  assumes "live s fs l ps" and "0 < room s"
  obtains s' l' fs' p where "singly_linked_list_insert_head s l d = Inr (s', l')"
    and "live s' fs' l' (p # ps)" and "vals (nodes s') (p # ps) = d # vals (nodes s) ps"
    and "room s' = room s - 1" and "frame s fs ps s' fs'"
    and "p \<in> set fs \<or> nodes s p = None"
proof -
  obtain s1 p n fs' where a: "singly_linked_list_node_alloc s = Inr (s1, p)" "p \<noteq> NULL"
    "live s1 fs' l ps" "p \<notin> set fs'" "p \<notin> set (kheap s1)" "p \<notin> set ps"
    "nodes s1 = (nodes s)(p \<mapsto> n)" "room s1 = room s - 1" "frame s fs ps s1 fs'"
    "p \<in> set fs \<or> nodes s p = None"
    by (rule live_alloc [OF assms])
  have rep: "sll_rep (nodes s1) l ps" using a(3) by (simp add: live_def)
  let ?n = "n\<lparr>data := d, next := head l\<rparr>"
  obtain l' where l': "link_head (nodes s1) l p d = Inr ((nodes s1)(p \<mapsto> ?n), l')"
    "sll_rep ((nodes s1)(p \<mapsto> ?n)) l' (p # ps)" "lflags l' = lflags l"
    using a by (auto intro: link_head_rep [OF rep a(2,6), of n d])
  have "live (s1\<lparr>nodes := (nodes s1)(p \<mapsto> ?n)\<rparr>) fs' l' (p # ps)"
    by (rule live_upd_new [OF a(3,4,5) l'(2) _ l'(3)]) simp
  moreover have "frame s fs ps (s1\<lparr>nodes := (nodes s1)(p \<mapsto> ?n)\<rparr>) fs'"
    using a(7,9,10) by (auto simp: frame_def)
  moreover have "singly_linked_list_insert_head s l d = Inr (s1\<lparr>nodes := (nodes s1)(p \<mapsto> ?n)\<rparr>, l')"
    using assms(1) a(1) l'(1) by (simp add: singly_linked_list_insert_head_def live_def)
  ultimately show thesis
    using a that [of "s1\<lparr>nodes := (nodes s1)(p \<mapsto> ?n)\<rparr>" l' fs' p] by (simp add: room_def)
qed

lemma insert_tail_live:
  assumes "live s fs l ps" and "0 < room s" and "ps \<noteq> []"
  obtains s' l' fs' p where "singly_linked_list_insert_tail s l d = Inr (s', l')"
    and "live s' fs' l' (ps @ [p])" and "vals (nodes s') (ps @ [p]) = vals (nodes s) ps @ [d]"
    and "room s' = room s - 1" and "frame s fs ps s' fs'"
    and "p \<in> set fs \<or> nodes s p = None"
proof -
  obtain s1 p n fs' where a: "singly_linked_list_node_alloc s = Inr (s1, p)" "p \<noteq> NULL"
    "live s1 fs' l ps" "p \<notin> set fs'" "p \<notin> set (kheap s1)" "p \<notin> set ps"
    "nodes s1 = (nodes s)(p \<mapsto> n)" "room s1 = room s - 1" "frame s fs ps s1 fs'"
    "p \<in> set fs \<or> nodes s p = None"
    by (rule live_alloc [OF assms(1,2)])
  have pth: "path (nx (nodes s1)) (head l) ps NULL" using a(3) by (rule live_path)
  let ?t = "last ps"
  let ?n = "n\<lparr>data := d, next := NULL\<rparr>"
  obtain k where k: "nodes s1 ?t = Some k" "?t \<noteq> NULL" "?t \<noteq> p"
    using path_nodes [OF pth, of ?t] path_nonzero [OF pth, of ?t] a(6) last_in_set [OF assms(3)] by metis
  let ?m = "(nodes s1)(p \<mapsto> ?n, ?t \<mapsto> k\<lparr>next := p\<rparr>)"
  have tl: "if tail l = NULL \<and> node_count l = 1 then head l = ?t else tail l = ?t"
    using a(3) assms(3) path_hd [OF pth]
    by (cases "(tail l, ps)" rule: tail_ok.cases) (auto simp: live_def sll_rep_def)
  let ?l' = "l\<lparr>tail := p, node_count := node_count l + 1\<rparr>"
  have eq: "singly_linked_list_insert_tail s l d = Inr (s1\<lparr>nodes := ?m\<rparr>, ?l')"
    using assms(1) a k tl by (auto simp: singly_linked_list_insert_tail_def live_def split: if_splits)
  have rep: "sll_rep ?m ?l' (ps @ [p])"
    using path_extend [OF pth assms(3) a(2,6)] a(3) assms(3)
    by (simp add: sll_rep_def live_def)
  have "vals ?m (ps @ [p]) = vals (nodes s) ps @ [d]"
    using a(6,7) k by (auto simp: vals_def)
  moreover have "live (s1\<lparr>nodes := ?m\<rparr>) fs' ?l' (ps @ [p])"
  proof -
    have "?t \<notin> set fs'" "?t \<notin> set (kheap s1)"
      using a(3) last_in_set [OF assms(3)] k by (auto simp: live_def mem_ok_def)
    with a rep show ?thesis by (auto simp: live_def mem_ok_def)
  qed
  moreover have "frame s fs ps (s1\<lparr>nodes := ?m\<rparr>) fs'"
    using a(7,9,10) assms(3) by (auto simp: frame_def)
  ultimately show thesis
    using eq that [of "s1\<lparr>nodes := ?m\<rparr>" ?l' fs' p] a(8,10) by (simp add: room_def)
qed

text \<open>Returning a cell that is no longer part of the list.\<close>

lemma live_free:
  assumes "mem_ok s fs" "sll_rep (nodes s) l ps" "set ps \<inter> set fs = {}" "lflags l AND LIST_FLAG_FREE_NODES = 0"
    and "nodes s p = Some n" "p \<noteq> NULL" "p \<notin> set fs" "p \<notin> set ps"
  obtains s' fs' where "singly_linked_list_node_free s p = Inr s'" and "live s' fs' l ps"
    and "vals (nodes s') ps = vals (nodes s) ps" and "room s' = room s + 1"
    and "frame s fs (p # ps) s' fs'"
proof -
  obtain s' v fs' where f: "singly_linked_list_node_free s p = Inr s'" "mem_ok s' fs'"
    "set fs' \<subseteq> insert p (set fs)" "nodes s' = (nodes s)(p := v)" "room s' = room s + 1"
    by (rule node_free_ok [OF assms(1,5,6,7)])
  have "sll_rep (nodes s') l ps" "vals (nodes s') ps = vals (nodes s) ps"
    using f(4) assms(2,8) by simp_all
  then show thesis
    using f assms by (intro that [of s' fs']) (auto simp: live_def frame_def)
qed

lemma frame_same_nodes:
  assumes "frame (s\<lparr>nodes := m\<rparr>) fs ps s' fs'" "\<And>a. a \<notin> set ps \<Longrightarrow> m a = nodes s a"
  shows "frame s fs ps s' fs'"
  using assms by (auto simp: frame_def dom_def)

lemma mem_ok_upd_nodes:
  assumes "mem_ok s fs" "\<And>a. a \<in> set fs \<Longrightarrow> m a = nodes s a" "\<And>a. a \<in> set (kheap s) \<Longrightarrow> m a = None"
  shows "mem_ok (s\<lparr>nodes := m\<rparr>) fs"
proof -
  have "path (nx m) (head (free_nodes s)) fs NULL"
    using assms path_cong [of fs "nx m" "nx (nodes s)"] by (auto simp: mem_ok_def nx_def)
  with assms show ?thesis by (auto simp: mem_ok_def)
qed

lemma tail_ok_tl: "tail_ok t (p # q # r # ps) \<Longrightarrow> tail_ok t (q # r # ps)"
  by simp

lemma remove_head_live:
  assumes "live s fs l (p # ps)"
  obtains s' l' fs' where
    "singly_linked_list_remove_head s l = Inr (s', l', data (the (nodes s p)))"
    and "live s' fs' l' ps" and "vals (nodes s') ps = vals (nodes s) ps"
    and "room s' = room s + 1" and "frame s fs (p # ps) s' fs'"
proof -
  have pth: "path (nx (nodes s)) (head l) (p # ps) NULL" using assms by (rule live_path)
  then obtain n where n: "nodes s p = Some n" "head l = p" "p \<noteq> NULL" "path (nx (nodes s)) (next n) ps NULL"
    by auto
  have np: "p \<notin> set ps" using path_distinct [OF pth] by simp
  from assms have ok: "mem_ok s fs" "p \<notin> set fs" "set ps \<inter> set fs = {}" "lflags l AND 16 = 0"
    "node_count l = Suc (length ps)" "tail_ok (tail l) (p # ps)" "p \<notin> set (kheap s)"
    using n by (auto simp: live_def sll_rep_def mem_ok_def)
  consider "ps = []" | q where "ps = [q]" | q r rs where "ps = q # r # rs"
    by (metis neq_Nil_conv)
  then show thesis
  proof cases
    case 1
    let ?l = "l\<lparr>head := NULL, tail := NULL, node_count := 0\<rparr>"
    have "sll_rep (nodes s) ?l ps" using 1 by (simp add: sll_rep_def)
    with ok n np obtain s' fs' where "singly_linked_list_node_free s p = Inr s'" "live s' fs' ?l ps"
      "vals (nodes s') ps = vals (nodes s) ps" "room s' = room s + 1" "frame s fs (p # ps) s' fs'"
      by (auto intro: live_free [of s fs ?l ps p n])
    with 1 n ok show thesis by (intro that) (auto simp: singly_linked_list_remove_head_def)
  next
    case (2 q)
    with n obtain k where k: "nodes s q = Some k" "next k = NULL" "next n = q" "q \<noteq> NULL" by auto
    let ?m = "(nodes s)(p \<mapsto> n\<lparr>next := NULL\<rparr>)"
    let ?s = "s\<lparr>nodes := ?m\<rparr>"
    let ?l = "l\<lparr>head := q, tail := NULL, node_count := 1\<rparr>"
    have m: "(nodes s)(q \<mapsto> k\<lparr>next := NULL\<rparr>, p \<mapsto> n\<lparr>next := NULL\<rparr>) = ?m"
      using k by (auto simp: fun_eq_iff)
    have "mem_ok ?s fs" by (rule mem_ok_upd_nodes) (use ok n in \<open>auto simp: mem_ok_def\<close>)
    moreover have "sll_rep (nodes ?s) ?l ps" using 2 k np by (simp add: sll_rep_def)
    ultimately obtain s' fs' where f: "singly_linked_list_node_free ?s p = Inr s'" "live s' fs' ?l ps"
      "vals (nodes s') ps = vals ?m ps" "room s' = room ?s + 1" "frame ?s fs (p # ps) s' fs'"
      using ok n np by (auto intro: live_free [of ?s fs ?l ps p])
    have "frame s fs (p # ps) s' fs'" using frame_same_nodes [OF f(5)] by simp
    moreover have "tail l = q" using ok(6) 2 by simp
    ultimately show thesis using 2 n ok k np f m
      by (intro that [of s' ?l fs']) (auto simp: singly_linked_list_remove_head_def room_def)
  next
    case (3 q r rs)
    let ?l = "l\<lparr>head := next n, node_count := length ps\<rparr>"
    have "sll_rep (nodes s) ?l ps" using 3 n ok by (simp add: sll_rep_def)
    with ok n np obtain s' fs' where "singly_linked_list_node_free s p = Inr s'" "live s' fs' ?l ps"
      "vals (nodes s') ps = vals (nodes s) ps" "room s' = room s + 1" "frame s fs (p # ps) s' fs'"
      by (auto intro: live_free [of s fs ?l ps p n])
    with 3 n ok show thesis
      by (intro that [of s' ?l fs']) (auto simp: singly_linked_list_remove_head_def)
  qed
qed

text \<open>
  The walk of the tail removal stops at the predecessor of the tail, which becomes the new tail.
\<close>

lemma remove_tail_walk_eq:
  assumes "path (nx m) h (ps @ [q, t]) NULL" and "length ps + 1 \<le> fuel"
  shows "\<exists>n. m q = Some n \<and> remove_tail_walk fuel m h t = Inr (m(q \<mapsto> n\<lparr>next := NULL\<rparr>), q)"
  using assms
proof (induction ps arbitrary: h fuel)
  case Nil
  then obtain k where "fuel = Suc k" by (cases fuel) auto
  with Nil show ?case by (cases k) (auto simp: fun_eq_iff)
next
  case (Cons a ps)
  then obtain k where k: "fuel = Suc k" by (cases fuel) auto
  from Cons.prems obtain n where n: "m a = Some n" "h = a" "a \<noteq> NULL" "path (nx m) (next n) (ps @ [q, t]) NULL"
    by auto
  have "next n \<noteq> t"
  proof
    assume "next n = t"
    moreover have "next n = hd (ps @ [q, t])" using path_hd [OF n(4)] by simp
    moreover have "distinct (ps @ [q, t])" by (rule path_distinct [OF n(4)])
    ultimately show False by (cases ps) auto
  qed
  with Cons.IH [OF n(4), of k] Cons.prems(2) n k show ?case by simp
qed

lemma remove_tail_live:
  assumes "live s fs l (ps @ [t])"
  obtains s' l' fs' where
    "singly_linked_list_remove_tail s l = Inr (s', l', data (the (nodes s t)))"
    and "live s' fs' l' ps" and "vals (nodes s') ps = vals (nodes s) ps"
    and "room s' = room s + 1" and "frame s fs (ps @ [t]) s' fs'"
proof -
  have pth: "path (nx (nodes s)) (head l) (ps @ [t]) NULL" using assms by (rule live_path)
  then obtain n where n: "nodes s t = Some n" "t \<noteq> NULL" "next n = NULL"
    by (auto simp: path_snoc)
  have np: "t \<notin> set ps" using path_distinct [OF pth] by simp
  from assms have ok: "mem_ok s fs" "t \<notin> set fs" "set ps \<inter> set fs = {}" "lflags l AND 16 = 0"
    "node_count l = Suc (length ps)" "tail_ok (tail l) (ps @ [t])" "t \<notin> set (kheap s)"
    using n by (auto simp: live_def sll_rep_def mem_ok_def)
  have idem: "m(t \<mapsto> n\<lparr>next := NULL\<rparr>) = m" if "m t = Some n" for m :: "addr \<rightharpoonup> sll_node"
    using that n by (auto simp: fun_eq_iff)
  show thesis
  proof (cases ps rule: rev_cases)
    case Nil
    let ?l = "l\<lparr>head := NULL, tail := NULL, node_count := 0\<rparr>"
    have "sll_rep (nodes s) ?l ps" using Nil by (simp add: sll_rep_def)
    with ok n np obtain s' fs' where "singly_linked_list_node_free s t = Inr s'" "live s' fs' ?l ps"
      "vals (nodes s') ps = vals (nodes s) ps" "room s' = room s + 1" "frame s fs (t # ps) s' fs'"
      by (auto intro: live_free [of s fs ?l ps t n])
    moreover have "head l = t" using pth Nil by simp
    ultimately show thesis using Nil n ok idem [of "nodes s"]
      by (intro that [of s' ?l fs']) (auto simp: singly_linked_list_remove_tail_def)
  next
    case (snoc qs q)
    then have pth': "path (nx (nodes s)) (head l) (qs @ [q, t]) NULL" using pth by simp
    have "length qs + 1 \<le> node_count l" using ok(5) snoc by simp
    from remove_tail_walk_eq [OF pth' this] obtain k where k: "nodes s q = Some k"
      "remove_tail_walk (node_count l) (nodes s) (head l) t = Inr ((nodes s)(q \<mapsto> k\<lparr>next := NULL\<rparr>), q)"
      by auto
    let ?m = "(nodes s)(q \<mapsto> k\<lparr>next := NULL\<rparr>)"
    let ?s = "s\<lparr>nodes := ?m\<rparr>"
    let ?l = "l\<lparr>tail := q, node_count := length ps\<rparr>"
    have qt: "q \<noteq> t" "q \<notin> set qs" "q \<notin> set fs" "q \<notin> set (kheap s)"
      using np path_distinct [OF pth] snoc ok(1,3) k by (auto simp: mem_ok_def)
    have "mem_ok ?s fs" by (rule mem_ok_upd_nodes) (use ok qt in \<open>auto simp: mem_ok_def\<close>)
    moreover have "sll_rep (nodes ?s) ?l ps"
    proof -
      have "path (nx (nodes s)) (head l) qs q" "q \<noteq> NULL" using pth' by (auto simp: path_append)
      then have "path (nx ?m) (head l) (qs @ [q]) NULL" using qt by (simp add: path_snoc)
      then show ?thesis using snoc by (simp add: sll_rep_def)
    qed
    ultimately obtain s' fs' where f: "singly_linked_list_node_free ?s t = Inr s'" "live s' fs' ?l ps"
      "vals (nodes s') ps = vals ?m ps" "room s' = room ?s + 1" "frame ?s fs (t # ps) s' fs'"
      using ok n np qt by (auto intro: live_free [of ?s fs ?l ps t n])
    have "frame s fs (ps @ [t]) s' fs'"
      using f(5) snoc by (auto simp: frame_def split: if_splits)
    moreover have "vals ?m ps = vals (nodes s) ps" using k by (auto simp: vals_def)
    moreover have "tail l = t" using ok(6) snoc by (simp add: tail_ok_ge2)
    moreover have "?m(t \<mapsto> n\<lparr>next := NULL\<rparr>) = ?m" using idem n qt by simp
    ultimately show thesis using snoc n ok f k qt
      by (intro that [of s' ?l fs']) (auto simp: singly_linked_list_remove_tail_def room_def)
  qed
qed

text \<open>
  Removal by data address. The walk keeps \<open>prev\<close> one cell behind \<open>node\<close>; the header's tail is not
  updated, so the result is a well-formed list unless the removed cell is the last one.
\<close>

lemma remove_by_address_walk_found:
  assumes ok: "mem_ok s fs" and "path (nx (nodes s)) h (as @ [p, q] @ bs) NULL" "length as + 1 \<le> fuel"
    and "h' = hd (as @ [p])" "h'' = hd (List.tl (as @ [p]) @ [q])"
    and "\<forall>a\<in>set (List.tl (as @ [p])). data (the (nodes s a)) \<noteq> d"
    and q: "data (the (nodes s q)) = d" and dj: "set (as @ [p, q] @ bs) \<inter> set fs = {}"
  shows "\<exists>np nq s' fs'. nodes s p = Some np \<and> nodes s q = Some nq \<and>
     remove_by_address_walk fuel s l d h' h'' = Inr (s', l\<lparr>node_count := node_count l - 1\<rparr>, KERN_SUCCESS) \<and>
     mem_ok s' fs' \<and> set fs' \<subseteq> insert q (set fs) \<and> room s' = room s + 1 \<and>
     (\<exists>v. nodes s' = (nodes s)(p \<mapsto> np\<lparr>next := next nq\<rparr>, q := v))"
  using assms(2-6)
proof (induction as arbitrary: h h' h'' fuel)
  case Nil
  from Nil.prems obtain np nq where n: "nodes s p = Some np" "nodes s q = Some nq" "p \<noteq> NULL" "q \<noteq> NULL"
    by auto
  have pq: "p \<noteq> q" using path_distinct [OF Nil.prems(1)] by auto
  let ?m = "(nodes s)(p \<mapsto> np\<lparr>next := next nq\<rparr>)"
  have ok': "mem_ok (s\<lparr>nodes := ?m\<rparr>) fs"
    by (rule mem_ok_upd_nodes) (use ok n dj in \<open>auto simp: mem_ok_def\<close>)
  have q': "nodes (s\<lparr>nodes := ?m\<rparr>) q = Some nq" "q \<notin> set fs" using n pq dj by auto
  obtain s' v fs' where f: "singly_linked_list_node_free (s\<lparr>nodes := ?m\<rparr>) q = Inr s'" "mem_ok s' fs'"
    "set fs' \<subseteq> insert q (set fs)" "nodes s' = ?m(q := v)" "room s' = room (s\<lparr>nodes := ?m\<rparr>) + 1"
    by (rule node_free_ok [OF ok' q'(1) n(4) q'(2)]) simp
  obtain k where "fuel = Suc k" using Nil.prems(2) by (cases fuel) auto
  then have "remove_by_address_walk fuel s l d h' h'' =
      Inr (s', l\<lparr>node_count := node_count l - 1\<rparr>, KERN_SUCCESS)"
    using n pq f(1) q Nil.prems(3,4) by simp
  moreover have "room s' = room s + 1" using f(5) by (simp add: room_def)
  ultimately show ?case using n f(2,3,4) by blast
next
  case (Cons a as)
  obtain k where k: "fuel = Suc k" using Cons.prems(2) by (cases fuel) auto
  from Cons.prems(1) obtain na where na: "nodes s a = Some na" "a \<noteq> NULL" "h = a"
    "path (nx (nodes s)) (next na) (as @ [p, q] @ bs) NULL"
    by auto
  have nn: "next na = hd (as @ [p])" using path_hd [OF na(4)] by (cases as) auto
  then have h'': "h'' = next na" using Cons.prems(4) by (cases as) auto
  let ?b = "hd (as @ [p])"
  obtain nb where nb: "nodes s ?b = Some nb" "?b \<noteq> NULL" "next nb = hd (List.tl (as @ [p]) @ [q])"
    using path_first_two [OF na(4)] nn by auto
  have "data nb \<noteq> d" using Cons.prems(5) nb by (cases as) auto
  moreover have "\<forall>c\<in>set (List.tl (as @ [p])). data (the (nodes s c)) \<noteq> d"
    using Cons.prems(5) by (cases as) auto
  moreover have "length as + 1 \<le> k" using Cons.prems(2) k by simp
  ultimately show ?case
    using Cons.IH [OF na(4), of k ?b "next nb"] nb na k nn h'' Cons.prems(3) by simp
qed

lemma remove_by_address_head:
  assumes "live s fs l (p # ps)" and "data (the (nodes s p)) = d"
  shows "\<exists>s' l' fs'. singly_linked_list_remove_node_by_address s l d = Inr (s', l', KERN_SUCCESS) \<and>
     live s' fs' l' ps \<and> vals (nodes s') ps = vals (nodes s) ps \<and> room s' = room s + 1 \<and>
     frame s fs (p # ps) s' fs'"
proof -
  obtain s' l' fs' where
    r: "singly_linked_list_remove_head s l = Inr (s', l', data (the (nodes s p)))" "live s' fs' l' ps"
      "vals (nodes s') ps = vals (nodes s) ps" "room s' = room s + 1" "frame s fs (p # ps) s' fs'"
    by (rule remove_head_live [OF assms(1)])
  moreover obtain n where "nodes s p = Some n" "head l = p" "p \<noteq> NULL"
    using live_path [OF assms(1)] by auto
  ultimately show ?thesis
    using assms(2) by (auto simp: singly_linked_list_remove_node_by_address_def)
qed

lemma remove_by_address_inner:
  assumes lv: "live s fs l (as @ [p, q] @ bs)"
    and nd: "\<forall>a\<in>set (as @ [p]). data (the (nodes s a)) \<noteq> d" and q: "data (the (nodes s q)) = d"
  shows "\<exists>s' l' fs'. singly_linked_list_remove_node_by_address s l d = Inr (s', l', KERN_SUCCESS) \<and>
     l' = l\<lparr>node_count := node_count l - 1\<rparr> \<and> mem_ok s' fs' \<and>
     path (nx (nodes s')) (head l') (as @ [p] @ bs) NULL \<and> q \<notin> set (as @ [p] @ bs) \<and>
     vals (nodes s') (as @ [p] @ bs) = vals (nodes s) (as @ [p] @ bs) \<and>
     set fs' \<subseteq> insert q (set fs) \<and> room s' = room s + 1 \<and> frame s fs (as @ [p, q] @ bs) s' fs'"
proof -
  have pth: "path (nx (nodes s)) (head l) (as @ [p, q] @ bs) NULL" using lv by (rule live_path)
  have dist: "distinct (as @ [p, q] @ bs)" using pth by (rule path_distinct)
  have ok: "mem_ok s fs" "set (as @ [p, q] @ bs) \<inter> set fs = {}" "node_count l = length (as @ [p, q] @ bs)"
    using lv by (auto simp: live_def sll_rep_def)
  let ?h = "hd (as @ [p])"
  obtain nh where nh: "head l = ?h" "nodes s ?h = Some nh" "?h \<noteq> NULL"
    "next nh = hd (List.tl (as @ [p]) @ [q])"
    using path_first_two [OF pth] by auto
  have "data nh \<noteq> d" using nd nh(2) by (cases as) auto
  moreover have "\<forall>a\<in>set (List.tl (as @ [p])). data (the (nodes s a)) \<noteq> d" using nd by (cases as) auto
  moreover have "length as + 1 \<le> node_count l" using ok(3) by simp
  ultimately obtain np nq s' fs' v where w: "nodes s p = Some np" "nodes s q = Some nq"
    "singly_linked_list_remove_node_by_address s l d = Inr (s', l\<lparr>node_count := node_count l - 1\<rparr>, KERN_SUCCESS)"
    "mem_ok s' fs'" "set fs' \<subseteq> insert q (set fs)" "room s' = room s + 1"
    "nodes s' = (nodes s)(p \<mapsto> np\<lparr>next := next nq\<rparr>, q := v)"
    using remove_by_address_walk_found [OF ok(1) pth _ refl refl _ q ok(2), of "node_count l" l] nh
    by (auto simp: singly_linked_list_remove_node_by_address_def)
  have "path (nx (nodes s')) (head l) (as @ [p] @ bs) NULL"
  proof -
    obtain r where r: "path (nx (nodes s)) (head l) as p" "p \<noteq> NULL" "path (nx (nodes s)) r bs NULL" "next nq = r"
      using pth w(1,2) by (auto simp: path_append)
    have "\<And>a. a \<in> set (as @ bs) \<Longrightarrow> nx (nodes s') a = nx (nodes s) a"
      using w(7) dist by (auto simp: nx_def)
    then have "path (nx (nodes s')) (head l) as p" "path (nx (nodes s')) r bs NULL"
      using r path_cong [of as "nx (nodes s')" "nx (nodes s)"]
        path_cong [of bs "nx (nodes s')" "nx (nodes s)"] by auto
    then show ?thesis using r(2,4) w(7) dist by (auto simp: path_append)
  qed
  moreover have "vals (nodes s') (as @ [p] @ bs) = vals (nodes s) (as @ [p] @ bs)"
    using w dist by (auto simp: vals_def)
  moreover have "frame s fs (as @ [p, q] @ bs) s' fs'"
    using w(5,7) by (auto simp: frame_def)
  ultimately show ?thesis using w dist by auto
qed

lemma remove_by_address_not_found_walk:
  assumes "path (nx (nodes s)) h (p # ps) NULL" "length ps \<le> fuel"
    "\<forall>a\<in>set ps. data (the (nodes s a)) \<noteq> d"
  shows "remove_by_address_walk fuel s l d p (next (the (nodes s p))) = Inr (s, l, NODE_NOT_FOUND)"
  using assms
proof (induction ps arbitrary: h p fuel)
  case Nil
  then show ?case by (cases fuel) auto
next
  case (Cons a ps)
  then obtain k where k: "fuel = Suc k" by (cases fuel) auto
  from Cons.prems obtain n b where n: "nodes s p = Some n" "next n = a" "nodes s a = Some b" "a \<noteq> NULL" "p \<noteq> NULL"
    "path (nx (nodes s)) a (a # ps) NULL"
    by auto
  with Cons.IH [OF n(6), of k] Cons.prems k show ?case by simp
qed

lemma remove_by_address_not_found:
  assumes "live s fs l (p # ps)" and "d \<notin> set (vals (nodes s) (p # ps))"
  shows "singly_linked_list_remove_node_by_address s l d = Inr (s, l, NODE_NOT_FOUND)"
proof -
  have pth: "path (nx (nodes s)) (head l) (p # ps) NULL" using assms(1) by (rule live_path)
  then obtain n where n: "nodes s p = Some n" "head l = p" "p \<noteq> NULL" by auto
  have "node_count l = Suc (length ps)" using assms(1) by (simp add: live_def sll_rep_def)
  moreover have "\<forall>a\<in>set (p # ps). data (the (nodes s a)) \<noteq> d" using assms(2) by (auto simp: vals_def)
  ultimately show ?thesis
    using remove_by_address_not_found_walk [OF pth, of "node_count l" d l] n
    by (simp add: singly_linked_list_remove_node_by_address_def)
qed

section \<open>The list as a sequence\<close>

lemma insert_head_seq:
  assumes "sll_list s l xs" and "0 < room s"
  shows "\<exists>s' l'. singly_linked_list_insert_head s l d = Inr (s', l') \<and> sll_list s' l' (d # xs) \<and>
    room s' = room s - 1"
proof -
  obtain fs ps where lv: "live s fs l ps" and xs: "vals (nodes s) ps = xs"
    using assms(1) by (auto simp: sll_list_def)
  obtain s' l' fs' p where "singly_linked_list_insert_head s l d = Inr (s', l')" "live s' fs' l' (p # ps)"
    "vals (nodes s') (p # ps) = d # vals (nodes s) ps" "room s' = room s - 1"
    by (rule insert_head_live [OF lv assms(2)])
  with xs show ?thesis unfolding sll_list_def by metis
qed

lemma sll_list_Cons:
  assumes "sll_list s l (x # xs)"
  obtains fs p ps where "live s fs l (p # ps)" and "data (the (nodes s p)) = x" and "vals (nodes s) ps = xs"
proof -
  obtain fs qs where "live s fs l qs" "vals (nodes s) qs = x # xs"
    using assms by (auto simp: sll_list_def)
  with that show thesis by (cases qs) auto
qed

lemma remove_head_seq:
  assumes "sll_list s l (x # xs)"
  shows "\<exists>s' l'. singly_linked_list_remove_head s l = Inr (s', l', x) \<and> sll_list s' l' xs \<and>
    room s' = room s + 1"
proof -
  obtain fs p ps where lv: "live s fs l (p # ps)" and x: "data (the (nodes s p)) = x" "vals (nodes s) ps = xs"
    by (rule sll_list_Cons [OF assms])
  obtain s' l' fs' where "singly_linked_list_remove_head s l = Inr (s', l', data (the (nodes s p)))"
    "live s' fs' l' ps" "vals (nodes s') ps = vals (nodes s) ps" "room s' = room s + 1"
    by (rule remove_head_live [OF lv])
  with x show ?thesis unfolding sll_list_def by metis
qed

interpretation sll_stack: lifo_store sll_list room singly_linked_list_remove_head singly_linked_list_insert_head
  by unfold_locales (rule remove_head_seq, assumption, rule insert_head_seq)

lemma insert_tail_seq:
  assumes "sll_list s l xs" and "0 < room s" and "xs \<noteq> []"
  shows "\<exists>s' l'. singly_linked_list_insert_tail s l d = Inr (s', l') \<and> sll_list s' l' (xs @ [d]) \<and>
    room s' = room s - 1"
proof -
  obtain fs ps where lv: "live s fs l ps" and xs: "vals (nodes s) ps = xs" and ne: "ps \<noteq> []"
    using assms(1,3) by (auto simp: sll_list_def)
  obtain s' l' fs' p where "singly_linked_list_insert_tail s l d = Inr (s', l')" "live s' fs' l' (ps @ [p])"
    "vals (nodes s') (ps @ [p]) = vals (nodes s) ps @ [d]" "room s' = room s - 1"
    by (rule insert_tail_live [OF lv assms(2) ne])
  with xs show ?thesis unfolding sll_list_def by metis
qed

lemma remove_tail_seq:
  assumes "sll_list s l (xs @ [x])"
  shows "\<exists>s' l'. singly_linked_list_remove_tail s l = Inr (s', l', x) \<and> sll_list s' l' xs \<and>
    room s' = room s + 1"
proof -
  obtain fs qs where lv: "live s fs l qs" and xs: "vals (nodes s) qs = xs @ [x]"
    using assms by (auto simp: sll_list_def)
  then obtain ps t where q: "qs = ps @ [t]" by (cases qs rule: rev_cases) auto
  with xs have v: "vals (nodes s) ps = xs" "data (the (nodes s t)) = x" by auto
  obtain s' l' fs' where "singly_linked_list_remove_tail s l = Inr (s', l', data (the (nodes s t)))"
    "live s' fs' l' ps" "vals (nodes s') ps = vals (nodes s) ps" "room s' = room s + 1"
    by (rule remove_tail_live [OF lv [unfolded q]])
  with v show ?thesis unfolding sll_list_def by metis
qed

text \<open>The first occurrence of \<open>d\<close> splits the cells of the list.\<close>

lemma vals_split_first:
  assumes "d \<in> set (vals m ps)"
  obtains as q bs where "ps = as @ [q] @ bs" and "\<forall>a\<in>set as. data (the (m a)) \<noteq> d"
    and "data (the (m q)) = d"
proof -
  have "\<exists>x\<in>set ps. data (the (m x)) = d" using assms by (auto simp: vals_def)
  from split_list_first_prop [OF this] that show thesis by auto
qed

lemma remove1_vals:
  assumes "\<forall>a\<in>set as. data (the (m a)) \<noteq> d" and "data (the (m q)) = d"
  shows "remove1 d (vals m (as @ [q] @ bs)) = vals m (as @ bs)"
  using assms by (induction as) auto

lemma remove_by_address_seq:
  assumes "sll_list s l xs" and "d \<in> set xs" and nl: "length xs = 1 \<or> d \<in> set (butlast xs)"
  shows "\<exists>s' l'. singly_linked_list_remove_node_by_address s l d = Inr (s', l', KERN_SUCCESS) \<and>
    sll_list s' l' (remove1 d xs) \<and> room s' = room s + 1"
proof -
  obtain fs ps where lv: "live s fs l ps" and xs: "vals (nodes s) ps = xs"
    using assms(1) by (auto simp: sll_list_def)
  from assms(2) xs obtain as q bs where ps: "ps = as @ [q] @ bs"
    and nd: "\<forall>a\<in>set as. data (the (nodes s a)) \<noteq> d" and q: "data (the (nodes s q)) = d"
    by (auto elim: vals_split_first)
  have r1: "remove1 d xs = vals (nodes s) (as @ bs)"
    using remove1_vals [OF nd q, of bs] xs ps by simp
  show ?thesis
  proof (cases as rule: rev_cases)
    case Nil
    with remove_by_address_head [of s fs l q bs d] lv ps q r1 show ?thesis
      unfolding sll_list_def by simp metis
  next
    case (snoc cs p)
    have "bs \<noteq> []"
    proof
      assume "bs = []"
      with nl xs ps snoc have "d \<in> set (vals (nodes s) as)" by (auto simp: butlast_append vals_def)
      with nd show False by (auto simp: vals_def)
    qed
    have lv': "live s fs l (cs @ [p, q] @ bs)" using lv ps snoc by simp
    from remove_by_address_inner [OF lv', of d] nd q snoc obtain s' fs' where
      f: "singly_linked_list_remove_node_by_address s l d = Inr (s', l\<lparr>node_count := node_count l - 1\<rparr>, KERN_SUCCESS)"
        "mem_ok s' fs'" "path (nx (nodes s')) (head l) (cs @ [p] @ bs) NULL" "q \<notin> set (cs @ [p] @ bs)"
        "vals (nodes s') (cs @ [p] @ bs) = vals (nodes s) (cs @ [p] @ bs)" "set fs' \<subseteq> insert q (set fs)"
        "room s' = room s + 1"
      by auto
    have "tail_ok (tail l) (cs @ [p] @ bs)" "node_count l = Suc (length (cs @ [p] @ bs))"
      using lv' \<open>bs \<noteq> []\<close> by (auto simp: live_def sll_rep_def tail_ok_ge2 Suc_le_eq)
    then have "live s' fs' (l\<lparr>node_count := node_count l - 1\<rparr>) (cs @ [p] @ bs)"
      using f lv' by (auto simp: live_def sll_rep_def)
    moreover have "vals (nodes s') (cs @ [p] @ bs) = remove1 d xs" using f(5) r1 snoc by simp
    ultimately have "sll_list s' (l\<lparr>node_count := node_count l - 1\<rparr>) (remove1 d xs)"
      unfolding sll_list_def by blast
    with f(1,7) show ?thesis by blast
  qed
qed

section \<open>Initialisation\<close>

lemma pool_init_ok:
  assumes "path (nx m) (head fl) fs NULL" "node_count fl = length fs"
    "\<forall>p\<in>set fs. \<exists>n. m p = Some n \<and> data n = p \<and> nflags n AND STATIC_POOL_NODE \<noteq> 0"
    "distinct ps" "set ps \<inter> set fs = {}" "NULL \<notin> set ps" "set ps \<subseteq> dom m"
  shows "\<exists>m' fl'. pool_init ps m fl = Inr (m', fl') \<and> path (nx m') (head fl') (rev ps @ fs) NULL \<and>
     node_count fl' = length ps + length fs \<and> lflags fl' = lflags fl \<and> dom m' = dom m \<and>
     (\<forall>p\<in>set (rev ps @ fs). \<exists>n. m' p = Some n \<and> data n = p \<and> nflags n AND STATIC_POOL_NODE \<noteq> 0)"
  using assms
proof (induction ps arbitrary: m fl fs)
  case Nil
  then show ?case by simp
next
  case (Cons p ps)
  then obtain n where n: "m p = Some n" "p \<noteq> NULL" "p \<notin> set fs" by auto
  let ?n = "n\<lparr>nflags := nflags n OR STATIC_POOL_NODE OR STATIC_POOL_FREE_NODE\<rparr>"
  let ?m = "m(p \<mapsto> ?n)"
  let ?n' = "?n\<lparr>data := p, next := head fl\<rparr>"
  have pth: "path (nx ?m) (head fl) fs NULL" using Cons.prems(1) n by simp
  from link_head_eq [OF pth Cons.prems(2) n(2,3), of ?n p]
  obtain fl1 where l1: "link_head ?m fl p p = Inr (?m(p \<mapsto> ?n'), fl1)" "head fl1 = p"
    "node_count fl1 = Suc (length fs)" "lflags fl1 = lflags fl"
    by auto
  have flag: "nflags ?n' AND STATIC_POOL_NODE \<noteq> 0"
  proof
    assume "nflags ?n' AND STATIC_POOL_NODE = 0"
    then have "\<not> bit (nflags ?n' AND STATIC_POOL_NODE) 2" by simp
    then show False by (simp add: bit_simps)
  qed
  let ?m' = "m(p \<mapsto> ?n')"
  have eq: "?m(p \<mapsto> ?n') = ?m'" by simp
  have pth': "path (nx ?m') (head fl1) (p # fs) NULL" using Cons.prems(1) n l1(2) by simp
  have cnt: "node_count fl1 = length (p # fs)" using l1(3) by simp
  have self: "\<forall>q\<in>set (p # fs). \<exists>k. ?m' q = Some k \<and> data k = q \<and> nflags k AND STATIC_POOL_NODE \<noteq> 0"
    using Cons.prems(3) flag by auto
  have rest: "distinct ps" "set ps \<inter> set (p # fs) = {}" "NULL \<notin> set ps" "set ps \<subseteq> dom ?m'"
    using Cons.prems by auto
  from Cons.IH [OF pth' cnt self rest] obtain m' fl' where
    r: "pool_init ps ?m' fl1 = Inr (m', fl')" "path (nx m') (head fl') (rev ps @ p # fs) NULL"
      "node_count fl' = length ps + length (p # fs)" "lflags fl' = lflags fl1" "dom m' = dom ?m'"
      "\<forall>q\<in>set (rev ps @ p # fs). \<exists>k. m' q = Some k \<and> data k = q \<and> nflags k AND STATIC_POOL_NODE \<noteq> 0"
    by blast
  have "pool_init (p # ps) m fl = Inr (m', fl')" using r(1) l1(1) n eq by simp
  moreover have "dom m' = dom m" using r(5) n by auto
  ultimately show ?case using r l1(4) by auto
qed

lemma init_seq:
  assumes "static_pool_setup s = False" and "distinct pool" "NULL \<notin> set pool" "set pool \<subseteq> dom (nodes s)"
    and "distinct (kheap s)" "NULL \<notin> set (kheap s)" "set (kheap s) \<inter> dom (nodes s) = {}"
    and "fl AND LIST_FLAG_FREE_NODES = 0"
  shows "\<exists>s' l. singly_linked_list_init pool s fl = Inr (s', l) \<and> sll_list s' l [] \<and>
    room s' = length pool + length (kheap s) \<and> static_pool_setup s'"
proof -
  let ?f = "\<lparr>head = NULL, tail = NULL, node_count = 0, lflags = LIST_FLAG_FREE_NODES\<rparr>"
  obtain m' fl' where r: "pool_init pool (nodes s) ?f = Inr (m', fl')"
    "path (nx m') (head fl') (rev pool @ []) NULL" "node_count fl' = length pool + length []"
    "lflags fl' = lflags ?f" "dom m' = dom (nodes s)"
    "\<forall>p\<in>set (rev pool @ []). \<exists>n. m' p = Some n \<and> data n = p \<and> nflags n AND STATIC_POOL_NODE \<noteq> 0"
    using pool_init_ok [of "nodes s" ?f "[]" pool] assms by auto
  let ?s = "s\<lparr>nodes := m', free_nodes := fl', static_pool_setup := True\<rparr>"
  let ?l = "\<lparr>head = NULL, tail = NULL, node_count = 0, lflags = fl\<rparr>"
  have "m' a = None" if "a \<in> set (kheap s)" for a
    using that assms(7) r(5) by (metis disjoint_iff domIff)
  then have "live ?s (rev pool) ?l []"
    using r assms by (auto simp: live_def mem_ok_def sll_rep_def)
  then have "sll_list ?s ?l []" unfolding sll_list_def by (metis vals_Nil)
  moreover have "singly_linked_list_init pool s fl = Inr (?s, ?l)"
    using r(1) assms(1) by (simp add: singly_linked_list_init_def)
  ultimately show ?thesis using r(3) by (auto simp: room_def)
qed

section \<open>Properties\<close>

lemma demo_live: "live demo_mem [1, 2] demo_list [5, 6, 7]"
  by (simp add: live_def mem_ok_def sll_rep_def demo_mem_def demo_list_def)

lemma demo_seq: "sll_list demo_mem demo_list [70, 71, 72]"
proof -
  have "vals (nodes demo_mem) [5, 6, 7] = [70, 71, 72]" by (simp add: demo_mem_def)
  with demo_live show ?thesis unfolding sll_list_def by blast
qed

lemma demo_room: "room demo_mem = 3"
  by (simp add: room_def demo_mem_def)

text \<open>The first \<^verbatim>\<open>singly_linked_list_init\<close> threads the whole static pool onto the free list and
  returns an empty list; afterwards as many nodes can be allocated as the pool and the kernel heap
  hold.\<close>

theorem sll_init_establishes:
  assumes "static_pool_setup s = False" and "distinct pool" "NULL \<notin> set pool" "set pool \<subseteq> dom (nodes s)"
    and "distinct (kheap s)" "NULL \<notin> set (kheap s)" "set (kheap s) \<inter> dom (nodes s) = {}"
    and "fl AND LIST_FLAG_FREE_NODES = 0"
  shows "\<exists>s' l. singly_linked_list_init pool s fl = Inr (s', l) \<and> sll_list s' l [] \<and>
    room s' = length pool + length (kheap s) \<and> static_pool_setup s'"
  using assms by (rule init_seq)

theorem sll_init_establishes_witness:
  "\<exists>s' l. singly_linked_list_init [1, 2] demo_raw 0 = Inr (s', l) \<and> sll_list s' l [] \<and> room s' = 3"
  using sll_init_establishes [of demo_raw "[1, 2]" 0] by (auto simp: demo_raw_def)

text \<open>C12: A list used through its head is a stack: pushing \<open>ys\<close> and popping as many elements never
  faults while nodes are left, returns the elements in reverse order, restores the list's contents
  and gives every node back.\<close>

theorem sll_head_is_stack:
  assumes "sll_list s l xs" and "length ys \<le> room s"
  shows "\<exists>s1 l1 s2 l2. push_all singly_linked_list_insert_head s l ys = Inr (s1, l1) \<and>
    pop_n singly_linked_list_remove_head (length ys) s1 l1 = Inr (s2, l2, rev ys) \<and>
    sll_list s2 l2 xs \<and> room s2 = room s"
  using assms by (rule sll_stack.push_all_pop_n)

theorem sll_head_is_stack_witness:
  "\<exists>s1 l1 s2 l2. push_all singly_linked_list_insert_head demo_mem demo_list [80, 81, 82] = Inr (s1, l1) \<and>
    pop_n singly_linked_list_remove_head 3 s1 l1 = Inr (s2, l2, [82, 81, 80]) \<and> sll_list s2 l2 [70, 71, 72]"
proof -
  have "length [80, 81, 82 :: addr] \<le> room demo_mem" by (simp add: demo_room)
  from sll_head_is_stack [OF demo_seq this] show ?thesis by (auto simp: numeral_3_eq_3)
qed

text \<open>Inserting at the tail of a non-empty list appends the element, and removing the tail then
  returns exactly that element and restores the list.\<close>

theorem sll_tail_round_trip:
  assumes "sll_list s l xs" and "xs \<noteq> []" and "0 < room s"
  shows "\<exists>s1 l1 s2 l2. singly_linked_list_insert_tail s l d = Inr (s1, l1) \<and> sll_list s1 l1 (xs @ [d]) \<and>
    singly_linked_list_remove_tail s1 l1 = Inr (s2, l2, d) \<and> sll_list s2 l2 xs \<and> room s2 = room s"
proof -
  obtain s1 l1 where i: "singly_linked_list_insert_tail s l d = Inr (s1, l1)" "sll_list s1 l1 (xs @ [d])"
    "room s1 = room s - 1"
    using insert_tail_seq [OF assms(1,3,2), of d] by auto
  with remove_tail_seq [OF i(2)] assms(3) show ?thesis by auto
qed

theorem sll_tail_round_trip_witness:
  "\<exists>s1 l1 s2 l2. singly_linked_list_insert_tail demo_mem demo_list 90 = Inr (s1, l1) \<and>
    sll_list s1 l1 [70, 71, 72, 90] \<and> singly_linked_list_remove_tail s1 l1 = Inr (s2, l2, 90) \<and>
    sll_list s2 l2 [70, 71, 72]"
  using sll_tail_round_trip [OF demo_seq, of 90] by (auto simp: demo_room)

text \<open>\<^verbatim>\<open>singly_linked_list_remove_node_by_address\<close> removes the first node holding the address and
  keeps the rest in order, when that node is not the last of several.\<close>

theorem sll_remove_by_address:
  assumes "sll_list s l xs" and "d \<in> set xs" and "length xs = 1 \<or> d \<in> set (butlast xs)"
  shows "\<exists>s' l'. singly_linked_list_remove_node_by_address s l d = Inr (s', l', KERN_SUCCESS) \<and>
    sll_list s' l' (remove1 d xs) \<and> room s' = room s + 1"
  using assms by (rule remove_by_address_seq)

theorem sll_remove_by_address_witness:
  "\<exists>s' l'. singly_linked_list_remove_node_by_address demo_mem demo_list 71 = Inr (s', l', KERN_SUCCESS) \<and>
    sll_list s' l' [70, 72]"
  using sll_remove_by_address [OF demo_seq, of 71] by auto

text \<open>Removing by address the last of several nodes frees its cell but leaves the list's tail
  pointing at it: the header's tail is no longer a cell of the list, so the list is not well formed
  any more and the next insertion at the tail writes through a pointer the list does not own.\<close>

theorem sll_remove_last_dangling_tail:
  assumes "live s fs l (as @ [p, q])" and "d \<notin> set (vals (nodes s) (as @ [p]))"
    and "data (the (nodes s q)) = d"
  shows "\<exists>s' l' fs'. singly_linked_list_remove_node_by_address s l d = Inr (s', l', KERN_SUCCESS) \<and>
    path (nx (nodes s')) (head l') (as @ [p]) NULL \<and> tail l' = q \<and> q \<notin> set (as @ [p]) \<and>
    \<not> sll_rep (nodes s') l' (as @ [p])"
proof -
  have nd: "\<forall>a\<in>set (as @ [p]). data (the (nodes s a)) \<noteq> d" using assms(2) by (auto simp: vals_def)
  have lv: "live s fs l (as @ [p, q] @ [])" using assms(1) by simp
  from remove_by_address_inner [OF lv nd assms(3)] obtain s' l' fs' where
    f: "singly_linked_list_remove_node_by_address s l d = Inr (s', l', KERN_SUCCESS)"
      "l' = l\<lparr>node_count := node_count l - 1\<rparr>" "path (nx (nodes s')) (head l') (as @ [p] @ []) NULL"
      "q \<notin> set (as @ [p] @ [])"
    by blast
  have "tail l = q" "q \<noteq> NULL"
    using assms(1) path_nonzero [OF live_path [OF assms(1)], of q]
    by (auto simp: live_def sll_rep_def tail_ok_ge2)
  moreover have "\<not> tail_ok q (as @ [p])"
    using f(4) \<open>q \<noteq> NULL\<close> tail_ok_in [of q "as @ [p]"] by auto
  ultimately show ?thesis using f by (auto simp: sll_rep_def)
qed

theorem sll_remove_last_dangling_tail_witness:
  "\<exists>s' l'. singly_linked_list_remove_node_by_address demo_mem demo_list 72 = Inr (s', l', KERN_SUCCESS) \<and>
    tail l' = 7 \<and> \<not> sll_rep (nodes s') l' [5, 6]"
  using sll_remove_last_dangling_tail [of demo_mem "[1, 2]" demo_list "[5]" 6 7 72] demo_live
  by (auto simp: demo_mem_def vals_def)

text \<open>Inserting at the tail of an empty list dereferences the NULL tail.\<close>

theorem sll_insert_tail_empty_faults:
  assumes "sll_list s l []" and "0 < room s"
  shows "singly_linked_list_insert_tail s l d = Inl NullDeref"
proof -
  obtain fs where lv: "live s fs l []" using assms(1) by (auto simp: sll_list_def)
  obtain s1 p n fs' where "singly_linked_list_node_alloc s = Inr (s1, p)" "p \<noteq> NULL"
    "nodes s1 = (nodes s)(p \<mapsto> n)"
    by (rule live_alloc [OF lv assms(2)])
  then show ?thesis
    using lv by (simp add: singly_linked_list_insert_tail_def live_def sll_rep_def)
qed

theorem sll_insert_tail_empty_faults_witness:
  "singly_linked_list_insert_tail demo_mem \<lparr>head = 0, tail = 0, node_count = 0, lflags = 0\<rparr> 90 = Inl NullDeref"
proof -
  have "live demo_mem [1, 2] \<lparr>head = 0, tail = 0, node_count = 0, lflags = 0\<rparr> []"
    using demo_live by (simp add: live_def sll_rep_def)
  then have "sll_list demo_mem \<lparr>head = 0, tail = 0, node_count = 0, lflags = 0\<rparr> []"
    unfolding sll_list_def by (metis vals_Nil)
  then show ?thesis by (rule sll_insert_tail_empty_faults) (simp add: demo_room)
qed

end
