(* ===== verification/List_Family.thy ===== *)
theory List_Family
  imports Singly_Linked
begin

text \<open>
  Many list headers over one node memory: the buckets of a hash table and of the nodes of a binary
  tree are \<^verbatim>\<open>struct singly_linked_list\<close> values that draw their cells from the same pool. A family
  maps each key of a set to a header and to the sequence it holds; an operation on one member
  leaves the others as they were.
\<close>

section \<open>Families\<close>

definition fam :: "sll_mem \<Rightarrow> addr list \<Rightarrow> 'k set \<Rightarrow> ('k \<Rightarrow> sll) \<Rightarrow> ('k \<Rightarrow> addr list) \<Rightarrow> bool" where
  "fam s fs K h P \<longleftrightarrow> mem_ok s fs \<and> (\<forall>k\<in>K. live s fs (h k) (P k)) \<and>
     (\<forall>j\<in>K. \<forall>k\<in>K. j \<noteq> k \<longrightarrow> set (P j) \<inter> set (P k) = {})"

definition family :: "sll_mem \<Rightarrow> 'k set \<Rightarrow> ('k \<Rightarrow> sll) \<Rightarrow> ('k \<Rightarrow> addr list) \<Rightarrow> bool" where
  "family s K h xs \<longleftrightarrow> (\<exists>fs P. fam s fs K h P \<and> (\<forall>k\<in>K. vals (nodes s) (P k) = xs k))"

lemma live_dom: "live s fs l ps \<Longrightarrow> a \<in> set ps \<Longrightarrow> a \<notin> set fs \<and> nodes s a \<noteq> None"
  using path_nodes [OF live_path] by (fastforce simp: live_def)

text \<open>One member changed: its new cells are old cells of its own or cells that nobody owned.\<close>

lemma family_update:
  assumes "fam s fs K h P" "k \<in> K" "\<forall>j\<in>K. vals (nodes s) (P j) = xs j"
    and "live s' fs' l' ps'" "frame s fs (P k) s' fs'" "vals (nodes s') ps' = x"
    and "\<And>a. a \<in> set ps' \<Longrightarrow> a \<in> set (P k) \<or> a \<in> set fs \<or> nodes s a = None"
  shows "family s' K (h(k := l')) (xs(k := x))"
proof -
  have ok: "mem_ok s' fs'" using assms(4) by (simp add: live_def)
  have other: "live s' fs' (h j) (P j)" "vals (nodes s') (P j) = xs j" "set (P j) \<inter> set ps' = {}"
    if j: "j \<in> K" "j \<noteq> k" for j
  proof -
    have d: "live s fs (h j) (P j)" "set (P j) \<inter> set (P k) = {}"
      using assms(1,2) j by (auto simp: fam_def)
    show "live s' fs' (h j) (P j)" "vals (nodes s') (P j) = xs j"
      using frame_other_list [OF assms(5) ok d] assms(3) j by auto
    show "set (P j) \<inter> set ps' = {}"
      using live_dom [OF d(1)] d(2) assms(7) by blast
  qed
  have "fam s' fs' K (h(k := l')) (P(k := ps'))"
    using assms(1,4) ok other by (auto simp: fam_def)
  moreover have "\<forall>j\<in>K. vals (nodes s') ((P(k := ps')) j) = (xs(k := x)) j"
    using other assms(6) by auto
  ultimately show ?thesis unfolding family_def by blast
qed

lemma family_insert_head:
  assumes "family s K h xs" "k \<in> K" "0 < room s"
  shows "\<exists>s' l'. singly_linked_list_insert_head s (h k) d = Inr (s', l') \<and>
    family s' K (h(k := l')) (xs(k := d # xs k)) \<and> room s' = room s - 1"
proof -
  obtain fs P where f: "fam s fs K h P" "\<forall>j\<in>K. vals (nodes s) (P j) = xs j"
    using assms(1) by (auto simp: family_def)
  then have lv: "live s fs (h k) (P k)" using assms(2) by (simp add: fam_def)
  obtain s' l' fs' p where r: "singly_linked_list_insert_head s (h k) d = Inr (s', l')"
    "live s' fs' l' (p # P k)" "vals (nodes s') (p # P k) = d # vals (nodes s) (P k)"
    "room s' = room s - 1" "frame s fs (P k) s' fs'" "p \<in> set fs \<or> nodes s p = None"
    by (rule insert_head_live [OF lv assms(3), of d])
  have "family s' K (h(k := l')) (xs(k := d # xs k))"
    by (rule family_update [OF f(1) assms(2) f(2) r(2,5)]) (use r(3,6) f(2) assms(2) in auto)
  with r show ?thesis by blast
qed

lemma family_insert_tail:
  assumes "family s K h xs" "k \<in> K" "0 < room s" "xs k \<noteq> []"
  shows "\<exists>s' l'. singly_linked_list_insert_tail s (h k) d = Inr (s', l') \<and>
    family s' K (h(k := l')) (xs(k := xs k @ [d])) \<and> room s' = room s - 1"
proof -
  obtain fs P where f: "fam s fs K h P" "\<forall>j\<in>K. vals (nodes s) (P j) = xs j"
    using assms(1) by (auto simp: family_def)
  then have lv: "live s fs (h k) (P k)" "P k \<noteq> []" using assms(2,4) by (auto simp: fam_def)
  obtain s' l' fs' p where r: "singly_linked_list_insert_tail s (h k) d = Inr (s', l')"
    "live s' fs' l' (P k @ [p])" "vals (nodes s') (P k @ [p]) = vals (nodes s) (P k) @ [d]"
    "room s' = room s - 1" "frame s fs (P k) s' fs'" "p \<in> set fs \<or> nodes s p = None"
    by (rule insert_tail_live [OF lv(1) assms(3) lv(2), of d])
  have "family s' K (h(k := l')) (xs(k := xs k @ [d]))"
    by (rule family_update [OF f(1) assms(2) f(2) r(2,5)]) (use r(3,6) f(2) assms(2) in auto)
  with r show ?thesis by blast
qed

text \<open>Removing the first element by its address, the way the trees and the hash table take elements out.\<close>

lemma family_remove_first:
  assumes "family s K h xs" "k \<in> K" "xs k = x # ys"
  shows "\<exists>s' l'. singly_linked_list_remove_node_by_address s (h k) x = Inr (s', l', KERN_SUCCESS) \<and>
    family s' K (h(k := l')) (xs(k := ys)) \<and> room s' = room s + 1"
proof -
  obtain fs P where f: "fam s fs K h P" "\<forall>j\<in>K. vals (nodes s) (P j) = xs j"
    using assms(1) by (auto simp: family_def)
  then obtain p ps where P: "P k = p # ps" "data (the (nodes s p)) = x" "vals (nodes s) ps = ys"
    using assms(2,3) by (cases "P k") auto
  then have lv: "live s fs (h k) (p # ps)" using f(1) assms(2) by (auto simp: fam_def)
  obtain s' l' fs' where r: "singly_linked_list_remove_node_by_address s (h k) x = Inr (s', l', KERN_SUCCESS)"
    "live s' fs' l' ps" "vals (nodes s') ps = vals (nodes s) ps" "room s' = room s + 1"
    "frame s fs (P k) s' fs'"
    using remove_by_address_head [OF lv P(2)] P(1) by auto
  have "family s' K (h(k := l')) (xs(k := ys))"
    by (rule family_update [OF f(1) assms(2) f(2) r(2,5)]) (use r(3) P in auto)
  with r show ?thesis by blast
qed

lemma family_live:
  "family s K h xs \<Longrightarrow> k \<in> K \<Longrightarrow> \<exists>fs ps. live s fs (h k) ps \<and> vals (nodes s) ps = xs k"
  unfolding family_def fam_def by blast

text \<open>The first element is where the head points.\<close>

lemma family_head:
  assumes "family s K h xs" "k \<in> K" "xs k = x # ys"
  shows "\<exists>n. nodes s (head (h k)) = Some n \<and> head (h k) \<noteq> NULL \<and> data n = x"
    and "node_count (h k) = Suc (length ys)"
proof -
  obtain fs qs where f: "live s fs (h k) qs" "vals (nodes s) qs = xs k"
    using family_live [OF assms(1,2)] by blast
  then obtain p ps where "qs = p # ps" "data (the (nodes s p)) = x" "length ps = length ys"
    using assms(3) by (cases qs) (auto simp: vals_def)
  with f show "\<exists>n. nodes s (head (h k)) = Some n \<and> head (h k) \<noteq> NULL \<and> data n = x"
    and "node_count (h k) = Suc (length ys)"
    using live_path [OF f(1)] by (auto simp: live_def sll_rep_def)
qed

lemma family_count:
  assumes "family s K h xs" "k \<in> K"
  shows "node_count (h k) = length (xs k)"
proof -
  obtain fs ps where "live s fs (h k) ps" "vals (nodes s) ps = xs k"
    using family_live [OF assms] by blast
  then show ?thesis by (metis length_vals live_def sll_rep_def)
qed

text \<open>A fresh empty member, and forgetting members.\<close>

lemma family_add_empty:
  assumes "family s K h xs" "k \<notin> K" "fl AND LIST_FLAG_FREE_NODES = 0"
  shows "family s (insert k K) (h(k := \<lparr>head = NULL, tail = NULL, node_count = 0, lflags = fl\<rparr>)) (xs(k := []))"
proof -
  obtain fs P where f: "fam s fs K h P" "\<forall>j\<in>K. vals (nodes s) (P j) = xs j"
    using assms(1) by (auto simp: family_def)
  let ?l = "\<lparr>head = NULL, tail = NULL, node_count = 0, lflags = fl\<rparr>"
  have "live s fs ?l []" using f(1) assms(3) by (simp add: fam_def live_def sll_rep_def)
  then have "fam s fs (insert k K) (h(k := ?l)) (P(k := []))"
    using f(1) assms(2) by (auto simp: fam_def)
  moreover have "\<forall>j\<in>insert k K. vals (nodes s) ((P(k := [])) j) = (xs(k := [])) j"
    using f(2) by auto
  ultimately show ?thesis unfolding family_def by blast
qed

lemma family_subset: "family s K h xs \<Longrightarrow> K' \<subseteq> K \<Longrightarrow> family s K' h xs"
  unfolding family_def fam_def by (meson subsetD)

lemma family_cong:
  assumes "\<And>k. k \<in> K \<Longrightarrow> h k = h' k" "\<And>k. k \<in> K \<Longrightarrow> xs k = xs' k"
  shows "family s K h xs \<longleftrightarrow> family s K h' xs'"
  using assms by (simp add: family_def fam_def cong: conj_cong)

section \<open>A family next to others\<close>

text \<open>
  A component that owns some of the lists works beside components that own the rest: \<open>family_in\<close> is a
  family together with the other lists of the memory, given by their keys, headers and contents. An
  operation on an own list leaves the others alone, and the other way round.
\<close>

type_synonym 'j others = "'j set \<times> ('j \<Rightarrow> sll) \<times> ('j \<Rightarrow> addr list)"

definition no_others :: "nat others" where
  "no_others = ({}, \<lambda>_. \<lparr>head = NULL, tail = NULL, node_count = 0, lflags = 0\<rparr>, \<lambda>_. [])"

definition family_in :: "sll_mem \<Rightarrow> 'k set \<Rightarrow> ('k \<Rightarrow> sll) \<Rightarrow> ('k \<Rightarrow> addr list) \<Rightarrow> 'j others \<Rightarrow> bool" where
  "family_in s K h xs C \<longleftrightarrow>
     family s (K <+> fst C) (case_sum h (fst (snd C))) (case_sum xs (snd (snd C)))"

lemma case_sum_upd:
  "(case_sum f g)(Inl k := v) = case_sum (f(k := v)) g"
  "(case_sum f g)(Inr j := v) = case_sum f (g(j := v))"
  by (auto split: sum.splits)

lemma family_in_insert_head:
  assumes "family_in s K h xs C" "k \<in> K" "0 < room s"
  shows "\<exists>s' l'. singly_linked_list_insert_head s (h k) d = Inr (s', l') \<and>
    family_in s' K (h(k := l')) (xs(k := d # xs k)) C \<and> room s' = room s - 1"
  using family_insert_head [of s "K <+> fst C" _ _ "Inl k" d] assms by (fastforce simp: family_in_def case_sum_upd)

lemma family_in_insert_tail:
  assumes "family_in s K h xs C" "k \<in> K" "0 < room s" "xs k \<noteq> []"
  shows "\<exists>s' l'. singly_linked_list_insert_tail s (h k) d = Inr (s', l') \<and>
    family_in s' K (h(k := l')) (xs(k := xs k @ [d])) C \<and> room s' = room s - 1"
  using family_insert_tail [of s "K <+> fst C" _ _ "Inl k" d] assms by (fastforce simp: family_in_def case_sum_upd)

lemma family_in_remove_first:
  assumes "family_in s K h xs C" "k \<in> K" "xs k = x # ys"
  shows "\<exists>s' l'. singly_linked_list_remove_node_by_address s (h k) x = Inr (s', l', KERN_SUCCESS) \<and>
    family_in s' K (h(k := l')) (xs(k := ys)) C \<and> room s' = room s + 1"
  using family_remove_first [of s "K <+> fst C" _ _ "Inl k" x ys] assms by (fastforce simp: family_in_def case_sum_upd)

lemma family_in_head:
  assumes "family_in s K h xs C" "k \<in> K" "xs k = x # ys"
  shows "\<exists>n. nodes s (head (h k)) = Some n \<and> head (h k) \<noteq> NULL \<and> data n = x"
  using family_head(1) [of s "K <+> fst C" _ _ "Inl k" x ys] assms by (fastforce simp: family_in_def)

lemma family_in_count:
  assumes "family_in s K h xs C" "k \<in> K"
  shows "node_count (h k) = length (xs k)"
  using family_count [of s "K <+> fst C" _ _ "Inl k"] assms by (fastforce simp: family_in_def)

lemma family_in_live:
  "family_in s K h xs C \<Longrightarrow> k \<in> K \<Longrightarrow> \<exists>fs ps. live s fs (h k) ps \<and> vals (nodes s) ps = xs k"
  using family_live [of s "K <+> fst C" _ _ "Inl k"] by (fastforce simp: family_in_def)

lemma family_in_add_empty:
  assumes "family_in s K h xs C" "k \<notin> K" "fl AND LIST_FLAG_FREE_NODES = 0"
  shows "family_in s (insert k K) (h(k := \<lparr>head = NULL, tail = NULL, node_count = 0, lflags = fl\<rparr>)) (xs(k := [])) C"
proof -
  have "insert k K <+> fst C = insert (Inl k) (K <+> fst C)" by auto
  then show ?thesis
    using family_add_empty [of s "K <+> fst C" _ _ "Inl k" fl] assms by (fastforce simp: family_in_def case_sum_upd)
qed

lemma family_in_cong:
  assumes "\<And>k. k \<in> K \<Longrightarrow> h k = h' k" "\<And>k. k \<in> K \<Longrightarrow> xs k = xs' k"
  shows "family_in s K h xs C \<longleftrightarrow> family_in s K h' xs' C"
  unfolding family_in_def by (rule family_cong) (auto simp: assms)

lemma family_in_nothing: "mem_ok s fs \<Longrightarrow> family_in s {} h xs no_others"
  unfolding family_in_def family_def fam_def no_others_def by (intro exI [of _ fs]) auto

text \<open>The others change while the own lists stay.\<close>

lemma others_insert_head:
  assumes "family_in s K h xs (J, g, ys)" "j \<in> J" "0 < room s"
  shows "\<exists>s' l'. singly_linked_list_insert_head s (g j) d = Inr (s', l') \<and>
    family_in s' K h xs (J, g(j := l'), ys(j := d # ys j)) \<and> room s' = room s - 1"
  using family_insert_head [of s "K <+> J" _ _ "Inr j" d] assms by (fastforce simp: family_in_def case_sum_upd)

lemma family_remove_head:
  assumes "family s K h xs" "k \<in> K" "xs k = x # ys"
  shows "\<exists>s' l'. singly_linked_list_remove_head s (h k) = Inr (s', l', x) \<and>
    family s' K (h(k := l')) (xs(k := ys)) \<and> room s' = room s + 1"
proof -
  obtain fs P where f: "fam s fs K h P" "\<forall>j\<in>K. vals (nodes s) (P j) = xs j"
    using assms(1) by (auto simp: family_def)
  then obtain p ps where P: "P k = p # ps" "data (the (nodes s p)) = x" "vals (nodes s) ps = ys"
    using assms(2,3) by (cases "P k") auto
  then have lv: "live s fs (h k) (p # ps)" using f(1) assms(2) by (auto simp: fam_def)
  obtain s' l' fs' where r: "singly_linked_list_remove_head s (h k) = Inr (s', l', data (the (nodes s p)))"
    "live s' fs' l' ps" "vals (nodes s') ps = vals (nodes s) ps" "room s' = room s + 1"
    "frame s fs (p # ps) s' fs'"
    by (rule remove_head_live [OF lv])
  have "family s' K (h(k := l')) (xs(k := ys))"
    by (rule family_update [OF f(1) assms(2) f(2) r(2)]) (use r P in auto)
  with r P show ?thesis by blast
qed

lemma others_remove_head:
  assumes "family_in s K h xs (J, g, ys)" "j \<in> J" "ys j = y # zs"
  shows "\<exists>s' l'. singly_linked_list_remove_head s (g j) = Inr (s', l', y) \<and>
    family_in s' K h xs (J, g(j := l'), ys(j := zs)) \<and> room s' = room s + 1"
  using family_remove_head [of s "K <+> J" _ _ "Inr j" y zs] assms by (fastforce simp: family_in_def case_sum_upd)

lemma others_remove_first:
  assumes "family_in s K h xs (J, g, ys)" "j \<in> J" "ys j = y # zs"
  shows "\<exists>s' l'. singly_linked_list_remove_node_by_address s (g j) y = Inr (s', l', KERN_SUCCESS) \<and>
    family_in s' K h xs (J, g(j := l'), ys(j := zs)) \<and> room s' = room s + 1"
  using family_remove_first [of s "K <+> J" _ _ "Inr j" y zs] assms by (fastforce simp: family_in_def case_sum_upd)

section \<open>The set-up flag\<close>

text \<open>No operation on a list touches the flag that the static pool has been threaded.\<close>

named_theorems setup_kept

lemma setup_node_alloc [setup_kept]:
  "singly_linked_list_node_alloc s = Inr (s', p) \<Longrightarrow> static_pool_setup s' = static_pool_setup s"
  by (auto simp: singly_linked_list_node_alloc_def bindR_eq_Inr Let_def split: if_splits list.splits)

lemma setup_node_free [setup_kept]:
  "singly_linked_list_node_free s p = Inr s' \<Longrightarrow> static_pool_setup s' = static_pool_setup s"
  by (auto simp: singly_linked_list_node_free_def bindR_eq_Inr Let_def split: if_splits)

lemma setup_insert_head [setup_kept]:
  "singly_linked_list_insert_head s l d = Inr (s', l') \<Longrightarrow> static_pool_setup s' = static_pool_setup s"
  by (auto simp: singly_linked_list_insert_head_def bindR_eq_Inr dest: setup_node_alloc split: if_splits)

lemma setup_insert_tail [setup_kept]:
  "singly_linked_list_insert_tail s l d = Inr (s', l') \<Longrightarrow> static_pool_setup s' = static_pool_setup s"
  by (auto simp: singly_linked_list_insert_tail_def bindR_eq_Inr dest: setup_node_alloc split: if_splits)

lemma setup_remove_head [setup_kept]:
  "singly_linked_list_remove_head s l = Inr (s', l', x) \<Longrightarrow> static_pool_setup s' = static_pool_setup s"
  by (auto simp: singly_linked_list_remove_head_def bindR_eq_Inr Let_def dest!: setup_node_free split: if_splits)

lemma setup_remove_walk [setup_kept]:
  "remove_by_address_walk f s l d prev node = Inr (s', l', r) \<Longrightarrow> static_pool_setup s' = static_pool_setup s"
  by (induction f s l d prev node rule: remove_by_address_walk.induct)
    (auto simp: bindR_eq_Inr dest!: setup_node_free split: if_splits)

lemma setup_remove_by_address [setup_kept]:
  "singly_linked_list_remove_node_by_address s l d = Inr (s', l', r) \<Longrightarrow> static_pool_setup s' = static_pool_setup s"
  by (auto simp: singly_linked_list_remove_node_by_address_def bindR_eq_Inr
      dest: setup_remove_head setup_remove_walk split: if_splits)

end
