(* ===== verification/Queues.thy ===== *)
theory Queues
  imports Interfaces
begin

text \<open>
  \<^verbatim>\<open>kernel/src/data_structures/queue.c\<close>: the kernel's queue with its FIFO, LIFO and priority modes, on
  an explicit memory of queue nodes. The scheduler builds its run queues with it. A node comes from
  the kernel heap; \<open>qheap\<close> lists the addresses the heap will hand out, and when it is empty
  \<^verbatim>\<open>kmalloc\<close> returns NULL. The queue's spinlock is held around each operation and is left out.
\<close>

section \<open>State\<close>

record queue_node =
  qdata :: addr
  qnext :: addr
  qprev :: addr
  priority :: "8 word"

datatype queue_mode = QUEUE_MODE_FIFO | QUEUE_MODE_LIFO | QUEUE_MODE_PRIORITY
  | QUEUE_MODE_CIRCULAR | QUEUE_MODE_DOUBLE_ENDED

record queue =
  qhead :: addr
  qtail :: addr
  mode :: queue_mode
  qcount :: nat

record queue_mem =
  qnodes :: "addr \<rightharpoonup> queue_node"
  qheap :: "addr list"

section \<open>Operations\<close>

text \<open>
  \<^verbatim>\<open>queue_init\<close> does not set \<^verbatim>\<open>node_count\<close>; the header is zero-initialised static memory, and the
  count it holds is kept.
\<close>

definition queue_init :: "queue \<Rightarrow> queue_mode \<Rightarrow> queue" where
  "queue_init q m = q\<lparr>qhead := NULL, qtail := NULL, mode := m\<rparr>"

definition queue_node_init :: "(addr \<rightharpoonup> queue_node) \<Rightarrow> addr \<Rightarrow> addr \<Rightarrow> 8 word \<Rightarrow> (addr \<rightharpoonup> queue_node) res" where
  "queue_node_init m node d pr =
     (if node = NULL then Inl (Panic ''queue_node_init called with NULL node'')
      else Inr (m(node \<mapsto> \<lparr>qdata = d, qnext = NULL, qprev = NULL, priority = pr\<rparr>)))"

definition enqueue_fifo :: "(addr \<rightharpoonup> queue_node) \<Rightarrow> queue \<Rightarrow> addr \<Rightarrow> ((addr \<rightharpoonup> queue_node) \<times> queue) res" where
  "enqueue_fifo m q new_node =
     (if new_node = NULL then Inl (Panic ''Null head enqueue fifo'')
      else bindR (deref m new_node) (\<lambda>n.
        if qdata n = NULL then Inl (Panic ''Null data enqueue fifo'')
        else if qcount q = 0 then
          Inr (m, q\<lparr>qhead := new_node, qtail := new_node, qcount := qcount q + 1\<rparr>)
        else if qcount q = 1 then
          bindR (modify m (qhead q) (\<lambda>n. n\<lparr>qnext := new_node\<rparr>)) (\<lambda>m.
          bindR (modify m new_node (\<lambda>n. n\<lparr>qprev := qhead q\<rparr>)) (\<lambda>m.
            Inr (m, q\<lparr>qtail := new_node, qcount := qcount q + 1\<rparr>)))
        else
          bindR (modify m (qtail q) (\<lambda>n. n\<lparr>qnext := new_node\<rparr>)) (\<lambda>m.
          bindR (modify m new_node (\<lambda>n. n\<lparr>qprev := qtail q\<rparr>)) (\<lambda>m.
            Inr (m, q\<lparr>qtail := new_node, qcount := qcount q + 1\<rparr>)))))"

definition enqueue_lifo :: "(addr \<rightharpoonup> queue_node) \<Rightarrow> queue \<Rightarrow> addr \<Rightarrow> ((addr \<rightharpoonup> queue_node) \<times> queue) res" where
  "enqueue_lifo m q new_node =
     bindR (deref m new_node) (\<lambda>n.
       if qdata n = NULL then Inl (Panic ''Null head in enqueue lifo'')
       else if qcount q = 0 then
         Inr (m, q\<lparr>qhead := new_node, qtail := new_node, qcount := qcount q + 1\<rparr>)
       else
         bindR (modify m (qhead q) (\<lambda>n. n\<lparr>qprev := new_node\<rparr>)) (\<lambda>m.
           Inr (m, q\<lparr>qhead := new_node, qcount := qcount q + 1\<rparr>)))"

text \<open>
  The walk of \<^verbatim>\<open>enqueue_priority\<close> to the first node of lower priority; when there is none the new node
  is dropped. Fuel bounds the walk (the number of nodes is enough on a well-formed queue).
\<close>

fun priority_walk :: "nat \<Rightarrow> (addr \<rightharpoonup> queue_node) \<Rightarrow> queue \<Rightarrow> addr \<Rightarrow> queue_node \<Rightarrow> addr \<Rightarrow>
    ((addr \<rightharpoonup> queue_node) \<times> queue) res" where
  "priority_walk 0 m q new_node n pointer = (if pointer = NULL then Inr (m, q) else Inl Unmodelled)"
| "priority_walk (Suc fuel) m q new_node n pointer =
     (if pointer = NULL then Inr (m, q)
      else bindR (deref m pointer) (\<lambda>p.
        if priority p < priority n then
          bindR (modify m new_node (\<lambda>n. n\<lparr>qnext := pointer, qprev := qprev p\<rparr>)) (\<lambda>m.
          bindR (modify m pointer (\<lambda>p. p\<lparr>qprev := new_node\<rparr>)) (\<lambda>m.
            Inr (m, q\<lparr>qcount := qcount q + 1\<rparr>)))
        else priority_walk fuel m q new_node n (qnext p)))"

definition enqueue_priority :: "(addr \<rightharpoonup> queue_node) \<Rightarrow> queue \<Rightarrow> addr \<Rightarrow> ((addr \<rightharpoonup> queue_node) \<times> queue) res" where
  "enqueue_priority m q new_node =
     bindR (deref m new_node) (\<lambda>n.
       if qdata n = NULL then Inl (Panic ''Null head in enqueue priority'')
       else if qcount q = 0 then
         Inr (m, q\<lparr>qhead := new_node, qtail := new_node, qcount := qcount q + 1\<rparr>)
       else if qcount q = 1 then
         bindR (deref m (qhead q)) (\<lambda>h.
           if priority h < priority n then
             bindR (modify m (qhead q) (\<lambda>h. h\<lparr>qprev := new_node\<rparr>)) (\<lambda>m.
             bindR (modify m new_node (\<lambda>n. n\<lparr>qnext := qhead q\<rparr>)) (\<lambda>m.
               Inr (m, q\<lparr>qhead := new_node, qcount := qcount q + 1\<rparr>)))
           else
             bindR (modify m (qhead q) (\<lambda>h. h\<lparr>qnext := new_node\<rparr>)) (\<lambda>m.
             bindR (modify m new_node (\<lambda>n. n\<lparr>qprev := qhead q\<rparr>)) (\<lambda>m.
               Inr (m, q\<lparr>qtail := new_node, qcount := qcount q + 1\<rparr>))))
       else
         bindR (deref m (qtail q)) (\<lambda>t.
           if priority n \<le> priority t then
             bindR (modify m (qtail q) (\<lambda>t. t\<lparr>qnext := new_node\<rparr>)) (\<lambda>m.
             bindR (modify m new_node (\<lambda>n. n\<lparr>qprev := qtail q\<rparr>)) (\<lambda>m.
               Inr (m, q\<lparr>qtail := new_node, qcount := qcount q + 1\<rparr>)))
           else
             bindR (deref m (qhead q)) (\<lambda>h.
               if priority h \<le> priority n then
                 bindR (modify m new_node (\<lambda>n. n\<lparr>qnext := qnext h\<rparr>)) (\<lambda>m.
                 bindR (modify m (qhead q) (\<lambda>h. h\<lparr>qnext := new_node\<rparr>)) (\<lambda>m.
                 bindR (modify m new_node (\<lambda>n. n\<lparr>qprev := qhead q\<rparr>)) (\<lambda>m.
                   Inr (m, q\<lparr>qcount := qcount q + 1\<rparr>))))
               else priority_walk (qcount q) m q new_node n (qhead q))))"

definition enqueue :: "queue_mem \<Rightarrow> queue \<Rightarrow> addr \<Rightarrow> 8 word \<Rightarrow> (queue_mem \<times> queue) res" where
  "enqueue s q d pr =
     (let (new_node, rest) = (case qheap s of [] \<Rightarrow> (NULL, []) | a # as \<Rightarrow> (a, as)) in
      bindR (queue_node_init (qnodes s) new_node d pr) (\<lambda>m.
      bindR (case mode q of
               QUEUE_MODE_FIFO \<Rightarrow> enqueue_fifo m q new_node
             | QUEUE_MODE_LIFO \<Rightarrow> enqueue_lifo m q new_node
             | QUEUE_MODE_PRIORITY \<Rightarrow> enqueue_priority m q new_node
             | QUEUE_MODE_CIRCULAR \<Rightarrow> Inr (m, q)
             | QUEUE_MODE_DOUBLE_ENDED \<Rightarrow> Inr (m, q)) (\<lambda>(m, q).
        Inr (s\<lparr>qnodes := m, qheap := rest\<rparr>, q))))"

text \<open>\<^verbatim>\<open>kfree\<close> of a queue node: the cell is unmapped and its address available again.\<close>

definition queue_kfree :: "queue_mem \<Rightarrow> addr \<Rightarrow> queue_mem" where
  "queue_kfree s p = s\<lparr>qnodes := (qnodes s)(p := None), qheap := p # qheap s\<rparr>"

definition dequeue_fifo :: "queue_mem \<Rightarrow> queue \<Rightarrow> (queue_mem \<times> queue) res" where
  "dequeue_fifo s q =
     (let pointer = qhead q in
      if pointer = NULL then Inr (s, q)
      else bindR (deref (qnodes s) pointer) (\<lambda>p.
        let q = q\<lparr>qhead := qnext p\<rparr> in
        if qhead q = NULL then Inr (queue_kfree s pointer, q\<lparr>qcount := qcount q - 1\<rparr>)
        else bindR (modify (qnodes s) (qhead q) (\<lambda>n. n\<lparr>qprev := NULL\<rparr>)) (\<lambda>m.
          let q = q\<lparr>qcount := qcount q - 1\<rparr>;
              q = (if qcount q = 1 then q\<lparr>qtail := qhead q\<rparr> else q)
          in Inr (queue_kfree (s\<lparr>qnodes := m\<rparr>) pointer, q))))"

definition dequeue_lifo :: "queue_mem \<Rightarrow> queue \<Rightarrow> (queue_mem \<times> queue) res" where
  "dequeue_lifo s q =
     (let pointer = qhead q in
      if pointer = NULL then Inr (s, q)
      else if qcount q = 1 then
        Inr (queue_kfree s pointer, q\<lparr>qhead := NULL, qtail := NULL, qcount := qcount q - 1\<rparr>)
      else bindR (deref (qnodes s) pointer) (\<lambda>p.
        bindR (modify (qnodes s) (qnext p) (\<lambda>n. n\<lparr>qprev := NULL\<rparr>)) (\<lambda>m.
          Inr (queue_kfree (s\<lparr>qnodes := m\<rparr>) pointer, q\<lparr>qhead := qnext p, qcount := qcount q - 1\<rparr>))))"

text \<open>\<^verbatim>\<open>dequeue_priority\<close> has the same body as \<^verbatim>\<open>dequeue_fifo\<close>.\<close>

definition dequeue_priority :: "queue_mem \<Rightarrow> queue \<Rightarrow> (queue_mem \<times> queue) res" where
  "dequeue_priority s q =
     (let pointer = qhead q in
      if pointer = NULL then Inr (s, q)
      else bindR (deref (qnodes s) pointer) (\<lambda>p.
        let q = q\<lparr>qhead := qnext p\<rparr> in
        if qhead q = NULL then Inr (queue_kfree s pointer, q\<lparr>qcount := qcount q - 1\<rparr>)
        else bindR (modify (qnodes s) (qhead q) (\<lambda>n. n\<lparr>qprev := NULL\<rparr>)) (\<lambda>m.
          let q = q\<lparr>qcount := qcount q - 1\<rparr>;
              q = (if qcount q = 1 then q\<lparr>qtail := qhead q\<rparr> else q)
          in Inr (queue_kfree (s\<lparr>qnodes := m\<rparr>) pointer, q))))"

definition dequeue :: "queue_mem \<Rightarrow> queue \<Rightarrow> (queue_mem \<times> queue) res" where
  "dequeue s q =
     (case mode q of
        QUEUE_MODE_FIFO \<Rightarrow> dequeue_fifo s q
      | QUEUE_MODE_LIFO \<Rightarrow> dequeue_lifo s q
      | QUEUE_MODE_PRIORITY \<Rightarrow> dequeue_priority s q
      | QUEUE_MODE_CIRCULAR \<Rightarrow> Inr (s, q)
      | QUEUE_MODE_DOUBLE_ENDED \<Rightarrow> Inr (s, q))"

text \<open>
  How the scheduler takes the next element (\<^verbatim>\<open>look_for_process\<close>, \<^verbatim>\<open>sched_run\<close>): it reads the data of the
  head and then dequeues.
\<close>

definition take_head :: "queue_mem \<Rightarrow> queue \<Rightarrow> (queue_mem \<times> queue \<times> addr) res" where
  "take_head s q =
     bindR (deref (qnodes s) (qhead q)) (\<lambda>h. bindR (dequeue s q) (\<lambda>(s, q). Inr (s, q, qdata h)))"

section \<open>Representation\<close>

definition qnx :: "(addr \<rightharpoonup> queue_node) \<Rightarrow> addr \<rightharpoonup> addr" where
  "qnx m a = map_option qnext (m a)"

text \<open>
  The cells \<open>ps\<close> reachable from the head, counted by \<open>qcount\<close>, with the tail at their end; the heap's
  addresses are fresh.
\<close>

definition queue_rep :: "queue_mem \<Rightarrow> queue \<Rightarrow> addr list \<Rightarrow> bool" where
  "queue_rep s q ps \<longleftrightarrow>
     path (qnx (qnodes s)) (qhead q) ps NULL \<and> qcount q = length ps \<and>
     (ps \<noteq> [] \<longrightarrow> qtail q = last ps) \<and>
     distinct (qheap s) \<and> NULL \<notin> set (qheap s) \<and> (\<forall>a\<in>set (qheap s). qnodes s a = None)"

definition qvals :: "(addr \<rightharpoonup> queue_node) \<Rightarrow> addr list \<Rightarrow> (addr \<times> 8 word) list" where
  "qvals m ps = map (\<lambda>p. (qdata (the (m p)), priority (the (m p)))) ps"

definition fifo_list :: "queue_mem \<Rightarrow> queue \<Rightarrow> addr list \<Rightarrow> bool" where
  "fifo_list s q xs \<longleftrightarrow>
     mode q = QUEUE_MODE_FIFO \<and> (\<exists>ps. queue_rep s q ps \<and> map fst (qvals (qnodes s) ps) = xs)"

definition qroom :: "queue_mem \<Rightarrow> nat" where
  "qroom s = length (qheap s)"

text \<open>The scheduler's insertion in FIFO mode at a fixed priority.\<close>

definition fifo_push :: "8 word \<Rightarrow> queue_mem \<Rightarrow> queue \<Rightarrow> addr \<Rightarrow> (queue_mem \<times> queue) res" where
  "fifo_push pr s q d = enqueue s q d pr"

lemma qnx_upd [simp]: "qnx (m(a \<mapsto> n)) = (qnx m)(a \<mapsto> qnext n)"
  by (auto simp: qnx_def)

lemma qnx_del [simp]: "qnx (m(a := None)) = (qnx m)(a := None)"
  by (auto simp: qnx_def)

lemma qnx_Some [simp]: "qnx m a = Some b \<longleftrightarrow> (\<exists>n. m a = Some n \<and> qnext n = b)"
  by (auto simp: qnx_def)

lemma qvals_simps [simp]:
  "qvals m [] = []"
  "qvals m (p # ps) = (qdata (the (m p)), priority (the (m p))) # qvals m ps"
  "qvals m (ps @ qs) = qvals m ps @ qvals m qs"
  by (simp_all add: qvals_def)

lemma qvals_upd [simp]: "a \<notin> set ps \<Longrightarrow> qvals (m(a := v)) ps = qvals m ps"
  by (auto simp: qvals_def)

lemma queue_rep_nodes: "queue_rep s q ps \<Longrightarrow> a \<in> set ps \<Longrightarrow> a \<noteq> NULL \<and> (\<exists>n. qnodes s a = Some n)"
proof -
  assume r: "queue_rep s q ps" and a: "a \<in> set ps"
  then have "path (qnx (qnodes s)) (qhead q) ps NULL" by (simp add: queue_rep_def)
  from path_nonzero [OF this a] path_dom [OF this] a show ?thesis by (auto simp: qnx_def dom_def)
qed

section \<open>Appending and removing the head\<close>

text \<open>
  The memory after a new node \<open>a\<close> has been linked behind the last cell: what FIFO mode does, and what
  priority mode does when the new node's priority does not exceed the tail's.
\<close>

definition append_nodes :: "(addr \<rightharpoonup> queue_node) \<Rightarrow> addr list \<Rightarrow> addr \<Rightarrow> addr \<Rightarrow> 8 word \<Rightarrow> (addr \<rightharpoonup> queue_node)" where
  "append_nodes m ps a d pr =
     (if ps = [] then m(a \<mapsto> \<lparr>qdata = d, qnext = NULL, qprev = NULL, priority = pr\<rparr>)
      else m(last ps \<mapsto> (the (m (last ps)))\<lparr>qnext := a\<rparr>,
             a \<mapsto> \<lparr>qdata = d, qnext = NULL, qprev = last ps, priority = pr\<rparr>))"

lemma append_rep:
  fixes d :: addr and pr :: "8 word"
  assumes r: "queue_rep s q ps" and h: "qheap s = a # as"
  defines "m' \<equiv> append_nodes (qnodes s) ps a d pr"
  defines "q' \<equiv> q\<lparr>qhead := (if ps = [] then a else qhead q), qtail := a, qcount := qcount q + 1\<rparr>"
  shows "queue_rep (s\<lparr>qnodes := m', qheap := as\<rparr>) q' (ps @ [a])"
    and "qvals m' (ps @ [a]) = qvals (qnodes s) ps @ [(d, pr)]"
proof -
  from r h have a: "a \<noteq> NULL" "qnodes s a = None" "a \<notin> set as" by (auto simp: queue_rep_def)
  have np: "a \<notin> set ps" using queue_rep_nodes [OF r, of a] a(2) by auto
  have pth: "path (qnx (qnodes s)) (qhead q) ps NULL" using r by (simp add: queue_rep_def)
  have "path (qnx m') (qhead q') (ps @ [a]) NULL"
  proof (cases "ps = []")
    case True
    then show ?thesis using a by (simp add: m'_def q'_def append_nodes_def)
  next
    case False
    then have "last ps \<noteq> a" using np by (metis last_in_set)
    then have "qnx m' = (qnx (qnodes s))(a \<mapsto> NULL, last ps \<mapsto> a)"
      using False by (auto simp: m'_def append_nodes_def)
    with path_extend [OF pth False a(1) np] False show ?thesis by (simp add: q'_def)
  qed
  moreover have "m' b = None" if "b \<in> set as" for b
  proof -
    have "b \<noteq> a" "qnodes s b = None" using that a(3) h r by (auto simp: queue_rep_def)
    moreover have "ps \<noteq> [] \<Longrightarrow> b \<noteq> last ps"
      using queue_rep_nodes [OF r, of "last ps"] calculation(2) by auto
    ultimately show ?thesis by (simp add: m'_def append_nodes_def)
  qed
  ultimately show "queue_rep (s\<lparr>qnodes := m', qheap := as\<rparr>) q' (ps @ [a])"
    using r h by (auto simp: queue_rep_def q'_def)
  show "qvals m' (ps @ [a]) = qvals (qnodes s) ps @ [(d, pr)]"
    using np by (auto simp: m'_def append_nodes_def qvals_def)
qed

lemma enqueue_fifo_eq:
  assumes r: "queue_rep s q ps" and h: "qheap s = a # as" and d: "d \<noteq> NULL" and m: "mode q = QUEUE_MODE_FIFO"
  shows "enqueue s q d pr =
    Inr (s\<lparr>qnodes := append_nodes (qnodes s) ps a d pr, qheap := as\<rparr>,
         q\<lparr>qhead := (if ps = [] then a else qhead q), qtail := a, qcount := qcount q + 1\<rparr>)"
proof -
  from r h have a: "a \<noteq> NULL" "qnodes s a = None" by (auto simp: queue_rep_def)
  show ?thesis
  proof (cases "ps = []")
    case True
    with a r h d m show ?thesis
      by (simp add: enqueue_def queue_node_init_def enqueue_fifo_def queue_rep_def append_nodes_def)
  next
    case False
    then obtain n where n: "qnodes s (last ps) = Some n" "last ps \<noteq> NULL" "last ps \<noteq> a"
      using queue_rep_nodes [OF r, of "last ps"] a(2) by (metis last_in_set option.distinct(1))
    have t: "qtail q = last ps" "qcount q = length ps" using r False by (auto simp: queue_rep_def)
    have hd: "length ps = 1 \<Longrightarrow> qhead q = last ps"
      using r by (cases ps) (auto simp: queue_rep_def)
    have sw: "(qnodes s)(a \<mapsto> x, last ps \<mapsto> y, a \<mapsto> z) = (qnodes s)(last ps \<mapsto> y, a \<mapsto> z)" for x y z
      using n(3) by (auto simp: fun_eq_iff)
    show ?thesis
      using a n t hd h d m False
      by (auto simp: enqueue_def queue_node_init_def enqueue_fifo_def append_nodes_def sw)
  qed
qed

lemma dequeue_fifo_rep:
  assumes r: "queue_rep s q (p # ps)"
  obtains s' q' where "dequeue_fifo s q = Inr (s', q')" and "queue_rep s' q' ps"
    and "qvals (qnodes s') ps = qvals (qnodes s) ps" and "qroom s' = qroom s + 1" and "mode q' = mode q"
proof -
  from r obtain n where n: "qnodes s p = Some n" "qhead q = p" "p \<noteq> NULL"
    "path (qnx (qnodes s)) (qnext n) ps NULL" "qcount q = Suc (length ps)"
    by (auto simp: queue_rep_def)
  have hp: "p \<notin> set (qheap s)" using n(1) r by (auto simp: queue_rep_def)
  have np: "p \<notin> set ps" using r path_distinct [of _ _ "p # ps"] by (fastforce simp: queue_rep_def)
  show thesis
  proof (cases ps)
    case Nil
    with n r hp show thesis
      by (intro that [of "queue_kfree s p" "q\<lparr>qhead := NULL, qcount := 0\<rparr>"])
        (auto simp: dequeue_fifo_def queue_kfree_def queue_rep_def qroom_def)
  next
    case (Cons b bs)
    with n obtain k where k: "qnodes s b = Some k" "qnext n = b" "b \<noteq> NULL" by auto
    let ?m = "((qnodes s)(b \<mapsto> k\<lparr>qprev := NULL\<rparr>))(p := None)"
    let ?q = "q\<lparr>qhead := b, qcount := length ps, qtail := last ps\<rparr>"
    have nxm: "qnx ((qnodes s)(b \<mapsto> k\<lparr>qprev := NULL\<rparr>)) = qnx (qnodes s)"
      using k by (auto simp: qnx_def fun_eq_iff)
    have "path (qnx ?m) b ps NULL" using n(4) k np by (simp add: nxm del: qnx_upd)
    moreover have "b \<notin> set (qheap s)" using k r by (auto simp: queue_rep_def)
    ultimately have "queue_rep (s\<lparr>qnodes := ?m, qheap := p # qheap s\<rparr>) ?q ps"
      using r n hp k Cons np by (auto simp: queue_rep_def)
    moreover have "qvals ?m ps = qvals (qnodes s) ps" using k np by (auto simp: qvals_def)
    moreover have "dequeue_fifo s q = Inr (s\<lparr>qnodes := ?m, qheap := p # qheap s\<rparr>, ?q)"
      using n k Cons r by (auto simp: dequeue_fifo_def queue_kfree_def queue_rep_def Let_def)
    ultimately show thesis
      by (intro that [of "s\<lparr>qnodes := ?m, qheap := p # qheap s\<rparr>" ?q]) (auto simp: qroom_def)
  qed
qed

lemma dequeue_priority_fifo: "dequeue_priority s q = dequeue_fifo s q"
  by (simp add: dequeue_priority_def dequeue_fifo_def)

section \<open>FIFO mode is a queue\<close>

lemma fifo_push_ok:
  assumes "fifo_list s q xs" and "0 < qroom s" and "x \<noteq> NULL"
  shows "\<exists>s' q'. fifo_push pr s q x = Inr (s', q') \<and> fifo_list s' q' (xs @ [x]) \<and> qroom s' = qroom s - 1"
proof -
  obtain ps where r: "queue_rep s q ps" and m: "mode q = QUEUE_MODE_FIFO" and xs: "map fst (qvals (qnodes s) ps) = xs"
    using assms(1) by (auto simp: fifo_list_def)
  obtain a as where h: "qheap s = a # as" using assms(2) by (cases "qheap s") (auto simp: qroom_def)
  show ?thesis
    using enqueue_fifo_eq [OF r h assms(3) m] append_rep [OF r h, of x pr] xs m h
    by (auto simp: fifo_push_def fifo_list_def qroom_def)
qed

lemma take_head_ok:
  assumes "fifo_list s q (x # xs)"
  shows "\<exists>s' q'. take_head s q = Inr (s', q', x) \<and> fifo_list s' q' xs \<and> qroom s' = qroom s + 1"
proof -
  obtain qs where r: "queue_rep s q qs" and m: "mode q = QUEUE_MODE_FIFO"
    and xs: "map fst (qvals (qnodes s) qs) = x # xs"
    using assms by (auto simp: fifo_list_def)
  then obtain p ps where q: "qs = p # ps" by (cases qs) auto
  obtain s' q' where d: "dequeue_fifo s q = Inr (s', q')" "queue_rep s' q' ps"
    "qvals (qnodes s') ps = qvals (qnodes s) ps" "qroom s' = qroom s + 1" "mode q' = mode q"
    by (rule dequeue_fifo_rep [OF r [unfolded q]])
  obtain n where "qnodes s p = Some n" "qhead q = p" "p \<noteq> NULL" using r q by (auto simp: queue_rep_def)
  with d m xs q show ?thesis
    by (auto simp: take_head_def dequeue_def fifo_list_def)
qed

interpretation run_queue: fifo_store fifo_list qroom take_head "fifo_push pr" "\<lambda>x. x \<noteq> NULL" for pr
  by unfold_locales (rule take_head_ok, assumption, rule fifo_push_ok)

section \<open>Priority mode\<close>

text \<open>A queue in priority mode is served in order when priorities do not increase along it.\<close>

fun non_increasing :: "(addr \<times> 8 word) list \<Rightarrow> bool" where
  "non_increasing [] = True"
| "non_increasing [x] = True"
| "non_increasing (x # y # xs) = (snd y \<le> snd x \<and> non_increasing (y # xs))"

lemma non_increasing_snoc:
  "non_increasing xs \<Longrightarrow> (xs \<noteq> [] \<Longrightarrow> pr \<le> snd (last xs)) \<Longrightarrow> non_increasing (xs @ [(d, pr)])"
  by (induction xs rule: non_increasing.induct) auto

lemma qvals_eq_Nil: "qvals m ps = [] \<longleftrightarrow> ps = []"
  by (simp add: qvals_def)

lemma last_qvals: "ps \<noteq> [] \<Longrightarrow> last (qvals m ps) = (qdata (the (m (last ps))), priority (the (m (last ps))))"
  by (simp add: qvals_def last_map)

lemma enqueue_priority_append_eq:
  assumes r: "queue_rep s q ps" and h: "qheap s = a # as" and d: "d \<noteq> NULL" and m: "mode q = QUEUE_MODE_PRIORITY"
    and le: "ps \<noteq> [] \<Longrightarrow> pr \<le> priority (the (qnodes s (last ps)))"
  shows "enqueue s q d pr =
    Inr (s\<lparr>qnodes := append_nodes (qnodes s) ps a d pr, qheap := as\<rparr>,
         q\<lparr>qhead := (if ps = [] then a else qhead q), qtail := a, qcount := qcount q + 1\<rparr>)"
proof -
  from r h have a: "a \<noteq> NULL" "qnodes s a = None" by (auto simp: queue_rep_def)
  show ?thesis
  proof (cases "ps = []")
    case True
    with a r h d m show ?thesis
      by (simp add: enqueue_def queue_node_init_def enqueue_priority_def queue_rep_def append_nodes_def)
  next
    case False
    then obtain n where n: "qnodes s (last ps) = Some n" "last ps \<noteq> NULL" "last ps \<noteq> a"
      using queue_rep_nodes [OF r, of "last ps"] a(2) by (metis last_in_set option.distinct(1))
    have t: "qtail q = last ps" "qcount q = length ps" using r False by (auto simp: queue_rep_def)
    have hd: "length ps = 1 \<Longrightarrow> qhead q = last ps"
      using r by (cases ps) (auto simp: queue_rep_def)
    have sw: "(qnodes s)(a \<mapsto> x, last ps \<mapsto> y, a \<mapsto> z) = (qnodes s)(last ps \<mapsto> y, a \<mapsto> z)" for x y z
      using n(3) by (auto simp: fun_eq_iff)
    have "pr \<le> priority n" using le [OF False] n by simp
    then show ?thesis
      using a n t hd h d m False
      by (auto simp: enqueue_def queue_node_init_def enqueue_priority_def append_nodes_def sw)
  qed
qed

text \<open>Cells and values of the queue when a node is linked in after the head.\<close>

lemma second_place_path:
  assumes "path f h (h # ps) NULL" and "a \<noteq> NULL" "a \<notin> set (h # ps)"
  shows "path (f(a := f h, h \<mapsto> a)) h (h # a # ps) NULL"
proof -
  have "h \<notin> set ps" using path_distinct [OF assms(1)] by simp
  with assms show ?thesis by auto
qed

lemma enqueue_priority_second_eq:
  assumes r: "queue_rep s q (h # ps)" and ne: "ps \<noteq> []" and hp: "qheap s = a # as" and d: "d \<noteq> NULL"
    and m: "mode q = QUEUE_MODE_PRIORITY"
    and gt: "priority (the (qnodes s (last ps))) < pr" and ge: "priority (the (qnodes s h)) \<le> pr"
  shows "\<exists>m'. enqueue s q d pr = Inr (s\<lparr>qnodes := m', qheap := as\<rparr>, q\<lparr>qcount := qcount q + 1\<rparr>) \<and>
    queue_rep (s\<lparr>qnodes := m', qheap := as\<rparr>) (q\<lparr>qcount := qcount q + 1\<rparr>) (h # a # ps) \<and>
    qvals m' (h # a # ps) = hd (qvals (qnodes s) (h # ps)) # (d, pr) # qvals (qnodes s) ps"
proof -
  from r hp have a: "a \<noteq> NULL" "qnodes s a = None" "a \<notin> set as" by (auto simp: queue_rep_def)
  have np: "a \<notin> set (h # ps)" using queue_rep_nodes [OF r, of a] a(2) by auto
  obtain n where n: "qnodes s h = Some n" "h \<noteq> NULL" "qhead q = h" "qcount q = Suc (length ps)"
    using r by (auto simp: queue_rep_def)
  have la: "last ps \<noteq> a" using np last_in_set [OF ne] by (metis list.set_intros(2))
  obtain t where t: "qnodes s (last ps) = Some t" "last ps \<noteq> NULL" "qtail q = last ps" "last ps \<noteq> a"
    using queue_rep_nodes [OF r, of "last ps"] la ne r by (auto simp: queue_rep_def)
  let ?m = "(qnodes s)(h \<mapsto> n\<lparr>qnext := a\<rparr>, a \<mapsto> \<lparr>qdata = d, qnext = qnext n, qprev = h, priority = pr\<rparr>)"
  have sw: "(qnodes s)(a \<mapsto> x, h \<mapsto> y, a \<mapsto> z) = (qnodes s)(h \<mapsto> y, a \<mapsto> z)" for x y z
    using np by (auto simp: fun_eq_iff)
  have eq: "enqueue s q d pr = Inr (s\<lparr>qnodes := ?m, qheap := as\<rparr>, q\<lparr>qcount := qcount q + 1\<rparr>)"
    using a n t np hp d m ne gt ge
    by (auto simp: enqueue_def queue_node_init_def enqueue_priority_def sw)
  have "path (qnx (qnodes s)) h (h # ps) NULL" using r n by (simp add: queue_rep_def)
  from second_place_path [OF this a(1) np]
  have "path (qnx ?m) h (h # a # ps) NULL"
    using n np by (auto simp: qnx_def fun_upd_twist)
  moreover have "?m b = None" if "b \<in> set as" for b
    using that r hp n a(3) by (auto simp: queue_rep_def)
  ultimately have "queue_rep (s\<lparr>qnodes := ?m, qheap := as\<rparr>) (q\<lparr>qcount := qcount q + 1\<rparr>) (h # a # ps)"
    using r hp n ne by (auto simp: queue_rep_def)
  moreover have "qvals ?m (h # a # ps) = hd (qvals (qnodes s) (h # ps)) # (d, pr) # qvals (qnodes s) ps"
    using n np path_distinct [of "qnx (qnodes s)" "qhead q" "h # ps"] r by (auto simp: qvals_def queue_rep_def)
  ultimately show ?thesis using eq by blast
qed

text \<open>
  The walk stops at the first node \<open>c\<close> of lower priority and links the new node only through
  \<open>qprev\<close>; the \<open>qnext\<close> pointers of the queue are untouched.
\<close>

lemma priority_walk_eq:
  assumes "path (qnx m) h (bs @ c # cs) NULL" "length bs < fuel" "m a = Some k" "a \<notin> set (bs @ c # cs)" "a \<noteq> NULL"
    and "\<forall>b\<in>set bs. priority n \<le> priority (the (m b))" "priority (the (m c)) < priority n"
  shows "\<exists>nc. m c = Some nc \<and> priority_walk fuel m q a n h =
    Inr (m(a \<mapsto> k\<lparr>qnext := c, qprev := qprev nc\<rparr>, c \<mapsto> nc\<lparr>qprev := a\<rparr>), q\<lparr>qcount := qcount q + 1\<rparr>)"
  using assms
proof (induction bs arbitrary: h fuel)
  case Nil
  then obtain f nc where "fuel = Suc f" "m c = Some nc" "h = c" "c \<noteq> NULL" "c \<noteq> a"
    by (cases fuel) auto
  with Nil show ?case by (auto simp: fun_eq_iff)
next
  case (Cons b bs)
  then obtain f nb where f: "fuel = Suc f" "m b = Some nb" "h = b" "b \<noteq> NULL"
    "path (qnx m) (qnext nb) (bs @ c # cs) NULL"
    by (cases fuel) auto
  with Cons.IH [OF f(5), of f] Cons.prems show ?case by auto
qed

lemma enqueue_priority_middle_eq:
  assumes r: "queue_rep s q ps" and sp: "ps = b # bs @ c # cs" and hp: "qheap s = a # as" and d: "d \<noteq> NULL"
    and m: "mode q = QUEUE_MODE_PRIORITY"
    and hi: "\<forall>x\<in>set (b # bs). pr < priority (the (qnodes s x))" and lo: "priority (the (qnodes s c)) < pr"
    and tl: "priority (the (qnodes s (last ps))) < pr"
  shows "\<exists>m'. enqueue s q d pr = Inr (s\<lparr>qnodes := m', qheap := as\<rparr>, q\<lparr>qcount := qcount q + 1\<rparr>) \<and>
    path (qnx m') (qhead q) ps NULL \<and> a \<notin> set ps"
proof -
  from r hp have a: "a \<noteq> NULL" "qnodes s a = None" by (auto simp: queue_rep_def)
  have np: "a \<notin> set ps" using queue_rep_nodes [OF r, of a] a(2) by auto
  let ?k = "\<lparr>qdata = d, qnext = NULL, qprev = NULL, priority = pr\<rparr>"
  let ?m = "(qnodes s)(a \<mapsto> ?k)"
  have pth: "path (qnx ?m) (qhead q) ((b # bs) @ c # cs) NULL" "length (b # bs) < qcount q"
    using r sp np by (auto simp: queue_rep_def)
  have "\<forall>x\<in>set (b # bs). priority ?k \<le> priority (the (?m x))" "priority (the (?m c)) < priority ?k"
    using hi lo np sp by auto
  from priority_walk_eq [OF pth, of a ?k ?k q] this a np sp obtain nc where
    w: "?m c = Some nc" "priority_walk (qcount q) ?m q a ?k (qhead q) =
      Inr (?m(a \<mapsto> ?k\<lparr>qnext := c, qprev := qprev nc\<rparr>, c \<mapsto> nc\<lparr>qprev := a\<rparr>), q\<lparr>qcount := qcount q + 1\<rparr>)"
    by auto
  let ?m' = "?m(a \<mapsto> ?k\<lparr>qnext := c, qprev := qprev nc\<rparr>, c \<mapsto> nc\<lparr>qprev := a\<rparr>)"
  obtain nb where nb: "qnodes s b = Some nb" "qhead q = b" "b \<noteq> NULL" "b \<noteq> a"
    using r sp np by (auto simp: queue_rep_def)
  have la: "last ps \<noteq> a" using np sp by (metis last_in_set list.distinct(1))
  have lin: "last ps \<in> set ps" using sp by (intro last_in_set) simp
  have tq: "qtail q = last ps" using r sp by (simp add: queue_rep_def)
  obtain t where t: "qnodes s (last ps) = Some t" "last ps \<noteq> NULL" "qtail q = last ps"
    using queue_rep_nodes [OF r lin] tq by blast
  have cmp: "\<not> priority nb \<le> pr" "\<not> pr \<le> priority t"
    using hi tl nb(1) t(1) by (simp_all add: not_le)
  have "enqueue s q d pr = Inr (s\<lparr>qnodes := ?m', qheap := as\<rparr>, q\<lparr>qcount := qcount q + 1\<rparr>)"
    using a nb t la hp d m w(2) pth(2) cmp
    by (simp add: enqueue_def queue_node_init_def enqueue_priority_def)
  moreover have "path (qnx ?m') (qhead q) ps NULL"
  proof -
    have "\<And>x. x \<in> set ps \<Longrightarrow> qnx ?m' x = qnx (qnodes s) x" using np w(1) sp by (auto simp: qnx_def)
    then show ?thesis using path_cong [of ps "qnx ?m'" "qnx (qnodes s)"] r by (simp add: queue_rep_def)
  qed
  ultimately show ?thesis using np by blast
qed

section \<open>Properties\<close>

definition demo_qmem :: queue_mem where
  "demo_qmem = \<lparr>qnodes = [3 \<mapsto> \<lparr>qdata = 30, qnext = 4, qprev = 0, priority = 5\<rparr>,
      4 \<mapsto> \<lparr>qdata = 40, qnext = 0, qprev = 3, priority = 2\<rparr>], qheap = [7, 8, 9]\<rparr>"

definition demo_queue :: "queue_mode \<Rightarrow> queue" where
  "demo_queue md = \<lparr>qhead = 3, qtail = 4, mode = md, qcount = 2\<rparr>"

lemma demo_queue_rep: "queue_rep demo_qmem (demo_queue md) [3, 4]"
  by (simp add: queue_rep_def demo_qmem_def demo_queue_def)

lemma demo_fifo: "fifo_list demo_qmem (demo_queue QUEUE_MODE_FIFO) [30, 40]"
proof -
  have "map fst (qvals (qnodes demo_qmem) [3, 4]) = [30, 40]"
    unfolding qvals_def by (simp add: demo_qmem_def)
  with demo_queue_rep have "\<exists>ps. queue_rep demo_qmem (demo_queue QUEUE_MODE_FIFO) ps \<and>
      map fst (qvals (qnodes demo_qmem) ps) = [30, 40]"
    by (intro exI conjI)
  then show ?thesis by (simp add: fifo_list_def demo_queue_def)
qed

text \<open>C19: In FIFO mode the scheduler gets processes back in the order it enqueued them: enqueueing \<open>ys\<close>
  behind \<open>xs\<close> never faults while nodes can be allocated, and taking the head as often as there are
  elements yields \<open>xs\<close> and then \<open>ys\<close> and leaves the queue empty.\<close>

theorem queue_fifo_order:
  assumes "fifo_list s q xs" and "length ys \<le> qroom s" and "list_all (\<lambda>x. x \<noteq> NULL) ys"
  shows "\<exists>s1 q1 s2 q2. push_all (fifo_push pr) s q ys = Inr (s1, q1) \<and>
    pop_n take_head (length (xs @ ys)) s1 q1 = Inr (s2, q2, xs @ ys) \<and> fifo_list s2 q2 []"
  using assms by (rule run_queue.push_all_pop_n)

theorem queue_fifo_order_witness:
  "\<exists>s1 q1 s2 q2. push_all (fifo_push 1) demo_qmem (demo_queue QUEUE_MODE_FIFO) [50, 60] = Inr (s1, q1) \<and>
    pop_n take_head 4 s1 q1 = Inr (s2, q2, [30, 40, 50, 60]) \<and> fifo_list s2 q2 []"
proof -
  have "length [50, 60 :: addr] \<le> qroom demo_qmem" by (simp add: qroom_def demo_qmem_def)
  from queue_fifo_order [OF demo_fifo this, of 1] show ?thesis by (simp add: numeral_eq_Suc)
qed

text \<open>In priority mode, enqueueing a process whose priority does not exceed that of the last one
  appends it, and a queue served in order of priority stays so.\<close>

theorem queue_priority_append:
  assumes "queue_rep s q ps" and "mode q = QUEUE_MODE_PRIORITY" and "qheap s = a # as" and "d \<noteq> NULL"
    and "ps \<noteq> [] \<Longrightarrow> pr \<le> priority (the (qnodes s (last ps)))" and "non_increasing (qvals (qnodes s) ps)"
  shows "\<exists>s' q'. enqueue s q d pr = Inr (s', q') \<and> queue_rep s' q' (ps @ [a]) \<and>
    qvals (qnodes s') (ps @ [a]) = qvals (qnodes s) ps @ [(d, pr)] \<and>
    non_increasing (qvals (qnodes s') (ps @ [a]))"
proof -
  have v: "non_increasing (qvals (qnodes s) ps @ [(d, pr)])"
    using assms(5,6) by (intro non_increasing_snoc) (simp_all add: last_qvals qvals_eq_Nil)
  let ?m = "append_nodes (qnodes s) ps a d pr"
  show ?thesis
    using enqueue_priority_append_eq [OF assms(1,3,4,2,5)] append_rep [OF assms(1,3), of d pr] v by simp
qed

theorem queue_priority_append_witness:
  "\<exists>s' q'. enqueue demo_qmem (demo_queue QUEUE_MODE_PRIORITY) 50 1 = Inr (s', q') \<and>
    queue_rep s' q' [3, 4, 7] \<and> qvals (qnodes s') [3, 4, 7] = [(30, 5), (40, 2), (50, 1)]"
  using queue_priority_append [OF demo_queue_rep [of QUEUE_MODE_PRIORITY], of 7 "[8, 9]" 50 1]
  by (auto simp: demo_qmem_def demo_queue_def)

text \<open>In priority mode, a process of higher priority than every queued one is put behind the head
  when two or more are queued: the head stays, so a process of lower priority runs first and the
  queue is no longer in order of priority.\<close>

theorem queue_priority_highest_not_first:
  assumes "queue_rep s q (h # ps)" and "ps \<noteq> []" and "mode q = QUEUE_MODE_PRIORITY" and "qheap s = a # as"
    and "d \<noteq> NULL" and "priority (the (qnodes s (last ps))) < pr" and "priority (the (qnodes s h)) < pr"
  shows "\<exists>s' q'. enqueue s q d pr = Inr (s', q') \<and> queue_rep s' q' (h # a # ps) \<and> qhead q' = h \<and>
    \<not> non_increasing (qvals (qnodes s') (h # a # ps))"
proof -
  have "priority (the (qnodes s h)) \<le> pr" using assms(7) by simp
  from enqueue_priority_second_eq [OF assms(1,2,4,5,3,6) this] obtain m' where
    e: "enqueue s q d pr = Inr (s\<lparr>qnodes := m', qheap := as\<rparr>, q\<lparr>qcount := qcount q + 1\<rparr>)"
      "queue_rep (s\<lparr>qnodes := m', qheap := as\<rparr>) (q\<lparr>qcount := qcount q + 1\<rparr>) (h # a # ps)"
      "qvals m' (h # a # ps) = hd (qvals (qnodes s) (h # ps)) # (d, pr) # qvals (qnodes s) ps"
    by blast
  have "qhead q = h" using assms(1) by (simp add: queue_rep_def)
  moreover have "\<not> non_increasing (qvals m' (h # a # ps))" unfolding e(3) using assms(7) by (simp add: not_le)
  ultimately show ?thesis using e(1,2) by auto
qed

theorem queue_priority_highest_not_first_witness:
  "\<exists>s' q'. enqueue demo_qmem (demo_queue QUEUE_MODE_PRIORITY) 50 9 = Inr (s', q') \<and>
    queue_rep s' q' [3, 7, 4] \<and> qhead q' = 3"
  using queue_priority_highest_not_first [OF demo_queue_rep [of QUEUE_MODE_PRIORITY], of 7 "[8, 9]" 50 9]
  by (auto simp: demo_qmem_def demo_queue_def)

text \<open>In priority mode, a process whose priority lies strictly between those of the head and of a later
  node is counted but not reachable from the head: the cells of the queue are unchanged, so the
  process is never scheduled and the queue's count exceeds its length.\<close>

theorem queue_priority_middle_lost:
  assumes "queue_rep s q (b # bs @ c # cs)" and "mode q = QUEUE_MODE_PRIORITY" and "qheap s = a # as"
    and "d \<noteq> NULL" and "\<forall>x\<in>set (b # bs). pr < priority (the (qnodes s x))"
    and "priority (the (qnodes s c)) < pr" and "priority (the (qnodes s (last (c # cs)))) < pr"
  shows "\<exists>s' q'. enqueue s q d pr = Inr (s', q') \<and>
    path (qnx (qnodes s')) (qhead q') (b # bs @ c # cs) NULL \<and> a \<notin> set (b # bs @ c # cs) \<and>
    qcount q' = length (b # bs @ c # cs) + 1"
proof -
  have tl: "priority (the (qnodes s (last (b # bs @ c # cs)))) < pr" using assms(7) by simp
  have "qcount q = length (b # bs @ c # cs)" using assms(1) by (simp add: queue_rep_def)
  with enqueue_priority_middle_eq [OF assms(1) refl assms(3,4,2,5,6) tl] show ?thesis by auto
qed

theorem queue_priority_middle_lost_witness:
  "\<exists>s' q'. enqueue demo_qmem (demo_queue QUEUE_MODE_PRIORITY) 50 3 = Inr (s', q') \<and>
    path (qnx (qnodes s')) (qhead q') [3, 4] NULL \<and> qcount q' = 3"
  using queue_priority_middle_lost [of demo_qmem "demo_queue QUEUE_MODE_PRIORITY" 3 "[]" 4 "[]" 7 "[8, 9]" 50 3]
    demo_queue_rep [of QUEUE_MODE_PRIORITY]
  by (auto simp: demo_qmem_def demo_queue_def)

text \<open>In LIFO mode, pushing onto a non-empty queue does not link the new head to the old one, and the
  next pop dereferences NULL.\<close>

theorem queue_lifo_pop_faults:
  assumes "queue_rep s q (p # ps)" and "mode q = QUEUE_MODE_LIFO" and "qheap s = a # as" and "d \<noteq> NULL"
  shows "\<exists>s' q'. enqueue s q d pr = Inr (s', q') \<and> path (qnx (qnodes s')) (qhead q') [a] NULL \<and>
    dequeue s' q' = Inl NullDeref"
proof -
  from assms(1,3) have a: "a \<noteq> NULL" "qnodes s a = None" by (auto simp: queue_rep_def)
  from assms(1) obtain n where n: "qnodes s p = Some n" "qhead q = p" "p \<noteq> NULL" "qcount q = Suc (length ps)"
    by (auto simp: queue_rep_def)
  moreover from n a have "p \<noteq> a" by auto
  ultimately show ?thesis using a assms(2-4)
    by (auto simp: enqueue_def queue_node_init_def enqueue_lifo_def dequeue_def dequeue_lifo_def)
qed

theorem queue_lifo_pop_faults_witness:
  "\<exists>s' q'. enqueue demo_qmem (demo_queue QUEUE_MODE_LIFO) 50 1 = Inr (s', q') \<and>
    dequeue s' q' = Inl NullDeref"
  using queue_lifo_pop_faults [OF demo_queue_rep [of QUEUE_MODE_LIFO], of 7 "[8, 9]" 50 1]
  by (auto simp: demo_qmem_def demo_queue_def)

end
