(* ===== verification/Doubly_Linked.thy ===== *)
theory Doubly_Linked
  imports Prelude
begin

text \<open>
  \<^verbatim>\<open>data_structures/doubly_linked_list.c\<close>: the list behind the process handle tables, the sleep queue,
  the memory regions of a process and the page lists of tmpfs. The list's lock and the serial output are
  not modelled.
\<close>

section \<open>Model\<close>

record dll_node =
  ddata :: addr
  dnext :: addr
  dprev :: addr

record dll =
  dhead :: addr
  dtail :: addr
  dcount :: nat

text \<open>
  The nodes in use, and the addresses the kernel heap will hand out. A node comes from a slab, and
  \<^verbatim>\<open>heap_allocate_from_slab\<close> clears what it returns, so memory from \<^verbatim>\<open>kmalloc\<close> and from \<^verbatim>\<open>kzmalloc\<close> is
  zero alike. An exhausted heap returns NULL.
\<close>

record dll_mem =
  dnodes :: "addr \<rightharpoonup> dll_node"
  dheap :: "addr list"

definition node_kmalloc :: "dll_mem \<Rightarrow> dll_mem \<times> addr" where
  "node_kmalloc s =
     (case dheap s of [] \<Rightarrow> (s, NULL)
      | a # rest \<Rightarrow> (s\<lparr>dnodes := (dnodes s)(a \<mapsto> \<lparr>ddata = 0, dnext = 0, dprev = 0\<rparr>), dheap := rest\<rparr>, a))"

text \<open>Freeing a node; the argument must be a node in use.\<close>

definition node_kfree :: "dll_mem \<Rightarrow> addr \<Rightarrow> dll_mem res" where
  "node_kfree s p = bindR (deref (dnodes s) p) (\<lambda>_.
     Inr (s\<lparr>dnodes := (dnodes s)(p := None), dheap := p # dheap s\<rparr>))"

definition doubly_linked_list_init :: dll where
  "doubly_linked_list_init = \<lparr>dhead = NULL, dtail = NULL, dcount = 0\<rparr>"

definition doubly_linked_list_insert_tail :: "dll_mem \<Rightarrow> dll \<Rightarrow> addr \<Rightarrow> (dll_mem \<times> dll) res" where
  "doubly_linked_list_insert_tail s l d =
     (let (s, new_node) = node_kmalloc s in
      bindR (modify (dnodes s) new_node (\<lambda>n. n\<lparr>ddata := d\<rparr>)) (\<lambda>m.
        if dcount l = 0 then
          Inr (s\<lparr>dnodes := m\<rparr>, l\<lparr>dhead := new_node, dtail := NULL, dcount := dcount l + 1\<rparr>)
        else if dcount l = 1 then
          bindR (modify m (dhead l) (\<lambda>n. n\<lparr>dnext := new_node\<rparr>)) (\<lambda>m.
          bindR (modify m new_node (\<lambda>n. n\<lparr>dprev := dhead l\<rparr>)) (\<lambda>m.
            Inr (s\<lparr>dnodes := m\<rparr>, l\<lparr>dtail := new_node, dcount := dcount l + 1\<rparr>)))
        else
          bindR (modify m (dtail l) (\<lambda>n. n\<lparr>dnext := new_node\<rparr>)) (\<lambda>m.
          bindR (modify m new_node (\<lambda>n. n\<lparr>dprev := dtail l\<rparr>)) (\<lambda>m.
            Inr (s\<lparr>dnodes := m\<rparr>, l\<lparr>dtail := new_node, dcount := dcount l + 1\<rparr>)))))"

definition doubly_linked_list_insert_head :: "dll_mem \<Rightarrow> dll \<Rightarrow> addr \<Rightarrow> (dll_mem \<times> dll) res" where
  "doubly_linked_list_insert_head s l d =
     (let (s, new_head) = node_kmalloc s in
      bindR (modify (dnodes s) new_head (\<lambda>n. n\<lparr>ddata := d\<rparr>)) (\<lambda>m.
        if dcount l = 0 then
          bindR (modify m new_head (\<lambda>n. n\<lparr>dnext := NULL, dprev := NULL\<rparr>)) (\<lambda>m.
            Inr (s\<lparr>dnodes := m\<rparr>, l\<lparr>dhead := new_head, dtail := NULL, dcount := dcount l + 1\<rparr>))
        else
          bindR (modify m new_head (\<lambda>n. n\<lparr>dnext := dhead l\<rparr>)) (\<lambda>m.
          bindR (modify m (dhead l) (\<lambda>n. n\<lparr>dprev := new_head\<rparr>)) (\<lambda>m.
          bindR (modify m new_head (\<lambda>n. n\<lparr>dprev := NULL\<rparr>)) (\<lambda>m.
            Inr (s\<lparr>dnodes := m\<rparr>, l\<lparr>dhead := new_head, dcount := dcount l + 1\<rparr>))))))"

definition doubly_linked_list_remove_tail :: "dll_mem \<Rightarrow> dll \<Rightarrow> (dll_mem \<times> dll) res" where
  "doubly_linked_list_remove_tail s l =
     (if dcount l = 0 then Inr (s, l)
      else if dcount l = 1 then
        bindR (node_kfree s (dhead l)) (\<lambda>s.
          Inr (s, l\<lparr>dhead := NULL, dtail := NULL, dcount := dcount l - 1\<rparr>))
      else
        bindR (deref (dnodes s) (dtail l)) (\<lambda>t.
        bindR (deref (dnodes s) (dprev t)) (\<lambda>nt.
        bindR (node_kfree s (dnext nt)) (\<lambda>s.
        bindR (modify (dnodes s) (dprev t) (\<lambda>n. n\<lparr>dnext := NULL\<rparr>)) (\<lambda>m.
          Inr (s\<lparr>dnodes := m\<rparr>, l\<lparr>dtail := dprev t, dcount := dcount l - 1\<rparr>))))))"

definition doubly_linked_list_remove_head :: "dll_mem \<Rightarrow> dll \<Rightarrow> (dll_mem \<times> dll) res" where
  "doubly_linked_list_remove_head s l =
     (if dcount l = 0 then Inr (s, l)
      else if dcount l = 1 then
        bindR (node_kfree s (dhead l)) (\<lambda>s.
          Inr (s, l\<lparr>dhead := NULL, dtail := NULL, dcount := dcount l - 1\<rparr>))
      else
        bindR (deref (dnodes s) (dhead l)) (\<lambda>h.
        bindR (deref (dnodes s) (dnext h)) (\<lambda>nh.
        bindR (node_kfree s (dprev nh)) (\<lambda>s.
        bindR (modify (dnodes s) (dnext h) (\<lambda>n. n\<lparr>dprev := NULL\<rparr>)) (\<lambda>m.
          Inr (s\<lparr>dnodes := m\<rparr>, l\<lparr>dhead := dnext h, dcount := dcount l - 1\<rparr>))))))"

text \<open>Unlinking a node; both removals by address share it, and neither frees the node.\<close>

definition unlink_node :: "dll_mem \<Rightarrow> dll \<Rightarrow> addr \<Rightarrow> (dll_mem \<times> dll) res" where
  "unlink_node s l p =
     bindR (deref (dnodes s) p) (\<lambda>n.
       if dnext n = NULL \<and> dprev n = NULL then
         Inr (s, l\<lparr>dhead := NULL, dtail := NULL, dcount := dcount l - 1\<rparr>)
       else if dnext n = NULL then
         bindR (modify (dnodes s) (dprev n) (\<lambda>q. q\<lparr>dnext := NULL\<rparr>)) (\<lambda>m.
           Inr (s\<lparr>dnodes := m\<rparr>, l\<lparr>dtail := dprev n, dcount := dcount l - 1\<rparr>))
       else if dprev n = NULL then
         bindR (modify (dnodes s) (dnext n) (\<lambda>q. q\<lparr>dprev := NULL\<rparr>)) (\<lambda>m.
           Inr (s\<lparr>dnodes := m\<rparr>, l\<lparr>dhead := dnext n, dcount := dcount l - 1\<rparr>))
       else
         bindR (modify (dnodes s) (dprev n) (\<lambda>q. q\<lparr>dnext := dnext n\<rparr>)) (\<lambda>m.
         bindR (modify m (dnext n) (\<lambda>q. q\<lparr>dprev := dprev n\<rparr>)) (\<lambda>m.
           Inr (s\<lparr>dnodes := m\<rparr>, l\<lparr>dcount := dcount l - 1\<rparr>))))"

definition doubly_linked_list_remove_node_by_address :: "dll_mem \<Rightarrow> dll \<Rightarrow> addr \<Rightarrow> (dll_mem \<times> dll) res" where
  "doubly_linked_list_remove_node_by_address s l p = unlink_node s l p"

text \<open>The removal by data address panics on entry, before the search the rest of its body describes.\<close>

definition doubly_linked_list_remove_node_by_data_address :: "dll_mem \<Rightarrow> dll \<Rightarrow> addr \<Rightarrow> (dll_mem \<times> dll) res" where
  "doubly_linked_list_remove_node_by_data_address s l d = Inl (Panic [])"

text \<open>
  The destruction of a list. Freeing the elements is left to the heap, which the model does not follow;
  the walk takes fuel, and the number of nodes is enough.
\<close>

fun destroy_nodes :: "nat \<Rightarrow> dll_mem \<Rightarrow> addr \<Rightarrow> dll_mem res" where
  "destroy_nodes 0 s p = (if p = NULL then Inr s else Inl Unmodelled)"
| "destroy_nodes (Suc fuel) s p =
     (if p = NULL then Inr s
      else bindR (deref (dnodes s) p) (\<lambda>n. bindR (node_kfree s p) (\<lambda>s. destroy_nodes fuel s (dnext n))))"

definition doubly_linked_list_destroy :: "dll_mem \<Rightarrow> dll option \<Rightarrow> dll_mem res" where
  "doubly_linked_list_destroy s lo =
     (case lo of None \<Rightarrow> Inr s | Some l \<Rightarrow> destroy_nodes (dcount l) s (dhead l))"

section \<open>Representation\<close>

text \<open>
  \<open>dseg m q p as r\<close>: from \<open>p\<close> the cells \<open>as\<close> are linked both ways; the first one's predecessor is \<open>q\<close> and
  the last one's successor is \<open>r\<close>. \<open>prior q as\<close> is the predecessor of what follows \<open>as\<close>.
\<close>

fun dseg :: "(addr \<rightharpoonup> dll_node) \<Rightarrow> addr \<Rightarrow> addr \<Rightarrow> addr list \<Rightarrow> addr \<Rightarrow> bool" where
  "dseg m q p [] r \<longleftrightarrow> p = r"
| "dseg m q p (a # as) r \<longleftrightarrow> p = a \<and> a \<noteq> NULL \<and> (\<exists>n. m a = Some n \<and> dprev n = q \<and> dseg m a (dnext n) as r)"

definition prior :: "addr \<Rightarrow> addr list \<Rightarrow> addr" where
  "prior q as = (if as = [] then q else last as)"

definition dll_rep :: "dll_mem \<Rightarrow> dll \<Rightarrow> addr list \<Rightarrow> bool" where
  "dll_rep s l ps \<longleftrightarrow> dseg (dnodes s) NULL (dhead l) ps NULL \<and> dcount l = length ps \<and> distinct ps \<and>
     distinct (dheap s) \<and> NULL \<notin> set (dheap s) \<and> (\<forall>a\<in>set (dheap s). dnodes s a = None)"

text \<open>The tail pointer as the tail operations need it: it names the last of two or more nodes.\<close>

definition tail_valid :: "dll \<Rightarrow> addr list \<Rightarrow> bool" where
  "tail_valid l ps \<longleftrightarrow> (2 \<le> length ps \<longrightarrow> dtail l = last ps)"

definition dvals :: "dll_mem \<Rightarrow> addr list \<Rightarrow> addr list" where
  "dvals s ps = map (\<lambda>p. ddata (the (dnodes s p))) ps"

section \<open>Segments\<close>

lemma dseg_append: "dseg m q p (as @ bs) r \<longleftrightarrow> (\<exists>x. dseg m q p as x \<and> dseg m (prior q as) x bs r)"
  by (induction as arbitrary: q p) (auto simp: prior_def)

lemma dseg_cong: "(\<And>a. a \<in> set as \<Longrightarrow> m a = m' a) \<Longrightarrow> dseg m q p as r \<longleftrightarrow> dseg m' q p as r"
  by (induction as arbitrary: q p) auto

lemma dseg_fresh: "a \<notin> set as \<Longrightarrow> dseg (m(a := v)) q p as r \<longleftrightarrow> dseg m q p as r"
  by (rule dseg_cong) auto

lemma dseg_node: "dseg m q p as r \<Longrightarrow> a \<in> set as \<Longrightarrow> a \<noteq> NULL \<and> (\<exists>n. m a = Some n)"
  by (induction as arbitrary: q p) auto

lemma dseg_first: "dseg m q p as NULL \<Longrightarrow> p = NULL \<longleftrightarrow> as = []"
  by (cases as) auto

lemma dseg_set_prev:
  "dseg m q p (b # bs) r \<Longrightarrow> b \<notin> set bs \<Longrightarrow> m b = Some n \<Longrightarrow> dseg (m(b \<mapsto> n\<lparr>dprev := q'\<rparr>)) q' p (b # bs) r"
  by (auto simp: dseg_fresh)

lemma dseg_set_next:
  "dseg m q p (as @ [a]) r \<Longrightarrow> a \<notin> set as \<Longrightarrow> m a = Some n \<Longrightarrow> dseg (m(a \<mapsto> n\<lparr>dnext := r'\<rparr>)) q p (as @ [a]) r'"
  by (auto simp: dseg_append dseg_fresh)

lemma dvals_fresh:
  "(\<And>p. p \<in> set ps \<Longrightarrow> ddata (the (dnodes s' p)) = ddata (the (dnodes s p))) \<Longrightarrow> dvals s' ps = dvals s ps"
  by (simp add: dvals_def)

text \<open>A node in the middle: its neighbours as the links name them.\<close>

lemma dseg_split:
  assumes "dseg m NULL h (as @ [p] @ bs) NULL"
  obtains n where "m p = Some n" "p \<noteq> NULL" "dprev n = prior NULL as" "dseg m NULL h as p"
    "dseg m p (dnext n) bs NULL" "dprev n = NULL \<longleftrightarrow> as = []" "dnext n = NULL \<longleftrightarrow> bs = []"
proof -
  obtain n where n: "m p = Some n" "p \<noteq> NULL" "dprev n = prior NULL as" "dseg m NULL h as p" "dseg m p (dnext n) bs NULL"
    using assms by (auto simp: dseg_append)
  have "dprev n = NULL \<longleftrightarrow> as = []"
    using n(3) dseg_node [OF n(4), of "last as"] by (auto simp: prior_def)
  then show thesis by (rule that [OF n _ dseg_first [OF n(5)]])
qed

section \<open>Operations\<close>

lemma unlink_ok:
  assumes rep: "dll_rep s l (as @ [p] @ bs)"
  shows "\<exists>s' l'. unlink_node s l p = Inr (s', l') \<and> dll_rep s' l' (as @ bs) \<and>
    dvals s' (as @ bs) = dvals s (as @ bs) \<and> dheap s' = dheap s \<and>
    (tail_valid l (as @ [p] @ bs) \<longrightarrow> tail_valid l' (as @ bs))"
proof -
  let ?m = "dnodes s"
  have seg: "dseg ?m NULL (dhead l) (as @ [p] @ bs) NULL" and dist: "distinct (as @ [p] @ bs)"
    using rep by (auto simp: dll_rep_def)
  obtain n where n: "?m p = Some n" "p \<noteq> NULL" "dprev n = prior NULL as" "dseg ?m NULL (dhead l) as p"
    "dseg ?m p (dnext n) bs NULL" "dprev n = NULL \<longleftrightarrow> as = []" "dnext n = NULL \<longleftrightarrow> bs = []"
    by (rule dseg_split [OF seg])
  show ?thesis
  proof (cases "bs = []")
    case True
    show ?thesis
    proof (cases "as = []")
      case as: True
      with True n rep show ?thesis
        by (auto simp: unlink_node_def dll_rep_def dvals_def tail_valid_def)
    next
      case False
      then obtain cs c where as: "as = cs @ [c]" using rev_exhaust by blast
      obtain nc where nc: "?m c = Some nc" "c \<noteq> NULL" using dseg_node [OF n(4), of c] as by auto
      have "dseg (?m(c \<mapsto> nc\<lparr>dnext := NULL\<rparr>)) NULL (dhead l) as NULL"
        using dseg_set_next [of ?m NULL "dhead l" cs c p nc NULL] n(4) as nc(1) dist by simp
      then show ?thesis
        using True False n nc rep as
        by (auto simp: unlink_node_def dll_rep_def dvals_def tail_valid_def prior_def dom_def)
    qed
  next
    case False
    then obtain b ds where bs: "bs = b # ds" by (cases bs) auto
    obtain nb where nb: "?m b = Some nb" "b \<noteq> NULL" "dnext n = b" using n(5) bs by auto
    show ?thesis
    proof (cases "as = []")
      case True
      have "dseg (?m(b \<mapsto> nb\<lparr>dprev := NULL\<rparr>)) NULL b bs NULL"
        using dseg_set_prev [of ?m p b b ds NULL nb NULL] n(5) bs nb dist by simp
      then show ?thesis
        using True False n nb rep bs
        by (auto simp: unlink_node_def dll_rep_def dvals_def tail_valid_def prior_def)
    next
      case as0: False
      then obtain cs c where as: "as = cs @ [c]" using rev_exhaust by blast
      obtain nc where nc: "?m c = Some nc" "c \<noteq> NULL" using dseg_node [OF n(4), of c] as by auto
      have neq: "c \<noteq> b" "c \<notin> set bs" "b \<notin> set as" using dist as bs by auto
      let ?m' = "?m(c \<mapsto> nc\<lparr>dnext := b\<rparr>, b \<mapsto> nb\<lparr>dprev := c\<rparr>)"
      have "dseg (?m(c \<mapsto> nc\<lparr>dnext := b\<rparr>)) NULL (dhead l) as b"
        using dseg_set_next [of ?m NULL "dhead l" cs c p nc b] n(4) as nc(1) dist by simp
      then have s1: "dseg ?m' NULL (dhead l) as b" using neq by (simp add: dseg_fresh)
      have "dseg (?m(b \<mapsto> nb\<lparr>dprev := c\<rparr>)) c b bs NULL"
        using dseg_set_prev [of ?m p b b ds NULL nb c] n(5) bs nb dist by simp
      then have s2: "dseg ?m' (prior NULL as) b bs NULL"
        using neq as by (simp add: fun_upd_twist dseg_fresh prior_def)
      have "dseg ?m' NULL (dhead l) (as @ bs) NULL"
        using s1 s2 dseg_append by blast
      moreover have "unlink_node s l p = Inr (s\<lparr>dnodes := ?m'\<rparr>, l\<lparr>dcount := dcount l - 1\<rparr>)"
        using n nc nb as0 False neq as by (simp add: unlink_node_def prior_def)
      ultimately show ?thesis
        using rep nc nb bs by (auto simp: dll_rep_def dvals_def tail_valid_def)
    qed
  qed
qed

lemma dll_heap:
  assumes "dll_rep s l ps" "dheap s \<noteq> []"
  obtains a rest where "dheap s = a # rest" "a \<noteq> NULL" "a \<notin> set ps" "dnodes s a = None"
    "distinct rest" "a \<notin> set rest" "NULL \<notin> set rest" "\<forall>b\<in>set rest. dnodes s b = None"
proof -
  obtain a rest where h: "dheap s = a # rest" using assms(2) by (cases "dheap s") auto
  then have "dnodes s a = None" "a \<noteq> NULL" using assms(1) by (auto simp: dll_rep_def)
  moreover from this have "a \<notin> set ps" using assms(1) dseg_node by (fastforce simp: dll_rep_def)
  ultimately show thesis using h assms(1) by (intro that [of a rest]) (auto simp: dll_rep_def)
qed

lemma insert_head_ok:
  assumes rep: "dll_rep s l ps" and "dheap s \<noteq> []"
  shows "\<exists>s' l' p. doubly_linked_list_insert_head s l d = Inr (s', l') \<and> dll_rep s' l' (p # ps) \<and>
    dvals s' (p # ps) = d # dvals s ps \<and> Suc (length (dheap s')) = length (dheap s) \<and> p \<notin> set ps \<and>
    (2 \<le> length ps \<longrightarrow> tail_valid l ps \<longrightarrow> tail_valid l' (p # ps))"
proof -
  obtain a rest where h: "dheap s = a # rest" "a \<noteq> NULL" "a \<notin> set ps" "dnodes s a = None"
    "distinct rest" "a \<notin> set rest" "NULL \<notin> set rest" "\<forall>b\<in>set rest. dnodes s b = None"
    by (rule dll_heap [OF assms])
  have seg: "dseg (dnodes s) NULL (dhead l) ps NULL" "dcount l = length ps" "distinct ps" using rep by (auto simp: dll_rep_def)
  show ?thesis
  proof (cases ps)
    case Nil
    with h seg show ?thesis
      by (auto simp: doubly_linked_list_insert_head_def node_kmalloc_def dll_rep_def dvals_def tail_valid_def)
  next
    case (Cons b bs)
    then obtain nb where nb: "dnodes s b = Some nb" "dhead l = b" "b \<noteq> NULL" "dprev nb = NULL" "dseg (dnodes s) b (dnext nb) bs NULL"
      using seg by auto
    have neq: "a \<noteq> b" "a \<notin> set bs" "b \<notin> set bs" using h(3) seg(3) Cons by auto
    let ?m = "(dnodes s)(a \<mapsto> \<lparr>ddata = d, dnext = b, dprev = NULL\<rparr>, b \<mapsto> nb\<lparr>dprev := a\<rparr>)"
    have run: "doubly_linked_list_insert_head s l d =
        Inr (s\<lparr>dnodes := ?m, dheap := rest\<rparr>, l\<lparr>dhead := a, dcount := dcount l + 1\<rparr>)"
      using h(1,2) nb neq seg(2) Cons
      by (simp add: doubly_linked_list_insert_head_def node_kmalloc_def fun_upd_twist)
    have "dseg ?m NULL a (a # ps) NULL"
      using nb neq h(2) Cons by (simp add: dseg_fresh)
    moreover have "b \<notin> set rest" using h(8) nb(1) by auto
    moreover have "dvals (s\<lparr>dnodes := ?m, dheap := rest\<rparr>) (a # ps) = d # dvals s ps"
      using neq nb(1) Cons by (auto simp: dvals_def)
    ultimately show ?thesis using run h seg Cons by (auto simp: dll_rep_def tail_valid_def)
  qed
qed

lemma remove_head_ok:
  assumes rep: "dll_rep s l (p # ps)"
  shows "\<exists>s' l'. doubly_linked_list_remove_head s l = Inr (s', l') \<and> dll_rep s' l' ps \<and>
    dvals s' ps = dvals s ps \<and> length (dheap s') = Suc (length (dheap s)) \<and>
    (tail_valid l (p # ps) \<longrightarrow> tail_valid l' ps)"
proof -
  obtain n where n: "dnodes s p = Some n" "dhead l = p" "p \<noteq> NULL" "dseg (dnodes s) p (dnext n) ps NULL"
    using rep by (auto simp: dll_rep_def)
  have c: "dcount l = Suc (length ps)" "p \<notin> set ps" "distinct ps" "p \<notin> set (dheap s)"
    using rep n(1) by (auto simp: dll_rep_def)
  show ?thesis
  proof (cases ps)
    case Nil
    with n c rep show ?thesis
      by (auto simp: doubly_linked_list_remove_head_def node_kfree_def dll_rep_def dvals_def tail_valid_def)
  next
    case (Cons b bs)
    then obtain nb where nb: "dnodes s b = Some nb" "dnext n = b" "b \<noteq> NULL" "dprev nb = p" "dseg (dnodes s) b (dnext nb) bs NULL"
      using n(4) by auto
    have neq: "p \<noteq> b" "p \<notin> set bs" "b \<notin> set bs" using c Cons by auto
    let ?m = "(dnodes s)(p := None, b \<mapsto> nb\<lparr>dprev := NULL\<rparr>)"
    have run: "doubly_linked_list_remove_head s l =
        Inr (s\<lparr>dnodes := ?m, dheap := p # dheap s\<rparr>, l\<lparr>dhead := b, dcount := dcount l - 1\<rparr>)"
      using n nb neq c(1) Cons by (simp add: doubly_linked_list_remove_head_def node_kfree_def)
    have "dseg ?m NULL b ps NULL" using nb neq Cons by (simp add: dseg_fresh)
    moreover have "b \<notin> set (dheap s)" using rep nb(1) by (auto simp: dll_rep_def)
    moreover have "dvals (s\<lparr>dnodes := ?m, dheap := p # dheap s\<rparr>) ps = dvals s ps"
      using neq nb(1) Cons by (auto simp: dvals_def)
    ultimately show ?thesis using run rep c n(3) Cons by (auto simp: dll_rep_def tail_valid_def)
  qed
qed

lemma insert_tail_ok:
  assumes rep: "dll_rep s l ps" and "dheap s \<noteq> []" and tv: "tail_valid l ps"
  shows "\<exists>s' l' p. doubly_linked_list_insert_tail s l d = Inr (s', l') \<and> dll_rep s' l' (ps @ [p]) \<and>
    dvals s' (ps @ [p]) = dvals s ps @ [d] \<and> Suc (length (dheap s')) = length (dheap s) \<and>
    tail_valid l' (ps @ [p])"
proof -
  obtain a rest where h: "dheap s = a # rest" "a \<noteq> NULL" "a \<notin> set ps" "dnodes s a = None"
    "distinct rest" "a \<notin> set rest" "NULL \<notin> set rest" "\<forall>b\<in>set rest. dnodes s b = None"
    by (rule dll_heap [OF assms(1,2)])
  have seg: "dseg (dnodes s) NULL (dhead l) ps NULL" "dcount l = length ps" "distinct ps" using rep by (auto simp: dll_rep_def)
  show ?thesis
  proof (cases "ps = []")
    case True
    with h seg show ?thesis
      by (auto simp: doubly_linked_list_insert_tail_def node_kmalloc_def dll_rep_def dvals_def tail_valid_def)
  next
    case False
    then obtain cs c where ps: "ps = cs @ [c]" using rev_exhaust by blast
    then have segc: "dseg (dnodes s) NULL (dhead l) (cs @ [c]) NULL" using seg(1) by simp
    then obtain nc where nc: "dnodes s c = Some nc" "c \<noteq> NULL" using dseg_node by fastforce
    have neq: "a \<noteq> c" "a \<notin> set cs" "c \<notin> set cs" using h(3) seg(3) ps by auto
    let ?m = "(dnodes s)(a \<mapsto> \<lparr>ddata = d, dnext = NULL, dprev = c\<rparr>, c \<mapsto> nc\<lparr>dnext := a\<rparr>)"
    have last1: "if length ps = 1 then dhead l = c else dtail l = c"
      using segc ps tv by (cases cs) (auto simp: tail_valid_def)
    have run: "doubly_linked_list_insert_tail s l d =
        Inr (s\<lparr>dnodes := ?m, dheap := rest\<rparr>, l\<lparr>dtail := a, dcount := dcount l + 1\<rparr>)"
      using h(1,2) nc neq seg(2) ps last1
      by (auto simp: doubly_linked_list_insert_tail_def node_kmalloc_def fun_upd_twist split: if_splits)
    have "dseg ((dnodes s)(c \<mapsto> nc\<lparr>dnext := a\<rparr>)) NULL (dhead l) ps a"
      using dseg_set_next [OF segc neq(3) nc(1)] ps by simp
    moreover have "?m = (dnodes s)(c \<mapsto> nc\<lparr>dnext := a\<rparr>, a \<mapsto> \<lparr>ddata = d, dnext = NULL, dprev = c\<rparr>)"
      using neq(1) by (rule fun_upd_twist)
    ultimately have "dseg ?m NULL (dhead l) ps a"
      using h(3) dseg_fresh by metis
    then have "dseg ?m NULL (dhead l) (ps @ [a]) NULL"
      using neq h(2) ps unfolding dseg_append [of _ _ _ ps] by (intro exI [of _ a]) (auto simp: prior_def)
    moreover have "c \<notin> set rest" using h(8) nc(1) by auto
    moreover have "dvals (s\<lparr>dnodes := ?m, dheap := rest\<rparr>) (ps @ [a]) = dvals s ps @ [d]"
      using neq nc(1) ps by (auto simp: dvals_def)
    ultimately show ?thesis using run h seg ps by (auto simp: dll_rep_def tail_valid_def)
  qed
qed

lemma remove_tail_ok:
  assumes rep: "dll_rep s l (ps @ [p])" and tv: "tail_valid l (ps @ [p])"
  shows "\<exists>s' l'. doubly_linked_list_remove_tail s l = Inr (s', l') \<and> dll_rep s' l' ps \<and>
    dvals s' ps = dvals s ps \<and> length (dheap s') = Suc (length (dheap s)) \<and> tail_valid l' ps"
proof -
  have seg: "dseg (dnodes s) NULL (dhead l) (ps @ [p]) NULL" "dcount l = Suc (length ps)" "distinct (ps @ [p])"
    using rep by (auto simp: dll_rep_def)
  obtain n where n: "dnodes s p = Some n" "p \<noteq> NULL" "dprev n = prior NULL ps" "dseg (dnodes s) NULL (dhead l) ps p"
    using seg(1) by (auto simp: dseg_append)
  have hp: "p \<notin> set (dheap s)" using rep n(1) by (auto simp: dll_rep_def)
  show ?thesis
  proof (cases "ps = []")
    case True
    with n seg rep hp show ?thesis
      by (auto simp: doubly_linked_list_remove_tail_def node_kfree_def dll_rep_def dvals_def tail_valid_def)
  next
    case False
    then obtain cs c where ps: "ps = cs @ [c]" using rev_exhaust by blast
    then have segc: "dseg (dnodes s) NULL (dhead l) (cs @ [c]) p" using n(4) by simp
    then obtain nc where nc: "dnodes s c = Some nc" "c \<noteq> NULL" "dnext nc = p" by (auto simp: dseg_append)
    have neq: "c \<noteq> p" "c \<notin> set cs" "p \<notin> set ps" using seg(3) ps by auto
    have pr: "dprev n = c" "dtail l = p" using n(3) ps tv by (auto simp: prior_def tail_valid_def)
    let ?m = "(dnodes s)(p := None, c \<mapsto> nc\<lparr>dnext := NULL\<rparr>)"
    have run: "doubly_linked_list_remove_tail s l =
        Inr (s\<lparr>dnodes := ?m, dheap := p # dheap s\<rparr>, l\<lparr>dtail := c, dcount := dcount l - 1\<rparr>)"
      using n nc neq pr seg(2) ps by (simp add: doubly_linked_list_remove_tail_def node_kfree_def)
    have "dseg ((dnodes s)(c \<mapsto> nc\<lparr>dnext := NULL\<rparr>)) NULL (dhead l) ps NULL"
      using dseg_set_next [OF segc neq(2) nc(1)] ps by simp
    then have "dseg ?m NULL (dhead l) ps NULL"
      using neq dseg_fresh [of p ps "(dnodes s)(c \<mapsto> nc\<lparr>dnext := NULL\<rparr>)"] by (simp add: fun_upd_twist)
    moreover have "c \<notin> set (dheap s)" using rep nc(1) by (auto simp: dll_rep_def)
    moreover have "dvals (s\<lparr>dnodes := ?m, dheap := p # dheap s\<rparr>) ps = dvals s ps"
      using neq nc(1) by (auto simp: dvals_def)
    ultimately show ?thesis using run rep seg n(2) hp ps by (auto simp: dll_rep_def tail_valid_def)
  qed
qed

lemma destroy_nodes_ok:
  "dseg (dnodes s) q p ps NULL \<Longrightarrow> distinct ps \<Longrightarrow>
    \<exists>s'. destroy_nodes (length ps) s p = Inr s' \<and> (\<forall>a\<in>set ps. dnodes s' a = None) \<and>
      (\<forall>a. a \<notin> set ps \<longrightarrow> dnodes s' a = dnodes s a) \<and> length (dheap s') = length ps + length (dheap s)"
proof (induction ps arbitrary: s q p)
  case Nil
  then show ?case by simp
next
  case (Cons a ps)
  then obtain n where n: "dnodes s a = Some n" "p = a" "a \<noteq> NULL" "dseg (dnodes s) a (dnext n) ps NULL" by auto
  let ?s = "s\<lparr>dnodes := (dnodes s)(a := None), dheap := a # dheap s\<rparr>"
  have na: "a \<notin> set ps" "distinct ps" using Cons.prems(2) by auto
  then have "dseg (dnodes ?s) a (dnext n) ps NULL" using n(4) by (simp add: dseg_fresh)
  from Cons.IH [OF this na(2)] n na(1) show ?case by (auto simp: node_kfree_def)
qed

section \<open>Properties\<close>

text \<open>The list as the sequence of its elements, with a tail pointer the tail operations can use.\<close>

definition dll_list :: "dll_mem \<Rightarrow> dll \<Rightarrow> addr list \<Rightarrow> bool" where
  "dll_list s l xs \<longleftrightarrow> (\<exists>ps. dll_rep s l ps \<and> tail_valid l ps \<and> dvals s ps = xs)"

lemma dvals_append [simp]: "dvals s (ps @ qs) = dvals s ps @ dvals s qs"
  by (simp add: dvals_def)

lemma dvals_Cons [simp]: "dvals s (p # ps) = ddata (the (dnodes s p)) # dvals s ps"
  by (simp add: dvals_def)

lemma dvals_eq_snoc:
  assumes "dvals s qs = xs @ [x]"
  obtains ps p where "qs = ps @ [p]" "dvals s ps = xs"
  using assms that by (cases qs rule: rev_cases) (auto simp: dvals_def)

lemma dvals_eq_Cons:
  assumes "dvals s qs = x # xs"
  obtains p ps where "qs = p # ps" "dvals s ps = xs"
  using assms that by (cases qs) (auto simp: dvals_def)

text \<open>A small memory for the witnesses: three linked nodes with 70, 71, 72 and two free addresses.\<close>

definition demo_dmem :: dll_mem where
  "demo_dmem = \<lparr>dnodes = [5 \<mapsto> \<lparr>ddata = 70, dnext = 6, dprev = 0\<rparr>, 6 \<mapsto> \<lparr>ddata = 71, dnext = 7, dprev = 5\<rparr>,
     7 \<mapsto> \<lparr>ddata = 72, dnext = 0, dprev = 6\<rparr>], dheap = [8, 9]\<rparr>"

definition demo_dll :: dll where
  "demo_dll = \<lparr>dhead = 5, dtail = 7, dcount = 3\<rparr>"

lemma demo_dll_rep: "dll_rep demo_dmem demo_dll [5, 6, 7]" "tail_valid demo_dll [5, 6, 7]" "dvals demo_dmem [5, 6, 7] = [70, 71, 72]"
  by (auto simp: dll_rep_def demo_dmem_def demo_dll_def tail_valid_def dvals_def)

lemma demo_dll_list: "dll_list demo_dmem demo_dll [70, 71, 72]"
  using demo_dll_rep unfolding dll_list_def by blast

lemma dll_insert_tail_seq:
  assumes "dll_list s l xs" "dheap s \<noteq> []"
  shows "\<exists>s' l'. doubly_linked_list_insert_tail s l d = Inr (s', l') \<and> dll_list s' l' (xs @ [d])"
proof -
  obtain ps where ps: "dll_rep s l ps" "tail_valid l ps" "dvals s ps = xs" using assms(1) by (auto simp: dll_list_def)
  show ?thesis using insert_tail_ok [OF ps(1) assms(2) ps(2), of d] ps(3) unfolding dll_list_def by metis
qed

lemma dll_insert_head_seq:
  assumes "dll_list s l xs" "dheap s \<noteq> []" "length xs \<noteq> 1"
  shows "\<exists>s' l'. doubly_linked_list_insert_head s l d = Inr (s', l') \<and> dll_list s' l' (d # xs)"
proof -
  obtain ps where ps: "dll_rep s l ps" "tail_valid l ps" "dvals s ps = xs" using assms(1) by (auto simp: dll_list_def)
  obtain s' l' p where r: "doubly_linked_list_insert_head s l d = Inr (s', l')" "dll_rep s' l' (p # ps)"
    "dvals s' (p # ps) = d # dvals s ps" "2 \<le> length ps \<longrightarrow> tail_valid l ps \<longrightarrow> tail_valid l' (p # ps)"
    using insert_head_ok [OF ps(1) assms(2), of d] by blast
  have "length ps = length xs" using ps(3) by (auto simp: dvals_def)
  then have "tail_valid l' (p # ps)" using r(4) ps(2) assms(3) by (cases "2 \<le> length ps") (auto simp: tail_valid_def)
  with r ps(3) show ?thesis unfolding dll_list_def by auto
qed

lemma dll_remove_tail_seq:
  assumes "dll_list s l (xs @ [x])"
  shows "\<exists>s' l'. doubly_linked_list_remove_tail s l = Inr (s', l') \<and> dll_list s' l' xs \<and>
    length (dheap s') = Suc (length (dheap s))"
proof -
  obtain qs where qs: "dll_rep s l qs" "tail_valid l qs" "dvals s qs = xs @ [x]" using assms by (auto simp: dll_list_def)
  obtain ps p where "qs = ps @ [p]" "dvals s ps = xs" using qs(3) by (rule dvals_eq_snoc)
  with remove_tail_ok [of s l ps p] qs show ?thesis unfolding dll_list_def by metis
qed

lemma dll_remove_head_seq:
  assumes "dll_list s l (x # xs)"
  shows "\<exists>s' l'. doubly_linked_list_remove_head s l = Inr (s', l') \<and> dll_list s' l' xs \<and>
    length (dheap s') = Suc (length (dheap s))"
proof -
  obtain qs where qs: "dll_rep s l qs" "tail_valid l qs" "dvals s qs = x # xs" using assms by (auto simp: dll_list_def)
  obtain p ps where "qs = p # ps" "dvals s ps = xs" using qs(3) by (rule dvals_eq_Cons)
  with remove_head_ok [of s l p ps] qs show ?thesis unfolding dll_list_def by metis
qed

text \<open>Both ends of a list of two or more elements behave as those of a sequence: with memory left,
  insertion at the tail appends and insertion at the head prepends; removal at either end drops that
  element, and all four leave a list whose tail pointer is right.\<close>

theorem dll_ends_are_a_sequence:
  assumes "dll_list s l xs" "dheap s \<noteq> []" "2 \<le> length xs"
  shows "(\<exists>s' l'. doubly_linked_list_insert_tail s l d = Inr (s', l') \<and> dll_list s' l' (xs @ [d])) \<and>
    (\<exists>s' l'. doubly_linked_list_insert_head s l d = Inr (s', l') \<and> dll_list s' l' (d # xs)) \<and>
    (\<exists>s' l'. doubly_linked_list_remove_tail s l = Inr (s', l') \<and> dll_list s' l' (butlast xs)) \<and>
    (\<exists>s' l'. doubly_linked_list_remove_head s l = Inr (s', l') \<and> dll_list s' l' (tl xs))"
proof -
  have "xs \<noteq> []" using assms(3) by auto
  then have "dll_list s l (butlast xs @ [last xs])" "dll_list s l (hd xs # tl xs)" using assms(1) by simp_all
  moreover have "length xs \<noteq> 1" using assms(3) by simp
  ultimately show ?thesis
    using dll_insert_tail_seq [OF assms(1,2), of d] dll_insert_head_seq [OF assms(1,2), of d]
      dll_remove_tail_seq [of s l "butlast xs" "last xs"] dll_remove_head_seq [of s l "hd xs" "tl xs"] by blast
qed

theorem dll_ends_are_a_sequence_witness:
  "\<exists>s' l'. doubly_linked_list_remove_head demo_dmem demo_dll = Inr (s', l') \<and> dll_list s' l' [71, 72]"
  using dll_ends_are_a_sequence [OF demo_dll_list, of 73] by (simp add: demo_dmem_def)

text \<open>C23: The handle tables and the sleep queue insert at the head and remove by node address. Removing any
  node of a well-formed list leaves the other nodes linked both ways in their order, with their data;
  the node itself is not given back to the heap.\<close>

theorem dll_remove_by_address:
  assumes "dll_rep s l (as @ [p] @ bs)"
  shows "\<exists>s' l'. doubly_linked_list_remove_node_by_address s l p = Inr (s', l') \<and> dll_rep s' l' (as @ bs) \<and>
    dvals s' (as @ bs) = dvals s (as @ bs) \<and> dheap s' = dheap s"
  using unlink_ok [OF assms] by (auto simp: doubly_linked_list_remove_node_by_address_def)

theorem dll_remove_by_address_witness:
  "\<exists>s' l'. doubly_linked_list_remove_node_by_address demo_dmem demo_dll 6 = Inr (s', l') \<and> dll_rep s' l' [5, 7]"
  using dll_remove_by_address [of demo_dmem demo_dll "[5]" 6 "[7]"] demo_dll_rep(1) by auto

lemma modify_then_fault: "bindR (modify m p f) (\<lambda>_. Inl NullDeref) = Inl NullDeref"
  by (auto simp: modify_def deref_def split: option.splits)

text \<open>Insertion at the head of a list with one node does not set the tail pointer: after two insertions
  at the head of an empty list the tail is NULL, and inserting or removing at the tail dereferences it.\<close>

theorem dll_two_head_inserts_break_tail:
  assumes "dheap s = a # b # rest" "a \<noteq> NULL" "b \<noteq> NULL" "a \<noteq> b"
  shows "\<exists>s' l'. bindR (doubly_linked_list_insert_head s doubly_linked_list_init x) (\<lambda>(s, l).
      doubly_linked_list_insert_head s l y) = Inr (s', l') \<and> dcount l' = 2 \<and>
    doubly_linked_list_remove_tail s' l' = Inl NullDeref \<and> doubly_linked_list_insert_tail s' l' z = Inl NullDeref"
  using assms
  by (cases rest)
    (simp_all add: doubly_linked_list_insert_head_def doubly_linked_list_init_def node_kmalloc_def
      doubly_linked_list_remove_tail_def doubly_linked_list_insert_tail_def modify_then_fault)

theorem dll_two_head_inserts_break_tail_witness:
  "\<exists>s' l'. dcount l' = 2 \<and> doubly_linked_list_remove_tail s' l' = Inl NullDeref"
  using dll_two_head_inserts_break_tail [of demo_dmem 8 9 "[]" 70 71 72] by (auto simp: demo_dmem_def)

end
