(* ===== verification/Hash_Tables.thy ===== *)
theory Hash_Tables
  imports List_Family Interfaces
begin

text \<open>
  \<^verbatim>\<open>data_structures/hash_table.c\<close>: the 64-bit mixing function, the statically sized table the
  physical memory manager keeps its used buddy blocks in, and the heap allocated table. Buckets are
  singly linked lists over one node memory; a table is the list of its bucket headers.
\<close>

section \<open>Model\<close>

record static_hash_table =
  table :: "sll list"
  table_size :: "64 word"

text \<open>\<^verbatim>\<open>struct hash_table\<close>: \<open>None\<close> is a NULL bucket array.\<close>

record hash_table =
  buckets :: "sll list option"
  buckets_size :: "64 word"

abbreviation (input) HASH_TABLE_STATIC_POOL_SIZE :: nat where
  "HASH_TABLE_STATIC_POOL_SIZE \<equiv> 1500"

text \<open>The mixing steps of \<^verbatim>\<open>hash\<close>, then the reduction: a remainder by 0 faults.\<close>

definition hash_mix :: "64 word \<Rightarrow> 64 word" where
  "hash_mix key =
     (let key = key XOR drop_bit 4 key;
          key = key * 0xBF58476D1CE4E5B9;
          key = key XOR drop_bit 31 key;
          key = key * 0x94D049BB133111EB;
          key = key XOR drop_bit 30 key;
          key = key * 0x9E3779B97F4A7C15
      in key XOR drop_bit 26 key)"

definition hash :: "64 word \<Rightarrow> 64 word \<Rightarrow> 64 word res" where
  "hash key modulus =
     (let key = hash_mix key in
      if key > modulus then (if modulus = 0 then Inl DivideError else Inr (key mod modulus))
      else Inr key)"

text \<open>
  The loop of \<^verbatim>\<open>static_hash_table_init\<close> from bucket \<open>i\<close> for \<open>n\<close> buckets; \<open>copy\<close> is the first call's copy of
  the static bucket pool. The node pool of the lists is the argument \<open>pool\<close> of
  \<^verbatim>\<open>singly_linked_list_init\<close>.
\<close>

fun init_buckets :: "addr list \<Rightarrow> sll list option \<Rightarrow> nat \<Rightarrow> nat \<Rightarrow> sll_mem \<Rightarrow> sll list \<Rightarrow> (sll_mem \<times> sll list) res" where
  "init_buckets pool copy i 0 s t = Inr (s, t)"
| "init_buckets pool copy i (Suc n) s t =
     (if length t \<le> i then Inl OutOfBounds
      else bindR (case copy of None \<Rightarrow> Inr t
                  | Some b \<Rightarrow> (if i < length b then Inr (t[i := b ! i]) else Inl OutOfBounds)) (\<lambda>t.
           bindR (singly_linked_list_init pool s 0) (\<lambda>(s, l).
             init_buckets pool copy (Suc i) n s (t[i := l]))))"

text \<open>\<open>full\<close> is the flag of the same name; \<open>None\<close> is a NULL table argument.\<close>

definition static_hash_table_init ::
  "addr list \<Rightarrow> sll list \<Rightarrow> bool \<Rightarrow> sll_mem \<Rightarrow> static_hash_table option \<Rightarrow> 64 word \<Rightarrow>
   (bool \<times> sll_mem \<times> static_hash_table) res" where
  "static_hash_table_init pool hash_bucket_static_pool full s tbl sz =
     (case tbl of None \<Rightarrow> Inl (Panic ''hash_table_init: table is NULL'')
      | Some tb \<Rightarrow>
        let tb = tb\<lparr>table_size := sz\<rparr> in
        if \<not> full then
          bindR (init_buckets pool (Some hash_bucket_static_pool) 0 (unat sz) s (table tb)) (\<lambda>(s, t).
            Inr (True, s, tb\<lparr>table := t\<rparr>))
        else
          bindR (init_buckets pool None 0 (unat sz) s (table tb)) (\<lambda>(s, t).
            Inr (full, s, tb\<lparr>table := t\<rparr>)))"

definition insert_bucket :: "sll_mem \<Rightarrow> sll list \<Rightarrow> 64 word \<Rightarrow> addr \<Rightarrow> (sll_mem \<times> sll list) res" where
  "insert_bucket s t hash_key d =
     (if unat hash_key < length t then
        bindR (singly_linked_list_insert_head s (t ! unat hash_key) d) (\<lambda>(s, l).
          Inr (s, t[unat hash_key := l]))
      else Inl OutOfBounds)"

definition static_hash_table_insert ::
  "sll_mem \<Rightarrow> static_hash_table \<Rightarrow> 64 word \<Rightarrow> addr \<Rightarrow> (sll_mem \<times> static_hash_table) res" where
  "static_hash_table_insert s tb key d =
     bindR (hash key (table_size tb)) (\<lambda>hash_key.
     bindR (insert_bucket s (table tb) hash_key d) (\<lambda>(s, t). Inr (s, tb\<lparr>table := t\<rparr>)))"

text \<open>The walk of \<^verbatim>\<open>static_hash_table_check\<close>; the bucket's node count is enough fuel.\<close>

fun check_walk :: "nat \<Rightarrow> (addr \<rightharpoonup> sll_node) \<Rightarrow> addr \<Rightarrow> addr \<Rightarrow> bool res" where
  "check_walk 0 m d p = (if p = NULL then Inr False else Inl Unmodelled)"
| "check_walk (Suc fuel) m d p =
     (if p = NULL then Inr False
      else bindR (deref m p) (\<lambda>n. if data n = d then Inr True else check_walk fuel m d (next n)))"

definition static_hash_table_retrieve :: "static_hash_table \<Rightarrow> 64 word \<Rightarrow> sll res" where
  "static_hash_table_retrieve tb hash_key =
     (if unat hash_key < length (table tb) then Inr (table tb ! unat hash_key) else Inl OutOfBounds)"

definition static_hash_table_check :: "sll_mem \<Rightarrow> static_hash_table \<Rightarrow> 64 word \<Rightarrow> addr \<Rightarrow> bool res" where
  "static_hash_table_check s tb hash_key d =
     bindR (static_hash_table_retrieve tb hash_key) (\<lambda>b. check_walk (node_count b) (nodes s) d (head b))"

text \<open>
  The heap allocated table. \<open>arr\<close> is what \<^verbatim>\<open>kmalloc\<close> returned for the bucket array (\<open>None\<close> for NULL);
  a NULL table argument is \<open>None\<close>.
\<close>

definition hash_table_init ::
  "addr list \<Rightarrow> sll list option \<Rightarrow> sll_mem \<Rightarrow> hash_table option \<Rightarrow> 64 word \<Rightarrow> (sll_mem \<times> hash_table) res" where
  "hash_table_init pool arr s tbl sz =
     (case tbl of None \<Rightarrow> Inl (Panic ''hash_table_init: table is NULL'')
      | Some tb \<Rightarrow>
        (case arr of None \<Rightarrow> Inl (Panic ''hash_table_init: Memory allocation failed'')
         | Some t \<Rightarrow>
           bindR (init_buckets pool None 0 (unat sz) s t) (\<lambda>(s, t).
             Inr (s, tb\<lparr>buckets_size := sz, buckets := Some t\<rparr>))))"

fun destroy_buckets :: "nat \<Rightarrow> nat \<Rightarrow> sll_mem \<Rightarrow> sll list \<Rightarrow> sll_mem res" where
  "destroy_buckets i 0 s t = Inr s"
| "destroy_buckets i (Suc n) s t =
     (if length t \<le> i then Inl OutOfBounds
      else bindR (singly_linked_list_destroy s (t ! i)) (\<lambda>s. destroy_buckets (Suc i) n s t))"

text \<open>The two calls of \<^verbatim>\<open>kfree\<close> on the bucket array and the table end their life; only the nodes are left to say.\<close>

definition hash_table_destroy :: "sll_mem \<Rightarrow> hash_table option \<Rightarrow> sll_mem res" where
  "hash_table_destroy s tbl =
     (case tbl of None \<Rightarrow> Inr s
      | Some tb \<Rightarrow>
        (case buckets tb of
           None \<Rightarrow> (if buckets_size tb = 0 then Inr s else Inl NullDeref)
         | Some t \<Rightarrow> destroy_buckets 0 (unat (buckets_size tb)) s t))"

definition hash_table_insert ::
  "sll_mem \<Rightarrow> hash_table option \<Rightarrow> 64 word \<Rightarrow> addr \<Rightarrow> (sll_mem \<times> hash_table) res" where
  "hash_table_insert s tbl key d =
     (case tbl of None \<Rightarrow> Inl (Panic ''hash_table_insert: table is NULL or not initialized'')
      | Some tb \<Rightarrow>
        (case buckets tb of None \<Rightarrow> Inl (Panic ''hash_table_insert: table is NULL or not initialized'')
         | Some t \<Rightarrow>
           bindR (hash key (buckets_size tb)) (\<lambda>hash_key.
           bindR (insert_bucket s t hash_key d) (\<lambda>(s, t). Inr (s, tb\<lparr>buckets := Some t\<rparr>)))))"

definition hash_table_retrieve :: "hash_table option \<Rightarrow> 64 word \<Rightarrow> sll res" where
  "hash_table_retrieve tbl hash_key =
     (case tbl of None \<Rightarrow> Inl (Panic ''hash_table_retrieve: table is NULL or not initialized'')
      | Some tb \<Rightarrow>
        (case buckets tb of None \<Rightarrow> Inl (Panic ''hash_table_retrieve: table is NULL or not initialized'')
         | Some t \<Rightarrow>
           if hash_key \<ge> buckets_size tb then Inl (Panic ''hash_table_retrieve: hash_key out of bounds'')
           else if unat hash_key < length t then Inr (t ! unat hash_key) else Inl OutOfBounds))"

section \<open>Representation\<close>

text \<open>Bucket \<open>i\<close> of the table holds the sequence \<open>B i\<close>.\<close>

definition buckets_rep :: "sll_mem \<Rightarrow> sll list \<Rightarrow> (nat \<Rightarrow> addr list) \<Rightarrow> bool" where
  "buckets_rep s t B \<longleftrightarrow> family s {..<length t} ((!) t) B"

definition table_rep :: "sll_mem \<Rightarrow> static_hash_table \<Rightarrow> (nat \<Rightarrow> addr list) \<Rightarrow> bool" where
  "table_rep s tb B \<longleftrightarrow> buckets_rep s (table tb) B \<and> length (table tb) = unat (table_size tb)"

definition heap_table_rep :: "sll_mem \<Rightarrow> hash_table \<Rightarrow> (nat \<Rightarrow> addr list) \<Rightarrow> bool" where
  "heap_table_rep s tb B \<longleftrightarrow>
     (\<exists>t. buckets tb = Some t \<and> buckets_rep s t B \<and> length t = unat (buckets_size tb))"

definition in_range :: "64 word \<Rightarrow> 64 word \<Rightarrow> bool" where
  "in_range sz key \<longleftrightarrow> (case hash key sz of Inl _ \<Rightarrow> False | Inr h \<Rightarrow> h < sz)"

definition hash_index :: "64 word \<Rightarrow> 64 word \<Rightarrow> nat" where
  "hash_index sz key = (case hash key sz of Inl _ \<Rightarrow> 0 | Inr h \<Rightarrow> unat h)"

definition empty_bucket :: sll where
  "empty_bucket = \<lparr>head = NULL, tail = NULL, node_count = 0, lflags = 0\<rparr>"

text \<open>A table of three empty buckets for the witnesses.\<close>

definition demo_table :: static_hash_table where
  "demo_table = \<lparr>table = replicate 3 empty_bucket, table_size = 3\<rparr>"

section \<open>The hash function\<close>

lemma hash_nonzero: "m \<noteq> 0 \<Longrightarrow> hash k m = Inr (if hash_mix k > m then hash_mix k mod m else hash_mix k)"
  by (simp add: hash_def Let_def)

lemma hash_in_range_iff:
  assumes "m \<noteq> 0"
  shows "in_range m k \<longleftrightarrow> hash_mix k \<noteq> m"
proof (cases "hash_mix k > m")
  case True
  have "hash_mix k mod m < m" using assms by (simp add: word_less_nat_alt unat_mod word_gt_0 unat_gt_0)
  with True assms show ?thesis by (auto simp: in_range_def hash_nonzero)
next
  case False
  then show ?thesis using assms by (auto simp: in_range_def hash_nonzero)
qed

lemma in_rangeD:
  assumes "in_range m k"
  shows "\<exists>h. hash k m = Inr h \<and> unat h < unat m \<and> hash_index m k = unat h"
  using assms by (auto simp: in_range_def hash_index_def word_less_nat_alt split: sum.splits)

section \<open>Buckets\<close>

lemma insert_bucket_ok:
  assumes "buckets_rep s t B" "unat h < length t" "0 < room s"
  shows "\<exists>s' t'. insert_bucket s t h d = Inr (s', t') \<and> length t' = length t \<and>
    buckets_rep s' t' (B(unat h := d # B (unat h))) \<and> room s' = room s - 1"
proof -
  obtain s' l' where r: "singly_linked_list_insert_head s (t ! unat h) d = Inr (s', l')"
    "family s' {..<length t} (((!) t)(unat h := l')) (B(unat h := d # B (unat h)))" "room s' = room s - 1"
    using family_insert_head [of s "{..<length t}" "(!) t" B "unat h" d] assms by (auto simp: buckets_rep_def)
  have "buckets_rep s' (t[unat h := l']) (B(unat h := d # B (unat h)))"
    unfolding buckets_rep_def length_list_update
    by (rule iffD1 [OF family_cong r(2)]) (auto simp: nth_list_update)
  with r assms(2) show ?thesis by (simp add: insert_bucket_def)
qed

lemma check_walk_vals:
  "path (nx m) p ps NULL \<Longrightarrow> check_walk (length ps) m d p = Inr (d \<in> set (vals m ps))"
  by (induction ps arbitrary: p) auto

lemma bucket_check:
  assumes "buckets_rep s t B" "i < length t"
  shows "check_walk (node_count (t ! i)) (nodes s) d (head (t ! i)) = Inr (d \<in> set (B i))"
proof -
  obtain fs ps where "live s fs (t ! i) ps" "vals (nodes s) ps = B i"
    using family_live [of s "{..<length t}" "(!) t" B i] assms by (auto simp: buckets_rep_def)
  then show ?thesis
    using check_walk_vals [of "nodes s" "head (t ! i)" ps d] by (auto simp: live_def sll_rep_def)
qed

text \<open>Initialisation: every bucket becomes an empty list, whatever it held before.\<close>

lemma init_again: "static_pool_setup s \<Longrightarrow> singly_linked_list_init pool s 0 = Inr (s, empty_bucket)"
  by (simp add: singly_linked_list_init_def empty_bucket_def)

lemma init_buckets_again:
  assumes "static_pool_setup s" "i + n \<le> length t" "case copy of None \<Rightarrow> True | Some b \<Rightarrow> i + n \<le> length b"
  shows "init_buckets pool copy i n s t = Inr (s, take i t @ replicate n empty_bucket @ drop (i + n) t)"
  using assms
proof (induction n arbitrary: i t)
  case 0
  then show ?case by simp
next
  case (Suc n)
  then have "init_buckets pool copy i (Suc n) s t = init_buckets pool copy (Suc i) n s (t[i := empty_bucket])"
    by (auto simp: init_again split: option.splits)
  also have "\<dots> = Inr (s, take (Suc i) (t[i := empty_bucket]) @ replicate n empty_bucket @ drop (Suc i + n) t)"
    using Suc.IH [of "Suc i" "t[i := empty_bucket]"] Suc.prems by (auto split: option.splits)
  also have "take (Suc i) (t[i := empty_bucket]) = take i t @ [empty_bucket]"
    using Suc.prems by (simp add: take_Suc_conv_app_nth)
  finally show ?case by simp
qed

lemma empty_buckets_rep:
  assumes "mem_ok s fs" "set t \<subseteq> {empty_bucket}"
  shows "buckets_rep s t (\<lambda>_. [])"
proof -
  have "live s fs (t ! i) []" if "i < length t" for i
  proof -
    have "t ! i = empty_bucket" using assms(2) that nth_mem by blast
    with assms(1) show ?thesis by (simp add: live_def sll_rep_def empty_bucket_def)
  qed
  then have "fam s fs {..<length t} ((!) t) (\<lambda>_. [])" using assms(1) by (auto simp: fam_def)
  then show ?thesis unfolding buckets_rep_def family_def by (metis vals_Nil)
qed

section \<open>The tables as keyed stores\<close>

lemma static_insert_ok:
  assumes "table_rep s tb B" "in_range (table_size tb) k" "0 < room s"
  shows "\<exists>s' tb'. static_hash_table_insert s tb k d = Inr (s', tb') \<and>
    table_rep s' tb' (B(hash_index (table_size tb) k := d # B (hash_index (table_size tb) k))) \<and>
    room s' = room s - 1 \<and> table_size tb' = table_size tb"
proof -
  obtain h where h: "hash k (table_size tb) = Inr h" "unat h < unat (table_size tb)"
    "hash_index (table_size tb) k = unat h"
    using in_rangeD [OF assms(2)] by blast
  with assms insert_bucket_ok [of s "table tb" B h d] show ?thesis
    by (auto simp: static_hash_table_insert_def table_rep_def)
qed

lemma heap_insert_ok:
  assumes "heap_table_rep s tb B" "in_range (buckets_size tb) k" "0 < room s"
  shows "\<exists>s' tb'. hash_table_insert s (Some tb) k d = Inr (s', tb') \<and>
    heap_table_rep s' tb' (B(hash_index (buckets_size tb) k := d # B (hash_index (buckets_size tb) k))) \<and>
    room s' = room s - 1 \<and> buckets_size tb' = buckets_size tb"
proof -
  obtain t where t: "buckets tb = Some t" "buckets_rep s t B" "length t = unat (buckets_size tb)"
    using assms(1) by (auto simp: heap_table_rep_def)
  obtain h where h: "hash k (buckets_size tb) = Inr h" "unat h < unat (buckets_size tb)"
    "hash_index (buckets_size tb) k = unat h"
    using in_rangeD [OF assms(2)] by blast
  with t assms(3) insert_bucket_ok [of s t B h d] show ?thesis
    by (auto simp: hash_table_insert_def heap_table_rep_def)
qed

interpretation static_table: bucket_store table_rep room table_size hash_index in_range static_hash_table_insert
  by unfold_locales (rule static_insert_ok)

interpretation heap_table: bucket_store heap_table_rep room buckets_size hash_index in_range
  "\<lambda>s tb. hash_table_insert s (Some tb)"
  by unfold_locales (rule heap_insert_ok)

lemma static_check_ok:
  assumes "table_rep s tb B" "in_range (table_size tb) k"
  shows "\<exists>h. hash k (table_size tb) = Inr h \<and>
    static_hash_table_check s tb h d = Inr (d \<in> set (B (hash_index (table_size tb) k)))"
proof -
  obtain h where h: "hash k (table_size tb) = Inr h" "unat h < unat (table_size tb)"
    "hash_index (table_size tb) k = unat h"
    using in_rangeD [OF assms(2)] by blast
  with assms(1) bucket_check [of s "table tb" B "unat h" d] show ?thesis
    by (auto simp: table_rep_def static_hash_table_check_def static_hash_table_retrieve_def)
qed

section \<open>Properties\<close>

text \<open>C18: Initialising a static table on a node memory that is already set up empties every bucket, and
  after inserting any sequence of keyed elements (whose hashes are in range, with enough nodes left)
  \<^verbatim>\<open>static_hash_table_check\<close> at the hash of a key answers exactly whether the element was inserted under
  a key with that hash.\<close>

theorem static_hash_table_insert_check:
  assumes "mem_ok s fs" "static_pool_setup s" "length (table tb) = unat sz" "unat sz \<le> length bpool"
    and "\<forall>(key, d)\<in>set kvs. in_range sz key" "length kvs \<le> room s" "in_range sz k"
  shows "\<exists>f s0 tb0 s' tb' h. static_hash_table_init pool bpool full s (Some tb) sz = Inr (f, s0, tb0) \<and> f \<and>
    insert_all static_hash_table_insert s0 tb0 kvs = Inr (s', tb') \<and>
    hash k sz = Inr h \<and>
    static_hash_table_check s' tb' h x = Inr (\<exists>key. (key, x) \<in> set kvs \<and> hash key sz = Inr h)"
proof -
  let ?tb = "tb\<lparr>table := replicate (unat sz) empty_bucket, table_size := sz\<rparr>"
  have init: "static_hash_table_init pool bpool full s (Some tb) sz = Inr (True, s, ?tb)"
    using assms(2,3,4) init_buckets_again [of s 0 "unat sz" "table tb" "Some bpool" pool]
      init_buckets_again [of s 0 "unat sz" "table tb" None pool]
    by (cases full) (simp_all add: static_hash_table_init_def Let_def)
  have rep: "table_rep s ?tb (\<lambda>_. [])"
    using empty_buckets_rep [OF assms(1), of "replicate (unat sz) empty_bucket"]
    by (simp add: table_rep_def set_replicate_conv_if split: if_splits)
  obtain s' tb' where ins: "insert_all static_hash_table_insert s ?tb kvs = Inr (s', tb')"
    "table_rep s' tb' (spread (hash_index sz) kvs (\<lambda>_. []))" "table_size tb' = sz"
    using static_table.insert_all_ok [OF rep, of kvs] assms(5,6) by auto
  obtain h where h: "hash k sz = Inr h"
    "static_hash_table_check s' tb' h x = Inr (x \<in> set (spread (hash_index sz) kvs (\<lambda>_. []) (hash_index sz k)))"
    using static_check_ok [OF ins(2), of k x] ins(3) assms(7) by auto
  have "hash_index sz key = hash_index sz k \<longleftrightarrow> hash key sz = Inr h" if "(key, d) \<in> set kvs" for key d
  proof -
    obtain g where "hash key sz = Inr g" using in_rangeD [of sz key] assms(5) \<open>(key, d) \<in> set kvs\<close> by blast
    with h(1) show ?thesis by (auto simp: hash_index_def word_unat_eq_iff)
  qed
  then have "x \<in> set (spread (hash_index sz) kvs (\<lambda>_. []) (hash_index sz k)) \<longleftrightarrow>
      (\<exists>key. (key, x) \<in> set kvs \<and> hash key sz = Inr h)"
    by (auto simp: spread_bucket image_iff)
  with init ins(1) h show ?thesis by auto
qed

lemma demo_mem_ok: "mem_ok demo_mem [1, 2]" "static_pool_setup demo_mem"
  using demo_live by (auto simp: live_def demo_mem_def)

lemma demo_hashes: "hash 5 3 = Inr 1 \<and> hash 7 3 = Inr 1 \<and> hash 8 3 = Inr 0"
  by (simp add: hash_def hash_mix_def)

lemma demo_in_range: "in_range 3 5" "in_range 3 7" "in_range 3 8"
  by (simp_all add: in_range_def demo_hashes)

theorem static_hash_table_insert_check_witness:
  "\<exists>s' tb'. insert_all static_hash_table_insert demo_mem demo_table [(5, 70), (8, 71)] = Inr (s', tb') \<and>
    static_hash_table_check s' tb' 1 70 = Inr True"
proof -
  have init: "static_hash_table_init [] (replicate 3 empty_bucket) True demo_mem (Some demo_table) 3 =
      Inr (True, demo_mem, demo_table)"
    using init_buckets_again [of demo_mem 0 3 "table demo_table" None "[]"] demo_mem_ok(2)
    by (simp add: static_hash_table_init_def demo_table_def)
  have "\<exists>f s0 tb0 s' tb' h.
      static_hash_table_init [] (replicate 3 empty_bucket) True demo_mem (Some demo_table) 3 = Inr (f, s0, tb0) \<and> f \<and>
      insert_all static_hash_table_insert s0 tb0 [(5, 70), (8, 71)] = Inr (s', tb') \<and> hash 7 3 = Inr h \<and>
      static_hash_table_check s' tb' h 70 =
        Inr (\<exists>key. (key, 70) \<in> set [(5, 70), (8, 71 :: addr)] \<and> hash key 3 = Inr h)"
    by (rule static_hash_table_insert_check [OF demo_mem_ok])
      (simp_all add: demo_table_def demo_in_range demo_room)
  with init demo_hashes show ?thesis by auto
qed

lemma hash_1500: "hash 0x216CA8846DBB3C70 1500 = Inr 1500"
  by (simp add: hash_def hash_mix_def)

text \<open>The reduction of \<^verbatim>\<open>hash\<close> leaves a mixed key that equals the modulus alone: for every modulus but 0
  the result is at most the modulus, it is a bucket number exactly when the mixed key is not the
  modulus itself, and the key 0x216CA8846DBB3C70 hashes to 1500, one past the last bucket of the
  static table.\<close>

theorem hash_can_reach_modulus:
  "m \<noteq> 0 \<Longrightarrow> (\<exists>h. hash k m = Inr h \<and> h \<le> m \<and> (h < m \<longleftrightarrow> hash_mix k \<noteq> m)) \<and>
    hash 0x216CA8846DBB3C70 1500 = Inr 1500"
  using hash_in_range_iff [of m k]
  by (auto simp: in_range_def hash_nonzero hash_1500 word_le_less_eq)

theorem hash_can_reach_modulus_witness:
  "\<exists>h. hash 5 3 = Inr h \<and> h \<le> 3 \<and> h < 3"
  using hash_can_reach_modulus [of 3 5] demo_hashes by auto

text \<open>Inserting under that key into a table of 1500 buckets writes past the bucket array.\<close>

theorem static_hash_table_insert_overflows:
  assumes "table_size tb = 1500" "length (table tb) = 1500"
  shows "static_hash_table_insert s tb 0x216CA8846DBB3C70 d = Inl OutOfBounds"
  using assms hash_1500 by (simp add: static_hash_table_insert_def insert_bucket_def)

end
