(* ===== verification/Binary_Trees.thy ===== *)
theory Binary_Trees
  imports List_Family Interfaces "HOL-Library.Tree"
begin

text \<open>
  \<^verbatim>\<open>data_structures/binary_tree.c\<close>: the binary search tree of buckets that the physical memory
  manager keeps its free blocks in and the device layer its devices. Tree nodes come from a static
  pool of 100 and then from the kernel heap; each carries a list header whose cells live in the list
  memory of \<open>Singly_Linked\<close>. The spinlock of the tree is not modelled.
\<close>

section \<open>State\<close>

text \<open>\<^verbatim>\<open>struct binary_tree_node\<close>; the colour, for the unwritten red-black mode, is left out.\<close>

record btree_node =
  parent :: addr
  left :: addr
  right :: addr
  key :: "32 word"
  bucket :: sll
  bflags :: "16 word"
  index :: "8 word"

text \<open>\<^verbatim>\<open>struct binary_tree\<close>; \<open>is_pmm\<close> stands for the address test of the macro \<^verbatim>\<open>IS_PMM_TREE\<close>.\<close>

record btree =
  root :: addr
  tree_count :: nat
  mode :: "64 word"
  is_pmm :: bool

text \<open>
  The memory the trees share: the nodes, the addresses of \<^verbatim>\<open>tree_node_static_pool\<close> in array order, the
  two flags, the addresses the kernel heap will hand out (a slab clears what it returns), the memory of
  the list cells and the addresses of the list module's own static pool.
\<close>

record bt_mem =
  tnodes :: "addr \<rightharpoonup> btree_node"
  tree_pool :: "addr list"
  pool_full :: bool
  static_pool_init :: bool
  theap :: "addr list"
  lists :: sll_mem
  list_pool :: "addr list"

abbreviation (input) BINARY_TREE_NODE_STATIC_POOL :: "16 word" where "BINARY_TREE_NODE_STATIC_POOL \<equiv> 1"
abbreviation (input) BINARY_TREE_NODE_FREE :: "16 word" where "BINARY_TREE_NODE_FREE \<equiv> 2"
abbreviation (input) REGULAR_TREE :: "64 word" where "REGULAR_TREE \<equiv> 1"
abbreviation (input) RED_BLACK_TREE :: "64 word" where "RED_BLACK_TREE \<equiv> 2"
abbreviation (input) BAD_TREE_MODE :: nat where "BAD_TREE_MODE \<equiv> 0xF1F"
abbreviation (input) VALUE_NOT_FOUND :: nat where "VALUE_NOT_FOUND \<equiv> 2"
abbreviation (input) REMOVE_FROM_TREE :: "8 word" where "REMOVE_FROM_TREE \<equiv> 1"
abbreviation (input) DO_NOT_REMOVE_FROM_TREE :: "8 word" where "DO_NOT_REMOVE_FROM_TREE \<equiv> 2"

section \<open>Node allocation\<close>

text \<open>The first node of the static pool with the free flag, with its position.\<close>

fun pool_scan :: "(addr \<rightharpoonup> btree_node) \<Rightarrow> nat \<Rightarrow> addr list \<Rightarrow> (nat \<times> addr) option" where
  "pool_scan m i [] = None"
| "pool_scan m i (p # ps) =
     (case m p of
        Some n \<Rightarrow> (if bflags n AND BINARY_TREE_NODE_FREE \<noteq> 0 then Some (i, p) else pool_scan m (Suc i) ps)
      | None \<Rightarrow> pool_scan m (Suc i) ps)"

text \<open>A cleared node.\<close>

definition blank_node :: btree_node where
  "blank_node = \<lparr>parent = 0, left = 0, right = 0, key = 0,
     bucket = \<lparr>head = 0, tail = 0, node_count = 0, lflags = 0\<rparr>, bflags = 0, index = 0\<rparr>"

definition tree_kmalloc :: "bt_mem \<Rightarrow> bt_mem \<times> addr" where
  "tree_kmalloc s =
     (case theap s of
        [] \<Rightarrow> (s, NULL)
      | a # rest \<Rightarrow> (s\<lparr>theap := rest, tnodes := (tnodes s)(a \<mapsto> blank_node)\<rparr>, a))"

definition node_alloc :: "bt_mem \<Rightarrow> (bt_mem \<times> addr) res" where
  "node_alloc s =
     (if pool_full s then Inr (tree_kmalloc s)
      else case pool_scan (tnodes s) 0 (tree_pool s) of
        Some (i, p) \<Rightarrow>
          bindR (modify (tnodes s) p (\<lambda>n. n\<lparr>bflags := bflags n AND NOT BINARY_TREE_NODE_FREE,
                                            index := of_nat i\<rparr>)) (\<lambda>m.
            Inr (s\<lparr>tnodes := m\<rparr>, p))
      | None \<Rightarrow> Inr (tree_kmalloc (s\<lparr>pool_full := True\<rparr>)))"

definition node_free :: "bt_mem \<Rightarrow> addr \<Rightarrow> bt_mem res" where
  "node_free s p =
     bindR (deref (tnodes s) p) (\<lambda>n.
       if bflags n AND BINARY_TREE_NODE_STATIC_POOL = 0 then
         Inr (s\<lparr>tnodes := (tnodes s)(p := None), theap := p # theap s\<rparr>)
       else
         bindR (if parent n \<noteq> NULL then
                  modify (tnodes s) (parent n)
                    (\<lambda>q. if right q = p then q\<lparr>right := NULL\<rparr> else q\<lparr>left := NULL\<rparr>)
                else Inr (tnodes s)) (\<lambda>m.
         bindR (modify m p (\<lambda>n. n\<lparr>bflags := bflags n OR BINARY_TREE_NODE_FREE, parent := NULL,
                                  left := NULL, right := NULL, key := 0xFFFF\<rparr>)) (\<lambda>m.
           Inr (s\<lparr>tnodes := m, pool_full := False\<rparr>))))"

text \<open>
  \<^verbatim>\<open>pmm_node_alloc\<close> and \<^verbatim>\<open>pmm_node_free\<close> are the same code over the heap functions that do not take the
  allocator's lock, which the model does not have.
\<close>

definition pmm_node_alloc :: "bt_mem \<Rightarrow> (bt_mem \<times> addr) res" where
  "pmm_node_alloc s = node_alloc s"

definition pmm_node_free :: "bt_mem \<Rightarrow> addr \<Rightarrow> bt_mem res" where
  "pmm_node_free s p = node_free s p"

definition NODE_ALLOC :: "btree \<Rightarrow> bt_mem \<Rightarrow> (bt_mem \<times> addr) res" where
  "NODE_ALLOC tr s = (if is_pmm tr then pmm_node_alloc s else node_alloc s)"

definition NODE_FREE :: "btree \<Rightarrow> bt_mem \<Rightarrow> addr \<Rightarrow> bt_mem res" where
  "NODE_FREE tr s p = (if is_pmm tr then pmm_node_free s p else node_free s p)"

section \<open>Initialisation\<close>

fun pool_setup :: "addr list \<Rightarrow> (addr \<rightharpoonup> btree_node) \<Rightarrow> (addr \<rightharpoonup> btree_node) res" where
  "pool_setup [] m = Inr m"
| "pool_setup (p # ps) m =
     bindR (modify m p (\<lambda>n. n\<lparr>bflags := BINARY_TREE_NODE_STATIC_POOL OR BINARY_TREE_NODE_FREE\<rparr>)) (pool_setup ps)"

definition init_binary_tree :: "btree \<Rightarrow> btree" where
  "init_binary_tree tr = tr\<lparr>mode := REGULAR_TREE, tree_count := 0, root := NULL\<rparr>"

text \<open>\<^verbatim>\<open>init_red_black_tree\<close> colours the root before there is one; the colour itself is not kept.\<close>

definition init_red_black_tree :: "bt_mem \<Rightarrow> btree \<Rightarrow> btree res" where
  "init_red_black_tree s tr =
     bindR (deref (tnodes s) (root tr)) (\<lambda>_. Inr (tr\<lparr>mode := RED_BLACK_TREE, tree_count := 0\<rparr>))"

definition init_tree :: "bt_mem \<Rightarrow> btree \<Rightarrow> 64 word \<Rightarrow> (bt_mem \<times> btree \<times> nat) res" where
  "init_tree s tr md =
     bindR (if static_pool_init s then Inr s
            else bindR (pool_setup (tree_pool s) (tnodes s)) (\<lambda>m.
                   Inr (s\<lparr>tnodes := m, static_pool_init := True\<rparr>))) (\<lambda>s.
       if md = REGULAR_TREE then Inr (s, init_binary_tree tr, KERN_SUCCESS)
       else if md = RED_BLACK_TREE then
         bindR (init_red_black_tree s tr) (\<lambda>tr. Inr (s, tr, KERN_SUCCESS))
       else Inr (s, tr, BAD_TREE_MODE))"

section \<open>Insertion\<close>

text \<open>The block every insertion of a new node starts with.\<close>

definition new_tree_node :: "btree \<Rightarrow> bt_mem \<Rightarrow> addr \<Rightarrow> 64 word \<Rightarrow> (bt_mem \<times> addr) res" where
  "new_tree_node tr s d k =
     bindR (NODE_ALLOC tr s) (\<lambda>(s, new_node).
     bindR (deref (tnodes s) new_node) (\<lambda>_.
     bindR (singly_linked_list_init (list_pool s) (lists s) 0) (\<lambda>(ls, l).
     bindR (singly_linked_list_insert_head ls l d) (\<lambda>(ls, l).
     bindR (modify (tnodes s) new_node (\<lambda>n. n\<lparr>bucket := l, key := ucast k\<rparr>)) (\<lambda>m.
       Inr (s\<lparr>tnodes := m, lists := ls\<rparr>, new_node))))))"

text \<open>
  The descent of \<^verbatim>\<open>insert_binary_tree\<close>. The stored key has 32 bits and is compared with the 64-bit
  argument. The descents take fuel; the number of nodes of the tree is enough for every tree that is
  well formed.
\<close>

fun insert_walk :: "nat \<Rightarrow> bt_mem \<Rightarrow> btree \<Rightarrow> addr \<Rightarrow> 64 word \<Rightarrow> addr \<Rightarrow> (bt_mem \<times> btree \<times> nat) res" where
  "insert_walk 0 s tr d k current = Inl Unmodelled"
| "insert_walk (Suc fuel) s tr d k current =
     bindR (deref (tnodes s) current) (\<lambda>n.
       if k = ucast (key n) then
         bindR (singly_linked_list_insert_tail (lists s) (bucket n) d) (\<lambda>(ls, l).
         bindR (modify (tnodes s) current (\<lambda>n. n\<lparr>bucket := l\<rparr>)) (\<lambda>m.
           Inr (s\<lparr>tnodes := m, lists := ls\<rparr>, tr, KERN_SUCCESS)))
       else if k < ucast (key n) then
         (if left n = NULL then
            bindR (new_tree_node tr s d k) (\<lambda>(s, new_node).
            bindR (modify (tnodes s) current (\<lambda>n. n\<lparr>left := new_node\<rparr>)) (\<lambda>m.
            bindR (modify m new_node (\<lambda>n. n\<lparr>parent := current\<rparr>)) (\<lambda>m.
              Inr (s\<lparr>tnodes := m\<rparr>, tr\<lparr>tree_count := tree_count tr + 1\<rparr>, KERN_SUCCESS))))
          else insert_walk fuel s tr d k (left n))
       else
         (if right n = NULL then
            bindR (new_tree_node tr s d k) (\<lambda>(s, new_node).
            bindR (modify (tnodes s) current (\<lambda>n. n\<lparr>right := new_node\<rparr>)) (\<lambda>m.
            bindR (modify m new_node (\<lambda>n. n\<lparr>parent := current\<rparr>)) (\<lambda>m.
              Inr (s\<lparr>tnodes := m\<rparr>, tr\<lparr>tree_count := tree_count tr + 1\<rparr>, KERN_SUCCESS))))
          else insert_walk fuel s tr d k (right n)))"

definition insert_binary_tree :: "bt_mem \<Rightarrow> btree \<Rightarrow> addr \<Rightarrow> 64 word \<Rightarrow> (bt_mem \<times> btree \<times> nat) res" where
  "insert_binary_tree s tr d k =
     (if root tr = NULL then
        bindR (new_tree_node tr s d k) (\<lambda>(s, new_node).
        bindR (modify (tnodes s) new_node (\<lambda>n. n\<lparr>parent := NULL\<rparr>)) (\<lambda>m.
          Inr (s\<lparr>tnodes := m\<rparr>, tr\<lparr>root := new_node, tree_count := tree_count tr + 1\<rparr>, KERN_SUCCESS)))
      else insert_walk (tree_count tr) s tr d k (root tr))"

text \<open>
  \<^verbatim>\<open>insert_red_black_tree\<close> and \<^verbatim>\<open>remove_red_black_tree\<close> have empty bodies and return nothing: what a caller
  sees is undefined.
\<close>

definition insert_tree_node :: "bt_mem \<Rightarrow> btree \<Rightarrow> addr \<Rightarrow> 64 word \<Rightarrow> (bt_mem \<times> btree \<times> nat) res" where
  "insert_tree_node s tr d k =
     (if mode tr = REGULAR_TREE then insert_binary_tree s tr d k
      else if mode tr = RED_BLACK_TREE then Inl Unmodelled
      else Inr (s, tr, BAD_TREE_MODE))"

section \<open>Removal\<close>

definition replace_child :: "(addr \<rightharpoonup> btree_node) \<Rightarrow> addr \<Rightarrow> addr \<Rightarrow> addr \<Rightarrow> (addr \<rightharpoonup> btree_node) res" where
  "replace_child m par current new =
     modify m par (\<lambda>q. if left q = current then q\<lparr>left := new\<rparr> else q\<lparr>right := new\<rparr>)"

definition free_and_count :: "bt_mem \<Rightarrow> btree \<Rightarrow> addr \<Rightarrow> (bt_mem \<times> btree \<times> nat) res" where
  "free_and_count s tr current =
     bindR (NODE_FREE tr s current) (\<lambda>s.
       Inr (s, tr\<lparr>tree_count := tree_count tr - 1\<rparr>, KERN_SUCCESS))"

fun right_min_walk :: "nat \<Rightarrow> (addr \<rightharpoonup> btree_node) \<Rightarrow> addr \<Rightarrow> addr \<Rightarrow> (addr \<times> addr) res" where
  "right_min_walk 0 m right_min right_min_parent = Inl Unmodelled"
| "right_min_walk (Suc fuel) m right_min right_min_parent =
     bindR (deref m right_min) (\<lambda>n.
       if left n = NULL then Inr (right_min, right_min_parent)
       else right_min_walk fuel m (left n) right_min)"

text \<open>The removal of a node with two children.\<close>

definition remove_two_children :: "bt_mem \<Rightarrow> btree \<Rightarrow> addr \<Rightarrow> (bt_mem \<times> btree \<times> nat) res" where
  "remove_two_children s tr current =
     bindR (deref (tnodes s) current) (\<lambda>n.
     bindR (right_min_walk (tree_count tr) (tnodes s) (right n) current) (\<lambda>(right_min, right_min_parent).
     bindR (deref (tnodes s) right_min) (\<lambda>rm.
     bindR (if right_min_parent \<noteq> current
            then modify (tnodes s) right_min_parent (\<lambda>q. q\<lparr>left := right rm\<rparr>)
            else modify (tnodes s) right_min_parent (\<lambda>q. q\<lparr>right := right rm\<rparr>)) (\<lambda>m.
     bindR (deref m current) (\<lambda>c.
     bindR (modify m right_min (\<lambda>q. q\<lparr>left := left c, right := right c, parent := parent n\<rparr>)) (\<lambda>m.
     bindR (if parent n \<noteq> NULL then replace_child m (parent n) current right_min else Inr m) (\<lambda>m.
       free_and_count (s\<lparr>tnodes := m\<rparr>) tr current)))))))"

text \<open>What happens at the node with the key.\<close>

definition remove_at :: "bt_mem \<Rightarrow> btree \<Rightarrow> addr \<Rightarrow> addr \<Rightarrow> (bt_mem \<times> btree \<times> nat) res" where
  "remove_at s tr d current =
     bindR (deref (tnodes s) current) (\<lambda>n.
       if node_count (bucket n) > 1 then
         bindR (singly_linked_list_remove_node_by_address (lists s) (bucket n) d) (\<lambda>(ls, l, ret).
         bindR (modify (tnodes s) current (\<lambda>n. n\<lparr>bucket := l\<rparr>)) (\<lambda>m.
           Inr (s\<lparr>tnodes := m, lists := ls\<rparr>, tr, if ret = KERN_SUCCESS then KERN_SUCCESS else VALUE_NOT_FOUND)))
       else if left n = NULL \<and> right n = NULL then
         bindR (replace_child (tnodes s) (parent n) current NULL) (\<lambda>m.
           free_and_count (s\<lparr>tnodes := m\<rparr>) tr current)
       else if left n = NULL then
         bindR (replace_child (tnodes s) (parent n) current (right n)) (\<lambda>m.
         bindR (modify m (right n) (\<lambda>q. q\<lparr>parent := parent n\<rparr>)) (\<lambda>m.
           free_and_count (s\<lparr>tnodes := m\<rparr>) tr current))
       else if right n = NULL then
         bindR (replace_child (tnodes s) (parent n) current (left n)) (\<lambda>m.
         bindR (modify m (left n) (\<lambda>q. q\<lparr>parent := parent n\<rparr>)) (\<lambda>m.
           free_and_count (s\<lparr>tnodes := m\<rparr>) tr current))
       else remove_two_children s tr current)"

fun remove_walk :: "nat \<Rightarrow> bt_mem \<Rightarrow> btree \<Rightarrow> 64 word \<Rightarrow> addr \<Rightarrow> addr \<Rightarrow> (bt_mem \<times> btree \<times> nat) res" where
  "remove_walk 0 s tr k d current = Inl Unmodelled"
| "remove_walk (Suc fuel) s tr k d current =
     bindR (deref (tnodes s) current) (\<lambda>n.
       if k = ucast (key n) then remove_at s tr d current
       else if k < ucast (key n) then
         (if left n = NULL then Inr (s, tr, VALUE_NOT_FOUND) else remove_walk fuel s tr k d (left n))
       else
         (if right n = NULL then Inr (s, tr, VALUE_NOT_FOUND) else remove_walk fuel s tr k d (right n)))"

definition remove_binary_tree ::
  "bt_mem \<Rightarrow> btree \<Rightarrow> 64 word \<Rightarrow> addr \<Rightarrow> addr \<Rightarrow> (bt_mem \<times> btree \<times> nat) res" where
  "remove_binary_tree s tr k d node =
     bindR (if node \<noteq> NULL then bindR (deref (tnodes s) node) (\<lambda>_. Inr node) else Inr (root tr)) (\<lambda>current.
       if current = NULL then Inr (s, tr, VALUE_NOT_FOUND)
       else bindR (deref (tnodes s) (root tr)) (\<lambda>rt.
         if k = ucast (key rt) then
           bindR (deref (tnodes s) current) (\<lambda>n.
           bindR (singly_linked_list_remove_node_by_address (lists s) (bucket n) d) (\<lambda>(ls, l, ret).
             if ret = NODE_NOT_FOUND then Inl (Panic ''Here'')
             else bindR (modify (tnodes s) current (\<lambda>n. n\<lparr>bucket := l\<rparr>)) (\<lambda>m.
                    Inr (s\<lparr>tnodes := m, lists := ls\<rparr>, tr, KERN_SUCCESS))))
         else remove_walk (tree_count tr) s tr k d current))"

definition remove_tree_node ::
  "bt_mem \<Rightarrow> btree \<Rightarrow> 64 word \<Rightarrow> addr \<Rightarrow> addr \<Rightarrow> (bt_mem \<times> btree \<times> nat) res" where
  "remove_tree_node s tr k d node =
     (if mode tr = REGULAR_TREE then remove_binary_tree s tr k d node
      else if mode tr = RED_BLACK_TREE then Inl Unmodelled
      else Inr (s, tr, BAD_TREE_MODE))"

section \<open>Lookup\<close>

text \<open>
  The lookup repairs a child pointer that points back at its node, and removes the element it returns
  when the flag is not zero.
\<close>

fun lookup_walk :: "nat \<Rightarrow> bt_mem \<Rightarrow> btree \<Rightarrow> 64 word \<Rightarrow> 8 word \<Rightarrow> addr \<Rightarrow> (bt_mem \<times> btree \<times> addr) res" where
  "lookup_walk 0 s tr k rmv current = Inl Unmodelled"
| "lookup_walk (Suc fuel) s tr k rmv current =
     bindR (deref (tnodes s) current) (\<lambda>n.
       if k = ucast (key n) then
         bindR (deref (nodes (lists s)) (head (bucket n))) (\<lambda>h.
           if rmv \<noteq> 0 then
             bindR (remove_tree_node s tr k (data h) current) (\<lambda>(s, tr, _). Inr (s, tr, data h))
           else Inr (s, tr, data h))
       else if k < ucast (key n) then
         (if left n = current then
            bindR (modify (tnodes s) current (\<lambda>n. n\<lparr>left := NULL\<rparr>)) (\<lambda>m. Inr (s\<lparr>tnodes := m\<rparr>, tr, NULL))
          else if left n = NULL then Inr (s, tr, NULL)
          else lookup_walk fuel s tr k rmv (left n))
       else
         (if right n = current then
            bindR (modify (tnodes s) current (\<lambda>n. n\<lparr>right := NULL\<rparr>)) (\<lambda>m. Inr (s\<lparr>tnodes := m\<rparr>, tr, NULL))
          else if right n = NULL then Inr (s, tr, NULL)
          else lookup_walk fuel s tr k rmv (right n)))"

definition lookup_tree :: "bt_mem \<Rightarrow> btree \<Rightarrow> 64 word \<Rightarrow> 8 word \<Rightarrow> (bt_mem \<times> btree \<times> addr) res" where
  "lookup_tree s tr k rmv =
     (if root tr = NULL then Inr (s, tr, NULL) else lookup_walk (tree_count tr) s tr k rmv (root tr))"

section \<open>Traversal and destruction\<close>

text \<open>
  \<^verbatim>\<open>for_each_node_in_tree\<close> keeps an explicit stack in an array of \<^verbatim>\<open>node_count\<close> pointers. The model
  returns the nodes in the order the callback sees them; the callback must leave the tree alone. A
  push past the end of the array faults. \<open>stack\<close> has its top first.
\<close>

definition push_bounded :: "nat \<Rightarrow> addr list \<Rightarrow> addr \<Rightarrow> addr list res" where
  "push_bounded cap stack p = (if length stack < cap then Inr (p # stack) else Inl OutOfBounds)"

fun for_each_loop :: "nat \<Rightarrow> (addr \<rightharpoonup> btree_node) \<Rightarrow> nat \<Rightarrow> addr list \<Rightarrow> addr list res" where
  "for_each_loop fuel m cap [] = Inr []"
| "for_each_loop 0 m cap (current # stack) = Inl Unmodelled"
| "for_each_loop (Suc fuel) m cap (current # stack) =
     bindR (deref m current) (\<lambda>n.
     bindR (if right n \<noteq> NULL then push_bounded cap stack (right n) else Inr stack) (\<lambda>stack.
     bindR (if left n \<noteq> NULL then push_bounded cap stack (left n) else Inr stack) (\<lambda>stack.
     bindR (for_each_loop fuel m cap stack) (\<lambda>vs. Inr (current # vs)))))"

definition for_each_node_in_tree :: "bt_mem \<Rightarrow> btree \<Rightarrow> addr list res" where
  "for_each_node_in_tree s tr =
     (if root tr = NULL then Inr []
      else bindR (push_bounded (tree_count tr) [] (root tr)) (\<lambda>stack.
             for_each_loop (tree_count tr) (tnodes s) (tree_count tr) stack))"

text \<open>
  The loop of \<^verbatim>\<open>destroy_tree\<close>: a leaf is cut off its parent and freed, then the walk goes on from the
  parent; the fuel bounds the number of turns. The tree object itself is freed at the end.
\<close>

fun destroy_loop :: "nat \<Rightarrow> bt_mem \<Rightarrow> btree \<Rightarrow> addr \<Rightarrow> bt_mem res" where
  "destroy_loop 0 s tr current = Inl Unmodelled"
| "destroy_loop (Suc fuel) s tr current =
     (if tree_count tr = 0 then Inr s
      else bindR (deref (tnodes s) current) (\<lambda>n.
        bindR (if left n = NULL \<and> right n = NULL then
                 bindR (replace_child (tnodes s) (parent n) current NULL) (\<lambda>m.
                 bindR (NODE_FREE tr (s\<lparr>tnodes := m\<rparr>) current) (\<lambda>s.
                   Inr (s, tr\<lparr>tree_count := tree_count tr - 1\<rparr>, parent n)))
               else Inr (s, tr, current)) (\<lambda>(s, tr, current).
        bindR (deref (tnodes s) current) (\<lambda>n.
          if left n \<noteq> NULL then destroy_loop fuel s tr (left n)
          else if right n \<noteq> NULL then destroy_loop fuel s tr (right n)
          else destroy_loop fuel s tr current))))"

definition destroy_tree :: "nat \<Rightarrow> bt_mem \<Rightarrow> btree \<Rightarrow> (bt_mem \<times> nat) res" where
  "destroy_tree fuel s tr =
     (if root tr = NULL then Inr (s, KERN_SUCCESS)
      else bindR (destroy_loop fuel s tr (root tr)) (\<lambda>s. Inr (s, KERN_SUCCESS)))"

section \<open>Representation\<close>

text \<open>
  \<open>trep m p q t\<close>: the pointer \<open>p\<close> is the root of the node tree \<open>t\<close> in memory \<open>m\<close> and \<open>q\<close> is its parent;
  \<open>kv m a\<close> is the key stored at \<open>a\<close>, \<open>keyed m t\<close> the search tree order of the keys.
\<close>

fun trep :: "(addr \<rightharpoonup> btree_node) \<Rightarrow> addr \<Rightarrow> addr \<Rightarrow> addr tree \<Rightarrow> bool" where
  "trep m p q \<langle>\<rangle> \<longleftrightarrow> p = NULL"
| "trep m p q \<langle>l, a, r\<rangle> \<longleftrightarrow> p = a \<and> a \<noteq> NULL \<and>
     (\<exists>n. m a = Some n \<and> parent n = q \<and> trep m (left n) a l \<and> trep m (right n) a r)"

definition kv :: "(addr \<rightharpoonup> btree_node) \<Rightarrow> addr \<Rightarrow> nat" where
  "kv m a = unat (key (the (m a)))"

fun keyed :: "(addr \<rightharpoonup> btree_node) \<Rightarrow> addr tree \<Rightarrow> bool" where
  "keyed m \<langle>\<rangle> \<longleftrightarrow> True"
| "keyed m \<langle>l, a, r\<rangle> \<longleftrightarrow> (\<forall>x\<in>set_tree l. kv m x < kv m a) \<and> (\<forall>x\<in>set_tree r. kv m a < kv m x) \<and>
     keyed m l \<and> keyed m r"

text \<open>Where the search for a key ends: at a node, or at the node and side a new one hangs below.\<close>

fun locate :: "(addr \<rightharpoonup> btree_node) \<Rightarrow> nat \<Rightarrow> addr tree \<Rightarrow> addr option" where
  "locate m k \<langle>\<rangle> = None"
| "locate m k \<langle>l, a, r\<rangle> =
     (if k = kv m a then Some a else if k < kv m a then locate m k l else locate m k r)"

fun slot :: "(addr \<rightharpoonup> btree_node) \<Rightarrow> nat \<Rightarrow> addr tree \<Rightarrow> addr \<times> bool" where
  "slot m k \<langle>\<rangle> = (NULL, True)"
| "slot m k \<langle>l, a, r\<rangle> =
     (if k < kv m a then (if l = \<langle>\<rangle> then (a, True) else slot m k l)
      else (if r = \<langle>\<rangle> then (a, False) else slot m k r))"

fun attach :: "(addr \<rightharpoonup> btree_node) \<Rightarrow> nat \<Rightarrow> addr \<Rightarrow> addr tree \<Rightarrow> addr tree" where
  "attach m k p \<langle>\<rangle> = \<langle>\<langle>\<rangle>, p, \<langle>\<rangle>\<rangle>"
| "attach m k p \<langle>l, a, r\<rangle> = (if k < kv m a then \<langle>attach m k p l, a, r\<rangle> else \<langle>l, a, attach m k p r\<rangle>)"

text \<open>
  The key's node is the left child of another node and has no children itself. The smallest of several
  keys has such a node as soon as it is inserted.
\<close>

fun left_leaf :: "(addr \<rightharpoonup> btree_node) \<Rightarrow> nat \<Rightarrow> addr tree \<Rightarrow> bool" where
  "left_leaf m k \<langle>\<rangle> \<longleftrightarrow> False"
| "left_leaf m k \<langle>l, a, r\<rangle> \<longleftrightarrow>
     (if k < kv m a then (\<exists>x. l = \<langle>\<langle>\<rangle>, x, \<langle>\<rangle>\<rangle> \<and> kv m x = k) \<or> left_leaf m k l else left_leaf m k r)"

text \<open>The tree without the subtree at a key.\<close>

fun prune :: "(addr \<rightharpoonup> btree_node) \<Rightarrow> nat \<Rightarrow> addr tree \<Rightarrow> addr tree" where
  "prune m k \<langle>\<rangle> = \<langle>\<rangle>"
| "prune m k \<langle>l, a, r\<rangle> =
     (if k = kv m a then \<langle>\<rangle> else if k < kv m a then \<langle>prune m k l, a, r\<rangle> else \<langle>l, a, prune m k r\<rangle>)"

definition set_child :: "bool \<Rightarrow> addr \<Rightarrow> btree_node \<Rightarrow> btree_node" where
  "set_child dir p n = (if dir then n\<lparr>left := p\<rparr> else n\<lparr>right := p\<rparr>)"

definition free_node :: "(addr \<rightharpoonup> btree_node) \<Rightarrow> addr \<Rightarrow> bool" where
  "free_node m p \<longleftrightarrow> (case m p of None \<Rightarrow> False | Some n \<Rightarrow> bflags n AND BINARY_TREE_NODE_FREE \<noteq> 0)"

text \<open>
  The static pool: its nodes exist and carry the pool flag, a node with the free flag has no children,
  and the full flag is only set when none is free. \<open>tree_room\<close> counts the nodes that can still be taken from it.
\<close>

definition pool_inv :: "bt_mem \<Rightarrow> bool" where
  "pool_inv s \<longleftrightarrow> distinct (tree_pool s) \<and> NULL \<notin> set (tree_pool s) \<and>
     (\<forall>p\<in>set (tree_pool s). \<exists>n. tnodes s p = Some n \<and> bflags n AND BINARY_TREE_NODE_STATIC_POOL \<noteq> 0 \<and>
        (bflags n AND BINARY_TREE_NODE_FREE \<noteq> 0 \<longrightarrow> left n = NULL \<and> right n = NULL)) \<and>
     (pool_full s \<longrightarrow> (\<forall>p\<in>set (tree_pool s). \<not> free_node (tnodes s) p))"

definition tree_room :: "bt_mem \<Rightarrow> nat" where
  "tree_room s = length (filter (free_node (tnodes s)) (tree_pool s))"

definition bkt :: "bt_mem \<Rightarrow> addr \<Rightarrow> sll" where
  "bkt s a = bucket (the (tnodes s a))"

definition tree_inv :: "'j others \<Rightarrow> bt_mem \<Rightarrow> btree \<Rightarrow> addr tree \<Rightarrow> (addr \<Rightarrow> addr list) \<Rightarrow> bool" where
  "tree_inv C s tr t X \<longleftrightarrow> mode tr = REGULAR_TREE \<and> trep (tnodes s) (root tr) NULL t \<and>
     tree_count tr = size t \<and> keyed (tnodes s) t \<and> pool_inv s \<and>
     static_pool_setup (lists s) \<and> family_in (lists s) (set_tree t) (bkt s) X C \<and>
     (\<forall>a\<in>set_tree t. X a \<noteq> [] \<and> \<not> free_node (tnodes s) a)"

text \<open>The tree as a map from keys to the queue of elements inserted under the key.\<close>

definition tree_rep :: "'j others \<Rightarrow> bt_mem \<Rightarrow> btree \<Rightarrow> (64 word \<rightharpoonup> addr list) \<Rightarrow> bool" where
  "tree_rep C s tr M \<longleftrightarrow>
     (\<exists>t X. tree_inv C s tr t X \<and> (\<forall>k. M k = map_option X (locate (tnodes s) (unat k) t)))"

definition bt_room :: "bt_mem \<Rightarrow> nat" where
  "bt_room s = min (tree_room s) (room (lists s))"

section \<open>Search trees in memory\<close>

lemma kv_cong: "m a = m' a \<Longrightarrow> kv m a = kv m' a"
  by (simp add: kv_def)

lemma trep_cong: "(\<And>a. a \<in> set_tree t \<Longrightarrow> m a = m' a) \<Longrightarrow> trep m p q t \<longleftrightarrow> trep m' p q t"
  by (induction t arbitrary: p q) auto

lemma keyed_cong: "(\<And>a. a \<in> set_tree t \<Longrightarrow> kv m a = kv m' a) \<Longrightarrow> keyed m t \<longleftrightarrow> keyed m' t"
  by (induction t) auto

lemma locate_cong: "(\<And>a. a \<in> set_tree t \<Longrightarrow> kv m a = kv m' a) \<Longrightarrow> locate m k t = locate m' k t"
  by (induction t) auto

lemma trep_node: "trep m p q t \<Longrightarrow> a \<in> set_tree t \<Longrightarrow> a \<noteq> NULL \<and> m a \<noteq> None"
  by (induction t arbitrary: p q) auto

lemma trep_Leaf_iff: "trep m p q t \<Longrightarrow> t = \<langle>\<rangle> \<longleftrightarrow> p = NULL"
  by (cases t) auto

lemma trep_root_in: "trep m p q t \<Longrightarrow> p \<noteq> NULL \<Longrightarrow> p \<in> set_tree t"
  by (cases t) auto

lemma locate_in: "locate m k t = Some a \<Longrightarrow> a \<in> set_tree t \<and> kv m a = k"
  by (induction t) (auto split: if_splits)

lemma keyed_locate: "keyed m t \<Longrightarrow> a \<in> set_tree t \<Longrightarrow> locate m (kv m a) t = Some a"
  by (induction t) auto

lemma locate_None: "keyed m t \<Longrightarrow> locate m k t = None \<longleftrightarrow> (\<forall>a\<in>set_tree t. kv m a \<noteq> k)"
  using keyed_locate locate_in by (metis not_Some_eq)

lemma set_attach: "set_tree (attach m k p t) = insert p (set_tree t)"
  by (induction t) auto

lemma size_attach: "size (attach m k p t) = Suc (size t)"
  by (induction t) auto

lemma attach_cong: "(\<And>a. a \<in> set_tree t \<Longrightarrow> kv m a = kv m' a) \<Longrightarrow> attach m k p t = attach m' k p t"
  by (induction t) auto

lemma keyed_attach:
  "keyed m t \<Longrightarrow> kv m p = k \<Longrightarrow> locate m k t = None \<Longrightarrow> keyed m (attach m k p t)"
  by (induction t) (auto simp: set_attach split: if_splits)

lemma locate_attach:
  "p \<notin> set_tree t \<Longrightarrow> kv m p = k \<Longrightarrow> locate m k t = None \<Longrightarrow>
    locate m j (attach m k p t) = (if j = k then Some p else locate m j t)"
  by (induction t) (auto split: if_splits)

lemma left_leaf_attach:
  "t \<noteq> \<langle>\<rangle> \<Longrightarrow> \<forall>a\<in>set_tree t. k < kv m a \<Longrightarrow> kv m p = k \<Longrightarrow> left_leaf m k (attach m k p t)"
proof (induction t)
  case (Node l a r)
  then show ?case by (cases l) auto
qed simp

lemma slot_in: "t \<noteq> \<langle>\<rangle> \<Longrightarrow> fst (slot m k t) \<in> set_tree t"
  by (induction t) auto

lemma trep_child_neq:
  assumes "keyed m \<langle>l, a, r\<rangle>" "trep m p q l \<or> trep m p q r" "a \<noteq> NULL"
  shows "p \<noteq> a"
  using assms trep_root_in [of m p q l] trep_root_in [of m p q r] by fastforce

section \<open>The descents\<close>

lemma ucast_key:
  fixes k :: "64 word" and x :: "32 word"
  shows "k = ucast x \<longleftrightarrow> unat k = unat x" and "k < ucast x \<longleftrightarrow> unat k < unat x"
proof -
  have "unat x < 2 ^ LENGTH(32)" by (rule unsigned_less)
  then have "unat x < 2 ^ 64" by simp
  then have "unat (ucast x :: 64 word) = unat x" by (simp add: unsigned_ucast_eq take_bit_nat_eq_self)
  then show "k = ucast x \<longleftrightarrow> unat k = unat x" and "k < ucast x \<longleftrightarrow> unat k < unat x"
    by (simp_all add: word_unat_eq_iff word_less_nat_alt)
qed

definition lookup_at :: "bt_mem \<Rightarrow> btree \<Rightarrow> 64 word \<Rightarrow> 8 word \<Rightarrow> addr \<Rightarrow> (bt_mem \<times> btree \<times> addr) res" where
  "lookup_at s tr k rmv a =
     bindR (deref (nodes (lists s)) (head (bkt s a))) (\<lambda>h.
       if rmv \<noteq> 0 then bindR (remove_tree_node s tr k (data h) a) (\<lambda>(s, tr, _). Inr (s, tr, data h))
       else Inr (s, tr, data h))"

lemma lookup_walk_eq:
  "trep (tnodes s) p q t \<Longrightarrow> keyed (tnodes s) t \<Longrightarrow> t \<noteq> \<langle>\<rangle> \<Longrightarrow> size t \<le> fuel \<Longrightarrow>
    lookup_walk fuel s tr k rmv p =
      (case locate (tnodes s) (unat k) t of None \<Rightarrow> Inr (s, tr, NULL) | Some a \<Rightarrow> lookup_at s tr k rmv a)"
proof (induction t arbitrary: p q fuel)
  case Leaf
  then show ?case by simp
next
  case (Node l a r)
  obtain f where f: "fuel = Suc f" using Node.prems(4) by (cases fuel) auto
  obtain n where n: "tnodes s a = Some n" "p = a" "a \<noteq> NULL" "trep (tnodes s) (left n) a l"
    "trep (tnodes s) (right n) a r" "kv (tnodes s) a = unat (key n)"
    using Node.prems(1) by (auto simp: kv_def)
  have c: "left n \<noteq> a" "right n \<noteq> a" "left n = NULL \<longleftrightarrow> l = \<langle>\<rangle>" "right n = NULL \<longleftrightarrow> r = \<langle>\<rangle>"
    using trep_child_neq [OF Node.prems(2)] trep_Leaf_iff n by blast+
  show ?case
    using Node.IH(1) [OF n(4), of f] Node.IH(2) [OF n(5), of f] Node.prems(2,4) n c
    by (simp add: f ucast_key lookup_at_def bkt_def)
qed

lemma remove_walk_eq:
  "trep (tnodes s) p q t \<Longrightarrow> keyed (tnodes s) t \<Longrightarrow> t \<noteq> \<langle>\<rangle> \<Longrightarrow> size t \<le> fuel \<Longrightarrow>
    remove_walk fuel s tr k d p =
      (case locate (tnodes s) (unat k) t of None \<Rightarrow> Inr (s, tr, VALUE_NOT_FOUND) | Some a \<Rightarrow> remove_at s tr d a)"
proof (induction t arbitrary: p q fuel)
  case Leaf
  then show ?case by simp
next
  case (Node l a r)
  obtain f where f: "fuel = Suc f" using Node.prems(4) by (cases fuel) auto
  obtain n where n: "tnodes s a = Some n" "p = a" "a \<noteq> NULL" "trep (tnodes s) (left n) a l"
    "trep (tnodes s) (right n) a r" "kv (tnodes s) a = unat (key n)"
    using Node.prems(1) by (auto simp: kv_def)
  have c: "left n = NULL \<longleftrightarrow> l = \<langle>\<rangle>" "right n = NULL \<longleftrightarrow> r = \<langle>\<rangle>"
    using trep_Leaf_iff n by blast+
  show ?case
    using Node.IH(1) [OF n(4), of f] Node.IH(2) [OF n(5), of f] Node.prems(2,4) n c
    by (simp add: f ucast_key)
qed

definition insert_at :: "bt_mem \<Rightarrow> btree \<Rightarrow> addr \<Rightarrow> addr \<Rightarrow> (bt_mem \<times> btree \<times> nat) res" where
  "insert_at s tr d a =
     bindR (singly_linked_list_insert_tail (lists s) (bkt s a) d) (\<lambda>(ls, l).
     bindR (modify (tnodes s) a (\<lambda>n. n\<lparr>bucket := l\<rparr>)) (\<lambda>m.
       Inr (s\<lparr>tnodes := m, lists := ls\<rparr>, tr, KERN_SUCCESS)))"

definition insert_below :: "bt_mem \<Rightarrow> btree \<Rightarrow> addr \<Rightarrow> 64 word \<Rightarrow> addr \<times> bool \<Rightarrow> (bt_mem \<times> btree \<times> nat) res" where
  "insert_below s tr d k sl =
     bindR (new_tree_node tr s d k) (\<lambda>(s, p).
     bindR (modify (tnodes s) (fst sl) (set_child (snd sl) p)) (\<lambda>m.
     bindR (modify m p (\<lambda>n. n\<lparr>parent := fst sl\<rparr>)) (\<lambda>m.
       Inr (s\<lparr>tnodes := m\<rparr>, tr\<lparr>tree_count := tree_count tr + 1\<rparr>, KERN_SUCCESS))))"

lemma insert_walk_eq:
  "trep (tnodes s) p q t \<Longrightarrow> t \<noteq> \<langle>\<rangle> \<Longrightarrow> size t \<le> fuel \<Longrightarrow>
    insert_walk fuel s tr d k p =
      (case locate (tnodes s) (unat k) t of None \<Rightarrow> insert_below s tr d k (slot (tnodes s) (unat k) t)
       | Some a \<Rightarrow> insert_at s tr d a)"
proof (induction t arbitrary: p q fuel)
  case Leaf
  then show ?case by simp
next
  case (Node l a r)
  obtain f where f: "fuel = Suc f" using Node.prems(3) by (cases fuel) auto
  obtain n where n: "tnodes s a = Some n" "p = a" "a \<noteq> NULL" "trep (tnodes s) (left n) a l"
    "trep (tnodes s) (right n) a r" "kv (tnodes s) a = unat (key n)"
    using Node.prems(1) by (auto simp: kv_def)
  have c: "left n = NULL \<longleftrightarrow> l = \<langle>\<rangle>" "right n = NULL \<longleftrightarrow> r = \<langle>\<rangle>"
    using trep_Leaf_iff n by blast+
  show ?case
    using Node.IH(1) [OF n(4), of f] Node.IH(2) [OF n(5), of f] Node.prems(3) n c
    by (auto simp: f ucast_key insert_at_def insert_below_def bkt_def set_child_def [abs_def] split: option.splits)
qed

text \<open>Hanging a fresh node below the slot of its key.\<close>

lemma trep_attach:
  assumes "trep m p q t" "t \<noteq> \<langle>\<rangle>" "keyed m t" "new \<notin> set_tree t" "slot m k t = (b, dir)" "locate m k t = None"
    and "m' b = Some (set_child dir new (the (m b)))" "\<And>a. a \<noteq> b \<Longrightarrow> a \<noteq> new \<Longrightarrow> m' a = m a"
    and "m' new = Some n" "left n = NULL" "right n = NULL" "parent n = b" "new \<noteq> NULL"
  shows "trep m' p q (attach m k new t)"
  using assms(1-6)
proof (induction t arbitrary: p q)
  case Leaf
  then show ?case by simp
next
  case (Node l a r)
  obtain na where na: "m a = Some na" "p = a" "a \<noteq> NULL" "parent na = q" "trep m (left na) a l" "trep m (right na) a r"
    using Node.prems(1) by auto
  have fresh: "new \<noteq> a" "new \<notin> set_tree l" "new \<notin> set_tree r" using Node.prems(4) by auto
  have anot: "a \<notin> set_tree l" "a \<notin> set_tree r" "set_tree l \<inter> set_tree r = {}" using Node.prems(3) by fastforce+
  have same: "trep m' x y u \<longleftrightarrow> trep m x y u" if "b \<notin> set_tree u" "new \<notin> set_tree u" for x y u
    using that assms(8) by (intro trep_cong) metis
  consider "k < kv m a" "l = \<langle>\<rangle>" | "k < kv m a" "l \<noteq> \<langle>\<rangle>" | "\<not> k < kv m a" "r = \<langle>\<rangle>" | "\<not> k < kv m a" "r \<noteq> \<langle>\<rangle>"
    by blast
  then show ?case
  proof cases
    case 1
    then have "b = a" "dir" using Node.prems(5) by auto
    with 1 same [of r] na fresh anot assms(7-13) show ?thesis by (simp add: set_child_def)
  next
    case 2
    then have sl: "slot m k l = (b, dir)" "locate m k l = None" using Node.prems(5,6) by (auto split: if_splits)
    have b: "b \<in> set_tree l" using slot_in [OF 2(2), of m k] sl by simp
    then have "m' a = Some na" "b \<notin> set_tree r" using assms(8) [of a] na(1) anot fresh(1) by auto
    moreover have "trep m' (left na) a (attach m k new l)"
      by (rule Node.IH(1) [OF na(5) 2(2) _ fresh(2) sl]) (use Node.prems(3) in simp)
    ultimately show ?thesis using 2 same [of r] na fresh by simp
  next
    case 3
    then have "b = a" "\<not> dir" using Node.prems(5) by (auto split: if_splits)
    with 3 same [of l] na fresh anot assms(7-13) show ?thesis by (simp add: set_child_def)
  next
    case 4
    then have sl: "slot m k r = (b, dir)" "locate m k r = None" using Node.prems(5,6) by (auto split: if_splits)
    have b: "b \<in> set_tree r" using slot_in [OF 4(2), of m k] sl by simp
    then have "m' a = Some na" "b \<notin> set_tree l" using assms(8) [of a] na(1) anot fresh(1) by auto
    moreover have "trep m' (right na) a (attach m k new r)"
      by (rule Node.IH(2) [OF na(6) 4(2) _ fresh(3) sl]) (use Node.prems(3) in simp)
    ultimately show ?thesis using 4 same [of l] na fresh by simp
  qed
qed

section \<open>Taking a node from the static pool\<close>

lemma pool_scan_Some:
  "filter (free_node m) ps \<noteq> [] \<Longrightarrow> \<exists>j p. pool_scan m i ps = Some (j, p) \<and> p \<in> set ps \<and> free_node m p"
proof (induction ps arbitrary: i)
  case Nil
  then show ?case by simp
next
  case (Cons a ps)
  show ?case
  proof (cases "free_node m a")
    case True
    then show ?thesis by (auto simp: free_node_def split: option.splits)
  next
    case False
    then have "pool_scan m i (a # ps) = pool_scan m (Suc i) ps"
      by (auto simp: free_node_def split: option.splits)
    with False Cons.prems Cons.IH [of "Suc i"] show ?thesis by auto
  qed
qed

lemma filter_one_less:
  assumes "distinct ps" "p \<in> set ps" "P p" "\<not> Q p" "\<And>x. x \<noteq> p \<Longrightarrow> P x = Q x"
  shows "length (filter Q ps) = length (filter P ps) - 1"
  using assms
proof (induction ps)
  case Nil
  then show ?case by simp
next
  case (Cons a ps)
  show ?case
  proof (cases "a = p")
    case True
    have "filter Q ps = filter P ps"
    proof (rule filter_cong [OF refl])
      fix x assume "x \<in> set ps"
      then have "x \<noteq> p" using True Cons.prems(1) by auto
      then show "Q x = P x" using Cons.prems(5) by simp
    qed
    with True Cons.prems show ?thesis by simp
  next
    case False
    then have "p \<in> set ps" "distinct ps" using Cons.prems by auto
    moreover have "0 < length (filter P ps)" using calculation Cons.prems(3) by (auto simp: filter_empty_conv)
    ultimately show ?thesis using Cons.IH Cons.prems False by auto
  qed
qed

lemma tree_room_upd_used:
  assumes "bflags n AND BINARY_TREE_NODE_FREE = 0" "\<not> free_node (tnodes s) p"
  shows "tree_room (s\<lparr>tnodes := (tnodes s)(p \<mapsto> n)\<rparr>) = tree_room s"
proof -
  have "free_node ((tnodes s)(p \<mapsto> n)) = free_node (tnodes s)"
    using assms by (auto simp: free_node_def fun_eq_iff)
  then show ?thesis by (simp add: tree_room_def)
qed

lemma node_alloc_pool:
  assumes "pool_inv s" "0 < tree_room s"
  obtains p n where "NODE_ALLOC tr s = Inr (s\<lparr>tnodes := (tnodes s)(p \<mapsto> n)\<rparr>, p)" "p \<noteq> NULL"
    "free_node (tnodes s) p" "left n = NULL" "right n = NULL" "bflags n AND BINARY_TREE_NODE_FREE = 0"
    "bflags n AND BINARY_TREE_NODE_STATIC_POOL \<noteq> 0"
    "tree_room (s\<lparr>tnodes := (tnodes s)(p \<mapsto> n)\<rparr>) = tree_room s - 1"
proof -
  obtain j p where p: "pool_scan (tnodes s) 0 (tree_pool s) = Some (j, p)" "p \<in> set (tree_pool s)"
    "free_node (tnodes s) p"
    using pool_scan_Some [of "tnodes s" "tree_pool s" 0] assms(2) by (auto simp: tree_room_def)
  then obtain n where n: "tnodes s p = Some n" "left n = NULL" "right n = NULL" "p \<noteq> NULL"
    "bflags n AND BINARY_TREE_NODE_STATIC_POOL \<noteq> 0"
    using assms(1) by (fastforce simp: pool_inv_def free_node_def)
  have nf: "\<not> pool_full s" using assms(1) p by (auto simp: pool_inv_def)
  let ?n = "n\<lparr>bflags := bflags n AND NOT BINARY_TREE_NODE_FREE, index := of_nat j\<rparr>"
  have flag: "bflags ?n AND BINARY_TREE_NODE_FREE = 0" "bflags ?n AND BINARY_TREE_NODE_STATIC_POOL \<noteq> 0"
    using n(5) by (simp_all add: and.assoc)
  have "NODE_ALLOC tr s = Inr (s\<lparr>tnodes := (tnodes s)(p \<mapsto> ?n)\<rparr>, p)"
    using p(1) n nf by (simp add: NODE_ALLOC_def pmm_node_alloc_def node_alloc_def)
  moreover have "tree_room (s\<lparr>tnodes := (tnodes s)(p \<mapsto> ?n)\<rparr>) = tree_room s - 1"
  proof -
    have "length (filter (free_node ((tnodes s)(p \<mapsto> ?n))) (tree_pool s)) =
        length (filter (free_node (tnodes s)) (tree_pool s)) - 1"
      by (rule filter_one_less [of _ p]) (use assms(1) p flag in \<open>auto simp: pool_inv_def free_node_def\<close>)
    then show ?thesis by (simp add: tree_room_def)
  qed
  ultimately show thesis using n p flag by (intro that [of p ?n]) auto
qed

text \<open>A new node holds its key and a bucket with the one element.\<close>

lemma new_tree_node_ok:
  assumes "pool_inv s" "0 < bt_room s" "static_pool_setup (lists s)" "family_in (lists s) K (bkt s) X C"
    and "\<forall>a\<in>K. \<not> free_node (tnodes s) a"
  obtains p n ls where "new_tree_node tr s d k = Inr (s\<lparr>tnodes := (tnodes s)(p \<mapsto> n), lists := ls\<rparr>, p)"
    "p \<noteq> NULL" "p \<notin> K" "left n = NULL" "right n = NULL" "key n = ucast k"
    "bflags n AND BINARY_TREE_NODE_FREE = 0" "free_node (tnodes s) p"
    "static_pool_setup ls" "room ls = room (lists s) - 1"
    "tree_room (s\<lparr>tnodes := (tnodes s)(p \<mapsto> n), lists := ls\<rparr>) = tree_room s - 1"
    "family_in ls (insert p K) ((bkt s)(p := bucket n)) (X(p := [d])) C"
    "bflags n AND BINARY_TREE_NODE_STATIC_POOL \<noteq> 0"
proof -
  have r: "0 < tree_room s" "0 < room (lists s)" using assms(2) by (auto simp: bt_room_def)
  obtain p n where a: "NODE_ALLOC tr s = Inr (s\<lparr>tnodes := (tnodes s)(p \<mapsto> n)\<rparr>, p)" "p \<noteq> NULL"
    "free_node (tnodes s) p" "left n = NULL" "right n = NULL" "bflags n AND BINARY_TREE_NODE_FREE = 0"
    "tree_room (s\<lparr>tnodes := (tnodes s)(p \<mapsto> n)\<rparr>) = tree_room s - 1" "bflags n AND BINARY_TREE_NODE_STATIC_POOL \<noteq> 0"
    by (rule node_alloc_pool [OF assms(1) r(1)])
  have np: "p \<notin> K" using a(3) assms(5) by blast
  let ?l = "\<lparr>head = NULL, tail = NULL, node_count = 0, lflags = 0\<rparr>"
  have init: "singly_linked_list_init (list_pool s) (lists s) 0 = Inr (lists s, ?l)"
    using assms(3) by (simp add: singly_linked_list_init_def)
  have f0: "family_in (lists s) (insert p K) ((bkt s)(p := ?l)) (X(p := [])) C"
    by (rule family_in_add_empty [OF assms(4) np]) simp
  obtain ls l where h: "singly_linked_list_insert_head (lists s) ?l d = Inr (ls, l)"
    "family_in ls (insert p K) ((bkt s)(p := l)) (X(p := [d])) C" "room ls = room (lists s) - 1"
    using family_in_insert_head [OF f0, of p d] r(2) by auto
  have "static_pool_setup ls" using setup_insert_head [OF h(1)] assms(3) by simp
  let ?n = "n\<lparr>bucket := l, key := ucast k\<rparr>"
  have "new_tree_node tr s d k = Inr (s\<lparr>tnodes := (tnodes s)(p \<mapsto> ?n), lists := ls\<rparr>, p)"
    using a(1,2) init h(1) by (simp add: new_tree_node_def)
  moreover have "tree_room (s\<lparr>tnodes := (tnodes s)(p \<mapsto> ?n), lists := ls\<rparr>) = tree_room s - 1"
  proof -
    have "free_node ((tnodes s)(p \<mapsto> ?n)) = free_node ((tnodes s)(p \<mapsto> n))"
      by (auto simp: free_node_def fun_eq_iff)
    with a(7) show ?thesis by (simp add: tree_room_def)
  qed
  ultimately show thesis
    using a h np \<open>static_pool_setup ls\<close> by (intro that [of ls p ?n]) auto
qed

section \<open>Operations on a well-formed tree\<close>

lemma trep_links:
  assumes "trep m p q t" "\<And>a n. a \<in> set_tree t \<Longrightarrow> m a = Some n \<Longrightarrow>
    \<exists>n'. m' a = Some n' \<and> parent n' = parent n \<and> left n' = left n \<and> right n' = right n"
  shows "trep m' p q t"
  using assms
proof (induction t arbitrary: p q)
  case Leaf
  then show ?case by simp
next
  case (Node l a r)
  obtain n where n: "m a = Some n" "p = a" "a \<noteq> NULL" "parent n = q" "trep m (left n) a l" "trep m (right n) a r"
    using Node.prems(1) by auto
  obtain n' where n': "m' a = Some n'" "parent n' = parent n" "left n' = left n" "right n' = right n"
    using Node.prems(2) [OF _ n(1)] by auto
  have "trep m' (left n') a l" "trep m' (right n') a r"
    using Node.IH(1) [OF n(5)] Node.IH(2) [OF n(6)] Node.prems(2) n'(3,4) by simp_all
  with n n' show ?case by simp
qed

text \<open>A change of one bucket.\<close>

lemma tree_inv_bucket:
  assumes inv: "tree_inv C s tr t X" and a: "a \<in> set_tree t" "tnodes s a = Some n" "a \<noteq> NULL"
    and f: "family_in ls (set_tree t) ((bkt s)(a := l)) (X(a := xs)) C" "static_pool_setup ls" and xs: "xs \<noteq> []"
  defines "s' \<equiv> s\<lparr>tnodes := (tnodes s)(a \<mapsto> n\<lparr>bucket := l\<rparr>), lists := ls\<rparr>"
  shows "tree_inv C s' tr t (X(a := xs))" and "locate (tnodes s') k t = locate (tnodes s) k t"
    and "tree_room s' = tree_room s"
proof -
  have kv: "kv (tnodes s') b = kv (tnodes s) b" for b
    using a by (simp add: kv_def s'_def)
  have fn: "free_node (tnodes s') = free_node (tnodes s)"
    using a by (auto simp: free_node_def s'_def fun_eq_iff)
  have bk: "bkt s' = (bkt s)(a := l)"
    by (auto simp: bkt_def s'_def fun_eq_iff)
  have "trep (tnodes s') (root tr) NULL t"
    by (rule trep_links [where m = "tnodes s"]) (use inv a in \<open>auto simp: tree_inv_def s'_def\<close>)
  moreover have "pool_inv s'"
    using inv a fn unfolding tree_inv_def pool_inv_def by (auto simp: s'_def)
  moreover have "keyed (tnodes s') t" using inv keyed_cong [OF kv] by (simp add: tree_inv_def)
  ultimately show "tree_inv C s' tr t (X(a := xs))"
    using inv f xs by (auto simp: tree_inv_def bk fn) (simp_all add: s'_def)
  show "locate (tnodes s') k t = locate (tnodes s) k t" by (rule locate_cong [OF kv])
  show "tree_room s' = tree_room s" using fn by (simp add: tree_room_def) (simp add: s'_def)
qed

lemma tree_inv_node:
  assumes "tree_inv C s tr t X" "a \<in> set_tree t"
  obtains n where "tnodes s a = Some n" "a \<noteq> NULL" "bkt s a = bucket n"
proof -
  have "trep (tnodes s) (root tr) NULL t" using assms(1) by (simp add: tree_inv_def)
  from trep_node [OF this assms(2)] that show thesis by (auto simp: bkt_def)
qed

lemma insert_at_ok:
  assumes inv: "tree_inv C s tr t X" and a: "a \<in> set_tree t" and r: "0 < bt_room s"
  shows "\<exists>s'. insert_at s tr d a = Inr (s', tr, KERN_SUCCESS) \<and> tree_inv C s' tr t (X(a := X a @ [d])) \<and>
    (\<forall>k. locate (tnodes s') k t = locate (tnodes s) k t) \<and> bt_room s - 1 \<le> bt_room s'"
proof -
  have f: "family_in (lists s) (set_tree t) (bkt s) X C" "X a \<noteq> []" "0 < room (lists s)"
    using inv a r by (auto simp: tree_inv_def bt_room_def)
  obtain ls l where i: "singly_linked_list_insert_tail (lists s) (bkt s a) d = Inr (ls, l)"
    "family_in ls (set_tree t) ((bkt s)(a := l)) (X(a := X a @ [d])) C" "room ls = room (lists s) - 1"
    using family_in_insert_tail [OF f(1) a f(3,2), of d] by blast
  have su: "static_pool_setup ls" using setup_insert_tail [OF i(1)] inv by (simp add: tree_inv_def)
  obtain n where n: "tnodes s a = Some n" "a \<noteq> NULL" "bkt s a = bucket n" by (rule tree_inv_node [OF inv a])
  let ?s = "s\<lparr>tnodes := (tnodes s)(a \<mapsto> n\<lparr>bucket := l\<rparr>), lists := ls\<rparr>"
  have "X a @ [d] \<noteq> []" by simp
  note inv' = tree_inv_bucket [OF inv a n(1,2) i(2) su this]
  have "insert_at s tr d a = Inr (?s, tr, KERN_SUCCESS)" using i(1) n by (simp add: insert_at_def)
  moreover have "bt_room s - 1 \<le> bt_room ?s" using inv'(3) i(3) by (auto simp: bt_room_def)
  ultimately show ?thesis using inv' by blast
qed

text \<open>A new node below a slot, and the first node of an empty tree.\<close>

lemma tree_inv_attach:
  assumes inv: "tree_inv C s tr t X" and new: "p \<notin> set_tree t" "free_node (tnodes s) p" "p \<noteq> NULL"
    and n: "bflags n AND BINARY_TREE_NODE_FREE = 0" "unat (key n) = k" "locate (tnodes s) k t = None"
      "bflags n AND BINARY_TREE_NODE_STATIC_POOL \<noteq> 0"
    and f: "family_in ls (insert p (set_tree t)) ((bkt s)(p := bucket n)) (X(p := [d])) C" "static_pool_setup ls"
    and m0: "m' p = Some n" "\<forall>a na. a \<noteq> p \<longrightarrow> tnodes s a = Some na \<longrightarrow>
        (\<exists>n'. m' a = Some n' \<and> key n' = key na \<and> bucket n' = bucket na \<and> bflags n' = bflags na \<and>
             (a \<notin> set_tree t \<longrightarrow> n' = na))"
    and n0: "\<forall>a. a \<noteq> p \<longrightarrow> tnodes s a = None \<longrightarrow> m' a = None"
    and t: "trep m' rt NULL (attach (tnodes s) k p t)"
  defines "s' \<equiv> s\<lparr>tnodes := m', lists := ls\<rparr>"
  shows "tree_inv C s' (tr\<lparr>root := rt, tree_count := tree_count tr + 1\<rparr>) (attach (tnodes s) k p t) (X(p := [d]))"
    and "locate m' j (attach (tnodes s) k p t) = (if j = k then Some p else locate (tnodes s) j t)"
    and "t \<noteq> \<langle>\<rangle> \<Longrightarrow> \<forall>a\<in>set_tree t. k < kv (tnodes s) a \<Longrightarrow> left_leaf m' k (attach (tnodes s) k p t)"
proof -
  let ?t = "attach (tnodes s) k p t"
  have m': "m' p = Some n" "\<And>a na. a \<noteq> p \<Longrightarrow> tnodes s a = Some na \<Longrightarrow>
        \<exists>n'. m' a = Some n' \<and> key n' = key na \<and> bucket n' = bucket na \<and> bflags n' = bflags na \<and>
             (a \<notin> set_tree t \<longrightarrow> n' = na)"
    and nn: "\<And>a. a \<noteq> p \<Longrightarrow> tnodes s a = None \<Longrightarrow> m' a = None"
    using m0 n0 by blast+
  have kvp: "kv m' p = k" using m'(1) n(2) by (simp add: kv_def)
  have kv: "kv m' b = kv (tnodes s) b" if "b \<in> set_tree t" for b
  proof -
    obtain nb where "tnodes s b = Some nb" using tree_inv_node [OF inv \<open>b \<in> set_tree t\<close>] by blast
    moreover have "b \<noteq> p" using that new(1) by auto
    ultimately show ?thesis using m'(2) by (fastforce simp: kv_def)
  qed
  have at: "?t = attach m' k p t" by (rule attach_cong) (simp add: kv)
  have loc: "locate m' i t = locate (tnodes s) i t" for i by (rule locate_cong) (simp add: kv)
  have key': "keyed m' t" using inv keyed_cong [of t m' "tnodes s"] kv by (simp add: tree_inv_def)
  show lj: "locate m' j ?t = (if j = k then Some p else locate (tnodes s) j t)"
    unfolding at using locate_attach [OF new(1) kvp, of j] loc n(3) by simp
  show "left_leaf m' k ?t" if "t \<noteq> \<langle>\<rangle>" "\<forall>a\<in>set_tree t. k < kv (tnodes s) a"
    unfolding at using left_leaf_attach [OF that(1) _ kvp] kv that(2) by simp
  have fn: "free_node m' b \<longleftrightarrow> b \<noteq> p \<and> free_node (tnodes s) b" for b
  proof (cases "b = p")
    case True
    then show ?thesis using m'(1) n(1) by (simp add: free_node_def)
  next
    case False
    then show ?thesis using m'(2) [OF False] nn [OF False] by (cases "tnodes s b") (auto simp: free_node_def)
  qed
  have "keyed m' ?t" unfolding at by (rule keyed_attach [OF key' kvp]) (simp add: loc n(3))
  moreover have "pool_inv s'"
  proof -
    have "\<exists>n'. m' b = Some n' \<and> bflags n' AND BINARY_TREE_NODE_STATIC_POOL \<noteq> 0 \<and> (bflags n' AND BINARY_TREE_NODE_FREE \<noteq> 0 \<longrightarrow> left n' = NULL \<and> right n' = NULL)"
      if b: "b \<in> set (tree_pool s)" for b
    proof (cases "b = p")
      case True
      then show ?thesis using m'(1) n(1,4) by simp
    next
      case False
      obtain nb where nb: "tnodes s b = Some nb" "bflags nb AND BINARY_TREE_NODE_FREE \<noteq> 0 \<longrightarrow> left nb = NULL \<and> right nb = NULL"
        "bflags nb AND BINARY_TREE_NODE_STATIC_POOL \<noteq> 0"
        using inv b by (auto simp: tree_inv_def pool_inv_def)
      obtain n' where n': "m' b = Some n'" "bflags n' = bflags nb" "b \<notin> set_tree t \<longrightarrow> n' = nb"
        using m'(2) [OF False nb(1)] by blast
      have "b \<in> set_tree t \<Longrightarrow> bflags nb AND BINARY_TREE_NODE_FREE = 0"
        using inv nb(1) by (auto simp: tree_inv_def free_node_def)
      then show ?thesis using n' nb(2,3) by auto
    qed
    then show ?thesis using inv fn by (auto simp: tree_inv_def pool_inv_def s'_def)
  qed
  moreover have "family_in ls (set_tree ?t) (bkt s') (X(p := [d])) C"
  proof -
    have "bkt s' a = ((bkt s)(p := bucket n)) a" if mem: "a \<in> insert p (set_tree t)" for a
    proof (cases "a = p")
      case True
      then show ?thesis using m'(1) by (simp add: bkt_def s'_def)
    next
      case False
      with mem have "a \<in> set_tree t" by simp
      then obtain na where na: "tnodes s a = Some na" using tree_inv_node [OF inv, of a] by blast
      with m'(2) [OF False na] False show ?thesis by (auto simp: bkt_def s'_def)
    qed
    then show ?thesis unfolding set_attach by (intro iffD2 [OF family_in_cong f(1)]) auto
  qed
  ultimately show "tree_inv C s' (tr\<lparr>root := rt, tree_count := tree_count tr + 1\<rparr>) ?t (X(p := [d]))"
    using inv f t fn new(1) by (auto simp: tree_inv_def s'_def set_attach size_attach)
qed

lemma insert_new_ok:
  assumes inv: "tree_inv C s tr t X" and r: "0 < bt_room s" and k: "k < 2 ^ 32"
    and l: "locate (tnodes s) (unat k) t = None"
  shows "\<exists>s' tr' t' X'. insert_binary_tree s tr d k = Inr (s', tr', KERN_SUCCESS) \<and> tree_inv C s' tr' t' X' \<and>
    (\<forall>j. map_option X' (locate (tnodes s') j t') =
      (if j = unat k then Some [d] else map_option X (locate (tnodes s) j t))) \<and> bt_room s - 1 \<le> bt_room s' \<and>
    (t \<noteq> \<langle>\<rangle> \<longrightarrow> (\<forall>a\<in>set_tree t. unat k < kv (tnodes s) a) \<longrightarrow> left_leaf (tnodes s') (unat k) t')"
proof -
  have i: "pool_inv s" "static_pool_setup (lists s)" "family_in (lists s) (set_tree t) (bkt s) X C"
    "\<forall>a\<in>set_tree t. \<not> free_node (tnodes s) a" "trep (tnodes s) (root tr) NULL t" "keyed (tnodes s) t"
    "tree_count tr = size t"
    using inv by (auto simp: tree_inv_def)
  obtain p n ls where nw: "new_tree_node tr s d k = Inr (s\<lparr>tnodes := (tnodes s)(p \<mapsto> n), lists := ls\<rparr>, p)"
    "p \<noteq> NULL" "p \<notin> set_tree t" "left n = NULL" "right n = NULL" "key n = ucast k"
    "bflags n AND BINARY_TREE_NODE_FREE = 0" "free_node (tnodes s) p" "static_pool_setup ls"
    "room ls = room (lists s) - 1" "tree_room (s\<lparr>tnodes := (tnodes s)(p \<mapsto> n), lists := ls\<rparr>) = tree_room s - 1"
    "family_in ls (insert p (set_tree t)) ((bkt s)(p := bucket n)) (X(p := [d])) C"
    "bflags n AND BINARY_TREE_NODE_STATIC_POOL \<noteq> 0"
    by (rule new_tree_node_ok [OF i(1) r i(2,3,4)])
  have uk: "unat (key n) = unat k"
  proof -
    have "unat k < 2 ^ 32" using k by (simp add: word_less_nat_alt)
    then show ?thesis using nw(6) by (simp add: unsigned_ucast_eq take_bit_nat_eq_self)
  qed
  let ?par = "if t = \<langle>\<rangle> then NULL else fst (slot (tnodes s) (unat k) t)"
  let ?dir = "snd (slot (tnodes s) (unat k) t)"
  let ?np = "n\<lparr>parent := ?par\<rparr>"
  let ?m0 = "if t = \<langle>\<rangle> then tnodes s else (tnodes s)(?par \<mapsto> set_child ?dir p (the (tnodes s ?par)))"
  let ?m = "?m0(p \<mapsto> ?np)"
  let ?rt = "if t = \<langle>\<rangle> then p else root tr"
  let ?s = "s\<lparr>tnodes := ?m, lists := ls\<rparr>"
  let ?tr = "tr\<lparr>root := ?rt, tree_count := tree_count tr + 1\<rparr>"
  have par: "?par \<in> set_tree t \<and> ?par \<noteq> p \<and> ?par \<noteq> NULL \<and> (\<exists>nb. tnodes s ?par = Some nb)" if "t \<noteq> \<langle>\<rangle>"
    using slot_in [OF that, of "tnodes s" "unat k"] nw(3) trep_node [OF i(5)] that by auto
  have run: "insert_binary_tree s tr d k = Inr (?s, ?tr, KERN_SUCCESS)"
  proof (cases "t = \<langle>\<rangle>")
    case True
    then show ?thesis using nw(1,2) i(5) by (simp add: insert_binary_tree_def)
  next
    case False
    then have "root tr \<noteq> NULL" using trep_Leaf_iff [OF i(5)] by simp
    then have "insert_binary_tree s tr d k = insert_below s tr d k (slot (tnodes s) (unat k) t)"
      using insert_walk_eq [OF i(5) False, of "tree_count tr" tr d k] i(7) l by (simp add: insert_binary_tree_def)
    then show ?thesis using nw(1,2) par [OF False] False
      by (auto simp: insert_below_def fun_upd_twist)
  qed
  have rep: "trep ?m ?rt NULL (attach (tnodes s) (unat k) p t)"
  proof (cases "t = \<langle>\<rangle>")
    case True
    then show ?thesis using nw by simp
  next
    case False
    show ?thesis
      using trep_attach [OF i(5) False i(6) nw(3), of "unat k" ?par ?dir ?m ?np] l nw par [OF False] False by simp
  qed
  have m': "\<forall>a na. a \<noteq> p \<longrightarrow> tnodes s a = Some na \<longrightarrow>
      (\<exists>n'. ?m a = Some n' \<and> key n' = key na \<and> bucket n' = bucket na \<and> bflags n' = bflags na \<and>
        (a \<notin> set_tree t \<longrightarrow> n' = na))"
    using par by (auto simp: set_child_def)
  have f: "family_in ls (insert p (set_tree t)) ((bkt s)(p := bucket ?np)) (X(p := [d])) C"
    and np: "bflags ?np AND BINARY_TREE_NODE_FREE = 0" "unat (key ?np) = unat k" "?m p = Some ?np"
      "bflags ?np AND BINARY_TREE_NODE_STATIC_POOL \<noteq> 0"
    using nw(7,12,13) uk by simp_all
  have nn: "\<forall>a. a \<noteq> p \<longrightarrow> tnodes s a = None \<longrightarrow> ?m a = None"
    using par by (cases "t = \<langle>\<rangle>") auto
  have fr: "free_node ?m = free_node ((tnodes s)(p \<mapsto> n))"
    using par by (auto simp: free_node_def fun_eq_iff set_child_def)
  define m' where "m' = ?m"
  note inv' = tree_inv_attach [OF inv nw(3,8,2) np(1,2) l np(4) f nw(9)
      np(3) [folded m'_def] m' [folded m'_def] nn [folded m'_def] rep [folded m'_def]]
  have run': "insert_binary_tree s tr d k = Inr (s\<lparr>tnodes := m', lists := ls\<rparr>, ?tr, KERN_SUCCESS)"
    using run by (simp only: m'_def)
  have "tree_room (s\<lparr>tnodes := m', lists := ls\<rparr>) = tree_room s - 1"
    using nw(11) fr by (simp add: tree_room_def m'_def [symmetric])
  with nw(10) have "bt_room s - 1 \<le> bt_room (s\<lparr>tnodes := m', lists := ls\<rparr>)" by (auto simp: bt_room_def)
  moreover have "map_option (X(p := [d])) (locate m' j (attach (tnodes s) (unat k) p t)) =
      (if j = unat k then Some [d] else map_option X (locate (tnodes s) j t))" for j
  proof (cases "locate (tnodes s) j t")
    case None
    then show ?thesis using inv'(2) [of j] by simp
  next
    case (Some b)
    then have "b \<noteq> p" using locate_in [OF Some] nw(3) by auto
    then show ?thesis using inv'(2) [of j] Some by simp
  qed
  ultimately show ?thesis using run' inv'(1,3)
    by (intro exI [of _ "s\<lparr>tnodes := m', lists := ls\<rparr>"] exI [of _ ?tr] exI
        [of _ "attach (tnodes s) (unat k) p t"] exI [of _ "X(p := [d])"]) (simp only: simp_thms, simp)
qed

text \<open>Insertion on the map level: the element joins the end of its key's queue.\<close>

lemma insert_tree_ok:
  assumes "tree_rep C s tr M" "k < 2 ^ 32" "0 < bt_room s"
  shows "\<exists>s' tr'. insert_tree_node s tr d k = Inr (s', tr', KERN_SUCCESS) \<and>
    tree_rep C s' tr' (enqueue_map M k d) \<and> bt_room s - 1 \<le> bt_room s'"
proof -
  obtain t X where inv: "tree_inv C s tr t X" and M: "\<And>k. M k = map_option X (locate (tnodes s) (unat k) t)"
    using assms(1) by (auto simp: tree_rep_def)
  have md: "insert_tree_node s tr d k = insert_binary_tree s tr d k"
    using inv by (simp add: insert_tree_node_def tree_inv_def)
  show ?thesis
  proof (cases "locate (tnodes s) (unat k) t")
    case None
    obtain s' tr' t' X' where r: "insert_binary_tree s tr d k = Inr (s', tr', KERN_SUCCESS)"
      "tree_inv C s' tr' t' X'" "bt_room s - 1 \<le> bt_room s'"
      "\<And>j. map_option X' (locate (tnodes s') j t') =
        (if j = unat k then Some [d] else map_option X (locate (tnodes s) j t))"
      using insert_new_ok [OF inv assms(3,2) None, of d] by blast
    have "enqueue_map M k d j = map_option X' (locate (tnodes s') (unat j) t')" for j
      using r(4) [of "unat j"] M [of k] M [of j] None by (auto simp: enqueue_map_def word_unat_eq_iff)
    then have "tree_rep C s' tr' (enqueue_map M k d)" using r(2) unfolding tree_rep_def by blast
    with md r show ?thesis by auto
  next
    case (Some a)
    have a: "a \<in> set_tree t" "kv (tnodes s) a = unat k" using locate_in [OF Some] by auto
    have t: "trep (tnodes s) (root tr) NULL t" "tree_count tr = size t" "t \<noteq> \<langle>\<rangle>" "keyed (tnodes s) t"
      using inv a by (auto simp: tree_inv_def)
    then have "root tr \<noteq> NULL" using trep_Leaf_iff [OF t(1)] by simp
    then have eq: "insert_binary_tree s tr d k = insert_at s tr d a"
      using insert_walk_eq [OF t(1,3), of "tree_count tr" tr d k] t(2) Some by (simp add: insert_binary_tree_def)
    obtain s' where r: "insert_at s tr d a = Inr (s', tr, KERN_SUCCESS)" "tree_inv C s' tr t (X(a := X a @ [d]))"
      "\<And>k. locate (tnodes s') k t = locate (tnodes s) k t" "bt_room s - 1 \<le> bt_room s'"
      using insert_at_ok [OF inv a(1) assms(3), of d] by blast
    have "enqueue_map M k d j = map_option (X(a := X a @ [d])) (locate (tnodes s') (unat j) t)" for j
    proof (cases "j = k")
      case True
      then show ?thesis using M [of k] Some r(3) by (simp add: enqueue_map_def)
    next
      case False
      then have "locate (tnodes s) (unat j) t \<noteq> Some a"
        using locate_in [of "tnodes s" "unat j" t a] a(2) by (auto simp: word_unat_eq_iff)
      then show ?thesis
        using False M [of j] r(3) by (cases "locate (tnodes s) (unat j) t") (auto simp: enqueue_map_def)
    qed
    then have "tree_rep C s' tr (enqueue_map M k d)" using r(2) unfolding tree_rep_def by blast
    with md eq r show ?thesis by auto
  qed
qed

lemma lookup_tree_peek:
  assumes "tree_rep C s tr M"
  shows "lookup_tree s tr k 0 = Inr (s, tr, case M k of None \<Rightarrow> NULL | Some xs \<Rightarrow> hd xs)"
proof -
  obtain t X where inv: "tree_inv C s tr t X" and M: "M k = map_option X (locate (tnodes s) (unat k) t)"
    using assms by (auto simp: tree_rep_def)
  then have t: "trep (tnodes s) (root tr) NULL t" "tree_count tr = size t" "keyed (tnodes s) t"
    "family_in (lists s) (set_tree t) (bkt s) X C" by (auto simp: tree_inv_def)
  show ?thesis
  proof (cases "t = \<langle>\<rangle>")
    case True
    then show ?thesis using t(1) M by (simp add: lookup_tree_def)
  next
    case False
    then have rt: "root tr \<noteq> NULL" using trep_Leaf_iff [OF t(1)] by simp
    have eq: "lookup_tree s tr k 0 =
        (case locate (tnodes s) (unat k) t of None \<Rightarrow> Inr (s, tr, NULL) | Some a \<Rightarrow> lookup_at s tr k 0 a)"
      using lookup_walk_eq [OF t(1,3) False, of "tree_count tr" tr k 0] t(2) rt by (simp add: lookup_tree_def)
    show ?thesis
    proof (cases "locate (tnodes s) (unat k) t")
      case None
      with eq M show ?thesis by simp
    next
      case (Some a)
      then have a: "a \<in> set_tree t" using locate_in by blast
      then obtain x xs where x: "X a = x # xs" using inv by (auto simp: tree_inv_def neq_Nil_conv)
      from family_in_head [OF t(4) a x] Some eq M x show ?thesis by (auto simp: lookup_at_def)
    qed
  qed
qed

text \<open>Taking the first of several elements of a key.\<close>

lemma lookup_tree_pop:
  assumes "tree_rep C s tr M" "M k = Some (x # y # ys)" "rmv \<noteq> 0"
  shows "\<exists>s'. lookup_tree s tr k rmv = Inr (s', tr, x) \<and> tree_rep C s' tr (M(k \<mapsto> y # ys)) \<and> bt_room s \<le> bt_room s'"
proof -
  obtain t X where inv: "tree_inv C s tr t X" and M: "\<And>k. M k = map_option X (locate (tnodes s) (unat k) t)"
    using assms(1) by (auto simp: tree_rep_def)
  then have t: "trep (tnodes s) (root tr) NULL t" "tree_count tr = size t" "keyed (tnodes s) t"
    "family_in (lists s) (set_tree t) (bkt s) X C" "mode tr = REGULAR_TREE" by (auto simp: tree_inv_def)
  obtain a where a: "locate (tnodes s) (unat k) t = Some a" "X a = x # y # ys"
    using assms(2) M [of k] by auto
  then have at: "a \<in> set_tree t" "kv (tnodes s) a = unat k" using locate_in by blast+
  then have ne: "t \<noteq> \<langle>\<rangle>" by auto
  then have rt: "root tr \<noteq> NULL" "root tr \<in> set_tree t" using trep_Leaf_iff [OF t(1)] trep_root_in [OF t(1)] by auto
  have eq: "lookup_tree s tr k rmv = lookup_at s tr k rmv a"
    using lookup_walk_eq [OF t(1,3) ne, of "tree_count tr" tr k rmv] t(2) rt a(1) by (simp add: lookup_tree_def)
  obtain n where n: "tnodes s a = Some n" "a \<noteq> NULL" "bkt s a = bucket n" by (rule tree_inv_node [OF inv at(1)])
  obtain nr where nr: "tnodes s (root tr) = Some nr" using tree_inv_node [OF inv rt(2)] by blast
  obtain h where h: "nodes (lists s) (head (bkt s a)) = Some h" "head (bkt s a) \<noteq> NULL" "data h = x"
    using family_in_head [OF t(4) at(1) a(2)] by blast
  obtain ls l where r: "singly_linked_list_remove_node_by_address (lists s) (bkt s a) x = Inr (ls, l, KERN_SUCCESS)"
    "family_in ls (set_tree t) ((bkt s)(a := l)) (X(a := y # ys)) C" "room ls = room (lists s) + 1"
    using family_in_remove_first [OF t(4) at(1) a(2)] by blast
  have su: "static_pool_setup ls" using setup_remove_by_address [OF r(1)] inv by (simp add: tree_inv_def)
  let ?s = "s\<lparr>tnodes := (tnodes s)(a \<mapsto> n\<lparr>bucket := l\<rparr>), lists := ls\<rparr>"
  have "y # ys \<noteq> []" by simp
  note inv' = tree_inv_bucket [OF inv at(1) n(1,2) r(2) su this]
  have cnt: "node_count (bucket n) > 1" using family_in_count [OF t(4) at(1)] a(2) n(3) by simp
  have "size t \<noteq> 0" using ne by simp
  then obtain f where f: "tree_count tr = Suc f" using t(2) not0_implies_Suc by metis
  have ka: "k = ucast (key n)" using at(2) n(1) ucast_key(1) by (simp add: kv_def)
  have "remove_tree_node s tr k x a = Inr (?s, tr, KERN_SUCCESS)"
    using n r(1) nr rt(1) t(5) cnt f ka
    by (simp add: remove_tree_node_def remove_binary_tree_def remove_at_def)
  with h eq assms(3) have run: "lookup_tree s tr k rmv = Inr (?s, tr, x)" by (simp add: lookup_at_def)
  have "(M(k \<mapsto> y # ys)) j = map_option (X(a := y # ys)) (locate (tnodes ?s) (unat j) t)" for j
  proof (cases "j = k")
    case True
    then show ?thesis using inv'(2) a by simp
  next
    case False
    then have "locate (tnodes s) (unat j) t \<noteq> Some a"
      using locate_in [of "tnodes s" "unat j" t a] at(2) by (auto simp: word_unat_eq_iff)
    then show ?thesis
      using False M [of j] inv'(2) [of "unat j"] by (cases "locate (tnodes s) (unat j) t") auto
  qed
  then have "tree_rep C ?s tr (M(k \<mapsto> y # ys))" using inv'(1) unfolding tree_rep_def by blast
  with run inv'(3) r(3) show ?thesis by (auto simp: bt_room_def)
qed

lemma lookup_tree_missing:
  assumes "tree_rep C s tr M" "M k = None"
  shows "lookup_tree s tr k rmv = Inr (s, tr, NULL)"
proof -
  obtain t X where inv: "tree_inv C s tr t X" and M: "M k = map_option X (locate (tnodes s) (unat k) t)"
    using assms(1) by (auto simp: tree_rep_def)
  then have t: "trep (tnodes s) (root tr) NULL t" "tree_count tr = size t" "keyed (tnodes s) t"
    by (auto simp: tree_inv_def)
  show ?thesis
  proof (cases "t = \<langle>\<rangle>")
    case True
    then show ?thesis using t(1) by (simp add: lookup_tree_def)
  next
    case False
    then have "root tr \<noteq> NULL" using trep_Leaf_iff [OF t(1)] by simp
    then show ?thesis
      using lookup_walk_eq [OF t(1,3) False, of "tree_count tr" tr k rmv] t(2) M assms(2)
      by (simp add: lookup_tree_def)
  qed
qed

section \<open>Removing the last element of a key\<close>

lemma trep_unique: "trep m p q t \<Longrightarrow> trep m p q' u \<Longrightarrow> t = u"
proof (induction t arbitrary: p q q' u)
  case Leaf
  then show ?case by (cases u) auto
next
  case (Node l a r)
  obtain n where n: "m a = Some n" "p = a" "a \<noteq> NULL" "trep m (left n) a l" "trep m (right n) a r" using Node.prems(1) by auto
  obtain l' r' where u: "u = \<langle>l', a, r'\<rangle>" "trep m (left n) a l'" "trep m (right n) a r'" using Node.prems(2) n by (cases u) auto
  then show ?case using Node.IH(1) [OF n(4) u(2)] Node.IH(2) [OF n(5) u(3)] by simp
qed

lemma left_leaf_cong: "(\<And>a. a \<in> set_tree t \<Longrightarrow> kv m a = kv m' a) \<Longrightarrow> left_leaf m k t \<longleftrightarrow> left_leaf m' k t"
  by (induction t) auto

lemma left_leaf_locate: "keyed m t \<Longrightarrow> left_leaf m k t \<Longrightarrow> \<exists>x. locate m k t = Some x"
  by (induction t) (auto split: if_splits)

lemma prune_single: "kv m x = k \<Longrightarrow> prune m k \<langle>\<langle>\<rangle>, x, \<langle>\<rangle>\<rangle> = \<langle>\<rangle>"
  by simp

text \<open>Without a left leaf the tree keeps every other node, its order and where the other keys are found.\<close>

lemma prune_set:
  "keyed m t \<Longrightarrow> left_leaf m k t \<Longrightarrow> locate m k t = Some x \<Longrightarrow>
    set_tree (prune m k t) = set_tree t - {x} \<and> size t = Suc (size (prune m k t))"
proof (induction t)
  case (Node l a r)
  consider "k < kv m a" "l = \<langle>\<langle>\<rangle>, x, \<langle>\<rangle>\<rangle>" | "k < kv m a" "left_leaf m k l" | "\<not> k < kv m a" "left_leaf m k r"
    using Node.prems(2,3) by (auto split: if_splits)
  then show ?case
  proof cases
    case 1
    have "locate m k l = Some x" using 1(1) Node.prems(3) by simp
    from locate_in [OF this] have x: "kv m x = k" by simp
    moreover have "x \<noteq> a" "x \<notin> set_tree r" using x 1(1) Node.prems(1) by fastforce+
    ultimately show ?thesis using 1 by auto
  next
    case 2
    then have "set_tree (prune m k l) = set_tree l - {x}" "size l = Suc (size (prune m k l))" "x \<in> set_tree l"
      using Node.IH(1) Node.prems locate_in [of m k l x] by auto
    then show ?thesis using 2 Node.prems(1) by fastforce
  next
    case 3
    then have ne: "k \<noteq> kv m a" using left_leaf_locate [of m r k] locate_in [of m k r] Node.prems(1) by fastforce
    then have "set_tree (prune m k r) = set_tree r - {x}" "size r = Suc (size (prune m k r))" "x \<in> set_tree r"
      using 3 Node.IH(2) Node.prems locate_in [of m k r x] by auto
    then show ?thesis using 3 ne Node.prems(1) by fastforce
  qed
qed simp

lemma prune_subset: "set_tree (prune m k t) \<subseteq> set_tree t"
  by (induction t) auto

lemma keyed_prune: "keyed m t \<Longrightarrow> keyed m (prune m k t)"
  using prune_subset by (induction t) (auto; blast)+

lemma locate_prune:
  "keyed m t \<Longrightarrow> left_leaf m k t \<Longrightarrow> locate m j (prune m k t) = (if j = k then None else locate m j t)"
proof (induction t)
  case (Node l a r)
  have "k \<noteq> kv m a" if "\<not> k < kv m a" "left_leaf m k r"
    using left_leaf_locate [of m r k] locate_in [of m k r] Node.prems(1) that by fastforce
  then show ?case using Node by (auto split: if_splits)
qed simp

text \<open>The leaf, its parent, and the tree that is left when the parent forgets it.\<close>

lemma left_leaf_parent:
  "trep m p q t \<Longrightarrow> keyed m t \<Longrightarrow> left_leaf m k t \<Longrightarrow> locate m k t = Some x \<Longrightarrow>
    \<exists>n b nb. m x = Some n \<and> left n = NULL \<and> right n = NULL \<and> parent n = b \<and> x \<noteq> p \<and> b \<in> set_tree t \<and> b \<noteq> x \<and>
      m b = Some nb \<and> left nb = x \<and> right nb \<noteq> x \<and>
      (\<forall>m'. m' b = Some (nb\<lparr>left := NULL\<rparr>) \<longrightarrow> (\<forall>a. a \<noteq> b \<longrightarrow> a \<noteq> x \<longrightarrow> m' a = m a) \<longrightarrow> trep m' p q (prune m k t))"
proof (induction t arbitrary: p q)
  case (Node l a r)
  obtain na where na: "m a = Some na" "p = a" "a \<noteq> NULL" "parent na = q" "trep m (left na) a l" "trep m (right na) a r"
    using Node.prems(1) by auto
  have anot: "a \<notin> set_tree l" "a \<notin> set_tree r" "set_tree l \<inter> set_tree r = {}" using Node.prems(2) by fastforce+
  have cong: "trep m' y z u" if "trep m y z u" "b \<notin> set_tree u" "x \<notin> set_tree u"
    "\<forall>a. a \<noteq> b \<longrightarrow> a \<noteq> x \<longrightarrow> m' a = m a" for m' y z u b
    using that trep_cong [of u m' m] by metis
  consider "k < kv m a" "l = \<langle>\<langle>\<rangle>, x, \<langle>\<rangle>\<rangle>" "kv m x = k" | "k < kv m a" "left_leaf m k l" | "\<not> k < kv m a" "left_leaf m k r"
    using Node.prems(3,4) by (auto split: if_splits)
  then show ?case
  proof cases
    case 1
    then obtain n where n: "m x = Some n" "left n = NULL" "right n = NULL" "parent n = a" "left na = x" "x \<noteq> NULL" using na by auto
    have x: "x \<noteq> a" "x \<notin> set_tree r" using anot 1 by auto
    moreover have "right na \<noteq> x" using trep_root_in [OF na(6)] n(6) x(2) by metis
    ultimately show ?thesis using n na 1 anot cong [OF na(6), of a] by auto
  next
    case 2
    have loc: "locate m k l = Some x" using 2 Node.prems(4) by simp
    then have x: "x \<in> set_tree l" "x \<noteq> a" "x \<notin> set_tree r" using locate_in anot by fastforce+
    obtain n b nb where b: "m x = Some n" "left n = NULL" "right n = NULL" "parent n = b" "b \<in> set_tree l" "b \<noteq> x"
      "m b = Some nb" "left nb = x" "right nb \<noteq> x"
      "\<forall>m'. m' b = Some (nb\<lparr>left := NULL\<rparr>) \<longrightarrow> (\<forall>a. a \<noteq> b \<longrightarrow> a \<noteq> x \<longrightarrow> m' a = m a) \<longrightarrow> trep m' (left na) a (prune m k l)"
      using Node.IH(1) [OF na(5) _ 2(2) loc] Node.prems(2) by auto
    have "b \<noteq> a" "b \<notin> set_tree r" using b(5) anot by auto
    then show ?thesis using b na x 2 cong [OF na(6), of b] by auto
  next
    case 3
    have ne: "k \<noteq> kv m a" using 3 left_leaf_locate [of m r k] locate_in [of m k r] Node.prems(2) by fastforce
    have loc: "locate m k r = Some x" using 3 ne Node.prems(4) by simp
    then have x: "x \<in> set_tree r" "x \<noteq> a" "x \<notin> set_tree l" using locate_in anot by fastforce+
    obtain n b nb where b: "m x = Some n" "left n = NULL" "right n = NULL" "parent n = b" "b \<in> set_tree r" "b \<noteq> x"
      "m b = Some nb" "left nb = x" "right nb \<noteq> x"
      "\<forall>m'. m' b = Some (nb\<lparr>left := NULL\<rparr>) \<longrightarrow> (\<forall>a. a \<noteq> b \<longrightarrow> a \<noteq> x \<longrightarrow> m' a = m a) \<longrightarrow> trep m' (right na) a (prune m k r)"
      using Node.IH(2) [OF na(6) _ 3(2) loc] Node.prems(2) by auto
    have "b \<noteq> a" "b \<notin> set_tree l" using b(5) anot by auto
    then show ?thesis using b na x 3 ne cong [OF na(5), of b] by auto
  qed
qed simp

lemma filter_length_mono: "(\<And>x. P x \<Longrightarrow> Q x) \<Longrightarrow> length (filter P xs) \<le> length (filter Q xs)"
  by (induction xs) (auto intro: le_SucI)

lemma tree_inv_prune:
  assumes inv: "tree_inv C s tr t X" and leaf: "left_leaf (tnodes s) k t" "locate (tnodes s) k t = Some x"
    and b: "tnodes s b = Some nb" "b \<in> set_tree t" "b \<noteq> x" and t: "trep m' (root tr) NULL (prune (tnodes s) k t)"
    and m': "m' b = Some (nb\<lparr>left := NULL\<rparr>)" "\<forall>a. a \<noteq> b \<longrightarrow> a \<noteq> x \<longrightarrow> m' a = tnodes s a"
    and pool: "x \<in> set (tree_pool s) \<Longrightarrow> \<exists>n. m' x = Some n \<and> bflags n AND BINARY_TREE_NODE_STATIC_POOL \<noteq> 0 \<and> left n = NULL \<and> right n = NULL"
    and s': "tree_pool s' = tree_pool s" "tnodes s' = m'" "lists s' = lists s" "pool_full s' \<longrightarrow> pool_full s \<and> x \<notin> set (tree_pool s)"
  shows "tree_inv C s' (tr\<lparr>tree_count := tree_count tr - 1\<rparr>) (prune (tnodes s) k t) X"
    and "locate m' j (prune (tnodes s) k t) = (if j = k then None else locate (tnodes s) j t)"
    and "tree_room s \<le> tree_room s'"
proof -
  let ?t = "prune (tnodes s) k t"
  have i: "keyed (tnodes s) t" "family_in (lists s) (set_tree t) (bkt s) X C" "pool_inv s" "tree_count tr = size t"
    "\<not> free_node (tnodes s) x" using inv locate_in [OF leaf(2)] by (auto simp: tree_inv_def)
  note set = prune_set [OF i(1) leaf]
  have same: "kv m' a = kv (tnodes s) a" "free_node m' a = free_node (tnodes s) a" "bkt s' a = bkt s a" if "a \<noteq> x" for a
    using that m' b(1) s'(2) by (cases "a = b"; simp add: kv_def free_node_def bkt_def)+
  have kv: "kv m' a = kv (tnodes s) a" if "a \<in> set_tree ?t" for a using same(1) set that by blast
  show "locate m' j ?t = (if j = k then None else locate (tnodes s) j t)"
    using locate_cong [of ?t m' "tnodes s"] kv locate_prune [OF i(1) leaf(1)] by simp
  have "keyed m' ?t" using keyed_cong [of ?t m' "tnodes s"] kv keyed_prune [OF i(1)] by simp
  moreover have "family_in (lists s) (set_tree ?t) (bkt s') X C"
  proof -
    have "family_in (lists s) (set_tree ?t) (bkt s) X C"
      using i(2) prune_subset [of "tnodes s" k t] unfolding family_in_def by (elim family_subset) auto
    then show ?thesis using family_in_cong [of "set_tree ?t" "bkt s'" "bkt s" X X "lists s" C] same(3) set by auto
  qed
  moreover have "pool_inv s'"
  proof -
    have "\<exists>n. m' p = Some n \<and> bflags n AND BINARY_TREE_NODE_STATIC_POOL \<noteq> 0 \<and>
        (bflags n AND BINARY_TREE_NODE_FREE \<noteq> 0 \<longrightarrow> left n = NULL \<and> right n = NULL)" if p: "p \<in> set (tree_pool s)" for p
    proof -
      obtain n where n: "tnodes s p = Some n" "bflags n AND BINARY_TREE_NODE_STATIC_POOL \<noteq> 0"
        "bflags n AND BINARY_TREE_NODE_FREE \<noteq> 0 \<longrightarrow> left n = NULL \<and> right n = NULL"
        using i(3) p by (auto simp: pool_inv_def)
      consider "p = x" | "p \<noteq> x" "p = b" | "p \<noteq> x" "p \<noteq> b" by blast
      then show ?thesis
      proof cases
        case 1
        then show ?thesis using pool p by blast
      next
        case 2
        have "bflags nb AND BINARY_TREE_NODE_FREE = 0" using inv b(1,2) by (auto simp: tree_inv_def free_node_def)
        then show ?thesis using 2 m'(1) n b(1) by simp
      qed (use m'(2) n in auto)
    qed
    moreover have "\<not> free_node m' p" if "pool_full s'" "p \<in> set (tree_pool s)" for p
      using that s'(4) same(2) i(3) by (metis pool_inv_def)
    ultimately show ?thesis using i(3) s'(1,2) by (simp add: pool_inv_def)
  qed
  ultimately show "tree_inv C s' (tr\<lparr>tree_count := tree_count tr - 1\<rparr>) ?t X"
    using inv t s'(2,3) set same(2) i(4) by (auto simp: tree_inv_def)
  have "free_node m' a" if "free_node (tnodes s) a" for a using same(2) [of a] that i(5) by metis
  then show "tree_room s \<le> tree_room s'" unfolding tree_room_def s'(1,2) by (rule filter_length_mono)
qed

lemma remove_leaf_ok:
  assumes inv: "tree_inv C s tr t X" and leaf: "left_leaf (tnodes s) k t" "locate (tnodes s) k t = Some x" and one: "X x = [y]"
  shows "x \<noteq> root tr \<and> (\<exists>s'. remove_at s tr d x = Inr (s', tr\<lparr>tree_count := tree_count tr - 1\<rparr>, KERN_SUCCESS) \<and>
    tree_inv C s' (tr\<lparr>tree_count := tree_count tr - 1\<rparr>) (prune (tnodes s) k t) X \<and>
    (\<forall>j. locate (tnodes s') j (prune (tnodes s) k t) = (if j = k then None else locate (tnodes s) j t)) \<and> bt_room s \<le> bt_room s')"
proof -
  have t: "trep (tnodes s) (root tr) NULL t" "keyed (tnodes s) t" "family_in (lists s) (set_tree t) (bkt s) X C" "pool_inv s"
    using inv by (auto simp: tree_inv_def)
  have xt: "x \<in> set_tree t" using locate_in [OF leaf(2)] by simp
  obtain n b nb where b: "tnodes s x = Some n" "left n = NULL" "right n = NULL" "parent n = b" "x \<noteq> root tr" "b \<in> set_tree t"
    "b \<noteq> x" "tnodes s b = Some nb" "left nb = x" "right nb \<noteq> x"
    "\<forall>m'. m' b = Some (nb\<lparr>left := NULL\<rparr>) \<longrightarrow> (\<forall>a. a \<noteq> b \<longrightarrow> a \<noteq> x \<longrightarrow> m' a = tnodes s a) \<longrightarrow>
      trep m' (root tr) NULL (prune (tnodes s) k t)"
    using left_leaf_parent [OF t(1,2) leaf] by blast
  have nn: "b \<noteq> NULL" "x \<noteq> NULL" using trep_node [OF t(1)] b(6) xt by auto
  have cnt: "\<not> node_count (bucket n) > 1" using family_in_count [OF t(3) xt] one b(1) by (simp add: bkt_def)
  let ?m = "(tnodes s)(b \<mapsto> nb\<lparr>left := NULL\<rparr>)"
  let ?n = "n\<lparr>bflags := bflags n OR BINARY_TREE_NODE_FREE, parent := NULL, left := NULL, right := NULL, key := 0xFFFF\<rparr>"
  let ?s = "if bflags n AND BINARY_TREE_NODE_STATIC_POOL = 0 then s\<lparr>tnodes := ?m(x := None), theap := x # theap s\<rparr>
    else s\<lparr>tnodes := ?m(x \<mapsto> ?n), pool_full := False\<rparr>"
  have run: "remove_at s tr d x = Inr (?s, tr\<lparr>tree_count := tree_count tr - 1\<rparr>, KERN_SUCCESS)"
    using b nn cnt by (simp add: remove_at_def replace_child_def free_and_count_def NODE_FREE_def pmm_node_free_def node_free_def)
  have "tnodes ?s b = Some (nb\<lparr>left := NULL\<rparr>)" "\<forall>a. a \<noteq> b \<longrightarrow> a \<noteq> x \<longrightarrow> tnodes ?s a = tnodes s a" using b(7) by auto
  moreover have "\<exists>n. tnodes ?s x = Some n \<and> bflags n AND BINARY_TREE_NODE_STATIC_POOL \<noteq> 0 \<and> left n = NULL \<and> right n = NULL"
    if "x \<in> set (tree_pool s)"
  proof -
    have "bflags n AND BINARY_TREE_NODE_STATIC_POOL \<noteq> 0" using t(4) that b(1) by (fastforce simp: pool_inv_def)
    then show ?thesis by (simp add: bit.conj_disj_distrib2)
  qed
  moreover have "pool_full ?s \<longrightarrow> pool_full s \<and> x \<notin> set (tree_pool s)"
    using t(4) b(1) unfolding pool_inv_def by (cases "x \<in> set (tree_pool s)") auto
  moreover have "tree_pool ?s = tree_pool s" "lists ?s = lists s" by simp_all
  moreover have "trep (tnodes ?s) (root tr) NULL (prune (tnodes s) k t)" using b(11) calculation(1,2) by blast
  ultimately show ?thesis
    using tree_inv_prune [OF inv leaf b(8,6,7), of "tnodes ?s" ?s] run b(5) by (auto simp: bt_room_def)
qed

text \<open>
  \<open>tree_left_leaf s tr k\<close>: the node of the key is a left leaf of the tree in memory. There the lookup that
  takes the last element, and the removal of the last element, take the key out of the map.
\<close>

definition tree_left_leaf :: "bt_mem \<Rightarrow> btree \<Rightarrow> 64 word \<Rightarrow> bool" where
  "tree_left_leaf s tr k \<longleftrightarrow> (\<exists>t. trep (tnodes s) (root tr) NULL t \<and> left_leaf (tnodes s) (unat k) t)"

lemma tree_rep_remove_leaf:
  assumes "tree_rep C s tr M" "M k = Some [x]" "tree_left_leaf s tr k"
  obtains t X a s' where "tree_inv C s tr t X" "locate (tnodes s) (unat k) t = Some a" "X a = [x]" "a \<noteq> root tr"
    "remove_at s tr d a = Inr (s', tr\<lparr>tree_count := tree_count tr - 1\<rparr>, KERN_SUCCESS)"
    "tree_rep C s' (tr\<lparr>tree_count := tree_count tr - 1\<rparr>) (M(k := None))" "bt_room s \<le> bt_room s'"
proof -
  obtain t X where inv: "tree_inv C s tr t X" and M: "\<And>k. M k = map_option X (locate (tnodes s) (unat k) t)"
    using assms(1) by (auto simp: tree_rep_def)
  then have "left_leaf (tnodes s) (unat k) t"
    using assms(3) trep_unique unfolding tree_left_leaf_def tree_inv_def by blast
  moreover obtain a where a: "locate (tnodes s) (unat k) t = Some a" "X a = [x]" using assms(2) M [of k] by auto
  ultimately obtain s' where s': "a \<noteq> root tr"
    "remove_at s tr d a = Inr (s', tr\<lparr>tree_count := tree_count tr - 1\<rparr>, KERN_SUCCESS)"
    "tree_inv C s' (tr\<lparr>tree_count := tree_count tr - 1\<rparr>) (prune (tnodes s) (unat k) t) X"
    "\<forall>j. locate (tnodes s') j (prune (tnodes s) (unat k) t) = (if j = unat k then None else locate (tnodes s) j t)"
    "bt_room s \<le> bt_room s'"
    using remove_leaf_ok [OF inv, of "unat k" a x d] by blast
  have "(M(k := None)) j = map_option X (locate (tnodes s') (unat j) (prune (tnodes s) (unat k) t))" for j
    using s'(4) M [of j] by (simp add: word_unat_eq_iff)
  then have "tree_rep C s' (tr\<lparr>tree_count := tree_count tr - 1\<rparr>) (M(k := None))" using s'(3) unfolding tree_rep_def by blast
  with that inv a s' show thesis by blast
qed

lemma tree_inv_at:
  fixes k :: "64 word"
  assumes "tree_inv C s tr t X" "locate (tnodes s) (unat k) t = Some a" "a \<noteq> root tr"
  obtains n nr f where "tnodes s a = Some n" "a \<noteq> NULL" "k = ucast (key n)" "tnodes s (root tr) = Some nr" "root tr \<noteq> NULL"
    "k \<noteq> ucast (key nr)" "tree_count tr = Suc f" "t \<noteq> \<langle>\<rangle>"
proof -
  have t: "trep (tnodes s) (root tr) NULL t" "tree_count tr = size t" "keyed (tnodes s) t" using assms(1) by (auto simp: tree_inv_def)
  have a: "a \<in> set_tree t" "kv (tnodes s) a = unat k" using locate_in [OF assms(2)] by auto
  then have ne: "t \<noteq> \<langle>\<rangle>" by auto
  then have rt: "root tr \<noteq> NULL" "root tr \<in> set_tree t" using trep_Leaf_iff [OF t(1)] trep_root_in [OF t(1)] by auto
  obtain n where n: "tnodes s a = Some n" "a \<noteq> NULL" using tree_inv_node [OF assms(1) a(1)] by blast
  obtain nr where nr: "tnodes s (root tr) = Some nr" using tree_inv_node [OF assms(1) rt(2)] by blast
  have "kv (tnodes s) (root tr) \<noteq> unat k" using keyed_locate [OF t(3) rt(2)] assms(2,3) by auto
  then have "k = ucast (key n)" "k \<noteq> ucast (key nr)"
    using n nr a(2) ucast_key(1) [of k "key n"] ucast_key(1) [of k "key nr"] by (simp_all add: kv_def)
  moreover obtain f where "tree_count tr = Suc f" using t(2) ne by (cases "size t") auto
  ultimately show thesis using that n nr rt(1) ne by blast
qed

lemma lookup_tree_last:
  assumes "tree_rep C s tr M" "M k = Some [x]" "tree_left_leaf s tr k" "rmv \<noteq> 0"
  shows "\<exists>s' tr'. lookup_tree s tr k rmv = Inr (s', tr', x) \<and> tree_rep C s' tr' (M(k := None)) \<and> bt_room s \<le> bt_room s'"
proof -
  obtain t X a s' where a: "tree_inv C s tr t X" "locate (tnodes s) (unat k) t = Some a" "X a = [x]" "a \<noteq> root tr"
    "remove_at s tr x a = Inr (s', tr\<lparr>tree_count := tree_count tr - 1\<rparr>, KERN_SUCCESS)"
    "tree_rep C s' (tr\<lparr>tree_count := tree_count tr - 1\<rparr>) (M(k := None))" "bt_room s \<le> bt_room s'"
    by (rule tree_rep_remove_leaf [OF assms(1-3)])
  have t: "trep (tnodes s) (root tr) NULL t" "tree_count tr = size t" "keyed (tnodes s) t" "mode tr = REGULAR_TREE"
    "family_in (lists s) (set_tree t) (bkt s) X C" using a(1) by (auto simp: tree_inv_def)
  obtain n nr f where n: "tnodes s a = Some n" "a \<noteq> NULL" "k = ucast (key n)" "tnodes s (root tr) = Some nr" "root tr \<noteq> NULL"
    "k \<noteq> ucast (key nr)" "tree_count tr = Suc f" "t \<noteq> \<langle>\<rangle>" by (rule tree_inv_at [OF a(1,2,4)])
  have "lookup_tree s tr k rmv = lookup_at s tr k rmv a"
    using lookup_walk_eq [OF t(1,3) n(8), of "tree_count tr" tr k rmv] t(2) n(5) a(2) by (simp add: lookup_tree_def)
  moreover obtain h where "nodes (lists s) (head (bkt s a)) = Some h" "head (bkt s a) \<noteq> NULL" "data h = x"
    using family_in_head [OF t(5) _ a(3)] locate_in [OF a(2)] by blast
  moreover have "remove_tree_node s tr k x a = remove_at s tr x a"
    using n t(4) by (simp add: remove_tree_node_def remove_binary_tree_def)
  ultimately have "lookup_tree s tr k rmv = Inr (s', tr\<lparr>tree_count := tree_count tr - 1\<rparr>, x)"
    using a(5) assms(4) by (simp add: lookup_at_def)
  with a(6,7) show ?thesis by blast
qed

lemma remove_tree_last:
  assumes "tree_rep C s tr M" "M k = Some [x]" "tree_left_leaf s tr k"
  shows "\<exists>s' tr'. remove_tree_node s tr k d NULL = Inr (s', tr', KERN_SUCCESS) \<and> tree_rep C s' tr' (M(k := None)) \<and>
    bt_room s \<le> bt_room s'"
proof -
  obtain t X a s' where a: "tree_inv C s tr t X" "locate (tnodes s) (unat k) t = Some a" "X a = [x]" "a \<noteq> root tr"
    "remove_at s tr d a = Inr (s', tr\<lparr>tree_count := tree_count tr - 1\<rparr>, KERN_SUCCESS)"
    "tree_rep C s' (tr\<lparr>tree_count := tree_count tr - 1\<rparr>) (M(k := None))" "bt_room s \<le> bt_room s'"
    by (rule tree_rep_remove_leaf [OF assms])
  have t: "trep (tnodes s) (root tr) NULL t" "tree_count tr = size t" "keyed (tnodes s) t" "mode tr = REGULAR_TREE"
    using a(1) by (auto simp: tree_inv_def)
  obtain n nr f where n: "tnodes s a = Some n" "a \<noteq> NULL" "k = ucast (key n)" "tnodes s (root tr) = Some nr" "root tr \<noteq> NULL"
    "k \<noteq> ucast (key nr)" "tree_count tr = Suc f" "t \<noteq> \<langle>\<rangle>" by (rule tree_inv_at [OF a(1,2,4)])
  have "remove_walk (tree_count tr) s tr k d (root tr) = remove_at s tr d a"
    using remove_walk_eq [OF t(1,3) n(8), of "tree_count tr" tr k d] t(2) a(2) by simp
  then have "remove_tree_node s tr k d NULL = remove_at s tr d a"
    using n t(4) by (simp add: remove_tree_node_def remove_binary_tree_def)
  with a(5-7) show ?thesis by auto
qed

text \<open>A key below all the others gets a left leaf.\<close>

lemma insert_tree_leaf:
  assumes "tree_rep C s tr M" "k < 2 ^ 32" "0 < bt_room s" "M \<noteq> Map.empty" "\<forall>j\<le>k. M j = None"
    and "insert_tree_node s tr d k = Inr (s', tr', r)"
  shows "tree_left_leaf s' tr' k"
proof -
  obtain t X where inv: "tree_inv C s tr t X" and M: "\<And>k. M k = map_option X (locate (tnodes s) (unat k) t)"
    using assms(1) by (auto simp: tree_rep_def)
  have t: "keyed (tnodes s) t" "mode tr = REGULAR_TREE" using inv by (auto simp: tree_inv_def)
  have "t \<noteq> \<langle>\<rangle>" using M assms(4) by auto
  moreover have "unat k < kv (tnodes s) a" if "a \<in> set_tree t" for a
  proof (rule ccontr)
    assume "\<not> unat k < kv (tnodes s) a"
    moreover have "kv (tnodes s) a < 2 ^ LENGTH(32)" unfolding kv_def by (rule unsigned_less)
    ultimately have "(of_nat (kv (tnodes s) a) :: 64 word) \<le> k" "unat (of_nat (kv (tnodes s) a) :: 64 word) = kv (tnodes s) a"
      by (simp_all add: word_le_nat_alt unsigned_of_nat take_bit_nat_eq_self)
    with assms(5) M [of "of_nat (kv (tnodes s) a)"] keyed_locate [OF t(1) that] show False by auto
  qed
  moreover have "locate (tnodes s) (unat k) t = None" using assms(5) M [of k] by auto
  ultimately obtain s1 tr1 t' X' where "insert_binary_tree s tr d k = Inr (s1, tr1, KERN_SUCCESS)" "tree_inv C s1 tr1 t' X'"
    "left_leaf (tnodes s1) (unat k) t'"
    using insert_new_ok [OF inv assms(3,2), of d] by blast
  with assms(6) t(2) show ?thesis unfolding tree_left_leaf_def by (auto simp: insert_tree_node_def tree_inv_def)
qed

lemma tree_left_leaf_other:
  assumes "tree_rep C s tr M" "M k = Some [x]" "tree_left_leaf s tr k"
  shows "\<exists>j. j \<noteq> k \<and> M j \<noteq> None"
proof -
  obtain t X a where a: "tree_inv C s tr t X" "locate (tnodes s) (unat k) t = Some a" "a \<noteq> root tr"
    by (rule tree_rep_remove_leaf [OF assms])
  obtain n nr f where n: "tnodes s a = Some n" "a \<noteq> NULL" "k = ucast (key n)" "tnodes s (root tr) = Some nr" "root tr \<noteq> NULL"
    "k \<noteq> ucast (key nr)" "tree_count tr = Suc f" "t \<noteq> \<langle>\<rangle>" by (rule tree_inv_at [OF a])
  obtain u Y where u: "tree_inv C s tr u Y" "\<forall>k. M k = map_option Y (locate (tnodes s) (unat k) u)"
    using assms(1) by (auto simp: tree_rep_def)
  have "trep (tnodes s) (root tr) NULL u" "keyed (tnodes s) u" using u(1) by (auto simp: tree_inv_def)
  then have "locate (tnodes s) (unat (key nr)) u = Some (root tr)"
    using keyed_locate trep_root_in [OF _ n(5)] n(4) by (metis kv_def option.sel)
  moreover have "unat (ucast (key nr) :: 64 word) = unat (key nr)" using ucast_key(1) [of "ucast (key nr)" "key nr"] by simp
  ultimately have "M (ucast (key nr)) \<noteq> None" using u(2) by simp
  with n(6) show ?thesis by metis
qed

text \<open>A change of the list memory that keeps the tree's own lists keeps the tree.\<close>

lemma tree_rep_lists:
  assumes "tree_rep C s tr M" "static_pool_setup ls"
    and "\<And>(K :: addr set) h xs. family_in (lists s) K h xs C \<Longrightarrow> family_in ls K h xs C'"
  shows "tree_rep C' (s\<lparr>lists := ls\<rparr>) tr M"
proof -
  obtain t X where inv: "tree_inv C s tr t X" and M: "\<forall>k. M k = map_option X (locate (tnodes s) (unat k) t)"
    using assms(1) by (auto simp: tree_rep_def)
  have "bkt (s\<lparr>lists := ls\<rparr>) = bkt s" by (simp add: bkt_def fun_eq_iff)
  moreover have "pool_inv (s\<lparr>lists := ls\<rparr>) = pool_inv s" by (simp add: pool_inv_def)
  ultimately have "tree_inv C' (s\<lparr>lists := ls\<rparr>) tr t X"
    using inv assms(2,3) by (simp add: tree_inv_def)
  then show ?thesis using M unfolding tree_rep_def by force
qed

lemma tree_rep_setup: "tree_rep C s tr M \<Longrightarrow> static_pool_setup (lists s)"
  by (auto simp: tree_rep_def tree_inv_def)

lemma tree_rep_some_family: "tree_rep C s tr M \<Longrightarrow> \<exists>(K :: addr set) h xs. family_in (lists s) K h xs C"
  unfolding tree_rep_def tree_inv_def by blast

text \<open>Operations on the lists of others.\<close>

lemma tree_rep_others_remove_head:
  assumes "tree_rep (J, g, ys) s tr M" "j \<in> J" "ys j = y # zs"
  shows "\<exists>ls l. singly_linked_list_remove_head (lists s) (g j) = Inr (ls, l, y) \<and>
    tree_rep (J, g(j := l), ys(j := zs)) (s\<lparr>lists := ls\<rparr>) tr M \<and> room ls = room (lists s) + 1"
proof -
  obtain ls l where r: "singly_linked_list_remove_head (lists s) (g j) = Inr (ls, l, y)" "room ls = room (lists s) + 1"
    using tree_rep_some_family [OF assms(1)] others_remove_head [where J = J and g = g and ys = ys, OF _ assms(2,3)] by blast
  have "static_pool_setup ls" using setup_remove_head [OF r(1)] tree_rep_setup [OF assms(1)] by simp
  moreover have "family_in ls K h xs (J, g(j := l), ys(j := zs))" if "family_in (lists s) K h xs (J, g, ys)"
    for K :: "addr set" and h xs
    using others_remove_head [OF that assms(2,3)] r(1) by auto
  ultimately show ?thesis using tree_rep_lists [OF assms(1)] r by blast
qed

lemma tree_rep_others_insert_head:
  assumes "tree_rep (J, g, ys) s tr M" "j \<in> J" "0 < room (lists s)"
  shows "\<exists>ls l. singly_linked_list_insert_head (lists s) (g j) d = Inr (ls, l) \<and>
    tree_rep (J, g(j := l), ys(j := d # ys j)) (s\<lparr>lists := ls\<rparr>) tr M \<and> room ls = room (lists s) - 1"
proof -
  obtain ls l where r: "singly_linked_list_insert_head (lists s) (g j) d = Inr (ls, l)" "room ls = room (lists s) - 1"
    using tree_rep_some_family [OF assms(1)] others_insert_head [OF _ assms(2,3), of _ _ _ _ _ d] by blast
  have "static_pool_setup ls" using setup_insert_head [OF r(1)] tree_rep_setup [OF assms(1)] by simp
  moreover have "family_in ls K h xs (J, g(j := l), ys(j := d # ys j))" if "family_in (lists s) K h xs (J, g, ys)"
    for K :: "addr set" and h xs
    using others_insert_head [OF that assms(2,3), of d] r(1) by auto
  ultimately show ?thesis using tree_rep_lists [OF assms(1)] r by blast
qed

lemma tree_rep_others_remove_first:
  assumes "tree_rep (J, g, ys) s tr M" "j \<in> J" "ys j = y # zs"
  shows "\<exists>ls l. singly_linked_list_remove_node_by_address (lists s) (g j) y = Inr (ls, l, KERN_SUCCESS) \<and>
    tree_rep (J, g(j := l), ys(j := zs)) (s\<lparr>lists := ls\<rparr>) tr M \<and> room ls = room (lists s) + 1"
proof -
  obtain ls l where r: "singly_linked_list_remove_node_by_address (lists s) (g j) y = Inr (ls, l, KERN_SUCCESS)"
    "room ls = room (lists s) + 1"
    using tree_rep_some_family [OF assms(1)] others_remove_first [where J = J and g = g and ys = ys, OF _ assms(2,3)] by blast
  have "static_pool_setup ls" using setup_remove_by_address [OF r(1)] tree_rep_setup [OF assms(1)] by simp
  moreover have "family_in ls K h xs (J, g(j := l), ys(j := zs))" if "family_in (lists s) K h xs (J, g, ys)"
    for K :: "addr set" and h xs
    using others_remove_first [OF that assms(2,3)] r(1) by auto
  ultimately show ?thesis using tree_rep_lists [OF assms(1)] r by blast
qed

interpretation block_tree: keyed_queue "tree_rep C" bt_room "\<lambda>k. k < 2 ^ 32" insert_tree_node
  "\<lambda>s tr k. lookup_tree s tr k 0" NULL for C
  by unfold_locales (rule insert_tree_ok, assumption+, rule lookup_tree_peek)

section \<open>Initialisation and traversal\<close>

text \<open>The first initialisation frees the whole pool; \<open>static_zeroed\<close> is the state of static storage.\<close>

definition static_zeroed :: "bt_mem \<Rightarrow> bool" where
  "static_zeroed s \<longleftrightarrow> \<not> static_pool_init s \<and> \<not> pool_full s \<and> distinct (tree_pool s) \<and> NULL \<notin> set (tree_pool s) \<and>
     (\<forall>p\<in>set (tree_pool s). \<exists>n. tnodes s p = Some n \<and> left n = NULL \<and> right n = NULL)"

lemma pool_setup_ok:
  "\<forall>p\<in>set ps. p \<noteq> NULL \<and> (\<exists>n. m p = Some n \<and> left n = NULL \<and> right n = NULL) \<Longrightarrow>
    \<exists>m'. pool_setup ps m = Inr m' \<and>
      (\<forall>p\<in>set ps. \<exists>n. m' p = Some n \<and> left n = NULL \<and> right n = NULL \<and> bflags n = 3) \<and>
      (\<forall>p. p \<notin> set ps \<longrightarrow> m' p = m p)"
proof (induction ps arbitrary: m)
  case Nil
  then show ?case by simp
next
  case (Cons a ps)
  then obtain n where n: "m a = Some n" "a \<noteq> NULL" "left n = NULL" "right n = NULL" by auto
  let ?m = "m(a \<mapsto> n\<lparr>bflags := 3\<rparr>)"
  have "\<forall>p\<in>set ps. p \<noteq> NULL \<and> (\<exists>n. ?m p = Some n \<and> left n = NULL \<and> right n = NULL)"
    using Cons.prems n by auto
  then obtain m' where m': "pool_setup ps ?m = Inr m'"
    "\<forall>p\<in>set ps. \<exists>n. m' p = Some n \<and> left n = NULL \<and> right n = NULL \<and> bflags n = 3"
    "\<forall>p. p \<notin> set ps \<longrightarrow> m' p = ?m p"
    using Cons.IH by blast
  with n show ?case by (cases "a \<in> set ps") auto
qed

lemma init_tree_ok:
  assumes "static_zeroed s" "static_pool_setup (lists s)" "family_in (lists s) {} (bkt s) (\<lambda>_. []) C"
  shows "\<exists>s' tr'. init_tree s tr REGULAR_TREE = Inr (s', tr', KERN_SUCCESS) \<and> tree_rep C s' tr' Map.empty \<and>
    tree_room s' = length (tree_pool s) \<and> lists s' = lists s"
proof -
  have "\<forall>p\<in>set (tree_pool s). p \<noteq> NULL \<and> (\<exists>n. tnodes s p = Some n \<and> left n = NULL \<and> right n = NULL)"
    using assms(1) unfolding static_zeroed_def by metis
  then obtain m where m: "pool_setup (tree_pool s) (tnodes s) = Inr m"
    "\<forall>p\<in>set (tree_pool s). \<exists>n. m p = Some n \<and> left n = NULL \<and> right n = NULL \<and> bflags n = 3"
    using pool_setup_ok [of "tree_pool s" "tnodes s"] by blast
  let ?s = "s\<lparr>tnodes := m, static_pool_init := True\<rparr>"
  have free: "\<forall>p\<in>set (tree_pool s). free_node m p" using m(2) by (fastforce simp: free_node_def)
  have "family_in (lists s) {} (bkt ?s) (\<lambda>_. []) C"
    using assms(3) family_in_cong [of "{}" "bkt s" "bkt ?s"] by blast
  moreover have "pool_inv ?s" using assms(1) m(2) by (fastforce simp: pool_inv_def static_zeroed_def)
  ultimately have "tree_inv C ?s (init_binary_tree tr) \<langle>\<rangle> (\<lambda>_. [])"
    using assms(2) by (simp add: tree_inv_def init_binary_tree_def)
  then have "tree_rep C ?s (init_binary_tree tr) Map.empty" by (force simp: tree_rep_def)
  moreover have "tree_room ?s = length (tree_pool s)" using free by (simp add: tree_room_def)
  ultimately show ?thesis using assms(1) m(1) by (simp add: init_tree_def static_zeroed_def)
qed

text \<open>The stack of the traversal holds the roots of disjoint subtrees still to visit.\<close>

lemma for_each_loop_preorder:
  assumes "list_all2 (\<lambda>p t. t \<noteq> \<langle>\<rangle> \<and> (\<exists>q. trep m p q t)) stack ts" "sum_list (map size ts) \<le> cap"
    "sum_list (map size ts) \<le> fuel"
  shows "for_each_loop fuel m cap stack = Inr (concat (map preorder ts))"
  using assms
proof (induction fuel arbitrary: stack ts)
  case 0
  then show ?case by (cases stack; cases ts) auto
next
  case (Suc fuel)
  show ?case
  proof (cases stack)
    case Nil
    then show ?thesis using Suc.prems(1) by simp
  next
    case (Cons p rest)
    then obtain t ts' q where ts: "ts = t # ts'" "t \<noteq> \<langle>\<rangle>" "trep m p q t"
      "list_all2 (\<lambda>p t. t \<noteq> \<langle>\<rangle> \<and> (\<exists>q. trep m p q t)) rest ts'"
      using Suc.prems(1) by (auto simp: list_all2_Cons1)
    then obtain l r where t: "t = \<langle>l, p, r\<rangle>" by (cases t) auto
    with ts(3) obtain n where n: "m p = Some n" "p \<noteq> NULL" "trep m (left n) p l" "trep m (right n) p r" by auto
    have len: "length rest \<le> sum_list (map size ts')"
    proof -
      have "length ts' \<le> sum_list (map size ts')" using ts(4)
        by (induction rest ts' rule: list_all2_induct) (auto simp: neq_Leaf_iff)
      then show ?thesis using list_all2_lengthD [OF ts(4)] by simp
    qed
    let ?st = "(if left n = NULL then [] else [left n]) @ (if right n = NULL then [] else [right n]) @ rest"
    let ?ts = "(if l = \<langle>\<rangle> then [] else [l]) @ (if r = \<langle>\<rangle> then [] else [r]) @ ts'"
    have lr: "left n = NULL \<longleftrightarrow> l = \<langle>\<rangle>" "right n = NULL \<longleftrightarrow> r = \<langle>\<rangle>"
      using trep_Leaf_iff [OF n(3)] trep_Leaf_iff [OF n(4)] by auto
    have sz: "sum_list (map size ts) = Suc (size l + size r + sum_list (map size ts'))" using ts t by simp
    have "r \<noteq> \<langle>\<rangle> \<Longrightarrow> 0 < size r" "l \<noteq> \<langle>\<rangle> \<Longrightarrow> 0 < size l" by (auto simp: neq_Leaf_iff)
    then have "for_each_loop (Suc fuel) m cap stack = bindR (for_each_loop fuel m cap ?st) (\<lambda>vs. Inr (p # vs))"
      using Cons n lr len Suc.prems(2) sz by (auto simp: push_bounded_def)
    moreover have "for_each_loop fuel m cap ?st = Inr (concat (map preorder ?ts))"
      by (rule Suc.IH) (use ts(4) n lr sz Suc.prems(2,3) in auto)
    ultimately show ?thesis using ts t by simp
  qed
qed

lemma for_each_preorder:
  assumes "tree_inv C s tr t X"
  shows "for_each_node_in_tree s tr = Inr (preorder t)"
proof (cases "t = \<langle>\<rangle>")
  case True
  then show ?thesis using assms by (simp add: tree_inv_def for_each_node_in_tree_def)
next
  case False
  have t: "trep (tnodes s) (root tr) NULL t" "tree_count tr = size t" using assms by (auto simp: tree_inv_def)
  then have "root tr \<noteq> NULL" "0 < size t" using trep_Leaf_iff [OF t(1)] False by (auto simp: neq_Leaf_iff)
  with t False for_each_loop_preorder [of "tnodes s" "[root tr]" "[t]" "size t" "size t"]
  show ?thesis by (auto simp: for_each_node_in_tree_def push_bounded_def)
qed

section \<open>Properties\<close>

text \<open>
  A concrete memory for the witnesses: the list memory of \<open>demo_mem\<close> and a static pool of four zeroed
  tree nodes.
\<close>

definition demo_tmem :: bt_mem where
  "demo_tmem = \<lparr>tnodes = [101 \<mapsto> blank_node, 102 \<mapsto> blank_node, 103 \<mapsto> blank_node, 104 \<mapsto> blank_node],
     tree_pool = [101, 102, 103, 104], pool_full = False, static_pool_init = False, theap = [],
     lists = demo_mem, list_pool = []\<rparr>"

definition demo_three :: bt_mem where
  "demo_three = demo_tmem\<lparr>tnodes := [101 \<mapsto> blank_node\<lparr>left := 102, right := 103, key := 5, bflags := 1\<rparr>,
     102 \<mapsto> blank_node\<lparr>parent := 101, key := 3, bflags := 1\<rparr>,
     103 \<mapsto> blank_node\<lparr>parent := 101, key := 7, bflags := 1\<rparr>, 104 \<mapsto> blank_node]\<rparr>"

definition demo_tree :: btree where
  "demo_tree = \<lparr>root = 0, tree_count = 0, mode = 0, is_pmm = True\<rparr>"

lemma demo_tmem_ok: "static_zeroed demo_tmem" "static_pool_setup (lists demo_tmem)" "family_in (lists demo_tmem) {} (bkt demo_tmem) (\<lambda>_. []) no_others"
proof -
  show "static_zeroed demo_tmem" "static_pool_setup (lists demo_tmem)"
    by (simp_all add: static_zeroed_def demo_tmem_def blank_node_def demo_mem_def)
  have "mem_ok (lists demo_tmem) [1, 2]" using demo_live by (simp add: live_def demo_tmem_def)
  then show "family_in (lists demo_tmem) {} (bkt demo_tmem) (\<lambda>_. []) no_others" by (rule family_in_nothing)
qed

text \<open>C13: A freshly initialised tree used as a search structure: after inserting any sequence of elements
  under 32-bit keys, with nodes left for them, looking up a key without the remove flag returns the
  element that was inserted first under it, and NULL for a key that was never used.\<close>

theorem tree_insert_lookup:
  assumes "static_zeroed s" "static_pool_setup (lists s)" "family_in (lists s) {} (bkt s) (\<lambda>_. []) C"
    and "\<forall>(d, k)\<in>set dks. k < 2 ^ 32" "length dks \<le> length (tree_pool s)" "length dks \<le> room (lists s)"
  shows "\<exists>s0 tr0 s' tr'. init_tree s tr REGULAR_TREE = Inr (s0, tr0, KERN_SUCCESS) \<and>
    enqueue_all insert_tree_node s0 tr0 dks = Inr (s', tr') \<and>
    (\<forall>k. lookup_tree s' tr' k 0 =
       Inr (s', tr', if queue_of dks k = [] then NULL else hd (queue_of dks k)))"
proof -
  obtain s0 tr0 where i: "init_tree s tr REGULAR_TREE = Inr (s0, tr0, KERN_SUCCESS)"
    "tree_rep C s0 tr0 Map.empty" "tree_room s0 = length (tree_pool s)" "lists s0 = lists s"
    using init_tree_ok [OF assms(1-3)] by blast
  then have "length dks \<le> bt_room s0" using assms(5,6) by (simp add: bt_room_def)
  with block_tree.enqueue_all_peek [OF i(2) assms(4)] i(1) show ?thesis by blast
qed

theorem tree_insert_lookup_witness:
  "\<exists>s0 tr0 s' tr'. init_tree demo_tmem demo_tree 1 = Inr (s0, tr0, 0) \<and>
    enqueue_all insert_tree_node s0 tr0 [(70, 5), (71, 3), (72, 5)] = Inr (s', tr') \<and>
    lookup_tree s' tr' 5 0 = Inr (s', tr', 70) \<and> lookup_tree s' tr' 4 0 = Inr (s', tr', NULL)"
proof -
  let ?dks = "[(70, 5), (71, 3), (72, 5)] :: (addr \<times> 64 word) list"
  have "\<exists>s0 tr0 s' tr'. init_tree demo_tmem demo_tree 1 = Inr (s0, tr0, 0) \<and>
    enqueue_all insert_tree_node s0 tr0 ?dks = Inr (s', tr') \<and>
    (\<forall>k. lookup_tree s' tr' k 0 = Inr (s', tr', if queue_of ?dks k = [] then NULL else hd (queue_of ?dks k)))"
    by (rule tree_insert_lookup [OF demo_tmem_ok]) (auto simp: demo_tmem_def demo_room)
  then show ?thesis by fastforce
qed

text \<open>Taking elements out: as long as a key has more than one element, a lookup with any non-zero remove
  flag returns the oldest one, leaves the rest of the queue in order and every other key as it was, and
  gives the list node back.\<close>

theorem tree_lookup_removes_oldest:
  assumes "tree_rep C s tr M" "M k = Some (x # y # ys)" "rmv \<noteq> 0"
  shows "\<exists>s'. lookup_tree s tr k rmv = Inr (s', tr, x) \<and> tree_rep C s' tr (M(k \<mapsto> y # ys)) \<and> bt_room s \<le> bt_room s'"
  using assms by (rule lookup_tree_pop)

lemma demo_tree_rep:
  "\<exists>s tr M. tree_rep no_others s tr M \<and> M 5 = Some [70, 72] \<and> M 3 = Some [71]"
proof -
  let ?dks = "[(70, 5), (71, 3), (72, 5)] :: (addr \<times> 64 word) list"
  obtain s0 tr0 where i: "tree_rep no_others s0 tr0 Map.empty" "tree_room s0 = 4" "lists s0 = demo_mem"
    using init_tree_ok [OF demo_tmem_ok, of demo_tree] by (auto simp: demo_tmem_def)
  then have "length ?dks \<le> bt_room s0" by (simp add: bt_room_def demo_room)
  then obtain s tr where "tree_rep no_others s tr (\<lambda>k. if queue_of ?dks k = [] then None else Some (queue_of ?dks k))"
    using block_tree.enqueue_all_peek [OF i(1), of ?dks] by auto
  then show ?thesis by force
qed

theorem tree_lookup_removes_oldest_witness:
  "\<exists>s tr s' M. lookup_tree s tr 5 1 = Inr (s', tr, 70) \<and> tree_rep no_others s' tr (M(5 \<mapsto> [72]))"
proof -
  obtain s tr M where r: "tree_rep no_others s tr M" "M 5 = Some [70, 72]" using demo_tree_rep by blast
  have "(1 :: 8 word) \<noteq> 0" by simp
  from tree_lookup_removes_oldest [OF r this] show ?thesis by blast
qed

text \<open>The traversal calls its callback on every node of a well-formed tree exactly once, a node before
  its children and the left subtree before the right one, and its stack of \<^verbatim>\<open>node_count\<close> entries never
  overflows.\<close>

theorem for_each_visits_preorder:
  assumes "tree_inv C s tr t X"
  shows "for_each_node_in_tree s tr = Inr (preorder t)"
  using assms by (rule for_each_preorder)

theorem for_each_visits_preorder_witness:
  "\<exists>s tr t. t \<noteq> \<langle>\<rangle> \<and> for_each_node_in_tree s tr = Inr (preorder t)"
proof -
  obtain s tr M where "tree_rep no_others s tr M" "M 5 = Some [70, 72]" using demo_tree_rep by blast
  then obtain t X where t: "tree_inv no_others s tr t X" "t \<noteq> \<langle>\<rangle>" by (fastforce simp: tree_rep_def)
  from for_each_visits_preorder [OF t(1)] t(2) show ?thesis by blast
qed

text \<open>The bucket of the root is never taken out of the tree: removing its only element through a lookup
  succeeds and leaves an empty bucket behind, and the next lookup of the same key dereferences the NULL
  head of that bucket instead of returning NULL.\<close>

theorem tree_empty_root_bucket_faults:
  assumes "tree_inv C s tr t X" "root tr \<noteq> NULL" "X (root tr) = [x]" "k = ucast (key (the (tnodes s (root tr))))" "rmv \<noteq> 0"
  shows "\<exists>s'. lookup_tree s tr k rmv = Inr (s', tr, x) \<and> lookup_tree s' tr k j = Inl NullDeref"
proof -
  let ?a = "root tr"
  have t: "trep (tnodes s) ?a NULL t" "tree_count tr = size t" "family_in (lists s) (set_tree t) (bkt s) X C"
    "mode tr = REGULAR_TREE" using assms(1) by (auto simp: tree_inv_def)
  have a: "?a \<in> set_tree t" "t \<noteq> \<langle>\<rangle>" using trep_root_in [OF t(1) assms(2)] by auto
  then have "size t \<noteq> 0" by simp
  then obtain f where f: "tree_count tr = Suc f" using t(2) not0_implies_Suc by metis
  obtain n where n: "tnodes s ?a = Some n" "bkt s ?a = bucket n" by (rule tree_inv_node [OF assms(1) a(1)])
  obtain h where h: "nodes (lists s) (head (bucket n)) = Some h" "head (bucket n) \<noteq> NULL" "data h = x"
    using family_in_head [OF t(3) a(1) assms(3)] n(2) by auto
  obtain ls l where r: "singly_linked_list_remove_node_by_address (lists s) (bucket n) x = Inr (ls, l, KERN_SUCCESS)"
    "family_in ls (set_tree t) ((bkt s)(?a := l)) (X(?a := [])) C"
    using family_in_remove_first [OF t(3) a(1) assms(3)] n(2) by auto
  have "head l = NULL"
    using family_in_live [OF r(2) a(1)] live_path by fastforce
  let ?s = "s\<lparr>tnodes := (tnodes s)(?a \<mapsto> n\<lparr>bucket := l\<rparr>), lists := ls\<rparr>"
  have k: "k = ucast (key n)" using assms(4) n(1) by simp
  have "remove_tree_node s tr k x ?a = Inr (?s, tr, KERN_SUCCESS)"
    using n r(1) assms(2) t(4) k by (simp add: remove_tree_node_def remove_binary_tree_def)
  then have "lookup_tree s tr k rmv = Inr (?s, tr, x)"
    using h n assms(2,5) f k by (simp add: lookup_tree_def)
  moreover have "lookup_tree ?s tr k j = Inl NullDeref"
    using \<open>head l = NULL\<close> assms(2) f k by (simp add: lookup_tree_def)
  ultimately show ?thesis by blast
qed

theorem tree_empty_root_bucket_faults_witness:
  "\<exists>s tr s' k. lookup_tree s tr k 1 = Inr (s', tr, 70) \<and> lookup_tree s' tr k 1 = Inl NullDeref"
proof -
  obtain s0 tr0 where i: "tree_rep no_others s0 tr0 Map.empty" "tree_room s0 = 4" "lists s0 = demo_mem"
    using init_tree_ok [OF demo_tmem_ok, of demo_tree] by (auto simp: demo_tmem_def)
  then have "0 < bt_room s0" by (simp add: bt_room_def demo_room)
  then obtain s tr where r: "tree_rep no_others s tr (enqueue_map Map.empty 5 70)"
    using insert_tree_ok [OF i(1), of 5 70] by auto
  then obtain t X where t: "tree_inv no_others s tr t X" and
    M: "\<And>k :: 64 word. enqueue_map Map.empty 5 70 k = map_option X (locate (tnodes s) (unat k) t)"
    unfolding tree_rep_def by blast
  obtain a where a: "locate (tnodes s) 5 t = Some a" using M [of 5] by (cases "locate (tnodes s) 5 t") (auto simp: enqueue_map_def)
  then have "t \<noteq> \<langle>\<rangle>" by auto
  then have rt: "root tr \<noteq> NULL" "root tr \<in> set_tree t"
    using t trep_Leaf_iff trep_root_in by (fastforce simp: tree_inv_def)+
  let ?k = "ucast (key (the (tnodes s (root tr)))) :: 64 word"
  have "locate (tnodes s) (unat ?k) t = Some (root tr)"
    using keyed_locate [of "tnodes s" t "root tr"] t rt(2) ucast_key(1) [of ?k "key (the (tnodes s (root tr)))"] by (simp add: tree_inv_def kv_def)
  then have "X (root tr) = [70]" using M [of ?k] by (auto simp: enqueue_map_def split: if_splits)
  moreover have "(1 :: 8 word) \<noteq> 0" by simp
  ultimately show ?thesis using tree_empty_root_bucket_faults [OF t rt(1) _ refl, of 70 1 1] by blast
qed

text \<open>Keys 5, 3 and 7 with one element each: once 7 has been taken out, 3 is no longer found.\<close>

lemma tree_lost_key_example:
  "bindR (init_tree demo_tmem demo_tree 1) (\<lambda>(s, tr, _).
   bindR (enqueue_all insert_tree_node s tr [(70, 5), (71, 3), (72, 7)]) (\<lambda>(s, tr).
   bindR (lookup_tree s tr 3 0) (\<lambda>(s, tr, a).
   bindR (lookup_tree s tr 7 1) (\<lambda>(s, tr, b).
   bindR (lookup_tree s tr 3 0) (\<lambda>(s, tr, c). Inr (a, b, c)))))) = Inr (71, 72, NULL)"
  by code_simp

text \<open>Freeing a node clears a link of its parent after the removal has already redirected it: when a
  right leaf with one element is removed, the parent's left link becomes NULL and the whole left
  subtree is lost.\<close>

theorem tree_remove_right_leaf_drops_left:
  assumes "tnodes s c = Some n" "tnodes s q = Some nq" "c \<noteq> NULL" "q \<noteq> NULL" "q \<noteq> c"
    and "parent n = q" "right nq = c" "left nq \<noteq> c" "left n = NULL" "right n = NULL"
    and "node_count (bucket n) \<le> 1" "bflags n AND BINARY_TREE_NODE_STATIC_POOL \<noteq> 0"
  shows "\<exists>s' tr'. remove_at s tr d c = Inr (s', tr', KERN_SUCCESS) \<and>
    map_option left (tnodes s' q) = Some NULL \<and> map_option right (tnodes s' q) = Some NULL"
  using assms
  by (auto simp: remove_at_def replace_child_def free_and_count_def NODE_FREE_def pmm_node_free_def node_free_def)

theorem tree_remove_right_leaf_drops_left_witness:
  "map_option left (tnodes demo_three 101) = Some 102 \<and>
   (\<exists>s' tr'. remove_at demo_three demo_tree 72 103 = Inr (s', tr', KERN_SUCCESS) \<and>
     map_option left (tnodes s' 101) = Some NULL)"
  using tree_remove_right_leaf_drops_left [of demo_three 103 "blank_node\<lparr>parent := 101, key := 7, bflags := 1\<rparr>" 101
      "blank_node\<lparr>left := 102, right := 103, key := 5, bflags := 1\<rparr>" demo_tree 72]
  by (auto simp: demo_three_def blank_node_def)

end
