(* ===== verification/Bytes.thy ===== *)
theory Bytes
  imports Prelude
begin

text \<open>
  Bytes in memory: little-endian integers of a fixed width, the byte strings the on-disk structures
  are copied to and from, and the windows of a buffer that hold their fields.
\<close>

type_synonym byte = "8 word"

text \<open>The bytes of a C string literal, with its terminator.\<close>

definition ascii :: "string \<Rightarrow> byte list" where
  "ascii s = map of_char s @ [0]"

text \<open>The bytes that stand in memory from an address on.\<close>

definition mem_bytes :: "(64 word \<Rightarrow> byte) \<Rightarrow> 64 word \<Rightarrow> nat \<Rightarrow> byte list" where
  "mem_bytes mem a n = map (\<lambda>i. mem (a + word_of_nat i)) [0..<n]"

lemma length_mem_bytes [simp]: "length (mem_bytes mem a n) = n"
  by (simp add: mem_bytes_def)

section \<open>Little-endian integers\<close>

primrec le_bytes :: "nat \<Rightarrow> nat \<Rightarrow> byte list" where
  "le_bytes 0 v = []"
| "le_bytes (Suc n) v = word_of_nat v # le_bytes n (v div 256)"

primrec le_nat :: "byte list \<Rightarrow> nat" where
  "le_nat [] = 0"
| "le_nat (b # bs) = unat b + 256 * le_nat bs"

lemma length_le_bytes [simp]: "length (le_bytes n v) = n"
  by (induction n arbitrary: v) simp_all

lemma unat_byte_less: "unat (b :: byte) < 256"
  using unsigned_less [of b] by simp

lemma byte_256 [simp]: "(256 :: byte) = 0"
  by transfer simp

lemma le_nat_less: "le_nat bs < 256 ^ length bs"
proof (induction bs)
  case Nil
  then show ?case by simp
next
  case (Cons b bs)
  then show ?case using unat_byte_less [of b] by simp
qed

lemma unat_word_of_nat_byte: "unat (word_of_nat v :: byte) = v mod 256"
  by (simp add: unat_of_nat)

lemma le_nat_le_bytes: "le_nat (le_bytes n v) = v mod 256 ^ n"
proof (induction n arbitrary: v)
  case 0
  then show ?case by simp
next
  case (Suc n)
  then show ?case by (simp add: unat_word_of_nat_byte mod_mult2_eq)
qed

lemma le_bytes_le_nat: "le_bytes (length bs) (le_nat bs) = bs"
proof (induction bs)
  case Nil
  then show ?case by simp
next
  case (Cons b bs)
  have "(word_of_nat (unat b + 256 * le_nat bs) :: byte) = b"
    by simp
  then show ?case using Cons by (simp add: unat_byte_less)
qed

section \<open>Words of any width that is a number of bytes\<close>

definition word_bytes :: "'a::len word \<Rightarrow> byte list" where
  "word_bytes w = le_bytes (LENGTH('a) div 8) (unat w)"

definition bytes_word :: "byte list \<Rightarrow> 'a::len word" where
  "bytes_word bs = word_of_nat (le_nat bs)"

lemma length_word_bytes [simp]: "length (word_bytes (w :: 'a::len word)) = LENGTH('a) div 8"
  by (simp add: word_bytes_def)

lemma bytes_word_word_bytes:
  assumes "8 dvd LENGTH('a)"
  shows "bytes_word (word_bytes (w :: 'a::len word)) = w"
proof -
  have "(256 :: nat) ^ (LENGTH('a) div 8) = 2 ^ LENGTH('a)"
  proof -
    have "(256 :: nat) = 2 ^ 8" by simp
    then show ?thesis using assms by (metis dvd_mult_div_cancel power_mult)
  qed
  then show ?thesis by (simp add: bytes_word_def word_bytes_def le_nat_le_bytes)
qed

lemma word_bytes_bytes_word:
  assumes "LENGTH('a) = 8 * length bs"
  shows "word_bytes (bytes_word bs :: 'a::len word) = bs"
proof -
  have "(256 :: nat) ^ length bs = 2 ^ LENGTH('a)" using assms by (simp add: power_mult)
  then have "le_nat bs < 2 ^ LENGTH('a)" using le_nat_less [of bs] by simp
  then show ?thesis using assms le_bytes_le_nat [of bs]
    by (simp add: bytes_word_def word_bytes_def unat_of_nat)
qed

section \<open>Arrays of 64-bit block numbers\<close>

text \<open>The view of a buffer as \<^verbatim>\<open>uint64_t *\<close>.\<close>

definition get_u64 :: "byte list \<Rightarrow> nat \<Rightarrow> 64 word" where
  "get_u64 buf i = bytes_word (window buf (8 * i) 8)"

definition put_u64 :: "byte list \<Rightarrow> nat \<Rightarrow> 64 word \<Rightarrow> byte list" where
  "put_u64 buf i w = overwrite buf (8 * i) (word_bytes w)"

lemma length_put_u64 [simp]: "8 * i + 8 \<le> length buf \<Longrightarrow> length (put_u64 buf i w) = length buf"
  by (simp add: put_u64_def)

lemma get_put_u64_same: "8 * i + 8 \<le> length buf \<Longrightarrow> get_u64 (put_u64 buf i w) i = w"
  by (simp add: get_u64_def put_u64_def window_overwrite_same bytes_word_word_bytes)

lemma get_put_u64_other:
  assumes "8 * i + 8 \<le> length buf" "8 * j + 8 \<le> length buf" "i \<noteq> j"
  shows "get_u64 (put_u64 buf i w) j = get_u64 buf j"
proof -
  from assms(3) have "j < i \<or> i < j" by auto
  then have "8 * j + 8 \<le> 8 * i \<or> 8 * i + 8 \<le> 8 * j" by auto
  then show ?thesis using assms(1,2) by (simp add: get_u64_def put_u64_def window_overwrite_other)
qed

primrec words_of :: "nat \<Rightarrow> byte list \<Rightarrow> 64 word list" where
  "words_of 0 bs = []"
| "words_of (Suc n) bs = bytes_word (take 8 bs) # words_of n (drop 8 bs)"

definition bytes_of :: "64 word list \<Rightarrow> byte list" where
  "bytes_of ws = concat (map word_bytes ws)"

lemma length_words_of [simp]: "length (words_of n bs) = n"
  by (induction n arbitrary: bs) simp_all

lemma length_bytes_of [simp]: "length (bytes_of ws) = 8 * length ws"
  by (induction ws) (simp_all add: bytes_of_def)

lemma words_of_bytes_of: "words_of (length ws) (bytes_of ws) = ws"
  by (induction ws) (simp_all add: bytes_of_def bytes_word_word_bytes)

lemma bytes_of_words_of: "length bs = 8 * n \<Longrightarrow> bytes_of (words_of n bs) = bs"
proof (induction n arbitrary: bs)
  case 0
  then show ?case by (simp add: bytes_of_def)
next
  case (Suc n)
  have "word_bytes (bytes_word (take 8 bs) :: 64 word) = take 8 bs"
    using Suc.prems by (intro word_bytes_bytes_word) simp
  with Suc show ?case by (simp add: bytes_of_def)
qed

end
