(* ===== verification/Block_Device.thy ===== *)
theory Block_Device
  imports Bytes
begin

text \<open>
  The interface between the file systems and the block drivers (\<^verbatim>\<open>struct block_device_ops\<close> of
  \<^verbatim>\<open>device.h\<close>): \<^verbatim>\<open>block_read\<close> and \<^verbatim>\<open>block_write\<close> transfer a number of whole blocks between the device
  and a buffer. A C pointer into a buffer is the buffer's bytes and a position in it. The operations
  return the status code and the changed buffer, or device.
\<close>

record 'd block_device_ops =
  block_read :: "nat \<Rightarrow> nat \<Rightarrow> byte list \<Rightarrow> nat \<Rightarrow> 'd \<Rightarrow> (nat \<times> byte list) res"
  block_write :: "nat \<Rightarrow> nat \<Rightarrow> byte list \<Rightarrow> nat \<Rightarrow> 'd \<Rightarrow> (nat \<times> 'd) res"
  flush :: "'d \<Rightarrow> nat"

text \<open>
  What a client relies on: a device in a state \<open>ok\<close> holds \<open>nblk\<close> blocks of \<open>bs\<close> bytes, \<open>blk d i\<close> is the
  content of block \<open>i\<close>, transfers of at most \<open>io_max\<close> bytes inside the device succeed, a read copies the
  blocks and a write replaces them and no others.
\<close>

locale block_device =
  fixes ops :: "'d block_device_ops" and bs nblk io_max :: nat
    and blk :: "'d \<Rightarrow> nat \<Rightarrow> byte list" and ok :: "'d \<Rightarrow> bool"
  assumes blk_len: "ok d \<Longrightarrow> i < nblk \<Longrightarrow> length (blk d i) = bs"
    and read_ok: "ok d \<Longrightarrow> b + n \<le> nblk \<Longrightarrow> n * bs \<le> io_max \<Longrightarrow> pos + n * bs \<le> length buf \<Longrightarrow>
      block_read ops b n buf pos d = Inr (0, overwrite buf pos (concat (map (blk d) [b..<b + n])))"
    and write_ok: "ok d \<Longrightarrow> b + n \<le> nblk \<Longrightarrow> n * bs \<le> io_max \<Longrightarrow> pos + n * bs \<le> length buf \<Longrightarrow>
      \<exists>d'. block_write ops b n buf pos d = Inr (0, d') \<and> ok d' \<and>
        (\<forall>i<nblk. blk d' i = (if b \<le> i \<and> i < b + n then window buf (pos + (i - b) * bs) bs else blk d i))"
begin

lemma length_blocks:
  "ok d \<Longrightarrow> b + n \<le> nblk \<Longrightarrow> length (concat (map (blk d) [b..<b + n])) = n * bs"
proof (induction n)
  case 0
  then show ?case by simp
next
  case (Suc n)
  then have "length (blk d (b + n)) = bs" by (intro blk_len) simp_all
  with Suc show ?case by simp
qed

lemma read_one:
  assumes "ok d" "b < nblk" "bs \<le> io_max" "pos + bs \<le> length buf"
  shows "block_read ops b 1 buf pos d = Inr (0, overwrite buf pos (blk d b))"
  using read_ok [of d b 1 pos buf] assms by simp

lemma write_one:
  assumes "ok d" "b < nblk" "bs \<le> io_max" "pos + bs \<le> length buf"
  shows "\<exists>d'. block_write ops b 1 buf pos d = Inr (0, d') \<and> ok d' \<and>
    (\<forall>i<nblk. blk d' i = (if i = b then window buf pos bs else blk d i))"
proof -
  from write_ok [of d b 1 pos buf] assms obtain d' where
    "block_write ops b 1 buf pos d = Inr (0, d')" "ok d'"
    and w: "\<forall>i<nblk. blk d' i = (if b \<le> i \<and> i < b + 1 then window buf (pos + (i - b) * bs) bs else blk d i)"
    by auto
  moreover have "\<forall>i<nblk. blk d' i = (if i = b then window buf pos bs else blk d i)"
    using w by (auto simp: le_less_Suc_eq)
  ultimately show ?thesis by blast
qed

text \<open>Reading several blocks back yields the bytes written to them.\<close>

lemma write_read_back:
  assumes "ok d" "b + n \<le> nblk" "n * bs \<le> io_max" "pos + n * bs \<le> length buf" "pos' + n * bs \<le> length buf'"
  shows "\<exists>d'. block_write ops b n buf pos d = Inr (0, d') \<and> ok d' \<and>
    block_read ops b n buf' pos' d' = Inr (0, overwrite buf' pos' (window buf pos (n * bs)))"
proof -
  obtain d' where w: "block_write ops b n buf pos d = Inr (0, d')" "ok d'"
    "\<forall>i<nblk. blk d' i = (if b \<le> i \<and> i < b + n then window buf (pos + (i - b) * bs) bs else blk d i)"
    using write_ok [OF assms(1-4)] by auto
  have "map (blk d') [b..<b + n] = map (\<lambda>i. window buf (pos + (i - b) * bs) bs) [b..<b + n]"
    using w(3) assms(2) by auto
  from arg_cong [OF this, of concat] concat_windows [of buf pos b bs n]
  have "concat (map (blk d') [b..<b + n]) = window buf pos (n * bs)" by simp
  with w read_ok [OF w(2) assms(2,3,5)] show ?thesis by auto
qed

end

end
