(* ===== verification/Ramdisk.thy ===== *)
theory Ramdisk
  imports Block_Device
begin

text \<open>
  \<^verbatim>\<open>kernel/src/drivers/block/ramdisk.c\<close>: block devices in memory. A RAM disk's memory is a list of
  bytes; the table of RAM disks is a list. The disk's name and lock are left out. \<^verbatim>\<open>ramdisk_init\<close> gets
  the boot module, if there is one, and the memory the kernel heap returns, as arguments.
\<close>

section \<open>State and operations\<close>

definition PAGE_SIZE :: nat where "PAGE_SIZE = 4096"

definition ramdisk_count :: nat where "ramdisk_count = 5"

definition SIZE_TOO_SMALL :: nat where "SIZE_TOO_SMALL = 4"

definition ID_OUT_OF_RANGE :: nat where "ID_OUT_OF_RANGE = 8"

definition OFFSET_OUT_OF_RANGE :: nat where "OFFSET_OUT_OF_RANGE = 32"

definition READ_SIZE_OUT_OF_BOUNDS :: nat where "READ_SIZE_OUT_OF_BOUNDS = 48"

definition BLOCK_OUT_OF_RANGE :: nat where "BLOCK_OUT_OF_RANGE = 64"

definition KERN_SUCCESS :: nat where "KERN_SUCCESS = 0"

text \<open>\<open>ramdisk_start\<close> is the memory the pointer refers to, \<open>ramdisk_end\<close> the distance of that pointer from it.\<close>

record ramdisk =
  ramdisk_start :: "byte list option"
  ramdisk_end :: nat
  ramdisk_size_pages :: nat
  rd_block_size :: nat

text \<open>
  The byte loops of \<^verbatim>\<open>ramdisk_read\<close> and \<^verbatim>\<open>ramdisk_write\<close>: \<open>n\<close> bytes remain, \<open>index\<close> have been copied.
\<close>

fun copy_bytes :: "nat \<Rightarrow> nat \<Rightarrow> byte list \<Rightarrow> nat \<Rightarrow> byte list \<Rightarrow> nat \<Rightarrow> byte list res" where
  "copy_bytes 0 index dst dpos src spos = Inr dst"
| "copy_bytes (Suc n) index dst dpos src spos =
     (if dpos + index < length dst \<and> spos + index < length src
      then copy_bytes n (index + 1) (dst[dpos + index := src ! (spos + index)]) dpos src spos
      else Inl OutOfBounds)"

definition ramdisk_disk_image_init :: "ramdisk list \<Rightarrow> nat \<Rightarrow> byte list \<Rightarrow> ramdisk list res" where
  "ramdisk_disk_image_init rds ramdisk_id img =
     (if length rds \<le> ramdisk_id \<or> length img < 24 then Inl OutOfBounds
      else let pages = length img div PAGE_SIZE + 1 in
        Inr (rds[ramdisk_id := (rds ! ramdisk_id)\<lparr>ramdisk_start := Some img, ramdisk_size_pages := pages,
               ramdisk_end := pages * PAGE_SIZE, rd_block_size := unat (get_u64 img 2)\<rparr>]))"

definition ramdisk_init :: "ramdisk list \<Rightarrow> byte list option \<Rightarrow> (nat \<Rightarrow> byte list) \<Rightarrow> nat \<Rightarrow> nat \<Rightarrow> nat \<Rightarrow> ramdisk list res" where
  "ramdisk_init rds request kmalloc size_bytes ramdisk_id block_size =
     (if ramdisk_count < ramdisk_id then Inr rds
      else case request of
        Some img \<Rightarrow> ramdisk_disk_image_init rds ramdisk_id img
      | None \<Rightarrow>
          let size_bytes = (if size_bytes = 0 then 255 * PAGE_SIZE else size_bytes);
              pages = size_bytes div PAGE_SIZE + 1
          in if length rds \<le> ramdisk_id then Inl OutOfBounds
             else Inr (rds[ramdisk_id := (rds ! ramdisk_id)\<lparr>ramdisk_start := Some (kmalloc size_bytes),
                    ramdisk_size_pages := pages, ramdisk_end := pages * PAGE_SIZE,
                    rd_block_size := block_size\<rparr>]))"

definition ramdisk_mkfs :: "ramdisk list \<Rightarrow> byte list \<Rightarrow> nat \<Rightarrow> nat \<Rightarrow> (nat \<times> ramdisk list) res" where
  "ramdisk_mkfs rds filesystem_image size_bytes ramdisk_id =
     (if ramdisk_count < ramdisk_id then Inr (ID_OUT_OF_RANGE, rds)
      else if length rds \<le> ramdisk_id then Inl OutOfBounds
      else let rd = rds ! ramdisk_id in
        if size_bytes div PAGE_SIZE < ramdisk_size_pages rd then Inr (SIZE_TOO_SMALL, rds)
        else case ramdisk_start rd of
          None \<Rightarrow> Inl NullDeref
        | Some m \<Rightarrow>
            if length m < size_bytes \<or> length filesystem_image < size_bytes then Inl OutOfBounds
            else Inr (KERN_SUCCESS, rds[ramdisk_id := rd\<lparr>ramdisk_start := Some (overwrite m 0 (take size_bytes filesystem_image))\<rparr>]))"

definition ramdisk_destroy :: "ramdisk list \<Rightarrow> nat \<Rightarrow> ramdisk list res" where
  "ramdisk_destroy rds ramdisk_id =
     (if ramdisk_count < ramdisk_id then Inr rds
      else if length rds \<le> ramdisk_id then Inl OutOfBounds
      else Inr (rds[ramdisk_id := (rds ! ramdisk_id)\<lparr>ramdisk_start := None, ramdisk_size_pages := 0,
             ramdisk_end := 0\<rparr>]))"

definition ramdisk_read :: "ramdisk list \<Rightarrow> byte list \<Rightarrow> nat \<Rightarrow> nat \<Rightarrow> nat \<Rightarrow> nat \<Rightarrow> nat \<Rightarrow> nat \<Rightarrow> (nat \<times> byte list) res" where
  "ramdisk_read rds buffer pos block offset read_size buffer_size ramdisk_id =
     (if ramdisk_count < ramdisk_id then Inr (ID_OUT_OF_RANGE, buffer)
      else if length rds \<le> ramdisk_id then Inl OutOfBounds
      else let rd = rds ! ramdisk_id in
        if rd_block_size rd < offset then Inr (OFFSET_OUT_OF_RANGE, buffer)
        else if buffer_size < read_size then Inr (READ_SIZE_OUT_OF_BOUNDS, buffer)
        else if rd_block_size rd = 0 then Inl DivideError
        else if ramdisk_size_pages rd * PAGE_SIZE div rd_block_size rd < block then Inr (BLOCK_OUT_OF_RANGE, buffer)
        else case ramdisk_start rd of
          None \<Rightarrow> Inl NullDeref
        | Some m \<Rightarrow>
            bindR (copy_bytes read_size 0 buffer pos m (block * rd_block_size rd + offset)) (\<lambda>buffer.
              Inr (KERN_SUCCESS, buffer)))"

text \<open>
  The loop that writes a buffer many times over, with its two increments of \<open>total_transferred\<close> per
  byte.
\<close>

function write_repeat :: "byte list \<Rightarrow> nat \<Rightarrow> byte list \<Rightarrow> nat \<Rightarrow> nat \<Rightarrow> nat \<Rightarrow> nat \<Rightarrow> nat \<Rightarrow> byte list res" where
  "write_repeat m start buffer pos buffer_size write_size index transferred =
     (if transferred < write_size then
        if start + index < length m \<and> pos + index < length buffer then
          write_repeat (m[start + index := buffer ! (pos + index)]) start buffer pos buffer_size write_size
            ((if index = buffer_size then 0 else index) + 1) (transferred + 2)
        else Inl OutOfBounds
      else Inr m)"
  by pat_completeness auto
termination by (relation "measure (\<lambda>(m, start, buffer, pos, buffer_size, write_size, index, transferred). write_size - transferred)") auto

declare write_repeat.simps [simp del]

definition ramdisk_write :: "ramdisk list \<Rightarrow> byte list \<Rightarrow> nat \<Rightarrow> nat \<Rightarrow> nat \<Rightarrow> nat \<Rightarrow> nat \<Rightarrow> nat \<Rightarrow> (nat \<times> ramdisk list) res" where
  "ramdisk_write rds buffer pos block offset write_size buffer_size ramdisk_id =
     (if ramdisk_count < ramdisk_id then Inr (ID_OUT_OF_RANGE, rds)
      else if length rds \<le> ramdisk_id then Inl OutOfBounds
      else let rd = rds ! ramdisk_id in
        if rd_block_size rd < offset then Inr (OFFSET_OUT_OF_RANGE, rds)
        else if rd_block_size rd = 0 then Inl DivideError
        else if ramdisk_size_pages rd * PAGE_SIZE div rd_block_size rd < block then Inr (BLOCK_OUT_OF_RANGE, rds)
        else if buffer_size < write_size \<and> buffer_size = 0 then Inl DivideError
        else if buffer_size < write_size \<and> write_size mod buffer_size = 0 then
          (case ramdisk_start rd of
             None \<Rightarrow> Inl NullDeref
           | Some m \<Rightarrow>
               bindR (write_repeat m (block * rd_block_size rd + offset) buffer pos buffer_size write_size 0 0) (\<lambda>m.
                 Inr (KERN_SUCCESS, rds[ramdisk_id := rd\<lparr>ramdisk_start := Some m\<rparr>])))
        else if buffer_size < write_size then Inr (READ_SIZE_OUT_OF_BOUNDS, rds)
        else case ramdisk_start rd of
          None \<Rightarrow> Inl NullDeref
        | Some m \<Rightarrow>
            bindR (copy_bytes write_size 0 m (block * rd_block_size rd + offset) buffer pos) (\<lambda>m.
              Inr (KERN_SUCCESS, rds[ramdisk_id := rd\<lparr>ramdisk_start := Some m\<rparr>])))"

text \<open>
  A block device backed by a RAM disk: \<open>device_info\<close> is the index of the \<^verbatim>\<open>struct ramdisk\<close> it points to,
  \<open>device_minor\<close> the id passed to the driver.
\<close>

record ramdisk_device =
  device_info :: nat
  device_minor :: nat

definition ramdisk_device_ops_read :: "ramdisk_device \<Rightarrow> nat \<Rightarrow> nat \<Rightarrow> byte list \<Rightarrow> nat \<Rightarrow> ramdisk list \<Rightarrow> (nat \<times> byte list) res" where
  "ramdisk_device_ops_read device block_number block_count buffer pos rds =
     (if length rds \<le> device_info device then Inl OutOfBounds
      else ramdisk_read rds buffer pos block_number 0 (block_count * rd_block_size (rds ! device_info device))
             (PAGE_SIZE * 100) (device_minor device))"

definition ramdisk_device_ops_write :: "ramdisk_device \<Rightarrow> nat \<Rightarrow> nat \<Rightarrow> byte list \<Rightarrow> nat \<Rightarrow> ramdisk list \<Rightarrow> (nat \<times> ramdisk list) res" where
  "ramdisk_device_ops_write device block_number block_count buffer pos rds =
     (if length rds \<le> device_info device then Inl OutOfBounds
      else ramdisk_write rds buffer pos block_number 0 (block_count * rd_block_size (rds ! device_info device))
             (PAGE_SIZE * 100) (device_minor device))"

definition ramdisk_device_ops_flush :: "ramdisk list \<Rightarrow> nat" where
  "ramdisk_device_ops_flush rds = 0"

definition ramdisk_ops :: "ramdisk_device \<Rightarrow> ramdisk list block_device_ops" where
  "ramdisk_ops device = \<lparr>block_read = ramdisk_device_ops_read device,
     block_write = ramdisk_device_ops_write device, flush = ramdisk_device_ops_flush\<rparr>"

section \<open>The abstract device\<close>

definition rd_mem :: "ramdisk_device \<Rightarrow> ramdisk list \<Rightarrow> byte list" where
  "rd_mem device rds = the (ramdisk_start (rds ! device_minor device))"

definition rd_blk :: "ramdisk_device \<Rightarrow> nat \<Rightarrow> ramdisk list \<Rightarrow> nat \<Rightarrow> byte list" where
  "rd_blk device bs rds i = window (rd_mem device rds) (i * bs) bs"

text \<open>
  A RAM disk of \<open>nblk\<close> blocks of \<open>bs\<close> bytes: its device entry names it consistently, and the blocks fit
  both its memory and its size in pages.
\<close>

definition rd_ok :: "ramdisk_device \<Rightarrow> nat \<Rightarrow> nat \<Rightarrow> ramdisk list \<Rightarrow> bool" where
  "rd_ok device bs nblk rds \<longleftrightarrow>
     device_info device = device_minor device \<and> device_minor device < length rds \<and>
     device_minor device \<le> ramdisk_count \<and> 0 < bs \<and> rd_block_size (rds ! device_minor device) = bs \<and>
     nblk * bs \<le> ramdisk_size_pages (rds ! device_minor device) * PAGE_SIZE \<and>
     ramdisk_start (rds ! device_minor device) \<noteq> None \<and> nblk * bs \<le> length (rd_mem device rds)"

definition demo_disk :: "nat \<Rightarrow> ramdisk" where
  "demo_disk pages = \<lparr>ramdisk_start = Some (replicate (pages * 4096) 0), ramdisk_end = pages * 4096,
     ramdisk_size_pages = pages, rd_block_size = 1024\<rparr>"

definition demo_device :: ramdisk_device where
  "demo_device = \<lparr>device_info = 0, device_minor = 0\<rparr>"

section \<open>The copy loop\<close>

lemma copy_bytes_eq:
  assumes "dpos + index + n \<le> length dst" and "spos + index + n \<le> length src"
  shows "copy_bytes n index dst dpos src spos =
    Inr (overwrite dst (dpos + index) (window src (spos + index) n))"
  using assms
proof (induction n arbitrary: index dst)
  case 0
  then show ?case by (simp add: overwrite_def window_def)
next
  case (Suc n)
  let ?x = "src ! (spos + index)"
  have "window src (spos + index) (Suc n) = ?x # window src (spos + (index + 1)) n"
    using Suc.prems by (simp add: window_def Cons_nth_drop_Suc [symmetric])
  moreover have "overwrite (dst[dpos + index := ?x]) (dpos + (index + 1)) w = overwrite dst (dpos + index) (?x # w)"
    if "dpos + index + 1 + length w \<le> length dst" for w
    using that by (simp add: overwrite_def take_Suc_conv_app_nth)
  ultimately show ?case using Suc by simp
qed

lemma copy_bytes_oob:
  "length dst < dpos + index + n \<or> length src < spos + index + n \<Longrightarrow> 0 < n \<Longrightarrow>
    copy_bytes n index dst dpos src spos = Inl OutOfBounds"
  by (induction n index dst dpos src spos rule: copy_bytes.induct) auto

section \<open>The driver implements a block device\<close>

lemma block_le: "(b :: nat) + n \<le> nblk \<Longrightarrow> nblk * bs \<le> k \<Longrightarrow> b * bs + n * bs \<le> k"
  by (metis add_mult_distrib le_trans mult_le_mono1)

lemma rd_block_range:
  assumes "rd_ok device bs nblk rds" and "b + n \<le> nblk"
  shows "b \<le> ramdisk_size_pages (rds ! device_minor device) * PAGE_SIZE div bs"
    and "b * bs + n * bs \<le> length (rd_mem device rds)"
proof -
  have "b * bs \<le> ramdisk_size_pages (rds ! device_minor device) * PAGE_SIZE"
    using block_le [of b n nblk bs "ramdisk_size_pages (rds ! device_minor device) * PAGE_SIZE"] assms
    by (simp add: rd_ok_def)
  then show "b \<le> ramdisk_size_pages (rds ! device_minor device) * PAGE_SIZE div bs"
    using assms(1) by (simp add: rd_ok_def less_eq_div_iff_mult_less_eq)
  show "b * bs + n * bs \<le> length (rd_mem device rds)"
    using block_le [of b n nblk bs] assms by (auto simp: rd_ok_def)
qed

lemma rd_read_ok:
  assumes ok: "rd_ok device bs nblk rds" and b: "b + n \<le> nblk" "n * bs \<le> PAGE_SIZE * 100"
    and l: "pos + n * bs \<le> length buf"
  shows "ramdisk_device_ops_read device b n buf pos rds =
    Inr (0, overwrite buf pos (window (rd_mem device rds) (b * bs) (n * bs)))"
proof -
  note r = rd_block_range [OF ok b(1)]
  obtain m where m: "ramdisk_start (rds ! device_minor device) = Some m" "rd_mem device rds = m"
    using ok by (auto simp: rd_ok_def rd_mem_def)
  have "copy_bytes (n * bs) 0 buf pos m (b * bs) = Inr (overwrite buf pos (window m (b * bs) (n * bs)))"
    using copy_bytes_eq [of pos 0 "n * bs" buf "b * bs" m] l r m by simp
  then show ?thesis
    using ok b r m
    by (simp add: ramdisk_device_ops_read_def ramdisk_read_def rd_ok_def KERN_SUCCESS_def Let_def not_less)
qed

lemma rd_write_ok:
  assumes ok: "rd_ok device bs nblk rds" and b: "b + n \<le> nblk" "n * bs \<le> PAGE_SIZE * 100"
    and l: "pos + n * bs \<le> length buf"
  shows "ramdisk_device_ops_write device b n buf pos rds =
    Inr (0, rds[device_minor device := (rds ! device_minor device)\<lparr>ramdisk_start :=
        Some (overwrite (rd_mem device rds) (b * bs) (window buf pos (n * bs)))\<rparr>])"
proof -
  note r = rd_block_range [OF ok b(1)]
  obtain m where m: "ramdisk_start (rds ! device_minor device) = Some m" "rd_mem device rds = m"
    using ok by (auto simp: rd_ok_def rd_mem_def)
  have "copy_bytes (n * bs) 0 m (b * bs) buf pos = Inr (overwrite m (b * bs) (window buf pos (n * bs)))"
    using copy_bytes_eq [of "b * bs" 0 "n * bs" m pos buf] l r m by simp
  then show ?thesis
    using ok b r m
    by (simp add: ramdisk_device_ops_write_def ramdisk_write_def rd_ok_def KERN_SUCCESS_def Let_def not_less)
qed

lemma concat_map_window:
  "b * k + n * k \<le> length m \<Longrightarrow> concat (map (\<lambda>i. window m (i * k) k) [b..<b + n]) = window m (b * k) (n * k)"
proof (induction n)
  case 0
  then show ?case by (simp add: window_def)
next
  case (Suc n)
  then have "concat (map (\<lambda>i. window m (i * k) k) [b..<b + n]) = window m (b * k) (n * k)" by simp
  then show ?case using window_add [of m "b * k" "n * k" k] by (simp add: add.commute add_mult_distrib)
qed

lemma window_overwrite_block:
  assumes "b * k + n * k \<le> length m" "i * k + k \<le> length m" "length w = n * k"
  shows "window (overwrite m (b * k) w) (i * k) k =
    (if b \<le> i \<and> i < b + n then window w ((i - b) * k) k else window m (i * k) k)"
proof (cases "b \<le> i \<and> i < b + n")
  case True
  then obtain j where j: "i = b + j" "j < n" by (metis add_less_cancel_left le_add_diff_inverse)
  then have "j * k + k \<le> n * k" using mult_le_mono1 [of "Suc j" n k] by simp
  then have "window (overwrite m (b * k) w) (i * k) k ! x = window w (j * k) k ! x" if "x < k" for x
    using that assms j by (simp add: nth_window nth_overwrite add_mult_distrib)
  then show ?thesis
    using True j assms \<open>j * k + k \<le> n * k\<close> by (intro nth_equalityI) simp_all
next
  case False
  then have "i * k + k \<le> b * k \<or> b * k + n * k \<le> i * k"
    using mult_le_mono1 [of "Suc i" b k] mult_le_mono1 [of "b + n" i k]
    by (auto simp: not_le not_less add_mult_distrib)
  then show ?thesis using False assms by (auto simp: window_overwrite_other)
qed

lemma rd_blk_fun: "rd_blk device bs d = (\<lambda>i. window (rd_mem device d) (i * bs) bs)"
  by (rule ext) (simp add: rd_blk_def)

lemma rd_block_device: "block_device (ramdisk_ops device) bs nblk (PAGE_SIZE * 100) (rd_blk device bs) (rd_ok device bs nblk)"
proof unfold_locales
  fix d i assume "rd_ok device bs nblk d" "i < nblk"
  then show "length (rd_blk device bs d i) = bs"
    using rd_block_range(2) [of device bs nblk d i 1] by (simp add: rd_blk_def)
next
  fix d b n pos and buf :: "byte list"
  assume a: "rd_ok device bs nblk d" "b + n \<le> nblk" "n * bs \<le> PAGE_SIZE * 100" "pos + n * bs \<le> length buf"
  then show "block_read (ramdisk_ops device) b n buf pos d =
      Inr (0, overwrite buf pos (concat (map (rd_blk device bs d) [b..<b + n])))"
    using rd_block_range(2) [OF a(1,2)]
    by (simp add: ramdisk_ops_def rd_read_ok rd_blk_fun concat_map_window)
next
  fix d b n pos and buf :: "byte list"
  assume a: "rd_ok device bs nblk d" "b + n \<le> nblk" "n * bs \<le> PAGE_SIZE * 100" "pos + n * bs \<le> length buf"
  let ?m = "overwrite (rd_mem device d) (b * bs) (window buf pos (n * bs))"
  let ?d = "d[device_minor device := (d ! device_minor device)\<lparr>ramdisk_start := Some ?m\<rparr>]"
  note r = rd_block_range(2) [OF a(1,2)]
  have m: "rd_mem device ?d = ?m" using a(1) by (simp add: rd_mem_def rd_ok_def)
  have "length ?m = length (rd_mem device d)" using r a(4) by simp
  then have "rd_ok device bs nblk ?d" using a(1) m by (simp add: rd_ok_def)
  moreover have "rd_blk device bs ?d i =
      (if b \<le> i \<and> i < b + n then window buf (pos + (i - b) * bs) bs else rd_blk device bs d i)" if "i < nblk" for i
  proof -
    have i: "i * bs + bs \<le> length (rd_mem device d)" using rd_block_range(2) [OF a(1), of i 1] that by simp
    have "window (window buf pos (n * bs)) ((i - b) * bs) bs = window buf (pos + (i - b) * bs) bs"
      if "b \<le> i \<and> i < b + n"
    proof -
      have "Suc (i - b) \<le> n" using that by auto
      then have "(i - b) * bs + bs \<le> n * bs" using mult_le_mono1 [of "Suc (i - b)" n bs] by simp
      then show ?thesis by (rule window_window)
    qed
    then show ?thesis
      using window_overwrite_block [OF r i, of "window buf pos (n * bs)"] a(4)
      by (simp add: rd_blk_def m)
  qed
  ultimately show "\<exists>d'. block_write (ramdisk_ops device) b n buf pos d = Inr (0, d') \<and> rd_ok device bs nblk d' \<and>
      (\<forall>i<nblk. rd_blk device bs d' i =
        (if b \<le> i \<and> i < b + n then window buf (pos + (i - b) * bs) bs else rd_blk device bs d i))"
    using a by (intro exI [of _ ?d]) (simp add: ramdisk_ops_def rd_write_ok)
qed

interpretation rd: block_device "ramdisk_ops device" bs nblk "PAGE_SIZE * 100" "rd_blk device bs" "rd_ok device bs nblk"
  for device bs nblk
  by (rule rd_block_device)

section \<open>Properties\<close>

lemma demo_disk_ok: "nblk \<le> pages * 4 \<Longrightarrow> rd_ok demo_device 1024 nblk [demo_disk pages]"
  by (simp add: rd_ok_def demo_device_def demo_disk_def rd_mem_def ramdisk_count_def PAGE_SIZE_def)

text \<open>On a RAM disk, writing up to 400 KiB of whole blocks inside the disk succeeds and keeps the disk well
  formed, and reading the same blocks back into any large enough buffer yields exactly the bytes
  written.\<close>

theorem ramdisk_write_read_back:
  assumes "rd_ok device bs nblk rds" and "b + n \<le> nblk" and "n * bs \<le> PAGE_SIZE * 100"
    and "pos + n * bs \<le> length buf" and "pos' + n * bs \<le> length buf'"
  shows "\<exists>rds'. ramdisk_device_ops_write device b n buf pos rds = Inr (KERN_SUCCESS, rds') \<and> rd_ok device bs nblk rds' \<and>
    ramdisk_device_ops_read device b n buf' pos' rds' =
      Inr (KERN_SUCCESS, overwrite buf' pos' (window buf pos (n * bs)))"
  using rd.write_read_back [OF assms] by (simp add: ramdisk_ops_def KERN_SUCCESS_def)

theorem ramdisk_write_read_back_witness:
  "\<exists>rds'. ramdisk_device_ops_write demo_device 3 1 (replicate 1024 7) 0 [demo_disk 1] = Inr (KERN_SUCCESS, rds') \<and>
    ramdisk_device_ops_read demo_device 3 1 (replicate 2000 1) 100 rds' =
      Inr (KERN_SUCCESS, replicate 100 1 @ replicate 1024 7 @ replicate 876 1)"
proof -
  have "rd_ok demo_device 1024 4 [demo_disk 1]" by (rule demo_disk_ok) simp
  from ramdisk_write_read_back [OF this, of 3 1 0 "replicate 1024 7" 100 "replicate 2000 1"]
  show ?thesis by (auto simp: PAGE_SIZE_def overwrite_def window_def)
qed

text \<open>Initialising a RAM disk without a boot module gives a well-formed disk of as many blocks as fit the
  requested size, whatever the heap's memory holds, provided the heap returns whole pages, one more
  than the size divided by the page size (as \<^verbatim>\<open>kmalloc\<close> does).\<close>

theorem ramdisk_init_ok:
  assumes "ramdisk_id < length rds" and "ramdisk_id \<le> ramdisk_count" and "0 < bs" and "0 < size_bytes"
    and "\<forall>n. length (kmalloc n) = (n div PAGE_SIZE + 1) * PAGE_SIZE"
  shows "\<exists>rds'. ramdisk_init rds None kmalloc size_bytes ramdisk_id bs = Inr rds' \<and>
    rd_ok \<lparr>device_info = ramdisk_id, device_minor = ramdisk_id\<rparr> bs (size_bytes div bs) rds' \<and>
    rd_mem \<lparr>device_info = ramdisk_id, device_minor = ramdisk_id\<rparr> rds' = kmalloc size_bytes"
proof -
  have "size_bytes < (size_bytes div PAGE_SIZE + 1) * PAGE_SIZE"
    by (metis PAGE_SIZE_def add.commute div_less_iff_less_mult less_add_one zero_less_numeral)
  moreover have "size_bytes div bs * bs \<le> size_bytes" by simp
  ultimately have "size_bytes div bs * bs \<le> (size_bytes div PAGE_SIZE + 1) * PAGE_SIZE" by linarith
  then show ?thesis
    using assms by (simp add: ramdisk_init_def rd_ok_def rd_mem_def Let_def not_less)
qed

theorem ramdisk_init_ok_witness:
  "\<exists>rds'. ramdisk_init [demo_disk 1] None (\<lambda>n. replicate ((n div PAGE_SIZE + 1) * PAGE_SIZE) 0) 10240 0 1024 = Inr rds' \<and>
    rd_ok demo_device 1024 10 rds'"
  using ramdisk_init_ok [of 0 "[demo_disk 1]" 1024 10240 "\<lambda>n. replicate ((n div PAGE_SIZE + 1) * PAGE_SIZE) 0"]
  by (auto simp: demo_device_def)

text \<open>The range check of the driver admits one block too many: on a disk whose memory is a whole number of
  blocks, reading the block behind the last one is not refused and runs past the memory.\<close>

theorem ramdisk_read_past_end:
  assumes "rd_ok device bs nblk rds" and "ramdisk_size_pages (rds ! device_minor device) * PAGE_SIZE = nblk * bs"
    and "length (rd_mem device rds) = nblk * bs" and "bs \<le> PAGE_SIZE * 100"
  shows "ramdisk_device_ops_read device nblk 1 buf pos rds = Inl OutOfBounds"
proof -
  obtain m where m: "ramdisk_start (rds ! device_minor device) = Some m" "rd_mem device rds = m"
    using assms(1) by (auto simp: rd_ok_def rd_mem_def)
  have "copy_bytes bs 0 buf pos m (nblk * bs) = Inl OutOfBounds"
    using assms m by (intro copy_bytes_oob) (simp_all add: rd_ok_def)
  then show ?thesis
    using assms m by (simp add: ramdisk_device_ops_read_def ramdisk_read_def rd_ok_def Let_def)
qed

theorem ramdisk_read_past_end_witness:
  "ramdisk_device_ops_read demo_device 4 1 (replicate 4096 0) 0 [demo_disk 1] = Inl OutOfBounds"
  using ramdisk_read_past_end [OF demo_disk_ok [of 4 1]]
  by (simp add: demo_device_def demo_disk_def rd_mem_def PAGE_SIZE_def)

text \<open>The size check of \<^verbatim>\<open>ramdisk_mkfs\<close> is the wrong way round: an image smaller than the disk is refused as
  too small, and one larger than the disk is copied past the end of its memory.\<close>

theorem ramdisk_mkfs_check_inverted:
  assumes "rd_ok device bs nblk rds" and "length (rd_mem device rds) = ramdisk_size_pages (rds ! device_minor device) * PAGE_SIZE"
    and "length img \<noteq> length (rd_mem device rds)"
  shows "ramdisk_mkfs rds img (length img) (device_minor device) =
    (if length img < length (rd_mem device rds) then Inr (SIZE_TOO_SMALL, rds) else Inl OutOfBounds)"
proof -
  obtain m where m: "ramdisk_start (rds ! device_minor device) = Some m" "rd_mem device rds = m"
    using assms(1) by (auto simp: rd_ok_def rd_mem_def)
  have "length img div PAGE_SIZE < ramdisk_size_pages (rds ! device_minor device) \<longleftrightarrow>
      length img < length (rd_mem device rds)"
    using assms(2) by (simp add: div_less_iff_less_mult PAGE_SIZE_def)
  then show ?thesis
    using assms m by (simp add: ramdisk_mkfs_def rd_ok_def Let_def)
qed

theorem ramdisk_mkfs_check_inverted_witness:
  "ramdisk_mkfs [demo_disk 1] (replicate 1024 1) 1024 0 = Inr (SIZE_TOO_SMALL, [demo_disk 1]) \<and>
    ramdisk_mkfs [demo_disk 1] (replicate 8192 1) 8192 0 = Inl OutOfBounds"
  using ramdisk_mkfs_check_inverted [OF demo_disk_ok [of 4 1], of "replicate 1024 1"]
    ramdisk_mkfs_check_inverted [OF demo_disk_ok [of 4 1], of "replicate 8192 1"]
  by (simp add: demo_device_def demo_disk_def rd_mem_def PAGE_SIZE_def)

end
