(* ===== verification/DiosFS_Layout.thy ===== *)
theory DiosFS_Layout
  imports Bytes
begin

text \<open>
  The on-disk structures of DiosFS (\<^verbatim>\<open>kernel/src/include/filesystem/diosfs.h\<close>): superblock, inodes and
  directory entries as records, the bytes the kernel copies to and from disk blocks (the layout the
  compiler gives the structs on x86-64, padding included), and the arithmetic that finds a block of a
  file among direct, single, double and triple indirect pointers.
\<close>

section \<open>Constants\<close>

definition NUM_BLOCKS_DIRECT :: nat where "NUM_BLOCKS_DIRECT = 10"

definition NUM_BLOCKS_IN_INDIRECTION_BLOCK :: nat where "NUM_BLOCKS_IN_INDIRECTION_BLOCK = 128"

definition NUM_BLOCKS_DOUBLE_INDIRECTION :: nat where "NUM_BLOCKS_DOUBLE_INDIRECTION = 128 * 128"

definition NUM_BLOCKS_TRIPLE_INDIRECTION :: nat where "NUM_BLOCKS_TRIPLE_INDIRECTION = 128 * 128 * 128"

definition NUM_INODES_PER_BLOCK :: nat where "NUM_INODES_PER_BLOCK = 4"

definition MAX_FILENAME_LENGTH :: nat where "MAX_FILENAME_LENGTH = 128"

definition DIOSFS_NUM_INODE_POINTER_BLOCKS :: nat where "DIOSFS_NUM_INODE_POINTER_BLOCKS = 16"

definition DIOSFS_NUM_BLOCK_POINTER_BLOCKS :: nat where "DIOSFS_NUM_BLOCK_POINTER_BLOCKS = 128"

definition VNODE_DIRECTORY :: "16 word" where "VNODE_DIRECTORY = 0"

definition VNODE_FILE :: "16 word" where "VNODE_FILE = 1"

lemmas diosfs_constants = NUM_BLOCKS_DIRECT_def NUM_BLOCKS_IN_INDIRECTION_BLOCK_def
  NUM_BLOCKS_DOUBLE_INDIRECTION_def NUM_BLOCKS_TRIPLE_INDIRECTION_def NUM_INODES_PER_BLOCK_def
  MAX_FILENAME_LENGTH_def DIOSFS_NUM_INODE_POINTER_BLOCKS_def DIOSFS_NUM_BLOCK_POINTER_BLOCKS_def

section \<open>Structures\<close>

record diosfs_superblock =
  s_magic :: nat
  s_version :: nat
  s_block_size :: nat
  s_num_blocks :: nat
  s_num_inodes :: nat
  s_total_size :: nat
  s_inode_bitmap_size :: nat
  s_block_bitmap_size :: nat
  s_inode_bitmap_pointers_start :: nat
  s_block_bitmap_pointers_start :: nat
  s_inode_start_pointer :: nat
  s_block_start_pointer :: nat

text \<open>\<open>i_pad0\<close> and \<open>i_pad1\<close> are the padding after \<^verbatim>\<open>name\<close> and \<^verbatim>\<open>block_count\<close>, which a struct copy carries along.\<close>

record diosfs_inode =
  i_uid :: "16 word"
  i_inode_number :: "16 word"
  i_parent_inode_number :: "16 word"
  i_type :: "16 word"
  i_refcount :: "16 word"
  i_name :: "byte list"
  i_pad0 :: "16 word"
  i_size :: "32 word"
  i_block_count :: "32 word"
  i_pad1 :: "32 word"
  i_blocks :: "64 word list"
  i_single_indirect :: "64 word"
  i_double_indirect :: "64 word"
  i_triple_indirect :: "64 word"

record diosfs_directory_entry =
  de_name :: "byte list"
  de_inode_number :: "32 word"
  de_parent_inode_number :: "32 word"
  de_type :: "16 word"
  de_device_number :: "16 word"
  de_size :: "32 word"

record diosfs_byte_offset_indices =
  direct_block_number :: nat
  third_level_block_number :: nat
  second_level_block_number :: nat
  first_level_block_number :: nat
  levels_indirection :: nat

definition wf_inode :: "diosfs_inode \<Rightarrow> bool" where
  "wf_inode i \<longleftrightarrow> length (i_name i) = 128 \<and> length (i_blocks i) = 10"

definition wf_dirent :: "diosfs_directory_entry \<Rightarrow> bool" where
  "wf_dirent e \<longleftrightarrow> length (de_name e) = 128"

definition zero_inode :: diosfs_inode where
  "zero_inode = \<lparr>i_uid = 0, i_inode_number = 0, i_parent_inode_number = 0, i_type = 0, i_refcount = 0,
     i_name = replicate 128 0, i_pad0 = 0, i_size = 0, i_block_count = 0, i_pad1 = 0,
     i_blocks = replicate 10 0, i_single_indirect = 0, i_double_indirect = 0, i_triple_indirect = 0\<rparr>"

section \<open>Encoding\<close>

definition inode_bytes :: "diosfs_inode \<Rightarrow> byte list" where
  "inode_bytes i = word_bytes (i_uid i) @ word_bytes (i_inode_number i) @ word_bytes (i_parent_inode_number i) @
     word_bytes (i_type i) @ word_bytes (i_refcount i) @ i_name i @ word_bytes (i_pad0 i) @
     word_bytes (i_size i) @ word_bytes (i_block_count i) @ word_bytes (i_pad1 i) @
     bytes_of (i_blocks i) @ word_bytes (i_single_indirect i) @ word_bytes (i_double_indirect i) @
     word_bytes (i_triple_indirect i)"

definition bytes_inode :: "byte list \<Rightarrow> diosfs_inode" where
  "bytes_inode b = \<lparr>i_uid = bytes_word (window b 0 2), i_inode_number = bytes_word (window b 2 2),
     i_parent_inode_number = bytes_word (window b 4 2), i_type = bytes_word (window b 6 2),
     i_refcount = bytes_word (window b 8 2), i_name = window b 10 128, i_pad0 = bytes_word (window b 138 2),
     i_size = bytes_word (window b 140 4), i_block_count = bytes_word (window b 144 4),
     i_pad1 = bytes_word (window b 148 4), i_blocks = words_of 10 (window b 152 80),
     i_single_indirect = bytes_word (window b 232 8), i_double_indirect = bytes_word (window b 240 8),
     i_triple_indirect = bytes_word (window b 248 8)\<rparr>"

definition dirent_bytes :: "diosfs_directory_entry \<Rightarrow> byte list" where
  "dirent_bytes e = de_name e @ word_bytes (de_inode_number e) @ word_bytes (de_parent_inode_number e) @
     word_bytes (de_type e) @ word_bytes (de_device_number e) @ word_bytes (de_size e)"

definition bytes_dirent :: "byte list \<Rightarrow> diosfs_directory_entry" where
  "bytes_dirent b = \<lparr>de_name = window b 0 128, de_inode_number = bytes_word (window b 128 4),
     de_parent_inode_number = bytes_word (window b 132 4), de_type = bytes_word (window b 136 2),
     de_device_number = bytes_word (window b 138 2), de_size = bytes_word (window b 140 4)\<rparr>"

text \<open>A buffer viewed as an array of directory entries.\<close>

definition get_dirent :: "byte list \<Rightarrow> nat \<Rightarrow> diosfs_directory_entry" where
  "get_dirent buf i = bytes_dirent (window buf (144 * i) 144)"

definition put_dirent :: "byte list \<Rightarrow> nat \<Rightarrow> diosfs_directory_entry \<Rightarrow> byte list" where
  "put_dirent buf i e = overwrite buf (144 * i) (dirent_bytes e)"

definition bytes_superblock :: "byte list \<Rightarrow> diosfs_superblock" where
  "bytes_superblock b = (let f = (\<lambda>i. unat (get_u64 b i)) in
     \<lparr>s_magic = f 0, s_version = f 1, s_block_size = f 2, s_num_blocks = f 3, s_num_inodes = f 4,
      s_total_size = f 5, s_inode_bitmap_size = f 6, s_block_bitmap_size = f 7,
      s_inode_bitmap_pointers_start = f 8, s_block_bitmap_pointers_start = f 9,
      s_inode_start_pointer = f 10, s_block_start_pointer = f 11\<rparr>)"

section \<open>Block numbers of a file\<close>

definition diosfs_indirection_indices_for_block_number :: "nat \<Rightarrow> diosfs_byte_offset_indices res" where
  "diosfs_indirection_indices_for_block_number block_number =
     (let z = \<lparr>direct_block_number = 0, third_level_block_number = 0, second_level_block_number = 0,
               first_level_block_number = 0, levels_indirection = 0\<rparr>;
          N = NUM_BLOCKS_IN_INDIRECTION_BLOCK; D = NUM_BLOCKS_DOUBLE_INDIRECTION;
          T = NUM_BLOCKS_TRIPLE_INDIRECTION
      in if block_number < NUM_BLOCKS_DIRECT then Inr (z\<lparr>direct_block_number := block_number\<rparr>)
         else if block_number < N + NUM_BLOCKS_DIRECT then
           let b = block_number - NUM_BLOCKS_DIRECT in
           Inr (z\<lparr>levels_indirection := 1, first_level_block_number := b mod N\<rparr>)
         else if block_number < D + N + NUM_BLOCKS_DIRECT then
           let b = block_number - (N + NUM_BLOCKS_DIRECT) in
           Inr (z\<lparr>levels_indirection := 2, second_level_block_number := b div N,
                  first_level_block_number := b mod N\<rparr>)
         else if block_number < T + D + N + NUM_BLOCKS_DIRECT then
           let b = block_number - (D + N + NUM_BLOCKS_DIRECT); t = b div D in
           Inr (z\<lparr>levels_indirection := 3, third_level_block_number := t,
                  second_level_block_number := (b - t * D) div N, first_level_block_number := b mod N\<rparr>)
         else Inl (Panic ''diosfs_indirection_indices_for_block_number invalid block number''))"

text \<open>The block of the file a set of indices stands for.\<close>

definition block_of_indices :: "diosfs_byte_offset_indices \<Rightarrow> nat" where
  "block_of_indices ix =
     (if levels_indirection ix = 0 then direct_block_number ix
      else if levels_indirection ix = 1 then 10 + first_level_block_number ix
      else if levels_indirection ix = 2 then 138 + 128 * second_level_block_number ix + first_level_block_number ix
      else 16522 + 16384 * third_level_block_number ix + 128 * second_level_block_number ix +
        first_level_block_number ix)"

definition demo_inode :: diosfs_inode where
  "demo_inode = zero_inode\<lparr>i_inode_number := 5, i_type := VNODE_FILE, i_size := 1024, i_block_count := 1,
     i_blocks := 7 # replicate 9 0\<rparr>"

section \<open>Lengths and round trips\<close>

lemma length_inode_bytes [simp]: "wf_inode i \<Longrightarrow> length (inode_bytes i) = 256"
  by (simp add: inode_bytes_def wf_inode_def)

lemma length_dirent_bytes [simp]: "wf_dirent e \<Longrightarrow> length (dirent_bytes e) = 144"
  by (simp add: dirent_bytes_def wf_dirent_def)

lemma wf_zero_inode [simp]: "wf_inode zero_inode"
  by (simp add: wf_inode_def zero_inode_def)

lemma wf_bytes_inode [simp]: "length b = 256 \<Longrightarrow> wf_inode (bytes_inode b)"
  by (simp add: wf_inode_def bytes_inode_def)

lemma wf_bytes_dirent [simp]: "length b = 144 \<Longrightarrow> wf_dirent (bytes_dirent b)"
  by (simp add: wf_dirent_def bytes_dirent_def)

lemma bytes_inode_inode_bytes: "wf_inode i \<Longrightarrow> bytes_inode (inode_bytes i) = i"
  using words_of_bytes_of [of "i_blocks i"]
  by (simp add: wf_inode_def bytes_inode_def inode_bytes_def window_def bytes_word_word_bytes)

lemma bytes_dirent_dirent_bytes: "wf_dirent e \<Longrightarrow> bytes_dirent (dirent_bytes e) = e"
  by (simp add: wf_dirent_def bytes_dirent_def dirent_bytes_def window_def bytes_word_word_bytes)

lemma window_all: "length b = n \<Longrightarrow> window b 0 n = b"
  by (simp add: window_def)

lemma dirent_bytes_bytes_dirent:
  assumes "length b = 144"
  shows "dirent_bytes (bytes_dirent b) = b"
proof -
  have "b = window b 0 128 @ window b 128 4 @ window b 132 4 @ window b 136 2 @ window b 138 2 @ window b 140 4"
    using window_all [OF assms] window_add [of b 0 128 16] window_add [of b 128 4 12]
      window_add [of b 132 4 8] window_add [of b 136 2 6] window_add [of b 138 2 4] by simp
  then show ?thesis using assms by (simp add: dirent_bytes_def bytes_dirent_def word_bytes_bytes_word)
qed

lemma inode_bytes_bytes_inode:
  assumes "length b = 256"
  shows "inode_bytes (bytes_inode b) = b"
proof -
  have w: "b = window b 0 2 @ window b 2 2 @ window b 4 2 @ window b 6 2 @ window b 8 2 @ window b 10 128 @
      window b 138 2 @ window b 140 4 @ window b 144 4 @ window b 148 4 @ window b 152 80 @
      window b 232 8 @ window b 240 8 @ window b 248 8"
    using window_all [OF assms] window_add [of b 0 2 254, unfolded add_0] window_add [of b 2 2 252] window_add [of b 4 2 250]
      window_add [of b 6 2 248] window_add [of b 8 2 246] window_add [of b 10 128 118]
      window_add [of b 138 2 116] window_add [of b 140 4 112] window_add [of b 144 4 108]
      window_add [of b 148 4 104] window_add [of b 152 80 24] window_add [of b 232 8 16]
      window_add [of b 240 8 8] by simp
  show ?thesis
    by (rule trans [OF _ w [symmetric]]) (simp add: assms inode_bytes_def bytes_inode_def word_bytes_bytes_word bytes_of_words_of)
qed

lemma get_put_dirent_same:
  "144 * i + 144 \<le> length buf \<Longrightarrow> wf_dirent e \<Longrightarrow> get_dirent (put_dirent buf i e) i = e"
  by (simp add: get_dirent_def put_dirent_def window_overwrite_same bytes_dirent_dirent_bytes)

lemma get_put_dirent_other:
  assumes "144 * i + 144 \<le> length buf" "144 * j + 144 \<le> length buf" "wf_dirent e" "i \<noteq> j"
  shows "get_dirent (put_dirent buf i e) j = get_dirent buf j"
proof -
  from assms(4) have "j < i \<or> i < j" by auto
  then have "144 * j + 144 \<le> 144 * i \<or> 144 * i + 144 \<le> 144 * j" by auto
  then show ?thesis using assms by (simp add: get_dirent_def put_dirent_def window_overwrite_other)
qed

lemma length_put_dirent [simp]:
  "144 * i + 144 \<le> length buf \<Longrightarrow> wf_dirent e \<Longrightarrow> length (put_dirent buf i e) = length buf"
  by (simp add: put_dirent_def)

section \<open>Properties\<close>

text \<open>Copying a \<^verbatim>\<open>struct diosfs_inode\<close> into a disk block and back loses nothing, and conversely every
  256 bytes read from disk are the bytes of the inode they decode to.\<close>

theorem inode_round_trip:
  assumes "wf_inode i" and "length b = 256"
  shows "bytes_inode (inode_bytes i) = i \<and> length (inode_bytes i) = 256 \<and>
    inode_bytes (bytes_inode b) = b \<and> wf_inode (bytes_inode b)"
  using assms by (simp add: bytes_inode_inode_bytes inode_bytes_bytes_inode)

theorem inode_round_trip_witness:
  "bytes_inode (inode_bytes demo_inode) = demo_inode \<and> inode_bytes (bytes_inode (replicate 256 9)) = replicate 256 9"
  using inode_round_trip [of demo_inode "replicate 256 9"]
  by (simp add: demo_inode_def wf_inode_def zero_inode_def)

text \<open>The index computation is total on the blocks a file can have, stays inside the pointer arrays at every
  level (so that the 16-bit fields hold the indices), identifies the block, and panics on every larger
  block number.\<close>

theorem indirection_indices_correct:
  "(if n < 10 + 128 + 128 * 128 + 128 * 128 * 128 then
      \<exists>ix. diosfs_indirection_indices_for_block_number n = Inr ix \<and> block_of_indices ix = n \<and>
        levels_indirection ix \<le> 3 \<and> direct_block_number ix < 10 \<and> first_level_block_number ix < 128 \<and>
        second_level_block_number ix < 128 \<and> third_level_block_number ix < 128
    else diosfs_indirection_indices_for_block_number n =
      Inl (Panic ''diosfs_indirection_indices_for_block_number invalid block number''))"
proof -
  have b: "b div 16384 * 16384 + (b - b div 16384 * 16384) div 128 * 128 + b mod 128 = b" for b :: nat
  proof -
    have "b - b div 16384 * 16384 = b mod 16384" by (simp add: minus_div_mult_eq_mod)
    moreover have "b mod 16384 mod 128 = b mod 128" by (simp add: mod_mod_cancel)
    ultimately show ?thesis
      by (metis add.assoc div_mult_mod_eq)
  qed
  have l: "(b - b div 16384 * 16384) div 128 < 128" for b :: nat
    by (simp add: minus_div_mult_eq_mod div_less_iff_less_mult)
  consider "n < 10" | "10 \<le> n" "n < 138" | "138 \<le> n" "n < 16522" | "16522 \<le> n" "n < 2113674" | "2113674 \<le> n"
    by linarith
  then show ?thesis
  proof cases
    case 1
    then show ?thesis
      by (simp add: diosfs_indirection_indices_for_block_number_def diosfs_constants block_of_indices_def)
  next
    case 2
    then show ?thesis
      by (simp add: diosfs_indirection_indices_for_block_number_def diosfs_constants block_of_indices_def Let_def)
  next
    case 3
    have "138 + 128 * ((n - 138) div 128) + (n - 138) mod 128 = n"
      using 3 by (simp only: add.assoc mult_div_mod_eq)
    moreover have "(n - 138) div 128 < 128" using 3 by (simp add: div_less_iff_less_mult)
    ultimately show ?thesis using 3
      by (simp add: diosfs_indirection_indices_for_block_number_def diosfs_constants block_of_indices_def Let_def)
  next
    case 4
    have "(n - 16522) div 16384 < 128" using 4 by (simp add: div_less_iff_less_mult)
    moreover have "16522 + 16384 * ((n - 16522) div 16384) +
        128 * ((n - 16522 - (n - 16522) div 16384 * 16384) div 128) + (n - 16522) mod 128 = n"
      using 4 b [of "n - 16522"] by (simp only: add.assoc mult.commute [of 16384] mult.commute [of 128] le_add_diff_inverse)
    ultimately show ?thesis using 4 l [of "n - 16522"]
      by (simp add: diosfs_indirection_indices_for_block_number_def diosfs_constants block_of_indices_def Let_def)
  next
    case 5
    then show ?thesis
      by (simp add: diosfs_indirection_indices_for_block_number_def diosfs_constants Let_def)
  qed
qed

end
