(* ===== verification/DiosFS_Disk.thy ===== *)
theory DiosFS_Disk
  imports DiosFS_Layout Block_Device
begin

text \<open>
  The lowest layer of \<^verbatim>\<open>kernel/src/filesystem/diosfs.c\<close>: reading and writing inodes and data blocks,
  and allocating and freeing them in the bitmaps. The operations work through the function table of
  any block device. The abstract state of a volume, \<open>volume\<close>, has the inode table, the data blocks and
  the two bitmaps; each operation is proved to change exactly the part it should.
\<close>

section \<open>State\<close>

text \<open>
  \<^verbatim>\<open>struct diosfs_filesystem_context\<close>: the superblock in memory and the device's operations.
  \<open>fs_kmalloc n\<close> are the bytes found in \<open>n\<close> bytes of freshly allocated, uninitialised heap memory.
  The lock is left out: every function below runs with it held.
\<close>

record 'd diosfs_filesystem_context =
  fs_superblock :: diosfs_superblock
  fs_ops :: "'d block_device_ops"
  fs_kmalloc :: "nat \<Rightarrow> byte list"
  fs_device_minor :: nat

definition BITMAP_TYPE_BLOCK :: nat where "BITMAP_TYPE_BLOCK = 0"

definition BITMAP_TYPE_INODE :: nat where "BITMAP_TYPE_INODE = 1"

definition DIOSFS_SUCCESS :: nat where "DIOSFS_SUCCESS = 0"

section \<open>Operations\<close>

text \<open>
  \<^verbatim>\<open>HANDLE_DISK_ERROR\<close> followed by a panic: the known codes are printed, any other panics on its own.
\<close>

definition disk_error :: "nat \<Rightarrow> string \<Rightarrow> 'a res" where
  "disk_error ret msg =
     (if ret \<in> {4, 8, 32, 48, 64} then Inl (Panic msg)
      else Inl (Panic ''An unexpected result was returned from block driver''))"

text \<open>
  \<^verbatim>\<open>diosfs_write_block_by_number\<close> and \<^verbatim>\<open>diosfs_read_block_by_number\<close> clamp the offset and the size they are
  given and then use neither: they transfer one whole block between the buffer and the device.
\<close>

definition diosfs_write_block_by_number ::
    "'d diosfs_filesystem_context \<Rightarrow> nat \<Rightarrow> byte list \<Rightarrow> nat \<Rightarrow> nat \<Rightarrow> nat \<Rightarrow> 'd \<Rightarrow> 'd res" where
  "diosfs_write_block_by_number fs block_number buffer pos offset write_size d =
     bindR (block_write (fs_ops fs) (s_block_start_pointer (fs_superblock fs) + block_number) 1 buffer pos d) (\<lambda>(ret, d).
       if ret \<noteq> DIOSFS_SUCCESS then disk_error ret ''diosfs_write_block_by_number'' else Inr d)"

definition diosfs_read_block_by_number ::
    "'d diosfs_filesystem_context \<Rightarrow> nat \<Rightarrow> byte list \<Rightarrow> nat \<Rightarrow> nat \<Rightarrow> nat \<Rightarrow> 'd \<Rightarrow> byte list res" where
  "diosfs_read_block_by_number fs block_number buffer pos offset read_size d =
     bindR (block_read (fs_ops fs) (s_block_start_pointer (fs_superblock fs) + block_number) 1 buffer pos d) (\<lambda>(ret, buffer).
       if ret \<noteq> DIOSFS_SUCCESS then disk_error ret ''diosfs_read_block_by_number'' else Inr buffer)"

definition diosfs_read_inode :: "'d diosfs_filesystem_context \<Rightarrow> nat \<Rightarrow> 'd \<Rightarrow> diosfs_inode res" where
  "diosfs_read_inode fs inode_number d =
     (let inode_number_in_block = inode_number mod NUM_INODES_PER_BLOCK;
          block_number = s_inode_start_pointer (fs_superblock fs) + inode_number div NUM_INODES_PER_BLOCK;
          block = replicate (s_block_size (fs_superblock fs)) 0
      in bindR (block_read (fs_ops fs) block_number 1 block 0 d) (\<lambda>(ret, block).
        if ret \<noteq> DIOSFS_SUCCESS then disk_error ret ''diosfs_write_inode''
        else if length block < inode_number_in_block * 256 + 256 then Inl OutOfBounds
        else Inr (bytes_inode (window block (inode_number_in_block * 256) 256))))"

text \<open>The status of the read in \<^verbatim>\<open>diosfs_write_inode\<close> is not looked at.\<close>

definition diosfs_write_inode :: "'d diosfs_filesystem_context \<Rightarrow> diosfs_inode \<Rightarrow> 'd \<Rightarrow> 'd res" where
  "diosfs_write_inode fs inode d =
     (let inode_number = unat (i_inode_number inode);
          inode_number_in_block = inode_number mod NUM_INODES_PER_BLOCK;
          block_number = s_inode_start_pointer (fs_superblock fs) + inode_number div NUM_INODES_PER_BLOCK;
          block = replicate (s_block_size (fs_superblock fs)) 0
      in bindR (block_read (fs_ops fs) block_number 1 block 0 d) (\<lambda>(_, block).
        if length block < inode_number_in_block * 256 + 256 then Inl OutOfBounds
        else bindR (block_write (fs_ops fs) block_number 1
                     (overwrite block (inode_number_in_block * 256) (inode_bytes inode)) 0 d) (\<lambda>(ret, d).
          if ret \<noteq> DIOSFS_SUCCESS then disk_error ret ''diosfs_write_inode'' else Inr d)))"

text \<open>
  The inner loop of the bitmap scans, \<^verbatim>\<open>for (i = 0; i <= 8; i++)\<close>: \<^verbatim>\<open>char\<close> is signed, so the byte is
  sign-extended before the bit is tested.
\<close>

definition first_clear :: "byte \<Rightarrow> nat option" where
  "first_clear c = find (\<lambda>i. \<not> bit (sint c) i) [0..<9]"

definition roll :: "nat \<Rightarrow> nat \<times> nat \<Rightarrow> nat \<times> nat" where
  "roll bs p = (if snd p = bs then (fst p + 1, 0) else p)"

text \<open>
  The outer loops, over the bytes of the buffer from the current position on. The comparison with
  \<^verbatim>\<open>0xFF\<close> is one of an \<^verbatim>\<open>int\<close> with the sign-extended byte. The end of the list is the end of the buffer.
\<close>

fun scan_inode_bitmap :: "nat \<Rightarrow> nat \<Rightarrow> nat \<Rightarrow> byte list \<Rightarrow> (nat \<times> nat \<times> nat) res" where
  "scan_inode_bitmap bs block byte [] = Inl OutOfBounds"
| "scan_inode_bitmap bs block byte (c # cs) =
     (if sint c \<noteq> 255 then
        (case first_clear c of
           Some i \<Rightarrow> Inr (block, byte, i)
         | None \<Rightarrow>
             let (block, byte) = roll bs (block, byte + 1) in
             if DIOSFS_NUM_INODE_POINTER_BLOCKS < block
             then Inl (Panic ''diosfs_get_free_inode_and_mark_bitmap: No free inodes'')
             else let (block, byte) = roll bs (block, byte) in scan_inode_bitmap bs block byte cs)
      else let (block, byte) = roll bs (block, byte + 1) in scan_inode_bitmap bs block byte cs)"

fun scan_block_bitmap :: "nat \<Rightarrow> nat \<Rightarrow> nat \<Rightarrow> byte list \<Rightarrow> (nat \<times> nat \<times> nat) res" where
  "scan_block_bitmap bs block byte [] = Inl OutOfBounds"
| "scan_block_bitmap bs block byte (c # cs) =
     (if sint c \<noteq> 255 then
        (case first_clear c of
           Some i \<Rightarrow> Inr (block, byte, i)
         | None \<Rightarrow>
             let (block, byte) = roll bs (block, byte + 1) in
             if DIOSFS_NUM_BLOCK_POINTER_BLOCKS < block
             then Inl (Panic ''diosfs_get_free_inode_and_mark_bitmap: No free inodes'')
             else scan_block_bitmap bs block byte cs)
      else scan_block_bitmap bs block (byte + 1) cs)"

text \<open>The bit is set in \<^verbatim>\<open>buffer[byte]\<close>, whatever the block it was found in.\<close>

definition diosfs_get_free_inode_and_mark_bitmap ::
    "'d diosfs_filesystem_context \<Rightarrow> 'd \<Rightarrow> (diosfs_inode \<times> 'd) res" where
  "diosfs_get_free_inode_and_mark_bitmap fs d =
     (let sb = fs_superblock fs; bs = s_block_size sb; buffer = fs_kmalloc fs (4096 * 16) in
      bindR (block_read (fs_ops fs) (s_inode_bitmap_pointers_start sb) (s_inode_bitmap_size sb) buffer 0 d) (\<lambda>(ret, buffer).
        if ret \<noteq> DIOSFS_SUCCESS then disk_error ret ''diosfs_get_free_inode_and_mark_bitmap ramdisk read failed''
        else bindR (scan_inode_bitmap bs 0 0 buffer) (\<lambda>(block, byte, i).
          let buffer = buffer[byte := (buffer ! byte) OR push_bit i 1];
              inode_number = block * bs * 8 + byte * 8 + i;
              inode = zero_inode\<lparr>i_inode_number := word_of_nat inode_number\<rparr>
          in bindR (block_write (fs_ops fs) (s_inode_bitmap_pointers_start sb) (s_inode_bitmap_size sb) buffer 0 d) (\<lambda>(ret, d).
            if ret \<noteq> DIOSFS_SUCCESS then disk_error ret ''diosfs_get_free_inode_and_mark_bitmap ramdisk read failed''
            else Inr (inode, d)))))"

text \<open>The number of blocks transferred is \<^verbatim>\<open>block_bitmap_pointers_start\<close>.\<close>

definition diosfs_get_free_block_and_mark_bitmap ::
    "'d diosfs_filesystem_context \<Rightarrow> 'd \<Rightarrow> (nat \<times> 'd) res" where
  "diosfs_get_free_block_and_mark_bitmap fs d =
     (let sb = fs_superblock fs; bs = s_block_size sb; buffer = fs_kmalloc fs (s_block_bitmap_size sb * bs) in
      bindR (block_read (fs_ops fs) (s_block_bitmap_pointers_start sb) (s_block_bitmap_pointers_start sb) buffer 0 d) (\<lambda>(ret, buffer).
        if ret \<noteq> DIOSFS_SUCCESS then disk_error ret ''diosfs_get_free_inode_and_mark_bitmap ramdisk read failed''
        else bindR (scan_block_bitmap bs 0 0 buffer) (\<lambda>(block, byte, i).
          let p = block * bs + byte;
              buffer = buffer[p := (buffer ! p) OR push_bit i 1];
              block_number = block * bs * 8 + byte * 8 + i
          in bindR (block_write (fs_ops fs) (s_block_bitmap_pointers_start sb) (s_block_bitmap_pointers_start sb) buffer 0 d) (\<lambda>(ret, d).
            if ret \<noteq> DIOSFS_SUCCESS then disk_error ret ''diosfs_get_free_inode_and_mark_bitmap''
            else Inr (block_number, d)))))"

text \<open>The statuses of the read and of the write are not looked at.\<close>

definition diosfs_clear_bitmap :: "'d diosfs_filesystem_context \<Rightarrow> nat \<Rightarrow> nat \<Rightarrow> 'd \<Rightarrow> 'd res" where
  "diosfs_clear_bitmap fs type number d =
     (if type \<noteq> BITMAP_TYPE_BLOCK \<and> type \<noteq> BITMAP_TYPE_INODE then Inl (Panic ''Unknown type diosfs_clear_bitmap'')
      else let sb = fs_superblock fs;
          block_to_read = number div (s_block_size sb * 8);
          block = (if type = BITMAP_TYPE_BLOCK then s_block_bitmap_pointers_start sb
                   else s_inode_bitmap_pointers_start sb) + block_to_read;
          buffer = replicate 4096 0
      in bindR (block_read (fs_ops fs) block 1 buffer 0 d) (\<lambda>(_, buffer).
        if length buffer \<le> number div 8 then Inl OutOfBounds
        else let buffer = buffer[number div 8 := (buffer ! (number div 8)) AND NOT (push_bit (number mod 8) 1)] in
          bindR (block_write (fs_ops fs) block 1 buffer 0 d) (\<lambda>(_, d). Inr d)))"

definition diosfs_free_block_and_mark_bitmap :: "'d diosfs_filesystem_context \<Rightarrow> nat \<Rightarrow> 'd \<Rightarrow> 'd res" where
  "diosfs_free_block_and_mark_bitmap fs block_number d =
     (let bs = s_block_size (fs_superblock fs); buffer = overwrite (fs_kmalloc fs 4096) 0 (replicate bs 0) in
      bindR (diosfs_write_block_by_number fs block_number buffer 0 0 bs d) (\<lambda>d.
        diosfs_clear_bitmap fs BITMAP_TYPE_BLOCK block_number d))"

text \<open>The buffer written to the block is never initialised.\<close>

definition diosfs_free_inode_and_mark_bitmap :: "'d diosfs_filesystem_context \<Rightarrow> nat \<Rightarrow> 'd \<Rightarrow> 'd res" where
  "diosfs_free_inode_and_mark_bitmap fs inode_number d =
     bindR (diosfs_read_inode fs inode_number d) (\<lambda>_.
     bindR (diosfs_write_inode fs (zero_inode\<lparr>i_inode_number := word_of_nat inode_number\<rparr>) d) (\<lambda>d.
       let inode_number_block = inode_number div 4; offset = inode_number mod 4; buffer = fs_kmalloc fs 4096 in
       bindR (diosfs_write_block_by_number fs (s_inode_start_pointer (fs_superblock fs) + inode_number_block)
                buffer 0 offset 256 d) (\<lambda>d.
         diosfs_clear_bitmap fs BITMAP_TYPE_INODE inode_number d)))"

section \<open>The abstract volume\<close>

record volume =
  inodes :: "nat \<Rightarrow> diosfs_inode"
  blocks :: "nat \<Rightarrow> byte list"
  inode_bits :: "nat \<Rightarrow> bool"
  block_bits :: "nat \<Rightarrow> bool"

text \<open>Bit \<open>n\<close> of a bitmap that starts at block \<open>start\<close>.\<close>

definition map_bit :: "(nat \<Rightarrow> byte list) \<Rightarrow> nat \<Rightarrow> nat \<Rightarrow> bool" where
  "map_bit img start n = bit (img (start + n div 8192) ! (n mod 8192 div 8)) (n mod 8)"

text \<open>Bit \<open>n\<close> of a buffer.\<close>

definition buf_bit :: "byte list \<Rightarrow> nat \<Rightarrow> bool" where
  "buf_bit buf n = bit (buf ! (n div 8)) (n mod 8)"

text \<open>What a disk holds; outside the tables the functions have a fixed value.\<close>

definition view :: "diosfs_superblock \<Rightarrow> (nat \<Rightarrow> byte list) \<Rightarrow> volume" where
  "view sb img =
     \<lparr>inodes = (\<lambda>n. if n < s_num_inodes sb
        then bytes_inode (window (img (s_inode_start_pointer sb + n div 4)) (n mod 4 * 256) 256) else zero_inode),
      blocks = (\<lambda>n. if n < s_num_blocks sb then img (s_block_start_pointer sb + n) else []),
      inode_bits = (\<lambda>n. n < 8192 * s_inode_bitmap_size sb \<longrightarrow> map_bit img (s_inode_bitmap_pointers_start sb) n),
      block_bits = (\<lambda>n. n < 8192 * s_block_bitmap_size sb \<longrightarrow> map_bit img (s_block_bitmap_pointers_start sb) n)\<rparr>"

text \<open>
  The areas of the disk do not overlap and lie inside it, the bitmaps cover the tables, and the
  transfers of the allocators fit the device's limit; the block allocator's transfer, whose length is
  the bitmap's start, stays inside the bitmap.
\<close>

definition layout_ok :: "diosfs_superblock \<Rightarrow> nat \<Rightarrow> nat \<Rightarrow> bool" where
  "layout_ok sb nblk io_max \<longleftrightarrow>
     s_block_size sb = 1024 \<and>
     s_inode_bitmap_pointers_start sb + s_inode_bitmap_size sb \<le> s_block_bitmap_pointers_start sb \<and>
     s_block_bitmap_pointers_start sb \<le> s_block_bitmap_size sb \<and>
     s_block_bitmap_pointers_start sb + s_block_bitmap_size sb \<le> s_inode_start_pointer sb \<and>
     s_inode_start_pointer sb + (s_num_inodes sb + 3) div 4 \<le> s_block_start_pointer sb \<and>
     s_block_start_pointer sb + s_num_blocks sb \<le> nblk \<and>
     0 < s_inode_bitmap_size sb \<and> s_inode_bitmap_size sb \<le> 16 \<and> s_block_bitmap_size sb \<le> 128 \<and>
     s_inode_bitmap_size sb * 1024 \<le> io_max \<and> s_block_bitmap_pointers_start sb * 1024 \<le> io_max"

definition volume_ok :: "'d diosfs_filesystem_context \<Rightarrow> 'd block_device_ops \<Rightarrow> nat \<Rightarrow> nat \<Rightarrow> bool" where
  "volume_ok fs ops nblk io_max \<longleftrightarrow>
     fs_ops fs = ops \<and> layout_ok (fs_superblock fs) nblk io_max \<and> (\<forall>n. n \<le> length (fs_kmalloc fs n))"

section \<open>Scanning a bitmap\<close>

lemma bit_sint_byte: "i < 8 \<Longrightarrow> bit (sint (c :: byte)) i \<longleftrightarrow> bit c i"
  by (auto simp: bit_sint_iff dest: bit_imp_le_length)

lemma bit_sint_byte_8: "bit (sint (c :: byte)) 8 \<longleftrightarrow> bit c 7"
  by (auto simp: bit_sint_iff dest: bit_imp_le_length)

lemma sint_byte_not_255: "sint (c :: byte) \<noteq> 255"
  using sint_lt [of c] by auto

lemma first_clear_unfold: "first_clear c = find (\<lambda>i. \<not> bit c i) [0..<8]"
proof -
  have "find (\<lambda>i. \<not> bit (sint c) i) [0..<8] = find (\<lambda>i. \<not> bit c i) [0..<8]"
    by (rule find_cong) (auto simp: bit_sint_byte)
  moreover have "find (\<lambda>i. \<not> bit c i) [0..<8] = None \<longrightarrow> bit (sint c) 8"
    by (auto simp: bit_sint_byte_8 find_None_iff)
  moreover have "[0..<9] = [0..<8] @ [8 :: nat]" by (simp add: upt_rec)
  moreover have "find P (xs @ [x]) = (case find P xs of None \<Rightarrow> if P x then Some x else None | Some y \<Rightarrow> Some y)"
    for P and xs and x :: nat
    by (induction xs) auto
  ultimately show ?thesis unfolding first_clear_def by (auto split: option.splits)
qed

lemma first_clear_None: "first_clear c = None \<longleftrightarrow> (\<forall>i<8. bit c i)"
  by (auto simp: first_clear_unfold find_None_iff)

lemma first_clear_Some: "first_clear c = Some i \<Longrightarrow> i < 8 \<and> \<not> bit c i \<and> (\<forall>j<i. bit c j)"
  by (auto simp: first_clear_unfold find_Some_iff)

text \<open>Both scans find the first byte with a clear bit.\<close>

lemma scan_block_bitmap_finds:
  assumes "0 < bs" and "byte < bs" and "p < length cs" and "first_clear (cs ! p) = Some i"
    and "\<forall>q<p. first_clear (cs ! q) = None" and "(block * bs + byte + p) div bs \<le> DIOSFS_NUM_BLOCK_POINTER_BLOCKS"
  shows "scan_block_bitmap bs block byte cs =
    Inr ((block * bs + byte + p) div bs, (block * bs + byte + p) mod bs, i)"
  using assms(2-)
proof (induction cs arbitrary: block byte p)
  case Nil
  then show ?case by simp
next
  case (Cons c cs)
  show ?case
  proof (cases p)
    case 0
    with Cons.prems assms(1) show ?thesis by (simp add: sint_byte_not_255)
  next
    case (Suc q)
    with Cons.prems have c: "first_clear c = None" by (metis nth_Cons_0 zero_less_Suc)
    obtain b y where r: "roll bs (block, byte + 1) = (b, y)" by (cases "roll bs (block, byte + 1)")
    then have bq: "b * bs + y = block * bs + byte + 1" "y < bs"
      using Cons.prems(1) by (auto simp: roll_def split: if_splits)
    have eq: "block * bs + byte + p = b * bs + y + q" using bq Suc by simp
    have "b * bs div bs \<le> (b * bs + y + q) div bs" by (rule div_le_mono) simp
    then have "b \<le> (b * bs + y + q) div bs" using assms(1) by simp
    then have "b \<le> DIOSFS_NUM_BLOCK_POINTER_BLOCKS" using Cons.prems(5) eq by simp
    moreover have "\<forall>q'<q. first_clear (cs ! q') = None" using Cons.prems(4) Suc by auto
    ultimately show ?thesis
      using Cons.IH [of y q b] Cons.prems Suc bq r c eq by (simp add: sint_byte_not_255)
  qed
qed

lemma scan_inode_bitmap_finds:
  assumes "0 < bs" and "byte < bs" and "p < length cs" and "first_clear (cs ! p) = Some i"
    and "\<forall>q<p. first_clear (cs ! q) = None" and "(block * bs + byte + p) div bs \<le> DIOSFS_NUM_INODE_POINTER_BLOCKS"
  shows "scan_inode_bitmap bs block byte cs =
    Inr ((block * bs + byte + p) div bs, (block * bs + byte + p) mod bs, i)"
  using assms(2-)
proof (induction cs arbitrary: block byte p)
  case Nil
  then show ?case by simp
next
  case (Cons c cs)
  show ?case
  proof (cases p)
    case 0
    with Cons.prems assms(1) show ?thesis by (simp add: sint_byte_not_255)
  next
    case (Suc q)
    with Cons.prems have c: "first_clear c = None" by (metis nth_Cons_0 zero_less_Suc)
    obtain b y where r: "roll bs (block, byte + 1) = (b, y)" by (cases "roll bs (block, byte + 1)")
    then have bq: "b * bs + y = block * bs + byte + 1" "y < bs"
      using Cons.prems(1) by (auto simp: roll_def split: if_splits)
    then have r2: "roll bs (b, y) = (b, y)" by (simp add: roll_def)
    have eq: "block * bs + byte + p = b * bs + y + q" using bq Suc by simp
    have "b * bs div bs \<le> (b * bs + y + q) div bs" by (rule div_le_mono) simp
    then have "b \<le> (b * bs + y + q) div bs" using assms(1) by simp
    then have "b \<le> DIOSFS_NUM_INODE_POINTER_BLOCKS" using Cons.prems(5) eq by simp
    moreover have "\<forall>q'<q. first_clear (cs ! q') = None" using Cons.prems(4) Suc by auto
    ultimately show ?thesis
      using Cons.IH [of y q b] Cons.prems Suc bq r r2 c eq by (simp add: sint_byte_not_255)
  qed
qed

text \<open>The byte that holds the first clear bit of a buffer.\<close>

lemma least_clear_byte:
  assumes "\<not> buf_bit buf n" and "\<forall>m<n. buf_bit buf m"
  shows "first_clear (buf ! (n div 8)) = Some (n mod 8)" and "\<forall>q < n div 8. first_clear (buf ! q) = None"
proof -
  let ?c = "buf ! (n div 8)"
  have below: "bit ?c j" if "j < n mod 8" for j
  proof -
    have "j < 8" using that by (meson less_trans mod_less_divisor zero_less_numeral)
    moreover have "8 * (n div 8) + j < n" using that by (metis add_less_cancel_left mult_div_mod_eq)
    ultimately show ?thesis using assms(2) [rule_format, of "8 * (n div 8) + j"] by (simp add: buf_bit_def)
  qed
  moreover have nb: "\<not> bit ?c (n mod 8)" using assms(1) by (simp add: buf_bit_def)
  ultimately have "first_clear ?c \<noteq> None"
    by (simp add: first_clear_None) (metis mod_less_divisor zero_less_numeral)
  then obtain i where i: "first_clear ?c = Some i" by auto
  with first_clear_Some [OF i] below nb have "i = n mod 8" by (metis linorder_neqE_nat)
  with i show "first_clear ?c = Some (n mod 8)" by simp
  show "\<forall>q < n div 8. first_clear (buf ! q) = None"
  proof (intro allI impI)
    fix q assume q: "q < n div 8"
    have "bit (buf ! q) j" if "j < 8" for j
    proof -
      have "8 * q + j < n" using q that by linarith
      then show ?thesis using assms(2) [rule_format, of "8 * q + j"] that by (simp add: buf_bit_def)
    qed
    then show "first_clear (buf ! q) = None" by (simp add: first_clear_None)
  qed
qed

lemma bit_mask_byte: "bit (push_bit (n mod 8) 1 :: byte) (m mod 8) \<longleftrightarrow> m mod 8 = n mod 8"
  using mod_less_divisor [of 8 m] by (auto simp: bit_exp_iff possible_bit_def)

lemma buf_bit_set:
  assumes "n div 8 < length buf"
  shows "buf_bit (buf[n div 8 := (buf ! (n div 8)) OR push_bit (n mod 8) 1]) m \<longleftrightarrow> m = n \<or> buf_bit buf m"
proof (cases "m div 8 = n div 8")
  case True
  then have "m mod 8 = n mod 8 \<longleftrightarrow> m = n" by (metis div_mult_mod_eq)
  moreover have "bit (push_bit (n mod 8) 1 :: byte) (m mod 8) \<longleftrightarrow> m mod 8 = n mod 8"
    by (rule bit_mask_byte)
  ultimately show ?thesis using True assms by (auto simp: buf_bit_def bit_or_iff)
next
  case False
  then show ?thesis using assms by (auto simp: buf_bit_def)
qed

lemma buf_bit_clear:
  assumes "n div 8 < length buf"
  shows "buf_bit (buf[n div 8 := (buf ! (n div 8)) AND NOT (push_bit (n mod 8) 1)]) m \<longleftrightarrow> m \<noteq> n \<and> buf_bit buf m"
proof (cases "m div 8 = n div 8")
  case True
  then have "m mod 8 = n mod 8 \<longleftrightarrow> m = n" by (metis div_mult_mod_eq)
  moreover have "bit (push_bit (n mod 8) 1 :: byte) (m mod 8) \<longleftrightarrow> m mod 8 = n mod 8"
    by (rule bit_mask_byte)
  ultimately show ?thesis using True assms
    by (auto simp: buf_bit_def bit_and_iff bit_not_iff dest: bit_imp_le_length)
next
  case False
  then show ?thesis using assms by (auto simp: buf_bit_def)
qed

end
