(* ===== verification/DiosFS_Volume.thy ===== *)
theory DiosFS_Volume
  imports DiosFS_Disk Ramdisk
begin

text \<open>
  The operations of \<open>DiosFS_Disk\<close> on any block device that keeps the contract \<open>block_device\<close>: each of them
  changes the abstract volume in exactly one place, or returns what the volume holds. The contract is
  then instantiated with the RAM disk driver.
\<close>

section \<open>How a write to the disk changes the volume\<close>

lemma layout_inode_index: "layout_ok sb nblk io \<Longrightarrow> m < s_num_inodes sb \<Longrightarrow>
    s_inode_start_pointer sb \<le> s_inode_start_pointer sb + m div 4 \<and>
    s_inode_start_pointer sb + m div 4 < s_block_start_pointer sb"
proof -
  assume l: "layout_ok sb nblk io" and m: "m < s_num_inodes sb"
  have "m div 4 < (s_num_inodes sb + 3) div 4" using m by linarith
  with l show ?thesis by (simp add: layout_ok_def)
qed

lemma div_bitmap_less: "(m :: nat) < 8192 * k \<Longrightarrow> m div 8192 < k"
  by (simp add: div_less_iff_less_mult mult.commute)

lemma layout_ibit_index: "layout_ok sb nblk io \<Longrightarrow> m < 8192 * s_inode_bitmap_size sb \<Longrightarrow>
    s_inode_bitmap_pointers_start sb + m div 8192 < s_block_bitmap_pointers_start sb"
  using div_bitmap_less [of m "s_inode_bitmap_size sb"] by (simp add: layout_ok_def)

lemma layout_bbit_index: "layout_ok sb nblk io \<Longrightarrow> m < 8192 * s_block_bitmap_size sb \<Longrightarrow>
    s_block_bitmap_pointers_start sb + m div 8192 < s_inode_start_pointer sb"
  using div_bitmap_less [of m "s_block_bitmap_size sb"] by (simp add: layout_ok_def)

lemma layout_order:
  "layout_ok sb nblk io \<Longrightarrow> s_inode_bitmap_pointers_start sb \<le> s_block_bitmap_pointers_start sb"
  "layout_ok sb nblk io \<Longrightarrow> s_block_bitmap_pointers_start sb \<le> s_inode_start_pointer sb"
  "layout_ok sb nblk io \<Longrightarrow> s_inode_start_pointer sb \<le> s_block_start_pointer sb"
  "layout_ok sb nblk io \<Longrightarrow> s_block_start_pointer sb \<le> nblk"
  "layout_ok sb nblk io \<Longrightarrow> 1024 \<le> io"
  by (auto simp: layout_ok_def)

text \<open>A component of the volume depends on its own area only.\<close>

lemma view_inodes_cong:
  assumes "layout_ok sb nblk io"
    and "\<And>i. s_inode_start_pointer sb \<le> i \<Longrightarrow> i < s_block_start_pointer sb \<Longrightarrow> img' i = img i"
  shows "inodes (view sb img') = inodes (view sb img)"
  using layout_inode_index [OF assms(1)] assms(2) by (auto simp: view_def fun_eq_iff)

lemma view_blocks_cong:
  assumes "layout_ok sb nblk io"
    and "\<And>i. s_block_start_pointer sb \<le> i \<Longrightarrow> i < nblk \<Longrightarrow> img' i = img i"
  shows "blocks (view sb img') = blocks (view sb img)"
  using assms by (auto simp: view_def fun_eq_iff layout_ok_def)

lemma view_inode_bits_cong:
  assumes "layout_ok sb nblk io"
    and "\<And>i. i < s_block_bitmap_pointers_start sb \<Longrightarrow> img' i = img i"
  shows "inode_bits (view sb img') = inode_bits (view sb img)"
  using layout_ibit_index [OF assms(1)] assms(2) by (auto simp: view_def fun_eq_iff map_bit_def)

lemma view_block_bits_cong:
  assumes "layout_ok sb nblk io"
    and "\<And>i. s_block_bitmap_pointers_start sb \<le> i \<Longrightarrow> i < s_inode_start_pointer sb \<Longrightarrow> img' i = img i"
  shows "block_bits (view sb img') = block_bits (view sb img)"
  using layout_bbit_index [OF assms(1)] assms(2) by (auto simp: view_def fun_eq_iff map_bit_def)

lemma volume_eqI:
  "inodes v = inodes w \<Longrightarrow> blocks v = blocks w \<Longrightarrow> inode_bits v = inode_bits w \<Longrightarrow>
    block_bits v = block_bits w \<Longrightarrow> v = (w :: volume)"
  by simp

lemma view_write_block:
  assumes l: "layout_ok sb nblk io" and n: "n < s_num_blocks sb"
    and w: "\<forall>i<nblk. img' i = (if i = s_block_start_pointer sb + n then c else img i)"
  shows "view sb img' = (view sb img)\<lparr>blocks := (blocks (view sb img))(n := c)\<rparr>"
proof (rule volume_eqI; simp)
  note o = layout_order [OF l]
  have e: "img' i = img i" if "i < s_block_start_pointer sb" for i using w that o by auto
  show "inodes (view sb img') = inodes (view sb img)" by (rule view_inodes_cong [OF l]) (simp add: e)
  show "inode_bits (view sb img') = inode_bits (view sb img)"
    using o by (intro view_inode_bits_cong [OF l] e) simp
  show "block_bits (view sb img') = block_bits (view sb img)"
    using o by (intro view_block_bits_cong [OF l] e) simp
  show "blocks (view sb img') = (blocks (view sb img))(n := c)"
    using w n l by (auto simp: view_def fun_eq_iff layout_ok_def)
qed

lemma view_write_inode:
  assumes l: "layout_ok sb nblk io" and n: "n < s_num_inodes sb" and i: "wf_inode i"
    and len: "length (img (s_inode_start_pointer sb + n div 4)) = 1024"
    and w: "\<forall>b<nblk. img' b = (if b = s_inode_start_pointer sb + n div 4
      then overwrite (img b) (n mod 4 * 256) (inode_bytes i) else img b)"
  shows "view sb img' = (view sb img)\<lparr>inodes := (inodes (view sb img))(n := i)\<rparr>"
proof (rule volume_eqI; simp)
  note o = layout_order [OF l] and x = layout_inode_index [OF l n]
  have e: "img' b = img b" if "b < nblk" "b < s_inode_start_pointer sb \<or> s_block_start_pointer sb \<le> b" for b
    using w that x by auto
  show "inode_bits (view sb img') = inode_bits (view sb img)"
    using o by (intro view_inode_bits_cong [OF l] e) simp_all
  show "block_bits (view sb img') = block_bits (view sb img)"
    using o by (intro view_block_bits_cong [OF l] e) simp_all
  show "blocks (view sb img') = blocks (view sb img)" by (intro view_blocks_cong [OF l] e) simp_all
  show "inodes (view sb img') = (inodes (view sb img))(n := i)"
  proof (rule ext)
    fix m :: nat
    have r: "m mod 4 * 256 + 256 \<le> 1024" "n mod 4 * 256 + 256 \<le> 1024"
      using mod_less_divisor [of 4 m] mod_less_divisor [of 4 n] by linarith+
    show "inodes (view sb img') m = ((inodes (view sb img))(n := i)) m"
    proof (cases "m < s_num_inodes sb \<and> m div 4 = n div 4")
      case True
      then have "img' (s_inode_start_pointer sb + m div 4) =
          overwrite (img (s_inode_start_pointer sb + n div 4)) (n mod 4 * 256) (inode_bytes i)"
        using w x o by simp
      moreover have "m \<noteq> n \<Longrightarrow> m mod 4 * 256 + 256 \<le> n mod 4 * 256 \<or> n mod 4 * 256 + 256 \<le> m mod 4 * 256"
      proof -
        assume "m \<noteq> n"
        then have "m mod 4 \<noteq> n mod 4" using True by (metis div_mult_mod_eq)
        then show ?thesis by linarith
      qed
      ultimately show ?thesis using True r i len
        by (auto simp: view_def window_overwrite_same window_overwrite_other bytes_inode_inode_bytes)
    next
      case False
      then show ?thesis using w layout_inode_index [OF l, of m] o n by (auto simp: view_def)
    qed
  qed
qed

lemma view_write_block_bits:
  assumes l: "layout_ok sb nblk io"
    and same: "\<forall>i<nblk. i < s_block_bitmap_pointers_start sb \<or> s_inode_start_pointer sb \<le> i \<longrightarrow> img' i = img i"
    and bits: "\<And>m. m < 8192 * s_block_bitmap_size sb \<Longrightarrow> map_bit img' (s_block_bitmap_pointers_start sb) m = f m"
    and out: "\<And>m. \<not> m < 8192 * s_block_bitmap_size sb \<Longrightarrow> f m"
  shows "view sb img' = (view sb img)\<lparr>block_bits := f\<rparr>"
proof (rule volume_eqI; simp)
  note o = layout_order [OF l]
  show "inodes (view sb img') = inodes (view sb img)" using same o by (intro view_inodes_cong [OF l]) auto
  show "blocks (view sb img') = blocks (view sb img)" using same o by (intro view_blocks_cong [OF l]) auto
  show "inode_bits (view sb img') = inode_bits (view sb img)"
    using same o by (intro view_inode_bits_cong [OF l]) auto
  show "block_bits (view sb img') = f" using bits out by (auto simp: view_def fun_eq_iff)
qed

lemma view_write_inode_bits:
  assumes l: "layout_ok sb nblk io"
    and same: "\<forall>i<nblk. s_block_bitmap_pointers_start sb \<le> i \<longrightarrow> img' i = img i"
    and bits: "\<And>m. m < 8192 * s_inode_bitmap_size sb \<Longrightarrow> map_bit img' (s_inode_bitmap_pointers_start sb) m = f m"
    and out: "\<And>m. \<not> m < 8192 * s_inode_bitmap_size sb \<Longrightarrow> f m"
  shows "view sb img' = (view sb img)\<lparr>inode_bits := f\<rparr>"
proof (rule volume_eqI; simp)
  note o = layout_order [OF l]
  show "inodes (view sb img') = inodes (view sb img)" using same o by (intro view_inodes_cong [OF l]) auto
  show "blocks (view sb img') = blocks (view sb img)" using same o by (intro view_blocks_cong [OF l]) auto
  show "block_bits (view sb img') = block_bits (view sb img)"
    using same o by (intro view_block_bits_cong [OF l]) auto
  show "inode_bits (view sb img') = f" using bits out by (auto simp: view_def fun_eq_iff)
qed

section \<open>Bitmaps in buffers\<close>

lemma nth_concat_blocks:
  assumes "\<And>i. b \<le> i \<Longrightarrow> i < b + n \<Longrightarrow> length (f i) = bs" and "0 < bs" and "k < n * bs"
  shows "concat (map f [b..<b + n]) ! k = f (b + k div bs) ! (k mod bs)"
proof -
  have "length (concat (map f [b..<b + j])) = j * bs" if "j \<le> n" for j
    using that assms(1) by (induction j) auto
  then have "k < j * bs \<Longrightarrow> concat (map f [b..<b + j]) ! k = f (b + k div bs) ! (k mod bs)" if "j \<le> n" for j
    using that
  proof (induction j)
    case 0
    then show ?case by simp
  next
    case (Suc j)
    show ?case
    proof (cases "k < j * bs")
      case True
      with Suc show ?thesis by (simp add: nth_append)
    next
      case False
      then have "k div bs = j" "k mod bs = k - j * bs" using Suc.prems
        by (auto simp: not_less div_nat_eqI mod_nat_eqI mult.commute modulo_nat_def)
      with Suc False show ?thesis by (simp add: nth_append)
    qed
  qed
  from this [of n] assms(3) show ?thesis by simp
qed

lemma bit_position: "(m :: nat) div 8 div 1024 = m div 8192" "m div 8 mod 1024 = m mod 8192 div 8"
proof -
  show "m div 8 div 1024 = m div 8192" by (simp add: div_mult2_eq [symmetric])
  have "m mod (8 * 1024) = 8 * (m div 8 mod 1024) + m mod 8" by (rule mod_mult2_eq)
  then show "m div 8 mod 1024 = m mod 8192 div 8" by simp
qed

lemma map_bit_buf:
  assumes "\<And>j. j < n \<Longrightarrow> img (start + j) = window buf (j * 1024) 1024" and "n * 1024 \<le> length buf" and "m < 8192 * n"
  shows "map_bit img start m = buf_bit buf m"
proof -
  have d: "m div 8192 < n" using assms(3) by (rule div_bitmap_less)
  then have "m div 8192 * 1024 + 1024 \<le> n * 1024" using mult_le_mono1 [of "Suc (m div 8192)" n 1024] by simp
  moreover have "m div 8192 * 1024 + m mod 8192 div 8 = m div 8"
    using div_mult_mod_eq [of "m div 8" 1024] by (simp add: bit_position)
  moreover have "m mod 8192 div 8 < 1024" by (simp add: div_less_iff_less_mult)
  ultimately show ?thesis using assms(1) [OF d] assms(2)
    by (simp add: map_bit_def buf_bit_def nth_window)
qed

text \<open>
  The bits the block allocator scans. The number of blocks it transfers is \<^verbatim>\<open>block_bitmap_pointers_start\<close>, so behind
  that part of the bitmap it looks at what the heap left in the buffer.
\<close>

definition block_scanned :: "'d diosfs_filesystem_context \<Rightarrow> volume \<Rightarrow> nat \<Rightarrow> bool" where
  "block_scanned fs v m = (if m < 8192 * s_block_bitmap_pointers_start (fs_superblock fs) then block_bits v m
     else buf_bit (fs_kmalloc fs (s_block_bitmap_size (fs_superblock fs) * 1024)) m)"

section \<open>The operations on a device that keeps its contract\<close>

locale diosfs_volume = block_device ops 1024 nblk io_max blk ok
  for ops :: "'d block_device_ops" and nblk io_max :: nat and blk :: "'d \<Rightarrow> nat \<Rightarrow> byte list" and ok :: "'d \<Rightarrow> bool" +
  fixes fs :: "'d diosfs_filesystem_context"
  assumes vol: "ok d \<Longrightarrow> volume_ok fs ops nblk io_max"
begin

abbreviation sb :: diosfs_superblock where
  "sb \<equiv> fs_superblock fs"

abbreviation vw :: "'d \<Rightarrow> volume" where
  "vw d \<equiv> view sb (blk d)"

lemma lay: "ok d \<Longrightarrow> layout_ok sb nblk io_max"
  using vol by (simp add: volume_ok_def)

lemma fs_ops_eq: "ok d \<Longrightarrow> fs_ops fs = ops"
  using vol by (simp add: volume_ok_def)

lemma kmalloc_length: "ok d \<Longrightarrow> n \<le> length (fs_kmalloc fs n)"
  using vol by (simp add: volume_ok_def)

lemma block_size_eq: "ok d \<Longrightarrow> s_block_size sb = 1024"
  using lay by (simp add: layout_ok_def)

lemma read_block_ok:
  assumes "ok d" and "n < s_num_blocks sb" and "pos + 1024 \<le> length buf"
  shows "diosfs_read_block_by_number fs n buf pos off sz d = Inr (overwrite buf pos (blocks (vw d) n))"
proof -
  note l = lay [OF assms(1)]
  have "s_block_start_pointer sb + n < nblk" using l assms(2) by (simp add: layout_ok_def)
  from read_one [OF assms(1) this _ assms(3)] layout_order(5) [OF l] show ?thesis
    using assms(2) by (simp add: diosfs_read_block_by_number_def fs_ops_eq [OF assms(1)] DIOSFS_SUCCESS_def view_def)
qed

lemma length_block: "ok d \<Longrightarrow> n < s_num_blocks sb \<Longrightarrow> length (blocks (vw d) n) = 1024"
  using blk_len [of d "s_block_start_pointer sb + n"] lay [of d] by (simp add: view_def layout_ok_def)

lemma write_block_ok:
  assumes "ok d" and "n < s_num_blocks sb" and "pos + 1024 \<le> length buf"
  obtains d' where "diosfs_write_block_by_number fs n buf pos off sz d = Inr d'" and "ok d'"
    and "vw d' = (vw d)\<lparr>blocks := (blocks (vw d))(n := window buf pos 1024)\<rparr>"
proof -
  note l = lay [OF assms(1)]
  have "s_block_start_pointer sb + n < nblk" using l assms(2) by (simp add: layout_ok_def)
  from write_one [OF assms(1) this layout_order(5) [OF l] assms(3)] obtain d' where
    w: "block_write ops (s_block_start_pointer sb + n) 1 buf pos d = Inr (0, d')" "ok d'"
    "\<forall>i<nblk. blk d' i = (if i = s_block_start_pointer sb + n then window buf pos 1024 else blk d i)" by auto
  show thesis
  proof (rule that)
    show "diosfs_write_block_by_number fs n buf pos off sz d = Inr d'"
      using w(1) by (simp add: diosfs_write_block_by_number_def fs_ops_eq [OF assms(1)] DIOSFS_SUCCESS_def)
    show "ok d'" by (rule w(2))
    show "vw d' = (vw d)\<lparr>blocks := (blocks (vw d))(n := window buf pos 1024)\<rparr>"
      by (rule view_write_block [OF l assms(2) w(3)])
  qed
qed

lemma inode_block_less: "ok d \<Longrightarrow> n < s_num_inodes sb \<Longrightarrow> s_inode_start_pointer sb + n div 4 < nblk"
  using layout_inode_index [OF lay, of d n] layout_order(4) [OF lay, of d] by simp

lemma inode_slot_range: "(n :: nat) mod 4 * 256 + 256 \<le> 1024"
  using mod_less_divisor [of 4 n] by linarith

lemma read_inode_ok:
  assumes "ok d" and "n < s_num_inodes sb"
  shows "diosfs_read_inode fs n d = Inr (inodes (vw d) n)"
proof -
  note b = inode_block_less [OF assms] and l = lay [OF assms(1)]
  have "block_read ops (s_inode_start_pointer sb + n div 4) 1 (replicate 1024 0) 0 d =
      Inr (0, blk d (s_inode_start_pointer sb + n div 4))"
    using read_one [OF assms(1) b layout_order(5) [OF l], of 0 "replicate 1024 0"] blk_len [OF assms(1) b]
    by (simp add: overwrite_def)
  then show ?thesis
    using assms(2) blk_len [OF assms(1) b] inode_slot_range [of n]
    by (simp add: diosfs_read_inode_def Let_def fs_ops_eq [OF assms(1)] block_size_eq [OF assms(1)]
        NUM_INODES_PER_BLOCK_def DIOSFS_SUCCESS_def view_def not_less)
qed

lemma wf_inodes: "ok d \<Longrightarrow> wf_inode (inodes (vw d) n)"
proof (cases "n < s_num_inodes sb")
  case True
  assume "ok d"
  from blk_len [OF this inode_block_less [OF this True]] inode_slot_range [of n]
  show ?thesis using True by (simp add: view_def)
next
  case False
  then show ?thesis by (simp add: view_def)
qed

lemma write_inode_ok:
  assumes "ok d" and "wf_inode i" and "unat (i_inode_number i) < s_num_inodes sb"
  obtains d' where "diosfs_write_inode fs i d = Inr d'" and "ok d'"
    and "vw d' = (vw d)\<lparr>inodes := (inodes (vw d))(unat (i_inode_number i) := i)\<rparr>"
proof -
  let ?n = "unat (i_inode_number i)"
  let ?b = "s_inode_start_pointer sb + ?n div 4"
  note b = inode_block_less [OF assms(1,3)] and l = lay [OF assms(1)] and r = inode_slot_range [of ?n]
  have len: "length (blk d ?b) = 1024" by (rule blk_len [OF assms(1) b])
  let ?buf = "overwrite (blk d ?b) (?n mod 4 * 256) (inode_bytes i)"
  have lb: "length ?buf = 1024" using len r assms(2) by simp
  have rd: "block_read ops ?b 1 (replicate 1024 0) 0 d = Inr (0, blk d ?b)"
    using read_one [OF assms(1) b layout_order(5) [OF l], of 0 "replicate 1024 0"] len by (simp add: overwrite_def)
  have "0 + 1024 \<le> length ?buf" using lb by simp
  from write_one [OF assms(1) b layout_order(5) [OF l] this] obtain d' where
    w: "block_write ops ?b 1 ?buf 0 d = Inr (0, d')" "ok d'"
    "\<forall>i<nblk. blk d' i = (if i = ?b then window ?buf 0 1024 else blk d i)" by auto
  show thesis
  proof (rule that)
    show "diosfs_write_inode fs i d = Inr d'"
      using rd w(1) len r by (simp add: diosfs_write_inode_def Let_def fs_ops_eq [OF assms(1)] block_size_eq [OF assms(1)]
          NUM_INODES_PER_BLOCK_def DIOSFS_SUCCESS_def not_less)
    show "ok d'" by (rule w(2))
    show "vw d' = (vw d)\<lparr>inodes := (inodes (vw d))(?n := i)\<rparr>"
      using w(3) lb by (intro view_write_inode [where img = "blk d", OF l assms(3,2) len]) (simp add: window_all)
  qed
qed

text \<open>A bitmap read into a buffer.\<close>

lemma read_bitmap:
  assumes "ok d" and "start + n \<le> nblk" and "n * 1024 \<le> io_max" and "n * 1024 \<le> length buf" and "m < 8192 * n"
  shows "buf_bit (overwrite buf 0 (concat (map (blk d) [start..<start + n]))) m = map_bit (blk d) start m"
proof -
  have len: "length (blk d i) = 1024" if "start \<le> i" "i < start + n" for i
    using blk_len [OF assms(1)] that assms(2) by simp
  have "m div 8 < n * 1024" using assms(5) by (simp add: div_less_iff_less_mult)
  moreover from this have "concat (map (blk d) [start..<start + n]) ! (m div 8) =
      blk d (start + m div 8 div 1024) ! (m div 8 mod 1024)"
    using nth_concat_blocks [of start n "blk d" 1024] len by simp
  ultimately show ?thesis
    using length_blocks [OF assms(1,2)] assms(4)
    by (simp add: buf_bit_def map_bit_def nth_overwrite bit_position)
qed

lemma get_free_block_scan:
  assumes "ok d" and n: "n < 8192 * s_block_bitmap_size sb" and free: "\<not> block_scanned fs (vw d) n"
    and least: "\<forall>m<n. block_scanned fs (vw d) m"
  obtains d' where "diosfs_get_free_block_and_mark_bitmap fs d = Inr (n, d')" and "ok d'"
    and "vw d' = (vw d)\<lparr>block_bits := \<lambda>m. block_bits (vw d) m \<or> m = n \<and> n < 8192 * s_block_bitmap_pointers_start sb\<rparr>"
proof -
  let ?s = "s_block_bitmap_pointers_start sb"
  note l = lay [OF assms(1)]
  have lim: "?s + ?s \<le> nblk" "?s * 1024 \<le> io_max" "?s \<le> s_block_bitmap_size sb" "s_block_bitmap_size sb \<le> 128"
    using l by (auto simp: layout_ok_def)
  define raw where "raw = fs_kmalloc fs (s_block_bitmap_size sb * 1024)"
  define buf where "buf = overwrite raw 0 (concat (map (blk d) [?s..<?s + ?s]))"
  have ls: "s_block_bitmap_size sb * 1024 \<le> length raw" unfolding raw_def by (rule kmalloc_length [OF assms(1)])
  then have lr: "?s * 1024 \<le> length raw" using lim(3) by linarith
  have lc: "length (concat (map (blk d) [?s..<?s + ?s])) = ?s * 1024" using length_blocks [OF assms(1) lim(1)] by simp
  have lb: "length buf = length raw" using lr lc by (simp add: buf_def)
  have vb: "buf_bit buf m = block_bits (vw d) m" if "m < 8192 * ?s" for m
    unfolding buf_def using read_bitmap [OF assms(1) lim(1,2) lr that] that lim(3) by (auto simp: view_def)
  have sb: "buf_bit buf m = block_scanned fs (vw d) m" if m: "m < 8192 * s_block_bitmap_size sb" for m
  proof (cases "m < 8192 * ?s")
    case True
    then show ?thesis using vb by (simp add: block_scanned_def)
  next
    case False
    then have "?s * 1024 \<le> m div 8" "m div 8 < length raw" using m ls
      by (simp_all add: less_eq_div_iff_mult_less_eq div_less_iff_less_mult not_less)
    then have "buf ! (m div 8) = raw ! (m div 8)" unfolding buf_def by (subst nth_overwrite) (use lc lr in auto)
    then show ?thesis using False by (simp add: block_scanned_def buf_bit_def raw_def)
  qed
  have nf: "\<not> buf_bit buf n" "\<forall>m<n. buf_bit buf m" using sb n free least by auto
  note lc = least_clear_byte [OF nf]
  have p: "n div 8 < length buf" using n ls lb by (simp add: div_less_iff_less_mult)
  have "n div 8 div 1024 \<le> 128" using n lim(4) by (simp add: bit_position div_le_mono)
  then have sc: "scan_block_bitmap 1024 0 0 buf = Inr (n div 8 div 1024, n div 8 mod 1024, n mod 8)"
    using scan_block_bitmap_finds [of 1024 0 "n div 8" buf "n mod 8" 0] lc p
    by (simp add: DIOSFS_NUM_BLOCK_POINTER_BLOCKS_def)
  let ?buf = "buf[n div 8 := (buf ! (n div 8)) OR push_bit (n mod 8) 1]"
  have l2: "0 + ?s * 1024 \<le> length ?buf" using lb lr by simp
  from write_ok [OF assms(1) lim(1,2) l2] obtain d' where
    w: "block_write ops ?s ?s ?buf 0 d = Inr (0, d')" "ok d'"
    "\<forall>i<nblk. blk d' i = (if ?s \<le> i \<and> i < ?s + ?s then window ?buf (0 + (i - ?s) * 1024) 1024 else blk d i)" by auto
  have rd: "block_read ops ?s ?s raw 0 d = Inr (0, buf)"
    using read_ok [OF assms(1) lim(1,2), of 0 raw] lr by (simp add: buf_def)
  have num: "n div 8 div 1024 * 1024 * 8 + n div 8 mod 1024 * 8 + n mod 8 = n"
  proof -
    have "(n div 8 div 1024 * 1024 + n div 8 mod 1024) * 8 + n mod 8 = n" by (simp only: div_mult_mod_eq)
    then show ?thesis unfolding add_mult_distrib .
  qed
  have pos: "n div 8 div 1024 * 1024 + n div 8 mod 1024 = n div 8" by (rule div_mult_mod_eq)
  have nb: "map_bit (blk d') ?s m = (block_bits (vw d) m \<or> m = n \<and> n < 8192 * ?s)" if m: "m < 8192 * s_block_bitmap_size sb" for m
  proof (cases "m < 8192 * ?s")
    case True
    have "map_bit (blk d') ?s m = buf_bit ?buf m"
      using w(3) lim(1) l2 by (intro map_bit_buf [of ?s]) (auto simp: True)
    with True vb p show ?thesis by (auto simp: buf_bit_set [unfolded push_bit_of_1])
  next
    case False
    then have "?s + ?s \<le> ?s + m div 8192" by (simp add: less_eq_div_iff_mult_less_eq not_less mult.commute)
    moreover have "?s + m div 8192 < nblk" using layout_bbit_index [OF l m] layout_order [OF l] by linarith
    ultimately show ?thesis using w(3) m False by (auto simp: map_bit_def view_def)
  qed
  show thesis
  proof (rule that)
    show "diosfs_get_free_block_and_mark_bitmap fs d = Inr (n, d')"
      using rd sc w(1) num pos
      by (simp add: diosfs_get_free_block_and_mark_bitmap_def Let_def fs_ops_eq [OF assms(1)] block_size_eq [OF assms(1)]
          DIOSFS_SUCCESS_def raw_def [symmetric])
    show "ok d'" by (rule w(2))
    show "vw d' = (vw d)\<lparr>block_bits := \<lambda>m. block_bits (vw d) m \<or> m = n \<and> n < 8192 * ?s\<rparr>"
    proof (rule view_write_block_bits [OF l])
      show "\<forall>i<nblk. i < ?s \<or> s_inode_start_pointer sb \<le> i \<longrightarrow> blk d' i = blk d i"
        using w(3) l by (auto simp: layout_ok_def)
      show "map_bit (blk d') ?s m = (block_bits (vw d) m \<or> m = n \<and> n < 8192 * ?s)" if "m < 8192 * s_block_bitmap_size sb" for m
        using nb [OF that] .
      show "block_bits (vw d) m \<or> m = n \<and> n < 8192 * ?s" if "\<not> m < 8192 * s_block_bitmap_size sb" for m
        using that by (simp add: view_def)
    qed
  qed
qed

text \<open>Inside the part of the bitmap that is transferred, the scan sees the bitmap.\<close>

lemma get_free_block_ok:
  assumes "ok d" and n: "n < 8192 * s_block_bitmap_pointers_start sb" and free: "\<not> block_bits (vw d) n"
    and least: "\<forall>m<n. block_bits (vw d) m"
  obtains d' where "diosfs_get_free_block_and_mark_bitmap fs d = Inr (n, d')" and "ok d'"
    and "vw d' = (vw d)\<lparr>block_bits := (block_bits (vw d))(n := True)\<rparr>"
proof -
  have sz: "n < 8192 * s_block_bitmap_size sb" using n lay [OF assms(1)] by (auto simp: layout_ok_def)
  have "\<not> block_scanned fs (vw d) n" "\<forall>m<n. block_scanned fs (vw d) m" using n free least by (auto simp: block_scanned_def)
  from get_free_block_scan [OF assms(1) sz this] obtain d' where "diosfs_get_free_block_and_mark_bitmap fs d = Inr (n, d')" "ok d'"
    "vw d' = (vw d)\<lparr>block_bits := \<lambda>m. block_bits (vw d) m \<or> m = n \<and> n < 8192 * s_block_bitmap_pointers_start sb\<rparr>" .
  moreover have "(\<lambda>m. block_bits (vw d) m \<or> m = n \<and> n < 8192 * s_block_bitmap_pointers_start sb) = (block_bits (vw d))(n := True)"
    using n by auto
  ultimately show thesis using that by metis
qed

text \<open>
  Clearing a bit. The byte is addressed in the buffer by \<^verbatim>\<open>number / 8\<close>, which lies in the block that is read
  and written back only for the first 8192 numbers; for the numbers up to 32768 it lies in the rest of
  the page.
\<close>

lemma clear_bitmap_block:
  assumes "ok d" and "number < 32768" and "type \<in> {0, 1}"
    and st: "start = (if type = 0 then s_block_bitmap_pointers_start sb else s_inode_bitmap_pointers_start sb)"
    and b: "start + number div 8192 < nblk"
  obtains d' where "diosfs_clear_bitmap fs type number d = Inr d'" and "ok d'"
    and "\<forall>i<nblk. blk d' i = (if number < 8192 \<and> i = start
      then (blk d i)[number div 8 := (blk d i ! (number div 8)) AND NOT (push_bit (number mod 8) 1)] else blk d i)"
proof -
  let ?b = "start + number div 8192" and ?k = "number div 8"
  note l = lay [OF assms(1)]
  have len: "length (blk d ?b) = 1024" by (rule blk_len [OF assms(1) b])
  define buf where "buf = overwrite (replicate 4096 0) 0 (blk d ?b)"
  have lb: "length buf = 4096" using len by (simp add: buf_def)
  have k: "?k < 4096" using assms(2) by linarith
  let ?buf = "buf[?k := (buf ! ?k) AND NOT (push_bit (number mod 8) 1)]"
  have rd: "block_read ops ?b 1 (replicate 4096 0) 0 d = Inr (0, buf)"
    using read_one [OF assms(1) b layout_order(5) [OF l], of 0 "replicate 4096 0"] by (simp add: buf_def)
  have l2: "0 + 1024 \<le> length ?buf" using lb by simp
  from write_one [OF assms(1) b layout_order(5) [OF l] l2] obtain d' where
    w: "block_write ops ?b 1 ?buf 0 d = Inr (0, d')" "ok d'"
    "\<forall>i<nblk. blk d' i = (if i = ?b then window ?buf 0 1024 else blk d i)" by auto
  have tk: "take 1024 buf = blk d ?b" using len by (simp add: buf_def overwrite_def)
  have win: "window ?buf 0 1024 = (if number < 8192 then (blk d ?b)[?k := (blk d ?b ! ?k) AND NOT (push_bit (number mod 8) 1)]
      else blk d ?b)"
  proof (cases "number < 8192")
    case True
    then have "?k < 1024" by linarith
    then have "buf ! ?k = blk d ?b ! ?k" by (metis tk nth_take)
    then show ?thesis using True by (simp add: window_def take_update_swap tk)
  next
    case False
    then have "1024 \<le> ?k" by linarith
    then show ?thesis using False by (simp add: window_def tk)
  qed
  show thesis
  proof (rule that)
    have "\<not> length buf \<le> ?k" using lb k by simp
    then show "diosfs_clear_bitmap fs type number d = Inr d'"
      using rd w(1) assms(3) st
      by (auto simp: diosfs_clear_bitmap_def BITMAP_TYPE_BLOCK_def BITMAP_TYPE_INODE_def Let_def
          fs_ops_eq [OF assms(1)] block_size_eq [OF assms(1)])
    show "ok d'" by (rule w(2))
    show "\<forall>i<nblk. blk d' i = (if number < 8192 \<and> i = start
        then (blk d i)[?k := (blk d i ! ?k) AND NOT (push_bit (number mod 8) 1)] else blk d i)"
      using w(3) win by auto
  qed
qed

lemma map_bit_clear:
  assumes "number < 8192" "length (img start) = 1024"
    and "img' start = (img start)[number div 8 := (img start ! (number div 8)) AND NOT (push_bit (number mod 8) 1)]"
    and "\<And>i. start < i \<Longrightarrow> i \<le> start + m div 8192 \<Longrightarrow> img' i = img i"
  shows "map_bit img' start m \<longleftrightarrow> m \<noteq> number \<and> map_bit img start m"
proof (cases "m < 8192")
  case True
  then have "map_bit f start m = buf_bit (f start) m" for f
    by (simp add: map_bit_def buf_bit_def)
  moreover have "number div 8 < length (img start)" using assms(1,2) by linarith
  ultimately show ?thesis using assms(3) by (simp add: buf_bit_clear [unfolded push_bit_of_1])
next
  case False
  then have "0 < m div 8192" by (simp add: div_greater_zero_iff)
  then show ?thesis using assms(1,4) False by (auto simp: map_bit_def)
qed

lemma clear_block_bit_ok:
  assumes "ok d" and "number < 8192" and "number < 8192 * s_block_bitmap_size sb"
  obtains d' where "diosfs_clear_bitmap fs BITMAP_TYPE_BLOCK number d = Inr d'" and "ok d'"
    and "vw d' = (vw d)\<lparr>block_bits := (block_bits (vw d))(number := False)\<rparr>"
proof -
  let ?s = "s_block_bitmap_pointers_start sb"
  note l = lay [OF assms(1)]
  have b: "?s + number div 8192 < nblk" using layout_bbit_index [OF l assms(3)] layout_order [OF l] by linarith
  have n32: "number < 32768" using assms(2) by simp
  have t: "(0 :: nat) \<in> {0, 1}" and st: "?s = (if (0 :: nat) = 0 then ?s else s_inode_bitmap_pointers_start sb)"
    by simp_all
  obtain d' where w: "diosfs_clear_bitmap fs 0 number d = Inr d'" "ok d'"
    "\<forall>i<nblk. blk d' i = (if number < 8192 \<and> i = ?s
      then (blk d i)[number div 8 := (blk d i ! (number div 8)) AND NOT (push_bit (number mod 8) 1)] else blk d i)"
    by (rule clear_bitmap_block [OF assms(1) n32 t st b])
  have len: "length (blk d ?s) = 1024" using blk_len [OF assms(1)] b by simp
  have s: "?s < nblk" using b by simp
  show thesis
  proof (rule that)
    show "diosfs_clear_bitmap fs BITMAP_TYPE_BLOCK number d = Inr d'" using w(1) by (simp add: BITMAP_TYPE_BLOCK_def)
    show "ok d'" by (rule w(2))
    show "vw d' = (vw d)\<lparr>block_bits := (block_bits (vw d))(number := False)\<rparr>"
    proof (rule view_write_block_bits [OF l])
      show "\<forall>i<nblk. i < ?s \<or> s_inode_start_pointer sb \<le> i \<longrightarrow> blk d' i = blk d i"
        using w(3) assms(2) layout_bbit_index [OF l, of 0] assms(3) by auto
      show "map_bit (blk d') ?s m = ((block_bits (vw d))(number := False)) m" if m: "m < 8192 * s_block_bitmap_size sb" for m
      proof -
        have "?s + m div 8192 < nblk" using layout_bbit_index [OF l m] layout_order [OF l] by linarith
        then have "map_bit (blk d') ?s m \<longleftrightarrow> m \<noteq> number \<and> map_bit (blk d) ?s m"
          using w(3) s by (intro map_bit_clear [where img = "blk d" and start = ?s, OF assms(2) len]) (auto simp: assms(2))
        then show ?thesis using m by (simp add: view_def)
      qed
      show "((block_bits (vw d))(number := False)) m" if "\<not> m < 8192 * s_block_bitmap_size sb" for m
        using that assms(3) by (simp add: view_def)
    qed
  qed
qed

lemma clear_inode_bit_ok:
  assumes "ok d" and "number < 8192"
  obtains d' where "diosfs_clear_bitmap fs BITMAP_TYPE_INODE number d = Inr d'" and "ok d'"
    and "vw d' = (vw d)\<lparr>inode_bits := (inode_bits (vw d))(number := False)\<rparr>"
proof -
  let ?s = "s_inode_bitmap_pointers_start sb"
  note l = lay [OF assms(1)]
  have n: "number < 8192 * s_inode_bitmap_size sb" using assms(2) l by (cases "s_inode_bitmap_size sb") (auto simp: layout_ok_def)
  have b: "?s + number div 8192 < nblk" using layout_ibit_index [OF l n] layout_order [OF l] by linarith
  have n32: "number < 32768" using assms(2) by simp
  have t: "(1 :: nat) \<in> {0, 1}" and st: "?s = (if (1 :: nat) = 0 then s_block_bitmap_pointers_start sb else ?s)"
    by simp_all
  obtain d' where w: "diosfs_clear_bitmap fs 1 number d = Inr d'" "ok d'"
    "\<forall>i<nblk. blk d' i = (if number < 8192 \<and> i = ?s
      then (blk d i)[number div 8 := (blk d i ! (number div 8)) AND NOT (push_bit (number mod 8) 1)] else blk d i)"
    by (rule clear_bitmap_block [OF assms(1) n32 t st b])
  have len: "length (blk d ?s) = 1024" using blk_len [OF assms(1)] b by simp
  have s: "?s < nblk" using b by simp
  show thesis
  proof (rule that)
    show "diosfs_clear_bitmap fs BITMAP_TYPE_INODE number d = Inr d'" using w(1) by (simp add: BITMAP_TYPE_INODE_def)
    show "ok d'" by (rule w(2))
    show "vw d' = (vw d)\<lparr>inode_bits := (inode_bits (vw d))(number := False)\<rparr>"
    proof (rule view_write_inode_bits [OF l])
      show "\<forall>i<nblk. s_block_bitmap_pointers_start sb \<le> i \<longrightarrow> blk d' i = blk d i"
        using w(3) assms(2) layout_ibit_index [OF l n] by auto
      show "map_bit (blk d') ?s m = ((inode_bits (vw d))(number := False)) m" if m: "m < 8192 * s_inode_bitmap_size sb" for m
      proof -
        have "?s + m div 8192 < nblk" using layout_ibit_index [OF l m] layout_order [OF l] by linarith
        then have "map_bit (blk d') ?s m \<longleftrightarrow> m \<noteq> number \<and> map_bit (blk d) ?s m"
          using w(3) s by (intro map_bit_clear [where img = "blk d" and start = ?s, OF assms(2) len]) (auto simp: assms(2))
        then show ?thesis using m by (simp add: view_def)
      qed
      show "((inode_bits (vw d))(number := False)) m" if "\<not> m < 8192 * s_inode_bitmap_size sb" for m
        using that n by (simp add: view_def)
    qed
  qed
qed

text \<open>For a number of the second bitmap block on, nothing is cleared.\<close>

lemma clear_bitmap_leak:
  assumes "ok d" and "8192 \<le> number" "number < 32768" and "number < 8192 * s_block_bitmap_size sb"
  obtains d' where "diosfs_clear_bitmap fs BITMAP_TYPE_BLOCK number d = Inr d'" and "ok d'" and "vw d' = vw d"
proof -
  let ?s = "s_block_bitmap_pointers_start sb"
  note l = lay [OF assms(1)] and o = layout_order [OF lay [OF assms(1)]]
  have b: "?s + number div 8192 < nblk" using layout_bbit_index [OF l assms(4)] o by linarith
  have t: "(0 :: nat) \<in> {0, 1}" and st: "?s = (if (0 :: nat) = 0 then ?s else s_inode_bitmap_pointers_start sb)"
    by simp_all
  obtain d' where w: "diosfs_clear_bitmap fs 0 number d = Inr d'" "ok d'"
    "\<forall>i<nblk. blk d' i = (if number < 8192 \<and> i = ?s
      then (blk d i)[number div 8 := (blk d i ! (number div 8)) AND NOT (push_bit (number mod 8) 1)] else blk d i)"
    by (rule clear_bitmap_block [OF assms(1,3) t st b])
  have e: "blk d' i = blk d i" if "i < nblk" for i using w(3) that assms(2) by auto
  have "vw d' = vw d"
  proof (rule volume_eqI)
    show "inodes (vw d') = inodes (vw d)" using o by (intro view_inodes_cong [OF l] e) linarith
    show "blocks (vw d') = blocks (vw d)" by (intro view_blocks_cong [OF l] e)
    show "inode_bits (vw d') = inode_bits (vw d)" using o by (intro view_inode_bits_cong [OF l] e) linarith
    show "block_bits (vw d') = block_bits (vw d)" using o by (intro view_block_bits_cong [OF l] e) linarith
  qed
  with w that show thesis by (simp add: BITMAP_TYPE_BLOCK_def)
qed

lemma free_block_ok:
  assumes "ok d" and "n < 8192" and "n < s_num_blocks sb" and "n < 8192 * s_block_bitmap_size sb"
  obtains d' where "diosfs_free_block_and_mark_bitmap fs n d = Inr d'" and "ok d'"
    and "vw d' = (vw d)\<lparr>blocks := (blocks (vw d))(n := replicate 1024 0),
      block_bits := (block_bits (vw d))(n := False)\<rparr>"
proof -
  let ?buf = "overwrite (fs_kmalloc fs 4096) 0 (replicate 1024 0)"
  have lk: "4096 \<le> length (fs_kmalloc fs 4096)" by (rule kmalloc_length [OF assms(1)])
  then have len: "0 + 1024 \<le> length ?buf" by simp
  have win: "window ?buf 0 1024 = replicate 1024 0" using lk by (intro window_overwrite_same) simp_all
  obtain d1 where w1: "diosfs_write_block_by_number fs n ?buf 0 0 1024 d = Inr d1" "ok d1"
    "vw d1 = (vw d)\<lparr>blocks := (blocks (vw d))(n := window ?buf 0 1024)\<rparr>"
    by (rule write_block_ok [OF assms(1,3) len])
  obtain d2 where w2: "diosfs_clear_bitmap fs BITMAP_TYPE_BLOCK n d1 = Inr d2" "ok d2"
    "vw d2 = (vw d1)\<lparr>block_bits := (block_bits (vw d1))(n := False)\<rparr>"
    by (rule clear_block_bit_ok [OF w1(2) assms(2,4)])
  show thesis
  proof (rule that)
    show "diosfs_free_block_and_mark_bitmap fs n d = Inr d2"
      using w1(1) w2(1) by (simp add: diosfs_free_block_and_mark_bitmap_def Let_def block_size_eq [OF assms(1)])
    show "ok d2" by (rule w2(2))
    show "vw d2 = (vw d)\<lparr>blocks := (blocks (vw d))(n := replicate 1024 0),
        block_bits := (block_bits (vw d))(n := False)\<rparr>"
      using w1(3) w2(3) win by simp
  qed
qed

lemma free_inode_ok:
  assumes "ok d" and "n < 8192" and "n < s_num_inodes sb" and "s_inode_start_pointer sb + n div 4 < s_num_blocks sb"
  obtains d' where "diosfs_free_inode_and_mark_bitmap fs n d = Inr d'" and "ok d'"
    and "vw d' = (vw d)\<lparr>inodes := (inodes (vw d))(n := zero_inode\<lparr>i_inode_number := word_of_nat n\<rparr>),
      blocks := (blocks (vw d))(s_inode_start_pointer sb + n div 4 := take 1024 (fs_kmalloc fs 4096)),
      inode_bits := (inode_bits (vw d))(n := False)\<rparr>"
proof -
  let ?i = "zero_inode\<lparr>i_inode_number := word_of_nat n\<rparr>"
  have un: "unat (i_inode_number ?i) = n" using assms(2) by (simp add: unat_of_nat)
  have wf: "wf_inode ?i" by (simp add: wf_inode_def zero_inode_def)
  have "unat (i_inode_number ?i) < s_num_inodes sb" using un assms(3) by simp
  from write_inode_ok [OF assms(1) wf this] obtain d1 where
    w1: "diosfs_write_inode fs ?i d = Inr d1" "ok d1" "vw d1 = (vw d)\<lparr>inodes := (inodes (vw d))(n := ?i)\<rparr>"
    unfolding un by metis
  have lk: "0 + 1024 \<le> length (fs_kmalloc fs 4096)" using kmalloc_length [OF assms(1), of 4096] by simp
  obtain d2 where w2: "diosfs_write_block_by_number fs (s_inode_start_pointer sb + n div 4) (fs_kmalloc fs 4096) 0 (n mod 4) 256 d1 = Inr d2"
    "ok d2" "vw d2 = (vw d1)\<lparr>blocks := (blocks (vw d1))(s_inode_start_pointer sb + n div 4 := window (fs_kmalloc fs 4096) 0 1024)\<rparr>"
    by (rule write_block_ok [OF w1(2) assms(4) lk])
  obtain d3 where w3: "diosfs_clear_bitmap fs BITMAP_TYPE_INODE n d2 = Inr d3" "ok d3"
    "vw d3 = (vw d2)\<lparr>inode_bits := (inode_bits (vw d2))(n := False)\<rparr>"
    by (rule clear_inode_bit_ok [OF w2(2) assms(2)])
  show thesis
  proof (rule that)
    show "diosfs_free_inode_and_mark_bitmap fs n d = Inr d3"
      using w1(1) w2(1) w3(1) read_inode_ok [OF assms(1,3)]
      by (simp add: diosfs_free_inode_and_mark_bitmap_def Let_def)
    show "ok d3" by (rule w3(2))
    show "vw d3 = (vw d)\<lparr>inodes := (inodes (vw d))(n := ?i),
        blocks := (blocks (vw d))(s_inode_start_pointer sb + n div 4 := take 1024 (fs_kmalloc fs 4096)),
        inode_bits := (inode_bits (vw d))(n := False)\<rparr>"
      using w1(3) w2(3) w3(3) by (simp add: window_def)
  qed
qed

lemma get_free_inode_ok:
  assumes "ok d" and n: "n < 8192 * s_inode_bitmap_size sb" and free: "\<not> inode_bits (vw d) n"
    and least: "\<forall>m<n. inode_bits (vw d) m"
  obtains d' where "diosfs_get_free_inode_and_mark_bitmap fs d = Inr (zero_inode\<lparr>i_inode_number := word_of_nat n\<rparr>, d')"
    and "ok d'" and "vw d' = (vw d)\<lparr>inode_bits := (inode_bits (vw d))(n mod 8192 := True)\<rparr>"
proof -
  let ?s = "s_inode_bitmap_pointers_start sb" and ?k = "s_inode_bitmap_size sb"
  note l = lay [OF assms(1)]
  have lim: "?s + ?k \<le> nblk" "?k * 1024 \<le> io_max" "?k \<le> 16" "0 < ?k" using l by (auto simp: layout_ok_def)
  define raw where "raw = fs_kmalloc fs (4096 * 16)"
  define buf where "buf = overwrite raw 0 (concat (map (blk d) [?s..<?s + ?k]))"
  have "4096 * 16 \<le> length raw" unfolding raw_def by (rule kmalloc_length [OF assms(1)])
  then have lr: "?k * 1024 \<le> length raw" using lim(3) by linarith
  have lb: "length buf = length raw" using lr length_blocks [OF assms(1) lim(1)] by (simp add: buf_def)
  have vb: "buf_bit buf m = inode_bits (vw d) m" if "m < 8192 * ?k" for m
    using read_bitmap [OF assms(1) lim(1,2) lr that] that by (simp add: buf_def view_def)
  have nf: "\<not> buf_bit buf n" "\<forall>m<n. buf_bit buf m" using vb n free least by auto
  note lc = least_clear_byte [OF nf]
  have p: "n div 8 < ?k * 1024" using n by (simp add: div_less_iff_less_mult)
  have "n div 8192 < ?k" using n by (rule div_bitmap_less)
  then have "n div 8 div 1024 \<le> 16" using lim(3) by (simp add: bit_position)
  then have sc: "scan_inode_bitmap 1024 0 0 buf = Inr (n div 8 div 1024, n div 8 mod 1024, n mod 8)"
    using scan_inode_bitmap_finds [of 1024 0 "n div 8" buf "n mod 8" 0] lc p lb lr
    by (simp add: DIOSFS_NUM_INODE_POINTER_BLOCKS_def)
  let ?n = "n mod 8192"
  have pos: "n div 8 mod 1024 = ?n div 8" "n mod 8 = ?n mod 8" by (simp_all add: bit_position mod_mod_cancel)
  let ?buf = "buf[?n div 8 := (buf ! (?n div 8)) OR push_bit (?n mod 8) 1]"
  have l2: "0 + ?k * 1024 \<le> length ?buf" using lb lr by simp
  from write_ok [OF assms(1) lim(1,2) l2] obtain d' where
    w: "block_write ops ?s ?k ?buf 0 d = Inr (0, d')" "ok d'"
    "\<forall>i<nblk. blk d' i = (if ?s \<le> i \<and> i < ?s + ?k then window ?buf (0 + (i - ?s) * 1024) 1024 else blk d i)" by auto
  have rd: "block_read ops ?s ?k raw 0 d = Inr (0, buf)"
    using read_ok [OF assms(1) lim(1,2), of 0 raw] lr by (simp add: buf_def)
  have num: "n div 8 div 1024 * 1024 * 8 + n div 8 mod 1024 * 8 + n mod 8 = n"
  proof -
    have "(n div 8 div 1024 * 1024 + n div 8 mod 1024) * 8 + n mod 8 = n" by (simp only: div_mult_mod_eq)
    then show ?thesis unfolding add_mult_distrib .
  qed
  have nk: "?n < 8192 * ?k" using lim(4) mod_less_divisor [of 8192 n] by linarith
  have nb: "map_bit (blk d') ?s m = (m = ?n \<or> inode_bits (vw d) m)" if m: "m < 8192 * ?k" for m
  proof -
    have "map_bit (blk d') ?s m = buf_bit ?buf m"
      using w(3) lim(1) l2 by (intro map_bit_buf [of ?k]) (auto simp: m)
    moreover have "?n div 8 < length buf" using nk lb lr by linarith
    ultimately show ?thesis using vb [OF m] buf_bit_set [of ?n buf m] by simp
  qed
  show thesis
  proof (rule that)
    show "diosfs_get_free_inode_and_mark_bitmap fs d = Inr (zero_inode\<lparr>i_inode_number := word_of_nat n\<rparr>, d')"
      using rd sc w(1) num
      by (simp add: diosfs_get_free_inode_and_mark_bitmap_def Let_def fs_ops_eq [OF assms(1)] block_size_eq [OF assms(1)]
          DIOSFS_SUCCESS_def raw_def [symmetric, simplified] pos [symmetric])
    show "ok d'" by (rule w(2))
    show "vw d' = (vw d)\<lparr>inode_bits := (inode_bits (vw d))(?n := True)\<rparr>"
    proof (rule view_write_inode_bits [OF l])
      show "\<forall>i<nblk. s_block_bitmap_pointers_start sb \<le> i \<longrightarrow> blk d' i = blk d i"
        using w(3) l by (auto simp: layout_ok_def)
      show "map_bit (blk d') ?s m = ((inode_bits (vw d))(?n := True)) m" if "m < 8192 * ?k" for m
        using nb [OF that] by auto
      show "((inode_bits (vw d))(?n := True)) m" if "\<not> m < 8192 * ?k" for m
        using that by (simp add: view_def)
    qed
  qed
qed

end

section \<open>A volume on a RAM disk\<close>

definition dios_ok :: "ramdisk list diosfs_filesystem_context \<Rightarrow> ramdisk_device \<Rightarrow> nat \<Rightarrow> ramdisk list \<Rightarrow> bool" where
  "dios_ok fs device nblk rds \<longleftrightarrow>
     rd_ok device 1024 nblk rds \<and> volume_ok fs (ramdisk_ops device) nblk (PAGE_SIZE * 100)"

definition dios_view :: "ramdisk list diosfs_filesystem_context \<Rightarrow> ramdisk_device \<Rightarrow> ramdisk list \<Rightarrow> volume" where
  "dios_view fs device rds = view (fs_superblock fs) (rd_blk device 1024 rds)"

interpretation dios: diosfs_volume "ramdisk_ops device" nblk "PAGE_SIZE * 100" "rd_blk device 1024"
    "dios_ok fs device nblk" fs
  for device nblk fs
proof unfold_locales
  fix d i assume "dios_ok fs device nblk d" "i < nblk"
  then show "length (rd_blk device 1024 d i) = 1024" by (auto simp: dios_ok_def intro: rd.blk_len)
next
  fix d b n pos and buf :: "byte list"
  assume "dios_ok fs device nblk d" "b + n \<le> nblk" "n * 1024 \<le> PAGE_SIZE * 100" "pos + n * 1024 \<le> length buf"
  then show "block_read (ramdisk_ops device) b n buf pos d =
      Inr (0, overwrite buf pos (concat (map (rd_blk device 1024 d) [b..<b + n])))"
    by (intro rd.read_ok) (simp_all add: dios_ok_def)
next
  fix d b n pos and buf :: "byte list"
  assume "dios_ok fs device nblk d" "b + n \<le> nblk" "n * 1024 \<le> PAGE_SIZE * 100" "pos + n * 1024 \<le> length buf"
  then show "\<exists>d'. block_write (ramdisk_ops device) b n buf pos d = Inr (0, d') \<and> dios_ok fs device nblk d' \<and>
      (\<forall>i<nblk. rd_blk device 1024 d' i =
        (if b \<le> i \<and> i < b + n then window buf (pos + (i - b) * 1024) 1024 else rd_blk device 1024 d i))"
    using rd.write_ok [of device 1024 nblk d b n pos buf] by (auto simp: dios_ok_def)
next
  fix d assume "dios_ok fs device nblk d"
  then show "volume_ok fs (ramdisk_ops device) nblk (PAGE_SIZE * 100)" by (simp add: dios_ok_def)
qed

section \<open>Properties\<close>

definition demo_superblock :: diosfs_superblock where
  "demo_superblock = \<lparr>s_magic = 0, s_version = 1, s_block_size = 1024, s_num_blocks = 22, s_num_inodes = 16,
     s_total_size = 32768, s_inode_bitmap_size = 2, s_block_bitmap_size = 3, s_inode_bitmap_pointers_start = 1,
     s_block_bitmap_pointers_start = 3, s_inode_start_pointer = 6, s_block_start_pointer = 10\<rparr>"

definition demo_fs :: "ramdisk list diosfs_filesystem_context" where
  "demo_fs = \<lparr>fs_superblock = demo_superblock, fs_ops = ramdisk_ops demo_device,
     fs_kmalloc = (\<lambda>n. replicate n 170), fs_device_minor = 0\<rparr>"

lemma demo_fs_ok: "dios_ok demo_fs demo_device 32 [demo_disk 8]"
  using demo_disk_ok [of 32 8]
  by (simp add: dios_ok_def volume_ok_def layout_ok_def demo_fs_def demo_superblock_def PAGE_SIZE_def)

lemma demo_sizes:
  "s_num_blocks (fs_superblock demo_fs) = 22" "s_num_inodes (fs_superblock demo_fs) = 16"
  "s_inode_bitmap_size (fs_superblock demo_fs) = 2" "s_block_bitmap_size (fs_superblock demo_fs) = 3"
  "s_block_bitmap_pointers_start (fs_superblock demo_fs) = 3" "s_inode_start_pointer (fs_superblock demo_fs) = 6"
  "s_block_size (fs_superblock demo_fs) = 1024" "fs_kmalloc demo_fs n = replicate n 170"
  by (simp_all add: demo_fs_def demo_superblock_def)

lemma demo_blk: "i < 32 \<Longrightarrow> rd_blk demo_device 1024 [demo_disk 8] i = replicate 1024 0"
  by (simp add: rd_blk_def rd_mem_def demo_disk_def demo_device_def window_def)

lemma demo_bits:
  "block_bits (dios_view demo_fs demo_device [demo_disk 8]) n \<longleftrightarrow> 24576 \<le> n"
  "inode_bits (dios_view demo_fs demo_device [demo_disk 8]) n \<longleftrightarrow> 16384 \<le> n"
proof -
  have "map_bit (rd_blk demo_device 1024 [demo_disk 8]) s n = False" if "s + n div 8192 < 32" for s
  proof -
    have "n mod 8192 div 8 < 1024" by (simp add: div_less_iff_less_mult)
    then show ?thesis using demo_blk [OF that] by (simp add: map_bit_def)
  qed
  moreover have "n div 8192 < 3" if "n < 24576" using div_bitmap_less [of n 3] that by simp
  ultimately show "block_bits (dios_view demo_fs demo_device [demo_disk 8]) n \<longleftrightarrow> 24576 \<le> n"
    "inode_bits (dios_view demo_fs demo_device [demo_disk 8]) n \<longleftrightarrow> 16384 \<le> n"
    by (auto simp: dios_view_def view_def demo_fs_def demo_superblock_def)
qed

text \<open>C1: Writing an inode to a volume replaces exactly that inode: every other inode, every data block and both
  bitmaps are as before, and reading the inode number yields the inode written.\<close>

theorem write_inode_refines:
  assumes "dios_ok fs device nblk rds" and "wf_inode i" and "unat (i_inode_number i) < s_num_inodes (fs_superblock fs)"
  shows "\<exists>rds'. diosfs_write_inode fs i rds = Inr rds' \<and> dios_ok fs device nblk rds' \<and>
    dios_view fs device rds' = (dios_view fs device rds)\<lparr>inodes :=
      (inodes (dios_view fs device rds))(unat (i_inode_number i) := i)\<rparr> \<and>
    diosfs_read_inode fs (unat (i_inode_number i)) rds' = Inr i"
proof -
  obtain rds' where w: "diosfs_write_inode fs i rds = Inr rds'" "dios_ok fs device nblk rds'"
    "view (fs_superblock fs) (rd_blk device 1024 rds') = (view (fs_superblock fs) (rd_blk device 1024 rds))\<lparr>inodes :=
      (inodes (view (fs_superblock fs) (rd_blk device 1024 rds)))(unat (i_inode_number i) := i)\<rparr>"
    by (rule dios.write_inode_ok [OF assms])
  with dios.read_inode_ok [OF w(2) assms(3)] show ?thesis by (simp add: dios_view_def)
qed

theorem write_inode_refines_witness:
  "\<exists>rds'. diosfs_write_inode demo_fs demo_inode [demo_disk 8] = Inr rds' \<and>
    diosfs_read_inode demo_fs 5 rds' = Inr demo_inode"
  using write_inode_refines [OF demo_fs_ok, of demo_inode]
  by (auto simp: demo_inode_def wf_inode_def zero_inode_def demo_sizes)

text \<open>C2: Writing a data block replaces exactly that block by the 1024 bytes at the buffer's position, whatever
  offset and size are passed, and reading it yields them.\<close>

theorem write_block_refines:
  assumes "dios_ok fs device nblk rds" and "n < s_num_blocks (fs_superblock fs)" and "pos + 1024 \<le> length buf"
    and "pos' + 1024 \<le> length buf'"
  shows "\<exists>rds'. diosfs_write_block_by_number fs n buf pos off sz rds = Inr rds' \<and> dios_ok fs device nblk rds' \<and>
    dios_view fs device rds' = (dios_view fs device rds)\<lparr>blocks :=
      (blocks (dios_view fs device rds))(n := window buf pos 1024)\<rparr> \<and>
    diosfs_read_block_by_number fs n buf' pos' off' sz' rds' = Inr (overwrite buf' pos' (window buf pos 1024))"
proof -
  obtain rds' where w: "diosfs_write_block_by_number fs n buf pos off sz rds = Inr rds'" "dios_ok fs device nblk rds'"
    "view (fs_superblock fs) (rd_blk device 1024 rds') = (view (fs_superblock fs) (rd_blk device 1024 rds))\<lparr>blocks :=
      (blocks (view (fs_superblock fs) (rd_blk device 1024 rds)))(n := window buf pos 1024)\<rparr>"
    by (rule dios.write_block_ok [OF assms(1-3)])
  with dios.read_block_ok [OF w(2) assms(2,4)] show ?thesis by (simp add: dios_view_def)
qed

theorem write_block_refines_witness:
  "\<exists>rds'. diosfs_write_block_by_number demo_fs 3 (replicate 2000 7) 0 100 50 [demo_disk 8] = Inr rds' \<and>
    diosfs_read_block_by_number demo_fs 3 (replicate 1024 1) 0 0 1024 rds' = Inr (replicate 1024 7)"
  using write_block_refines [OF demo_fs_ok, of 3 0 "replicate 2000 7" 0 "replicate 1024 1" 100 50 0 1024]
  by (auto simp: demo_sizes window_def overwrite_def)

text \<open>C14: The block allocator, free block or not. It returns the first number whose bit is clear in what it scans: the first
  \<^verbatim>\<open>block_bitmap_pointers_start\<close> blocks of the bitmap (the count it passes to the driver) and, behind them, the
  buffer as the heap left it. A block among those that the transferred part covers is marked, and nothing else of the
  volume changes; a number behind that part is returned without being marked anywhere, although the bitmap may have it
  in use, and the volume is unchanged.\<close>

theorem block_alloc_first_free:
  assumes "dios_ok fs device nblk rds" and "n < 8192 * s_block_bitmap_size (fs_superblock fs)"
    and "\<not> block_scanned fs (dios_view fs device rds) n" and "\<forall>m<n. block_scanned fs (dios_view fs device rds) m"
  shows "\<exists>rds'. diosfs_get_free_block_and_mark_bitmap fs rds = Inr (n, rds') \<and> dios_ok fs device nblk rds' \<and>
    dios_view fs device rds' =
      (if n < 8192 * s_block_bitmap_pointers_start (fs_superblock fs)
       then (dios_view fs device rds)\<lparr>block_bits := (block_bits (dios_view fs device rds))(n := True)\<rparr>
       else dios_view fs device rds)"
proof -
  let ?v = "dios_view fs device rds" and ?s = "s_block_bitmap_pointers_start (fs_superblock fs)"
  obtain rds' where r: "diosfs_get_free_block_and_mark_bitmap fs rds = Inr (n, rds')" "dios_ok fs device nblk rds'"
    "dios_view fs device rds' = ?v\<lparr>block_bits := \<lambda>m. block_bits ?v m \<or> m = n \<and> n < 8192 * ?s\<rparr>"
    unfolding dios_view_def by (rule dios.get_free_block_scan [OF assms [unfolded dios_view_def]])
  have "(\<lambda>m. block_bits ?v m \<or> m = n \<and> n < 8192 * ?s) = (if n < 8192 * ?s then (block_bits ?v)(n := True) else block_bits ?v)"
    by auto
  with r show ?thesis by auto
qed

theorem block_alloc_first_free_witness:
  "\<exists>rds'. diosfs_get_free_block_and_mark_bitmap demo_fs [demo_disk 8] = Inr (0, rds') \<and>
    block_bits (dios_view demo_fs demo_device rds') 0"
  using block_alloc_first_free [OF demo_fs_ok, of 0]
  by (auto simp: demo_bits demo_sizes block_scanned_def)

text \<open>Freeing a block of the first 8192 that the allocator has just handed out leaves both bitmaps as they were
  before the allocation, and the block zeroed.\<close>

theorem block_alloc_free_round_trip:
  assumes "dios_ok fs device nblk rds" and "n < 8192" and "n < s_num_blocks (fs_superblock fs)"
    and "0 < s_block_bitmap_pointers_start (fs_superblock fs)"
    and "\<not> block_bits (dios_view fs device rds) n" and "\<forall>m<n. block_bits (dios_view fs device rds) m"
  shows "\<exists>rds1 rds2. diosfs_get_free_block_and_mark_bitmap fs rds = Inr (n, rds1) \<and>
    diosfs_free_block_and_mark_bitmap fs n rds1 = Inr rds2 \<and> dios_ok fs device nblk rds2 \<and>
    dios_view fs device rds2 = (dios_view fs device rds)\<lparr>blocks :=
      (blocks (dios_view fs device rds))(n := replicate 1024 0)\<rparr>"
proof -
  have n: "n < 8192 * s_block_bitmap_pointers_start (fs_superblock fs)"
    using assms(2,4) by (cases "s_block_bitmap_pointers_start (fs_superblock fs)") auto
  obtain rds1 where a: "diosfs_get_free_block_and_mark_bitmap fs rds = Inr (n, rds1)" "dios_ok fs device nblk rds1"
    "view (fs_superblock fs) (rd_blk device 1024 rds1) = (view (fs_superblock fs) (rd_blk device 1024 rds))\<lparr>block_bits :=
      (block_bits (view (fs_superblock fs) (rd_blk device 1024 rds)))(n := True)\<rparr>"
    by (rule dios.get_free_block_ok [OF assms(1) n assms(5,6) [unfolded dios_view_def]])
  have "n < 8192 * s_block_bitmap_size (fs_superblock fs)"
    using n assms(1) by (auto simp: dios_ok_def volume_ok_def layout_ok_def)
  from dios.free_block_ok [OF a(2) assms(2,3) this] obtain rds2 where
    f: "diosfs_free_block_and_mark_bitmap fs n rds1 = Inr rds2" "dios_ok fs device nblk rds2"
    "view (fs_superblock fs) (rd_blk device 1024 rds2) = (view (fs_superblock fs) (rd_blk device 1024 rds1))\<lparr>blocks :=
      (blocks (view (fs_superblock fs) (rd_blk device 1024 rds1)))(n := replicate 1024 0),
      block_bits := (block_bits (view (fs_superblock fs) (rd_blk device 1024 rds1)))(n := False)\<rparr>" by metis
  have "(block_bits (dios_view fs device rds))(n := False) = block_bits (dios_view fs device rds)"
    using assms(5) by (auto simp: fun_eq_iff)
  with a f show ?thesis by (simp add: dios_view_def)
qed

theorem block_alloc_free_round_trip_witness:
  "\<exists>rds1 rds2. diosfs_get_free_block_and_mark_bitmap demo_fs [demo_disk 8] = Inr (0, rds1) \<and>
    diosfs_free_block_and_mark_bitmap demo_fs 0 rds1 = Inr rds2 \<and> \<not> block_bits (dios_view demo_fs demo_device rds2) 0"
  using block_alloc_free_round_trip [OF demo_fs_ok, of 0]
  by (auto simp: demo_bits demo_sizes)

text \<open>Freeing a block number from 8192 up to 32767 does not clear its bit in the bitmap: the volume's bitmap
  is unchanged, so the block is never allocated again.\<close>

theorem block_free_leaks:
  assumes "dios_ok fs device nblk rds" and "8192 \<le> n" and "n < 32768"
    and "n < 8192 * s_block_bitmap_size (fs_superblock fs)"
  shows "\<exists>rds'. diosfs_clear_bitmap fs BITMAP_TYPE_BLOCK n rds = Inr rds' \<and>
    dios_view fs device rds' = dios_view fs device rds"
  using dios.clear_bitmap_leak [OF assms] unfolding dios_view_def by metis

theorem block_free_leaks_witness:
  "\<exists>rds'. diosfs_clear_bitmap demo_fs BITMAP_TYPE_BLOCK 8192 [demo_disk 8] = Inr rds' \<and>
    dios_view demo_fs demo_device rds' = dios_view demo_fs demo_device [demo_disk 8]"
  using block_free_leaks [OF demo_fs_ok, of 8192] by (simp add: demo_sizes)

text \<open>The inode allocator returns the first inode whose bit is clear. In the first bitmap block it marks that
  inode; in any later block it sets a bit of the first block that is already set, so the bitmap is
  unchanged and the next allocation returns the same inode again.\<close>

theorem inode_alloc_marks_first_block_only:
  assumes "dios_ok fs device nblk rds" and "n < 8192 * s_inode_bitmap_size (fs_superblock fs)"
    and "\<not> inode_bits (dios_view fs device rds) n" and "\<forall>m<n. inode_bits (dios_view fs device rds) m"
  shows "\<exists>rds'. diosfs_get_free_inode_and_mark_bitmap fs rds = Inr (zero_inode\<lparr>i_inode_number := word_of_nat n\<rparr>, rds') \<and>
    dios_ok fs device nblk rds' \<and>
    dios_view fs device rds' = (if n < 8192
      then (dios_view fs device rds)\<lparr>inode_bits := (inode_bits (dios_view fs device rds))(n := True)\<rparr>
      else dios_view fs device rds)"
proof -
  obtain rds' where a: "diosfs_get_free_inode_and_mark_bitmap fs rds = Inr (zero_inode\<lparr>i_inode_number := word_of_nat n\<rparr>, rds')"
    "dios_ok fs device nblk rds'"
    "view (fs_superblock fs) (rd_blk device 1024 rds') = (view (fs_superblock fs) (rd_blk device 1024 rds))\<lparr>inode_bits :=
      (inode_bits (view (fs_superblock fs) (rd_blk device 1024 rds)))(n mod 8192 := True)\<rparr>"
    by (rule dios.get_free_inode_ok [OF assms [unfolded dios_view_def]])
  have "(inode_bits (dios_view fs device rds))(n mod 8192 := True) = inode_bits (dios_view fs device rds)" if "\<not> n < 8192"
  proof -
    have "n mod 8192 < n" using that mod_less_divisor [of 8192 n] by linarith
    then show ?thesis using assms(4) by (auto simp: fun_eq_iff)
  qed
  with a show ?thesis by (auto simp: dios_view_def)
qed

theorem inode_alloc_marks_first_block_only_witness:
  "\<exists>rds'. diosfs_get_free_inode_and_mark_bitmap demo_fs [demo_disk 8] = Inr (zero_inode, rds') \<and>
    inode_bits (dios_view demo_fs demo_device rds') 0"
  using inode_alloc_marks_first_block_only [OF demo_fs_ok, of 0]
  by (auto simp: demo_bits demo_sizes zero_inode_def)

text \<open>Freeing an inode zeroes it and clears its bit, and also overwrites an unrelated data block, the one
  numbered by the inode's block on the disk, with uninitialised memory.\<close>

theorem inode_free_overwrites_data_block:
  assumes "dios_ok fs device nblk rds" and "n < 8192" and "n < s_num_inodes (fs_superblock fs)"
    and "s_inode_start_pointer (fs_superblock fs) + n div 4 < s_num_blocks (fs_superblock fs)"
  shows "\<exists>rds'. diosfs_free_inode_and_mark_bitmap fs n rds = Inr rds' \<and> dios_ok fs device nblk rds' \<and>
    dios_view fs device rds' = (dios_view fs device rds)\<lparr>
      inodes := (inodes (dios_view fs device rds))(n := zero_inode\<lparr>i_inode_number := word_of_nat n\<rparr>),
      blocks := (blocks (dios_view fs device rds))(s_inode_start_pointer (fs_superblock fs) + n div 4 :=
        take 1024 (fs_kmalloc fs 4096)),
      inode_bits := (inode_bits (dios_view fs device rds))(n := False)\<rparr>"
  using dios.free_inode_ok [OF assms] unfolding dios_view_def by metis

theorem inode_free_overwrites_data_block_witness:
  "\<exists>rds'. diosfs_free_inode_and_mark_bitmap demo_fs 5 [demo_disk 8] = Inr rds' \<and>
    blocks (dios_view demo_fs demo_device rds') 7 = replicate 1024 170"
  using inode_free_overwrites_data_block [OF demo_fs_ok, of 5]
  by (auto simp: demo_sizes)

end
