(* ===== verification/DiosFS_Alloc.thy ===== *)
theory DiosFS_Alloc
  imports DiosFS_Volume
begin

text \<open>
  The blocks of a file (\<^verbatim>\<open>kernel/src/filesystem/diosfs.c\<close>): following direct and indirect pointers,
  allocating new blocks at each level of indirection, and freeing all blocks of an inode.
  Functions that change the caller's \<^verbatim>\<open>struct diosfs_inode\<close> return it.
\<close>

section \<open>Following pointers\<close>

text \<open>
  One step through an indirection block: read the block into the temporary page and take an entry.
\<close>

definition read_pointer :: "'d diosfs_filesystem_context \<Rightarrow> byte list \<Rightarrow> nat \<Rightarrow> nat \<Rightarrow> 'd \<Rightarrow> (byte list \<times> nat) res" where
  "read_pointer fs temp_buffer block_number index d =
     bindR (diosfs_read_block_by_number fs block_number temp_buffer 0 0 (s_block_size (fs_superblock fs)) d) (\<lambda>temp_buffer.
       if length temp_buffer < 8 * index + 8 then Inl OutOfBounds
       else Inr (temp_buffer, unat (get_u64 temp_buffer index)))"

definition diosfs_get_relative_block_number_from_file ::
    "'d diosfs_filesystem_context \<Rightarrow> diosfs_inode \<Rightarrow> nat \<Rightarrow> 'd \<Rightarrow> nat res" where
  "diosfs_get_relative_block_number_from_file fs inode current_block d =
     (let temp_buffer = fs_kmalloc fs 4096 in
      bindR (diosfs_indirection_indices_for_block_number current_block) (\<lambda>indices.
        if levels_indirection indices = 0 then
          (if length (i_blocks inode) \<le> direct_block_number indices then Inl OutOfBounds
           else Inr (unat (i_blocks inode ! direct_block_number indices)))
        else if levels_indirection indices = 1 then
          bindR (read_pointer fs temp_buffer (unat (i_single_indirect inode)) (first_level_block_number indices) d) (\<lambda>(_, b).
            Inr b)
        else if levels_indirection indices = 2 then
          bindR (read_pointer fs temp_buffer (unat (i_double_indirect inode)) (second_level_block_number indices) d) (\<lambda>(temp_buffer, b).
          bindR (read_pointer fs temp_buffer b (first_level_block_number indices) d) (\<lambda>(_, b). Inr b))
        else if levels_indirection indices = 3 then
          bindR (read_pointer fs temp_buffer (unat (i_triple_indirect inode)) (third_level_block_number indices) d) (\<lambda>(temp_buffer, b).
          bindR (read_pointer fs temp_buffer b (second_level_block_number indices) d) (\<lambda>(temp_buffer, b).
          bindR (read_pointer fs temp_buffer b (first_level_block_number indices) d) (\<lambda>(_, b). Inr b)))
        else Inl (Panic ''diosfs_get_next_logical_block_from_file: unknown indirection'')))"

section \<open>Allocating blocks\<close>

text \<open>The loop that fills entries \<open>i, i + 1, \<dots>\<close> of an indirection block with \<open>n\<close> new blocks.\<close>

fun alloc_pointers :: "'d diosfs_filesystem_context \<Rightarrow> nat \<Rightarrow> nat \<Rightarrow> byte list \<Rightarrow> 'd \<Rightarrow> (byte list \<times> 'd) res" where
  "alloc_pointers fs 0 i buffer d = Inr (buffer, d)"
| "alloc_pointers fs (Suc n) i buffer d =
     bindR (diosfs_get_free_block_and_mark_bitmap fs d) (\<lambda>(b, d).
       if length buffer < 8 * i + 8 then Inl OutOfBounds
       else alloc_pointers fs n (i + 1) (put_u64 buffer i (word_of_nat b)) d)"

definition diosfs_allocate_single_indirect_block ::
    "'d diosfs_filesystem_context \<Rightarrow> diosfs_inode \<Rightarrow> nat \<Rightarrow> nat \<Rightarrow> bool \<Rightarrow> nat \<Rightarrow> 'd \<Rightarrow> (diosfs_inode \<times> nat \<times> 'd) res" where
  "diosfs_allocate_single_indirect_block fs inode num_allocated num_to_allocate higher_order block_number d =
     (let bs = s_block_size (fs_superblock fs);
          num_to_allocate = (if NUM_BLOCKS_IN_INDIRECTION_BLOCK \<le> num_allocated + num_to_allocate
                             then NUM_BLOCKS_IN_INDIRECTION_BLOCK - num_allocated else num_to_allocate);
          buffer = fs_kmalloc fs 4096
      in bindR (if higher_order \<and> block_number = 0 then
                  bindR (diosfs_get_free_block_and_mark_bitmap fs d) (\<lambda>(b, d). Inr (inode, b, d))
                else if \<not> higher_order \<and> block_number = 0 then
                  bindR (if i_single_indirect inode = 0 then diosfs_get_free_block_and_mark_bitmap fs d
                         else Inr (unat (i_single_indirect inode), d)) (\<lambda>(b, d).
                    Inr (inode\<lparr>i_single_indirect := word_of_nat b\<rparr>, b, d))
                else Inr (inode, block_number, d)) (\<lambda>(inode, single_indirect, d).
         bindR (diosfs_read_block_by_number fs single_indirect buffer 0 0 bs d) (\<lambda>buffer.
         bindR (alloc_pointers fs num_to_allocate num_allocated buffer d) (\<lambda>(buffer, d).
         bindR (diosfs_write_block_by_number fs single_indirect buffer 0 0 bs d) (\<lambda>d.
         bindR (diosfs_write_inode fs inode d) (\<lambda>d.
           Inr (inode, single_indirect, d)))))))"

text \<open>
  The loop of \<^verbatim>\<open>diosfs_allocate_double_indirect_block\<close>: after the first round \<open>allocated\<close> is 0, and the
  entry behind the one just written is taken as the next block.
\<close>

function double_loop :: "'d diosfs_filesystem_context \<Rightarrow> diosfs_inode \<Rightarrow> nat \<Rightarrow> nat \<Rightarrow> nat \<Rightarrow> nat \<Rightarrow> byte list \<Rightarrow> 'd \<Rightarrow>
    (diosfs_inode \<times> byte list \<times> 'd) res" where
  "double_loop fs inode num_to_allocate index allocated block buffer d =
     (if 0 < num_to_allocate then
        let amount = (if num_to_allocate < NUM_BLOCKS_IN_INDIRECTION_BLOCK then num_to_allocate
                      else NUM_BLOCKS_IN_INDIRECTION_BLOCK) in
        bindR (diosfs_allocate_single_indirect_block fs inode allocated amount True block d) (\<lambda>(inode, b, d).
          if length buffer < 8 * index + 16 then Inl OutOfBounds
          else let buffer = put_u64 buffer index (word_of_nat b) in
            double_loop fs inode (num_to_allocate - amount) (index + 1) 0 (unat (get_u64 buffer (index + 1))) buffer d)
      else Inr (inode, buffer, d))"
  by pat_completeness auto
termination by (relation "measure (\<lambda>(fs, inode, n, index, allocated, block, buffer, d). n)")
  (auto simp: NUM_BLOCKS_IN_INDIRECTION_BLOCK_def)

declare double_loop.simps [simp del]

definition diosfs_allocate_double_indirect_block ::
    "'d diosfs_filesystem_context \<Rightarrow> diosfs_inode \<Rightarrow> nat \<Rightarrow> nat \<Rightarrow> bool \<Rightarrow> nat \<Rightarrow> 'd \<Rightarrow> (diosfs_inode \<times> nat \<times> 'd) res" where
  "diosfs_allocate_double_indirect_block fs inode num_allocated num_to_allocate higher_order block_number d =
     (let bs = s_block_size (fs_superblock fs); buffer = fs_kmalloc fs 4096 in
      bindR (if higher_order \<and> block_number = 0 then
               bindR (diosfs_get_free_block_and_mark_bitmap fs d) (\<lambda>(b, d). Inr (inode, b, d))
             else if \<not> higher_order \<and> block_number = 0 then
               bindR (if i_double_indirect inode = 0 then diosfs_get_free_block_and_mark_bitmap fs d
                      else Inr (unat (i_double_indirect inode), d)) (\<lambda>(b, d).
                 Inr (inode\<lparr>i_double_indirect := word_of_nat b\<rparr>, b, d))
             else Inr (inode, block_number, d)) (\<lambda>(inode, double_indirect, d).
      bindR (diosfs_read_block_by_number fs double_indirect buffer 0 0 bs d) (\<lambda>buffer.
        let index = (if num_allocated = 0 then 0 else num_allocated div NUM_BLOCKS_IN_INDIRECTION_BLOCK);
            allocated = (if num_allocated = 0 then 0 else num_allocated mod NUM_BLOCKS_IN_INDIRECTION_BLOCK)
        in if 0 < num_allocated \<and> length buffer < 8 * index + 8 then Inl OutOfBounds
           else let block = (if 0 < num_allocated then unat (get_u64 buffer index) else 0) in
             bindR (double_loop fs inode num_to_allocate index allocated block buffer d) (\<lambda>(inode, buffer, d).
             bindR (diosfs_write_block_by_number fs double_indirect buffer 0 0 bs d) (\<lambda>d.
             bindR (diosfs_write_inode fs inode d) (\<lambda>d.
               Inr (inode, double_indirect, d)))))))"

function triple_loop :: "'d diosfs_filesystem_context \<Rightarrow> diosfs_inode \<Rightarrow> nat \<Rightarrow> nat \<Rightarrow> nat \<Rightarrow> byte list \<Rightarrow> 'd \<Rightarrow>
    (diosfs_inode \<times> byte list \<times> 'd) res" where
  "triple_loop fs inode num_to_allocate index allocated buffer d =
     (if 0 < num_to_allocate then
        let amount = (if num_to_allocate < NUM_BLOCKS_DOUBLE_INDIRECTION then num_to_allocate
                      else NUM_BLOCKS_DOUBLE_INDIRECTION) in
        bindR (diosfs_allocate_double_indirect_block fs inode allocated amount True 0 d) (\<lambda>(inode, b, d).
          if length buffer < 8 * index + 8 then Inl OutOfBounds
          else triple_loop fs inode (num_to_allocate - amount) (index + 1) 0 (put_u64 buffer index (word_of_nat b)) d)
      else Inr (inode, buffer, d))"
  by pat_completeness auto
termination by (relation "measure (\<lambda>(fs, inode, n, index, allocated, buffer, d). n)")
  (auto simp: NUM_BLOCKS_DOUBLE_INDIRECTION_def)

declare triple_loop.simps [simp del]

definition diosfs_allocate_triple_indirect_block ::
    "'d diosfs_filesystem_context \<Rightarrow> diosfs_inode \<Rightarrow> nat \<Rightarrow> nat \<Rightarrow> 'd \<Rightarrow> (diosfs_inode \<times> nat \<times> 'd) res" where
  "diosfs_allocate_triple_indirect_block fs inode num_allocated num_to_allocate d =
     (let bs = s_block_size (fs_superblock fs); buffer = fs_kmalloc fs 4096 in
      bindR (if i_triple_indirect inode = 0 then diosfs_get_free_block_and_mark_bitmap fs d
             else Inr (unat (i_triple_indirect inode), d)) (\<lambda>(triple_indirect, d).
        let inode = inode\<lparr>i_triple_indirect := word_of_nat triple_indirect\<rparr> in
        bindR (diosfs_read_block_by_number fs triple_indirect buffer 0 0 bs d) (\<lambda>buffer.
          let index = (if num_allocated = 0 then 0 else num_allocated div NUM_BLOCKS_DOUBLE_INDIRECTION);
              allocated = (if num_allocated = 0 then 0 else num_allocated mod NUM_BLOCKS_DOUBLE_INDIRECTION)
          in bindR (triple_loop fs inode num_to_allocate index allocated buffer d) (\<lambda>(inode, buffer, d).
             bindR (diosfs_write_block_by_number fs triple_indirect buffer 0 0 bs d) (\<lambda>d.
               Inr (inode, triple_indirect, d))))))"

text \<open>
  The loop at \<^verbatim>\<open>level_zero\<close>: \<open>k\<close> direct entries remain from \<open>i\<close> on. The flag tells whether all blocks asked
  for have been allocated.
\<close>

fun alloc_direct :: "'d diosfs_filesystem_context \<Rightarrow> nat \<Rightarrow> nat \<Rightarrow> diosfs_inode \<Rightarrow> 32 word \<Rightarrow> 'd \<Rightarrow>
    (bool \<times> diosfs_inode \<times> 32 word \<times> 'd) res" where
  "alloc_direct fs 0 i inode num d = Inr (False, inode, num, d)"
| "alloc_direct fs (Suc k) i inode num d =
     bindR (diosfs_get_free_block_and_mark_bitmap fs d) (\<lambda>(b, d).
       if length (i_blocks inode) \<le> i then Inl OutOfBounds
       else let inode = inode\<lparr>i_blocks := (i_blocks inode)[i := word_of_nat b], i_block_count := i_block_count inode + 1\<rparr>;
                num = num - 1
            in if num = 0 then Inr (True, inode, num, d) else alloc_direct fs k (i + 1) inode num d)"

text \<open>
  The three indirect levels, in the order in which control falls through them. The counts are
  \<^verbatim>\<open>uint64_t\<close>; \<^verbatim>\<open>block_count - NUM_BLOCKS_DIRECT\<close> is computed on 32 bits.
\<close>

definition num_in_indirect :: "32 word \<Rightarrow> 64 word \<Rightarrow> nat \<Rightarrow> 64 word" where
  "num_in_indirect num num_allocated limit =
     (if word_of_nat limit < ucast num + num_allocated then word_of_nat limit - num_allocated else ucast num)"

definition alloc_level_three :: "'d diosfs_filesystem_context \<Rightarrow> diosfs_inode \<Rightarrow> 32 word \<Rightarrow> 'd \<Rightarrow> (diosfs_inode \<times> 32 word \<times> 'd) res" where
  "alloc_level_three fs inode num d =
     (let num_allocated = ucast (i_block_count inode - word_of_nat NUM_BLOCKS_DIRECT) -
            word_of_nat NUM_BLOCKS_IN_INDIRECTION_BLOCK - word_of_nat NUM_BLOCKS_DOUBLE_INDIRECTION;
          n = num_in_indirect num num_allocated NUM_BLOCKS_TRIPLE_INDIRECTION
      in bindR (diosfs_allocate_triple_indirect_block fs inode (unat num_allocated) (unat n) d) (\<lambda>(inode, _, d).
           Inr (inode\<lparr>i_block_count := i_block_count inode + ucast n\<rparr>, num - ucast n, d)))"

definition alloc_level_two :: "'d diosfs_filesystem_context \<Rightarrow> diosfs_inode \<Rightarrow> 32 word \<Rightarrow> 'd \<Rightarrow> (diosfs_inode \<times> 32 word \<times> 'd) res" where
  "alloc_level_two fs inode num d =
     (let num_allocated = ucast (i_block_count inode - word_of_nat NUM_BLOCKS_DIRECT) -
            word_of_nat NUM_BLOCKS_IN_INDIRECTION_BLOCK;
          n = num_in_indirect num num_allocated NUM_BLOCKS_DOUBLE_INDIRECTION
      in bindR (diosfs_allocate_double_indirect_block fs inode (unat num_allocated) (unat n) False 0 d) (\<lambda>(inode, _, d).
           let inode = inode\<lparr>i_block_count := i_block_count inode + ucast n\<rparr>; num = num - ucast n in
           if num = 0 then Inr (inode, num, d) else alloc_level_three fs inode num d))"

definition alloc_level_one :: "'d diosfs_filesystem_context \<Rightarrow> diosfs_inode \<Rightarrow> 32 word \<Rightarrow> 'd \<Rightarrow> (diosfs_inode \<times> 32 word \<times> 'd) res" where
  "alloc_level_one fs inode num d =
     (let num_allocated = ucast (i_block_count inode - word_of_nat NUM_BLOCKS_DIRECT);
          n = num_in_indirect num num_allocated NUM_BLOCKS_IN_INDIRECTION_BLOCK
      in bindR (diosfs_allocate_single_indirect_block fs inode (unat num_allocated) (unat n) False 0 d) (\<lambda>(inode, _, d).
           let inode = inode\<lparr>i_block_count := i_block_count inode + ucast n\<rparr>; num = num - ucast n in
           if num = 0 then Inr (inode, num, d) else alloc_level_two fs inode num d))"

definition MAX_BLOCKS_IN_INODE :: nat where "MAX_BLOCKS_IN_INODE = 10 * 1024 * 128 * 128 * 128"

definition DIOSFS_ERROR :: nat where "DIOSFS_ERROR = 7"

definition diosfs_inode_allocate_new_blocks ::
    "'d diosfs_filesystem_context \<Rightarrow> diosfs_inode \<Rightarrow> 32 word \<Rightarrow> 'd \<Rightarrow> (nat \<times> diosfs_inode \<times> 'd) res" where
  "diosfs_inode_allocate_new_blocks fs inode num d =
     (let bs = s_block_size (fs_superblock fs); sz = unat (i_size inode) in
      if bs = 0 then Inl DivideError
      else if i_type inode = VNODE_DIRECTORY \<and> NUM_BLOCKS_DIRECT < unat num + sz div bs then Inr (DIOSFS_ERROR, inode, d)
      else if MAX_BLOCKS_IN_INODE < unat num + sz div bs then Inr (DIOSFS_ERROR, inode, d)
      else bindR (diosfs_indirection_indices_for_block_number (if sz mod bs = 0 then sz div bs else sz div bs + 1)) (\<lambda>result.
        bindR (if levels_indirection result = 0 then
                 bindR (alloc_direct fs (NUM_BLOCKS_DIRECT - unat (i_block_count inode)) (unat (i_block_count inode)) inode num d) (\<lambda>(stop, inode, num, d).
                   if stop then Inr (inode, num, d) else alloc_level_one fs inode num d)
               else if levels_indirection result = 1 then alloc_level_one fs inode num d
               else if levels_indirection result = 2 then alloc_level_two fs inode num d
               else if levels_indirection result = 3 then alloc_level_three fs inode num d
               else Inl (Panic ''diosfs_inode_allocate_new_block: unknown indirection'')) (\<lambda>(inode, num, d).
          if num \<noteq> 0 then Inl (Panic ''diosfs_inode_allocate_new_block: num_blocks_to_allocate != 0!'')
          else bindR (diosfs_write_inode fs inode d) (\<lambda>d. Inr (DIOSFS_SUCCESS, inode, d)))))"

section \<open>Freeing blocks\<close>

text \<open>
  A loop that frees the given blocks and stops when \<open>num_blocks\<close>, decremented with wrap-around, is 0.
  The flag tells whether it stopped.
\<close>

fun free_each :: "'d diosfs_filesystem_context \<Rightarrow> nat list \<Rightarrow> 64 word \<Rightarrow> 'd \<Rightarrow> (bool \<times> 64 word \<times> 'd) res" where
  "free_each fs [] num d = Inr (False, num, d)"
| "free_each fs (b # bs) num d =
     bindR (diosfs_free_block_and_mark_bitmap fs b d) (\<lambda>d.
       let num = num - 1 in if num = 0 then Inr (True, num, d) else free_each fs bs num d)"

definition pointers_from :: "byte list \<Rightarrow> nat \<Rightarrow> nat list" where
  "pointers_from buffer i = map (\<lambda>k. unat (get_u64 buffer k)) [i..<NUM_BLOCKS_IN_INDIRECTION_BLOCK]"

text \<open>The outer loop of level two, and of level three, over the pointers of an indirection block.\<close>

fun free_through :: "'d diosfs_filesystem_context \<Rightarrow> nat list \<Rightarrow> nat \<Rightarrow> byte list \<Rightarrow> 64 word \<Rightarrow> 'd \<Rightarrow> (bool \<times> 64 word \<times> 'd) res" where
  "free_through fs [] j buffer2 num d = Inr (False, num, d)"
| "free_through fs (b # bs) j buffer2 num d =
     bindR (diosfs_read_block_by_number fs b buffer2 0 0 (s_block_size (fs_superblock fs)) d) (\<lambda>buffer2.
     bindR (free_each fs (pointers_from buffer2 j) num d) (\<lambda>(stop, num, d).
       if stop then Inr (True, num, d) else free_through fs bs j buffer2 num d))"

fun free_through2 :: "'d diosfs_filesystem_context \<Rightarrow> nat list \<Rightarrow> nat \<Rightarrow> nat \<Rightarrow> byte list \<Rightarrow> byte list \<Rightarrow> 64 word \<Rightarrow> 'd \<Rightarrow>
    (bool \<times> 64 word \<times> 'd) res" where
  "free_through2 fs [] j k buffer2 buffer3 num d = Inr (False, num, d)"
| "free_through2 fs (b # bs) j k buffer2 buffer3 num d =
     bindR (diosfs_read_block_by_number fs b buffer2 0 0 (s_block_size (fs_superblock fs)) d) (\<lambda>buffer2.
     bindR (free_through fs (pointers_from buffer2 j) k buffer3 num d) (\<lambda>(stop, num, d).
       if stop then Inr (True, num, d) else free_through2 fs bs j k buffer2 buffer3 num d))"

definition free_level_three :: "'d diosfs_filesystem_context \<Rightarrow> diosfs_inode \<Rightarrow> nat \<Rightarrow> 64 word \<Rightarrow> 'd \<Rightarrow> (64 word \<times> 'd) res" where
  "free_level_three fs inode t num d =
     bindR (diosfs_read_block_by_number fs (unat (i_triple_indirect inode)) (fs_kmalloc fs 4096) 0 0 (s_block_size (fs_superblock fs)) d) (\<lambda>buffer.
     bindR (free_through2 fs (pointers_from buffer (t div NUM_BLOCKS_DOUBLE_INDIRECTION)) (t div NUM_BLOCKS_IN_INDIRECTION_BLOCK)
              (t mod NUM_BLOCKS_IN_INDIRECTION_BLOCK) (fs_kmalloc fs 4096) (fs_kmalloc fs 4096) num d) (\<lambda>(_, num, d).
       Inr (num, d)))"

definition free_level_two :: "'d diosfs_filesystem_context \<Rightarrow> diosfs_inode \<Rightarrow> nat \<Rightarrow> 64 word \<Rightarrow> 'd \<Rightarrow> (64 word \<times> 'd) res" where
  "free_level_two fs inode k num d =
     bindR (diosfs_read_block_by_number fs (unat (i_double_indirect inode)) (fs_kmalloc fs 4096) 0 0 (s_block_size (fs_superblock fs)) d) (\<lambda>buffer.
     bindR (free_through fs (pointers_from buffer (k div NUM_BLOCKS_IN_INDIRECTION_BLOCK)) (k mod NUM_BLOCKS_IN_INDIRECTION_BLOCK)
              (fs_kmalloc fs 4096) num d) (\<lambda>(stop, num, d).
       if stop then Inr (num, d) else free_level_three fs inode 0 num d))"

definition free_level_one :: "'d diosfs_filesystem_context \<Rightarrow> diosfs_inode \<Rightarrow> nat \<Rightarrow> 64 word \<Rightarrow> 'd \<Rightarrow> (64 word \<times> 'd) res" where
  "free_level_one fs inode k num d =
     bindR (diosfs_read_block_by_number fs (unat (i_single_indirect inode)) (fs_kmalloc fs 4096) 0 0 (s_block_size (fs_superblock fs)) d) (\<lambda>buffer.
     bindR (free_each fs (pointers_from buffer k) num d) (\<lambda>(stop, num, d).
       if stop then Inr (num, d) else free_level_two fs inode 0 num d))"

definition free_blocks_from_inode ::
    "'d diosfs_filesystem_context \<Rightarrow> nat \<Rightarrow> 64 word \<Rightarrow> diosfs_inode \<Rightarrow> 'd \<Rightarrow> (diosfs_inode \<times> 'd) res" where
  "free_blocks_from_inode fs block_start num_blocks inode d =
     (if i_block_count inode = 0 then Inr (inode, d)
      else bindR (diosfs_indirection_indices_for_block_number block_start) (\<lambda>ix.
        bindR (if levels_indirection ix = 0 then
                 bindR (free_each fs (map unat (drop (direct_block_number ix) (i_blocks inode))) num_blocks d) (\<lambda>(stop, num, d).
                   if stop then Inr (num, d) else free_level_one fs inode 0 num d)
               else if levels_indirection ix = 1 then free_level_one fs inode (first_level_block_number ix) num_blocks d
               else if levels_indirection ix = 2 then free_level_two fs inode (second_level_block_number ix) num_blocks d
               else if levels_indirection ix = 3 then free_level_three fs inode (third_level_block_number ix) num_blocks d
               else Inl (Panic ''diosfs_indirection_indices_for_block_number invalid block number'')) (\<lambda>(num, d).
          Inr (inode\<lparr>i_block_count := i_block_count inode - ucast num\<rparr>, d))))"

text \<open>\<^verbatim>\<open>diosfs_remove_file\<close>: free the blocks, clear the name, write the inode and free it.\<close>

definition diosfs_remove_file :: "'d diosfs_filesystem_context \<Rightarrow> diosfs_inode \<Rightarrow> 'd \<Rightarrow> (diosfs_inode \<times> 'd) res" where
  "diosfs_remove_file fs inode d =
     bindR (free_blocks_from_inode fs 0 (ucast (i_block_count inode)) inode d) (\<lambda>(inode, d).
       let inode = inode\<lparr>i_name := replicate 128 0\<rparr> in
       bindR (diosfs_write_inode fs inode d) (\<lambda>d.
       bindR (diosfs_free_inode_and_mark_bitmap fs (unat (i_inode_number inode)) d) (\<lambda>d.
         Inr (inode, d))))"

section \<open>Specification\<close>

text \<open>Entry \<open>i\<close> of the pointer block \<open>b\<close>, and the block of the volume that is block \<open>n\<close> of a file.\<close>

definition ptr :: "volume \<Rightarrow> nat \<Rightarrow> nat \<Rightarrow> nat" where
  "ptr v b i = unat (get_u64 (blocks v b) i)"

definition file_block :: "volume \<Rightarrow> diosfs_inode \<Rightarrow> nat \<Rightarrow> nat" where
  "file_block v inode n =
     (if n < 10 then unat (i_blocks inode ! n)
      else if n < 138 then ptr v (unat (i_single_indirect inode)) (n - 10)
      else if n < 16522 then ptr v (ptr v (unat (i_double_indirect inode)) ((n - 138) div 128)) ((n - 138) mod 128)
      else ptr v (ptr v (ptr v (unat (i_triple_indirect inode)) ((n - 16522) div 16384))
        ((n - 16522) mod 16384 div 128)) ((n - 16522) mod 128))"

text \<open>The pointer blocks on the way to block \<open>n\<close> of a file are blocks of the volume.\<close>

definition path_ok :: "volume \<Rightarrow> nat \<Rightarrow> diosfs_inode \<Rightarrow> nat \<Rightarrow> bool" where
  "path_ok v nb inode n \<longleftrightarrow>
     (10 \<le> n \<and> n < 138 \<longrightarrow> unat (i_single_indirect inode) < nb) \<and>
     (138 \<le> n \<and> n < 16522 \<longrightarrow> unat (i_double_indirect inode) < nb \<and>
        ptr v (unat (i_double_indirect inode)) ((n - 138) div 128) < nb) \<and>
     (16522 \<le> n \<longrightarrow> unat (i_triple_indirect inode) < nb \<and>
        ptr v (unat (i_triple_indirect inode)) ((n - 16522) div 16384) < nb \<and>
        ptr v (ptr v (unat (i_triple_indirect inode)) ((n - 16522) div 16384)) ((n - 16522) mod 16384 div 128) < nb)"

text \<open>The blocks the allocator can still hand out.\<close>

definition free_blocks :: "diosfs_superblock \<Rightarrow> volume \<Rightarrow> nat set" where
  "free_blocks sb v = {n. n < 8192 * s_block_bitmap_pointers_start sb \<and> \<not> block_bits v n}"

definition take_blocks :: "volume \<Rightarrow> nat list \<Rightarrow> volume" where
  "take_blocks v ns = v\<lparr>block_bits := (\<lambda>n. n \<in> set ns \<or> block_bits v n)\<rparr>"

lemma take_blocks_simps [simp]:
  "inodes (take_blocks v ns) = inodes v" "blocks (take_blocks v ns) = blocks v"
  "inode_bits (take_blocks v ns) = inode_bits v"
  "block_bits (take_blocks v ns) n \<longleftrightarrow> n \<in> set ns \<or> block_bits v n"
  "take_blocks v [] = v" "take_blocks (take_blocks v ns) ms = take_blocks v (ns @ ms)"
  by (simp_all add: take_blocks_def disj_ac)

lemma free_blocks_take: "free_blocks sb (take_blocks v ns) = free_blocks sb v - set ns"
  by (auto simp: free_blocks_def)

lemma finite_free_blocks [simp]: "finite (free_blocks sb v)"
  by (simp add: free_blocks_def)

section \<open>Lemmas\<close>

lemma get_u64_overwrite:
  assumes "8 * i + 8 \<le> length c" and "length c \<le> length buf"
  shows "get_u64 (overwrite buf 0 c) i = get_u64 c i"
proof -
  have "window (overwrite buf 0 c) (8 * i) 8 = window c (8 * i) 8"
    using assms by (intro nth_equalityI) (auto simp: nth_window nth_overwrite)
  then show ?thesis by (simp add: get_u64_def)
qed

context diosfs_volume
begin

lemma read_pointer_ok:
  assumes "ok d" and "b < s_num_blocks sb" and "i < 128" and "4096 \<le> length temp"
  shows "read_pointer fs temp b i d = Inr (overwrite temp 0 (blocks (vw d) b), ptr (vw d) b i)"
proof -
  have r: "diosfs_read_block_by_number fs b temp 0 0 (s_block_size sb) d = Inr (overwrite temp 0 (blocks (vw d) b))"
    using assms by (intro read_block_ok) simp_all
  have len: "length (blocks (vw d) b) = 1024" by (rule length_block [OF assms(1,2)])
  have "get_u64 (overwrite temp 0 (blocks (vw d) b)) i = get_u64 (blocks (vw d) b) i"
    using len assms(3,4) by (intro get_u64_overwrite) simp_all
  then show ?thesis using r len assms(3,4) by (simp add: read_pointer_def ptr_def)
qed

lemma relative_block_ok:
  assumes "ok d" and "wf_inode inode" and "n < 2113674" and p: "path_ok (vw d) (s_num_blocks sb) inode n"
  shows "diosfs_get_relative_block_number_from_file fs inode n d = Inr (file_block (vw d) inode n)"
proof -
  have lk: "4096 \<le> length (fs_kmalloc fs 4096)" by (rule kmalloc_length [OF assms(1)])
  have lo: "4096 \<le> length (overwrite temp 0 (blocks (vw d) b))" if "b < s_num_blocks sb" "4096 \<le> length temp" for temp b
    using that length_block [OF assms(1) that(1)] by simp
  consider "n < 10" | "10 \<le> n" "n < 138" | "138 \<le> n" "n < 16522" | "16522 \<le> n" by linarith
  then show ?thesis
  proof cases
    case 1
    with assms(2) show ?thesis
      by (simp add: diosfs_get_relative_block_number_from_file_def diosfs_indirection_indices_for_block_number_def
          diosfs_constants file_block_def wf_inode_def)
  next
    case 2
    then have "read_pointer fs (fs_kmalloc fs 4096) (unat (i_single_indirect inode)) (n - 10) d =
        Inr (overwrite (fs_kmalloc fs 4096) 0 (blocks (vw d) (unat (i_single_indirect inode))),
          ptr (vw d) (unat (i_single_indirect inode)) (n - 10))"
      using p lk by (intro read_pointer_ok [OF assms(1)]) (simp_all add: path_ok_def)
    with 2 show ?thesis
      by (simp add: diosfs_get_relative_block_number_from_file_def diosfs_indirection_indices_for_block_number_def
          diosfs_constants file_block_def Let_def)
  next
    case 3
    have "(n - 138) div 128 < 128" using 3 by (simp add: div_less_iff_less_mult)
    with 3 p lk lo show ?thesis
      by (simp add: diosfs_get_relative_block_number_from_file_def diosfs_indirection_indices_for_block_number_def
          diosfs_constants file_block_def Let_def path_ok_def read_pointer_ok [OF assms(1)])
  next
    case 4
    have "(n - 16522) div 16384 < 128" using 4 assms(3) by (simp add: div_less_iff_less_mult)
    moreover have "(n - 16522) mod 16384 div 128 < 128" by (simp add: div_less_iff_less_mult)
    moreover have "n - 16522 - (n - 16522) div 16384 * 16384 = (n - 16522) mod 16384"
      by (simp add: minus_div_mult_eq_mod)
    ultimately show ?thesis using 4 assms(3) p lk lo
      by (simp add: diosfs_get_relative_block_number_from_file_def diosfs_indirection_indices_for_block_number_def
          diosfs_constants file_block_def Let_def path_ok_def read_pointer_ok [OF assms(1)])
  qed
qed

text \<open>While a block is free, the allocator returns one.\<close>

lemma get_some_block:
  assumes "ok d" and "free_blocks sb (vw d) \<noteq> {}"
  obtains n d' where "diosfs_get_free_block_and_mark_bitmap fs d = Inr (n, d')" and "ok d'"
    and "n \<in> free_blocks sb (vw d)" and "vw d' = take_blocks (vw d) [n]"
proof -
  define n where "n = (LEAST n. n \<in> free_blocks sb (vw d))"
  have n: "n \<in> free_blocks sb (vw d)" using assms(2) unfolding n_def by (meson LeastI_ex all_not_in_conv)
  then have n1: "n < 8192 * s_block_bitmap_pointers_start sb" "\<not> block_bits (vw d) n" by (auto simp: free_blocks_def)
  have least: "\<forall>m<n. block_bits (vw d) m"
  proof (intro allI impI)
    fix m assume m: "m < n"
    then have "m \<notin> free_blocks sb (vw d)" unfolding n_def by (rule not_less_Least)
    with m n1(1) show "block_bits (vw d) m" by (auto simp: free_blocks_def)
  qed
  obtain d' where d': "diosfs_get_free_block_and_mark_bitmap fs d = Inr (n, d')" "ok d'"
    "vw d' = (vw d)\<lparr>block_bits := (block_bits (vw d))(n := True)\<rparr>"
    by (rule get_free_block_ok [OF assms(1) n1 least])
  have "(block_bits (vw d))(n := True) = (\<lambda>m. m \<in> set [n] \<or> block_bits (vw d) m)" by (auto simp: fun_eq_iff)
  with d' n that show thesis by (metis take_blocks_def)
qed

lemma alloc_pointers_ok:
  assumes "ok d" and "n \<le> card (free_blocks sb (vw d))" and "8 * (i + n) \<le> length buf"
  obtains ns d' buf' where "alloc_pointers fs n i buf d = Inr (buf', d')" and "ok d'" and "length ns = n"
    and "distinct ns" and "set ns \<subseteq> free_blocks sb (vw d)" and "vw d' = take_blocks (vw d) ns"
    and "length buf' = length buf"
    and "\<And>j. 8 * j + 8 \<le> length buf \<Longrightarrow>
      get_u64 buf' j = (if i \<le> j \<and> j < i + n then word_of_nat (ns ! (j - i)) else get_u64 buf j)"
  using assms
proof (induction n arbitrary: i buf d thesis)
  case 0
  show ?case
  proof (rule "0.prems"(1))
    show "alloc_pointers fs 0 i buf d = Inr (buf, d)" "length [] = (0 :: nat)" "distinct ([] :: nat list)"
      "set [] \<subseteq> free_blocks sb (vw d)" "vw d = take_blocks (vw d) []" "length buf = length buf" by simp_all
    show "ok d" by (rule "0.prems"(2))
    show "get_u64 buf j = (if i \<le> j \<and> j < i + 0 then word_of_nat ([] ! (j - i)) else get_u64 buf j)" for j by auto
  qed
next
  case (Suc n)
  have "free_blocks sb (vw d) \<noteq> {}" using Suc.prems(3) by auto
  from get_some_block [OF Suc.prems(2) this] obtain b d1 where
    b: "diosfs_get_free_block_and_mark_bitmap fs d = Inr (b, d1)" "ok d1" "b \<in> free_blocks sb (vw d)"
    "vw d1 = take_blocks (vw d) [b]" by metis
  have fb: "free_blocks sb (vw d1) = free_blocks sb (vw d) - {b}" using b(4) by (simp add: free_blocks_take)
  have c: "n \<le> card (free_blocks sb (vw d1))" using Suc.prems(3) b(3) fb by simp
  let ?buf = "put_u64 buf i (word_of_nat b)"
  have l1: "8 * i + 8 \<le> length buf" using Suc.prems(4) by simp
  then have l2: "8 * (i + 1 + n) \<le> length ?buf" using Suc.prems(4) by simp
  obtain buf' d' ns where r: "alloc_pointers fs n (i + 1) ?buf d1 = Inr (buf', d')" "ok d'" "length ns = n"
    "distinct ns" "set ns \<subseteq> free_blocks sb (vw d1)" "vw d' = take_blocks (vw d1) ns" "length buf' = length ?buf"
    "\<And>j. 8 * j + 8 \<le> length ?buf \<Longrightarrow>
      get_u64 buf' j = (if i + 1 \<le> j \<and> j < i + 1 + n then word_of_nat (ns ! (j - (i + 1))) else get_u64 ?buf j)"
    by (rule Suc.IH [OF _ b(2) c l2]) blast
  show ?case
  proof (rule Suc.prems(1))
    show "alloc_pointers fs (Suc n) i buf d = Inr (buf', d')" using b(1) r(1) l1 by simp
    show "ok d'" by (rule r(2))
    show "length (b # ns) = Suc n" using r(3) by simp
    show "distinct (b # ns)" using r(4,5) fb by auto
    show "set (b # ns) \<subseteq> free_blocks sb (vw d)" using r(5) fb b(3) by auto
    show "vw d' = take_blocks (vw d) (b # ns)" using r(6) b(4) by simp
    show "length buf' = length buf" using r(7) l1 by simp
    fix j assume j: "8 * j + 8 \<le> length buf"
    show "get_u64 buf' j = (if i \<le> j \<and> j < i + Suc n then word_of_nat ((b # ns) ! (j - i)) else get_u64 buf j)"
      using r(8) [of j] j l1 get_put_u64_same [OF l1, of "word_of_nat b"] get_put_u64_other [OF l1 j]
      by (auto simp: nth_Cons' not_le less_Suc_eq_le)
  qed
qed

lemma alloc_direct_ok:
  assumes "ok d" and "wf_inode inode" and "i + k = 10" and "r \<le> k" and "0 < r" and "unat num = r"
    and "r \<le> card (free_blocks sb (vw d))"
  obtains ns d' where "alloc_direct fs k i inode num d =
      Inr (True, inode\<lparr>i_blocks := take i (i_blocks inode) @ map word_of_nat ns @ drop (i + r) (i_blocks inode),
        i_block_count := i_block_count inode + word_of_nat r\<rparr>, 0, d')" and "ok d'" and "length ns = r"
    and "distinct ns" and "set ns \<subseteq> free_blocks sb (vw d)" and "vw d' = take_blocks (vw d) ns"
  using assms
proof (induction k arbitrary: i inode num r d thesis)
  case 0
  then show ?case by simp
next
  case (Suc k)
  have "free_blocks sb (vw d) \<noteq> {}" using Suc.prems(6,8) by auto
  from get_some_block [OF Suc.prems(2) this] obtain b d1 where
    b: "diosfs_get_free_block_and_mark_bitmap fs d = Inr (b, d1)" "ok d1" "b \<in> free_blocks sb (vw d)"
    "vw d1 = take_blocks (vw d) [b]" by metis
  have fb: "free_blocks sb (vw d1) = free_blocks sb (vw d) - {b}" using b(4) by (simp add: free_blocks_take)
  let ?in = "inode\<lparr>i_blocks := (i_blocks inode)[i := word_of_nat b], i_block_count := i_block_count inode + 1\<rparr>"
  have len: "length (i_blocks inode) = 10" "i < 10" using Suc.prems(3,4) by (auto simp: wf_inode_def)
  have nz: "num \<noteq> 0" using Suc.prems(6,7) by auto
  then have u: "unat (num - 1) = r - 1" using Suc.prems(7) by (metis unat_minus_one)
  show ?case
  proof (cases "r = 1")
    case True
    then have "num = 1" using Suc.prems(7) by (metis unat_1 unsigned_word_eqI)
    moreover have "take i (i_blocks inode) @ [word_of_nat b] @ drop (i + 1) (i_blocks inode) = (i_blocks inode)[i := word_of_nat b]"
      using len by (simp add: upd_conv_take_nth_drop)
    ultimately show ?thesis
      using True b len by (intro Suc.prems(1) [of "[b]" d1]) simp_all
  next
    case False
    then have "num - 1 \<noteq> 0" using u Suc.prems(6) by auto
    then have st: "alloc_direct fs (Suc k) i inode num d = alloc_direct fs k (i + 1) ?in (num - 1) d1"
      using b(1) len by simp
    have p: "wf_inode ?in" "i + 1 + k = 10" "r - 1 \<le> k" "0 < r - 1" "r - 1 \<le> card (free_blocks sb (vw d1))"
      using Suc.prems False b(3) fb by (auto simp: wf_inode_def)
    obtain ns d' where n: "alloc_direct fs k (i + 1) ?in (num - 1) d1 =
        Inr (True, ?in\<lparr>i_blocks := take (i + 1) (i_blocks ?in) @ map word_of_nat ns @ drop (i + 1 + (r - 1)) (i_blocks ?in),
          i_block_count := i_block_count ?in + word_of_nat (r - 1)\<rparr>, 0, d')" "ok d'" "length ns = r - 1"
      "distinct ns" "set ns \<subseteq> free_blocks sb (vw d1)" "vw d' = take_blocks (vw d1) ns"
      by (rule Suc.IH [OF _ b(2) p(1-4) u p(5)])
    have "word_of_nat r = (1 :: 32 word) + word_of_nat (r - 1)"
      using Suc.prems(6) by (metis Suc_diff_1 of_nat_Suc)
    moreover have "take (i + 1) ((i_blocks inode)[i := word_of_nat b]) = take i (i_blocks inode) @ [word_of_nat b]"
      using len by (simp add: take_Suc_conv_app_nth)
    moreover have "i + 1 + (r - 1) = i + r" using Suc.prems(6) by simp
    ultimately show ?thesis
      using n b fb st Suc.prems(6) by (intro Suc.prems(1) [of "b # ns" d']) auto
  qed
qed

lemma allocate_single_ok:
  assumes "ok d" and "wf_inode inode" and "unat (i_inode_number inode) < s_num_inodes sb"
    and "i_single_indirect inode \<noteq> 0" and s: "unat (i_single_indirect inode) < s_num_blocks sb"
    and "na + n \<le> 128" and c: "n \<le> card (free_blocks sb (vw d))"
  obtains ns d' where "diosfs_allocate_single_indirect_block fs inode na n False 0 d =
      Inr (inode, unat (i_single_indirect inode), d')" and "ok d'" and "length ns = n" and "distinct ns"
    and "set ns \<subseteq> free_blocks sb (vw d)"
    and "\<And>j. j < 128 \<Longrightarrow> get_u64 (blocks (vw d') (unat (i_single_indirect inode))) j =
      (if na \<le> j \<and> j < na + n then word_of_nat (ns ! (j - na)) else get_u64 (blocks (vw d) (unat (i_single_indirect inode))) j)"
    and "\<And>b. b \<noteq> unat (i_single_indirect inode) \<Longrightarrow> blocks (vw d') b = blocks (vw d) b"
    and "inodes (vw d') = (inodes (vw d))(unat (i_inode_number inode) := inode)"
    and "inode_bits (vw d') = inode_bits (vw d)" and "\<And>m. block_bits (vw d') m \<longleftrightarrow> m \<in> set ns \<or> block_bits (vw d) m"
proof -
  let ?s = "unat (i_single_indirect inode)" and ?k = "fs_kmalloc fs 4096"
  have lk: "4096 \<le> length ?k" by (rule kmalloc_length [OF assms(1)])
  have lb: "length (blocks (vw d) ?s) = 1024" by (rule length_block [OF assms(1) s])
  let ?buf = "overwrite ?k 0 (blocks (vw d) ?s)"
  have rd: "diosfs_read_block_by_number fs ?s ?k 0 0 1024 d = Inr ?buf"
    using lk s by (intro read_block_ok [OF assms(1)]) simp_all
  have l1: "8 * (na + n) \<le> length ?buf" using lk lb assms(6) by simp
  obtain ns d1 buf' where a: "alloc_pointers fs n na ?buf d = Inr (buf', d1)" "ok d1" "length ns = n" "distinct ns"
    "set ns \<subseteq> free_blocks sb (vw d)" "vw d1 = take_blocks (vw d) ns" "length buf' = length ?buf"
    "\<And>j. 8 * j + 8 \<le> length ?buf \<Longrightarrow>
      get_u64 buf' j = (if na \<le> j \<and> j < na + n then word_of_nat (ns ! (j - na)) else get_u64 ?buf j)"
    by (rule alloc_pointers_ok [OF assms(1) c l1]) blast
  have l2: "0 + 1024 \<le> length buf'" using a(7) lk lb by simp
  obtain d2 where w: "diosfs_write_block_by_number fs ?s buf' 0 0 1024 d1 = Inr d2" "ok d2"
    "vw d2 = (vw d1)\<lparr>blocks := (blocks (vw d1))(?s := window buf' 0 1024)\<rparr>"
    by (rule write_block_ok [OF a(2) s l2])
  obtain d3 where i: "diosfs_write_inode fs inode d2 = Inr d3" "ok d3"
    "vw d3 = (vw d2)\<lparr>inodes := (inodes (vw d2))(unat (i_inode_number inode) := inode)\<rparr>"
    by (rule write_inode_ok [OF w(2) assms(2,3)])
  have "128 \<le> na + n \<Longrightarrow> 128 - na = n" using assms(6) by auto
  then have run: "diosfs_allocate_single_indirect_block fs inode na n False 0 d = Inr (inode, ?s, d3)"
    using rd a(1) w(1) i(1) assms(4)
    by (simp add: diosfs_allocate_single_indirect_block_def Let_def block_size_eq [OF assms(1)]
        NUM_BLOCKS_IN_INDIRECTION_BLOCK_def)
  have g: "get_u64 (window buf' 0 1024) j = get_u64 buf' j" if "j < 128" for j
    using that by (simp add: get_u64_def window_window)
  have g2: "get_u64 ?buf j = get_u64 (blocks (vw d) ?s) j" if "j < 128" for j
    using that lb lk by (intro get_u64_overwrite) simp_all
  show thesis
  proof (rule that [OF run i(2) a(3,4,5)])
    fix j :: nat assume j: "j < 128"
    then have "8 * j + 8 \<le> length ?buf" using lk lb by simp
    from a(8) [OF this] g [OF j] g2 [OF j]
    show "get_u64 (blocks (vw d3) ?s) j =
        (if na \<le> j \<and> j < na + n then word_of_nat (ns ! (j - na)) else get_u64 (blocks (vw d) ?s) j)"
      using i(3) w(3) a(6) by simp
  next
    fix b assume "b \<noteq> ?s"
    then show "blocks (vw d3) b = blocks (vw d) b" using i(3) w(3) a(6) by simp
  next
    show "inodes (vw d3) = (inodes (vw d))(unat (i_inode_number inode) := inode)"
      "inode_bits (vw d3) = inode_bits (vw d)" using i(3) w(3) a(6) by simp_all
    show "block_bits (vw d3) m \<longleftrightarrow> m \<in> set ns \<or> block_bits (vw d) m" for m using i(3) w(3) a(6) by simp
  qed
qed

end

section \<open>Properties\<close>

definition indirect_inode :: diosfs_inode where
  "indirect_inode = demo_inode\<lparr>i_single_indirect := 4\<rparr>"

lemma demo_free_blocks: "free_blocks (fs_superblock demo_fs) (dios_view demo_fs demo_device [demo_disk 8]) = {..<24576}"
  by (auto simp: free_blocks_def demo_bits demo_sizes)

text \<open>C15: For every block number a file can have, following the inode's direct, single, double or triple indirect
  pointers reads the pointer blocks the specification names and returns the block they lead to.\<close>

theorem relative_block_follows_pointers:
  assumes "dios_ok fs device nblk rds" and "wf_inode inode" and "n < 10 + 128 + 128 * 128 + 128 * 128 * 128"
    and "path_ok (dios_view fs device rds) (s_num_blocks (fs_superblock fs)) inode n"
  shows "diosfs_get_relative_block_number_from_file fs inode n rds = Inr (file_block (dios_view fs device rds) inode n)"
  using dios.relative_block_ok [OF assms(1,2) _ assms(4) [unfolded dios_view_def]] assms(3)
  by (simp add: dios_view_def)

theorem relative_block_follows_pointers_witness:
  "diosfs_get_relative_block_number_from_file demo_fs demo_inode 0 [demo_disk 8] = Inr 7 \<and>
    diosfs_get_relative_block_number_from_file demo_fs indirect_inode 12 [demo_disk 8] = Inr 0"
proof -
  have "blocks (dios_view demo_fs demo_device [demo_disk 8]) 4 = replicate 1024 0"
    using demo_blk [of 14] by (simp add: dios_view_def view_def demo_fs_def demo_superblock_def)
  then have "ptr (dios_view demo_fs demo_device [demo_disk 8]) 4 2 = 0"
    by (simp add: ptr_def get_u64_def window_def bytes_word_def numeral_eq_Suc)
  then show ?thesis
    using relative_block_follows_pointers [OF demo_fs_ok, of demo_inode 0]
      relative_block_follows_pointers [OF demo_fs_ok, of indirect_inode 12]
    by (simp add: indirect_inode_def demo_inode_def wf_inode_def zero_inode_def path_ok_def file_block_def demo_sizes)
qed

text \<open>Growing a file inside its direct blocks allocates as many distinct free blocks as asked for, enters them
  behind the present ones, marks exactly them in the bitmap, and stores the inode with its new block
  count.\<close>

theorem allocate_direct_blocks:
  assumes ok: "dios_ok fs device nblk rds" and i: "wf_inode inode" "unat (i_inode_number inode) < s_num_inodes (fs_superblock fs)"
    and n: "0 < unat num" "unat (i_block_count inode) + unat num \<le> 10"
    and sz: "unat (i_size inode) div 1024 + 1 < 10" "unat num + unat (i_size inode) div 1024 \<le> 10"
    and fr: "unat num \<le> card (free_blocks (fs_superblock fs) (dios_view fs device rds))"
  shows "\<exists>ns rds'. let bc = unat (i_block_count inode);
      inode' = inode\<lparr>i_blocks := take bc (i_blocks inode) @ map word_of_nat ns @ drop (bc + unat num) (i_blocks inode),
        i_block_count := i_block_count inode + num\<rparr> in
    diosfs_inode_allocate_new_blocks fs inode num rds = Inr (DIOSFS_SUCCESS, inode', rds') \<and> dios_ok fs device nblk rds' \<and>
    length ns = unat num \<and> distinct ns \<and> set ns \<subseteq> free_blocks (fs_superblock fs) (dios_view fs device rds) \<and>
    dios_view fs device rds' = (take_blocks (dios_view fs device rds) ns)\<lparr>inodes :=
      (inodes (dios_view fs device rds))(unat (i_inode_number inode) := inode')\<rparr>"
proof -
  let ?bc = "unat (i_block_count inode)" and ?V = "\<lambda>d. view (fs_superblock fs) (rd_blk device 1024 d)"
  have bc: "?bc + (10 - ?bc) = 10" "unat num \<le> 10 - ?bc" using n by auto
  obtain ns d1 where a: "alloc_direct fs (10 - ?bc) ?bc inode num rds =
      Inr (True, inode\<lparr>i_blocks := take ?bc (i_blocks inode) @ map word_of_nat ns @ drop (?bc + unat num) (i_blocks inode),
        i_block_count := i_block_count inode + word_of_nat (unat num)\<rparr>, 0, d1)" "dios_ok fs device nblk d1" "length ns = unat num"
    "distinct ns" "set ns \<subseteq> free_blocks (fs_superblock fs) (?V rds)" "?V d1 = take_blocks (?V rds) ns"
    by (rule dios.alloc_direct_ok [OF ok i(1) bc n(1) refl fr [unfolded dios_view_def]])
  let ?in = "inode\<lparr>i_blocks := take ?bc (i_blocks inode) @ map word_of_nat ns @ drop (?bc + unat num) (i_blocks inode),
      i_block_count := i_block_count inode + num\<rparr>"
  have wf: "wf_inode ?in" using i(1) n a(3) by (auto simp: wf_inode_def)
  have num: "unat (i_inode_number ?in) < s_num_inodes (fs_superblock fs)" using i(2) by simp
  obtain d2 where w: "diosfs_write_inode fs ?in d1 = Inr d2" "dios_ok fs device nblk d2"
    "?V d2 = (?V d1)\<lparr>inodes := (inodes (?V d1))(unat (i_inode_number ?in) := ?in)\<rparr>"
    by (rule dios.write_inode_ok [OF a(2) wf num])
  have "levels_indirection r = 0" if "diosfs_indirection_indices_for_block_number k = Inr r" "k < 10" for k r
    using that by (auto simp: diosfs_indirection_indices_for_block_number_def NUM_BLOCKS_DIRECT_def Let_def)
  moreover have "\<exists>r. diosfs_indirection_indices_for_block_number k = Inr r" if "k < 10" for k
    using that by (simp add: diosfs_indirection_indices_for_block_number_def NUM_BLOCKS_DIRECT_def)
  moreover have "(if unat (i_size inode) mod 1024 = 0 then unat (i_size inode) div 1024 else unat (i_size inode) div 1024 + 1) < 10"
    using sz(1) by auto
  ultimately obtain r where r: "diosfs_indirection_indices_for_block_number
      (if unat (i_size inode) mod 1024 = 0 then unat (i_size inode) div 1024 else unat (i_size inode) div 1024 + 1) = Inr r"
    "levels_indirection r = 0" by metis
  have "diosfs_inode_allocate_new_blocks fs inode num rds = Inr (DIOSFS_SUCCESS, ?in, d2)"
    using a(1) w(1) r sz(2) dios.block_size_eq [OF ok]
    by (simp add: diosfs_inode_allocate_new_blocks_def Let_def NUM_BLOCKS_DIRECT_def MAX_BLOCKS_IN_INODE_def)
  then show ?thesis using w a by (intro exI [of _ ns] exI [of _ d2]) (simp add: dios_view_def Let_def)
qed

theorem allocate_direct_blocks_witness:
  "\<exists>ns rds'. diosfs_inode_allocate_new_blocks demo_fs demo_inode 2 [demo_disk 8] =
      Inr (DIOSFS_SUCCESS, demo_inode\<lparr>i_blocks := 7 # map word_of_nat ns @ replicate 7 0, i_block_count := 3\<rparr>, rds') \<and>
    length ns = 2 \<and> distinct ns"
proof -
  have "take 1 (i_blocks demo_inode) = [7]" "drop (Suc (Suc (Suc 0))) (i_blocks demo_inode) = replicate 7 0"
    "wf_inode demo_inode" "unat (i_inode_number demo_inode) = 5" "unat (i_block_count demo_inode) = 1"
    "i_block_count demo_inode = 1" "unat (i_size demo_inode) = 1024"
    by (simp_all add: demo_inode_def zero_inode_def wf_inode_def)
  with allocate_direct_blocks [OF demo_fs_ok, of demo_inode 2] show ?thesis
    by (auto simp: demo_sizes demo_free_blocks Let_def)
qed

text \<open>C16: Allocating blocks through the single indirect block fills consecutive entries of it with distinct free
  blocks, so that the file's blocks from number 10 on are those blocks, and changes no other data block,
  no other entry and no other inode.\<close>

theorem allocate_single_indirect_blocks:
  assumes ok: "dios_ok fs device nblk rds" and i: "wf_inode inode" "unat (i_inode_number inode) < s_num_inodes (fs_superblock fs)"
    "i_single_indirect inode \<noteq> 0" "unat (i_single_indirect inode) < s_num_blocks (fs_superblock fs)"
    and n: "na + n \<le> 128" "n \<le> card (free_blocks (fs_superblock fs) (dios_view fs device rds))"
  shows "\<exists>ns rds'. diosfs_allocate_single_indirect_block fs inode na n False 0 rds =
      Inr (inode, unat (i_single_indirect inode), rds') \<and> dios_ok fs device nblk rds' \<and>
    length ns = n \<and> distinct ns \<and> set ns \<subseteq> free_blocks (fs_superblock fs) (dios_view fs device rds) \<and>
    (\<forall>j<128. file_block (dios_view fs device rds') inode (10 + j) =
      (if na \<le> j \<and> j < na + n then ns ! (j - na) else file_block (dios_view fs device rds) inode (10 + j))) \<and>
    (\<forall>b. b \<noteq> unat (i_single_indirect inode) \<longrightarrow> blocks (dios_view fs device rds') b = blocks (dios_view fs device rds) b) \<and>
    (\<forall>m. block_bits (dios_view fs device rds') m \<longleftrightarrow> m \<in> set ns \<or> block_bits (dios_view fs device rds) m)"
proof -
  let ?V = "\<lambda>d. view (fs_superblock fs) (rd_blk device 1024 d)" and ?s = "unat (i_single_indirect inode)"
  obtain ns d where a: "diosfs_allocate_single_indirect_block fs inode na n False 0 rds = Inr (inode, ?s, d)"
    "dios_ok fs device nblk d" "length ns = n" "distinct ns" "set ns \<subseteq> free_blocks (fs_superblock fs) (?V rds)"
    "\<And>j. j < 128 \<Longrightarrow> get_u64 (blocks (?V d) ?s) j =
      (if na \<le> j \<and> j < na + n then word_of_nat (ns ! (j - na)) else get_u64 (blocks (?V rds) ?s) j)"
    "\<And>b. b \<noteq> ?s \<Longrightarrow> blocks (?V d) b = blocks (?V rds) b"
    "\<And>m. block_bits (?V d) m \<longleftrightarrow> m \<in> set ns \<or> block_bits (?V rds) m"
    by (rule dios.allocate_single_ok [OF ok i n(1) n(2) [unfolded dios_view_def]]) blast
  have small: "unat (word_of_nat (ns ! k) :: 64 word) = ns ! k" if "k < n" for k
  proof -
    have "ns ! k \<in> free_blocks (fs_superblock fs) (?V rds)" using a(3,5) that by auto
    moreover have "s_block_bitmap_pointers_start (fs_superblock fs) \<le> 128"
      using ok by (auto simp: dios_ok_def volume_ok_def layout_ok_def)
    ultimately have "ns ! k < 2 ^ 64" by (simp add: free_blocks_def)
    then show ?thesis by (simp add: unat_of_nat)
  qed
  have "file_block (?V d) inode (10 + j) =
      (if na \<le> j \<and> j < na + n then ns ! (j - na) else file_block (?V rds) inode (10 + j))" if "j < 128" for j
    using a(6) [OF that] small [of "j - na"] that by (auto simp: file_block_def ptr_def)
  with a show ?thesis unfolding dios_view_def by blast
qed

theorem allocate_single_indirect_blocks_witness:
  "\<exists>ns rds'. diosfs_allocate_single_indirect_block demo_fs indirect_inode 0 3 False 0 [demo_disk 8] =
      Inr (indirect_inode, 4, rds') \<and> length ns = 3 \<and>
    file_block (dios_view demo_fs demo_device rds') indirect_inode 11 = ns ! 1"
proof -
  have "wf_inode indirect_inode" "unat (i_inode_number indirect_inode) = 5" "i_single_indirect indirect_inode = 4"
    by (simp_all add: indirect_inode_def demo_inode_def zero_inode_def wf_inode_def)
  with allocate_single_indirect_blocks [OF demo_fs_ok, of indirect_inode 0 3] obtain ns rds' where
    a: "diosfs_allocate_single_indirect_block demo_fs indirect_inode 0 3 False 0 [demo_disk 8] = Inr (indirect_inode, 4, rds')"
    "length ns = 3" "\<forall>j<128. file_block (dios_view demo_fs demo_device rds') indirect_inode (10 + j) =
      (if 0 \<le> j \<and> j < 0 + 3 then ns ! (j - 0) else file_block (dios_view demo_fs demo_device [demo_disk 8]) indirect_inode (10 + j))"
    by (auto simp: demo_sizes demo_free_blocks)
  from a(3) [rule_format, of 1] have "file_block (dios_view demo_fs demo_device rds') indirect_inode 11 = ns ! 1" by simp
  with a show ?thesis by blast
qed

end
