(* ===== verification/Strings.thy ===== *)
theory Strings
  imports Bytes
begin

text \<open>
  The memory functions of \<^verbatim>\<open>kernel/src/boot/main.c\<close>, on one flat memory of bytes in which source and
  destination may overlap, and the string functions of \<^verbatim>\<open>kernel/src/definitions/string.c\<close>. A string that is
  only read is the list of the bytes from the pointer to the end of its memory, a buffer that is
  written is its bytes and a position. Running past the end is \<open>OutOfBounds\<close>.
\<close>

section \<open>Memory functions\<close>

text \<open>The loops of \<^verbatim>\<open>memcpy\<close> and \<^verbatim>\<open>memset\<close>: \<open>k\<close> rounds remain, \<open>i\<close> is the index.\<close>

fun copy_up :: "nat \<Rightarrow> nat \<Rightarrow> byte list \<Rightarrow> nat \<Rightarrow> nat \<Rightarrow> byte list res" where
  "copy_up 0 i mem dest src = Inr mem"
| "copy_up (Suc k) i mem dest src =
     (if dest + i < length mem \<and> src + i < length mem
      then copy_up k (i + 1) (mem[dest + i := mem ! (src + i)]) dest src else Inl OutOfBounds)"

fun copy_down :: "nat \<Rightarrow> byte list \<Rightarrow> nat \<Rightarrow> nat \<Rightarrow> byte list res" where
  "copy_down 0 mem dest src = Inr mem"
| "copy_down (Suc i) mem dest src =
     (if dest + i < length mem \<and> src + i < length mem
      then copy_down i (mem[dest + i := mem ! (src + i)]) dest src else Inl OutOfBounds)"

definition memcpy :: "byte list \<Rightarrow> nat \<Rightarrow> nat \<Rightarrow> nat \<Rightarrow> byte list res" where
  "memcpy mem dest src n = copy_up n 0 mem dest src"

definition memmove :: "byte list \<Rightarrow> nat \<Rightarrow> nat \<Rightarrow> nat \<Rightarrow> byte list res" where
  "memmove mem dest src n =
     (if dest < src then copy_up n 0 mem dest src
      else if src < dest then copy_down n mem dest src
      else Inr mem)"

fun set_up :: "nat \<Rightarrow> nat \<Rightarrow> byte list \<Rightarrow> nat \<Rightarrow> byte \<Rightarrow> byte list res" where
  "set_up 0 i mem s c = Inr mem"
| "set_up (Suc k) i mem s c =
     (if s + i < length mem then set_up k (i + 1) (mem[s + i := c]) s c else Inl OutOfBounds)"

definition memset :: "byte list \<Rightarrow> nat \<Rightarrow> int \<Rightarrow> nat \<Rightarrow> byte list res" where
  "memset mem s c n = set_up n 0 mem s (word_of_int c)"

fun memcmp :: "byte list \<Rightarrow> byte list \<Rightarrow> nat \<Rightarrow> int res" where
  "memcmp p1 p2 0 = Inr 0"
| "memcmp (a # p1) (b # p2) (Suc n) =
     (if a \<noteq> b then Inr (if a < b then -1 else 1) else memcmp p1 p2 n)"
| "memcmp p1 p2 (Suc n) = Inl OutOfBounds"

section \<open>String functions\<close>

fun strcpy :: "byte list \<Rightarrow> nat \<Rightarrow> byte list \<Rightarrow> byte list res" where
  "strcpy dest p [] = Inl OutOfBounds"
| "strcpy dest p (c # src) =
     (if p < length dest then if c = 0 then Inr (dest[p := c]) else strcpy (dest[p := c]) (p + 1) src
      else Inl OutOfBounds)"

text \<open>The loop of \<^verbatim>\<open>safe_strcpy\<close> returns the advanced destination and the counter.\<close>

fun safe_copy :: "byte list \<Rightarrow> nat \<Rightarrow> byte list \<Rightarrow> nat \<Rightarrow> nat \<Rightarrow> (byte list \<times> nat \<times> nat) res" where
  "safe_copy dest p [] pointer dest_size = Inl OutOfBounds"
| "safe_copy dest p (c # src) pointer dest_size =
     (if p < length dest then
        let dest = dest[p := c] in
        if c = 0 then Inr (dest, p + 1, pointer)
        else if pointer < dest_size then safe_copy dest (p + 1) src (pointer + 1) dest_size
        else Inr (dest, p + 1, pointer + 1)
      else Inl OutOfBounds)"

definition safe_strcpy :: "byte list \<Rightarrow> nat \<Rightarrow> byte list \<Rightarrow> nat \<Rightarrow> byte list res" where
  "safe_strcpy dest p src dest_size =
     bindR (safe_copy dest p src 0 dest_size) (\<lambda>(dest, p, pointer).
       if pointer = dest_size then
         if p + dest_size - 1 < length dest then Inr (dest[p + dest_size - 1 := 0]) else Inl OutOfBounds
       else Inr dest)"

fun strlen :: "byte list \<Rightarrow> nat res" where
  "strlen [] = Inl OutOfBounds"
| "strlen (c # src) = (if c \<noteq> 0 then bindR (strlen src) (\<lambda>n. Inr (n + 1)) else Inr 0)"

definition KERN_OVERFLOW :: int where "KERN_OVERFLOW = -43"

fun safe_strlen_loop :: "byte list \<Rightarrow> nat \<Rightarrow> nat \<Rightarrow> nat res" where
  "safe_strlen_loop [] len mx = Inl OutOfBounds"
| "safe_strlen_loop (c # src) len mx = (if c \<noteq> 0 \<and> len \<le> mx then safe_strlen_loop src (len + 1) mx else Inr len)"

definition safe_strlen :: "byte list \<Rightarrow> nat \<Rightarrow> int res" where
  "safe_strlen src mx = bindR (safe_strlen_loop src 0 mx) (\<lambda>n. Inr (if mx < n then KERN_OVERFLOW else int n))"

text \<open>\<^verbatim>\<open>strcat\<close>: the second loop copies the bytes of \<open>str2\<close> up to, and without, its terminator.\<close>

fun strcat_copy :: "byte list \<Rightarrow> nat \<Rightarrow> byte list \<Rightarrow> byte list res" where
  "strcat_copy str1 p [] = Inl OutOfBounds"
| "strcat_copy str1 p (c # str2) =
     (if c \<noteq> 0 then if p < length str1 then strcat_copy (str1[p := c]) (p + 1) str2 else Inl OutOfBounds
      else Inr str1)"

definition strcat :: "byte list \<Rightarrow> byte list \<Rightarrow> byte list res" where
  "strcat str1 str2 = bindR (strlen str1) (\<lambda>n. strcat_copy str1 n str2)"

fun strcmp :: "byte list \<Rightarrow> byte list \<Rightarrow> nat res" where
  "strcmp (a # s) (b # t) = (if a \<noteq> 0 \<and> b \<noteq> 0 then if a \<noteq> b then Inr 0 else strcmp s t else Inr 1)"
| "strcmp s t = Inl OutOfBounds"

fun safe_strcmp :: "byte list \<Rightarrow> byte list \<Rightarrow> nat \<Rightarrow> nat res" where
  "safe_strcmp (a # s) (b # t) max_len =
     (if a \<noteq> 0 \<and> b \<noteq> 0 \<and> 0 < max_len then if a \<noteq> b then Inr 0 else safe_strcmp s t (max_len - 1) else Inr 1)"
| "safe_strcmp s t max_len = Inl OutOfBounds"

definition LAST_TOKEN :: nat where "LAST_TOKEN = 0"

definition NEXT_TOKEN :: nat where "NEXT_TOKEN = 1"

text \<open>
  The loop of \<^verbatim>\<open>strtok\<close>; \<open>token\<close> are the bytes written to the token so far. In the branch that skips a
  delimiter the pointer advances twice, past the byte behind the delimiter.
\<close>

fun strtok_loop :: "byte list \<Rightarrow> byte \<Rightarrow> nat \<Rightarrow> nat \<Rightarrow> byte list \<Rightarrow> (byte list \<times> nat) res" where
  "strtok_loop [] delimiter current_token token_number token = Inl OutOfBounds"
| "strtok_loop (c # str) delimiter current_token token_number token =
     (if c = 0 then Inr (token @ [0], LAST_TOKEN)
      else if current_token = token_number \<and> c = delimiter then Inr (token @ [0], NEXT_TOKEN)
      else if c = delimiter then
        (case str of
           [] \<Rightarrow> Inl OutOfBounds
         | c' # str' \<Rightarrow> strtok_loop str' delimiter (current_token + 1) token_number
             (if token_number = current_token + 1 then token @ [c'] else token))
      else strtok_loop str delimiter current_token token_number
             (if token_number = current_token then token @ [c] else token))"

definition strtok :: "byte list \<Rightarrow> byte \<Rightarrow> nat \<Rightarrow> (byte list \<times> nat) res" where
  "strtok str delimiter token_number =
     (case str of
        [] \<Rightarrow> Inl OutOfBounds
      | c # str' \<Rightarrow> strtok_loop (if c = delimiter then str' else str) delimiter 1 token_number [])"

text \<open>
  \<^verbatim>\<open>strtok_count\<close> repeats the same call, so it returns 1 or does not end; \<open>None\<close> is a run that does not end.
\<close>

definition strtok_count :: "byte list \<Rightarrow> byte \<Rightarrow> nat option res" where
  "strtok_count str delimiter =
     bindR (strtok str delimiter (2 ^ 64 - 1)) (\<lambda>(_, last_token).
       if last_token \<noteq> LAST_TOKEN then Inr None else Inr (Some 1))"

section \<open>Specification\<close>

text \<open>A string as it lies in memory: no byte is 0, then the terminator, then anything.\<close>

definition c_string :: "byte list \<Rightarrow> byte list \<Rightarrow> bool" where
  "c_string mem s \<longleftrightarrow> 0 \<notin> set s \<and> (\<exists>r. mem = s @ 0 # r)"

primrec join :: "byte \<Rightarrow> byte list list \<Rightarrow> byte list" where
  "join d [] = []"
| "join d (x # xs) = (if xs = [] then x else x @ d # join d xs)"

section \<open>Lemmas\<close>

lemma copy_up_eq:
  assumes "dest < src \<or> src + n \<le> dest" "dest + n \<le> length mem" "src + n \<le> length mem" "k \<le> n"
  shows "copy_up k (n - k) (overwrite mem dest (window mem src (n - k))) dest src =
    Inr (overwrite mem dest (window mem src n))"
  using assms(4)
proof (induction k)
  case 0
  then show ?case by simp
next
  case (Suc k)
  define i where "i = n - Suc k"
  have n: "n = i + Suc k" using Suc.prems by (simp add: i_def)
  let ?i = i
  let ?m = "overwrite mem dest (window mem src ?i)"
  have i: "i < n" "Suc i = n - k" "n - Suc k = i" using n by auto
  have len: "length ?m = length mem" using assms i by simp
  have rd: "?m ! (src + i) = mem ! (src + i)" using assms(1-3) i(1) by (auto simp: nth_overwrite)
  have "?m[dest + ?i := mem ! (src + ?i)] = overwrite mem dest (window mem src (Suc ?i))"
  proof (rule nth_equalityI)
    show "length (?m[dest + ?i := mem ! (src + ?i)]) = length (overwrite mem dest (window mem src (Suc ?i)))"
      using assms i by simp
    fix j assume "j < length (?m[dest + ?i := mem ! (src + ?i)])"
    then have "j < length mem" using len by simp
    then show "?m[dest + ?i := mem ! (src + ?i)] ! j = overwrite mem dest (window mem src (Suc ?i)) ! j"
      using assms(1-3) i(1) len by (auto simp: nth_list_update nth_overwrite nth_window)
  qed
  then show ?case using Suc.IH Suc.prems assms(1-3) i len rd by simp
qed

lemma copy_down_eq:
  assumes "src < dest" "dest + n \<le> length mem" "k \<le> n"
  shows "copy_down k (overwrite mem (dest + k) (window mem (src + k) (n - k))) dest src =
    Inr (overwrite mem dest (window mem src n))"
  using assms(3)
proof (induction k)
  case 0
  then show ?case by simp
next
  case (Suc k)
  let ?m = "overwrite mem (dest + Suc k) (window mem (src + Suc k) (n - Suc k))"
  have len: "length ?m = length mem" using assms Suc.prems by simp
  have rd: "?m ! (src + k) = mem ! (src + k)" using assms Suc.prems by (simp add: nth_overwrite)
  have "?m[dest + k := mem ! (src + k)] = overwrite mem (dest + k) (window mem (src + k) (n - k))"
  proof (rule nth_equalityI)
    show "length (?m[dest + k := mem ! (src + k)]) = length (overwrite mem (dest + k) (window mem (src + k) (n - k)))"
      using assms Suc.prems by simp
    fix j assume "j < length (?m[dest + k := mem ! (src + k)])"
    then have "j < length mem" using len by simp
    then show "?m[dest + k := mem ! (src + k)] ! j = overwrite mem (dest + k) (window mem (src + k) (n - k)) ! j"
      using assms Suc.prems len
      by (auto simp: nth_list_update nth_overwrite nth_window intro!: arg_cong [of _ _ "nth mem"])
  qed
  then show ?case using Suc.IH Suc.prems assms len rd by simp
qed

lemma set_up_eq: "s + i + k \<le> length mem \<Longrightarrow> set_up k i mem s c = Inr (overwrite mem (s + i) (replicate k c))"
proof (induction k arbitrary: i mem)
  case 0
  then show ?case by (simp add: overwrite_def)
next
  case (Suc k)
  have "overwrite (mem[s + i := c]) (s + (i + 1)) (replicate k c) = overwrite mem (s + i) (c # replicate k c)"
    using Suc.prems by (simp add: overwrite_def take_Suc_conv_app_nth)
  with Suc show ?case by simp
qed

lemma memcpy_eq:
  assumes "dest < src \<or> src + n \<le> dest" "dest + n \<le> length mem" "src + n \<le> length mem"
  shows "memcpy mem dest src n = Inr (overwrite mem dest (window mem src n))"
  using copy_up_eq [of dest src n mem n] assms by (simp add: memcpy_def overwrite_def)

lemma memset_eq: "s + n \<le> length mem \<Longrightarrow> memset mem s c n = Inr (overwrite mem s (replicate n (word_of_int c)))"
  by (simp add: memset_def set_up_eq)

lemma set_up_overrun: "length mem < s + i + k \<Longrightarrow> s + i \<le> length mem \<Longrightarrow> set_up k i mem s c = Inl OutOfBounds"
  by (induction k arbitrary: i mem) auto

lemma memset_overrun: "length mem < s + n \<Longrightarrow> s \<le> length mem \<Longrightarrow> memset mem s c n = Inl OutOfBounds"
  by (simp add: memset_def set_up_overrun)

lemma strlen_eq: "0 \<notin> set s \<Longrightarrow> strlen (s @ 0 # r) = Inr (length s)"
  by (induction s) auto

lemma strcpy_eq:
  "0 \<notin> set s \<Longrightarrow> p + length s < length dest \<Longrightarrow> strcpy dest p (s @ 0 # r) = Inr (overwrite dest p (s @ [0]))"
proof (induction s arbitrary: dest p)
  case Nil
  then show ?case by (simp add: overwrite_def upd_conv_take_nth_drop)
next
  case (Cons c s)
  have "overwrite (dest[p := c]) (p + 1) (s @ [0]) = overwrite dest p (c # s @ [0])"
    using Cons.prems by (simp add: overwrite_def take_Suc_conv_app_nth)
  with Cons show ?case by simp
qed

lemma safe_copy_eq:
  "0 \<notin> set s \<Longrightarrow> p + length s < length dest \<Longrightarrow> pointer + length s \<le> dest_size \<Longrightarrow>
    safe_copy dest p (s @ 0 # r) pointer dest_size =
      Inr (overwrite dest p (s @ [0]), p + length s + 1, pointer + length s)"
proof (induction s arbitrary: dest p pointer)
  case Nil
  then show ?case by (simp add: overwrite_def upd_conv_take_nth_drop)
next
  case (Cons c s)
  have "overwrite (dest[p := c]) (p + 1) (s @ [0]) = overwrite dest p (c # s @ [0])"
    using Cons.prems by (simp add: overwrite_def take_Suc_conv_app_nth)
  with Cons show ?case by simp
qed

text \<open>When the source is longer than the size, one byte more than the size is copied.\<close>

lemma safe_copy_long:
  "0 \<notin> set s \<Longrightarrow> dest_size < pointer + length s \<Longrightarrow> pointer \<le> dest_size \<Longrightarrow>
    p + (dest_size - pointer) < length dest \<Longrightarrow>
    safe_copy dest p (s @ r) pointer dest_size =
      Inr (overwrite dest p (take (dest_size - pointer + 1) s), p + (dest_size - pointer) + 1, dest_size + 1)"
proof (induction s arbitrary: dest p pointer)
  case Nil
  then show ?case by simp
next
  case (Cons c s)
  show ?case
  proof (cases "pointer < dest_size")
    case True
    then obtain k where k: "dest_size - pointer = Suc k" "dest_size - (pointer + 1) = k"
      by (metis Suc_diff_Suc Suc_eq_plus1)
    have "length (take (k + 1) s) \<le> k + 1" by simp
    moreover have "length (take (k + 1) s) = k + 1" using Cons.prems(2) k by simp
    ultimately have "overwrite (dest[p := c]) (p + 1) (take (k + 1) s) = overwrite dest p (c # take (k + 1) s)"
      using Cons.prems(4) k by (simp add: overwrite_def take_Suc_conv_app_nth)
    with Cons True k show ?thesis by simp
  next
    case False
    with Cons show ?thesis by (simp add: overwrite_def upd_conv_take_nth_drop)
  qed
qed

lemma strcmp_eq:
  assumes "0 \<notin> set s" "0 \<notin> set t"
  shows "strcmp (s @ 0 # r) (t @ 0 # q) = Inr (if take (length t) s = take (length s) t then 1 else 0)"
  using assms
proof (induction s arbitrary: t)
  case Nil
  then show ?case by (cases t) auto
next
  case (Cons a s)
  then show ?case by (cases t) auto
qed

text \<open>Both phases of \<^verbatim>\<open>strtok\<close> walk over a component that holds neither terminator nor delimiter.\<close>

lemma strtok_walk:
  "0 \<notin> set x \<Longrightarrow> d \<notin> set x \<Longrightarrow>
    strtok_loop (x @ rest) d c n tok = strtok_loop rest d c n (if n = c then tok @ x else tok)"
  by (induction x arbitrary: tok) auto

definition after :: "byte \<Rightarrow> byte list list \<Rightarrow> byte list" where
  "after d xs = (if xs = [] then [] else d # join d xs)"

lemma join_after: "join d (x # xs) = x @ after d xs"
  by (simp add: after_def)

lemma strtok_loop_eq:
  assumes "d \<noteq> 0" and "0 \<notin> set x" "d \<notin> set x" and "\<forall>y\<in>set xs. y \<noteq> [] \<and> 0 \<notin> set y \<and> d \<notin> set y" and "c \<le> n"
  shows "strtok_loop (x @ after d xs @ 0 # r) d c n (if n = c then pre else []) =
    Inr (if n - c \<le> length xs then (if n = c then pre @ x else xs ! (n - c - 1)) @ [0] else [0],
         if n - c < length xs then NEXT_TOKEN else LAST_TOKEN)"
  using assms(2-)
proof (induction xs arbitrary: x c pre)
  case Nil
  then show ?case using assms(1) by (auto simp: strtok_walk after_def)
next
  case (Cons y ys)
  show ?case
  proof (cases "n = c")
    case True
    with Cons assms(1) show ?thesis by (simp add: strtok_walk after_def)
  next
    case False
    then have c: "c + 1 \<le> n" using Cons.prems by simp
    obtain a y' where y: "y = a # y'" using Cons.prems by (cases y) auto
    have st: "strtok_loop (x @ after d (y # ys) @ 0 # r) d c n [] =
        strtok_loop (y' @ after d ys @ 0 # r) d (c + 1) n (if n = c + 1 then [a] else [])"
      using Cons.prems False y assms(1) by (simp add: strtok_walk after_def)
    have "strtok_loop (y' @ after d ys @ 0 # r) d (c + 1) n (if n = c + 1 then [a] else []) =
        Inr (if n - (c + 1) \<le> length ys then (if n = c + 1 then [a] @ y' else ys ! (n - (c + 1) - 1)) @ [0] else [0],
          if n - (c + 1) < length ys then NEXT_TOKEN else LAST_TOKEN)"
      using Cons.prems y c by (intro Cons.IH) auto
    with st False c y show ?thesis by (auto simp: nth_Cons' le_diff_conv less_diff_conv)
  qed
qed

section \<open>Properties\<close>

text \<open>\<^verbatim>\<open>memmove\<close> copies correctly however source and destination overlap: the destination gets the bytes the
  source held before the call and no other byte of memory changes.\<close>

theorem memmove_overlap:
  assumes "dest + n \<le> length mem" and "src + n \<le> length mem"
  shows "memmove mem dest src n = Inr (overwrite mem dest (window mem src n))"
proof -
  consider "dest < src" | "src < dest" | "src = dest" by linarith
  then show ?thesis
  proof cases
    case 1
    with copy_up_eq [of dest src n mem n] assms show ?thesis by (simp add: memmove_def overwrite_def)
  next
    case 2
    have "overwrite mem (dest + n) (window mem (src + n) (n - n)) = mem" by (simp add: overwrite_def)
    with 2 copy_down_eq [of src dest n mem n] assms show ?thesis by (simp add: memmove_def)
  next
    case 3
    have "overwrite mem dest (window mem dest n) = mem"
      using assms 3 by (intro nth_equalityI) (auto simp: nth_overwrite nth_window)
    with 3 show ?thesis by (simp add: memmove_def)
  qed
qed

theorem memmove_overlap_witness:
  "memmove [1, 2, 3, 4, 5, 6] 2 1 3 = Inr [1, 2, 2, 3, 4, 6] \<and> memmove [1, 2, 3, 4, 5, 6] 0 2 4 = Inr [3, 4, 5, 6, 5, 6]"
  using memmove_overlap [of 2 3 "[1, 2, 3, 4, 5, 6]" 1] memmove_overlap [of 0 4 "[1, 2, 3, 4, 5, 6]" 2]
  by (simp add: overwrite_def window_def)

text \<open>On a path made of non-empty components separated by the delimiter, with or without a leading delimiter,
  \<^verbatim>\<open>strtok\<close> extracts component \<open>n\<close> with its terminator and reports whether it is the last one; for a larger
  \<open>n\<close> the token is empty and reported as last.\<close>

theorem strtok_component:
  assumes "d \<noteq> 0" and "\<forall>x\<in>set (x # xs). x \<noteq> [] \<and> 0 \<notin> set x \<and> d \<notin> set x" and "1 \<le> n"
    and "pth = join d (x # xs) @ 0 # r \<or> pth = d # join d (x # xs) @ 0 # r"
  shows "strtok pth d n =
    Inr (if n \<le> length (x # xs) then (x # xs) ! (n - 1) @ [0] else [0],
         if n < length (x # xs) then NEXT_TOKEN else LAST_TOKEN)"
proof -
  have "strtok pth d n = strtok_loop (x @ after d xs @ 0 # r) d 1 n []"
  proof -
    obtain a x' where "x = a # x'" "a \<noteq> d" using assms(2) by (cases x) auto
    with assms(4) show ?thesis by (auto simp: strtok_def join_after simp del: join.simps)
  qed
  moreover have "strtok_loop (x @ after d xs @ 0 # r) d 1 n [] =
      Inr (if n - 1 \<le> length xs then (if n = 1 then [] @ x else xs ! (n - 1 - 1)) @ [0] else [0],
        if n - 1 < length xs then NEXT_TOKEN else LAST_TOKEN)"
    using strtok_loop_eq [of d x xs 1 n r "[]"] assms by simp
  ultimately show ?thesis using assms(3) by (auto simp: nth_Cons')
qed

theorem strtok_component_witness:
  "strtok [47, 97, 98, 47, 99, 0] 47 1 = Inr ([97, 98, 0], NEXT_TOKEN) \<and>
    strtok [47, 97, 98, 47, 99, 0] 47 2 = Inr ([99, 0], LAST_TOKEN)"
  using strtok_component [of 47 "[97, 98]" "[[99]]" 1 "[47, 97, 98, 47, 99, 0]" "[]"]
    strtok_component [of 47 "[97, 98]" "[[99]]" 2 "[47, 97, 98, 47, 99, 0]" "[]"]
  by simp

text \<open>\<^verbatim>\<open>strtok_count\<close>, which should return the number of components of a path, returns 1 on every path of
  non-empty components.\<close>

theorem strtok_count_is_one:
  assumes "d \<noteq> 0" and "\<forall>x\<in>set (x # xs). x \<noteq> [] \<and> 0 \<notin> set x \<and> d \<notin> set x" and "length (x # xs) < 2 ^ 64 - 1"
  shows "strtok_count (d # join d (x # xs) @ 0 # r) d = Inr (Some 1)"
proof -
  obtain a x' where "x = a # x'" "a \<noteq> d" using assms(2) by (cases x) auto
  then have "strtok (d # join d (x # xs) @ 0 # r) d (2 ^ 64 - 1) =
      strtok_loop (x @ after d xs @ 0 # r) d 1 (2 ^ 64 - 1) []"
    by (simp add: strtok_def join_after del: join.simps)
  also have "\<dots> = Inr ([0], LAST_TOKEN)"
    using strtok_loop_eq [of d x xs 1 "2 ^ 64 - 1" r "[]"] assms by (simp split: if_splits)
  finally show ?thesis by (simp add: strtok_count_def LAST_TOKEN_def)
qed

theorem strtok_count_is_one_witness: "strtok_count [47, 97, 98, 47, 99, 0] 47 = Inr (Some 1)"
  using strtok_count_is_one [of 47 "[97, 98]" "[[99]]" "[]"] by simp

text \<open>\<^verbatim>\<open>safe_strcpy\<close> is correct for strings shorter than the size. For a longer string it writes one byte more
  than the size and no terminator.\<close>

theorem safe_strcpy_cases:
  assumes "0 \<notin> set s" and "dest_size < length dest" and "length s \<noteq> dest_size"
  shows "safe_strcpy dest 0 (s @ 0 # r) dest_size =
    Inr (if length s < dest_size then overwrite dest 0 (s @ [0]) else overwrite dest 0 (take (dest_size + 1) s))"
proof (cases "length s < dest_size")
  case True
  with assms safe_copy_eq [of s 0 dest 0 dest_size r] show ?thesis by (simp add: safe_strcpy_def)
next
  case False
  with assms safe_copy_long [of s dest_size 0 0 dest "0 # r"] show ?thesis by (simp add: safe_strcpy_def)
qed

theorem safe_strcpy_cases_witness:
  "safe_strcpy [9, 9, 9, 9, 9] 0 [1, 2, 0] 4 = Inr [1, 2, 0, 9, 9] \<and>
    safe_strcpy [9, 9, 9, 9, 9] 0 [1, 2, 3, 4, 5, 0] 3 = Inr [1, 2, 3, 4, 9]"
  using safe_strcpy_cases [of "[1, 2]" 4 "[9, 9, 9, 9, 9]" "[]"]
    safe_strcpy_cases [of "[1, 2, 3, 4, 5]" 3 "[9, 9, 9, 9, 9]" "[]"]
  by (simp add: overwrite_def)

text \<open>\<^verbatim>\<open>strcmp\<close> reports two strings as equal exactly when one is a prefix of the other, so a name and any
  longer name that begins with it compare as equal.\<close>

theorem strcmp_is_prefix_test:
  assumes "c_string m1 s" and "c_string m2 t"
  shows "strcmp m1 m2 = Inr (if take (length t) s = take (length s) t then 1 else 0)"
  using assms by (auto simp: c_string_def strcmp_eq)

theorem strcmp_is_prefix_test_witness:
  "strcmp [97, 98, 0] [97, 98, 99, 0] = Inr 1 \<and> strcmp [97, 98, 0] [97, 100, 0] = Inr 0"
  using strcmp_is_prefix_test [of "[97, 98, 0]" "[97, 98]" "[97, 98, 99, 0]" "[97, 98, 99]"]
    strcmp_is_prefix_test [of "[97, 98, 0]" "[97, 98]" "[97, 100, 0]" "[97, 100]"]
  by (simp add: c_string_def)

end
