(* ===== verification/DiosFS_Dirs.thy ===== *)
theory DiosFS_Dirs
  imports DiosFS_Alloc Strings
begin

text \<open>
  Directories and file contents (\<^verbatim>\<open>kernel/src/filesystem/diosfs.c\<close>): directory entries lie seven to a
  block in the direct blocks of a directory's inode. Reading, appending, updating and removing
  entries, and reading and writing the bytes of a file.
\<close>

section \<open>Directory entries\<close>

definition DIOSFS_NOT_FOUND :: nat where "DIOSFS_NOT_FOUND = 1"

definition DIOSFS_BUFFER_TOO_SMALL :: nat where "DIOSFS_BUFFER_TOO_SMALL = 1"

definition DIOSFS_NOT_A_DIRECTORY :: nat where "DIOSFS_NOT_A_DIRECTORY = 2"

definition DIOSFS_CANT_ALLOCATE_BLOCKS_FOR_DIR :: nat where "DIOSFS_CANT_ALLOCATE_BLOCKS_FOR_DIR = 3"

text \<open>\<^verbatim>\<open>DIOSFS_MAX_FILES_IN_DIRENT_BLOCK\<close> and \<^verbatim>\<open>DIOSFS_MAX_FILES_IN_DIRECTORY\<close>.\<close>

definition dirents_per_block :: "diosfs_superblock \<Rightarrow> nat" where
  "dirents_per_block sb = s_block_size sb div 144"

definition max_dirents :: "diosfs_superblock \<Rightarrow> nat" where
  "max_dirents sb = (NUM_BLOCKS_DIRECT * s_block_size sb) div 144"

text \<open>Reading the direct block \<open>k\<close> of a directory into a buffer.\<close>

definition read_dir_block :: "'d diosfs_filesystem_context \<Rightarrow> diosfs_inode \<Rightarrow> nat \<Rightarrow> byte list \<Rightarrow> 'd \<Rightarrow> byte list res" where
  "read_dir_block fs inode k buffer d =
     (if length (i_blocks inode) \<le> k then Inl OutOfBounds
      else diosfs_read_block_by_number fs (unat (i_blocks inode ! k)) buffer 0 0 (s_block_size (fs_superblock fs)) d)"

definition diosfs_write_dirent ::
    "'d diosfs_filesystem_context \<Rightarrow> diosfs_inode \<Rightarrow> diosfs_directory_entry \<Rightarrow> 'd \<Rightarrow> (nat \<times> diosfs_inode \<times> 'd) res" where
  "diosfs_write_dirent fs inode entry d =
     (let sb = fs_superblock fs; per = dirents_per_block sb in
      if unat (i_size inode) = max_dirents sb then Inr (DIOSFS_CANT_ALLOCATE_BLOCKS_FOR_DIR, inode, d)
      else bindR (diosfs_read_inode fs (unat (i_inode_number inode)) d) (\<lambda>inode.
        if per = 0 then Inl DivideError
        else let block = unat (i_size inode) div per; entry_in_block = unat (i_size inode) mod per in
          bindR (if entry_in_block = 0 \<and> unat (i_block_count inode) < block \<or> i_block_count inode = 0 then
                   bindR (diosfs_get_free_block_and_mark_bitmap fs d) (\<lambda>(b, d).
                     if length (i_blocks inode) \<le> block then Inl OutOfBounds
                     else Inr (inode\<lparr>i_blocks := (i_blocks inode)[block := word_of_nat b],
                            i_block_count := i_block_count inode + 1\<rparr>, d))
                 else Inr (inode, d)) (\<lambda>(inode, d).
          bindR (read_dir_block fs inode block (fs_kmalloc fs 4096) d) (\<lambda>read_buffer.
            if length read_buffer < 144 * entry_in_block + 144 then Inl OutOfBounds
            else let read_buffer = put_dirent read_buffer entry_in_block entry;
                     inode = inode\<lparr>i_size := i_size inode + 1\<rparr>
              in bindR (diosfs_write_block_by_number fs (unat (i_blocks inode ! block)) read_buffer 0 0 (s_block_size sb) d) (\<lambda>d.
                 bindR (diosfs_write_inode fs inode d) (\<lambda>d.
                   Inr (DIOSFS_SUCCESS, inode, d)))))))"

text \<open>
  The loops of \<^verbatim>\<open>diosfs_get_directory_entries\<close>: over the entries of a block, and over the direct blocks.
  \<open>children\<close> are the entries copied so far; the flag is set when all have been read.
\<close>

fun copy_entries :: "byte list \<Rightarrow> nat list \<Rightarrow> nat \<Rightarrow> nat \<Rightarrow> diosfs_directory_entry list \<Rightarrow> (bool \<times> diosfs_directory_entry list) res" where
  "copy_entries buffer [] sz children_size children = Inr (False, children)"
| "copy_entries buffer (i # is) sz children_size children =
     (if length children = sz then Inr (True, children)
      else if children_size < 144 * (length children + 1) then Inl OutOfBounds
      else copy_entries buffer is sz children_size (children @ [get_dirent buffer i]))"

fun read_dir_blocks :: "'d diosfs_filesystem_context \<Rightarrow> nat list \<Rightarrow> nat \<Rightarrow> nat \<Rightarrow> byte list \<Rightarrow>
    diosfs_directory_entry list \<Rightarrow> 'd \<Rightarrow> diosfs_directory_entry list res" where
  "read_dir_blocks fs [] sz children_size buffer children d = Inl OutOfBounds"
| "read_dir_blocks fs (b # bs) sz children_size buffer children d =
     bindR (diosfs_read_block_by_number fs b buffer 0 0 (s_block_size (fs_superblock fs)) d) (\<lambda>buffer.
     bindR (copy_entries buffer [0..<dirents_per_block (fs_superblock fs)] sz children_size children) (\<lambda>(stop, children).
       if stop then Inr children else read_dir_blocks fs bs sz children_size buffer children d))"

definition diosfs_get_directory_entries ::
    "'d diosfs_filesystem_context \<Rightarrow> nat \<Rightarrow> nat \<Rightarrow> 'd \<Rightarrow> (nat \<times> diosfs_directory_entry list) res" where
  "diosfs_get_directory_entries fs inode_number children_size d =
     bindR (diosfs_read_inode fs inode_number d) (\<lambda>inode.
       if i_type inode \<noteq> VNODE_DIRECTORY then Inr (DIOSFS_NOT_A_DIRECTORY, [])
       else if children_size < unat (i_block_count inode) * s_block_size (fs_superblock fs)
       then Inr (DIOSFS_BUFFER_TOO_SMALL, [])
       else bindR (read_dir_blocks fs (map unat (i_blocks inode)) (unat (i_size inode)) children_size
                     (fs_kmalloc fs 4096) [] d) (\<lambda>children.
         Inr (DIOSFS_SUCCESS, children)))"

text \<open>
  The search of \<^verbatim>\<open>diosfs_find_directory_entry_and_update\<close>. The count of entries read is compared with the
  directory's size but never incremented, so only an empty directory ends the search.
\<close>

fun find_entry_block :: "byte list \<Rightarrow> nat list \<Rightarrow> nat \<Rightarrow> nat \<Rightarrow> (nat option) res" where
  "find_entry_block buffer [] sz inode_number = Inr None"
| "find_entry_block buffer (i # is) sz inode_number =
     (if 0 = sz then Inl (Panic ''diosfs_find_directory_entry_and_update entry not found; this should not happen'')
      else if unat (de_inode_number (get_dirent buffer i)) = inode_number then Inr (Some i)
      else find_entry_block buffer is sz inode_number)"

fun find_entry :: "'d diosfs_filesystem_context \<Rightarrow> nat list \<Rightarrow> nat \<Rightarrow> nat \<Rightarrow> byte list \<Rightarrow> 'd \<Rightarrow> (nat \<times> byte list \<times> nat) res" where
  "find_entry fs [] sz inode_number buffer d = Inl OutOfBounds"
| "find_entry fs (b # bs) sz inode_number buffer d =
     bindR (diosfs_read_block_by_number fs b buffer 0 0 (s_block_size (fs_superblock fs)) d) (\<lambda>buffer.
     bindR (find_entry_block buffer [0..<dirents_per_block (fs_superblock fs)] sz inode_number) (\<lambda>r.
       case r of Some i \<Rightarrow> Inr (b, buffer, i) | None \<Rightarrow> find_entry fs bs sz inode_number buffer d))"

text \<open>The name is copied from the inode structure, whose bytes behind the name are those of its next fields.\<close>

definition diosfs_find_directory_entry_and_update ::
    "'d diosfs_filesystem_context \<Rightarrow> nat \<Rightarrow> nat \<Rightarrow> 'd \<Rightarrow> (nat \<times> 'd) res" where
  "diosfs_find_directory_entry_and_update fs inode_number directory_inode_number d =
     bindR (diosfs_read_inode fs inode_number d) (\<lambda>entry.
     bindR (diosfs_read_inode fs directory_inode_number d) (\<lambda>inode.
       if i_type inode \<noteq> VNODE_DIRECTORY then Inr (DIOSFS_NOT_A_DIRECTORY, d)
       else bindR (find_entry fs (map unat (i_blocks inode)) (unat (i_size inode)) inode_number (fs_kmalloc fs 4096) d) (\<lambda>(block_number, buffer, i).
         bindR (safe_strcpy buffer (144 * i) (drop 10 (inode_bytes entry)) MAX_FILENAME_LENGTH) (\<lambda>buffer.
           let buffer = put_dirent buffer i ((get_dirent buffer i)\<lparr>de_size := i_size entry,
                          de_parent_inode_number := ucast (i_parent_inode_number entry)\<rparr>)
           in if unat (i_parent_inode_number entry) \<noteq> directory_inode_number
              then Inl (Panic ''diosfs_find_directory_entry_and_update entry parent does not match expected parent'')
              else bindR (diosfs_write_block_by_number fs block_number buffer 0 0 1024 d) (\<lambda>d.
                Inr (DIOSFS_SUCCESS, d))))))"

section \<open>Removing entries\<close>

text \<open>Dropping one reference to a file: the inode is removed with the last one.\<close>

definition drop_file :: "'d diosfs_filesystem_context \<Rightarrow> nat \<Rightarrow> 'd \<Rightarrow> 'd res" where
  "drop_file fs n d =
     bindR (diosfs_read_inode fs n d) (\<lambda>temp_inode.
       if i_refcount temp_inode \<le> 1 then bindR (diosfs_remove_file fs temp_inode d) (\<lambda>(_, d). Inr d)
       else diosfs_write_inode fs (temp_inode\<lparr>i_refcount := i_refcount temp_inode - 1\<rparr>) d)"

text \<open>
  The loop of \<^verbatim>\<open>diosfs_recursive_directory_entry_free\<close>, with \<open>n\<close> entries left from \<open>i\<close> on and \<open>descend\<close> for the
  recursive call. The type is read from \<^verbatim>\<open>entries[i]\<close> without the reduction modulo the entries per block.
\<close>

fun free_entries :: "'d diosfs_filesystem_context \<Rightarrow> (nat \<Rightarrow> 'd \<Rightarrow> 'd res) \<Rightarrow> diosfs_inode \<Rightarrow> nat \<Rightarrow> nat \<Rightarrow> byte list \<Rightarrow> 'd \<Rightarrow> 'd res" where
  "free_entries fs descend inode 0 i buffer d = Inr d"
| "free_entries fs descend inode (Suc n) i buffer d =
     (let per = dirents_per_block (fs_superblock fs) in
      if per = 0 then Inl DivideError
      else bindR (if i mod per = 0 then read_dir_block fs inode (i div per) buffer d else Inr buffer) (\<lambda>buffer.
        if length buffer < 144 * i + 144 then Inl OutOfBounds
        else let t = de_type (get_dirent buffer i); k = unat (de_inode_number (get_dirent buffer (i mod per))) in
          bindR (if t = VNODE_FILE then drop_file fs k d
                 else if t = VNODE_DIRECTORY then descend (unat (de_inode_number (get_dirent buffer i))) d
                 else bindR (diosfs_read_inode fs k d) (\<lambda>temp_inode.
                   bindR (diosfs_remove_file fs temp_inode d) (\<lambda>(_, d). Inr d))) (\<lambda>d.
            free_entries fs descend inode n (i + 1) buffer d)))"

text \<open>The depth bounds the nesting of directories that are removed (the kernel's stack bounds it in the code).\<close>

fun diosfs_recursive_directory_entry_free :: "nat \<Rightarrow> 'd diosfs_filesystem_context \<Rightarrow> nat \<Rightarrow> 'd \<Rightarrow> 'd res" where
  "diosfs_recursive_directory_entry_free 0 fs inode_number d = Inl Unmodelled"
| "diosfs_recursive_directory_entry_free (Suc depth) fs inode_number d =
     bindR (diosfs_read_inode fs inode_number d) (\<lambda>inode.
     bindR (free_entries fs (diosfs_recursive_directory_entry_free depth fs) inode (unat (i_size inode)) 0
              (fs_kmalloc fs 4096) d) (\<lambda>d.
     bindR (diosfs_remove_file fs inode d) (\<lambda>(inode, d).
       diosfs_write_inode fs inode d)))"

text \<open>
  What \<^verbatim>\<open>diosfs_directory_entry_free\<close> does once the entry is found at index \<open>i\<close> of the parent, with its
  block in \<open>buffer\<close>: the entry numbered \<^verbatim>\<open>size\<close>, one behind the last, is moved to its place.
\<close>

definition remove_entry_at :: "nat \<Rightarrow> 'd diosfs_filesystem_context \<Rightarrow> diosfs_inode \<Rightarrow> nat \<Rightarrow> byte list \<Rightarrow> 'd \<Rightarrow> (nat \<times> 'd) res" where
  "remove_entry_at depth fs parent i buffer d =
     (let bs = s_block_size (fs_superblock fs); per = dirents_per_block (fs_superblock fs);
          e = get_dirent buffer (i mod per); sz = unat (i_size parent) in
      if de_type e \<noteq> VNODE_DIRECTORY \<and> length buffer < 144 * i + 144 then Inl OutOfBounds
      else bindR (if de_type e = VNODE_DIRECTORY then
                    diosfs_recursive_directory_entry_free depth fs (unat (de_inode_number e)) d
                  else if de_type (get_dirent buffer i) = VNODE_FILE then drop_file fs (unat (de_inode_number e)) d
                  else Inr d) (\<lambda>d.
        bindR (if 1 < sz then
                 bindR (read_dir_block fs parent (sz div per) (fs_kmalloc fs 4096) d) (\<lambda>shift_buffer.
                   if length shift_buffer < 144 * (sz mod per) + 144 then Inl OutOfBounds
                   else let buffer = overwrite buffer (144 * (i mod per)) (window shift_buffer (144 * (sz mod per)) 144) in
                     bindR (if sz mod per = 0 then
                              bindR (diosfs_free_block_and_mark_bitmap fs (unat (i_blocks parent ! (sz div per))) d) (\<lambda>d.
                                Inr (parent\<lparr>i_block_count := i_block_count parent - 1\<rparr>, d))
                            else Inr (parent, d)) (\<lambda>(parent, d).
                     bindR (diosfs_write_block_by_number fs (unat (i_blocks parent ! (i div per))) buffer 0 0 bs d) (\<lambda>d.
                       Inr (parent, buffer, d))))
               else Inr (parent, overwrite buffer (144 * (i mod per)) (replicate 144 0), d)) (\<lambda>(parent, buffer, d).
        bindR (diosfs_write_block_by_number fs (unat (i_blocks parent ! (i div per))) buffer 0 0 bs d) (\<lambda>d.
        bindR (diosfs_write_inode fs (parent\<lparr>i_size := i_size parent - 1\<rparr>) d) (\<lambda>d.
          Inr (DIOSFS_SUCCESS, d))))))"

fun dirent_free_loop :: "nat \<Rightarrow> 'd diosfs_filesystem_context \<Rightarrow> diosfs_inode \<Rightarrow> nat \<Rightarrow> nat \<Rightarrow> nat \<Rightarrow> byte list \<Rightarrow> 'd \<Rightarrow> (nat \<times> 'd) res" where
  "dirent_free_loop depth fs parent inode_to_remove 0 i buffer d = Inr (DIOSFS_NOT_FOUND, d)"
| "dirent_free_loop depth fs parent inode_to_remove (Suc n) i buffer d =
     (let per = dirents_per_block (fs_superblock fs) in
      if per = 0 then Inl DivideError
      else bindR (if i mod per = 0 then read_dir_block fs parent (i div per) buffer d else Inr buffer) (\<lambda>buffer.
        if unat (de_inode_number (get_dirent buffer (i mod per))) = inode_to_remove
        then remove_entry_at depth fs parent i buffer d
        else dirent_free_loop depth fs parent inode_to_remove n (i + 1) buffer d))"

definition diosfs_directory_entry_free ::
    "nat \<Rightarrow> 'd diosfs_filesystem_context \<Rightarrow> diosfs_directory_entry option \<Rightarrow> diosfs_inode \<Rightarrow> 'd \<Rightarrow> (nat \<times> 'd) res" where
  "diosfs_directory_entry_free depth fs entry inode d =
     bindR (diosfs_read_inode fs (case entry of Some e \<Rightarrow> unat (de_parent_inode_number e)
              | None \<Rightarrow> unat (i_parent_inode_number inode)) d) (\<lambda>parent_inode.
       let inode_to_remove = (case entry of None \<Rightarrow> unat (i_inode_number inode) | Some e \<Rightarrow> unat (de_inode_number e)) in
       dirent_free_loop depth fs parent_inode inode_to_remove (unat (i_size parent_inode)) 0 (fs_kmalloc fs 4096) d)"

section \<open>File contents\<close>

text \<open>
  The loop of \<^verbatim>\<open>diosfs_read_bytes_from_inode\<close> over the blocks \<open>i, i + 1, \<dots>\<close>, \<open>n\<close> of them; a block is read
  whole to the buffer's position.
\<close>

fun read_blocks :: "'d diosfs_filesystem_context \<Rightarrow> diosfs_inode \<Rightarrow> nat \<Rightarrow> nat \<Rightarrow> byte list \<Rightarrow> nat \<Rightarrow> nat \<Rightarrow> nat \<Rightarrow> nat \<Rightarrow> 'd \<Rightarrow> byte list res" where
  "read_blocks fs inode 0 i buffer pos start_offset bytes_read bytes_to_read d = Inr buffer"
| "read_blocks fs inode (Suc n) i buffer pos start_offset bytes_read bytes_to_read d =
     (let bs = s_block_size (fs_superblock fs);
          byte_size = (if bs - start_offset < bytes_to_read then bs - start_offset else bytes_to_read)
      in bindR (diosfs_get_relative_block_number_from_file fs inode i d) (\<lambda>current_block_number.
         bindR (diosfs_read_block_by_number fs current_block_number buffer (pos + bytes_read) start_offset byte_size d) (\<lambda>buffer.
           read_blocks fs inode n (i + 1) buffer pos 0 (bytes_read + byte_size) (bytes_to_read - byte_size) d)))"

definition diosfs_read_bytes_from_inode ::
    "'d diosfs_filesystem_context \<Rightarrow> diosfs_inode \<Rightarrow> byte list \<Rightarrow> nat \<Rightarrow> nat \<Rightarrow> nat \<Rightarrow> nat \<Rightarrow> 'd \<Rightarrow> (nat \<times> byte list) res" where
  "diosfs_read_bytes_from_inode fs inode buffer pos buffer_size offset read_size_bytes d =
     (let bs = s_block_size (fs_superblock fs); num_blocks_to_read = read_size_bytes div bs in
      if bs = 0 then Inl DivideError
      else if i_type inode \<noteq> VNODE_FILE then Inl (Panic ''diosfs_write_bytes_to_inode bad type'')
      else if buffer_size < bs \<or> buffer_size < bs * num_blocks_to_read then Inr (DIOSFS_BUFFER_TOO_SMALL, buffer)
      else if unat (i_size inode) < offset then Inl (Panic ''diosfs_read_bytes_from_inode bad offset'')
      else bindR (read_blocks fs inode (num_blocks_to_read + 1) (offset div bs) buffer pos (offset mod bs) 0 read_size_bytes d) (\<lambda>buffer.
        Inr (DIOSFS_SUCCESS, buffer)))"

fun write_blocks :: "'d diosfs_filesystem_context \<Rightarrow> diosfs_inode \<Rightarrow> nat \<Rightarrow> nat \<Rightarrow> byte list \<Rightarrow> nat \<Rightarrow> nat \<Rightarrow> nat \<Rightarrow> 'd \<Rightarrow> 'd res" where
  "write_blocks fs inode 0 i buffer pos start_offset bytes_left d = Inr d"
| "write_blocks fs inode (Suc n) i buffer pos start_offset bytes_left d =
     (let bs = s_block_size (fs_superblock fs);
          byte_size = (if bs - start_offset < bytes_left then bs - start_offset else bytes_left)
      in bindR (diosfs_get_relative_block_number_from_file fs inode i d) (\<lambda>current_block_number.
         bindR (diosfs_write_block_by_number fs current_block_number buffer pos start_offset byte_size d) (\<lambda>d.
           write_blocks fs inode n (i + 1) buffer (pos + byte_size) 0 (bytes_left - byte_size) d)))"

text \<open>
  \<^verbatim>\<open>diosfs_write_bytes_to_inode\<close>. The allocation's result is not looked at, and it has already raised the
  inode's block count when the statement after it is reached.
\<close>

definition diosfs_write_bytes_to_inode ::
    "'d diosfs_filesystem_context \<Rightarrow> diosfs_inode \<Rightarrow> byte list \<Rightarrow> nat \<Rightarrow> nat \<Rightarrow> nat \<Rightarrow> nat \<Rightarrow> 'd \<Rightarrow> (nat \<times> diosfs_inode \<times> 'd) res" where
  "diosfs_write_bytes_to_inode fs inode buffer pos buffer_size offset write_size_bytes d =
     (let bs = s_block_size (fs_superblock fs) in
      if i_type inode \<noteq> VNODE_FILE then Inl (Panic ''diosfs_write_bytes_to_inode bad type'')
      else if bs = 0 then Inl DivideError
      else let n = write_size_bytes div bs; start_block = offset div bs; start_offset = offset mod bs;
               num_blocks_to_write = (if (start_offset + write_size_bytes) div bs \<noteq> 0 \<and> n = 0 then n + 1 else n)
        in if buffer_size < write_size_bytes then Inr (DIOSFS_BUFFER_TOO_SMALL, inode, d)
           else if unat (i_size inode) < offset then Inl (Panic ''diosfs_write_bytes_from_inode bad offset'')
           else let grow = unat (i_size inode) < offset + write_size_bytes;
                    new_size_bytes = offset + write_size_bytes - unat (i_size inode)
             in bindR (if i_size inode = 0 then
                         bindR (diosfs_get_free_block_and_mark_bitmap fs d) (\<lambda>(b, d).
                           if i_blocks inode = [] then Inl OutOfBounds
                           else let inode = inode\<lparr>i_block_count := i_block_count inode + 1,
                                       i_blocks := (i_blocks inode)[0 := word_of_nat b]\<rparr>
                             in bindR (diosfs_write_inode fs inode d) (\<lambda>d.
                                bindR (diosfs_read_inode fs (unat (i_inode_number inode)) d) (\<lambda>inode. Inr (inode, d))))
                       else Inr (inode, d)) (\<lambda>(inode, d).
                let end_block = start_block + num_blocks_to_write in
                bindR (if unat (i_block_count inode) < end_block + 1 then
                         bindR (diosfs_inode_allocate_new_blocks fs inode
                                  (word_of_nat (end_block + 1 - unat (i_block_count inode))) d) (\<lambda>(_, inode, d).
                           Inr (inode\<lparr>i_block_count := i_block_count inode +
                                  word_of_int (int (end_block + 1) - int (unat (i_block_count inode)))\<rparr>, d))
                       else Inr (inode, d)) (\<lambda>(inode, d).
                bindR (write_blocks fs inode (num_blocks_to_write + 1) start_block buffer pos start_offset write_size_bytes d) (\<lambda>d.
                  let inode = (if grow then inode\<lparr>i_size := i_size inode + word_of_nat new_size_bytes\<rparr> else inode) in
                  bindR (diosfs_write_inode fs inode d) (\<lambda>d.
                  bindR (diosfs_find_directory_entry_and_update fs (unat (i_inode_number inode)) (unat (i_parent_inode_number inode)) d) (\<lambda>(_, d).
                    Inr (DIOSFS_SUCCESS, inode, d)))))))"

section \<open>Specification\<close>

text \<open>The entries of a directory as the volume holds them.\<close>

definition block_dirents :: "byte list \<Rightarrow> diosfs_directory_entry list" where
  "block_dirents c = map (get_dirent c) [0..<7]"

definition dir_list :: "volume \<Rightarrow> diosfs_inode \<Rightarrow> diosfs_directory_entry list" where
  "dir_list v inode = take (unat (i_size inode)) (concat (map (\<lambda>b. block_dirents (blocks v (unat b))) (i_blocks inode)))"

text \<open>The direct blocks a directory of \<open>n\<close> entries uses, and the one behind them, are blocks of the volume.\<close>

definition dir_blocks_ok :: "nat \<Rightarrow> diosfs_inode \<Rightarrow> bool" where
  "dir_blocks_ok nb inode \<longleftrightarrow> unat (i_size inode) < 70 \<and>
     (\<forall>k \<le> unat (i_size inode) div 7. unat (i_blocks inode ! k) < nb)"

section \<open>Lemmas\<close>

lemma length_block_dirents [simp]: "length (block_dirents c) = 7"
  by (simp add: block_dirents_def)

lemma nth_block_dirents: "i < 7 \<Longrightarrow> block_dirents c ! i = get_dirent c i"
  by (simp add: block_dirents_def)

lemma get_dirent_overwrite:
  assumes "144 * i + 144 \<le> length c" and "length c \<le> length buf"
  shows "get_dirent (overwrite buf 0 c) i = get_dirent c i"
proof -
  have "window (overwrite buf 0 c) (144 * i) 144 = window c (144 * i) 144"
    using assms by (intro nth_equalityI) (auto simp: nth_window nth_overwrite)
  then show ?thesis by (simp add: get_dirent_def)
qed

lemma get_dirent_window: "144 * i + 144 \<le> n \<Longrightarrow> get_dirent (window buf 0 n) i = get_dirent buf i"
  by (simp add: get_dirent_def window_window)

lemma block_dirents_overwrite:
  "length c = 1024 \<Longrightarrow> 1024 \<le> length buf \<Longrightarrow> map (get_dirent (overwrite buf 0 c)) [0..<7] = block_dirents c"
  by (auto simp: block_dirents_def intro!: get_dirent_overwrite)

lemma copy_entries_eq:
  assumes "length ch \<le> sz" and "144 * sz \<le> cs"
  shows "copy_entries buf is sz cs ch =
    Inr (sz - length ch < length is, ch @ take (sz - length ch) (map (get_dirent buf) is))"
  using assms(1)
proof (induction "is" arbitrary: ch)
  case Nil
  then show ?case by simp
next
  case (Cons i "is")
  show ?case
  proof (cases "length ch = sz")
    case True
    then show ?thesis by simp
  next
    case False
    then obtain m where m: "sz - length ch = Suc m" "sz - length (ch @ [get_dirent buf i]) = m"
      using Cons.prems by (cases "sz - length ch") auto
    have "144 * (length ch + 1) \<le> cs" using False Cons.prems assms(2) by simp
    with False Cons m show ?thesis by simp
  qed
qed

lemma nth_concat_dirents:
  "k < 7 * length xs \<Longrightarrow> concat (map (\<lambda>b. block_dirents (f b)) xs) ! k = block_dirents (f (xs ! (k div 7))) ! (k mod 7)"
proof (induction xs arbitrary: k)
  case Nil
  then show ?case by simp
next
  case (Cons x xs)
  show ?case
  proof (cases "k < 7")
    case True
    then show ?thesis by (simp add: nth_append)
  next
    case False
    then have "k div 7 = Suc ((k - 7) div 7)" "k mod 7 = (k - 7) mod 7" by (simp_all add: le_div_geq le_mod_geq)
    with Cons.IH [of "k - 7"] Cons.prems False show ?thesis by (simp add: nth_append)
  qed
qed

lemma length_concat_dirents: "length (concat (map (\<lambda>b. block_dirents (f b)) xs)) = 7 * length xs"
  by (induction xs) auto

lemma length_dir_list: "wf_inode i \<Longrightarrow> unat (i_size i) \<le> 70 \<Longrightarrow> length (dir_list v i) = unat (i_size i)"
  by (simp add: dir_list_def length_concat_dirents wf_inode_def)

lemma nth_dir_list:
  "wf_inode i \<Longrightarrow> unat (i_size i) \<le> 70 \<Longrightarrow> k < unat (i_size i) \<Longrightarrow>
    dir_list v i ! k = get_dirent (blocks v (unat (i_blocks i ! (k div 7)))) (k mod 7)"
  by (simp add: dir_list_def nth_concat_dirents wf_inode_def nth_block_dirents)

lemma unat_inc_32: "unat (w :: 32 word) < 70 \<Longrightarrow> unat (w + 1) = unat w + 1"
  by (simp add: unat_word_ariths)

context diosfs_volume
begin

lemma per_eq: "ok d \<Longrightarrow> dirents_per_block sb = 7"
  by (simp add: dirents_per_block_def block_size_eq)

lemma read_dir_blocks_ok:
  assumes "ok d" and "length ch \<le> sz" and "sz - length ch < 7 * length bs" and "144 * sz \<le> cs" and "4096 \<le> length buf"
    and "\<forall>k \<le> (sz - length ch) div 7. bs ! k < s_num_blocks sb"
  shows "read_dir_blocks fs bs sz cs buf ch d =
    Inr (ch @ take (sz - length ch) (concat (map (\<lambda>b. block_dirents (blocks (vw d) b)) bs)))"
  using assms(2-)
proof (induction bs arbitrary: ch buf)
  case Nil
  then show ?case by simp
next
  case (Cons b bs)
  let ?r = "sz - length ch" and ?buf = "overwrite buf 0 (blocks (vw d) b)"
  have b: "b < s_num_blocks sb" using Cons.prems(5) by (metis le0 nth_Cons_0)
  have len: "length (blocks (vw d) b) = 1024" by (rule length_block [OF assms(1) b])
  have rd: "diosfs_read_block_by_number fs b buf 0 0 (s_block_size sb) d = Inr ?buf"
    using Cons.prems(4) b by (intro read_block_ok [OF assms(1)]) simp_all
  have e: "map (get_dirent ?buf) [0..<7] = block_dirents (blocks (vw d) b)"
    using len Cons.prems(4) by (intro block_dirents_overwrite) simp_all
  have ce: "copy_entries ?buf [0..<7] sz cs ch = Inr (?r < 7, ch @ take ?r (block_dirents (blocks (vw d) b)))"
    using copy_entries_eq [OF Cons.prems(1,3), of ?buf "[0..<7]"] e by simp
  show ?case
  proof (cases "?r < 7")
    case True
    then show ?thesis using rd ce by (simp add: per_eq [OF assms(1)])
  next
    case False
    let ?ch = "ch @ block_dirents (blocks (vw d) b)"
    have r: "sz - length ?ch = ?r - 7" by simp
    have "(?r - 7) div 7 + 1 = ?r div 7" using False by (simp add: le_div_geq)
    then have "\<forall>k \<le> (sz - length ?ch) div 7. bs ! k < s_num_blocks sb"
      using Cons.prems(5) r by (metis Suc_eq_plus1 Suc_le_mono nth_Cons_Suc)
    then have "read_dir_blocks fs bs sz cs ?buf ?ch d =
        Inr (?ch @ take (sz - length ?ch) (concat (map (\<lambda>b. block_dirents (blocks (vw d) b)) bs)))"
      using Cons.prems False len by (intro Cons.IH) auto
    then show ?thesis using rd ce False r by (simp add: per_eq [OF assms(1)])
  qed
qed

lemma get_directory_entries_ok:
  assumes "ok d" and n: "n < s_num_inodes sb" and t: "i_type (inodes (vw d) n) = VNODE_DIRECTORY"
    and b: "dir_blocks_ok (s_num_blocks sb) (inodes (vw d) n)"
    and cs: "unat (i_block_count (inodes (vw d) n)) * 1024 \<le> cs" "144 * unat (i_size (inodes (vw d) n)) \<le> cs"
  shows "diosfs_get_directory_entries fs n cs d = Inr (DIOSFS_SUCCESS, dir_list (vw d) (inodes (vw d) n))"
proof -
  let ?i = "inodes (vw d) n"
  have l: "length (i_blocks ?i) = 10" using wf_inodes [OF assms(1)] by (simp add: wf_inode_def)
  have "read_dir_blocks fs (map unat (i_blocks ?i)) (unat (i_size ?i)) cs (fs_kmalloc fs 4096) [] d =
      Inr ([] @ take (unat (i_size ?i) - length ([] :: diosfs_directory_entry list))
        (concat (map (\<lambda>b. block_dirents (blocks (vw d) b)) (map unat (i_blocks ?i)))))"
    using b cs l kmalloc_length [OF assms(1), of 4096]
    by (intro read_dir_blocks_ok [OF assms(1)]) (auto simp: dir_blocks_ok_def)
  then show ?thesis
    using read_inode_ok [OF assms(1) n] t cs(1) block_size_eq [OF assms(1)]
    by (simp add: diosfs_get_directory_entries_def dir_list_def comp_def)
qed

text \<open>
  Writing an entry without a new block: it lands in the direct block the size selects, whatever that
  pointer is.
\<close>

lemma write_dirent_ok:
  assumes "ok d" and n: "unat (i_inode_number inode) = n" "n < s_num_inodes sb" "unat (i_inode_number (inodes (vw d) n)) = n"
    and sz: "unat (i_size inode) \<noteq> 71" "unat (i_size (inodes (vw d) n)) = s" "s < 70"
    and bc: "i_block_count (inodes (vw d) n) \<noteq> 0" "s mod 7 \<noteq> 0 \<or> s div 7 \<le> unat (i_block_count (inodes (vw d) n))"
    and b: "unat (i_blocks (inodes (vw d) n) ! (s div 7)) = b" "b < s_num_blocks sb" and e: "wf_dirent entry"
  obtains d' where "diosfs_write_dirent fs inode entry d =
      Inr (DIOSFS_SUCCESS, (inodes (vw d) n)\<lparr>i_size := i_size (inodes (vw d) n) + 1\<rparr>, d')" and "ok d'"
    and "vw d' = (vw d)\<lparr>blocks := (blocks (vw d))(b := put_dirent (blocks (vw d) b) (s mod 7) entry),
      inodes := (inodes (vw d))(n := (inodes (vw d) n)\<lparr>i_size := i_size (inodes (vw d) n) + 1\<rparr>)\<rparr>"
proof -
  let ?i = "inodes (vw d) n" and ?k = "fs_kmalloc fs 4096"
  have wf: "wf_inode ?i" by (rule wf_inodes [OF assms(1)])
  have lk: "4096 \<le> length ?k" by (rule kmalloc_length [OF assms(1)])
  have len: "length (blocks (vw d) b) = 1024" by (rule length_block [OF assms(1) b(2)])
  let ?buf = "overwrite ?k 0 (blocks (vw d) b)"
  have r7: "144 * (s mod 7) + 144 \<le> 1024" using mod_less_divisor [of 7 s] by linarith
  have "s div 7 < 10" using sz(3) by (simp add: div_less_iff_less_mult)
  then have rd: "read_dir_block fs ?i (s div 7) ?k d = Inr ?buf"
    using wf b lk read_block_ok [OF assms(1) b(2), of 0 ?k] by (simp add: read_dir_block_def wf_inode_def)
  have lb: "length ?buf = length ?k" using lk len by simp
  let ?buf' = "put_dirent ?buf (s mod 7) entry"
  have lb': "0 + 1024 \<le> length ?buf'" using lb lk r7 e by simp
  obtain d1 where w: "diosfs_write_block_by_number fs b ?buf' 0 0 1024 d = Inr d1" "ok d1"
    "vw d1 = (vw d)\<lparr>blocks := (blocks (vw d))(b := window ?buf' 0 1024)\<rparr>"
    by (rule write_block_ok [OF assms(1) b(2) lb'])
  have win: "window ?buf' 0 1024 = put_dirent (blocks (vw d) b) (s mod 7) entry"
    using r7 e len lk lb by (intro nth_equalityI) (auto simp: put_dirent_def nth_window nth_overwrite)
  let ?in = "?i\<lparr>i_size := i_size ?i + 1\<rparr>"
  have wi: "wf_inode ?in" using wf by (simp add: wf_inode_def)
  have ni: "unat (i_inode_number ?in) < s_num_inodes sb" using n by simp
  obtain d2 where w2: "diosfs_write_inode fs ?in d1 = Inr d2" "ok d2"
    "vw d2 = (vw d1)\<lparr>inodes := (inodes (vw d1))(unat (i_inode_number ?in) := ?in)\<rparr>"
    by (rule write_inode_ok [OF w(2) wi ni])
  have ri: "diosfs_read_inode fs n d = Inr ?i" by (rule read_inode_ok [OF assms(1) n(2)])
  have nl: "\<not> length ?buf < 144 * (s mod 7) + 144" using lb lk r7 by simp
  show thesis
  proof (rule that)
    have "\<not> (s mod 7 = 0 \<and> unat (i_block_count ?i) < s div 7 \<or> i_block_count ?i = 0)" using bc by auto
    then show "diosfs_write_dirent fs inode entry d = Inr (DIOSFS_SUCCESS, ?in, d2)"
      using n(1) sz ri rd w(1) w2(1) b(1) nl
      by (auto simp: diosfs_write_dirent_def Let_def max_dirents_def per_eq [OF assms(1)] block_size_eq [OF assms(1)]
          NUM_BLOCKS_DIRECT_def)
    show "ok d2" by (rule w2(2))
    show "vw d2 = (vw d)\<lparr>blocks := (blocks (vw d))(b := put_dirent (blocks (vw d) b) (s mod 7) entry),
        inodes := (inodes (vw d))(n := ?in)\<rparr>"
      using w2(3) w(3) win n(3) by simp
  qed
qed

text \<open>Removing an entry of a directory of two to six entries.\<close>

lemma dirent_free_loop_skip:
  assumes "ok d" and "0 < j" and "j \<le> i" and "i < 7" and "i < j + m"
    and "unat (de_inode_number (get_dirent buf i)) = t"
    and "\<forall>k. j \<le> k \<and> k < i \<longrightarrow> unat (de_inode_number (get_dirent buf k)) \<noteq> t"
  shows "dirent_free_loop depth fs p t m j buf d = remove_entry_at depth fs p i buf d"
  using assms(2-)
proof (induction m arbitrary: j)
  case 0
  then show ?case by simp
next
  case (Suc m)
  show ?case
  proof (cases "j = i")
    case True
    with Suc.prems show ?thesis by (simp add: per_eq [OF assms(1)])
  next
    case False
    with Suc.prems have "unat (de_inode_number (get_dirent buf j)) \<noteq> t" by auto
    with Suc False show ?thesis by (simp add: per_eq [OF assms(1)])
  qed
qed

lemma window_patch:
  assumes "length c = 1024" "1024 \<le> length buf" "p + length w \<le> 1024"
  shows "window (overwrite (overwrite buf 0 c) p w) 0 1024 = overwrite c p w"
  using assms by (intro nth_equalityI) (auto simp: nth_window nth_overwrite)

lemma window_overwrite_0: "p + k \<le> length c \<Longrightarrow> length c \<le> length buf \<Longrightarrow> window (overwrite buf 0 c) p k = window c p k"
  by (intro nth_equalityI) (auto simp: nth_window nth_overwrite)

lemma remove_entry_ok:
  assumes "ok d" and p: "inodes (vw d) pn = p" "pn < s_num_inodes sb" "unat (i_inode_number p) = pn"
    and sz: "unat (i_size p) = sz" "1 < sz" "sz < 7" and i: "i < sz"
    and b: "unat (i_blocks p ! 0) = b" "b < s_num_blocks sb"
    and t: "de_type (get_dirent (blocks (vw d) b) i) \<noteq> VNODE_DIRECTORY" "de_type (get_dirent (blocks (vw d) b) i) \<noteq> VNODE_FILE"
    and buf: "buf = overwrite k 0 (blocks (vw d) b)" "4096 \<le> length k"
  obtains d' where "remove_entry_at depth fs p i buf d = Inr (DIOSFS_SUCCESS, d')" and "ok d'"
    and "vw d' = (vw d)\<lparr>blocks := (blocks (vw d))(b := overwrite (blocks (vw d) b) (144 * i) (window (blocks (vw d) b) (144 * sz) 144)),
      inodes := (inodes (vw d))(pn := p\<lparr>i_size := i_size p - 1\<rparr>)\<rparr>"
proof -
  let ?c = "blocks (vw d) b" and ?k = "fs_kmalloc fs 4096"
  have wf: "wf_inode p" using wf_inodes [OF assms(1), of pn] p by simp
  have lk: "4096 \<le> length ?k" by (rule kmalloc_length [OF assms(1)])
  have lc: "length ?c = 1024" by (rule length_block [OF assms(1) b(2)])
  have lb: "length buf = length k" using buf lc by simp
  have i7: "i < 7" "144 * i + 144 \<le> 1024" "144 * sz + 144 \<le> 1024" using i sz by auto
  have g: "get_dirent buf i = get_dirent ?c i" using buf lc i7 by (simp add: get_dirent_overwrite)
  let ?sh = "overwrite ?k 0 ?c"
  have rd: "read_dir_block fs p 0 ?k d = Inr ?sh"
    using wf b lk read_block_ok [OF assms(1) b(2), of 0 ?k] by (simp add: read_dir_block_def wf_inode_def)
  have ls: "length ?sh = length ?k" using lc lk by simp
  let ?w = "window ?c (144 * sz) 144"
  have lw: "length ?w = 144" using lc i7 by simp
  have ws: "window ?sh (144 * sz) 144 = ?w" using lc lk i7 by (intro window_overwrite_0) simp_all
  let ?buf = "overwrite buf (144 * i) ?w"
  have l1: "0 + 1024 \<le> length ?buf" using lb buf(2) lw i7 by simp
  have win: "window ?buf 0 1024 = overwrite ?c (144 * i) ?w"
    unfolding buf(1) using lc buf(2) lw i7 by (intro window_patch) simp_all
  obtain d1 where w1: "diosfs_write_block_by_number fs b ?buf 0 0 1024 d = Inr d1" "ok d1"
    "vw d1 = (vw d)\<lparr>blocks := (blocks (vw d))(b := window ?buf 0 1024)\<rparr>"
    by (rule write_block_ok [OF assms(1) b(2) l1])
  obtain d2 where w2: "diosfs_write_block_by_number fs b ?buf 0 0 1024 d1 = Inr d2" "ok d2"
    "vw d2 = (vw d1)\<lparr>blocks := (blocks (vw d1))(b := window ?buf 0 1024)\<rparr>"
    by (rule write_block_ok [OF w1(2) b(2) l1])
  let ?in = "p\<lparr>i_size := i_size p - 1\<rparr>"
  have wi: "wf_inode ?in" "unat (i_inode_number ?in) < s_num_inodes sb" using wf p by (simp_all add: wf_inode_def)
  obtain d3 where w3: "diosfs_write_inode fs ?in d2 = Inr d3" "ok d3"
    "vw d3 = (vw d2)\<lparr>inodes := (inodes (vw d2))(unat (i_inode_number ?in) := ?in)\<rparr>"
    by (rule write_inode_ok [OF w2(2) wi])
  have nl: "\<not> length buf < 144 * i + 144" "\<not> length ?sh < 144 * sz + 144" using lb buf(2) ls lk i7 by simp_all
  show thesis
  proof (rule that)
    show "remove_entry_at depth fs p i buf d = Inr (DIOSFS_SUCCESS, d3)"
      using rd w1(1) w2(1) w3(1) t g nl sz i b(1) ws
      by (simp add: remove_entry_at_def Let_def per_eq [OF assms(1)] block_size_eq [OF assms(1)])
    show "ok d3" by (rule w3(2))
    show "vw d3 = (vw d)\<lparr>blocks := (blocks (vw d))(b := overwrite ?c (144 * i) ?w),
        inodes := (inodes (vw d))(pn := ?in)\<rparr>"
      using w1(3) w2(3) w3(3) win p(3) by simp
  qed
qed

lemma directory_entry_free_ok:
  assumes "ok d" and p: "inodes (vw d) pn = p" "pn < s_num_inodes sb" "unat (i_inode_number p) = pn"
    and sz: "unat (i_size p) = sz" "1 < sz" "sz < 7" and i: "i < sz"
    and b: "unat (i_blocks p ! 0) = b" "b < s_num_blocks sb"
    and t: "de_type (get_dirent (blocks (vw d) b) i) \<noteq> VNODE_DIRECTORY" "de_type (get_dirent (blocks (vw d) b) i) \<noteq> VNODE_FILE"
    and x: "unat (i_parent_inode_number inode) = pn" "unat (i_inode_number inode) = x"
    and f: "unat (de_inode_number (get_dirent (blocks (vw d) b) i)) = x"
      "\<forall>k<i. unat (de_inode_number (get_dirent (blocks (vw d) b) k)) \<noteq> x"
  obtains d' where "diosfs_directory_entry_free depth fs None inode d = Inr (DIOSFS_SUCCESS, d')" and "ok d'"
    and "vw d' = (vw d)\<lparr>blocks := (blocks (vw d))(b := overwrite (blocks (vw d) b) (144 * i) (window (blocks (vw d) b) (144 * sz) 144)),
      inodes := (inodes (vw d))(pn := p\<lparr>i_size := i_size p - 1\<rparr>)\<rparr>"
proof -
  let ?c = "blocks (vw d) b" and ?k = "fs_kmalloc fs 4096"
  let ?buf = "overwrite ?k 0 ?c"
  have wf: "wf_inode p" using wf_inodes [OF assms(1), of pn] p by simp
  have lk: "4096 \<le> length ?k" by (rule kmalloc_length [OF assms(1)])
  have lc: "length ?c = 1024" by (rule length_block [OF assms(1) b(2)])
  have rd: "read_dir_block fs p 0 ?k d = Inr ?buf"
    using wf b lk read_block_ok [OF assms(1) b(2), of 0 ?k] by (simp add: read_dir_block_def wf_inode_def)
  have g: "get_dirent ?buf j = get_dirent ?c j" if "j \<le> i" for j
    using that i sz lc lk by (intro get_dirent_overwrite) simp_all
  obtain m where m: "sz = Suc m" using sz(2) by (cases sz) auto
  have loop: "dirent_free_loop depth fs p x sz 0 ?k d = remove_entry_at depth fs p i ?buf d"
  proof (cases "i = 0")
    case True
    with f(1) g [of 0] rd m show ?thesis by (simp add: per_eq [OF assms(1)])
  next
    case False
    then have "unat (de_inode_number (get_dirent ?buf 0)) \<noteq> x" using f(2) g [of 0] by simp
    then have "dirent_free_loop depth fs p x sz 0 ?k d = dirent_free_loop depth fs p x m 1 ?buf d"
      using rd m by (simp add: per_eq [OF assms(1)])
    also have "\<dots> = remove_entry_at depth fs p i ?buf d"
      using False i sz m f g by (intro dirent_free_loop_skip [OF assms(1)]) auto
    finally show ?thesis .
  qed
  have "diosfs_directory_entry_free depth fs None inode d = remove_entry_at depth fs p i ?buf d"
    using read_inode_ok [OF assms(1) p(2)] p(1) x sz(1) loop by (simp add: diosfs_directory_entry_free_def)
  with remove_entry_ok [OF assms(1) p sz i b t refl lk] that show thesis by metis
qed

text \<open>Updating the entry of a file that is found in the first block of its directory.\<close>

lemma find_entry_block_ok:
  assumes "0 < sz" and "j \<le> i" and "i < m"
    and "unat (de_inode_number (get_dirent buf i)) = n"
    and "\<forall>k<i. unat (de_inode_number (get_dirent buf k)) \<noteq> n"
  shows "find_entry_block buf [j..<m] sz n = Inr (Some i)"
  using assms(2)
proof (induction "i - j" arbitrary: j)
  case 0
  then show ?case using assms by (simp add: upt_conv_Cons)
next
  case (Suc x)
  then have "j < i" by simp
  with Suc assms show ?case by (simp add: upt_conv_Cons)
qed

lemma find_update_ok:
  assumes "ok d" and e: "n < s_num_inodes sb" "inodes (vw d) n = e" "unat (i_parent_inode_number e) = dn" "0 \<in> set (i_name e)"
    and p: "dn < s_num_inodes sb" "inodes (vw d) dn = p" "i_type p = VNODE_DIRECTORY" "i_size p \<noteq> 0"
    and b: "unat (i_blocks p ! 0) = b" "b < s_num_blocks sb"
    and i: "i < 7" "unat (de_inode_number (get_dirent (blocks (vw d) b) i)) = n"
      "\<forall>k<i. unat (de_inode_number (get_dirent (blocks (vw d) b) k)) \<noteq> n"
  obtains d' c where "diosfs_find_directory_entry_and_update fs n dn d = Inr (DIOSFS_SUCCESS, d')" and "ok d'"
    and "vw d' = (vw d)\<lparr>blocks := (blocks (vw d))(b := c)\<rparr>"
proof -
  let ?c = "blocks (vw d) b" and ?k = "fs_kmalloc fs 4096"
  let ?buf = "overwrite ?k 0 ?c"
  have wf: "wf_inode e" "wf_inode p" using wf_inodes [OF assms(1)] e(2) p(2) by metis+
  have lk: "4096 \<le> length ?k" by (rule kmalloc_length [OF assms(1)])
  have lc: "length ?c = 1024" by (rule length_block [OF assms(1) b(2)])
  have lb: "length ?buf = length ?k" using lc lk by simp
  have rd: "diosfs_read_block_by_number fs b ?k 0 0 1024 d = Inr ?buf"
    using lk by (intro read_block_ok [OF assms(1) b(2)]) simp
  have g: "get_dirent ?buf j = get_dirent ?c j" if "j \<le> i" for j
    using that i lc lk by (intro get_dirent_overwrite) simp_all
  have fb: "find_entry_block ?buf [0..<7] (unat (i_size p)) n = Inr (Some i)"
    using i g p(4) by (intro find_entry_block_ok) (auto simp: unat_gt_0)
  obtain q qs where q: "i_blocks p = q # qs" using wf(2) by (cases "i_blocks p") (auto simp: wf_inode_def)
  have fe: "find_entry fs (map unat (i_blocks p)) (unat (i_size p)) n ?k d = Inr (b, ?buf, i)"
    using q b(1) rd fb by (simp add: block_size_eq [OF assms(1)] per_eq [OF assms(1)])
  obtain s r where s: "i_name e = s @ 0 # r" "0 \<notin> set s" using e(4) by (meson split_list_first)
  then have ns: "length s < 128" using wf(1) by (auto simp: wf_inode_def)
  obtain r' where r': "drop 10 (inode_bytes e) = s @ 0 # r'"
    using s by (simp add: inode_bytes_def)
  let ?b1 = "overwrite ?buf (144 * i) (s @ [0])"
  have cp: "safe_strcpy ?buf (144 * i) (drop 10 (inode_bytes e)) 128 = Inr ?b1"
    using safe_copy_eq [OF s(2), of "144 * i" ?buf 0 128 r'] ns i lb lk r' by (simp add: safe_strcpy_def)
  have l1: "length ?b1 = length ?k" using lb lk ns i by simp
  let ?e = "(get_dirent ?b1 i)\<lparr>de_size := i_size e, de_parent_inode_number := ucast (i_parent_inode_number e)\<rparr>"
  have we: "wf_dirent ?e" using l1 lk i by (simp add: get_dirent_def wf_dirent_def bytes_dirent_def)
  let ?b2 = "put_dirent ?b1 i ?e"
  have l2: "0 + 1024 \<le> length ?b2" using we l1 lk i by simp
  obtain d' where w: "diosfs_write_block_by_number fs b ?b2 0 0 1024 d = Inr d'" "ok d'"
    "vw d' = (vw d)\<lparr>blocks := (blocks (vw d))(b := window ?b2 0 1024)\<rparr>"
    by (rule write_block_ok [OF assms(1) b(2) l2])
  have "diosfs_find_directory_entry_and_update fs n dn d = Inr (DIOSFS_SUCCESS, d')"
    using read_inode_ok [OF assms(1) e(1)] read_inode_ok [OF assms(1) p(1)] e p fe cp w(1)
    by (simp add: diosfs_find_directory_entry_and_update_def Let_def MAX_FILENAME_LENGTH_def)
  with w that show thesis by blast
qed

text \<open>A write inside the first block of a file that has one.\<close>

lemma write_bytes_ok:
  assumes "ok d" and f: "n < s_num_inodes sb" "inodes (vw d) n = ino" "unat (i_inode_number ino) = n" "i_type ino = VNODE_FILE"
      "i_size ino \<noteq> 0" "i_block_count ino \<noteq> 0" "0 \<in> set (i_name ino)"
    and w: "off \<le> unat (i_size ino)" "off + sz < 1024" "sz \<le> bsz" "pos + 1024 \<le> length buf"
    and c: "unat (i_blocks ino ! 0) = c" "c < s_num_blocks sb"
    and dn: "unat (i_parent_inode_number ino) = dn" "dn \<noteq> n"
    and p: "dn < s_num_inodes sb" "inodes (vw d) dn = p" "i_type p = VNODE_DIRECTORY" "i_size p \<noteq> 0"
    and b: "unat (i_blocks p ! 0) = b" "b < s_num_blocks sb" "b \<noteq> c"
    and i: "i < 7" "unat (de_inode_number (get_dirent (blocks (vw d) b) i)) = n"
      "\<forall>k<i. unat (de_inode_number (get_dirent (blocks (vw d) b) k)) \<noteq> n"
  obtains d' c' where "diosfs_write_bytes_to_inode fs ino buf pos bsz off sz d =
      Inr (DIOSFS_SUCCESS, (if unat (i_size ino) < off + sz then ino\<lparr>i_size := word_of_nat (off + sz)\<rparr> else ino), d')" and "ok d'"
    and "vw d' = (vw d)\<lparr>
      inodes := (inodes (vw d))(n := (if unat (i_size ino) < off + sz then ino\<lparr>i_size := word_of_nat (off + sz)\<rparr> else ino)),
      blocks := (blocks (vw d))(c := window buf pos 1024, b := c')\<rparr>"
proof -
  let ?in = "if unat (i_size ino) < off + sz then ino\<lparr>i_size := word_of_nat (off + sz)\<rparr> else ino"
  have wf: "wf_inode ino" using wf_inodes [OF assms(1)] f(2) by metis
  have rel: "diosfs_get_relative_block_number_from_file fs ino 0 d = Inr c"
    using relative_block_ok [OF assms(1) wf, of 0] c(1) by (simp add: path_ok_def file_block_def)
  obtain d1 where w1: "diosfs_write_block_by_number fs c buf pos off (if 1024 - off < sz then 1024 - off else sz) d = Inr d1" "ok d1"
    "vw d1 = (vw d)\<lparr>blocks := (blocks (vw d))(c := window buf pos 1024)\<rparr>"
    by (rule write_block_ok [OF assms(1) c(2) w(4)])
  have wi: "wf_inode ?in" "unat (i_inode_number ?in) < s_num_inodes sb" using wf f by (auto simp: wf_inode_def)
  obtain d2 where w2: "diosfs_write_inode fs ?in d1 = Inr d2" "ok d2"
    "vw d2 = (vw d1)\<lparr>inodes := (inodes (vw d1))(unat (i_inode_number ?in) := ?in)\<rparr>"
    by (rule write_inode_ok [OF w1(2) wi])
  have num: "unat (i_inode_number ?in) = n" using f(3) by simp
  have v2: "inodes (vw d2) n = ?in" "inodes (vw d2) dn = p" "blocks (vw d2) b = blocks (vw d) b"
    using w2(3) w1(3) num dn(2) p(2) b(3) by simp_all
  have e: "unat (i_parent_inode_number ?in) = dn" "0 \<in> set (i_name ?in)" using dn(1) f(7) by simp_all
  have i2: "unat (de_inode_number (get_dirent (blocks (vw d2) b) i)) = n"
    "\<forall>k<i. unat (de_inode_number (get_dirent (blocks (vw d2) b) k)) \<noteq> n" using i(2,3) v2(3) by simp_all
  obtain d3 c' where w3: "diosfs_find_directory_entry_and_update fs n dn d2 = Inr (DIOSFS_SUCCESS, d3)" "ok d3"
    "vw d3 = (vw d2)\<lparr>blocks := (blocks (vw d2))(b := c')\<rparr>"
    by (rule find_update_ok [OF w2(2) f(1) v2(1) e p(1) v2(2) p(3,4) b(1,2) i(1) i2])
  have bc: "\<not> unat (i_block_count ino) < 1" using f(6) by (simp add: unat_gt_0)
  have szw: "i_size ino + word_of_nat (off + sz - unat (i_size ino)) = word_of_nat (off + sz)" if "unat (i_size ino) < off + sz"
  proof -
    have "(word_of_nat (unat (i_size ino) + (off + sz - unat (i_size ino))) :: 32 word) = word_of_nat (off + sz)"
      using that by simp
    then show ?thesis by (simp only: of_nat_add word_of_nat_eq_iff) simp
  qed
  show thesis
  proof (rule that)
    have "off < 1024" "sz < 1024" using w(2) by auto
    then show "diosfs_write_bytes_to_inode fs ino buf pos bsz off sz d = Inr (DIOSFS_SUCCESS, ?in, d3)"
      using f w rel w1(1) w2(1) w3(1) num e(1) bc szw dn(1)
      by (auto simp: diosfs_write_bytes_to_inode_def Let_def block_size_eq [OF assms(1)] not_less split: if_splits)
    show "ok d3" by (rule w3(2))
    show "vw d3 = (vw d)\<lparr>inodes := (inodes (vw d))(n := ?in), blocks := (blocks (vw d))(c := window buf pos 1024, b := c')\<rparr>"
      using w3(3) w2(3) w1(3) num by simp
  qed
qed

lemma read_bytes_ok:
  assumes "ok d" and "wf_inode ino" and "i_type ino = VNODE_FILE" and "unat (i_blocks ino ! 0) < s_num_blocks sb"
    and "off \<le> unat (i_size ino)" and "off < 1024" and "sz < 1024" and "1024 \<le> bsz" and "pos + 1024 \<le> length buf"
  shows "diosfs_read_bytes_from_inode fs ino buf pos bsz off sz d =
    Inr (DIOSFS_SUCCESS, overwrite buf pos (blocks (vw d) (unat (i_blocks ino ! 0))))"
proof -
  have "diosfs_get_relative_block_number_from_file fs ino 0 d = Inr (unat (i_blocks ino ! 0))"
    using relative_block_ok [OF assms(1,2), of 0] by (simp add: path_ok_def file_block_def)
  with read_block_ok [OF assms(1,4,9)] assms show ?thesis
    by (simp add: diosfs_read_bytes_from_inode_def Let_def block_size_eq [OF assms(1)] not_less)
qed

end

section \<open>Properties\<close>

lemma dir_list_append:
  assumes wf: "wf_inode p" and s: "unat (i_size p) = s" "s < 70" and b: "unat (i_blocks p ! (s div 7)) = b"
    and dist: "\<forall>k < s div 7. unat (i_blocks p ! k) \<noteq> b" and len: "length (blocks v b) = 1024" and e: "wf_dirent e"
    and v': "blocks v' = (blocks v)(b := put_dirent (blocks v b) (s mod 7) e)"
  shows "dir_list v' (p\<lparr>i_size := i_size p + 1\<rparr>) = dir_list v p @ [e]"
proof (rule nth_equalityI)
  let ?p = "p\<lparr>i_size := i_size p + 1\<rparr>"
  have sz: "unat (i_size ?p) = s + 1" using s unat_inc_32 [of "i_size p"] by simp
  have wf': "wf_inode ?p" using wf by (simp add: wf_inode_def)
  have l: "length (dir_list v' ?p) = s + 1" "length (dir_list v p) = s"
    using length_dir_list [OF wf', of v'] length_dir_list [OF wf, of v] sz s by simp_all
  then show "length (dir_list v' ?p) = length (dir_list v p @ [e])" by simp
  fix k assume "k < length (dir_list v' ?p)"
  then have k: "k < s + 1" using l by simp
  then have n: "dir_list v' ?p ! k = get_dirent (blocks v' (unat (i_blocks p ! (k div 7)))) (k mod 7)"
    using nth_dir_list [OF wf', of k v'] sz s(2) by simp
  have r: "144 * (k mod 7) + 144 \<le> length (blocks v b)" "144 * (s mod 7) + 144 \<le> length (blocks v b)"
    using len mod_less_divisor [of 7 k] mod_less_divisor [of 7 s] by linarith+
  show "dir_list v' ?p ! k = (dir_list v p @ [e]) ! k"
  proof (cases "k = s")
    case True
    then show ?thesis using n b v' e r(2) l by (simp add: get_put_dirent_same nth_append)
  next
    case False
    then have ks: "k < s" using k by simp
    have "dir_list v p ! k = get_dirent (blocks v (unat (i_blocks p ! (k div 7)))) (k mod 7)"
      using nth_dir_list [OF wf, of k v] s ks by simp
    moreover have "k div 7 < s div 7 \<or> k div 7 = s div 7 \<and> k mod 7 \<noteq> s mod 7"
    proof -
      have "k div 7 \<le> s div 7" using ks by (simp add: div_le_mono)
      moreover have "k \<noteq> s" using ks by simp
      ultimately show ?thesis by (metis div_mult_mod_eq le_neq_implies_less)
    qed
    ultimately show ?thesis using n b v' dist r e l ks by (auto simp: nth_append get_put_dirent_other)
  qed
qed

text \<open>A volume built from the empty demonstration volume: two inodes and the data block 3.\<close>

lemma demo_reach:
  assumes "wf_inode i1" "wf_inode i2" "unat (i_inode_number i1) < 16" "unat (i_inode_number i2) < 16" "length c = 1024"
  shows "\<exists>rds. dios_ok demo_fs demo_device 32 rds \<and>
    dios_view demo_fs demo_device rds = (dios_view demo_fs demo_device [demo_disk 8])\<lparr>
      inodes := (inodes (dios_view demo_fs demo_device [demo_disk 8]))(unat (i_inode_number i1) := i1, unat (i_inode_number i2) := i2),
      blocks := (blocks (dios_view demo_fs demo_device [demo_disk 8]))(3 := c)\<rparr>"
proof -
  let ?V = "\<lambda>d. view (fs_superblock demo_fs) (rd_blk demo_device 1024 d)"
  have n: "unat (i_inode_number i1) < s_num_inodes (fs_superblock demo_fs)" "unat (i_inode_number i2) < s_num_inodes (fs_superblock demo_fs)"
    using assms by (simp_all add: demo_sizes)
  obtain d1 where d1: "diosfs_write_inode demo_fs i1 [demo_disk 8] = Inr d1" "dios_ok demo_fs demo_device 32 d1"
    "?V d1 = (?V [demo_disk 8])\<lparr>inodes := (inodes (?V [demo_disk 8]))(unat (i_inode_number i1) := i1)\<rparr>"
    by (rule dios.write_inode_ok [OF demo_fs_ok assms(1) n(1)])
  obtain d2 where d2: "diosfs_write_inode demo_fs i2 d1 = Inr d2" "dios_ok demo_fs demo_device 32 d2"
    "?V d2 = (?V d1)\<lparr>inodes := (inodes (?V d1))(unat (i_inode_number i2) := i2)\<rparr>"
    by (rule dios.write_inode_ok [OF d1(2) assms(2) n(2)])
  have c: "3 < s_num_blocks (fs_superblock demo_fs)" "0 + 1024 \<le> length c" using assms(5) by (simp_all add: demo_sizes)
  obtain d3 where d3: "diosfs_write_block_by_number demo_fs 3 c 0 0 1024 d2 = Inr d3" "dios_ok demo_fs demo_device 32 d3"
    "?V d3 = (?V d2)\<lparr>blocks := (blocks (?V d2))(3 := window c 0 1024)\<rparr>"
    by (rule dios.write_block_ok [OF d2(2) c])
  show ?thesis using d1 d2 d3 assms(5) by (intro exI [of _ d3]) (simp add: dios_view_def window_all)
qed

definition demo_dirent :: "32 word \<Rightarrow> 16 word \<Rightarrow> diosfs_directory_entry" where
  "demo_dirent n t = \<lparr>de_name = replicate 128 0, de_inode_number = n, de_parent_inode_number = 2, de_type = t,
     de_device_number = 0, de_size = 0\<rparr>"

definition demo_dir :: "32 word \<Rightarrow> diosfs_inode" where
  "demo_dir n = zero_inode\<lparr>i_inode_number := 2, i_size := n, i_block_count := 1, i_blocks := 3 # replicate 9 0\<rparr>"

definition demo_dir_block :: "byte list" where
  "demo_dir_block = put_dirent (put_dirent (replicate 1024 0) 0 (demo_dirent 5 3)) 1 (demo_dirent 6 1)"

lemma wf_demo_dirent [simp]: "wf_dirent (demo_dirent n t)"
  by (simp add: demo_dirent_def wf_dirent_def)

lemma demo_dir_simps:
  "wf_inode (demo_dir n)" "unat (i_inode_number (demo_dir n)) = 2" "i_type (demo_dir n) = VNODE_DIRECTORY"
  "i_size (demo_dir n) = n" "i_block_count (demo_dir n) = 1" "i_blocks (demo_dir n) = 3 # replicate 9 0"
  "i_parent_inode_number (demo_dir n) = 0"
  by (simp_all add: demo_dir_def zero_inode_def wf_inode_def VNODE_DIRECTORY_def)

lemma length_demo_dir_block [simp]: "length demo_dir_block = 1024"
  by (simp add: demo_dir_block_def)

lemma demo_dir_entries:
  "get_dirent demo_dir_block 0 = demo_dirent 5 3" "get_dirent demo_dir_block 1 = demo_dirent 6 1"
  by (simp_all add: demo_dir_block_def get_put_dirent_same get_put_dirent_other)

lemma demo_dir_list:
  assumes "blocks v 3 = demo_dir_block"
  shows "dir_list v (demo_dir 2) = [demo_dirent 5 3, demo_dirent 6 1]"
proof (rule nth_equalityI)
  show "length (dir_list v (demo_dir 2)) = length [demo_dirent 5 3, demo_dirent 6 1]"
    using length_dir_list [of "demo_dir 2" v] by (simp add: demo_dir_simps)
  fix k assume "k < length (dir_list v (demo_dir 2))"
  then have k: "k < 2" using length_dir_list [of "demo_dir 2" v] by (simp add: demo_dir_simps)
  then have "dir_list v (demo_dir 2) ! k = get_dirent demo_dir_block k"
    using nth_dir_list [of "demo_dir 2" k v] assms by (simp add: demo_dir_simps)
  moreover from k have "k = 0 \<or> k = 1" by auto
  ultimately show "dir_list v (demo_dir 2) ! k = [demo_dirent 5 3, demo_dirent 6 1] ! k"
    using demo_dir_entries by auto
qed

text \<open>Appending an entry to a directory whose last block has room stores it behind the entries present: reading
  the directory afterwards returns the old entries in order and then the new one.\<close>

theorem write_dirent_appends:
  assumes ok: "dios_ok fs device nblk rds" and p: "inodes (dios_view fs device rds) n = p" "n < s_num_inodes (fs_superblock fs)"
      "unat (i_inode_number p) = n" "i_type p = VNODE_DIRECTORY"
    and s: "unat (i_size p) = s" "s < 69" "s mod 7 \<noteq> 0" and bc: "i_block_count p \<noteq> 0"
    and b: "dir_blocks_ok (s_num_blocks (fs_superblock fs)) (p\<lparr>i_size := i_size p + 1\<rparr>)"
      "\<forall>k < s div 7. unat (i_blocks p ! k) \<noteq> unat (i_blocks p ! (s div 7))"
    and cs: "unat (i_block_count p) * 1024 \<le> cs" "144 * (s + 1) \<le> cs" and e: "wf_dirent entry"
  shows "\<exists>p' rds'. diosfs_write_dirent fs p entry rds = Inr (DIOSFS_SUCCESS, p', rds') \<and> dios_ok fs device nblk rds' \<and>
    diosfs_get_directory_entries fs n cs rds' = Inr (DIOSFS_SUCCESS, dir_list (dios_view fs device rds) p @ [entry])"
proof -
  let ?V = "\<lambda>d. view (fs_superblock fs) (rd_blk device 1024 d)" and ?b = "unat (i_blocks p ! (s div 7))"
  let ?p = "p\<lparr>i_size := i_size p + 1\<rparr>"
  have pv: "inodes (?V rds) n = p" using p(1) by (simp add: dios_view_def)
  have wf: "wf_inode p" using dios.wf_inodes [OF ok, of n] pv by simp
  have sz: "unat (i_size ?p) = s + 1" using s unat_inc_32 [of "i_size p"] by simp
  have lt: "?b < s_num_blocks (fs_superblock fs)" using b(1) sz by (simp add: dir_blocks_ok_def div_le_mono)
  have c1: "unat (i_inode_number (inodes (?V rds) n)) = n" "unat (i_size p) \<noteq> 71" "unat (i_size (inodes (?V rds) n)) = s" "s < 70"
    "i_block_count (inodes (?V rds) n) \<noteq> 0" "s mod 7 \<noteq> 0 \<or> s div 7 \<le> unat (i_block_count (inodes (?V rds) n))"
    "unat (i_blocks (inodes (?V rds) n) ! (s div 7)) = ?b"
    using pv p s bc by simp_all
  obtain rds' where w: "diosfs_write_dirent fs p entry rds =
      Inr (DIOSFS_SUCCESS, (inodes (?V rds) n)\<lparr>i_size := i_size (inodes (?V rds) n) + 1\<rparr>, rds')" "dios_ok fs device nblk rds'"
    "?V rds' = (?V rds)\<lparr>blocks := (blocks (?V rds))(?b := put_dirent (blocks (?V rds) ?b) (s mod 7) entry),
      inodes := (inodes (?V rds))(n := (inodes (?V rds) n)\<lparr>i_size := i_size (inodes (?V rds) n) + 1\<rparr>)\<rparr>"
    by (rule dios.write_dirent_ok [OF ok p(3,2) c1 lt e])
  have "dir_list (?V rds') ?p = dir_list (?V rds) p @ [entry]"
    using w(3) s b(2) e dios.length_block [OF ok lt] by (intro dir_list_append [OF wf s(1)]) simp_all
  moreover have "inodes (?V rds') n = ?p" using w(3) pv by simp
  moreover have "diosfs_get_directory_entries fs n cs rds' = Inr (DIOSFS_SUCCESS, dir_list (?V rds') (inodes (?V rds') n))"
    using calculation(2) p b(1) cs sz by (intro dios.get_directory_entries_ok [OF w(2) p(2)]) simp_all
  ultimately show ?thesis using w(1,2) by (simp add: dios_view_def)
qed

theorem write_dirent_appends_witness:
  "\<exists>rds p' rds'. diosfs_write_dirent demo_fs (demo_dir 2) (demo_dirent 7 1) rds = Inr (DIOSFS_SUCCESS, p', rds') \<and>
    diosfs_get_directory_entries demo_fs 2 10240 rds' =
      Inr (DIOSFS_SUCCESS, [demo_dirent 5 3, demo_dirent 6 1, demo_dirent 7 1])"
proof -
  obtain rds where r: "dios_ok demo_fs demo_device 32 rds" "inodes (dios_view demo_fs demo_device rds) 2 = demo_dir 2"
    "blocks (dios_view demo_fs demo_device rds) 3 = demo_dir_block"
    using demo_reach [of "demo_dir 2" "demo_dir 2" demo_dir_block] by (auto simp: demo_dir_simps)
  have "dir_list (dios_view demo_fs demo_device rds) (demo_dir 2) = [demo_dirent 5 3, demo_dirent 6 1]"
    by (rule demo_dir_list [OF r(3)])
  moreover have "dir_blocks_ok 22 (demo_dir 2\<lparr>i_size := 3\<rparr>)" by (simp add: dir_blocks_ok_def demo_dir_simps)
  ultimately show ?thesis
    using write_dirent_appends [OF r(1,2), of 2 10240 "demo_dirent 7 1"] by (auto simp: demo_sizes demo_dir_simps)
qed

text \<open>The eighth entry of a directory with one block gets no block of its own: it is written to whatever block
  the unused second pointer names (data block 0, when the inode was fresh), which is not marked as used.\<close>

theorem eighth_dirent_unallocated:
  assumes ok: "dios_ok fs device nblk rds" and p: "inodes (dios_view fs device rds) n = p" "n < s_num_inodes (fs_superblock fs)"
      "unat (i_inode_number p) = n" and s: "i_size p = 7" "i_block_count p = 1" "i_blocks p ! 1 = 0"
    and b: "0 < s_num_blocks (fs_superblock fs)" and e: "wf_dirent entry"
  shows "\<exists>rds'. diosfs_write_dirent fs p entry rds = Inr (DIOSFS_SUCCESS, p\<lparr>i_size := 8\<rparr>, rds') \<and>
    blocks (dios_view fs device rds') 0 = put_dirent (blocks (dios_view fs device rds) 0) 0 entry \<and>
    block_bits (dios_view fs device rds') = block_bits (dios_view fs device rds)"
proof -
  let ?V = "\<lambda>d. view (fs_superblock fs) (rd_blk device 1024 d)"
  have pv: "inodes (?V rds) n = p" using p(1) by (simp add: dios_view_def)
  have c1: "unat (i_inode_number (inodes (?V rds) n)) = n" "unat (i_size p) \<noteq> 71" "unat (i_size (inodes (?V rds) n)) = 7" "(7 :: nat) < 70"
    "i_block_count (inodes (?V rds) n) \<noteq> 0" "7 mod 7 \<noteq> (0 :: nat) \<or> 7 div 7 \<le> unat (i_block_count (inodes (?V rds) n))"
    "unat (i_blocks (inodes (?V rds) n) ! (7 div 7)) = 0"
    using pv p s by simp_all
  obtain rds' where w: "diosfs_write_dirent fs p entry rds =
      Inr (DIOSFS_SUCCESS, (inodes (?V rds) n)\<lparr>i_size := i_size (inodes (?V rds) n) + 1\<rparr>, rds')" "dios_ok fs device nblk rds'"
    "?V rds' = (?V rds)\<lparr>blocks := (blocks (?V rds))(0 := put_dirent (blocks (?V rds) 0) (7 mod 7) entry),
      inodes := (inodes (?V rds))(n := (inodes (?V rds) n)\<lparr>i_size := i_size (inodes (?V rds) n) + 1\<rparr>)\<rparr>"
    by (rule dios.write_dirent_ok [OF ok p(3,2) c1 b e])
  then show ?thesis using pv s by (simp add: dios_view_def)
qed

theorem eighth_dirent_unallocated_witness:
  "\<exists>rds rds'. diosfs_write_dirent demo_fs (demo_dir 7) (demo_dirent 7 1) rds = Inr (DIOSFS_SUCCESS, demo_dir 7\<lparr>i_size := 8\<rparr>, rds') \<and>
    \<not> block_bits (dios_view demo_fs demo_device rds') 0"
proof -
  obtain rds where r: "dios_ok demo_fs demo_device 32 rds" "inodes (dios_view demo_fs demo_device rds) 2 = demo_dir 7"
    "block_bits (dios_view demo_fs demo_device rds) = block_bits (dios_view demo_fs demo_device [demo_disk 8])"
    using demo_reach [of "demo_dir 7" "demo_dir 7" demo_dir_block] by (auto simp: demo_dir_simps)
  then obtain rds' where "diosfs_write_dirent demo_fs (demo_dir 7) (demo_dirent 7 1) rds = Inr (DIOSFS_SUCCESS, demo_dir 7\<lparr>i_size := 8\<rparr>, rds')"
    "block_bits (dios_view demo_fs demo_device rds') = block_bits (dios_view demo_fs demo_device rds)"
    using eighth_dirent_unallocated [OF r(1,2), of "demo_dirent 7 1"] by (auto simp: demo_sizes demo_dir_simps)
  moreover from this(2) have "\<not> block_bits (dios_view demo_fs demo_device rds') 0" using r(3) demo_bits(1) [of 0] by simp
  ultimately show ?thesis by blast
qed

text \<open>Removing an entry (of a device or a link) from a directory of two to six entries does not move the last
  entry to its place: the slot behind the last entry is copied there, and the last entry is cut off.\<close>

theorem entry_removal_loses_last:
  assumes ok: "dios_ok fs device nblk rds" and p: "inodes (dios_view fs device rds) pn = p" "pn < s_num_inodes (fs_superblock fs)"
      "unat (i_inode_number p) = pn"
    and sz: "unat (i_size p) = sz" "1 < sz" "sz < 7" and i: "i < sz"
    and b: "unat (i_blocks p ! 0) = b" "b < s_num_blocks (fs_superblock fs)"
    and t: "de_type (get_dirent (blocks (dios_view fs device rds) b) i) \<notin> {VNODE_DIRECTORY, VNODE_FILE}"
    and x: "unat (i_parent_inode_number inode) = pn" "unat (i_inode_number inode) = x"
    and f: "unat (de_inode_number (get_dirent (blocks (dios_view fs device rds) b) i)) = x"
      "\<forall>k<i. unat (de_inode_number (get_dirent (blocks (dios_view fs device rds) b) k)) \<noteq> x"
  shows "\<exists>rds'. diosfs_directory_entry_free depth fs None inode rds = Inr (DIOSFS_SUCCESS, rds') \<and>
    dir_list (dios_view fs device rds') (inodes (dios_view fs device rds') pn) =
      take (sz - 1) ((dir_list (dios_view fs device rds) p)[i := get_dirent (blocks (dios_view fs device rds) b) sz])"
proof -
  let ?V = "\<lambda>d. view (fs_superblock fs) (rd_blk device 1024 d)" and ?p = "p\<lparr>i_size := i_size p - 1\<rparr>"
  have pv: "inodes (?V rds) pn = p" using p(1) by (simp add: dios_view_def)
  have wf: "wf_inode p" using dios.wf_inodes [OF ok, of pn] pv by simp
  have t2: "de_type (get_dirent (blocks (?V rds) b) i) \<noteq> VNODE_DIRECTORY" "de_type (get_dirent (blocks (?V rds) b) i) \<noteq> VNODE_FILE"
    using t by (simp_all add: dios_view_def)
  obtain rds' where w: "diosfs_directory_entry_free depth fs None inode rds = Inr (DIOSFS_SUCCESS, rds')" "dios_ok fs device nblk rds'"
    "?V rds' = (?V rds)\<lparr>blocks := (blocks (?V rds))(b := overwrite (blocks (?V rds) b) (144 * i) (window (blocks (?V rds) b) (144 * sz) 144)),
      inodes := (inodes (?V rds))(pn := ?p)\<rparr>"
    by (rule dios.directory_entry_free_ok [OF ok pv p(2,3) sz i b t2 x f [unfolded dios_view_def]])
  have lc: "length (blocks (?V rds) b) = 1024" by (rule dios.length_block [OF ok b(2)])
  have nz: "i_size p \<noteq> 0" using sz by auto
  have s1: "unat (i_size ?p) = sz - 1" using unat_minus_one [OF nz] sz(1) by simp
  have wf': "wf_inode ?p" using wf by (simp add: wf_inode_def)
  have lw: "length (window (blocks (?V rds) b) (144 * sz) 144) = 144" using lc sz by simp
  have "dir_list (?V rds') ?p = take (sz - 1) ((dir_list (?V rds) p)[i := get_dirent (blocks (?V rds) b) sz])"
  proof (rule nth_equalityI)
    show l: "length (dir_list (?V rds') ?p) = length (take (sz - 1) ((dir_list (?V rds) p)[i := get_dirent (blocks (?V rds) b) sz]))"
      using length_dir_list [OF wf'] length_dir_list [OF wf] s1 sz by simp
    fix k assume "k < length (dir_list (?V rds') ?p)"
    then have k: "k < sz - 1" using length_dir_list [OF wf'] s1 sz by simp
    then have k7: "k < 7" "k div 7 = 0" "k mod 7 = k" using sz by simp_all
    have "dir_list (?V rds') ?p ! k = get_dirent (blocks (?V rds') b) k"
      using nth_dir_list [OF wf', of k "?V rds'"] s1 sz k k7 b(1) by simp
    also have "\<dots> = (if k = i then get_dirent (blocks (?V rds) b) sz else get_dirent (blocks (?V rds) b) k)"
    proof -
      have "window (overwrite (blocks (?V rds) b) (144 * i) (window (blocks (?V rds) b) (144 * sz) 144)) (144 * k) 144 =
          (if k = i then window (blocks (?V rds) b) (144 * sz) 144 else window (blocks (?V rds) b) (144 * k) 144)"
      proof (cases "k = i")
        case False
        then have "144 * k + 144 \<le> 144 * i \<or> 144 * i + 144 \<le> 144 * k" by linarith
        with False lw lc i sz k show ?thesis by (simp add: window_overwrite_other)
      qed (use lw lc i sz in \<open>simp add: window_overwrite_same\<close>)
      then show ?thesis using w(3) by (simp add: get_dirent_def)
    qed
    also have "\<dots> = take (sz - 1) ((dir_list (?V rds) p)[i := get_dirent (blocks (?V rds) b) sz]) ! k"
      using nth_dir_list [OF wf, of k "?V rds"] length_dir_list [OF wf, of "?V rds"] sz k k7 b(1) by (auto simp: nth_list_update)
    finally show "dir_list (?V rds') ?p ! k = take (sz - 1) ((dir_list (?V rds) p)[i := get_dirent (blocks (?V rds) b) sz]) ! k" .
  qed
  with w show ?thesis by (simp add: dios_view_def)
qed

theorem entry_removal_loses_last_witness:
  "\<exists>rds rds'. dir_list (dios_view demo_fs demo_device rds) (demo_dir 2) = [demo_dirent 5 3, demo_dirent 6 1] \<and>
    diosfs_directory_entry_free 1 demo_fs None (demo_inode\<lparr>i_parent_inode_number := 2\<rparr>) rds = Inr (DIOSFS_SUCCESS, rds') \<and>
    demo_dirent 6 1 \<notin> set (dir_list (dios_view demo_fs demo_device rds') (inodes (dios_view demo_fs demo_device rds') 2))"
proof -
  obtain rds where r: "dios_ok demo_fs demo_device 32 rds" "inodes (dios_view demo_fs demo_device rds) 2 = demo_dir 2"
    "blocks (dios_view demo_fs demo_device rds) 3 = demo_dir_block"
    using demo_reach [of "demo_dir 2" "demo_dir 2" demo_dir_block] by (auto simp: demo_dir_simps)
  have dl: "dir_list (dios_view demo_fs demo_device rds) (demo_dir 2) = [demo_dirent 5 3, demo_dirent 6 1]"
    by (rule demo_dir_list [OF r(3)])
  have "get_dirent demo_dir_block 2 = get_dirent (replicate 1024 0) 2"
    by (simp add: demo_dir_block_def get_put_dirent_other)
  moreover have "de_type (get_dirent (replicate 1024 0) 2) = 0"
    by (simp add: get_dirent_def bytes_dirent_def window_def bytes_word_def numeral_eq_Suc)
  ultimately have z: "get_dirent demo_dir_block 2 \<noteq> demo_dirent 6 1" by (auto simp: demo_dirent_def)
  have e0: "de_type (demo_dirent 5 3) = 3" "de_inode_number (demo_dirent 5 3) = 5" by (simp_all add: demo_dirent_def)
  have "unat (i_parent_inode_number (demo_inode\<lparr>i_parent_inode_number := 2\<rparr>)) = 2"
    "unat (i_inode_number (demo_inode\<lparr>i_parent_inode_number := 2\<rparr>)) = 5" by (simp_all add: demo_inode_def)
  with entry_removal_loses_last [OF r(1,2), of 2 0 3 "demo_inode\<lparr>i_parent_inode_number := 2\<rparr>" 5 1] r(3) dl z e0
  show ?thesis by (auto simp: demo_sizes demo_dir_simps demo_dir_entries VNODE_DIRECTORY_def VNODE_FILE_def)
qed

text \<open>
  A file of the volume, and its entry among the first seven of its directory, stored in a block other
  than the file's first.
\<close>

definition linked_file :: "diosfs_superblock \<Rightarrow> volume \<Rightarrow> nat \<Rightarrow> diosfs_inode \<Rightarrow> bool" where
  "linked_file sb v n f \<longleftrightarrow>
     (let dn = unat (i_parent_inode_number f); p = inodes v dn; b = unat (i_blocks p ! 0) in
      n < s_num_inodes sb \<and> inodes v n = f \<and> unat (i_inode_number f) = n \<and> i_type f = VNODE_FILE \<and>
      i_size f \<noteq> 0 \<and> i_block_count f \<noteq> 0 \<and> 0 \<in> set (i_name f) \<and> unat (i_blocks f ! 0) < s_num_blocks sb \<and>
      dn \<noteq> n \<and> dn < s_num_inodes sb \<and> i_type p = VNODE_DIRECTORY \<and> i_size p \<noteq> 0 \<and>
      b < s_num_blocks sb \<and> b \<noteq> unat (i_blocks f ! 0) \<and>
      (\<exists>i<7. unat (de_inode_number (get_dirent (blocks v b) i)) = n \<and>
        (\<forall>k<i. unat (de_inode_number (get_dirent (blocks v b) k)) \<noteq> n)))"

lemma write_linked_file:
  assumes ok: "dios_ok fs device nblk rds" and f: "linked_file (fs_superblock fs) (dios_view fs device rds) n f"
    and w: "off \<le> unat (i_size f)" "off + sz < 1024" "sz \<le> bsz" "pos + 1024 \<le> length buf"
  shows "\<exists>f' rds'. diosfs_write_bytes_to_inode fs f buf pos bsz off sz rds = Inr (DIOSFS_SUCCESS, f', rds') \<and>
    dios_ok fs device nblk rds' \<and> f' = f\<lparr>i_size := i_size f'\<rparr> \<and> unat (i_size f') = max (unat (i_size f)) (off + sz) \<and>
    inodes (dios_view fs device rds') n = f' \<and> blocks (dios_view fs device rds') (unat (i_blocks f ! 0)) = window buf pos 1024"
proof -
  let ?V = "\<lambda>d. view (fs_superblock fs) (rd_blk device 1024 d)"
  define dn p b c where "dn = unat (i_parent_inode_number f)" and "p = inodes (?V rds) dn" and "b = unat (i_blocks p ! 0)"
    and "c = unat (i_blocks f ! 0)"
  note l = f [unfolded linked_file_def Let_def dios_view_def, folded dn_def, folded p_def, folded b_def c_def]
  obtain i where i: "i < 7" "unat (de_inode_number (get_dirent (blocks (?V rds) b) i)) = n"
    "\<forall>k<i. unat (de_inode_number (get_dirent (blocks (?V rds) b) k)) \<noteq> n" using l by blast
  let ?f = "if unat (i_size f) < off + sz then f\<lparr>i_size := word_of_nat (off + sz)\<rparr> else f"
  obtain rds' c' where r: "diosfs_write_bytes_to_inode fs f buf pos bsz off sz rds = Inr (DIOSFS_SUCCESS, ?f, rds')"
    "dios_ok fs device nblk rds'"
    "?V rds' = (?V rds)\<lparr>inodes := (inodes (?V rds))(n := ?f), blocks := (blocks (?V rds))(c := window buf pos 1024, b := c')\<rparr>"
  proof (rule dios.write_bytes_ok [OF ok _ _ _ _ _ _ _ w, where n = n and c = c and dn = dn and p = p and b = b and i = i])
    show "unat (i_blocks f ! 0) = c" "unat (i_parent_inode_number f) = dn" "unat (i_blocks p ! 0) = b" "inodes (?V rds) dn = p"
      by (simp_all add: c_def dn_def b_def p_def)
  qed (use l i in auto)
  have "unat (word_of_nat m :: 32 word) = m" if "m < 1024" for m using that by (simp add: unat_of_nat)
  from this [OF w(2)] have "unat (word_of_nat (off + sz) :: 32 word) = off + sz" .
  moreover have "c \<noteq> b" using l by auto
  ultimately show ?thesis using r by (intro exI [of _ ?f] exI [of _ rds']) (auto simp: dios_view_def c_def)
qed

text \<open>Writing up to 1023 bytes at the start of a file that has a block, and reading them back, yields the bytes
  written, and the inode's size grows to cover them.\<close>

theorem file_write_read_back:
  assumes "dios_ok fs device nblk rds" and "linked_file (fs_superblock fs) (dios_view fs device rds) n f"
    and "sz < 1024" "sz \<le> bsz" "pos + 1024 \<le> length buf" and "1024 \<le> bsz'" "pos' + 1024 \<le> length buf'"
  shows "\<exists>f' rds' out. diosfs_write_bytes_to_inode fs f buf pos bsz 0 sz rds = Inr (DIOSFS_SUCCESS, f', rds') \<and>
    unat (i_size f') = max (unat (i_size f)) sz \<and> diosfs_read_inode fs n rds' = Inr f' \<and>
    diosfs_read_bytes_from_inode fs f' buf' pos' bsz' 0 sz rds' = Inr (DIOSFS_SUCCESS, out) \<and>
    window out pos' sz = window buf pos sz"
proof -
  obtain f' rds' where w: "diosfs_write_bytes_to_inode fs f buf pos bsz 0 sz rds = Inr (DIOSFS_SUCCESS, f', rds')"
    "dios_ok fs device nblk rds'" "f' = f\<lparr>i_size := i_size f'\<rparr>" "unat (i_size f') = max (unat (i_size f)) sz"
    "inodes (dios_view fs device rds') n = f'" "blocks (dios_view fs device rds') (unat (i_blocks f ! 0)) = window buf pos 1024"
    using write_linked_file [OF assms(1,2), of 0 sz bsz pos buf] assms(3-5) by auto
  have l: "n < s_num_inodes (fs_superblock fs)" "i_type f = VNODE_FILE" "unat (i_blocks f ! 0) < s_num_blocks (fs_superblock fs)"
    using assms(2) by (auto simp: linked_file_def Let_def)
  have f': "i_type f' = VNODE_FILE" "i_blocks f' = i_blocks f"
    using arg_cong [OF w(3), of i_type] arg_cong [OF w(3), of i_blocks] l(2) by simp_all
  have wf: "wf_inode f'" using dios.wf_inodes [OF w(2), of n] w(5) by (simp add: dios_view_def)
  have "diosfs_read_bytes_from_inode fs f' buf' pos' bsz' 0 sz rds' =
      Inr (DIOSFS_SUCCESS, overwrite buf' pos' (window buf pos 1024))"
    using dios.read_bytes_ok [OF w(2) wf f'(1), of 0 sz bsz' pos' buf'] assms l f'(2) w(6) by (simp add: dios_view_def)
  moreover have "window (overwrite buf' pos' (window buf pos 1024)) pos' sz = window buf pos sz"
    using assms by (intro nth_equalityI) (auto simp: nth_window nth_overwrite)
  moreover have "diosfs_read_inode fs n rds' = Inr f'" using dios.read_inode_ok [OF w(2) l(1)] w(5) by (simp add: dios_view_def)
  ultimately show ?thesis using w by blast
qed

definition demo_file :: diosfs_inode where
  "demo_file = zero_inode\<lparr>i_inode_number := 5, i_parent_inode_number := 2, i_type := VNODE_FILE, i_size := 100,
     i_block_count := 1, i_blocks := 4 # replicate 9 0\<rparr>"

lemma demo_file_simps:
  "wf_inode demo_file" "unat (i_inode_number demo_file) = 5" "i_parent_inode_number demo_file = 2" "i_size demo_file = 100"
  "i_blocks demo_file = 4 # replicate 9 0"
  by (simp_all add: demo_file_def zero_inode_def wf_inode_def)

lemma demo_linked_file:
  "\<exists>rds. dios_ok demo_fs demo_device 32 rds \<and> linked_file (fs_superblock demo_fs) (dios_view demo_fs demo_device rds) 5 demo_file"
proof -
  obtain rds where r: "dios_ok demo_fs demo_device 32 rds" "inodes (dios_view demo_fs demo_device rds) 2 = demo_dir 2"
    "inodes (dios_view demo_fs demo_device rds) 5 = demo_file" "blocks (dios_view demo_fs demo_device rds) 3 = demo_dir_block"
    using demo_reach [of "demo_dir 2" demo_file demo_dir_block] by (auto simp: demo_dir_simps demo_file_simps)
  have "i_type demo_file = VNODE_FILE" "i_block_count demo_file = 1" "0 \<in> set (i_name demo_file)"
    by (simp_all add: demo_file_def zero_inode_def)
  moreover have "\<exists>i<7. unat (de_inode_number (get_dirent demo_dir_block i)) = 5 \<and>
      (\<forall>k<i. unat (de_inode_number (get_dirent demo_dir_block k)) \<noteq> 5)"
    by (rule exI [of _ 0]) (simp add: demo_dir_entries demo_dirent_def)
  ultimately show ?thesis using r
    by (intro exI [of _ rds]) (simp add: linked_file_def Let_def demo_sizes demo_dir_simps demo_file_simps)
qed

theorem file_write_read_back_witness:
  "\<exists>rds f' rds' out. diosfs_write_bytes_to_inode demo_fs demo_file (replicate 1024 7) 0 200 0 200 rds = Inr (DIOSFS_SUCCESS, f', rds') \<and>
    diosfs_read_bytes_from_inode demo_fs f' (replicate 4096 0) 0 4096 0 200 rds' = Inr (DIOSFS_SUCCESS, out) \<and>
    window out 0 200 = replicate 200 7"
proof -
  obtain rds where r: "dios_ok demo_fs demo_device 32 rds"
    "linked_file (fs_superblock demo_fs) (dios_view demo_fs demo_device rds) 5 demo_file" using demo_linked_file by blast
  have "window (replicate 1024 7 :: byte list) 0 200 = replicate 200 7" by (simp add: window_def)
  with file_write_read_back [OF r, of 200 200 0 "replicate 1024 7" 4096 0 "replicate 4096 0"] show ?thesis by auto
qed

text \<open>A write at a position inside the first block of a file ignores the position: the block is replaced by 1024
  bytes of the caller's buffer, the data to be written at its start, and the old bytes in front of the
  position are lost.\<close>

theorem file_write_ignores_position:
  assumes "dios_ok fs device nblk rds" and "linked_file (fs_superblock fs) (dios_view fs device rds) n f"
    and "off \<le> unat (i_size f)" and "off + sz < 1024" and "sz \<le> bsz" and "pos + 1024 \<le> length buf"
  shows "\<exists>f' rds'. diosfs_write_bytes_to_inode fs f buf pos bsz off sz rds = Inr (DIOSFS_SUCCESS, f', rds') \<and>
    blocks (dios_view fs device rds') (unat (i_blocks f ! 0)) = window buf pos 1024"
  using write_linked_file [OF assms] by blast

theorem file_write_ignores_position_witness:
  "\<exists>rds f' rds'. diosfs_write_bytes_to_inode demo_fs demo_file (replicate 1024 7) 0 10 50 10 rds = Inr (DIOSFS_SUCCESS, f', rds') \<and>
    take 50 (blocks (dios_view demo_fs demo_device rds') 4) = replicate 50 7"
proof -
  obtain rds where r: "dios_ok demo_fs demo_device 32 rds"
    "linked_file (fs_superblock demo_fs) (dios_view demo_fs demo_device rds) 5 demo_file" using demo_linked_file by blast
  have "take 50 (window (replicate 1024 7 :: byte list) 0 1024) = replicate 50 7" by (simp add: window_def)
  moreover obtain f' rds' where
    "diosfs_write_bytes_to_inode demo_fs demo_file (replicate 1024 7) 0 10 50 10 rds = Inr (DIOSFS_SUCCESS, f', rds')"
    "blocks (dios_view demo_fs demo_device rds') 4 = window (replicate 1024 7) 0 1024"
    using file_write_ignores_position [OF r, of 50 10 10 0 "replicate 1024 7"] by (auto simp: demo_file_simps)
  ultimately show ?thesis by metis
qed

end
