(* ===== verification/Page_Ranges.thy ===== *)
theory Page_Ranges
  imports Prelude "HOL-Library.Multiset"
begin

text \<open>
  The computations of \<^verbatim>\<open>memory/pmm.c\<close> that do not touch the buddy blocks: rounding a request up to a
  power of two, and the first part of \<^verbatim>\<open>phys_init\<close>, which collects the usable ranges of the boot
  loader's memory map and sorts them by size.
\<close>

section \<open>Powers of two\<close>

definition is_power_of_two :: "64 word \<Rightarrow> bool" where
  "is_power_of_two x \<longleftrightarrow> x \<noteq> 0 \<and> x AND (x - 1) = 0"

definition smear :: "nat \<Rightarrow> 64 word \<Rightarrow> 64 word" where
  "smear n x = x OR drop_bit n x"

definition next_power_of_two :: "64 word \<Rightarrow> 64 word" where
  "next_power_of_two x =
     (if x = 0 then 1
      else let x = x - 1; x = smear 1 x; x = smear 2 x; x = smear 4 x;
               x = smear 8 x; x = smear 16 x; x = smear 32 x
           in x + 1)"

text \<open>The number of pages \<^verbatim>\<open>buddy_alloc\<close> looks for.\<close>

definition round_pages :: "64 word \<Rightarrow> 64 word" where
  "round_pages pages = (if \<not> is_power_of_two pages then next_power_of_two pages else pages)"

section \<open>Page ranges\<close>

record memmap_entry =
  mbase :: "64 word"
  mlength :: "64 word"
  mtype :: "64 word"

record page_range =
  range_start :: "64 word"
  range_end :: "64 word"
  range_pages :: "64 word"

record memmap_scan =
  contiguous_pages :: "page_range list"
  usable_pages :: "64 word"
  reserved_pages :: "64 word"
  highest_address :: "64 word"

abbreviation (input) PAGE_SIZE :: "64 word" where "PAGE_SIZE \<equiv> 4096"
abbreviation (input) PAGE_RANGE_SIZE :: nat where "PAGE_RANGE_SIZE \<equiv> 20"
abbreviation (input) LIMINE_MEMMAP_USABLE :: "64 word" where "LIMINE_MEMMAP_USABLE \<equiv> 0"
abbreviation (input) LIMINE_MEMMAP_KERNEL_AND_MODULES :: "64 word" where "LIMINE_MEMMAP_KERNEL_AND_MODULES \<equiv> 6"

text \<open>
  The used part of the array \<^verbatim>\<open>contiguous_pages\<close> is a list; its length is \<^verbatim>\<open>page_range_index\<close>, and an entry
  past the array's twenty is out of bounds.
\<close>

definition scan_entry :: "memmap_scan \<Rightarrow> memmap_entry \<Rightarrow> memmap_scan res" where
  "scan_entry st e =
     (if mtype e = LIMINE_MEMMAP_USABLE then
        (if length (contiguous_pages st) < PAGE_RANGE_SIZE then
           Inr (st\<lparr>contiguous_pages := contiguous_pages st @
                    [\<lparr>range_start = mbase e, range_end = mbase e + mlength e, range_pages = mlength e div PAGE_SIZE\<rparr>],
                  usable_pages := usable_pages st + (mlength e + (PAGE_SIZE - 1)) div PAGE_SIZE,
                  highest_address := (if highest_address st > mbase e + mlength e then highest_address st
                                      else mbase e + mlength e)\<rparr>)
         else Inl OutOfBounds)
      else if mtype e = LIMINE_MEMMAP_KERNEL_AND_MODULES then
        Inr (st\<lparr>reserved_pages := reserved_pages st + (mlength e + (PAGE_SIZE - 1)) div PAGE_SIZE\<rparr>)
      else Inr st)"

fun scan_memmap :: "memmap_scan \<Rightarrow> memmap_entry list \<Rightarrow> memmap_scan res" where
  "scan_memmap st [] = Inr st"
| "scan_memmap st (e # es) = bindR (scan_entry st e) (\<lambda>st. scan_memmap st es)"

text \<open>
  One pass of the bubble sort from index \<open>i\<close> with \<open>k\<close> comparisons to go, counting the exchanges, and the
  loop of the passes.
\<close>

definition exchange :: "'a list \<Rightarrow> nat \<Rightarrow> 'a list" where
  "exchange xs i = xs[i := xs ! Suc i, Suc i := xs ! i]"

fun sort_pass :: "nat \<Rightarrow> nat \<Rightarrow> page_range list \<Rightarrow> nat \<Rightarrow> page_range list \<times> nat" where
  "sort_pass i 0 xs local_changes = (xs, local_changes)"
| "sort_pass i (Suc k) xs local_changes =
     (if range_pages (xs ! i) < range_pages (xs ! Suc i)
      then sort_pass (Suc i) k (exchange xs i) (Suc local_changes)
      else sort_pass (Suc i) k xs local_changes)"

text \<open>What every exchange makes smaller.\<close>

definition weight :: "page_range list \<Rightarrow> nat" where
  "weight xs = (\<Sum>i<length xs. i * unat (range_pages (xs ! i)))"

lemma length_exchange [simp]: "length (exchange xs i) = length xs"
  by (simp add: exchange_def)

lemma exchange_nth: "Suc i < length xs \<Longrightarrow> j < length xs \<Longrightarrow>
    exchange xs i ! j = (if j = i then xs ! Suc i else if j = Suc i then xs ! i else xs ! j)"
  by (simp add: exchange_def nth_list_update)

lemma mset_exchange: "Suc i < length xs \<Longrightarrow> mset (exchange xs i) = mset xs"
  by (simp add: exchange_def mset_swap)

lemma weight_exchange:
  assumes "Suc i < length xs" "range_pages (xs ! i) < range_pages (xs ! Suc i)"
  shows "weight (exchange xs i) < weight xs"
proof -
  let ?f = "\<lambda>xs j. j * unat (range_pages (xs ! j))"
  let ?R = "{..<length xs} - {i, Suc i}"
  have split: "(\<Sum>j<length xs. g j) = g i + g (Suc i) + (\<Sum>j\<in>?R. g j)" for g :: "nat \<Rightarrow> nat"
    using assms(1) by (simp add: sum.remove [of "{..<length xs}" i] sum.remove [of "{..<length xs} - {i}" "Suc i"]
        Diff_insert2 [symmetric] insert_commute)
  have "(\<Sum>j\<in>?R. ?f (exchange xs i) j) = (\<Sum>j\<in>?R. ?f xs j)"
    using assms(1) by (intro sum.cong) (auto simp: exchange_nth)
  moreover have "?f (exchange xs i) i + ?f (exchange xs i) (Suc i) < ?f xs i + ?f xs (Suc i)"
    using assms by (simp add: exchange_nth word_less_nat_alt algebra_simps)
  ultimately show ?thesis unfolding weight_def using split by simp
qed

lemma sort_pass_inv:
  "i + k < length xs \<or> k = 0 \<Longrightarrow> sort_pass i k xs c = (ys, d) \<Longrightarrow>
    length ys = length xs \<and> mset ys = mset xs \<and> c \<le> d \<and> (c < d \<longrightarrow> weight ys < weight xs) \<and> (c = d \<longrightarrow> ys = xs)"
proof (induction i k xs c rule: sort_pass.induct)
  case (1 i xs c)
  then show ?case by simp
next
  case (2 i k xs c)
  have len: "Suc i < length xs" using 2(3) by auto
  show ?case
  proof (cases "range_pages (xs ! i) < range_pages (xs ! Suc i)")
    case True
    with 2 len show ?thesis using weight_exchange [OF len True] by (fastforce simp: mset_exchange)
  next
    case False
    with 2 show ?thesis by auto
  qed
qed

text \<open>
  The \<^verbatim>\<open>while (changes)\<close> loop. With no usable range the bound \<^verbatim>\<open>page_range_index - 1\<close> wraps around and the
  pass runs out of the array.
\<close>

function sort_ranges :: "page_range list \<Rightarrow> page_range list res" where
  "sort_ranges xs =
     (if xs = [] then Inl OutOfBounds
      else let (ys, local_changes) = sort_pass 0 (length xs - 1) xs 0
           in if local_changes = 0 then Inr ys else sort_ranges ys)"
  by auto
termination
proof (relation "measure weight", simp)
  fix xs :: "page_range list" and x ys c
  assume "xs \<noteq> []" "x = sort_pass 0 (length xs - 1) xs 0" "(ys, c) = x" "c \<noteq> 0"
  then have "sort_pass 0 (length xs - 1) xs 0 = (ys, c)" "0 + (length xs - 1) < length xs \<or> length xs - 1 = 0" by auto
  from sort_pass_inv [OF this(2,1)] \<open>c \<noteq> 0\<close> show "(ys, xs) \<in> measure weight" by simp
qed

declare sort_ranges.simps [simp del]

lemma sort_pass_count: "sort_pass i k xs c = (ys, d) \<Longrightarrow> c \<le> d"
  by (induction i k xs c rule: sort_pass.induct) (auto split: if_splits)

lemma sort_pass_stable:
  "sort_pass i k xs c = (ys, c) \<Longrightarrow> i \<le> j \<Longrightarrow> j < i + k \<Longrightarrow> range_pages (xs ! Suc j) \<le> range_pages (xs ! j)"
proof (induction i k xs c rule: sort_pass.induct)
  case (1 i xs c)
  then show ?case by simp
next
  case (2 i k xs c)
  have no: "\<not> range_pages (xs ! i) < range_pages (xs ! Suc i)"
    using 2(3) sort_pass_count [of "Suc i" k "exchange xs i" "Suc c" ys c] by auto
  show ?case
  proof (cases "j = i")
    case True
    with no show ?thesis by simp
  next
    case False
    with 2 no show ?thesis by auto
  qed
qed

lemma sort_ranges_sorted:
  assumes "sort_ranges xs = Inr ys"
  shows "mset ys = mset xs" and "sorted_wrt (\<lambda>a b. range_pages b \<le> range_pages a) ys"
proof -
  have "mset ys = mset xs \<and> sorted_wrt (\<lambda>a b. range_pages b \<le> range_pages a) ys"
    using assms
  proof (induction xs rule: sort_ranges.induct)
    case (1 xs)
    obtain zs c where p: "sort_pass 0 (length xs - 1) xs 0 = (zs, c)" by fastforce
    have ne: "xs \<noteq> []" using 1(2) by (auto simp: sort_ranges.simps [of xs])
    then have inv: "length zs = length xs" "mset zs = mset xs" "c = 0 \<longrightarrow> zs = xs"
      using sort_pass_inv [OF _ p] by auto
    show ?case
    proof (cases "c = 0")
      case True
      then have "ys = xs" using 1(2) ne p inv(3) by (simp add: sort_ranges.simps [of xs])
      moreover have "range_pages (xs ! Suc j) \<le> range_pages (xs ! j)" if "Suc j < length xs" for j
        using sort_pass_stable [of 0 "length xs - 1" xs 0 zs j] p that True by simp
      then have "sorted_wrt (\<lambda>a b. range_pages b \<le> range_pages a) xs"
        by (subst sorted_wrt_iff_nth_Suc_transp) (auto simp: transp_def)
      ultimately show ?thesis by simp
    next
      case False
      then have "sort_ranges zs = Inr ys" using 1(2) ne p by (simp add: sort_ranges.simps [of xs])
      from 1(1) [OF ne p [symmetric] refl False this] inv(2) show ?thesis by simp
    qed
  qed
  then show "mset ys = mset xs" and "sorted_wrt (\<lambda>a b. range_pages b \<le> range_pages a) ys" by auto
qed

lemma sort_ranges_total: "xs \<noteq> [] \<Longrightarrow> \<exists>ys. sort_ranges xs = Inr ys"
proof (induction xs rule: sort_ranges.induct)
  case (1 xs)
  obtain zs c where p: "sort_pass 0 (length xs - 1) xs 0 = (zs, c)" by fastforce
  have "length zs = length xs" using sort_pass_inv [OF _ p] 1(2) by auto
  then have "zs \<noteq> []" using 1(2) by auto
  then show ?case using 1(1) [OF 1(2) p [symmetric] refl] p 1(2) by (cases "c = 0") (auto simp: sort_ranges.simps [of xs])
qed

section \<open>Rounding up\<close>

lemma bit_smear: "bit (smear n w) i \<longleftrightarrow> bit w i \<or> bit w (n + i)"
  by (simp add: smear_def bit_or_iff bit_drop_bit_eq)

lemma smear_double:
  assumes "\<And>i. bit w i \<longleftrightarrow> (\<exists>j<n. bit y (i + j))"
  shows "bit (smear n w) i \<longleftrightarrow> (\<exists>j<2 * n. bit y (i + j))"
proof -
  have "(\<exists>j<2 * n. bit y (i + j)) \<longleftrightarrow> (\<exists>j<n. bit y (i + j)) \<or> (\<exists>j<n. bit y (n + i + j))"
  proof
    assume "\<exists>j<2 * n. bit y (i + j)"
    then obtain j where j: "j < 2 * n" "bit y (i + j)" by blast
    show "(\<exists>j<n. bit y (i + j)) \<or> (\<exists>j<n. bit y (n + i + j))"
    proof (cases "j < n")
      case True
      with j show ?thesis by blast
    next
      case False
      then have "bit y (n + i + (j - n))" "j - n < n" using j by (simp_all add: algebra_simps)
      then show ?thesis by blast
    qed
  next
    assume "(\<exists>j<n. bit y (i + j)) \<or> (\<exists>j<n. bit y (n + i + j))"
    then show "\<exists>j<2 * n. bit y (i + j)"
    proof
      assume "\<exists>j<n. bit y (i + j)"
      then show ?thesis by (metis mult_2 trans_less_add1)
    next
      assume "\<exists>j<n. bit y (n + i + j)"
      then obtain j where "j < n" "bit y (i + (n + j))" by (auto simp: ac_simps)
      then show ?thesis by (intro exI [of _ "n + j"]) simp
    qed
  qed
  then show ?thesis by (simp add: bit_smear assms)
qed

definition smear_all :: "64 word \<Rightarrow> 64 word" where
  "smear_all y = smear 32 (smear 16 (smear 8 (smear 4 (smear 2 (smear 1 y)))))"

lemma bit_smear_all: "bit (smear_all y) i \<longleftrightarrow> (\<exists>j<64. bit y (i + j))"
proof -
  have b0: "bit y i \<longleftrightarrow> (\<exists>j<1. bit y (i + j))" for i by simp
  note b1 = smear_double [OF b0, simplified]
  note b2 = smear_double [OF b1]
  note b3 = smear_double [of _ 4, OF b2 [simplified]]
  note b4 = smear_double [of _ 8, OF b3 [simplified]]
  note b5 = smear_double [of _ 16, OF b4 [simplified]]
  note b6 = smear_double [of _ 32, OF b5 [simplified]]
  from b6 [of i] show ?thesis by (simp add: smear_all_def)
qed

lemma bit_top:
  fixes w :: "64 word"
  assumes "2 ^ k \<le> unat w" "unat w < 2 ^ Suc k"
  shows "bit w k"
proof -
  have "unat w div 2 ^ k = 1"
  proof (rule div_nat_eqI)
    show "2 ^ k * 1 \<le> unat w" using assms(1) by simp
    show "unat w < 2 ^ k * Suc 1" using assms(2) by simp
  qed
  then have "bit (unat w) k" by (simp add: bit_iff_odd)
  then show ?thesis by (simp add: bit_unsigned_iff)
qed

text \<open>\<open>k\<close> is the number of bits of \<open>y\<close>.\<close>

definition bit_length :: "64 word \<Rightarrow> nat \<Rightarrow> bool" where
  "bit_length y k \<longleftrightarrow> unat y < 2 ^ k \<and> (k \<noteq> 0 \<longrightarrow> 2 ^ (k - 1) \<le> unat y)"

lemma bit_length_exists: "\<exists>k. bit_length y k"
proof -
  define k where "k = (LEAST k. unat y < 2 ^ k)"
  have ex: "unat y < 2 ^ unat y" by simp
  then have "unat y < 2 ^ k" unfolding k_def by (rule LeastI)
  moreover have "2 ^ (k - 1) \<le> unat y" if "k \<noteq> 0"
  proof (rule ccontr)
    assume "\<not> 2 ^ (k - 1) \<le> unat y"
    then have "k \<le> k - 1" unfolding k_def by (intro Least_le) simp
    with that show False by simp
  qed
  ultimately show ?thesis unfolding bit_length_def by blast
qed

lemma bit_length_le:
  assumes "bit_length y k" "unat y < 2 ^ m"
  shows "k \<le> m"
proof (cases "k = 0")
  case False
  then have "2 ^ (k - 1) \<le> unat y" using assms(1) unfolding bit_length_def by blast
  then have "(2::nat) ^ (k - 1) < 2 ^ m" using assms(2) by (rule le_less_trans)
  then have "k - 1 < m" by simp
  then show ?thesis by simp
qed simp

lemma smear_all_mask:
  assumes "bit_length y k"
  shows "smear_all y = mask k"
proof (rule bit_word_eqI)
  fix i :: nat
  assume i: "i < LENGTH(64)"
  have k64: "k \<le> 64" using bit_length_le [OF assms, of 64] unsigned_less [of y] by simp
  have "(\<exists>j<64. bit y (i + j)) \<longleftrightarrow> i < k"
  proof
    assume "\<exists>j<64. bit y (i + j)"
    then obtain j where "2 ^ (i + j) \<le> unat y" using bit_le_unat by blast
    moreover have "unat y < 2 ^ k" using assms unfolding bit_length_def by blast
    ultimately have "(2::nat) ^ (i + j) < 2 ^ k" by (rule le_less_trans)
    then show "i < k" by simp
  next
    assume "i < k"
    then have "bit y (k - 1)" using bit_top [of "k - 1" y] assms by (auto simp: bit_length_def)
    then have "bit y (i + (k - 1 - i))" "k - 1 - i < 64" using \<open>i < k\<close> k64 by auto
    then show "\<exists>j<64. bit y (i + j)" by blast
  qed
  then show "bit (smear_all y) i \<longleftrightarrow> bit (mask k :: 64 word) i" using i by (simp add: bit_smear_all bit_mask_iff)
qed

lemma next_power_of_two_eq:
  assumes "x \<noteq> 0" "bit_length (x - 1) k"
  shows "next_power_of_two x = 2 ^ k"
proof -
  have "next_power_of_two x = smear_all (x - 1) + 1"
    using assms(1) by (simp add: next_power_of_two_def smear_all_def)
  then show ?thesis using smear_all_mask [OF assms(2)] by (simp add: mask_eq_exp_minus_1)
qed

lemma unat_pred: "x \<noteq> 0 \<Longrightarrow> unat (x - 1 :: 64 word) = unat x - 1"
  by (metis unat_minus_one)

lemma unat_exp: "k < 64 \<Longrightarrow> unat (2 ^ k :: 64 word) = 2 ^ k"
proof -
  assume "k < 64"
  then have "(2::nat) ^ k < 2 ^ 64" by (intro power_strict_increasing) auto
  moreover have "(2 ^ k :: 64 word) = of_nat (2 ^ k)" by simp
  ultimately show ?thesis using \<open>k < 64\<close> by (simp only: unsigned_of_nat) (simp add: take_bit_nat_eq_self)
qed

lemma is_power_of_two_exp:
  assumes "is_power_of_two x" "bit_length (x - 1) k"
  shows "x = 2 ^ k"
proof -
  have x: "x \<noteq> 0" "x AND (x - 1) = 0" using assms(1) by (auto simp: is_power_of_two_def)
  have u: "unat (x - 1) = unat x - 1" "0 < unat x" using x(1) by (auto simp: unat_pred unat_gt_0)
  have le: "unat x \<le> 2 ^ k" using assms(2) u by (auto simp: bit_length_def)
  have "unat x = 2 ^ k"
  proof (rule ccontr)
    assume "unat x \<noteq> 2 ^ k"
    with le have lt: "unat x < 2 ^ k" by simp
    then have k: "k \<noteq> 0" using u(2) by (cases k) auto
    then have lo: "2 ^ (k - 1) \<le> unat (x - 1)" using assms(2) by (auto simp: bit_length_def)
    have "bit x (k - 1)" "bit (x - 1) (k - 1)"
      using bit_top [of "k - 1" x] bit_top [of "k - 1" "x - 1"] lo lt k u by auto
    then have "bit (x AND (x - 1)) (k - 1)" by (simp add: bit_and_iff)
    with x(2) show False by simp
  qed
  moreover have "unat x < 2 ^ LENGTH(64)" by (rule unsigned_less)
  ultimately have "(2::nat) ^ k < 2 ^ 64" by simp
  then have "k < 64" using power_less_imp_less_exp [of "2 :: nat" k 64] by simp
  then show ?thesis using \<open>unat x = 2 ^ k\<close> by (simp add: word_unat_eq_iff unat_exp)
qed

section \<open>Properties\<close>

text \<open>C21: The bubble sort of the page ranges terminates on every list that is not empty and returns a
  rearrangement of it in descending order of size.\<close>

theorem page_ranges_sorted:
  assumes "xs \<noteq> []"
  shows "\<exists>ys. sort_ranges xs = Inr ys \<and> mset ys = mset xs \<and>
    sorted_wrt (\<lambda>a b. range_pages b \<le> range_pages a) ys"
  using sort_ranges_total [OF assms] sort_ranges_sorted by blast

definition demo_ranges :: "page_range list" where
  "demo_ranges = [\<lparr>range_start = 0, range_end = 8192, range_pages = 2\<rparr>,
     \<lparr>range_start = 0x10000, range_end = 0x14000, range_pages = 4\<rparr>]"

theorem page_ranges_sorted_witness:
  "\<exists>ys. sort_ranges demo_ranges = Inr ys \<and> mset ys = mset demo_ranges \<and>
    sorted_wrt (\<lambda>a b. range_pages b \<le> range_pages a) ys"
  by (rule page_ranges_sorted) (simp add: demo_ranges_def)

text \<open>C22: Rounding a request: for every number of pages from 1 to \<open>2 ^ 63\<close> the bit tricks of
  \<^verbatim>\<open>is_power_of_two\<close> and \<^verbatim>\<open>next_power_of_two\<close> give the least power of two that is not below it.\<close>

theorem round_pages_least_power:
  assumes "pages \<noteq> 0" "unat pages \<le> 2 ^ 63"
  shows "\<exists>k\<le>63. round_pages pages = 2 ^ k \<and> unat pages \<le> 2 ^ k \<and> (\<forall>m. unat pages \<le> 2 ^ m \<longrightarrow> k \<le> m)"
proof -
  obtain k where k: "bit_length (pages - 1) k" using bit_length_exists by blast
  have u: "unat (pages - 1) = unat pages - 1" "0 < unat pages" using assms(1) by (auto simp: unat_pred unat_gt_0)
  have "round_pages pages = 2 ^ k"
    using next_power_of_two_eq [OF assms(1) k] is_power_of_two_exp [OF _ k] by (auto simp: round_pages_def)
  moreover have "unat pages \<le> 2 ^ k" using k u by (auto simp: bit_length_def)
  moreover have "k \<le> m" if "unat pages \<le> 2 ^ m" for m
    by (rule bit_length_le [OF k]) (use that u in simp)
  ultimately show ?thesis using assms(2) by blast
qed

theorem round_pages_least_power_witness: "\<exists>k. round_pages 5 = 2 ^ k \<and> 5 \<le> (2::nat) ^ k"
  using round_pages_least_power [of 5] by auto

end
