(* ===== verification/Buddy.thy ===== *)
theory Buddy
  imports Binary_Trees Hash_Tables Page_Ranges
begin

text \<open>
  The buddy allocator of \<^verbatim>\<open>memory/pmm.c\<close>. Free blocks are the elements of two search trees keyed by
  order, one for the kernel pool and one for the user pool; blocks in use are found through a hash
  table keyed by their start address; block objects that describe nothing wait on a list. All these
  lists take their cells from one node memory. The locks are not modelled.
\<close>

section \<open>State\<close>

record buddy_block =
  bnext :: addr
  bzone :: "64 word"
  start_address :: "64 word"
  block_flags :: "64 word"
  order :: "8 word"
  is_free :: "8 word"
  buddy_chain_length :: "64 word"

text \<open>
  \<open>tm\<close> is the memory of the trees and of all lists, \<open>zones\<close> the array \<^verbatim>\<open>buddy_free_list_zone\<close>, \<open>block_heap\<close>
  the addresses \<^verbatim>\<open>_kalloc\<close> will hand out for block objects once the static ones are used up. That an
  allocation of a block object may itself run the allocator is not modelled.
\<close>

record pmm =
  tm :: bt_mem
  zones :: "btree list"
  blocks :: "addr \<rightharpoonup> buddy_block"
  unused_buddy_blocks_list :: sll
  spare_page_list :: sll
  used_buddy_hash_table :: static_hash_table
  total_allocated :: "64 word"
  block_heap :: "addr list"
  lowest_user_phys_addr :: "64 word"
  highest_user_phys_addr :: "64 word"

abbreviation (input) KERNEL_POOL :: nat where "KERNEL_POOL \<equiv> 0"
abbreviation (input) USER_POOL :: nat where "USER_POOL \<equiv> 1"
abbreviation (input) MAX_ORDER :: nat where "MAX_ORDER \<equiv> 10"
abbreviation (input) STATIC_POOL_FLAG :: "64 word" where "STATIC_POOL_FLAG \<equiv> 32"
abbreviation (input) FIRST_BLOCK_FLAG :: "64 word" where "FIRST_BLOCK_FLAG \<equiv> 64"
abbreviation (input) IN_TREE_FLAG :: "64 word" where "IN_TREE_FLAG \<equiv> 128"
abbreviation (input) FREE :: "8 word" where "FREE \<equiv> 1"
abbreviation (input) USED :: "8 word" where "USED \<equiv> 2"
abbreviation (input) UNUSED :: "64 word" where "UNUSED \<equiv> 0xFFFFFFFFFFFFFFFF"

definition set_lists :: "pmm \<Rightarrow> sll_mem \<Rightarrow> pmm" where
  "set_lists s ls = s\<lparr>tm := (tm s)\<lparr>lists := ls\<rparr>\<rparr>"

text \<open>The tree operations on the tree of a zone.\<close>

definition zone_insert :: "pmm \<Rightarrow> nat \<Rightarrow> addr \<Rightarrow> nat \<Rightarrow> (pmm \<times> nat) res" where
  "zone_insert s z d k =
     (if z < length (zones s) then
        bindR (insert_tree_node (tm s) (zones s ! z) d (of_nat k)) (\<lambda>(m, tr, ret).
          Inr (s\<lparr>tm := m, zones := (zones s)[z := tr]\<rparr>, ret))
      else Inl OutOfBounds)"

definition zone_remove :: "pmm \<Rightarrow> nat \<Rightarrow> nat \<Rightarrow> addr \<Rightarrow> (pmm \<times> nat) res" where
  "zone_remove s z k d =
     (if z < length (zones s) then
        bindR (remove_tree_node (tm s) (zones s ! z) (of_nat k) d NULL) (\<lambda>(m, tr, ret).
          Inr (s\<lparr>tm := m, zones := (zones s)[z := tr]\<rparr>, ret))
      else Inl OutOfBounds)"

definition zone_take :: "pmm \<Rightarrow> nat \<Rightarrow> nat \<Rightarrow> (pmm \<times> addr) res" where
  "zone_take s z k =
     (if z < length (zones s) then
        bindR (lookup_tree (tm s) (zones s ! z) (of_nat k) REMOVE_FROM_TREE) (\<lambda>(m, tr, b).
          Inr (s\<lparr>tm := m, zones := (zones s)[z := tr]\<rparr>, b))
      else Inl OutOfBounds)"

section \<open>Block objects\<close>

definition blank_block :: buddy_block where
  "blank_block = \<lparr>bnext = NULL, bzone = 0, start_address = 0, block_flags = 0, order = 0, is_free = 0,
     buddy_chain_length = 0\<rparr>"

definition buddy_block_get :: "pmm \<Rightarrow> (pmm \<times> addr) res" where
  "buddy_block_get s =
     bindR (singly_linked_list_remove_head (lists (tm s)) (unused_buddy_blocks_list s)) (\<lambda>(ls, l, block).
       let s = set_lists (s\<lparr>unused_buddy_blocks_list := l\<rparr>) ls in
       if block = NULL then
         (case block_heap s of [] \<Rightarrow> Inr (s, NULL)
          | a # rest \<Rightarrow> Inr (s\<lparr>block_heap := rest, blocks := (blocks s)(a \<mapsto> blank_block)\<rparr>, a))
       else Inr (s, block))"

definition buddy_block_free :: "pmm \<Rightarrow> addr \<Rightarrow> pmm res" where
  "buddy_block_free s p =
     bindR (deref (blocks s) p) (\<lambda>b.
     bindR (if block_flags b AND IN_TREE_FLAG \<noteq> 0
            then bindR (zone_remove s (unat (bzone b)) (unat (order b)) p) (\<lambda>(s, _). Inr s)
            else Inr s) (\<lambda>s.
       if block_flags b AND STATIC_POOL_FLAG \<noteq> 0 then
         bindR (modify (blocks s) p (\<lambda>b. b\<lparr>is_free := ucast UNUSED, order := ucast UNUSED, bzone := UNUSED,
                  start_address := 0, bnext := NULL, block_flags := STATIC_POOL_FLAG, buddy_chain_length := 0\<rparr>)) (\<lambda>m.
         bindR (singly_linked_list_insert_head (lists (tm s)) (unused_buddy_blocks_list s) p) (\<lambda>(ls, l).
           Inr (set_lists (s\<lparr>blocks := m, unused_buddy_blocks_list := l\<rparr>) ls)))
       else Inr (s\<lparr>blocks := (blocks s)(p := None), block_heap := p # block_heap s\<rparr>)))"

section \<open>Splitting and allocation\<close>

definition buddy_split :: "pmm \<Rightarrow> addr \<Rightarrow> (pmm \<times> addr) res" where
  "buddy_split s p =
     bindR (deref (blocks s) p) (\<lambda>b.
     bindR (if block_flags b AND IN_TREE_FLAG \<noteq> 0
            then bindR (zone_remove s (unat (bzone b)) (unat (order b)) p) (\<lambda>(s, _).
                 bindR (modify (blocks s) p (\<lambda>b. b\<lparr>block_flags := block_flags b AND NOT IN_TREE_FLAG\<rparr>)) (\<lambda>m.
                   Inr (s\<lparr>blocks := m\<rparr>)))
            else Inr s) (\<lambda>s.
       if unat (order b) > MAX_ORDER then Inl (Panic ''Buddy Split : Illegal Block order'')
       else if order b = 0 then Inl (Panic ''Buddy Split: Trying to split 0'')
       else if is_free b = USED then Inr (s, NULL)
       else bindR (buddy_block_get s) (\<lambda>(s, new).
         if new = NULL then Inr (s, NULL)
         else bindR (modify (blocks s) new (\<lambda>n. n\<lparr>bnext := bnext b\<rparr>)) (\<lambda>m.
              bindR (modify m p (\<lambda>b. b\<lparr>bnext := new, order := order b - 1\<rparr>)) (\<lambda>m.
              bindR (modify m new (\<lambda>n. n\<lparr>order := order b - 1,
                        start_address := start_address b + push_bit (unat (order b - 1)) 1 * PAGE_SIZE,
                        bzone := bzone b, is_free := FREE, block_flags := block_flags n OR IN_TREE_FLAG\<rparr>)) (\<lambda>m.
              bindR (zone_insert (s\<lparr>blocks := m\<rparr>) (unat (bzone b)) new (unat (order b - 1))) (\<lambda>(s, ret).
                if ret = KERN_SUCCESS then Inr (s, p) else Inl (Panic ''NULL''))))))))"

text \<open>
  The inner loop of \<^verbatim>\<open>buddy_alloc\<close>: halve the block until it has order \<open>i\<close>. Each turn lowers the order, so
  \<open>MAX_ORDER + 1\<close> turns are enough.
\<close>

fun split_until :: "nat \<Rightarrow> pmm \<Rightarrow> nat \<Rightarrow> addr \<Rightarrow> (pmm \<times> addr) res" where
  "split_until 0 s i p = Inl Unmodelled"
| "split_until (Suc fuel) s i p =
     bindR (deref (blocks s) p) (\<lambda>b.
       if unat (order b) = i then Inr (s, p)
       else if unat (order b) > MAX_ORDER then Inl (Panic ''order higher than max order in buddy_alloc'')
       else bindR (buddy_split s p) (\<lambda>(s, p).
         if p = NULL then Inl (Panic ''buddy_alloc cannot split block'') else split_until fuel s i p))"

definition register_used :: "pmm \<Rightarrow> addr \<Rightarrow> pmm res" where
  "register_used s p =
     bindR (deref (blocks s) p) (\<lambda>b.
     bindR (static_hash_table_insert (lists (tm s)) (used_buddy_hash_table s) (start_address b) p) (\<lambda>(ls, tb).
       Inr (set_lists (s\<lparr>used_buddy_hash_table := tb\<rparr>) ls)))"

definition clear_in_tree :: "pmm \<Rightarrow> addr \<Rightarrow> pmm res" where
  "clear_in_tree s p =
     bindR (modify (blocks s) p (\<lambda>b. b\<lparr>block_flags := block_flags b AND NOT IN_TREE_FLAG\<rparr>)) (\<lambda>m.
       Inr (s\<lparr>blocks := m\<rparr>))"

text \<open>
  The search of \<^verbatim>\<open>buddy_alloc\<close> for a larger block, from order \<open>idx\<close> on. A block that is filed under a
  larger order than its own is taken out of the tree and the same order is tried again, which is why the
  loop takes fuel.
\<close>

fun alloc_larger :: "nat \<Rightarrow> pmm \<Rightarrow> nat \<Rightarrow> nat \<Rightarrow> nat \<Rightarrow> (pmm \<times> addr) res" where
  "alloc_larger 0 s zone i idx = Inl Unmodelled"
| "alloc_larger (Suc fuel) s zone i idx =
     (if idx > MAX_ORDER then Inr (s, NULL)
      else bindR (zone_take s zone idx) (\<lambda>(s, p).
        if p = NULL then alloc_larger fuel s zone i (idx + 1)
        else bindR (deref (blocks s) p) (\<lambda>b.
          if start_address b \<noteq> 0 \<and> unat (order b) \<ge> idx then
            bindR (clear_in_tree s p) (\<lambda>s.
            bindR (split_until (MAX_ORDER + 1) s i p) (\<lambda>(s, p).
            bindR (register_used s p) (\<lambda>s. Inr (s, p))))
          else if unat (order b) < idx then
            bindR (zone_remove s zone idx p) (\<lambda>(s, _). alloc_larger fuel s zone i idx)
          else alloc_larger fuel s zone i (idx + 1))))"

text \<open>The search for order \<open>i\<close>.\<close>

definition alloc_order :: "nat \<Rightarrow> pmm \<Rightarrow> nat \<Rightarrow> nat \<Rightarrow> (pmm \<times> addr) res" where
  "alloc_order fuel s zone i =
     bindR (zone_take s zone i) (\<lambda>(s, p).
       if p = NULL then alloc_larger fuel s zone i (i + 1)
       else bindR (register_used s p) (\<lambda>s. bindR (clear_in_tree s p) (\<lambda>s. Inr (s, p))))"

fun alloc_scan :: "nat \<Rightarrow> pmm \<Rightarrow> nat \<Rightarrow> 64 word \<Rightarrow> nat list \<Rightarrow> (pmm \<times> addr) res" where
  "alloc_scan fuel s zone pages [] = Inr (s, NULL)"
| "alloc_scan fuel s zone pages (i # js) =
     (if pages = push_bit i 1 then
        bindR (alloc_order fuel s zone i) (\<lambda>(s, p).
          if p = NULL then alloc_scan fuel s zone pages js else Inr (s, p))
      else alloc_scan fuel s zone pages js)"

text \<open>
  \<^verbatim>\<open>buddy_alloc_large_range\<close>. The expression \<^verbatim>\<open>pages % 1 << MAX_ORDER != 0\<close> groups as
  \<^verbatim>\<open>((pages % 1) << MAX_ORDER) != 0\<close>. \<open>take_max\<close> is the loop that skips blocks of a smaller order,
  \<open>chain_walk\<close> counts the neighbours and \<open>chain_take\<close> takes them out of the tree.
\<close>

definition large_blocks :: "64 word \<Rightarrow> 64 word" where
  "large_blocks pages = pages div push_bit MAX_ORDER 1 + (if push_bit MAX_ORDER (pages mod 1) \<noteq> 0 then 1 else 0)"

fun take_max :: "nat \<Rightarrow> pmm \<Rightarrow> nat \<Rightarrow> addr \<Rightarrow> (pmm \<times> addr) res" where
  "take_max 0 s zone p = Inl Unmodelled"
| "take_max (Suc fuel) s zone p =
     (if p = NULL then Inr (s, NULL)
      else bindR (deref (blocks s) p) (\<lambda>b.
        if unat (order b) = MAX_ORDER then Inr (s, p)
        else bindR (zone_take s zone MAX_ORDER) (\<lambda>(s, p). take_max fuel s zone p)))"

fun chain_walk :: "nat \<Rightarrow> (addr \<rightharpoonup> buddy_block) \<Rightarrow> 64 word \<Rightarrow> addr \<Rightarrow> 64 word \<Rightarrow> 64 word res" where
  "chain_walk 0 m max_blocks p current = Inl Unmodelled"
| "chain_walk (Suc fuel) m max_blocks p current =
     bindR (deref m p) (\<lambda>b.
     bindR (deref m (bnext b)) (\<lambda>n.
       if unat (order n) = MAX_ORDER \<and> current < max_blocks \<and> bzone b = bzone n
       then chain_walk fuel m max_blocks (bnext b) (current + 1) else Inr current))"

fun chain_take :: "nat \<Rightarrow> pmm \<Rightarrow> nat \<Rightarrow> 64 word \<Rightarrow> addr \<Rightarrow> 64 word \<Rightarrow> pmm res" where
  "chain_take 0 s zone max_blocks p current = (if current \<le> max_blocks then Inl Unmodelled else Inr s)"
| "chain_take (Suc fuel) s zone max_blocks p current =
     (if current \<le> max_blocks then
        bindR (deref (blocks s) p) (\<lambda>b.
        bindR (zone_remove s zone (unat (order b)) p) (\<lambda>(s, _).
        bindR (modify (blocks s) p (\<lambda>b. b\<lparr>is_free := USED\<rparr>)) (\<lambda>m.
          chain_take fuel (s\<lparr>blocks := m\<rparr>) zone max_blocks (bnext b) (current + 1))))
      else Inr s)"

fun large_retry :: "nat \<Rightarrow> nat \<Rightarrow> pmm \<Rightarrow> nat \<Rightarrow> 64 word \<Rightarrow> (pmm \<times> addr) res" where
  "large_retry fuel 0 s zone max_blocks =
     Inl (Panic ''Cannot allocate a large enough contiguous span of memory!'')"
| "large_retry fuel (Suc retries) s zone max_blocks =
     bindR (zone_take s zone MAX_ORDER) (\<lambda>(s, pointer).
       if pointer = NULL then large_retry fuel retries s zone max_blocks
       else bindR (take_max fuel s zone pointer) (\<lambda>(s, block).
         if block = NULL then large_retry fuel retries s zone max_blocks
         else bindR (chain_walk fuel (blocks s) max_blocks pointer 1) (\<lambda>current.
           if current < max_blocks then
             bindR (deref (blocks s) block) (\<lambda>b.
             bindR (zone_insert s zone block (unat (order b))) (\<lambda>(s, _).
               large_retry fuel retries s zone max_blocks))
           else
             bindR (modify (blocks s) block (\<lambda>b. b\<lparr>buddy_chain_length := max_blocks,
                      block_flags := block_flags b AND NOT IN_TREE_FLAG\<rparr>)) (\<lambda>m.
             bindR (deref m block) (\<lambda>b.
             bindR (chain_take fuel (s\<lparr>blocks := m\<rparr>) zone max_blocks (bnext b) 2) (\<lambda>s.
               Inr (s\<lparr>total_allocated := total_allocated s + push_bit MAX_ORDER 1 * max_blocks\<rparr>, block)))))))"

definition buddy_alloc_large_range :: "nat \<Rightarrow> pmm \<Rightarrow> 64 word \<Rightarrow> nat \<Rightarrow> (pmm \<times> addr) res" where
  "buddy_alloc_large_range fuel s pages zone = large_retry fuel 501 s zone (large_blocks pages)"

definition buddy_alloc :: "nat \<Rightarrow> pmm \<Rightarrow> 64 word \<Rightarrow> nat \<Rightarrow> (pmm \<times> addr) res" where
  "buddy_alloc fuel s pages zone =
     (if pages > push_bit MAX_ORDER 1 then buddy_alloc_large_range fuel s pages zone
      else alloc_scan fuel s zone (round_pages pages) [0..<MAX_ORDER])"

definition phys_alloc :: "nat \<Rightarrow> pmm \<Rightarrow> 64 word \<Rightarrow> nat \<Rightarrow> (pmm \<times> 64 word) res" where
  "phys_alloc fuel s pages zone =
     bindR (buddy_alloc fuel s pages zone) (\<lambda>(s, p).
       if p = NULL then Inl (Panic ''phys_alloc cannot allocate'')
       else bindR (deref (blocks s) p) (\<lambda>b.
            bindR (modify (blocks s) p (\<lambda>b. b\<lparr>is_free := USED\<rparr>)) (\<lambda>m.
              Inr (s\<lparr>blocks := m, total_allocated := total_allocated s + push_bit (unat (order b)) 1\<rparr>,
                   start_address b))))"

section \<open>Freeing\<close>

definition buddy_coalesce :: "pmm \<Rightarrow> addr \<Rightarrow> pmm res" where
  "buddy_coalesce s p =
     (if p = NULL then Inr s
      else bindR (deref (blocks s) p) (\<lambda>b.
        if bnext b = NULL \<or> unat (order b) = MAX_ORDER then
          bindR (modify (blocks s) p (\<lambda>b. b\<lparr>block_flags := block_flags b OR IN_TREE_FLAG\<rparr>)) (\<lambda>m.
          bindR (zone_insert (s\<lparr>blocks := m\<rparr>) (unat (bzone b)) p (unat (order b))) (\<lambda>(s, _). Inr s))
        else bindR (deref (blocks s) (bnext b)) (\<lambda>n.
          if order b = order n \<and> is_free b = FREE \<and> is_free n = FREE \<and> bzone b = bzone n \<and>
             block_flags n AND FIRST_BLOCK_FLAG = 0
          then
            bindR (modify (blocks s) p (\<lambda>b. b\<lparr>bnext := bnext n, order := order b + 1\<rparr>)) (\<lambda>m.
            bindR (buddy_block_free (s\<lparr>blocks := m\<rparr>) (bnext b)) (\<lambda>s.
            bindR (modify (blocks s) p (\<lambda>b. b\<lparr>block_flags := block_flags b OR IN_TREE_FLAG\<rparr>)) (\<lambda>m.
            bindR (zone_insert (s\<lparr>blocks := m\<rparr>) (unat (bzone b)) p (unat (order b + 1))) (\<lambda>(s, _). Inr s))))
          else Inr s)))"

text \<open>
  The walk of \<^verbatim>\<open>buddy_free\<close> through a hash bucket; \<open>None\<close> is the end of the bucket, where the source hands the
  address to the slab allocator.
\<close>

fun used_walk :: "nat \<Rightarrow> sll_mem \<Rightarrow> (addr \<rightharpoonup> buddy_block) \<Rightarrow> 64 word \<Rightarrow> addr \<Rightarrow> addr option res" where
  "used_walk 0 ls m address node = (if node = NULL then Inr None else Inl Unmodelled)"
| "used_walk (Suc fuel) ls m address node =
     (if node = NULL then Inr None
      else bindR (deref (nodes ls) node) (\<lambda>n.
           bindR (deref m (data n)) (\<lambda>b.
             if start_address b = address then Inr (Some (data n)) else used_walk fuel ls m address (next n))))"

text \<open>The result says whether the address belonged to a buddy block; if not, it goes to the slab allocator.\<close>

definition buddy_free :: "pmm \<Rightarrow> 64 word \<Rightarrow> (pmm \<times> bool) res" where
  "buddy_free s address =
     bindR (hash address (of_nat HASH_TABLE_STATIC_POOL_SIZE)) (\<lambda>h.
     bindR (static_hash_table_retrieve (used_buddy_hash_table s) h) (\<lambda>bucket.
     bindR (used_walk (node_count bucket) (lists (tm s)) (blocks s) address (head bucket)) (\<lambda>found.
       case found of None \<Rightarrow> Inr (s, False)
       | Some p \<Rightarrow>
         bindR (singly_linked_list_remove_node_by_address (lists (tm s)) bucket p) (\<lambda>(ls, l, ret).
           if ret = NODE_NOT_FOUND then Inl (Panic ''Buddy Dealloc: Address not found'')
           else
             let tb = used_buddy_hash_table s; s = set_lists (s\<lparr>used_buddy_hash_table := tb\<lparr>table := (table tb)[unat h := l]\<rparr>\<rparr>) ls
             in bindR (modify (blocks s) p (\<lambda>b. b\<lparr>is_free := FREE, block_flags := block_flags b AND NOT IN_TREE_FLAG\<rparr>)) (\<lambda>m.
                bindR (deref m p) (\<lambda>b.
                bindR (buddy_coalesce (s\<lparr>blocks := m,
                         total_allocated := total_allocated s - push_bit (unat (order b)) 1\<rparr>) p) (\<lambda>s. Inr (s, True))))))))"

definition phys_dealloc :: "pmm \<Rightarrow> 64 word \<Rightarrow> (pmm \<times> bool) res" where
  "phys_dealloc s address = buddy_free s address"

text \<open>The debugging test compares the elements of the bucket, which are block objects, with the address.\<close>

definition check_phys_addr_usage :: "pmm \<Rightarrow> 64 word \<Rightarrow> bool res" where
  "check_phys_addr_usage s address =
     bindR (hash address (of_nat HASH_TABLE_STATIC_POOL_SIZE)) (\<lambda>h.
       static_hash_table_check (lists (tm s)) (used_buddy_hash_table s) h (unat address))"

section \<open>Initialisation\<close>

text \<open>
  The second part of \<^verbatim>\<open>phys_init\<close>, from the sorted page ranges on. \<open>pool\<close> are the addresses of
  \<^verbatim>\<open>buddy_block_static_pool\<close> in array order. \<open>spare_pages\<close> puts the pages \<open>k, \<dots>, k + n - 1\<close> of a range on the
  list of spare pages.
\<close>

fun spare_pages :: "64 word \<Rightarrow> nat \<Rightarrow> nat \<Rightarrow> pmm \<Rightarrow> pmm res" where
  "spare_pages start k 0 s = Inr s"
| "spare_pages start k (Suc n) s =
     bindR (singly_linked_list_insert_head (lists (tm s)) (spare_page_list s)
              (unat (start + of_nat k * PAGE_SIZE))) (\<lambda>(ls, l).
       spare_pages start (Suc k) n (set_lists (s\<lparr>spare_page_list := l\<rparr>) ls))"

definition block_at :: "addr list \<Rightarrow> nat \<Rightarrow> addr res" where
  "block_at pool i = (if i < length pool then Inr (pool ! i) else Inl OutOfBounds)"

text \<open>The block number \<open>idx\<close> of the pool becomes the block of \<open>MAX_ORDER\<close> at page \<open>j\<close> of range \<open>i\<close>.\<close>

definition carve_block :: "addr list \<Rightarrow> nat \<Rightarrow> 64 word \<Rightarrow> nat \<Rightarrow> nat \<Rightarrow> pmm \<Rightarrow> pmm res" where
  "carve_block pool i start j idx s =
     bindR (block_at pool idx) (\<lambda>p.
     bindR (modify (blocks s) p (\<lambda>b. b\<lparr>start_address := (start + of_nat j * PAGE_SIZE) AND NOT (PAGE_SIZE - 1),
              block_flags := STATIC_POOL_FLAG, order := of_nat MAX_ORDER, bzone := of_nat i, is_free := FREE\<rparr>)) (\<lambda>m.
       if idx = 0 then Inr (s\<lparr>blocks := m\<rparr>)
       else bindR (block_at pool (idx - 1)) (\<lambda>q.
            bindR (deref m q) (\<lambda>b.
              if bzone b = of_nat i then
                bindR (modify m q (\<lambda>b. b\<lparr>bnext := p, block_flags := block_flags b OR FIRST_BLOCK_FLAG\<rparr>)) (\<lambda>m.
                  Inr (s\<lparr>blocks := m\<rparr>))
              else Inr (s\<lparr>blocks := m\<rparr>)))))"

function carve_range :: "addr list \<Rightarrow> nat \<Rightarrow> 64 word \<Rightarrow> nat \<Rightarrow> nat \<Rightarrow> nat \<Rightarrow> pmm \<Rightarrow> (pmm \<times> nat) res" where
  "carve_range pool i start pages j idx s =
     (if j < pages then
        (if pages - j < 2 ^ MAX_ORDER then
           bindR (spare_pages start j (pages - j) s) (\<lambda>s. carve_range pool i start pages (j + 2 ^ MAX_ORDER) idx s)
         else
           bindR (carve_block pool i start j idx s) (\<lambda>s.
             if Suc idx = length pool then Inl (Panic ''Phys_init : Static pool size hit'')
             else carve_range pool i start pages (j + 2 ^ MAX_ORDER) (Suc idx) s))
      else Inr (s, idx))"
  by pat_completeness auto
termination
  by (relation "measure (\<lambda>(pool, i, start, pages, j, idx, s). pages - j)") auto

declare carve_range.simps [simp del]

fun carve_ranges :: "addr list \<Rightarrow> nat \<Rightarrow> page_range list \<Rightarrow> nat \<Rightarrow> pmm \<Rightarrow> (pmm \<times> nat) res" where
  "carve_ranges pool i [] idx s = Inr (s, idx)"
| "carve_ranges pool i (r # rs) idx s =
     (if unat (range_pages r) < 2 ^ MAX_ORDER then
        bindR (spare_pages (range_start r) 0 (unat (range_pages r)) s) (\<lambda>s. carve_ranges pool (Suc i) rs idx s)
      else
        bindR (carve_range pool i (range_start r) (unat (range_pages r)) 0 idx s) (\<lambda>(s, idx).
        bindR (block_at pool (idx - 1)) (\<lambda>q.
        bindR (block_at pool idx) (\<lambda>p.
        bindR (modify (blocks s) q (\<lambda>b. b\<lparr>bnext := p\<rparr>)) (\<lambda>m.
          carve_ranges pool (Suc i) rs idx (s\<lparr>blocks := m\<rparr>))))))"

text \<open>The blocks that are left over go to the list of unused block objects.\<close>

fun park_blocks :: "addr list \<Rightarrow> pmm \<Rightarrow> pmm res" where
  "park_blocks [] s = Inr s"
| "park_blocks (p # ps) s =
     bindR (modify (blocks s) p (\<lambda>b. b\<lparr>is_free := FREE, bzone := UNUSED, bnext := NULL, start_address := 0,
              block_flags := STATIC_POOL_FLAG, order := ucast UNUSED\<rparr>)) (\<lambda>m.
     bindR (singly_linked_list_insert_head (lists (tm s)) (unused_buddy_blocks_list s) p) (\<lambda>(ls, l).
       park_blocks ps (set_lists (s\<lparr>blocks := m, unused_buddy_blocks_list := l\<rparr>) ls)))"

text \<open>Filing the blocks of range \<open>i\<close> in the tree of their pool; \<open>USER_SPAN_SIZE\<close> is three quarters of memory.\<close>

definition user_span_size :: "64 word \<Rightarrow> 64 word" where
  "user_span_size highest = highest div 2 + highest div 4"

definition file_free_block :: "64 word \<Rightarrow> addr \<Rightarrow> pmm \<Rightarrow> pmm res" where
  "file_free_block highest p s =
     bindR (deref (blocks s) p) (\<lambda>b.
       let start = start_address b; stop = start + push_bit MAX_ORDER 1 * PAGE_SIZE;
           kernel = start > user_span_size highest;
           z = (if kernel then KERNEL_POOL else USER_POOL);
           s = (if kernel then s
                else s\<lparr>lowest_user_phys_addr := (if lowest_user_phys_addr s > start then start else lowest_user_phys_addr s),
                       highest_user_phys_addr := (if highest_user_phys_addr s < stop then stop else highest_user_phys_addr s)\<rparr>)
       in bindR (modify (blocks s) p (\<lambda>b. b\<lparr>bzone := of_nat z\<rparr>)) (\<lambda>m.
          bindR (zone_insert (s\<lparr>blocks := m\<rparr>) z p (unat (order b))) (\<lambda>(s, _). Inr s)))"

fun file_zone :: "64 word \<Rightarrow> nat \<Rightarrow> addr list \<Rightarrow> pmm \<Rightarrow> (pmm \<times> addr list) res" where
  "file_zone highest i [] s = Inl OutOfBounds"
| "file_zone highest i (p # ps) s =
     bindR (deref (blocks s) p) (\<lambda>b.
       if bzone b = of_nat i then bindR (file_free_block highest p s) (\<lambda>s. file_zone highest i ps s)
       else Inr (s, p # ps))"

fun file_zones :: "64 word \<Rightarrow> nat \<Rightarrow> nat \<Rightarrow> addr list \<Rightarrow> pmm \<Rightarrow> pmm res" where
  "file_zones highest i 0 ps s = Inr s"
| "file_zones highest i (Suc n) ps s = bindR (file_zone highest i ps s) (\<lambda>(s, ps). file_zones highest (Suc i) n ps s)"

definition init_zone :: "pmm \<Rightarrow> nat \<Rightarrow> pmm res" where
  "init_zone s z =
     (if z < length (zones s) then
        bindR (init_tree (tm s) (zones s ! z) REGULAR_TREE) (\<lambda>(m, tr, _).
          Inr (s\<lparr>tm := m, zones := (zones s)[z := tr]\<rparr>))
      else Inl OutOfBounds)"

text \<open>
  \<^verbatim>\<open>phys_init\<close> as a whole; \<open>bpool\<close> and \<open>full\<close> are the static bucket pool and flag of the hash table module.
\<close>

definition phys_init :: "addr list \<Rightarrow> sll list \<Rightarrow> bool \<Rightarrow> memmap_entry list \<Rightarrow> pmm \<Rightarrow> pmm res" where
  "phys_init pool bpool full entries s =
     bindR (singly_linked_list_init (list_pool (tm s)) (lists (tm s)) 0) (\<lambda>(ls, l).
     let s = set_lists (s\<lparr>spare_page_list := l\<rparr>) ls in
     bindR (scan_memmap \<lparr>contiguous_pages = [], usable_pages = 0, reserved_pages = 0, highest_address = 0\<rparr> entries) (\<lambda>sc.
     bindR (sort_ranges (contiguous_pages sc)) (\<lambda>rs.
     bindR (carve_ranges pool 0 rs 0 s) (\<lambda>(s, idx).
     bindR (singly_linked_list_init (list_pool (tm s)) (lists (tm s)) 0) (\<lambda>(ls, l).
     bindR (park_blocks (drop idx pool) (set_lists (s\<lparr>unused_buddy_blocks_list := l\<rparr>) ls)) (\<lambda>s.
     bindR (init_zone s KERNEL_POOL) (\<lambda>s.
     bindR (init_zone s USER_POOL) (\<lambda>s.
     bindR (file_zones (highest_address sc) 0 (length rs) pool s) (\<lambda>s.
     bindR (static_hash_table_init (list_pool (tm s)) bpool full (lists (tm s)) (Some (used_buddy_hash_table s))
              (of_nat HASH_TABLE_STATIC_POOL_SIZE)) (\<lambda>(_, ls, tb).
       Inr (set_lists (s\<lparr>used_buddy_hash_table := tb\<rparr>) ls)))))))))))"

end
