(* ===== verification/Buddy_Alloc.thy ===== *)
theory Buddy_Alloc
  imports Buddy
begin

text \<open>
  Correctness of the buddy allocator over its components: the zone's search tree, the hash table of
  used blocks and the list of unused block objects share one list memory, and an allocation works on
  all three.
\<close>

section \<open>Representation\<close>

text \<open>
  The lists beside the tree: the unused block objects (key \<open>None\<close>) and the buckets of the hash table.
  \<open>pmm_rep s z M U B\<close>: the tree of zone \<open>z\<close> files the free blocks as \<open>M\<close>, the unused block objects are \<open>U\<close> and
  bucket \<open>i\<close> of the hash table holds \<open>B i\<close>.
\<close>

definition lists_beside :: "pmm \<Rightarrow> addr list \<Rightarrow> (nat \<Rightarrow> addr list) \<Rightarrow> nat option others" where
  "lists_beside s U B =
     (insert None (Some ` {..<length (table (used_buddy_hash_table s))}),
      case_option (unused_buddy_blocks_list s) ((!) (table (used_buddy_hash_table s))), case_option U B)"

definition pmm_rep :: "pmm \<Rightarrow> nat \<Rightarrow> (64 word \<rightharpoonup> addr list) \<Rightarrow> addr list \<Rightarrow> (nat \<Rightarrow> addr list) \<Rightarrow> bool" where
  "pmm_rep s z M U B \<longleftrightarrow> z < length (zones s) \<and> tree_rep (lists_beside s U B) (tm s) (zones s ! z) M \<and>
     length (table (used_buddy_hash_table s)) = HASH_TABLE_STATIC_POOL_SIZE \<and>
     table_size (used_buddy_hash_table s) = of_nat HASH_TABLE_STATIC_POOL_SIZE"

definition proom :: "pmm \<Rightarrow> nat" where
  "proom s = bt_room (tm s)"

text \<open>
  The block at the head of an order can be taken out of the tree when it is not the last of its order or
  when the order's node is a left leaf; \<open>rest_of ys\<close> is what the order files afterwards. In every other
  position the removal of a node loses other orders or leaves an empty bucket behind
  (\<open>tree_remove_right_leaf_drops_left\<close>, \<open>tree_empty_root_bucket_faults\<close>).
\<close>

definition order_leaf :: "pmm \<Rightarrow> nat \<Rightarrow> nat \<Rightarrow> bool" where
  "order_leaf s z k \<longleftrightarrow> tree_left_leaf (tm s) (zones s ! z) (of_nat k)"

definition takeable :: "pmm \<Rightarrow> nat \<Rightarrow> nat \<Rightarrow> addr list \<Rightarrow> bool" where
  "takeable s z k ys \<longleftrightarrow> ys \<noteq> [] \<or> order_leaf s z k"

definition rest_of :: "addr list \<Rightarrow> addr list option" where
  "rest_of ys = (if ys = [] then None else Some ys)"

text \<open>What the list and tree operations leave alone.\<close>

definition kept :: "pmm \<Rightarrow> pmm \<Rightarrow> bool" where
  "kept s s' \<longleftrightarrow> blocks s' = blocks s \<and> total_allocated s' = total_allocated s"

definition same_tree :: "pmm \<Rightarrow> pmm \<Rightarrow> bool" where
  "same_tree s s' \<longleftrightarrow> tnodes (tm s') = tnodes (tm s) \<and> zones s' = zones s"

lemma order_leaf_same: "same_tree s s' \<Longrightarrow> order_leaf s' z k = order_leaf s z k"
  by (simp add: same_tree_def order_leaf_def tree_left_leaf_def)

lemma order_leaf_simps [simp]:
  "order_leaf (s\<lparr>blocks := m\<rparr>) z k = order_leaf s z k"
  "order_leaf (s\<lparr>total_allocated := n\<rparr>) z k = order_leaf s z k"
  by (simp_all add: order_leaf_def)

lemma kept_refl [simp]: "kept s s"
  by (simp add: kept_def)

lemma kept_trans: "kept s s' \<Longrightarrow> kept s' s'' \<Longrightarrow> kept s s''"
  by (simp add: kept_def)

lemma case_option_upd:
  "(case_option u f)(None := v) = case_option v f"
  "(case_option u f)(Some i := v) = case_option u (f(i := v))"
  by (auto split: option.splits)

lemma nth_fun_upd: "i < length t \<Longrightarrow> ((!) t)(i := l) = (!) (t[i := l])"
  by (auto simp: fun_eq_iff nth_list_update)

lemma lists_beside_simps [simp]:
  "lists_beside (s\<lparr>blocks := m\<rparr>) U B = lists_beside s U B"
  "lists_beside (s\<lparr>total_allocated := n\<rparr>) U B = lists_beside s U B"
  "lists_beside (s\<lparr>tm := t\<rparr>) U B = lists_beside s U B"
  "lists_beside (s\<lparr>zones := zs\<rparr>) U B = lists_beside s U B"
  by (simp_all add: lists_beside_def)

lemma pmm_rep_simps [simp]:
  "pmm_rep (s\<lparr>blocks := m\<rparr>) z M U B = pmm_rep s z M U B"
  "pmm_rep (s\<lparr>total_allocated := n\<rparr>) z M U B = pmm_rep s z M U B"
  by (simp_all add: pmm_rep_def)

lemma proom_simps [simp]: "proom (s\<lparr>blocks := m\<rparr>) = proom s" "proom (s\<lparr>total_allocated := n\<rparr>) = proom s"
  by (simp_all add: proom_def)

section \<open>Steps on the lists\<close>

lemma zone_take_first:
  assumes "pmm_rep s z M U B" "M (of_nat k) = Some (x # ys)" "takeable s z k ys"
  shows "\<exists>s'. zone_take s z k = Inr (s', x) \<and> pmm_rep s' z (M(of_nat k := rest_of ys)) U B \<and> kept s s' \<and> proom s \<le> proom s'"
proof -
  have r: "z < length (zones s)" "tree_rep (lists_beside s U B) (tm s) (zones s ! z) M"
    using assms(1) by (auto simp: pmm_rep_def)
  have "\<exists>m tr. lookup_tree (tm s) (zones s ! z) (of_nat k) 1 = Inr (m, tr, x) \<and>
    tree_rep (lists_beside s U B) m tr (M(of_nat k := rest_of ys)) \<and> bt_room (tm s) \<le> bt_room m"
  proof (cases ys)
    case Nil
    with assms(3) have "tree_left_leaf (tm s) (zones s ! z) (of_nat k)" by (simp add: takeable_def order_leaf_def)
    from lookup_tree_last [OF r(2) _ this, of x 1] assms(2) Nil show ?thesis by (simp add: rest_of_def)
  next
    case (Cons y zs)
    with lookup_tree_pop [OF r(2), of "of_nat k" x y zs 1] assms(2) show ?thesis by (auto simp: rest_of_def)
  qed
  with r(1) assms(1) show ?thesis by (auto simp: zone_take_def pmm_rep_def kept_def proom_def)
qed

lemma zone_take_missing:
  assumes "pmm_rep s z M U B" "M (of_nat k) = None"
  shows "zone_take s z k = Inr (s, NULL)"
proof -
  have "tree_rep (lists_beside s U B) (tm s) (zones s ! z) M" "z < length (zones s)" using assms(1) by (auto simp: pmm_rep_def)
  with lookup_tree_missing [OF this(1) assms(2), of 1] show ?thesis by (simp add: zone_take_def)
qed

lemma zone_remove_last:
  assumes "pmm_rep s z M U B" "M (of_nat k) = Some [x]" "order_leaf s z k"
  shows "\<exists>s'. zone_remove s z k d = Inr (s', KERN_SUCCESS) \<and> pmm_rep s' z (M(of_nat k := None)) U B \<and> kept s s' \<and>
    unused_buddy_blocks_list s' = unused_buddy_blocks_list s \<and> proom s \<le> proom s'"
proof -
  have r: "z < length (zones s)" "tree_rep (lists_beside s U B) (tm s) (zones s ! z) M"
    using assms(1) by (auto simp: pmm_rep_def)
  obtain m tr where "remove_tree_node (tm s) (zones s ! z) (of_nat k) d NULL = Inr (m, tr, KERN_SUCCESS)"
    "tree_rep (lists_beside s U B) m tr (M(of_nat k := None))" "bt_room (tm s) \<le> bt_room m"
    using remove_tree_last [OF r(2) assms(2), of d] assms(3) by (auto simp: order_leaf_def)
  with r(1) assms(1) show ?thesis by (simp add: zone_remove_def pmm_rep_def kept_def proom_def)
qed

text \<open>Taking the last block of an order that is a left leaf leaves another order in the tree.\<close>

lemma take_leaves_some:
  assumes "pmm_rep s z M U B" "M (of_nat k) = Some (x # ys)" "takeable s z k ys"
  shows "M(of_nat k := rest_of ys) \<noteq> Map.empty"
proof (cases "ys = []")
  case True
  have r: "tree_rep (lists_beside s U B) (tm s) (zones s ! z) M" using assms(1) by (auto simp: pmm_rep_def)
  show ?thesis using tree_left_leaf_other [OF r, of "of_nat k" x] assms(2,3) True
    by (auto simp: rest_of_def takeable_def order_leaf_def fun_eq_iff)
next
  case False
  then show ?thesis by (auto simp: rest_of_def fun_eq_iff)
qed

lemma zone_insert_ok:
  assumes "pmm_rep s z M U B" "k < 2 ^ 32" "0 < proom s"
  shows "\<exists>s'. zone_insert s z d k = Inr (s', KERN_SUCCESS) \<and> pmm_rep s' z (enqueue_map M (of_nat k) d) U B \<and>
    kept s s' \<and> proom s - 1 \<le> proom s' \<and> (M \<noteq> Map.empty \<longrightarrow> (\<forall>j\<le>k. M (of_nat j) = None) \<longrightarrow> order_leaf s' z k)"
proof -
  have r: "z < length (zones s)" "tree_rep (lists_beside s U B) (tm s) (zones s ! z) M"
    using assms(1) by (auto simp: pmm_rep_def)
  have k: "(of_nat k :: 64 word) < 2 ^ 32" "unat (of_nat k :: 64 word) = k"
    using assms(2) by (simp_all add: word_less_nat_alt unsigned_of_nat take_bit_nat_eq_self)
  from insert_tree_ok [OF r(2) k(1), of d] assms(3) obtain m tr where
    i: "insert_tree_node (tm s) (zones s ! z) d (of_nat k) = Inr (m, tr, KERN_SUCCESS)"
    "tree_rep (lists_beside s U B) m tr (enqueue_map M (of_nat k) d)" "bt_room (tm s) - 1 \<le> bt_room m"
    by (auto simp: proom_def)
  have "tree_left_leaf m tr (of_nat k)" if "M \<noteq> Map.empty" "\<forall>j\<le>k. M (of_nat j) = None"
  proof (rule insert_tree_leaf [OF r(2) k(1) _ that(1) _ i(1)])
    show "\<forall>j\<le>of_nat k. M j = None"
    proof (intro allI impI)
      fix j :: "64 word" assume "j \<le> of_nat k"
      then have "unat j \<le> k" using k(2) by (simp add: word_le_nat_alt)
      then show "M j = None" using that(2) [rule_format, of "unat j"] by simp
    qed
  qed (use assms(3) in \<open>simp add: proom_def\<close>)
  with i r(1) assms(1) show ?thesis
    by (simp add: zone_insert_def pmm_rep_def kept_def proom_def order_leaf_def)
qed

lemma buddy_block_get_ok:
  assumes "pmm_rep s z M (u # us) B" "u \<noteq> NULL"
  shows "\<exists>s'. buddy_block_get s = Inr (s', u) \<and> pmm_rep s' z M us B \<and> kept s s' \<and> proom s \<le> proom s'"
proof -
  let ?J = "insert None (Some ` {..<length (table (used_buddy_hash_table s))})"
  let ?g = "case_option (unused_buddy_blocks_list s) ((!) (table (used_buddy_hash_table s)))"
  have r: "tree_rep (?J, ?g, case_option (u # us) B) (tm s) (zones s ! z) M"
    using assms(1) by (auto simp: pmm_rep_def lists_beside_def)
  obtain ls l where "singly_linked_list_remove_head (lists (tm s)) (?g None) = Inr (ls, l, u)"
    "tree_rep (?J, ?g(None := l), (case_option (u # us) B)(None := us)) ((tm s)\<lparr>lists := ls\<rparr>) (zones s ! z) M"
    "room ls = room (lists (tm s)) + 1"
    using tree_rep_others_remove_head [OF r, of None u us] by auto
  with assms show ?thesis
    by (auto simp: buddy_block_get_def set_lists_def pmm_rep_def lists_beside_def case_option_upd kept_def
        proom_def bt_room_def tree_room_def)
qed

lemma register_used_ok:
  assumes "pmm_rep s z M U B" "blocks s p = Some b" "p \<noteq> NULL" "in_range 1500 (start_address b)" "0 < proom s"
  defines "h \<equiv> hash_index 1500 (start_address b)"
  shows "\<exists>s'. register_used s p = Inr s' \<and> pmm_rep s' z M U (B(h := p # B h)) \<and> kept s s' \<and> proom s - 1 \<le> proom s' \<and>
    same_tree s s'"
proof -
  let ?T = "used_buddy_hash_table s"
  let ?J = "insert None (Some ` {..<length (table ?T)})"
  let ?g = "case_option (unused_buddy_blocks_list s) ((!) (table ?T))"
  have r: "tree_rep (?J, ?g, case_option U B) (tm s) (zones s ! z) M" "length (table ?T) = 1500" "table_size ?T = 1500"
    using assms(1) by (auto simp: pmm_rep_def lists_beside_def)
  obtain w where w: "hash (start_address b) 1500 = Inr w" "unat w < 1500" "h = unat w"
    using in_rangeD [OF assms(4)] by (auto simp: h_def)
  then have j: "Some h \<in> ?J" "h < length (table ?T)" using r(2) by auto
  have "0 < room (lists (tm s))" using assms(5) by (simp add: proom_def bt_room_def)
  from tree_rep_others_insert_head [OF r(1) j(1) this, of p] obtain ls l where i:
    "singly_linked_list_insert_head (lists (tm s)) (table ?T ! h) p = Inr (ls, l)"
    "tree_rep (?J, ?g(Some h := l), (case_option U B)(Some h := p # B h)) ((tm s)\<lparr>lists := ls\<rparr>) (zones s ! z) M"
    "room ls = room (lists (tm s)) - 1" by auto
  let ?s = "set_lists (s\<lparr>used_buddy_hash_table := ?T\<lparr>table := (table ?T)[h := l]\<rparr>\<rparr>) ls"
  have "register_used s p = Inr ?s"
    using assms(2,3) w i(1) r(2,3) j(2) by (simp add: register_used_def static_hash_table_insert_def insert_bucket_def)
  moreover have "pmm_rep ?s z M U (B(h := p # B h))"
    using i(2) assms(1) r(2,3) j(2)
    by (simp add: pmm_rep_def lists_beside_def set_lists_def case_option_upd nth_fun_upd)
  moreover have "proom s - 1 \<le> proom ?s" using i(3) by (auto simp: proom_def set_lists_def bt_room_def tree_room_def)
  ultimately show ?thesis by (auto simp: kept_def set_lists_def same_tree_def)
qed

section \<open>Splitting\<close>

text \<open>The two halves of a block of order \<open>Suc n\<close>: the block itself and the block object \<open>u\<close> for its buddy.\<close>

definition half :: "buddy_block \<Rightarrow> nat \<Rightarrow> addr \<Rightarrow> buddy_block" where
  "half b n u = b\<lparr>bnext := u, order := of_nat n\<rparr>"

definition buddy_of :: "buddy_block \<Rightarrow> nat \<Rightarrow> buddy_block \<Rightarrow> buddy_block" where
  "buddy_of b n c = c\<lparr>bnext := bnext b, order := of_nat n, start_address := start_address b + 2 ^ n * PAGE_SIZE,
     bzone := bzone b, is_free := FREE, block_flags := block_flags c OR IN_TREE_FLAG\<rparr>"

lemma order_pred: "order b = of_nat (Suc n) \<Longrightarrow> n < 10 \<Longrightarrow> order b - 1 = of_nat n \<and> unat (order b) = Suc n \<and> unat (of_nat n :: 8 word) = n"
  by (simp add: unsigned_of_nat take_bit_nat_eq_self unat_word_ariths)

lemma buddy_split_ok:
  assumes rep: "pmm_rep s z M (u # us) B" and room: "0 < proom s" and b: "blocks s p = Some b" "p \<noteq> NULL"
    and u: "u \<noteq> NULL" "u \<noteq> p" "blocks s u = Some c"
    and o: "order b = of_nat (Suc n)" "n < 10"
    and f: "block_flags b AND IN_TREE_FLAG = 0" "is_free b \<noteq> USED" "unat (bzone b) = z"
  shows "\<exists>s'. buddy_split s p = Inr (s', p) \<and> pmm_rep s' z (enqueue_map M (of_nat n) u) us B \<and>
    blocks s' = (blocks s)(p \<mapsto> half b n u, u \<mapsto> buddy_of b n c) \<and> total_allocated s' = total_allocated s \<and>
    proom s - 1 \<le> proom s' \<and> (M \<noteq> Map.empty \<longrightarrow> (\<forall>k\<le>n. M (of_nat k) = None) \<longrightarrow> order_leaf s' z n)"
proof -
  have o': "order b - 1 = of_nat n" "unat (order b) = Suc n" "unat (of_nat n :: 8 word) = n" "order b \<noteq> 0"
    using order_pred [OF o] by (auto simp: word_unat_eq_iff)
  obtain s1 where s1: "buddy_block_get s = Inr (s1, u)" "pmm_rep s1 z M us B" "kept s s1" "proom s \<le> proom s1"
    using buddy_block_get_ok [OF rep u(1)] by blast
  let ?m = "(blocks s)(p \<mapsto> half b n u, u \<mapsto> buddy_of b n c)"
  obtain s2 where s2: "zone_insert (s1\<lparr>blocks := ?m\<rparr>) z u n = Inr (s2, KERN_SUCCESS)"
    "pmm_rep s2 z (enqueue_map M (of_nat n) u) us B" "kept (s1\<lparr>blocks := ?m\<rparr>) s2" "proom s1 - 1 \<le> proom s2"
    "M \<noteq> Map.empty \<longrightarrow> (\<forall>k\<le>n. M (of_nat k) = None) \<longrightarrow> order_leaf s2 z n"
    using zone_insert_ok [of "s1\<lparr>blocks := ?m\<rparr>" z M us B n u] s1(2,4) room o(2) by auto
  have m: "blocks s1 = blocks s" using s1(3) by (simp add: kept_def)
  have eq: "(blocks s)(u \<mapsto> c\<lparr>bnext := bnext b\<rparr>, p \<mapsto> half b n u, u \<mapsto> buddy_of b n c) = ?m"
    using u(2) by (auto simp: fun_eq_iff)
  have "buddy_split s p = bindR (zone_insert (s1\<lparr>blocks := ?m\<rparr>) z u n) (\<lambda>(s, ret).
      if ret = KERN_SUCCESS then Inr (s, p) else Inl (Panic ''NULL''))"
    using b u f o o' s1(1) m eq
    by (simp add: buddy_split_def half_def buddy_of_def push_bit_of_1 del: fun_upd_apply)
       (simp add: fun_upd_twist fun_upd_other)
  then have "buddy_split s p = Inr (s2, p)" using s2(1) by simp
  with s1 s2 show ?thesis by (auto simp: kept_def)
qed

text \<open>
  Splitting \<open>d\<close> times down to order \<open>i\<close>, on the block objects and on the tree. The object \<open>U ! m\<close> becomes the
  buddy of order \<open>i + d - 1 - m\<close>.
\<close>

fun split_blocks :: "(addr \<rightharpoonup> buddy_block) \<Rightarrow> addr \<Rightarrow> nat \<Rightarrow> nat \<Rightarrow> addr list \<Rightarrow> (addr \<rightharpoonup> buddy_block)" where
  "split_blocks m p i (Suc d) (u # us) =
     split_blocks (m(p \<mapsto> half (the (m p)) (i + d) u, u \<mapsto> buddy_of (the (m p)) (i + d) (the (m u)))) p i d us"
| "split_blocks m p i _ _ = m"

fun file_buddies :: "(64 word \<rightharpoonup> addr list) \<Rightarrow> nat \<Rightarrow> nat \<Rightarrow> addr list \<Rightarrow> (64 word \<rightharpoonup> addr list)" where
  "file_buddies M i (Suc d) (u # us) = file_buddies (M(of_nat (i + d) \<mapsto> [u])) i d us"
| "file_buddies M i _ _ = M"

lemma of_nat_inj64: "a < 2 ^ 32 \<Longrightarrow> b < 2 ^ 32 \<Longrightarrow> (of_nat a :: 64 word) = of_nat b \<longleftrightarrow> a = b"
  by (simp add: word_unat_eq_iff unsigned_of_nat take_bit_nat_eq_self)

lemma split_until_ok:
  assumes "pmm_rep s z M U B" "d \<le> length U" "distinct U" "NULL \<notin> set U" "p \<notin> set U" "\<forall>u\<in>set U. \<exists>c. blocks s u = Some c"
    and "blocks s p = Some b" "p \<noteq> NULL" "order b = of_nat (i + d)" "i + d \<le> 10"
    and "block_flags b AND IN_TREE_FLAG = 0" "is_free b \<noteq> USED" "unat (bzone b) = z"
    and "d \<le> proom s" "d < fuel" "\<forall>k. i \<le> k \<and> k < i + d \<longrightarrow> M (of_nat k) = None"
  shows "\<exists>s'. split_until fuel s i p = Inr (s', p) \<and> pmm_rep s' z (file_buddies M i d U) (drop d U) B \<and>
    blocks s' = split_blocks (blocks s) p i d U \<and> total_allocated s' = total_allocated s \<and> proom s - d \<le> proom s' \<and>
    (0 < d \<longrightarrow> M \<noteq> Map.empty \<longrightarrow> (\<forall>k<i. M (of_nat k) = None) \<longrightarrow> order_leaf s' z i)"
  using assms
proof (induction d arbitrary: s M U b fuel)
  case 0
  then obtain f where "fuel = Suc f" by (cases fuel) auto
  with 0 show ?case by (auto simp: unsigned_of_nat take_bit_nat_eq_self)
next
  case (Suc d)
  obtain u us where U: "U = u # us" using Suc.prems(2) by (cases U) auto
  obtain f where fuel: "fuel = Suc f" using Suc.prems(15) by (cases fuel) auto
  obtain c where c: "blocks s u = Some c" using Suc.prems(6) U by auto
  have un: "u \<noteq> NULL" "u \<noteq> p" "u \<notin> set us" "p \<notin> set us" using Suc.prems(3,4,5) U by auto
  have o: "order b = of_nat (Suc (i + d))" "i + d < 10" using Suc.prems(9,10) by auto
  have room: "0 < proom s" using Suc.prems(14) by simp
  obtain s1 where s1: "buddy_split s p = Inr (s1, p)" "pmm_rep s1 z (enqueue_map M (of_nat (i + d)) u) us B"
    "blocks s1 = (blocks s)(p \<mapsto> half b (i + d) u, u \<mapsto> buddy_of b (i + d) c)"
    "total_allocated s1 = total_allocated s" "proom s - 1 \<le> proom s1"
    "M \<noteq> Map.empty \<longrightarrow> (\<forall>k\<le>i + d. M (of_nat k) = None) \<longrightarrow> order_leaf s1 z (i + d)"
    using buddy_split_ok [OF Suc.prems(1) [unfolded U] room Suc.prems(7,8) un(1,2) c o Suc.prems(11,12,13)] by blast
  have M': "enqueue_map M (of_nat (i + d)) u = M(of_nat (i + d) \<mapsto> [u])"
  proof -
    have "M (of_nat (i + d)) = None" by (rule Suc.prems(16) [rule_format]) simp
    then show ?thesis by (simp add: enqueue_map_def del: of_nat_add)
  qed
  let ?b = "half b (i + d) u"
  have h: "order ?b = of_nat (i + d)" "block_flags ?b = block_flags b" "is_free ?b = is_free b" "bzone ?b = bzone b"
    by (simp_all add: half_def)
  have none: "\<forall>k. i \<le> k \<and> k < i + d \<longrightarrow> (M(of_nat (i + d) \<mapsto> [u])) (of_nat k) = None"
  proof (intro allI impI)
    fix k assume k: "i \<le> k \<and> k < i + d"
    then have "(of_nat k :: 64 word) \<noteq> of_nat (i + d)" using of_nat_inj64 [of k "i + d"] o(2) by simp
    moreover have "M (of_nat k) = None" using Suc.prems(16) k by simp
    ultimately show "(M(of_nat (i + d) \<mapsto> [u])) (of_nat k) = None" by (simp del: of_nat_add)
  qed
  have "\<exists>s'. split_until f s1 i p = Inr (s', p) \<and> pmm_rep s' z (file_buddies (M(of_nat (i + d) \<mapsto> [u])) i d us) (drop d us) B \<and>
    blocks s' = split_blocks (blocks s1) p i d us \<and> total_allocated s' = total_allocated s1 \<and> proom s1 - d \<le> proom s' \<and>
    (0 < d \<longrightarrow> M(of_nat (i + d) \<mapsto> [u]) \<noteq> Map.empty \<longrightarrow>
      (\<forall>k<i. (M(of_nat (i + d) \<mapsto> [u])) (of_nat k) = None) \<longrightarrow> order_leaf s' z i)"
  proof (rule Suc.IH [of s1 _ us "?b"])
    show "pmm_rep s1 z (M(of_nat (i + d) \<mapsto> [u])) us B" using s1(2) unfolding M' .
    show "\<forall>v\<in>set us. \<exists>c. blocks s1 v = Some c" using Suc.prems(6) U s1(3) by auto
    show "blocks s1 p = Some ?b" using s1(3) un(2) by simp
    show "d \<le> proom s1" using Suc.prems(14) s1(5) by linarith
    show "d \<le> length us" "distinct us" "NULL \<notin> set us" "p \<notin> set us" using Suc.prems(2,3,4,5) U by auto
    show "d < f" using Suc.prems(15) fuel by simp
    show "p \<noteq> NULL" by (rule Suc.prems(8))
    show "order ?b = of_nat (i + d)" "block_flags ?b AND IN_TREE_FLAG = 0" "is_free ?b \<noteq> USED" "unat (bzone ?b) = z"
      using h Suc.prems(11,12,13) by metis+
    show "i + d \<le> 10" using o(2) by simp
    show "\<forall>k. i \<le> k \<and> k < i + d \<longrightarrow> (M(of_nat (i + d) \<mapsto> [u])) (of_nat k) = None" by (rule none)
  qed
  then obtain s' where s': "split_until f s1 i p = Inr (s', p)"
    "pmm_rep s' z (file_buddies (M(of_nat (i + d) \<mapsto> [u])) i d us) (drop d us) B"
    "blocks s' = split_blocks (blocks s1) p i d us" "total_allocated s' = total_allocated s1" "proom s1 - d \<le> proom s'"
    "0 < d \<longrightarrow> M(of_nat (i + d) \<mapsto> [u]) \<noteq> Map.empty \<longrightarrow>
      (\<forall>k<i. (M(of_nat (i + d) \<mapsto> [u])) (of_nat k) = None) \<longrightarrow> order_leaf s' z i"
    by blast
  have "unat (order b) = Suc (i + d)" using order_pred [OF o] by simp
  then have "split_until fuel s i p = Inr (s', p)"
    using Suc.prems(7,8) fuel s1(1) s'(1) o(2) by simp
  moreover have "order_leaf s' z i" if "M \<noteq> Map.empty" "\<forall>k<i. M (of_nat k) = None"
  proof (cases "d = 0")
    case True
    obtain g where "f = Suc g" using Suc.prems(15) fuel by (cases f) auto
    then have "s' = s1" using s'(1) True s1(3) un(2) h(1) o(2) Suc.prems(8)
      by (simp add: unsigned_of_nat take_bit_nat_eq_self)
    moreover have "\<forall>k\<le>i. M (of_nat k) = None"
      using that(2) Suc.prems(16) True by (auto simp: le_less)
    ultimately show ?thesis using s1(6) that(1) True by simp
  next
    case False
    have "(M(of_nat (i + d) \<mapsto> [u])) (of_nat k) = None" if "k < i" for k
      using of_nat_inj64 [of k "i + d"] that \<open>\<forall>k<i. M (of_nat k) = None\<close> o(2) by (simp del: of_nat_add)
    moreover have "M(of_nat (i + d) \<mapsto> [u]) \<noteq> Map.empty" by (metis fun_upd_same option.distinct(1))
    ultimately show ?thesis using s'(6) False by blast
  qed
  ultimately show ?case using s' s1 U c Suc.prems(7) by auto
qed

lemma file_buddies_at:
  "d \<le> length U \<Longrightarrow> i + d < 2 ^ 32 \<Longrightarrow> k < 2 ^ 32 \<Longrightarrow>
    file_buddies M i d U (of_nat k) = (if i \<le> k \<and> k < i + d then Some [U ! (i + d - 1 - k)] else M (of_nat k))"
proof (induction M i d U rule: file_buddies.induct)
  case (1 M i d u us)
  let ?M = "M(of_nat (i + d) \<mapsto> [u])"
  have IH: "file_buddies ?M i d us (of_nat k) = (if i \<le> k \<and> k < i + d then Some [us ! (i + d - 1 - k)] else ?M (of_nat k))"
    by (rule "1.IH") (use "1.prems" in simp_all)
  have M: "?M (of_nat k) = (if k = i + d then Some [u] else M (of_nat k))"
    using of_nat_inj64 [of k "i + d"] "1.prems" by (simp del: of_nat_add)
  have "i \<le> k \<Longrightarrow> k < i + d \<Longrightarrow> (u # us) ! (i + Suc d - 1 - k) = us ! (i + d - 1 - k)"
    by (simp add: nth_Cons')
  then show ?case unfolding file_buddies.simps IH M by auto
qed auto

lemma split_blocks_other: "a \<noteq> p \<Longrightarrow> a \<notin> set U \<Longrightarrow> split_blocks m p i d U a = m a"
  by (induction m p i d U rule: split_blocks.induct) auto

text \<open>Every field the splits write in the block that is handed out and in the buddies it leaves behind.\<close>

lemma split_blocks_self:
  "m p = Some b \<Longrightarrow> p \<notin> set U \<Longrightarrow> d \<le> length U \<Longrightarrow> order b = of_nat (i + d) \<Longrightarrow>
    \<exists>b'. split_blocks m p i d U p = Some b' \<and> order b' = of_nat i \<and> start_address b' = start_address b \<and>
      is_free b' = is_free b \<and> bzone b' = bzone b \<and> block_flags b' = block_flags b"
proof (induction m p i d U arbitrary: b rule: split_blocks.induct)
  case (1 m p i d u us)
  let ?b = "half b (i + d) u"
  let ?m = "m(p \<mapsto> half (the (m p)) (i + d) u, u \<mapsto> buddy_of (the (m p)) (i + d) (the (m u)))"
  have "\<exists>b'. split_blocks ?m p i d us p = Some b' \<and> order b' = of_nat i \<and> start_address b' = start_address ?b \<and>
      is_free b' = is_free ?b \<and> bzone b' = bzone ?b \<and> block_flags b' = block_flags ?b"
    by (rule "1.IH") (use "1.prems" in \<open>auto simp: half_def\<close>)
  then show ?case by (simp add: half_def)
qed auto

definition is_buddy :: "buddy_block \<Rightarrow> nat \<Rightarrow> buddy_block \<Rightarrow> bool" where
  "is_buddy b n c \<longleftrightarrow> order c = of_nat n \<and> start_address c = start_address b + 2 ^ n * PAGE_SIZE \<and> is_free c = FREE \<and>
     bzone c = bzone b"

lemma is_buddy_of [simp]: "is_buddy b n (buddy_of b n c)"
  by (simp add: is_buddy_def buddy_of_def)

lemma is_buddy_half [simp]: "is_buddy (half b k u) n c = is_buddy b n c"
  by (simp add: is_buddy_def half_def)

lemma split_blocks_buddy:
  "m p = Some b \<Longrightarrow> p \<notin> set U \<Longrightarrow> distinct U \<Longrightarrow> d \<le> length U \<Longrightarrow> k < d \<Longrightarrow>
    \<exists>c. split_blocks m p i d U (U ! (d - 1 - k)) = Some c \<and> is_buddy b (i + k) c"
proof (induction m p i d U arbitrary: b rule: split_blocks.induct)
  case (1 m p i d u us)
  let ?m = "m(p \<mapsto> half (the (m p)) (i + d) u, u \<mapsto> buddy_of (the (m p)) (i + d) (the (m u)))"
  show ?case
  proof (cases "k = d")
    case True
    then show ?thesis using "1.prems" by (simp add: split_blocks_other)
  next
    case False
    then have "\<exists>c. split_blocks ?m p i d us (us ! (d - 1 - k)) = Some c \<and> is_buddy (half b (i + d) u) (i + k) c"
      by (intro "1.IH") (use "1.prems" in auto)
    then show ?thesis using False "1.prems"(5) by (simp add: nth_Cons')
  qed
qed auto

section \<open>Allocation\<close>

text \<open>What an allocation of order \<open>i\<close> from a free block \<open>p\<close> of order \<open>i + d\<close> needs of the state.\<close>

definition alloc_ready :: "pmm \<Rightarrow> nat \<Rightarrow> (64 word \<rightharpoonup> addr list) \<Rightarrow> addr list \<Rightarrow> nat \<Rightarrow> nat \<Rightarrow> addr \<Rightarrow> buddy_block \<Rightarrow> bool" where
  "alloc_ready s z M U i d p b \<longleftrightarrow>
     d \<le> length U \<and> distinct U \<and> NULL \<notin> set U \<and> p \<notin> set U \<and> (\<forall>u\<in>set U. \<exists>c. blocks s u = Some c) \<and>
     blocks s p = Some b \<and> p \<noteq> NULL \<and> order b = of_nat (i + d) \<and> i + d \<le> MAX_ORDER \<and> start_address b \<noteq> 0 \<and>
     is_free b \<noteq> USED \<and> unat (bzone b) = z \<and> in_range 1500 (start_address b) \<and>
     (\<forall>k. i \<le> k \<and> k < i + d \<longrightarrow> M (of_nat k) = None) \<and> d < proom s"

abbreviation (input) out_of_tree :: "buddy_block \<Rightarrow> buddy_block" where
  "out_of_tree b \<equiv> b\<lparr>block_flags := block_flags b AND NOT IN_TREE_FLAG\<rparr>"

lemma clear_in_tree_ok:
  "blocks s p = Some b \<Longrightarrow> p \<noteq> NULL \<Longrightarrow> clear_in_tree s p = Inr (s\<lparr>blocks := (blocks s)(p \<mapsto> out_of_tree b)\<rparr>)"
  by (simp add: clear_in_tree_def modify_def)

lemma alloc_ready_order: "alloc_ready s z M U i d p b \<Longrightarrow> unat (order b) = i + d"
  by (simp add: alloc_ready_def unsigned_of_nat take_bit_nat_eq_self del: of_nat_add)

text \<open>A larger block: it is taken out of the tree, split down to order \<open>i\<close> and registered.\<close>

lemma split_and_register:
  assumes rep: "pmm_rep s z M U B" and r: "alloc_ready s z M U i d p b"
  defines "h \<equiv> hash_index 1500 (start_address b)"
  shows "\<exists>s'. bindR (clear_in_tree s p) (\<lambda>s. bindR (split_until (MAX_ORDER + 1) s i p) (\<lambda>(s, p).
      bindR (register_used s p) (\<lambda>s. Inr (s, p)))) = Inr (s', p) \<and>
    pmm_rep s' z (file_buddies M i d U) (drop d U) (B(h := p # B h)) \<and>
    blocks s' = split_blocks ((blocks s)(p \<mapsto> out_of_tree b)) p i d U \<and> total_allocated s' = total_allocated s \<and>
    proom s - Suc d \<le> proom s' \<and> (0 < d \<longrightarrow> M \<noteq> Map.empty \<longrightarrow> (\<forall>k<i. M (of_nat k) = None) \<longrightarrow> order_leaf s' z i)"
proof -
  let ?b = "out_of_tree b"
  let ?m = "(blocks s)(p \<mapsto> ?b)"
  have "pmm_rep (s\<lparr>blocks := ?m\<rparr>) z M U B" using rep by simp
  moreover have "block_flags ?b AND IN_TREE_FLAG = 0" by (simp add: and.assoc)
  moreover have "\<forall>u\<in>set U. \<exists>c. ?m u = Some c" using r by (auto simp: alloc_ready_def)
  ultimately obtain s1 where s1: "split_until (MAX_ORDER + 1) (s\<lparr>blocks := ?m\<rparr>) i p = Inr (s1, p)"
    "pmm_rep s1 z (file_buddies M i d U) (drop d U) B" "blocks s1 = split_blocks ?m p i d U"
    "total_allocated s1 = total_allocated s" "proom s - d \<le> proom s1"
    "0 < d \<longrightarrow> M \<noteq> Map.empty \<longrightarrow> (\<forall>k<i. M (of_nat k) = None) \<longrightarrow> order_leaf s1 z i"
    using split_until_ok [of "s\<lparr>blocks := ?m\<rparr>" z M U B d p ?b i "MAX_ORDER + 1"] r
    unfolding alloc_ready_def by (simp del: of_nat_add fun_upd_apply) (simp, blast)
  have "\<exists>b'. blocks s1 p = Some b' \<and> start_address b' = start_address b"
    using split_blocks_self [of ?m p ?b U d i] s1(3) r unfolding alloc_ready_def by fastforce
  then obtain b' where b': "blocks s1 p = Some b'" "start_address b' = start_address b" by blast
  have "0 < proom s1" using s1(5) r unfolding alloc_ready_def by linarith
  then obtain s2 where s2: "register_used s1 p = Inr s2"
    "pmm_rep s2 z (file_buddies M i d U) (drop d U) (B(h := p # B h))" "kept s1 s2" "proom s1 - 1 \<le> proom s2"
    "same_tree s1 s2"
    using register_used_ok [OF s1(2) b'(1)] r b'(2) unfolding alloc_ready_def h_def by auto
  have "clear_in_tree s p = Inr (s\<lparr>blocks := ?m\<rparr>)"
    using r by (intro clear_in_tree_ok) (auto simp: alloc_ready_def)
  moreover have "proom s - Suc d \<le> proom s2" using s1(5) s2(4) by linarith
  ultimately show ?thesis using s1 s2 order_leaf_same [OF s2(5)] by (auto simp: kept_def)
qed

lemma alloc_ready_step:
  "alloc_ready s z M U i d p b \<Longrightarrow> kept s s' \<Longrightarrow> proom s \<le> proom s' \<Longrightarrow> (\<And>k. i \<le> k \<Longrightarrow> k < i + d \<Longrightarrow> M' (of_nat k) = M (of_nat k)) \<Longrightarrow>
    alloc_ready s' z M' U i d p b"
  by (auto simp: alloc_ready_def kept_def)

lemma alloc_larger_skips:
  assumes "pmm_rep s z M U B" "idx \<le> n" "n \<le> MAX_ORDER" "\<forall>k. idx \<le> k \<and> k < n \<longrightarrow> M (of_nat k) = None" "n - idx \<le> fuel"
  shows "alloc_larger fuel s z i idx = alloc_larger (fuel - (n - idx)) s z i n"
  using assms(2-5)
proof (induction fuel arbitrary: idx)
  case (Suc fuel)
  show ?case
  proof (cases "idx = n")
    case False
    then have "M (of_nat idx) = None" "idx < n" using Suc.prems(1,3) by auto
    moreover have "alloc_larger fuel s z i (idx + 1) = alloc_larger (fuel - (n - (idx + 1))) s z i n"
      by (rule Suc.IH) (use Suc.prems calculation(2) in auto)
    ultimately show ?thesis using zone_take_missing [OF assms(1)] Suc.prems(2) by (simp add: Suc_diff_Suc)
  qed simp
qed simp

text \<open>What an allocation of order \<open>i\<close> that splits \<open>d\<close> times leaves behind.\<close>

definition alloc_done :: "pmm \<Rightarrow> nat \<Rightarrow> (64 word \<rightharpoonup> addr list) \<Rightarrow> addr list \<Rightarrow> (nat \<Rightarrow> addr list) \<Rightarrow> nat \<Rightarrow> nat \<Rightarrow> addr \<Rightarrow>
    buddy_block \<Rightarrow> pmm \<Rightarrow> bool" where
  "alloc_done s z M1 U B i d p b s' \<longleftrightarrow>
     pmm_rep s' z (file_buddies M1 i d U) (drop d U)
       (B(hash_index 1500 (start_address b) := p # B (hash_index 1500 (start_address b)))) \<and>
     blocks s' = split_blocks ((blocks s)(p \<mapsto> out_of_tree b)) p i d U \<and> total_allocated s' = total_allocated s \<and>
     proom s - Suc d \<le> proom s' \<and> (0 < d \<longrightarrow> (\<forall>k<i. M1 (of_nat k) = None) \<longrightarrow> order_leaf s' z i)"

lemma alloc_larger_ok:
  assumes "pmm_rep s z M U B" "alloc_ready s z M U i (Suc d) p b" "M (of_nat (i + Suc d)) = Some (p # ys)"
    and "takeable s z (i + Suc d) ys" "d < fuel"
  shows "\<exists>s'. alloc_larger fuel s z i (i + 1) = Inr (s', p) \<and>
    alloc_done s z (M(of_nat (i + Suc d) := rest_of ys)) U B i (Suc d) p b s'"
proof -
  let ?n = "i + Suc d"
  let ?M1 = "M(of_nat ?n := rest_of ys)"
  have top: "?n \<le> 10" "p \<noteq> NULL" "start_address b \<noteq> 0" "blocks s p = Some b" using assms(2) by (auto simp: alloc_ready_def)
  have ord: "unat (order b) = ?n" by (rule alloc_ready_order [OF assms(2)])
  have "alloc_larger fuel s z i (i + 1) = alloc_larger (fuel - (?n - (i + 1))) s z i ?n"
    by (rule alloc_larger_skips [OF assms(1)]) (use assms(2,5) in \<open>auto simp: alloc_ready_def\<close>)
  moreover obtain f where "fuel - (?n - (i + 1)) = Suc f" using assms(5) by (cases "fuel - (?n - (i + 1))") auto
  moreover obtain s1 where s1: "zone_take s z ?n = Inr (s1, p)" "pmm_rep s1 z ?M1 U B" "kept s s1" "proom s \<le> proom s1"
    using zone_take_first [OF assms(1,3,4)] by blast
  moreover have k1: "blocks s1 = blocks s" "total_allocated s1 = total_allocated s" using s1(3) by (auto simp: kept_def)
  ultimately have run: "alloc_larger fuel s z i (i + 1) = bindR (clear_in_tree s1 p) (\<lambda>s. bindR (split_until (MAX_ORDER + 1) s i p)
      (\<lambda>(s, p). bindR (register_used s p) (\<lambda>s. Inr (s, p))))"
    using top ord by simp
  have "?M1 (of_nat k) = M (of_nat k)" if "i \<le> k" "k < ?n" for k
    using of_nat_inj64 [of k ?n] that top(1) by (simp del: of_nat_add of_nat_Suc)
  then have "alloc_ready s1 z ?M1 U i (Suc d) p b" using alloc_ready_step [OF assms(2) s1(3,4)] by blast
  from split_and_register [OF s1(2) this] obtain s2 where s2: "bindR (clear_in_tree s1 p) (\<lambda>s. bindR (split_until (MAX_ORDER + 1) s i p)
      (\<lambda>(s, p). bindR (register_used s p) (\<lambda>s. Inr (s, p)))) = Inr (s2, p)"
    "pmm_rep s2 z (file_buddies ?M1 i (Suc d) U) (drop (Suc d) U)
      (B(hash_index 1500 (start_address b) := p # B (hash_index 1500 (start_address b))))"
    "blocks s2 = split_blocks ((blocks s)(p \<mapsto> out_of_tree b)) p i (Suc d) U" "total_allocated s2 = total_allocated s"
    "proom s1 - Suc (Suc d) \<le> proom s2" "?M1 \<noteq> Map.empty \<longrightarrow> (\<forall>k<i. ?M1 (of_nat k) = None) \<longrightarrow> order_leaf s2 z i"
    unfolding k1 by blast
  have "proom s - Suc (Suc d) \<le> proom s2" using s1(4) s2(5) by linarith
  moreover have "?M1 \<noteq> Map.empty" by (rule take_leaves_some [OF assms(1,3,4)])
  ultimately have "alloc_done s z ?M1 U B i (Suc d) p b s2" using s2(2-4,6) unfolding alloc_done_def by blast
  with run s2(1) show ?thesis by metis
qed

lemma alloc_order_ok:
  assumes "pmm_rep s z M U B" "alloc_ready s z M U i d p b" "M (of_nat (i + d)) = Some (p # ys)" "takeable s z (i + d) ys" "d < fuel"
  shows "\<exists>s'. alloc_order fuel s z i = Inr (s', p) \<and> alloc_done s z (M(of_nat (i + d) := rest_of ys)) U B i d p b s'"
proof (cases d)
  case 0
  let ?M1 = "M(of_nat i := rest_of ys)"
  let ?h = "hash_index 1500 (start_address b)"
  have r: "p \<noteq> NULL" "in_range 1500 (start_address b)" "0 < proom s" using assms(2) by (auto simp: alloc_ready_def)
  obtain s1 where s1: "zone_take s z i = Inr (s1, p)" "pmm_rep s1 z ?M1 U B" "kept s s1" "proom s \<le> proom s1"
    using zone_take_first [OF assms(1), of i p ys] assms(3,4) 0 by auto
  have b: "blocks s1 p = Some b" using assms(2) s1(3) by (simp add: alloc_ready_def kept_def)
  obtain s2 where s2: "register_used s1 p = Inr s2" "pmm_rep s2 z ?M1 U (B(?h := p # B ?h))" "kept s1 s2" "proom s1 - 1 \<le> proom s2"
    using register_used_ok [OF s1(2) b r(1,2)] r(3) s1(4) by auto
  have b2: "blocks s2 p = Some b" "blocks s2 = blocks s" "total_allocated s2 = total_allocated s"
    using b s1(3) s2(3) by (auto simp: kept_def)
  have "proom s - 1 \<le> proom s2" using s1(4) s2(4) by linarith
  then show ?thesis
    using s1(1) s2(1,2) r(1) b2 0 clear_in_tree_ok [OF b2(1) r(1)]
    by (simp add: alloc_order_def alloc_done_def del: fun_upd_apply)
next
  case (Suc e)
  have "M (of_nat i) = None" using assms(2) Suc unfolding alloc_ready_def by simp
  then have "alloc_order fuel s z i = alloc_larger fuel s z i (i + 1)"
    using zone_take_missing [OF assms(1)] by (simp add: alloc_order_def)
  then show ?thesis using alloc_larger_ok [OF assms(1), of i e p b ys fuel] assms(2-5) Suc by simp
qed

lemma alloc_scan_at:
  assumes "alloc_order fuel s z i = Inr (s', p)" "p \<noteq> NULL" "i < 64"
  shows "\<forall>k\<in>set xs. k < i \<Longrightarrow> alloc_scan fuel s z (2 ^ i) (xs @ i # ys) = Inr (s', p)"
proof (induction xs)
  case Nil
  then show ?case using assms by simp
next
  case (Cons k xs)
  have "(2 :: 64 word) ^ i \<noteq> 2 ^ k"
  proof
    assume "(2 :: 64 word) ^ i = 2 ^ k"
    then have "unat ((2 :: 64 word) ^ i) = unat ((2 :: 64 word) ^ k)" by simp
    with Cons.prems assms(3) show False by (simp add: unat_exp)
  qed
  with Cons show ?case by simp
qed

lemma buddy_alloc_ok:
  assumes "pmm_rep s z M U B" "alloc_ready s z M U i d p b" "M (of_nat (i + d)) = Some (p # ys)" "takeable s z (i + d) ys" "d < fuel"
    and "pages \<le> 1024" "round_pages pages = 2 ^ i" "i < 10"
  shows "buddy_alloc fuel s pages z = alloc_order fuel s z i"
proof -
  obtain s' where s': "alloc_order fuel s z i = Inr (s', p)" using alloc_order_ok [OF assms(1-5)] by blast
  moreover have "[0..<10] = [0..<i] @ i # [Suc i..<10]"
    using upt_add_eq_append [of 0 i "10 - i"] upt_conv_Cons [OF assms(8)] assms(8) by simp
  moreover have "p \<noteq> NULL" using assms(2) by (simp add: alloc_ready_def)
  ultimately have "alloc_scan fuel s z (2 ^ i) [0..<10] = Inr (s', p)"
    using alloc_scan_at [OF s'] assms(8) by simp
  with assms(6,7) s' show ?thesis by (simp add: buddy_alloc_def push_bit_of_1 linorder_not_less [symmetric])
qed

lemma phys_alloc_ok:
  assumes "pmm_rep s z M U B" "alloc_ready s z M U i d p b" "M (of_nat (i + d)) = Some (p # ys)" "takeable s z (i + d) ys" "d < fuel"
    and "pages \<le> 1024" "round_pages pages = 2 ^ i" "i < 10"
  defines "h \<equiv> hash_index 1500 (start_address b)" and "M1 \<equiv> M(of_nat (i + d) := rest_of ys)"
    and "m \<equiv> split_blocks ((blocks s)(p \<mapsto> out_of_tree b)) p i d U"
  shows "\<exists>s' b'. phys_alloc fuel s pages z = Inr (s', start_address b) \<and>
    pmm_rep s' z (file_buddies M1 i d U) (drop d U) (B(h := p # B h)) \<and>
    m p = Some b' \<and> order b' = of_nat i \<and> start_address b' = start_address b \<and> bzone b' = bzone b \<and>
    blocks s' = m(p \<mapsto> b'\<lparr>is_free := USED\<rparr>) \<and> total_allocated s' = total_allocated s + 2 ^ i \<and>
    proom s - Suc d \<le> proom s' \<and> (0 < d \<longrightarrow> (\<forall>k<i. M1 (of_nat k) = None) \<longrightarrow> order_leaf s' z i)"
proof -
  obtain s' where s': "alloc_order fuel s z i = Inr (s', p)" "alloc_done s z M1 U B i d p b s'"
    using alloc_order_ok [OF assms(1-5)] unfolding M1_def by blast
  have p: "p \<noteq> NULL" using assms(2) by (simp add: alloc_ready_def)
  have "\<exists>b'. m p = Some b' \<and> order b' = of_nat i \<and> start_address b' = start_address b \<and> bzone b' = bzone b"
    using split_blocks_self [of "(blocks s)(p \<mapsto> out_of_tree b)" p "out_of_tree b" U d i] assms(2)
    unfolding alloc_ready_def m_def by fastforce
  then obtain b' where b': "m p = Some b'" "order b' = of_nat i" "start_address b' = start_address b" "bzone b' = bzone b" by blast
  have o: "unat (order b') = i" using b'(2) assms(8) by (simp add: unsigned_of_nat take_bit_nat_eq_self)
  have "blocks s' = m" "total_allocated s' = total_allocated s" using s'(2) by (simp_all add: alloc_done_def m_def)
  then show ?thesis
    using buddy_alloc_ok [OF assms(1-8)] s' p b' o
    by (simp add: phys_alloc_def push_bit_of_1 modify_def alloc_done_def h_def)
qed

section \<open>Deallocation\<close>

text \<open>A block at the head of its bucket is found, unregistered and marked free before it is coalesced.\<close>

lemma phys_dealloc_unregisters:
  assumes "pmm_rep s z M U B" "blocks s p = Some b" "p \<noteq> NULL" "in_range 1500 (start_address b)"
    and "B (hash_index 1500 (start_address b)) = p # rest"
  defines "h \<equiv> hash_index 1500 (start_address b)"
  shows "\<exists>s1. phys_dealloc s (start_address b) = bindR (buddy_coalesce s1 p) (\<lambda>s. Inr (s, True)) \<and>
    pmm_rep s1 z M U (B(h := rest)) \<and> blocks s1 = (blocks s)(p \<mapsto> out_of_tree (b\<lparr>is_free := FREE\<rparr>)) \<and>
    total_allocated s1 = total_allocated s - push_bit (unat (order b)) 1 \<and> proom s \<le> proom s1 \<and> same_tree s s1"
proof -
  let ?T = "used_buddy_hash_table s"
  let ?J = "insert None (Some ` {..<length (table ?T)})"
  let ?g = "case_option (unused_buddy_blocks_list s) ((!) (table ?T))"
  have r: "tree_rep (?J, ?g, case_option U B) (tm s) (zones s ! z) M" "length (table ?T) = 1500"
    using assms(1) by (auto simp: pmm_rep_def lists_beside_def)
  obtain w where w: "hash (start_address b) 1500 = Inr w" "unat w < 1500" "h = unat w"
    using in_rangeD [OF assms(4)] by (auto simp: h_def)
  then have j: "Some h \<in> ?J" "h < length (table ?T)" "case_option U B (Some h) = p # rest"
    using r(2) assms(5) h_def by auto
  obtain K :: "addr set" and k xs where "family_in (lists (tm s)) K k xs (?J, ?g, case_option U B)"
    using tree_rep_some_family [OF r(1)] by blast
  then have f: "family (lists (tm s)) (K <+> ?J) (case_sum k ?g) (case_sum xs (case_option U B))"
    by (simp add: family_in_def)
  have in_f: "Inr (Some h) \<in> K <+> ?J" "case_sum xs (case_option U B) (Inr (Some h)) = p # rest" using j by auto
  obtain n where n: "nodes (lists (tm s)) (head (table ?T ! h)) = Some n" "head (table ?T ! h) \<noteq> NULL" "data n = p"
    and cnt: "node_count (table ?T ! h) = Suc (length rest)"
    using family_head [OF f in_f] by auto
  obtain ls l where rm: "singly_linked_list_remove_node_by_address (lists (tm s)) (table ?T ! h) p = Inr (ls, l, KERN_SUCCESS)"
    "tree_rep (?J, ?g(Some h := l), (case_option U B)(Some h := rest)) ((tm s)\<lparr>lists := ls\<rparr>) (zones s ! z) M"
    "room ls = room (lists (tm s)) + 1"
    using tree_rep_others_remove_first [OF r(1) j(1,3)] by auto
  let ?b = "out_of_tree (b\<lparr>is_free := FREE\<rparr>)"
  let ?s = "(set_lists (s\<lparr>used_buddy_hash_table := ?T\<lparr>table := (table ?T)[h := l]\<rparr>\<rparr>) ls)\<lparr>blocks := (blocks s)(p \<mapsto> ?b),
      total_allocated := total_allocated s - push_bit (unat (order b)) 1\<rparr>"
  have "phys_dealloc s (start_address b) = bindR (buddy_coalesce ?s p) (\<lambda>s. Inr (s, True))"
    using w j(2) r(2) n cnt assms(2,3) rm(1)
    by (simp add: phys_dealloc_def buddy_free_def static_hash_table_retrieve_def set_lists_def Let_def modify_def)
  moreover have "pmm_rep ?s z M U (B(h := rest))"
    using rm(2) assms(1) r(2) j(2)
    by (simp add: pmm_rep_def lists_beside_def set_lists_def case_option_upd nth_fun_upd)
  moreover have "proom s \<le> proom ?s" using rm(3) by (auto simp: proom_def set_lists_def bt_room_def tree_room_def)
  ultimately show ?thesis by (auto simp: set_lists_def same_tree_def)
qed

text \<open>
  The block object of a buddy that is filed alone under its order goes back to the unused ones, and the
  block that is freed takes the buddy's pages and place.
\<close>

definition released :: "buddy_block \<Rightarrow> buddy_block" where
  "released c = c\<lparr>is_free := ucast UNUSED, order := ucast UNUSED, bzone := UNUSED, start_address := 0, bnext := NULL,
     block_flags := STATIC_POOL_FLAG, buddy_chain_length := 0\<rparr>"

lemma buddy_block_free_ok:
  assumes "pmm_rep s z M U B" "blocks s u = Some c" "u \<noteq> NULL" "order c = of_nat i" "i < 10" "unat (bzone c) = z"
    and "block_flags c AND IN_TREE_FLAG \<noteq> 0" "block_flags c AND STATIC_POOL_FLAG \<noteq> 0"
    and "M (of_nat i) = Some [u]" "order_leaf s z i" "0 < proom s"
  shows "\<exists>s'. buddy_block_free s u = Inr s' \<and> pmm_rep s' z (M(of_nat i := None)) (u # U) B \<and>
    blocks s' = (blocks s)(u \<mapsto> released c) \<and> total_allocated s' = total_allocated s \<and> proom s - 1 \<le> proom s'"
proof -
  obtain s1 where s1: "zone_remove s z i u = Inr (s1, KERN_SUCCESS)" "pmm_rep s1 z (M(of_nat i := None)) U B" "kept s s1"
    "proom s \<le> proom s1" using zone_remove_last [OF assms(1,9,10)] by blast
  let ?J = "insert None (Some ` {..<length (table (used_buddy_hash_table s1))})"
  let ?g = "case_option (unused_buddy_blocks_list s1) ((!) (table (used_buddy_hash_table s1)))"
  have r: "tree_rep (?J, ?g, case_option U B) (tm s1) (zones s1 ! z) (M(of_nat i := None))"
    using s1(2) by (auto simp: pmm_rep_def lists_beside_def)
  have "0 < room (lists (tm s1))" using s1(4) assms(11) by (auto simp: proom_def bt_room_def min_def split: if_splits)
  from tree_rep_others_insert_head [OF r _ this, of None u] obtain ls l where h:
    "singly_linked_list_insert_head (lists (tm s1)) (unused_buddy_blocks_list s1) u = Inr (ls, l)"
    "tree_rep (?J, ?g(None := l), (case_option U B)(None := u # U)) ((tm s1)\<lparr>lists := ls\<rparr>) (zones s1 ! z) (M(of_nat i := None))"
    "room ls = room (lists (tm s1)) - 1" by auto
  let ?s = "set_lists (s1\<lparr>blocks := (blocks s)(u \<mapsto> released c), unused_buddy_blocks_list := l\<rparr>) ls"
  have o: "unat (order c) = i" using assms(4,5) by (simp add: unsigned_of_nat take_bit_nat_eq_self)
  have "blocks s1 = blocks s" using s1(3) by (simp add: kept_def)
  then have "buddy_block_free s u = Inr ?s"
    using assms(2,3,6-8) o s1(1) h(1) by (simp add: buddy_block_free_def modify_def released_def)
  moreover have "pmm_rep ?s z (M(of_nat i := None)) (u # U) B"
    using h(2) s1(2) by (simp add: pmm_rep_def lists_beside_def set_lists_def case_option_upd)
  moreover have "proom s - 1 \<le> proom ?s" using h(3) s1(4) by (auto simp: proom_def set_lists_def bt_room_def tree_room_def)
  ultimately show ?thesis using s1(3) by (auto simp: kept_def set_lists_def)
qed

lemma coalesce_merges:
  assumes "pmm_rep s z M U B" "blocks s p = Some b" "p \<noteq> NULL" "bnext b = u" "u \<noteq> NULL" "u \<noteq> p" "blocks s u = Some c"
    and "order b = of_nat i" "i < 10" "order c = order b" "is_free b = FREE" "is_free c = FREE" "bzone c = bzone b" "unat (bzone b) = z"
    and "block_flags c AND FIRST_BLOCK_FLAG = 0" "block_flags c AND IN_TREE_FLAG \<noteq> 0" "block_flags c AND STATIC_POOL_FLAG \<noteq> 0"
    and "M (of_nat i) = Some [u]" "order_leaf s z i" "2 \<le> proom s"
  shows "\<exists>s'. buddy_coalesce s p = Inr s' \<and> pmm_rep s' z (enqueue_map (M(of_nat i := None)) (of_nat (i + 1)) p) (u # U) B \<and>
    blocks s' = (blocks s)(u \<mapsto> released c,
      p \<mapsto> b\<lparr>bnext := bnext c, order := of_nat (i + 1), block_flags := block_flags b OR IN_TREE_FLAG\<rparr>) \<and>
    total_allocated s' = total_allocated s"
proof -
  have o: "unat (order b) = i" "unat (order b + 1) = i + 1" "order b + 1 = of_nat (i + 1)" "i \<noteq> 10"
    using assms(8,9) by (simp_all add: unsigned_of_nat take_bit_nat_eq_self unat_word_ariths)
  let ?b1 = "b\<lparr>bnext := bnext c, order := order b + 1\<rparr>"
  let ?s1 = "s\<lparr>blocks := (blocks s)(p \<mapsto> ?b1)\<rparr>"
  obtain s2 where s2: "buddy_block_free ?s1 u = Inr s2" "pmm_rep s2 z (M(of_nat i := None)) (u # U) B"
    "blocks s2 = (blocks s)(p \<mapsto> ?b1, u \<mapsto> released c)" "total_allocated s2 = total_allocated s" "proom s - 1 \<le> proom s2"
    using buddy_block_free_ok [of ?s1 z M U B u c i] assms by auto
  let ?b2 = "b\<lparr>bnext := bnext c, order := order b + 1, block_flags := block_flags b OR IN_TREE_FLAG\<rparr>"
  let ?s3 = "s2\<lparr>blocks := (blocks s2)(p \<mapsto> ?b2)\<rparr>"
  have "0 < proom s2" using s2(5) assms(20) by linarith
  then obtain s4 where s4: "zone_insert ?s3 z p (i + 1) = Inr (s4, KERN_SUCCESS)"
    "pmm_rep s4 z (enqueue_map (M(of_nat i := None)) (of_nat (i + 1)) p) (u # U) B" "kept ?s3 s4"
    using zone_insert_ok [of ?s3 z "M(of_nat i := None)" "u # U" B "i + 1" p] s2(2) assms(9) by auto
  have m: "(blocks s2)(p \<mapsto> ?b2) = (blocks s)(u \<mapsto> released c, p \<mapsto> ?b2)" using s2(3) assms(6) by (auto simp: fun_eq_iff)
  have "blocks s2 p = Some ?b1" using s2(3) assms(6) by simp
  then have "buddy_coalesce s p = Inr s4"
    using assms(2-7,10-15) o(1,2,4) s2(1) s4(1) by (simp add: buddy_coalesce_def modify_def)
  with s2(4) s4(2,3) m o(3) show ?thesis by (simp add: kept_def)
qed

section \<open>Properties\<close>

text \<open>
  A concrete state for the witnesses: all lists empty, a zeroed tree pool, block objects 201 and 202
  describing free blocks of order 5 and 203, 204 unused objects of the static pool.
\<close>

definition demo_block :: "64 word \<Rightarrow> buddy_block" where
  "demo_block start = blank_block\<lparr>start_address := start, order := 5, is_free := FREE, block_flags := STATIC_POOL_FLAG\<rparr>"

definition demo_pmm :: pmm where
  "demo_pmm = \<lparr>tm = demo_tmem\<lparr>tnodes := [101 \<mapsto> blank_node, 102 \<mapsto> blank_node, 103 \<mapsto> blank_node, 104 \<mapsto> blank_node,
       105 \<mapsto> blank_node, 106 \<mapsto> blank_node], tree_pool := [101, 102, 103, 104, 105, 106],
       lists := demo_mem\<lparr>kheap := [9, 10, 11, 12, 13]\<rparr>\<rparr>,
     zones = [demo_tree, demo_tree],
     blocks = [201 \<mapsto> demo_block 0x10000, 202 \<mapsto> demo_block 0x30000,
       203 \<mapsto> blank_block\<lparr>block_flags := STATIC_POOL_FLAG\<rparr>, 204 \<mapsto> blank_block\<lparr>block_flags := STATIC_POOL_FLAG\<rparr>],
     unused_buddy_blocks_list = empty_bucket, spare_page_list = empty_bucket,
     used_buddy_hash_table = \<lparr>table = replicate 1500 empty_bucket, table_size = 1500\<rparr>,
     total_allocated = 0, block_heap = [], lowest_user_phys_addr = 0, highest_user_phys_addr = 0\<rparr>"

lemma empty_lists:
  assumes "mem_ok s fs" "\<forall>j\<in>J. g j = empty_bucket"
  shows "family_in s {} h xs (J, g, \<lambda>_. [])"
proof -
  have "live s fs (g j) []" if "j \<in> J" for j
    using assms that by (simp add: live_def sll_rep_def empty_bucket_def)
  then have "fam s fs ({} <+> J) (case_sum h g) (\<lambda>_. [])" using assms(1) by (auto simp: fam_def)
  then show ?thesis unfolding family_in_def family_def by (intro exI [of _ fs] exI [of _ "\<lambda>_. []"]) auto
qed

lemma demo_pmm_ready:
  "\<exists>s. pmm_rep s 0 [5 \<mapsto> [201, 202]] [203] (\<lambda>_. []) \<and> 4 \<le> proom s \<and> blocks s = blocks demo_pmm \<and> total_allocated s = 0"
proof -
  let ?m = "tm demo_pmm"
  let ?J = "insert None (Some ` {..<1500 :: nat})"
  let ?g = "case_option empty_bucket ((!) (replicate 1500 empty_bucket))"
  have "mem_ok (lists ?m) [1, 2]" by (simp add: demo_pmm_def demo_mem_def mem_ok_def)
  then have "family_in (lists ?m) {} (bkt ?m) (\<lambda>_. []) (?J, ?g, \<lambda>_. [])" by (rule empty_lists) auto
  then obtain m tr where i: "tree_rep (?J, ?g, \<lambda>_. []) m tr Map.empty"
    "tree_room m = length (tree_pool ?m)" "lists m = lists ?m"
    using init_tree_ok [of ?m "(?J, ?g, \<lambda>_. [])" demo_tree] demo_tmem_ok(1)
    by (auto simp: demo_pmm_def demo_mem_def static_zeroed_def demo_tmem_def)
  have rm: "room (lists m) = 7" using i(3) by (simp add: room_def demo_pmm_def demo_mem_def)
  then have "0 < room (lists m)" by simp
  from tree_rep_others_insert_head [OF i(1) _ this, of None 203] obtain ls l where
    u: "tree_rep (?J, ?g(None := l), (\<lambda>_. [])(None := [203])) (m\<lparr>lists := ls\<rparr>) tr Map.empty"
    "room ls = room (lists m) - 1" by auto
  let ?s = "demo_pmm\<lparr>tm := m\<lparr>lists := ls\<rparr>, zones := [tr, demo_tree], unused_buddy_blocks_list := l\<rparr>"
  have "(\<lambda>_ :: nat option. [])(None := [203]) = case_option [203 :: addr] (\<lambda>_. [])" by (auto split: option.splits)
  with u(1) have "pmm_rep ?s 0 Map.empty [203] (\<lambda>_. [])"
    by (simp add: pmm_rep_def lists_beside_def demo_pmm_def case_option_upd)
  moreover have "6 \<le> proom ?s" using i(2) rm u(2) by (simp add: proom_def bt_room_def tree_room_def demo_pmm_def demo_tmem_def)
  ultimately obtain s1 where s1: "pmm_rep s1 0 (enqueue_map Map.empty 5 201) [203] (\<lambda>_. [])" "kept ?s s1" "5 \<le> proom s1"
    using zone_insert_ok [of ?s 0 Map.empty "[203]" "\<lambda>_. []" 5 201] by auto
  moreover have "0 < proom s1" using s1(3) by simp
  ultimately obtain s2 where "pmm_rep s2 0 (enqueue_map (enqueue_map Map.empty 5 201) 5 202) [203] (\<lambda>_. [])" "kept s1 s2" "proom s1 - 1 \<le> proom s2"
    using zone_insert_ok [of s1 0 "enqueue_map Map.empty 5 201" "[203]" "\<lambda>_. []" 5 202] by (simp del: of_nat_numeral) (metis of_nat_numeral)
  moreover have "4 \<le> proom s2" using s1(3) calculation(3) by linarith
  moreover have "enqueue_map (enqueue_map Map.empty (5 :: 64 word) (201 :: addr)) 5 202 = [5 \<mapsto> [201, 202]]"
    by (auto simp: enqueue_map_def fun_eq_iff)
  ultimately show ?thesis using s1(2) by (auto simp: kept_def demo_pmm_def)
qed

lemma demo_in_range_1500: "in_range 1500 0x10000" "in_range 1500 0x20000"
  by (simp_all add: hash_in_range_iff hash_mix_def)

lemma demo_alloc_ready:
  assumes "blocks s = blocks demo_pmm" "4 \<le> proom s"
  shows "alloc_ready s 0 [5 \<mapsto> [201, 202]] [203] 4 1 201 (demo_block 0x10000)"
    and "alloc_ready s 0 [5 \<mapsto> [201, 202]] [203] 5 0 201 (demo_block 0x10000)"
  using assms demo_in_range_1500
  by (auto simp: alloc_ready_def demo_pmm_def demo_block_def blank_block_def word_unat_eq_iff unsigned_of_nat take_bit_nat_eq_self)

text \<open>C10: Allocation by splitting. A request of at most 1024 pages that rounds up to \<open>2 ^ i\<close> pages is served from the
  first free block of the smallest order \<open>i + d\<close> that has one: \<^verbatim>\<open>phys_alloc\<close> returns that block's address, the
  block keeps its start with order \<open>i\<close>, is marked used and registered in the hash table, and the pages it
  gives up are filed as one free buddy for each order \<open>k\<close> from \<open>i\<close> to \<open>i + d - 1\<close>, which starts
  \<open>2 ^ k\<close> pages into the block and takes the next unused block object. The block may be the last of its
  order if the order's tree node is a left leaf (\<open>takeable\<close>), which is how a split leaves the smallest order; the
  last block of an order with any other node is excluded, since the tree loses other orders or keeps an empty
  bucket when it removes it. Further conditions (\<open>alloc_ready\<close>): \<open>d\<close> unused block objects, \<open>d + 1\<close> free tree nodes
  and list cells, and a start address whose hash is inside the table.\<close>

theorem phys_alloc_splits:
  assumes "pmm_rep s z M U B" "alloc_ready s z M U i d p b" "M (of_nat (i + d)) = Some (p # ys)" "takeable s z (i + d) ys" "d < fuel"
    and "pages \<le> 1024" "round_pages pages = 2 ^ i" "i < 10"
  shows "\<exists>s' M' b'. phys_alloc fuel s pages z = Inr (s', start_address b) \<and>
    pmm_rep s' z M' (drop d U)
      (B(hash_index 1500 (start_address b) := p # B (hash_index 1500 (start_address b)))) \<and>
    blocks s' p = Some b' \<and> order b' = of_nat i \<and> is_free b' = USED \<and> start_address b' = start_address b \<and>
    M' (of_nat (i + d)) = (if ys = [] then None else Some ys) \<and>
    (\<forall>k. i \<le> k \<and> k < i + d \<longrightarrow> M' (of_nat k) = Some [U ! (i + d - 1 - k)] \<and>
      (\<exists>c. blocks s' (U ! (i + d - 1 - k)) = Some c \<and> is_buddy b k c)) \<and>
    (\<forall>k. k < i \<or> i + d < k \<and> k < 2 ^ 32 \<longrightarrow> M' (of_nat k) = M (of_nat k)) \<and>
    (0 < d \<longrightarrow> (\<forall>k<i. M (of_nat k) = None) \<longrightarrow> order_leaf s' z i) \<and>
    total_allocated s' = total_allocated s + 2 ^ i \<and> proom s - Suc d \<le> proom s'"
proof -
  let ?M1 = "M(of_nat (i + d) := rest_of ys)"
  let ?m = "split_blocks ((blocks s)(p \<mapsto> out_of_tree b)) p i d U"
  let ?M' = "file_buddies ?M1 i d U"
  let ?h = "hash_index 1500 (start_address b)"
  obtain s' b' where s': "phys_alloc fuel s pages z = Inr (s', start_address b)"
    "pmm_rep s' z ?M' (drop d U) (B(?h := p # B ?h))" "order b' = of_nat i" "start_address b' = start_address b"
    "blocks s' = ?m(p \<mapsto> b'\<lparr>is_free := USED\<rparr>)" "total_allocated s' = total_allocated s + 2 ^ i" "proom s - Suc d \<le> proom s'"
    "0 < d \<longrightarrow> (\<forall>k<i. ?M1 (of_nat k) = None) \<longrightarrow> order_leaf s' z i"
    using phys_alloc_ok [OF assms] by blast
  have r: "d \<le> length U" "distinct U" "p \<notin> set U" "i + d \<le> 10" using assms(2) by (auto simp: alloc_ready_def)
  have M1: "?M1 (of_nat k) = (if k = i + d then rest_of ys else M (of_nat k))" if "k < 2 ^ 32" for k
    using of_nat_inj64 [of k "i + d"] that r(4) by (simp del: of_nat_add)
  obtain N where N: "N = ?M'" by blast
  have M': "N (of_nat k) = (if i \<le> k \<and> k < i + d then Some [U ! (i + d - 1 - k)] else ?M1 (of_nat k))" if "k < 2 ^ 32" for k
    using file_buddies_at [OF r(1), of i k ?M1] that r(4) N by (simp del: of_nat_add)
  have bud: "N (of_nat k) = Some [U ! (i + d - 1 - k)] \<and> (\<exists>c. blocks s' (U ! (i + d - 1 - k)) = Some c \<and> is_buddy b k c)"
    if k: "i \<le> k" "k < i + d" for k
  proof -
    let ?u = "U ! (d - 1 - (k - i))"
    have kd: "k - i < d" "d - 1 - (k - i) < length U" using k r(1) by auto
    obtain c where c: "?m ?u = Some c" "is_buddy (out_of_tree b) (i + (k - i)) c"
      using split_blocks_buddy [of "(blocks s)(p \<mapsto> out_of_tree b)" p "out_of_tree b" U d "k - i" i] r kd by auto
    have "?u \<noteq> p" using r(3) nth_mem [OF kd(2)] by metis
    moreover have "i + d - 1 - k = d - 1 - (k - i)" using k by simp
    moreover have "is_buddy b k c" using c(2) k by (simp add: is_buddy_def)
    ultimately show ?thesis using M' [of k] k r(4) c(1) s'(5) by (simp add: is_buddy_def)
  qed
  have top: "N (of_nat (i + d)) = (if ys = [] then None else Some ys)"
    unfolding rest_of_def [symmetric] using M' [of "i + d"] M1 [of "i + d"] r(4) by (simp del: of_nat_add)
  have frame: "N (of_nat k) = M (of_nat k)" if "k < i \<or> i + d < k \<and> k < 2 ^ 32" for k
    using M' [of k] M1 [of k] that r(4) by auto
  have leaf: "order_leaf s' z i" if "0 < d" "\<forall>k<i. M (of_nat k) = None"
    using s'(8) that M1 r(4) by (auto simp del: of_nat_add)
  let ?b' = "b'\<lparr>is_free := USED\<rparr>"
  have "blocks s' p = Some ?b'" "order ?b' = of_nat i" "is_free ?b' = USED" "start_address ?b' = start_address b" using s'(3-5) by simp_all
  then show ?thesis using s'(1,6,7) s'(2) [folded N] bud top frame leaf by blast
qed

text \<open>Two requests for nine pages: the first splits a block of 32 pages, the second takes the buddy that the split left as
  the last block of its order.\<close>

theorem phys_alloc_splits_witness:
  "\<exists>s s1 s2. pmm_rep s 0 [5 \<mapsto> [201, 202]] [203] (\<lambda>_. []) \<and> phys_alloc 2 s 9 0 = Inr (s1, 0x10000) \<and>
    phys_alloc 2 s1 9 0 = Inr (s2, 0x20000) \<and> total_allocated s2 = 32"
proof -
  obtain s where s: "pmm_rep s 0 [5 \<mapsto> [201, 202]] [203] (\<lambda>_. [])" "4 \<le> proom s" "blocks s = blocks demo_pmm"
    "total_allocated s = 0" using demo_pmm_ready by blast
  have b: "start_address (demo_block 0x10000) = 0x10000" "bzone (demo_block 0x10000) = 0" by (simp_all add: demo_block_def blank_block_def)
  have r: "round_pages 9 = 2 ^ 4" by (simp add: round_pages_def is_power_of_two_def next_power_of_two_def smear_def)
  have t: "takeable s 0 (4 + 1) [202]" by (simp add: takeable_def)
  have none: "\<forall>k<4. [5 \<mapsto> [201, 202 :: addr]] (of_nat k :: 64 word) = None" using of_nat_inj64 [of _ 5] by auto
  obtain s1 M1 where s1: "phys_alloc 2 s 9 0 = Inr (s1, 0x10000)"
    "pmm_rep s1 0 M1 [] ((\<lambda>_. [])(hash_index 1500 0x10000 := [201]))"
    "M1 (of_nat 4) = Some [203]" "\<exists>c. blocks s1 203 = Some c \<and> is_buddy (demo_block 0x10000) 4 c" "order_leaf s1 0 4"
    "total_allocated s1 = 16" "proom s - 2 \<le> proom s1"
    using phys_alloc_splits [OF s(1) demo_alloc_ready(1) [OF s(3,2)] _ t, of 2 9] s(4) r b(1) none
    by (auto simp: numeral_2_eq_2 [symmetric])
  obtain c where c: "blocks s1 203 = Some c" "order c = of_nat 4" "start_address c = 0x20000" "is_free c = FREE" "bzone c = 0"
    using s1(4) b by (auto simp: is_buddy_def)
  have a: "alloc_ready s1 0 M1 [] 4 0 203 c" using c s1(7) s(2) demo_in_range_1500(2) by (auto simp: alloc_ready_def)
  have t1: "takeable s1 0 (4 + 0) []" using s1(5) by (simp add: takeable_def)
  have "M1 (of_nat (4 + 0)) = Some [203]" using s1(3) by simp
  from phys_alloc_splits [OF s1(2) a this t1, of 2 9] r c(3) s1(6)
  obtain s2 where "phys_alloc 2 s1 9 0 = Inr (s2, 0x20000)" "total_allocated s2 = 32" by auto
  with s(1) s1(1) show ?thesis by blast
qed

text \<open>C24: A block that one split made is handed out and taken back. From a state with no free block below order
  \<open>i + 1\<close>, \<^verbatim>\<open>phys_alloc\<close> splits the first block of that order and \<^verbatim>\<open>phys_dealloc\<close> of the address it returned merges
  the block with the buddy again: the block is filed under its old order, behind the other free blocks, with its
  old start and successor, the buddy's block object is the first unused one again, and the hash table and the count of
  allocated pages are what they were. The unused object is one of the static pool that starts no range; the
  conditions of \<open>phys_alloc_splits\<close> apply, with room for two more list cells. A block whose successor is not its free
  buddy is not filed again (\<open>phys_dealloc_leaks\<close>).\<close>

theorem phys_alloc_dealloc_merges:
  assumes "pmm_rep s z M (u # us) B" "alloc_ready s z M (u # us) i 1 p b" "M (of_nat (i + 1)) = Some (p # ys)"
    and "takeable s z (i + 1) ys" "1 < fuel" "pages \<le> 1024" "round_pages pages = 2 ^ i" "i < 10"
    and "\<forall>k<i. M (of_nat k) = None" "blocks s u = Some c" "block_flags c AND STATIC_POOL_FLAG \<noteq> 0"
    and "block_flags c AND FIRST_BLOCK_FLAG = 0" "4 \<le> proom s"
  shows "\<exists>s1 s2 b'. phys_alloc fuel s pages z = Inr (s1, start_address b) \<and>
    phys_dealloc s1 (start_address b) = Inr (s2, True) \<and>
    pmm_rep s2 z (M(of_nat (i + 1) \<mapsto> ys @ [p])) (u # us) B \<and> blocks s2 p = Some b' \<and> order b' = order b \<and>
    is_free b' = FREE \<and> start_address b' = start_address b \<and> bnext b' = bnext b \<and> total_allocated s2 = total_allocated s"
proof -
  let ?h = "hash_index 1500 (start_address b)"
  let ?M1 = "M(of_nat (i + 1) := rest_of ys)"
  let ?b = "out_of_tree b"
  let ?m = "split_blocks ((blocks s)(p \<mapsto> ?b)) p i 1 (u # us)"
  have r: "p \<noteq> NULL" "u \<noteq> NULL" "u \<noteq> p" "u \<notin> set us" "order b = of_nat (i + 1)" "in_range 1500 (start_address b)" "unat (bzone b) = z" "M (of_nat i) = None"
    using assms(2) by (auto simp: alloc_ready_def)
  have m: "?m = (blocks s)(p \<mapsto> half ?b i u, u \<mapsto> buddy_of ?b i c)" using r(3) assms(10) by (simp add: fun_eq_iff)
  have k: "(of_nat k :: 64 word) = of_nat (i + 1) \<longleftrightarrow> k = i + 1" if "k \<le> i" for k
    using of_nat_inj64 [of k "i + 1"] that assms(8) by simp
  obtain s1 b1 where s1: "phys_alloc fuel s pages z = Inr (s1, start_address b)"
    "pmm_rep s1 z (file_buddies ?M1 i 1 (u # us)) (drop 1 (u # us)) (B(?h := p # B ?h))" "?m p = Some b1" "order b1 = of_nat i"
    "blocks s1 = ?m(p \<mapsto> b1\<lparr>is_free := USED\<rparr>)" "total_allocated s1 = total_allocated s + 2 ^ i" "proom s - Suc 1 \<le> proom s1"
    "0 < (1 :: nat) \<longrightarrow> (\<forall>k<i. ?M1 (of_nat k) = None) \<longrightarrow> order_leaf s1 z i"
    using phys_alloc_ok [OF assms(1-8)] by (elim exE conjE) (rule that)
  have b1: "b1 = half ?b i u" using s1(3) r(3) unfolding m by simp
  have o: "unat (order b1) = i" using s1(4) assms(8) by (simp add: unsigned_of_nat take_bit_nat_eq_self)
  have leaf: "order_leaf s1 z i" using s1(8) assms(9) k by (simp del: of_nat_add)
  let ?M2 = "?M1(of_nat i \<mapsto> [u])"
  have rep1: "pmm_rep s1 z ?M2 us (B(?h := p # B ?h))" using s1(2) by simp
  let ?b2 = "b1\<lparr>is_free := USED\<rparr>"
  have blk: "blocks s1 p = Some ?b2" "start_address ?b2 = start_address b" using s1(5) b1 by (simp_all add: half_def)
  obtain s2 where s2: "phys_dealloc s1 (start_address b) = bindR (buddy_coalesce s2 p) (\<lambda>s. Inr (s, True))"
    "pmm_rep s2 z ?M2 us B" "blocks s2 = (blocks s1)(p \<mapsto> out_of_tree (?b2\<lparr>is_free := FREE\<rparr>))"
    "total_allocated s2 = total_allocated s" "proom s1 \<le> proom s2" "same_tree s1 s2"
    using phys_dealloc_unregisters [OF rep1 blk(1) r(1), of "B ?h"] r(6) blk(2) s1(6) o by (auto simp: push_bit_of_1)
  let ?b3 = "out_of_tree (?b2\<lparr>is_free := FREE\<rparr>)"
  let ?c = "buddy_of ?b i c"
  have c: "block_flags ?c AND FIRST_BLOCK_FLAG = 0" "block_flags ?c AND IN_TREE_FLAG \<noteq> 0" "block_flags ?c AND STATIC_POOL_FLAG \<noteq> 0"
    using assms(11,12) by (simp_all add: buddy_of_def bit.conj_disj_distrib2)
  have bl: "blocks s2 p = Some ?b3" "blocks s2 u = Some ?c" using s2(3) s1(5) assms(10) r(3) by simp_all
  have rm: "2 \<le> proom s2" using s1(7) s2(5) assms(13) by linarith
  obtain s3 where s3: "buddy_coalesce s2 p = Inr s3"
    "pmm_rep s3 z (enqueue_map (?M2(of_nat i := None)) (of_nat (i + 1)) p) (u # us) B"
    "blocks s3 = (blocks s2)(u \<mapsto> released ?c, p \<mapsto> ?b3\<lparr>bnext := bnext ?c, order := of_nat (i + 1), block_flags := block_flags ?b3 OR IN_TREE_FLAG\<rparr>)"
    "total_allocated s3 = total_allocated s2"
    using coalesce_merges [OF s2(2) bl(1) r(1) _ r(2,3) bl(2), of i] c b1 assms(8) r(7) order_leaf_same [OF s2(6)] leaf rm
    by (auto simp: half_def buddy_of_def)
  have "enqueue_map (?M2(of_nat i := None)) (of_nat (i + 1)) p = M(of_nat (i + 1) \<mapsto> ys @ [p])"
    using k [of i] r(8) by (auto simp: enqueue_map_def rest_of_def fun_eq_iff simp del: of_nat_add)
  with s1(1) s2(1,4) s3 r(5) b1 show ?thesis by (auto simp: half_def buddy_of_def)
qed

theorem phys_alloc_dealloc_merges_witness:
  "\<exists>s s1 s2. pmm_rep s 0 [5 \<mapsto> [201, 202]] [203] (\<lambda>_. []) \<and> phys_alloc 2 s 9 0 = Inr (s1, 0x10000) \<and>
    phys_dealloc s1 0x10000 = Inr (s2, True) \<and> pmm_rep s2 0 [5 \<mapsto> [202, 201]] [203] (\<lambda>_. [])"
proof -
  obtain s where s: "pmm_rep s 0 [5 \<mapsto> [201, 202]] [203] (\<lambda>_. [])" "4 \<le> proom s" "blocks s = blocks demo_pmm"
    using demo_pmm_ready by blast
  have r: "round_pages 9 = 2 ^ 4" "start_address (demo_block 0x10000) = 0x10000"
    by (simp_all add: round_pages_def is_power_of_two_def next_power_of_two_def smear_def demo_block_def blank_block_def)
  have t: "takeable s 0 (4 + 1) [202]" by (simp add: takeable_def)
  have none: "\<forall>k<4. [5 \<mapsto> [201, 202 :: addr]] (of_nat k :: 64 word) = None" using of_nat_inj64 [of _ 5] by auto
  have "\<exists>s1 s2 b'. phys_alloc 2 s 9 0 = Inr (s1, start_address (demo_block 0x10000)) \<and>
    phys_dealloc s1 (start_address (demo_block 0x10000)) = Inr (s2, True) \<and>
    pmm_rep s2 0 ([5 \<mapsto> [201, 202]](of_nat (4 + 1) \<mapsto> [202] @ [201])) [203] (\<lambda>_. []) \<and> blocks s2 201 = Some b' \<and>
    order b' = order (demo_block 0x10000) \<and> is_free b' = FREE \<and> start_address b' = start_address (demo_block 0x10000) \<and>
    bnext b' = bnext (demo_block 0x10000) \<and> total_allocated s2 = total_allocated s"
    by (rule phys_alloc_dealloc_merges [OF s(1) demo_alloc_ready(1) [OF s(3,2)] _ t _ _ r(1) _ none, of 2 "blank_block\<lparr>block_flags := STATIC_POOL_FLAG\<rparr>"])
      (use s(2,3) in \<open>simp_all add: demo_pmm_def blank_block_def\<close>)
  then obtain s1 s2 where "phys_alloc 2 s 9 0 = Inr (s1, 0x10000)" "phys_dealloc s1 0x10000 = Inr (s2, True)"
    "pmm_rep s2 0 [5 \<mapsto> [202, 201]] [203] (\<lambda>_. [])" unfolding r(2) by auto
  with s(1) show ?thesis by blast
qed

text \<open>A request for 513 to 1024 pages always ends in a panic, however much memory is free: it rounds up to
  1024 pages, and the scan over the orders stops below \<^verbatim>\<open>MAX_ORDER\<close>.\<close>

theorem phys_alloc_top_order_panics:
  assumes "512 < pages" "pages \<le> 1024"
  shows "phys_alloc fuel s pages z = Inl (Panic ''phys_alloc cannot allocate'')"
proof -
  obtain k where k: "bit_length (pages - 1) k" using bit_length_exists by blast
  have p: "512 < unat pages" "unat pages \<le> 1024" using assms by (simp_all add: word_less_nat_alt word_le_nat_alt)
  then have u: "pages \<noteq> 0" by auto
  then have u1: "unat (pages - 1) = unat pages - 1" by (rule unat_pred)
  have "k \<le> 10" by (rule bit_length_le [OF k]) (use p u1 in simp)
  moreover have "\<not> k \<le> 9"
  proof
    assume "k \<le> 9"
    then have "(2 :: nat) ^ k \<le> 2 ^ 9" by (rule power_increasing) simp
    moreover have "unat pages - 1 < 2 ^ k" using k u1 by (simp add: bit_length_def)
    ultimately have "unat pages - 1 < 2 ^ 9" by linarith
    with p show False by simp
  qed
  ultimately have "k = 10" by simp
  then have "round_pages pages = 1024"
    using next_power_of_two_eq [OF u k] is_power_of_two_exp [OF _ k] by (auto simp: round_pages_def)
  moreover have "alloc_scan fuel s z 1024 [0..<10] = Inr (s, NULL)" by (simp add: upt_rec)
  ultimately show ?thesis
    using assms(2) by (simp add: phys_alloc_def buddy_alloc_def linorder_not_less [symmetric])
qed

theorem phys_alloc_top_order_panics_witness:
  "phys_alloc 11 demo_pmm 1024 0 = Inl (Panic ''phys_alloc cannot allocate'')"
  by (rule phys_alloc_top_order_panics) simp_all

text \<open>A request above 1024 pages that is not a multiple of 1024 is served with too few pages: the remainder
  test is always false, so the number of maximal blocks is rounded down.\<close>

theorem large_range_rounds_down:
  assumes "pages mod 1024 \<noteq> 0"
  shows "large_blocks pages * 1024 < pages"
proof -
  have l: "large_blocks pages = pages div 1024" by (simp add: large_blocks_def)
  have "unat pages mod 1024 \<noteq> 0" using assms by (simp add: word_unat_eq_iff unat_mod)
  then have "unat pages div 1024 * 1024 < unat pages" by (metis div_mult_mod_eq less_add_same_cancel1 neq0_conv)
  moreover have "unat pages < 2 ^ 64" using unsigned_less [of pages] by simp
  ultimately have "unat (pages div 1024 * 1024) < unat pages" by (simp add: unat_word_ariths unat_div take_bit_nat_eq_self)
  then show ?thesis unfolding l word_less_nat_alt .
qed

theorem large_range_rounds_down_witness: "large_blocks 1500 * 1024 < 1500"
  by (rule large_range_rounds_down) simp

text \<open>Freeing leaks: when the successor of a block cannot be merged with it (it is used, has another order, another
  zone or starts a range), \<^verbatim>\<open>phys_dealloc\<close> unregisters the block and lowers the count of allocated pages but files
  it in no tree, so the block can be neither allocated nor freed again.\<close>

theorem phys_dealloc_leaks:
  assumes "pmm_rep s z M U B" "blocks s p = Some b" "p \<noteq> NULL" "in_range 1500 (start_address b)"
    and "B (hash_index 1500 (start_address b)) = p # rest"
    and "bnext b \<noteq> NULL" "bnext b \<noteq> p" "unat (order b) \<noteq> 10" "blocks s (bnext b) = Some n"
    and "order n \<noteq> order b \<or> is_free n \<noteq> FREE \<or> bzone n \<noteq> bzone b \<or> block_flags n AND FIRST_BLOCK_FLAG \<noteq> 0"
  shows "\<exists>s'. phys_dealloc s (start_address b) = Inr (s', True) \<and>
    pmm_rep s' z M U (B(hash_index 1500 (start_address b) := rest)) \<and>
    total_allocated s' = total_allocated s - push_bit (unat (order b)) 1"
proof -
  obtain s1 where s1: "phys_dealloc s (start_address b) = bindR (buddy_coalesce s1 p) (\<lambda>s. Inr (s, True))"
    "pmm_rep s1 z M U (B(hash_index 1500 (start_address b) := rest))"
    "blocks s1 = (blocks s)(p \<mapsto> out_of_tree (b\<lparr>is_free := FREE\<rparr>))"
    "total_allocated s1 = total_allocated s - push_bit (unat (order b)) 1"
    using phys_dealloc_unregisters [OF assms(1-5)] by blast
  have "buddy_coalesce s1 p = Inr s1" using s1(3) assms(3,6-10) by (auto simp: buddy_coalesce_def)
  with s1 show ?thesis by simp
qed

theorem phys_dealloc_leaks_witness:
  "\<exists>s s'. pmm_rep s 0 [5 \<mapsto> [201, 202]] [203] ((\<lambda>_. [])(hash_index 1500 0x10000 := [204])) \<and>
    phys_dealloc s 0x10000 = Inr (s', True) \<and> pmm_rep s' 0 [5 \<mapsto> [201, 202]] [203] (\<lambda>_. [])"
proof -
  let ?b = "demo_block 0x10000\<lparr>bnext := 203\<rparr>"
  let ?m = "[204 \<mapsto> ?b, 203 \<mapsto> blank_block]"
  have b: "start_address ?b = 0x10000" "bnext ?b = 203" "order ?b = 5" "order blank_block = 0"
    by (simp_all add: demo_block_def blank_block_def)
  obtain s0 where s0: "pmm_rep s0 0 [5 \<mapsto> [201, 202]] [203] (\<lambda>_. [])" "4 \<le> proom s0" using demo_pmm_ready by blast
  obtain s where s: "pmm_rep s 0 [5 \<mapsto> [201, 202]] [203] ((\<lambda>_. [])(hash_index 1500 0x10000 := [204]))" "blocks s = ?m"
    using register_used_ok [of "s0\<lparr>blocks := ?m\<rparr>" 0 "[5 \<mapsto> [201, 202]]" "[203]" "\<lambda>_. []" 204 ?b] s0 b(1) demo_in_range_1500
    by (auto simp: kept_def)
  have "\<exists>s'. phys_dealloc s (start_address ?b) = Inr (s', True) \<and>
    pmm_rep s' 0 [5 \<mapsto> [201, 202]] [203]
      (((\<lambda>_. [])(hash_index 1500 0x10000 := [204]))(hash_index 1500 (start_address ?b) := [])) \<and>
    total_allocated s' = total_allocated s - push_bit (unat (order ?b)) 1"
    by (rule phys_dealloc_leaks [OF s(1), of 204 ?b "[]" blank_block]) (use s(2) b demo_in_range_1500 in auto)
  then obtain s' where "phys_dealloc s 0x10000 = Inr (s', True)" "pmm_rep s' 0 [5 \<mapsto> [201, 202]] [203] (\<lambda>_. [])"
    unfolding b(1) by (auto simp: fun_upd_idem)
  with s(1) show ?thesis by blast
qed

end
