(* ===== verification/Slab.thy ===== *)
theory Slab
  imports Buddy_Alloc
begin

text \<open>
  The kernel heap: \<^verbatim>\<open>memory/slab.c\<close>, \<^verbatim>\<open>memory/kmalloc.c\<close> and the inline function of \<^verbatim>\<open>slab.h\<close>. Small requests are
  served from slabs, runs of pages cut into entries of one size whose free ones are linked through their
  first word; larger requests go to the physical memory manager. Memory is a function from addresses of
  aligned 64-bit words to their values; every physical page is mapped at a fixed offset. Addresses are
  natural numbers, since the direct mapping lies far below the top of the address space. The locks around
  the allocator and \<^verbatim>\<open>krealloc\<close>, which copies bytes, are not modelled.
\<close>

section \<open>State\<close>

record slab =
  first_free :: addr
  entry_size :: nat
  slab_start :: addr
  slab_end :: addr

record heap =
  pm :: pmm
  cells :: "addr \<Rightarrow> addr"
  slabs :: "slab list"
  hhdm_offset :: nat

abbreviation (input) PAGE_BYTES :: nat where "PAGE_BYTES \<equiv> 4096"
abbreviation (input) DEFAULT_SLAB_SIZE_PAGES :: nat where "DEFAULT_SLAB_SIZE_PAGES \<equiv> 32"
abbreviation (input) NUM_SLABS :: nat where "NUM_SLABS \<equiv> 10"

text \<open>The address of the object \<^verbatim>\<open>slabs[i]\<close>, as it is stored in the header of a slab's first page.\<close>

definition slab_at :: "nat \<Rightarrow> addr" where "slab_at i = Suc i"

definition phys2virt :: "heap \<Rightarrow> 64 word \<Rightarrow> addr" where
  "phys2virt s p = unat p + hhdm_offset s"

definition virt2phys :: "heap \<Rightarrow> addr \<Rightarrow> 64 word" where
  "virt2phys s a = of_nat (a - hhdm_offset s)"

section \<open>Slabs\<close>

text \<open>The loop that links the entries: \<open>array[i * factor]\<close> is the word \<open>i * factor\<close> words behind \<open>array\<close>.\<close>

fun link_entries :: "addr \<Rightarrow> nat \<Rightarrow> nat \<Rightarrow> nat \<Rightarrow> (addr \<Rightarrow> addr) \<Rightarrow> (addr \<Rightarrow> addr)" where
  "link_entries array factor i 0 m = m(array + 8 * (i * factor) := NULL)"
| "link_entries array factor i (Suc n) m =
     link_entries array factor (Suc i) n (m(array + 8 * (i * factor) := array + 8 * (Suc i * factor)))"

definition header_offset :: "nat \<Rightarrow> nat" where
  "header_offset esize = (8 + esize) div esize * esize"

definition slab_entries :: "nat \<Rightarrow> nat \<Rightarrow> nat" where
  "slab_entries esize pages = (pages * PAGE_BYTES - header_offset esize) div esize"

text \<open>
  \<^verbatim>\<open>first_free\<close> has the type \<^verbatim>\<open>void **\<close>, so \<^verbatim>\<open>slab->first_free + pages * PAGE_SIZE\<close> advances by eight bytes for every
  unit.
\<close>

definition heap_create_slab :: "nat \<Rightarrow> nat \<Rightarrow> nat \<Rightarrow> nat \<Rightarrow> heap \<Rightarrow> heap res" where
  "heap_create_slab fuel i esize pages s =
     (if i < length (slabs s) then
        bindR (phys_alloc fuel (pm s) (of_nat pages) KERNEL_POOL) (\<lambda>(pm', p).
          let base = phys2virt s p;
              first = base + header_offset esize;
              m = (cells s)(base := slab_at i);
              mx = slab_entries esize pages - 1;
              factor = esize div 8
          in Inr (s\<lparr>pm := pm', cells := link_entries first factor 0 mx m,
                    slabs := (slabs s)[i := \<lparr>first_free = first, entry_size = esize, slab_start = base,
                                              slab_end = base + 8 * (pages * PAGE_BYTES)\<rparr>]\<rparr>))
      else Inl OutOfBounds)"

text \<open>Clearing \<open>n\<close> words.\<close>

definition clear_words :: "addr \<Rightarrow> nat \<Rightarrow> (addr \<Rightarrow> addr) \<Rightarrow> (addr \<Rightarrow> addr)" where
  "clear_words a n m = (\<lambda>b. if a \<le> b \<and> b < a + 8 * n then 0 else m b)"

text \<open>Taking the first entry of a slab that has one.\<close>

definition take_entry :: "(addr \<Rightarrow> addr) \<Rightarrow> slab \<Rightarrow> (addr \<Rightarrow> addr) \<times> slab \<times> addr" where
  "take_entry m sl =
     (let old = first_free sl in (clear_words old (entry_size sl div 8) m, sl\<lparr>first_free := m old\<rparr>, old))"

definition heap_allocate_from_slab :: "nat \<Rightarrow> nat \<Rightarrow> heap \<Rightarrow> (heap \<times> addr) res" where
  "heap_allocate_from_slab fuel i s =
     (if i < length (slabs s) then
        bindR (if first_free (slabs s ! i) = NULL
               then heap_create_slab fuel i (entry_size (slabs s ! i)) DEFAULT_SLAB_SIZE_PAGES s else Inr s) (\<lambda>s.
          case take_entry (cells s) (slabs s ! i) of (m, sl, a) \<Rightarrow>
            Inr (s\<lparr>cells := m, slabs := (slabs s)[i := sl]\<rparr>, a))
      else Inl OutOfBounds)"

definition put_entry :: "(addr \<Rightarrow> addr) \<Rightarrow> slab \<Rightarrow> addr \<Rightarrow> (addr \<Rightarrow> addr) \<times> slab" where
  "put_entry m sl a =
     (if a = NULL \<or> a > slab_end sl \<or> a < slab_start sl then (m, sl)
      else (m(a := first_free sl), sl\<lparr>first_free := a\<rparr>))"

text \<open>\<open>p\<close> is the pointer found in a header; NULL is reported and ignored, and what names no slab is a wild pointer.\<close>

definition heap_free_in_slab :: "addr \<Rightarrow> addr \<Rightarrow> heap \<Rightarrow> heap res" where
  "heap_free_in_slab p a s =
     (if p = NULL then Inr s
      else if p \<le> length (slabs s) then
        (case put_entry (cells s) (slabs s ! (p - 1)) a of (m, sl) \<Rightarrow>
           Inr (s\<lparr>cells := m, slabs := (slabs s)[p - 1 := sl]\<rparr>))
      else Inl NullDeref)"

section \<open>The allocator\<close>

definition heap_slab_for :: "slab list \<Rightarrow> nat \<Rightarrow> nat option" where
  "heap_slab_for ss sz = (case filter (\<lambda>i. entry_size (ss ! i) \<ge> sz) [0..<length ss] of [] \<Rightarrow> None | i # _ \<Rightarrow> Some i)"

text \<open>The loop of \<^verbatim>\<open>heap_init\<close>: slabs of 8, 16, 32, ... bytes below the size of a page.\<close>

fun create_slabs :: "nat \<Rightarrow> nat \<Rightarrow> nat \<Rightarrow> nat \<Rightarrow> heap \<Rightarrow> heap res" where
  "create_slabs fuel i sz 0 s = Inr s"
| "create_slabs fuel i sz (Suc n) s =
     bindR (heap_create_slab fuel i sz DEFAULT_SLAB_SIZE_PAGES s) (\<lambda>s.
       if 2 * sz \<ge> PAGE_BYTES then Inr s else create_slabs fuel (Suc i) (2 * sz) n s)"

definition heap_init :: "nat \<Rightarrow> heap \<Rightarrow> heap res" where
  "heap_init fuel s = create_slabs fuel 0 8 NUM_SLABS s"

definition kalloc_pages :: "64 word \<Rightarrow> 64 word" where
  "kalloc_pages sz = (sz + PAGE_SIZE) div PAGE_SIZE"

definition kalloc :: "nat \<Rightarrow> 64 word \<Rightarrow> heap \<Rightarrow> (heap \<times> addr) res" where
  "kalloc fuel sz s =
     (case (if sz < PAGE_SIZE then heap_slab_for (slabs s) (unat sz) else None) of
        Some i \<Rightarrow> heap_allocate_from_slab fuel i s
      | None \<Rightarrow> bindR (phys_alloc fuel (pm s) (kalloc_pages sz) KERNEL_POOL) (\<lambda>(pm', p).
          Inr (s\<lparr>pm := pm'\<rparr>, phys2virt s p)))"

definition kmalloc :: "nat \<Rightarrow> 64 word \<Rightarrow> heap \<Rightarrow> (heap \<times> addr) res" where
  "kmalloc fuel sz s = kalloc fuel sz s"

text \<open>The words of the request are cleared; the last one is cleared as a whole.\<close>

definition kzmalloc :: "nat \<Rightarrow> 64 word \<Rightarrow> heap \<Rightarrow> (heap \<times> addr) res" where
  "kzmalloc fuel sz s =
     bindR (kalloc fuel sz s) (\<lambda>(s, a). Inr (s\<lparr>cells := clear_words a ((unat sz + 7) div 8) (cells s)\<rparr>, a))"

text \<open>The header of the slab an address is in: the address with the bits below the slab size cleared.\<close>

definition slab_header :: "addr \<Rightarrow> addr" where
  "slab_header a = a - a mod (DEFAULT_SLAB_SIZE_PAGES * PAGE_BYTES)"

text \<open>
  \<^verbatim>\<open>_kfree\<close>. The physical memory manager hands an address it does not know back to the slab allocator, with the
  same header.
\<close>

definition kfree_inner :: "addr \<Rightarrow> heap \<Rightarrow> heap res" where
  "kfree_inner a s =
     (if a = NULL then Inr s
      else if a mod PAGE_BYTES \<noteq> 0 then heap_free_in_slab (cells s (slab_header a)) a s
      else bindR (phys_dealloc (pm s) (virt2phys s a)) (\<lambda>(pm', found).
        if found then Inr (s\<lparr>pm := pm'\<rparr>)
        else heap_free_in_slab (cells s (slab_header a)) a (s\<lparr>pm := pm'\<rparr>)))"

definition kfree :: "addr \<Rightarrow> heap \<Rightarrow> heap res" where
  "kfree a s = kfree_inner a s"

definition umalloc :: "nat \<Rightarrow> 64 word \<Rightarrow> heap \<Rightarrow> (heap \<times> 64 word) res" where
  "umalloc fuel pages s =
     bindR (phys_alloc fuel (pm s) pages USER_POOL) (\<lambda>(pm', p). Inr (s\<lparr>pm := pm'\<rparr>, p))"

definition ufree :: "64 word \<Rightarrow> heap \<Rightarrow> heap res" where
  "ufree p s =
     bindR (phys_dealloc (pm s) p) (\<lambda>(pm', found).
       if found then Inr (s\<lparr>pm := pm'\<rparr>)
       else heap_free_in_slab (cells s (slab_header (phys2virt s p))) (phys2virt s p) (s\<lparr>pm := pm'\<rparr>))"

definition phys_zalloc :: "nat \<Rightarrow> 64 word \<Rightarrow> nat \<Rightarrow> heap \<Rightarrow> (heap \<times> 64 word) res" where
  "phys_zalloc fuel pages zone s =
     bindR (phys_alloc fuel (pm s) pages zone) (\<lambda>(pm', p).
       Inr (s\<lparr>pm := pm', cells := clear_words (phys2virt s p) (unat (pages * PAGE_SIZE) div 8) (cells s)\<rparr>, p))"

section \<open>The free list of a slab\<close>

definition spaced :: "nat \<Rightarrow> addr list \<Rightarrow> bool" where
  "spaced e xs \<longleftrightarrow> distinct xs \<and> (\<forall>x\<in>set xs. \<forall>y\<in>set xs. x < y \<longrightarrow> x + e \<le> y)"

definition slab_rep :: "(addr \<Rightarrow> addr) \<Rightarrow> slab \<Rightarrow> addr list \<Rightarrow> bool" where
  "slab_rep m sl xs \<longleftrightarrow> path (\<lambda>a. Some (m a)) (first_free sl) xs NULL \<and> spaced (entry_size sl) xs \<and>
     8 dvd entry_size sl \<and> 0 < entry_size sl \<and> (\<forall>x\<in>set xs. slab_start sl \<le> x \<and> x \<le> slab_end sl)"

lemma spaced_Cons:
  "spaced e (x # xs) \<longleftrightarrow> x \<notin> set xs \<and> spaced e xs \<and> (\<forall>y\<in>set xs. x + e \<le> y \<or> y + e \<le> x)"
  by (auto simp: spaced_def) (metis linorder_neqE_nat)+

lemma path_cells: "\<forall>a\<in>set xs. m' a = m a \<Longrightarrow> path (\<lambda>a. Some (m a)) p xs q \<Longrightarrow> path (\<lambda>a. Some (m' a)) p xs q"
  using path_cong [of xs "\<lambda>a. Some (m' a)" "\<lambda>a. Some (m a)"] by simp

lemma take_entry_ok:
  assumes "slab_rep m sl (x # xs)"
  shows "\<exists>m' sl'. take_entry m sl = (m', sl', x) \<and> slab_rep m' sl' xs \<and> entry_size sl' = entry_size sl \<and>
    slab_start sl' = slab_start sl \<and> slab_end sl' = slab_end sl \<and>
    m' = (\<lambda>b. if x \<le> b \<and> b < x + entry_size sl then 0 else m b)"
proof -
  have r: "first_free sl = x" "path (\<lambda>a. Some (m a)) (m x) xs NULL" "spaced (entry_size sl) (x # xs)"
    "8 dvd entry_size sl" "0 < entry_size sl" "\<forall>y\<in>set xs. slab_start sl \<le> y \<and> y \<le> slab_end sl"
    using assms by (auto simp: slab_rep_def)
  let ?m = "\<lambda>b. if x \<le> b \<and> b < x + entry_size sl then 0 else m b"
  have "8 * (entry_size sl div 8) = entry_size sl" using r(4) by simp
  then have "take_entry m sl = (?m, sl\<lparr>first_free := m x\<rparr>, x)" using r(1) by (simp add: take_entry_def clear_words_def fun_eq_iff)
  moreover have "?m y = m y" if "y \<in> set xs" for y
    using r(3) that by (force simp: spaced_Cons r(5))
  then have "path (\<lambda>a. Some (?m a)) (m x) xs NULL" by (intro path_cells [OF _ r(2)]) blast
  then have "slab_rep ?m (sl\<lparr>first_free := m x\<rparr>) xs" using r by (simp add: slab_rep_def spaced_Cons)
  ultimately show ?thesis by auto
qed

lemma put_entry_ok:
  assumes "slab_rep m sl xs" "spaced (entry_size sl) (x # xs)" "x \<noteq> NULL" "slab_start sl \<le> x" "x \<le> slab_end sl"
  shows "\<exists>m' sl'. put_entry m sl x = (m', sl') \<and> slab_rep m' sl' (x # xs) \<and> entry_size sl' = entry_size sl"
proof -
  have "x \<notin> set xs" using assms(2) by (simp add: spaced_Cons)
  have "path (\<lambda>a. Some ((m(x := first_free sl)) a)) (first_free sl) xs NULL"
    by (rule path_cells [rotated]) (use assms(1) \<open>x \<notin> set xs\<close> in \<open>auto simp: slab_rep_def\<close>)
  then have "slab_rep (m(x := first_free sl)) (sl\<lparr>first_free := x\<rparr>) (x # xs)"
    using assms unfolding slab_rep_def by simp
  moreover have "put_entry m sl x = (m(x := first_free sl), sl\<lparr>first_free := x\<rparr>)"
    using assms(3-5) by (simp add: put_entry_def)
  ultimately show ?thesis by simp
qed

lemma link_entries_below: "b < array + 8 * (i * f) \<Longrightarrow> link_entries array f i n m b = m b"
proof (induction n arbitrary: i m)
  case (Suc n)
  from Suc.IH [of "Suc i"] Suc.prems show ?case by simp
qed auto

lemma link_entries_path:
  assumes "0 < array" "0 < f"
  shows "path (\<lambda>a. Some (link_entries array f i n m a)) (array + 8 * (i * f))
    (map (\<lambda>k. array + 8 * (k * f)) [i..<i + n + 1]) NULL"
proof (induction n arbitrary: i m)
  case 0
  then show ?case using assms by simp
next
  case (Suc n)
  let ?m = "m(array + 8 * (i * f) := array + 8 * (Suc i * f))"
  have "array + 8 * (i * f) < array + 8 * (Suc i * f)" using assms(2) by simp
  then have "link_entries array f (Suc i) n ?m (array + 8 * (i * f)) = array + 8 * (Suc i * f)"
    by (subst link_entries_below) simp_all
  moreover have "[i..<i + Suc n + 1] = i # [Suc i..<Suc i + n + 1]" by (subst upt_conv_Cons) simp_all
  ultimately show ?case
    using Suc.IH [of "Suc i" ?m] assms(1) unfolding link_entries.simps by (simp del: upt_Suc mult_Suc fun_upd_apply)
qed

section \<open>Creating a slab\<close>

lemma header_offset_bounds: "0 < e \<Longrightarrow> 8 \<le> header_offset e \<and> e dvd header_offset e"
proof -
  assume e: "0 < e"
  have "8 + e < header_offset e + e"
    using mult_div_mod_eq [of e "8 + e"] mod_less_divisor [OF e, of "8 + e"] by (simp add: header_offset_def mult.commute)
  then show ?thesis by (simp add: header_offset_def)
qed

definition entries_of :: "addr \<Rightarrow> nat \<Rightarrow> nat \<Rightarrow> addr list" where
  "entries_of base e pages = map (\<lambda>k. base + header_offset e + k * e) [0..<slab_entries e pages]"

lemma entries_spaced: "0 < e \<Longrightarrow> spaced e (entries_of base e pages)"
proof -
  assume e: "0 < e"
  have "j * e + e \<le> k * e" if "j * e < k * e" for j k :: nat
  proof -
    have "Suc j \<le> k" using that e by simp
    then have "Suc j * e \<le> k * e" by (rule mult_le_mono1)
    then show ?thesis by simp
  qed
  with e show ?thesis by (auto simp: spaced_def entries_of_def distinct_map inj_on_def)
qed

lemma entries_inside:
  assumes "0 < e" "x \<in> set (entries_of base e pages)"
  shows "base + 8 \<le> x \<and> x + e \<le> base + pages * PAGE_BYTES"
proof -
  obtain k where k: "x = base + header_offset e + k * e" "k < slab_entries e pages"
    using assms(2) unfolding entries_of_def set_map by (metis (no_types, lifting) atLeastLessThan_iff imageE set_upt)
  have "Suc k * e \<le> slab_entries e pages * e" using k(2) by (intro mult_le_mono1) simp
  also have "\<dots> \<le> pages * PAGE_BYTES - header_offset e" by (simp add: slab_entries_def)
  finally have "k * e + e \<le> pages * PAGE_BYTES - header_offset e" by simp
  with k(1) header_offset_bounds [OF assms(1)] assms(1) show ?thesis by simp
qed

lemma heap_create_slab_ok:
  assumes "phys_alloc fuel (pm s) (of_nat pages) 0 = Inr (pm', p)" "i < length (slabs s)" "8 dvd e" "0 < e"
    and "0 < slab_entries e pages"
  defines "base \<equiv> phys2virt s p"
  shows "\<exists>s'. heap_create_slab fuel i e pages s = Inr s' \<and> pm s' = pm' \<and>
    slab_rep (cells s') (slabs s' ! i) (entries_of base e pages) \<and> slab_start (slabs s' ! i) = base \<and>
    slab_end (slabs s' ! i) = base + 8 * (pages * PAGE_BYTES) \<and> cells s' base = slab_at i \<and>
    slabs s' = (slabs s)[i := slabs s' ! i] \<and> entry_size (slabs s' ! i) = e"
proof -
  let ?first = "base + header_offset e"
  let ?n = "slab_entries e pages - 1"
  let ?m = "link_entries ?first (e div 8) 0 ?n ((cells s)(base := slab_at i))"
  let ?sl = "\<lparr>first_free = ?first, entry_size = e, slab_start = base, slab_end = base + 8 * (pages * PAGE_BYTES)\<rparr>"
  have ho: "8 \<le> header_offset e" using header_offset_bounds [OF assms(4)] by simp
  have e8: "8 * (k * (e div 8)) = k * e" for k using assms(3) by (metis dvd_mult_div_cancel mult.left_commute)
  have f: "0 < e div 8" using assms(3,4) by (auto elim: dvdE)
  have eq: "heap_create_slab fuel i e pages s = Inr (s\<lparr>pm := pm', cells := ?m, slabs := (slabs s)[i := ?sl]\<rparr>)"
    using assms(1,2) by (simp add: heap_create_slab_def base_def Let_def)
  have "path (\<lambda>a. Some (?m a)) (?first + 8 * (0 * (e div 8))) (map (\<lambda>k. ?first + 8 * (k * (e div 8))) [0..<0 + ?n + 1]) NULL"
    by (rule link_entries_path) (use ho f in simp_all)
  then have p: "path (\<lambda>a. Some (?m a)) ?first (entries_of base e pages) NULL"
    using assms(5) unfolding entries_of_def e8 by simp
  have "slab_rep ?m ?sl (entries_of base e pages)"
    unfolding slab_rep_def using p assms(3,4) entries_spaced [OF assms(4)] entries_inside [OF assms(4)] by fastforce
  moreover have "?m base = slab_at i" using ho by (simp add: link_entries_below)
  ultimately show ?thesis using eq assms(2) by simp
qed

section \<open>Allocating and freeing\<close>

lemma slab_for_fits:
  assumes "heap_slab_for ss n = Some i"
  shows "i < length ss \<and> n \<le> entry_size (ss ! i)"
proof -
  obtain js where "filter (\<lambda>i. entry_size (ss ! i) \<ge> n) [0..<length ss] = i # js"
    using assms by (auto simp: heap_slab_for_def split: list.splits)
  then have "i \<in> set (filter (\<lambda>i. entry_size (ss ! i) \<ge> n) [0..<length ss])" by simp
  then show ?thesis by simp
qed

lemma slab_for_update:
  "entry_size sl = entry_size (ss ! i) \<Longrightarrow> heap_slab_for (ss[i := sl]) n = heap_slab_for ss n"
proof -
  assume "entry_size sl = entry_size (ss ! i)"
  then have "entry_size (ss[i := sl] ! j) = entry_size (ss ! j)" if "j < length ss" for j
    using that by (cases "i = j") auto
  then have "filter (\<lambda>j. entry_size (ss[i := sl] ! j) \<ge> n) [0..<length ss] = filter (\<lambda>j. entry_size (ss ! j) \<ge> n) [0..<length ss]"
    by (auto intro: filter_cong)
  then show ?thesis by (simp add: heap_slab_for_def)
qed

lemma kmalloc_ok:
  assumes "sz < PAGE_SIZE" "heap_slab_for (slabs s) (unat sz) = Some i" "slab_rep (cells s) (slabs s ! i) (x # xs)"
  shows "\<exists>s' sl. kmalloc fuel sz s = Inr (s', x) \<and> s' = s\<lparr>cells := \<lambda>b. if x \<le> b \<and> b < x + entry_size (slabs s ! i) then 0 else cells s b,
      slabs := (slabs s)[i := sl]\<rparr> \<and>
    slab_rep (cells s') sl xs \<and> entry_size sl = entry_size (slabs s ! i) \<and> slab_start sl = slab_start (slabs s ! i) \<and>
    slab_end sl = slab_end (slabs s ! i)"
proof -
  have i: "i < length (slabs s)" using slab_for_fits [OF assms(2)] by simp
  have "first_free (slabs s ! i) \<noteq> NULL" using assms(3) by (auto simp: slab_rep_def)
  moreover obtain m sl where "take_entry (cells s) (slabs s ! i) = (m, sl, x)" "slab_rep m sl xs"
    "entry_size sl = entry_size (slabs s ! i)" "slab_start sl = slab_start (slabs s ! i)" "slab_end sl = slab_end (slabs s ! i)"
    "m = (\<lambda>b. if x \<le> b \<and> b < x + entry_size (slabs s ! i) then 0 else cells s b)"
    using take_entry_ok [OF assms(3)] by blast
  ultimately show ?thesis using i assms(1,2) by (auto simp: kmalloc_def kalloc_def heap_allocate_from_slab_def)
qed

lemma slab_header_aligned:
  assumes "base mod 131072 = 0" "base \<le> a" "a < base + 131072"
  shows "slab_header a = base"
proof -
  obtain k where k: "base = 131072 * k" using assms(1) by auto
  obtain d where d: "a = base + d" "d < 131072" using assms(2,3) le_Suc_ex by fastforce
  then have "a mod 131072 = d" using k by simp
  with d show ?thesis by (simp add: slab_header_def)
qed

fun kmallocs :: "nat \<Rightarrow> 64 word \<Rightarrow> nat \<Rightarrow> heap \<Rightarrow> (heap \<times> addr list) res" where
  "kmallocs fuel sz 0 s = Inr (s, [])"
| "kmallocs fuel sz (Suc n) s =
     bindR (kmalloc fuel sz s) (\<lambda>(s, x). bindR (kmallocs fuel sz n s) (\<lambda>(s, xs). Inr (s, x # xs)))"

lemma kmallocs_ok:
  assumes "sz < PAGE_SIZE" "heap_slab_for (slabs s) (unat sz) = Some i" "slab_rep (cells s) (slabs s ! i) (xs @ ys)"
  shows "\<exists>s'. kmallocs fuel sz (length xs) s = Inr (s', xs) \<and> slab_rep (cells s') (slabs s' ! i) ys"
  using assms(2,3)
proof (induction xs arbitrary: s)
  case Nil
  then show ?case by simp
next
  case (Cons x xs)
  obtain s1 sl where s1: "kmalloc fuel sz s = Inr (s1, x)" "slabs s1 = (slabs s)[i := sl]" "slab_rep (cells s1) sl (xs @ ys)"
    "entry_size sl = entry_size (slabs s ! i)"
    using kmalloc_ok [OF assms(1) Cons.prems(1), of x "xs @ ys" fuel] Cons.prems(2) by auto
  have i: "i < length (slabs s)" using slab_for_fits [OF Cons.prems(1)] by simp
  have "heap_slab_for (slabs s1) (unat sz) = Some i" using slab_for_update [OF s1(4)] s1(2) Cons.prems(1) by simp
  moreover have "slab_rep (cells s1) (slabs s1 ! i) (xs @ ys)" using s1(2,3) i by simp
  ultimately show ?case using Cons.IH [of s1] s1(1) by auto
qed

text \<open>The first request that finds the slab exhausted takes a new run of pages for it.\<close>

lemma kmalloc_exhausted:
  assumes "sz < PAGE_SIZE" "heap_slab_for (slabs s) (unat sz) = Some i" "first_free (slabs s ! i) = NULL"
    and "8 dvd entry_size (slabs s ! i)" "0 < entry_size (slabs s ! i)" "phys_alloc fuel (pm s) 32 0 = Inr (pm', p)"
    and "0 < slab_entries (entry_size (slabs s ! i)) 32"
  shows "\<exists>s0. kmalloc fuel sz s = kmalloc fuel sz s0 \<and> heap_slab_for (slabs s0) (unat sz) = Some i \<and>
    slab_rep (cells s0) (slabs s0 ! i) (entries_of (phys2virt s p) (entry_size (slabs s ! i)) 32)"
proof -
  let ?e = "entry_size (slabs s ! i)"
  let ?xs = "entries_of (phys2virt s p) ?e 32"
  have i: "i < length (slabs s)" using slab_for_fits [OF assms(2)] by simp
  obtain s0 where s0: "heap_create_slab fuel i ?e 32 s = Inr s0" "slab_rep (cells s0) (slabs s0 ! i) ?xs"
    "slabs s0 = (slabs s)[i := slabs s0 ! i]" "entry_size (slabs s0 ! i) = ?e"
    using heap_create_slab_ok [of fuel s 32 pm' p i ?e] assms(4-7) i by auto
  have f: "heap_slab_for (slabs s0) (unat sz) = Some i" using slab_for_update [OF s0(4)] s0(3) assms(2) by metis
  have "?xs \<noteq> []" using assms(7) by (simp add: entries_of_def)
  then have "first_free (slabs s0 ! i) \<noteq> NULL" using s0(2) by (auto simp: slab_rep_def neq_Nil_conv)
  moreover have "i < length (slabs s0)" using i by (subst s0(3)) simp
  ultimately have "kmalloc fuel sz s = kmalloc fuel sz s0"
    using assms(1-3) i f s0(1) by (simp add: kmalloc_def kalloc_def heap_allocate_from_slab_def)
  with f s0(2) show ?thesis by blast
qed

lemma spaced_nth:
  "spaced e xs \<Longrightarrow> j < length xs \<Longrightarrow> k < length xs \<Longrightarrow> j \<noteq> k \<Longrightarrow> xs ! j + e \<le> xs ! k \<or> xs ! k + e \<le> xs ! j"
  unfolding spaced_def by (metis linorder_neqE_nat nth_eq_iff_index_eq nth_mem)

section \<open>Properties\<close>

text \<open>A new slab is well formed: its free list holds as many entries as fit behind the header, each lies between the
  header and the end of the pages, no two overlap, and the header names the slab.\<close>

theorem slab_create_partition:
  assumes "phys_alloc fuel (pm s) (of_nat pages) 0 = Inr (pm', p)" "i < length (slabs s)" "8 dvd e" "0 < e"
    and "0 < slab_entries e pages"
  shows "\<exists>s' xs. heap_create_slab fuel i e pages s = Inr s' \<and> slab_rep (cells s') (slabs s' ! i) xs \<and>
    length xs = slab_entries e pages \<and> spaced e xs \<and> cells s' (phys2virt s p) = slab_at i \<and>
    (\<forall>x\<in>set xs. phys2virt s p + 8 \<le> x \<and> x + e \<le> phys2virt s p + pages * 4096)"
proof -
  let ?xs = "entries_of (phys2virt s p) e pages"
  obtain s' where "heap_create_slab fuel i e pages s = Inr s'" "slab_rep (cells s') (slabs s' ! i) ?xs"
    "cells s' (phys2virt s p) = slab_at i"
    using heap_create_slab_ok [OF assms] by blast
  moreover have "length ?xs = slab_entries e pages" by (simp add: entries_of_def)
  ultimately show ?thesis using entries_spaced [OF assms(4)] entries_inside [OF assms(4)] by blast
qed

text \<open>C25: Consecutive allocations never overlap. From an exhausted slab on, whose pages the physical memory manager
  provides, \<^verbatim>\<open>kmalloc\<close> of one size returns as many objects as the 32 pages hold behind the header; every one of
  them, the last included, has room for the request, in bytes of those pages that belong to no other and not to the
  header. The entry size is a positive multiple of eight, as every slab of \<^verbatim>\<open>heap_init\<close> has.\<close>

theorem kmalloc_disjoint:
  assumes "sz < 4096" "heap_slab_for (slabs s) (unat sz) = Some i" "first_free (slabs s ! i) = NULL"
    and "e = entry_size (slabs s ! i)" "8 dvd e" "0 < e" "phys_alloc fuel (pm s) 32 0 = Inr (pm', p)"
    and "0 < n" "n \<le> slab_entries e 32"
  shows "\<exists>s' xs. kmallocs fuel sz n s = Inr (s', xs) \<and> length xs = n \<and> unat sz \<le> e \<and>
    (\<forall>j<n. phys2virt s p + 8 \<le> xs ! j \<and> xs ! j + e \<le> phys2virt s p + 32 * 4096) \<and>
    (\<forall>j<n. \<forall>k<n. j \<noteq> k \<longrightarrow> xs ! j + e \<le> xs ! k \<or> xs ! k + e \<le> xs ! j)"
proof -
  let ?all = "entries_of (phys2virt s p) e 32"
  let ?xs = "take n ?all"
  have len: "length ?xs = n" using assms(9) by (simp add: entries_of_def)
  obtain s0 where s0: "kmalloc fuel sz s = kmalloc fuel sz s0" "heap_slab_for (slabs s0) (unat sz) = Some i"
    "slab_rep (cells s0) (slabs s0 ! i) ?all"
    using kmalloc_exhausted [of sz s i fuel pm' p] assms by auto
  have "slab_rep (cells s0) (slabs s0 ! i) (?xs @ drop n ?all)" using s0(3) by simp
  then obtain s' where "kmallocs fuel sz n s0 = Inr (s', ?xs)"
    using kmallocs_ok [OF assms(1) s0(2), of ?xs "drop n ?all" fuel] len by auto
  moreover have "kmallocs fuel sz n s = kmallocs fuel sz n s0" using assms(8) s0(1) by (cases n) simp_all
  moreover have "\<forall>j<n. \<forall>k<n. j \<noteq> k \<longrightarrow> ?xs ! j + e \<le> ?xs ! k \<or> ?xs ! k + e \<le> ?xs ! j"
    using spaced_nth [OF entries_spaced [OF assms(6)], of _ "phys2virt s p" 32] len by simp
  moreover have "\<forall>j<n. phys2virt s p + 8 \<le> ?xs ! j \<and> ?xs ! j + e \<le> phys2virt s p + 32 * 4096"
    using entries_inside [OF assms(6), of _ "phys2virt s p" 32] nth_mem [of _ ?xs] len in_set_takeD by metis
  moreover have "unat sz \<le> e" using slab_for_fits [OF assms(2)] assms(4) by simp
  ultimately show ?thesis using len by auto
qed

text \<open>C17: A small object is freed to the slab it came from: when the slab's pages are aligned to the slab size and the object is not on a page
  boundary, \<^verbatim>\<open>kmalloc\<close> returns the first free entry with its words cleared, and \<^verbatim>\<open>kfree\<close> of it finds the
  slab through the header and restores the free list.\<close>

theorem kmalloc_kfree_round_trip:
  assumes "sz < 4096" "heap_slab_for (slabs s) (unat sz) = Some i" "slab_rep (cells s) (slabs s ! i) (x # xs)"
    and "slab_start (slabs s ! i) mod 131072 = 0" "slab_start (slabs s ! i) + 8 \<le> x" "x < slab_start (slabs s ! i) + 131072"
    and "x mod 4096 \<noteq> 0" "cells s (slab_start (slabs s ! i)) = slab_at i"
  shows "\<exists>s1 s2. kmalloc fuel sz s = Inr (s1, x) \<and> (\<forall>b. x \<le> b \<and> b < x + entry_size (slabs s ! i) \<longrightarrow> cells s1 b = 0) \<and>
    kfree x s1 = Inr s2 \<and> slab_rep (cells s2) (slabs s2 ! i) (x # xs)"
proof -
  let ?sl = "slabs s ! i"
  obtain s1 sl where s1: "kmalloc fuel sz s = Inr (s1, x)"
    "s1 = s\<lparr>cells := \<lambda>b. if x \<le> b \<and> b < x + entry_size ?sl then 0 else cells s b, slabs := (slabs s)[i := sl]\<rparr>"
    "slab_rep (cells s1) sl xs" "entry_size sl = entry_size ?sl" "slab_start sl = slab_start ?sl" "slab_end sl = slab_end ?sl"
    using kmalloc_ok [OF assms(1-3)] by blast
  have i: "i < length (slabs s)" using slab_for_fits [OF assms(2)] by simp
  have r: "spaced (entry_size sl) (x # xs)" "slab_start sl \<le> x" "x \<le> slab_end sl"
    using assms(3) s1(4-6) by (auto simp: slab_rep_def)
  have "x \<noteq> NULL" using assms(5) by simp
  obtain m sl' where put: "put_entry (cells s1) sl x = (m, sl')" "slab_rep m sl' (x # xs)"
    using put_entry_ok [OF s1(3) r(1) \<open>x \<noteq> NULL\<close> r(2,3)] by blast
  have "slab_header x = slab_start ?sl" by (rule slab_header_aligned) (use assms(4-6) in simp_all)
  then have "cells s1 (slab_header x) = slab_at i" using s1(2) assms(5,8) by simp
  moreover have "slabs s1 ! i = sl" "length (slabs s1) = length (slabs s)" using s1(2) i by simp_all
  ultimately have "kfree x s1 = Inr (s1\<lparr>cells := m, slabs := (slabs s1)[i := sl']\<rparr>)"
    using assms(7) put(1) i \<open>x \<noteq> NULL\<close> by (simp add: kfree_def kfree_inner_def heap_free_in_slab_def slab_at_def)
  moreover have "slab_rep m ((slabs s1)[i := sl'] ! i) (x # xs)" using put(2) s1(2) i by simp
  ultimately show ?thesis using s1(1,2) by auto
qed

text \<open>A heap with one slab of 64-byte entries, two of them free.\<close>

definition demo_heap :: heap where
  "demo_heap = \<lparr>pm = demo_pmm, cells = (\<lambda>_. 0)(0x20000 := 1, 0x20040 := 0x20080),
     slabs = [\<lparr>first_free = 0x20040, entry_size = 64, slab_start = 0x20000, slab_end = 0x20000 + 8 * 0x20000\<rparr>], hhdm_offset = 0x1000000\<rparr>"

lemma demo_heap_rep:
  "slab_rep (cells demo_heap) (slabs demo_heap ! 0) [0x20040, 0x20080]" "heap_slab_for (slabs demo_heap) 40 = Some 0"
  by (auto simp: slab_rep_def demo_heap_def spaced_def heap_slab_for_def)

lemma demo_pages: "\<exists>q q'. phys_alloc 1 q 32 0 = Inr (q', 0x10000)"
proof -
  obtain q where q: "pmm_rep q 0 [5 \<mapsto> [201, 202]] [203] (\<lambda>_. [])" "4 \<le> proom q" "blocks q = blocks demo_pmm"
    using demo_pmm_ready by blast
  have r: "round_pages 32 = 2 ^ 5" "start_address (demo_block 0x10000) = 0x10000" "takeable q 0 (5 + 0) [202]"
    by (simp_all add: round_pages_def is_power_of_two_def demo_block_def takeable_def)
  show ?thesis using phys_alloc_ok [OF q(1) demo_alloc_ready(2) [OF q(3,2)] _ r(3), of 1 32] r by auto
qed

theorem kmalloc_disjoint_witness:
  "\<exists>s s' xs. kmallocs 1 40 2047 s = Inr (s', xs) \<and> (\<forall>j<2047. \<forall>k<2047. j \<noteq> k \<longrightarrow> xs ! j + 64 \<le> xs ! k \<or> xs ! k + 64 \<le> xs ! j)"
proof -
  obtain q q' where q: "phys_alloc 1 q 32 0 = Inr (q', 0x10000)" using demo_pages by blast
  let ?s = "demo_heap\<lparr>pm := q, slabs := [\<lparr>first_free = NULL, entry_size = 64, slab_start = 0, slab_end = 0\<rparr>]\<rparr>"
  have "heap_slab_for (slabs ?s) (unat (40 :: 64 word)) = Some 0" "slab_entries 64 32 = 2047"
    by (simp_all add: heap_slab_for_def slab_entries_def header_offset_def)
  then obtain s' xs where "kmallocs 1 40 2047 ?s = Inr (s', xs)" "\<forall>j<2047. \<forall>k<2047. j \<noteq> k \<longrightarrow> xs ! j + 64 \<le> xs ! k \<or> xs ! k + 64 \<le> xs ! j"
    using kmalloc_disjoint [of 40 ?s 0 64 1 q' "0x10000" 2047] q by auto
  then show ?thesis by blast
qed

theorem kmalloc_kfree_round_trip_witness:
  "\<exists>s1 s2. kmalloc 0 40 demo_heap = Inr (s1, 0x20040) \<and> kfree 0x20040 s1 = Inr s2 \<and>
    slab_rep (cells s2) (slabs s2 ! 0) [0x20040, 0x20080]"
proof -
  have "slab_start (slabs demo_heap ! 0) = 0x20000" "cells demo_heap 0x20000 = slab_at 0"
    by (simp_all add: demo_heap_def slab_at_def)
  then show ?thesis
    using kmalloc_kfree_round_trip [of 40 demo_heap 0 "0x20040" "[0x20080]" 0] demo_heap_rep by auto
qed

theorem slab_create_partition_witness:
  "\<exists>s s' xs. heap_create_slab 1 0 64 32 s = Inr s' \<and> slab_rep (cells s') (slabs s' ! 0) xs \<and> length xs = 2047"
proof -
  obtain q q' where q: "phys_alloc 1 q 32 0 = Inr (q', 0x10000)" using demo_pages by blast
  let ?s = "demo_heap\<lparr>pm := q\<rparr>"
  have n: "slab_entries 64 32 = 2047" by (simp add: slab_entries_def header_offset_def)
  have "\<exists>s' xs. heap_create_slab 1 0 64 32 ?s = Inr s' \<and> slab_rep (cells s') (slabs s' ! 0) xs \<and>
    length xs = slab_entries 64 32 \<and> spaced 64 xs \<and> cells s' (phys2virt ?s 0x10000) = slab_at 0 \<and>
    (\<forall>x\<in>set xs. phys2virt ?s 0x10000 + 8 \<le> x \<and> x + 64 \<le> phys2virt ?s 0x10000 + 32 * 4096)"
    by (rule slab_create_partition) (use q n in \<open>simp_all add: demo_heap_def\<close>)
  with n show ?thesis by auto
qed

end
