(* ===== verification/Locks.thy ===== *)
theory Locks
  imports Interfaces Strings
begin

text \<open>
  \<^verbatim>\<open>data_structures/concurrency/spinlock.c\<close> and \<^verbatim>\<open>mutex.c\<close> with the atomic exchange of
  \<^verbatim>\<open>atomic_operations.c\<close>. The routines are modelled twice: as functions of one processor, and for the
  spinlock as a machine in which the processors take turns at every access to the shared lock, which is
  what mutual exclusion is about. The build defines \<^verbatim>\<open>FORCE_DEADLOCKS\<close>: a processor that has failed to take a lock \<open>10 ^ 9\<close> times
  takes it by force. The messages that are printed then, and for two particular lock addresses, are left out.
\<close>

section \<open>Spinlocks\<close>

record spinlock =
  locked :: "64 word"
  lock_id :: "64 word"
  lcpu :: addr
  recursion_depth :: "64 word"
  holding_process :: addr

definition initlock :: "spinlock \<Rightarrow> 64 word \<Rightarrow> spinlock" where
  "initlock l n = l\<lparr>lock_id := n, locked := 0, lcpu := NULL, recursion_depth := 0\<rparr>"

text \<open>
  The exchange loop. \<open>found n\<close> is the value the exchange number \<open>n\<close> finds in the field; other processors decide it. The result is the value
  that is returned, false when the field was overwritten by force, and the number of exchanges that failed. In both cases the field holds the new value.
\<close>

abbreviation (input) DEADLOCK_DETECTION_THRESHOLD :: nat where "DEADLOCK_DETECTION_THRESHOLD \<equiv> 1000000000"

function arch_atomic_swap :: "(nat \<Rightarrow> 64 word) \<Rightarrow> nat \<Rightarrow> bool \<times> nat" where
  "arch_atomic_swap found loops =
     (if found loops = 0 then (True, loops)
      else if Suc loops \<ge> DEADLOCK_DETECTION_THRESHOLD then (False, Suc loops)
      else arch_atomic_swap found (Suc loops))"
  by pat_completeness auto
termination
  by (relation "measure (\<lambda>(found, loops). DEADLOCK_DETECTION_THRESHOLD - loops)") auto

declare arch_atomic_swap.simps [simp del]

definition arch_atomic_swap_or_return :: "64 word \<Rightarrow> 64 word \<Rightarrow> bool \<times> 64 word" where
  "arch_atomic_swap_or_return field new_value = (field = 0, new_value)"

text \<open>
  One processor: \<open>me\<close> and \<open>process\<close> are what \<^verbatim>\<open>my_cpu\<close> and \<^verbatim>\<open>current_process\<close> return, \<open>bsp\<close> is the flag of
  the bootstrap, and the interrupt flag of the processor is passed through.
\<close>

definition acquire_spinlock :: "bool \<Rightarrow> addr \<Rightarrow> addr \<Rightarrow> (nat \<Rightarrow> 64 word) \<Rightarrow> spinlock \<times> bool \<Rightarrow> spinlock \<times> bool" where
  "acquire_spinlock bsp me process found = (\<lambda>(l, irq).
     if bsp then (l, irq)
     else if lcpu l = me \<and> holding_process l = process then
       (l\<lparr>recursion_depth := recursion_depth l + 1\<rparr>, irq)
     else
       let (ret, loops) = arch_atomic_swap found 0 in
       (l\<lparr>locked := 1, lcpu := me, holding_process := process\<rparr>, False))"

definition release_spinlock :: "spinlock \<times> bool \<Rightarrow> spinlock \<times> bool" where
  "release_spinlock = (\<lambda>(l, irq).
     let l = (if recursion_depth l > 0 then l\<lparr>recursion_depth := recursion_depth l - 1\<rparr> else l) in
     if recursion_depth l = 0 then
       (l\<lparr>lcpu := NULL, holding_process := NULL, locked := 0, recursion_depth := 0\<rparr>, True)
     else (l, irq))"

definition try_lock :: "addr \<Rightarrow> spinlock \<times> bool \<Rightarrow> bool \<times> spinlock \<times> bool" where
  "try_lock me = (\<lambda>(l, irq).
     case arch_atomic_swap_or_return (locked l) 1 of (ok, v) \<Rightarrow>
       let l = l\<lparr>locked := v\<rparr> in
       if \<not> ok then (False, l, irq)
       else let l = (if lcpu l = me then l\<lparr>recursion_depth := recursion_depth l + 1\<rparr> else l)
            in (True, l\<lparr>lcpu := me\<rparr>, False))"

section \<open>Mutexes\<close>

record mutex =
  mlocked :: "64 word"
  holder :: addr
  mcpu :: "64 word"
  lock_name :: "8 word list"
  mreserved :: "64 word"

abbreviation (input) MUTEX_NAME_LENGTH :: nat where "MUTEX_NAME_LENGTH \<equiv> 30"

definition try_mutex :: "mutex \<Rightarrow> bool \<times> mutex" where
  "try_mutex m = (case arch_atomic_swap_or_return (mlocked m) 1 of (ok, v) \<Rightarrow> (ok, m\<lparr>mlocked := v\<rparr>))"

text \<open>
  The loop of \<^verbatim>\<open>acquire_mutex\<close>: a failed attempt sleeps on the mutex; \<open>wakes\<close> lists the states of the mutex at
  the times the process is woken. When they are used up the process is still asleep.
\<close>

fun acquire_mutex :: "addr \<Rightarrow> 64 word \<Rightarrow> mutex \<Rightarrow> mutex list \<Rightarrow> mutex option" where
  "acquire_mutex process cpu m wakes =
     (case try_mutex m of (ok, m) \<Rightarrow>
        if ok then Some (m\<lparr>holder := process, mcpu := cpu\<rparr>)
        else (case wakes of [] \<Rightarrow> None | m' # rest \<Rightarrow> acquire_mutex process cpu m' rest))"

definition release_mutex :: "mutex \<Rightarrow> mutex" where
  "release_mutex m = m\<lparr>mlocked := 0, holder := NULL, mcpu := - 1\<rparr>"

definition init_mutex :: "8 word list \<Rightarrow> mutex \<Rightarrow> mutex res" where
  "init_mutex name m =
     bindR (safe_strcpy (lock_name m) 0 name MUTEX_NAME_LENGTH) (\<lambda>n.
       if MUTEX_NAME_LENGTH + 1 < length n then
         Inr (m\<lparr>mlocked := 0, holder := NULL, mcpu := - 1, lock_name := n[MUTEX_NAME_LENGTH + 1 := 0], mreserved := 0\<rparr>)
       else Inl OutOfBounds)"

section \<open>The machine\<close>

text \<open>
  Where a processor is in \<^verbatim>\<open>acquire_spinlock\<close> or \<^verbatim>\<open>release_spinlock\<close>: each constructor names the next access to
  shared memory or to the interrupt flag. \<open>Swap n\<close> has failed \<open>n\<close> times, \<open>Force\<close> is about to overwrite the lock, and \<open>Critical\<close> is the
  caller's code between an acquisition and its release.
\<close>

datatype pc = Idle | Check_Cpu | Check_Process | Deepen | Mask | Swap nat | Force | Set_Cpu | Set_Process | Critical
  | Lower | Test_Depth | Clear_Cpu | Clear_Process | Unlock | Clear_Depth | Unmask

text \<open>
  \<open>bsp\<close> is the flag of the bootstrap, \<open>nest\<close> counts the acquisitions a processor has completed and not begun to release, and \<open>forced\<close> are the
  processors that have taken the lock by force; the last two are not in the code.
\<close>

record machine =
  lock :: spinlock
  bsp :: bool
  pc_of :: "nat \<Rightarrow> pc"
  irq_of :: "nat \<Rightarrow> bool"
  nest :: "nat \<Rightarrow> nat"
  forced :: "nat set"

text \<open>The address of the processor's \<^verbatim>\<open>struct cpu\<close> and of the process it runs; neither is NULL.\<close>

definition cpu_at :: "nat \<Rightarrow> addr" where "cpu_at c = 2 * c + 1"
definition process_at :: "nat \<Rightarrow> addr" where "process_at c = 2 * c + 2"

definition goto :: "nat \<Rightarrow> pc \<Rightarrow> machine \<Rightarrow> machine" where
  "goto c p s = s\<lparr>pc_of := (pc_of s)(c := p)\<rparr>"

definition resume :: "nat \<Rightarrow> machine \<Rightarrow> machine" where
  "resume c s = goto c (if nest s c = 0 then Idle else Critical) s"

definition enter :: "nat \<Rightarrow> machine \<Rightarrow> machine" where
  "enter c s = goto c Critical (s\<lparr>nest := (nest s)(c := Suc (nest s c))\<rparr>)"

text \<open>The next access of processor \<open>c\<close>.\<close>

definition run :: "nat \<Rightarrow> machine \<Rightarrow> machine" where
  "run c s = (let l = lock s in case pc_of s c of
     Idle \<Rightarrow> s
   | Check_Cpu \<Rightarrow> goto c (if lcpu l = cpu_at c then Check_Process else Mask) s
   | Check_Process \<Rightarrow> goto c (if holding_process l = process_at c then Deepen else Mask) s
   | Deepen \<Rightarrow> enter c (s\<lparr>lock := l\<lparr>recursion_depth := recursion_depth l + 1\<rparr>\<rparr>)
   | Mask \<Rightarrow> goto c (Swap 0) (s\<lparr>irq_of := (irq_of s)(c := False)\<rparr>)
   | Swap n \<Rightarrow> goto c (if locked l = 0 then Set_Cpu
                        else if Suc n = DEADLOCK_DETECTION_THRESHOLD then Force else Swap (Suc n))
                      (s\<lparr>lock := l\<lparr>locked := 1\<rparr>\<rparr>)
   | Force \<Rightarrow> goto c Set_Cpu (s\<lparr>lock := l\<lparr>locked := 1\<rparr>, forced := insert c (forced s)\<rparr>)
   | Set_Cpu \<Rightarrow> goto c Set_Process (s\<lparr>lock := l\<lparr>lcpu := cpu_at c\<rparr>\<rparr>)
   | Set_Process \<Rightarrow> enter c (s\<lparr>lock := l\<lparr>holding_process := process_at c\<rparr>\<rparr>)
   | Critical \<Rightarrow> s
   | Lower \<Rightarrow> goto c Test_Depth (if recursion_depth l > 0 then s\<lparr>lock := l\<lparr>recursion_depth := recursion_depth l - 1\<rparr>\<rparr> else s)
   | Test_Depth \<Rightarrow> if recursion_depth l = 0 then goto c Clear_Cpu s else resume c s
   | Clear_Cpu \<Rightarrow> goto c Clear_Process (s\<lparr>lock := l\<lparr>lcpu := NULL\<rparr>\<rparr>)
   | Clear_Process \<Rightarrow> goto c Unlock (s\<lparr>lock := l\<lparr>holding_process := NULL\<rparr>\<rparr>)
   | Unlock \<Rightarrow> goto c Clear_Depth (s\<lparr>lock := l\<lparr>locked := 0\<rparr>\<rparr>)
   | Clear_Depth \<Rightarrow> goto c Unmask (s\<lparr>lock := l\<lparr>recursion_depth := 0\<rparr>\<rparr>)
   | Unmask \<Rightarrow> resume c (s\<lparr>irq_of := (irq_of s)(c := True)\<rparr>))"

text \<open>
  The steps of the machine. A processor may call \<^verbatim>\<open>acquire_spinlock\<close> while it holds fewer than \<open>N\<close>
  acquisitions, and \<^verbatim>\<open>release_spinlock\<close> when it is in a critical section. During the bootstrap only processor 0 runs, and its acquisitions
  return at once; \<open>Boot_Done\<close> is the assignment of \<^verbatim>\<open>kernel_bootstrap\<close>, which is outside of every critical section. \<open>Release_Other\<close> is the release
  of another lock between two calls, which turns the interrupts of the processor on.
\<close>

datatype action = Acquire nat | Release nat | Run nat | Release_Other nat | Boot_Done

definition act :: "nat \<Rightarrow> action \<Rightarrow> machine \<Rightarrow> machine option" where
  "act N a s = (case a of
     Acquire c \<Rightarrow>
       if (pc_of s c = Idle \<or> pc_of s c = Critical) \<and> nest s c < N then
         (if bsp s then (if c = 0 then Some (enter c s) else None) else Some (goto c Check_Cpu s))
       else None
   | Release c \<Rightarrow> if pc_of s c = Critical then Some (goto c Lower (s\<lparr>nest := (nest s)(c := nest s c - 1)\<rparr>)) else None
   | Run c \<Rightarrow> Some (run c s)
   | Release_Other c \<Rightarrow> if pc_of s c = Idle \<or> pc_of s c = Critical then Some (s\<lparr>irq_of := (irq_of s)(c := True)\<rparr>) else None
   | Boot_Done \<Rightarrow> if pc_of s 0 = Idle then Some (s\<lparr>bsp := False\<rparr>) else None)"

fun acts :: "nat \<Rightarrow> action list \<Rightarrow> machine \<Rightarrow> machine option" where
  "acts N [] s = Some s"
| "acts N (a # as) s = (case act N a s of None \<Rightarrow> None | Some s \<Rightarrow> acts N as s)"

text \<open>A lock that has just been initialised in zeroed memory during the bootstrap, with every processor outside and interrupts on.\<close>

definition fresh_lock :: spinlock where
  "fresh_lock = initlock \<lparr>locked = 0, lock_id = 0, lcpu = NULL, recursion_depth = 0, holding_process = NULL\<rparr> 0"

definition start :: machine where
  "start = \<lparr>lock = fresh_lock, bsp = True, pc_of = \<lambda>_. Idle, irq_of = \<lambda>_. True, nest = \<lambda>_. 0, forced = {}\<rparr>"

inductive reachable :: "nat \<Rightarrow> machine \<Rightarrow> bool" for N where
  start: "reachable N start"
| step: "reachable N s \<Longrightarrow> act N a s = Some s' \<Longrightarrow> reachable N s'"

section \<open>Mutual exclusion\<close>

text \<open>
  The processor that has won the exchange and has not yet written the lock free. With one acquisition per
  processor, and as long as nobody uses force: there is at most one owner, the lock is taken exactly while there is one, the two fields name
  the owner between its writes to them and nobody else, and the depth stays zero.
\<close>

definition owner_pc :: "pc \<Rightarrow> bool" where
  "owner_pc p \<longleftrightarrow> p \<in> {Set_Cpu, Set_Process, Critical, Lower, Test_Depth, Clear_Cpu, Clear_Process, Unlock}"

definition named_pc :: "pc \<Rightarrow> bool" where
  "named_pc p \<longleftrightarrow> p \<in> {Set_Process, Critical, Lower, Test_Depth, Clear_Cpu}"

definition holder_pc :: "pc \<Rightarrow> bool" where
  "holder_pc p \<longleftrightarrow> p \<in> {Critical, Lower, Test_Depth, Clear_Cpu, Clear_Process}"

definition owners :: "machine \<Rightarrow> nat set" where
  "owners s = {c. owner_pc (pc_of s c)}"

definition shared_ok :: "spinlock \<Rightarrow> nat set \<Rightarrow> bool" where
  "shared_ok l C \<longleftrightarrow> recursion_depth l = 0 \<and> (locked l = 0 \<longleftrightarrow> C = {}) \<and> (\<forall>c\<in>C. \<forall>d\<in>C. c = d)"

definition local_ok :: "spinlock \<Rightarrow> pc \<Rightarrow> nat \<Rightarrow> nat \<Rightarrow> bool" where
  "local_ok l p n c \<longleftrightarrow> p \<noteq> Check_Process \<and> p \<noteq> Deepen \<and> n = (if p = Critical then 1 else 0) \<and>
     (lcpu l = cpu_at c \<longleftrightarrow> named_pc p) \<and> (holder_pc p \<longrightarrow> holding_process l = process_at c)"

definition lock_inv :: "machine \<Rightarrow> bool" where
  "lock_inv s \<longleftrightarrow> shared_ok (lock s) (owners s) \<and> (\<forall>c. local_ok (lock s) (pc_of s c) (nest s c) c)"

text \<open>During the bootstrap the lock stays free, and only processor 0 is between an acquisition and the end of its release.\<close>

definition boot_inv :: "machine \<Rightarrow> bool" where
  "boot_inv s \<longleftrightarrow> locked (lock s) = 0 \<and> lcpu (lock s) = NULL \<and> recursion_depth (lock s) = 0 \<and>
     (\<forall>c. nest s c = (if pc_of s c = Critical then 1 else 0) \<and>
       pc_of s c \<in> (if c = 0 then {Idle, Critical, Lower, Test_Depth, Clear_Cpu, Clear_Process, Unlock, Clear_Depth, Unmask} else {Idle}))"

definition machine_inv :: "machine \<Rightarrow> bool" where
  "machine_inv s \<longleftrightarrow> (if bsp s then boot_inv s else forced s = {} \<longrightarrow> lock_inv s)"

lemma cpu_at_inject [simp]: "cpu_at c = cpu_at d \<longleftrightarrow> c = d" "cpu_at c \<noteq> 0" "0 \<noteq> cpu_at c"
  by (auto simp: cpu_at_def)

lemmas pc_defs = owner_pc_def named_pc_def holder_pc_def
lemmas machine_simps = act_def run_def goto_def resume_def enter_def Let_def

lemma machine_inv_start: "machine_inv start"
  by (simp add: machine_inv_def boot_inv_def start_def fresh_lock_def initlock_def)

text \<open>A step of processor \<open>c\<close> changes the lock and the local state of \<open>c\<close>.\<close>

lemma lock_inv_step:
  assumes "lock_inv s" "\<And>d. d \<noteq> c \<Longrightarrow> pc_of s' d = pc_of s d \<and> nest s' d = nest s d"
    and "shared_ok (lock s') (if owner_pc (pc_of s' c) then insert c (owners s) else owners s - {c})"
    and "local_ok (lock s') (pc_of s' c) (nest s' c) c"
    and "\<And>d. d \<noteq> c \<Longrightarrow> local_ok (lock s') (pc_of s d) (nest s d) d"
  shows "lock_inv s'"
proof -
  have "d \<in> owners s' \<longleftrightarrow> d \<in> (if owner_pc (pc_of s' c) then insert c (owners s) else owners s - {c})" for d
    using assms(2) [of d] by (cases "d = c") (simp_all add: owners_def)
  then have "owners s' = (if owner_pc (pc_of s' c) then insert c (owners s) else owners s - {c})" by blast
  moreover have "local_ok (lock s') (pc_of s' d) (nest s' d) d" for d
    using assms(2,4,5) by (cases "d = c") auto
  ultimately show ?thesis using assms(3) by (simp add: lock_inv_def)
qed

lemma lock_invD:
  assumes "lock_inv s"
  shows "shared_ok (lock s) (owners s)" "local_ok (lock s) (pc_of s c) (nest s c) c" "c \<in> owners s \<longleftrightarrow> owner_pc (pc_of s c)"
  using assms by (auto simp: lock_inv_def owners_def)

text \<open>Somebody else's fields are not touched by a processor that is not the only owner.\<close>

lemma not_owner: "shared_ok l C \<Longrightarrow> c \<in> C \<Longrightarrow> d \<noteq> c \<Longrightarrow> d \<notin> C"
  by (auto simp: shared_ok_def)

lemma run_keeps_inv:
  assumes "lock_inv s" "forced (run c s) = {}"
  shows "lock_inv (run c s)"
proof (rule lock_inv_step [OF assms(1), of c])
  note inv = lock_invD [OF assms(1)]
  note defs = run_def Let_def goto_def resume_def enter_def local_ok_def pc_defs
  have nf: "pc_of s c \<noteq> Force" using assms(2) by (auto simp: defs)
  show "pc_of (run c s) d = pc_of s d \<and> nest (run c s) d = nest s d" if "d \<noteq> c" for d
    using that by (simp add: run_def Let_def goto_def resume_def enter_def split: pc.split)
  show "local_ok (lock (run c s)) (pc_of (run c s) c) (nest (run c s) c) c"
    using inv(1) inv(2) [of c] nf by (cases "pc_of s c") (auto simp: defs shared_ok_def)
  show "shared_ok (lock (run c s)) (if owner_pc (pc_of (run c s) c) then insert c (owners s) else owners s - {c})"
    using inv(1) inv(2) [of c] inv(3) [of c] nf by (cases "pc_of s c") (auto simp: defs shared_ok_def insert_absorb)
  show "local_ok (lock (run c s)) (pc_of s d) (nest s d) d" if "d \<noteq> c" for d
    using that inv(2) [of c] inv(2) [of d] inv(3) [of c] inv(3) [of d] not_owner [OF inv(1), of c d] nf
    by (cases "pc_of s c"; cases "pc_of s d") (auto simp: defs)
qed

lemma run_bsp: "bsp (run c s) = bsp s"
  by (simp add: machine_simps split: pc.split)

lemma forced_grows: "act N a s = Some s' \<Longrightarrow> forced s \<subseteq> forced s'"
  by (auto simp: machine_simps split: action.splits pc.splits if_splits)

lemma act_keeps_lock_inv:
  assumes "lock_inv s" "\<not> bsp s" "act 1 a s = Some s'" "forced s' = {}"
  shows "lock_inv s'"
proof (cases a)
  case (Run c)
  with assms run_keeps_inv [OF assms(1), of c] show ?thesis by (auto simp: act_def)
next
  case (Acquire c)
  have c: "pc_of s c = Idle" "s' = goto c Check_Cpu s"
    using lock_invD(2) [OF assms(1), of c] assms(2,3) Acquire by (auto simp: act_def local_ok_def split: if_splits)
  then show ?thesis
    using lock_invD(1) [OF assms(1)] lock_invD(2,3) [OF assms(1)]
    by (intro lock_inv_step [OF assms(1), of c]) (simp_all add: goto_def pc_defs local_ok_def)
next
  case (Release c)
  have c: "pc_of s c = Critical" "s' = goto c Lower (s\<lparr>nest := (nest s)(c := nest s c - 1)\<rparr>)"
    using assms(3) Release by (auto simp: act_def split: if_splits)
  show ?thesis
  proof (rule lock_inv_step [OF assms(1), of c])
    show "local_ok (lock s') (pc_of s d) (nest s d) d" for d using lock_invD(2) [OF assms(1), of d] c(2) by (simp add: goto_def)
  qed (use lock_invD(1) [OF assms(1)] lock_invD(2,3) [OF assms(1), of c] c in \<open>simp_all add: goto_def pc_defs local_ok_def insert_absorb\<close>)
next
  case (Release_Other c)
  then obtain i where "s' = s\<lparr>irq_of := i\<rparr>" using assms(3) by (auto simp: act_def split: if_splits)
  then show ?thesis using assms(1) by (simp add: lock_inv_def owners_def)
next
  case Boot_Done
  then have "s' = s\<lparr>bsp := False\<rparr>" using assms(3) by (auto simp: act_def split: if_splits)
  then show ?thesis using assms(1) by (simp add: lock_inv_def owners_def)
qed

lemma boot_invD:
  assumes "boot_inv s"
  shows "locked (lock s) = 0" "lcpu (lock s) = NULL" "recursion_depth (lock s) = 0" "nest s c = (if pc_of s c = Critical then 1 else 0)"
    "c \<noteq> 0 \<Longrightarrow> pc_of s c = Idle" "pc_of s 0 \<in> {Idle, Critical, Lower, Test_Depth, Clear_Cpu, Clear_Process, Unlock, Clear_Depth, Unmask}"
proof -
  have c: "nest s c = (if pc_of s c = Critical then 1 else 0) \<and>
      pc_of s c \<in> (if c = 0 then {Idle, Critical, Lower, Test_Depth, Clear_Cpu, Clear_Process, Unlock, Clear_Depth, Unmask} else {Idle})" for c
    using assms unfolding boot_inv_def by blast
  show "locked (lock s) = 0" "lcpu (lock s) = NULL" "recursion_depth (lock s) = 0" using assms by (simp_all add: boot_inv_def)
  show "nest s c = (if pc_of s c = Critical then 1 else 0)" using c by blast
  show "pc_of s c = Idle" if "c \<noteq> 0" using c [of c] that by simp
  show "pc_of s 0 \<in> {Idle, Critical, Lower, Test_Depth, Clear_Cpu, Clear_Process, Unlock, Clear_Depth, Unmask}" using c [of 0] by simp
qed

text \<open>A step of processor 0 during the bootstrap.\<close>

lemma boot_inv_step:
  assumes "boot_inv s" "\<And>d. d \<noteq> 0 \<Longrightarrow> pc_of s' d = pc_of s d \<and> nest s' d = nest s d"
    "locked (lock s') = 0" "lcpu (lock s') = NULL" "recursion_depth (lock s') = 0" "nest s' 0 = (if pc_of s' 0 = Critical then 1 else 0)"
    "pc_of s' 0 \<in> {Idle, Critical, Lower, Test_Depth, Clear_Cpu, Clear_Process, Unlock, Clear_Depth, Unmask}"
  shows "boot_inv s'"
proof -
  have "pc_of s' c = Idle \<and> nest s' c = 0" if "c \<noteq> 0" for c
    using assms(2) [OF that] boot_invD(4,5) [OF assms(1), of c] that by simp
  with assms(3-) show ?thesis by (simp add: boot_inv_def)
qed

lemma run_keeps_boot_inv:
  assumes "boot_inv s"
  shows "boot_inv (run c s)"
proof (cases "c = 0")
  case False
  then have "run c s = s" using boot_invD(5) [OF assms] by (simp add: run_def)
  then show ?thesis using assms by simp
next
  case True
  note b = boot_invD(1,2,3,6) [OF assms] boot_invD(4) [OF assms, of 0]
  show ?thesis
    by (rule boot_inv_step [OF assms]) (use b True in \<open>auto simp: machine_simps\<close>)
qed

lemma act_keeps_boot_inv:
  assumes "boot_inv s" "bsp s" "act 1 a s = Some s'" "bsp s'"
  shows "boot_inv s'"
proof (cases a)
  case (Run c)
  with assms(3) run_keeps_boot_inv [OF assms(1)] show ?thesis by (auto simp: act_def)
next
  case (Acquire c)
  then have "c = 0" "pc_of s 0 = Idle \<or> pc_of s 0 = Critical" "nest s 0 < 1" "s' = enter 0 s"
    using assms(2,3) by (auto simp: act_def split: if_splits)
  then show ?thesis using boot_invD(1,2,3,6) [OF assms(1)] boot_invD(4) [OF assms(1), of 0] by (intro boot_inv_step [OF assms(1)]) (auto simp: enter_def goto_def)
next
  case (Release c)
  then have c: "pc_of s c = Critical" "s' = goto c Lower (s\<lparr>nest := (nest s)(c := nest s c - 1)\<rparr>)"
    using assms(3) by (auto simp: act_def split: if_splits)
  have "c = 0" using c(1) boot_invD(5) [OF assms(1), of c] by auto
  with c show ?thesis using boot_invD(1,2,3,6) [OF assms(1)] boot_invD(4) [OF assms(1), of 0] by (intro boot_inv_step [OF assms(1)]) (auto simp: goto_def)
next
  case (Release_Other c)
  then obtain i where "s' = s\<lparr>irq_of := i\<rparr>" using assms(3) by (auto simp: act_def split: if_splits)
  then show ?thesis using assms(1) by (simp add: boot_inv_def)
next
  case Boot_Done
  then show ?thesis using assms(3,4) by (auto simp: act_def split: if_splits)
qed

lemma boot_done_inv:
  assumes "boot_inv s" "pc_of s 0 = Idle"
  shows "lock_inv (s\<lparr>bsp := False\<rparr>)"
proof -
  have i: "pc_of s c = Idle" "nest s c = 0" for c
    using boot_invD(4,5) [OF assms(1), of c] assms(2) by (cases "c = 0"; simp)+
  then have "owners (s\<lparr>bsp := False\<rparr>) = {}" by (simp add: owners_def pc_defs)
  with i boot_invD(1-3) [OF assms(1)] show ?thesis by (simp add: lock_inv_def shared_ok_def local_ok_def pc_defs)
qed

lemma act_keeps_inv:
  assumes "machine_inv s" "act 1 a s = Some s'"
  shows "machine_inv s'"
proof (cases "bsp s")
  case True
  show ?thesis
  proof (cases "bsp s'")
    case True
    with \<open>bsp s\<close> assms act_keeps_boot_inv [of s a s'] show ?thesis by (simp add: machine_inv_def)
  next
    case False
    then have "a = Boot_Done" using assms(2) \<open>bsp s\<close> run_bsp by (auto simp: act_def goto_def enter_def split: action.splits if_splits)
    then have "s' = s\<lparr>bsp := False\<rparr>" "pc_of s 0 = Idle" using assms(2) by (auto simp: act_def split: if_splits)
    with \<open>bsp s\<close> assms(1) boot_done_inv [of s] show ?thesis by (simp add: machine_inv_def)
  qed
next
  case False
  have "\<not> bsp s'" using assms(2) False run_bsp by (auto simp: act_def goto_def enter_def split: action.splits if_splits)
  moreover have "lock_inv s'" if "forced s' = {}"
    using that forced_grows [OF assms(2)] act_keeps_lock_inv [OF _ False assms(2) that] assms(1) False by (auto simp: machine_inv_def)
  ultimately show ?thesis by (simp add: machine_inv_def)
qed

lemma reachable_inv: "reachable 1 s \<Longrightarrow> machine_inv s"
  by (induction rule: reachable.induct) (auto intro: machine_inv_start act_keeps_inv)

lemma acts_reachable: "reachable N s \<Longrightarrow> acts N as s = Some s' \<Longrightarrow> reachable N s'"
  by (induction as arbitrary: s) (auto intro: reachable.step split: option.splits)

text \<open>The runs of one processor through \<^verbatim>\<open>acquire_spinlock\<close> on a free lock, again on its own lock, and through \<^verbatim>\<open>release_spinlock\<close>.\<close>

definition acquiring :: "nat \<Rightarrow> action list" where
  "acquiring c = [Acquire c, Run c, Run c, Run c, Run c, Run c]"

definition deepening :: "nat \<Rightarrow> action list" where
  "deepening c = [Acquire c, Run c, Run c, Run c]"

definition releasing :: "nat \<Rightarrow> action list" where
  "releasing c = [Release c, Run c, Run c, Run c, Run c, Run c, Run c, Run c]"

lemma arch_atomic_swap_found:
  "\<forall>k. loops \<le> k \<and> k < n \<longrightarrow> found k \<noteq> 0 \<Longrightarrow> found n = 0 \<Longrightarrow> loops \<le> n \<Longrightarrow> n < DEADLOCK_DETECTION_THRESHOLD \<Longrightarrow>
    arch_atomic_swap found loops = (True, n)"
proof (induction "n - loops" arbitrary: loops)
  case 0
  then show ?case by (subst arch_atomic_swap.simps) simp
next
  case (Suc d)
  then have "arch_atomic_swap found (Suc loops) = (True, n)" "found loops \<noteq> 0" "Suc loops < DEADLOCK_DETECTION_THRESHOLD" by auto
  then show ?case by (subst arch_atomic_swap.simps) simp
qed

lemma arch_atomic_swap_forced:
  "\<forall>k. loops \<le> k \<and> k < DEADLOCK_DETECTION_THRESHOLD \<longrightarrow> found k \<noteq> 0 \<Longrightarrow> loops < DEADLOCK_DETECTION_THRESHOLD \<Longrightarrow>
    arch_atomic_swap found loops = (False, DEADLOCK_DETECTION_THRESHOLD)"
proof (induction "DEADLOCK_DETECTION_THRESHOLD - loops" arbitrary: loops)
  case 0
  then show ?case by simp
next
  case (Suc d)
  have "found loops \<noteq> 0" using Suc.prems by simp
  moreover have "arch_atomic_swap found (Suc loops) = (False, DEADLOCK_DETECTION_THRESHOLD)"
    if "Suc loops < DEADLOCK_DETECTION_THRESHOLD" using Suc.hyps(1) [of "Suc loops"] Suc.hyps(2) Suc.prems that by simp
  ultimately show ?case using Suc.prems(2) by (subst arch_atomic_swap.simps) simp
qed

text \<open>A processor that spins on a lock that is taken: \<open>k\<close> more exchanges fail.\<close>

lemma spin_reachable:
  assumes "reachable N s" "pc_of s c = Swap n" "locked (lock s) = 1" "n + k < DEADLOCK_DETECTION_THRESHOLD"
  shows "reachable N (goto c (Swap (n + k)) s)"
  using assms(4)
proof (induction k)
  case 0
  have "goto c (Swap n) s = s" using assms(2) by (simp add: goto_def fun_upd_idem)
  then show ?case using assms(1) by simp
next
  case (Suc k)
  have "act N (Run c) (goto c (Swap (n + k)) s) = Some (goto c (Swap (n + Suc k)) s)"
    using assms(3) Suc.prems by (simp add: machine_simps)
  with Suc show ?case using reachable.step by simp
qed

section \<open>Properties\<close>

text \<open>C11: Mutual exclusion. If no processor acquires the lock again while it holds it, then in every reachable state of every
  interleaving in which no processor has taken the lock by force, at most one processor is in its critical section. After the bootstrap the lock is
  then taken and its fields name the processor and its process.\<close>

theorem spinlock_mutual_exclusion:
  assumes "reachable 1 s" "forced s = {}" "pc_of s c = Critical"
  shows "(\<forall>d. pc_of s d = Critical \<longrightarrow> d = c) \<and>
    (\<not> bsp s \<longrightarrow> locked (lock s) \<noteq> 0 \<and> lcpu (lock s) = cpu_at c \<and> holding_process (lock s) = process_at c)"
proof (cases "bsp s")
  case True
  then have "boot_inv s" using reachable_inv [OF assms(1)] by (simp add: machine_inv_def)
  then have z: "pc_of s d \<noteq> Critical \<or> d = 0" for d by (cases "d = 0") (simp_all add: boot_invD(5))
  from z [of c] assms(3) have "c = 0" by simp
  with z True show ?thesis by auto
next
  case False
  then have inv: "lock_inv s" using reachable_inv [OF assms(1)] assms(2) by (simp add: machine_inv_def)
  have own: "d \<in> owners s" if "pc_of s d = Critical" for d using that by (simp add: owners_def owner_pc_def)
  show ?thesis using lock_invD(1) [OF inv] lock_invD(2) [OF inv, of c] own assms(3) by (auto simp: shared_ok_def local_ok_def pc_defs)
qed

theorem spinlock_mutual_exclusion_witness:
  "\<exists>s. reachable 1 s \<and> forced s = {} \<and> pc_of s 3 = Critical \<and> (\<forall>d. pc_of s d = Critical \<longrightarrow> d = 3) \<and> locked (lock s) \<noteq> 0 \<and> lcpu (lock s) = cpu_at 3"
proof -
  let ?as = "Boot_Done # acquiring 2 @ releasing 2 @ acquiring 3"
  obtain s where s: "acts 1 ?as start = Some s" "forced s = {}" "pc_of s 3 = Critical" "\<not> bsp s"
    by (simp add: acquiring_def releasing_def start_def fresh_lock_def initlock_def machine_simps cpu_at_def process_at_def)
  have "reachable 1 s" by (rule acts_reachable [OF reachable.start s(1)])
  from spinlock_mutual_exclusion [OF this s(2,3)] this s show ?thesis by blast
qed

text \<open>Force breaks mutual exclusion: when a processor stays in its critical section while another one fails to take the lock \<open>10 ^ 9\<close> times, both are in
  their critical sections.\<close>

theorem forced_spinlock_not_exclusive:
  "\<exists>s. reachable 1 s \<and> forced s = {1} \<and> pc_of s 0 = Critical \<and> pc_of s 1 = Critical"
proof -
  let ?as = "Boot_Done # acquiring 0 @ [Acquire 1, Run 1, Run 1]"
  obtain s where s: "acts 1 ?as start = Some s" "forced s = {}" "pc_of s 0 = Critical" "pc_of s 1 = Swap 0" "locked (lock s) = 1" "nest s 0 = 1"
    by (simp add: acquiring_def start_def fresh_lock_def initlock_def machine_simps cpu_at_def process_at_def)
  have "reachable 1 s" by (rule acts_reachable [OF reachable.start s(1)])
  from spin_reachable [OF this s(4,5), of 999999999] have r: "reachable 1 (goto 1 (Swap 999999999) s)" by simp
  obtain s' where "acts 1 [Run 1, Run 1, Run 1, Run 1] (goto 1 (Swap 999999999) s) = Some s'" "forced s' = {1}"
    "pc_of s' 0 = Critical" "pc_of s' 1 = Critical"
    using s by (simp add: machine_simps)
  with acts_reachable [OF r] show ?thesis by blast
qed

text \<open>The lock is not safe when it is taken recursively, which the code allows: after a second acquisition the first
  release already frees the lock, and another processor enters while the first is still in its outer critical
  section.\<close>

theorem nested_spinlock_not_exclusive:
  "\<exists>s. reachable 2 s \<and> forced s = {} \<and> pc_of s 0 = Critical \<and> pc_of s 1 = Critical"
proof -
  let ?as = "Boot_Done # acquiring 0 @ deepening 0 @ releasing 0 @ acquiring 1"
  obtain s where s: "acts 2 ?as start = Some s" "forced s = {}" "pc_of s 0 = Critical" "pc_of s 1 = Critical"
    by (simp add: acquiring_def deepening_def releasing_def start_def fresh_lock_def initlock_def machine_simps
        cpu_at_def process_at_def)
  with acts_reachable [OF reachable.start s(1)] show ?thesis by blast
qed

text \<open>The interrupts of a processor may be on in its critical section: the release of any other lock turns them on.\<close>

theorem other_release_unmasks:
  "\<exists>s. reachable 1 s \<and> pc_of s 0 = Critical \<and> \<not> bsp s \<and> irq_of s 0"
proof -
  let ?as = "Boot_Done # acquiring 0 @ [Release_Other 0]"
  obtain s where s: "acts 1 ?as start = Some s" "pc_of s 0 = Critical" "\<not> bsp s" "irq_of s 0"
    by (simp add: acquiring_def start_def fresh_lock_def initlock_def machine_simps cpu_at_def process_at_def)
  with acts_reachable [OF reachable.start s(1)] show ?thesis by blast
qed

text \<open>The interleaved machine implements the routines: a processor that runs undisturbed through the steps of an acquisition of a
  free lock, or of a release of a lock it holds once, leaves the lock and its interrupt flag as
  \<^verbatim>\<open>acquire_spinlock\<close> and \<^verbatim>\<open>release_spinlock\<close> do.\<close>

theorem spinlock_machine_refines:
  assumes "pc_of s c = Idle" "nest s c < N" "\<not> bsp s" "locked (lock s) = 0" "lcpu (lock s) \<noteq> cpu_at c" "recursion_depth (lock s) \<le> 1"
  shows "\<exists>s1 s2. acts N (acquiring c) s = Some s1 \<and> pc_of s1 c = Critical \<and>
      acquire_spinlock False (cpu_at c) (process_at c) found (lock s, irq_of s c) = (lock s1, irq_of s1 c) \<and>
    acts N (releasing c) s1 = Some s2 \<and> release_spinlock (lock s1, irq_of s1 c) = (lock s2, irq_of s2 c)"
proof -
  let ?s1 = "s\<lparr>lock := (lock s)\<lparr>locked := 1, lcpu := cpu_at c, holding_process := process_at c\<rparr>,
    pc_of := (pc_of s)(c := Critical), irq_of := (irq_of s)(c := False), nest := (nest s)(c := Suc (nest s c))\<rparr>"
  have a: "acts N (acquiring c) s = Some ?s1"
    using assms by (simp add: acquiring_def machine_simps)
  have q: "acquire_spinlock False (cpu_at c) (process_at c) found (lock s, irq_of s c) = (lock ?s1, irq_of ?s1 c)"
    using assms by (simp add: acquire_spinlock_def Let_def split: prod.splits)
  let ?s2 = "?s1\<lparr>lock := (lock ?s1)\<lparr>recursion_depth := 0, lcpu := NULL, holding_process := NULL, locked := 0\<rparr>,
    pc_of := (pc_of s)(c := if nest s c = 0 then Idle else Critical), irq_of := (irq_of s)(c := True), nest := (nest s)(c := nest s c)\<rparr>"
  consider "recursion_depth (lock s) = 0" | "recursion_depth (lock s) = 1"
    using assms(6) by (auto simp: word_le_nat_alt word_unat_eq_iff le_Suc_eq)
  then have "acts N (releasing c) ?s1 = Some ?s2 \<and> release_spinlock (lock ?s1, irq_of ?s1 c) = (lock ?s2, irq_of ?s2 c)"
    by cases (simp_all add: releasing_def machine_simps release_spinlock_def)
  with a q show ?thesis by (intro exI [of _ ?s1] exI [of _ ?s2]) simp
qed

theorem spinlock_machine_refines_witness:
  "\<exists>s1 s2. acts 1 (acquiring 0) (start\<lparr>bsp := False\<rparr>) = Some s1 \<and> pc_of s1 0 = Critical \<and>
      acquire_spinlock False (cpu_at 0) (process_at 0) (\<lambda>_. 0) (fresh_lock, True) = (lock s1, irq_of s1 0) \<and>
    acts 1 (releasing 0) s1 = Some s2 \<and> release_spinlock (lock s1, irq_of s1 0) = (lock s2, irq_of s2 0)"
  using spinlock_machine_refines [of "start\<lparr>bsp := False\<rparr>" 0 1 "\<lambda>_. 0"] by (simp add: start_def fresh_lock_def initlock_def)

text \<open>Bounded waiting: the exchange loop of \<^verbatim>\<open>arch_atomic_swap\<close> always ends. It returns true after the first exchange that finds
  the field free, if one of the first \<open>10 ^ 9\<close> does, and otherwise false.\<close>

theorem atomic_swap_ends:
  "(\<exists>n < DEADLOCK_DETECTION_THRESHOLD. found n = 0 \<and> (\<forall>k<n. found k \<noteq> 0) \<and> arch_atomic_swap found 0 = (True, n)) \<or>
   (\<forall>n < DEADLOCK_DETECTION_THRESHOLD. found n \<noteq> 0) \<and> arch_atomic_swap found 0 = (False, DEADLOCK_DETECTION_THRESHOLD)"
proof (cases "\<exists>n < DEADLOCK_DETECTION_THRESHOLD. found n = 0")
  case True
  then obtain m where m: "m < DEADLOCK_DETECTION_THRESHOLD" "found m = 0" by blast
  define n where "n = (LEAST n. found n = 0)"
  have n: "found n = 0" "n \<le> m" "\<forall>k<n. found k \<noteq> 0"
    unfolding n_def using m(2) by (auto intro: LeastI Least_le dest: not_less_Least)
  then have "arch_atomic_swap found 0 = (True, n)" using m(1) by (intro arch_atomic_swap_found) auto
  with n m(1) show ?thesis by (meson le_less_trans)
next
  case False
  then show ?thesis using arch_atomic_swap_forced [of 0 found] by auto
qed

theorem atomic_swap_ends_witness: "arch_atomic_swap (\<lambda>n. if n < 3 then 1 else 0) 0 = (True, 3)"
proof -
  let ?found = "\<lambda>n :: nat. if n < 3 then 1 else 0 :: 64 word"
  have "?found 3 = 0" "(3 :: nat) < DEADLOCK_DETECTION_THRESHOLD" by simp_all
  with atomic_swap_ends [of ?found] obtain n where
    n: "?found n = 0" "\<forall>k<n. ?found k \<noteq> 0" "arch_atomic_swap ?found 0 = (True, n)" by blast
  have "3 \<le> n" using n(1) by (simp split: if_splits)
  moreover have "\<not> 3 < n" using n(2) \<open>?found 3 = 0\<close> by blast
  ultimately show ?thesis using n(3) by simp
qed

text \<open>A mutex name of exactly \<^verbatim>\<open>MUTEX_NAME_LENGTH\<close> characters makes \<^verbatim>\<open>init_mutex\<close> write past the array of the name.\<close>

theorem init_mutex_name_overflow:
  assumes "length s = 30" "0 \<notin> set s" "length (lock_name m) = 32"
  shows "init_mutex (s @ 0 # r) m = Inl OutOfBounds"
  using assms safe_copy_eq [of s 0 "lock_name m" 0 30 r] by (simp add: init_mutex_def safe_strcpy_def overwrite_def)

theorem init_mutex_name_overflow_witness:
  "init_mutex (replicate 30 97 @ [0]) \<lparr>mlocked = 0, holder = 0, mcpu = 0, lock_name = replicate 32 0, mreserved = 0\<rparr> = Inl OutOfBounds"
  by (rule init_mutex_name_overflow) simp_all

end
