(* ===== verification/Scheduler.thy ===== *)
theory Scheduler
  imports Queues Doubly_Linked Singly_Linked
begin

text \<open>
  \<^verbatim>\<open>scheduling/scheduler.c\<close> in the configuration of the Makefile (\<^verbatim>\<open>_DFS_\<close>: FIFO run queues). The run queues
  share one memory of queue nodes; sleeping processes are on a doubly linked list and dead ones on singly
  linked lists, one for each processor. A routine of processor \<open>c\<close> takes its number; where the source calls
  \<^verbatim>\<open>context_switch\<close> the model returns where control goes. Saving registers, page tables and the task state
  segment are not modelled, nor are locks, except that \<^verbatim>\<open>sched_sleep_lock\<close> is recorded as held or free.
\<close>

section \<open>State\<close>

datatype process_state = PROCESS_RUNNING | PROCESS_SLEEPING | PROCESS_DEAD | DEBUG_STATE | PROCESS_READY

record process =
  current_state :: process_state
  process_priority :: "8 word"
  process_id :: "16 word"
  ticks_taken :: "64 word"
  ticks_slept :: "64 word"
  start_time :: "64 word"
  sleep_channel :: addr
  current_cpu :: nat

record cpu =
  cpu_id :: nat
  running_process :: addr

record sched =
  qm :: queue_mem
  sched_global_queue :: queue
  local_run_queues :: "queue list"
  cpu_list :: "cpu list"
  procs :: "addr \<rightharpoonup> process"
  sm :: dll_mem
  global_sleep_queue :: dll
  sched_sleep_lock :: bool
  ls :: sll_mem
  ls_pool :: "addr list"
  dead_processes :: "sll list"

datatype switch = Continue | Into_Scheduler | Into_Process addr

definition my_cpu :: "sched \<Rightarrow> nat \<Rightarrow> cpu res" where
  "my_cpu s c = (if c < length (cpu_list s) then Inr (cpu_list s ! c) else Inl OutOfBounds)"

definition current_process :: "sched \<Rightarrow> nat \<Rightarrow> addr res" where
  "current_process s c = bindR (my_cpu s c) (\<lambda>cpu. Inr (running_process cpu))"

definition set_running :: "sched \<Rightarrow> nat \<Rightarrow> addr \<Rightarrow> sched" where
  "set_running s c p = s\<lparr>cpu_list := (cpu_list s)[c := (cpu_list s ! c)\<lparr>running_process := p\<rparr>]\<rparr>"

text \<open>Operations on the run queue of processor \<open>c\<close> and on a process.\<close>

definition run_queue_of :: "sched \<Rightarrow> nat \<Rightarrow> queue res" where
  "run_queue_of s c = (if c < length (local_run_queues s) then Inr (local_run_queues s ! c) else Inl OutOfBounds)"

definition local_enqueue :: "sched \<Rightarrow> nat \<Rightarrow> addr \<Rightarrow> 8 word \<Rightarrow> sched res" where
  "local_enqueue s c d pr =
     bindR (run_queue_of s c) (\<lambda>q. bindR (enqueue (qm s) q d pr) (\<lambda>(m, q).
       Inr (s\<lparr>qm := m, local_run_queues := (local_run_queues s)[c := q]\<rparr>)))"

definition modify_process :: "sched \<Rightarrow> addr \<Rightarrow> (process \<Rightarrow> process) \<Rightarrow> sched res" where
  "modify_process s p f = bindR (modify (procs s) p f) (\<lambda>m. Inr (s\<lparr>procs := m\<rparr>))"

section \<open>Operations\<close>

fun init_dead :: "nat \<Rightarrow> nat \<Rightarrow> sched \<Rightarrow> sched res" where
  "init_dead i 0 s = Inr s"
| "init_dead i (Suc n) s =
     (if i < length (dead_processes s) then
        bindR (singly_linked_list_init (ls_pool s) (ls s) 0) (\<lambda>(m, l).
          init_dead (Suc i) n (s\<lparr>ls := m, dead_processes := (dead_processes s)[i := l]\<rparr>))
      else Inl OutOfBounds)"

text \<open>The loop bounds are \<^verbatim>\<open>i <= cpus_online\<close> for the dead lists and \<^verbatim>\<open>i < cpu_count\<close> for the run queues.\<close>

definition sched_init :: "nat \<Rightarrow> nat \<Rightarrow> sched \<Rightarrow> sched res" where
  "sched_init cpus_online cpu_count s =
     bindR (init_dead 0 (cpus_online + 1) s) (\<lambda>s.
       let s = s\<lparr>sched_sleep_lock := False, global_sleep_queue := doubly_linked_list_init\<rparr> in
       if cpu_count \<le> length (local_run_queues s) then
         Inr (s\<lparr>local_run_queues := map (\<lambda>q. queue_init q QUEUE_MODE_FIFO) (take cpu_count (local_run_queues s)) @
                                    drop cpu_count (local_run_queues s),
                sched_global_queue := queue_init (sched_global_queue s) QUEUE_MODE_FIFO\<rparr>)
       else Inl OutOfBounds)"

definition sched_yield :: "nat \<Rightarrow> sched \<Rightarrow> (sched \<times> switch) res" where
  "sched_yield c s =
     bindR (run_queue_of s c) (\<lambda>q.
       if qhead q = NULL then Inr (s, Continue)
       else bindR (current_process s c) (\<lambda>p.
            bindR (modify_process s p (\<lambda>x. x\<lparr>current_state := PROCESS_READY\<rparr>)) (\<lambda>s.
            bindR (deref (procs s) p) (\<lambda>x.
            bindR (local_enqueue s c p (process_priority x)) (\<lambda>s. Inr (s, Into_Scheduler))))))"

definition sched_preempt :: "nat \<Rightarrow> sched \<Rightarrow> (sched \<times> switch) res" where
  "sched_preempt c s =
     bindR (current_process s c) (\<lambda>p.
     bindR (modify_process s p (\<lambda>x. x\<lparr>ticks_taken := ticks_taken x + start_time x, start_time := 0\<rparr>)) (\<lambda>s.
     bindR (deref (procs s) p) (\<lambda>x.
     bindR (local_enqueue s c p (process_priority x)) (\<lambda>s.
     bindR (modify_process s p (\<lambda>x. x\<lparr>current_state := PROCESS_READY\<rparr>)) (\<lambda>s. Inr (s, Into_Scheduler))))))"

definition sched_sleep :: "64 word \<Rightarrow> nat \<Rightarrow> addr \<Rightarrow> sched \<Rightarrow> (sched \<times> switch) res" where
  "sched_sleep now c channel s =
     bindR (current_process s c) (\<lambda>p.
     bindR (doubly_linked_list_insert_head (sm s) (global_sleep_queue s) p) (\<lambda>(m, l).
     bindR (modify_process (s\<lparr>sm := m, global_sleep_queue := l\<rparr>) p (\<lambda>x. x\<lparr>sleep_channel := channel,
              current_state := PROCESS_SLEEPING, ticks_taken := ticks_taken x + start_time x, start_time := now\<rparr>)) (\<lambda>s.
       Inr (s, Into_Scheduler))))"

text \<open>
  The loop of \<^verbatim>\<open>sched_wakeup\<close>. A node that is taken out of the list keeps its successor, which the loop
  follows. Every turn moves to the next node, so the number of nodes is enough fuel.
\<close>

fun wakeup_walk :: "nat \<Rightarrow> addr \<Rightarrow> sched \<Rightarrow> addr \<Rightarrow> addr \<Rightarrow> sched res" where
  "wakeup_walk 0 channel s node process = (if node = NULL \<or> process = NULL then Inr s else Inl Unmodelled)"
| "wakeup_walk (Suc fuel) channel s node process =
     (if node = NULL \<or> process = NULL then Inr s
      else bindR (deref (dnodes (sm s)) node) (\<lambda>n.
           bindR (deref (procs s) (ddata n)) (\<lambda>x.
           bindR (if sleep_channel x = channel then
                    bindR (modify_process s (ddata n) (\<lambda>x. x\<lparr>sleep_channel := 0,
                             ticks_slept := ticks_slept x + start_time x, start_time := 0\<rparr>)) (\<lambda>s.
                    bindR (doubly_linked_list_remove_node_by_address (sm s) (global_sleep_queue s) node) (\<lambda>(m, l).
                      Inr (s\<lparr>sm := m, global_sleep_queue := l\<rparr>)))
                  else Inr s) (\<lambda>s.
           bindR (deref (dnodes (sm s)) node) (\<lambda>n'. wakeup_walk fuel channel s (dnext n') (ddata n))))))"

definition sched_wakeup :: "addr \<Rightarrow> sched \<Rightarrow> sched res" where
  "sched_wakeup channel s =
     (let s = s\<lparr>sched_sleep_lock := True\<rparr>; node = dhead (global_sleep_queue s) in
      if node = NULL then Inr s
      else bindR (deref (dnodes (sm s)) node) (\<lambda>n.
           bindR (wakeup_walk (dcount (global_sleep_queue s)) channel s node (ddata n)) (\<lambda>s.
             Inr (s\<lparr>sched_sleep_lock := False\<rparr>))))"

text \<open>\<^verbatim>\<open>sched_claim_process\<close> enqueues the tail node itself, not its process, and then changes its own queue's tail.\<close>

fun claim_loop :: "nat \<Rightarrow> nat \<Rightarrow> nat \<Rightarrow> sched \<Rightarrow> sched res" where
  "claim_loop c i 0 s = Inr s"
| "claim_loop c i (Suc n) s =
     bindR (my_cpu s i) (\<lambda>cpu. bindR (my_cpu s c) (\<lambda>this_cpu.
       if cpu_id cpu = cpu_id this_cpu then claim_loop c (Suc i) n s
       else bindR (run_queue_of s i) (\<lambda>q.
         if qcount q > 2 then
           bindR (deref (qnodes (qm s)) (qtail q)) (\<lambda>t.
           bindR (local_enqueue s c (qtail q) (priority t)) (\<lambda>s.
           bindR (run_queue_of s c) (\<lambda>r.
           bindR (deref (qnodes (qm s)) (qtail r)) (\<lambda>u.
             claim_loop c (Suc i) n (s\<lparr>local_run_queues := (local_run_queues s)[c := r\<lparr>qtail := qprev u, qcount := qcount r - 1\<rparr>]\<rparr>)))))
         else claim_loop c (Suc i) n s)))"

definition sched_claim_process :: "nat \<Rightarrow> nat \<Rightarrow> sched \<Rightarrow> sched res" where
  "sched_claim_process cpus_online c s = claim_loop c 0 cpus_online s"

definition sched_exit :: "nat \<Rightarrow> sched \<Rightarrow> (sched \<times> switch) res" where
  "sched_exit c s =
     bindR (my_cpu s c) (\<lambda>cpu.
       if cpu_id cpu < length (dead_processes s) then
         bindR (singly_linked_list_insert_head (ls s) (dead_processes s ! cpu_id cpu) (running_process cpu)) (\<lambda>(m, l).
           Inr (set_running (s\<lparr>ls := m, dead_processes := (dead_processes s)[cpu_id cpu := l]\<rparr>) c NULL, Into_Scheduler))
       else Inl OutOfBounds)"

text \<open>Of \<^verbatim>\<open>free_process\<close> only the release of the process object itself is modelled.\<close>

definition free_process :: "sched \<Rightarrow> addr \<Rightarrow> sched res" where
  "free_process s p = bindR (deref (procs s) p) (\<lambda>_. Inr (s\<lparr>procs := (procs s)(p := None)\<rparr>))"

fun purge_loop :: "nat \<Rightarrow> nat \<Rightarrow> sched \<Rightarrow> sched res" where
  "purge_loop 0 i s = (if head (dead_processes s ! i) = NULL then Inr s else Inl Unmodelled)"
| "purge_loop (Suc fuel) i s =
     (if head (dead_processes s ! i) = NULL then Inr s
      else bindR (deref (nodes (ls s)) (head (dead_processes s ! i))) (\<lambda>n.
           bindR (free_process s (data n)) (\<lambda>s.
           bindR (singly_linked_list_remove_head (ls s) (dead_processes s ! i)) (\<lambda>(m, l, _).
             purge_loop fuel i (s\<lparr>ls := m, dead_processes := (dead_processes s)[i := l]\<rparr>)))))"

definition purge_dead_processes :: "nat \<Rightarrow> sched \<Rightarrow> sched res" where
  "purge_dead_processes c s =
     bindR (my_cpu s c) (\<lambda>cpu.
       let i = cpu_id cpu in
       if i < length (dead_processes s) then
         if node_count (dead_processes s ! i) = 0 then Inr s
         else purge_loop (node_count (dead_processes s ! i)) i s
       else Inl OutOfBounds)"

definition look_for_process :: "nat \<Rightarrow> sched \<Rightarrow> sched res" where
  "look_for_process c s =
     (if qcount (sched_global_queue s) = 0 then Inr s
      else bindR (take_head (qm s) (sched_global_queue s)) (\<lambda>(m, q, p).
           bindR (deref (procs s) p) (\<lambda>x.
             local_enqueue (s\<lparr>qm := m, sched_global_queue := q\<rparr>) c p (process_priority x))))"

definition sched_run :: "64 word \<Rightarrow> nat \<Rightarrow> sched \<Rightarrow> (sched \<times> switch) res" where
  "sched_run now c s =
     bindR (run_queue_of s c) (\<lambda>q. bindR (my_cpu s c) (\<lambda>_.
       if qhead q = NULL then
         bindR (purge_dead_processes c s) (\<lambda>s. bindR (look_for_process c s) (\<lambda>s. Inr (s, Continue)))
       else bindR (deref (qnodes (qm s)) (qhead q)) (\<lambda>h.
            bindR (modify_process (set_running s c (qdata h)) (qdata h)
                     (\<lambda>x. x\<lparr>current_cpu := c, current_state := PROCESS_RUNNING\<rparr>)) (\<lambda>s.
            bindR (dequeue (qm s) q) (\<lambda>(m, q).
            bindR (modify_process (s\<lparr>qm := m, local_run_queues := (local_run_queues s)[c := q]\<rparr>) (qdata h)
                     (\<lambda>x. x\<lparr>start_time := now\<rparr>)) (\<lambda>s. Inr (s, Into_Process (qdata h))))))))"

definition global_enqueue_process :: "addr \<Rightarrow> sched \<Rightarrow> sched res" where
  "global_enqueue_process p s =
     bindR (deref (procs s) p) (\<lambda>x.
     bindR (enqueue (qm s) (sched_global_queue s) p (process_priority x)) (\<lambda>(m, q).
       Inr (s\<lparr>qm := m, sched_global_queue := q\<rparr>)))"

section \<open>Round robin\<close>

text \<open>
  Processor \<open>c\<close> runs \<open>p\<close> and has \<open>xs\<close> in its run queue. A round is a preemption followed by the scheduler's
  choice; \<open>rounds\<close> collects the processes chosen.
\<close>

definition running :: "nat \<Rightarrow> sched \<Rightarrow> addr \<Rightarrow> addr list \<Rightarrow> bool" where
  "running c s p xs \<longleftrightarrow> c < length (cpu_list s) \<and> c < length (local_run_queues s) \<and>
     running_process (cpu_list s ! c) = p \<and> fifo_list (qm s) (local_run_queues s ! c) xs \<and>
     (\<forall>x\<in>set (p # xs). x \<noteq> NULL \<and> procs s x \<noteq> None) \<and> 0 < qroom (qm s)"

definition round_of :: "64 word \<Rightarrow> nat \<Rightarrow> sched \<Rightarrow> (sched \<times> switch) res" where
  "round_of now c s = bindR (sched_preempt c s) (\<lambda>(s, _). sched_run now c s)"

fun rounds :: "(nat \<Rightarrow> 64 word) \<Rightarrow> nat \<Rightarrow> nat \<Rightarrow> sched \<Rightarrow> (sched \<times> switch list) res" where
  "rounds clock c 0 s = Inr (s, [])"
| "rounds clock c (Suc n) s =
     bindR (round_of (clock n) c s) (\<lambda>(s, w). bindR (rounds clock c n s) (\<lambda>(s, ws). Inr (s, w # ws)))"

lemma modify_process_ok:
  "procs s p \<noteq> None \<Longrightarrow> p \<noteq> NULL \<Longrightarrow> modify_process s p f = Inr (s\<lparr>procs := (procs s)(p \<mapsto> f (the (procs s p)))\<rparr>)"
  by (auto simp: modify_process_def)

lemma take_head_parts:
  "take_head s q = Inr (s', q', x) \<longleftrightarrow> (\<exists>h. deref (qnodes s) (qhead q) = Inr h \<and> dequeue s q = Inr (s', q') \<and> qdata h = x)"
  by (auto simp: take_head_def bindR_eq_Inr)

lemma preempt_ok:
  assumes "running c s p xs"
  shows "\<exists>s'. sched_preempt c s = Inr (s', Into_Scheduler) \<and> c < length (cpu_list s') \<and> c < length (local_run_queues s') \<and>
    fifo_list (qm s') (local_run_queues s' ! c) (xs @ [p]) \<and> dom (procs s') = dom (procs s)"
proof -
  have r: "c < length (cpu_list s)" "c < length (local_run_queues s)" "running_process (cpu_list s ! c) = p"
    "fifo_list (qm s) (local_run_queues s ! c) xs" "p \<noteq> NULL" "procs s p \<noteq> None" "0 < qroom (qm s)"
    using assms by (auto simp: running_def)
  obtain pr where pr: "process_priority (the (procs s p)) = pr" by blast
  obtain m q where "enqueue (qm s) (local_run_queues s ! c) p pr = Inr (m, q)" "fifo_list m q (xs @ [p])"
    using fifo_push_ok [OF r(4,7,5), of pr] by (auto simp: fifo_push_def)
  with r pr show ?thesis
    by (auto simp: sched_preempt_def current_process_def my_cpu_def modify_process_ok local_enqueue_def run_queue_of_def
        dom_def)
qed

lemma sched_run_ok:
  assumes "c < length (cpu_list s)" "c < length (local_run_queues s)"
    and "fifo_list (qm s) (local_run_queues s ! c) (y # ys)" "\<forall>x\<in>set (y # ys). x \<noteq> NULL \<and> procs s x \<noteq> None"
  shows "\<exists>s'. sched_run now c s = Inr (s', Into_Process y) \<and> running c s' y ys"
proof -
  obtain m q h where h: "deref (qnodes (qm s)) (qhead (local_run_queues s ! c)) = Inr h"
    "dequeue (qm s) (local_run_queues s ! c) = Inr (m, q)" "qdata h = y" "fifo_list m q ys" "0 < qroom m"
    using take_head_ok [OF assms(3)] by (auto simp: take_head_parts)
  have "qhead (local_run_queues s ! c) \<noteq> NULL" using h(1) by (auto simp: deref_def split: if_splits)
  with h assms show ?thesis
    by (auto simp: sched_run_def my_cpu_def run_queue_of_def set_running_def modify_process_ok running_def)
qed

lemma round_ok:
  assumes "running c s p xs" "xs @ [p] = y # ys"
  shows "\<exists>s'. round_of now c s = Inr (s', Into_Process y) \<and> running c s' y ys"
proof -
  obtain s1 where s1: "sched_preempt c s = Inr (s1, Into_Scheduler)" "c < length (cpu_list s1)"
    "c < length (local_run_queues s1)" "fifo_list (qm s1) (local_run_queues s1 ! c) (y # ys)" "dom (procs s1) = dom (procs s)"
    using preempt_ok [OF assms(1)] assms(2) by auto
  have "set (y # ys) = set (p # xs)" using assms(2) by (metis rotate1.simps(2) set_rotate1)
  then have "\<forall>x\<in>set (y # ys). x \<noteq> NULL \<and> procs s1 x \<noteq> None"
    using assms(1) s1(5) unfolding running_def by (metis domIff)
  from sched_run_ok [OF s1(2-4) this] s1(1) show ?thesis by (simp add: round_of_def)
qed

lemma rounds_ok:
  assumes "running c s p (zs @ q # ys)"
  shows "\<exists>s'. rounds clock c (length zs + 1) s = Inr (s', map Into_Process (zs @ [q])) \<and> running c s' q (ys @ p # zs)"
  using assms
proof (induction zs arbitrary: s p ys)
  case Nil
  from round_ok [OF Nil [unfolded append_Nil], of q "ys @ [p]" "clock 0"] show ?case by auto
next
  case (Cons x zs)
  obtain s1 where s1: "round_of (clock (length zs + 1)) c s = Inr (s1, Into_Process x)" "running c s1 x (zs @ q # (ys @ [p]))"
    using round_ok [OF Cons.prems, of x "zs @ q # ys @ [p]"] by auto
  from Cons.IH [OF s1(2)] s1(1) show ?case by auto
qed

section \<open>Waking up\<close>

lemma unlink_keeps_node:
  assumes "dll_rep s l (as @ p # bs)" "unlink_node s l p = Inr (s', l')"
  shows "dnodes s' p = dnodes s p"
proof -
  have seg: "dseg (dnodes s) NULL (dhead l) (as @ [p] @ bs) NULL" and dist: "distinct (as @ p # bs)"
    using assms(1) by (auto simp: dll_rep_def)
  obtain n where n: "dnodes s p = Some n" "p \<noteq> NULL" "dprev n = prior NULL as" "dseg (dnodes s) p (dnext n) bs NULL"
    by (rule dseg_split [OF seg])
  have "dnext n \<noteq> p" using n(2,4) dist by (cases bs) auto
  moreover have "dprev n \<noteq> p" using n(2,3) dist by (auto simp: prior_def split: if_splits)
  ultimately show ?thesis
    using assms(2) n(1,2) by (auto simp: unlink_node_def bindR_eq_Inr modify_def split: if_splits)
qed

definition woken :: "process \<Rightarrow> process" where
  "woken x = x\<lparr>sleep_channel := 0, ticks_slept := ticks_slept x + start_time x, start_time := 0\<rparr>"

definition wake :: "addr \<Rightarrow> sched \<Rightarrow> addr list \<Rightarrow> (addr \<rightharpoonup> process)" where
  "wake ch s xs = (\<lambda>x. if x \<in> set xs \<and> sleep_channel (the (procs s x)) = ch then map_option woken (procs s x) else procs s x)"

lemma wakeup_walk_ok:
  assumes "dll_rep (sm s) (global_sleep_queue s) (as @ bs)" "tail_valid (global_sleep_queue s) (as @ bs)"
    and "distinct (dvals (sm s) bs)" "\<forall>x\<in>set (dvals (sm s) bs). x \<noteq> NULL \<and> procs s x \<noteq> None" "length bs \<le> fuel"
    and "node = (if bs = [] then NULL else hd bs)" "process \<noteq> NULL"
  shows "\<exists>m l cs. wakeup_walk fuel ch s node process =
      Inr (s\<lparr>sm := m, global_sleep_queue := l, procs := wake ch s (dvals (sm s) bs)\<rparr>) \<and>
    dll_rep m l (as @ cs) \<and> tail_valid l (as @ cs) \<and> dvals m as = dvals (sm s) as \<and>
    dvals m cs = filter (\<lambda>x. sleep_channel (the (procs s x)) \<noteq> ch) (dvals (sm s) bs)"
  using assms
proof (induction bs arbitrary: s as fuel node process)
  case Nil
  have "wake ch s [] = procs s" by (auto simp: wake_def)
  with Nil show ?case by (cases fuel) (force simp: dvals_def)+
next
  case (Cons b bs)
  obtain f where f: "fuel = Suc f" using Cons.prems(5) by (cases fuel) auto
  have seg: "dseg (dnodes (sm s)) NULL (dhead (global_sleep_queue s)) (as @ [b] @ bs) NULL"
    using Cons.prems(1) by (simp add: dll_rep_def)
  obtain n where n: "dnodes (sm s) b = Some n" "b \<noteq> NULL" "dseg (dnodes (sm s)) b (dnext n) bs NULL"
    by (rule dseg_split [OF seg])
  have nxt: "dnext n = (if bs = [] then NULL else hd bs)" using n(3) by (cases bs) auto
  let ?x = "ddata n"
  have vals: "dvals (sm s) (b # bs) = ?x # dvals (sm s) bs" using n(1) by simp
  obtain x where x: "procs s ?x = Some x" "?x \<noteq> NULL" using Cons.prems(4) vals by auto
  show ?case
  proof (cases "sleep_channel x = ch")
    case False
    have "wakeup_walk fuel ch s node process = wakeup_walk f ch s (dnext n) ?x"
      using f Cons.prems(6,7) n x False by simp
    moreover obtain m l cs where r: "wakeup_walk f ch s (dnext n) ?x =
        Inr (s\<lparr>sm := m, global_sleep_queue := l, procs := wake ch s (dvals (sm s) bs)\<rparr>)"
      "dll_rep m l ((as @ [b]) @ cs)" "tail_valid l ((as @ [b]) @ cs)" "dvals m (as @ [b]) = dvals (sm s) (as @ [b])"
      "dvals m cs = filter (\<lambda>x. sleep_channel (the (procs s x)) \<noteq> ch) (dvals (sm s) bs)"
      using Cons.IH [of s "as @ [b]" f "dnext n" ?x] Cons.prems nxt x f by auto
    moreover have "wake ch s (dvals (sm s) (b # bs)) = wake ch s (dvals (sm s) bs)"
      using x False vals by (auto simp: wake_def fun_eq_iff)
    moreover have "dvals m (b # cs) = filter (\<lambda>x. sleep_channel (the (procs s x)) \<noteq> ch) (dvals (sm s) (b # bs))"
      using r(4,5) vals x False n(1) by (auto simp: dvals_def)
    ultimately show ?thesis by (intro exI [of _ m] exI [of _ l] exI [of _ "b # cs"]) (auto simp: dvals_def)
  next
    case True
    obtain m1 l1 where u: "unlink_node (sm s) (global_sleep_queue s) b = Inr (m1, l1)" "dll_rep m1 l1 (as @ bs)"
      "dvals m1 (as @ bs) = dvals (sm s) (as @ bs)" "tail_valid l1 (as @ bs)"
      using unlink_ok [of "sm s" "global_sleep_queue s" as b bs] Cons.prems(1,2) by auto
    let ?s1 = "s\<lparr>procs := (procs s)(?x \<mapsto> woken x), sm := m1, global_sleep_queue := l1\<rparr>"
    have vs: "dvals m1 as = dvals (sm s) as" "dvals m1 bs = dvals (sm s) bs" using u(3) by (auto simp: dvals_def)
    have "dnodes m1 b = Some n" using unlink_keeps_node [OF Cons.prems(1) u(1)] n(1) by simp
    then have w: "wakeup_walk fuel ch s node process = wakeup_walk f ch ?s1 (dnext n) ?x"
      using f Cons.prems(6,7) n x True u(1)
      by (simp add: modify_process_def doubly_linked_list_remove_node_by_address_def woken_def)
    have fresh: "?x \<notin> set (dvals (sm s) bs)" using Cons.prems(3) vals by simp
    have ps: "\<forall>y\<in>set (dvals m1 bs). y \<noteq> NULL \<and> procs ?s1 y \<noteq> None" using Cons.prems(4) vs(2) by auto
    obtain m l cs where r: "wakeup_walk f ch ?s1 (dnext n) ?x =
        Inr (?s1\<lparr>sm := m, global_sleep_queue := l, procs := wake ch ?s1 (dvals m1 bs)\<rparr>)"
      "dll_rep m l (as @ cs)" "tail_valid l (as @ cs)" "dvals m as = dvals m1 as"
      "dvals m cs = filter (\<lambda>x. sleep_channel (the (procs ?s1 x)) \<noteq> ch) (dvals m1 bs)"
      using Cons.IH [of ?s1 as f "dnext n" ?x] Cons.prems(3,5) u(2,4) vs(2) nxt x(2) f vals ps
      by (simp del: fun_upd_apply) blast
    have e1: "wake ch ?s1 (dvals m1 bs) = wake ch s (dvals (sm s) (b # bs))"
      using x True fresh vs(2) vals by (auto simp: wake_def fun_eq_iff)
    have e2: "filter (\<lambda>x. sleep_channel (the (procs ?s1 x)) \<noteq> ch) (dvals m1 bs) =
        filter (\<lambda>x. sleep_channel (the (procs s x)) \<noteq> ch) (dvals (sm s) (b # bs))"
      using x True fresh vs(2) vals by (auto intro!: filter_cong)
    have e3: "wakeup_walk fuel ch s node process =
        Inr (s\<lparr>sm := m, global_sleep_queue := l, procs := wake ch s (dvals (sm s) (b # bs))\<rparr>)"
      unfolding w r(1) e1 by simp
    show ?thesis by (intro exI conjI) (rule e3 r(2,3) r(4) [unfolded vs(1)] r(5) [unfolded e2])+
  qed
qed

section \<open>Properties\<close>

text \<open>C20: Fairness of the FIFO scheduler: on a processor that runs \<open>p\<close> with \<open>xs\<close> waiting, \<open>length xs + 1\<close> rounds of
  preemption and choice run every waiting process once, in the order of the queue, and then \<open>p\<close> again,
  with the same processes waiting in the same order.\<close>

theorem round_robin:
  assumes "running c s p xs"
  shows "\<exists>s'. rounds clock c (length xs + 1) s = Inr (s', map Into_Process (xs @ [p])) \<and> running c s' p xs"
proof (cases xs)
  case Nil
  with round_ok [OF assms, of p "[]" "clock 0"] show ?thesis by auto
next
  case (Cons x ys)
  obtain s1 where s1: "round_of (clock (length xs)) c s = Inr (s1, Into_Process x)" "running c s1 x (ys @ p # [])"
    using round_ok [OF assms, of x "ys @ [p]"] Cons by auto
  from rounds_ok [OF s1(2), of clock] s1(1) Cons show ?thesis by auto
qed

text \<open>The processes of the witnesses: two in the run queue of \<open>demo_queue\<close>, one running.\<close>

definition demo_process :: process where
  "demo_process = \<lparr>current_state = PROCESS_READY, process_priority = 1, process_id = 1, ticks_taken = 0, ticks_slept = 0,
     start_time = 0, sleep_channel = 0, current_cpu = 0\<rparr>"

definition demo_sched :: sched where
  "demo_sched = \<lparr>qm = demo_qmem, sched_global_queue = demo_queue QUEUE_MODE_FIFO,
     local_run_queues = [demo_queue QUEUE_MODE_FIFO], cpu_list = [\<lparr>cpu_id = 0, running_process = 20\<rparr>],
     procs = [20 \<mapsto> demo_process, 30 \<mapsto> demo_process, 40 \<mapsto> demo_process, 70 \<mapsto> demo_process\<lparr>sleep_channel := 9\<rparr>,
       71 \<mapsto> demo_process, 72 \<mapsto> demo_process\<lparr>sleep_channel := 9\<rparr>],
     sm = demo_dmem, global_sleep_queue = demo_dll, sched_sleep_lock = False, ls = demo_mem, ls_pool = [],
     dead_processes = []\<rparr>"

lemma demo_running: "running 0 demo_sched 20 [30, 40]"
  using demo_fifo by (simp add: running_def demo_sched_def qroom_def demo_qmem_def)

theorem round_robin_witness:
  "\<exists>s'. rounds (\<lambda>_. 5) 0 3 demo_sched = Inr (s', [Into_Process 30, Into_Process 40, Into_Process 20]) \<and> running 0 s' 20 [30, 40]"
  using round_robin [OF demo_running, of "\<lambda>_. 5"] by (simp add: numeral_3_eq_3)

text \<open>Waking up: \<^verbatim>\<open>sched_wakeup\<close> takes exactly the processes that sleep on the channel off the sleep queue, keeps the order of
  the others and clears the channel of those it takes. But it puts them on no run queue and leaves their state
  at sleeping, so a process that has slept never runs again.\<close>

theorem wakeup_loses_sleepers:
  assumes "dll_list (sm s) (global_sleep_queue s) xs" "xs \<noteq> []" "distinct xs"
    and "\<forall>x\<in>set xs. x \<noteq> NULL \<and> procs s x \<noteq> None"
  shows "\<exists>s'. sched_wakeup ch s = Inr s' \<and>
    dll_list (sm s') (global_sleep_queue s') (filter (\<lambda>x. sleep_channel (the (procs s x)) \<noteq> ch) xs) \<and>
    qm s' = qm s \<and> local_run_queues s' = local_run_queues s \<and> sched_global_queue s' = sched_global_queue s \<and>
    (\<forall>x. map_option current_state (procs s' x) = map_option current_state (procs s x)) \<and> \<not> sched_sleep_lock s'"
proof -
  obtain ps where ps: "dll_rep (sm s) (global_sleep_queue s) ps" "tail_valid (global_sleep_queue s) ps" "dvals (sm s) ps = xs"
    using assms(1) by (auto simp: dll_list_def)
  obtain b bs where b: "ps = b # bs" using ps(3) assms(2) by (cases ps) (auto simp: dvals_def)
  obtain n where n: "dnodes (sm s) b = Some n" "b \<noteq> NULL" "dhead (global_sleep_queue s) = b"
    using ps(1) b by (auto simp: dll_rep_def)
  have d: "ddata n \<noteq> NULL" using ps(3) b n(1) assms(4) by (auto simp: dvals_def)
  have cnt: "dcount (global_sleep_queue s) = length ps" using ps(1) by (simp add: dll_rep_def)
  let ?s = "s\<lparr>sched_sleep_lock := True\<rparr>"
  have "\<exists>m l cs. wakeup_walk (length ps) ch ?s b (ddata n) =
      Inr (?s\<lparr>sm := m, global_sleep_queue := l, procs := wake ch ?s (dvals (sm ?s) ps)\<rparr>) \<and> dll_rep m l ([] @ cs) \<and>
      tail_valid l ([] @ cs) \<and> dvals m [] = dvals (sm ?s) [] \<and>
      dvals m cs = filter (\<lambda>x. sleep_channel (the (procs ?s x)) \<noteq> ch) (dvals (sm ?s) ps)"
    by (rule wakeup_walk_ok) (use ps assms(3,4) b d in simp_all)
  then obtain m l cs where r: "wakeup_walk (length ps) ch ?s b (ddata n) =
      Inr (?s\<lparr>sm := m, global_sleep_queue := l, procs := wake ch ?s xs\<rparr>)" "dll_rep m l cs" "tail_valid l cs"
    "dvals m cs = filter (\<lambda>x. sleep_channel (the (procs s x)) \<noteq> ch) xs"
    using ps(3) by auto
  have "map_option current_state (wake ch ?s xs x) = map_option current_state (procs s x)" for x
    by (auto simp: wake_def woken_def option.map_comp comp_def)
  moreover have "sched_wakeup ch s = Inr (s\<lparr>sm := m, global_sleep_queue := l, procs := wake ch ?s xs, sched_sleep_lock := False\<rparr>)"
    using r(1) n cnt by (simp add: sched_wakeup_def)
  moreover have "dll_list m l (filter (\<lambda>x. sleep_channel (the (procs s x)) \<noteq> ch) xs)"
    using r(2-4) unfolding dll_list_def by blast
  ultimately show ?thesis by simp
qed

theorem wakeup_loses_sleepers_witness:
  "\<exists>s'. sched_wakeup 9 demo_sched = Inr s' \<and> dll_list (sm s') (global_sleep_queue s') [71] \<and>
    local_run_queues s' = local_run_queues demo_sched"
proof -
  have "dll_list (sm demo_sched) (global_sleep_queue demo_sched) [70, 71, 72]"
    using demo_dll_list by (simp add: demo_sched_def)
  from wakeup_loses_sleepers [OF this, of 9] show ?thesis by (auto simp: demo_sched_def demo_process_def)
qed

text \<open>Waking up when nobody sleeps returns with the lock of the sleep queue still held.\<close>

theorem wakeup_keeps_lock:
  assumes "dhead (global_sleep_queue s) = NULL"
  shows "\<exists>s'. sched_wakeup ch s = Inr s' \<and> sched_sleep_lock s'"
  using assms by (simp add: sched_wakeup_def Let_def)

theorem wakeup_keeps_lock_witness:
  "\<exists>s'. sched_wakeup 9 (demo_sched\<lparr>global_sleep_queue := doubly_linked_list_init\<rparr>) = Inr s' \<and> sched_sleep_lock s'"
  by (rule wakeup_keeps_lock) (simp add: doubly_linked_list_init_def)

text \<open>Stealing work: an idle processor that claims from one with more than two waiting processes takes nothing from it and enqueues
  a pointer to the other queue's node instead of a process, so the next choice of the scheduler dereferences
  something that is no process.\<close>

theorem claim_enqueues_node:
  assumes "cpu_list s = [a, b]" "cpu_id a \<noteq> cpu_id b" "local_run_queues s = [p, q]"
    and "queue_rep (qm s) p []" "mode p = QUEUE_MODE_FIFO" "2 < qcount q" "qtail q \<noteq> NULL" "qnodes (qm s) (qtail q) = Some t"
    and "qheap (qm s) \<noteq> []" "procs s (qtail q) = None"
  shows "\<exists>s'. sched_claim_process 2 0 s = Inr s' \<and> local_run_queues s' ! 1 = q \<and> sched_run now 0 s' = Inl NullDeref"
proof -
  obtain h hs where h: "qheap (qm s) = h # hs" using assms(9) by (cases "qheap (qm s)") auto
  have hn: "h \<noteq> NULL" using assms(4) h by (auto simp: queue_rep_def)
  let ?n = "\<lparr>qdata = qtail q, qnext = NULL, qprev = NULL, priority = priority t\<rparr>"
  have e: "enqueue (qm s) p (qtail q) (priority t) =
      Inr (qm s\<lparr>qnodes := (qnodes (qm s))(h \<mapsto> ?n), qheap := hs\<rparr>, p\<lparr>qhead := h, qtail := h, qcount := qcount p + 1\<rparr>)"
    using enqueue_fifo_eq [OF assms(4) h assms(7,5), of "priority t"] by (simp add: append_nodes_def)
  let ?s = "s\<lparr>qm := (qm s)\<lparr>qnodes := (qnodes (qm s))(h \<mapsto> ?n), qheap := hs\<rparr>,
      local_run_queues := [p\<lparr>qhead := h, qtail := NULL, qcount := qcount p\<rparr>, q]\<rparr>"
  have "sched_claim_process 2 0 s = Inr ?s"
    using assms(1-3,6-8) e hn
    by (simp add: sched_claim_process_def numeral_2_eq_2 my_cpu_def run_queue_of_def local_enqueue_def)
  moreover have "sched_run now 0 ?s = Inl NullDeref"
    using assms(1,7,10) hn by (simp add: sched_run_def run_queue_of_def my_cpu_def modify_process_def modify_def deref_def set_running_def)
  ultimately show ?thesis by auto
qed

theorem claim_enqueues_node_witness:
  "\<exists>s s'. sched_claim_process 2 0 s = Inr s' \<and> qcount (local_run_queues s ! 1) = 3 \<and>
    local_run_queues s' ! 1 = local_run_queues s ! 1 \<and> sched_run 0 0 s' = Inl NullDeref"
proof -
  let ?p = "\<lparr>qhead = NULL, qtail = NULL, mode = QUEUE_MODE_FIFO, qcount = 0\<rparr>"
  let ?q = "\<lparr>qhead = 2, qtail = 4, mode = QUEUE_MODE_FIFO, qcount = 3\<rparr>"
  let ?t = "\<lparr>qdata = 40, qnext = 0, qprev = 3, priority = 1\<rparr>"
  let ?s = "demo_sched\<lparr>cpu_list := [\<lparr>cpu_id = 0, running_process = 20\<rparr>, \<lparr>cpu_id = 1, running_process = 0\<rparr>],
      local_run_queues := [?p, ?q], qm := \<lparr>qnodes = [2 \<mapsto> \<lparr>qdata = 20, qnext = 3, qprev = 0, priority = 1\<rparr>,
        3 \<mapsto> \<lparr>qdata = 30, qnext = 4, qprev = 2, priority = 1\<rparr>, 4 \<mapsto> ?t], qheap = [8]\<rparr>\<rparr>"
  have "\<exists>s'. sched_claim_process 2 0 ?s = Inr s' \<and> local_run_queues s' ! 1 = ?q \<and> sched_run 0 0 s' = Inl NullDeref"
    by (rule claim_enqueues_node [of ?s "\<lparr>cpu_id = 0, running_process = 20\<rparr>" "\<lparr>cpu_id = 1, running_process = 0\<rparr>" ?p ?q ?t]) (simp_all add: demo_sched_def queue_rep_def)
  then obtain s' where "sched_claim_process 2 0 ?s = Inr s'" "local_run_queues s' ! 1 = ?q" "sched_run 0 0 s' = Inl NullDeref" by blast
  then show ?thesis by (intro exI [of _ ?s] exI [of _ s']) simp
qed

end
