(* ===== verification/VFS.thy ===== *)
theory VFS
  imports Strings Singly_Linked Doubly_Linked
begin

text \<open>
  \<^verbatim>\<open>filesystem/vfs.c\<close>: vnodes, path lookup, mounts and the file handles of the current process. Vnodes are objects
  in a memory of their own, with the static pool and the heap behind it. A file system is a table of
  operations that act on the whole state, the private state of the file system included; the table is an
  argument, found through the vnode's pointer to it. The locks are not modelled, except that a vnode's lock must exist
  where it is taken.
\<close>

section \<open>State\<close>

record vnode =
  vnode_parent :: addr
  vnode_children :: "addr list option"
  num_children :: "8 word"
  vnode_ops :: addr
  mounted_vnode :: addr
  vnode_name :: "byte list"
  filesystem_object :: addr
  filesystem_info :: addr
  node_lock :: bool
  vnode_size :: "64 word"
  vnode_inode_number :: "64 word"
  vnode_flags :: "64 word"
  vnode_type :: "16 word"
  vnode_filesystem_id :: "64 word"
  vnode_refcount :: "16 word"
  vnode_active_references :: "16 word"
  vnode_device_id :: "64 word"
  is_mount_point :: bool
  is_mounted :: bool
  is_cached :: bool

record virtual_handle =
  handle_id :: "64 word"
  handle_vnode :: addr
  handle_offset :: "64 word"

text \<open>
  \<open>node_lock\<close> says whether the pointer of that name points to a lock.
  \<open>vheap\<close> and \<open>hheap\<close> are the addresses the kernel heap hands out for vnodes and for handles, \<open>fs_refs\<close> the reference
  counts of the \<^verbatim>\<open>filesystem_info\<close> objects, \<open>fs\<close> the private state of the file systems.
\<close>

record 'f vfs =
  vnodes :: "addr \<rightharpoonup> vnode"
  vheap :: "addr list"
  vl :: sll_mem
  vl_pool :: "addr list"
  vnode_static_pool :: sll
  vnode_used_pool :: sll
  fs_refs :: "addr \<Rightarrow> 64 word"
  handles :: "addr \<rightharpoonup> virtual_handle"
  hheap :: "addr list"
  hl :: dll_mem
  handle_list :: dll
  num_handles :: "64 word"
  handle_id_bitmap :: "64 word"
  current_working_dir :: addr
  fs :: 'f

record 's vnode_operations =
  op_lookup :: "addr \<Rightarrow> byte list \<Rightarrow> 's \<Rightarrow> ('s \<times> addr) res"
  op_create :: "addr \<Rightarrow> byte list \<Rightarrow> 8 word \<Rightarrow> 's \<Rightarrow> ('s \<times> addr) res"
  op_remove :: "addr \<Rightarrow> 's \<Rightarrow> 's res"
  op_rename :: "addr \<Rightarrow> byte list \<Rightarrow> 's \<Rightarrow> 's res"
  op_write :: "addr \<Rightarrow> 64 word \<Rightarrow> byte list \<Rightarrow> 64 word \<Rightarrow> 's \<Rightarrow> ('s \<times> int) res"
  op_read :: "addr \<Rightarrow> 64 word \<Rightarrow> byte list \<Rightarrow> 64 word \<Rightarrow> 's \<Rightarrow> ('s \<times> byte list \<times> int) res"
  op_unlink :: "addr \<Rightarrow> 's \<Rightarrow> 's res"
  op_close :: "addr \<Rightarrow> 64 word \<Rightarrow> 's \<Rightarrow> 's res"

type_synonym 'f fs_table = "addr \<rightharpoonup> 'f vfs vnode_operations"

abbreviation (input) vfs_root :: addr where "vfs_root \<equiv> 1"
abbreviation (input) VFS_MAX_NAME_LENGTH :: nat where "VFS_MAX_NAME_LENGTH \<equiv> 128"
abbreviation (input) VNODE_MAX_DIRECTORY_ENTRIES :: nat where "VNODE_MAX_DIRECTORY_ENTRIES \<equiv> 64"
abbreviation (input) VNODE_STATIC_POOL :: "64 word" where "VNODE_STATIC_POOL \<equiv> 2"
abbreviation (input) VNODE_CHILD_MEMORY_ALLOCATED :: "64 word" where "VNODE_CHILD_MEMORY_ALLOCATED \<equiv> 1"
abbreviation (input) VNODE_DIRECTORY :: "16 word" where "VNODE_DIRECTORY \<equiv> 0"
abbreviation (input) VNODE_FILE :: "16 word" where "VNODE_FILE \<equiv> 1"
abbreviation (input) VNODE_HARD_LINK :: "16 word" where "VNODE_HARD_LINK \<equiv> 2"
abbreviation (input) VNODE_SYM_LINK :: "16 word" where "VNODE_SYM_LINK \<equiv> 8"
abbreviation (input) VNODE_FS_VNODE_ROOT :: "64 word" where "VNODE_FS_VNODE_ROOT \<equiv> 0xE"
abbreviation (input) KERN_OK :: int where "KERN_OK \<equiv> 0"
abbreviation (input) KERN_BUSY :: int where "KERN_BUSY \<equiv> -1"
abbreviation (input) KERN_EXISTS :: int where "KERN_EXISTS \<equiv> -6"
abbreviation (input) KERN_NOT_FOUND :: int where "KERN_NOT_FOUND \<equiv> -5"
abbreviation (input) KERN_WRONG_TYPE :: int where "KERN_WRONG_TYPE \<equiv> -10"
abbreviation (input) KERN_MAX_REACHED :: int where "KERN_MAX_REACHED \<equiv> -11"
abbreviation (input) KERN_UNEXPECTED :: int where "KERN_UNEXPECTED \<equiv> -49"
abbreviation (input) SEEK_BEGIN :: "64 word" where "SEEK_BEGIN \<equiv> 0xFFFFFFFFFFFFFFFF"
abbreviation (input) SEEK_END :: "64 word" where "SEEK_END \<equiv> 0xFFFFFFFFFFFFFFFD"
abbreviation (input) SLASH :: byte where "SLASH \<equiv> 47"

definition zero_vnode :: vnode where
  "zero_vnode = \<lparr>vnode_parent = NULL, vnode_children = None, num_children = 0, vnode_ops = NULL, mounted_vnode = NULL,
     vnode_name = replicate VFS_MAX_NAME_LENGTH 0,
     filesystem_object = NULL, filesystem_info = NULL, node_lock = False, vnode_size = 0, vnode_inode_number = 0,
     vnode_flags = 0, vnode_type = 0, vnode_filesystem_id = 0, vnode_refcount = 0, vnode_active_references = 0, vnode_device_id = 0,
     is_mount_point = False, is_mounted = False, is_cached = False\<rparr>"

definition get_vnode :: "'f vfs \<Rightarrow> addr \<Rightarrow> vnode res" where
  "get_vnode s v = deref (vnodes s) v"

definition modify_vnode :: "'f vfs \<Rightarrow> addr \<Rightarrow> (vnode \<Rightarrow> vnode) \<Rightarrow> 'f vfs res" where
  "modify_vnode s v f = bindR (modify (vnodes s) v f) (\<lambda>m. Inr (s\<lparr>vnodes := m\<rparr>))"

definition ops_of :: "'f fs_table \<Rightarrow> 'f vfs \<Rightarrow> addr \<Rightarrow> 'f vfs vnode_operations res" where
  "ops_of T s v = bindR (get_vnode s v) (\<lambda>n. deref T (vnode_ops n))"

section \<open>Allocation\<close>

fun init_pool :: "addr list \<Rightarrow> 'f vfs \<Rightarrow> 'f vfs res" where
  "init_pool [] s = Inr s"
| "init_pool (p # ps) s =
     bindR (singly_linked_list_insert_head (vl s) (vnode_used_pool s) p) (\<lambda>(m, l).
     bindR (modify_vnode (s\<lparr>vl := m, vnode_used_pool := l\<rparr>) p (\<lambda>n. n\<lparr>vnode_flags := vnode_flags n OR VNODE_STATIC_POOL\<rparr>)) (\<lambda>s.
       init_pool ps s))"

text \<open>\<open>pool\<close> are the addresses of \<^verbatim>\<open>static_vnode_pool\<close>; they go to the list of used vnodes.\<close>

definition vfs_init :: "addr list \<Rightarrow> 'f vfs \<Rightarrow> 'f vfs res" where
  "vfs_init pool s =
     bindR (singly_linked_list_init (vl_pool s) (vl s) 0) (\<lambda>(m, l1).
     bindR (singly_linked_list_init (vl_pool s) m 0) (\<lambda>(m, l2).
     bindR (init_pool pool (s\<lparr>vl := m, vnode_static_pool := l1, vnode_used_pool := l2\<rparr>)) (\<lambda>s.
       Inr (s\<lparr>vnodes := (vnodes s)(vfs_root \<mapsto> zero_vnode\<lparr>vnode_type := VNODE_DIRECTORY,
                vnode_filesystem_id := VNODE_FS_VNODE_ROOT, node_lock := True\<rparr>)\<rparr>))))"

definition vnode_alloc :: "'f vfs \<Rightarrow> ('f vfs \<times> addr) res" where
  "vnode_alloc s =
     (if head (vnode_static_pool s) = NULL then
        (case vheap s of [] \<Rightarrow> Inl NullDeref
         | a # rest \<Rightarrow> Inr (s\<lparr>vnodes := (vnodes s)(a \<mapsto> zero_vnode\<lparr>node_lock := True\<rparr>), vheap := rest\<rparr>, a))
      else bindR (deref (nodes (vl s)) (head (vnode_static_pool s))) (\<lambda>n.
           bindR (singly_linked_list_remove_head (vl s) (vnode_static_pool s)) (\<lambda>(m, l, _).
           bindR (modify_vnode (s\<lparr>vl := m, vnode_static_pool := l\<rparr>) (data n) (\<lambda>v. v\<lparr>node_lock := True\<rparr>)) (\<lambda>s.
             Inr (s, data n)))))"

definition vnode_directory_alloc_children :: "'f vfs \<Rightarrow> addr \<Rightarrow> 'f vfs res" where
  "vnode_directory_alloc_children s v =
     bindR (get_vnode s v) (\<lambda>n.
       if vnode_flags n AND VNODE_CHILD_MEMORY_ALLOCATED \<noteq> 0 then Inr s
       else modify_vnode s v (\<lambda>n. n\<lparr>vnode_children := Some (replicate VNODE_MAX_DIRECTORY_ENTRIES NULL),
              vnode_flags := vnode_flags n OR VNODE_CHILD_MEMORY_ALLOCATED\<rparr>))"

definition vnode_free :: "'f vfs \<Rightarrow> addr \<Rightarrow> 'f vfs res" where
  "vnode_free s v =
     (if v = NULL then Inr s
      else bindR (get_vnode s v) (\<lambda>n.
        if vnode_active_references n \<noteq> 0 then Inr s
        else if is_mount_point n then Inr s
        else if vnode_flags n AND VNODE_STATIC_POOL \<noteq> 0 then
          bindR (modify_vnode s v (\<lambda>n. n\<lparr>node_lock := False\<rparr>)) (\<lambda>s.
          bindR (singly_linked_list_insert_tail (vl s) (vnode_static_pool s) v) (\<lambda>(m, l).
            Inr (s\<lparr>vl := m, vnode_static_pool := l\<rparr>)))
        else if v = vfs_root then Inr s
        else Inr (s\<lparr>vnodes := (vnodes s)(v := None), vheap := v # vheap s\<rparr>)))"

section \<open>Lookup\<close>

text \<open>
  The loop over the children from \<open>index\<close>, with \<open>k\<close> of them to go. The array is read at \<^verbatim>\<open>++index\<close> before the loop
  ends.
\<close>

fun child_walk :: "(addr \<rightharpoonup> vnode) \<Rightarrow> addr list \<Rightarrow> byte list \<Rightarrow> nat \<Rightarrow> nat \<Rightarrow> addr res" where
  "child_walk m cs token index 0 = Inr NULL"
| "child_walk m cs token index (Suc k) =
     (let child = cs ! index in
      bindR (if child = NULL then Inr 0
             else bindR (deref m child) (\<lambda>n. safe_strcmp (vnode_name n) token VFS_MAX_NAME_LENGTH)) (\<lambda>eq.
        if eq \<noteq> 0 then Inr child
        else if Suc index < length cs then child_walk m cs token (Suc index) k
        else Inl OutOfBounds))"

definition find_vnode_child :: "'f fs_table \<Rightarrow> 'f vfs \<Rightarrow> addr \<Rightarrow> byte list \<Rightarrow> ('f vfs \<times> addr) res" where
  "find_vnode_child T s v token =
     bindR (get_vnode s v) (\<lambda>n.
       if vnode_type n \<noteq> VNODE_DIRECTORY then Inr (s, NULL)
       else
         let v = (if is_mount_point n then mounted_vnode n else v) in
         bindR (get_vnode s v) (\<lambda>n.
           if \<not> is_cached n \<and> num_children n = 0 then
             bindR (ops_of T s v) (\<lambda>ops.
             bindR (op_lookup ops v token s) (\<lambda>(s, child).
             bindR (modify_vnode s v (\<lambda>n. n\<lparr>is_cached := True\<rparr>)) (\<lambda>s. Inr (s, child))))
           else
             bindR (if vnode_flags n AND VNODE_CHILD_MEMORY_ALLOCATED = 0 then vnode_directory_alloc_children s v else Inr s) (\<lambda>s.
             bindR (get_vnode s v) (\<lambda>n.
               case vnode_children n of None \<Rightarrow> Inl NullDeref
               | Some cs \<Rightarrow> bindR (child_walk (vnodes s) cs token 0 (unat (num_children n))) (\<lambda>c. Inr (s, c))))))"

text \<open>
  The loop over the components of a path. The token buffer has room for 128 bytes; nothing reads behind the
  terminator of the token. Each turn asks for the component of the next number, and a path has no more
  components than bytes, so its length is enough fuel (\<open>path_walk_enough_fuel\<close>).
\<close>

fun path_walk :: "nat \<Rightarrow> 'f fs_table \<Rightarrow> byte list \<Rightarrow> nat \<Rightarrow> addr \<Rightarrow> 'f vfs \<Rightarrow> ('f vfs \<times> addr) res" where
  "path_walk 0 T pth token_number v s = Inl Unmodelled"
| "path_walk (Suc fuel) T pth token_number v s =
     bindR (strtok pth SLASH token_number) (\<lambda>(token, last_token).
       if VFS_MAX_NAME_LENGTH < length token then Inl OutOfBounds
       else bindR (find_vnode_child T s v token) (\<lambda>(s, c).
         if c = NULL then Inr (s, NULL)
         else if last_token = LAST_TOKEN then
           bindR (get_vnode s c) (\<lambda>n. Inr (s, if is_mount_point n then mounted_vnode n else c))
         else path_walk fuel T pth (token_number + 1) c s))"

definition parse_path :: "'f fs_table \<Rightarrow> byte list \<Rightarrow> 'f vfs \<Rightarrow> ('f vfs \<times> addr) res" where
  "parse_path T pth s =
     bindR (get_vnode s vfs_root) (\<lambda>r.
       case pth of [] \<Rightarrow> Inl OutOfBounds
       | c # rest \<Rightarrow>
         let v = (if c \<noteq> SLASH then current_working_dir s else if is_mount_point r then mounted_vnode r else vfs_root);
             pth = dropWhile (\<lambda>c. c = SLASH) (if c \<noteq> SLASH then pth else rest)
         in case pth of [] \<Rightarrow> Inl OutOfBounds
            | c # _ \<Rightarrow> if c = 0 then Inr (s, v) else path_walk (length pth) T pth 1 v s)"

definition vnode_lookup :: "'f fs_table \<Rightarrow> byte list \<Rightarrow> 'f vfs \<Rightarrow> ('f vfs \<times> addr) res" where
  "vnode_lookup T pth s = parse_path T pth s"

section \<open>Operations on vnodes\<close>

definition vnode_link :: "'f fs_table \<Rightarrow> addr \<Rightarrow> addr \<Rightarrow> 8 word \<Rightarrow> 'f vfs \<Rightarrow> ('f vfs \<times> addr) res" where
  "vnode_link T v new_vnode ty s =
     bindR (get_vnode s v) (\<lambda>n.
       if vnode_type n \<noteq> VNODE_DIRECTORY then Inr (s, NULL)
       else bindR (get_vnode s new_vnode) (\<lambda>t.
         if vnode_type t = VNODE_HARD_LINK \<or> vnode_type t = VNODE_SYM_LINK then Inr (s, NULL)
         else if ucast ty \<noteq> VNODE_HARD_LINK \<and> ucast ty \<noteq> VNODE_SYM_LINK then Inr (s, NULL)
         else bindR (ops_of T s v) (\<lambda>ops.
              bindR (op_create ops v (vnode_name t) ty s) (\<lambda>(s, child).
              bindR (get_vnode s v) (\<lambda>n.
              bindR (modify_vnode s child (\<lambda>c. c\<lparr>filesystem_info := filesystem_info n\<rparr>)) (\<lambda>s.
                Inr (s, child)))))))"

definition vnode_unlink :: "'f fs_table \<Rightarrow> addr \<Rightarrow> 'f vfs \<Rightarrow> ('f vfs \<times> int) res" where
  "vnode_unlink T link s =
     bindR (get_vnode s link) (\<lambda>n.
       if vnode_type n \<noteq> VNODE_SYM_LINK \<and> vnode_type n \<noteq> VNODE_HARD_LINK then Inr (s, KERN_WRONG_TYPE)
       else bindR (ops_of T s link) (\<lambda>ops.
            bindR (op_unlink ops link s) (\<lambda>s. Inr (s, KERN_OK))))"

text \<open>The vnode is cleared after its allocation, the pointer to its lock included.\<close>

definition vnode_create_special :: "addr \<Rightarrow> byte list \<Rightarrow> 8 word \<Rightarrow> 'f vfs \<Rightarrow> ('f vfs \<times> addr) res" where
  "vnode_create_special parent name ty s =
     bindR (vnode_alloc s) (\<lambda>(s, new_vnode).
     bindR (modify_vnode s new_vnode (\<lambda>_. zero_vnode)) (\<lambda>s.
     bindR (safe_strcpy (vnode_name zero_vnode) 0 name VFS_MAX_NAME_LENGTH) (\<lambda>nm.
     bindR (modify_vnode s new_vnode (\<lambda>n. n\<lparr>vnode_name := nm\<rparr>)) (\<lambda>s.
       if 3 \<le> ty \<and> ty \<le> 7 then Inr (s, new_vnode)
       else Inl (Panic ''vnode_create_special: unknown vnode_type'')))))"

definition vnode_create :: "'f fs_table \<Rightarrow> byte list \<Rightarrow> byte list \<Rightarrow> 8 word \<Rightarrow> 'f vfs \<Rightarrow> ('f vfs \<times> addr) res" where
  "vnode_create T pth name ty s =
     bindR (vnode_lookup T pth s) (\<lambda>(s, parent_directory).
       if parent_directory = NULL then Inr (s, NULL)
       else bindR (get_vnode s parent_directory) (\<lambda>p.
         if is_mount_point p then Inl (Panic ''mount'')
         else bindR (if vnode_flags p AND VNODE_CHILD_MEMORY_ALLOCATED = 0
                     then vnode_directory_alloc_children s parent_directory else Inr s) (\<lambda>s.
              bindR (if ucast ty = VNODE_DIRECTORY \<or> ucast ty = VNODE_FILE
                     then bindR (ops_of T s parent_directory) (\<lambda>ops. op_create ops parent_directory name ty s)
                     else vnode_create_special parent_directory name ty s) (\<lambda>(s, new_vnode).
              bindR (if ucast ty = VNODE_DIRECTORY then modify_vnode s new_vnode (\<lambda>n. n\<lparr>is_cached := True\<rparr>)
                     else Inr s) (\<lambda>s.
              bindR (modify_vnode s new_vnode (\<lambda>n. n\<lparr>vnode_parent := parent_directory\<rparr>)) (\<lambda>s.
              bindR (get_vnode s parent_directory) (\<lambda>p.
                case vnode_children p of None \<Rightarrow> Inl NullDeref
                | Some cs \<Rightarrow>
                  if unat (num_children p) < length cs then
                    bindR (modify_vnode s parent_directory
                      (\<lambda>p. p\<lparr>vnode_children := Some (cs[unat (num_children p) := new_vnode]),
                             num_children := num_children p + 1\<rparr>)) (\<lambda>s.
                      Inr (s, new_vnode))
                  else Inl OutOfBounds)))))))"

text \<open>
  The entry of the removed vnode is overwritten with the one behind the last child, at index \<open>num\<close>, with \<open>k\<close>
  entries to go.
\<close>

fun update_walk :: "addr list \<Rightarrow> addr \<Rightarrow> nat \<Rightarrow> nat \<Rightarrow> nat \<Rightarrow> addr list res" where
  "update_walk cs v num i 0 = Inl (Panic ''Vnode does not exist'')"
| "update_walk cs v num i (Suc k) =
     (if length cs \<le> i then Inl OutOfBounds
      else if cs ! i = v then
        if num < length cs then Inr (cs[i := cs[i := NULL] ! num]) else Inl OutOfBounds
      else update_walk cs v num (Suc i) k)"

definition vnode_update_children_array :: "addr \<Rightarrow> 'f vfs \<Rightarrow> ('f vfs \<times> int) res" where
  "vnode_update_children_array v s =
     bindR (get_vnode s v) (\<lambda>n.
     bindR (get_vnode s (vnode_parent n)) (\<lambda>p.
     bindR (case vnode_children p of
              None \<Rightarrow> if num_children p = 0 then Inl (Panic ''Vnode does not exist'') else Inl NullDeref
            | Some cs \<Rightarrow> update_walk cs v (unat (num_children p)) 0 (unat (num_children p))) (\<lambda>cs.
     bindR (modify_vnode s (vnode_parent n) (\<lambda>p. p\<lparr>vnode_children := Some cs, num_children := num_children p - 1\<rparr>)) (\<lambda>s.
       Inr (s, KERN_OK)))))"

definition take_node_lock :: "'f vfs \<Rightarrow> addr \<Rightarrow> vnode res" where
  "take_node_lock s v = bindR (get_vnode s v) (\<lambda>n. if node_lock n then Inr n else Inl NullDeref)"

definition vnode_remove :: "'f fs_table \<Rightarrow> addr \<Rightarrow> byte list \<Rightarrow> 'f vfs \<Rightarrow> ('f vfs \<times> int) res" where
  "vnode_remove T v pth s =
     bindR (take_node_lock s v) (\<lambda>_.
     bindR (if v \<noteq> NULL then Inr (s, v) else vnode_lookup T pth s) (\<lambda>(s, target).
       if target = NULL then bindR (take_node_lock s v) (\<lambda>_. Inr (s, KERN_NOT_FOUND))
       else bindR (get_vnode s target) (\<lambda>t.
         if is_mount_point t then Inl (Panic ''Cannot delete mount point without first unmounting'')
         else bindR (get_vnode s v) (\<lambda>n.
           if vnode_active_references n \<noteq> 0 then bindR (take_node_lock s v) (\<lambda>_. Inr (s, KERN_BUSY))
           else bindR (ops_of T s target) (\<lambda>ops.
                bindR (op_remove ops target s) (\<lambda>s.
                bindR (vnode_update_children_array target s) (\<lambda>(s, _).
                bindR (vnode_free s target) (\<lambda>s.
                bindR (take_node_lock s v) (\<lambda>_. Inr (s, KERN_OK))))))))))"

definition vnode_rename :: "'f fs_table \<Rightarrow> addr \<Rightarrow> byte list \<Rightarrow> 'f vfs \<Rightarrow> 'f vfs res" where
  "vnode_rename T v new_name s =
     bindR (get_vnode s v) (\<lambda>n.
     bindR (safe_strcpy (vnode_name n) 0 new_name VFS_MAX_NAME_LENGTH) (\<lambda>nm.
     bindR (strlen new_name) (\<lambda>len.
       let nm = (if VFS_MAX_NAME_LENGTH < len then nm[VFS_MAX_NAME_LENGTH - 1 := 0] else nm) in
       bindR (modify_vnode s v (\<lambda>n. n\<lparr>vnode_name := nm\<rparr>)) (\<lambda>s.
       bindR (ops_of T s v) (\<lambda>ops. op_rename ops v nm s)))))"

definition vnode_mount :: "addr \<Rightarrow> addr \<Rightarrow> 'f vfs \<Rightarrow> ('f vfs \<times> int) res" where
  "vnode_mount mount_point mounted s =
     bindR (get_vnode s mount_point) (\<lambda>p.
       if is_mount_point p then Inl (Panic ''here'')
       else if vnode_type p \<noteq> VNODE_DIRECTORY then Inl (Panic ''wrong type'')
       else bindR (get_vnode s mounted) (\<lambda>t.
         if is_mount_point t then Inl (Panic ''here'')
         else bindR (modify_vnode s mounted (\<lambda>t. t\<lparr>vnode_parent := mount_point, is_mounted := True\<rparr>)) (\<lambda>s.
              bindR (modify_vnode s mount_point
                (\<lambda>p. p\<lparr>is_mount_point := True, mounted_vnode := mounted, is_cached := True\<rparr>)) (\<lambda>s.
                Inr (s, KERN_OK)))))"

definition vnode_unmount :: "addr \<Rightarrow> 'f vfs \<Rightarrow> ('f vfs \<times> int) res" where
  "vnode_unmount v s =
     bindR (get_vnode s v) (\<lambda>n.
       if \<not> is_mount_point n then Inr (s, KERN_NOT_FOUND)
       else bindR (modify_vnode s (mounted_vnode n) (\<lambda>t. t\<lparr>vnode_parent := NULL\<rparr>)) (\<lambda>s.
            bindR (modify_vnode s v (\<lambda>n. n\<lparr>is_mount_point := False, mounted_vnode := NULL, is_cached := False\<rparr>)) (\<lambda>s.
              Inr (s, KERN_OK))))"

definition vnode_mount_path :: "'f fs_table \<Rightarrow> byte list \<Rightarrow> addr \<Rightarrow> 'f vfs \<Rightarrow> ('f vfs \<times> int) res" where
  "vnode_mount_path T mount_point_path mounted s =
     bindR (parse_path T mount_point_path s) (\<lambda>(s, mount_point). vnode_mount mount_point mounted s)"

definition vnode_unmount_path :: "'f fs_table \<Rightarrow> byte list \<Rightarrow> 'f vfs \<Rightarrow> ('f vfs \<times> int) res" where
  "vnode_unmount_path T pth s = bindR (parse_path T pth s) (\<lambda>(s, v). vnode_unmount v s)"

definition vnode_read :: "'f fs_table \<Rightarrow> addr \<Rightarrow> 64 word \<Rightarrow> 64 word \<Rightarrow> byte list \<Rightarrow> 'f vfs \<Rightarrow> ('f vfs \<times> byte list \<times> int) res" where
  "vnode_read T v offset bytes buffer s =
     bindR (take_node_lock s v) (\<lambda>n.
       if is_mount_point n then Inl (Panic ''reading a directory'')
       else let bytes = (if bytes = 0 then vnode_size n else bytes) in
            bindR (ops_of T s v) (\<lambda>ops.
            bindR (op_read ops v offset buffer bytes s) (\<lambda>(s, buffer, ret).
            bindR (take_node_lock s v) (\<lambda>_. Inr (s, buffer, ret)))))"

text \<open>The result of \<^verbatim>\<open>write\<close> goes through a variable of 32 bits.\<close>

definition vnode_write :: "'f fs_table \<Rightarrow> addr \<Rightarrow> 64 word \<Rightarrow> 64 word \<Rightarrow> byte list \<Rightarrow> 'f vfs \<Rightarrow> ('f vfs \<times> int) res" where
  "vnode_write T v offset bytes buffer s =
     bindR (take_node_lock s v) (\<lambda>n.
       if is_mount_point n then Inl (Panic ''writing to a directory'')
       else bindR (ops_of T s v) (\<lambda>ops.
            bindR (op_write ops v offset buffer bytes s) (\<lambda>(s, ret).
            bindR (take_node_lock s v) (\<lambda>_. Inr (s, signed_take_bit 31 ret)))))"

text \<open>
  \<^verbatim>\<open>vnode_get_canonical_path\<close>: the names from the vnode up to the root go to a buffer of a page, and the
  components are taken from it from the last to the first. The fuel bounds the depth; \<open>None\<close> is a run that does
  not end.
\<close>

fun canonical_walk :: "nat \<Rightarrow> 'f vfs \<Rightarrow> addr \<Rightarrow> byte list \<Rightarrow> byte list option res" where
  "canonical_walk 0 s p buffer = (if p = NULL \<or> p = vfs_root then Inr (Some buffer) else Inr None)"
| "canonical_walk (Suc fuel) s p buffer =
     (if p = NULL \<or> p = vfs_root then Inr (Some buffer)
      else bindR (get_vnode s p) (\<lambda>n.
           let p = (if is_mounted n then vnode_parent n else p) in
           bindR (strcat buffer [SLASH, 0]) (\<lambda>buffer.
           bindR (get_vnode s p) (\<lambda>n.
           bindR (if hd (vnode_name n) \<noteq> SLASH then strcat buffer (vnode_name n) else Inr buffer) (\<lambda>buffer.
             canonical_walk fuel s (vnode_parent n) buffer)))))"

fun reverse_tokens :: "byte list \<Rightarrow> nat \<Rightarrow> byte list \<Rightarrow> byte list res" where
  "reverse_tokens buffer 0 final_buffer = Inr final_buffer"
| "reverse_tokens buffer (Suc i) final_buffer =
     bindR (strtok buffer SLASH (Suc i)) (\<lambda>(temp, _).
     bindR (strcat final_buffer [SLASH, 0]) (\<lambda>final_buffer.
     bindR (strcat final_buffer temp) (\<lambda>final_buffer.
       reverse_tokens buffer i final_buffer)))"

definition vnode_get_canonical_path :: "nat \<Rightarrow> addr \<Rightarrow> 'f vfs \<Rightarrow> byte list option res" where
  "vnode_get_canonical_path fuel v s =
     bindR (canonical_walk fuel s v (replicate 4096 0)) (\<lambda>b. case b of None \<Rightarrow> Inr None
       | Some buffer \<Rightarrow>
         bindR (strtok_count buffer SLASH) (\<lambda>c. case c of None \<Rightarrow> Inr None
           | Some token_length \<Rightarrow>
             bindR (reverse_tokens buffer (token_length + 1) (replicate 4096 0)) (\<lambda>f. Inr (Some f))))"

section \<open>Handles\<close>

fun free_id :: "64 word \<Rightarrow> nat \<Rightarrow> nat \<Rightarrow> nat option" where
  "free_id bitmap i 0 = None"
| "free_id bitmap i (Suc k) = (if bitmap AND push_bit i 1 = 0 then Some i else free_id bitmap (Suc i) k)"

definition get_new_file_handle :: "'f vfs \<Rightarrow> 'f vfs \<times> int" where
  "get_new_file_handle s =
     (case free_id (handle_id_bitmap s) 0 64 of None \<Rightarrow> (s, KERN_MAX_REACHED)
      | Some i \<Rightarrow> (s\<lparr>handle_id_bitmap := handle_id_bitmap s OR push_bit i 1\<rparr>, int i))"

definition change_fs_refs :: "(64 word \<Rightarrow> 64 word) \<Rightarrow> addr \<Rightarrow> 'f vfs \<Rightarrow> 'f vfs" where
  "change_fs_refs f info s = (if info = NULL then s else s\<lparr>fs_refs := (fs_refs s)(info := f (fs_refs s info))\<rparr>)"

definition vnode_open :: "'f fs_table \<Rightarrow> byte list \<Rightarrow> 'f vfs \<Rightarrow> ('f vfs \<times> int) res" where
  "vnode_open T pth s =
     (let (s, ret) = get_new_file_handle s in
      if ret < 0 then Inr (s, KERN_MAX_REACHED)
      else bindR (vnode_lookup T pth s) (\<lambda>(s, v).
        if v = NULL then Inr (s, KERN_NOT_FOUND)
        else bindR (get_vnode s v) (\<lambda>n.
             bindR (modify_vnode (change_fs_refs (\<lambda>c. c + 1) (filesystem_info n) s) v
               (\<lambda>n. n\<lparr>vnode_refcount := vnode_refcount n + 1\<rparr>)) (\<lambda>s.
             let v = (if is_mount_point n then mounted_vnode n else v) in
             case hheap s of [] \<Rightarrow> Inl NullDeref
             | h # rest \<Rightarrow>
               bindR (doubly_linked_list_insert_head (hl s) (handle_list s) h) (\<lambda>(m, l).
                 Inr (s\<lparr>hheap := rest,
                        handles := (handles s)(h \<mapsto> \<lparr>handle_id = word_of_int ret, handle_vnode = v, handle_offset = 0\<rparr>),
                        num_handles := num_handles s + 1, hl := m, handle_list := l\<rparr>, ret))))))"

text \<open>The loop of \<^verbatim>\<open>vnode_close\<close> does not advance its pointer. \<open>None\<close>: the turns of \<open>fuel\<close> did not end it.\<close>

fun close_loop :: "nat \<Rightarrow> 'f fs_table \<Rightarrow> addr \<Rightarrow> 64 word \<Rightarrow> 'f vfs \<Rightarrow> 'f vfs option res" where
  "close_loop 0 T node handle s = Inr None"
| "close_loop (Suc fuel) T node handle s =
     (if node = NULL then Inl (Panic ''vnode_close invalid handle identifier'')
      else bindR (deref (dnodes (hl s)) node) (\<lambda>d.
           bindR (deref (handles s) (ddata d)) (\<lambda>h.
             if handle_id h = handle then
               let v = handle_vnode h in
               bindR (ops_of T s v) (\<lambda>ops.
               bindR (op_close ops v handle s) (\<lambda>s.
               bindR (modify_vnode s v (\<lambda>n. n\<lparr>vnode_refcount := vnode_refcount n - 1\<rparr>)) (\<lambda>s.
               bindR (get_vnode s v) (\<lambda>n.
               let s = change_fs_refs (\<lambda>c. c - 1) (filesystem_info n) s;
                   s = s\<lparr>handles := (handles s)(ddata d := None), hheap := ddata d # hheap s\<rparr>
               in bindR (doubly_linked_list_remove_node_by_address (hl s) (handle_list s) node) (\<lambda>(m, l).
                    Inr (Some (s\<lparr>hl := m, handle_list := l\<rparr>)))))))
             else close_loop fuel T node handle s)))"

definition vnode_close :: "nat \<Rightarrow> 'f fs_table \<Rightarrow> 64 word \<Rightarrow> 'f vfs \<Rightarrow> 'f vfs option res" where
  "vnode_close fuel T handle s = close_loop fuel T (dhead (handle_list s)) handle s"

text \<open>The walks over the handles; the count of the list bounds them.\<close>

fun handle_walk :: "nat \<Rightarrow> 'f vfs \<Rightarrow> addr \<Rightarrow> 64 word \<Rightarrow> addr res" where
  "handle_walk 0 s node hid = (if node = NULL then Inr NULL else Inl Unmodelled)"
| "handle_walk (Suc fuel) s node hid =
     (if node = NULL then Inr NULL
      else bindR (deref (dnodes (hl s)) node) (\<lambda>d.
           bindR (deref (handles s) (ddata d)) (\<lambda>h.
             if handle_id h = hid then Inr (handle_vnode h) else handle_walk fuel s (dnext d) hid)))"

definition handle_to_vnode :: "'f vfs \<Rightarrow> 64 word \<Rightarrow> addr res" where
  "handle_to_vnode s hid = handle_walk (dcount (handle_list s)) s (dhead (handle_list s)) hid"

fun offset_walk :: "nat \<Rightarrow> 'f vfs \<Rightarrow> addr \<Rightarrow> 64 word \<Rightarrow> int res" where
  "offset_walk 0 s node hid = Inl Unmodelled"
| "offset_walk (Suc fuel) s node hid =
     bindR (deref (dnodes (hl s)) node) (\<lambda>d.
     bindR (deref (handles s) (ddata d)) (\<lambda>h.
       if handle_id h = hid then Inr (sint (handle_offset h))
       else bindR (deref (dnodes (hl s)) (dnext d)) (\<lambda>d'.
         if dnext d' \<noteq> NULL then offset_walk fuel s (dnext d) hid else Inr KERN_NOT_FOUND)))"

definition handle_to_offset :: "'f vfs \<Rightarrow> 64 word \<Rightarrow> int res" where
  "handle_to_offset s hid = offset_walk (dcount (handle_list s) + 1) s (dhead (handle_list s)) hid"

fun find_handle_walk :: "nat \<Rightarrow> 'f vfs \<Rightarrow> addr \<Rightarrow> 64 word \<Rightarrow> addr res" where
  "find_handle_walk 0 s node hid = Inl Unmodelled"
| "find_handle_walk (Suc fuel) s node hid =
     bindR (deref (dnodes (hl s)) node) (\<lambda>d.
       if ddata d = NULL then Inr NULL
       else bindR (deref (handles s) (ddata d)) (\<lambda>h.
         if handle_id h = hid then Inr (ddata d)
         else if dnext d = NULL then Inr NULL
         else find_handle_walk fuel s (dnext d) hid))"

definition find_handle :: "'f vfs \<Rightarrow> 64 word \<Rightarrow> addr res" where
  "find_handle s hid =
     (if dhead (handle_list s) = NULL then Inr NULL
      else find_handle_walk (dcount (handle_list s)) s (dhead (handle_list s)) hid)"

definition is_valid_vnode_type :: "64 word \<Rightarrow> bool" where
  "is_valid_vnode_type ty \<longleftrightarrow> ty \<le> 8"

section \<open>The functions behind the system calls\<close>

definition vfs_write :: "'f fs_table \<Rightarrow> 64 word \<Rightarrow> byte list \<Rightarrow> 64 word \<Rightarrow> 'f vfs \<Rightarrow> ('f vfs \<times> int) res" where
  "vfs_write T handle buffer bytes s =
     bindR (handle_to_vnode s handle) (\<lambda>v.
       if v = NULL then Inr (s, KERN_NOT_FOUND)
       else bindR (handle_to_offset s handle) (\<lambda>offset.
         if offset < 0 then Inr (s, offset) else vnode_write T v (word_of_int offset) bytes buffer s))"

definition vfs_read :: "'f fs_table \<Rightarrow> 64 word \<Rightarrow> byte list \<Rightarrow> 64 word \<Rightarrow> 'f vfs \<Rightarrow> ('f vfs \<times> byte list \<times> int) res" where
  "vfs_read T handle buffer bytes s =
     bindR (handle_to_vnode s handle) (\<lambda>v.
       if v = NULL then Inr (s, buffer, KERN_NOT_FOUND)
       else bindR (handle_to_offset s handle) (\<lambda>offset.
         if offset < 0 then Inr (s, buffer, KERN_NOT_FOUND)
         else vnode_read T v (word_of_int offset) bytes buffer s))"

definition vfs_open :: "'f fs_table \<Rightarrow> byte list \<Rightarrow> 'f vfs \<Rightarrow> ('f vfs \<times> int) res" where
  "vfs_open T pth s = bindR (vnode_open T pth s) (\<lambda>(s, handle). Inr (s, if handle < 0 then KERN_NOT_FOUND else handle))"

definition vfs_close :: "nat \<Rightarrow> 'f fs_table \<Rightarrow> 64 word \<Rightarrow> 'f vfs \<Rightarrow> 'f vfs option res" where
  "vfs_close fuel T handle s = vnode_close fuel T handle s"

definition vfs_mount :: "'f fs_table \<Rightarrow> byte list \<Rightarrow> byte list \<Rightarrow> 'f vfs \<Rightarrow> ('f vfs \<times> int) res" where
  "vfs_mount T mount_point mounted_filesystem s =
     bindR (vnode_lookup T mount_point s) (\<lambda>(s, v).
       if v = NULL then Inr (s, KERN_NOT_FOUND)
       else bindR (vnode_lookup T mounted_filesystem s) (\<lambda>(s, vnode_to_mount).
         if vnode_to_mount = NULL then Inr (s, KERN_NOT_FOUND)
         else bindR (vnode_mount v vnode_to_mount s) (\<lambda>(s, ret). Inr (s, if ret < 0 then ret else KERN_OK))))"

definition vfs_unmount :: "'f fs_table \<Rightarrow> byte list \<Rightarrow> 'f vfs \<Rightarrow> ('f vfs \<times> int) res" where
  "vfs_unmount T pth s =
     bindR (vnode_lookup T pth s) (\<lambda>(s, mount_point).
       if mount_point = NULL then Inr (s, KERN_NOT_FOUND)
       else bindR (vnode_unmount mount_point s) (\<lambda>(s, ret). Inr (s, if ret < 0 then ret else KERN_OK)))"

definition vfs_rename :: "'f fs_table \<Rightarrow> byte list \<Rightarrow> byte list \<Rightarrow> 'f vfs \<Rightarrow> ('f vfs \<times> int) res" where
  "vfs_rename T pth new_name s =
     bindR (vnode_lookup T pth s) (\<lambda>(s, v).
       if v = NULL then Inr (s, KERN_NOT_FOUND)
       else bindR (vnode_rename T v new_name s) (\<lambda>s. Inr (s, KERN_OK)))"

definition vfs_create :: "'f fs_table \<Rightarrow> byte list \<Rightarrow> byte list \<Rightarrow> 64 word \<Rightarrow> 'f vfs \<Rightarrow> ('f vfs \<times> int) res" where
  "vfs_create T pth name ty s =
     bindR (safe_strlen name VFS_MAX_NAME_LENGTH) (\<lambda>len.
       if len < 0 then Inr (s, KERN_OVERFLOW)
       else if \<not> is_valid_vnode_type ty then Inr (s, KERN_WRONG_TYPE)
       else bindR (vnode_create T pth name (ucast ty) s) (\<lambda>(s, v).
         Inr (s, if v = NULL then KERN_UNEXPECTED else KERN_OK)))"

definition get_size :: "'f vfs \<Rightarrow> 64 word \<Rightarrow> int res" where
  "get_size s handle =
     bindR (handle_to_vnode s handle) (\<lambda>v.
       if v = NULL then Inr KERN_NOT_FOUND else bindR (get_vnode s v) (\<lambda>n. Inr (sint (vnode_size n))))"

text \<open>For \<^verbatim>\<open>SEEK_END\<close> the size is asked for with the offset in the place of the handle.\<close>

definition vfs_seek :: "64 word \<Rightarrow> 64 word \<Rightarrow> 'f vfs \<Rightarrow> ('f vfs \<times> int) res" where
  "vfs_seek handle whence s =
     bindR (find_handle s handle) (\<lambda>h.
       if h = NULL then Inr (s, KERN_NOT_FOUND)
       else bindR (deref (handles s) h) (\<lambda>vh.
            bindR (if whence = SEEK_BEGIN then Inr 0
                   else if whence = SEEK_END then bindR (get_size s (handle_offset vh)) (\<lambda>n. Inr (word_of_int n))
                   else Inr whence) (\<lambda>off.
            bindR (modify (handles s) h (\<lambda>vh. vh\<lparr>handle_offset := off\<rparr>)) (\<lambda>m.
              Inr (s\<lparr>handles := m\<rparr>, KERN_OK)))))"

section \<open>Names\<close>

text \<open>A name in a field of the length of a name, and its copy.\<close>

definition padded :: "byte list \<Rightarrow> byte list" where
  "padded name = name @ replicate (VFS_MAX_NAME_LENGTH - length name) 0"

lemma copy_name:
  assumes "0 \<notin> set name" "length name < VFS_MAX_NAME_LENGTH"
  shows "safe_strcpy (replicate VFS_MAX_NAME_LENGTH 0) 0 (name @ 0 # r) VFS_MAX_NAME_LENGTH = Inr (padded name)"
    "safe_strcpy (replicate VFS_MAX_NAME_LENGTH 0) 0 (padded name) VFS_MAX_NAME_LENGTH = Inr (padded name)"
proof -
  obtain k where k: "VFS_MAX_NAME_LENGTH - length name = Suc k" using assms(2) by (metis Suc_diff_Suc)
  have "drop (Suc (length name)) (replicate VFS_MAX_NAME_LENGTH 0) = replicate k (0 :: byte)"
    using k by (simp add: drop_replicate)
  then have "overwrite (replicate VFS_MAX_NAME_LENGTH 0) 0 (name @ [0]) = padded name"
    unfolding padded_def k by (simp add: overwrite_def)
  then have eq: "safe_strcpy (replicate VFS_MAX_NAME_LENGTH 0) 0 (name @ 0 # r) VFS_MAX_NAME_LENGTH = Inr (padded name)" for r
    using safe_copy_eq [of name 0 "replicate VFS_MAX_NAME_LENGTH 0" 0 VFS_MAX_NAME_LENGTH r] assms by (simp add: safe_strcpy_def)
  show "safe_strcpy (replicate VFS_MAX_NAME_LENGTH 0) 0 (name @ 0 # r) VFS_MAX_NAME_LENGTH = Inr (padded name)" by (rule eq)
  have "padded name = name @ 0 # replicate k 0" unfolding padded_def k by simp
  then show "safe_strcpy (replicate VFS_MAX_NAME_LENGTH 0) 0 (padded name) VFS_MAX_NAME_LENGTH = Inr (padded name)" using eq by metis
qed

end
