(* ===== verification/VFS_Lookup.thy ===== *)
theory VFS_Lookup
  imports VFS
begin

text \<open>
  Path lookup of \<^verbatim>\<open>filesystem/vfs.c\<close>: the loop of \<open>parse_path\<close> ends, and on a tree of vnodes whose directories are
  cached it computes the reference function \<open>resolve\<close>, which follows the components through the children and
  the mounts. Two names match when one is a prefix of the other.
\<close>

section \<open>Reference definitions\<close>

definition name_of :: "vnode \<Rightarrow> byte list" where
  "name_of n = takeWhile (\<lambda>c. c \<noteq> 0) (vnode_name n)"

definition names_match :: "byte list \<Rightarrow> byte list \<Rightarrow> bool" where
  "names_match x y \<longleftrightarrow> take (length y) x = take (length x) y"

definition mount_of :: "(addr \<rightharpoonup> vnode) \<Rightarrow> addr \<Rightarrow> addr" where
  "mount_of m v = (if v \<noteq> NULL \<and> is_mount_point (the (m v)) then mounted_vnode (the (m v)) else v)"

definition dir_entries :: "(addr \<rightharpoonup> vnode) \<Rightarrow> addr \<Rightarrow> addr list" where
  "dir_entries m v = take (unat (num_children (the (m v)))) (the (vnode_children (the (m v))))"

definition lookup_child :: "(addr \<rightharpoonup> vnode) \<Rightarrow> addr \<Rightarrow> byte list \<Rightarrow> addr" where
  "lookup_child m v x =
     (if vnode_type (the (m v)) \<noteq> VNODE_DIRECTORY then NULL
      else case find (\<lambda>c. c \<noteq> NULL \<and> names_match (name_of (the (m c))) x) (dir_entries m (mount_of m v)) of
             None \<Rightarrow> NULL | Some c \<Rightarrow> c)"

fun resolve :: "(addr \<rightharpoonup> vnode) \<Rightarrow> addr \<Rightarrow> byte list list \<Rightarrow> addr" where
  "resolve m v [] = mount_of m v"
| "resolve m v (x # xs) = (let c = lookup_child m v x in if c = NULL then NULL else resolve m c xs)"

text \<open>
  A tree whose directories are all cached: names are terminated, a mount point leads to a directory, and a
  directory has its array of children, each NULL or a vnode, with an entry to spare.
\<close>

definition cached_vnode :: "(addr \<rightharpoonup> vnode) \<Rightarrow> vnode \<Rightarrow> bool" where
  "cached_vnode m n \<longleftrightarrow> 0 \<in> set (vnode_name n) \<and>
     (is_mount_point n \<longrightarrow> (\<exists>t. deref m (mounted_vnode n) = Inr t \<and> vnode_type t = VNODE_DIRECTORY)) \<and>
     (vnode_type n = VNODE_DIRECTORY \<longrightarrow>
        (is_cached n \<or> num_children n \<noteq> 0) \<and> vnode_flags n AND VNODE_CHILD_MEMORY_ALLOCATED \<noteq> 0 \<and>
        (\<exists>cs. vnode_children n = Some cs \<and> unat (num_children n) < length cs \<and>
           (\<forall>c\<in>set (take (unat (num_children n)) cs). c = NULL \<or> c \<in> dom m)))"

definition cached_tree :: "(addr \<rightharpoonup> vnode) \<Rightarrow> bool" where
  "cached_tree m \<longleftrightarrow> m NULL = None \<and> (\<forall>n\<in>ran m. cached_vnode m n)"

definition component :: "byte list \<Rightarrow> bool" where
  "component x \<longleftrightarrow> x \<noteq> [] \<and> 0 \<notin> set x \<and> SLASH \<notin> set x \<and> length x < VFS_MAX_NAME_LENGTH"

text \<open>
  An example: a file system with root 2 is mounted on the root of the vnode tree; it holds the file \<^verbatim>\<open>ab\<close> and the
  directory \<^verbatim>\<open>c\<close> with the file \<^verbatim>\<open>x\<close>.
\<close>

definition demo_dir :: "byte list \<Rightarrow> addr list \<Rightarrow> vnode" where
  "demo_dir nm cs = zero_vnode\<lparr>vnode_name := nm @ [0], vnode_type := VNODE_DIRECTORY, is_cached := True, node_lock := True,
     vnode_ops := 1, vnode_children := Some (cs @ [NULL]), num_children := of_nat (length cs),
     vnode_flags := VNODE_CHILD_MEMORY_ALLOCATED\<rparr>"

definition demo_file :: "byte list \<Rightarrow> addr \<Rightarrow> vnode" where
  "demo_file nm p = zero_vnode\<lparr>vnode_name := nm @ [0], vnode_type := VNODE_FILE, vnode_parent := p, node_lock := True, vnode_ops := 1\<rparr>"

definition demo_tree :: "addr \<rightharpoonup> vnode" where
  "demo_tree = [1 \<mapsto> (demo_dir [] [])\<lparr>is_mount_point := True, mounted_vnode := 2\<rparr>, 2 \<mapsto> demo_dir [47] [3, 4],
     3 \<mapsto> demo_file [97, 98] 2, 4 \<mapsto> demo_dir [99] [5], 5 \<mapsto> demo_file [120] 4]"

definition demo_vfs :: "unit vfs" where
  "demo_vfs = \<lparr>vnodes = demo_tree, vheap = [6, 7, 8], 
     vl = \<lparr>nodes = Map.empty, free_nodes = \<lparr>head = 0, tail = 0, node_count = 0, lflags = 1\<rparr>, static_pool_setup = True, kheap = []\<rparr>,
     vl_pool = [], vnode_static_pool = \<lparr>head = 0, tail = 0, node_count = 0, lflags = 0\<rparr>,
     vnode_used_pool = \<lparr>head = 0, tail = 0, node_count = 0, lflags = 0\<rparr>, fs_refs = (\<lambda>_. 0), handles = Map.empty,
     hheap = [20, 21, 22], hl = \<lparr>dnodes = Map.empty, dheap = [10, 11, 12]\<rparr>, handle_list = \<lparr>dhead = 0, dtail = 0, dcount = 0\<rparr>,
     num_handles = 0, handle_id_bitmap = 0, current_working_dir = 1, fs = ()\<rparr>"

section \<open>Tokens\<close>

lemma safe_strcmp_eq:
  "0 \<notin> set s \<Longrightarrow> 0 \<notin> set t \<Longrightarrow> length t \<le> k \<Longrightarrow>
    safe_strcmp (s @ 0 # r) (t @ 0 # q) k = Inr (if names_match s t then 1 else 0)"
proof (induction s arbitrary: t k)
  case Nil
  then show ?case by (cases t) (auto simp: names_match_def)
next
  case (Cons a s)
  then show ?case by (cases t) (auto simp: names_match_def)
qed

lemma length_join: "(\<forall>x\<in>set xs. x \<noteq> []) \<Longrightarrow> length xs \<le> length (join d xs)"
proof (induction xs)
  case (Cons x xs)
  then have "0 < length x" by simp
  with Cons show ?case by (auto simp del: length_greater_0_conv)
qed simp

lemma strtok_nth:
  assumes "\<forall>x\<in>set xs. component x" and "k < length xs"
  shows "strtok (join SLASH xs @ 0 # r) SLASH (Suc k) =
    Inr (xs ! k @ [0], if Suc k < length xs then NEXT_TOKEN else LAST_TOKEN)"
proof -
  obtain x ys where xs: "xs = x # ys" using assms(2) by (cases xs) auto
  have x: "x \<noteq> []" "0 \<notin> set x" "SLASH \<notin> set x" using assms(1) xs by (auto simp: component_def)
  have "strtok (join SLASH xs @ 0 # r) SLASH (Suc k) = strtok_loop (x @ after SLASH ys @ 0 # r) SLASH 1 (Suc k) []"
    using x by (cases x) (auto simp: strtok_def xs join_after simp del: join.simps)
  also have "\<dots> = Inr (xs ! k @ [0], if Suc k < length xs then NEXT_TOKEN else LAST_TOKEN)"
    using strtok_loop_eq [of SLASH x ys 1 "Suc k" r "[]"] assms x
    by (auto simp: xs component_def nth_Cons split: nat.splits)
  finally show ?thesis .
qed

text \<open>A token is not the last only when the string has as many delimiters as the number asked for.\<close>

lemma strtok_loop_next:
  "strtok_loop str d c k tok = Inr (t, NEXT_TOKEN) \<Longrightarrow> k < c + count_list str d"
  by (induction str d c k tok rule: strtok_loop.induct)
    (auto simp: NEXT_TOKEN_def LAST_TOKEN_def split: if_splits list.splits)

lemma strtok_loop_last: "strtok_loop str d c k tok = Inr x \<Longrightarrow> snd x = LAST_TOKEN \<or> snd x = NEXT_TOKEN"
proof (induction str d c k tok rule: strtok_loop.induct)
  case (2 ch str d c k tok)
  then show ?case by (cases str) (auto split: if_splits)
qed simp

lemma strtok_next:
  assumes "strtok (a # pth) SLASH k = Inr (t, l)" and "l \<noteq> LAST_TOKEN" and "a \<noteq> SLASH"
  shows "k \<le> length pth"
proof -
  have "l = NEXT_TOKEN" using assms strtok_loop_last [of "a # pth" SLASH 1 k "[]"]
    by (simp add: strtok_def del: strtok_loop.simps)
  moreover have "strtok_loop (a # pth) SLASH 1 k [] = Inr (t, l)"
    using assms(1,3) by (simp add: strtok_def del: strtok_loop.simps)
  ultimately have "k < 1 + count_list (a # pth) SLASH" using strtok_loop_next by blast
  then show ?thesis using assms(3) count_le_length [of pth SLASH] by simp
qed

section \<open>Termination\<close>

lemma path_walk_more_fuel:
  assumes "a \<noteq> SLASH" and "k \<le> Suc (length pth)" and "Suc (length pth) - k < fuel"
  shows "path_walk (fuel + j) T (a # pth) k v s = path_walk fuel T (a # pth) k v s"
  using assms(2,3)
proof (induction fuel arbitrary: k v s)
  case 0
  then show ?case by simp
next
  case (Suc fuel)
  have "path_walk (fuel + j) T (a # pth) (k + 1) c s' = path_walk fuel T (a # pth) (k + 1) c s'"
    if "strtok (a # pth) SLASH k = Inr (t, l)" "l \<noteq> LAST_TOKEN" for t l c s'
    using Suc.IH [of "k + 1"] Suc.prems strtok_next [OF that assms(1)] by simp
  then show ?case by (auto split: bindR_split prod.splits intro!: bindR_cong simp: Let_def)
qed

text \<open>
  \<open>Unmodelled\<close> is what the walk returns when it runs out of fuel. Nothing it calls does so, as long as the
  lookups of the file systems do not.
\<close>

definition lookups_end :: "'f fs_table \<Rightarrow> bool" where
  "lookups_end T \<longleftrightarrow> (\<forall>a ops. T a = Some ops \<longrightarrow> (\<forall>v token s. op_lookup ops v token s \<noteq> Inl Unmodelled))"

definition ends :: "'a res \<Rightarrow> bool" where
  "ends r \<longleftrightarrow> r \<noteq> Inl Unmodelled"

lemma ends_simps [simp]: "ends (Inr x)" "ends (Inl NullDeref)" "ends (Inl OutOfBounds)" "ends (Inl (Panic msg))"
  by (simp_all add: ends_def)

lemma bindR_ends: "ends r \<Longrightarrow> (\<And>x. r = Inr x \<Longrightarrow> ends (f x)) \<Longrightarrow> ends (bindR r f)"
  by (cases r) (auto simp: ends_def)

lemma if_ends: "(c \<Longrightarrow> ends a) \<Longrightarrow> (\<not> c \<Longrightarrow> ends b) \<Longrightarrow> ends (if c then a else b)"
  by simp

lemma prod_ends: "(\<And>a b. p = (a, b) \<Longrightarrow> ends (f a b)) \<Longrightarrow> ends (case p of (a, b) \<Rightarrow> f a b)"
  by (cases p) simp

lemma option_ends: "ends f \<Longrightarrow> (\<And>a. x = Some a \<Longrightarrow> ends (g a)) \<Longrightarrow> ends (case x of None \<Rightarrow> f | Some a \<Rightarrow> g a)"
  by (cases x) simp_all

lemma deref_ends: "ends (deref m a)"
  by (simp add: deref_def split: option.splits)

lemmas control_ends = bindR_ends if_ends prod_ends option_ends deref_ends ends_simps

lemma modify_vnode_ends: "ends (modify_vnode s v f)"
  unfolding modify_vnode_def modify_def by (intro control_ends)

lemma get_vnode_ends: "ends (get_vnode s v)"
  unfolding get_vnode_def by (rule deref_ends)

lemma ops_of_ends: "ends (ops_of T s v)"
  unfolding ops_of_def by (intro control_ends get_vnode_ends)

lemma alloc_children_ends: "ends (vnode_directory_alloc_children s v)"
  unfolding vnode_directory_alloc_children_def by (intro control_ends get_vnode_ends modify_vnode_ends)

lemma safe_strcmp_ends: "ends (safe_strcmp a b n)"
  by (induction a b n rule: safe_strcmp.induct) auto

lemma child_walk_ends: "ends (child_walk m cs token i k)"
  by (induction m cs token i k rule: child_walk.induct)
    (simp, unfold child_walk.simps Let_def, intro control_ends safe_strcmp_ends, blast)

lemma strtok_loop_ends: "ends (strtok_loop str d c k tok)"
proof (induction str d c k tok rule: strtok_loop.induct)
  case (2 ch str d c k tok)
  then show ?case by (cases str) auto
qed simp

lemma strtok_ends: "ends (strtok str d k)"
  unfolding strtok_def by (cases str) (simp_all add: strtok_loop_ends del: strtok_loop.simps)

lemmas calls_end = modify_vnode_ends get_vnode_ends ops_of_ends alloc_children_ends child_walk_ends strtok_ends

lemma find_vnode_child_ends:
  assumes "lookups_end T"
  shows "ends (find_vnode_child T s v token)"
proof -
  have "ends (op_lookup ops w token s')" if o: "ops_of T s' w = Inr ops" for ops w s'
  proof -
    obtain n where "get_vnode s' w = Inr n" "deref T (vnode_ops n) = Inr ops"
      using o unfolding ops_of_def by (cases "get_vnode s' w") auto
    then show ?thesis using assms by (auto simp: lookups_end_def ends_def deref_eq_Inr)
  qed
  then show ?thesis unfolding find_vnode_child_def Let_def by (intro control_ends calls_end) blast
qed

lemma path_walk_ends:
  assumes "lookups_end T" "a \<noteq> SLASH" "k \<le> Suc (length pth)" "Suc (length pth) - k < fuel"
  shows "ends (path_walk fuel T (a # pth) k v s)"
  using assms(3,4)
proof (induction fuel arbitrary: k v s)
  case (Suc fuel)
  have "ends (path_walk fuel T (a # pth) (k + 1) c s')"
    if "strtok (a # pth) SLASH k = Inr (t, l)" "l \<noteq> LAST_TOKEN" for t l c s'
    using Suc.IH [of "k + 1"] Suc.prems strtok_next [OF that assms(2)] by simp
  then show ?case unfolding path_walk.simps
    by (intro control_ends calls_end find_vnode_child_ends [OF assms(1)]) blast
qed simp


section \<open>Resolution\<close>

lemma cached_treeD: "cached_tree m \<Longrightarrow> m v = Some n \<Longrightarrow> v \<noteq> NULL \<and> cached_vnode m n"
  by (cases "v = NULL") (auto simp: cached_tree_def ran_def)

lemma mount_of_in:
  assumes "cached_tree m" and "m v = Some n"
  obtains t where "m (mount_of m v) = Some t" "mount_of m v \<noteq> NULL"
    "vnode_type n = VNODE_DIRECTORY \<Longrightarrow> vnode_type t = VNODE_DIRECTORY"
proof (cases "is_mount_point n")
  case True
  then obtain t where "deref m (mounted_vnode n) = Inr t" "vnode_type t = VNODE_DIRECTORY"
    using cached_treeD [OF assms] by (auto simp: cached_vnode_def)
  then show ?thesis using that [of t] True assms(2) cached_treeD [OF assms] by (simp add: mount_of_def deref_eq_Inr)
next
  case False
  then show ?thesis using that [of n] assms(2) cached_treeD [OF assms] by (simp add: mount_of_def)
qed

lemma name_of_split:
  assumes "0 \<in> set (vnode_name n)"
  obtains r where "vnode_name n = name_of n @ 0 # r" "0 \<notin> set (name_of n)"
proof -
  let ?d = "dropWhile (\<lambda>c. c \<noteq> 0) (vnode_name n)"
  have "?d \<noteq> []" using assms by (auto simp: dropWhile_eq_Nil_conv)
  then have "?d = 0 # tl ?d" using hd_dropWhile [of "\<lambda>c. c \<noteq> 0" "vnode_name n"] by (cases ?d) auto
  then have "vnode_name n = name_of n @ 0 # tl ?d"
    using takeWhile_dropWhile_id [of "\<lambda>c. c \<noteq> 0" "vnode_name n"] by (simp add: name_of_def)
  moreover have "0 \<notin> set (name_of n)" by (auto simp: name_of_def dest: set_takeWhileD)
  ultimately show thesis using that by blast
qed

lemma child_walk_eq:
  assumes "cached_tree m" and "0 \<notin> set x" and "length x < VFS_MAX_NAME_LENGTH"
    and "i + k < length cs" and "\<forall>c\<in>set (take k (drop i cs)). c = NULL \<or> c \<in> dom m"
  shows "child_walk m cs (x @ [0]) i k =
    Inr (case find (\<lambda>c. c \<noteq> NULL \<and> names_match (name_of (the (m c))) x) (take k (drop i cs)) of
           None \<Rightarrow> NULL | Some c \<Rightarrow> c)"
  using assms(4,5)
proof (induction k arbitrary: i)
  case 0
  then show ?case by simp
next
  case (Suc k)
  have d: "drop i cs = cs ! i # drop (Suc i) cs" using Suc.prems(1) by (simp add: Cons_nth_drop_Suc)
  have cmp: "safe_strcmp (vnode_name n) (x @ [0]) VFS_MAX_NAME_LENGTH = Inr (if names_match (name_of n) x then 1 else 0)"
    if "m (cs ! i) = Some n" for n
  proof -
    have "0 \<in> set (vnode_name n)" using cached_treeD [OF assms(1) that] by (simp add: cached_vnode_def)
    then obtain r where r: "vnode_name n = name_of n @ 0 # r" "0 \<notin> set (name_of n)" by (rule name_of_split)
    show ?thesis using safe_strcmp_eq [OF r(2) assms(2), of VFS_MAX_NAME_LENGTH r "[]"] r(1) assms(3) by simp
  qed
  show ?case
  proof (cases "cs ! i = NULL")
    case True
    then show ?thesis using Suc d by simp
  next
    case False
    then obtain n where n: "m (cs ! i) = Some n" using Suc.prems(2) d by auto
    then show ?thesis using Suc d False cmp [OF n] by simp
  qed
qed

lemma lookup_child_in:
  assumes "cached_tree m" and "m v = Some n" and "lookup_child m v x \<noteq> NULL"
  shows "lookup_child m v x \<in> dom m"
proof -
  have dir: "vnode_type n = VNODE_DIRECTORY" using assms(2,3) by (auto simp: lookup_child_def split: if_splits)
  obtain w t where w: "mount_of m v = w" "m w = Some t" "vnode_type t = VNODE_DIRECTORY"
    using mount_of_in [OF assms(1,2)] dir by metis
  then have "cached_vnode m t" using cached_treeD assms(1) by blast
  then have entries: "\<forall>c\<in>set (dir_entries m w). c = NULL \<or> c \<in> dom m" using w by (auto simp: cached_vnode_def dir_entries_def)
  obtain c where c: "find (\<lambda>c. c \<noteq> NULL \<and> names_match (name_of (the (m c))) x) (dir_entries m w) = Some c"
      "lookup_child m v x = c"
    using assms(3) w(1) by (auto simp: lookup_child_def split: if_splits option.splits)
  then have "c \<in> set (dir_entries m w)" by (auto simp: find_Some_iff)
  with entries have "c = NULL \<or> c \<in> dom m" by simp
  then show ?thesis using assms(3) c(2) by simp
qed

lemma find_vnode_child_eq:
  assumes tree: "cached_tree (vnodes s)" and v: "vnodes s v = Some n"
    and x: "0 \<notin> set x" "length x < VFS_MAX_NAME_LENGTH"
  shows "find_vnode_child T s v (x @ [0]) = Inr (s, lookup_child (vnodes s) v x)"
proof (cases "vnode_type n = VNODE_DIRECTORY")
  case False
  then show ?thesis using v cached_treeD [OF tree v] by (simp add: find_vnode_child_def get_vnode_def lookup_child_def)
next
  case True
  let ?w = "mount_of (vnodes s) v"
  have n: "cached_vnode (vnodes s) n" "v \<noteq> NULL" using cached_treeD [OF tree v] by auto
  obtain t where t: "vnodes s ?w = Some t" "vnode_type t = VNODE_DIRECTORY" "?w \<noteq> NULL"
    using mount_of_in [OF tree v] True by metis
  then have "cached_vnode (vnodes s) t" using cached_treeD [OF tree] by blast
  then obtain cs where cs: "vnode_children t = Some cs" "unat (num_children t) < length cs"
      "\<forall>c\<in>set (take (unat (num_children t)) cs). c = NULL \<or> c \<in> dom (vnodes s)"
      "is_cached t \<or> num_children t \<noteq> 0" "vnode_flags t AND VNODE_CHILD_MEMORY_ALLOCATED \<noteq> 0"
    using t by (auto simp: cached_vnode_def)
  have w: "?w = (if is_mount_point n then mounted_vnode n else v)" using v n by (simp add: mount_of_def)
  have "child_walk (vnodes s) cs (x @ [0]) 0 (unat (num_children t)) = Inr (lookup_child (vnodes s) v x)"
    using child_walk_eq [OF tree x, of 0 "unat (num_children t)" cs] cs t True v
    by (simp add: lookup_child_def dir_entries_def)
  then show ?thesis using v n True t cs by (auto simp: find_vnode_child_def get_vnode_def w [symmetric] Let_def)
qed

lemma path_walk_resolves:
  assumes tree: "cached_tree (vnodes s)" and all: "\<forall>x\<in>set (pre @ x # xs). component x"
    and v: "vnodes s v = Some n" and "length xs < fuel"
  shows "path_walk fuel T (join SLASH (pre @ x # xs) @ 0 # r) (Suc (length pre)) v s =
    Inr (s, resolve (vnodes s) v (x # xs))"
  using assms
proof (induction xs arbitrary: pre x v n fuel)
  case Nil
  let ?c = "lookup_child (vnodes s) v x"
  obtain k where k: "fuel = Suc k" using Nil.prems(4) by (cases fuel) auto
  have x: "0 \<notin> set x" "length x < VFS_MAX_NAME_LENGTH" using Nil.prems(2) by (auto simp: component_def)
  have "get_vnode s ?c = Inr (the (vnodes s ?c))" if "?c \<noteq> NULL"
    using lookup_child_in [OF Nil.prems(1,3) that] that by (auto simp: get_vnode_def)
  then show ?case
    using strtok_nth [OF Nil.prems(2), of "length pre" r] find_vnode_child_eq [OF Nil.prems(1,3) x] x k
    by (simp add: mount_of_def Let_def)
next
  case (Cons y ys)
  let ?c = "lookup_child (vnodes s) v x"
  obtain k where k: "fuel = Suc k" "length ys < k" using Cons.prems(4) by (cases fuel) auto
  have x: "0 \<notin> set x" "length x < VFS_MAX_NAME_LENGTH" using Cons.prems(2) by (auto simp: component_def)
  have "path_walk k T (join SLASH (pre @ x # y # ys) @ 0 # r) (Suc (length (pre @ [x]))) ?c s =
      Inr (s, resolve (vnodes s) ?c (y # ys))" if c: "?c \<noteq> NULL"
  proof -
    obtain n' where "vnodes s ?c = Some n'" using lookup_child_in [OF Cons.prems(1,3) c] by auto
    then show ?thesis using Cons.IH [of "pre @ [x]" y ?c n' k] Cons.prems(1,2) k by simp
  qed
  then show ?case
    using strtok_nth [OF Cons.prems(2), of "length pre" r] find_vnode_child_eq [OF Cons.prems(1,3) x] x k
    by (simp add: Let_def NEXT_TOKEN_def LAST_TOKEN_def)
qed

lemma parse_path_absolute:
  "get_vnode s vfs_root = Inr r \<Longrightarrow> dropWhile (\<lambda>c. c = SLASH) pth = c # q \<Longrightarrow> c \<noteq> 0 \<Longrightarrow>
    parse_path T (SLASH # pth) s =
      path_walk (length (c # q)) T (c # q) 1 (if is_mount_point r then mounted_vnode r else vfs_root) s"
  by (simp add: parse_path_def Let_def del: path_walk.simps)

lemma vnode_lookup_eq:
  assumes "cached_tree (vnodes s)" and "vnodes s vfs_root = Some r" and "xs \<noteq> []" and "\<forall>x\<in>set xs. component x"
  shows "vnode_lookup T (SLASH # join SLASH xs @ 0 # rest) s =
    Inr (s, resolve (vnodes s) (mount_of (vnodes s) vfs_root) xs)"
proof -
  obtain x ys where xs: "xs = x # ys" using assms(3) by (cases xs) auto
  obtain c x' where x: "x = c # x'" "c \<noteq> SLASH" "c \<noteq> 0" using assms(4) by (cases x) (auto simp: xs component_def)
  let ?v = "mount_of (vnodes s) vfs_root"
  let ?p = "join SLASH xs @ 0 # rest"
  have hd: "?p = c # tl ?p" by (simp add: xs x)
  obtain n where n: "vnodes s ?v = Some n" using mount_of_in [OF assms(1,2)] by metis
  have "length xs \<le> length (join SLASH xs)" using assms(4) by (intro length_join) (auto simp: component_def)
  then have "path_walk (length ?p) T ?p 1 ?v s = Inr (s, resolve (vnodes s) ?v xs)"
    using path_walk_resolves [of s "[]" x ys ?v n "length ?p" T rest] assms n xs by simp
  moreover have "dropWhile (\<lambda>c. c = SLASH) ?p = c # tl ?p" using x by (subst (1) hd) simp
  moreover have "get_vnode s vfs_root = Inr r" using assms(2) by (simp add: get_vnode_def)
  moreover have "(if is_mount_point r then mounted_vnode r else vfs_root) = ?v" using assms(2) by (simp add: mount_of_def)
  ultimately have "parse_path T (SLASH # ?p) s = Inr (s, resolve (vnodes s) ?v xs)"
    using parse_path_absolute [of s r ?p c "tl ?p" T] hd [symmetric] x(3) by (simp del: path_walk.simps join.simps)
  then show ?thesis by (simp add: vnode_lookup_def)
qed

text \<open>C3: 
  On a tree of cached directories, \<^verbatim>\<open>vnode_lookup\<close> of an absolute path follows its components from the root: each is
  searched among the children of the directory, or of what is mounted there, in order, up to the first child
  whose name is a prefix of the component or the other way round. The result is NULL when there is none, else
  the last vnode or what is mounted on it, and no state changes.
\<close>

theorem vnode_lookup_resolves:
  assumes "cached_tree (vnodes s)" and "vnodes s vfs_root = Some r" and "xs \<noteq> []" and "\<forall>x\<in>set xs. component x"
  shows "vnode_lookup T (SLASH # join SLASH xs @ 0 # rest) s =
    Inr (s, resolve (vnodes s) (mount_of (vnodes s) vfs_root) xs)"
  using assms by (rule vnode_lookup_eq)

lemmas demo_simps = demo_vfs_def demo_tree_def demo_dir_def demo_file_def zero_vnode_def

lemma demo_cached: "cached_tree (vnodes demo_vfs)"
  by (auto simp: cached_tree_def ran_def cached_vnode_def demo_simps split: if_splits)

theorem vnode_lookup_resolves_witness:
  "vnode_lookup Map.empty [47, 99, 47, 120, 0] demo_vfs = Inr (demo_vfs, 5) \<and>
    vnode_lookup Map.empty [47, 97, 0] demo_vfs = Inr (demo_vfs, 3)"
  using vnode_lookup_resolves [OF demo_cached, of "(demo_dir [] [])\<lparr>is_mount_point := True, mounted_vnode := 2\<rparr>" "[[99], [120]]" Map.empty "[]"]
    vnode_lookup_resolves [OF demo_cached, of "(demo_dir [] [])\<lparr>is_mount_point := True, mounted_vnode := 2\<rparr>" "[[97]]" Map.empty "[]"]
  by (simp add: component_def demo_simps mount_of_def lookup_child_def dir_entries_def names_match_def name_of_def)

text \<open>The loop over the components of \<^verbatim>\<open>c/x\<close> with more fuel than the path has bytes, beside a file system whose
  directories are empty.\<close>

definition empty_lookups :: "unit vfs vnode_operations" where
  "empty_lookups = \<lparr>op_lookup = (\<lambda>v t s. Inr (s, NULL)), op_create = (\<lambda>v nm ty s. Inr (s, NULL)), op_remove = (\<lambda>v s. Inr s),
     op_rename = (\<lambda>v nm s. Inr s), op_write = (\<lambda>v off b n s. Inr (s, KERN_NOT_FOUND)), op_read = (\<lambda>v off b n s. Inr (s, b, KERN_NOT_FOUND)),
     op_unlink = (\<lambda>v s. Inr s), op_close = (\<lambda>v h s. Inr s)\<rparr>"


section \<open>Mounts\<close>

text \<open>
  \<^verbatim>\<open>vnode_mount\<close> of a vnode on a directory succeeds, lookups then go from the directory to the vnode, and
  \<^verbatim>\<open>vnode_unmount\<close> of the directory takes the mount back; what stays is the mark of the vnode as mounted, and the
  directory is to be read again.
\<close>

theorem mount_unmount_round_trip:
  assumes "get_vnode s p = Inr n" "vnode_type n = VNODE_DIRECTORY" "\<not> is_mount_point n"
    and "get_vnode s v = Inr t" "\<not> is_mount_point t" and "v \<noteq> p"
  shows "\<exists>s'. vnode_mount p v s = Inr (s', KERN_OK) \<and> mount_of (vnodes s') p = v \<and>
    vnode_unmount p s' = Inr (s\<lparr>vnodes := (vnodes s)(v \<mapsto> t\<lparr>is_mounted := True, vnode_parent := NULL\<rparr>,
      p \<mapsto> n\<lparr>is_mount_point := False, mounted_vnode := NULL, is_cached := False\<rparr>)\<rparr>, KERN_OK)"
  using assms
  by (auto simp: vnode_mount_def vnode_unmount_def get_vnode_def modify_vnode_def mount_of_def deref_eq_Inr fun_upd_twist [of p v])

theorem mount_unmount_round_trip_witness:
  "\<exists>s'. vnode_mount 4 2 demo_vfs = Inr (s', KERN_OK) \<and> mount_of (vnodes s') 4 = 2"
  using mount_unmount_round_trip [of demo_vfs 4 "demo_dir [99] [5]" 2 "demo_dir [47] [3, 4]"]
  by (auto simp: demo_simps get_vnode_def)

text \<open>A mount point is never mounted, which \<^verbatim>\<open>vnode_mount\<close> checks for the vnode it mounts.\<close>

definition flat_mounts :: "(addr \<rightharpoonup> vnode) \<Rightarrow> bool" where
  "flat_mounts m \<longleftrightarrow> (\<forall>n\<in>ran m. is_mount_point n \<longrightarrow> \<not> is_mount_point (the (m (mounted_vnode n))))"

lemma resolve_no_mount_point:
  assumes "cached_tree m" "flat_mounts m" "m v = Some n" "resolve m v xs \<noteq> NULL"
  shows "\<exists>t. m (resolve m v xs) = Some t \<and> \<not> is_mount_point t"
  using assms(3,4)
proof (induction xs arbitrary: v n)
  case Nil
  obtain t where t: "m (mount_of m v) = Some t" using mount_of_in [OF assms(1) Nil.prems(1)] by metis
  have "is_mount_point n \<longrightarrow> \<not> is_mount_point (the (m (mounted_vnode n)))"
    using assms(2) Nil.prems(1) by (auto simp: flat_mounts_def ran_def)
  then show ?case using t Nil.prems cached_treeD [OF assms(1) Nil.prems(1)] by (auto simp: mount_of_def split: if_splits)
next
  case (Cons x xs)
  then have c: "lookup_child m v x \<noteq> NULL" by (auto simp: Let_def split: if_splits)
  then obtain n' where "m (lookup_child m v x) = Some n'" using lookup_child_in [OF assms(1) Cons.prems(1)] by auto
  then show ?case using Cons.IH Cons.prems(2) c by (auto simp: Let_def)
qed

text \<open>
  The function \<^verbatim>\<open>unmount\<close> of a path never unmounts: the lookup returns what is mounted at the path, never the
  mount point, so every absolute path on a tree of cached directories gives \<^verbatim>\<open>KERN_NOT_FOUND\<close>, also that of a
  mount point.
\<close>

theorem unmount_never_succeeds:
  assumes "cached_tree (vnodes s)" and "flat_mounts (vnodes s)" and "vnodes s vfs_root = Some r"
    and "xs \<noteq> []" and "\<forall>x\<in>set xs. component x"
  shows "vfs_unmount T (SLASH # join SLASH xs @ 0 # rest) s = Inr (s, KERN_NOT_FOUND)"
proof -
  let ?v = "resolve (vnodes s) (mount_of (vnodes s) vfs_root) xs"
  have l: "vnode_lookup T (SLASH # join SLASH xs @ 0 # rest) s = Inr (s, ?v)"
    by (rule vnode_lookup_eq) fact+
  show ?thesis
  proof (cases "?v = NULL")
    case True
    then show ?thesis using l by (simp add: vfs_unmount_def)
  next
    case False
    obtain n where "vnodes s (mount_of (vnodes s) vfs_root) = Some n" using mount_of_in [OF assms(1,3)] by metis
    then obtain t where "vnodes s ?v = Some t" "\<not> is_mount_point t"
      using resolve_no_mount_point [OF assms(1,2)] False by blast
    then show ?thesis using l False by (simp add: vfs_unmount_def vnode_unmount_def get_vnode_def)
  qed
qed

text \<open>In the example with a further mount on the directory \<^verbatim>\<open>c\<close>.\<close>

definition demo_mounted :: "unit vfs" where
  "demo_mounted = demo_vfs\<lparr>vnodes := demo_tree(4 \<mapsto> (demo_dir [99] [5])\<lparr>is_mount_point := True, mounted_vnode := 6\<rparr>,
     6 \<mapsto> (demo_dir [47] [])\<lparr>is_mounted := True, vnode_parent := 4\<rparr>)\<rparr>"

theorem unmount_never_succeeds_witness:
  "vfs_unmount Map.empty [47, 99, 0] demo_mounted = Inr (demo_mounted, KERN_NOT_FOUND)"
proof -
  have "cached_tree (vnodes demo_mounted)"
    by (auto simp: cached_tree_def ran_def cached_vnode_def demo_mounted_def demo_simps split: if_splits)
  moreover have "flat_mounts (vnodes demo_mounted)"
    by (auto simp: flat_mounts_def ran_def demo_mounted_def demo_simps split: if_splits)
  ultimately show ?thesis
    using unmount_never_succeeds [of demo_mounted "(demo_dir [] [])\<lparr>is_mount_point := True, mounted_vnode := 2\<rparr>" "[[99]]" Map.empty "[]"]
    by (simp add: component_def demo_mounted_def demo_vfs_def demo_tree_def)
qed

end
