(* ===== verification/VFS_Handles.thy ===== *)
theory VFS_Handles
  imports VFS_Lookup
begin

text \<open>
  Handles, removal and canonical paths of \<^verbatim>\<open>filesystem/vfs.c\<close>. The list of handles of the process is seen as the
  list of its handle objects, the last one opened first.
\<close>

section \<open>The handle list\<close>

definition handles_at :: "'f vfs \<Rightarrow> addr list \<Rightarrow> virtual_handle list \<Rightarrow> bool" where
  "handles_at s ps hs \<longleftrightarrow> map (handles s) (dvals (hl s) ps) = map Some hs \<and> NULL \<notin> set (dvals (hl s) ps)"

definition open_handles :: "'f vfs \<Rightarrow> virtual_handle list \<Rightarrow> bool" where
  "open_handles s hs \<longleftrightarrow> (\<exists>ps. dll_rep (hl s) (handle_list s) ps \<and> handles_at s ps hs)"

lemma handles_at_Nil [simp]: "handles_at s [] hs \<longleftrightarrow> hs = []"
  by (auto simp: handles_at_def dvals_def)

lemma handles_at_Cons [simp]:
  "handles_at s (p # ps) hs \<longleftrightarrow>
    (\<exists>h hs'. hs = h # hs' \<and> deref (handles s) (ddata (the (dnodes (hl s) p))) = Inr h \<and> handles_at s ps hs')"
  by (cases hs) (auto simp: handles_at_def deref_eq_Inr)

lemma handle_walk_eq:
  "dseg (dnodes (hl s)) q p ps NULL \<Longrightarrow> handles_at s ps hs \<Longrightarrow>
    handle_walk (length ps) s p hid = Inr (case find (\<lambda>h. handle_id h = hid) hs of None \<Rightarrow> NULL | Some h \<Rightarrow> handle_vnode h)"
proof (induction ps arbitrary: q p hs)
  case Nil
  then show ?case by simp
next
  case (Cons a ps)
  then show ?case by auto
qed

lemma handle_to_vnode_eq:
  "open_handles s hs \<Longrightarrow>
    handle_to_vnode s hid = Inr (case find (\<lambda>h. handle_id h = hid) hs of None \<Rightarrow> NULL | Some h \<Rightarrow> handle_vnode h)"
  by (auto simp: open_handles_def dll_rep_def handle_to_vnode_def intro: handle_walk_eq)

lemma open_handles_Cons:
  assumes "open_handles s (h # hs)"
  obtains p ps where "dll_rep (hl s) (handle_list s) (p # ps)" "handles_at s (p # ps) (h # hs)"
proof -
  obtain qs where qs: "dll_rep (hl s) (handle_list s) qs" "handles_at s qs (h # hs)"
    using assms by (auto simp: open_handles_def)
  then show ?thesis using that by (cases qs) auto
qed

text \<open>The example with the two files \<^verbatim>\<open>ab\<close>, opened first, and \<^verbatim>\<open>c/x\<close>, and operations that leave the state alone.\<close>

definition demo_open :: "unit vfs" where
  "demo_open = demo_vfs\<lparr>handles := [20 \<mapsto> \<lparr>handle_id = 0, handle_vnode = 3, handle_offset = 7\<rparr>,
       21 \<mapsto> \<lparr>handle_id = 1, handle_vnode = 5, handle_offset = 0\<rparr>], hheap := [22],
     hl := \<lparr>dnodes = [10 \<mapsto> \<lparr>ddata = 20, dnext = 0, dprev = 11\<rparr>, 11 \<mapsto> \<lparr>ddata = 21, dnext = 10, dprev = 0\<rparr>], dheap = [12]\<rparr>,
     handle_list := \<lparr>dhead = 11, dtail = 10, dcount = 2\<rparr>, num_handles := 2, handle_id_bitmap := 3\<rparr>"

definition demo_ops :: "unit vfs vnode_operations" where
  "demo_ops = \<lparr>op_lookup = (\<lambda>v t s. Inr (s, NULL)), op_create = (\<lambda>v nm ty s. Inr (s, NULL)), op_remove = (\<lambda>v s. Inr s),
     op_rename = (\<lambda>v nm s. Inr s), op_write = (\<lambda>v off b k s. Inr (s, uint k)), op_read = (\<lambda>v off b k s. Inr (s, b, uint k)),
     op_unlink = (\<lambda>v s. Inr s), op_close = (\<lambda>v h s. Inr s)\<rparr>"

lemma demo_open_handles:
  "open_handles demo_open [\<lparr>handle_id = 1, handle_vnode = 5, handle_offset = 0\<rparr>, \<lparr>handle_id = 0, handle_vnode = 3, handle_offset = 7\<rparr>]"
  unfolding open_handles_def by (rule exI [of _ "[11, 10]"]) (simp add: demo_open_def dll_rep_def)

text \<open>The loop of \<^verbatim>\<open>handle_to_offset\<close> never looks at the last handle of two or more.\<close>

lemma offset_walk_eq:
  "dseg (dnodes (hl s)) q p (a # b # ps) NULL \<Longrightarrow> handles_at s (a # b # ps) hs \<Longrightarrow> length ps < fuel \<Longrightarrow>
    offset_walk fuel s p hid =
      Inr (case find (\<lambda>h. handle_id h = hid) (butlast hs) of None \<Rightarrow> KERN_NOT_FOUND | Some h \<Rightarrow> sint (handle_offset h))"
proof (induction ps arbitrary: q p a b hs fuel)
  case Nil
  then show ?case by (cases fuel) auto
next
  case (Cons c ps)
  obtain k where k: "fuel = Suc k" "length ps < k" using Cons.prems(3) by (cases fuel) auto
  obtain h h' hs' where hs: "hs = h # h' # hs'" "handles_at s (b # c # ps) (h' # hs')" "hs' \<noteq> []"
    using Cons.prems(2) by fastforce
  show ?case using Cons.IH [of p "dnext (the (dnodes (hl s) a))" b c "h' # hs'" k] Cons.prems k hs by auto
qed

text \<open>
  With two or more files open, the handle opened first cannot be used: its vnode is found but its offset is not,
  so \<^verbatim>\<open>read\<close> and \<^verbatim>\<open>write\<close> through it give \<^verbatim>\<open>KERN_NOT_FOUND\<close>.
\<close>

theorem oldest_handle_unusable:
  assumes "open_handles s (hs @ [h])" and "hs \<noteq> []" and "handle_id h \<notin> handle_id ` set hs" and "handle_vnode h \<noteq> NULL"
  shows "handle_to_vnode s (handle_id h) = Inr (handle_vnode h) \<and>
    vfs_read T (handle_id h) buffer bytes s = Inr (s, buffer, KERN_NOT_FOUND) \<and>
    vfs_write T (handle_id h) buffer bytes s = Inr (s, KERN_NOT_FOUND)"
proof -
  have none: "find (\<lambda>k. handle_id k = handle_id h) hs = None" using assms(3) by (auto simp: find_None_iff) (metis image_eqI)
  have "find (\<lambda>k. handle_id k = handle_id h) (hs @ [h]) = Some h"
    using none by (induction hs) (auto split: if_splits)
  then have v: "handle_to_vnode s (handle_id h) = Inr (handle_vnode h)" using handle_to_vnode_eq [OF assms(1)] by simp
  obtain ps where ps: "dll_rep (hl s) (handle_list s) ps" "handles_at s ps (hs @ [h])"
    using assms(1) by (auto simp: open_handles_def)
  then have "length ps = length (hs @ [h])" by (metis handles_at_def length_map dvals_def)
  then obtain a b qs where "ps = a # b # qs" using assms(2) by (cases ps; cases "tl ps"; cases hs) auto
  then have "handle_to_offset s (handle_id h) = Inr KERN_NOT_FOUND"
    using offset_walk_eq [of s NULL "dhead (handle_list s)" a b qs "hs @ [h]" "dcount (handle_list s) + 1" "handle_id h"] ps none
    by (simp add: dll_rep_def handle_to_offset_def del: offset_walk.simps handles_at_Cons)
  then show ?thesis using v assms(4) by (simp add: vfs_read_def vfs_write_def)
qed

theorem oldest_handle_unusable_witness:
  "handle_to_vnode demo_open 0 = Inr 3 \<and> vfs_read [1 \<mapsto> demo_ops] 0 [] 1 demo_open = Inr (demo_open, [], KERN_NOT_FOUND)"
  using oldest_handle_unusable [of demo_open "[\<lparr>handle_id = 1, handle_vnode = 5, handle_offset = 0\<rparr>]"
      "\<lparr>handle_id = 0, handle_vnode = 3, handle_offset = 7\<rparr>" "[1 \<mapsto> demo_ops]" "[]" 1] demo_open_handles
  by simp

text \<open>
  \<^verbatim>\<open>vnode_close\<close> of a handle that is not the last one opened never returns: its loop looks at the head of the list
  again and again.
\<close>

theorem close_of_older_handle_diverges:
  assumes "open_handles s (h # hs)" and "handle_id h \<noteq> hid"
  shows "vnode_close fuel T hid s = Inr None"
proof -
  obtain p ps where "dll_rep (hl s) (handle_list s) (p # ps)" "handles_at s (p # ps) (h # hs)"
    using assms(1) by (rule open_handles_Cons)
  then obtain d where "dhead (handle_list s) \<noteq> NULL" "dnodes (hl s) (dhead (handle_list s)) = Some d"
      "deref (handles s) (ddata d) = Inr h"
    by (auto simp: dll_rep_def)
  then show ?thesis using assms(2) unfolding vnode_close_def by (induction fuel) simp_all
qed

theorem close_of_older_handle_diverges_witness: "vnode_close 1000 [1 \<mapsto> demo_ops] 0 demo_open = Inr None"
  using close_of_older_handle_diverges [OF demo_open_handles, of 0 1000 "[1 \<mapsto> demo_ops]"] by simp

section \<open>Identifiers\<close>

lemma free_id_mask:
  assumes "i \<le> k" and "k < i + j" and "i + j \<le> 64"
  shows "free_id (mask k) i j = Some k"
  using assms
proof (induction j arbitrary: i)
  case (Suc j)
  have bit: "mask k AND push_bit i 1 = (0 :: 64 word) \<longleftrightarrow> k \<le> i"
    using Suc.prems by (auto simp: push_bit_eq_mult and_exp_eq_0_iff_not_bit bit_simps)
  show ?case
  proof (cases "i = k")
    case True
    then show ?thesis using bit by simp
  next
    case False
    then show ?thesis using Suc bit by simp
  qed
qed simp

lemma free_id_full: "i + j \<le> 64 \<Longrightarrow> free_id (- 1) i j = None"
proof (induction j arbitrary: i)
  case (Suc j)
  have "bit (push_bit i (1 :: 64 word)) i" using Suc.prems by (simp add: bit_simps)
  then have "push_bit i 1 \<noteq> (0 :: 64 word)" by (metis bit_0_eq bot_apply bot_bool_def)
  with Suc show ?case by simp
qed simp

fun open_times :: "nat \<Rightarrow> 'f fs_table \<Rightarrow> byte list \<Rightarrow> 'f vfs \<Rightarrow> 'f vfs res" where
  "open_times 0 T pth s = Inr s"
| "open_times (Suc k) T pth s = bindR (vnode_open T pth s) (\<lambda>(s, _). open_times k T pth s)"

lemma failed_open:
  assumes "k < 64" and "vnode_lookup T pth (s\<lparr>handle_id_bitmap := mask (Suc k)\<rparr>) = Inr (s\<lparr>handle_id_bitmap := mask (Suc k)\<rparr>, NULL)"
  shows "vnode_open T pth (s\<lparr>handle_id_bitmap := mask k\<rparr>) = Inr (s\<lparr>handle_id_bitmap := mask (Suc k)\<rparr>, KERN_NOT_FOUND)"
proof -
  have "mask k OR push_bit k 1 = (mask (Suc k) :: 64 word)" by (rule bit_eqI) (auto simp: bit_simps less_Suc_eq)
  then show ?thesis using free_id_mask [of 0 k 64] assms by (simp add: vnode_open_def get_new_file_handle_def)
qed

text \<open>
  A failed \<^verbatim>\<open>open\<close> keeps its identifier: after 64 attempts to open a path that does not exist, no file can be opened
  any more by the process, though it has no file open.
\<close>

theorem failed_opens_exhaust_ids:
  assumes "handle_id_bitmap s = 0"
    and "\<forall>b. vnode_lookup T pth (s\<lparr>handle_id_bitmap := b\<rparr>) = Inr (s\<lparr>handle_id_bitmap := b\<rparr>, NULL)"
  shows "\<exists>s'. open_times 64 T pth s = Inr s' \<and> handle_list s' = handle_list s \<and>
    (\<forall>pth'. vnode_open T pth' s' = Inr (s', KERN_MAX_REACHED))"
proof -
  have "open_times j T pth (s\<lparr>handle_id_bitmap := mask k\<rparr>) = Inr (s\<lparr>handle_id_bitmap := mask (k + j)\<rparr>)" if "k + j \<le> 64" for j k
    using that
  proof (induction j arbitrary: k)
    case (Suc j)
    then show ?case using failed_open [of k T pth s] assms(2) by simp
  qed simp
  from this [of 0 64] have "open_times 64 T pth (s\<lparr>handle_id_bitmap := 0\<rparr>) = Inr (s\<lparr>handle_id_bitmap := mask 64\<rparr>)" by simp
  moreover have "s\<lparr>handle_id_bitmap := 0\<rparr> = s" using assms(1) by (cases s) simp
  moreover have "mask 64 = (- 1 :: 64 word)" by (rule bit_word_eqI) (simp add: bit_simps)
  ultimately show ?thesis using free_id_full [of 0 64] by (simp add: vnode_open_def get_new_file_handle_def)
qed

theorem failed_opens_exhaust_ids_witness:
  "\<exists>s'. open_times 64 Map.empty [47, 122, 0] demo_vfs = Inr s' \<and> vnode_open Map.empty [47, 97, 0] s' = Inr (s', KERN_MAX_REACHED)"
proof -
  have "vnode_lookup Map.empty [47, 122, 0] (demo_vfs\<lparr>handle_id_bitmap := b\<rparr>) = Inr (demo_vfs\<lparr>handle_id_bitmap := b\<rparr>, NULL)" for b
    using vnode_lookup_eq [of "demo_vfs\<lparr>handle_id_bitmap := b\<rparr>" "(demo_dir [] [])\<lparr>is_mount_point := True, mounted_vnode := 2\<rparr>" "[[122]]" Map.empty "[]"]
      demo_cached
    by (simp add: component_def demo_simps mount_of_def lookup_child_def dir_entries_def names_match_def name_of_def)
  then show ?thesis
    using failed_opens_exhaust_ids [of demo_vfs Map.empty "[47, 122, 0]"] by (auto simp: demo_vfs_def)
qed

section \<open>Opening and closing\<close>

lemma handles_at_cong:
  "dvals (hl s') ps = dvals (hl s) ps \<Longrightarrow> (\<And>a. a \<in> set (dvals (hl s) ps) \<Longrightarrow> handles s' a = handles s a) \<Longrightarrow>
    handles_at s' ps hs \<longleftrightarrow> handles_at s ps hs"
  by (simp add: handles_at_def cong: map_cong)

lemma handles_at_fresh: "handles_at s ps hs \<Longrightarrow> handles s a = None \<Longrightarrow> a \<notin> set (dvals (hl s) ps)"
  by (metis handles_at_def imageE imageI list.set_map option.distinct(1))

lemma free_id_Some: "free_id b i j = Some k \<Longrightarrow> k < i + j"
  by (induction b i j rule: free_id.induct) (auto split: if_splits)

lemma vnode_open_ok:
  assumes rep: "dll_rep (hl s) (handle_list s) ps" "handles_at s ps hs" and i: "free_id (handle_id_bitmap s) 0 64 = Some i"
    and lookup: "vnode_lookup T pth (s\<lparr>handle_id_bitmap := handle_id_bitmap s OR push_bit i 1\<rparr>) =
      Inr (s\<lparr>handle_id_bitmap := handle_id_bitmap s OR push_bit i 1\<rparr>, v)"
    and v: "get_vnode s v = Inr n" "\<not> is_mount_point n"
    and heap: "hheap s = a # rest" "a \<noteq> NULL" "handles s a = None" "dheap (hl s) \<noteq> []"
  shows "\<exists>s1 p. vnode_open T pth s = Inr (s1, int i) \<and> dll_rep (hl s1) (handle_list s1) (p # ps) \<and>
    handles_at s1 ps hs \<and> dnodes (hl s1) p \<noteq> None \<and> ddata (the (dnodes (hl s1) p)) = a \<and>
    handles s1 a = Some \<lparr>handle_id = of_nat i, handle_vnode = v, handle_offset = 0\<rparr> \<and>
    vnodes s1 = (vnodes s)(v \<mapsto> n\<lparr>vnode_refcount := vnode_refcount n + 1\<rparr>) \<and>
    fs_refs s1 = fs_refs (change_fs_refs (\<lambda>c. c + 1) (filesystem_info n) s) \<and>
    handle_id_bitmap s1 = handle_id_bitmap s OR push_bit i 1 \<and> hheap s1 = rest \<and> a \<notin> set (dvals (hl s1) ps)"
proof -
  obtain m l p where ins: "doubly_linked_list_insert_head (hl s) (handle_list s) a = Inr (m, l)" "dll_rep m l (p # ps)"
      "dvals m (p # ps) = a # dvals (hl s) ps"
    using insert_head_ok [OF rep(1) heap(4)] by blast
  let ?b = "handle_id_bitmap s OR push_bit i 1"
  let ?h = "\<lparr>handle_id = of_nat i, handle_vnode = v, handle_offset = 0\<rparr> :: virtual_handle"
  let ?s1 = "s\<lparr>handle_id_bitmap := ?b, fs_refs := fs_refs (change_fs_refs (\<lambda>c. c + 1) (filesystem_info n) s),
      vnodes := (vnodes s)(v \<mapsto> n\<lparr>vnode_refcount := vnode_refcount n + 1\<rparr>), hheap := rest,
      handles := (handles s)(a \<mapsto> ?h), num_handles := num_handles s + 1, hl := m, handle_list := l\<rparr>"
  have v0: "v \<noteq> NULL" "vnodes s v = Some n" using v(1) by (auto simp: get_vnode_def deref_eq_Inr)
  have "vnode_open T pth s = Inr (?s1, int i)"
    using i lookup v v0 heap ins(1)
    by (simp add: vnode_open_def get_new_file_handle_def get_vnode_def modify_vnode_def change_fs_refs_def)
  moreover have "handles_at ?s1 ps hs"
    using rep(2) handles_at_fresh [OF rep(2) heap(3)] ins(3) by (subst handles_at_cong [of _ ps s]) auto
  moreover have "dnodes m p \<noteq> None" using ins(2) by (auto simp: dll_rep_def)
  ultimately show ?thesis using ins handles_at_fresh [OF rep(2) heap(3)] by (intro exI [of _ ?s1] exI [of _ p]) simp
qed

text \<open>
  Opening a path and closing the handle gives back the list of handles, the reference counts and the memory, but
  not the identifier: its bit stays set.
\<close>

theorem open_close_loses_id:
  assumes "open_handles s hs" and "free_id (handle_id_bitmap s) 0 64 = Some i"
    and "vnode_lookup T pth (s\<lparr>handle_id_bitmap := handle_id_bitmap s OR push_bit i 1\<rparr>) =
      Inr (s\<lparr>handle_id_bitmap := handle_id_bitmap s OR push_bit i 1\<rparr>, v)"
    and "get_vnode s v = Inr n" "\<not> is_mount_point n"
    and "hheap s = a # rest" "a \<noteq> NULL" "handles s a = None" "dheap (hl s) \<noteq> []"
    and "deref T (vnode_ops n) = Inr ops" and "\<forall>s. op_close ops v (of_nat i) s = Inr s"
  shows "\<exists>s1 s2. vnode_open T pth s = Inr (s1, int i) \<and>
    open_handles s1 (\<lparr>handle_id = of_nat i, handle_vnode = v, handle_offset = 0\<rparr> # hs) \<and>
    vnode_close (Suc fuel) T (of_nat i) s1 = Inr (Some s2) \<and> open_handles s2 hs \<and>
    vnodes s2 = vnodes s \<and> fs_refs s2 = fs_refs s \<and> hheap s2 = hheap s \<and>
    handle_id_bitmap s2 = handle_id_bitmap s OR push_bit i 1"
proof -
  obtain ps where ps: "dll_rep (hl s) (handle_list s) ps" "handles_at s ps hs"
    using assms(1) by (auto simp: open_handles_def)
  obtain s1 p where s1: "vnode_open T pth s = Inr (s1, int i)" "dll_rep (hl s1) (handle_list s1) (p # ps)"
      "handles_at s1 ps hs" "ddata (the (dnodes (hl s1) p)) = a" "handle_id_bitmap s1 = handle_id_bitmap s OR push_bit i 1"
      "handles s1 a = Some \<lparr>handle_id = of_nat i, handle_vnode = v, handle_offset = 0\<rparr>"
      "vnodes s1 = (vnodes s)(v \<mapsto> n\<lparr>vnode_refcount := vnode_refcount n + 1\<rparr>)"
      "fs_refs s1 = fs_refs (change_fs_refs (\<lambda>c. c + 1) (filesystem_info n) s)" "hheap s1 = rest"
      and fresh: "a \<notin> set (dvals (hl s1) ps)"
    using vnode_open_ok [OF ps assms(2-9)] by blast
  obtain m l where rm: "unlink_node (hl s1) (handle_list s1) p = Inr (m, l)" "dll_rep m l ps" "dvals m ps = dvals (hl s1) ps"
    using unlink_ok [of "hl s1" "handle_list s1" "[]" p ps] s1(2) by auto
  have p: "dhead (handle_list s1) = p" "p \<noteq> NULL" "dnodes (hl s1) p = Some (the (dnodes (hl s1) p))"
    using s1(2) by (auto simp: dll_rep_def)
  have v: "v \<noteq> NULL" "vnodes s v = Some n" using assms(4) by (auto simp: get_vnode_def deref_eq_Inr)
  have vv: "(vnodes s)(v \<mapsto> n) = vnodes s" using v(2) by auto
  let ?s2 = "(change_fs_refs (\<lambda>c. c - 1) (filesystem_info n) s1)\<lparr>vnodes := vnodes s, handles := (handles s1)(a := None), hheap := a # rest,
      hl := m, handle_list := l\<rparr>"
  have "fs_refs (change_fs_refs (\<lambda>c. c - 1) (filesystem_info n) s1) = fs_refs s"
    using s1(8) by (auto simp: change_fs_refs_def)
  moreover have "vnode_close (Suc fuel) T (of_nat i) s1 = Inr (Some ?s2)"
    using p s1 v assms(7,10,11) rm(1)
    by (simp add: vnode_close_def ops_of_def get_vnode_def modify_vnode_def change_fs_refs_def Let_def vv
        doubly_linked_list_remove_node_by_address_def)
  moreover have "handles_at ?s2 ps hs" using s1(3) fresh rm(3) by (subst handles_at_cong [of _ ps s1]) (auto simp: change_fs_refs_def)
  moreover have "open_handles s1 (\<lparr>handle_id = of_nat i, handle_vnode = v, handle_offset = 0\<rparr> # hs)"
    using s1 assms(7) by (auto simp: open_handles_def)
  moreover have "handle_id_bitmap ?s2 = handle_id_bitmap s OR push_bit i 1" using s1(5) by (simp add: change_fs_refs_def)
  ultimately show ?thesis using s1(1) rm(2) assms(6)
    by (intro exI [of _ s1] exI [of _ ?s2]) (auto simp: open_handles_def)
qed

theorem open_close_loses_id_witness:
  "\<exists>s1 s2. vnode_open [1 \<mapsto> demo_ops] [47, 97, 98, 0] demo_open = Inr (s1, 2) \<and>
    vnode_close 1 [1 \<mapsto> demo_ops] 2 s1 = Inr (Some s2) \<and> handle_id_bitmap s2 = 7"
proof -
  let ?s = "demo_open\<lparr>handle_id_bitmap := handle_id_bitmap demo_open OR push_bit 2 1\<rparr>"
  have l: "vnode_lookup [1 \<mapsto> demo_ops] [47, 97, 98, 0] ?s = Inr (?s, 3)"
    using vnode_lookup_eq [of ?s "(demo_dir [] [])\<lparr>is_mount_point := True, mounted_vnode := 2\<rparr>" "[[97, 98]]" "[1 \<mapsto> demo_ops]" "[]"]
      demo_cached
    by (simp add: component_def demo_open_def demo_simps mount_of_def lookup_child_def dir_entries_def names_match_def name_of_def)
  have i: "free_id (handle_id_bitmap demo_open) 0 64 = Some 2" by (simp add: demo_open_def numeral_eq_Suc)
  show ?thesis
    using open_close_loses_id [OF demo_open_handles i l, of "demo_file [97, 98] 2" 22 "[]" demo_ops 0]
    by (auto simp: demo_open_def demo_simps demo_ops_def get_vnode_def)
qed

section \<open>Removal\<close>

text \<open>
  \<^verbatim>\<open>vnode_update_children_array\<close> moves the entry behind the last child, not the last child, to the place of the
  removed one. With that entry NULL, as the array is set up, the directory loses its last child as well, and
  the place of the removed child is left empty.
\<close>

lemma update_walk_eq:
  "i \<le> j \<Longrightarrow> cs ! j = v \<Longrightarrow> (\<forall>k<j. cs ! k \<noteq> v) \<Longrightarrow> j < i + k \<Longrightarrow> i + k = num \<Longrightarrow> num < length cs \<Longrightarrow>
    update_walk cs v num i k = Inr (cs[j := cs ! num])"
proof (induction k arbitrary: i)
  case (Suc k)
  then show ?case by (cases "i = j") auto
qed simp

theorem removal_loses_last_child:
  assumes "get_vnode s v = Inr n" "get_vnode s (vnode_parent n) = Inr p" "vnode_children p = Some cs"
    and "unat (num_children p) = Suc (length xs + length ys)" "cs = xs @ v # ys @ NULL # zs" and "v \<notin> set xs"
  shows "\<exists>s' p'. vnode_update_children_array v s = Inr (s', KERN_OK) \<and> vnodes s' (vnode_parent n) = Some p' \<and>
    dir_entries (vnodes s') (vnode_parent n) = (if ys = [] then xs else xs @ NULL # butlast ys)"
proof -
  let ?cs = "xs @ NULL # ys @ NULL # zs"
  let ?p = "p\<lparr>vnode_children := Some ?cs, num_children := num_children p - 1\<rparr>"
  have ne: "num_children p \<noteq> 0" using assms(4) by auto
  then have num: "unat (num_children p - 1) = length xs + length ys"
    using assms(4) by (simp add: unat_minus_one)
  have "\<forall>k<length xs. cs ! k \<noteq> v" using assms(5,6) by (auto simp: nth_append in_set_conv_nth)
  then have "update_walk cs v (unat (num_children p)) 0 (unat (num_children p)) = Inr (cs[length xs := cs ! unat (num_children p)])"
    using assms(4,5) by (intro update_walk_eq) auto
  also have "cs[length xs := cs ! unat (num_children p)] = ?cs" using assms(4,5) by (simp add: nth_append)
  finally have "vnode_update_children_array v s = Inr (s\<lparr>vnodes := (vnodes s)(vnode_parent n \<mapsto> ?p)\<rparr>, KERN_OK)"
    using assms(1,2,3) by (auto simp: vnode_update_children_array_def get_vnode_def modify_vnode_def deref_eq_Inr)
  moreover have "take (length xs + length ys) ?cs = (if ys = [] then xs else xs @ NULL # butlast ys)"
    by (cases ys rule: rev_cases) auto
  ultimately show ?thesis using num by (simp add: dir_entries_def)
qed

theorem removal_loses_last_child_witness:
  "\<exists>s'. vnode_update_children_array 3 demo_vfs = Inr (s', KERN_OK) \<and> dir_entries (vnodes s') 2 = [NULL]"
proof -
  let ?n = "demo_file [97, 98] 2"
  let ?p = "demo_dir [47] [3, 4]"
  have g: "get_vnode demo_vfs 3 = Inr ?n" "get_vnode demo_vfs (vnode_parent ?n) = Inr ?p"
    by (simp_all add: get_vnode_def demo_vfs_def demo_tree_def demo_file_def)
  have c: "vnode_children ?p = Some [3, 4, 0]" "unat (num_children ?p) = Suc (length ([] :: addr list) + length [4 :: addr])"
    by (simp_all add: demo_dir_def)
  have "vnode_parent ?n = 2" by (simp add: demo_file_def)
  then show ?thesis using removal_loses_last_child [OF g c, of "[]"] by simp blast
qed

lemma vnode_free_takes_lock:
  assumes "get_vnode s v = Inr n" "\<not> is_mount_point n" "vnode_active_references n = 0" "v \<noteq> vfs_root" "vnode_free s v = Inr s'"
  shows "\<exists>e. take_node_lock s' v = Inl e"
  using assms
  by (auto simp: vnode_free_def take_node_lock_def get_vnode_def modify_vnode_def bindR_eq_Inr deref_eq_Inr deref_def
      split: if_splits option.splits)

lemma vnode_remove_success:
  assumes "vnode_remove T v pth s = Inr (s', KERN_OK)" and "v \<noteq> NULL"
  obtains n ops s1 s2 r n' where "get_vnode s v = Inr n" "\<not> is_mount_point n" "vnode_active_references n = 0"
    "ops_of T s v = Inr ops" "op_remove ops v s = Inr s1" "vnode_update_children_array v s1 = Inr (s2, r)"
    "vnode_free s2 v = Inr s'" "take_node_lock s' v = Inr n'"
proof -
  let ?rest = "\<lambda>ops. bindR (op_remove ops v s) (\<lambda>s. bindR (vnode_update_children_array v s) (\<lambda>(s, _).
     bindR (vnode_free s v) (\<lambda>s. bindR (take_node_lock s v) (\<lambda>_. Inr (s, KERN_OK)))))"
  obtain n where n: "take_node_lock s v = Inr n" using assms(1) by (auto simp: vnode_remove_def bindR_eq_Inr)
  then have g: "get_vnode s v = Inr n" by (auto simp: take_node_lock_def bindR_eq_Inr split: if_splits)
  have eq: "vnode_remove T v pth s = (if is_mount_point n then Inl (Panic ''Cannot delete mount point without first unmounting'')
      else if vnode_active_references n \<noteq> 0 then Inr (s, KERN_BUSY) else bindR (ops_of T s v) ?rest)"
    using n g assms(2) by (simp add: vnode_remove_def)
  then have c: "\<not> is_mount_point n" "vnode_active_references n = 0" using assms(1) by (auto split: if_splits)
  then have "bindR (ops_of T s v) ?rest = Inr (s', KERN_OK)" using eq assms(1) by simp
  then obtain ops s1 s2 r n' where "ops_of T s v = Inr ops" "op_remove ops v s = Inr s1"
      "vnode_update_children_array v s1 = Inr (s2, r)" "vnode_free s2 v = Inr s'" "take_node_lock s' v = Inr n'"
    unfolding bindR_eq_Inr by (auto simp: bindR_eq_Inr)
  with g c show ?thesis by (rule that)
qed

text \<open>
  \<^verbatim>\<open>vnode_remove\<close> never reports success: it releases the lock of the vnode after the vnode, and its lock with it, was
  freed. The file system's own removal is taken to leave the vnodes as they are.
\<close>

theorem vnode_remove_never_succeeds:
  assumes "\<forall>ops\<in>ran T. \<forall>s s'. op_remove ops v s = Inr s' \<longrightarrow> vnodes s' = vnodes s" and "v \<noteq> vfs_root"
    and "\<forall>n. vnodes s v = Some n \<longrightarrow> vnode_parent n \<noteq> v"
  shows "vnode_remove T v pth s \<noteq> Inr (s', KERN_OK)"
proof
  assume a: "vnode_remove T v pth s = Inr (s', KERN_OK)"
  then have "v \<noteq> NULL" by (cases "v = NULL") (auto simp: vnode_remove_def take_node_lock_def get_vnode_def)
  with a obtain n ops s1 s2 r n' where st: "get_vnode s v = Inr n" "\<not> is_mount_point n" "vnode_active_references n = 0"
      "ops_of T s v = Inr ops" "op_remove ops v s = Inr s1" "vnode_update_children_array v s1 = Inr (s2, r)"
      "vnode_free s2 v = Inr s'" "take_node_lock s' v = Inr n'"
    by (rule vnode_remove_success)
  have "ops \<in> ran T" using st(4) by (auto simp: ops_of_def bindR_eq_Inr deref_eq_Inr ran_def)
  then have v1: "vnodes s1 = vnodes s" using assms(1) st(5) by blast
  have "get_vnode s2 v = Inr n"
    using st(1,6) v1 assms(3)
    by (auto simp: vnode_update_children_array_def get_vnode_def modify_vnode_def bindR_eq_Inr modify_eq_Inr deref_eq_Inr)
  from vnode_free_takes_lock [OF this st(2,3) assms(2) st(7)] st(8) show False by simp
qed

theorem vnode_remove_never_succeeds_witness:
  "vnode_remove [1 \<mapsto> demo_ops] 3 [] demo_vfs \<noteq> Inr (demo_vfs, KERN_OK)"
  using vnode_remove_never_succeeds [of "[1 \<mapsto> demo_ops]" 3 demo_vfs "[]" demo_vfs]
  by (simp add: demo_simps demo_ops_def)

end
