(* ===== verification/VFS_Canonical.thy ===== *)
theory VFS_Canonical
  imports VFS_Lookup
begin

text \<open>
  \<^verbatim>\<open>vnode_get_canonical_path\<close> of \<^verbatim>\<open>filesystem/vfs.c\<close>: the walk from a vnode to the root collects all names, but the number
  of components comes from \<^verbatim>\<open>strtok_count\<close>, which is 1 on every path, so only two of them reach the result.
\<close>

primrec ancestors :: "(addr \<rightharpoonup> vnode) \<Rightarrow> addr \<Rightarrow> addr list \<Rightarrow> bool" where
  "ancestors m v [] \<longleftrightarrow> v = NULL \<or> v = vfs_root"
| "ancestors m v (a # as) \<longleftrightarrow> v = a \<and> v \<noteq> NULL \<and> v \<noteq> vfs_root \<and>
     (\<exists>n. m v = Some n \<and> \<not> is_mounted n \<and> 0 \<in> set (vnode_name n) \<and> component (name_of n) \<and> ancestors m (vnode_parent n) as)"

definition names_up :: "(addr \<rightharpoonup> vnode) \<Rightarrow> addr list \<Rightarrow> byte list list" where
  "names_up m as = map (\<lambda>a. name_of (the (m a))) as"

lemma names_up_simps [simp]: "names_up m [] = []" "names_up m (a # as) = name_of (the (m a)) # names_up m as"
  by (simp_all add: names_up_def)

lemma ancestors_components: "ancestors m v as \<Longrightarrow> \<forall>x\<in>set (names_up m as). component x"
  by (induction as arbitrary: v) auto

section \<open>Concatenation\<close>

lemma strcat_copy_zero:
  "0 \<notin> set t \<Longrightarrow> length t \<le> k \<Longrightarrow>
    strcat_copy (b @ replicate k 0) (length b) (t @ 0 # r) = Inr ((b @ t) @ replicate (k - length t) 0)"
proof (induction t arbitrary: b k)
  case (Cons c t)
  obtain j where k: "k = Suc j" using Cons.prems(2) by (cases k) auto
  show ?case using Cons.IH [of j "b @ [c]"] Cons.prems k by simp
qed simp

lemma strcat_zero:
  assumes "0 \<notin> set b" "0 \<notin> set t" "length t < k"
  shows "strcat (b @ replicate k 0) (t @ 0 # r) = Inr ((b @ t) @ replicate (k - length t) 0)"
proof -
  have "b @ replicate k 0 = b @ 0 # replicate (k - 1) 0" using assms(3) by (cases k) auto
  then have "strlen (b @ replicate k 0) = Inr (length b)" using strlen_eq [OF assms(1)] by simp
  then show ?thesis using strcat_copy_zero assms by (simp add: strcat_def)
qed

lemmas strcat_slash = strcat_zero [of _ "[SLASH]" _ "[]", simplified]

lemma length_slashed: "length (concat (map (Cons d) xs)) = length xs + length (concat xs)"
  by (induction xs) auto

lemma slashed_join: "xs \<noteq> [] \<Longrightarrow> concat (map (Cons d) xs) = d # join d xs"
  by (induction xs) auto

lemma canonical_walk_eq:
  assumes "ancestors (vnodes s) v as" "0 \<notin> set b" "length (concat (map (Cons SLASH) (names_up (vnodes s) as))) < k"
  shows "canonical_walk (length as + fuel) s v (b @ replicate k 0) =
    Inr (Some ((b @ concat (map (Cons SLASH) (names_up (vnodes s) as))) @
      replicate (k - length (concat (map (Cons SLASH) (names_up (vnodes s) as)))) 0))"
  using assms
proof (induction as arbitrary: v b k)
  case Nil
  then show ?case by (cases fuel) auto
next
  case (Cons a as)
  let ?cat = "\<lambda>as. concat (map (Cons SLASH) (names_up (vnodes s) as))"
  obtain n where n: "v = a" "v \<noteq> NULL" "v \<noteq> vfs_root" "vnodes s v = Some n" "\<not> is_mounted n" "0 \<in> set (vnode_name n)"
      "component (name_of n)" "ancestors (vnodes s) (vnode_parent n) as"
    using Cons.prems(1) by auto
  let ?x = "name_of n"
  have x: "0 \<notin> set ?x" "?x \<noteq> []" "hd ?x \<noteq> SLASH" using n(7) by (cases ?x; simp add: component_def)+
  obtain r where r: "vnode_name n = ?x @ 0 # r" using n(6) by (rule name_of_split)
  have len: "Suc (length ?x) + length (?cat as) < k" using Cons.prems(3) n by simp
  have "hd (vnode_name n) \<noteq> SLASH" using r x(2,3) by (metis hd_append2)
  moreover have "strcat (b @ replicate k 0) [SLASH, 0] = Inr ((b @ [SLASH]) @ replicate (k - 1) 0)"
    using strcat_slash [of b k] Cons.prems(2) len by simp
  moreover have "strcat ((b @ [SLASH]) @ replicate (k - 1) 0) (vnode_name n) = Inr ((b @ SLASH # ?x) @ replicate (k - 1 - length ?x) 0)"
    using strcat_zero [of "b @ [SLASH]" ?x "k - 1" r] Cons.prems(2) x(1) r len by simp
  ultimately have "canonical_walk (Suc (length as + fuel)) s v (b @ replicate k 0) =
      canonical_walk (length as + fuel) s (vnode_parent n) ((b @ SLASH # ?x) @ replicate (k - 1 - length ?x) 0)"
    using n by (simp add: get_vnode_def)
  also have "\<dots> = Inr (Some (((b @ SLASH # ?x) @ ?cat as) @ replicate (k - 1 - length ?x - length (?cat as)) 0))"
    using Cons.prems(2) x(1) len by (intro Cons.IH n(8)) auto
  finally show ?case using n by (simp add: algebra_simps)
qed

section \<open>The result\<close>

lemma strtok_skip:
  assumes "component x"
  shows "strtok (SLASH # join SLASH (x # xs) @ r) SLASH k = strtok (join SLASH (x # xs) @ r) SLASH k"
proof -
  obtain c x' where "x = c # x'" "c \<noteq> SLASH" using assms by (cases x) (auto simp: component_def)
  then show ?thesis by (simp add: strtok_def del: strtok_loop.simps)
qed

lemma strtok_second:
  assumes "component x"
  shows "strtok (x @ 0 # r) SLASH (Suc (Suc 0)) = Inr ([0], LAST_TOKEN)"
proof -
  obtain c x' where x: "x = c # x'" "c \<noteq> SLASH" using assms by (cases x) (auto simp: component_def)
  then have "strtok (x @ 0 # r) SLASH (Suc (Suc 0)) = strtok_loop (x @ after SLASH [] @ 0 # r) SLASH 1 (Suc (Suc 0)) []"
    by (simp add: strtok_def after_def del: strtok_loop.simps)
  then show ?thesis using strtok_loop_eq [of SLASH x "[]" 1 "Suc (Suc 0)" r "[]"] assms by (simp add: component_def)
qed

lemma reverse_two:
  assumes "component x" "\<forall>y\<in>set ys. component y"
  shows "reverse_tokens (SLASH # join SLASH (x # ys) @ 0 # r) 2 (replicate 4096 0) =
    Inr ((SLASH # concat (take 1 ys) @ SLASH # x) @ replicate (4096 - length (SLASH # concat (take 1 ys) @ SLASH # x)) 0)"
proof -
  let ?b = "join SLASH (x # ys) @ 0 # r"
  let ?y = "concat (take 1 ys)"
  have y: "0 \<notin> set ?y" "length ?y < 128" using assms(2) by (cases ys; auto simp: component_def)+
  have x: "0 \<notin> set x" "length x < 128" using assms(1) by (auto simp: component_def)
  have t2: "strtok (SLASH # ?b) SLASH 2 = Inr (?y @ [0], if length ys < 2 then LAST_TOKEN else NEXT_TOKEN)"
  proof (cases ys)
    case Nil
    then show ?thesis using strtok_skip [OF assms(1), of "[]"] strtok_second [OF assms(1)] by (simp add: numeral_2_eq_2)
  next
    case (Cons z zs)
    then show ?thesis using strtok_skip [OF assms(1), of ys] strtok_nth [of "x # ys" 1 r] assms
      by (simp add: numeral_2_eq_2 del: join.simps)
  qed
  have t1: "strtok (SLASH # ?b) SLASH 1 = Inr (x @ [0], if ys = [] then LAST_TOKEN else NEXT_TOKEN)"
    using strtok_skip [OF assms(1), of ys] strtok_nth [of "x # ys" 0 r] assms by (simp del: join.simps)
  have c1: "strcat (replicate 4096 0) [SLASH, 0] = Inr ([SLASH] @ replicate 4095 0)"
    using strcat_slash [of "[]" 4096] by simp
  have c2: "strcat ([SLASH] @ replicate 4095 0) (?y @ [0]) = Inr ((SLASH # ?y) @ replicate (4095 - length ?y) 0)"
    using strcat_zero [of "[SLASH]" ?y 4095 "[]"] y by simp
  have c3: "strcat ((SLASH # ?y) @ replicate (4095 - length ?y) 0) [SLASH, 0] =
      Inr ((SLASH # ?y @ [SLASH]) @ replicate (4094 - length ?y) 0)"
    using strcat_slash [of "SLASH # ?y" "4095 - length ?y"] y by simp
  have c4: "strcat ((SLASH # ?y @ [SLASH]) @ replicate (4094 - length ?y) 0) (x @ [0]) =
      Inr ((SLASH # ?y @ SLASH # x) @ replicate (4094 - length ?y - length x) 0)"
    using strcat_zero [of "SLASH # ?y @ [SLASH]" x "4094 - length ?y" "[]"] x y by simp
  show ?thesis using t1 t2 c1 c2 c3 c4
    by (simp add: numeral_2_eq_2 del: join.simps append_Cons)
qed

text \<open>
  The canonical path of a vnode more than two levels below the root is wrong: of the names from the vnode up, the
  result holds the vnode's and its parent's only. On the first level the parent's is empty.
\<close>

theorem canonical_path_two_names:
  assumes "ancestors (vnodes s) v (a # as)" and "length (concat (map (Cons SLASH) (names_up (vnodes s) (a # as)))) < 4096"
  shows "\<exists>k. vnode_get_canonical_path (length (a # as) + fuel) v s =
    Inr (Some (SLASH # concat (take 1 (names_up (vnodes s) as)) @ SLASH # name_of (the (vnodes s v)) @ replicate k 0))"
proof -
  let ?xs = "names_up (vnodes s) (a # as)"
  let ?x = "name_of (the (vnodes s a))"
  let ?ys = "names_up (vnodes s) as"
  have v: "v = a" using assms(1) by simp
  have comp: "component ?x" "\<forall>y\<in>set ?ys. component y" using ancestors_components [OF assms(1)] by auto
  define j where "j = 4095 - length (concat (map (Cons SLASH) ?xs))"
  have len: "length ?xs < 2 ^ 64 - 1" using assms(2) by (simp add: length_slashed)
  have "replicate (4096 - length (concat (map (Cons SLASH) ?xs))) (0 :: byte) = 0 # replicate j 0"
    using assms(2) unfolding j_def by (simp add: Suc_diff_le flip: replicate_Suc)
  then have walk: "canonical_walk (length (a # as) + fuel) s v (replicate 4096 0) = Inr (Some (SLASH # join SLASH (?x # ?ys) @ 0 # replicate j 0))"
    using canonical_walk_eq [OF assms(1), of "[]" 4096 fuel] assms(2) slashed_join [of ?xs SLASH]
    by (simp del: canonical_walk.simps join.simps)
  have count: "strtok_count (SLASH # join SLASH (?x # ?ys) @ 0 # replicate j 0) SLASH = Inr (Some 1)"
    using comp len by (intro strtok_count_is_one) (auto simp: component_def)
  show ?thesis using walk count reverse_two [OF comp, of "replicate j 0"] v
    by (auto simp: vnode_get_canonical_path_def numeral_2_eq_2 simp del: canonical_walk.simps join.simps)
qed

text \<open>The path of the vnode of \<^verbatim>\<open>/a/b/c\<close> comes out as \<^verbatim>\<open>/b/c\<close>.\<close>

theorem canonical_path_two_names_witness:
  "\<exists>k. vnode_get_canonical_path 3 5
    (demo_vfs\<lparr>vnodes := [3 \<mapsto> demo_file [97] 1, 4 \<mapsto> demo_file [98] 3, 5 \<mapsto> demo_file [99] 4]\<rparr>) =
    Inr (Some ([47, 98, 47, 99] @ replicate k 0))"
  using canonical_path_two_names
    [of "demo_vfs\<lparr>vnodes := [3 \<mapsto> demo_file [97] 1, 4 \<mapsto> demo_file [98] 3, 5 \<mapsto> demo_file [99] 4]\<rparr>" 5 5 "[4, 3]" 0]
  by (simp add: demo_file_def zero_vnode_def name_of_def component_def numeral_3_eq_3)

end
