(* ===== verification/Paging.thy ===== *)
theory Paging
  imports Doubly_Linked "HOL-Library.Word"
begin

unbundle bit_operations_syntax

text \<open>
  Virtual memory: the page tables of \<^verbatim>\<open>architecture_specific/x86_64/memory/vmm.c\<close> and the regions of
  \<^verbatim>\<open>memory/vmm.c\<close>. A page table is the list of its 512 entries, found by its physical address; the
  translation between physical addresses and the direct map (\<^verbatim>\<open>Phys2Virt\<close>, \<^verbatim>\<open>Virt2Phys\<close>) is left
  out, so a pointer to an entry is a table and an index. \<open>kpages\<close> are the pages \<^verbatim>\<open>kzmalloc\<close> will hand out for
  tables and \<open>upages\<close> those of \<^verbatim>\<open>umalloc\<close>; \<open>kfreed\<close> and \<open>ufreed\<close> record what goes back. The flushes of the translation
  buffer and the lock of foreign mappings are not modelled.
\<close>

section \<open>State\<close>

record vm =
  tables :: "64 word \<rightharpoonup> 64 word list"
  kpages :: "64 word list"
  upages :: "64 word list"
  kfreed :: "64 word list"
  ufreed :: "64 word list"

abbreviation (input) PTE_P :: "64 word" where "PTE_P \<equiv> 0x001"
abbreviation (input) PTE_RW :: "64 word" where "PTE_RW \<equiv> 0x2"
abbreviation (input) PTE_U :: "64 word" where "PTE_U \<equiv> 0x004"
abbreviation (input) PTE_NX :: "64 word" where "PTE_NX \<equiv> 0x8000000000000000"
abbreviation (input) ALLOC :: "64 word" where "ALLOC \<equiv> 1"
abbreviation (input) USER_ALLOC :: "64 word" where "USER_ALLOC \<equiv> 4"
abbreviation (input) PAGE_BYTES :: "64 word" where "PAGE_BYTES \<equiv> 4096"
abbreviation (input) ENTRIES_PER_TABLE :: nat where "ENTRIES_PER_TABLE \<equiv> 512"
abbreviation (input) USER_STACK_TOP :: "64 word" where "USER_STACK_TOP \<equiv> 0x7FFFFFFFF000"
abbreviation (input) KERNEL_FOREIGN_MAP_BASE :: "64 word" where "KERNEL_FOREIGN_MAP_BASE \<equiv> 0xFFFF900000000000"

definition P4DX :: "64 word \<Rightarrow> nat" where "P4DX va = unat (drop_bit 39 va AND 0x1FF)"
definition PUDX :: "64 word \<Rightarrow> nat" where "PUDX va = unat (drop_bit 30 va AND 0x1FF)"
definition PMDX :: "64 word \<Rightarrow> nat" where "PMDX va = unat (drop_bit 21 va AND 0x1FF)"
definition PTX :: "64 word \<Rightarrow> nat" where "PTX va = unat (drop_bit 12 va AND 0x1FF)"

definition PTE_ADDR :: "64 word \<Rightarrow> 64 word" where "PTE_ADDR pte = pte AND NOT 0xF000000000000FFF"

definition PGROUNDUP :: "64 word \<Rightarrow> 64 word" where "PGROUNDUP sz = (sz + PAGE_BYTES - 1) AND NOT (PAGE_BYTES - 1)"
definition PGROUNDDOWN :: "64 word \<Rightarrow> 64 word" where "PGROUNDDOWN a = a AND NOT (PAGE_BYTES - 1)"
definition align_down :: "64 word \<Rightarrow> 64 word" where "align_down a = a div PAGE_BYTES * PAGE_BYTES"
definition align_up :: "64 word \<Rightarrow> 64 word" where "align_up a = (a + (PAGE_BYTES - 1)) div PAGE_BYTES * PAGE_BYTES"

definition present :: "64 word \<Rightarrow> bool" where "present e \<longleftrightarrow> e AND PTE_P \<noteq> 0"

section \<open>Entries\<close>

text \<open>Reading and writing an entry of a table; an address without a table faults.\<close>

definition get_entry :: "vm \<Rightarrow> 64 word \<Rightarrow> nat \<Rightarrow> 64 word res" where
  "get_entry s t i = (case tables s t of None \<Rightarrow> Inl NullDeref
     | Some es \<Rightarrow> if i < length es then Inr (es ! i) else Inl OutOfBounds)"

definition set_entry :: "vm \<Rightarrow> 64 word \<Rightarrow> nat \<Rightarrow> 64 word \<Rightarrow> vm res" where
  "set_entry s t i e = bindR (get_entry s t i) (\<lambda>_. Inr (s\<lparr>tables := (tables s)(t \<mapsto> (the (tables s t))[i := e])\<rparr>))"

definition new_table :: "vm \<Rightarrow> (vm \<times> 64 word) res" where
  "new_table s = (case kpages s of [] \<Rightarrow> Inl (Panic ''phys_alloc cannot allocate'')
     | p # ps \<Rightarrow> Inr (s\<lparr>kpages := ps, tables := (tables s)(p \<mapsto> replicate ENTRIES_PER_TABLE 0)\<rparr>, p))"

definition umalloc_pages :: "vm \<Rightarrow> (vm \<times> 64 word) res" where
  "umalloc_pages s = (case upages s of [] \<Rightarrow> Inl (Panic ''phys_alloc cannot allocate'')
     | p # ps \<Rightarrow> Inr (s\<lparr>upages := ps\<rparr>, p))"

section \<open>Page tables\<close>

text \<open>One level of \<^verbatim>\<open>walk_page_directory\<close>: the address of the next table, \<open>None\<close> when there is none and none is to be made.\<close>

definition walk_level :: "64 word \<Rightarrow> vm \<Rightarrow> 64 word \<Rightarrow> nat \<Rightarrow> (vm \<times> 64 word option) res" where
  "walk_level flags s t i =
     bindR (get_entry s t i) (\<lambda>e.
       if present e then Inr (s, Some (PTE_ADDR e))
       else if flags AND ALLOC \<noteq> 0 then
         bindR (new_table s) (\<lambda>(s, p).
         let e = p OR PTE_P OR PTE_RW;
             e = (if flags AND USER_ALLOC \<noteq> 0 then e OR PTE_U else e)
         in bindR (set_entry s t i e) (\<lambda>s. Inr (s, Some (PTE_ADDR e))))
       else Inr (s, None))"

definition next_level :: "(vm \<times> 64 word option) res \<Rightarrow> (vm \<Rightarrow> 64 word \<Rightarrow> (vm \<times> 'a option) res) \<Rightarrow> (vm \<times> 'a option) res" where
  "next_level r f = bindR r (\<lambda>(s, x). case x of None \<Rightarrow> Inr (s, None) | Some t \<Rightarrow> f s t)"

definition walk_page_directory :: "64 word \<Rightarrow> 64 word \<Rightarrow> 64 word \<Rightarrow> vm \<Rightarrow> (vm \<times> (64 word \<times> nat) option) res" where
  "walk_page_directory pgdir va flags s =
     (if pgdir = 0 then Inl (Panic ''page dir zero'')
      else next_level (walk_level flags s pgdir (P4DX va)) (\<lambda>s pud.
           next_level (walk_level flags s pud (PUDX va)) (\<lambda>s pmd.
           next_level (walk_level flags s pmd (PMDX va)) (\<lambda>s pte.
             Inr (s, Some (pte, PTX va))))))"

definition check_page_mapping :: "64 word \<Rightarrow> 64 word \<Rightarrow> vm \<Rightarrow> (64 word \<times> nat) option res" where
  "check_page_mapping pagemap address s = bindR (walk_page_directory pagemap address 0 s) (\<lambda>(_, r). Inr r)"

definition alloc_flags :: "64 word \<Rightarrow> 64 word" where
  "alloc_flags perms = (if perms AND PTE_U \<noteq> 0 then ALLOC OR USER_ALLOC else ALLOC)"

definition map_single_page :: "64 word \<Rightarrow> 64 word \<Rightarrow> 64 word \<Rightarrow> 64 word \<Rightarrow> vm \<Rightarrow> (vm \<times> int) res" where
  "map_single_page pgdir physaddr va perms s =
     bindR (walk_page_directory pgdir va (alloc_flags perms) s) (\<lambda>(s, pte). case pte of
       None \<Rightarrow> Inr (s, -1)
     | Some (t, i) \<Rightarrow>
       bindR (get_entry s t i) (\<lambda>e.
         if perms AND PTE_U \<noteq> 0 \<and> present e then Inl (Panic ''remap'')
         else let e = physaddr OR perms OR PTE_P;
                  e = (if perms AND PTE_NX = 0 then e AND NOT PTE_NX else e)
              in bindR (set_entry s t i e) (\<lambda>s. Inr (s, 0))))"

text \<open>
  The loop of \<^verbatim>\<open>map_pages\<close>. Both bounds are page aligned, so their distance in pages is the number of turns after
  the first one.
\<close>

fun map_loop :: "nat \<Rightarrow> 64 word \<Rightarrow> 64 word \<Rightarrow> 64 word \<Rightarrow> 64 word \<Rightarrow> 64 word \<Rightarrow> vm \<Rightarrow> (vm \<times> int) res" where
  "map_loop 0 pgdir physaddr address final perms s = Inl Unmodelled"
| "map_loop (Suc fuel) pgdir physaddr address final perms s =
     bindR (walk_page_directory pgdir address (alloc_flags perms) s) (\<lambda>(s, pte). case pte of
       None \<Rightarrow> Inr (s, -1)
     | Some (t, i) \<Rightarrow>
       bindR (get_entry s t i) (\<lambda>e.
         if perms AND PTE_U \<noteq> 0 \<and> present e then Inl (Panic ''remap'')
         else bindR (set_entry s t i (physaddr OR perms OR PTE_P)) (\<lambda>s.
           if address = final then Inr (s, 0)
           else map_loop fuel pgdir (physaddr + PAGE_BYTES) (address + PAGE_BYTES) final perms s)))"

definition map_pages :: "64 word \<Rightarrow> 64 word \<Rightarrow> 64 word \<Rightarrow> 64 word \<Rightarrow> 64 word \<Rightarrow> vm \<Rightarrow> (vm \<times> int) res" where
  "map_pages pgdir physaddr va perms sz s =
     (let address = PGROUNDDOWN va;
          final = PGROUNDUP (va + sz - 1)
      in map_loop (Suc (unat (drop_bit 12 (final - address)))) pgdir physaddr address final perms s)"

text \<open>
  The three releases of a page differ in what they do with the frame and with an address that has no table.
\<close>

definition dealloc_with :: "(64 word \<Rightarrow> vm \<Rightarrow> vm) \<Rightarrow> 'a res \<Rightarrow> 64 word \<Rightarrow> 64 word \<Rightarrow> vm \<Rightarrow> (vm \<times> 64 word) res" where
  "dealloc_with give_back no_table pgdir address s =
     bindR (walk_page_directory pgdir (align_down address) 0 s) (\<lambda>(s, entry). case entry of
       None \<Rightarrow> bindR no_table (\<lambda>_. Inr (s, 0))
     | Some (t, i) \<Rightarrow>
       bindR (get_entry s t i) (\<lambda>e.
         if present e then bindR (set_entry (give_back (PTE_ADDR e) s) t i 0) (\<lambda>s. Inr (s, 1))
         else Inr (s, 0)))"

definition kfree_page :: "64 word \<Rightarrow> vm \<Rightarrow> vm" where "kfree_page a s = s\<lparr>kfreed := kfreed s @ [a]\<rparr>"
definition ufree_page :: "64 word \<Rightarrow> vm \<Rightarrow> vm" where "ufree_page a s = s\<lparr>ufreed := ufreed s @ [a]\<rparr>"

definition dealloc_va :: "64 word \<Rightarrow> 64 word \<Rightarrow> vm \<Rightarrow> (vm \<times> 64 word) res" where
  "dealloc_va = dealloc_with kfree_page (Inr ())"

definition dealloc_va_foreign :: "64 word \<Rightarrow> 64 word \<Rightarrow> vm \<Rightarrow> (vm \<times> 64 word) res" where
  "dealloc_va_foreign = dealloc_with (\<lambda>_ s. s) (Inr ())"

definition dealloc_user_va :: "64 word \<Rightarrow> 64 word \<Rightarrow> vm \<Rightarrow> (vm \<times> 64 word) res" where
  "dealloc_user_va = dealloc_with ufree_page (Inl (Panic ''dealloc_va'') :: unit res)"

text \<open>
  The loops over a range: \<open>i\<close> goes from 0 in steps of a page up to and with the aligned size, unless that makes the
  comparison always true.
\<close>

fun dealloc_loop :: "nat \<Rightarrow> (64 word \<Rightarrow> 64 word \<Rightarrow> vm \<Rightarrow> (vm \<times> 64 word) res) \<Rightarrow> 64 word \<Rightarrow> 64 word \<Rightarrow> 64 word \<Rightarrow> 64 word \<Rightarrow> vm \<Rightarrow> vm res" where
  "dealloc_loop 0 f pgdir address i aligned s = Inl Unmodelled"
| "dealloc_loop (Suc fuel) f pgdir address i aligned s =
     (if i \<le> aligned then bindR (f pgdir (address + i) s) (\<lambda>(s, _). dealloc_loop fuel f pgdir address (i + PAGE_BYTES) aligned s)
      else Inr s)"

definition dealloc_range :: "(64 word \<Rightarrow> 64 word \<Rightarrow> vm \<Rightarrow> (vm \<times> 64 word) res) \<Rightarrow> 64 word \<Rightarrow> 64 word \<Rightarrow> 64 word \<Rightarrow> vm \<Rightarrow> vm res" where
  "dealloc_range f pgdir address sz s =
     dealloc_loop (unat (align_up sz) div 4096 + 2) f pgdir address 0 (align_up sz) s"

definition dealloc_va_range :: "64 word \<Rightarrow> 64 word \<Rightarrow> 64 word \<Rightarrow> vm \<Rightarrow> vm res" where
  "dealloc_va_range = dealloc_range dealloc_va"

definition dealloc_va_range_foreign :: "64 word \<Rightarrow> 64 word \<Rightarrow> 64 word \<Rightarrow> vm \<Rightarrow> vm res" where
  "dealloc_va_range_foreign = dealloc_range dealloc_va_foreign"

definition dealloc_user_va_range :: "64 word \<Rightarrow> 64 word \<Rightarrow> 64 word \<Rightarrow> vm \<Rightarrow> vm res" where
  "dealloc_user_va_range = dealloc_range dealloc_user_va"

text \<open>The kernel's own address space: the bounds come from the linker, the boot loader and the memory map.\<close>

record kernel_layout =
  text_start :: "64 word"
  text_end :: "64 word"
  rodata_start :: "64 word"
  rodata_end :: "64 word"
  data_start :: "64 word"
  data_end :: "64 word"
  kernel_min :: "64 word"
  kernel_phys_min :: "64 word"
  hhdm_offset :: "64 word"
  highest_user_phys_addr :: "64 word"
  highest_address :: "64 word"

definition map_or_panic :: "string \<Rightarrow> 64 word \<Rightarrow> 64 word \<Rightarrow> 64 word \<Rightarrow> 64 word \<Rightarrow> 64 word \<Rightarrow> vm \<Rightarrow> vm res" where
  "map_or_panic msg pgdir physaddr va perms sz s =
     bindR (map_pages pgdir physaddr va perms sz s) (\<lambda>(s, ret). if ret = -1 then Inl (Panic msg) else Inr s)"

definition map_kernel_address_space :: "kernel_layout \<Rightarrow> 64 word \<Rightarrow> vm \<Rightarrow> vm res" where
  "map_kernel_address_space k pgdir s =
     bindR (map_or_panic ''Mapping text!'' pgdir (text_start k - kernel_min k + kernel_phys_min k) (text_start k) 0
       (text_end k - text_start k) s) (\<lambda>s.
     bindR (map_or_panic ''Mapping rodata!'' pgdir (rodata_start k - kernel_min k + kernel_phys_min k) (rodata_start k) PTE_NX
       (rodata_end k - rodata_start k) s) (\<lambda>s.
     bindR (map_or_panic ''Mapping data!'' pgdir (data_start k - kernel_min k + kernel_phys_min k) (data_start k) (PTE_NX OR PTE_RW)
       (data_end k - data_start k) s) (\<lambda>s.
     bindR (map_or_panic ''Mapping First four gb!'' pgdir 0 (hhdm_offset k) (PTE_RW OR PTE_NX) 0x100000000 s) (\<lambda>s.
       map_or_panic ''Mapping address space!'' pgdir (highest_user_phys_addr k) (highest_user_phys_addr k + hhdm_offset k)
         (PTE_RW OR PTE_NX) (highest_address k - highest_user_phys_addr k) s))))"

text \<open>\<^verbatim>\<open>init_vmm\<close> without the loading of the page table register.\<close>

definition init_vmm :: "kernel_layout \<Rightarrow> vm \<Rightarrow> (vm \<times> 64 word) res" where
  "init_vmm k s = bindR (new_table s) (\<lambda>(s, top). bindR (map_kernel_address_space k top s) (\<lambda>s. Inr (s, top)))"

section \<open>Release of a whole address space\<close>

definition get_next_level :: "vm \<Rightarrow> 64 word \<Rightarrow> nat \<Rightarrow> 64 word option res" where
  "get_next_level s table i =
     bindR (get_entry s table i) (\<lambda>e. Inr (if present e then Some (PTE_ADDR e) else None))"

definition free_table :: "64 word \<Rightarrow> vm \<Rightarrow> vm" where
  "free_table t s = s\<lparr>tables := (tables s)(t := None), kfreed := kfreed s @ [t]\<rparr>"

fun free_ptes :: "nat \<Rightarrow> nat \<Rightarrow> 64 word \<Rightarrow> vm \<Rightarrow> vm res" where
  "free_ptes i 0 pte s = Inr s"
| "free_ptes i (Suc k) pte s =
     bindR (get_entry s pte i) (\<lambda>e.
     bindR (if present e then set_entry (if e AND PTE_U \<noteq> 0 then ufree_page (PTE_ADDR e) s else s) pte i 0 else Inr s) (\<lambda>s.
       free_ptes (Suc i) k pte s))"

text \<open>
  The three outer loops have the same shape: find the next table, skip an absent one, release what is below it,
  clear the entry and free the table. The loop stops at the first entry whose addresses lie above the user
  stack. (The outermost loop reads the entry before that test, the others after it; the entry is there in both cases.)
\<close>

fun free_level :: "nat \<Rightarrow> (64 word \<Rightarrow> 64 word \<Rightarrow> vm \<Rightarrow> vm res) \<Rightarrow> 64 word \<Rightarrow> nat \<Rightarrow> nat \<Rightarrow> 64 word \<Rightarrow> vm \<Rightarrow> vm res" where
  "free_level shift f base i 0 t s = Inr s"
| "free_level shift f base i (Suc k) t s =
     (let b = base OR push_bit shift (of_nat i) in
      if USER_STACK_TOP < b then Inr s
      else bindR (get_next_level s t i) (\<lambda>n. case n of
             None \<Rightarrow> free_level shift f base (Suc i) k t s
           | Some below \<Rightarrow>
             bindR (f b below s) (\<lambda>s.
             bindR (set_entry s t i 0) (\<lambda>s.
               free_level shift f base (Suc i) k t (free_table below s)))))"

definition free_page_tables :: "64 word \<Rightarrow> vm \<Rightarrow> vm res" where
  "free_page_tables pgdir s =
     free_level 39 (\<lambda>p4d_base.
       free_level 30 (\<lambda>pud_base.
         free_level 21 (\<lambda>pmd_base. free_ptes 0 ENTRIES_PER_TABLE) pud_base 0 ENTRIES_PER_TABLE)
         p4d_base 0 ENTRIES_PER_TABLE) 0 0 ENTRIES_PER_TABLE pgdir s"

section \<open>Maps, foreign mappings and regions\<close>

definition alloc_virtual_map :: "vm \<Rightarrow> (vm \<times> 64 word) res" where
  "alloc_virtual_map s = new_table s"

definition free_virtual_map :: "64 word \<Rightarrow> vm \<Rightarrow> vm" where
  "free_virtual_map m s = free_table m s"

definition arch_get_physical_address :: "64 word \<Rightarrow> 64 word \<Rightarrow> vm \<Rightarrow> 64 word res" where
  "arch_get_physical_address va page_map s =
     bindR (walk_page_directory page_map va 0 s) (\<lambda>(s, r). case r of None \<Rightarrow> Inl NullDeref
       | Some (t, i) \<Rightarrow> bindR (get_entry s t i) (\<lambda>e. Inr (PTE_ADDR e)))"

text \<open>\<open>sz\<close> counts pages here, the unit of \<^verbatim>\<open>arch_map_foreign\<close>.\<close>

fun map_foreign_loop :: "nat \<Rightarrow> 64 word \<Rightarrow> 64 word \<Rightarrow> 64 word \<Rightarrow> 64 word \<Rightarrow> vm \<Rightarrow> vm res" where
  "map_foreign_loop 0 kernel_map user_map current va s = Inr s"
| "map_foreign_loop (Suc k) kernel_map user_map current va s =
     bindR (arch_get_physical_address va user_map s) (\<lambda>physical_address.
     bindR (map_single_page kernel_map physical_address current PTE_RW s) (\<lambda>(s, _).
       map_foreign_loop k kernel_map user_map (current + PAGE_BYTES) (va + PAGE_BYTES) s))"

definition arch_map_foreign :: "64 word \<Rightarrow> 64 word \<Rightarrow> 64 word \<Rightarrow> 64 word \<Rightarrow> vm \<Rightarrow> vm res" where
  "arch_map_foreign kernel_map user_map va sz s = map_foreign_loop (unat sz) kernel_map user_map KERNEL_FOREIGN_MAP_BASE va s"

text \<open>The same unit goes to a range of bytes.\<close>

definition arch_unmap_foreign :: "64 word \<Rightarrow> 64 word \<Rightarrow> vm \<Rightarrow> vm res" where
  "arch_unmap_foreign kernel_map sz s = dealloc_va_range_foreign kernel_map KERNEL_FOREIGN_MAP_BASE sz s"

record virtual_region =
  region_va :: "64 word"
  region_pa :: "64 word"
  end_addr :: "64 word"
  num_pages :: "64 word"
  region_flags :: "64 word"
  ref_count :: "64 word"
  region_perms :: "64 word"
  contiguous :: bool

record virt_map =
  top_level :: "64 word"
  vm_regions :: "dll option"

definition create_region :: "64 word \<Rightarrow> 64 word \<Rightarrow> 64 word \<Rightarrow> 64 word \<Rightarrow> bool \<Rightarrow> virtual_region" where
  "create_region start_address size_pages ty prm contig =
     \<lparr>region_va = start_address, region_pa = 0, end_addr = start_address + size_pages * PAGE_BYTES, num_pages = size_pages,
      region_flags = ty, ref_count = 1, region_perms = prm, contiguous = contig\<rparr>"

text \<open>
  \<^verbatim>\<open>attach_user_region\<close>: \<open>a\<close> is the address of the region object, which goes on the list. The contiguous case passes
  the number of pages as a size in bytes. In the other case the page number is scaled twice, by the page size
  and by the 8 bytes of the pointer type.
\<close>

fun attach_loop :: "nat \<Rightarrow> nat \<Rightarrow> virt_map \<Rightarrow> virtual_region \<Rightarrow> vm \<Rightarrow> vm res" where
  "attach_loop i 0 m r s = Inr s"
| "attach_loop i (Suc k) m r s =
     bindR (umalloc_pages s) (\<lambda>(s, p).
     bindR (map_pages (top_level m) p (region_va r + of_nat i * PAGE_BYTES * 8) (region_perms r) 1 s) (\<lambda>(s, _).
       attach_loop (Suc i) k m r s))"

definition attach_user_region :: "dll_mem \<Rightarrow> virt_map \<Rightarrow> addr \<Rightarrow> virtual_region \<Rightarrow> vm \<Rightarrow> (dll_mem \<times> virt_map \<times> vm) res" where
  "attach_user_region d m a r s =
     bindR (doubly_linked_list_insert_tail d (case vm_regions m of None \<Rightarrow> doubly_linked_list_init | Some l \<Rightarrow> l) a) (\<lambda>(d, l).
     bindR (if contiguous r then
              bindR (umalloc_pages s) (\<lambda>(s, p).
              bindR (map_pages (top_level m) p (region_va r) (region_perms r) (num_pages r) s) (\<lambda>(s, _). Inr s))
            else attach_loop 0 (unat (num_pages r)) m r s) (\<lambda>s.
       Inr (d, m\<lparr>vm_regions := Some l\<rparr>, s)))"

fun detach_loop :: "(64 word \<Rightarrow> 64 word \<Rightarrow> vm \<Rightarrow> (vm \<times> 64 word) res) \<Rightarrow> nat \<Rightarrow> nat \<Rightarrow> virt_map \<Rightarrow> virtual_region \<Rightarrow> vm \<Rightarrow> vm res" where
  "detach_loop f i 0 m r s = Inr s"
| "detach_loop f i (Suc k) m r s =
     bindR (f (top_level m) (region_va r + of_nat i * PAGE_BYTES) s) (\<lambda>(s, _). detach_loop f (Suc i) k m r s)"

definition detach_with :: "(64 word \<Rightarrow> 64 word \<Rightarrow> vm \<Rightarrow> (vm \<times> 64 word) res) \<Rightarrow> dll_mem \<Rightarrow> virt_map \<Rightarrow> addr \<Rightarrow> virtual_region \<Rightarrow> vm \<Rightarrow>
    (dll_mem \<times> virt_map \<times> vm) res" where
  "detach_with f d m a r s =
     (case vm_regions m of None \<Rightarrow> Inl NullDeref
      | Some l \<Rightarrow>
        bindR (doubly_linked_list_remove_node_by_data_address d l a) (\<lambda>(d, l).
        bindR (if contiguous r then dealloc_range f (top_level m) (region_va r) (num_pages r) s
               else detach_loop f 0 (unat (num_pages r)) m r s) (\<lambda>s.
          Inr (d, m\<lparr>vm_regions := Some l\<rparr>, s))))"

definition detach_region :: "dll_mem \<Rightarrow> virt_map \<Rightarrow> addr \<Rightarrow> virtual_region \<Rightarrow> vm \<Rightarrow> (dll_mem \<times> virt_map \<times> vm) res" where
  "detach_region = detach_with dealloc_va"

definition detach_user_region :: "dll_mem \<Rightarrow> virt_map \<Rightarrow> addr \<Rightarrow> virtual_region \<Rightarrow> vm \<Rightarrow> (dll_mem \<times> virt_map \<times> vm) res" where
  "detach_user_region = detach_with dealloc_user_va"

end
