(* ===== verification/Page_Tables.thy ===== *)
theory Page_Tables
  imports Paging Page_Ranges
begin

text \<open>
  What the page tables of \<open>Paging\<close> mean: the tables below a root form a tree, an address is translated along its
  four indices, and mapping changes the translation of the pages it names and of no other.
\<close>

section \<open>Translation\<close>

fun table_at :: "(64 word \<rightharpoonup> 64 word list) \<Rightarrow> 64 word \<Rightarrow> nat list \<Rightarrow> 64 word option" where
  "table_at m t [] = (if m t = None then None else Some t)"
| "table_at m t (i # is) =
     (if m t \<noteq> None \<and> i < ENTRIES_PER_TABLE \<and> present (the (m t) ! i) then table_at m (PTE_ADDR (the (m t) ! i)) is else None)"

definition leaf :: "vm \<Rightarrow> 64 word \<Rightarrow> nat list \<times> nat \<Rightarrow> 64 word option" where
  "leaf s root x = (case table_at (tables s) root (fst x) of None \<Rightarrow> None
     | Some t \<Rightarrow> let e = the (tables s t) ! snd x in if present e then Some e else None)"

definition indices :: "64 word \<Rightarrow> nat list \<times> nat" where
  "indices va = ([P4DX va, PUDX va, PMDX va], PTX va)"

definition page_of :: "64 word \<Rightarrow> 64 word" where
  "page_of va = take_bit 36 (drop_bit 12 va)"

text \<open>The entry that the processor finds for an address.\<close>

definition translate :: "vm \<Rightarrow> 64 word \<Rightarrow> 64 word \<Rightarrow> 64 word option" where
  "translate s root va = leaf s root (indices va)"

text \<open>
  The invariant of the tables below a root: entries of the three upper levels lead to tables, no table is reached
  in two ways, and the pages to come are aligned and not in use.
\<close>

definition page_table :: "vm \<Rightarrow> 64 word \<Rightarrow> bool" where
  "page_table s root \<longleftrightarrow> root \<noteq> 0 \<and> tables s root \<noteq> None \<and> (\<forall>es\<in>ran (tables s). length es = ENTRIES_PER_TABLE) \<and>
     (\<forall>ps t i. length ps < 3 \<and> table_at (tables s) root ps = Some t \<and> i < ENTRIES_PER_TABLE \<and> present (the (tables s t) ! i) \<longrightarrow>
        tables s (PTE_ADDR (the (tables s t) ! i)) \<noteq> None) \<and>
     (\<forall>ps qs t. length ps \<le> 3 \<and> length qs \<le> 3 \<and> table_at (tables s) root ps = Some t \<and> table_at (tables s) root qs = Some t \<longrightarrow> ps = qs) \<and>
     distinct (kpages s) \<and> (\<forall>p\<in>set (kpages s). tables s p = None \<and> PTE_ADDR p = p)"

section \<open>Bits\<close>

lemma PTE_ADDR_or: "PTE_ADDR (a OR b) = PTE_ADDR a OR PTE_ADDR b"
  by (simp add: PTE_ADDR_def word_ao_dist)

lemma PTE_ADDR_low [simp]: "PTE_ADDR 3 = 0" "PTE_ADDR 7 = 0"
  by (simp_all add: PTE_ADDR_def)

lemma present_bit: "present e \<longleftrightarrow> bit e 0"
  by (simp add: present_def and_one_eq bit_0 odd_iff_mod_2_eq_one)

lemma present_or [simp]: "present (a OR b) \<longleftrightarrow> present a \<or> present b"
  by (simp add: present_bit bit_simps)

lemma present_consts [simp]: "\<not> present 0" "present 1" "present 3" "present 7"
  by (simp_all add: present_def)

lemma index_bound [simp]: "P4DX va < 512" "PUDX va < 512" "PMDX va < 512" "PTX va < 512"
proof -
  have "unat (x AND 0x1FF) < 512" for x :: "64 word"
  proof -
    have "x AND 0x1FF \<le> 0x1FF" by (rule word_and_le1)
    then show ?thesis by (simp add: word_le_nat_alt)
  qed
  then show "P4DX va < 512" "PUDX va < 512" "PMDX va < 512" "PTX va < 512"
    by (simp_all add: P4DX_def PUDX_def PMDX_def PTX_def)
qed

lemma bits_field_eq:
  assumes "j < 64"
  shows "take_bit j (drop_bit k x) = take_bit j (drop_bit k (y :: 64 word)) \<longleftrightarrow> (\<forall>n<j. bit x (k + n) = bit y (k + n))"
proof
  assume eq: "take_bit j (drop_bit k x) = take_bit j (drop_bit k y)"
  show "\<forall>n<j. bit x (k + n) = bit y (k + n)"
  proof (intro allI impI)
    fix n assume "n < j"
    then show "bit x (k + n) = bit y (k + n)"
      using assms arg_cong [OF eq, of "\<lambda>w. bit w n"] by (simp add: bit_simps)
  qed
qed (auto intro!: bit_word_eqI simp: bit_simps)

lemma index_eq:
  "unat (drop_bit k (x :: 64 word) AND 0x1FF) = unat (drop_bit k (y :: 64 word) AND 0x1FF) \<longleftrightarrow>
    (\<forall>n<9. bit x (k + n) = bit y (k + n))"
proof -
  have m: "(0x1FF :: 64 word) = mask 9" by (simp add: mask_eq_exp_minus_1)
  show ?thesis unfolding m using bits_field_eq [of 9 k x y] by (simp add: word_unat_eq_iff take_bit_eq_mask)
qed

lemma all_shift: "(\<forall>n<j. P (k + n)) \<longleftrightarrow> (\<forall>m\<in>{k..<k + j :: nat}. P m)"
  by (auto simp: le_iff_add)

lemma indices_eq: "indices va = indices va' \<longleftrightarrow> page_of va = page_of va'"
proof -
  have "indices va = indices va' \<longleftrightarrow> (\<forall>n<9. bit va (39 + n) = bit va' (39 + n)) \<and> (\<forall>n<9. bit va (30 + n) = bit va' (30 + n)) \<and>
      (\<forall>n<9. bit va (21 + n) = bit va' (21 + n)) \<and> (\<forall>n<9. bit va (12 + n) = bit va' (12 + n))"
    by (simp add: indices_def P4DX_def PUDX_def PMDX_def PTX_def index_eq)
  also have "\<dots> \<longleftrightarrow> (\<forall>n<36. bit va (12 + n) = bit va' (12 + n))"
  proof -
    have "{12..<12 + 36 :: nat} = {39..<39 + 9} \<union> {30..<30 + 9} \<union> {21..<21 + 9} \<union> {12..<12 + 9}" by auto
    then show ?thesis by (simp only: all_shift [of _ "\<lambda>m. bit va m = bit va' m"] ball_Un conj_assoc)
  qed
  also have "\<dots> \<longleftrightarrow> page_of va = page_of va'" by (simp add: page_of_def bits_field_eq)
  finally show ?thesis .
qed

section \<open>The tree of tables\<close>

lemma table_at_in: "table_at m t ps = Some u \<Longrightarrow> m u \<noteq> None"
  by (induction ps arbitrary: t) (auto split: if_splits)

lemma table_at_snoc:
  "table_at m t (ps @ [i]) = (case table_at m t ps of None \<Rightarrow> None
     | Some u \<Rightarrow> if i < ENTRIES_PER_TABLE \<and> present (the (m u) ! i) then table_at m (PTE_ADDR (the (m u) ! i)) [] else None)"
  by (induction ps arbitrary: t) auto

lemma page_tableD:
  assumes "page_table s root" and "table_at (tables s) root ps = Some t"
  shows "length (the (tables s t)) = 512" and "\<exists>es. tables s t = Some es \<and> length es = 512"
  using assms table_at_in [OF assms(2)] by (auto simp: page_table_def ran_def)

lemma page_table_closed:
  "page_table s root \<Longrightarrow> length ps < 3 \<Longrightarrow> table_at (tables s) root ps = Some t \<Longrightarrow> i < 512 \<Longrightarrow>
    present (the (tables s t) ! i) \<Longrightarrow> tables s (PTE_ADDR (the (tables s t) ! i)) \<noteq> None"
  unfolding page_table_def by blast

lemma page_table_inj:
  "page_table s root \<Longrightarrow> length ps \<le> 3 \<Longrightarrow> length qs \<le> 3 \<Longrightarrow> table_at (tables s) root ps = Some t \<Longrightarrow>
    table_at (tables s) root qs = Some t \<Longrightarrow> ps = qs"
  unfolding page_table_def by blast

text \<open>A write to the last level leaves the tree as it is.\<close>

lemma table_at_leaf_write:
  assumes "page_table s root" "length ps = 3" "table_at (tables s) root ps = Some t" "length qs \<le> 3"
    and m: "\<And>u. m u = (if u = t then Some es else tables s u)"
  shows "table_at m root qs = table_at (tables s) root qs"
  using assms(4)
proof (induction qs rule: rev_induct)
  case Nil
  then show ?case using table_at_in [OF assms(3)] assms(1) by (auto simp: page_table_def m)
next
  case (snoc i qs)
  show ?case
  proof (cases "table_at (tables s) root qs")
    case None
    then show ?thesis using snoc by (simp add: table_at_snoc)
  next
    case (Some u)
    have "u \<noteq> t" using page_table_inj [OF assms(1) _ _ Some, of ps] assms(2,3) snoc.prems by auto
    then show ?thesis using snoc Some table_at_in [OF assms(3)] by (auto simp: table_at_snoc m)
  qed
qed

text \<open>A new table below an entry that was not present adds one node to the tree.\<close>

lemma table_at_new:
  assumes pt: "page_table s root" and ps: "length ps < 3" "table_at (tables s) root ps = Some t" "i < 512"
    and e: "\<not> present (the (tables s t) ! i)" "present e" "PTE_ADDR e = p" "tables s p = None"
    and m: "\<And>u. m u = (if u = t then Some ((the (tables s t))[i := e]) else if u = p then Some (replicate 512 0) else tables s u)"
    and qs: "length qs \<le> 3"
  shows "table_at m root qs =
    (if qs = ps @ [i] then Some p else table_at (tables s) root qs)"
  using qs
proof (induction qs rule: rev_induct)
  case Nil
  have "tables s root \<noteq> None" using pt by (simp add: page_table_def)
  then show ?case using e(4) by (auto simp: m)
next
  case (snoc j qs)
  have pne: "p \<noteq> t" using table_at_in [OF ps(2)] e(4) by auto
  have mt: "m t = Some ((the (tables s t))[i := e])" and mp: "m p = Some (replicate 512 0)" using pne by (simp_all add: m)
  have mo: "m v = tables s v" if "v \<noteq> t" "v \<noteq> p" for v using that by (simp add: m)
  have md: "m v \<noteq> None" if "tables s v \<noteq> None" for v using that by (simp add: m)
  have IH: "table_at m root qs = (if qs = ps @ [i] then Some p else table_at (tables s) root qs)" using snoc by simp
  have q3: "length qs < 3" using snoc.prems by auto
  show ?case
  proof (cases "j < 512")
    case False
    then have "qs @ [j] \<noteq> ps @ [i]" using ps(3) by auto
    then show ?thesis using False by (simp add: table_at_snoc split: option.splits)
  next
    case jb: True
    note j = jb q3
    show ?thesis
  proof (cases "qs = ps @ [i]")
    case True
    have "table_at (tables s) root (ps @ [i]) = None" using ps e(1) by (simp add: table_at_snoc mt mp mo md)
    then have "table_at (tables s) root (qs @ [j]) = None" using True by (simp add: table_at_snoc del: append_assoc)
    moreover have "table_at m root (qs @ [j]) = None"
      using IH True pne j table_at_snoc [of m root qs j] by (simp add: mt mp del: append_assoc)
    ultimately show ?thesis using True by simp
  next
    case False
    show ?thesis
    proof (cases "table_at (tables s) root qs")
      case None
      then have "qs \<noteq> ps" using ps(2) by auto
      then show ?thesis using IH None False by (simp add: table_at_snoc)
    next
      case (Some u)
      then obtain es where u: "tables s u = Some es" using table_at_in by fastforce
      then have up: "u \<noteq> p" using e(4) by auto
      show ?thesis
      proof (cases "u = t")
        case True
        then have q: "qs = ps" using page_table_inj [OF pt _ _ Some] ps j by simp
        have len: "length (the (tables s t)) = 512" using page_tableD [OF pt ps(2)] by simp
        show ?thesis
        proof (cases "j = i")
          case True
          then show ?thesis using IH False Some \<open>u = t\<close> q e pne len ps by (simp add: table_at_snoc mt mp mo md)
        next
          case jn: False
          have "present (the (tables s t) ! j) \<Longrightarrow> tables s (PTE_ADDR (the (tables s t) ! j)) \<noteq> None"
            using page_table_closed [OF pt ps(1,2) j(1)] by simp
          then show ?thesis using IH False Some \<open>u = t\<close> q jn pne table_at_in [OF ps(2)] by (auto simp: table_at_snoc mt mp mo md)
        qed
      next
        case ut: False
        have "present (the (tables s u) ! j) \<Longrightarrow> tables s (PTE_ADDR (the (tables s u) ! j)) \<noteq> None"
          using page_table_closed [OF pt _ Some j(1)] j by simp
        moreover have "qs \<noteq> ps" using Some ps(2) ut by auto
        ultimately show ?thesis using IH False Some ut up table_at_in [OF ps(2)] by (auto simp: table_at_snoc mt mp mo md)
      qed
    qed
  qed
  qed
qed

lemma entry_flags:
  assumes "PTE_ADDR p = p"
  shows "PTE_ADDR (p OR PTE_P OR PTE_RW) = p" "PTE_ADDR (p OR PTE_P OR PTE_RW OR PTE_U) = p"
  using assms by (simp_all add: PTE_ADDR_or)

lemma page_table_new:
  assumes pt: "page_table s root" and ps: "length ps < 3" "table_at (tables s) root ps = Some t" "i < 512"
    and e: "\<not> present (the (tables s t) ! i)" "present e" "PTE_ADDR e = p" and kp: "kpages s = p # rest"
    and s': "s' = s\<lparr>kpages := rest, tables := (tables s)(p \<mapsto> replicate 512 0, t \<mapsto> (the (tables s t))[i := e])\<rparr>"
  shows "page_table s' root" and "table_at (tables s') root (ps @ [i]) = Some p"
    and "\<And>x. length (fst x) = 3 \<Longrightarrow> snd x < 512 \<Longrightarrow> leaf s' root x = leaf s root x"
proof -
  have p: "tables s p = None" using pt kp by (simp add: page_table_def)
  have pt_ne: "p \<noteq> t" using table_at_in [OF ps(2)] p by auto
  have m: "tables s' u = (if u = t then Some ((the (tables s t))[i := e]) else if u = p then Some (replicate 512 0) else tables s u)" for u
    using pt_ne by (simp add: s')
  note at = table_at_new [OF pt ps e p m]
  have old: "table_at (tables s) root (ps @ [i]) = None" using ps e(1) by (simp add: table_at_snoc)
  have notp: "table_at (tables s) root qs \<noteq> Some p" for qs using table_at_in [of "tables s" root qs p] p by auto
  have dm: "tables s' u \<noteq> None" if "tables s u \<noteq> None" for u using that by (simp add: m)
  show "table_at (tables s') root (ps @ [i]) = Some p" using at [of "ps @ [i]"] ps(1) by simp
  have kept: "the (tables s' u) ! j = the (tables s u) ! j" if "u \<noteq> p" "u \<noteq> t \<or> j \<noteq> i" for u j
    using that by (auto simp: m)
  show "page_table s' root" unfolding page_table_def
  proof (intro conjI allI impI ballI)
    show "root \<noteq> 0" "tables s' root \<noteq> None" using pt dm by (auto simp: page_table_def)
    fix es assume "es \<in> ran (tables s')"
    then obtain u where "tables s' u = Some es" by (auto simp: ran_def)
    then show "length es = 512" using pt page_tableD [OF pt ps(2)] by (auto simp: m page_table_def ran_def split: if_splits)
  next
    fix qs u j assume a: "length qs < 3 \<and> table_at (tables s') root qs = Some u \<and> j < 512 \<and> present (the (tables s' u) ! j)"
    then have "u \<noteq> p" using pt_ne by (auto simp: m)
    then have u: "table_at (tables s) root qs = Some u" using a at [of qs] by (auto split: if_splits)
    show "tables s' (PTE_ADDR (the (tables s' u) ! j)) \<noteq> None"
    proof (cases "u = t \<and> j = i")
      case True
      then show ?thesis using e(3) page_tableD [OF pt ps(2)] ps(3) by (simp add: m)
    next
      case False
      then have k: "the (tables s' u) ! j = the (tables s u) ! j" using kept \<open>u \<noteq> p\<close> by blast
      show ?thesis unfolding k using page_table_closed [OF pt _ u] a k by (intro dm) auto
    qed
  next
    fix qs rs u assume "length qs \<le> 3 \<and> length rs \<le> 3 \<and> table_at (tables s') root qs = Some u \<and> table_at (tables s') root rs = Some u"
    then show "qs = rs" using at [of qs] at [of rs] notp page_table_inj [OF pt, of qs rs u] by (auto split: if_splits)
  next
    show "distinct (kpages s')" using pt kp by (simp add: page_table_def s')
    fix q assume "q \<in> set (kpages s')"
    then have "q \<in> set rest" "q \<noteq> p" using pt kp by (auto simp: page_table_def s')
    then show "tables s' q = None" "PTE_ADDR q = q" using pt kp table_at_in [OF ps(2)] by (auto simp: page_table_def m)
  qed
  fix x :: "nat list \<times> nat" assume x: "length (fst x) = 3" "snd x < 512"
  show "leaf s' root x = leaf s root x"
  proof (cases "fst x = ps @ [i]")
    case True
    have "tables s' p = Some (replicate 512 0)" using pt_ne by (simp add: m)
    then show ?thesis using at [of "fst x"] old x True by (simp add: leaf_def Let_def)
  next
    case False
    have "u \<noteq> t" if "table_at (tables s) root (fst x) = Some u" for u
      using page_table_inj [OF pt _ _ that, of ps] ps x by auto
    then show ?thesis using at [of "fst x"] False x notp [of "fst x"] kept by (auto simp: leaf_def Let_def split: option.splits)
  qed
qed

section \<open>The walk\<close>

lemma get_entry_at: "page_table s root \<Longrightarrow> table_at (tables s) root ps = Some t \<Longrightarrow> i < 512 \<Longrightarrow> get_entry s t i = Inr (the (tables s t) ! i)"
  using page_tableD by (fastforce simp: get_entry_def)

lemma set_entry_at:
  "page_table s root \<Longrightarrow> table_at (tables s) root ps = Some t \<Longrightarrow> i < 512 \<Longrightarrow>
    set_entry s t i e = Inr (s\<lparr>tables := (tables s)(t \<mapsto> (the (tables s t))[i := e])\<rparr>)"
  by (simp add: set_entry_def get_entry_at)

text \<open>What allocation keeps: the invariant, every translation and all but a number of the spare pages.\<close>

definition grown :: "nat \<Rightarrow> 64 word \<Rightarrow> vm \<Rightarrow> vm \<Rightarrow> bool" where
  "grown k root s s' \<longleftrightarrow> page_table s' root \<and> (\<forall>x. length (fst x) = 3 \<and> snd x < 512 \<longrightarrow> leaf s' root x = leaf s root x) \<and>
     length (kpages s) \<le> length (kpages s') + k \<and> upages s' = upages s \<and> ufreed s' = ufreed s \<and> kfreed s' = kfreed s"

lemma grown_trans: "grown j root s s' \<Longrightarrow> grown k root s' s'' \<Longrightarrow> grown (j + k) root s s''"
  by (auto simp: grown_def)

lemma walk_level_ok:
  assumes pt: "page_table s root" and ps: "length ps < 3" "table_at (tables s) root ps = Some t" "i < 512"
    and "flags AND ALLOC \<noteq> 0" "kpages s \<noteq> []"
  shows "\<exists>s' u. walk_level flags s t i = Inr (s', Some u) \<and> grown 1 root s s' \<and> table_at (tables s') root (ps @ [i]) = Some u"
proof (cases "present (the (tables s t) ! i)")
  case True
  then have "table_at (tables s) root (ps @ [i]) = Some (PTE_ADDR (the (tables s t) ! i))"
    using page_table_closed [OF pt ps] ps by (simp add: table_at_snoc)
  then show ?thesis using True pt ps by (simp add: walk_level_def get_entry_at grown_def)
next
  case False
  obtain p rest where kp: "kpages s = p # rest" using assms(6) by (cases "kpages s") auto
  then have p: "PTE_ADDR p = p" "tables s p = None" using pt by (simp_all add: page_table_def)
  then have pne: "p \<noteq> t" using table_at_in [OF ps(2)] by auto
  define e where "e = (if flags AND USER_ALLOC \<noteq> 0 then p OR PTE_P OR PTE_RW OR PTE_U else p OR PTE_P OR PTE_RW)"
  have e: "present e" "PTE_ADDR e = p" using entry_flags [OF p(1)] by (auto simp: e_def or.assoc)
  define s' where "s' = s\<lparr>kpages := rest, tables := (tables s)(p \<mapsto> replicate 512 0, t \<mapsto> (the (tables s t))[i := e])\<rparr>"
  note new = page_table_new [OF pt ps False e kp s'_def]
  have "walk_level flags s t i = Inr (s', Some p)"
    using False assms(5) pt ps kp e pne page_tableD [OF pt ps(2)]
    by (auto simp: walk_level_def get_entry_at new_table_def set_entry_def get_entry_def Let_def s'_def e_def or.assoc)
  moreover have "grown 1 root s s'" using new(1,3) kp by (auto simp: grown_def s'_def)
  ultimately show ?thesis using new(2) by blast
qed

lemma walk_page_directory_ok:
  assumes pt: "page_table s root" and "flags AND ALLOC \<noteq> 0" "3 \<le> length (kpages s)"
  shows "\<exists>s' t. walk_page_directory root va flags s = Inr (s', Some (t, PTX va)) \<and> grown 3 root s s' \<and>
    table_at (tables s') root (fst (indices va)) = Some t"
proof -
  have r: "root \<noteq> 0" "table_at (tables s) root [] = Some root" using pt by (simp_all add: page_table_def)
  obtain s1 t1 where 1: "walk_level flags s root (P4DX va) = Inr (s1, Some t1)" "grown 1 root s s1"
      "table_at (tables s1) root [P4DX va] = Some t1"
    using walk_level_ok [OF pt _ r(2), of "P4DX va" flags] assms(2,3) by fastforce
  obtain s2 t2 where 2: "walk_level flags s1 t1 (PUDX va) = Inr (s2, Some t2)" "grown 1 root s1 s2"
      "table_at (tables s2) root [P4DX va, PUDX va] = Some t2"
    using walk_level_ok [of s1 root "[P4DX va]" t1 "PUDX va" flags] 1 assms(2,3) by (fastforce simp: grown_def)
  obtain s3 t3 where 3: "walk_level flags s2 t2 (PMDX va) = Inr (s3, Some t3)" "grown 1 root s2 s3"
      "table_at (tables s3) root [P4DX va, PUDX va, PMDX va] = Some t3"
    using walk_level_ok [of s2 root "[P4DX va, PUDX va]" t2 "PMDX va" flags] 1 2 assms(2,3) by (fastforce simp: grown_def)
  have "grown 3 root s s3" using grown_trans [OF grown_trans [OF 1(2) 2(2)] 3(2)] by (simp add: numeral_3_eq_3)
  then show ?thesis using 1 2 3 r by (simp add: walk_page_directory_def next_level_def indices_def)
qed

section \<open>Mapping\<close>

text \<open>Writing the last entry of a walk changes one translation.\<close>

lemma leaf_write:
  assumes pt: "page_table s root" and t: "table_at (tables s) root ps = Some t" "length ps = 3" "i < 512"
    and s': "s' = s\<lparr>tables := (tables s)(t \<mapsto> (the (tables s t))[i := e])\<rparr>"
  shows "page_table s' root"
    and "\<And>x. length (fst x) = 3 \<Longrightarrow> snd x < 512 \<Longrightarrow>
      leaf s' root x = (if x = (ps, i) then (if present e then Some e else None) else leaf s root x)"
proof -
  have m: "tables s' u = (if u = t then Some ((the (tables s t))[i := e]) else tables s u)" for u by (simp add: s')
  have at: "length qs \<le> 3 \<Longrightarrow> table_at (tables s') root qs = table_at (tables s) root qs" for qs
    using table_at_leaf_write [OF pt t(2,1) _ m] by blast
  have td: "tables s t \<noteq> None" "length (the (tables s t)) = 512" using table_at_in [OF t(1)] page_tableD [OF pt t(1)] by auto
  show "page_table s' root" unfolding page_table_def
  proof (intro conjI allI impI ballI)
    show "root \<noteq> 0" "tables s' root \<noteq> None" using pt by (auto simp: page_table_def m)
    fix es assume "es \<in> ran (tables s')"
    then show "length es = 512" using pt td by (auto simp: m page_table_def ran_def split: if_splits)
  next
    fix qs u j assume a: "length qs < 3 \<and> table_at (tables s') root qs = Some u \<and> j < 512 \<and> present (the (tables s' u) ! j)"
    then have u: "table_at (tables s) root qs = Some u" using at [of qs] by simp
    then have "u \<noteq> t" using page_table_inj [OF pt _ _ u, of ps] t a by auto
    then show "tables s' (PTE_ADDR (the (tables s' u) ! j)) \<noteq> None" using page_table_closed [OF pt _ u, of j] a by (auto simp: m)
  next
    fix qs rs u assume "length qs \<le> 3 \<and> length rs \<le> 3 \<and> table_at (tables s') root qs = Some u \<and> table_at (tables s') root rs = Some u"
    then show "qs = rs" by (metis at page_table_inj [OF pt])
  next
    show "distinct (kpages s')" using pt by (simp add: page_table_def s')
    fix q assume "q \<in> set (kpages s')"
    then show "tables s' q = None" "PTE_ADDR q = q" using pt td by (auto simp: page_table_def s')
  qed
  fix x :: "nat list \<times> nat" assume x: "length (fst x) = 3" "snd x < 512"
  have "u = t \<longleftrightarrow> fst x = ps" if "table_at (tables s) root (fst x) = Some u" for u
    using page_table_inj [OF pt _ _ that, of ps] t x that by auto
  then show "leaf s' root x = (if x = (ps, i) then (if present e then Some e else None) else leaf s root x)"
    using at [of "fst x"] x t td by (cases x) (auto simp: leaf_def m Let_def nth_list_update split: option.splits if_splits)
qed

lemma indices_bounds [simp]: "length (fst (indices va)) = 3" "snd (indices va) = PTX va"
  by (simp_all add: indices_def)

lemma translate_cong: "page_of va = page_of va' \<Longrightarrow> translate s root va = translate s root va'"
  by (metis indices_eq translate_def)

text \<open>What a mapping of one page does, in the two routines that make one: the state after the walk and the write.\<close>

lemma map_entry_ok:
  assumes pt: "page_table s root" and "3 \<le> length (kpages s)" and "perms AND PTE_U = 0 \<or> translate s root va = None"
  shows "\<exists>s1 t s2. walk_page_directory root va (alloc_flags perms) s = Inr (s1, Some (t, PTX va)) \<and>
    (\<exists>e. get_entry s1 t (PTX va) = Inr e \<and> \<not> (perms AND PTE_U \<noteq> 0 \<and> present e)) \<and> set_entry s1 t (PTX va) e' = Inr s2 \<and>
    page_table s2 root \<and> (\<forall>va'. translate s2 root va' =
      (if page_of va' = page_of va then (if present e' then Some e' else None) else translate s root va')) \<and>
    length (kpages s) \<le> length (kpages s2) + 3 \<and> upages s2 = upages s \<and> ufreed s2 = ufreed s \<and> kfreed s2 = kfreed s"
proof -
  have "alloc_flags perms AND ALLOC \<noteq> 0" by (simp add: alloc_flags_def)
  then obtain s1 t where w: "walk_page_directory root va (alloc_flags perms) s = Inr (s1, Some (t, PTX va))"
      "grown 3 root s s1" "table_at (tables s1) root (fst (indices va)) = Some t"
    using walk_page_directory_ok [OF pt _ assms(2)] by blast
  have pt1: "page_table s1 root" using w(2) by (simp add: grown_def)
  define s2 where "s2 = s1\<lparr>tables := (tables s1)(t \<mapsto> (the (tables s1 t))[PTX va := e'])\<rparr>"
  note lw = leaf_write [OF pt1 w(3) _ _ s2_def]
  have same: "leaf s1 root (indices va') = leaf s root (indices va')" for va'
    using w(2) unfolding grown_def by (metis index_bound(4) indices_bounds)
  have "\<not> (perms AND PTE_U \<noteq> 0 \<and> present (the (tables s1 t) ! PTX va))"
    using assms(3) same [of va] w(3) by (auto simp: translate_def leaf_def Let_def split: if_splits)
  moreover have "translate s2 root va' = (if page_of va' = page_of va then (if present e' then Some e' else None) else translate s root va')" for va'
    using lw(2) [of "indices va'"] same [of va'] indices_eq [of va' va]
    by (auto simp: translate_def indices_def)
  ultimately show ?thesis using w lw(1) pt1
    by (intro exI [of _ s1] exI [of _ t] exI [of _ s2]) (auto simp: get_entry_at set_entry_at s2_def grown_def)
qed

lemma uint_page_add: "uint (a + of_nat i * PAGE_BYTES) = (uint a + int i * 4096) mod 2 ^ 64" for a :: "64 word"
proof -
  have "a + of_nat i * 4096 = word_of_int (uint a + int i * 4096)" by simp
  then show ?thesis by (simp only: uint_word_of_int) simp
qed

lemma alloc_flags_alloc [simp]: "alloc_flags perms AND ALLOC \<noteq> 0"
  by (simp add: alloc_flags_def)

lemma page_of_add: "uint (page_of (a + of_nat i * PAGE_BYTES)) = (uint a div 4096 + int i) mod 2 ^ 36"
proof -
  note uint_page_add [of a i]
  moreover have "(x mod 2 ^ 64) div 4096 mod 2 ^ 36 = x div 4096 mod 2 ^ 36" for x :: int
  proof -
    have "take_bit 36 (drop_bit 12 (take_bit 64 x)) = take_bit 36 (drop_bit 12 x)"
      by (rule bit_eqI) (auto simp: bit_simps)
    then show ?thesis by (simp add: take_bit_eq_mod drop_bit_eq_div)
  qed
  moreover have "uint (page_of v) = uint v div 4096 mod 2 ^ 36" for v
    by (simp add: page_of_def unsigned_take_bit_eq unsigned_drop_bit_eq take_bit_eq_mod drop_bit_eq_div uint_mod uint_div)
  ultimately show ?thesis by (simp add: add.commute)
qed

lemma page_of_inj:
  assumes "page_of (a + of_nat i * PAGE_BYTES) = page_of (a + of_nat j * PAGE_BYTES)" and "i < 2 ^ 36" "j < 2 ^ 36"
  shows "i = j"
proof -
  have "(uint a div 4096 + int i) mod 2 ^ 36 = (uint a div 4096 + int j) mod 2 ^ 36" using assms(1) page_of_add by metis
  then have "int i mod 2 ^ 36 = int j mod 2 ^ 36" by (simp add: mod_eq_dvd_iff)
  then show ?thesis using assms(2,3) by simp
qed

lemma pages_ne:
  assumes "0 < k" "k < 2 ^ 36"
  shows "a + of_nat k * PAGE_BYTES \<noteq> a"
  using page_of_inj [of a k 0] assms by auto

lemma map_loop_ok:
  assumes "page_table s root" and "3 * Suc k \<le> length (kpages s)" and "k < 2 ^ 36"
    and "perms AND PTE_U = 0 \<or> (\<forall>i\<le>k. translate s root (a + of_nat i * PAGE_BYTES) = None)"
  shows "\<exists>s'. map_loop (Suc k) root pa a (a + of_nat k * PAGE_BYTES) perms s = Inr (s', 0) \<and> page_table s' root \<and>
    (\<forall>i\<le>k. translate s' root (a + of_nat i * PAGE_BYTES) = Some ((pa + of_nat i * PAGE_BYTES) OR perms OR PTE_P)) \<and>
    (\<forall>va. (\<forall>i\<le>k. page_of va \<noteq> page_of (a + of_nat i * PAGE_BYTES)) \<longrightarrow> translate s' root va = translate s root va) \<and>
    length (kpages s) \<le> length (kpages s') + 3 * Suc k \<and> upages s' = upages s \<and> ufreed s' = ufreed s \<and> kfreed s' = kfreed s"
  using assms
proof (induction k arbitrary: s a pa)
  case 0
  then have u: "perms AND PTE_U = 0 \<or> translate s root a = None" by auto
  show ?case using map_entry_ok [OF 0(1) _ u, of "pa OR perms OR PTE_P"] 0 by fastforce
next
  case (Suc k)
  let ?a = "a + PAGE_BYTES" and ?pa = "pa + PAGE_BYTES"
  let ?e = "pa OR perms OR PTE_P"
  have u: "perms AND PTE_U = 0 \<or> translate s root a = None" using Suc.prems(4) by (auto dest: spec [of _ 0])
  obtain s1 t s2 e where w: "walk_page_directory root a (alloc_flags perms) s = Inr (s1, Some (t, PTX a))"
      "get_entry s1 t (PTX a) = Inr e" "\<not> (perms AND PTE_U \<noteq> 0 \<and> present e)" "set_entry s1 t (PTX a) ?e = Inr s2"
      "page_table s2 root" "length (kpages s) \<le> length (kpages s2) + 3"
      "upages s2 = upages s" "ufreed s2 = ufreed s" "kfreed s2 = kfreed s"
    and tr: "\<forall>va. translate s2 root va = (if page_of va = page_of a then Some ?e else translate s root va)"
    using map_entry_ok [OF Suc.prems(1) _ u, of ?e] Suc.prems(2) by auto
  have ne: "page_of (?a + of_nat i * PAGE_BYTES) \<noteq> page_of a" if "i \<le> k" for i
    using page_of_inj [of a "Suc i" 0] that Suc.prems(3) by (auto simp: algebra_simps)
  have "perms AND PTE_U = 0 \<or> (\<forall>i\<le>k. translate s2 root (?a + of_nat i * PAGE_BYTES) = None)"
    using Suc.prems(4) ne tr by (auto simp: algebra_simps dest: spec [of _ "Suc _"])
  then obtain s' where s': "map_loop (Suc k) root ?pa ?a (?a + of_nat k * PAGE_BYTES) perms s2 = Inr (s', 0)" "page_table s' root"
      "\<forall>i\<le>k. translate s' root (?a + of_nat i * PAGE_BYTES) = Some ((?pa + of_nat i * PAGE_BYTES) OR perms OR PTE_P)"
      "\<forall>va. (\<forall>i\<le>k. page_of va \<noteq> page_of (?a + of_nat i * PAGE_BYTES)) \<longrightarrow> translate s' root va = translate s2 root va"
      "length (kpages s2) \<le> length (kpages s') + 3 * Suc k" "upages s' = upages s2" "ufreed s' = ufreed s2" "kfreed s' = kfreed s2"
    using Suc.IH [of s2 ?a ?pa] w(5,6) Suc.prems(2,3) by auto
  have fin: "a + of_nat (Suc k) * PAGE_BYTES = ?a + of_nat k * PAGE_BYTES" by (simp add: algebra_simps)
  have "a \<noteq> ?a + of_nat k * PAGE_BYTES" using pages_ne [of "Suc k" a] Suc.prems(3) fin by fastforce
  then have run: "map_loop (Suc (Suc k)) root pa a (a + of_nat (Suc k) * PAGE_BYTES) perms s = Inr (s', 0)"
    unfolding fin using w(1-4) s'(1) by (simp del: map_loop.simps add: map_loop.simps(2) [of "Suc k"])
  have "\<forall>i\<le>k. page_of a \<noteq> page_of (?a + of_nat i * PAGE_BYTES)" using ne by fastforce
  then have first: "translate s' root a = Some ?e" using s'(4) tr by simp
  have "translate s' root (a + of_nat i * PAGE_BYTES) = Some ((pa + of_nat i * PAGE_BYTES) OR perms OR PTE_P)" if "i \<le> Suc k" for i
    using that first s'(3) by (cases i) (auto simp: algebra_simps)
  moreover have "translate s' root va = translate s root va"
    if "\<forall>i\<le>Suc k. page_of va \<noteq> page_of (a + of_nat i * PAGE_BYTES)" for va
  proof -
    have "page_of va \<noteq> page_of a" using that by (auto dest: spec [of _ 0])
    moreover have "\<forall>i\<le>k. page_of va \<noteq> page_of (?a + of_nat i * PAGE_BYTES)"
      using that by (auto simp: algebra_simps dest: spec [of _ "Suc _"])
    ultimately show ?thesis using s'(4) tr by simp
  qed
  ultimately show ?case using run s' w by (intro exI [of _ s']) auto
qed

section \<open>Ranges\<close>

definition page_aligned :: "64 word \<Rightarrow> bool" where
  "page_aligned a \<longleftrightarrow> a AND 0xFFF = 0"

lemma page_aligned_take_bit: "page_aligned a \<longleftrightarrow> take_bit 12 a = 0"
proof -
  have "(0xFFF :: 64 word) = mask 12" by (simp add: mask_eq_exp_minus_1)
  then show ?thesis by (simp add: page_aligned_def take_bit_eq_mask)
qed

lemma page_aligned_bit: "page_aligned a \<longleftrightarrow> (\<forall>n<12. \<not> bit a n)"
  using bits_field_eq [of 12 0 a 0] by (simp add: page_aligned_take_bit)

lemma page_aligned_add:
  assumes "page_aligned a"
  shows "page_aligned (a + of_nat n * PAGE_BYTES)"
proof -
  have al: "page_aligned b \<longleftrightarrow> uint b mod 4096 = 0" for b
    by (simp add: page_aligned_take_bit word_uint_eq_iff unsigned_take_bit_eq take_bit_eq_mod uint_mod)
  have "uint (a + of_nat n * PAGE_BYTES) mod 4096 = (uint a + int n * 4096) mod 4096"
    unfolding uint_page_add by (rule mod_mod_cancel) simp
  then show ?thesis using assms by (simp add: al)
qed

lemma round_down_within:
  assumes "page_aligned a" "c < 4096"
  shows "(a + c) AND NOT 0xFFF = a"
proof -
  have m: "(0xFFF :: 64 word) = mask 12" by (simp add: mask_eq_exp_minus_1)
  have c: "\<not> bit c n" if "12 \<le> n" for n
    using assms(2) that bit_le_unat [of c n] power_increasing [of 12 n "2::nat"] by (auto simp: word_less_nat_alt)
  have "\<not> (bit a n \<and> bit c n)" for n using assms(1) c [of n] by (cases "n < 12") (auto simp: page_aligned_bit)
  then have "a AND c = 0" by (intro bit_word_eqI) (simp add: bit_simps)
  then have "a + c = a OR c" by (rule disjunctive_add_eq_or)
  moreover have "(a OR c) AND NOT (mask 12) = a"
    using assms(1) c by (intro bit_word_eqI) (auto simp: bit_simps page_aligned_bit not_less)
  ultimately show ?thesis unfolding m by simp
qed

lemma map_pages_bounds:
  assumes "page_aligned va" "0 < n" "n < 2 ^ 36"
  shows "PGROUNDDOWN va = va" and "PGROUNDUP (va + of_nat n * PAGE_BYTES - 1) = va + of_nat n * PAGE_BYTES"
    and "unat (drop_bit 12 (va + of_nat n * PAGE_BYTES - va)) = n"
proof -
  show "PGROUNDDOWN va = va" using round_down_within [OF assms(1), of 0] by (simp add: PGROUNDDOWN_def)
  have "va + of_nat n * PAGE_BYTES - 1 + PAGE_BYTES - 1 = va + of_nat n * PAGE_BYTES + 4094" by simp
  then show "PGROUNDUP (va + of_nat n * PAGE_BYTES - 1) = va + of_nat n * PAGE_BYTES"
    using round_down_within [OF page_aligned_add [OF assms(1)], of 4094 n]
    by (simp add: PGROUNDUP_def add.commute [of _ 4094])
  have "va + of_nat n * PAGE_BYTES - va = push_bit 12 (of_nat n)" by (simp add: push_bit_eq_mult)
  moreover have "drop_bit 12 (push_bit 12 (of_nat n :: 64 word)) = take_bit 52 (of_nat n)"
    by (intro bit_word_eqI) (auto simp: bit_simps)
  moreover have "unat (take_bit 52 (of_nat n :: 64 word)) = n"
    using assms(3) by (simp add: unsigned_take_bit_eq unsigned_of_nat take_bit_nat_eq_self)
  ultimately show "unat (drop_bit 12 (va + of_nat n * PAGE_BYTES - va)) = n" by simp
qed

lemma map_pages_ok:
  assumes "page_table s root" and "page_aligned va" "0 < n" "n < 2 ^ 36" and "3 * Suc n \<le> length (kpages s)"
    and "perms AND PTE_U = 0 \<or> (\<forall>i\<le>n. translate s root (va + of_nat i * PAGE_BYTES) = None)"
  shows "\<exists>s'. map_pages root pa va perms (of_nat n * PAGE_BYTES) s = Inr (s', 0) \<and> page_table s' root \<and>
    (\<forall>i\<le>n. translate s' root (va + of_nat i * PAGE_BYTES) = Some ((pa + of_nat i * PAGE_BYTES) OR perms OR PTE_P)) \<and>
    (\<forall>a. (\<forall>i\<le>n. page_of a \<noteq> page_of (va + of_nat i * PAGE_BYTES)) \<longrightarrow> translate s' root a = translate s root a) \<and>
    length (kpages s) \<le> length (kpages s') + 3 * Suc n"
  using map_loop_ok [OF assms(1,5,4,6), of pa] map_pages_bounds [OF assms(2-4)]
  unfolding map_pages_def Let_def by (auto simp del: map_loop.simps)

section \<open>New address spaces\<close>

lemma empty_table_at: "tables s p = Some (replicate 512 0) \<Longrightarrow> table_at (tables s) p ps = (if ps = [] then Some p else None)"
  by (cases ps) auto

text \<open>
  \<^verbatim>\<open>alloc_virtual_map\<close> establishes the invariant of a page table that translates nothing.
\<close>

theorem alloc_virtual_map_empty:
  assumes "kpages s = p # rest" "p \<noteq> 0" "distinct (kpages s)" "\<forall>q\<in>set (kpages s). tables s q = None \<and> PTE_ADDR q = q"
    and "\<forall>es\<in>ran (tables s). length es = ENTRIES_PER_TABLE"
  shows "\<exists>s'. alloc_virtual_map s = Inr (s', p) \<and> page_table s' p \<and> (\<forall>va. translate s' p va = None) \<and> kpages s' = rest"
proof -
  let ?s = "s\<lparr>kpages := rest, tables := (tables s)(p \<mapsto> replicate 512 0)\<rparr>"
  have at: "table_at (tables ?s) p ps = (if ps = [] then Some p else None)" for ps
    by (rule empty_table_at) simp
  have "page_table ?s p" unfolding page_table_def using assms at
    by (auto simp: ran_def split: if_splits)
  moreover have "translate ?s p va = None" for va
    using at [of "fst (indices va)"] by (simp add: translate_def leaf_def indices_def del: table_at.simps)
  ultimately show ?thesis using assms(1) by (simp add: alloc_virtual_map_def new_table_def)
qed

section \<open>Examples\<close>

definition demo_vm :: vm where
  "demo_vm = \<lparr>tables = Map.empty, kpages = [0x1000, 0x2000, 0x3000, 0x4000, 0x5000, 0x6000, 0x7000, 0x8000, 0x9000, 0xA000,
     0xB000, 0xC000, 0xD000], upages = [0x100000], kfreed = [], ufreed = []\<rparr>"

definition demo_space :: vm where
  "demo_space = demo_vm\<lparr>kpages := tl (kpages demo_vm), tables := [0x1000 \<mapsto> replicate 512 0]\<rparr>"

theorem alloc_virtual_map_empty_witness:
  "\<exists>s'. alloc_virtual_map demo_vm = Inr (s', 0x1000) \<and> page_table s' 0x1000 \<and> (\<forall>va. translate s' 0x1000 va = None)"
  using alloc_virtual_map_empty [of demo_vm "0x1000" "tl (kpages demo_vm)"]
  by (auto simp: demo_vm_def PTE_ADDR_def)

lemma demo_space_ok: "page_table demo_space 0x1000" "translate demo_space 0x1000 va = None"
proof -
  have at: "table_at (tables demo_space) 0x1000 ps = (if ps = [] then Some 0x1000 else None)" for ps
    by (rule empty_table_at) (simp add: demo_space_def)
  show "page_table demo_space 0x1000" unfolding page_table_def using at
    by (auto simp: demo_space_def demo_vm_def PTE_ADDR_def split: if_splits)
  show "translate demo_space 0x1000 va = None"
    using at [of "fst (indices va)"] by (simp add: translate_def leaf_def indices_def del: table_at.simps)
qed

lemma demo_pages_room: "length (kpages demo_space) = 12" "upages demo_space = [0x100000]"
  by (simp_all add: demo_space_def demo_vm_def)

text \<open>C5: 
  \<^verbatim>\<open>map_pages\<close> of \<open>n\<close> pages for the kernel maps \<open>n + 1\<close>: page number \<open>i\<close> from the virtual address goes to page number \<open>i\<close>
  from the physical one for every \<open>i\<close> up to and with \<open>n\<close>, with the permissions asked for. No other address is
  translated differently than before, and the tables stay a tree.
\<close>

theorem map_pages_translates:
  assumes "page_table s root" and "page_aligned va" "0 < n" "n < 2 ^ 36" and "3 * Suc n \<le> length (kpages s)" and "perms AND PTE_U = 0"
  shows "\<exists>s'. map_pages root pa va perms (of_nat n * PAGE_BYTES) s = Inr (s', 0) \<and> page_table s' root \<and>
    (\<forall>i\<le>n. translate s' root (va + of_nat i * PAGE_BYTES) = Some ((pa + of_nat i * PAGE_BYTES) OR perms OR PTE_P)) \<and>
    (\<forall>a. (\<forall>i\<le>n. page_of a \<noteq> page_of (va + of_nat i * PAGE_BYTES)) \<longrightarrow> translate s' root a = translate s root a)"
  using map_pages_ok [OF assms(1-5), of perms pa] assms(6) by blast

text \<open>
  Two user mappings next to each other cannot be made: the first one takes the first page of the second, which then
  panics as a mapping that exists.
\<close>

theorem adjacent_user_mappings_panic:
  assumes "page_table s root" and "page_aligned va" "0 < n" "0 < k" "n + k < 2 ^ 36" and "3 * Suc n + 3 \<le> length (kpages s)"
    and "perms AND PTE_U \<noteq> 0" and "\<forall>i\<le>n. translate s root (va + of_nat i * PAGE_BYTES) = None"
  shows "\<exists>s'. map_pages root pa va perms (of_nat n * PAGE_BYTES) s = Inr (s', 0) \<and>
    map_pages root pa' (va + of_nat n * PAGE_BYTES) perms (of_nat k * PAGE_BYTES) s' = Inl (Panic ''remap'')"
proof -
  let ?va = "va + of_nat n * PAGE_BYTES"
  obtain s' where s': "map_pages root pa va perms (of_nat n * PAGE_BYTES) s = Inr (s', 0)" "page_table s' root"
      "translate s' root ?va = Some ((pa + of_nat n * PAGE_BYTES) OR perms OR PTE_P)" "3 \<le> length (kpages s')"
    using map_pages_ok [of s root va n perms pa] assms by fastforce
  obtain s1 t where w: "walk_page_directory root ?va (alloc_flags perms) s' = Inr (s1, Some (t, PTX ?va))" "grown 3 root s' s1"
      "table_at (tables s1) root (fst (indices ?va)) = Some t"
    using walk_page_directory_ok [OF s'(2) _ s'(4), of "alloc_flags perms" ?va] by auto
  have pt1: "page_table s1 root" using w(2) by (simp add: grown_def)
  have "leaf s1 root (indices ?va) = leaf s' root (indices ?va)"
    using w(2) unfolding grown_def by (metis index_bound(4) indices_bounds)
  then have "present (the (tables s1 t) ! PTX ?va)"
    using s'(3) w(3) by (auto simp: translate_def leaf_def Let_def split: if_splits)
  then have "map_loop (Suc k) root pa' ?va (?va + of_nat k * PAGE_BYTES) perms s' = Inl (Panic ''remap'')"
    using w assms(7) get_entry_at [OF pt1 w(3), of "PTX ?va"] by simp
  then show ?thesis
    using s'(1) map_pages_bounds [OF page_aligned_add [OF assms(2), of n] assms(4)] assms(5)
    unfolding map_pages_def Let_def by (auto simp del: map_loop.simps)
qed

theorem map_pages_translates_witness:
  "\<exists>s'. map_pages 0x1000 0x100000 0x400000 PTE_RW 4096 demo_space = Inr (s', 0) \<and> translate s' 0x1000 0x401000 = Some 0x101003"
  using map_pages_translates [OF demo_space_ok(1), of "0x400000" 1 PTE_RW "0x100000"] demo_pages_room
  by (auto simp: page_aligned_def)

theorem adjacent_user_mappings_panic_witness:
  "\<exists>s'. map_pages 0x1000 0x100000 0x400000 PTE_U 4096 demo_space = Inr (s', 0) \<and>
    map_pages 0x1000 0x200000 0x401000 PTE_U 4096 s' = Inl (Panic ''remap'')"
  using adjacent_user_mappings_panic [OF demo_space_ok(1), of "0x400000" 1 1 PTE_U "0x100000" "0x200000"] demo_pages_room demo_space_ok(2)
  by (auto simp: page_aligned_def)

end
