(* ===== verification/Page_Release.thy ===== *)
theory Page_Release
  imports Page_Tables
begin

text \<open>
  Release of mappings, foreign mappings and regions, on the invariant of \<open>Page_Tables\<close>.
\<close>

section \<open>Lookup without allocation\<close>

lemma walk_level_lookup:
  "page_table s root \<Longrightarrow> length ps < 3 \<Longrightarrow> table_at (tables s) root ps = Some t \<Longrightarrow> i < 512 \<Longrightarrow>
    walk_level 0 s t i = Inr (s, table_at (tables s) root (ps @ [i]))"
  using page_table_closed [of s root ps t i] by (auto simp: walk_level_def get_entry_at table_at_snoc)

lemma walk_lookup:
  assumes pt: "page_table s root"
  shows "walk_page_directory root va 0 s = Inr (s, case table_at (tables s) root (fst (indices va)) of None \<Rightarrow> None | Some t \<Rightarrow> Some (t, PTX va))"
proof -
  have r: "root \<noteq> 0" "table_at (tables s) root [] = Some root" using pt by (simp_all add: page_table_def)
  have i: "table_at (tables s) root (ps @ [i]) \<noteq> None \<Longrightarrow> table_at (tables s) root ps \<noteq> None" for ps i
    by (simp add: table_at_snoc split: option.splits)
  note l1 = walk_level_lookup [OF pt _ r(2), of "P4DX va"]
  show ?thesis
  proof (cases "table_at (tables s) root [P4DX va]")
    case None
    then have "table_at (tables s) root [P4DX va, PUDX va, PMDX va] = None"
      using i [of "[P4DX va]" "PUDX va"] i [of "[P4DX va, PUDX va]" "PMDX va"] by auto
    then show ?thesis using l1 r None by (simp add: walk_page_directory_def next_level_def indices_def del: table_at.simps)
  next
    case (Some t1)
    note l2 = walk_level_lookup [OF pt _ Some, of "PUDX va"]
    show ?thesis
    proof (cases "table_at (tables s) root [P4DX va, PUDX va]")
      case None
      then have "table_at (tables s) root [P4DX va, PUDX va, PMDX va] = None" using i [of "[P4DX va, PUDX va]" "PMDX va"] by auto
      then show ?thesis using l1 l2 r None Some by (simp add: walk_page_directory_def next_level_def indices_def del: table_at.simps)
    next
      case (Some t2)
      then show ?thesis using l1 l2 r \<open>table_at (tables s) root [P4DX va] = Some t1\<close> walk_level_lookup [OF pt _ Some, of "PMDX va"]
        by (simp add: walk_page_directory_def next_level_def indices_def del: table_at.simps split: option.splits)
    qed
  qed
qed

lemma page_of_align_down: "page_of (align_down a) = page_of a"
proof -
  have "align_down a = push_bit 12 (drop_bit 12 a)"
    by (simp add: align_down_def push_bit_eq_mult drop_bit_eq_div)
  then show ?thesis unfolding page_of_def by (intro bit_word_eqI) (auto simp: bit_simps)
qed

section \<open>Release of one page\<close>

text \<open>A way of giving a frame back that touches neither tables nor spare pages.\<close>

definition gives_back :: "(64 word \<Rightarrow> vm \<Rightarrow> vm) \<Rightarrow> bool" where
  "gives_back g \<longleftrightarrow> (\<forall>p s. tables (g p s) = tables s \<and> kpages (g p s) = kpages s)"

lemma gives_back_simps [simp]: "gives_back kfree_page" "gives_back ufree_page" "gives_back (\<lambda>_ s. s)"
  by (simp_all add: gives_back_def kfree_page_def ufree_page_def)

lemma page_table_cong: "tables s' = tables s \<Longrightarrow> kpages s' = kpages s \<Longrightarrow> page_table s' root = page_table s root"
  by (simp add: page_table_def)

lemma leaf_cong: "tables s' = tables s \<Longrightarrow> leaf s' root x = leaf s root x"
  by (simp add: leaf_def cong: option.case_cong)

lemma dealloc_with_ok:
  assumes pt: "page_table s root" and g: "gives_back g"
  shows "\<exists>s'. dealloc_with g (Inr ()) root a s = Inr (s', if translate s root a = None then 0 else 1) \<and> page_table s' root \<and>
    (\<forall>va. translate s' root va = (if page_of va = page_of a then None else translate s root va)) \<and>
    (\<exists>m. s' = (case translate s root a of None \<Rightarrow> s | Some e \<Rightarrow> (g (PTE_ADDR e) s)\<lparr>tables := m\<rparr>))"
proof -
  have idx: "indices (align_down a) = indices a" by (simp add: indices_eq page_of_align_down)
  then have px: "PTX (align_down a) = PTX a" by (simp add: indices_def)
  have absent: "translate s root va = (if page_of va = page_of a then None else translate s root va)" if "translate s root a = None" for va
    using that translate_cong [of va a] by auto
  show ?thesis
  proof (cases "table_at (tables s) root (fst (indices a))")
    case None
    then have "translate s root a = None" by (simp add: translate_def leaf_def)
    then show ?thesis using pt absent None idx walk_lookup [OF pt, of "align_down a"]
      by (simp add: dealloc_with_def)
  next
    case (Some t)
    let ?e = "the (tables s t) ! PTX a"
    have tr: "translate s root a = (if present ?e then Some ?e else None)" using Some by (simp add: translate_def leaf_def Let_def)
    have w: "walk_page_directory root (align_down a) 0 s = Inr (s, Some (t, PTX a))"
      using walk_lookup [OF pt, of "align_down a"] Some idx px by simp
    show ?thesis
    proof (cases "present ?e")
      case False
      then show ?thesis using pt tr absent w get_entry_at [OF pt Some] by (simp add: dealloc_with_def)
    next
      case True
      let ?s = "g (PTE_ADDR ?e) s"
      have gs: "tables ?s = tables s" "kpages ?s = kpages s" using g by (simp_all add: gives_back_def)
      then have pt': "page_table ?s root" "table_at (tables ?s) root (fst (indices a)) = Some t"
        using pt Some page_table_cong [OF gs] by auto
      define s' where "s' = ?s\<lparr>tables := (tables ?s)(t \<mapsto> (the (tables ?s t))[PTX a := 0])\<rparr>"
      note lw = leaf_write [OF pt' _ _ s'_def]
      have "dealloc_with g (Inr ()) root a s = Inr (s', 1)"
        using w True get_entry_at [OF pt Some] set_entry_at [OF pt'] by (simp add: dealloc_with_def s'_def)
      moreover have "translate s' root va = (if page_of va = page_of a then None else translate s root va)" for va
        using lw(2) [of "indices va"] indices_eq [of va a] leaf_cong [OF gs(1), of root "indices va"]
        by (auto simp: translate_def indices_def)
      moreover have "s' = ?s\<lparr>tables := tables s'\<rparr>" by (simp add: s'_def)
      ultimately show ?thesis using lw(1) tr True by (intro exI [of _ s']) auto
    qed
  qed
qed

section \<open>Release of a range\<close>

lemma unat_pages: "n \<le> 2 ^ 36 \<Longrightarrow> unat (of_nat n * PAGE_BYTES) = n * 4096"
  using uint_page_add [of 0 n] by (simp add: unat_eq_nat_uint nat_mult_distrib nat_mod_distrib)

text \<open>\<open>fr\<close> is a record of what was given back, \<open>h\<close> what it gains by a frame.\<close>

definition freed_in :: "(64 word \<Rightarrow> 64 word list) \<Rightarrow> vm \<Rightarrow> 64 word \<Rightarrow> 64 word \<Rightarrow> nat list \<Rightarrow> 64 word list" where
  "freed_in h s root a is =
     concat (map (\<lambda>i. case translate s root (a + of_nat i * PAGE_BYTES) of None \<Rightarrow> [] | Some e \<Rightarrow> h (PTE_ADDR e)) is)"

lemma from_first: "j \<le> n \<Longrightarrow> (\<exists>i. j \<le> i \<and> i \<le> n \<and> Q i) \<longleftrightarrow> Q j \<or> (\<exists>i. Suc j \<le> i \<and> i \<le> n \<and> Q i)" for j :: nat
  by (metis Suc_leD le_neq_implies_less order_refl Suc_leI)

lemma dealloc_loop_ok:
  assumes "page_table s root" and "j \<le> Suc n" and "n < 2 ^ 36" and g: "gives_back g"
    and fr: "\<And>p s. fr (g p s) = fr s @ h p" "\<And>m s. fr (tables_update (\<lambda>_. m) s) = fr s"
  shows "\<exists>s'. dealloc_loop (Suc (Suc n - j)) (dealloc_with g (Inr ())) root a (of_nat j * PAGE_BYTES) (of_nat n * PAGE_BYTES) s = Inr s' \<and>
    page_table s' root \<and> fr s' = fr s @ freed_in h s root a [j..<Suc n] \<and>
    (\<forall>va. translate s' root va = (if \<exists>i. j \<le> i \<and> i \<le> n \<and> page_of va = page_of (a + of_nat i * PAGE_BYTES) then None else translate s root va))"
  using assms(1,2)
proof (induction "Suc n - j" arbitrary: j s)
  case 0
  then have j: "j = Suc n" by simp
  have "\<not> of_nat j * PAGE_BYTES \<le> (of_nat n * PAGE_BYTES :: 64 word)"
    using unat_pages [of j] unat_pages [of n] assms(3) j by (simp add: word_le_nat_alt)
  then show ?case using 0 j by (auto simp: freed_in_def)
next
  case (Suc d)
  then have j: "j \<le> n" "Suc n - Suc j = d" "Suc n - j = Suc d" by auto
  obtain s1 r m where s1: "dealloc_with g (Inr ()) root (a + of_nat j * PAGE_BYTES) s = Inr (s1, r)" "page_table s1 root"
      "\<And>va. translate s1 root va = (if page_of va = page_of (a + of_nat j * PAGE_BYTES) then None else translate s root va)"
      "s1 = (case translate s root (a + of_nat j * PAGE_BYTES) of None \<Rightarrow> s | Some e \<Rightarrow> (g (PTE_ADDR e) s)\<lparr>tables := m\<rparr>)"
    using dealloc_with_ok [OF Suc.prems(1) g, of "a + of_nat j * PAGE_BYTES"] by blast
  have "of_nat j * PAGE_BYTES \<le> (of_nat n * PAGE_BYTES :: 64 word)"
    using unat_pages [of j] unat_pages [of n] assms(3) j(1) by (simp add: word_le_nat_alt)
  moreover obtain s' where s': "dealloc_loop (Suc (Suc n - Suc j)) (dealloc_with g (Inr ())) root a (of_nat (Suc j) * PAGE_BYTES) (of_nat n * PAGE_BYTES) s1 = Inr s'"
      "page_table s' root" "fr s' = fr s1 @ freed_in h s1 root a [Suc j..<Suc n]"
      "\<And>va. translate s' root va = (if \<exists>i. Suc j \<le> i \<and> i \<le> n \<and> page_of va = page_of (a + of_nat i * PAGE_BYTES) then None else translate s1 root va)"
    using Suc.hyps(1) [of "Suc j" s1] s1(2) j by auto
  ultimately have run: "dealloc_loop (Suc (Suc n - j)) (dealloc_with g (Inr ())) root a (of_nat j * PAGE_BYTES) (of_nat n * PAGE_BYTES) s = Inr s'"
    using s1(1) s'(1) unfolding j(2,3)
    by (simp del: dealloc_loop.simps add: dealloc_loop.simps(2) [of "Suc d"] distrib_right add.commute)
  have "translate s1 root (a + of_nat i * PAGE_BYTES) = translate s root (a + of_nat i * PAGE_BYTES)" if "i \<in> set [Suc j..<Suc n]" for i
    using page_of_inj [of a i j] that assms(3) s1(3) by auto
  then have "freed_in h s1 root a [Suc j..<Suc n] = freed_in h s root a [Suc j..<Suc n]"
    unfolding freed_in_def by (intro arg_cong [of _ _ concat] map_cong) auto
  moreover have "[j..<Suc n] = j # [Suc j..<Suc n]" using j(1) by (simp add: upt_conv_Cons)
  moreover have "fr s1 = fr s @ (case translate s root (a + of_nat j * PAGE_BYTES) of None \<Rightarrow> [] | Some e \<Rightarrow> h (PTE_ADDR e))"
    using s1(4) fr by (auto split: option.splits)
  ultimately have "fr s' = fr s @ freed_in h s root a [j..<Suc n]" using s'(3) by (simp add: freed_in_def)
  moreover have "translate s' root va = (if \<exists>i. j \<le> i \<and> i \<le> n \<and> page_of va = page_of (a + of_nat i * PAGE_BYTES) then None else translate s root va)" for va
    using s'(4) [of va] s1(3) [of va] from_first [OF j(1), of "\<lambda>i. page_of va = page_of (a + of_nat i * PAGE_BYTES)"] by presburger
  ultimately show ?case using run s'(2) by blast
qed

lemma align_up_pages: "n < 2 ^ 36 \<Longrightarrow> align_up (of_nat n * PAGE_BYTES) = of_nat n * PAGE_BYTES"
proof -
  assume n: "n < 2 ^ 36"
  have "unat (of_nat n * PAGE_BYTES + (PAGE_BYTES - 1)) = n * 4096 + 4095"
    using unat_pages [of n] n by (subst unat_add_lem [THEN iffD1]) auto
  then have "unat ((of_nat n * PAGE_BYTES + (PAGE_BYTES - 1)) div PAGE_BYTES) = n" by (simp add: unat_div)
  then have "(of_nat n * PAGE_BYTES + (PAGE_BYTES - 1)) div PAGE_BYTES = of_nat n"
    using n by (simp add: word_unat_eq_iff unsigned_of_nat take_bit_nat_eq_self)
  then show ?thesis by (simp add: align_up_def)
qed

lemma dealloc_range_ok:
  assumes "page_table s root" and "n < 2 ^ 36" and "gives_back g"
    and "\<And>p s. fr (g p s) = fr s @ h p" "\<And>m s. fr (tables_update (\<lambda>_. m) s) = fr s"
  shows "\<exists>s'. dealloc_range (dealloc_with g (Inr ())) root a (of_nat n * PAGE_BYTES) s = Inr s' \<and> page_table s' root \<and>
    fr s' = fr s @ freed_in h s root a [0..<Suc n] \<and>
    (\<forall>va. translate s' root va = (if \<exists>i\<le>n. page_of va = page_of (a + of_nat i * PAGE_BYTES) then None else translate s root va))"
  using dealloc_loop_ok [OF assms(1) _ assms(2,3), of 0 fr h a] assms(2,4,5) unat_pages [of n] align_up_pages [of n]
  by (simp add: dealloc_range_def)

text \<open>
  Mapping a range of \<open>n\<close> unmapped pages and releasing it again restores every translation, but gives back \<open>n + 1\<close>
  frames: one more than the range has.
\<close>

theorem map_release_frees_one_more:
  assumes "page_table s root" and "page_aligned va" "0 < n" "n < 2 ^ 36" and "3 * Suc n \<le> length (kpages s)" and "perms AND PTE_U = 0"
    and "\<forall>i\<le>n. translate s root (va + of_nat i * PAGE_BYTES) = None"
    and "PTE_ADDR perms = 0" "\<forall>i\<le>n. PTE_ADDR (pa + of_nat i * PAGE_BYTES) = pa + of_nat i * PAGE_BYTES"
  shows "\<exists>s1 s2. map_pages root pa va perms (of_nat n * PAGE_BYTES) s = Inr (s1, 0) \<and>
    dealloc_va_range root va (of_nat n * PAGE_BYTES) s1 = Inr s2 \<and> (\<forall>a. translate s2 root a = translate s root a) \<and>
    kfreed s2 = kfreed s1 @ map (\<lambda>i. pa + of_nat i * PAGE_BYTES) [0..<Suc n]"
proof -
  obtain s1 where s1: "map_pages root pa va perms (of_nat n * PAGE_BYTES) s = Inr (s1, 0)" "page_table s1 root"
      "\<forall>i\<le>n. translate s1 root (va + of_nat i * PAGE_BYTES) = Some ((pa + of_nat i * PAGE_BYTES) OR perms OR PTE_P)"
      "\<forall>a. (\<forall>i\<le>n. page_of a \<noteq> page_of (va + of_nat i * PAGE_BYTES)) \<longrightarrow> translate s1 root a = translate s root a"
    using map_pages_ok [OF assms(1-5), of perms pa] assms(6) by blast
  obtain s2 where s2: "dealloc_va_range root va (of_nat n * PAGE_BYTES) s1 = Inr s2"
      "kfreed s2 = kfreed s1 @ freed_in (\<lambda>p. [p]) s1 root va [0..<Suc n]"
      "\<forall>a. translate s2 root a = (if \<exists>i\<le>n. page_of a = page_of (va + of_nat i * PAGE_BYTES) then None else translate s1 root a)"
    using dealloc_range_ok [OF s1(2) assms(4), of kfree_page kfreed "\<lambda>p. [p]" va]
    by (auto simp: dealloc_va_range_def dealloc_va_def kfree_page_def)
  have "PTE_ADDR 1 = 0" by (simp add: PTE_ADDR_def)
  then have "freed_in (\<lambda>p. [p]) s1 root va [0..<Suc n] = concat (map (\<lambda>i. [pa + of_nat i * PAGE_BYTES]) [0..<Suc n])"
    unfolding freed_in_def using s1(3) assms(8,9) by (intro arg_cong [of _ _ concat] map_cong) (auto simp: PTE_ADDR_or)
  moreover have "translate s2 root a = translate s root a" for a
    using s1(4) s2(3) assms(7) translate_cong [of a _ s root] by (metis (mono_tags, lifting))
  ultimately show ?thesis using s1(1) s2 by (auto simp del: upt_Suc)
qed

section \<open>Regions\<close>

lemma map_pages_few_bytes:
  assumes "page_aligned va" "2 \<le> b" "b \<le> 4097"
  shows "PGROUNDUP (va + b - 1) = va + PAGE_BYTES" and "unat (drop_bit 12 (va + PAGE_BYTES - va)) = 1"
proof -
  have "va + b - 1 + PAGE_BYTES - 1 = (va + of_nat 1 * PAGE_BYTES) + (b - 2)" by simp
  moreover have "b - 2 < 4096" using assms(2,3) by (simp add: word_less_nat_alt word_le_nat_alt unat_sub)
  ultimately show "PGROUNDUP (va + b - 1) = va + PAGE_BYTES"
    using round_down_within [OF page_aligned_add [OF assms(1)], of "b - 2" 1] by (simp add: PGROUNDUP_def)
  show "unat (drop_bit 12 (va + PAGE_BYTES - va)) = 1" by (simp add: drop_bit_eq_div)
qed

text \<open>
  A contiguous user region of 2 to 4096 pages gets two of them only: the number of pages is passed where a size in
  bytes is expected. The third page and those behind it stay as they were.
\<close>

theorem contiguous_region_maps_two_pages:
  assumes "page_table s (top_level m)" and "contiguous r" and "page_aligned (region_va r)" and "2 \<le> num_pages r" "num_pages r \<le> 4096"
    and "6 \<le> length (kpages s)" and "upages s = p # ps"
    and "\<forall>i\<le>1. translate s (top_level m) (region_va r + of_nat i * PAGE_BYTES) = None"
    and "dll_rep d l qs" "tail_valid l qs" "dheap d \<noteq> []" "vm_regions m = Some l"
  shows "\<exists>d' m' s'. attach_user_region d m a r s = Inr (d', m', s') \<and>
    (\<forall>i\<le>1. translate s' (top_level m) (region_va r + of_nat i * PAGE_BYTES) = Some ((p + of_nat i * PAGE_BYTES) OR region_perms r OR PTE_P)) \<and>
    (\<forall>i. 2 \<le> i \<and> i < 2 ^ 36 \<longrightarrow> translate s' (top_level m) (region_va r + of_nat i * PAGE_BYTES) = translate s (top_level m) (region_va r + of_nat i * PAGE_BYTES))"
proof -
  let ?root = "top_level m" and ?va = "region_va r"
  let ?s = "s\<lparr>upages := ps\<rparr>"
  have pt: "page_table ?s ?root" using assms(1) page_table_cong [of ?s s] by simp
  have tr: "translate ?s ?root x = translate s ?root x" for x by (simp add: translate_def leaf_cong [of ?s s])
  have un: "region_perms r AND PTE_U = 0 \<or> (\<forall>i\<le>1. translate ?s ?root (?va + of_nat i * PAGE_BYTES) = None)" using assms(8) tr by simp
  have "PGROUNDDOWN ?va = ?va" using round_down_within [OF assms(3), of 0] by (simp add: PGROUNDDOWN_def)
  moreover have "num_pages r \<le> 4097" using assms(5) by (rule order_trans) simp
  ultimately have mp: "map_pages ?root p ?va (region_perms r) (num_pages r) ?s =
      map_loop (Suc 1) ?root p ?va (?va + of_nat 1 * PAGE_BYTES) (region_perms r) ?s"
    using map_pages_few_bytes [OF assms(3,4)] by (simp add: map_pages_def Let_def del: map_loop.simps)
  obtain s' where s': "map_loop (Suc 1) ?root p ?va (?va + of_nat 1 * PAGE_BYTES) (region_perms r) ?s = Inr (s', 0)"
      "\<forall>i\<le>1. translate s' ?root (?va + of_nat i * PAGE_BYTES) = Some ((p + of_nat i * PAGE_BYTES) OR region_perms r OR PTE_P)"
      "\<forall>x. (\<forall>i\<le>1. page_of x \<noteq> page_of (?va + of_nat i * PAGE_BYTES)) \<longrightarrow> translate s' ?root x = translate ?s ?root x"
    using map_loop_ok [OF pt, of 1 "region_perms r" ?va p] un assms(6) by auto
  have "page_of (?va + of_nat i * PAGE_BYTES) \<noteq> page_of (?va + of_nat j * PAGE_BYTES)" if "2 \<le> i" "i < 2 ^ 36" "j \<le> 1" for i j
    using page_of_inj [of ?va i j] that by auto
  then have rest: "translate s' ?root (?va + of_nat i * PAGE_BYTES) = translate s ?root (?va + of_nat i * PAGE_BYTES)" if "2 \<le> i" "i < 2 ^ 36" for i
    using s'(3) tr that by metis
  obtain d' l' where "doubly_linked_list_insert_tail d l a = Inr (d', l')" using insert_tail_ok [OF assms(9,11,10)] by blast
  then show ?thesis using mp s' rest assms(2,7,12)
    by (auto simp: attach_user_region_def umalloc_pages_def simp del: map_loop.simps)
qed

section \<open>Foreign mappings\<close>

text \<open>
  \<^verbatim>\<open>arch_unmap_foreign\<close> is called with the number of pages that were mapped, but releases that many bytes: of 3 to
  4096 pages only the first two are unmapped and the others stay visible to the kernel.
\<close>

theorem unmap_foreign_leaves_pages:
  assumes "page_table s root" and "1 \<le> n" "n \<le> 4096"
  shows "\<exists>s'. arch_unmap_foreign root n s = Inr s' \<and> page_table s' root \<and>
    (\<forall>i\<le>1. translate s' root (KERNEL_FOREIGN_MAP_BASE + of_nat i * PAGE_BYTES) = None) \<and>
    (\<forall>i. 2 \<le> i \<and> i < 2 ^ 36 \<longrightarrow>
      translate s' root (KERNEL_FOREIGN_MAP_BASE + of_nat i * PAGE_BYTES) = translate s root (KERNEL_FOREIGN_MAP_BASE + of_nat i * PAGE_BYTES))"
proof -
  have "unat (n + (PAGE_BYTES - 1)) = unat n + 4095"
    using assms(3) by (subst unat_add_lem [THEN iffD1]) (auto simp: word_le_nat_alt)
  then have "unat ((n + (PAGE_BYTES - 1)) div PAGE_BYTES) = 1"
    using assms(2,3) by (simp add: unat_div word_le_nat_alt)
  then have "(n + (PAGE_BYTES - 1)) div PAGE_BYTES = 1" by (simp add: word_unat_eq_iff)
  then have al: "align_up n = of_nat 1 * PAGE_BYTES" by (simp add: align_up_def)
  have "arch_unmap_foreign root n s = dealloc_range (dealloc_with (\<lambda>_ s. s) (Inr ())) root KERNEL_FOREIGN_MAP_BASE (of_nat 1 * PAGE_BYTES) s"
    using al align_up_pages [of 1]
    by (simp add: arch_unmap_foreign_def dealloc_va_range_foreign_def dealloc_va_foreign_def dealloc_range_def)
  then obtain s' where s': "arch_unmap_foreign root n s = Inr s'" "page_table s' root"
      "\<forall>va. translate s' root va = (if \<exists>i\<le>1. page_of va = page_of (KERNEL_FOREIGN_MAP_BASE + of_nat i * PAGE_BYTES) then None else translate s root va)"
    using dealloc_range_ok [OF assms(1), of 1 "\<lambda>_ s. s" "\<lambda>_. []" "\<lambda>_. []" KERNEL_FOREIGN_MAP_BASE] by auto
  have ne: "page_of (KERNEL_FOREIGN_MAP_BASE + of_nat i * PAGE_BYTES) \<noteq> page_of (KERNEL_FOREIGN_MAP_BASE + of_nat j * PAGE_BYTES)"
    if "2 \<le> i" "i < 2 ^ 36" "j \<le> 1" for i j
    using page_of_inj [of KERNEL_FOREIGN_MAP_BASE i j] that by auto
  have "translate s' root (KERNEL_FOREIGN_MAP_BASE + of_nat i * PAGE_BYTES) = None" if "i \<le> 1" for i
    using s'(3) that by (simp only:) auto
  moreover have "translate s' root (KERNEL_FOREIGN_MAP_BASE + of_nat i * PAGE_BYTES) = translate s root (KERNEL_FOREIGN_MAP_BASE + of_nat i * PAGE_BYTES)"
    if "2 \<le> i" "i < 2 ^ 36" for i
  proof -
    have "\<not> (\<exists>j\<le>1. page_of (KERNEL_FOREIGN_MAP_BASE + of_nat i * PAGE_BYTES) = page_of (KERNEL_FOREIGN_MAP_BASE + of_nat j * PAGE_BYTES))"
      using ne [OF that] by blast
    then show ?thesis using s'(3) by (simp only: if_False)
  qed
  ultimately show ?thesis using s'(1,2) by blast
qed

section \<open>Examples\<close>

theorem map_release_frees_one_more_witness:
  "\<exists>s1 s2. map_pages 0x1000 0x100000 0x400000 PTE_RW 4096 demo_space = Inr (s1, 0) \<and>
    dealloc_va_range 0x1000 0x400000 4096 s1 = Inr s2 \<and> kfreed s2 = kfreed s1 @ [0x100000, 0x101000]"
proof -
  have f: "\<forall>i\<le>1::nat. PTE_ADDR (0x100000 + of_nat i * PAGE_BYTES) = 0x100000 + of_nat i * PAGE_BYTES"
    by (auto simp: PTE_ADDR_def le_Suc_eq)
  show ?thesis
    using map_release_frees_one_more [OF demo_space_ok(1), of "0x400000" 1 PTE_RW "0x100000"] demo_space_ok(2) f demo_pages_room
    by (auto simp: page_aligned_def PTE_ADDR_def)
qed

theorem contiguous_region_maps_two_pages_witness:
  "\<exists>d' m' s'. attach_user_region demo_dmem \<lparr>top_level = 0x1000, vm_regions = Some demo_dll\<rparr> 50 (create_region 0x400000 3 0 PTE_U True) demo_space =
      Inr (d', m', s') \<and> translate s' 0x1000 0x402000 = None"
  using contiguous_region_maps_two_pages [of demo_space "\<lparr>top_level = 0x1000, vm_regions = Some demo_dll\<rparr>" "create_region 0x400000 3 0 PTE_U True"
      "0x100000" "[]" demo_dmem demo_dll "[5, 6, 7]" 50] demo_space_ok demo_pages_room demo_dll_rep
  by (auto simp: create_region_def page_aligned_def demo_dmem_def dest: spec [of _ "2 :: nat"])

text \<open>Of three foreign pages two are unmapped.\<close>

theorem unmap_foreign_leaves_pages_witness:
  "\<exists>s s'. map_pages 0x1000 0x100000 KERNEL_FOREIGN_MAP_BASE PTE_RW 8192 demo_space = Inr (s, 0) \<and> arch_unmap_foreign 0x1000 3 s = Inr s' \<and>
    translate s' 0x1000 (KERNEL_FOREIGN_MAP_BASE + 0x1000) = None \<and> translate s' 0x1000 (KERNEL_FOREIGN_MAP_BASE + 0x2000) = Some 0x102003"
proof -
  obtain s where s: "map_pages 0x1000 0x100000 KERNEL_FOREIGN_MAP_BASE PTE_RW 8192 demo_space = Inr (s, 0)" "page_table s 0x1000"
      "\<forall>i\<le>2. translate s 0x1000 (KERNEL_FOREIGN_MAP_BASE + of_nat i * PAGE_BYTES) = Some ((0x100000 + of_nat i * PAGE_BYTES) OR PTE_RW OR PTE_P)"
    using map_pages_ok [OF demo_space_ok(1), of KERNEL_FOREIGN_MAP_BASE 2 PTE_RW "0x100000"] demo_pages_room by (auto simp: page_aligned_def)
  obtain s' where s': "arch_unmap_foreign 0x1000 3 s = Inr s'"
      "\<forall>i\<le>1. translate s' 0x1000 (KERNEL_FOREIGN_MAP_BASE + of_nat i * PAGE_BYTES) = None"
      "\<forall>i. 2 \<le> i \<and> i < 2 ^ 36 \<longrightarrow> translate s' 0x1000 (KERNEL_FOREIGN_MAP_BASE + of_nat i * PAGE_BYTES) =
        translate s 0x1000 (KERNEL_FOREIGN_MAP_BASE + of_nat i * PAGE_BYTES)"
    using unmap_foreign_leaves_pages [OF s(2), of 3] by auto
  show ?thesis using s(1) s'(1) spec [OF s(3), of 2] spec [OF s'(2), of 1] spec [OF s'(3), of 2] by auto
qed

end
