(* ===== verification/Tmpfs.thy ===== *)
theory Tmpfs
  imports VFS Binary_Trees
begin

text \<open>
  \<^verbatim>\<open>filesystem/tmpfs.c\<close>: the file system in memory. A superblock keeps its nodes in a search tree by node
  number; a directory node has an array of pointers to its entries, a file node a list of page list entries with
  1024 page pointers each. The operations act on the state of the virtual file system with the nodes of
  tmpfs as the private part. The lock of the file system and the messages it prints are left out.
\<close>

section \<open>State\<close>

record tmpfs_superblock =
  filesystem :: addr
  node_tree :: btree
  magic :: "64 word"
  tmpfs_node_count :: "64 word"

record tmpfs_page_list_entry =
  page_list :: "addr list"
  number_of_pages :: "64 word"

text \<open>
  The union of \<^verbatim>\<open>struct tmpfs_node\<close>. \<open>No_data\<close> is the NULL pointer that a new node starts with; a node whose union is
  read as the wrong member is left out of the model. The path of a symbolic link is never set.
\<close>

datatype tmpfs_data = No_data | Page_list dll | Directory_entries "addr list"

record tmpfs_node =
  superblock :: addr
  parent_tmpfs_node :: addr
  node_name :: "byte list"
  tmpfs_node_number :: "64 word"
  tmpfs_node_size :: "64 word"
  node_type :: "8 word"
  node_data :: tmpfs_data

text \<open>
  \<open>superblocks\<close> is the static array, its element \<open>i\<close> at address \<open>i + 1\<close>; \<open>contexts\<close> gives the superblock of a context.
  The heap clears small objects before it hands them out; a page comes with what it holds, so \<open>page_heap\<close> gives the
  address and the contents.
\<close>

record tmpfs =
  tmpfs_nodes :: "addr \<rightharpoonup> tmpfs_node"
  node_heap :: "addr list"
  superblocks :: "addr \<rightharpoonup> tmpfs_superblock"
  contexts :: "addr \<rightharpoonup> addr"
  context_heap :: "addr list"
  node_trees :: bt_mem
  tmpfs_node_number_bitmap :: "byte list"
  page_lists :: dll_mem
  page_entries :: "addr \<rightharpoonup> tmpfs_page_list_entry"
  entry_heap :: "addr list"
  pages :: "addr \<rightharpoonup> byte list"
  page_heap :: "(addr \<times> byte list) list"
  procfs_root :: addr
  kernel_message :: addr
  procfs_online :: bool

abbreviation (input) PAGE_SIZE :: nat where "PAGE_SIZE \<equiv> 4096"
abbreviation (input) PAGES_PER_TMPFS_ENTRY :: nat where "PAGES_PER_TMPFS_ENTRY \<equiv> 1024"
abbreviation (input) TMPFS_NUM_SUPERBLOCKS :: "64 word" where "TMPFS_NUM_SUPERBLOCKS \<equiv> 10"
abbreviation (input) TMPFS_MAGIC :: "64 word" where "TMPFS_MAGIC \<equiv> 0x534F455077778034"
abbreviation (input) VNODE_FS_TMPFS :: "64 word" where "VNODE_FS_TMPFS \<equiv> 0"
abbreviation (input) TMPFS_OPS :: addr where "TMPFS_OPS \<equiv> 2"

definition get_tnode :: "tmpfs \<Rightarrow> addr \<Rightarrow> tmpfs_node res" where
  "get_tnode t nd = deref (tmpfs_nodes t) nd"

definition modify_tnode :: "tmpfs \<Rightarrow> addr \<Rightarrow> (tmpfs_node \<Rightarrow> tmpfs_node) \<Rightarrow> tmpfs res" where
  "modify_tnode t nd f = bindR (modify (tmpfs_nodes t) nd f) (\<lambda>m. Inr (t\<lparr>tmpfs_nodes := m\<rparr>))"

text \<open>A string literal of the source.\<close>

definition c_bytes :: "string \<Rightarrow> byte list" where
  "c_bytes s = map of_char s @ [0]"

section \<open>Node numbers\<close>

text \<open>The loops over the bytes from \<open>i\<close> and over the bits from \<open>j\<close>.\<close>

fun clear_bit :: "byte \<Rightarrow> nat \<Rightarrow> nat \<Rightarrow> nat option" where
  "clear_bit b j 0 = None"
| "clear_bit b j (Suc k) = (if b AND push_bit j 1 = 0 then Some j else clear_bit b (Suc j) k)"

fun bitmap_scan :: "byte list \<Rightarrow> nat \<Rightarrow> (nat \<times> nat) option" where
  "bitmap_scan [] i = None"
| "bitmap_scan (b # bs) i =
     (if b \<noteq> 0xFF then (case clear_bit b 0 8 of Some j \<Rightarrow> Some (i, j) | None \<Rightarrow> bitmap_scan bs (Suc i))
      else bitmap_scan bs (Suc i))"

definition tmpfs_node_bitmap_get :: "tmpfs \<Rightarrow> (tmpfs \<times> 64 word) res" where
  "tmpfs_node_bitmap_get t =
     (let bm = tmpfs_node_number_bitmap t in
      case bitmap_scan bm 0 of
        None \<Rightarrow> Inl (Panic ''tmpfs_node_bitmap_get: tmpfs nodes maxed out'')
      | Some (i, j) \<Rightarrow> Inr (t\<lparr>tmpfs_node_number_bitmap := bm[i := bm ! i OR push_bit j 1]\<rparr>, of_nat (i * 8 + j)))"

definition tmpfs_node_bitmap_free :: "64 word \<Rightarrow> tmpfs \<Rightarrow> tmpfs res" where
  "tmpfs_node_bitmap_free node_number t =
     (let bm = tmpfs_node_number_bitmap t; i = unat (node_number div 8); bit = unat (node_number mod 8) in
      if i < length bm then Inr (t\<lparr>tmpfs_node_number_bitmap := bm[i := bm ! i AND NOT (push_bit bit 1)]\<rparr>)
      else Inl OutOfBounds)"

section \<open>Nodes\<close>

definition find_tmpfs_node_from_vnode :: "addr \<Rightarrow> tmpfs vfs \<Rightarrow> (tmpfs vfs \<times> addr) res" where
  "find_tmpfs_node_from_vnode v s =
     bindR (get_vnode s v) (\<lambda>n.
     bindR (deref (contexts (fs s)) (filesystem_object n)) (\<lambda>sb.
     bindR (deref (superblocks (fs s)) sb) (\<lambda>b.
     bindR (lookup_tree (node_trees (fs s)) (node_tree b) (vnode_inode_number n) 0) (\<lambda>(m, tr, ret).
       if ret = NULL then Inl (Panic ''tmpfs_node_from_vnode: tmpfs node does not exist'')
       else Inr (s\<lparr>fs := (fs s)\<lparr>node_trees := m, superblocks := (superblocks (fs s))(sb \<mapsto> b\<lparr>node_tree := tr\<rparr>)\<rparr>\<rparr>, ret)))))"

definition conjure_new_tmpfs_node :: "byte list \<Rightarrow> 8 word \<Rightarrow> tmpfs \<Rightarrow> (tmpfs \<times> addr) res" where
  "conjure_new_tmpfs_node name ty t =
     (case node_heap t of [] \<Rightarrow> Inl NullDeref
      | a # rest \<Rightarrow>
        bindR (safe_strcpy (replicate VFS_MAX_NAME_LENGTH 0) 0 name VFS_MAX_NAME_LENGTH) (\<lambda>nm.
        bindR (if ucast ty = VNODE_DIRECTORY then Inr (Directory_entries (replicate VNODE_MAX_DIRECTORY_ENTRIES NULL))
               else if ucast ty = VNODE_FILE then Inr (Page_list doubly_linked_list_init)
               else if ucast ty = VNODE_SYM_LINK then Inr No_data
               else Inl (Panic ''conjure_new_tmpfs_node: unknown type'')) (\<lambda>d.
          Inr (t\<lparr>node_heap := rest, tmpfs_nodes := (tmpfs_nodes t)(a \<mapsto>
                 \<lparr>superblock = NULL, parent_tmpfs_node = NULL, node_name = nm, tmpfs_node_number = 0, tmpfs_node_size = 0,
                  node_type = ty, node_data = d\<rparr>)\<rparr>, a))))"

definition insert_tmpfs_node_into_parent_directory_entries :: "addr \<Rightarrow> tmpfs \<Rightarrow> tmpfs res" where
  "insert_tmpfs_node_into_parent_directory_entries nd t =
     bindR (get_tnode t nd) (\<lambda>n.
     bindR (get_tnode t (parent_tmpfs_node n)) (\<lambda>p.
       if ucast (node_type p) \<noteq> VNODE_DIRECTORY then
         Inl (Panic ''insert_tmpfs_node_into_parent_directory_entries: parent is not a directory'')
       else case node_data p of
         No_data \<Rightarrow> Inl NullDeref
       | Page_list _ \<Rightarrow> Inl Unmodelled
       | Directory_entries es \<Rightarrow>
           if unat (tmpfs_node_size p) < length es then
             modify_tnode t (parent_tmpfs_node n)
               (\<lambda>p. p\<lparr>node_data := Directory_entries (es[unat (tmpfs_node_size p) := nd]), tmpfs_node_size := tmpfs_node_size p + 1\<rparr>)
           else Inl OutOfBounds))"

definition tmpfs_node_to_vnode :: "addr \<Rightarrow> tmpfs vfs \<Rightarrow> (tmpfs vfs \<times> addr) res" where
  "tmpfs_node_to_vnode nd s =
     bindR (get_tnode (fs s) nd) (\<lambda>n.
     bindR (vnode_alloc s) (\<lambda>(s, v).
     bindR (deref (superblocks (fs s)) (superblock n)) (\<lambda>b.
     bindR (safe_strcpy (vnode_name zero_vnode) 0 (node_name n) VFS_MAX_NAME_LENGTH) (\<lambda>nm.
     bindR (modify_vnode s v (\<lambda>_. zero_vnode\<lparr>filesystem_object := filesystem b, vnode_filesystem_id := VNODE_FS_TMPFS,
              vnode_ops := TMPFS_OPS, vnode_size := tmpfs_node_size n, vnode_type := ucast (node_type n),
              vnode_inode_number := tmpfs_node_number n, node_lock := True, vnode_name := nm\<rparr>)) (\<lambda>s.
       Inr (s, v))))))"

text \<open>The child found by name is only a test of its own; the result comes from the vnodes.\<close>

fun find_child_walk :: "tmpfs \<Rightarrow> byte list \<Rightarrow> addr list \<Rightarrow> nat \<Rightarrow> addr res" where
  "find_child_walk t name es 0 = Inr NULL"
| "find_child_walk t name [] (Suc k) = Inl OutOfBounds"
| "find_child_walk t name (e # es) (Suc k) =
     bindR (get_tnode t e) (\<lambda>n.
     bindR (safe_strcmp (node_name n) name VFS_MAX_NAME_LENGTH) (\<lambda>eq.
       if eq \<noteq> 0 then Inr e else find_child_walk t name es k))"

definition entries_of :: "tmpfs_node \<Rightarrow> addr list res" where
  "entries_of n = (case node_data n of No_data \<Rightarrow> Inl NullDeref | Page_list _ \<Rightarrow> Inl Unmodelled | Directory_entries es \<Rightarrow> Inr es)"

definition tmpfs_find_child :: "addr \<Rightarrow> byte list \<Rightarrow> tmpfs \<Rightarrow> addr res" where
  "tmpfs_find_child nd name t =
     bindR (get_tnode t nd) (\<lambda>n.
       if ucast (node_type n) \<noteq> VNODE_DIRECTORY then Inr NULL
       else if tmpfs_node_size n = 0 then Inr NULL
       else bindR (entries_of n) (\<lambda>es. find_child_walk t name es (unat (tmpfs_node_size n))))"

text \<open>The loop from entry \<open>i\<close>, with \<open>k\<close> to go.\<close>

fun insert_children :: "addr \<Rightarrow> byte list \<Rightarrow> addr list \<Rightarrow> nat \<Rightarrow> nat \<Rightarrow> addr \<Rightarrow> tmpfs vfs \<Rightarrow> (tmpfs vfs \<times> addr) res" where
  "insert_children v target_name es i 0 ret s = Inr (s, ret)"
| "insert_children v target_name es i (Suc k) ret s =
     (if length es \<le> i then Inl OutOfBounds
      else bindR (tmpfs_node_to_vnode (es ! i) s) (\<lambda>(s, c).
           bindR (get_vnode s v) (\<lambda>n.
             case vnode_children n of None \<Rightarrow> Inl NullDeref
             | Some cs \<Rightarrow>
               if length cs \<le> i then Inl OutOfBounds
               else bindR (modify_vnode s v (\<lambda>n. n\<lparr>vnode_children := Some (cs[i := c])\<rparr>)) (\<lambda>s.
                    bindR (modify_vnode s c (\<lambda>n. n\<lparr>vnode_parent := v\<rparr>)) (\<lambda>s.
                    bindR (get_vnode s c) (\<lambda>cn.
                    bindR (safe_strcmp (vnode_name cn) target_name VFS_MAX_NAME_LENGTH) (\<lambda>eq.
                      insert_children v target_name es (Suc i) k (if eq \<noteq> 0 then c else ret) s)))))))"

definition insert_tmpfs_children_nodes_into_vnode_children ::
  "addr \<Rightarrow> addr list \<Rightarrow> 64 word \<Rightarrow> byte list \<Rightarrow> tmpfs vfs \<Rightarrow> (tmpfs vfs \<times> addr) res" where
  "insert_tmpfs_children_nodes_into_vnode_children v es num_entries target_name s =
     insert_children v target_name es 0 (unat num_entries) NULL s"

section \<open>Pages\<close>

fun entry_walk :: "(addr \<rightharpoonup> dll_node) \<Rightarrow> addr \<Rightarrow> nat \<Rightarrow> addr res" where
  "entry_walk m d_node 0 = Inr d_node"
| "entry_walk m d_node (Suc number) =
     (if d_node = NULL then Inr NULL else bindR (deref m d_node) (\<lambda>n. entry_walk m (dnext n) number))"

text \<open>
  The entry and its array come from the heap cleared, so the increment of the number of pages starts at 0. A heap without
  pages left is not modelled.
\<close>

definition tmpfs_find_page_list_entry :: "addr \<Rightarrow> nat \<Rightarrow> tmpfs \<Rightarrow> (tmpfs \<times> addr) res" where
  "tmpfs_find_page_list_entry nd page_list_entry_number t =
     bindR (get_tnode t nd) (\<lambda>n.
       case node_data n of
         No_data \<Rightarrow> Inl NullDeref
       | Directory_entries _ \<Rightarrow> Inl Unmodelled
       | Page_list l \<Rightarrow>
           bindR (entry_walk (dnodes (page_lists t)) (dhead l) page_list_entry_number) (\<lambda>d_node.
             if d_node \<noteq> NULL then bindR (deref (dnodes (page_lists t)) d_node) (\<lambda>d. Inr (t, ddata d))
             else case (entry_heap t, page_heap t) of
                 (e # es, (p, junk) # ps) \<Rightarrow>
                   bindR (doubly_linked_list_insert_tail (page_lists t) l e) (\<lambda>(dm, l).
                   bindR (modify_tnode (t\<lparr>page_lists := dm, entry_heap := es, page_heap := ps, pages := (pages t)(p \<mapsto> junk),
                       page_entries := (page_entries t)(e \<mapsto> \<lparr>page_list = p # replicate (PAGES_PER_TMPFS_ENTRY - 1) NULL, number_of_pages = 1\<rparr>)\<rparr>)
                     nd (\<lambda>n. n\<lparr>node_data := Page_list l\<rparr>)) (\<lambda>t. Inr (t, e)))
               | ([], _) \<Rightarrow> Inl NullDeref
               | _ \<Rightarrow> Inl Unmodelled))"

definition data_page :: "tmpfs \<Rightarrow> addr \<Rightarrow> 64 word \<Rightarrow> addr res" where
  "data_page t target pg =
     bindR (deref (page_entries t) target) (\<lambda>e.
       let i = unat (pg div of_nat PAGES_PER_TMPFS_ENTRY) in
       if i < length (page_list e) then Inr (page_list e ! i) else Inl OutOfBounds)"

text \<open>The size of the node after a byte, and whether it grew.\<close>

definition grow_node :: "addr \<Rightarrow> 64 word \<Rightarrow> tmpfs \<Rightarrow> (tmpfs \<times> bool) res" where
  "grow_node nd end t =
     bindR (get_tnode t nd) (\<lambda>n.
       if tmpfs_node_size n < end then
         bindR (modify_tnode t nd (\<lambda>n. n\<lparr>tmpfs_node_size := tmpfs_node_size n + (end - tmpfs_node_size n)\<rparr>)) (\<lambda>t. Inr (t, True))
       else Inr (t, False))"

definition next_offset :: "64 word \<Rightarrow> 64 word" where
  "next_offset offset = (if offset + 1 = of_nat PAGE_SIZE then 0 else offset + 1)"

text \<open>The loop over the bytes to write; the target is looked up again only while the page number is in the first entry.\<close>

fun write_loop :: "nat \<Rightarrow> addr \<Rightarrow> addr \<Rightarrow> 64 word \<Rightarrow> 64 word \<Rightarrow> nat \<Rightarrow> byte list \<Rightarrow> tmpfs \<Rightarrow> tmpfs res" where
  "write_loop 0 nd target pg offset copy_index buffer t = Inr t"
| "write_loop (Suc bytes) nd target pg offset copy_index buffer t =
     bindR (data_page t target pg) (\<lambda>p.
       if length buffer \<le> copy_index then Inl OutOfBounds
       else if buffer ! copy_index = 0 then Inl (Panic ''null term'')
       else bindR (deref (pages t) p) (\<lambda>d.
         if length d \<le> unat offset then Inl OutOfBounds
         else
           let t = t\<lparr>pages := (pages t)(p \<mapsto> d[unat offset := buffer ! copy_index])\<rparr>; offset = next_offset offset in
           bindR (grow_node nd (pg * of_nat PAGE_SIZE + offset) t) (\<lambda>(t, new_size).
             if offset = 0 then
               bindR (if new_size then bindR (modify (page_entries t) target (\<lambda>e. e\<lparr>number_of_pages := number_of_pages e + 1\<rparr>))
                        (\<lambda>m. Inr (t\<lparr>page_entries := m\<rparr>)) else Inr t) (\<lambda>t.
               bindR (if (pg + 1) div of_nat PAGES_PER_TMPFS_ENTRY = 0 then tmpfs_find_page_list_entry nd 0 t else Inr (t, target))
                 (\<lambda>(t, target). write_loop bytes nd target (pg + 1) offset (Suc copy_index) buffer t))
             else write_loop bytes nd target pg offset (Suc copy_index) buffer t)))"

fun read_loop :: "nat \<Rightarrow> addr \<Rightarrow> addr \<Rightarrow> 64 word \<Rightarrow> 64 word \<Rightarrow> nat \<Rightarrow> byte list \<Rightarrow> tmpfs \<Rightarrow> (tmpfs \<times> byte list) res" where
  "read_loop 0 nd target pg offset copy_index buffer t = Inr (t, buffer)"
| "read_loop (Suc bytes) nd target pg offset copy_index buffer t =
     bindR (data_page t target pg) (\<lambda>p.
     bindR (deref (pages t) p) (\<lambda>d.
       if length d \<le> unat offset \<or> length buffer \<le> copy_index then Inl OutOfBounds
       else
         let buffer = buffer[copy_index := d ! unat offset]; offset = next_offset offset in
         if offset = 0 then
           bindR (if (pg + 1) div of_nat PAGES_PER_TMPFS_ENTRY = 1 then tmpfs_find_page_list_entry nd 1 t else Inr (t, target))
             (\<lambda>(t, target). read_loop bytes nd target (pg + 1) offset (Suc copy_index) buffer t)
         else read_loop bytes nd target pg offset (Suc copy_index) buffer t))"

definition first_page :: "64 word \<Rightarrow> 64 word" where
  "first_page offset = (if of_nat PAGE_SIZE < offset then offset div of_nat PAGE_SIZE else 0)"

definition tmpfs_write :: "addr \<Rightarrow> 64 word \<Rightarrow> byte list \<Rightarrow> 64 word \<Rightarrow> tmpfs vfs \<Rightarrow> (tmpfs vfs \<times> int) res" where
  "tmpfs_write v offset buffer bytes s =
     bindR (find_tmpfs_node_from_vnode v s) (\<lambda>(s, nd).
     let pg = first_page offset; offset = offset mod of_nat PAGE_SIZE in
     bindR (tmpfs_find_page_list_entry nd (unat (pg div of_nat PAGES_PER_TMPFS_ENTRY)) (fs s)) (\<lambda>(t, target).
     bindR (write_loop (unat bytes) nd target pg offset 0 buffer t) (\<lambda>t.
     bindR (modify_vnode (s\<lparr>fs := t\<rparr>) v (\<lambda>n. n\<lparr>vnode_size := vnode_size n + bytes\<rparr>)) (\<lambda>s.
       Inr (s, sint bytes)))))"

definition tmpfs_read :: "addr \<Rightarrow> 64 word \<Rightarrow> byte list \<Rightarrow> 64 word \<Rightarrow> tmpfs vfs \<Rightarrow> (tmpfs vfs \<times> byte list \<times> int) res" where
  "tmpfs_read v offset buffer bytes s =
     bindR (find_tmpfs_node_from_vnode v s) (\<lambda>(s, nd).
     let pg = first_page offset; offset = offset mod of_nat PAGE_SIZE in
     bindR (tmpfs_find_page_list_entry nd (unat (pg div of_nat PAGES_PER_TMPFS_ENTRY)) (fs s)) (\<lambda>(t, target).
     bindR (read_loop (unat bytes) nd target pg offset 0 buffer t) (\<lambda>(t, buffer).
       Inr (s\<lparr>fs := t\<rparr>, buffer, sint bytes))))"

section \<open>Removal\<close>

text \<open>
  The pointers from index \<open>i\<close> down to 1 are freed; the pointer at index 0 is not.
\<close>

fun free_pages_from :: "nat \<Rightarrow> addr list \<Rightarrow> tmpfs \<Rightarrow> tmpfs res" where
  "free_pages_from 0 ps t = Inr t"
| "free_pages_from (Suc i) ps t =
     (if length ps \<le> Suc i then Inl OutOfBounds
      else if ps ! Suc i = NULL then free_pages_from i ps t
      else bindR (deref (pages t) (ps ! Suc i)) (\<lambda>d.
             free_pages_from i ps (t\<lparr>pages := (pages t)(ps ! Suc i := None), page_heap := (ps ! Suc i, d) # page_heap t\<rparr>)))"

definition free_page_list_entry :: "addr \<Rightarrow> tmpfs \<Rightarrow> tmpfs res" where
  "free_page_list_entry e t =
     bindR (deref (page_entries t) e) (\<lambda>n.
     bindR (free_pages_from (unat (number_of_pages n)) (page_list n) t) (\<lambda>t.
       Inr (t\<lparr>page_entries := (page_entries t)(e := None), entry_heap := e # entry_heap t\<rparr>)))"

text \<open>The loop over the entries: the node of the list is read again after it has been freed.\<close>

fun remove_entries :: "nat \<Rightarrow> addr \<Rightarrow> dll \<Rightarrow> tmpfs \<Rightarrow> (tmpfs \<times> dll) res" where
  "remove_entries 0 d_head l t = Inr (t, l)"
| "remove_entries (Suc num) d_head l t =
     bindR (deref (dnodes (page_lists t)) d_head) (\<lambda>h.
     bindR (free_page_list_entry (ddata h) t) (\<lambda>t.
     bindR (doubly_linked_list_remove_head (page_lists t) l) (\<lambda>(dm, l).
     bindR (deref (dnodes dm) d_head) (\<lambda>h. remove_entries num (dnext h) l (t\<lparr>page_lists := dm\<rparr>)))))"

definition tmpfs_remove_all_data_pages :: "addr \<Rightarrow> tmpfs \<Rightarrow> tmpfs res" where
  "tmpfs_remove_all_data_pages nd t =
     bindR (get_tnode t nd) (\<lambda>n.
       case node_data n of
         No_data \<Rightarrow> Inl NullDeref
       | Directory_entries _ \<Rightarrow> Inl Unmodelled
       | Page_list l \<Rightarrow>
           bindR (remove_entries (unat (tmpfs_node_size n div (of_nat (PAGE_SIZE * PAGES_PER_TMPFS_ENTRY)) + 1)) (dhead l) l t) (\<lambda>(t, _).
             modify_tnode t nd (\<lambda>n. n\<lparr>node_data := No_data\<rparr>)))"

definition remove_from_tree :: "addr \<Rightarrow> tmpfs \<Rightarrow> tmpfs res" where
  "remove_from_tree nd t =
     bindR (get_tnode t nd) (\<lambda>n.
     bindR (deref (superblocks t) (superblock n)) (\<lambda>b.
     bindR (remove_tree_node (node_trees t) (node_tree b) (tmpfs_node_number n) nd NULL) (\<lambda>(m, tr, _).
       Inr (t\<lparr>node_trees := m, superblocks := (superblocks t)(superblock n \<mapsto> b\<lparr>node_tree := tr\<rparr>)\<rparr>))))"

definition free_number :: "addr \<Rightarrow> tmpfs \<Rightarrow> tmpfs res" where
  "free_number nd t = bindR (get_tnode t nd) (\<lambda>n. tmpfs_node_bitmap_free (tmpfs_node_number n) t)"

definition tmpfs_delete_reg_file :: "addr \<Rightarrow> tmpfs \<Rightarrow> tmpfs res" where
  "tmpfs_delete_reg_file nd t =
     bindR (tmpfs_remove_all_data_pages nd t) (\<lambda>t. bindR (remove_from_tree nd t) (free_number nd))"

text \<open>
  The loop of the deletion of a directory, at entry \<open>i\<close>: it takes the directory itself out of the tree, once for each
  entry, and then deletes the entry. The fuel bounds the entries and directories visited; there are no more than twice
  as many as node numbers.
\<close>

fun delete_from :: "nat \<Rightarrow> addr \<Rightarrow> nat \<Rightarrow> tmpfs \<Rightarrow> tmpfs res" where
  "delete_from 0 nd i t = Inl Unmodelled"
| "delete_from (Suc fuel) nd i t =
     bindR (get_tnode t nd) (\<lambda>n.
       if unat (tmpfs_node_size n) \<le> i then Inr t
       else bindR (entries_of n) (\<lambda>es.
         if length es \<le> i then Inl OutOfBounds
         else bindR (remove_from_tree nd t) (\<lambda>t.
              bindR (free_number nd t) (\<lambda>t.
              bindR (get_tnode t (es ! i)) (\<lambda>c.
              bindR (if ucast (node_type c) = VNODE_DIRECTORY then delete_from fuel (es ! i) 0 t
                     else if ucast (node_type c) = VNODE_FILE then tmpfs_delete_reg_file (es ! i) t
                     else Inl (Panic ''tmpfs_delete_directory_recursively: invalid node type'')) (\<lambda>t.
                delete_from fuel nd (Suc i) t))))))"

definition tmpfs_delete_directory_recursively :: "addr \<Rightarrow> tmpfs \<Rightarrow> tmpfs res" where
  "tmpfs_delete_directory_recursively nd t = delete_from (2 * 8 * PAGE_SIZE) nd 0 t"

text \<open>
  The search for the entry of the node: the pointer taken from the first entry is advanced by the size of a node, 192
  bytes, in each turn, and the array is not read again. The index is followed up to the end of the array; behind it
  the search writes outside of the array, panics at NULL or does not end, which is not modelled further.
\<close>

fun dirent_walk :: "nat \<Rightarrow> 64 word \<Rightarrow> 64 word \<Rightarrow> nat \<Rightarrow> nat res" where
  "dirent_walk 0 current_node node_to_remove i = Inl Unmodelled"
| "dirent_walk (Suc k) current_node node_to_remove i =
     (if current_node = 0 then Inl (Panic ''tmpfs_remove_dirent_in_parent_directory: node not found , invalid state'')
      else if current_node = node_to_remove then Inr i
      else dirent_walk k (current_node + 192) node_to_remove (Suc i))"

definition tmpfs_remove_dirent_in_parent_directory :: "addr \<Rightarrow> tmpfs \<Rightarrow> tmpfs res" where
  "tmpfs_remove_dirent_in_parent_directory nd t =
     bindR (get_tnode t nd) (\<lambda>n.
     bindR (get_tnode t (parent_tmpfs_node n)) (\<lambda>p.
     bindR (entries_of p) (\<lambda>es.
       if es = [] then Inl OutOfBounds
       else bindR (dirent_walk (length es) (of_nat (es ! 0)) (of_nat nd) 0) (\<lambda>i.
         let es = es[i := NULL]; j = unat (tmpfs_node_size p - 1) in
         if length es \<le> j then Inl OutOfBounds
         else modify_tnode t (parent_tmpfs_node n)
                (\<lambda>p. p\<lparr>node_data := Directory_entries (es[i := es ! j]), tmpfs_node_size := tmpfs_node_size p - 1\<rparr>)))))"

definition kfree_node :: "addr \<Rightarrow> tmpfs \<Rightarrow> tmpfs res" where
  "kfree_node nd t = bindR (get_tnode t nd) (\<lambda>_.
     Inr (t\<lparr>tmpfs_nodes := (tmpfs_nodes t)(nd := None), node_heap := nd # node_heap t\<rparr>))"

section \<open>Operations on vnodes\<close>

definition lift_fs :: "('f \<Rightarrow> 'f res) \<Rightarrow> 'f vfs \<Rightarrow> 'f vfs res" where
  "lift_fs f s = bindR (f (fs s)) (\<lambda>t. Inr (s\<lparr>fs := t\<rparr>))"

definition tmpfs_remove :: "addr \<Rightarrow> tmpfs vfs \<Rightarrow> tmpfs vfs res" where
  "tmpfs_remove v s =
     bindR (find_tmpfs_node_from_vnode v s) (\<lambda>(s, nd).
     bindR (get_vnode s v) (\<lambda>n.
       let finish = lift_fs (\<lambda>t. bindR (tmpfs_remove_dirent_in_parent_directory nd t) (kfree_node nd)) in
       if vnode_type n = VNODE_FILE then bindR (lift_fs (tmpfs_delete_reg_file nd) s) finish
       else if vnode_type n = VNODE_DIRECTORY then bindR (lift_fs (tmpfs_delete_directory_recursively nd) s) finish
       else if vnode_type n = VNODE_SYM_LINK then
         bindR (get_tnode (fs s) nd) (\<lambda>k. if node_data k = No_data then finish s else Inl Unmodelled)
       else Inl (Panic ''tmpfs_remove: unknown vnode type'')))"

definition tmpfs_lookup :: "addr \<Rightarrow> byte list \<Rightarrow> tmpfs vfs \<Rightarrow> (tmpfs vfs \<times> addr) res" where
  "tmpfs_lookup v name s =
     bindR (get_vnode s v) (\<lambda>n.
       if is_cached n \<and> vnode_flags n AND VNODE_CHILD_MEMORY_ALLOCATED \<noteq> 0 then
         Inl (Panic ''tmpfs_lookup: vnode is cached already'')
       else bindR (find_tmpfs_node_from_vnode v s) (\<lambda>(s, nd).
            bindR (tmpfs_find_child nd name (fs s)) (\<lambda>_.
            bindR (get_tnode (fs s) nd) (\<lambda>k.
            bindR (if tmpfs_node_size k = 0 then Inr [] else entries_of k) (\<lambda>es.
            bindR (insert_tmpfs_children_nodes_into_vnode_children v es (tmpfs_node_size k) name s) (\<lambda>(s, child).
            bindR (modify_vnode s v (\<lambda>n. n\<lparr>num_children := ucast (tmpfs_node_size k)\<rparr>)) (\<lambda>s.
              Inr (s, child))))))))"

definition tmpfs_create :: "addr \<Rightarrow> byte list \<Rightarrow> 8 word \<Rightarrow> tmpfs vfs \<Rightarrow> (tmpfs vfs \<times> addr) res" where
  "tmpfs_create parent_vnode name ty s =
     bindR (find_tmpfs_node_from_vnode parent_vnode s) (\<lambda>(s, pn).
     bindR (conjure_new_tmpfs_node name ty (fs s)) (\<lambda>(t, child).
     bindR (tmpfs_node_bitmap_get t) (\<lambda>(t, number).
     bindR (get_tnode t pn) (\<lambda>p.
     bindR (modify_tnode t child (\<lambda>c. c\<lparr>tmpfs_node_number := number, parent_tmpfs_node := pn, superblock := superblock p\<rparr>)) (\<lambda>t.
     bindR (deref (superblocks t) (superblock p)) (\<lambda>b.
     bindR (insert_tree_node (node_trees t) (node_tree b) child number) (\<lambda>(m, tr, _).
     bindR (insert_tmpfs_node_into_parent_directory_entries child
              (t\<lparr>node_trees := m, superblocks := (superblocks t)(superblock p \<mapsto>
                  b\<lparr>node_tree := tr, tmpfs_node_count := tmpfs_node_count b + 1\<rparr>)\<rparr>)) (\<lambda>t.
       tmpfs_node_to_vnode child (s\<lparr>fs := t\<rparr>)))))))))"

definition tmpfs_rename :: "addr \<Rightarrow> byte list \<Rightarrow> tmpfs vfs \<Rightarrow> tmpfs vfs res" where
  "tmpfs_rename v name s =
     bindR (find_tmpfs_node_from_vnode v s) (\<lambda>(s, nd).
     bindR (get_tnode (fs s) nd) (\<lambda>n.
     bindR (safe_strcpy (node_name n) 0 name VFS_MAX_NAME_LENGTH) (\<lambda>nm.
       lift_fs (\<lambda>t. modify_tnode t nd (\<lambda>n. n\<lparr>node_name := nm\<rparr>)) s)))"

definition tmpfs_link :: "addr \<Rightarrow> addr \<Rightarrow> 8 word \<Rightarrow> addr" where
  "tmpfs_link v new_vnode ty = NULL"

definition tmpfs_unlink :: "addr \<Rightarrow> tmpfs vfs \<Rightarrow> tmpfs vfs res" where
  "tmpfs_unlink v s = Inr s"

definition tmpfs_open :: "addr \<Rightarrow> int" where
  "tmpfs_open v = 0"

definition tmpfs_close :: "addr \<Rightarrow> 64 word \<Rightarrow> tmpfs vfs \<Rightarrow> tmpfs vfs res" where
  "tmpfs_close v handle s = Inr s"

definition tmpfs_ops :: "tmpfs vfs vnode_operations" where
  "tmpfs_ops = \<lparr>op_lookup = tmpfs_lookup, op_create = tmpfs_create, op_remove = tmpfs_remove, op_rename = tmpfs_rename,
     op_write = tmpfs_write, op_read = tmpfs_read, op_unlink = tmpfs_unlink, op_close = tmpfs_close\<rparr>"

section \<open>Kernel messages and the creation of the file system\<close>

definition log_kernel_message :: "tmpfs fs_table \<Rightarrow> byte list \<Rightarrow> tmpfs vfs \<Rightarrow> tmpfs vfs res" where
  "log_kernel_message T message s =
     (if procfs_online (fs s) then
        bindR (strlen message) (\<lambda>len.
        bindR (get_vnode s (kernel_message (fs s))) (\<lambda>n.
        bindR (vnode_write T (kernel_message (fs s)) (vnode_size n) (of_nat len) message s) (\<lambda>(s, _). Inr s)))
      else Inr s)"

definition set_cached :: "addr \<Rightarrow> 'f vfs \<Rightarrow> 'f vfs res" where
  "set_cached v s = modify_vnode s v (\<lambda>n. n\<lparr>is_cached := True\<rparr>)"

text \<open>The root node and its vnode.\<close>

definition tmpfs_make_root :: "addr \<Rightarrow> tmpfs vfs \<Rightarrow> (tmpfs vfs \<times> addr) res" where
  "tmpfs_make_root sb s =
     (case (node_heap (fs s), context_heap (fs s)) of
        (rt # nh, context # ch) \<Rightarrow>
          bindR (deref (superblocks (fs s)) sb) (\<lambda>b.
          bindR (init_tree (node_trees (fs s)) (node_tree b) REGULAR_TREE) (\<lambda>(m, tr, _).
          bindR (tmpfs_node_bitmap_get ((fs s)\<lparr>node_heap := nh, context_heap := ch, contexts := (contexts (fs s))(context \<mapsto> sb)\<rparr>)) (\<lambda>(t, number).
          bindR (insert_tree_node m tr rt number) (\<lambda>(m, tr, _).
          bindR (safe_strcpy (replicate VFS_MAX_NAME_LENGTH 0) 0 (c_bytes ''tmpfs'') VFS_MAX_NAME_LENGTH) (\<lambda>nm.
            tmpfs_node_to_vnode rt (s\<lparr>fs := t\<lparr>node_trees := m,
              superblocks := (superblocks t)(sb \<mapsto> b\<lparr>filesystem := context, node_tree := tr, magic := TMPFS_MAGIC, tmpfs_node_count := 1\<rparr>),
              tmpfs_nodes := (tmpfs_nodes t)(rt \<mapsto> \<lparr>superblock = sb, parent_tmpfs_node = NULL, node_name = nm, tmpfs_node_number = number,
                tmpfs_node_size = 0, node_type = 0, node_data = Directory_entries (replicate VNODE_MAX_DIRECTORY_ENTRIES NULL)\<rparr>)\<rparr>\<rparr>))))))
      | _ \<Rightarrow> Inl NullDeref)"

text \<open>
  \<^verbatim>\<open>tmpfs_mkfs\<close>; \<open>depth\<close> is the fuel for the canonical path of the new directory \<^verbatim>\<open>procfs\<close>, and a path that does not end
  is not modelled further. The check of the identifier lets the length of the array pass.
\<close>

definition tmpfs_mkfs :: "nat \<Rightarrow> tmpfs fs_table \<Rightarrow> 64 word \<Rightarrow> byte list \<Rightarrow> tmpfs vfs \<Rightarrow> tmpfs vfs res" where
  "tmpfs_mkfs depth T filesystem_id directory_to_mount_onto s =
     (if TMPFS_NUM_SUPERBLOCKS < filesystem_id then Inr s
      else bindR (vnode_lookup T directory_to_mount_onto s) (\<lambda>(s, vnode_to_be_mounted).
        if vnode_to_be_mounted = NULL then Inr s
        else if filesystem_id = TMPFS_NUM_SUPERBLOCKS then Inl OutOfBounds
        else bindR (tmpfs_make_root (unat filesystem_id + 1) s) (\<lambda>(s, tmpfs_root).
             bindR (vnode_mount vnode_to_be_mounted tmpfs_root s) (\<lambda>(s, _).
             bindR (set_cached vnode_to_be_mounted s) (\<lambda>s.
             bindR (vnode_create T directory_to_mount_onto (c_bytes ''procfs'') 0 s) (\<lambda>(s, procfs).
             bindR (set_cached procfs s) (\<lambda>s.
             bindR (vnode_get_canonical_path depth procfs s) (\<lambda>pth. case pth of None \<Rightarrow> Inl Unmodelled
             | Some pth \<Rightarrow>
             bindR (vnode_create T pth (c_bytes ''sched'') 0 s) (\<lambda>(s, sched).
             bindR (vnode_create T pth (c_bytes ''kernel_messages'') 1 s) (\<lambda>(s, kernel_messages).
             bindR (vnode_create T directory_to_mount_onto (c_bytes ''tmp'') 0 s) (\<lambda>(s, tmp).
             bindR (set_cached tmpfs_root s) (\<lambda>s.
             bindR (set_cached sched s) (\<lambda>s.
             bindR (set_cached procfs s) (\<lambda>s.
             bindR (set_cached tmp s) (\<lambda>s.
               log_kernel_message T (c_bytes ''Tmpfs initialized.\<newline>'')
                 (s\<lparr>fs := (fs s)\<lparr>procfs_root := procfs, kernel_message := kernel_messages, procfs_online := True\<rparr>\<rparr>))))))))))))))))"

end
