(* ===== verification/Tmpfs_Files.thy ===== *)
theory Tmpfs_Files
  imports Tmpfs
begin

text \<open>
  The contents of tmpfs files. All pages of the first 4 MB of a file are the one page that \<^verbatim>\<open>page_list[0]\<close> names,
  because the index is the page number divided by the pages of an entry; the theorems say what a write and a read
  do in terms of that page, when a read gives back what was written, and what becomes of the sizes.
\<close>

section \<open>The page of a file\<close>

text \<open>
  \<open>file_parts t nd n l e en p\<close>: the file node \<open>n\<close> at \<open>nd\<close> has the page list \<open>l\<close>, whose first entry \<open>en\<close> at \<open>e\<close> starts with the page \<open>p\<close>.
  \<open>file_state\<close> is \<open>t\<close> with another size of the node, another number of pages of the entry and other contents of the page.
\<close>

definition file_parts :: "tmpfs \<Rightarrow> addr \<Rightarrow> tmpfs_node \<Rightarrow> dll \<Rightarrow> addr \<Rightarrow> tmpfs_page_list_entry \<Rightarrow> addr \<Rightarrow> bool" where
  "file_parts t nd n l e en p \<longleftrightarrow> nd \<noteq> NULL \<and> tmpfs_nodes t nd = Some n \<and> node_data n = Page_list l \<and>
     (\<exists>h. deref (dnodes (page_lists t)) (dhead l) = Inr h \<and> ddata h = e) \<and> e \<noteq> NULL \<and> page_entries t e = Some en \<and>
     (\<exists>ps. page_list en = p # ps) \<and> p \<noteq> NULL"

definition file_state ::
  "tmpfs \<Rightarrow> addr \<Rightarrow> tmpfs_node \<Rightarrow> addr \<Rightarrow> tmpfs_page_list_entry \<Rightarrow> addr \<Rightarrow> 64 word \<Rightarrow> 64 word \<Rightarrow> byte list \<Rightarrow> tmpfs" where
  "file_state t nd n e en p sz z d = t\<lparr>tmpfs_nodes := (tmpfs_nodes t)(nd \<mapsto> n\<lparr>tmpfs_node_size := sz\<rparr>),
     page_entries := (page_entries t)(e \<mapsto> en\<lparr>number_of_pages := z\<rparr>), pages := (pages t)(p \<mapsto> d)\<rparr>"

text \<open>Writing and reading around the one page, and the size after the bytes at \<open>x\<close>, \<open>x + 1\<close>, ... have been written.\<close>

fun wrap_write :: "byte list \<Rightarrow> nat \<Rightarrow> byte list \<Rightarrow> byte list" where
  "wrap_write d x [] = d"
| "wrap_write d x (b # bs) = wrap_write (d[x mod PAGE_SIZE := b]) (Suc x) bs"

definition wrap_read :: "byte list \<Rightarrow> nat \<Rightarrow> nat \<Rightarrow> byte list" where
  "wrap_read d x n = map (\<lambda>i. d ! ((x + i) mod PAGE_SIZE)) [0..<n]"

definition byte_end :: "nat \<Rightarrow> nat" where
  "byte_end x = (if Suc x mod PAGE_SIZE = 0 then Suc x - PAGE_SIZE else Suc x)"

fun grown :: "64 word \<Rightarrow> nat \<Rightarrow> nat \<Rightarrow> 64 word" where
  "grown sz x 0 = sz"
| "grown sz x (Suc k) = grown (max sz (of_nat (byte_end x))) (Suc x) k"

definition start_of :: "64 word \<Rightarrow> nat" where
  "start_of offset = (if offset = of_nat PAGE_SIZE then 0 else unat offset)"

lemma length_wrap_write [simp]: "length (wrap_write d x bs) = length d"
  by (induction d x bs rule: wrap_write.induct) auto

section \<open>Arithmetic of positions\<close>

lemma of_nat_small: "x < 2 ^ 22 \<Longrightarrow> unat (of_nat x :: 64 word) = x"
  by (simp add: unat_of_nat)

lemma position_div: "x < 2 ^ 22 \<Longrightarrow> (of_nat (x div PAGE_SIZE) :: 64 word) div of_nat PAGES_PER_TMPFS_ENTRY = 0"
proof -
  assume "x < 2 ^ 22"
  moreover have "x div PAGE_SIZE \<le> x" by simp
  ultimately have "unat (of_nat (x div PAGE_SIZE) :: 64 word) = x div PAGE_SIZE" "x div PAGE_SIZE < 1024"
    by (auto intro!: of_nat_small)
  then show ?thesis by (simp add: word_unat_eq_iff unat_div)
qed

lemma position_offset: "unat (of_nat (x mod PAGE_SIZE) :: 64 word) = x mod PAGE_SIZE"
proof -
  have "x mod PAGE_SIZE < PAGE_SIZE" by simp
  then show ?thesis by (intro of_nat_small) simp
qed

lemma of_nat_inj_small: "a < 2 ^ 22 \<Longrightarrow> b < 2 ^ 22 \<Longrightarrow> (of_nat a :: 64 word) = of_nat b \<longleftrightarrow> a = b"
  by (metis of_nat_small)

lemma position_next:
  "next_offset (of_nat (x mod PAGE_SIZE)) = of_nat (Suc x mod PAGE_SIZE)"
proof -
  have "x mod PAGE_SIZE < PAGE_SIZE" by simp
  then have "(of_nat (Suc (x mod PAGE_SIZE)) :: 64 word) = of_nat PAGE_SIZE \<longleftrightarrow> Suc (x mod PAGE_SIZE) = PAGE_SIZE"
    by (intro of_nat_inj_small) auto
  then show ?thesis unfolding next_offset_def mod_Suc by (auto simp: add.commute)
qed

lemma position_offset_zero: "(of_nat (x mod PAGE_SIZE) :: 64 word) = 0 \<longleftrightarrow> x mod PAGE_SIZE = 0"
proof -
  have "x mod PAGE_SIZE < PAGE_SIZE" by simp
  then have "(of_nat (x mod PAGE_SIZE) :: 64 word) = of_nat 0 \<longleftrightarrow> x mod PAGE_SIZE = 0"
    by (intro of_nat_inj_small) auto
  then show ?thesis by simp
qed

lemma position_page_end:
  "of_nat (x div PAGE_SIZE) * of_nat PAGE_SIZE + of_nat (Suc x mod PAGE_SIZE) = (of_nat (byte_end x) :: 64 word)"
proof -
  have "x div PAGE_SIZE * PAGE_SIZE + Suc x mod PAGE_SIZE = byte_end x"
  proof -
    define q r where "q = x div PAGE_SIZE" and "r = x mod PAGE_SIZE"
    have "x = q * PAGE_SIZE + r" by (simp add: q_def r_def)
    then show ?thesis unfolding byte_end_def mod_Suc [of x] q_def [symmetric] r_def [symmetric] by simp
  qed
  then show ?thesis by (metis of_nat_add of_nat_mult)
qed

lemma position_page: 
  "Suc x mod PAGE_SIZE = 0 \<Longrightarrow> (of_nat (x div PAGE_SIZE) :: 64 word) + 1 = of_nat (Suc x div PAGE_SIZE)"
  "Suc x mod PAGE_SIZE \<noteq> 0 \<Longrightarrow> x div PAGE_SIZE = Suc x div PAGE_SIZE"
  by (simp_all add: div_Suc add.commute)

section \<open>The loops\<close>

lemma file_state_parts:
  assumes "file_parts t nd n l e en p"
  shows "file_parts (file_state t nd n e en p sz z d) nd (n\<lparr>tmpfs_node_size := sz\<rparr>) l e (en\<lparr>number_of_pages := z\<rparr>) p"
    "file_state (file_state t nd n e en p sz z d) nd (n\<lparr>tmpfs_node_size := sz\<rparr>) e (en\<lparr>number_of_pages := z\<rparr>) p sz' z' d' =
       file_state t nd n e en p sz' z' d'"
  using assms by (auto simp: file_parts_def file_state_def)

lemma file_entry:
  assumes "file_parts t nd n l e en p"
  shows "tmpfs_find_page_list_entry nd 0 t = Inr (t, e)"
  using assms by (auto simp: file_parts_def tmpfs_find_page_list_entry_def get_tnode_def deref_eq_Inr)

lemma file_data_page:
  assumes "file_parts t nd n l e en p" "x < 2 ^ 22"
  shows "data_page t e (of_nat (x div PAGE_SIZE)) = Inr p"
proof -
  have "unat ((of_nat (x div PAGE_SIZE) :: 64 word) div of_nat PAGES_PER_TMPFS_ENTRY) = 0"
    by (subst position_div [OF assms(2)]) simp
  then show ?thesis using assms(1) unfolding data_page_def file_parts_def by auto
qed

lemma file_grow:
  assumes "file_parts t nd n l e en p"
  shows "\<exists>b. grow_node nd w (file_state t nd n e en p sz z d) = Inr (file_state t nd n e en p (max sz w) z d, b)"
  using assms by (auto simp: grow_node_def file_parts_def file_state_def get_tnode_def modify_tnode_def max_def)

text \<open>The steps at the end of a page in the loop of a write.\<close>

lemma file_count_page:
  assumes "file_parts t nd n l e en p"
  shows "bindR (modify (page_entries (file_state t nd n e en p sz z d)) e (\<lambda>e. e\<lparr>number_of_pages := number_of_pages e + 1\<rparr>))
      (\<lambda>m. Inr ((file_state t nd n e en p sz z d)\<lparr>page_entries := m\<rparr>)) = Inr (file_state t nd n e en p sz (z + 1) d)"
  using assms by (simp add: file_parts_def file_state_def)

lemma write_loop_step:
  assumes "data_page t e pg = Inr p" "c < length buffer" "buffer ! c \<noteq> 0" "deref (pages t) p = Inr d" "unat off < length d"
    and "next_offset off = off'" "pg * of_nat PAGE_SIZE + off' = w"
    and "grow_node nd w (t\<lparr>pages := (pages t)(p \<mapsto> d[unat off := buffer ! c])\<rparr>) = Inr (t', g)"
  shows "off' \<noteq> 0 \<Longrightarrow> write_loop (Suc k) nd e pg off c buffer t = write_loop k nd e pg off' (Suc c) buffer t'"
    and "off' = 0 \<Longrightarrow> (pg + 1) div of_nat PAGES_PER_TMPFS_ENTRY \<noteq> 0 \<or> tmpfs_find_page_list_entry nd 0 t'' = Inr (t'', e) \<Longrightarrow>
      (if g then bindR (modify (page_entries t') e (\<lambda>e. e\<lparr>number_of_pages := number_of_pages e + 1\<rparr>))
                        (\<lambda>m. Inr (t'\<lparr>page_entries := m\<rparr>)) else Inr t') = Inr t'' \<Longrightarrow>
      write_loop (Suc k) nd e pg off c buffer t = write_loop k nd e (pg + 1) off' (Suc c) buffer t''"
  using assms by (auto simp: Let_def)

lemma write_loop_ok:
  assumes "file_parts t nd n l e en p" and "length d = PAGE_SIZE" and "x + k \<le> 2 ^ 22" and "c + k \<le> length buffer"
    and "\<forall>i<k. buffer ! (c + i) \<noteq> 0"
  shows "\<exists>z'. write_loop k nd e (of_nat (x div PAGE_SIZE)) (of_nat (x mod PAGE_SIZE)) c buffer (file_state t nd n e en p sz z d) =
    Inr (file_state t nd n e en p (grown sz x k) z' (wrap_write d x (take k (drop c buffer))))"
  using assms(2-)
proof (induction k arbitrary: sz z d x c)
  case 0
  then show ?case by (auto intro: exI [of _ z])
next
  case (Suc k)
  note parts = assms(1) file_state_parts(1) [OF assms(1)]
  let ?b = "buffer ! c" and ?d = "d[x mod PAGE_SIZE := buffer ! c]"
  have x: "x < 2 ^ 22" "Suc x + k \<le> 2 ^ 22" "length ?d = PAGE_SIZE" "Suc c + k \<le> length buffer" "c < length buffer"
    using Suc.prems by auto
  have b: "?b \<noteq> 0" "\<forall>i<k. buffer ! (Suc c + i) \<noteq> 0" using Suc.prems(4) by (auto dest: spec [of _ 0] spec [of _ "Suc _"])
  have dr: "take (Suc k) (drop c buffer) = ?b # take k (drop (Suc c) buffer)"
    using x(5) by (simp add: Cons_nth_drop_Suc [symmetric])
  let ?s = "\<lambda>z. file_state t nd n e en p (max sz (of_nat (byte_end x))) z ?d"
  obtain g where g: "grow_node nd (of_nat (byte_end x)) (file_state t nd n e en p sz z ?d) = Inr (?s z, g)"
    using file_grow [OF assms(1)] by blast
  have pg: "deref (pages (file_state t nd n e en p sz z d)) p = Inr d" and
    upd: "(file_state t nd n e en p sz z d)\<lparr>pages := (pages (file_state t nd n e en p sz z d))(p \<mapsto> ?d)\<rparr> = file_state t nd n e en p sz z ?d"
    using assms(1) by (auto simp: file_state_def file_parts_def)
  have off: "unat (of_nat (x mod PAGE_SIZE) :: 64 word) < length d" using Suc.prems(1) unfolding position_offset by simp
  note step = write_loop_step [OF file_data_page [OF parts(2) x(1)] x(5) b(1) pg off position_next position_page_end, unfolded position_offset upd, OF g]
  note IH = Suc.IH [OF x(3) x(2) x(4) b(2)]
  show ?case
  proof (cases "Suc x mod PAGE_SIZE = 0")
    case False
    have "write_loop (Suc k) nd e (of_nat (x div PAGE_SIZE)) (of_nat (x mod PAGE_SIZE)) c buffer (file_state t nd n e en p sz z d) =
      write_loop k nd e (of_nat (Suc x div PAGE_SIZE)) (of_nat (Suc x mod PAGE_SIZE)) (Suc c) buffer (?s z)"
      using step(1) [of k] False unfolding position_offset_zero position_page(2) [OF False] by blast
    then show ?thesis using IH [of "max sz (of_nat (byte_end x))" z] dr by (simp only: grown.simps wrap_write.simps)
  next
    case True
    let ?z = "if g then z + 1 else z"
    have "(if g then bindR (modify (page_entries (?s z)) e (\<lambda>e. e\<lparr>number_of_pages := number_of_pages e + 1\<rparr>))
      (\<lambda>m. Inr ((?s z)\<lparr>page_entries := m\<rparr>)) else Inr (?s z)) = Inr (?s ?z)"
      using file_count_page [OF assms(1)] by simp
    then have "write_loop (Suc k) nd e (of_nat (x div PAGE_SIZE)) (of_nat (x mod PAGE_SIZE)) c buffer (file_state t nd n e en p sz z d) =
      write_loop k nd e (of_nat (Suc x div PAGE_SIZE)) (of_nat (Suc x mod PAGE_SIZE)) (Suc c) buffer (?s ?z)"
      using step(2) [of "?s ?z" k] True file_entry [OF parts(2)] unfolding position_offset_zero position_page(1) [OF True] by blast
    then show ?thesis using IH [of "max sz (of_nat (byte_end x))" ?z] dr by (simp only: grown.simps wrap_write.simps)
  qed
qed

text \<open>A read of bytes that lie in the first 4 MB changes nothing.\<close>

lemma read_loop_step:
  assumes "data_page t e pg = Inr p" "c < length buffer" "deref (pages t) p = Inr d" "unat off < length d" "next_offset off = off'"
  shows "off' \<noteq> 0 \<Longrightarrow> read_loop (Suc k) nd e pg off c buffer t = read_loop k nd e pg off' (Suc c) (buffer[c := d ! unat off]) t"
    and "off' = 0 \<Longrightarrow> (pg + 1) div of_nat PAGES_PER_TMPFS_ENTRY \<noteq> 1 \<Longrightarrow>
      read_loop (Suc k) nd e pg off c buffer t = read_loop k nd e (pg + 1) off' (Suc c) (buffer[c := d ! unat off]) t"
  using assms by (auto simp: Let_def)

lemma read_loop_ok:
  assumes "file_parts t nd n l e en p" and "pages t p = Some d" "length d = PAGE_SIZE" and "x + k < 2 ^ 22" and "c + k \<le> length buffer"
  shows "read_loop k nd e (of_nat (x div PAGE_SIZE)) (of_nat (x mod PAGE_SIZE)) c buffer t = Inr (t, overwrite buffer c (wrap_read d x k))"
  using assms(4-)
proof (induction k arbitrary: x c buffer)
  case 0
  then show ?case by (simp add: wrap_read_def overwrite_def)
next
  case (Suc k)
  let ?b = "buffer[c := d ! (x mod PAGE_SIZE)]"
  have x: "x < 2 ^ 22" "Suc x + k < 2 ^ 22" "Suc c + k \<le> length ?b" "c < length buffer" "Suc x < 2 ^ 22" using Suc.prems by auto
  have p: "deref (pages t) p = Inr d" using assms(1,2) by (auto simp: file_parts_def)
  have off: "unat (of_nat (x mod PAGE_SIZE) :: 64 word) < length d" using assms(3) unfolding position_offset by simp
  note step = read_loop_step [OF file_data_page [OF assms(1) x(1)] x(4) p off position_next, unfolded position_offset]
  have "read_loop (Suc k) nd e (of_nat (x div PAGE_SIZE)) (of_nat (x mod PAGE_SIZE)) c buffer t =
      read_loop k nd e (of_nat (Suc x div PAGE_SIZE)) (of_nat (Suc x mod PAGE_SIZE)) (Suc c) ?b t"
  proof (cases "Suc x mod PAGE_SIZE = 0")
    case False
    then show ?thesis using step(1) [of k nd] unfolding position_offset_zero position_page(2) [OF False] by blast
  next
    case True
    then show ?thesis using step(2) [of k nd] position_div [OF x(5)] unfolding position_offset_zero position_page(1) [OF True]
      by simp
  qed
  also have "\<dots> = Inr (t, overwrite ?b (Suc c) (wrap_read d (Suc x) k))" by (rule Suc.IH [OF x(2,3)])
  also have "overwrite ?b (Suc c) (wrap_read d (Suc x) k) = overwrite buffer c (wrap_read d x (Suc k))"
  proof -
    have "wrap_read d x (Suc k) = d ! (x mod PAGE_SIZE) # wrap_read d (Suc x) k"
      unfolding wrap_read_def by (subst upt_conv_Cons) (simp_all add: map_Suc_upt [symmetric] del: upt_Suc map_Suc_upt)
    then show ?thesis using x(4) by (simp add: overwrite_def take_Suc_conv_app_nth drop_update_swap)
  qed
  finally show ?case .
qed

section \<open>Writing and reading\<close>

text \<open>The vnode \<open>v\<close> stands for a file that has a page.\<close>

definition tmpfs_file :: "tmpfs vfs \<Rightarrow> addr \<Rightarrow> vnode \<Rightarrow> addr \<Rightarrow> tmpfs_node \<Rightarrow> dll \<Rightarrow> addr \<Rightarrow> tmpfs_page_list_entry \<Rightarrow> addr \<Rightarrow> byte list \<Rightarrow> bool" where
  "tmpfs_file s v vn nd n l e en p d \<longleftrightarrow> get_vnode s v = Inr vn \<and> find_tmpfs_node_from_vnode v s = Inr (s, nd) \<and>
     file_parts (fs s) nd n l e en p \<and> pages (fs s) p = Some d \<and> length d = PAGE_SIZE"

definition file_written :: "tmpfs vfs \<Rightarrow> addr \<Rightarrow> vnode \<Rightarrow> tmpfs \<Rightarrow> 64 word \<Rightarrow> tmpfs vfs" where
  "file_written s v vn t bytes = s\<lparr>fs := t, vnodes := (vnodes s)(v \<mapsto> vn\<lparr>vnode_size := vnode_size vn + bytes\<rparr>)\<rparr>"

lemma of_nat_unat_id: "of_nat (unat w) = (w :: 64 word)"
  by simp

lemma start_position:
  assumes "start_of off < 2 ^ 22"
  shows "first_page off = of_nat (start_of off div PAGE_SIZE)" "off mod of_nat PAGE_SIZE = of_nat (start_of off mod PAGE_SIZE)"
proof -
  have u: "unat (of_nat PAGE_SIZE :: 64 word) = PAGE_SIZE" by (rule of_nat_small) simp
  have dm: "of_nat (unat off div PAGE_SIZE) = off div of_nat PAGE_SIZE" "of_nat (unat off mod PAGE_SIZE) = off mod of_nat PAGE_SIZE"
    using unat_div [of off "of_nat PAGE_SIZE"] unat_mod [of off "of_nat PAGE_SIZE"] u by (metis of_nat_unat_id)+
  show "first_page off = of_nat (start_of off div PAGE_SIZE)"
  proof (cases "of_nat PAGE_SIZE < off")
    case True
    then show ?thesis unfolding first_page_def start_of_def using dm by auto
  next
    case False
    then have "unat off \<le> PAGE_SIZE" using u by (metis word_less_nat_alt not_less)
    moreover have "off \<noteq> of_nat PAGE_SIZE \<Longrightarrow> unat off \<noteq> PAGE_SIZE" using u by (metis of_nat_unat_id)
    ultimately show ?thesis using False unfolding first_page_def start_of_def by (cases "off = of_nat PAGE_SIZE") (auto simp: le_less)
  qed
  show "off mod of_nat PAGE_SIZE = of_nat (start_of off mod PAGE_SIZE)"
    using dm(2) u unfolding start_of_def by (cases "off = of_nat PAGE_SIZE") (simp_all only: if_True if_False, simp)
qed

lemma file_state_id:
  assumes "file_parts t nd n l e en p" "pages t p = Some d"
  shows "file_state t nd n e en p (tmpfs_node_size n) (number_of_pages en) d = t"
proof -
  have "(tmpfs_nodes t)(nd \<mapsto> n) = tmpfs_nodes t" "(page_entries t)(e \<mapsto> en) = page_entries t" "(pages t)(p \<mapsto> d) = pages t"
    using assms by (auto simp: file_parts_def fun_upd_idem)
  then show ?thesis by (simp add: file_state_def)
qed

lemma tmpfs_write_ok:
  assumes "tmpfs_file s v vn nd n l e en p d" "start_of off + unat bytes \<le> 2 ^ 22" "start_of off < 2 ^ 22"
    and "unat bytes \<le> length buffer" "\<forall>i<unat bytes. buffer ! i \<noteq> 0"
  shows "\<exists>z. tmpfs_write v off buffer bytes s =
    Inr (file_written s v vn (file_state (fs s) nd n e en p (grown (tmpfs_node_size n) (start_of off) (unat bytes)) z
           (wrap_write d (start_of off) (take (unat bytes) buffer))) bytes, sint bytes)"
proof -
  have s: "get_vnode s v = Inr vn" "find_tmpfs_node_from_vnode v s = Inr (s, nd)" "file_parts (fs s) nd n l e en p"
    "pages (fs s) p = Some d" "length d = PAGE_SIZE" using assms(1) by (auto simp: tmpfs_file_def)
  obtain z where "write_loop (unat bytes) nd e (of_nat (start_of off div PAGE_SIZE)) (of_nat (start_of off mod PAGE_SIZE)) 0 buffer (fs s) =
      Inr (file_state (fs s) nd n e en p (grown (tmpfs_node_size n) (start_of off) (unat bytes)) z
           (wrap_write d (start_of off) (take (unat bytes) buffer)))"
    using write_loop_ok [OF s(3,5) assms(2), of 0 buffer "tmpfs_node_size n" "number_of_pages en"] assms(4,5) file_state_id [OF s(3,4)] by auto
  then have "tmpfs_write v off buffer bytes s = bindR (modify_vnode (s\<lparr>fs := (file_state (fs s) nd n e en p (grown (tmpfs_node_size n) (start_of off) (unat bytes)) z
           (wrap_write d (start_of off) (take (unat bytes) buffer)))\<rparr>) v (\<lambda>n. n\<lparr>vnode_size := vnode_size n + bytes\<rparr>)) (\<lambda>s. Inr (s, sint bytes))"
    unfolding tmpfs_write_def s(2) Let_def bindR_Inr prod.case start_position [OF assms(3)] position_div [OF assms(3)] unat_0 file_entry [OF s(3)] by simp
  then show ?thesis using s(1) by (auto simp: modify_vnode_def get_vnode_def file_written_def modify_def)
qed

lemma tmpfs_read_ok:
  assumes "tmpfs_file s v vn nd n l e en p d" "start_of off + unat bytes < 2 ^ 22" "unat bytes \<le> length buffer"
  shows "tmpfs_read v off buffer bytes s = Inr (s, overwrite buffer 0 (wrap_read d (start_of off) (unat bytes)), sint bytes)"
proof -
  have s: "find_tmpfs_node_from_vnode v s = Inr (s, nd)" "file_parts (fs s) nd n l e en p"
    "pages (fs s) p = Some d" "length d = PAGE_SIZE" using assms(1) by (auto simp: tmpfs_file_def)
  have st: "start_of off < 2 ^ 22" using assms(2) by simp
  have "read_loop (unat bytes) nd e (of_nat (start_of off div PAGE_SIZE)) (of_nat (start_of off mod PAGE_SIZE)) 0 buffer (fs s) =
      Inr (fs s, overwrite buffer 0 (wrap_read d (start_of off) (unat bytes)))"
    using read_loop_ok [OF s(2-4) assms(2), of 0 buffer] assms(3) by simp
  then show ?thesis
    unfolding tmpfs_read_def s(1) Let_def bindR_Inr prod.case start_position [OF st] position_div [OF st] unat_0 file_entry [OF s(2)] by simp
qed

text \<open>The search for the node of a vnode depends on the tree, the superblock and the two fields of the vnode.\<close>

lemma find_node_frame:
  assumes "find_tmpfs_node_from_vnode v s = Inr (s, nd)" "get_vnode s v = Inr vn" "get_vnode s' v = Inr vn'"
    and "filesystem_object vn' = filesystem_object vn" "vnode_inode_number vn' = vnode_inode_number vn"
    and "contexts (fs s') = contexts (fs s)" "superblocks (fs s') = superblocks (fs s)" "node_trees (fs s') = node_trees (fs s)"
  shows "find_tmpfs_node_from_vnode v s' = Inr (s', nd)"
proof -
  obtain sb b m tr where f: "deref (contexts (fs s)) (filesystem_object vn) = Inr sb" "deref (superblocks (fs s)) sb = Inr b"
    "lookup_tree (node_trees (fs s)) (node_tree b) (vnode_inode_number vn) 0 = Inr (m, tr, nd)" "nd \<noteq> NULL"
    "s\<lparr>fs := (fs s)\<lparr>node_trees := m, superblocks := (superblocks (fs s))(sb \<mapsto> b\<lparr>node_tree := tr\<rparr>)\<rparr>\<rparr> = s"
    using assms(1,2) unfolding find_tmpfs_node_from_vnode_def by (auto simp: bindR_eq_Inr split: if_splits)
  have "node_trees (fs s) = m" "superblocks (fs s) = (superblocks (fs s))(sb \<mapsto> b\<lparr>node_tree := tr\<rparr>)"
    using arg_cong [OF f(5), of "\<lambda>s. node_trees (fs s)"] arg_cong [OF f(5), of "\<lambda>s. superblocks (fs s)"] by simp_all
  then show ?thesis using f(1-4) assms(3-) by (simp add: find_tmpfs_node_from_vnode_def)
qed

text \<open>A write leaves what the search for the node reads alone.\<close>

lemma file_written_file:
  assumes "tmpfs_file s v vn nd n l e en p d" "length d' = PAGE_SIZE"
  shows "tmpfs_file (file_written s v vn (file_state (fs s) nd n e en p sz z d') bytes) v (vn\<lparr>vnode_size := vnode_size vn + bytes\<rparr>) nd
    (n\<lparr>tmpfs_node_size := sz\<rparr>) l e (en\<lparr>number_of_pages := z\<rparr>) p d'"
proof -
  have s: "vnodes s v = Some vn" "v \<noteq> NULL" "find_tmpfs_node_from_vnode v s = Inr (s, nd)" "file_parts (fs s) nd n l e en p"
    using assms(1) by (auto simp: tmpfs_file_def get_vnode_def deref_eq_Inr)
  let ?t = "file_state (fs s) nd n e en p sz z d'"
  let ?s = "file_written s v vn ?t bytes"
  have "find_tmpfs_node_from_vnode v ?s = Inr (?s, nd)"
    by (rule find_node_frame [OF s(3), of vn _ "vn\<lparr>vnode_size := vnode_size vn + bytes\<rparr>"])
      (use s(1,2) in \<open>simp_all add: get_vnode_def file_written_def file_state_def\<close>)
  then show ?thesis using file_state_parts(1) [OF s(4)] s assms(2)
    by (simp add: tmpfs_file_def get_vnode_def file_written_def) (simp add: file_state_def)
qed

lemma wrap_write_other:
  "y < PAGE_SIZE \<Longrightarrow> \<forall>i<length bs. y \<noteq> (x + i) mod PAGE_SIZE \<Longrightarrow> wrap_write d x bs ! y = d ! y"
proof (induction d x bs rule: wrap_write.induct)
  case (2 d x b bs)
  have "y \<noteq> x mod PAGE_SIZE" using "2.prems"(2) by (auto dest: spec [of _ 0])
  moreover have "\<forall>i<length bs. y \<noteq> (Suc x + i) mod PAGE_SIZE" using "2.prems"(2) by (auto dest: spec [of _ "Suc _"])
  ultimately show ?case using 2 by simp
qed simp

lemma wrap_write_nth:
  assumes "length d = PAGE_SIZE" "length bs \<le> PAGE_SIZE" "i < length bs"
  shows "wrap_write d x bs ! ((x + i) mod PAGE_SIZE) = bs ! i"
  using assms
proof (induction bs arbitrary: d x i)
  case (Cons b bs)
  show ?case
  proof (cases i)
    case 0
    have "\<forall>j<length bs. x mod PAGE_SIZE \<noteq> (Suc x + j) mod PAGE_SIZE"
    proof (intro allI impI)
      fix j assume "j < length bs"
      then have "0 < Suc j" "Suc j < PAGE_SIZE" using Cons.prems(2) by auto
      then show "x mod PAGE_SIZE \<noteq> (Suc x + j) mod PAGE_SIZE" by (metis add_Suc_right add_Suc mod_add_right_eq nat_neq_iff
        add_cancel_left_right mod_less mod_0_imp_dvd nat_dvd_not_less dvd_minus_mod mod_eq_dvd_iff_nat le_add1 add_diff_cancel_left')
    qed
    then show ?thesis using 0 Cons.prems by (simp add: wrap_write_other)
  next
    case (Suc k)
    then show ?thesis using Cons.IH [of "d[x mod PAGE_SIZE := b]" k "Suc x"] Cons.prems by simp
  qed
qed simp

lemma wrap_write_read:
  assumes "length d = PAGE_SIZE" "length bs \<le> PAGE_SIZE"
  shows "wrap_read (wrap_write d x bs) x (length bs) = bs"
  by (rule nth_equalityI) (use assms wrap_write_nth in \<open>auto simp: wrap_read_def\<close>)

section \<open>Theorems\<close>

text \<open>C6: 
  A file of tmpfs that has a page gives back what was written: up to 4096 bytes, none of them 0, written
  at an offset within the first 4 MB, are read back from the same offset, and both operations return their number.
\<close>

theorem tmpfs_write_read_back:
  assumes "tmpfs_file s v vn nd n l e en p d" and "start_of off + length bs < 2 ^ 22" and "length bs \<le> PAGE_SIZE" and "0 \<notin> set bs"
    and "length buffer = length bs"
  shows "\<exists>s'. tmpfs_write v off bs (of_nat (length bs)) s = Inr (s', int (length bs)) \<and>
    tmpfs_read v off buffer (of_nat (length bs)) s' = Inr (s', bs, int (length bs))"
proof -
  let ?k = "of_nat (length bs) :: 64 word"
  have k: "unat ?k = length bs" "sint ?k = int (length bs)"
    using assms(3) by (auto simp: unat_of_nat signed_of_nat signed_take_bit_int_eq_self)
  obtain z where w: "tmpfs_write v off bs ?k s = Inr (file_written s v vn (file_state (fs s) nd n e en p
      (grown (tmpfs_node_size n) (start_of off) (length bs)) z (wrap_write d (start_of off) bs)) ?k, int (length bs))"
    using tmpfs_write_ok [OF assms(1), of off ?k bs] assms(2,4) k by (auto simp: in_set_conv_nth)
  have d: "length d = PAGE_SIZE" using assms(1) by (simp add: tmpfs_file_def)
  show ?thesis
    using w tmpfs_read_ok [OF file_written_file [OF assms(1)], of "wrap_write d (start_of off) bs" off ?k buffer] d assms k
    by (auto simp: wrap_write_read overwrite_def)
qed

text \<open>
  Pages of a file are the same memory: reading at an offset and 4096 bytes further gives the same bytes.
\<close>

theorem tmpfs_pages_alias:
  assumes "tmpfs_file s v vn nd n l e en p d" and "unat off + PAGE_SIZE + unat bytes < 2 ^ 22" and "unat bytes \<le> length buffer"
  shows "tmpfs_read v (off + of_nat PAGE_SIZE) buffer bytes s = tmpfs_read v off buffer bytes s"
proof -
  have u: "unat (off + of_nat PAGE_SIZE) = unat off + PAGE_SIZE" "start_of off \<le> unat off" "start_of (off + of_nat PAGE_SIZE) \<le> unat off + PAGE_SIZE"
    using assms(2) by (auto simp: start_of_def unat_add_lem [THEN iffD1])
  have "start_of w mod PAGE_SIZE = unat w mod PAGE_SIZE" for w by (simp add: start_of_def)
  then have "start_of (off + of_nat PAGE_SIZE) mod PAGE_SIZE = start_of off mod PAGE_SIZE" using u(1) by simp
  moreover have "wrap_read d x k = wrap_read d (x mod PAGE_SIZE) k" for x k unfolding wrap_read_def by (simp add: mod_add_left_eq)
  ultimately have "wrap_read d (start_of (off + of_nat PAGE_SIZE)) (unat bytes) = wrap_read d (start_of off) (unat bytes)" by metis
  then show ?thesis
    using tmpfs_read_ok [OF assms(1), of "off + of_nat PAGE_SIZE" bytes buffer] tmpfs_read_ok [OF assms(1), of off bytes buffer] u assms(2,3) by simp
qed

text \<open>The size of a file after a write, in closed form.\<close>

definition end_of_write :: "nat \<Rightarrow> nat \<Rightarrow> nat" where
  "end_of_write x k = (if (x + k) mod PAGE_SIZE \<noteq> 0 then x + k else if 2 \<le> k then x + k - 1 else x + k - PAGE_SIZE)"

lemma unat_max_of_nat: "b < 2 ^ 22 \<Longrightarrow> unat (max a (of_nat b) :: 64 word) = max (unat a) b"
  using of_nat_small [of b] by (auto simp: max_def word_le_nat_alt)

lemma grown_eq: "0 < k \<Longrightarrow> x + k \<le> 2 ^ 22 \<Longrightarrow> unat (grown sz x k) = max (unat sz) (end_of_write x k)"
proof (induction sz x k rule: grown.induct)
  case (2 sz x k)
  have "x = 2 ^ 22 - 1 \<Longrightarrow> Suc x mod PAGE_SIZE = 0" by simp
  then have b: "byte_end x < 2 ^ 22" using "2.prems" unfolding byte_end_def by (cases "x = 2 ^ 22 - 1") auto
  show ?case
  proof (cases "k = 0")
    case True
    then show ?thesis using unat_max_of_nat [OF b, of sz] by (simp add: end_of_write_def byte_end_def)
  next
    case False
    then have "unat (grown sz x (Suc k)) = max (max (unat sz) (byte_end x)) (end_of_write (Suc x) k)"
      using 2 unat_max_of_nat [OF b, of sz] by simp
    moreover have "max (byte_end x) (end_of_write (Suc x) k) = end_of_write x (Suc k)"
    proof (cases "k = 1 \<and> Suc (Suc x) mod PAGE_SIZE = 0")
      case True
      then have "Suc x mod PAGE_SIZE \<noteq> 0" by (auto simp: mod_Suc split: if_splits)
      then show ?thesis using True by (simp add: byte_end_def end_of_write_def)
    next
      case False
      have "byte_end x \<le> Suc x" unfolding byte_end_def
        by (cases "Suc x mod PAGE_SIZE = 0") (simp_all only: if_True if_False diff_le_self order_refl refl)
      then show ?thesis using False \<open>k \<noteq> 0\<close>
        by (cases "k = 1") (auto simp: end_of_write_def max_def)
    qed
    ultimately show ?thesis by (simp add: max.assoc)
  qed
qed simp

text \<open>
  The two sizes of a file after a write of at least one byte: the node's size is the larger of the old one and the end of the write,
  but the last byte of a page does not count, so a full page counts 4095 bytes; the size in the vnode grows
  by the bytes written even if they replace others.
\<close>

theorem tmpfs_write_sizes:
  assumes "tmpfs_file s v vn nd n l e en p d" and "start_of off + unat bytes \<le> 2 ^ 22" and "0 < bytes"
    and "unat bytes \<le> length buffer" and "0 \<notin> set (take (unat bytes) buffer)"
  shows "\<exists>s' n' vn'. tmpfs_write v off buffer bytes s = Inr (s', sint bytes) \<and> get_tnode (fs s') nd = Inr n' \<and> get_vnode s' v = Inr vn' \<and>
    unat (tmpfs_node_size n') = max (unat (tmpfs_node_size n)) (end_of_write (start_of off) (unat bytes)) \<and>
    vnode_size vn' = vnode_size vn + bytes"
proof -
  have k: "0 < unat bytes" using assms(3) by (simp add: unat_gt_0)
  have z: "\<forall>i<unat bytes. buffer ! i \<noteq> 0" using assms(4,5) by (metis in_set_conv_nth length_take min.absorb2 nth_take)
  obtain z where w: "tmpfs_write v off buffer bytes s = Inr (file_written s v vn (file_state (fs s) nd n e en p
      (grown (tmpfs_node_size n) (start_of off) (unat bytes)) z (wrap_write d (start_of off) (take (unat bytes) buffer))) bytes, sint bytes)"
    using tmpfs_write_ok [OF assms(1,2) _ assms(4) z] assms(2) k by auto
  have "nd \<noteq> NULL" "vnodes s v \<noteq> None" "v \<noteq> NULL" using assms(1) by (auto simp: tmpfs_file_def file_parts_def get_vnode_def deref_eq_Inr)
  then show ?thesis using w grown_eq [OF k assms(2), of "tmpfs_node_size n"]
    by (simp add: file_written_def file_state_def get_tnode_def get_vnode_def)
qed

section \<open>Beyond 4 MB\<close>

text \<open>
  No operation ever stores a page at another place than the first of an entry.
\<close>

definition first_pages_only :: "tmpfs \<Rightarrow> bool" where
  "first_pages_only t \<longleftrightarrow> (\<forall>en\<in>ran (page_entries t). \<exists>p. page_list en = p # replicate (PAGES_PER_TMPFS_ENTRY - 1) NULL)"

lemma find_entry_cases:
  assumes "tmpfs_find_page_list_entry nd k t = Inr (t', e)"
  shows "page_entries t' = page_entries t \<or>
    (\<exists>p. page_entries t' = (page_entries t)(e \<mapsto> \<lparr>page_list = p # replicate (PAGES_PER_TMPFS_ENTRY - 1) NULL, number_of_pages = 1\<rparr>))"
proof -
  obtain n where g: "get_tnode t nd = Inr n" using assms by (auto simp: tmpfs_find_page_list_entry_def bindR_eq_Inr)
  then obtain l where "node_data n = Page_list l"
    using assms by (cases "node_data n") (auto simp: tmpfs_find_page_list_entry_def)
  note n = g this
  obtain dn where dn: "entry_walk (dnodes (page_lists t)) (dhead l) k = Inr dn"
    using assms n by (auto simp: tmpfs_find_page_list_entry_def bindR_eq_Inr)
  show ?thesis
  proof (cases "dn = NULL")
    case False
    then show ?thesis using assms n dn by (auto simp: tmpfs_find_page_list_entry_def bindR_eq_Inr)
  next
    case True
    obtain a es p junk ps where h: "entry_heap t = a # es" "page_heap t = (p, junk) # ps"
      using assms n dn True by (auto simp: tmpfs_find_page_list_entry_def split: list.splits)
    then show ?thesis using assms n dn True
      by (auto simp: tmpfs_find_page_list_entry_def bindR_eq_Inr modify_tnode_def)
  qed
qed

lemma find_entry_first_pages:
  assumes "first_pages_only t" "tmpfs_find_page_list_entry nd k t = Inr (t', e)"
  shows "first_pages_only t'"
  unfolding first_pages_only_def
proof
  fix en assume "en \<in> ran (page_entries t')"
  then show "\<exists>p. page_list en = p # replicate (PAGES_PER_TMPFS_ENTRY - 1) NULL"
    using find_entry_cases [OF assms(2)] assms(1) unfolding first_pages_only_def ran_def
    by (auto simp del: replicate.simps split: if_splits) metis+
qed

lemma far_data_page:
  assumes "first_pages_only t" "pg div of_nat PAGES_PER_TMPFS_ENTRY \<noteq> 0" "data_page t e pg = Inr p"
  shows "p = NULL"
proof -
  define i where "i = unat (pg div of_nat PAGES_PER_TMPFS_ENTRY)"
  obtain en where en: "deref (page_entries t) e = Inr en" using assms(3) by (auto simp: data_page_def bindR_eq_Inr)
  then obtain q where q: "page_list en = q # replicate (PAGES_PER_TMPFS_ENTRY - 1) NULL"
    using assms(1) unfolding first_pages_only_def deref_eq_Inr by (blast intro: ranI)
  have "(if i < length (page_list en) then Inr (page_list en ! i) else Inl OutOfBounds) = (Inr p :: addr res)"
    using assms(3) unfolding data_page_def i_def Let_def en bindR_Inr .
  then have i: "i < length (page_list en)" "page_list en ! i = p" by (auto split: if_splits)
  moreover have "i \<noteq> 0" using assms(2) unfolding i_def by (simp only: unat_eq_0 not_False_eq_True)
  ultimately obtain j where "i = Suc j" "j < PAGES_PER_TMPFS_ENTRY - 1" using q by (cases i) auto
  then show ?thesis using i(2) q by (simp only: nth_Cons_Suc nth_replicate)
qed

lemma far_position:
  assumes "2 ^ 22 \<le> unat off"
  shows "first_page off div of_nat PAGES_PER_TMPFS_ENTRY \<noteq> (0 :: 64 word)"
proof -
  have "(of_nat PAGE_SIZE :: 64 word) < off" using assms by (simp add: word_less_nat_alt)
  then have "unat (first_page off div of_nat PAGES_PER_TMPFS_ENTRY) = unat off div PAGE_SIZE div PAGES_PER_TMPFS_ENTRY"
    by (simp add: first_page_def unat_div)
  then show ?thesis using assms by (auto simp: div_mult2_eq [symmetric])
qed

text \<open>
  Beyond 4 MB a file cannot be used: with entries as the operations make them, every write and every read of at least one byte
  there ends in a fault.
\<close>

theorem tmpfs_beyond_4MB_faults:
  assumes "first_pages_only (fs s)" and "2 ^ 22 \<le> unat off" and "0 < bytes"
  shows "(\<exists>f. tmpfs_write v off buffer bytes s = Inl f) \<and> (\<exists>f. tmpfs_read v off buffer bytes s = Inl f)"
proof -
  obtain k where k: "unat bytes = Suc k" using assms(3) by (metis gr0_implies_Suc unat_gt_0 word_neq_0_conv)
  have w: "\<exists>f. write_loop (unat bytes) nd e (first_page off) ofs 0 buffer t = Inl f"
    and r: "\<exists>f. read_loop (unat bytes) nd e (first_page off) ofs 0 buffer t = Inl f"
    if "first_pages_only t" for t nd e ofs
    using far_data_page [OF that far_position [OF assms(2)], of e] unfolding k
    by (cases "data_page t e (first_page off)"; simp)+
  have find: "first_pages_only (fs s')" if "find_tmpfs_node_from_vnode v s = Inr (s', nd)" for s' nd
    using that assms(1) by (auto simp: find_tmpfs_node_from_vnode_def bindR_eq_Inr first_pages_only_def split: if_splits)
  show ?thesis
  proof (cases "find_tmpfs_node_from_vnode v s")
    case (Inl f)
    then show ?thesis by (simp add: tmpfs_write_def tmpfs_read_def)
  next
    case (Inr a)
    then obtain s' nd where a: "find_tmpfs_node_from_vnode v s = Inr (s', nd)" by (cases a) auto
    let ?n = "unat (first_page off div of_nat PAGES_PER_TMPFS_ENTRY)"
    show ?thesis
    proof (cases "tmpfs_find_page_list_entry nd ?n (fs s')")
      case (Inl f)
      then show ?thesis using a by (simp add: tmpfs_write_def tmpfs_read_def Let_def)
    next
      case (Inr b)
      then obtain t e where b: "tmpfs_find_page_list_entry nd ?n (fs s') = Inr (t, e)" by (cases b) auto
      have t: "first_pages_only t" by (rule find_entry_first_pages [OF find [OF a] b])
      show ?thesis using w [OF t, of nd e "off mod of_nat PAGE_SIZE"] r [OF t, of nd e "off mod of_nat PAGE_SIZE"] a b
        by (auto simp: tmpfs_write_def tmpfs_read_def Let_def)
    qed
  qed
qed

section \<open>Kernel messages\<close>

text \<open>
  A kernel message goes to the end of the file \<^verbatim>\<open>kernel_messages\<close> through the virtual file system, and reading the file at
  its old size gives the message back; the next message starts behind it. The message must not be longer than a page and
  the file stay below 4 MB.
\<close>

theorem kernel_log_appends:
  assumes "tmpfs_file s v vn nd n l e en p d" and "procfs_online (fs s)" "kernel_message (fs s) = v"
    and "deref T (vnode_ops vn) = Inr tmpfs_ops" and "node_lock vn" "\<not> is_mount_point vn"
    and "0 \<notin> set msg" "msg \<noteq> []" "start_of (vnode_size vn) + length msg < 2 ^ 22" "length msg \<le> PAGE_SIZE" and "length buffer = length msg"
  shows "\<exists>s' vn'. log_kernel_message T (msg @ 0 # r) s = Inr s' \<and> get_vnode s' v = Inr vn' \<and>
    vnode_size vn' = vnode_size vn + of_nat (length msg) \<and>
    vnode_read T v (vnode_size vn) (of_nat (length msg)) buffer s' = Inr (s', msg, int (length msg))"
proof -
  let ?k = "of_nat (length msg) :: 64 word" and ?x = "start_of (vnode_size vn)"
  have k: "unat ?k = length msg" "sint ?k = int (length msg)" "?k \<noteq> 0"
    using assms(8,10) by (auto simp: unat_of_nat signed_of_nat signed_take_bit_int_eq_self word_of_nat_eq_0_iff dest: dvd_imp_le)
  have v: "get_vnode s v = Inr vn" "length d = PAGE_SIZE" "vnodes s v = Some vn" "v \<noteq> NULL"
    using assms(1) by (auto simp: tmpfs_file_def get_vnode_def deref_eq_Inr)
  have "\<forall>i<length msg. (msg @ 0 # r) ! i \<noteq> 0" using assms(7) by (auto simp: nth_append in_set_conv_nth)
  then obtain z where w: "tmpfs_write v (vnode_size vn) (msg @ 0 # r) ?k s = Inr (file_written s v vn (file_state (fs s) nd n e en p
      (grown (tmpfs_node_size n) ?x (length msg)) z (wrap_write d ?x msg)) ?k, int (length msg))"
    using tmpfs_write_ok [OF assms(1), of "vnode_size vn" ?k "msg @ 0 # r"] assms(9) k by auto
  let ?s = "file_written s v vn (file_state (fs s) nd n e en p (grown (tmpfs_node_size n) ?x (length msg)) z (wrap_write d ?x msg)) ?k"
  have v': "get_vnode ?s v = Inr (vn\<lparr>vnode_size := vnode_size vn + ?k\<rparr>)" using v by (simp add: file_written_def get_vnode_def)
  have "vnode_write T v (vnode_size vn) ?k (msg @ 0 # r) s = Inr (?s, int (length msg))"
    using v v' w assms(4-6,10) by (simp add: vnode_write_def take_node_lock_def ops_of_def tmpfs_ops_def signed_take_bit_int_eq_self)
  then have "log_kernel_message T (msg @ 0 # r) s = Inr ?s"
    using assms(2,3,7) v by (simp add: log_kernel_message_def strlen_eq)
  moreover have "tmpfs_read v (vnode_size vn) buffer ?k ?s = Inr (?s, msg, int (length msg))"
    using tmpfs_read_ok [OF file_written_file [OF assms(1)], of "wrap_write d ?x msg" "vnode_size vn" ?k buffer] v(2) assms(9-11) k
    by (simp add: wrap_write_read overwrite_def)
  then have "vnode_read T v (vnode_size vn) ?k buffer ?s = Inr (?s, msg, int (length msg))"
    using v' k(3) assms(4-6) by (simp add: vnode_read_def take_node_lock_def ops_of_def tmpfs_ops_def)
  ultimately show ?thesis using v' by auto
qed

section \<open>Witnesses\<close>

text \<open>A file system with one file: vnode 20 for the node 200 with number 1, whose page 400 is full of zeros.\<close>

definition demo_node_trees :: bt_mem where
  "demo_node_trees = demo_tmem\<lparr>tnodes := [101 \<mapsto> blank_node\<lparr>key := 1, bucket := \<lparr>head = 50, tail = 50, node_count = 1, lflags = 0\<rparr>\<rparr>],
     lists := demo_mem\<lparr>nodes := [50 \<mapsto> \<lparr>data = 200, next = 0, nflags = 0\<rparr>]\<rparr>\<rparr>"

definition demo_tmpfs :: tmpfs where
  "demo_tmpfs = \<lparr>tmpfs_nodes = [200 \<mapsto> \<lparr>superblock = 1, parent_tmpfs_node = 0, node_name = [97, 0], tmpfs_node_number = 1, tmpfs_node_size = 0,
       node_type = 1, node_data = Page_list \<lparr>dhead = 60, dtail = 0, dcount = 1\<rparr>\<rparr>],
     node_heap = [], superblocks = [1 \<mapsto> \<lparr>filesystem = 30, node_tree = \<lparr>root = 101, tree_count = 1, mode = 1, is_pmm = False\<rparr>,
       magic = TMPFS_MAGIC, tmpfs_node_count = 1\<rparr>],
     contexts = [30 \<mapsto> 1], context_heap = [], node_trees = demo_node_trees, tmpfs_node_number_bitmap = replicate PAGE_SIZE 0,
     page_lists = \<lparr>dnodes = [60 \<mapsto> \<lparr>ddata = 300, dnext = 0, dprev = 0\<rparr>], dheap = []\<rparr>,
     page_entries = [300 \<mapsto> \<lparr>page_list = 400 # replicate (PAGES_PER_TMPFS_ENTRY - 1) NULL, number_of_pages = 1\<rparr>], entry_heap = [],
     pages = [400 \<mapsto> replicate PAGE_SIZE 0], page_heap = [], procfs_root = 0, kernel_message = 0, procfs_online = False\<rparr>"

definition demo_file_vnode :: vnode where
  "demo_file_vnode = zero_vnode\<lparr>filesystem_object := 30, vnode_inode_number := 1, vnode_type := VNODE_FILE, node_lock := True, vnode_ops := TMPFS_OPS\<rparr>"

definition demo_tfs :: "tmpfs vfs" where
  "demo_tfs = \<lparr>vnodes = [20 \<mapsto> demo_file_vnode], vheap = [21, 22],
     vl = demo_mem, vl_pool = [], vnode_static_pool = \<lparr>head = 0, tail = 0, node_count = 0, lflags = 0\<rparr>,
     vnode_used_pool = \<lparr>head = 0, tail = 0, node_count = 0, lflags = 0\<rparr>, fs_refs = (\<lambda>_. 0), handles = Map.empty,
     hheap = [], hl = \<lparr>dnodes = Map.empty, dheap = []\<rparr>, handle_list = \<lparr>dhead = 0, dtail = 0, dcount = 0\<rparr>,
     num_handles = 0, handle_id_bitmap = 0, current_working_dir = 1, fs = demo_tmpfs\<rparr>"

lemma demo_tmpfs_file:
  "tmpfs_file demo_tfs 20 demo_file_vnode 200 (the (tmpfs_nodes demo_tmpfs 200)) \<lparr>dhead = 60, dtail = 0, dcount = 1\<rparr> 300
     (the (page_entries demo_tmpfs 300)) 400 (replicate PAGE_SIZE 0)"
proof -
  have "lookup_tree demo_node_trees \<lparr>root = 101, tree_count = 1, mode = 1, is_pmm = False\<rparr> 1 0 =
      Inr (demo_node_trees, \<lparr>root = 101, tree_count = 1, mode = 1, is_pmm = False\<rparr>, 200)"
    by (simp add: lookup_tree_def demo_node_trees_def)
  then have "find_tmpfs_node_from_vnode 20 demo_tfs = Inr (demo_tfs, 200)"
    by (simp add: find_tmpfs_node_from_vnode_def demo_tfs_def demo_file_vnode_def get_vnode_def demo_tmpfs_def)
  moreover have "file_parts (fs demo_tfs) 200 (the (tmpfs_nodes demo_tmpfs 200)) \<lparr>dhead = 60, dtail = 0, dcount = 1\<rparr> 300
     (the (page_entries demo_tmpfs 300)) 400"
    by (simp add: file_parts_def demo_tfs_def demo_tmpfs_def)
  ultimately show ?thesis by (simp add: tmpfs_file_def get_vnode_def demo_tfs_def demo_tmpfs_def)
qed

theorem tmpfs_write_read_back_witness:
  "\<exists>s'. tmpfs_write 20 10 [104, 105] 2 demo_tfs = Inr (s', 2) \<and> tmpfs_read 20 10 [0, 0] 2 s' = Inr (s', [104, 105], 2)"
  using tmpfs_write_read_back [OF demo_tmpfs_file, of 10 "[104, 105]" "[0, 0]"] by (simp add: start_of_def)

theorem tmpfs_pages_alias_witness:
  "tmpfs_read 20 4106 [0] 1 demo_tfs = tmpfs_read 20 10 [0] 1 demo_tfs"
  using tmpfs_pages_alias [OF demo_tmpfs_file, of 10 1 "[0]"] by simp

theorem tmpfs_write_sizes_witness:
  "\<exists>s' n' vn'. tmpfs_write 20 0 (replicate 4096 104) 4096 demo_tfs = Inr (s', 4096) \<and> get_tnode (fs s') 200 = Inr n' \<and>
    get_vnode s' 20 = Inr vn' \<and> unat (tmpfs_node_size n') = 4095 \<and> vnode_size vn' = 4096"
  using tmpfs_write_sizes [OF demo_tmpfs_file, of 0 4096 "replicate 4096 104"]
  by (simp add: start_of_def end_of_write_def demo_file_vnode_def zero_vnode_def) (simp add: demo_tmpfs_def)

theorem tmpfs_beyond_4MB_faults_witness:
  "(\<exists>f. tmpfs_write 20 0x400000 [104] 1 demo_tfs = Inl f) \<and> (\<exists>f. tmpfs_read 20 0x400000 [104] 1 demo_tfs = Inl f)"
proof -
  have "first_pages_only (fs demo_tfs)" by (auto simp: first_pages_only_def demo_tfs_def demo_tmpfs_def)
  then show ?thesis by (rule tmpfs_beyond_4MB_faults) simp_all
qed

theorem kernel_log_appends_witness:
  "\<exists>s'. log_kernel_message [TMPFS_OPS \<mapsto> tmpfs_ops] [104, 105, 0] (demo_tfs\<lparr>fs := demo_tmpfs\<lparr>procfs_online := True, kernel_message := 20\<rparr>\<rparr>) = Inr s' \<and>
    vnode_read [TMPFS_OPS \<mapsto> tmpfs_ops] 20 0 2 [0, 0] s' = Inr (s', [104, 105], 2)"
proof -
  let ?s = "demo_tfs\<lparr>fs := demo_tmpfs\<lparr>procfs_online := True, kernel_message := 20\<rparr>\<rparr>"
  have d: "get_vnode demo_tfs 20 = Inr demo_file_vnode" "find_tmpfs_node_from_vnode 20 demo_tfs = Inr (demo_tfs, 200)"
    using demo_tmpfs_file by (auto simp: tmpfs_file_def)
  have "find_tmpfs_node_from_vnode 20 ?s = Inr (?s, 200)"
    by (rule find_node_frame [OF d(2,1), of _ demo_file_vnode]) (simp_all add: demo_tfs_def get_vnode_def)
  moreover have "file_parts (fs ?s) 200 (the (tmpfs_nodes demo_tmpfs 200)) \<lparr>dhead = 60, dtail = 0, dcount = 1\<rparr> 300 (the (page_entries demo_tmpfs 300)) 400"
    by (simp add: file_parts_def demo_tmpfs_def)
  ultimately have "tmpfs_file ?s 20 demo_file_vnode 200 (the (tmpfs_nodes demo_tmpfs 200)) \<lparr>dhead = 60, dtail = 0, dcount = 1\<rparr> 300
      (the (page_entries demo_tmpfs 300)) 400 (replicate PAGE_SIZE 0)"
    using d(1) by (simp add: tmpfs_file_def get_vnode_def demo_tmpfs_def)
  from kernel_log_appends [OF this, of "[TMPFS_OPS \<mapsto> tmpfs_ops]" "[104, 105]" "[0, 0]" "[]"]
  show ?thesis by (force simp: demo_file_vnode_def zero_vnode_def start_of_def)
qed

end
