(* ===== verification/Tmpfs_Nodes.thy ===== *)
theory Tmpfs_Nodes
  imports Tmpfs_Files
begin

text \<open>
  The nodes of tmpfs: node numbers from the bitmap, creation of files and directories, and removal.
\<close>

section \<open>Node numbers\<close>

definition number_used :: "byte list \<Rightarrow> nat \<Rightarrow> bool" where
  "number_used bm k \<longleftrightarrow> bit (bm ! (k div 8)) (k mod 8)"

definition use_number :: "byte list \<Rightarrow> nat \<Rightarrow> byte list" where
  "use_number bm k = bm[k div 8 := bm ! (k div 8) OR push_bit (k mod 8) 1]"

lemma byte_bit_test: "j < 8 \<Longrightarrow> (b :: byte) AND 2 ^ j = 0 \<longleftrightarrow> \<not> bit b j"
  by (simp add: and_exp_eq_0_iff_not_bit)

lemma clear_bit_eq:
  "j + k \<le> 8 \<Longrightarrow> clear_bit b j k = (if \<forall>i\<in>{j..<j + k}. bit b i then None else Some (LEAST i. j \<le> i \<and> \<not> bit b i))"
proof (induction b j k rule: clear_bit.induct)
  case (2 b j k)
  show ?case
  proof (cases "bit b j")
    case True
    have "(LEAST i. Suc j \<le> i \<and> \<not> bit b i) = (LEAST i. j \<le> i \<and> \<not> bit b i)"
      using True by (metis Suc_leD le_antisym not_less_eq_eq)
    moreover have "{j..<j + Suc k} = insert j {Suc j..<Suc j + k}" by auto
    ultimately show ?thesis using 2 True by (simp add: byte_bit_test)
  next
    case False
    then have "(LEAST i. j \<le> i \<and> \<not> bit b i) = j" by (auto intro: Least_equality)
    then show ?thesis using 2 False by (auto simp: byte_bit_test)
  qed
qed simp

lemma clear_bit_None: "clear_bit b 0 8 = None \<longleftrightarrow> (\<forall>j<8. bit b j)"
  by (auto simp: clear_bit_eq)

lemma clear_bit_Some:
  assumes "clear_bit b 0 8 = Some j"
  shows "j < 8" "\<not> bit b j" "\<forall>i<j. bit b i"
proof -
  have "\<not> (\<forall>i\<in>{0..<8}. bit b i)" and j: "j = (LEAST i. \<not> bit b i)"
    using assms by (auto simp: clear_bit_eq split: if_splits)
  then obtain i where i: "i < 8" "\<not> bit b i" by auto
  then show "\<not> bit b j" unfolding j by (rule_tac LeastI)
  have "j \<le> i" unfolding j using i(2) by (rule Least_le)
  then show "j < 8" using i(1) by simp
  show "\<forall>i<j. bit b i" unfolding j using not_less_Least by blast
qed

lemma full_byte: "(\<forall>j<8. bit b j) \<longleftrightarrow> b = (0xFF :: byte)"
proof
  assume "\<forall>j<8. bit b j"
  then have "b = -1" by (intro bit_word_eqI) simp
  then show "b = 0xFF" by simp
next
  assume "b = 0xFF"
  then have "b = -1" by simp
  then show "\<forall>j<8. bit b j" by simp
qed

lemma bitmap_scan_Some:
  "bitmap_scan bm i0 = Some (i, j) \<Longrightarrow> i0 \<le> i \<and> i - i0 < length bm \<and> j < 8 \<and> \<not> bit (bm ! (i - i0)) j \<and> (\<forall>k<j. bit (bm ! (i - i0)) k) \<and>
     (\<forall>k<i - i0. bm ! k = 0xFF)"
proof (induction bm i0 rule: bitmap_scan.induct)
  case (2 b bs i0)
  show ?case
  proof (cases "b = 0xFF")
    case False
    then obtain j' where "clear_bit b 0 8 = Some j'" using clear_bit_None [of b] full_byte [of b] by (cases "clear_bit b 0 8") auto
    then show ?thesis using 2 False clear_bit_Some [of b j'] by auto
  next
    case True
    then have IH: "Suc i0 \<le> i" "i - Suc i0 < length bs" "j < 8" "\<not> bit (bs ! (i - Suc i0)) j" "\<forall>k<j. bit (bs ! (i - Suc i0)) k"
      "\<forall>k<i - Suc i0. bs ! k = 0xFF" using 2 by auto
    then obtain m where m: "i = Suc (i0 + m)" by (metis less_eqE add_Suc)
    then have "i - i0 = Suc m" "i - Suc i0 = m" by auto
    then show ?thesis using IH True by (auto simp: less_Suc_eq_0_disj)
  qed
qed simp

lemma bitmap_scan_None: "bitmap_scan bm i0 = None \<longleftrightarrow> (\<forall>b\<in>set bm. b = 0xFF)"
proof (induction bm i0 rule: bitmap_scan.induct)
  case (2 b bs i0)
  then show ?case using clear_bit_None [of b] full_byte [of b] by (cases "clear_bit b 0 8") auto
qed simp

lemma used_full_byte: "bm ! i = 0xFF \<Longrightarrow> k div 8 = i \<Longrightarrow> number_used bm k"
  using full_byte [of "bm ! i"] by (simp add: number_used_def)

lemma use_number_used:
  assumes "k < 8 * length bm" "j < 8 * length bm"
  shows "number_used (use_number bm k) j \<longleftrightarrow> number_used bm j \<or> j = k"
proof (cases "j div 8 = k div 8")
  case True
  have "k div 8 < length bm" using assms(1) by (simp add: less_mult_imp_div_less mult.commute)
  moreover have "bit (push_bit (k mod 8) (1 :: byte)) (j mod 8) \<longleftrightarrow> j mod 8 = k mod 8" by (auto simp: bit_simps)
  moreover have "j = k \<longleftrightarrow> j mod 8 = k mod 8" using True by (metis div_mult_mod_eq)
  ultimately show ?thesis using True by (simp add: number_used_def use_number_def bit_or_iff)
next
  case False
  then show ?thesis by (auto simp: number_used_def use_number_def)
qed

lemma use_number_clear:
  assumes "k < 8 * length bm" "\<not> number_used bm k"
  shows "(use_number bm k)[k div 8 := use_number bm k ! (k div 8) AND NOT (push_bit (k mod 8) 1)] = bm"
proof -
  have i: "k div 8 < length bm" using assms(1) by (simp add: less_mult_imp_div_less mult.commute)
  have "(b OR push_bit j 1) AND NOT (push_bit j 1) = b" if "\<not> bit b j" for b :: byte and j
    by (rule bit_word_eqI) (use that in \<open>auto simp: bit_simps\<close>)
  then show ?thesis using i assms(2) by (simp add: use_number_def number_used_def)
qed

text \<open>The search over the whole bitmap, in terms of node numbers.\<close>

lemma bitmap_get_eq:
  assumes "length (tmpfs_node_number_bitmap t) \<le> PAGE_SIZE"
  shows "(\<exists>k. tmpfs_node_bitmap_get t = Inr (t\<lparr>tmpfs_node_number_bitmap := use_number (tmpfs_node_number_bitmap t) k\<rparr>, of_nat k) \<and>
      k < 8 * length (tmpfs_node_number_bitmap t) \<and> \<not> number_used (tmpfs_node_number_bitmap t) k \<and> (\<forall>j<k. number_used (tmpfs_node_number_bitmap t) j)) \<or>
    (\<forall>j<8 * length (tmpfs_node_number_bitmap t). number_used (tmpfs_node_number_bitmap t) j) \<and> (\<exists>msg. tmpfs_node_bitmap_get t = Inl (Panic msg))"
proof (cases "bitmap_scan (tmpfs_node_number_bitmap t) 0")
  case None
  let ?bm = "tmpfs_node_number_bitmap t"
  have "number_used ?bm j" if "j < 8 * length ?bm" for j
  proof -
    have "j div 8 < length ?bm" using that by (simp add: less_mult_imp_div_less mult.commute)
    then show ?thesis using None unfolding bitmap_scan_None by (intro used_full_byte) auto
  qed
  then show ?thesis using None by (auto simp: tmpfs_node_bitmap_get_def Let_def)
next
  case (Some ij)
  let ?bm = "tmpfs_node_number_bitmap t"
  obtain i j where ij: "bitmap_scan ?bm 0 = Some (i, j)" using Some by (cases ij) auto
  then have s: "i < length ?bm" "j < 8" "\<not> bit (?bm ! i) j" "\<forall>k<j. bit (?bm ! i) k" "\<forall>k<i. ?bm ! k = 0xFF"
    using bitmap_scan_Some by fastforce+
  let ?k = "i * 8 + j"
  have k: "?k div 8 = i" "?k mod 8 = j" using s(2) by auto
  have "number_used ?bm m" if "m < ?k" for m
  proof (cases "m div 8 = i")
    case True
    then have "m mod 8 < j" using that by (metis div_mult_mod_eq nat_add_left_cancel_less)
    then show ?thesis using s(4) True by (simp add: number_used_def)
  next
    case False
    moreover have "m div 8 \<le> i" using that k(1) by (metis div_le_mono less_imp_le)
    ultimately have "m div 8 < i" by simp
    then show ?thesis using s(5) used_full_byte by blast
  qed
  moreover have "?k < 8 * length ?bm" using s(1,2) by linarith
  moreover have "\<not> number_used ?bm ?k" using s(3) k by (simp add: number_used_def)
  moreover have "tmpfs_node_bitmap_get t = Inr (t\<lparr>tmpfs_node_number_bitmap := use_number ?bm ?k\<rparr>, of_nat ?k)"
    using ij k by (simp only: tmpfs_node_bitmap_get_def Let_def use_number_def option.case prod.case)
  ultimately show ?thesis by blast
qed

text \<open>
  A node number is the lowest one that is not in use, taking it marks exactly it as used, and giving it back restores
  the bitmap; with all numbers in use the machine panics.
\<close>

theorem tmpfs_number_lowest:
  assumes "length (tmpfs_node_number_bitmap t) \<le> PAGE_SIZE"
  defines "bm \<equiv> tmpfs_node_number_bitmap t"
  shows "case tmpfs_node_bitmap_get t of
      Inr (t', w) \<Rightarrow> unat w < 8 * length bm \<and> \<not> number_used bm (unat w) \<and> (\<forall>j<unat w. number_used bm j) \<and>
        (\<forall>j<8 * length bm. number_used (tmpfs_node_number_bitmap t') j \<longleftrightarrow> number_used bm j \<or> j = unat w) \<and>
        tmpfs_node_bitmap_free w t' = Inr t
    | Inl f \<Rightarrow> (\<exists>msg. f = Panic msg) \<and> (\<forall>j<8 * length bm. number_used bm j)"
  using bitmap_get_eq [OF assms(1)]
proof (elim disjE exE conjE)
  fix k assume k: "tmpfs_node_bitmap_get t = Inr (t\<lparr>tmpfs_node_number_bitmap := use_number (tmpfs_node_number_bitmap t) k\<rparr>, of_nat k)"
    "k < 8 * length (tmpfs_node_number_bitmap t)" "\<not> number_used (tmpfs_node_number_bitmap t) k" "\<forall>j<k. number_used (tmpfs_node_number_bitmap t) j"
  have "k < 2 ^ 22" using k(2) assms(1) by simp
  then have u: "unat (of_nat k :: 64 word) = k" by (rule of_nat_small)
  have "tmpfs_node_bitmap_free (of_nat k) (t\<lparr>tmpfs_node_number_bitmap := use_number (tmpfs_node_number_bitmap t) k\<rparr>) = Inr t"
    using use_number_clear [OF k(2,3)] k(2) u
    by (simp add: tmpfs_node_bitmap_free_def unat_div unat_mod use_number_def less_mult_imp_div_less mult.commute)
  then show ?thesis using k u use_number_used by (simp add: bm_def)
next
  fix msg assume "tmpfs_node_bitmap_get t = Inl (Panic msg)" "\<forall>j<8 * length (tmpfs_node_number_bitmap t). number_used (tmpfs_node_number_bitmap t) j"
  then show ?thesis by (simp add: bm_def)
qed

theorem tmpfs_number_lowest_witness:
  "tmpfs_node_bitmap_get (demo_tmpfs\<lparr>tmpfs_node_number_bitmap := [0xFF, 0x05]\<rparr>) =
     Inr (demo_tmpfs\<lparr>tmpfs_node_number_bitmap := [0xFF, 0x07]\<rparr>, 9) \<and>
   tmpfs_node_bitmap_free 9 (demo_tmpfs\<lparr>tmpfs_node_number_bitmap := [0xFF, 0x07]\<rparr>) = Inr (demo_tmpfs\<lparr>tmpfs_node_number_bitmap := [0xFF, 0x05]\<rparr>)"
proof -
  have "tmpfs_node_bitmap_get (demo_tmpfs\<lparr>tmpfs_node_number_bitmap := [0xFF, 0x05]\<rparr>) =
     Inr (demo_tmpfs\<lparr>tmpfs_node_number_bitmap := [0xFF, 0x07]\<rparr>, 9)"
  proof -
    have "clear_bit 5 0 8 = Some 1" by code_simp
    then show ?thesis by (simp add: tmpfs_node_bitmap_get_def)
  qed
  then show ?thesis using tmpfs_number_lowest [of "demo_tmpfs\<lparr>tmpfs_node_number_bitmap := [0xFF, 0x05]\<rparr>"] by simp
qed

section \<open>Creation\<close>

text \<open>
  \<open>tmpfs_tree C t sb b M\<close>: the superblock \<open>b\<close> at \<open>sb\<close> has the nodes \<open>M\<close> by number, its context leads back to it, and the
  numbers of its nodes are in use.
\<close>

definition tmpfs_tree :: "'j others \<Rightarrow> tmpfs \<Rightarrow> addr \<Rightarrow> tmpfs_superblock \<Rightarrow> (64 word \<rightharpoonup> addr list) \<Rightarrow> bool" where
  "tmpfs_tree C t sb b M \<longleftrightarrow> deref (superblocks t) sb = Inr b \<and> deref (contexts t) (filesystem b) = Inr sb \<and>
     tree_rep C (node_trees t) (node_tree b) M \<and> length (tmpfs_node_number_bitmap t) \<le> PAGE_SIZE \<and>
     (\<forall>k\<in>dom M. unat k < 8 * length (tmpfs_node_number_bitmap t) \<and> number_used (tmpfs_node_number_bitmap t) (unat k))"

lemma find_node_ok:
  assumes "tmpfs_tree C (fs s) sb b M" "get_vnode s v = Inr vn" "filesystem_object vn = filesystem b"
    and "M (vnode_inode_number vn) = Some (nd # nds)" "nd \<noteq> NULL"
  shows "find_tmpfs_node_from_vnode v s = Inr (s, nd)"
proof -
  have t: "deref (superblocks (fs s)) sb = Inr b" "deref (contexts (fs s)) (filesystem b) = Inr sb"
    "tree_rep C (node_trees (fs s)) (node_tree b) M" using assms(1) by (auto simp: tmpfs_tree_def)
  have "(superblocks (fs s))(sb \<mapsto> b) = superblocks (fs s)" using t(1) by (auto simp: deref_eq_Inr)
  then show ?thesis
    using t block_tree.peek_ok [OF t(3), of "vnode_inode_number vn"] assms(2-) by (simp add: find_tmpfs_node_from_vnode_def)
qed

text \<open>A node's vnode, from the heap.\<close>

definition vnode_for :: "tmpfs_superblock \<Rightarrow> tmpfs_node \<Rightarrow> vnode" where
  "vnode_for b n = zero_vnode\<lparr>filesystem_object := filesystem b, vnode_filesystem_id := VNODE_FS_TMPFS,
     vnode_ops := TMPFS_OPS, vnode_size := tmpfs_node_size n, vnode_type := ucast (node_type n),
     vnode_inode_number := tmpfs_node_number n, node_lock := True, vnode_name := node_name n\<rparr>"

lemma node_to_vnode_ok:
  assumes "get_tnode (fs s) nd = Inr n" "node_name n = padded name" "0 \<notin> set name" "length name < VFS_MAX_NAME_LENGTH"
    and "deref (superblocks (fs s)) (superblock n) = Inr b"
    and "head (vnode_static_pool s) = NULL" "vheap s = a # vs" "a \<noteq> NULL"
  shows "tmpfs_node_to_vnode nd s = Inr (s\<lparr>vnodes := (vnodes s)(a \<mapsto> vnode_for b n), vheap := vs\<rparr>, a)"
  using assms copy_name(2) [OF assms(3,4)]
  by (simp add: tmpfs_node_to_vnode_def vnode_alloc_def modify_vnode_def zero_vnode_def vnode_for_def)

lemma vnode_for_simps [simp]:
  "filesystem_object (vnode_for b n) = filesystem b" "vnode_inode_number (vnode_for b n) = tmpfs_node_number n"
  "vnode_type (vnode_for b n) = ucast (node_type n)" "vnode_name (vnode_for b n) = node_name n"
  by (simp_all add: vnode_for_def)

lemma tmpfs_tree_insert:
  assumes "tmpfs_tree C t sb b M" "0 < bt_room (node_trees t)" "\<exists>k<8 * length (tmpfs_node_number_bitmap t). \<not> number_used (tmpfs_node_number_bitmap t) k"
  shows "\<exists>number bm m tr. tmpfs_node_bitmap_get (t\<lparr>node_heap := nh, tmpfs_nodes := ns\<rparr>) =
      Inr (t\<lparr>node_heap := nh, tmpfs_nodes := ns, tmpfs_node_number_bitmap := bm\<rparr>, number) \<and> M number = None \<and>
    insert_tree_node (node_trees t) (node_tree b) c number = Inr (m, tr, KERN_SUCCESS) \<and>
    (\<forall>ns cnt. tmpfs_tree C (t\<lparr>node_heap := nh, tmpfs_nodes := ns, tmpfs_node_number_bitmap := bm, node_trees := m,
        superblocks := (superblocks t)(sb \<mapsto> b\<lparr>node_tree := tr, tmpfs_node_count := cnt\<rparr>)\<rparr>) sb
      (b\<lparr>node_tree := tr, tmpfs_node_count := cnt\<rparr>) (M(number \<mapsto> [c])))"
proof -
  have t: "deref (superblocks t) sb = Inr b" "deref (contexts t) (filesystem b) = Inr sb" "tree_rep C (node_trees t) (node_tree b) M"
    "length (tmpfs_node_number_bitmap t) \<le> PAGE_SIZE"
    "\<forall>k\<in>dom M. unat k < 8 * length (tmpfs_node_number_bitmap t) \<and> number_used (tmpfs_node_number_bitmap t) (unat k)"
    using assms(1) by (auto simp: tmpfs_tree_def)
  let ?bm = "tmpfs_node_number_bitmap t" and ?t = "t\<lparr>node_heap := nh, tmpfs_nodes := ns\<rparr>"
  obtain k where k: "tmpfs_node_bitmap_get ?t = Inr (?t\<lparr>tmpfs_node_number_bitmap := use_number ?bm k\<rparr>, of_nat k)"
    "k < 8 * length ?bm" "\<not> number_used ?bm k"
    using bitmap_get_eq [of ?t] t(4) assms(3) by auto
  have k22: "k < 2 ^ 22" using k(2) t(4) by simp
  then have u: "unat (of_nat k :: 64 word) = k" "(of_nat k :: 64 word) < 2 ^ 32"
    using of_nat_small [of k] by (auto simp: word_less_nat_alt)
  have new: "M (of_nat k) = None" using t(5) k(3) u(1) by (metis domI not_None_eq)
  obtain m tr where i: "insert_tree_node (node_trees t) (node_tree b) c (of_nat k) = Inr (m, tr, KERN_SUCCESS)" "tree_rep C m tr (M(of_nat k \<mapsto> [c]))"
    using block_tree.ins_ok [OF t(3) u(2) assms(2), of c] new by (auto simp: enqueue_map_def)
  have "\<forall>j\<in>dom (M(of_nat k \<mapsto> [c])). unat j < 8 * length (use_number ?bm k) \<and> number_used (use_number ?bm k) (unat j)"
    using t(5) k(2) u(1) use_number_used [OF k(2)] by (auto simp: use_number_def [of ?bm k] domI)
  then have "tmpfs_tree C (t\<lparr>node_heap := nh, tmpfs_nodes := ns', tmpfs_node_number_bitmap := use_number ?bm k, node_trees := m,
        superblocks := (superblocks t)(sb \<mapsto> b\<lparr>node_tree := tr, tmpfs_node_count := cnt\<rparr>)\<rparr>) sb
      (b\<lparr>node_tree := tr, tmpfs_node_count := cnt\<rparr>) (M(of_nat k \<mapsto> [c]))" for ns' cnt
    using t i(2) by (auto simp: tmpfs_tree_def use_number_def deref_eq_Inr)
  then show ?thesis using k(1) new i(1) by auto
qed

definition fresh_node :: "8 word \<Rightarrow> byte list \<Rightarrow> tmpfs_data \<Rightarrow> tmpfs_node" where
  "fresh_node ty nm d = \<lparr>superblock = NULL, parent_tmpfs_node = NULL, node_name = nm, tmpfs_node_number = 0, tmpfs_node_size = 0,
     node_type = ty, node_data = d\<rparr>"

lemma conjure_ok:
  assumes "node_heap t = c # rest" "0 \<notin> set name" "length name < VFS_MAX_NAME_LENGTH" "ty \<in> {0, 1, 8}"
  shows "\<exists>d. conjure_new_tmpfs_node (name @ 0 # r) ty t =
    Inr (t\<lparr>node_heap := rest, tmpfs_nodes := (tmpfs_nodes t)(c \<mapsto> fresh_node ty (padded name) d)\<rparr>, c)"
  using assms copy_name(1) [OF assms(2,3), of r] by (auto simp: conjure_new_tmpfs_node_def fresh_node_def)

text \<open>
  Creation in a directory of tmpfs with an entry, a node number and memory left: the new vnode leads to the new node and
  the vnode of the directory still to the directory; the new node has the name and the directory as its parent, and is
  filed behind the last entry of the directory; the tree of the superblock has the new node under its number, which
  no other node has, and is well formed again.
\<close>

theorem tmpfs_create_found:
  assumes tree: "tmpfs_tree C (fs s) sb b M" "0 < bt_room (node_trees (fs s))"
      "\<exists>k<8 * length (tmpfs_node_number_bitmap (fs s)). \<not> number_used (tmpfs_node_number_bitmap (fs s)) k"
    and par: "get_vnode s pv = Inr pvn" "filesystem_object pvn = filesystem b" "M (vnode_inode_number pvn) = Some [pn]"
      "get_tnode (fs s) pn = Inr p" "superblock p = sb" "ucast (node_type p) = VNODE_DIRECTORY"
      "node_data p = Directory_entries es" "unat (tmpfs_node_size p) < length es"
    and heap: "node_heap (fs s) = c # rest" "c \<noteq> NULL" "c \<noteq> pn"
    and pool: "head (vnode_static_pool s) = NULL" "vheap s = a # vs" "a \<noteq> NULL" "a \<noteq> pv"
    and name: "0 \<notin> set name" "length name < VFS_MAX_NAME_LENGTH" "ty \<in> {0, 1, 8}"
  shows "\<exists>s' number b' n. tmpfs_create pv (name @ 0 # r) ty s = Inr (s', a) \<and>
    find_tmpfs_node_from_vnode a s' = Inr (s', c) \<and> find_tmpfs_node_from_vnode pv s' = Inr (s', pn) \<and>
    get_tnode (fs s') c = Inr n \<and> node_name n = padded name \<and> node_type n = ty \<and> parent_tmpfs_node n = pn \<and> tmpfs_node_size n = 0 \<and>
    get_tnode (fs s') pn = Inr (p\<lparr>node_data := Directory_entries (es[unat (tmpfs_node_size p) := c]), tmpfs_node_size := tmpfs_node_size p + 1\<rparr>) \<and>
    M number = None \<and> tmpfs_tree C (fs s') sb b' (M(number \<mapsto> [c]))"
proof -
  have pn: "pn \<noteq> NULL" "tmpfs_nodes (fs s) pn = Some p" using par(4) by (auto simp: get_tnode_def deref_eq_Inr)
  have sb: "deref (superblocks (fs s)) sb = Inr b" "sb \<noteq> NULL" using tree(1) by (auto simp: tmpfs_tree_def deref_eq_Inr)
  have f1: "find_tmpfs_node_from_vnode pv s = Inr (s, pn)" by (rule find_node_ok [OF tree(1) par(1-3) pn(1)])
  obtain d where d: "conjure_new_tmpfs_node (name @ 0 # r) ty (fs s) =
      Inr ((fs s)\<lparr>node_heap := rest, tmpfs_nodes := (tmpfs_nodes (fs s))(c \<mapsto> fresh_node ty (padded name) d)\<rparr>, c)"
    using conjure_ok [OF heap(1) name] by blast
  let ?ns = "(tmpfs_nodes (fs s))(c \<mapsto> fresh_node ty (padded name) d)"
  obtain number bm m tr where i: "tmpfs_node_bitmap_get ((fs s)\<lparr>node_heap := rest, tmpfs_nodes := ?ns\<rparr>) =
      Inr ((fs s)\<lparr>node_heap := rest, tmpfs_nodes := ?ns, tmpfs_node_number_bitmap := bm\<rparr>, number)" "M number = None"
    "insert_tree_node (node_trees (fs s)) (node_tree b) c number = Inr (m, tr, KERN_SUCCESS)"
    "\<And>ns cnt. tmpfs_tree C ((fs s)\<lparr>node_heap := rest, tmpfs_nodes := ns, tmpfs_node_number_bitmap := bm, node_trees := m,
        superblocks := (superblocks (fs s))(sb \<mapsto> b\<lparr>node_tree := tr, tmpfs_node_count := cnt\<rparr>)\<rparr>) sb
      (b\<lparr>node_tree := tr, tmpfs_node_count := cnt\<rparr>) (M(number \<mapsto> [c]))"
    using tmpfs_tree_insert [OF tree, where nh = rest and ns = ?ns and c = c] by blast
  let ?n = "(fresh_node ty (padded name) d)\<lparr>tmpfs_node_number := number, parent_tmpfs_node := pn, superblock := sb\<rparr>"
  let ?p = "p\<lparr>node_data := Directory_entries (es[unat (tmpfs_node_size p) := c]), tmpfs_node_size := tmpfs_node_size p + 1\<rparr>"
  let ?b = "b\<lparr>node_tree := tr, tmpfs_node_count := tmpfs_node_count b + 1\<rparr>"
  let ?t = "(fs s)\<lparr>node_heap := rest, tmpfs_nodes := (tmpfs_nodes (fs s))(c \<mapsto> ?n, pn \<mapsto> ?p), tmpfs_node_number_bitmap := bm, node_trees := m,
        superblocks := (superblocks (fs s))(sb \<mapsto> ?b)\<rparr>"
  let ?s = "s\<lparr>fs := ?t, vnodes := (vnodes s)(a \<mapsto> vnode_for ?b ?n), vheap := vs\<rparr>"
  have "tmpfs_node_to_vnode c (s\<lparr>fs := ?t\<rparr>) = Inr (?s, a)"
    using node_to_vnode_ok [of "s\<lparr>fs := ?t\<rparr>" c ?n name ?b a vs] name heap pool sb(2) by (simp add: get_tnode_def fresh_node_def)
  moreover have "insert_tmpfs_node_into_parent_directory_entries c ((fs s)\<lparr>node_heap := rest, tmpfs_node_number_bitmap := bm,
      tmpfs_nodes := (tmpfs_nodes (fs s))(c \<mapsto> ?n), node_trees := m, superblocks := (superblocks (fs s))(sb \<mapsto> ?b)\<rparr>) = Inr ?t"
    using heap pn par(6-8)
    by (simp add: get_tnode_def modify_tnode_def insert_tmpfs_node_into_parent_directory_entries_def fresh_node_def)
  ultimately have run: "tmpfs_create pv (name @ 0 # r) ty s = Inr (?s, a)"
    using f1 d i(1,3) heap pn par(5) sb
    by (simp add: tmpfs_create_def get_tnode_def modify_tnode_def fresh_node_def)
  have t: "tmpfs_tree C (fs ?s) sb ?b (M(number \<mapsto> [c]))" using i(4) by simp
  have "find_tmpfs_node_from_vnode a ?s = Inr (?s, c)"
    by (rule find_node_ok [OF t, of _ "vnode_for ?b ?n" _ "[]"]) (use pool heap in \<open>simp_all add: get_vnode_def fresh_node_def\<close>)
  moreover have "find_tmpfs_node_from_vnode pv ?s = Inr (?s, pn)"
    by (rule find_node_ok [OF t, of _ pvn _ "[]"]) (use pool par pn i(2) in \<open>auto simp: get_vnode_def deref_eq_Inr\<close>)
  ultimately show ?thesis using run t i(2) heap pn by (auto simp: get_tnode_def fresh_node_def)
qed

text \<open>A file system that has only the root directory, with number 0, in any tree that holds just it.\<close>

definition demo_root :: tmpfs_node where
  "demo_root = \<lparr>superblock = 1, parent_tmpfs_node = 0, node_name = [47, 0], tmpfs_node_number = 0, tmpfs_node_size = 0,
     node_type = 0, node_data = Directory_entries (replicate 64 NULL)\<rparr>"

definition demo_root_block :: "btree \<Rightarrow> tmpfs_superblock" where
  "demo_root_block tr = \<lparr>filesystem = 30, node_tree = tr, magic = TMPFS_MAGIC, tmpfs_node_count = 1\<rparr>"

definition demo_root_vnode :: vnode where
  "demo_root_vnode = zero_vnode\<lparr>filesystem_object := 30, node_lock := True, vnode_ops := TMPFS_OPS\<rparr>"

definition demo_root_fs :: "bt_mem \<Rightarrow> btree \<Rightarrow> tmpfs vfs" where
  "demo_root_fs m tr = demo_tfs\<lparr>vnodes := [19 \<mapsto> demo_root_vnode],
     fs := demo_tmpfs\<lparr>tmpfs_nodes := [200 \<mapsto> demo_root], node_heap := [500], node_trees := m, superblocks := [1 \<mapsto> demo_root_block tr],
       tmpfs_node_number_bitmap := [1]\<rparr>\<rparr>"

lemma demo_root_tree: "\<exists>m tr. tree_rep no_others m tr [0 \<mapsto> [200]] \<and> 0 < bt_room m"
proof -
  obtain s0 tr0 where i: "tree_rep no_others s0 tr0 Map.empty" "tree_room s0 = 4" "lists s0 = demo_mem"
    using init_tree_ok [OF demo_tmem_ok, of demo_tree] by (auto simp: demo_tmem_def)
  then have r: "bt_room s0 = 3" by (simp add: bt_room_def demo_room)
  have "(0 :: 64 word) < 2 ^ 32" by simp
  from block_tree.ins_ok [OF i(1) this, of 200] r show ?thesis by (fastforce simp: enqueue_map_def)
qed

lemma demo_root_fs_ok: "tree_rep no_others m tr [0 \<mapsto> [200]] \<Longrightarrow> tmpfs_tree no_others (fs (demo_root_fs m tr)) 1 (demo_root_block tr) [0 \<mapsto> [200]]"
  by (simp add: tmpfs_tree_def demo_root_fs_def demo_root_block_def demo_tfs_def demo_tmpfs_def number_used_def)

theorem tmpfs_create_found_witness:
  "\<exists>m tr s'. tmpfs_create 19 [97, 0] 1 (demo_root_fs m tr) = Inr (s', 21) \<and> find_tmpfs_node_from_vnode 21 s' = Inr (s', 500)"
proof -
  obtain m tr where t: "tree_rep no_others m tr [0 \<mapsto> [200]]" "0 < bt_room m" using demo_root_tree by blast
  have "\<exists>k<8. \<not> number_used [1] k" by (rule exI [of _ 1]) (simp add: number_used_def)
  then show ?thesis
    using tmpfs_create_found [OF demo_root_fs_ok [OF t(1)], of 19 demo_root_vnode 200 demo_root "replicate 64 NULL" 500 "[]" 21 "[22]" "[97]" 1 "[]"] t(2)
    by (force simp: demo_root_fs_def demo_tfs_def demo_tmpfs_def demo_root_vnode_def demo_root_block_def zero_vnode_def demo_root_def get_vnode_def get_tnode_def)
qed

section \<open>Removal\<close>

lemma remove_head_frees:
  assumes "dll_rep s l (a # qs)"
  shows "\<exists>s' l'. doubly_linked_list_remove_head s l = Inr (s', l') \<and> dnodes s' a = None"
proof -
  obtain n where n: "dnodes s a = Some n" "dhead l = a" "a \<noteq> NULL" "dseg (dnodes s) a (dnext n) qs NULL" "dcount l = Suc (length qs)" "a \<notin> set qs"
    using assms by (auto simp: dll_rep_def)
  then show ?thesis by (cases qs) (auto simp: doubly_linked_list_remove_head_def node_kfree_def)
qed

lemma free_pages_lists: "free_pages_from i ps t = Inr t' \<Longrightarrow> page_lists t' = page_lists t"
  by (induction i ps t rule: free_pages_from.induct) (auto simp: bindR_eq_Inr split: if_splits)

lemma remove_entries_faults:
  assumes "dll_rep (page_lists t) l ps"
  shows "\<exists>f. remove_entries (Suc k) (dhead l) l t = Inl f"
proof (cases ps)
  case Nil
  then show ?thesis using assms by (simp add: dll_rep_def)
next
  case (Cons a qs)
  obtain n where n: "dhead l = a" "a \<noteq> NULL" "dnodes (page_lists t) a = Some n" using assms Cons by (auto simp: dll_rep_def)
  show ?thesis
  proof (cases "free_page_list_entry (ddata n) t")
    case (Inl f)
    then show ?thesis using n by simp
  next
    case (Inr t')
    then have "page_lists t' = page_lists t"
      by (auto simp: free_page_list_entry_def bindR_eq_Inr dest: free_pages_lists)
    moreover obtain dm l' where "doubly_linked_list_remove_head (page_lists t) l = Inr (dm, l')" "dnodes dm a = None"
      using remove_head_frees assms Cons by blast
    ultimately show ?thesis using Inr n by (simp add: deref_def)
  qed
qed

text \<open>
  A file cannot be removed: its first list node is read after it has been freed, or is NULL if the file has no pages yet, so
  the removal of every file whose page list is well formed faults.
\<close>

theorem tmpfs_remove_file_faults:
  assumes "find_tmpfs_node_from_vnode v s = Inr (s', nd)" and "get_vnode s' v = Inr vn" "vnode_type vn = VNODE_FILE"
    and "get_tnode (fs s') nd = Inr n" "node_data n = Page_list l" and "dll_rep (page_lists (fs s')) l ps"
  shows "\<exists>f. tmpfs_remove v s = Inl f"
proof -
  let ?d = "tmpfs_node_size n div of_nat (PAGE_SIZE * PAGES_PER_TMPFS_ENTRY)"
  have "unat (tmpfs_node_size n) < 2 ^ 64" using unsigned_less [of "tmpfs_node_size n"] by simp
  then have "unat ?d < 2 ^ 42" by (simp add: unat_div less_mult_imp_div_less)
  then have "unat (?d + 1) = Suc (unat ?d)" by (subst unat_add_lem [THEN iffD1]) auto
  then obtain f where "remove_entries (unat (?d + 1)) (dhead l) l (fs s') = Inl f"
    using remove_entries_faults [OF assms(6)] by metis
  then have "tmpfs_delete_reg_file nd (fs s') = Inl f"
    using assms(4,5) unfolding tmpfs_delete_reg_file_def tmpfs_remove_all_data_pages_def by simp
  then show ?thesis using assms(1-3) by (simp add: tmpfs_remove_def lift_fs_def)
qed

theorem tmpfs_remove_file_faults_witness: "\<exists>f. tmpfs_remove 20 demo_tfs = Inl f"
proof -
  have "find_tmpfs_node_from_vnode 20 demo_tfs = Inr (demo_tfs, 200)" using demo_tmpfs_file by (simp add: tmpfs_file_def)
  moreover have "dll_rep (page_lists (fs demo_tfs)) \<lparr>dhead = 60, dtail = 0, dcount = 1\<rparr> [60]"
    by (simp add: dll_rep_def demo_tfs_def demo_tmpfs_def)
  ultimately show ?thesis
    by (intro tmpfs_remove_file_faults) (auto simp: demo_tfs_def demo_tmpfs_def get_vnode_def get_tnode_def demo_file_vnode_def)
qed

text \<open>
  Removing an empty directory that is the first entry of its parent succeeds and takes it out of the parent, but the
  directory stays in the tree of its superblock with its number in use: the search for the node still finds it, and what it
  finds has been freed.
\<close>

theorem tmpfs_remove_directory_dangles:
  assumes "find_tmpfs_node_from_vnode v s = Inr (s, nd)" and "get_vnode s v = Inr vn" "vnode_type vn = VNODE_DIRECTORY"
    and "get_tnode (fs s) nd = Inr n" "tmpfs_node_size n = 0" "parent_tmpfs_node n \<noteq> nd"
    and "get_tnode (fs s) (parent_tmpfs_node n) = Inr p" "node_data p = Directory_entries (nd # es)"
    and "0 < tmpfs_node_size p" "unat (tmpfs_node_size p) \<le> length (nd # es)" and "nd < 2 ^ 64"
  shows "\<exists>s'. tmpfs_remove v s = Inr s' \<and> find_tmpfs_node_from_vnode v s' = Inr (s', nd) \<and> get_tnode (fs s') nd = Inl NullDeref \<and>
    tmpfs_node_number_bitmap (fs s') = tmpfs_node_number_bitmap (fs s) \<and>
    (\<exists>es'. get_tnode (fs s') (parent_tmpfs_node n) =
      Inr (p\<lparr>node_data := Directory_entries es', tmpfs_node_size := tmpfs_node_size p - 1\<rparr>) \<and> length es' = length (nd # es))"
proof -
  let ?q = "parent_tmpfs_node n" and ?j = "unat (tmpfs_node_size p - 1)"
  have nz: "nd \<noteq> NULL" "tmpfs_nodes (fs s) nd = Some n" "?q \<noteq> NULL" "tmpfs_nodes (fs s) ?q = Some p"
    using assms(4,7) by (auto simp: get_tnode_def deref_eq_Inr)
  have j: "?j < length (nd # es)" using assms(9,10) by (simp add: unat_minus_one unat_gt_0)
  have w: "(of_nat nd :: 64 word) \<noteq> 0" using nz(1) assms(11) by (auto simp: word_of_nat_eq_0_iff dest: dvd_imp_le)
  let ?es = "(NULL # es)[0 := (NULL # es) ! ?j]"
  let ?p = "p\<lparr>node_data := Directory_entries ?es, tmpfs_node_size := tmpfs_node_size p - 1\<rparr>"
  let ?t = "(fs s)\<lparr>tmpfs_nodes := (tmpfs_nodes (fs s))(?q \<mapsto> ?p, nd := None), node_heap := nd # node_heap (fs s)\<rparr>"
  have "dirent_walk (length (nd # es)) (of_nat nd) (of_nat nd) 0 = Inr 0" using w by simp
  then have "tmpfs_remove_dirent_in_parent_directory nd (fs s) = Inr ((fs s)\<lparr>tmpfs_nodes := (tmpfs_nodes (fs s))(?q \<mapsto> ?p)\<rparr>)"
    using assms(4,7,8) j nz unfolding tmpfs_remove_dirent_in_parent_directory_def Let_def
    by (simp add: entries_of_def modify_tnode_def)
  then have "bindR (tmpfs_remove_dirent_in_parent_directory nd (fs s)) (kfree_node nd) = Inr ?t"
    using nz assms(6) by (simp add: kfree_node_def get_tnode_def)
  moreover have "tmpfs_delete_directory_recursively nd (fs s) = Inr (fs s)"
  proof -
    obtain k where k: "2 * 8 * PAGE_SIZE = Suc k" using not0_implies_Suc [of "2 * 8 * PAGE_SIZE"] by auto
    show ?thesis using assms(4,5) unfolding tmpfs_delete_directory_recursively_def k by simp
  qed
  ultimately have run: "tmpfs_remove v s = Inr (s\<lparr>fs := ?t\<rparr>)"
    using assms(1-3) by (simp add: tmpfs_remove_def lift_fs_def)
  have "find_tmpfs_node_from_vnode v (s\<lparr>fs := ?t\<rparr>) = Inr (s\<lparr>fs := ?t\<rparr>, nd)"
    by (rule find_node_frame [OF assms(1,2), of _ vn]) (use assms(2) in \<open>simp_all add: get_vnode_def\<close>)
  then show ?thesis using run nz assms(6) by (auto simp: get_tnode_def deref_def)
qed

text \<open>An empty directory 600 in the root directory 200.\<close>

definition demo_dir_fs :: "tmpfs vfs" where
  "demo_dir_fs = demo_tfs\<lparr>vnodes := [20 \<mapsto> demo_file_vnode\<lparr>vnode_type := VNODE_DIRECTORY\<rparr>],
     fs := demo_tmpfs\<lparr>tmpfs_nodes := [200 \<mapsto> demo_root\<lparr>parent_tmpfs_node := 700\<rparr>,
       700 \<mapsto> demo_root\<lparr>node_data := Directory_entries [200, 0], tmpfs_node_size := 1\<rparr>]\<rparr>\<rparr>"

theorem tmpfs_remove_directory_dangles_witness:
  "\<exists>s'. tmpfs_remove 20 demo_dir_fs = Inr s' \<and> find_tmpfs_node_from_vnode 20 s' = Inr (s', 200) \<and> get_tnode (fs s') 200 = Inl NullDeref"
proof -
  have "find_tmpfs_node_from_vnode 20 demo_tfs = Inr (demo_tfs, 200)" "get_vnode demo_tfs 20 = Inr demo_file_vnode"
    using demo_tmpfs_file by (auto simp: tmpfs_file_def)
  then have "find_tmpfs_node_from_vnode 20 demo_dir_fs = Inr (demo_dir_fs, 200)"
    by (rule find_node_frame [of _ _ _ _ _ "demo_file_vnode\<lparr>vnode_type := VNODE_DIRECTORY\<rparr>"])
      (simp_all add: demo_dir_fs_def demo_tfs_def get_vnode_def)
  from tmpfs_remove_directory_dangles [OF this, of "demo_file_vnode\<lparr>vnode_type := VNODE_DIRECTORY\<rparr>" "demo_root\<lparr>parent_tmpfs_node := 700\<rparr>"
      "demo_root\<lparr>node_data := Directory_entries [200, 0], tmpfs_node_size := 1\<rparr>" "[0]"]
  show ?thesis by (force simp: demo_dir_fs_def get_vnode_def get_tnode_def demo_root_def)
qed

section \<open>Entries of a parent\<close>

lemma dirent_walk_index:
  "dirent_walk k cur target i = Inr j \<Longrightarrow> i \<le> j \<and> j < i + k \<and> cur + 192 * of_nat (j - i) = target"
proof (induction k cur target i rule: dirent_walk.induct)
  case (2 k cur target i)
  show ?case
  proof (cases "cur = target")
    case True
    then show ?thesis using 2 by (auto split: if_splits)
  next
    case False
    then have IH: "Suc i \<le> j" "j < Suc i + k" "cur + 192 + 192 * of_nat (j - Suc i) = target"
      using 2 by (auto split: if_splits)
    then have "(of_nat (j - i) :: 64 word) = of_nat (j - Suc i) + 1" by (metis Suc_diff_Suc Suc_le_lessD of_nat_Suc add.commute)
    then have "cur + 192 * of_nat (j - i) = cur + 192 + 192 * of_nat (j - Suc i)" by (simp add: distrib_left)
    with IH show ?thesis by auto
  qed
qed simp

text \<open>
  The entry of a node that is not the first of its directory is not taken out: with the nodes one slab object of 256 bytes
  apart, as the heap hands them out, a removal that succeeds leaves the node's entry in its place.
\<close>

theorem tmpfs_remove_dirent_misses:
  assumes "get_tnode t (es ! i) = Inr n" and "get_tnode t (parent_tmpfs_node n) = Inr p" "node_data p = Directory_entries es" "length es \<le> 64"
    and "\<forall>j\<le>i. es ! j = base + 256 * j" "base + 256 * 64 < 2 ^ 64" and "0 < i" "i < length es"
    and "tmpfs_remove_dirent_in_parent_directory (es ! i) t = Inr t'"
  shows "\<exists>p' es'. get_tnode t' (parent_tmpfs_node n) = Inr p' \<and> node_data p' = Directory_entries es' \<and> es' ! i = es ! i"
proof -
  obtain k where k: "dirent_walk (length es) (of_nat (es ! 0)) (of_nat (es ! i)) 0 = Inr k"
    using assms(1-3,9) by (auto simp: tmpfs_remove_dirent_in_parent_directory_def entries_of_def bindR_eq_Inr split: if_splits)
  have a: "es ! 0 = base" "es ! i = base + 256 * i" using assms(5) by auto
  have "k < 64" "(of_nat (base + 192 * k) :: 64 word) = of_nat (base + 256 * i)"
    using dirent_walk_index [OF k] assms(4) a by auto
  moreover have "i < 64" using assms(4,8) by simp
  moreover have "unat (of_nat x :: 64 word) = x" if "x < 2 ^ 64" for x using that by (simp add: unat_of_nat)
  moreover have "base + 192 * k < 2 ^ 64" "base + 256 * i < 2 ^ 64" using calculation(1,3) assms(6) by linarith+
  ultimately have "base + 192 * k = base + 256 * i" by metis
  then have ne: "k \<noteq> i" using assms(7) by simp
  show ?thesis using assms(1-3,9) k ne
    by (auto simp: tmpfs_remove_dirent_in_parent_directory_def entries_of_def bindR_eq_Inr Let_def modify_tnode_def get_tnode_def modify_eq_Inr split: if_splits)
qed

text \<open>Four nodes in one slab; the search for the entry of the last one ends at index 4.\<close>

definition demo_dirents :: tmpfs where
  "demo_dirents = demo_tmpfs\<lparr>tmpfs_nodes := [200 \<mapsto> demo_root\<lparr>node_data := Directory_entries [0x1100, 0x1200, 0x1300, 0x1400, 0, 0], tmpfs_node_size := 4\<rparr>,
     0x1400 \<mapsto> demo_root\<lparr>parent_tmpfs_node := 200\<rparr>]\<rparr>"

theorem tmpfs_remove_dirent_misses_witness:
  "\<exists>t' p' es'. tmpfs_remove_dirent_in_parent_directory 0x1400 demo_dirents = Inr t' \<and> get_tnode t' 200 = Inr p' \<and>
    node_data p' = Directory_entries es' \<and> es' ! 3 = 0x1400"
proof -
  let ?es = "[0x1100, 0x1200, 0x1300, 0x1400, 0, 0] :: addr list"
  let ?p = "demo_root\<lparr>node_data := Directory_entries ?es, tmpfs_node_size := 4\<rparr>"
  let ?n = "demo_root\<lparr>parent_tmpfs_node := 200\<rparr>"
  have "dirent_walk (Suc (Suc (Suc (Suc (Suc (Suc 0)))))) 0x1100 0x1400 0 = Inr 4" by simp
  then have "dirent_walk 6 0x1100 0x1400 0 = Inr 4" by (simp only: numeral_eq_Suc pred_numeral_simps BitM.simps)
  then obtain t' where "tmpfs_remove_dirent_in_parent_directory (?es ! 3) demo_dirents = Inr t'"
    by (simp add: tmpfs_remove_dirent_in_parent_directory_def demo_dirents_def get_tnode_def entries_of_def modify_tnode_def demo_root_def)
  moreover have "\<forall>j\<le>3. ?es ! j = 0x1100 + 256 * j"
  proof (intro allI impI)
    fix j :: nat assume "j \<le> 3"
    then consider "j = 0" | "j = 1" | "j = 2" | "j = 3" by linarith
    then show "?es ! j = 0x1100 + 256 * j" by cases simp_all
  qed
  ultimately show ?thesis
    using tmpfs_remove_dirent_misses [of demo_dirents ?es 3 ?n ?p "0x1100" t']
    by (simp add: demo_dirents_def get_tnode_def demo_root_def)
qed

end
