(* ===== verification/DiosFS_Vnodes.thy ===== *)
theory DiosFS_Vnodes
  imports DiosFS_Dirs VFS
begin

text \<open>
  The operations of \<^verbatim>\<open>filesystem/diosfs.c\<close> on vnodes, through which the virtual file system reaches a volume, and
  the creation and registration of a file system. The private state is the device and the contexts. The lock
  of a context is left out.
\<close>

section \<open>State\<close>

text \<open>
  An element of the array \<^verbatim>\<open>diosfs_filesystem_context\<close>, with the address of its \<^verbatim>\<open>filesystem_info\<close>, the major
  number of its device, and the operations of its driver for each minor number; element \<open>i\<close> has address \<open>i + 1\<close>.
\<close>

record 'd dios_context =
  ctx :: "'d diosfs_filesystem_context"
  fs_info :: addr
  fs_device_major :: nat
  driver_ops :: "nat \<Rightarrow> 'd block_device_ops"

record 'd dios_state =
  dios_contexts :: "addr \<rightharpoonup> 'd dios_context"
  disk :: 'd
  fresh_children :: "addr list"

text \<open>\<open>fresh_children\<close> is what the heap hands out for an array of children, which \<^verbatim>\<open>diosfs_lookup\<close> does not clear.\<close>

type_synonym 'd dios_vfs = "'d dios_state vfs"

abbreviation (input) DIOSFS_OPS :: addr where "DIOSFS_OPS \<equiv> 3"
abbreviation (input) VNODE_FS_DIOSFS :: "64 word" where "VNODE_FS_DIOSFS \<equiv> 0xF"
abbreviation (input) DIOSFS_CANNOT_WRITE_DIRECTORY :: nat where "DIOSFS_CANNOT_WRITE_DIRECTORY \<equiv> 4"
abbreviation (input) DIOSFS_BAD_SYMLINK :: nat where "DIOSFS_BAD_SYMLINK \<equiv> 5"
abbreviation (input) DIOSFS_UNEXPECTED_SYMLINK_TYPE :: nat where "DIOSFS_UNEXPECTED_SYMLINK_TYPE \<equiv> 6"
abbreviation (input) DIOSFS_MAGIC :: nat where "DIOSFS_MAGIC \<equiv> 0x7777777777777777"
abbreviation (input) DIOSFS_NUM_BLOCKS :: nat where "DIOSFS_NUM_BLOCKS \<equiv> 128 * 1024 * 8"
abbreviation (input) DIOSFS_NUM_INODES :: nat where "DIOSFS_NUM_INODES \<equiv> 16 * 1024 * 8"
abbreviation (input) DEFAULT_DIOSFS_SIZE :: nat where
  "DEFAULT_DIOSFS_SIZE \<equiv> 1024 + 16 * 1024 + 128 * 1024 + DIOSFS_NUM_BLOCKS * 1024 + DIOSFS_NUM_INODES * 1024"
abbreviation (input) MAX_DEPTH :: nat where "MAX_DEPTH \<equiv> 2 ^ 16"

text \<open>The vnode, its context and the number of its inode.\<close>

definition dios_vnode :: "addr \<Rightarrow> 'd dios_vfs \<Rightarrow> (vnode \<times> 'd dios_context) res" where
  "dios_vnode v s = bindR (get_vnode s v) (\<lambda>n. bindR (deref (dios_contexts (fs s)) (filesystem_object n)) (\<lambda>c. Inr (n, c)))"

definition set_disk :: "'d \<Rightarrow> 'd dios_vfs \<Rightarrow> 'd dios_vfs" where
  "set_disk d s = s\<lparr>fs := (fs s)\<lparr>disk := d\<rparr>\<rparr>"

definition vnode_inode :: "'d dios_context \<Rightarrow> vnode \<Rightarrow> 'd dios_vfs \<Rightarrow> diosfs_inode res" where
  "vnode_inode c n s = diosfs_read_inode (ctx c) (unat (vnode_inode_number n)) (disk (fs s))"

section \<open>Links\<close>

text \<open>
  \<^verbatim>\<open>diosfs_follow_link\<close> looks up the path in the first block of the link; the table \<open>T\<close> is that of the file systems that the
  lookup calls.
\<close>

definition diosfs_follow_link :: "'d dios_state fs_table \<Rightarrow> 'd dios_context \<Rightarrow> vnode \<Rightarrow> 'd dios_vfs \<Rightarrow> ('d dios_vfs \<times> addr) res" where
  "diosfs_follow_link T c n s =
     bindR (vnode_inode c n s) (\<lambda>inode.
       if i_blocks inode = [] then Inl OutOfBounds
       else bindR (diosfs_read_block_by_number (ctx c) (unat (i_blocks inode ! 0)) (replicate 4096 0) 0 0 1024 (disk (fs s))) (\<lambda>temp_buffer.
              vnode_lookup T temp_buffer s))"

definition diosfs_symlink_check ::
  "'d dios_state fs_table \<Rightarrow> 'd dios_context \<Rightarrow> vnode \<Rightarrow> 16 word \<Rightarrow> 'd dios_vfs \<Rightarrow> ('d dios_vfs \<times> nat) res" where
  "diosfs_symlink_check T c n expected_type s =
     bindR (diosfs_follow_link T c n s) (\<lambda>(s, link).
       if link = NULL then Inr (s, DIOSFS_BAD_SYMLINK)
       else bindR (get_vnode s link) (\<lambda>l.
         if vnode_type l \<noteq> expected_type then Inr (s, DIOSFS_UNEXPECTED_SYMLINK_TYPE) else Inr (s, DIOSFS_SUCCESS)))"

section \<open>Reading and writing\<close>

definition diosfs_read ::
  "'d dios_state fs_table \<Rightarrow> addr \<Rightarrow> 64 word \<Rightarrow> byte list \<Rightarrow> 64 word \<Rightarrow> 'd dios_vfs \<Rightarrow> ('d dios_vfs \<times> byte list \<times> int) res" where
  "diosfs_read T v offset buffer bytes s =
     bindR (dios_vnode v s) (\<lambda>(n, c).
     bindR (if vnode_type n = VNODE_HARD_LINK then diosfs_symlink_check T c n VFS.VNODE_FILE s else Inr (s, DIOSFS_SUCCESS)) (\<lambda>(s, ret).
       if ret \<noteq> DIOSFS_SUCCESS then Inr (s, buffer, int DIOSFS_UNEXPECTED_SYMLINK_TYPE)
       else bindR (vnode_inode c n s) (\<lambda>inode.
         if s_block_size (fs_superblock (ctx c)) = 0 then Inl DivideError
         else bindR (diosfs_read_bytes_from_inode (ctx c) inode buffer 0 (unat ((bytes + 4095) AND NOT 4095))
                  (unat offset mod s_block_size (fs_superblock (ctx c))) (unat bytes) (disk (fs s))) (\<lambda>(ret, buffer).
                Inr (s, buffer, int ret)))))"

definition diosfs_write ::
  "'d dios_state fs_table \<Rightarrow> addr \<Rightarrow> 64 word \<Rightarrow> byte list \<Rightarrow> 64 word \<Rightarrow> 'd dios_vfs \<Rightarrow> ('d dios_vfs \<times> int) res" where
  "diosfs_write T v offset buffer bytes s =
     bindR (dios_vnode v s) (\<lambda>(n, c).
       if vnode_type n = VFS.VNODE_DIRECTORY then Inr (s, int DIOSFS_CANNOT_WRITE_DIRECTORY)
       else bindR (if vnode_type n = VNODE_SYM_LINK then
                     bindR (diosfs_symlink_check T c n VFS.VNODE_FILE s) (\<lambda>(s, ret).
                       if ret \<noteq> DIOSFS_SUCCESS then Inr (s, None)
                       else bindR (diosfs_follow_link T c n s) (\<lambda>(s, w). Inr (s, Some w)))
                   else Inr (s, Some v)) (\<lambda>(s, w).
         case w of None \<Rightarrow> Inr (s, int DIOSFS_UNEXPECTED_SYMLINK_TYPE)
         | Some v \<Rightarrow>
           bindR (get_vnode s v) (\<lambda>n.
           bindR (vnode_inode c n s) (\<lambda>inode.
           bindR (diosfs_write_bytes_to_inode (ctx c) inode buffer 0 (unat bytes) (unat offset) (unat bytes) (disk (fs s))) (\<lambda>(ret, _, d).
             if ret \<noteq> DIOSFS_SUCCESS then Inr (set_disk d s, int DIOSFS_ERROR)
             else bindR (modify_vnode (set_disk d s) v (\<lambda>n. n\<lparr>vnode_size := vnode_size n + bytes\<rparr>)) (\<lambda>s.
                    Inr (s, int DIOSFS_SUCCESS)))))))"

definition diosfs_stat :: "addr \<Rightarrow> 'd dios_vfs \<Rightarrow> int res" where
  "diosfs_stat v s = bindR (dios_vnode v s) (\<lambda>_. Inr (int DIOSFS_SUCCESS))"

section \<open>Lookup\<close>

text \<open>
  \<^verbatim>\<open>diosfs_directory_entry_to_vnode\<close>. The inode is read before the vnode has its number, so it is inode 0 for a vnode that comes cleared.
\<close>

definition diosfs_directory_entry_to_vnode ::
  "addr \<Rightarrow> diosfs_directory_entry \<Rightarrow> addr \<Rightarrow> 'd dios_context \<Rightarrow> 'd dios_vfs \<Rightarrow> ('d dios_vfs \<times> addr) res" where
  "diosfs_directory_entry_to_vnode parent_vnode entry co c s =
     bindR (vnode_alloc s) (\<lambda>(s, v).
     bindR (get_vnode s v) (\<lambda>n.
     bindR (vnode_inode c n s) (\<lambda>inode.
     bindR (safe_strcpy (vnode_name n) 0 (dirent_bytes entry) MAX_FILENAME_LENGTH) (\<lambda>nm.
     bindR (modify_vnode s v (\<lambda>n. n\<lparr>filesystem_info := fs_info c, vnode_type := de_type entry, vnode_device_id := ucast (de_device_number entry),
              vnode_size := ucast (de_size entry), vnode_inode_number := ucast (de_inode_number entry), vnode_filesystem_id := VNODE_FS_DIOSFS,
              vnode_ops := DIOSFS_OPS, vnode_refcount := i_refcount inode, is_mount_point := False, mounted_vnode := NULL, is_cached := False,
              vnode_name := nm, num_children := (if de_type entry = VFS.VNODE_DIRECTORY then ucast (de_size entry) else 0),
              filesystem_object := co, vnode_parent := parent_vnode, node_lock := True\<rparr>)) (\<lambda>s.
       Inr (s, v))))))"

text \<open>Storing a child at index \<open>i\<close> of the parent's array.\<close>

definition add_child :: "addr \<Rightarrow> nat \<Rightarrow> addr \<Rightarrow> 'f vfs \<Rightarrow> 'f vfs res" where
  "add_child p i c s =
     bindR (get_vnode s p) (\<lambda>n. case vnode_children n of None \<Rightarrow> Inl NullDeref
       | Some cs \<Rightarrow> if length cs \<le> i then Inl OutOfBounds
           else modify_vnode s p (\<lambda>n. n\<lparr>vnode_children := Some (cs[i := c]), num_children := num_children n + 1, vnode_size := vnode_size n + 1\<rparr>))"

text \<open>The loop of \<^verbatim>\<open>diosfs_lookup\<close> from entry \<open>i\<close>, with \<open>k\<close> to go.\<close>

fun lookup_loop :: "nat \<Rightarrow> nat \<Rightarrow> addr \<Rightarrow> byte list \<Rightarrow> diosfs_directory_entry list \<Rightarrow> bool \<Rightarrow> addr \<Rightarrow> 'd dios_context \<Rightarrow> addr \<Rightarrow> 'd dios_vfs \<Rightarrow>
    ('d dios_vfs \<times> addr) res" where
  "lookup_loop 0 i p name entries fill co c child s = Inr (s, child)"
| "lookup_loop (Suc k) i p name entries fill co c child s =
     (if length entries \<le> i then Inl OutOfBounds
      else bindR (if child = NULL then safe_strcmp name (dirent_bytes (entries ! i)) VFS_MAX_NAME_LENGTH else Inr 0) (\<lambda>eq.
        if eq \<noteq> 0 then
          bindR (diosfs_directory_entry_to_vnode p (entries ! i) co c s) (\<lambda>(s, v).
          bindR (add_child p i v s) (\<lambda>s.
            if \<not> fill then Inr (s, v) else lookup_loop k (Suc i) p name entries fill co c v s))
        else if fill then
          bindR (diosfs_directory_entry_to_vnode p (entries ! i) co c s) (\<lambda>(s, v).
          bindR (add_child p i v s) (\<lambda>s. lookup_loop k (Suc i) p name entries fill co c child s))
        else lookup_loop k (Suc i) p name entries fill co c child s))"

definition diosfs_lookup :: "addr \<Rightarrow> byte list \<Rightarrow> 'd dios_vfs \<Rightarrow> ('d dios_vfs \<times> addr) res" where
  "diosfs_lookup p name s =
     bindR (dios_vnode p s) (\<lambda>(n, c).
       if vnode_filesystem_id n \<noteq> VNODE_FS_DIOSFS \<or> vnode_type n \<noteq> VFS.VNODE_DIRECTORY then Inr (s, NULL)
       else bindR (vnode_inode c n s) (\<lambda>inode.
         if i_size inode = 0 then Inr (s, NULL)
         else bindR (diosfs_get_directory_entries (ctx c) (unat (vnode_inode_number n)) (s_block_size (fs_superblock (ctx c)) * NUM_BLOCKS_DIRECT)
                       (disk (fs s))) (\<lambda>(ret, entries).
           if ret \<noteq> DIOSFS_SUCCESS then Inr (s, NULL)
           else bindR (if ucast (num_children n) = i_size inode then
                         (case vnode_children n of None \<Rightarrow> Inl NullDeref | Some cs \<Rightarrow> if cs = [] then Inl OutOfBounds else Inr (hd cs \<noteq> NULL))
                       else Inr False) (\<lambda>filled.
                bindR (if filled then modify_vnode s p (\<lambda>n. n\<lparr>is_cached := True\<rparr>) else Inr s) (\<lambda>s.
                bindR (if vnode_flags n AND VNODE_CHILD_MEMORY_ALLOCATED = 0 then
                         modify_vnode s p (\<lambda>n. n\<lparr>vnode_children := Some (fresh_children (fs s)),
                           vnode_flags := vnode_flags n OR VNODE_CHILD_MEMORY_ALLOCATED\<rparr>) else Inr s) (\<lambda>s.
                  lookup_loop (min (unat (i_size inode)) VNODE_MAX_DIRECTORY_ENTRIES) 0 p name entries (\<not> (is_cached n \<or> filled))
                    (filesystem_object n) c NULL s))))))"

section \<open>Creation\<close>

definition diosfs_create :: "addr \<Rightarrow> byte list \<Rightarrow> 8 word \<Rightarrow> 'd dios_vfs \<Rightarrow> ('d dios_vfs \<times> addr) res" where
  "diosfs_create p name ty s =
     bindR (get_vnode s p) (\<lambda>pv.
       if vnode_filesystem_id pv \<noteq> VNODE_FS_DIOSFS then Inl (Panic ''diosfs_create parent filesystem ID doesn't match'')
       else if vnode_type pv \<noteq> VFS.VNODE_DIRECTORY then Inr (s, NULL)
       else bindR (deref (dios_contexts (fs s)) (filesystem_object pv)) (\<lambda>c.
            bindR (vnode_alloc s) (\<lambda>(s, new_vnode).
            bindR (diosfs_get_free_inode_and_mark_bitmap (ctx c) (disk (fs s))) (\<lambda>(inode, d).
            bindR (diosfs_read_inode (ctx c) (unat (vnode_inode_number pv)) d) (\<lambda>parent_inode.
            bindR (modify_vnode s p (\<lambda>n. n\<lparr>vnode_size := vnode_size n + 1\<rparr>)) (\<lambda>s.
            bindR (get_vnode s new_vnode) (\<lambda>nv.
            bindR (safe_strcpy (vnode_name nv) 0 name MAX_FILENAME_LENGTH) (\<lambda>nm.
            bindR (modify_vnode s new_vnode (\<lambda>n. n\<lparr>filesystem_info := fs_info c, vnode_type := ucast ty, vnode_inode_number := ucast (i_inode_number inode),
                     filesystem_object := filesystem_object pv, vnode_refcount := 1, vnode_children := None, vnode_device_id := vnode_device_id pv,
                     vnode_ops := DIOSFS_OPS, vnode_parent := p, vnode_filesystem_id := vnode_filesystem_id pv, is_cached := True, vnode_name := nm\<rparr>)) (\<lambda>s.
            bindR (safe_strcpy (i_name inode) 0 name MAX_FILENAME_LENGTH) (\<lambda>inm.
            let inode = inode\<lparr>i_type := ucast ty, i_block_count := 0, i_parent_inode_number := ucast (vnode_inode_number pv), i_name := inm, i_uid := 0\<rparr> in
            bindR (diosfs_write_inode (ctx c) inode d) (\<lambda>d.
            bindR (safe_strcpy (replicate MAX_FILENAME_LENGTH 0) 0 name MAX_FILENAME_LENGTH) (\<lambda>enm.
            bindR (diosfs_write_dirent (ctx c) (parent_inode\<lparr>i_size := i_size parent_inode + 1\<rparr>)
                     \<lparr>de_name = enm, de_inode_number = ucast (i_inode_number inode), de_parent_inode_number = ucast (i_parent_inode_number inode),
                      de_type = i_type inode, de_device_number = word_of_nat (fs_device_minor (ctx c)), de_size = 0\<rparr> d) (\<lambda>(ret, parent_inode, d).
            bindR (diosfs_write_inode (ctx c) parent_inode d) (\<lambda>d.
              if ret \<noteq> DIOSFS_SUCCESS then Inl (Panic ''Could not write dirent'') else Inr (set_disk d s, new_vnode)))))))))))))))"

definition diosfs_close :: "addr \<Rightarrow> 64 word \<Rightarrow> 'd dios_vfs \<Rightarrow> 'd dios_vfs res" where
  "diosfs_close v handle s = Inr s"

definition diosfs_open :: "addr \<Rightarrow> int" where
  "diosfs_open v = int DIOSFS_SUCCESS"

text \<open>The canonical path of the vnode to link, with fuel for its depth, is the name of the link.\<close>

definition diosfs_link :: "nat \<Rightarrow> addr \<Rightarrow> addr \<Rightarrow> 8 word \<Rightarrow> 'd dios_vfs \<Rightarrow> ('d dios_vfs \<times> addr) res" where
  "diosfs_link depth p vnode_to_link ty s =
     bindR (dios_vnode p s) (\<lambda>_.
       if ucast ty = VNODE_HARD_LINK then Inl (Panic ''unimplemented hard link diosfs'')
       else if ucast ty = VNODE_SYM_LINK then
         bindR (vnode_get_canonical_path depth vnode_to_link s) (\<lambda>pth. case pth of None \<Rightarrow> Inl Unmodelled | Some pth \<Rightarrow> diosfs_create p pth 8 s)
       else Inl (Panic ''Unrecognized diosfs link type''))"

section \<open>Removal and renaming\<close>

definition diosfs_remove :: "addr \<Rightarrow> 'd dios_vfs \<Rightarrow> 'd dios_vfs res" where
  "diosfs_remove v s =
     bindR (dios_vnode v s) (\<lambda>(n, c).
     bindR (vnode_inode c n s) (\<lambda>inode.
     bindR (diosfs_directory_entry_free MAX_DEPTH (ctx c) None inode (disk (fs s))) (\<lambda>(_, d).
       Inr (set_disk d s))))"

definition diosfs_rename :: "addr \<Rightarrow> byte list \<Rightarrow> 'd dios_vfs \<Rightarrow> 'd dios_vfs res" where
  "diosfs_rename v new_name s =
     bindR (get_vnode s v) (\<lambda>n.
       if vnode_inode_number n = 0 then Inr s
       else bindR (dios_vnode v s) (\<lambda>(n, c).
            bindR (vnode_inode c n s) (\<lambda>inode.
            bindR (safe_strcpy (i_name inode) 0 new_name MAX_FILENAME_LENGTH) (\<lambda>nm.
            bindR (diosfs_write_inode (ctx c) (inode\<lparr>i_name := nm\<rparr>) (disk (fs s))) (\<lambda>d.
            bindR (get_vnode s (vnode_parent n)) (\<lambda>p.
            bindR (diosfs_find_directory_entry_and_update (ctx c) (unat (vnode_inode_number n)) (unat (vnode_inode_number p)) d) (\<lambda>(_, d).
              Inr (set_disk d s))))))))"

text \<open>The vnode of a symbolic link is freed and then used again.\<close>

definition diosfs_unlink :: "addr \<Rightarrow> 'd dios_vfs \<Rightarrow> 'd dios_vfs res" where
  "diosfs_unlink v s =
     bindR (dios_vnode v s) (\<lambda>(n, c).
     bindR (vnode_inode c n s) (\<lambda>inode.
     bindR (if i_type inode = VNODE_SYM_LINK then
              bindR (diosfs_remove_file (ctx c) inode (disk (fs s))) (\<lambda>(inode, d).
              bindR (vnode_free (set_disk d s) v) (\<lambda>s. Inr (inode, s)))
            else Inr (inode, s)) (\<lambda>(inode, s).
       if i_refcount inode \<le> 1 then diosfs_remove v s
       else bindR (diosfs_write_inode (ctx c) (inode\<lparr>i_refcount := i_refcount inode - 1\<rparr>) (disk (fs s))) (\<lambda>d. Inr (set_disk d s)))))"

text \<open>
  The table of operations. A lookup inside an operation goes through the table \<open>T\<close> of all file systems, which holds this table again;
  \<open>diosfs_table k\<close> follows symbolic links up to a depth of \<open>k\<close>.
\<close>

definition diosfs_vnode_ops :: "'d dios_state fs_table \<Rightarrow> 'd dios_vfs vnode_operations" where
  "diosfs_vnode_ops T = \<lparr>op_lookup = diosfs_lookup, op_create = diosfs_create, op_remove = diosfs_remove, op_rename = diosfs_rename,
     op_write = diosfs_write T, op_read = diosfs_read T, op_unlink = diosfs_unlink, op_close = diosfs_close\<rparr>"

fun diosfs_table :: "nat \<Rightarrow> 'd dios_state fs_table" where
  "diosfs_table 0 = Map.empty"
| "diosfs_table (Suc k) = [DIOSFS_OPS \<mapsto> diosfs_vnode_ops (diosfs_table k)]"

section \<open>Creating and registering a file system\<close>

definition set_device :: "nat \<Rightarrow> nat \<Rightarrow> 'd dios_context \<Rightarrow> 'd dios_context" where
  "set_device device_id device_type c =
     c\<lparr>ctx := (ctx c)\<lparr>fs_device_minor := device_id, fs_ops := driver_ops c device_id\<rparr>, fs_device_major := device_type\<rparr>"

text \<open>\<^verbatim>\<open>struct diosfs_superblock\<close> as it lies in memory, with the reserved words of static storage.\<close>

definition superblock_bytes :: "diosfs_superblock \<Rightarrow> byte list" where
  "superblock_bytes b = bytes_of (map word_of_nat [s_magic b, s_version b, s_block_size b, s_num_blocks b, s_num_inodes b, s_total_size b,
     s_inode_bitmap_size b, s_block_bitmap_size b, s_inode_bitmap_pointers_start b, s_block_bitmap_pointers_start b,
     s_inode_start_pointer b, s_block_start_pointer b]) @ replicate (116 * 8) 0"

record diosfs_size_calculation =
  total_blocks :: "64 word"
  total_inodes :: "64 word"
  total_data_blocks :: "64 word"
  total_block_bitmap_blocks :: "64 word"
  total_inode_bitmap_blocks :: "64 word"

definition diosfs_get_size_info :: "diosfs_size_calculation \<Rightarrow> 64 word \<Rightarrow> 64 word \<Rightarrow> diosfs_size_calculation res" where
  "diosfs_get_size_info z gigabytes block_size =
     (if gigabytes = 0 then Inr z
      else if block_size = 0 then Inl DivideError
      else let size_bytes = push_bit 30 gigabytes; blocks = size_bytes div block_size; split = blocks div 32;
               inodes = split * (block_size div 256) in
        Inr \<lparr>total_blocks = blocks + 1, total_inodes = inodes, total_data_blocks = blocks - split,
             total_block_bitmap_blocks = blocks div block_size div 8, total_inode_bitmap_blocks = inodes div 8 div block_size\<rparr>)"

text \<open>The vnode of the root directory; it is cleared after its allocation, the pointer to its lock included.\<close>

definition mount_dios_root :: "addr \<Rightarrow> diosfs_inode \<Rightarrow> 16 word \<Rightarrow> 'd dios_vfs \<Rightarrow> 'd dios_vfs res" where
  "mount_dios_root co root_inode refs s =
     bindR (vnode_alloc s) (\<lambda>(s, v).
     bindR (strcpy (vnode_name zero_vnode) 0 [SLASH, 0]) (\<lambda>nm.
     bindR (modify_vnode s v (\<lambda>_. zero_vnode\<lparr>vnode_name := nm, filesystem_object := co, vnode_inode_number := ucast (i_inode_number root_inode),
              vnode_type := VFS.VNODE_DIRECTORY, vnode_ops := DIOSFS_OPS, vnode_refcount := refs, vnode_filesystem_id := VNODE_FS_DIOSFS\<rparr>)) (\<lambda>s.
     bindR (vnode_mount vfs_root v s) (\<lambda>(s, _). Inr s))))"

definition set_context :: "addr \<Rightarrow> 'd dios_context \<Rightarrow> 'd dios_vfs \<Rightarrow> 'd dios_vfs" where
  "set_context co c s = s\<lparr>fs := (fs s)\<lparr>dios_contexts := (dios_contexts (fs s))(co \<mapsto> c)\<rparr>\<rparr>"

text \<open>
  The superblock is read as data block 0 of the volume that the superblock in memory describes; that is block 0 of the
  device as long as the superblock in memory is still zero.
\<close>

definition diosfs_register_filesystem :: "nat \<Rightarrow> nat \<Rightarrow> addr \<Rightarrow> 'd dios_vfs \<Rightarrow> 'd dios_vfs res" where
  "diosfs_register_filesystem device_id device_type co s =
     bindR (deref (dios_contexts (fs s)) co) (\<lambda>c.
     let c = set_device device_id device_type c in
     bindR (diosfs_read_block_by_number (ctx c) 0 (superblock_bytes (fs_superblock (ctx c))) 0 0 1024 (disk (fs s))) (\<lambda>sb.
     let c = c\<lparr>ctx := (ctx c)\<lparr>fs_superblock := bytes_superblock sb\<rparr>\<rparr> in
     bindR (diosfs_read_inode (ctx c) 0 (disk (fs s))) (\<lambda>root_inode.
       mount_dios_root co root_inode 0 (set_context co c s))))"

text \<open>The superblock of a new file system; the areas follow each other.\<close>

definition new_superblock :: diosfs_superblock where
  "new_superblock = \<lparr>s_magic = DIOSFS_MAGIC, s_version = 1, s_block_size = 1024, s_num_blocks = DIOSFS_NUM_BLOCKS, s_num_inodes = DIOSFS_NUM_INODES,
     s_total_size = DEFAULT_DIOSFS_SIZE, s_inode_bitmap_size = DIOSFS_NUM_INODE_POINTER_BLOCKS, s_block_bitmap_size = DIOSFS_NUM_BLOCK_POINTER_BLOCKS,
     s_inode_bitmap_pointers_start = 1, s_block_bitmap_pointers_start = 1 + DIOSFS_NUM_INODE_POINTER_BLOCKS,
     s_inode_start_pointer = 1 + DIOSFS_NUM_INODE_POINTER_BLOCKS + DIOSFS_NUM_BLOCK_POINTER_BLOCKS,
     s_block_start_pointer = 1 + DIOSFS_NUM_INODE_POINTER_BLOCKS + DIOSFS_NUM_BLOCK_POINTER_BLOCKS + DIOSFS_NUM_INODES div NUM_INODES_PER_BLOCK\<rparr>"

text \<open>\<open>k\<close> blocks from \<open>b\<close> on are overwritten with the buffer; the status is not looked at.\<close>

fun write_zero_blocks :: "'d diosfs_filesystem_context \<Rightarrow> nat \<Rightarrow> nat \<Rightarrow> byte list \<Rightarrow> 'd \<Rightarrow> 'd res" where
  "write_zero_blocks c b 0 buffer d = Inr d"
| "write_zero_blocks c b (Suc k) buffer d =
     bindR (block_write (fs_ops c) b 1 buffer 0 d) (\<lambda>(_, d). write_zero_blocks c (Suc b) k buffer d)"

definition format_disk :: "'d diosfs_filesystem_context \<Rightarrow> byte list \<Rightarrow> 'd \<Rightarrow> 'd res" where
  "format_disk c sb d =
     (let b = fs_superblock c; zeros = replicate 4096 0 in
      bindR (block_write (fs_ops c) 0 1 (overwrite (fs_kmalloc c 4096) 0 sb) 0 d) (\<lambda>(_, d).
      bindR (write_zero_blocks c (s_inode_bitmap_pointers_start b) (s_inode_bitmap_size b) zeros d) (\<lambda>d.
      bindR (write_zero_blocks c (s_block_bitmap_pointers_start b) (s_block_bitmap_size b) zeros d) (\<lambda>d.
        if s_block_size b div 256 = 0 then Inl DivideError
        else bindR (write_zero_blocks c (s_inode_start_pointer b) (s_num_inodes b div (s_block_size b div 256)) zeros d) (\<lambda>d.
             write_zero_blocks c (s_block_start_pointer b) (s_num_blocks b) zeros d)))))"

definition bytes_c :: "string \<Rightarrow> byte list" where
  "bytes_c s = map of_char s @ [0]"

fun create_all :: "'d dios_state fs_table \<Rightarrow> (string \<times> string \<times> 8 word) list \<Rightarrow> 'd dios_vfs \<Rightarrow> 'd dios_vfs res" where
  "create_all T [] s = Inr s"
| "create_all T ((pth, name, ty) # xs) s = bindR (vnode_create T (bytes_c pth) (bytes_c name) ty s) (\<lambda>(s, _). create_all T xs s)"

text \<open>
  The superblock written to the disk is the first element of the array of superblocks, whatever the context. The inode that
  the allocator returns is cleared apart from its number.
\<close>

definition diosfs_create_new_ramdisk_fs :: "'d dios_state fs_table \<Rightarrow> nat \<Rightarrow> nat \<Rightarrow> addr \<Rightarrow> 'd dios_vfs \<Rightarrow> 'd dios_vfs res" where
  "diosfs_create_new_ramdisk_fs T device_id device_type co s =
     bindR (deref (dios_contexts (fs s)) co) (\<lambda>c.
     let c = set_device device_id device_type (c\<lparr>ctx := (ctx c)\<lparr>fs_superblock := new_superblock\<rparr>\<rparr>);
         s = set_context co c s in
     bindR (deref (dios_contexts (fs s)) 1) (\<lambda>c0.
     bindR (format_disk (ctx c) (superblock_bytes (fs_superblock (ctx c0))) (disk (fs s))) (\<lambda>d.
     bindR (diosfs_get_free_inode_and_mark_bitmap (ctx c) d) (\<lambda>(root_inode, d).
     bindR (strcpy (i_name root_inode) 0 [SLASH, 0]) (\<lambda>nm.
     let root_inode = root_inode\<lparr>i_type := VNODE_DIRECTORY, i_name := nm, i_parent_inode_number := i_inode_number root_inode\<rparr> in
     bindR (diosfs_write_inode (ctx c) root_inode d) (\<lambda>d.
     bindR (mount_dios_root co root_inode 1 (set_disk d s)) (\<lambda>s.
     bindR (create_all T [(''/'', ''etc'', 0), (''/'', ''dev'', 0), (''/'', ''mnt'', 0), (''/'', ''var'', 0), (''/'', ''bin'', 0), (''/'', ''root'', 0),
              (''/'', ''home'', 0), (''/dev'', ''rd0'', 3), (''/'', ''temp'', 0)] s) (\<lambda>s.
     bindR (vnode_create T (bytes_c ''/etc'') (bytes_c ''passwd'') 1 s) (\<lambda>(s, passwd).
     bindR (vnode_create T (bytes_c ''/etc'') (bytes_c ''config.txt'') 1 s) (\<lambda>(s, _).
     bindR (vnode_write T passwd 0 16 (bytes_c ''dustyn password'') s) (\<lambda>(s, _). Inr s)))))))))))"

definition dios_mkfs :: "'d dios_state fs_table \<Rightarrow> nat \<Rightarrow> nat \<Rightarrow> addr \<Rightarrow> 'd dios_vfs \<Rightarrow> 'd dios_vfs res" where
  "dios_mkfs T device_id device_type co s = diosfs_create_new_ramdisk_fs T device_id device_type co s"

end
