(* ===== verification/DiosFS_Calls.thy ===== *)
theory DiosFS_Calls
  imports DiosFS_Vnodes VFS_Lookup
begin

text \<open>
  What the operations of DiosFS on vnodes do on a volume of a RAM disk: writing and reading a file, filling a
  directory's vnode with its entries, creating a file, and registering a file system.
\<close>

unbundle bit_operations_syntax

section \<open>Files\<close>

text \<open>A vnode, its context, and a device in the state that the contract of the volume asks for.\<close>

definition volume_vnode :: "ramdisk_device \<Rightarrow> nat \<Rightarrow> addr \<Rightarrow> vnode \<Rightarrow> ramdisk list dios_context \<Rightarrow> ramdisk list dios_vfs \<Rightarrow> bool" where
  "volume_vnode device nblk v n c s \<longleftrightarrow> get_vnode s v = Inr n \<and> deref (dios_contexts (fs s)) (filesystem_object n) = Inr c \<and>
     dios_ok (ctx c) device nblk (disk (fs s))"

lemma volume_vnodeD:
  assumes "volume_vnode device nblk v n c s"
  shows "get_vnode s v = Inr n" "dios_vnode v s = Inr (n, c)" "dios_ok (ctx c) device nblk (disk (fs s))"
  using assms by (auto simp: volume_vnode_def dios_vnode_def)

lemma round_up_page:
  assumes "0 < unat (w :: 64 word)" "unat w \<le> 4096"
  shows "(w + 4095) AND NOT 4095 = 4096"
proof -
  define c where "c = w - 1"
  have "1 \<le> w" using assms(1) by (simp add: word_le_nat_alt)
  then have c: "unat c < 4096" using assms by (simp add: c_def unat_sub)
  have b: "\<not> bit c n" if "12 \<le> n" for n using c that bit_le_unat [of c n] power_increasing [of 12 n "2::nat"] by auto
  have e: "bit (4096 :: 64 word) n \<longleftrightarrow> n = 12" for n using bit_exp_iff [where 'a = "64 word", of 12 n] by auto
  have m: "(4095 :: 64 word) = mask 12" by (simp add: mask_eq_exp_minus_1)
  have "(4096 :: 64 word) AND c = 0" 
  proof (rule bit_word_eqI)
    show "bit ((4096 :: 64 word) AND c) n \<longleftrightarrow> bit (0 :: 64 word) n" for n
      using b [of 12] by (simp only: bit_and_iff e) simp
  qed
  then have "4096 + c = 4096 OR c" by (rule disjunctive_add_eq_or)
  moreover have "w + 4095 = 4096 + c" by (simp add: c_def)
  moreover have "(4096 OR c) AND NOT 4095 = 4096" 
  proof (rule bit_word_eqI)
    show "bit ((4096 OR c) AND NOT (4095 :: 64 word)) n \<longleftrightarrow> bit (4096 :: 64 word) n" if "n < LENGTH(64)" for n
      using b [of n] that unfolding m by (simp only: bit_and_iff bit_or_iff bit_not_iff bit_mask_iff e) auto
  qed
  ultimately show ?thesis by simp
qed

text \<open>C36: 
  Writing up to 1023 bytes at the start of a file through its vnode and reading them back through the vnode.
  Whatever the number of bytes, a whole block moves in both directions: the read puts the first 1024 bytes of the
  writer's buffer into the reader's, so both buffers must have that many (a shorter one is overrun); the bytes that were
  asked for are among them, and the vnode's size counts every write. The file is not empty, owns its first block, and
  its entry is in the first block of its directory (\<open>linked_file\<close>).
\<close>

theorem diosfs_vnode_write_read:
  assumes v: "volume_vnode device nblk v n c s" and t: "vnode_type n = VFS.VNODE_FILE"
    and f: "linked_file (fs_superblock (ctx c)) (dios_view (ctx c) device (disk (fs s))) (unat (vnode_inode_number n)) f"
    and b: "0 < unat bytes" "unat bytes < 1024" "1024 \<le> length buf" "1024 \<le> length buf'"
  shows "\<exists>s' out. diosfs_write T v 0 buf bytes s = Inr (s', 0) \<and>
    get_vnode s' v = Inr (n\<lparr>vnode_size := vnode_size n + bytes\<rparr>) \<and>
    diosfs_read T v 0 buf' bytes s' = Inr (s', out, 0) \<and> out = take 1024 buf @ drop 1024 buf' \<and>
    take (unat bytes) out = take (unat bytes) buf"
proof -
  let ?c = "ctx c" and ?d = "disk (fs s)" and ?k = "unat (vnode_inode_number n)" and ?sz = "unat bytes"
  note vv = v and ok = volume_vnodeD(3) [OF v] and v = volume_vnodeD [OF v]
  have l: "?k < s_num_inodes (fs_superblock ?c)" "i_type f = DiosFS_Layout.VNODE_FILE" "inodes (dios_view ?c device ?d) ?k = f"
    "unat (i_blocks f ! 0) < s_num_blocks (fs_superblock ?c)"
    using f by (auto simp: linked_file_def Let_def)
  obtain f' d' where w: "diosfs_write_bytes_to_inode ?c f buf 0 ?sz 0 ?sz ?d = Inr (DIOSFS_SUCCESS, f', d')"
    "dios_ok ?c device nblk d'" "f' = f\<lparr>i_size := i_size f'\<rparr>"
    "inodes (dios_view ?c device d') ?k = f'" "blocks (dios_view ?c device d') (unat (i_blocks f ! 0)) = window buf 0 1024"
    using write_linked_file [OF ok f, of 0 ?sz ?sz 0 buf] b by auto
  have f': "i_type f' = DiosFS_Layout.VNODE_FILE" "i_blocks f' = i_blocks f"
    using arg_cong [OF w(3), of i_type] arg_cong [OF w(3), of i_blocks] l(2) by simp_all
  have wf: "wf_inode f'" using dios.wf_inodes [OF w(2), of ?k] w(4) by (simp add: dios_view_def)
  let ?out = "overwrite buf' 0 (window buf 0 1024)"
  have rd: "diosfs_read_bytes_from_inode ?c f' buf' 0 4096 0 ?sz d' = Inr (DIOSFS_SUCCESS, ?out)"
    using dios.read_bytes_ok [OF w(2) wf f'(1), of 0 ?sz 4096 0 buf'] b l f'(2) w(5) by (simp add: dios_view_def)
  let ?n = "n\<lparr>vnode_size := vnode_size n + bytes\<rparr>"
  let ?s = "(set_disk d' s)\<lparr>vnodes := (vnodes s)(v \<mapsto> ?n)\<rparr>"
  have i: "vnode_inode c n s = Inr f" "diosfs_read_inode ?c ?k d' = Inr f'"
    using dios.read_inode_ok [OF ok l(1)] dios.read_inode_ok [OF w(2) l(1)] l(3) w(4) by (simp_all add: vnode_inode_def dios_view_def)
  have "modify_vnode (set_disk d' s) v (\<lambda>n. n\<lparr>vnode_size := vnode_size n + bytes\<rparr>) = Inr ?s"
    using v(1) by (auto simp: modify_vnode_def get_vnode_def deref_eq_Inr set_disk_def)
  then have "diosfs_write T v 0 buf bytes s = Inr (?s, 0)"
    using v t i(1) w(1) by (simp add: diosfs_write_def DIOSFS_SUCCESS_def)
  moreover have "dios_vnode v ?s = Inr (?n, c)"
    using vv by (auto simp: volume_vnode_def dios_vnode_def get_vnode_def set_disk_def deref_eq_Inr)
  moreover have "vnode_inode c ?n ?s = Inr f'" using i(2) by (simp add: vnode_inode_def set_disk_def)
  ultimately have "diosfs_write T v 0 buf bytes s = Inr (?s, 0)" "diosfs_read T v 0 buf' bytes ?s = Inr (?s, ?out, 0)"
    using t rd dios.block_size_eq [OF ok] round_up_page [of bytes] b
    by (simp_all add: diosfs_read_def DIOSFS_SUCCESS_def set_disk_def)
  moreover have "take ?sz ?out = take ?sz buf" using b by (intro nth_equalityI) (auto simp: nth_overwrite nth_window)
  moreover have "?out = take 1024 buf @ drop 1024 buf'" using b by (simp add: overwrite_def window_def)
  moreover have "get_vnode ?s v = Inr ?n" using v(1) by (auto simp: get_vnode_def deref_eq_Inr)
  ultimately show ?thesis by blast
qed

text \<open>An example: the directory with inode 2 and the file with inode 5 of the demonstration volume.\<close>

definition demo_context :: "ramdisk list dios_context" where
  "demo_context = \<lparr>ctx = demo_fs, fs_info = 9, fs_device_major = 0, driver_ops = (\<lambda>_. ramdisk_ops demo_device)\<rparr>"

definition demo_dios_vnode :: "16 word \<Rightarrow> 64 word \<Rightarrow> vnode" where
  "demo_dios_vnode ty i = zero_vnode\<lparr>vnode_type := ty, vnode_inode_number := i, filesystem_object := 1, vnode_ops := DIOSFS_OPS,
     vnode_filesystem_id := VNODE_FS_DIOSFS, node_lock := True\<rparr>"

definition demo_dios :: "ramdisk list \<Rightarrow> ramdisk list dios_vfs" where
  "demo_dios rds = \<lparr>vnodes = [1 \<mapsto> demo_dios_vnode 0 2, 2 \<mapsto> demo_dios_vnode 1 5], vheap = [6, 7, 8],
     vl = vl demo_vfs, vl_pool = [], vnode_static_pool = vnode_static_pool demo_vfs, vnode_used_pool = vnode_used_pool demo_vfs,
     fs_refs = (\<lambda>_. 0), handles = Map.empty, hheap = [], hl = hl demo_vfs, handle_list = handle_list demo_vfs,
     num_handles = 0, handle_id_bitmap = 0, current_working_dir = 1,
     fs = \<lparr>dios_contexts = [1 \<mapsto> demo_context], disk = rds, fresh_children = replicate 64 170\<rparr>\<rparr>"

lemma demo_volume_vnode:
  assumes "dios_ok demo_fs demo_device 32 rds"
  shows "volume_vnode demo_device 32 1 (demo_dios_vnode 0 2) demo_context (demo_dios rds)"
    "volume_vnode demo_device 32 2 (demo_dios_vnode 1 5) demo_context (demo_dios rds)"
  using assms by (simp_all add: volume_vnode_def demo_dios_def get_vnode_def demo_context_def demo_dios_vnode_def)

theorem diosfs_vnode_write_read_witness:
  "\<exists>rds s' out. diosfs_write Map.empty 2 0 (replicate 1024 7) 200 (demo_dios rds) = Inr (s', 0) \<and>
    diosfs_read Map.empty 2 0 (replicate 4096 0) 200 s' = Inr (s', out, 0) \<and> take 200 out = replicate 200 7"
proof -
  obtain rds where r: "dios_ok demo_fs demo_device 32 rds"
    "linked_file (fs_superblock demo_fs) (dios_view demo_fs demo_device rds) 5 DiosFS_Dirs.demo_file" using demo_linked_file by blast
  have "linked_file (fs_superblock (ctx demo_context)) (dios_view (ctx demo_context) demo_device (disk (fs (demo_dios rds))))
      (unat (vnode_inode_number (demo_dios_vnode 1 5))) DiosFS_Dirs.demo_file"
    using r(2) by (simp add: demo_context_def demo_dios_def demo_dios_vnode_def)
  then have "\<exists>s' out. diosfs_write Map.empty 2 0 (replicate 1024 7) 200 (demo_dios rds) = Inr (s', 0) \<and>
      get_vnode s' 2 = Inr ((demo_dios_vnode 1 5)\<lparr>vnode_size := vnode_size (demo_dios_vnode 1 5) + 200\<rparr>) \<and>
      diosfs_read Map.empty 2 0 (replicate 4096 0) 200 s' = Inr (s', out, 0) \<and>
      out = take 1024 (replicate 1024 7) @ drop 1024 (replicate 4096 0) \<and> take (unat (200 :: 64 word)) out = take (unat (200 :: 64 word)) (replicate 1024 7)"
    by (intro diosfs_vnode_write_read [OF demo_volume_vnode(2) [OF r(1)]]) (simp_all add: demo_dios_vnode_def)
  moreover have "take (unat (200 :: 64 word)) (replicate 1024 (7 :: byte)) = replicate 200 7" "unat (200 :: 64 word) = 200" by simp_all
  ultimately show ?thesis by (simp only:) blast
qed

section \<open>Lookup\<close>

definition de_text :: "diosfs_directory_entry \<Rightarrow> byte list" where
  "de_text e = takeWhile (\<lambda>c. c \<noteq> 0) (de_name e)"

definition named_entry :: "diosfs_directory_entry \<Rightarrow> bool" where
  "named_entry e \<longleftrightarrow> wf_dirent e \<and> 0 \<in> set (de_name e)"

text \<open>The vnode for an entry, with the reference count that is read from inode 0.\<close>

definition entry_vnode :: "addr \<Rightarrow> addr \<Rightarrow> 'd dios_context \<Rightarrow> 16 word \<Rightarrow> diosfs_directory_entry \<Rightarrow> vnode" where
  "entry_vnode p co c r e = zero_vnode\<lparr>filesystem_info := fs_info c, vnode_type := de_type e, vnode_device_id := ucast (de_device_number e),
     vnode_size := ucast (de_size e), vnode_inode_number := ucast (de_inode_number e), vnode_filesystem_id := VNODE_FS_DIOSFS,
     vnode_ops := DIOSFS_OPS, vnode_refcount := r, vnode_name := padded (de_text e),
     num_children := (if de_type e = VFS.VNODE_DIRECTORY then ucast (de_size e) else 0), filesystem_object := co,
     vnode_parent := p, node_lock := True\<rparr>"

lemma named_entry_bytes:
  assumes "named_entry e"
  obtains r where "dirent_bytes e = de_text e @ 0 # r" "0 \<notin> set (de_text e)" "length (de_text e) < 128"
proof -
  obtain a b where ab: "de_name e = a @ 0 # b" "0 \<notin> set a" using assms by (auto simp: named_entry_def dest: split_list_first)
  have "takeWhile (\<lambda>c. c \<noteq> 0) (a @ 0 # b) = a" using ab(2) by (subst takeWhile_append2) auto
  then have a: "de_text e = a" by (simp add: de_text_def ab(1))
  have "length (de_name e) = 128" using assms by (simp add: named_entry_def wf_dirent_def)
  then have "length a < 128" using ab by simp
  then show thesis using that a ab by (auto simp: dirent_bytes_def)
qed

lemma entry_to_vnode:
  assumes "dios_ok (ctx c) device nblk (disk (fs s))" "0 < s_num_inodes (fs_superblock (ctx c))" "named_entry e"
    and "head (vnode_static_pool s) = NULL" "vheap s = a # as" "a \<noteq> NULL"
  shows "diosfs_directory_entry_to_vnode p e co c s =
    Inr (s\<lparr>vnodes := (vnodes s)(a \<mapsto> entry_vnode p co c (i_refcount (inodes (dios_view (ctx c) device (disk (fs s))) 0)) e),
      vheap := as\<rparr>, a)"
proof -
  obtain r where r: "dirent_bytes e = de_text e @ 0 # r" "0 \<notin> set (de_text e)" "length (de_text e) < 128"
    using named_entry_bytes [OF assms(3)] .
  have i: "diosfs_read_inode (ctx c) 0 (disk (fs s)) = Inr (inodes (dios_view (ctx c) device (disk (fs s))) 0)"
    using dios.read_inode_ok [OF assms(1,2)] by (simp add: dios_view_def)
  show ?thesis
    using assms(4-) i copy_name(1) [OF r(2,3), of r]
    by (simp add: diosfs_directory_entry_to_vnode_def vnode_alloc_def get_vnode_def modify_vnode_def vnode_inode_def zero_vnode_def
        r(1) MAX_FILENAME_LENGTH_def entry_vnode_def)
qed

text \<open>One turn of the loop of a lookup that fills the directory's vnode, and the whole loop.\<close>

lemma lookup_loop_fills:
  assumes "dios_ok (ctx c) device nblk (disk (fs s))" "0 < s_num_inodes (fs_superblock (ctx c))"
    and "\<forall>e\<in>set es. named_entry e" "i + k \<le> length es" "0 \<notin> set x" "length x < VFS_MAX_NAME_LENGTH"
    and "head (vnode_static_pool s) = NULL" "vheap s = hs" "k \<le> length hs" "NULL \<notin> set hs" "p \<notin> set hs" "distinct hs"
    and "get_vnode s p = Inr pn" "vnode_children pn = Some cs" "i + k \<le> length cs"
  shows "\<exists>s'. lookup_loop k i p (x @ [0]) es True co c child s =
      Inr (s', if child \<noteq> NULL then child
               else case find (\<lambda>j. names_match x (de_text (es ! j))) [i..<i + k] of None \<Rightarrow> NULL | Some j \<Rightarrow> hs ! (j - i)) \<and>
    get_vnode s' p = Inr (pn\<lparr>vnode_children := Some (take i cs @ take k hs @ drop (i + k) cs),
      num_children := num_children pn + of_nat k, vnode_size := vnode_size pn + of_nat k\<rparr>) \<and>
    (\<forall>j<k. vnodes s' (hs ! j) =
      Some (entry_vnode p co c (i_refcount (inodes (dios_view (ctx c) device (disk (fs s))) 0)) (es ! (i + j)))) \<and>
    (\<forall>a. a \<noteq> p \<and> a \<notin> set (take k hs) \<longrightarrow> vnodes s' a = vnodes s a) \<and> fs s' = fs s"
  using assms
proof (induction k arbitrary: i child s hs pn cs)
  case 0
  then show ?case by simp
next
  case (Suc k)
  let ?r = "i_refcount (inodes (dios_view (ctx c) device (disk (fs s))) 0)"
  obtain a as where hs: "hs = a # as" using Suc.prems(9) by (cases hs) auto
  have a: "a \<noteq> NULL" "a \<noteq> p" "NULL \<notin> set as" "p \<notin> set as" "distinct as" "a \<notin> set as" using Suc.prems(10-12) hs by auto
  have i: "i < length es" "i < length cs" using Suc.prems(4,15) by auto
  then have e: "named_entry (es ! i)" using Suc.prems(3) by simp
  let ?s1 = "s\<lparr>vnodes := (vnodes s)(a \<mapsto> entry_vnode p co c ?r (es ! i)), vheap := as\<rparr>"
  have v: "diosfs_directory_entry_to_vnode p (es ! i) co c s = Inr (?s1, a)"
    using Suc.prems(7,8) a(1) hs by (intro entry_to_vnode [OF Suc.prems(1,2) e]) simp_all
  let ?pn = "pn\<lparr>vnode_children := Some (cs[i := a]), num_children := num_children pn + 1, vnode_size := vnode_size pn + 1\<rparr>"
  let ?s2 = "?s1\<lparr>vnodes := (vnodes ?s1)(p \<mapsto> ?pn)\<rparr>"
  have ch: "add_child p i a ?s1 = Inr ?s2"
    using Suc.prems(13,14) a(2) i by (auto simp: add_child_def get_vnode_def modify_vnode_def deref_eq_Inr)
  obtain r where "dirent_bytes (es ! i) = de_text (es ! i) @ 0 # r" "0 \<notin> set (de_text (es ! i))" "length (de_text (es ! i)) < 128"
    using named_entry_bytes [OF e] .
  then have cmp: "safe_strcmp (x @ [0]) (dirent_bytes (es ! i)) VFS_MAX_NAME_LENGTH = Inr (if names_match x (de_text (es ! i)) then 1 else 0)"
    using safe_strcmp_eq [OF Suc.prems(5), of "de_text (es ! i)" VFS_MAX_NAME_LENGTH "[]" r] by simp
  let ?child = "if child = NULL \<and> names_match x (de_text (es ! i)) then a else child"
  have step: "lookup_loop (Suc k) i p (x @ [0]) es True co c child s = lookup_loop k (Suc i) p (x @ [0]) es True co c ?child ?s2"
    using v ch cmp i(1) by simp
  have pr: "dios_ok (ctx c) device nblk (disk (fs ?s2))" "Suc i + k \<le> length es" "head (vnode_static_pool ?s2) = NULL" "vheap ?s2 = as"
    "k \<le> length as" "get_vnode ?s2 p = Inr ?pn" "vnode_children ?pn = Some (cs[i := a])" "Suc i + k \<le> length (cs[i := a])"
    using Suc.prems hs by (auto simp: get_vnode_def deref_eq_Inr)
  have f2: "fs ?s2 = fs s" by simp
  let ?m = "\<lambda>j. names_match x (de_text (es ! j))"
  obtain s' where s': "lookup_loop k (Suc i) p (x @ [0]) es True co c ?child ?s2 = Inr (s', if ?child \<noteq> NULL then ?child
        else case find ?m [Suc i..<Suc i + k] of None \<Rightarrow> NULL | Some j \<Rightarrow> as ! (j - Suc i))"
      "get_vnode s' p = Inr (?pn\<lparr>vnode_children := Some (take (Suc i) (cs[i := a]) @ take k as @ drop (Suc i + k) (cs[i := a])),
        num_children := num_children ?pn + of_nat k, vnode_size := vnode_size ?pn + of_nat k\<rparr>)"
      "\<forall>j<k. vnodes s' (as ! j) = Some (entry_vnode p co c ?r (es ! (Suc i + j)))"
      "\<forall>b. b \<noteq> p \<and> b \<notin> set (take k as) \<longrightarrow> vnodes s' b = vnodes ?s2 b" "fs s' = fs s"
    using Suc.IH [OF pr(1) Suc.prems(2,3) pr(2) Suc.prems(5,6) pr(3-5) a(3-5) pr(6-8), of ?child, unfolded f2] by blast
  have "(if ?child \<noteq> NULL then ?child else case find ?m [Suc i..<Suc i + k] of None \<Rightarrow> NULL | Some j \<Rightarrow> as ! (j - Suc i)) =
      (if child \<noteq> NULL then child else case find ?m [i..<i + Suc k] of None \<Rightarrow> NULL | Some j \<Rightarrow> hs ! (j - i))"
  proof -
    have u: "[i..<i + Suc k] = i # [Suc i..<Suc i + k]" by (simp add: upt_conv_Cons del: upt_Suc)
    have "as ! (j - Suc i) = hs ! (j - i)" if "find ?m [Suc i..<Suc i + k] = Some j" for j
    proof -
      have "j \<in> set [Suc i..<Suc i + k]" using that by (metis find_Some_iff nth_mem)
      then have "j - i = Suc (j - Suc i)" by (simp del: upt_Suc) arith
      then show ?thesis by (simp add: hs)
    qed
    then show ?thesis unfolding u using a(1) by (auto simp: hs simp del: upt_Suc split: option.splits)
  qed
  moreover have "take (Suc i) (cs[i := a]) @ take k as @ drop (Suc i + k) (cs[i := a]) = take i cs @ take (Suc k) hs @ drop (i + Suc k) cs"
    using i(2) by (simp add: hs take_Suc_conv_app_nth)
  moreover have "vnodes s' (hs ! j) = Some (entry_vnode p co c ?r (es ! (i + j)))" if "j < Suc k" for j
  proof (cases j)
    case 0
    then show ?thesis using s'(4) a hs by (auto dest: in_set_takeD)
  next
    case (Suc l)
    then show ?thesis using s'(3) that hs by simp
  qed
  moreover have "vnodes s' b = vnodes s b" if "b \<noteq> p" "b \<notin> set (take (Suc k) hs)" for b using s'(4) that hs by simp
  ultimately show ?case using step s'(1,2,5) by (intro exI [of _ s']) (simp del: lookup_loop.simps)
qed

text \<open>C35: 
  A lookup in a directory that is not cached gives it one new vnode per entry, in the order of the entries, and returns the
  first whose name matches the name looked for, or NULL. What lies behind the entries in the array of
  children is what the heap left there.
\<close>

theorem diosfs_lookup_fills_directory:
  assumes v: "volume_vnode device nblk p n c s"
    and n: "vnode_type n = VFS.VNODE_DIRECTORY" "vnode_filesystem_id n = VNODE_FS_DIOSFS" "\<not> is_cached n" "num_children n = 0"
      "vnode_flags n AND VNODE_CHILD_MEMORY_ALLOCATED = 0"
    and i: "unat (vnode_inode_number n) < s_num_inodes (fs_superblock (ctx c))"
      "inodes (dios_view (ctx c) device (disk (fs s))) (unat (vnode_inode_number n)) = inode"
      "i_type inode = DiosFS_Layout.VNODE_DIRECTORY" "dir_blocks_ok (s_num_blocks (fs_superblock (ctx c))) inode"
      "unat (i_block_count inode) \<le> 10" "0 < unat (i_size inode)" "unat (i_size inode) \<le> 64"
    and es: "dir_list (dios_view (ctx c) device (disk (fs s))) inode = es" "\<forall>e\<in>set es. named_entry e"
    and x: "0 \<notin> set x" "length x < VFS_MAX_NAME_LENGTH" and f: "length (fresh_children (fs s)) = 64"
    and h: "head (vnode_static_pool s) = NULL" "vheap s = hs" "length es \<le> length hs" "NULL \<notin> set hs" "p \<notin> set hs" "distinct hs"
  shows "\<exists>s'. diosfs_lookup p (x @ [0]) s =
      Inr (s', case find (\<lambda>j. names_match x (de_text (es ! j))) [0..<length es] of None \<Rightarrow> NULL | Some j \<Rightarrow> hs ! j) \<and>
    get_vnode s' p = Inr (n\<lparr>vnode_children := Some (take (length es) hs @ drop (length es) (fresh_children (fs s))),
      num_children := of_nat (length es), vnode_size := vnode_size n + of_nat (length es),
      vnode_flags := vnode_flags n OR VNODE_CHILD_MEMORY_ALLOCATED\<rparr>) \<and>
    (\<forall>j<length es. vnodes s' (hs ! j) = Some (entry_vnode p (filesystem_object n) c
      (i_refcount (inodes (dios_view (ctx c) device (disk (fs s))) 0)) (es ! j))) \<and> fs s' = fs s"
proof -
  let ?V = "dios_view (ctx c) device (disk (fs s))"
  note ok = volume_vnodeD(3) [OF v] and v = volume_vnodeD(1,2) [OF v]
  have wf: "wf_inode inode" using dios.wf_inodes [OF ok, of "unat (vnode_inode_number n)"] i(2) by (simp add: dios_view_def)
  have len: "length es = unat (i_size inode)" using length_dir_list [OF wf, of ?V] i(7) es(1) by simp
  have iv: "vnode_inode c n s = Inr inode" using dios.read_inode_ok [OF ok i(1)] i(2) by (simp add: vnode_inode_def dios_view_def)
  have get: "diosfs_get_directory_entries (ctx c) (unat (vnode_inode_number n)) (1024 * 10) (disk (fs s)) = Inr (DIOSFS_SUCCESS, es)"
    using dios.get_directory_entries_ok [OF ok i(1), of "1024 * 10"] i es by (simp add: dios_view_def)
  let ?n = "n\<lparr>vnode_children := Some (fresh_children (fs s)), vnode_flags := vnode_flags n OR VNODE_CHILD_MEMORY_ALLOCATED\<rparr>"
  let ?s = "s\<lparr>vnodes := (vnodes s)(p \<mapsto> ?n)\<rparr>"
  have m: "modify_vnode s p (\<lambda>n. n\<lparr>vnode_children := Some (fresh_children (fs s)), vnode_flags := vnode_flags n OR VNODE_CHILD_MEMORY_ALLOCATED\<rparr>) = Inr ?s"
    using v(1) by (auto simp: modify_vnode_def get_vnode_def deref_eq_Inr)
  have "ucast (num_children n) \<noteq> i_size inode" using n(4) i(6) by (auto simp: unsigned_0)
  then have lk: "diosfs_lookup p (x @ [0]) s = lookup_loop (length es) 0 p (x @ [0]) es True (filesystem_object n) c NULL ?s"
    using v n iv i(6,7) get m dios.block_size_eq [OF ok] len
    by (simp add: diosfs_lookup_def NUM_BLOCKS_DIRECT_def min_absorb1 del: lookup_loop.simps) 
  have pr: "dios_ok (ctx c) device nblk (disk (fs ?s))" "0 < s_num_inodes (fs_superblock (ctx c))" "0 + length es \<le> length es"
    "head (vnode_static_pool ?s) = NULL" "vheap ?s = hs" "get_vnode ?s p = Inr ?n" "vnode_children ?n = Some (fresh_children (fs s))"
    "0 + length es \<le> length (fresh_children (fs s))"
    using ok i h v(1) len f by (auto simp: get_vnode_def deref_eq_Inr)
  have f2: "fs ?s = fs s" by simp
  obtain s' where "lookup_loop (length es) 0 p (x @ [0]) es True (filesystem_object n) c NULL ?s =
      Inr (s', case find (\<lambda>j. names_match x (de_text (es ! j))) [0..<length es] of None \<Rightarrow> NULL | Some j \<Rightarrow> hs ! j)"
    "get_vnode s' p = Inr (?n\<lparr>vnode_children := Some (take (length es) hs @ drop (length es) (fresh_children (fs s))),
      num_children := of_nat (length es), vnode_size := vnode_size n + of_nat (length es)\<rparr>)"
    "\<forall>j<length es. vnodes s' (hs ! j) = Some (entry_vnode p (filesystem_object n) c (i_refcount (inodes ?V 0)) (es ! j))" "fs s' = fs s"
    using lookup_loop_fills [OF pr(1,2) es(2) pr(3) x pr(4,5) h(3-6) pr(6-8), of "filesystem_object n" NULL, unfolded f2 diff_zero] n(4)
    by auto
  then show ?thesis using lk by (intro exI [of _ s']) simp
qed

theorem diosfs_lookup_fills_directory_witness:
  "\<exists>rds s'. diosfs_lookup 1 [0] (demo_dios rds) = Inr (s', 6) \<and> (\<exists>n. get_vnode s' 1 = Inr n \<and> num_children n = 2)"
proof -
  obtain rds where r: "dios_ok demo_fs demo_device 32 rds" "inodes (dios_view demo_fs demo_device rds) 2 = DiosFS_Dirs.demo_dir 2"
    "blocks (dios_view demo_fs demo_device rds) 3 = demo_dir_block"
    using demo_reach [of "DiosFS_Dirs.demo_dir 2" "DiosFS_Dirs.demo_dir 2" demo_dir_block] by (auto simp: demo_dir_simps)
  have es: "dir_list (dios_view demo_fs demo_device rds) (DiosFS_Dirs.demo_dir 2) = [demo_dirent 5 3, demo_dirent 6 1]"
    by (rule demo_dir_list [OF r(3)])
  have b: "dir_blocks_ok 22 (DiosFS_Dirs.demo_dir 2)" by (simp add: dir_blocks_ok_def demo_dir_simps)
  have ne: "named_entry (demo_dirent i t)" for i t by (simp add: named_entry_def) (simp add: demo_dirent_def)
  have d: "disk (fs (demo_dios rds)) = rds" "ctx demo_context = demo_fs" "unat (vnode_inode_number (demo_dios_vnode 0 2)) = 2"
    "fresh_children (fs (demo_dios rds)) = replicate 64 170" "vheap (demo_dios rds) = [6, 7, 8]" "vnode_static_pool (demo_dios rds) = vnode_static_pool demo_vfs"
    by (simp_all add: demo_dios_def demo_context_def demo_dios_vnode_def)
  have "\<exists>s'. diosfs_lookup 1 ([] @ [0]) (demo_dios rds) =
      Inr (s', case find (\<lambda>j. names_match [] (de_text ([demo_dirent 5 3, demo_dirent 6 1] ! j))) [0..<length [demo_dirent 5 3, demo_dirent 6 1]] of
        None \<Rightarrow> NULL | Some j \<Rightarrow> [6, 7, 8] ! j) \<and>
    get_vnode s' 1 = Inr ((demo_dios_vnode 0 2)\<lparr>vnode_children := Some (take (length [demo_dirent 5 3, demo_dirent 6 1]) [6, 7, 8] @
        drop (length [demo_dirent 5 3, demo_dirent 6 1]) (fresh_children (fs (demo_dios rds)))),
      num_children := of_nat (length [demo_dirent 5 3, demo_dirent 6 1]),
      vnode_size := vnode_size (demo_dios_vnode 0 2) + of_nat (length [demo_dirent 5 3, demo_dirent 6 1]),
      vnode_flags := vnode_flags (demo_dios_vnode 0 2) OR VNODE_CHILD_MEMORY_ALLOCATED\<rparr>) \<and>
    (\<forall>j<length [demo_dirent 5 3, demo_dirent 6 1]. vnodes s' ([6, 7, 8] ! j) = Some (entry_vnode 1 (filesystem_object (demo_dios_vnode 0 2)) demo_context
      (i_refcount (inodes (dios_view (ctx demo_context) demo_device (disk (fs (demo_dios rds)))) 0)) ([demo_dirent 5 3, demo_dirent 6 1] ! j))) \<and>
      fs s' = fs (demo_dios rds)"
    using es r(2) b ne
    by (intro diosfs_lookup_fills_directory [OF demo_volume_vnode(1) [OF r(1)], where inode = "DiosFS_Dirs.demo_dir 2"])
      (simp_all add: d demo_sizes demo_dir_simps, simp_all add: demo_dios_vnode_def zero_vnode_def demo_vfs_def)
  then obtain s' where s': "diosfs_lookup 1 ([] @ [0]) (demo_dios rds) =
      Inr (s', case find (\<lambda>j. names_match [] (de_text ([demo_dirent 5 3, demo_dirent 6 1] ! j))) [0..<length [demo_dirent 5 3, demo_dirent 6 1]] of
        None \<Rightarrow> NULL | Some j \<Rightarrow> [6, 7, 8] ! j)" "\<exists>n. get_vnode s' 1 = Inr n \<and> num_children n = 2" by auto
  have "find (\<lambda>j. names_match [] (de_text ([demo_dirent 5 3, demo_dirent 6 1] ! j))) [0..<length [demo_dirent 5 3, demo_dirent 6 1]] = Some 0"
    by (simp add: upt_conv_Cons names_match_def)
  with s'(1) have "diosfs_lookup 1 [0] (demo_dios rds) = Inr (s', 6)" by (simp only: option.simps nth_Cons_0 append.simps)
  then show ?thesis using s'(2) by blast
qed

section \<open>Creation\<close>

text \<open>The inode, the entry and the vnode of a new file.\<close>

definition new_inode :: "nat \<Rightarrow> byte list \<Rightarrow> 8 word \<Rightarrow> vnode \<Rightarrow> diosfs_inode" where
  "new_inode m x ty n = zero_inode\<lparr>i_inode_number := of_nat m, i_type := ucast ty, i_parent_inode_number := ucast (vnode_inode_number n),
     i_name := padded x\<rparr>"

definition new_entry :: "nat \<Rightarrow> byte list \<Rightarrow> 8 word \<Rightarrow> 'd dios_context \<Rightarrow> vnode \<Rightarrow> diosfs_directory_entry" where
  "new_entry m x ty c n = \<lparr>de_name = padded x, de_inode_number = of_nat m, de_parent_inode_number = ucast (ucast (vnode_inode_number n) :: 16 word),
     de_type = ucast ty, de_device_number = word_of_nat (fs_device_minor (ctx c)), de_size = 0\<rparr>"

definition new_vnode :: "nat \<Rightarrow> byte list \<Rightarrow> 8 word \<Rightarrow> 'd dios_context \<Rightarrow> addr \<Rightarrow> vnode \<Rightarrow> vnode" where
  "new_vnode m x ty c p n = zero_vnode\<lparr>filesystem_info := fs_info c, vnode_type := ucast ty, vnode_inode_number := of_nat m,
     filesystem_object := filesystem_object n, vnode_refcount := 1, vnode_device_id := vnode_device_id n, vnode_ops := DIOSFS_OPS,
     vnode_parent := p, vnode_filesystem_id := vnode_filesystem_id n, is_cached := True, vnode_name := padded x, node_lock := True\<rparr>"

lemma length_padded: "length x < 128 \<Longrightarrow> length (padded x) = 128"
  by (simp add: padded_def)

text \<open>
  The part of a creation that happens on the volume: the inode, the entry, and the directory's inode. The entry goes to the
  block that the pointer of its number names; at a block boundary nothing is allocated for it.
\<close>

definition room_for_entry :: "diosfs_superblock \<Rightarrow> volume \<Rightarrow> nat \<Rightarrow> diosfs_inode \<Rightarrow> bool" where
  "room_for_entry sb v k d \<longleftrightarrow> k < s_num_inodes sb \<and> inodes v k = d \<and> unat (i_inode_number d) = k \<and> i_type d = DiosFS_Layout.VNODE_DIRECTORY \<and>
     unat (i_size d) < 69 \<and> i_block_count d \<noteq> 0 \<and> unat (i_block_count d) \<le> 10 \<and>
     (unat (i_size d) mod 7 \<noteq> 0 \<or> unat (i_size d) div 7 \<le> unat (i_block_count d)) \<and>
     dir_blocks_ok (s_num_blocks sb) (d\<lparr>i_size := i_size d + 1\<rparr>) \<and>
     (\<forall>j < unat (i_size d) div 7. unat (i_blocks d ! j) \<noteq> unat (i_blocks d ! (unat (i_size d) div 7)))"

lemma create_on_volume:
  assumes ok: "dios_ok f device nblk rds" and r: "room_for_entry (fs_superblock f) (dios_view f device rds) k d"
    and i: "wf_inode inode" "unat (i_inode_number inode) = m" "m < s_num_inodes (fs_superblock f)" "m \<noteq> k" and e: "wf_dirent entry"
  shows "\<exists>d' rds1 rds2 rds3. diosfs_write_inode f inode rds = Inr rds1 \<and>
    diosfs_write_dirent f (d\<lparr>i_size := i_size d + 1\<rparr>) entry rds1 = Inr (DIOSFS_SUCCESS, d', rds2) \<and>
    diosfs_write_inode f d' rds2 = Inr rds3 \<and> dios_ok f device nblk rds3 \<and>
    diosfs_get_directory_entries f k (1024 * 10) rds3 = Inr (DIOSFS_SUCCESS, dir_list (dios_view f device rds) d @ [entry]) \<and>
    diosfs_read_inode f m rds3 = Inr inode \<and> inode_bits (dios_view f device rds3) = inode_bits (dios_view f device rds) \<and>
    block_bits (dios_view f device rds3) = block_bits (dios_view f device rds)"
proof -
  let ?V = "\<lambda>d. view (fs_superblock f) (rd_blk device 1024 d)"
  define s b where "s = unat (i_size d)" and "b = unat (i_blocks d ! (s div 7))"
  have r: "k < s_num_inodes (fs_superblock f)" "inodes (?V rds) k = d" "unat (i_inode_number d) = k" "i_type d = DiosFS_Layout.VNODE_DIRECTORY"
    "s < 69" "s mod 7 \<noteq> 0 \<or> s div 7 \<le> unat (i_block_count d)" "i_block_count d \<noteq> 0" "unat (i_block_count d) \<le> 10"
    "dir_blocks_ok (s_num_blocks (fs_superblock f)) (d\<lparr>i_size := i_size d + 1\<rparr>)" "\<forall>j < s div 7. unat (i_blocks d ! j) \<noteq> b"
    using r by (auto simp: room_for_entry_def dios_view_def s_def b_def)
  have wf: "wf_inode d" using dios.wf_inodes [OF ok, of k] r(2) by simp
  have im: "unat (i_inode_number inode) < s_num_inodes (fs_superblock f)" using i by simp
  obtain d1 where w1: "diosfs_write_inode f inode rds = Inr d1" "dios_ok f device nblk d1"
    "?V d1 = (?V rds)\<lparr>inodes := (inodes (?V rds))(unat (i_inode_number inode) := inode)\<rparr>"
    by (rule dios.write_inode_ok [OF ok i(1) im])
  let ?d = "d\<lparr>i_size := i_size d + 1\<rparr>"
  have sz: "unat (i_size ?d) = s + 1" using r(5) unat_inc_32 [of "i_size d"] by (simp add: s_def)
  have lt: "b < s_num_blocks (fs_superblock f)" using r(9) sz by (simp add: dir_blocks_ok_def b_def div_le_mono)
  have k1: "inodes (?V d1) k = d" using w1(3) i(2,4) r(2) by simp
  have c1: "unat (i_inode_number ?d) = k" "unat (i_inode_number (inodes (?V d1) k)) = k" "unat (i_size ?d) \<noteq> 71"
    "unat (i_size (inodes (?V d1) k)) = s" "s < 70" "i_block_count (inodes (?V d1) k) \<noteq> 0"
    "s mod 7 \<noteq> 0 \<or> s div 7 \<le> unat (i_block_count (inodes (?V d1) k))" "unat (i_blocks (inodes (?V d1) k) ! (s div 7)) = b"
    using k1 r sz by (simp_all add: s_def b_def)
  obtain d2 where w2: "diosfs_write_dirent f ?d entry d1 = Inr (DIOSFS_SUCCESS, (inodes (?V d1) k)\<lparr>i_size := i_size (inodes (?V d1) k) + 1\<rparr>, d2)"
    "dios_ok f device nblk d2"
    "?V d2 = (?V d1)\<lparr>blocks := (blocks (?V d1))(b := put_dirent (blocks (?V d1) b) (s mod 7) entry),
      inodes := (inodes (?V d1))(k := (inodes (?V d1) k)\<lparr>i_size := i_size (inodes (?V d1) k) + 1\<rparr>)\<rparr>"
    by (rule dios.write_dirent_ok [OF w1(2) c1(1) r(1) c1(2-8) lt e])
  have wf': "wf_inode ?d" "unat (i_inode_number ?d) < s_num_inodes (fs_superblock f)" using wf r by (simp_all add: wf_inode_def)
  obtain d3 where w3: "diosfs_write_inode f ?d d2 = Inr d3" "dios_ok f device nblk d3"
    "?V d3 = (?V d2)\<lparr>inodes := (inodes (?V d2))(unat (i_inode_number ?d) := ?d)\<rparr>"
    by (rule dios.write_inode_ok [OF w2(2) wf'])
  have v3: "inodes (?V d3) k = ?d" "inodes (?V d3) m = inode" "blocks (?V d3) = (blocks (?V rds))(b := put_dirent (blocks (?V rds) b) (s mod 7) entry)"
    "inode_bits (?V d3) = inode_bits (?V rds)" "block_bits (?V d3) = block_bits (?V rds)"
    using w3(3) w2(3) w1(3) r(3) i k1 by simp_all
  have "dir_list (?V d3) ?d = dir_list (?V rds) d @ [entry]"
    using v3(3) r(5,10) e dios.length_block [OF ok lt] by (intro dir_list_append [OF wf, where s = s and b = b]) (simp_all add: s_def b_def)
  moreover have "diosfs_get_directory_entries f k (1024 * 10) d3 = Inr (DIOSFS_SUCCESS, dir_list (?V d3) (inodes (?V d3) k))"
    using v3(1) r sz by (intro dios.get_directory_entries_ok [OF w3(2) r(1)]) simp_all
  moreover have "diosfs_read_inode f m d3 = Inr inode" using dios.read_inode_ok [OF w3(2) i(3)] v3(2) by simp
  ultimately show ?thesis using w1 w2 w3 v3 k1 by (simp add: dios_view_def)
qed



section \<open>Registration\<close>

lemma get_u64_bytes_of: "i < length ws \<Longrightarrow> get_u64 (bytes_of ws @ z) i = ws ! i"
proof (induction ws arbitrary: i)
  case (Cons w ws)
  show ?case
  proof (cases i)
    case 0
    then show ?thesis by (simp add: get_u64_def bytes_of_def window_def bytes_word_word_bytes)
  next
    case (Suc j)
    have "get_u64 (bytes_of (w # ws) @ z) (Suc j) = get_u64 (bytes_of ws @ z) j"
      by (simp add: get_u64_def bytes_of_def window_def)
    then show ?thesis using Cons Suc by simp
  qed
qed simp

definition superblock_words :: "diosfs_superblock \<Rightarrow> nat list" where
  "superblock_words b = [s_magic b, s_version b, s_block_size b, s_num_blocks b, s_num_inodes b, s_total_size b,
     s_inode_bitmap_size b, s_block_bitmap_size b, s_inode_bitmap_pointers_start b, s_block_bitmap_pointers_start b,
     s_inode_start_pointer b, s_block_start_pointer b]"

lemma length_superblock_bytes [simp]: "length (superblock_bytes b) = 1024"
  by (simp add: superblock_bytes_def)

lemma bytes_superblock_superblock_bytes:
  assumes "\<forall>x\<in>set (superblock_words b). x < 2 ^ 64"
  shows "bytes_superblock (superblock_bytes b) = b"
proof -
  have "unat (get_u64 (superblock_bytes b) i) = superblock_words b ! i" if "i < 12" for i
  proof -
    have l: "length (superblock_words b) = 12" by (simp add: superblock_words_def)
    have "superblock_bytes b = bytes_of (map word_of_nat (superblock_words b)) @ replicate (116 * 8) 0"
      by (simp add: superblock_bytes_def superblock_words_def)
    then have "get_u64 (superblock_bytes b) i = word_of_nat (superblock_words b ! i)"
      using get_u64_bytes_of [of i "map word_of_nat (superblock_words b)"] that l by simp
    moreover have "superblock_words b ! i < 2 ^ 64" using assms that l by simp
    ultimately show ?thesis by (simp add: unsigned_of_nat take_bit_nat_eq_self)
  qed
  from this [of 0] this [of 1] this [of 2] this [of 3] this [of 4] this [of 5] this [of 6] this [of 7] this [of 8] this [of 9]
    this [of 10] this [of 11]
  show ?thesis by (simp add: bytes_superblock_def superblock_words_def nth_Cons')
qed

text \<open>
  A context whose superblock in memory is still zero takes the superblock from block 0 of the device. The root directory, inode 0, is
  mounted on the root of the vnode tree.
\<close>

theorem diosfs_register_reads_superblock:
  assumes c: "deref (dios_contexts (fs s)) co = Inr c" "s_block_start_pointer (fs_superblock (ctx c)) = 0"
    and d: "rd_ok device 1024 nblk (disk (fs s))" "rd_blk device 1024 (disk (fs s)) 0 = superblock_bytes b"
      "\<forall>x\<in>set (superblock_words b). x < 2 ^ 64" "driver_ops c minor = ramdisk_ops device" "\<forall>k. k \<le> length (fs_kmalloc (ctx c) k)"
      "layout_ok b nblk (PAGE_SIZE * 100)" "0 < s_num_inodes b"
    and r: "vnodes s vfs_root = Some r" "\<not> is_mount_point r" "vnode_type r = VFS.VNODE_DIRECTORY"
    and h: "head (vnode_static_pool s) = NULL" "vheap s = a # as" "a \<noteq> NULL" "a \<noteq> vfs_root"
  shows "\<exists>s' n c'. diosfs_register_filesystem minor major co s = Inr s' \<and> mount_of (vnodes s') vfs_root = a \<and>
    volume_vnode device nblk a n c' s' \<and> fs_superblock (ctx c') = b \<and>
    vnode_inode_number n = ucast (i_inode_number (inodes (dios_view (ctx c') device (disk (fs s))) 0))"
proof -
  let ?d = "disk (fs s)"
  let ?old = "set_device minor major c"
  let ?c = "?old\<lparr>ctx := (ctx ?old)\<lparr>fs_superblock := b\<rparr>\<rparr>"
  have n: "0 < nblk" using d(6,7) by (auto simp: layout_ok_def)
  have "block_read (ramdisk_ops device) 0 1 (superblock_bytes (fs_superblock (ctx c))) 0 ?d = Inr (0, superblock_bytes b)"
    using rd.read_one [OF d(1) n, of 0 "superblock_bytes (fs_superblock (ctx c))"] d(2) by (simp add: PAGE_SIZE_def overwrite_def)
  then have sb: "diosfs_read_block_by_number (ctx ?old) 0 (superblock_bytes (fs_superblock (ctx ?old))) 0 0 1024 ?d = Inr (superblock_bytes b)"
    using c(2) d(4) by (simp add: set_device_def diosfs_read_block_by_number_def DIOSFS_SUCCESS_def)
  have ok: "dios_ok (ctx ?c) device nblk ?d" using d by (simp add: dios_ok_def volume_ok_def set_device_def)
  define i where "i = inodes (dios_view (ctx ?c) device ?d) 0"
  have i: "diosfs_read_inode (ctx ?c) 0 ?d = Inr i"
    using dios.read_inode_ok [OF ok, of 0] d(7) by (simp add: i_def dios_view_def)
  define nm where "nm = overwrite (replicate 128 0) 0 [SLASH, 0]"
  have nm: "strcpy (replicate 128 0) 0 [SLASH, 0] = Inr nm"
    using strcpy_eq [of "[SLASH]" 0 "replicate 128 0" "[]"] by (simp add: nm_def)
  let ?n = "zero_vnode\<lparr>vnode_name := nm, filesystem_object := co, vnode_inode_number := ucast (i_inode_number i),
      vnode_type := VFS.VNODE_DIRECTORY, vnode_ops := DIOSFS_OPS, vnode_filesystem_id := VNODE_FS_DIOSFS, vnode_parent := vfs_root, is_mounted := True\<rparr>"
  let ?r = "r\<lparr>is_mount_point := True, mounted_vnode := a, is_cached := True\<rparr>"
  let ?s = "(set_context co ?c s)\<lparr>vheap := as, vnodes := (vnodes s)(a \<mapsto> ?n, vfs_root \<mapsto> ?r)\<rparr>"
  have "diosfs_register_filesystem minor major co s = Inr ?s"
    using c(1) sb i nm r h bytes_superblock_superblock_bytes [OF d(3)]
    by (simp add: diosfs_register_filesystem_def mount_dios_root_def vnode_alloc_def modify_vnode_def get_vnode_def vnode_mount_def
        set_context_def zero_vnode_def Let_def)
  moreover have "volume_vnode device nblk a ?n ?c ?s"
    using h ok c(1) by (auto simp: volume_vnode_def get_vnode_def set_context_def deref_eq_Inr)
  ultimately show ?thesis by (intro exI [of _ ?s] exI [of _ ?n] exI [of _ ?c]) (simp add: mount_of_def i_def)
qed

text \<open>The superblock of the demonstration volume on the device, and a context that has not read it yet.\<close>

definition blank_context :: "ramdisk list dios_context" where
  "blank_context = demo_context\<lparr>ctx := demo_fs\<lparr>fs_superblock := \<lparr>s_magic = 0, s_version = 0, s_block_size = 0, s_num_blocks = 0,
     s_num_inodes = 0, s_total_size = 0, s_inode_bitmap_size = 0, s_block_bitmap_size = 0, s_inode_bitmap_pointers_start = 0,
     s_block_bitmap_pointers_start = 0, s_inode_start_pointer = 0, s_block_start_pointer = 0\<rparr>\<rparr>\<rparr>"

theorem diosfs_register_reads_superblock_witness:
  "\<exists>rds s' n c'. diosfs_register_filesystem 0 0 1 (set_context 1 blank_context (demo_dios rds)) = Inr s' \<and>
    mount_of (vnodes s') vfs_root = 6 \<and> volume_vnode demo_device 32 6 n c' s' \<and> fs_superblock (ctx c') = demo_superblock"
proof -
  have o: "rd_ok demo_device 1024 32 [demo_disk 8]" using demo_fs_ok by (simp add: dios_ok_def)
  obtain rds where w: "rd_ok demo_device 1024 32 rds" "rd_blk demo_device 1024 rds 0 = superblock_bytes demo_superblock"
    using rd.write_one [OF o, of 0 0 "superblock_bytes demo_superblock"] by (auto simp: PAGE_SIZE_def window_all)
  let ?s = "set_context 1 blank_context (demo_dios rds)"
  have c: "deref (dios_contexts (fs ?s)) 1 = Inr blank_context" "s_block_start_pointer (fs_superblock (ctx blank_context)) = 0"
    by (simp_all add: set_context_def blank_context_def)
  have d: "rd_ok demo_device 1024 32 (disk (fs ?s))" "rd_blk demo_device 1024 (disk (fs ?s)) 0 = superblock_bytes demo_superblock"
    "\<forall>x\<in>set (superblock_words demo_superblock). x < 2 ^ 64" "driver_ops blank_context 0 = ramdisk_ops demo_device"
    "\<forall>k. k \<le> length (fs_kmalloc (ctx blank_context) k)" "layout_ok demo_superblock 32 (PAGE_SIZE * 100)" "0 < s_num_inodes demo_superblock"
    using w by (simp_all add: set_context_def demo_dios_def superblock_words_def blank_context_def demo_context_def demo_fs_def layout_ok_def demo_superblock_def PAGE_SIZE_def)
  have v: "vnodes ?s vfs_root = Some (demo_dios_vnode 0 2)" "\<not> is_mount_point (demo_dios_vnode 0 2)"
    "vnode_type (demo_dios_vnode 0 2) = VFS.VNODE_DIRECTORY" "head (vnode_static_pool ?s) = NULL" "vheap ?s = [6, 7, 8]"
    by (simp_all add: set_context_def demo_dios_def demo_dios_vnode_def zero_vnode_def demo_vfs_def)
  have "\<exists>s' n c'. diosfs_register_filesystem 0 0 1 ?s = Inr s' \<and> mount_of (vnodes s') vfs_root = 6 \<and>
      volume_vnode demo_device 32 6 n c' s' \<and> fs_superblock (ctx c') = demo_superblock \<and>
      vnode_inode_number n = ucast (i_inode_number (inodes (dios_view (ctx c') demo_device (disk (fs ?s))) 0))"
    by (rule diosfs_register_reads_superblock [OF c d v]) simp_all
  then show ?thesis by blast
qed

end
