(* ===== verification/Devices.thy ===== *)
theory Devices
  imports VFS Binary_Trees
begin

text \<open>
  \<^verbatim>\<open>device/device.c\<close> and \<^verbatim>\<open>device/device_fileystem.c\<close>: the tree of device groups, minor numbers and names of devices, and the
  file system that shows the devices as vnodes under \<^verbatim>\<open>/dev\<close>. The lock of the device file system is left out.
\<close>

unbundle bit_operations_syntax

section \<open>State\<close>

text \<open>
  The driver of a device is an object that other code sets up; what the device layer uses of it is the pointer to the table of its
  operations.
\<close>

record device =
  dev_parent :: addr
  device_major :: "64 word"
  device_minor :: "64 word"
  device_class :: "64 word"
  dev_name :: "byte list"
  dev_driver :: addr
  dev_node :: addr
  dev_info :: addr

record device_group =
  group_name :: "byte list"
  group_major :: "64 word"
  num_devices :: "64 word"
  group_devices :: "addr list"

record device_node =
  node_device_class :: "64 word"
  node_device_major :: "64 word"
  node_device_minor :: "64 word"
  node_driver :: addr
  node_children :: "addr list"
  node_device :: addr

text \<open>
  \<open>group_heap\<close> and \<open>node_space\<close> are the addresses the heap hands out for groups and nodes; \<open>fresh_devices\<close> is what
  it hands out for an array of devices, which is not cleared.
\<close>

record device_state =
  device_objects :: "addr \<rightharpoonup> device"
  driver_device_ops :: "addr \<rightharpoonup> addr"
  device_groups :: "addr \<rightharpoonup> device_group"
  group_heap :: "addr list"
  fresh_devices :: "addr list"
  device_trees :: bt_mem
  system_device_tree :: btree
  device_minor_map :: "64 word list"
  device_nodes :: "addr \<rightharpoonup> device_node"
  node_space :: "addr list"
  dev_fs_root :: addr

type_synonym device_vfs = "device_state vfs"

abbreviation (input) DEVICE_GROUP_SIZE :: nat where "DEVICE_GROUP_SIZE \<equiv> 32"
abbreviation (input) DEVICE_NAME_LEN :: nat where "DEVICE_NAME_LEN \<equiv> 30"
abbreviation (input) NUM_DEVICE_MAJOR_CLASSIFICATIONS :: nat where "NUM_DEVICE_MAJOR_CLASSIFICATIONS \<equiv> 11"
abbreviation (input) DEVICE_MAJOR_FRAMEBUFFER :: "64 word" where "DEVICE_MAJOR_FRAMEBUFFER \<equiv> 1"
abbreviation (input) VNODE_BLOCK_DEV :: "16 word" where "VNODE_BLOCK_DEV \<equiv> 3"
abbreviation (input) VNODE_CHAR_DEV :: "16 word" where "VNODE_CHAR_DEV \<equiv> 4"
abbreviation (input) VNODE_NET_DEV :: "16 word" where "VNODE_NET_DEV \<equiv> 5"
abbreviation (input) VNODE_SPECIAL :: "16 word" where "VNODE_SPECIAL \<equiv> 6"
abbreviation (input) DEVICE_FS_FILESYSTEM_ID :: "64 word" where "DEVICE_FS_FILESYSTEM_ID \<equiv> 0xF1F2F3"
abbreviation (input) MAX_DEVICE_NODE_CHILDREN :: nat where "MAX_DEVICE_NODE_CHILDREN \<equiv> 16"
abbreviation (input) DEVFS_OPS :: addr where "DEVFS_OPS \<equiv> 4"
abbreviation (input) KERN_NO_SPACE :: int where "KERN_NO_SPACE \<equiv> -18"
abbreviation (input) KERN_BAD_HANDLE :: int where "KERN_BAD_HANDLE \<equiv> -20"
abbreviation (input) KERN_DEVICE_NOT_READY :: int where "KERN_DEVICE_NOT_READY \<equiv> -35"

definition device_major_strings :: "byte list list" where
  "device_major_strings = map ascii [''RAMDISK'', ''FRAMEBUFFER'', ''NETWORK_CARD'', ''NVME'', ''AHCI'', ''KEYBOARD'', ''MOUSE'',
     ''SERIAL'', ''USB_CONTROLLER'', ''WIFI_ADAPTER'', ''TMPFS'']"

definition major_string :: "64 word \<Rightarrow> byte list res" where
  "major_string k = (if unat k < length device_major_strings then Inr (device_major_strings ! unat k) else Inl OutOfBounds)"

section \<open>Names\<close>

text \<open>
  \<^verbatim>\<open>device_minor_to_string\<close>. The loop collects the digits and counts \<open>minor\<close> down to 0, so that the test after it always
  takes the branch for 0. \<open>None\<close> is NULL.
\<close>

fun minor_digits :: "nat \<Rightarrow> byte list \<Rightarrow> nat \<times> byte list" where
  "minor_digits minor str =
     (if 0 < minor then minor_digits (minor div 10) (str @ [48 + of_nat (minor mod 10)]) else (minor, str))"

fun copy_back :: "nat \<Rightarrow> nat \<Rightarrow> byte list \<Rightarrow> byte list \<Rightarrow> byte list" where
  "copy_back j 0 str result = result"
| "copy_back j (Suc i) str result = copy_back j i str (result[j - i := str ! i])"

definition device_minor_to_string :: "64 word \<Rightarrow> byte list option" where
  "device_minor_to_string minor =
     (if 20 < minor then None
      else let (minor, str) = (if minor = 0 then (0, [48]) else minor_digits (unat minor) []);
               i = length str; result = replicate 8 0 in
        if minor = 0 then Some (result[0 := 48, i := 0])
        else Some ((copy_back i i str result)[i + 1 := 0]))"

definition get_device_node_name :: "device \<Rightarrow> byte list res" where
  "get_device_node_name d =
     bindR (major_string (device_major d)) (\<lambda>mj.
     bindR (strcpy (replicate 64 0) 0 mj) (\<lambda>str.
     case device_minor_to_string (device_minor d) of None \<Rightarrow> Inl NullDeref
     | Some minor \<Rightarrow> bindR (strlen str) (\<lambda>len. strcpy str len minor)))"

section \<open>The tree of devices\<close>

definition init_system_device_tree :: "device_state \<Rightarrow> device_state res" where
  "init_system_device_tree s =
     bindR (init_tree (device_trees s) (system_device_tree s) REGULAR_TREE) (\<lambda>(m, tr, _).
       Inr (s\<lparr>device_trees := m, system_device_tree := tr\<rparr>))"

definition get_device_group :: "64 word \<Rightarrow> device_state \<Rightarrow> (device_state \<times> addr) res" where
  "get_device_group major s =
     bindR (lookup_tree (device_trees s) (system_device_tree s) major 0) (\<lambda>(m, tr, dg).
     let s = s\<lparr>device_trees := m, system_device_tree := tr\<rparr> in
       if dg = NULL then Inr (s, NULL)
       else bindR (deref (device_groups s) dg) (\<lambda>g. Inr (s, if group_major g = major then dg else NULL)))"

definition alloc_new_device_group :: "64 word \<Rightarrow> device_state \<Rightarrow> (device_state \<times> addr) res" where
  "alloc_new_device_group major s =
     (case group_heap s of [] \<Rightarrow> Inl NullDeref
      | a # rest \<Rightarrow>
        bindR (major_string major) (\<lambda>nm.
        let s = s\<lparr>group_heap := rest, device_groups := (device_groups s)(a \<mapsto>
                  \<lparr>group_name = nm, group_major = major, num_devices = 0, group_devices = fresh_devices s\<rparr>)\<rparr> in
        bindR (insert_tree_node (device_trees s) (system_device_tree s) a major) (\<lambda>(m, tr, _).
          Inr (s\<lparr>device_trees := m, system_device_tree := tr\<rparr>, a))))"

definition insert_device_into_device_group :: "addr \<Rightarrow> addr \<Rightarrow> device_state \<Rightarrow> device_state res" where
  "insert_device_into_device_group d dg s =
     bindR (deref (device_groups s) dg) (\<lambda>g.
       if DEVICE_GROUP_SIZE \<le> unat (num_devices g) then Inr s
       else if length (group_devices g) \<le> unat (num_devices g) then Inl OutOfBounds
       else Inr (s\<lparr>device_groups := (device_groups s)(dg \<mapsto>
              g\<lparr>group_devices := (group_devices g)[unat (num_devices g) := d], num_devices := num_devices g + 1\<rparr>)\<rparr>))"

definition insert_device_into_kernel_tree :: "addr \<Rightarrow> device_state \<Rightarrow> device_state res" where
  "insert_device_into_kernel_tree d s =
     bindR (deref (device_objects s) d) (\<lambda>dev.
       if NUM_DEVICE_MAJOR_CLASSIFICATIONS < unat (device_major dev) then Inr s
       else bindR (get_device_group (device_major dev) s) (\<lambda>(s, dg).
            bindR (if dg = NULL then alloc_new_device_group (device_major dev) s else Inr (s, dg)) (\<lambda>(s, dg).
              insert_device_into_device_group d dg s)))"

text \<open>
  The loop of \<^verbatim>\<open>query_device\<close> looks for the minor number from index \<open>i\<close>, with \<open>k\<close> devices to go. The result is the pointer read
  before the loop.
\<close>

fun query_loop :: "(addr \<rightharpoonup> device) \<Rightarrow> addr list \<Rightarrow> 64 word \<Rightarrow> nat \<Rightarrow> nat \<Rightarrow> bool res" where
  "query_loop m ds minor i 0 = Inr False"
| "query_loop m ds minor i (Suc k) =
     (if length ds \<le> i then Inl OutOfBounds
      else bindR (deref m (ds ! i)) (\<lambda>d. if device_minor d = minor then Inr True else query_loop m ds minor (Suc i) k))"

definition query_device :: "64 word \<Rightarrow> 64 word \<Rightarrow> device_state \<Rightarrow> (device_state \<times> addr) res" where
  "query_device major minor s =
     bindR (get_device_group major s) (\<lambda>(s, dg).
       if dg = NULL then Inr (s, NULL)
       else bindR (deref (device_groups s) dg) (\<lambda>g.
         if group_devices g = [] then Inl OutOfBounds
         else let current = group_devices g ! 0 in
           bindR (query_loop (device_objects s) (group_devices g) minor 0 (unat (num_devices g))) (\<lambda>found.
             Inr (s, if found then current else NULL))))"

text \<open>\<open>ops\<close> is the address of the table of operations of the driver.\<close>

definition create_device :: "addr \<Rightarrow> 64 word \<Rightarrow> byte list \<Rightarrow> addr \<Rightarrow> addr \<Rightarrow> addr \<Rightarrow> device_state \<Rightarrow> device_state res" where
  "create_device d major name ops info par s =
     (if NUM_DEVICE_MAJOR_CLASSIFICATIONS < unat major then Inl (Panic ''Bad device major passed'')
      else bindR (deref (device_objects s) d) (\<lambda>dev.
           bindR (safe_strcpy (dev_name dev) 0 name DEVICE_NAME_LEN) (\<lambda>nm.
           if length nm \<le> DEVICE_NAME_LEN + 1 then Inl OutOfBounds
           else bindR (deref (driver_device_ops s) (dev_driver dev)) (\<lambda>_.
             if length (device_minor_map s) \<le> unat major then Inl OutOfBounds
             else let minor = device_minor_map s ! unat major in
               Inr (s\<lparr>device_objects := (device_objects s)(d \<mapsto> dev\<lparr>device_major := major, dev_name := nm[DEVICE_NAME_LEN + 1 := 0],
                        device_minor := minor, dev_info := info, dev_parent := par\<rparr>),
                      driver_device_ops := (driver_device_ops s)(dev_driver dev \<mapsto> ops),
                      device_minor_map := (device_minor_map s)[unat major := minor + 1]\<rparr>)))))"

section \<open>The device file system\<close>

definition device_node_alloc :: "addr \<Rightarrow> device_state \<Rightarrow> (device_state \<times> addr) res" where
  "device_node_alloc d s =
     (case node_space s of [] \<Rightarrow> Inl NullDeref
      | a # rest \<Rightarrow>
        bindR (deref (device_objects s) d) (\<lambda>dev.
          Inr (s\<lparr>node_space := rest,
                 device_nodes := (device_nodes s)(a \<mapsto> \<lparr>node_device_class = device_class dev, node_device_major = device_major dev,
                   node_device_minor = device_minor dev, node_driver = dev_driver dev,
                   node_children = replicate MAX_DEVICE_NODE_CHILDREN NULL, node_device = d\<rparr>),
                 device_objects := (device_objects s)(d \<mapsto> dev\<lparr>dev_node := a\<rparr>)\<rparr>, a)))"

definition device_node_free :: "addr \<Rightarrow> device_state \<Rightarrow> device_state res" where
  "device_node_free a s =
     bindR (deref (device_nodes s) a) (\<lambda>n.
     bindR (modify (device_objects s) (node_device n) (\<lambda>d. d\<lparr>dev_node := NULL\<rparr>)) (\<lambda>m.
       Inr (s\<lparr>device_objects := m, device_nodes := (device_nodes s)(a := None), node_space := a # node_space s\<rparr>)))"

definition vnode_to_device :: "vnode \<Rightarrow> addr" where
  "vnode_to_device n =
     (if vnode_type n \<noteq> VNODE_BLOCK_DEV \<and> vnode_type n \<noteq> VNODE_CHAR_DEV \<and> vnode_type n \<noteq> VNODE_NET_DEV then NULL
      else filesystem_object n)"

text \<open>The case of the network devices falls through to the default.\<close>

definition device_vnode_type :: "64 word \<Rightarrow> 16 word" where
  "device_vnode_type major =
     (if major \<in> {4, 0, 10, 3} then VNODE_BLOCK_DEV
      else if major \<in> {1, 5, 6, 7, 8} then VNODE_CHAR_DEV
      else VNODE_SPECIAL)"

definition device_to_vnode :: "addr \<Rightarrow> device_vfs \<Rightarrow> (device_vfs \<times> addr) res" where
  "device_to_vnode d s =
     bindR (vnode_alloc s) (\<lambda>(s, v).
     bindR (deref (device_objects (fs s)) d) (\<lambda>dev.
     bindR (modify_vnode s v (\<lambda>n. n\<lparr>vnode_ops := DEVFS_OPS, vnode_type := device_vnode_type (device_major dev),
              vnode_device_id := DEVICE_FS_FILESYSTEM_ID\<rparr>)) (\<lambda>s.
       Inr (s, v))))"

definition add_device_to_devfs_tree :: "addr \<Rightarrow> device_vfs \<Rightarrow> (device_vfs \<times> int) res" where
  "add_device_to_devfs_tree d s =
     bindR (device_to_vnode d s) (\<lambda>(s, node).
     bindR (deref (device_objects (fs s)) d) (\<lambda>dev.
     bindR (get_device_node_name dev) (\<lambda>name.
     bindR (get_vnode s node) (\<lambda>n.
     bindR (safe_strcpy (vnode_name n) 0 name 128) (\<lambda>nm.
     bindR (modify_vnode s node (\<lambda>n. n\<lparr>vnode_name := nm\<rparr>)) (\<lambda>s.
     bindR (get_vnode s (dev_fs_root (fs s))) (\<lambda>r.
       if unat (num_children r) = VNODE_MAX_DIRECTORY_ENTRIES then Inr (s, KERN_NO_SPACE)
       else case vnode_children r of None \<Rightarrow> Inl NullDeref
       | Some cs \<Rightarrow>
         if length cs \<le> unat (num_children r) then Inl OutOfBounds
         else bindR (modify_vnode s (dev_fs_root (fs s)) (\<lambda>r. r\<lparr>vnode_children := Some (cs[unat (num_children r) := node]),
                       num_children := num_children r + 1\<rparr>)) (\<lambda>s.
              bindR (modify_vnode s node (\<lambda>n. n\<lparr>filesystem_object := d\<rparr>)) (\<lambda>s. Inr (s, KERN_OK))))))))))"

fun pluck_loop :: "addr list \<Rightarrow> nat \<Rightarrow> nat \<Rightarrow> device_vfs \<Rightarrow> device_vfs res" where
  "pluck_loop ds i 0 s = Inr s"
| "pluck_loop ds i (Suc k) s =
     (if length ds \<le> i then Inl OutOfBounds
      else bindR (add_device_to_devfs_tree (ds ! i) s) (\<lambda>(s, _). pluck_loop ds (Suc i) k s))"

definition tree_pluck :: "addr \<Rightarrow> device_vfs \<Rightarrow> device_vfs res" where
  "tree_pluck node s =
     bindR (deref (tnodes (device_trees (fs s))) node) (\<lambda>n.
     bindR (deref (nodes (lists (device_trees (fs s)))) (head (bucket n))) (\<lambda>h.
     bindR (deref (device_groups (fs s)) (data h)) (\<lambda>g.
       pluck_loop (group_devices g) 0 (unat (num_devices g)) s)))"

fun pluck_nodes :: "addr list \<Rightarrow> device_vfs \<Rightarrow> device_vfs res" where
  "pluck_nodes [] s = Inr s"
| "pluck_nodes (node # ns) s = bindR (tree_pluck node s) (\<lambda>s. pluck_nodes ns s)"

text \<open>\<open>T\<close> is the table of the file systems, for the lookup of \<^verbatim>\<open>/dev\<close>.\<close>

definition dev_fs_init :: "device_state fs_table \<Rightarrow> device_vfs \<Rightarrow> device_vfs res" where
  "dev_fs_init T s =
     bindR (vnode_alloc s) (\<lambda>(s, r).
     bindR (modify_vnode (s\<lparr>fs := (fs s)\<lparr>dev_fs_root := r\<rparr>\<rparr>) r (\<lambda>n. n\<lparr>vnode_children := Some (replicate VNODE_MAX_DIRECTORY_ENTRIES NULL),
              vnode_flags := vnode_flags n OR VNODE_CHILD_MEMORY_ALLOCATED\<rparr>)) (\<lambda>s.
     bindR (for_each_node_in_tree (device_trees (fs s)) (system_device_tree (fs s))) (\<lambda>ns.
     bindR (pluck_nodes ns s) (\<lambda>s.
     bindR (vnode_mount_path T (ascii ''/dev'') r s) (\<lambda>(s, _). Inr s)))))"

section \<open>The operations on device vnodes\<close>

text \<open>
  The operations of the drivers that the file system calls: the drawing of a string of a framebuffer, and the read operation,
  where the table has one.
\<close>

record device_ops =
  draw_string :: "addr \<Rightarrow> byte list \<Rightarrow> device_vfs \<Rightarrow> device_vfs res"
  dev_read :: "(addr \<Rightarrow> 64 word \<Rightarrow> byte list \<Rightarrow> 64 word \<Rightarrow> device_vfs \<Rightarrow> (device_vfs \<times> byte list \<times> int) res) option"

definition device_lookup :: "addr \<Rightarrow> byte list \<Rightarrow> device_vfs \<Rightarrow> (device_vfs \<times> addr) res" where
  "device_lookup v name s = Inr (s, NULL)"

definition device_create :: "addr \<Rightarrow> byte list \<Rightarrow> 8 word \<Rightarrow> device_vfs \<Rightarrow> (device_vfs \<times> addr) res" where
  "device_create p name ty s = Inr (s, NULL)"

definition device_remove :: "addr \<Rightarrow> device_vfs \<Rightarrow> device_vfs res" where
  "device_remove v s = Inr s"

definition device_rename :: "device_state fs_table \<Rightarrow> addr \<Rightarrow> byte list \<Rightarrow> device_vfs \<Rightarrow> device_vfs res" where
  "device_rename T v new_name s = vnode_rename T v new_name s"

definition device_write :: "(addr \<rightharpoonup> device_ops) \<Rightarrow> addr \<Rightarrow> 64 word \<Rightarrow> byte list \<Rightarrow> 64 word \<Rightarrow> device_vfs \<Rightarrow> (device_vfs \<times> int) res" where
  "device_write D v offset buffer bytes s =
     bindR (get_vnode s v) (\<lambda>n. let d = vnode_to_device n in
       if d = NULL then Inl (Panic ''bad handle'')
       else bindR (deref (device_objects (fs s)) d) (\<lambda>dev.
         if dev_driver dev = NULL then Inl (Panic ''bad driver'')
         else if device_major dev = DEVICE_MAJOR_FRAMEBUFFER then
           bindR (deref (driver_device_ops (fs s)) (dev_driver dev)) (\<lambda>tab.
           bindR (deref D tab) (\<lambda>ops. bindR (draw_string ops d buffer s) (\<lambda>s. Inr (s, KERN_OK))))
         else Inr (s, KERN_DEVICE_NOT_READY)))"

definition device_read :: "(addr \<rightharpoonup> device_ops) \<Rightarrow> addr \<Rightarrow> 64 word \<Rightarrow> byte list \<Rightarrow> 64 word \<Rightarrow> device_vfs \<Rightarrow>
    (device_vfs \<times> byte list \<times> int) res" where
  "device_read D v offset buffer bytes s =
     bindR (get_vnode s v) (\<lambda>n. let d = vnode_to_device n in
       if d = NULL then Inr (s, buffer, KERN_BAD_HANDLE)
       else bindR (deref (device_objects (fs s)) d) (\<lambda>dev.
         if dev_driver dev = NULL then Inr (s, buffer, KERN_DEVICE_NOT_READY)
         else bindR (deref (driver_device_ops (fs s)) (dev_driver dev)) (\<lambda>tab.
              bindR (deref D tab) (\<lambda>ops. case dev_read ops of None \<Rightarrow> Inl NullDeref | Some f \<Rightarrow> f v offset buffer bytes s))))"

definition device_link :: "addr \<Rightarrow> addr \<Rightarrow> 8 word \<Rightarrow> addr" where
  "device_link v new_vnode ty = NULL"

definition device_unlink :: "addr \<Rightarrow> device_vfs \<Rightarrow> device_vfs res" where
  "device_unlink v s = Inr s"

definition device_open :: "nat \<Rightarrow> device_state fs_table \<Rightarrow> addr \<Rightarrow> device_vfs \<Rightarrow> (device_vfs \<times> int) res" where
  "device_open depth T v s =
     bindR (vnode_get_canonical_path depth v s) (\<lambda>pth. case pth of None \<Rightarrow> Inl Unmodelled | Some pth \<Rightarrow> vnode_open T pth s)"

definition device_close :: "nat \<Rightarrow> device_state fs_table \<Rightarrow> addr \<Rightarrow> 64 word \<Rightarrow> device_vfs \<Rightarrow> device_vfs res" where
  "device_close fuel T v handle s = bindR (vnode_close fuel T handle s) (\<lambda>r. case r of None \<Rightarrow> Inl Unmodelled | Some s \<Rightarrow> Inr s)"

text \<open>
  The table of operations. Renaming and closing go back through the virtual file system and the table \<open>T\<close>, which holds this
  table again; \<open>device_table k\<close> is the table for a call that comes back less than \<open>k\<close> times.
\<close>

definition device_filesystem_ops :: "nat \<Rightarrow> (addr \<rightharpoonup> device_ops) \<Rightarrow> device_state fs_table \<Rightarrow> device_vfs vnode_operations" where
  "device_filesystem_ops fuel D T = \<lparr>op_lookup = device_lookup, op_create = device_create, op_remove = device_remove,
     op_rename = device_rename T, op_write = device_write D, op_read = device_read D, op_unlink = device_unlink,
     op_close = device_close fuel T\<rparr>"

fun device_table :: "nat \<Rightarrow> nat \<Rightarrow> (addr \<rightharpoonup> device_ops) \<Rightarrow> device_state fs_table" where
  "device_table 0 fuel D = [DEVFS_OPS \<mapsto> \<lparr>op_lookup = device_lookup, op_create = device_create, op_remove = device_remove,
     op_rename = (\<lambda>_ _ _. Inl Unmodelled), op_write = device_write D, op_read = device_read D, op_unlink = device_unlink,
     op_close = (\<lambda>_ _ _. Inl Unmodelled)\<rparr>]"
| "device_table (Suc k) fuel D = [DEVFS_OPS \<mapsto> device_filesystem_ops fuel D (device_table k fuel D)]"

end
