(* ===== verification/Device_Registry.thy ===== *)
theory Device_Registry
  imports Devices VFS_Lookup
begin

text \<open>
  The device layer: registering devices keeps the tree of groups in step with a list of devices per major number,
  queries on it, the names and vnodes of devices, and the operations that never return.
\<close>

section \<open>Registration\<close>

text \<open>\<open>G\<close> gives the devices of each major number in the order of their registration.\<close>

definition group_rep :: "device_state \<Rightarrow> 64 word \<Rightarrow> addr list \<Rightarrow> addr list option \<Rightarrow> bool" where
  "group_rep s k ds q \<longleftrightarrow>
     (if ds = [] then q = None
      else \<exists>g x. q = Some [g] \<and> g \<noteq> NULL \<and> g \<notin> set (group_heap s) \<and> device_groups s g = Some x \<and> group_major x = k \<and>
        unat (num_devices x) = length ds \<and> length ds \<le> DEVICE_GROUP_SIZE \<and> length (group_devices x) = DEVICE_GROUP_SIZE \<and>
        take (length ds) (group_devices x) = ds)"

definition registry :: "'j others \<Rightarrow> device_state \<Rightarrow> (64 word \<Rightarrow> addr list) \<Rightarrow> bool" where
  "registry C s G \<longleftrightarrow> length (fresh_devices s) = DEVICE_GROUP_SIZE \<and> NULL \<notin> set (group_heap s) \<and> distinct (group_heap s) \<and>
     (\<exists>M. tree_rep C (device_trees s) (system_device_tree s) M \<and> (\<forall>k. group_rep s k (G k) (M k)))"

lemma get_device_group_eq:
  assumes "tree_rep C (device_trees s) (system_device_tree s) M" "group_rep s k ds (M k)"
  shows "get_device_group k s = Inr (s, case M k of None \<Rightarrow> NULL | Some gs \<Rightarrow> hd gs)"
  using assms block_tree.peek_ok [OF assms(1), of k]
  by (auto simp: get_device_group_def group_rep_def split: if_splits)

lemma group_insert:
  fixes d :: addr
  assumes "device_groups s g = Some x" "g \<noteq> NULL" "unat (num_devices x) = length ds" "length ds < DEVICE_GROUP_SIZE"
    "length (group_devices x) = DEVICE_GROUP_SIZE" "take (length ds) (group_devices x) = ds"
  defines "y \<equiv> x\<lparr>group_devices := (group_devices x)[length ds := d], num_devices := num_devices x + 1\<rparr>"
  shows "insert_device_into_device_group d g s = Inr (s\<lparr>device_groups := (device_groups s)(g \<mapsto> y)\<rparr>)"
    "unat (num_devices y) = length (ds @ [d])" "length (group_devices y) = DEVICE_GROUP_SIZE"
    "take (length (ds @ [d])) (group_devices y) = ds @ [d]" "group_major y = group_major x"
proof -
  show "insert_device_into_device_group d g s = Inr (s\<lparr>device_groups := (device_groups s)(g \<mapsto> y)\<rparr>)"
    using assms(1-5) by (simp add: insert_device_into_device_group_def y_def)
  have "unat (num_devices x + 1) = unat (num_devices x) + 1" using assms(3,4) by (simp add: unat_word_ariths)
  then show "unat (num_devices y) = length (ds @ [d])" using assms(3) by (simp add: y_def)
  show "take (length (ds @ [d])) (group_devices y) = ds @ [d]"
    using assms(4-6) by (simp add: y_def take_Suc_conv_app_nth)
qed (use assms(5) in \<open>simp_all add: y_def\<close>)

lemma group_rep_frame:
  assumes "group_rep s k ds q" "\<forall>g\<in>set (case q of None \<Rightarrow> [] | Some gs \<Rightarrow> gs). device_groups s' g = device_groups s g"
    "set (group_heap s') \<subseteq> set (group_heap s)"
  shows "group_rep s' k ds q"
  using assms by (auto simp: group_rep_def split: if_splits)

lemma register_first:
  assumes M: "tree_rep C (device_trees s) (system_device_tree s) M" "\<And>j. group_rep s j (G j) (M j)"
    and f: "length (fresh_devices s) = DEVICE_GROUP_SIZE" "NULL \<notin> set (group_heap s)" "distinct (group_heap s)"
    and k: "unat k < 11" "G k = []" and room: "0 < bt_room (device_trees s)" "group_heap s \<noteq> []"
  shows "\<exists>s1 g s'. alloc_new_device_group k s = Inr (s1, g) \<and> insert_device_into_device_group d g s1 = Inr s' \<and>
    device_objects s' = device_objects s \<and> registry C s' (G(k := [d]))"
proof -
  have n: "M k = None" using M(2) [of k] k by (simp add: group_rep_def)
  obtain a as where h: "group_heap s = a # as" using room(2) by (cases "group_heap s") auto
  have a: "a \<noteq> NULL" "a \<notin> set as" using f h by auto
  obtain nm where nm: "major_string k = Inr nm" using k by (simp add: major_string_def device_major_strings_def)
  let ?x = "\<lparr>group_name = nm, group_major = k, num_devices = 0, group_devices = fresh_devices s\<rparr>"
  have "k < 2 ^ 32" using k by (simp add: word_less_nat_alt)
  then obtain m tr where t: "insert_tree_node (device_trees s) (system_device_tree s) a k = Inr (m, tr, KERN_SUCCESS)"
    "tree_rep C m tr (enqueue_map M k a)" using insert_tree_ok [OF M(1) _ room(1)] by blast
  let ?s = "s\<lparr>group_heap := as, device_groups := (device_groups s)(a \<mapsto> ?x), device_trees := m, system_device_tree := tr\<rparr>"
  have al: "alloc_new_device_group k s = Inr (?s, a)" using h nm t(1) by (simp add: alloc_new_device_group_def)
  have gi: "device_groups ?s a = Some ?x" "unat (num_devices ?x) = length ([] :: addr list)" "length ([] :: addr list) < DEVICE_GROUP_SIZE"
    "length (group_devices ?x) = DEVICE_GROUP_SIZE" "take (length ([] :: addr list)) (group_devices ?x) = []" using f by simp_all
  define y where "y = ?x\<lparr>group_devices := (group_devices ?x)[length ([] :: addr list) := d], num_devices := num_devices ?x + 1\<rparr>"
  note g = group_insert [OF gi(1) a(1) gi(2-5), of d, folded y_def]
  let ?s' = "?s\<lparr>device_groups := (device_groups ?s)(a \<mapsto> y)\<rparr>"
  have "group_rep ?s' j ((G(k := [d])) j) (enqueue_map M k a j)" for j
  proof (cases "j = k")
    case True
    then show ?thesis using g(2-5) a n by (auto simp: group_rep_def enqueue_map_def)
  next
    case False
    have "group_rep ?s' j (G j) (M j)"
      using M(2) [of j] h by (intro group_rep_frame [OF M(2)]) (auto simp: group_rep_def split: if_splits)
    then show ?thesis using False by (simp add: enqueue_map_def)
  qed
  then have "registry C ?s' (G(k := [d]))" using t(2) f h unfolding registry_def by (intro conjI exI [of _ "enqueue_map M k a"]) simp_all
  then show ?thesis using al g(1) by (intro exI [of _ ?s] exI [of _ a] exI [of _ ?s']) simp
qed

lemma register_next:
  assumes r: "registry C s G" and M: "tree_rep C (device_trees s) (system_device_tree s) M" "\<And>j. group_rep s j (G j) (M j)"
    and k: "G k \<noteq> []"
  shows "\<exists>g s'. M k = Some [g] \<and> g \<noteq> NULL \<and> insert_device_into_device_group d g s = Inr s' \<and> device_objects s' = device_objects s \<and>
    registry C s' (if length (G k) < DEVICE_GROUP_SIZE then G(k := G k @ [d]) else G)"
proof -
  obtain g x where g: "M k = Some [g]" "g \<noteq> NULL" "g \<notin> set (group_heap s)" "device_groups s g = Some x" "group_major x = k"
    "unat (num_devices x) = length (G k)" "length (G k) \<le> DEVICE_GROUP_SIZE" "length (group_devices x) = DEVICE_GROUP_SIZE"
    "take (length (G k)) (group_devices x) = G k" using M(2) [of k] k by (auto simp: group_rep_def)
  show ?thesis
  proof (cases "length (G k) < DEVICE_GROUP_SIZE")
    case False
    then have "insert_device_into_device_group d g s = Inr s" using g by (simp add: insert_device_into_device_group_def)
    then show ?thesis using g(1,2) r False by simp
  next
    case True
    define y where "y = x\<lparr>group_devices := (group_devices x)[length (G k) := d], num_devices := num_devices x + 1\<rparr>"
    note gi = group_insert [OF g(4,2,6) True g(8,9), of d, folded y_def]
    let ?s' = "s\<lparr>device_groups := (device_groups s)(g \<mapsto> y)\<rparr>"
    have "group_rep ?s' j ((G(k := G k @ [d])) j) (M j)" for j
    proof (cases "j = k")
      case True
      then show ?thesis using gi(2-5) g \<open>length (G k) < DEVICE_GROUP_SIZE\<close> by (auto simp: group_rep_def)
    next
      case False
      have "group_rep ?s' j (G j) (M j)"
        using M(2) [of j] g(4,5) False by (intro group_rep_frame [OF M(2)]) (auto simp: group_rep_def split: if_splits)
      then show ?thesis using False by simp
    qed
    then have "registry C ?s' (G(k := G k @ [d]))" using M(1) r unfolding registry_def by (intro conjI exI [of _ M]) simp_all
    then show ?thesis using g(1,2) gi(1) True by (intro exI [of _ g] exI [of _ ?s']) simp
  qed
qed

text \<open>C26: 
  Registering a device keeps the tree of groups in step with the list of devices per major number: the device joins the end of the list of
  its major number, in a group that is made for the first one; the thirty-third device of a group is dropped.
\<close>

theorem register_device_refines:
  assumes r: "registry C s G" and d: "deref (device_objects s) d = Inr dev" and k: "unat (device_major dev) < 11"
    and room: "0 < bt_room (device_trees s)" "group_heap s \<noteq> []"
  shows "\<exists>s'. insert_device_into_kernel_tree d s = Inr s' \<and> device_objects s' = device_objects s \<and>
    registry C s' (if length (G (device_major dev)) < DEVICE_GROUP_SIZE
      then G(device_major dev := G (device_major dev) @ [d]) else G)"
proof -
  let ?k = "device_major dev"
  obtain M where M: "tree_rep C (device_trees s) (system_device_tree s) M" "\<And>j. group_rep s j (G j) (M j)"
    and f: "length (fresh_devices s) = DEVICE_GROUP_SIZE" "NULL \<notin> set (group_heap s)" "distinct (group_heap s)"
    using r by (auto simp: registry_def)
  have run: "insert_device_into_kernel_tree d s =
      bindR (if (case M ?k of None \<Rightarrow> NULL | Some gs \<Rightarrow> hd gs) = NULL then alloc_new_device_group ?k s
             else Inr (s, case M ?k of None \<Rightarrow> NULL | Some gs \<Rightarrow> hd gs)) (\<lambda>(s, g). insert_device_into_device_group d g s)"
    using d k get_device_group_eq [OF M(1) M(2) [of ?k]] by (simp add: insert_device_into_kernel_tree_def)
  show ?thesis
  proof (cases "G ?k = []")
    case True
    then have "M ?k = None" using M(2) [of ?k] by (simp add: group_rep_def)
    then show ?thesis using register_first [where M = M and G = G, OF M f k True room, of d] run True by auto
  next
    case False
    then show ?thesis using register_next [OF r M False, of d] run by auto
  qed
qed

lemma query_loop_eq:
  assumes "\<forall>d\<in>set (take k (drop i ds)). \<exists>x. deref m d = Inr x" "i + k \<le> length ds"
  shows "query_loop m ds minor i k = Inr (\<exists>d\<in>set (take k (drop i ds)). device_minor (the (m d)) = minor)"
  using assms
proof (induction k arbitrary: i)
  case (Suc k)
  have d: "drop i ds = ds ! i # drop (Suc i) ds" using Suc.prems(2) by (simp add: Cons_nth_drop_Suc)
  obtain x where x: "deref m (ds ! i) = Inr x" using Suc.prems(1) d by auto
  have "query_loop m ds minor (Suc i) k = Inr (\<exists>d\<in>set (take k (drop (Suc i) ds)). device_minor (the (m d)) = minor)"
    using Suc.prems d by (intro Suc.IH) auto
  then show ?case using x d Suc.prems(2) by (auto simp: deref_eq_Inr)
qed simp

text \<open>
  A query for a major and a minor number returns NULL when no registered device has them, and else the first device registered
  under the major number, whatever its minor number is.
\<close>

theorem query_device_first_of_group:
  assumes r: "registry C s G" and d: "\<forall>d\<in>set (G major). \<exists>x. deref (device_objects s) d = Inr x"
  shows "query_device major minor s =
    Inr (s, if \<exists>d\<in>set (G major). device_minor (the (device_objects s d)) = minor then hd (G major) else NULL)"
proof -
  obtain M where M: "tree_rep C (device_trees s) (system_device_tree s) M" "group_rep s major (G major) (M major)"
    using r by (auto simp: registry_def)
  note q = get_device_group_eq [OF M]
  show ?thesis
  proof (cases "G major = []")
    case True
    then show ?thesis using q M(2) by (simp add: query_device_def group_rep_def)
  next
    case False
    then obtain g x where g: "M major = Some [g]" "g \<noteq> NULL" "device_groups s g = Some x" "unat (num_devices x) = length (G major)"
      "length (G major) \<le> 32" "length (group_devices x) = 32" "take (length (G major)) (group_devices x) = G major"
      using M(2) by (auto simp: group_rep_def)
    have "query_loop (device_objects s) (group_devices x) minor 0 (length (G major)) =
        Inr (\<exists>d\<in>set (G major). device_minor (the (device_objects s d)) = minor)"
      using query_loop_eq [of "length (G major)" 0 "group_devices x" "device_objects s" minor] d g by simp
    moreover have "group_devices x ! 0 = hd (G major)" "group_devices x \<noteq> []"
      using g(6,7) False by (metis hd_conv_nth length_greater_0_conv nth_take, auto)
    ultimately show ?thesis using q g by (simp add: query_device_def Let_def)
  qed
qed

text \<open>Two RAM disks, devices 50 and 51, and an empty tree.\<close>

definition demo_ramdisk :: "64 word \<Rightarrow> device" where
  "demo_ramdisk k = \<lparr>dev_parent = NULL, device_major = 0, device_minor = k, device_class = 0, dev_name = replicate 32 0, dev_driver = 60,
     dev_node = NULL, dev_info = NULL\<rparr>"

definition demo_devices :: "bt_mem \<Rightarrow> btree \<Rightarrow> device_state" where
  "demo_devices m tr = \<lparr>device_objects = [50 \<mapsto> demo_ramdisk 0, 51 \<mapsto> demo_ramdisk 1], driver_device_ops = [60 \<mapsto> 61], device_groups = Map.empty,
     group_heap = [300, 301], fresh_devices = replicate 32 170, device_trees = m, system_device_tree = tr,
     device_minor_map = replicate 11 0, device_nodes = Map.empty, node_space = [400], dev_fs_root = NULL\<rparr>"

lemma demo_registry: "\<exists>m tr. registry no_others (demo_devices m tr) (\<lambda>_. []) \<and> 2 < bt_room m"
proof -
  obtain m tr where i: "tree_rep no_others m tr Map.empty" "tree_room m = 4" "lists m = demo_mem"
    using init_tree_ok [OF demo_tmem_ok, of Binary_Trees.demo_tree] by (auto simp: demo_tmem_def)
  then have "registry no_others (demo_devices m tr) (\<lambda>_. [])" by (auto simp: registry_def demo_devices_def group_rep_def)
  moreover have "2 < bt_room m" using i by (simp add: bt_room_def demo_room)
  ultimately show ?thesis by blast
qed

theorem register_device_refines_witness:
  "\<exists>m tr s'. insert_device_into_kernel_tree 50 (demo_devices m tr) = Inr s' \<and> registry no_others s' ((\<lambda>_. [])(0 := [50]))"
proof -
  obtain m tr where r: "registry no_others (demo_devices m tr) (\<lambda>_. [])" "2 < bt_room m" using demo_registry by blast
  have d: "deref (device_objects (demo_devices m tr)) 50 = Inr (demo_ramdisk 0)" "device_major (demo_ramdisk 0) = 0"
    by (simp_all add: demo_devices_def demo_ramdisk_def)
  have h: "0 < bt_room (device_trees (demo_devices m tr))" "group_heap (demo_devices m tr) \<noteq> []" using r(2) by (simp_all add: demo_devices_def)
  show ?thesis using register_device_refines [OF r(1) d(1) _ h] d(2) by auto
qed

text \<open>With the RAM disks registered as 0:0 and 0:1, a query for 0:1 returns the disk 0:0.\<close>

theorem query_device_first_of_group_witness:
  "\<exists>s. registry no_others s ((\<lambda>_. [])(0 := [50, 51])) \<and> device_minor (the (device_objects s 50)) = 0 \<and> query_device 0 1 s = Inr (s, 50)"
proof -
  obtain m tr where r: "registry no_others (demo_devices m tr) (\<lambda>_. [])" "2 < bt_room m" using demo_registry by blast
  define ds where "ds = [50, 51] @ replicate 30 (0 :: addr)"
  have ds: "length ds = 32" "take (length [50, 51 :: addr]) ds = [50, 51]" "unat (2 :: 64 word) = length [50, 51 :: addr]" by (simp_all add: ds_def)
  let ?x = "\<lparr>group_name = [], group_major = 0, num_devices = 2, group_devices = ds\<rparr>"
  obtain M where t: "tree_rep no_others m tr M" "\<And>k. M k = None" using r(1) by (auto simp: registry_def group_rep_def demo_devices_def)
  obtain m' tr' where i: "tree_rep no_others m' tr' (enqueue_map M 0 300)" using insert_tree_ok [OF t(1), of 0 300] r(2) by auto
  let ?s = "(demo_devices m' tr')\<lparr>device_groups := [300 \<mapsto> ?x], group_heap := []\<rparr>"
  have "group_rep ?s k (((\<lambda>_. [])(0 := [50, 51])) k) (enqueue_map M 0 300 k)" for k
    using t(2) ds by (auto simp: group_rep_def enqueue_map_def)
  then have reg: "registry no_others ?s ((\<lambda>_. [])(0 := [50, 51]))" 
    using i unfolding registry_def by (intro conjI exI [of _ "enqueue_map M 0 300"] allI) (simp_all add: demo_devices_def)
  moreover have "\<forall>d\<in>set (((\<lambda>_. [])(0 := [50, 51])) (0 :: 64 word)). \<exists>x. deref (device_objects ?s) d = Inr x" by (simp add: demo_devices_def)
  ultimately have "query_device 0 1 ?s = Inr (?s, 50)"
    using query_device_first_of_group [OF reg, of 0 1] by (simp add: demo_devices_def demo_ramdisk_def)
  then show ?thesis using reg by (intro exI [of _ ?s]) (simp add: demo_devices_def demo_ramdisk_def)
qed

section \<open>Names and vnodes\<close>

declare minor_digits.simps [simp del]

lemma minor_digits_eq [simp]:
  "minor_digits 0 str = (0, str)"
  "0 < k \<Longrightarrow> minor_digits k str = minor_digits (k div 10) (str @ [48 + of_nat (k mod 10)])"
  by (simp_all add: minor_digits.simps [of 0] minor_digits.simps [of k])

lemma minor_digits_zero: "fst (minor_digits k str) = 0"
  
proof (induction k str rule: minor_digits.induct)
  case (1 k str)
  then show ?case by (cases "0 < k") simp_all
qed

lemma minor_string:
  assumes "minor \<le> 20"
  shows "device_minor_to_string minor = Some (48 # replicate 7 0)"
proof -
  have "length (snd (minor_digits k [])) \<in> {1, 2}" if "0 < k" "k \<le> 20" for k :: nat
  proof -
    have "k div 10 = 0 \<or> k div 10 = 1 \<or> k div 10 = 2" using that by arith
    then show ?thesis using that by auto
  qed
  moreover have "unat minor \<le> 20" using assms by (simp add: word_le_nat_alt)
  ultimately have "minor \<noteq> 0 \<Longrightarrow> length (snd (minor_digits (unat minor) [])) \<in> {1, 2}" by (simp add: unat_gt_0)
  then show ?thesis
    using assms minor_digits_zero [of "unat minor" "[]"]
    by (auto simp: device_minor_to_string_def Let_def case_prod_beta not_less numeral_eq_Suc)
qed

lemma device_node_name:
  assumes "unat (device_major d) < 11" "device_minor d \<le> 20"
  shows "\<exists>x. device_major_strings ! unat (device_major d) = x @ [0] \<and>
    get_device_node_name d = Inr (x @ 48 # replicate (63 - length x) 0) \<and> 0 \<notin> set x \<and> length x < 20"
proof -
  have len: "length device_major_strings = 11" by (simp add: device_major_strings_def)
  have "device_major_strings ! unat (device_major d) \<in> set device_major_strings" using assms(1) len by simp
  then obtain nm where nm: "device_major_strings ! unat (device_major d) = ascii nm" "0 \<notin> set (map of_char nm :: byte list)" "length nm < 20"
    by (auto simp: device_major_strings_def)
  let ?x = "map of_char nm :: byte list"
  have a: "ascii nm = ?x @ [0]" by (simp add: ascii_def)
  have mj: "major_string (device_major d) = Inr (?x @ [0])"
    using assms(1) nm(1) a len by (simp add: major_string_def)
  let ?s = "?x @ 0 # replicate (63 - length nm) 0"
  have c: "strcpy (replicate 64 0) 0 (?x @ [0]) = Inr ?s"
    using strcpy_eq [OF nm(2), of 0 "replicate 64 0" "[]"] nm(3) by (simp add: overwrite_def drop_replicate)
  have l: "strlen ?s = Inr (length nm)" using strlen_eq [OF nm(2)] by simp
  have "strcpy ?s (length nm) (48 # replicate 7 0) = Inr (?x @ 48 # replicate (63 - length nm) 0)"
  proof -
    obtain j where j: "63 - length nm = Suc j" using nm(3) by (cases "63 - length nm") auto
    have "strcpy ?s (length nm) ([48] @ 0 # replicate 6 0) = Inr (overwrite ?s (length nm) [48, 0])"
      using strcpy_eq [of "[48]" "length nm" ?s "replicate 6 0"] nm(3) by simp
    moreover have "overwrite ?s (length nm) [48, 0] = ?x @ 48 # replicate (63 - length nm) 0" using j by (simp add: overwrite_def)
    moreover have "[48] @ 0 # replicate 6 0 = 48 # replicate 7 (0 :: byte)" by (simp add: numeral_eq_Suc)
    ultimately show ?thesis by (simp only:)
  qed
  then have "get_device_node_name d = Inr (?x @ 48 # replicate (63 - length ?x) 0)"
    using mj c l minor_string [OF assms(2)] by (simp add: get_device_node_name_def)
  then show ?thesis using nm a by (intro exI [of _ ?x]) simp
qed

text \<open>
  The node of a device is named after its major number with a 0 behind it, for every minor number up to 20: devices of one major
  number have one name.
\<close>

theorem device_node_name_ignores_minor:
  assumes "unat (device_major d) < 11" "device_minor d \<le> 20"
  shows "\<exists>x. device_major_strings ! unat (device_major d) = x @ [0] \<and>
    get_device_node_name d = Inr (x @ 48 # replicate (63 - length x) 0)"
  using device_node_name [OF assms] by blast

theorem device_node_name_ignores_minor_witness:
  "get_device_node_name (demo_ramdisk 1) = get_device_node_name (demo_ramdisk 0)"
proof -
  have "unat (device_major (demo_ramdisk k)) < 11" "device_major (demo_ramdisk k) = 0" "device_minor (demo_ramdisk k) = k" for k
    by (simp_all add: demo_ramdisk_def)
  then show ?thesis using device_node_name_ignores_minor [of "demo_ramdisk 0"] device_node_name_ignores_minor [of "demo_ramdisk 1"] by auto
qed

text \<open>
  Adding a device to the device file system appends a vnode with its name to the root. The device is found again from the vnode,
  except for network devices, whose vnodes have the type of a special file.
\<close>

theorem devfs_vnode_device:
  assumes d: "deref (device_objects (fs s)) d = Inr dev" "unat (device_major dev) < 11" "device_minor dev \<le> 20"
    and r: "get_vnode s (dev_fs_root (fs s)) = Inr r" "vnode_children r = Some cs" "length cs = 64" "unat (num_children r) < 64"
    and h: "head (vnode_static_pool s) = NULL" "vheap s = a # as" "a \<noteq> NULL" "a \<noteq> dev_fs_root (fs s)"
  shows "\<exists>s' n r' x. add_device_to_devfs_tree d s = Inr (s', KERN_OK) \<and> get_vnode s' a = Inr n \<and>
    get_vnode s' (dev_fs_root (fs s)) = Inr r' \<and> num_children r' = num_children r + 1 \<and>
    vnode_children r' = Some (cs[unat (num_children r) := a]) \<and>
    device_major_strings ! unat (device_major dev) = x @ [0] \<and> vnode_name n = padded (x @ [48]) \<and>
    vnode_to_device n = (if device_major dev = 2 \<or> device_major dev = 9 then NULL else d)"
proof -
  obtain x where x: "device_major_strings ! unat (device_major dev) = x @ [0]"
    "get_device_node_name dev = Inr (x @ 48 # replicate (63 - length x) 0)" "0 \<notin> set x" "length x < 20"
    using device_node_name [OF d(2,3)] by blast
  obtain j where j: "63 - length x = Suc j" using x(4) by (cases "63 - length x") auto
  have nm: "safe_strcpy (replicate 128 0) 0 (x @ 48 # replicate (63 - length x) 0) 128 = Inr (padded (x @ [48]))"
    using copy_name(1) [of "x @ [48]" "replicate j 0"] x(3,4) j by simp
  let ?n = "zero_vnode\<lparr>node_lock := True, vnode_ops := DEVFS_OPS, vnode_type := device_vnode_type (device_major dev),
      vnode_device_id := DEVICE_FS_FILESYSTEM_ID, vnode_name := padded (x @ [48]), filesystem_object := d\<rparr>"
  let ?r = "r\<lparr>vnode_children := Some (cs[unat (num_children r) := a]), num_children := num_children r + 1\<rparr>"
  let ?s = "s\<lparr>vheap := as, vnodes := (vnodes s)(dev_fs_root (fs s) \<mapsto> ?r, a \<mapsto> ?n)\<rparr>"
  have v: "vnodes s (dev_fs_root (fs s)) = Some r" "dev_fs_root (fs s) \<noteq> NULL" using r(1) by (auto simp: get_vnode_def deref_eq_Inr)
  have "add_device_to_devfs_tree d s = Inr (?s, KERN_OK)"
    using d(1) r(2-4) h v x(2) nm
    by (simp add: add_device_to_devfs_tree_def device_to_vnode_def vnode_alloc_def modify_vnode_def get_vnode_def zero_vnode_def
        fun_upd_twist [of "dev_fs_root (fs s)" a])
  moreover have "unat (device_major dev) \<in> {0, 1, 2, 3, 4, 5, 6, 7, 8, 9, 10}" using d(2) by simp arith
  then have "device_major dev \<in> word_of_nat ` {0, 1, 2, 3, 4, 5, 6, 7, 8, 9, 10}"
    by (intro image_eqI [of _ _ "unat (device_major dev)"]) simp_all
  then have "vnode_to_device ?n = (if device_major dev = 2 \<or> device_major dev = 9 then NULL else d)"
    by (auto simp: vnode_to_device_def device_vnode_type_def)
  ultimately show ?thesis using h v x(1)
    by (intro exI [of _ ?s] exI [of _ ?n] exI [of _ ?r] exI [of _ x]) (simp add: get_vnode_def)
qed

text \<open>The RAM disk 51 in the device file system with root 1.\<close>

definition demo_devfs :: "bt_mem \<Rightarrow> btree \<Rightarrow> device_vfs" where
  "demo_devfs m tr = \<lparr>vnodes = [1 \<mapsto> zero_vnode\<lparr>vnode_children := Some (replicate 64 0), vnode_flags := 1\<rparr>], vheap = [6, 7, 8],
     vl = vl demo_vfs, vl_pool = [], vnode_static_pool = vnode_static_pool demo_vfs, vnode_used_pool = vnode_used_pool demo_vfs,
     fs_refs = (\<lambda>_. 0), handles = Map.empty, hheap = [], hl = hl demo_vfs, handle_list = handle_list demo_vfs,
     num_handles = 0, handle_id_bitmap = 0, current_working_dir = 1, fs = (demo_devices m tr)\<lparr>dev_fs_root := 1\<rparr>\<rparr>"

theorem devfs_vnode_device_witness:
  "\<exists>s' n. add_device_to_devfs_tree 51 (demo_devfs demo_tmem Binary_Trees.demo_tree) = Inr (s', KERN_OK) \<and>
    get_vnode s' 6 = Inr n \<and> vnode_to_device n = 51"
proof -
  let ?s = "demo_devfs demo_tmem Binary_Trees.demo_tree" and ?r = "zero_vnode\<lparr>vnode_children := Some (replicate 64 0), vnode_flags := 1\<rparr>"
  have d: "deref (device_objects (fs ?s)) 51 = Inr (demo_ramdisk 1)" "device_major (demo_ramdisk 1) = 0" "device_minor (demo_ramdisk 1) = 1"
    "dev_fs_root (fs ?s) = 1" by (simp_all add: demo_devfs_def demo_devices_def demo_ramdisk_def)
  have r: "get_vnode ?s 1 = Inr ?r" "vnode_children ?r = Some (replicate 64 0)" "num_children ?r = 0"
    by (simp_all add: demo_devfs_def get_vnode_def zero_vnode_def)
  have h: "head (vnode_static_pool ?s) = NULL" "vheap ?s = [6, 7, 8]" by (simp_all add: demo_devfs_def demo_vfs_def)
  show ?thesis using devfs_vnode_device [OF d(1), of ?r "replicate 64 0" 6 "[7, 8]"] d r h by auto
qed

section \<open>Operations that do not return\<close>

text \<open>
  Renaming a device calls the virtual file system again, which calls the device file system: the call does not return, however often
  it may come back.
\<close>

theorem device_rename_diverges:
  assumes "get_vnode s v = Inr n" "vnode_ops n = DEVFS_OPS"
  shows "vnode_rename (device_table k fuel D) v name s \<noteq> Inr s'"
  using assms
proof (induction k arbitrary: s n name)
  case 0
  then show ?case by (auto simp: vnode_rename_def ops_of_def modify_vnode_def get_vnode_def modify_eq_Inr bindR_eq_Inr Let_def)
next
  case (Suc k)
  show ?case
  proof
    assume "vnode_rename (device_table (Suc k) fuel D) v name s = Inr s'"
    then obtain nm where "bindR (modify_vnode s v (\<lambda>n. n\<lparr>vnode_name := nm\<rparr>)) (\<lambda>s.
        bindR (ops_of (device_table (Suc k) fuel D) s v) (\<lambda>ops. op_rename ops v nm s)) = Inr s'"
      by (auto simp: vnode_rename_def bindR_eq_Inr Let_def)
    then have "vnode_rename (device_table k fuel D) v nm (s\<lparr>vnodes := (vnodes s)(v \<mapsto> n\<lparr>vnode_name := nm\<rparr>)\<rparr>) = Inr s'"
      using Suc.prems by (auto simp: modify_vnode_def ops_of_def get_vnode_def deref_eq_Inr device_filesystem_ops_def device_rename_def)
    moreover have "get_vnode (s\<lparr>vnodes := (vnodes s)(v \<mapsto> n\<lparr>vnode_name := nm\<rparr>)\<rparr>) v = Inr (n\<lparr>vnode_name := nm\<rparr>)"
      using Suc.prems(1) by (auto simp: get_vnode_def deref_eq_Inr)
    ultimately show False using Suc.IH Suc.prems(2) by fastforce
  qed
qed

theorem device_rename_diverges_witness:
  "\<exists>s n. get_vnode s 1 = Inr n \<and> vnode_ops n = DEVFS_OPS \<and> (\<forall>s'. vnode_rename (device_table 1000 64 Map.empty) 1 [97, 0] s \<noteq> Inr s')"
proof -
  let ?n = "zero_vnode\<lparr>vnode_ops := DEVFS_OPS\<rparr>"
  let ?s = "(demo_devfs demo_tmem Binary_Trees.demo_tree)\<lparr>vnodes := [1 \<mapsto> ?n]\<rparr>"
  have "get_vnode ?s 1 = Inr ?n" "vnode_ops ?n = DEVFS_OPS" by (simp_all add: get_vnode_def)
  with device_rename_diverges [of ?s 1 ?n 1000 64 Map.empty "[97, 0]"] show ?thesis by blast
qed

end
