(* ===== verification/Elf.thy ===== *)
theory Elf
  imports VFS Paging Bytes
begin

text \<open>
  \<^verbatim>\<open>system/elf.c\<close>: finding a section of an executable, loading an executable into the address space of a process, and
  relocations. An image in memory is a list of bytes; a pointer outside it faults. The file is reached through the virtual file
  system, with the handles of the process that is being loaded, and the segments through the page tables; the frames of user pages
  hold their contents. Messages and the freeing of buffers are left out.
\<close>

unbundle bit_operations_syntax

section \<open>The format\<close>

record elf64_hdr =
  e_ident :: "byte list"
  e_type :: "16 word"
  e_machine :: "16 word"
  e_version :: "32 word"
  e_entry :: "64 word"
  e_phoff :: "64 word"
  e_shoff :: "64 word"
  e_flags :: "32 word"
  e_ehsize :: "16 word"
  e_phentsize :: "16 word"
  e_phnum :: "16 word"
  e_shentsize :: "16 word"
  e_shnum :: "16 word"
  e_shstrndx :: "16 word"

record elf64_phdr =
  p_type :: "32 word"
  p_flags :: "32 word"
  p_offset :: "64 word"
  p_vaddr :: "64 word"
  p_paddr :: "64 word"
  p_filesz :: "64 word"
  p_memsz :: "64 word"
  p_align :: "64 word"

record elf64_shdr =
  sh_name :: "32 word"
  sh_type :: "32 word"
  sh_flags :: "64 word"
  sh_addr :: "64 word"
  sh_offset :: "64 word"
  sh_size :: "64 word"
  sh_link :: "32 word"
  sh_info :: "32 word"
  sh_addralign :: "64 word"
  sh_entsize :: "64 word"

record elf64_sym =
  st_name :: "32 word"
  st_info :: byte
  st_other :: byte
  st_shndx :: "16 word"
  st_value :: "64 word"
  st_size :: "64 word"

record elf64_rela =
  r_offset :: "64 word"
  r_info :: "64 word"
  r_addend :: "64 word"

text \<open>\<open>ld_path\<close> is an offset into the copy of the file.\<close>

record elf_info =
  at_entry :: "64 word"
  at_phdr :: "64 word"
  at_phent :: "64 word"
  at_phnum :: "64 word"
  ld_path :: "64 word option"

abbreviation (input) PT_LOAD :: "32 word" where "PT_LOAD \<equiv> 1"
abbreviation (input) PT_INTERP :: "32 word" where "PT_INTERP \<equiv> 3"
abbreviation (input) PT_PHDR :: "32 word" where "PT_PHDR \<equiv> 6"
abbreviation (input) PF_X :: "32 word" where "PF_X \<equiv> 1"
abbreviation (input) PF_W :: "32 word" where "PF_W \<equiv> 2"
abbreviation (input) PF_R :: "32 word" where "PF_R \<equiv> 4"
abbreviation (input) ELF_MAG :: "byte list" where "ELF_MAG \<equiv> [0x7F, 69, 76, 70]"
abbreviation (input) SIZEOF_HDR :: nat where "SIZEOF_HDR \<equiv> 64"
abbreviation (input) SIZEOF_PHDR :: nat where "SIZEOF_PHDR \<equiv> 56"
abbreviation (input) SIZEOF_SHDR :: nat where "SIZEOF_SHDR \<equiv> 64"
abbreviation (input) SIZEOF_SYM :: nat where "SIZEOF_SYM \<equiv> 24"
abbreviation (input) KERN_BAD_DESCRIPTOR :: int where "KERN_BAD_DESCRIPTOR \<equiv> -51"
abbreviation (input) KERN_BAD_HANDLE :: int where "KERN_BAD_HANDLE \<equiv> -20"

definition field :: "byte list \<Rightarrow> nat \<Rightarrow> 'a::len word" where
  "field b i = bytes_word (window b i (LENGTH('a) div 8))"

definition bytes_hdr :: "byte list \<Rightarrow> elf64_hdr" where
  "bytes_hdr b = \<lparr>e_ident = take 16 b, e_type = field b 16, e_machine = field b 18, e_version = field b 20, e_entry = field b 24,
     e_phoff = field b 32, e_shoff = field b 40, e_flags = field b 48, e_ehsize = field b 52, e_phentsize = field b 54,
     e_phnum = field b 56, e_shentsize = field b 58, e_shnum = field b 60, e_shstrndx = field b 62\<rparr>"

definition get_phdr :: "byte list \<Rightarrow> nat \<Rightarrow> elf64_phdr res" where
  "get_phdr b i = (if length b < i + SIZEOF_PHDR then Inl OutOfBounds
     else Inr \<lparr>p_type = field b i, p_flags = field b (i + 4), p_offset = field b (i + 8), p_vaddr = field b (i + 16),
       p_paddr = field b (i + 24), p_filesz = field b (i + 32), p_memsz = field b (i + 40), p_align = field b (i + 48)\<rparr>)"

definition get_shdr :: "byte list \<Rightarrow> nat \<Rightarrow> elf64_shdr res" where
  "get_shdr b i = (if length b < i + SIZEOF_SHDR then Inl OutOfBounds
     else Inr \<lparr>sh_name = field b i, sh_type = field b (i + 4), sh_flags = field b (i + 8), sh_addr = field b (i + 16),
       sh_offset = field b (i + 24), sh_size = field b (i + 32), sh_link = field b (i + 40), sh_info = field b (i + 44),
       sh_addralign = field b (i + 48), sh_entsize = field b (i + 56)\<rparr>)"

definition get_sym :: "byte list \<Rightarrow> nat \<Rightarrow> elf64_sym res" where
  "get_sym b i = (if length b < i + SIZEOF_SYM then Inl OutOfBounds
     else Inr \<lparr>st_name = field b i, st_info = field b (i + 4), st_other = field b (i + 5), st_shndx = field b (i + 6),
       st_value = field b (i + 8), st_size = field b (i + 16)\<rparr>)"

section \<open>Sections\<close>

text \<open>\<open>k\<close> sections from number \<open>i\<close> on; the result is the offset of the section header in the image, \<open>None\<close> for NULL.\<close>

fun section_loop :: "byte list \<Rightarrow> byte list \<Rightarrow> nat \<Rightarrow> nat \<Rightarrow> nat \<Rightarrow> nat \<Rightarrow> nat option res" where
  "section_loop elf name shoff shstrtab i 0 = Inr None"
| "section_loop elf name shoff shstrtab i (Suc k) =
     bindR (strlen name) (\<lambda>name_len.
     bindR (get_shdr elf (shoff + SIZEOF_SHDR * i)) (\<lambda>h.
     let sect = drop (shstrtab + unat (sh_name h)) elf in
     bindR (strlen sect) (\<lambda>sect_len.
       if name_len \<noteq> sect_len then section_loop elf name shoff shstrtab (Suc i) k
       else bindR (memcmp name sect (min name_len sect_len)) (\<lambda>c.
         if c = 0 then Inr (Some (shoff + SIZEOF_SHDR * i)) else section_loop elf name shoff shstrtab (Suc i) k))))"

definition elf_section_get :: "byte list option \<Rightarrow> byte list option \<Rightarrow> nat option res" where
  "elf_section_get elf name =
     (case (elf, name) of (Some elf, Some name) \<Rightarrow>
        if length elf \<le> 4 then Inl OutOfBounds
        else if elf ! 4 \<noteq> 2 then Inr None
        else if length elf < SIZEOF_HDR then Inl OutOfBounds
        else let h = bytes_hdr elf; shoff = unat (e_shoff h) in
          bindR (get_shdr elf (shoff + SIZEOF_SHDR * unat (e_shstrndx h))) (\<lambda>st.
            section_loop elf name shoff (unat (sh_offset st)) 0 (unat (e_shnum h)))
      | _ \<Rightarrow> Inr None)"

section \<open>Loading\<close>

text \<open>
  The state of the loader: the virtual file system, the page tables, the contents of the frames, the top level tables of the kernel and of the
  process, the registers of the process, and the process that runs on this processor.
\<close>

record 'f elf_state =
  files :: "'f vfs"
  vmem :: vm
  frames :: "64 word \<rightharpoonup> byte list"
  kernel_top :: "64 word"
  proc_top :: "64 word"
  reg_rip :: "64 word"
  reg_rsp :: "64 word"
  reg_rbp :: "64 word"
  running_process :: addr

text \<open>A write to an address of the kernel, through its page table.\<close>

definition store_byte :: "64 word \<Rightarrow> byte \<Rightarrow> 'f elf_state \<Rightarrow> 'f elf_state res" where
  "store_byte va b s =
     bindR (check_page_mapping (kernel_top s) va (vmem s)) (\<lambda>r. case r of None \<Rightarrow> Inl NullDeref
     | Some (t, i) \<Rightarrow>
       bindR (get_entry (vmem s) t i) (\<lambda>e.
         if \<not> present e then Inl NullDeref
         else case frames s (PTE_ADDR e) of None \<Rightarrow> Inl NullDeref
         | Some bs \<Rightarrow> Inr (s\<lparr>frames := (frames s)(PTE_ADDR e \<mapsto> bs[unat (va AND 0xFFF) := b])\<rparr>)))"

fun copy_in :: "64 word \<Rightarrow> byte list \<Rightarrow> 'f elf_state \<Rightarrow> 'f elf_state res" where
  "copy_in va [] s = Inr s"
| "copy_in va (b # bs) s = bindR (store_byte va b s) (\<lambda>s. copy_in (va + 1) bs s)"

fun zero_fill :: "64 word \<Rightarrow> nat \<Rightarrow> 'f elf_state \<Rightarrow> 'f elf_state res" where
  "zero_fill va 0 s = Inr s"
| "zero_fill va (Suc k) s = bindR (store_byte va 0 s) (\<lambda>s. zero_fill (va + 1) k s)"

text \<open>The protection of a segment; \<open>None\<close> is a segment that may not be read.\<close>

definition memory_protection :: "32 word \<Rightarrow> 64 word option" where
  "memory_protection flags =
     (if flags AND PF_R = 0 then None
      else Some (PTE_U OR PTE_P OR (if flags AND PF_W \<noteq> 0 then PTE_RW else 0) OR (if flags AND PF_X \<noteq> 0 then 0 else PTE_NX)))"

fun map_segment :: "nat \<Rightarrow> 64 word \<Rightarrow> 64 word \<Rightarrow> 64 word \<Rightarrow> vm \<Rightarrow> vm res" where
  "map_segment 0 pgdir va perms s = Inr s"
| "map_segment (Suc k) pgdir va perms s =
     bindR (umalloc_pages s) (\<lambda>(s, physical_page).
     bindR (map_single_page pgdir physical_page va perms s) (\<lambda>(s, _).
       map_segment k pgdir (va + PAGE_BYTES) perms s))"

text \<open>The case of a loadable segment. The file's bytes go to the start of the first page.\<close>

definition load_segment :: "byte list \<Rightarrow> elf64_phdr \<Rightarrow> 64 word \<Rightarrow> 64 word \<Rightarrow> 'f elf_state \<Rightarrow> 'f elf_state res" where
  "load_segment elf_file ph base perms s =
     (let aligned_address = align_down (p_vaddr ph + base);
          aligned_diff = p_vaddr ph + base - aligned_address;
          page_count = align_up (p_memsz ph + aligned_diff) div PAGE_BYTES in
      bindR (map_segment (unat page_count) (proc_top s) aligned_address perms (vmem s)) (\<lambda>m.
      bindR (arch_map_foreign (kernel_top s) (proc_top s) aligned_address page_count m) (\<lambda>m.
        if length elf_file < unat (p_offset ph) + unat (p_filesz ph) then Inl OutOfBounds
        else bindR (copy_in KERNEL_FOREIGN_MAP_BASE (window elf_file (unat (p_offset ph)) (unat (p_filesz ph))) (s\<lparr>vmem := m\<rparr>)) (\<lambda>s.
             bindR (zero_fill (KERNEL_FOREIGN_MAP_BASE + aligned_diff + p_filesz ph) (unat (p_memsz ph - p_filesz ph)) s) (\<lambda>s.
             bindR (arch_unmap_foreign (kernel_top s) (PAGE_BYTES * page_count) (vmem s)) (\<lambda>m.
               Inr (s\<lparr>vmem := m\<rparr>)))))))"

text \<open>The loop over the program headers from number \<open>i\<close>, with \<open>k\<close> to go; the flag says that the loop returned early.\<close>

fun phdr_loop :: "byte list \<Rightarrow> 64 word \<Rightarrow> 64 word \<Rightarrow> nat \<Rightarrow> nat \<Rightarrow> elf_info \<Rightarrow> 'f elf_state \<Rightarrow> ('f elf_state \<times> elf_info \<times> bool) res" where
  "phdr_loop elf_file phoff base i 0 info s = Inr (s, info, False)"
| "phdr_loop elf_file phoff base i (Suc k) info s =
     bindR (get_phdr elf_file (unat phoff + i * SIZEOF_PHDR)) (\<lambda>ph.
       if p_type ph = PT_LOAD then
         (case memory_protection (p_flags ph) of None \<Rightarrow> Inr (s, info, True)
          | Some perms \<Rightarrow> bindR (load_segment elf_file ph base perms s) (\<lambda>s. phdr_loop elf_file phoff base (Suc i) k info s))
       else if p_type ph = PT_PHDR then phdr_loop elf_file phoff base (Suc i) k (info\<lparr>at_phdr := base + p_vaddr ph\<rparr>) s
       else if p_type ph = PT_INTERP then phdr_loop elf_file phoff base (Suc i) k (info\<lparr>ld_path := Some (p_filesz ph)\<rparr>) s
       else phdr_loop elf_file phoff base (Suc i) k info s)"

definition elf_arch_ok :: "elf64_hdr \<Rightarrow> bool" where
  "elf_arch_ok h \<longleftrightarrow> e_ident h ! 4 = 2 \<and> e_ident h ! 5 = 1 \<and> e_ident h ! 6 = 1 \<and> e_ident h ! 7 = 0 \<and>
     e_machine h = 62 \<and> e_phentsize h = of_nat SIZEOF_PHDR"

text \<open>The rest of \<^verbatim>\<open>load_elf\<close> once the header is accepted, with the test of the page at \<open>0x1000\<close> that the kernel is built with.\<close>

definition load_image :: "'f fs_table \<Rightarrow> 64 word \<Rightarrow> elf64_hdr \<Rightarrow> 64 word \<Rightarrow> elf_info \<Rightarrow> 'f elf_state \<Rightarrow> ('f elf_state \<Rightarrow> 'f elf_state) \<Rightarrow>
    ('f elf_state \<times> elf_info \<times> int) res" where
  "load_image T handle h base info s give_up =
     bindR (handle_to_vnode (files s) handle) (\<lambda>v.
     bindR (get_vnode (files s) v) (\<lambda>n.
     bindR (vnode_read T v 0 (vnode_size n) (replicate (unat (vnode_size n)) 0) (files s)) (\<lambda>(f, elf_file, ret).
     let s = s\<lparr>files := f\<rparr> in
       if ret \<noteq> 0 then Inl (Panic ''COULD NOT READ ELF FILE!'')
       else bindR (phdr_loop elf_file (e_phoff h) base 0 (unat (e_phnum h)) info s) (\<lambda>(s, info, early).
         if early then Inr (give_up s, info, KERN_BAD_DESCRIPTOR)
         else
           let s = s\<lparr>reg_rip := e_entry h, reg_rsp := USER_STACK_TOP, reg_rbp := USER_STACK_TOP\<rparr>;
               info = info\<lparr>at_entry := base + e_entry h, at_phnum := ucast (e_phnum h), at_phent := ucast (e_phentsize h)\<rparr> in
           bindR (check_page_mapping (proc_top s) 0x1000 (vmem s)) (\<lambda>page.
             case page of None \<Rightarrow> Inl (Panic ''Page is not mapped'') | Some _ \<Rightarrow> Inr (s, info, KERN_OK))))))"

text \<open>
  \<^verbatim>\<open>load_elf\<close> for the process \<open>p\<close>. The comparison in the call of \<^verbatim>\<open>read\<close> is inside its last argument, so that one byte of the header
  is asked for.
\<close>

definition load_elf :: "'f fs_table \<Rightarrow> addr \<Rightarrow> byte list option \<Rightarrow> 64 word \<Rightarrow> elf_info \<Rightarrow> 'f elf_state \<Rightarrow> ('f elf_state \<times> elf_info \<times> int) res" where
  "load_elf T p pth base info s =
     (case pth of None \<Rightarrow> Inr (s, info, KERN_BAD_HANDLE)
      | Some pth \<Rightarrow>
        let init = (running_process s = NULL);
            s = (if init then s\<lparr>running_process := p\<rparr> else s);
            give_up = (\<lambda>s. if init then s\<lparr>running_process := NULL\<rparr> else s) in
        bindR (vfs_open T pth (files s)) (\<lambda>(f, handle).
        let s = s\<lparr>files := f\<rparr> in
        if handle < 0 then Inl (Panic ''INIT NOT FOUND!'')
        else bindR (vfs_read T (word_of_int handle) (replicate SIZEOF_HDR 0) 1 (files s)) (\<lambda>(f, header, ret).
          let s = s\<lparr>files := f\<rparr>; h = bytes_hdr header in
          if ret \<noteq> 0 then Inr (give_up s, info, KERN_BAD_DESCRIPTOR)
          else bindR (memcmp (e_ident h) ELF_MAG 4) (\<lambda>c.
            if c \<noteq> 0 \<or> \<not> elf_arch_ok h then Inr (give_up s, info, KERN_WRONG_TYPE)
            else load_image T (word_of_int handle) h base info s give_up))))"

section \<open>Relocation\<close>

text \<open>
  \<open>img\<close> are the bytes from the virtual base on. The number of the symbol is used as an offset in bytes. A symbol without a section is
  looked up by a function that is still to be written; it is never found.
\<close>

definition elf_relocate :: "elf64_rela \<Rightarrow> byte list \<Rightarrow> 64 word \<Rightarrow> byte list \<Rightarrow> (byte list \<times> int) res" where
  "elf_relocate rel symtab virtual_base img =
     bindR (get_sym symtab (unat (drop_bit 32 (r_info rel)))) (\<lambda>symbol.
     let store = (\<lambda>w :: 64 word. if length img < unat (r_offset rel) + 8 then Inl OutOfBounds
           else Inr (overwrite img (unat (r_offset rel)) (word_bytes w), KERN_OK)) in
       if r_info rel AND 0xFFFFFFFF \<in> {1, 6, 7} then
         if st_shndx symbol = 0 then Inr (img, KERN_NOT_FOUND)
         else store (virtual_base + st_value symbol + r_addend rel)
       else if r_info rel AND 0xFFFFFFFF = 8 then store (virtual_base + r_addend rel)
       else Inr (img, KERN_NOT_FOUND))"

end
