(* ===== verification/Elf_Images.thy ===== *)
theory Elf_Images
  imports Elf VFS_Lookup
begin

text \<open>
  Executables: the section that a name leads to, and what a relocation writes.
\<close>

unbundle bit_operations_syntax

section \<open>Sections\<close>

definition text_at :: "byte list \<Rightarrow> nat \<Rightarrow> byte list" where
  "text_at b i = takeWhile (\<lambda>c. c \<noteq> 0) (drop i b)"

definition section_name :: "byte list \<Rightarrow> nat \<Rightarrow> nat \<Rightarrow> nat \<Rightarrow> byte list" where
  "section_name elf shoff strtab i = text_at elf (strtab + unat (field elf (shoff + SIZEOF_SHDR * i) :: 32 word))"

lemma text_at_split:
  assumes "0 \<in> set (drop i b)"
  shows "\<exists>r. drop i b = text_at b i @ 0 # r" "0 \<notin> set (text_at b i)"
proof -
  obtain a c where ac: "drop i b = a @ 0 # c" "0 \<notin> set a" using assms by (auto dest: split_list_first)
  then have "text_at b i = a" unfolding text_at_def ac(1) by (subst takeWhile_append2) auto
  then show "\<exists>r. drop i b = text_at b i @ 0 # r" "0 \<notin> set (text_at b i)" using ac by auto
qed

lemma memcmp_same_length:
  "length x = length y \<Longrightarrow> memcmp (x @ r) (y @ q) (length x) = Inr c \<Longrightarrow> c = 0 \<longleftrightarrow> x = y"
  by (induction x y rule: list_induct2) (auto split: if_splits)

lemma memcmp_returns: "length x = length y \<Longrightarrow> \<exists>c. memcmp (x @ r) (y @ q) (length x) = Inr c"
  by (induction x y rule: list_induct2) auto

lemma section_loop_eq:
  assumes "0 \<notin> set x"
    and "\<forall>j\<in>{i..<i + k}. shoff + SIZEOF_SHDR * j + SIZEOF_SHDR \<le> length elf \<and>
      0 \<in> set (drop (strtab + unat (field elf (shoff + SIZEOF_SHDR * j) :: 32 word)) elf)"
  shows "section_loop elf (x @ [0]) shoff strtab i k =
    Inr (map_option (\<lambda>j. shoff + SIZEOF_SHDR * j) (find (\<lambda>j. section_name elf shoff strtab j = x) [i..<i + k]))"
  using assms(2)
proof (induction k arbitrary: i)
  case (Suc k)
  let ?o = "strtab + unat (field elf (shoff + SIZEOF_SHDR * i) :: 32 word)" and ?n = "section_name elf shoff strtab i"
  have "shoff + SIZEOF_SHDR * i + SIZEOF_SHDR \<le> length elf" "0 \<in> set (drop ?o elf)" using Suc.prems by auto
  then obtain h r where h: "get_shdr elf (shoff + SIZEOF_SHDR * i) = Inr h" "sh_name h = field elf (shoff + SIZEOF_SHDR * i)"
    and d: "drop ?o elf = ?n @ 0 # r" "0 \<notin> set ?n"
    using text_at_split [of ?o elf] by (auto simp: get_shdr_def section_name_def)
  have l: "strlen (x @ [0]) = Inr (length x)" "strlen (?n @ 0 # r) = Inr (length ?n)" using strlen_eq assms(1) d(2) by blast+
  have ih: "section_loop elf (x @ [0]) shoff strtab (Suc i) k =
      Inr (map_option (\<lambda>j. shoff + SIZEOF_SHDR * j) (find (\<lambda>j. section_name elf shoff strtab j = x) [Suc i..<Suc i + k]))"
    using Suc.prems by (intro Suc.IH) auto
  have u: "[i..<i + Suc k] = i # [Suc i..<Suc i + k]" by (simp add: upt_conv_Cons del: upt_Suc)
  show ?case
  proof (cases "length x = length ?n")
    case True
    obtain c where c: "memcmp (x @ [0]) (?n @ 0 # r) (length x) = Inr c" using memcmp_returns [OF True] by blast
    then have "c = 0 \<longleftrightarrow> ?n = x" using memcmp_same_length [OF True c] by auto
    then show ?thesis using h d l ih c True unfolding u by (simp add: Let_def)
  next
    case False
    then have "?n \<noteq> x" by auto
    then show ?thesis using h d l ih False unfolding u by (simp add: Let_def)
  qed
qed simp

text \<open>
  \<^verbatim>\<open>elf_section_get\<close> returns the header of the first section with exactly the name asked for, or NULL when there is none, for every image
  whose section headers and section names lie inside it.
\<close>

theorem elf_section_get_first:
  assumes "SIZEOF_HDR \<le> length elf" "elf ! 4 = 2" and "0 \<notin> set x"
    and "get_shdr elf (shoff + SIZEOF_SHDR * unat (e_shstrndx (bytes_hdr elf))) = Inr st" "shoff = unat (e_shoff (bytes_hdr elf))"
    and "\<forall>j < unat (e_shnum (bytes_hdr elf)). shoff + SIZEOF_SHDR * j + SIZEOF_SHDR \<le> length elf \<and>
      0 \<in> set (drop (unat (sh_offset st) + unat (field elf (shoff + SIZEOF_SHDR * j) :: 32 word)) elf)"
  shows "elf_section_get (Some elf) (Some (x @ [0])) =
    Inr (map_option (\<lambda>j. shoff + SIZEOF_SHDR * j)
      (find (\<lambda>j. section_name elf shoff (unat (sh_offset st)) j = x) [0..<unat (e_shnum (bytes_hdr elf))]))"
  using section_loop_eq [OF assms(3), of 0 "unat (e_shnum (bytes_hdr elf))" shoff elf "unat (sh_offset st)"] assms
  by (simp add: elf_section_get_def Let_def del: section_loop.simps)

text \<open>An image with one section, whose name is \<^verbatim>\<open>.t\<close>.\<close>

definition demo_image :: "byte list" where
  "demo_image = replicate 4 0 @ [2] @ replicate 35 0 @ [64] @ replicate 19 0 @ [1, 0, 0, 0] @ replicate 24 0 @ [128] @ replicate 39 0 @ [46, 116, 0]"

lemma demo_image_fields:
  "length demo_image = 131" "demo_image ! 4 = 2" "e_shoff (bytes_hdr demo_image) = 64" "e_shnum (bytes_hdr demo_image) = 1"
  "e_shstrndx (bytes_hdr demo_image) = 0" "(field demo_image 64 :: 32 word) = 0" "(field demo_image 88 :: 64 word) = 128"
  "drop 128 demo_image = [46, 116, 0]"
  by (code_simp)+

theorem elf_section_get_first_witness:
  "elf_section_get (Some demo_image) (Some [46, 116, 0]) = Inr (Some 64) \<and> elf_section_get (Some demo_image) (Some [46, 0]) = Inr None"
proof -
  obtain st where st: "get_shdr demo_image (64 + SIZEOF_SHDR * unat (e_shstrndx (bytes_hdr demo_image))) = Inr st" "sh_offset st = 128"
    using demo_image_fields by (simp add: get_shdr_def)
  have n: "section_name demo_image 64 (unat (sh_offset st)) 0 = [46, 116]"
    using demo_image_fields st(2) by (simp add: section_name_def text_at_def)
  have "elf_section_get (Some demo_image) (Some (x @ [0])) = Inr (map_option (\<lambda>j. 64 + SIZEOF_SHDR * j)
      (find (\<lambda>j. section_name demo_image 64 (unat (sh_offset st)) j = x) [0..<unat (e_shnum (bytes_hdr demo_image))]))" if "0 \<notin> set x" for x
    using that demo_image_fields st by (intro elf_section_get_first) simp_all
  from this [of "[46, 116]"] this [of "[46]"] show ?thesis using n by (simp add: demo_image_fields(4))
qed

section \<open>Relocation\<close>

text \<open>
  A relative relocation stores the base plus the addend at its place, and changes no other byte of the image.
\<close>

theorem elf_relocate_relative:
  assumes "r_info rel AND 0xFFFFFFFF = 8" "unat (drop_bit 32 (r_info rel)) + SIZEOF_SYM \<le> length symtab"
    and "unat (r_offset rel) + 8 \<le> length img"
  shows "\<exists>img'. elf_relocate rel symtab virtual_base img = Inr (img', KERN_OK) \<and> length img' = length img \<and>
    (field img' (unat (r_offset rel)) :: 64 word) = virtual_base + r_addend rel \<and>
    (\<forall>i<length img. i < unat (r_offset rel) \<or> unat (r_offset rel) + 8 \<le> i \<longrightarrow> img' ! i = img ! i)"
proof -
  let ?w = "virtual_base + r_addend rel :: 64 word" and ?o = "unat (r_offset rel)"
  obtain sym where "get_sym symtab (unat (drop_bit 32 (r_info rel))) = Inr sym" using assms(2) by (simp add: get_sym_def)
  then have "elf_relocate rel symtab virtual_base img = Inr (overwrite img ?o (word_bytes ?w), KERN_OK)"
    using assms by (simp add: elf_relocate_def)
  moreover have "(field (overwrite img ?o (word_bytes ?w)) ?o :: 64 word) = ?w"
    using assms(3) by (simp add: field_def window_overwrite_same bytes_word_word_bytes)
  moreover have "overwrite img ?o (word_bytes ?w) ! i = img ! i" if "i < length img" "i < ?o \<or> ?o + 8 \<le> i" for i
    using that assms(3) by (auto simp: nth_overwrite)
  ultimately show ?thesis using assms(3) by (intro exI [of _ "overwrite img ?o (word_bytes ?w)"]) simp
qed

theorem elf_relocate_relative_witness:
  "\<exists>img'. elf_relocate \<lparr>r_offset = 8, r_info = 8, r_addend = 0x10\<rparr> (replicate 24 0) 0x400000 (replicate 16 0) = Inr (img', KERN_OK) \<and>
    (field img' 8 :: 64 word) = 0x400010"
  using elf_relocate_relative [where rel = "\<lparr>r_offset = 8, r_info = 8, r_addend = 0x10\<rparr>" and symtab = "replicate 24 0" and img = "replicate 16 0"
    and virtual_base = "0x400000"] by auto

end
