(* ===== verification/Elf_Loading.thy ===== *)
theory Elf_Loading
  imports Elf DiosFS_Calls
begin

text \<open>
  Loading an executable from a DiosFS volume: opening the file, and the read of its header.
\<close>

section \<open>A file that was just opened\<close>

lemma inserted_head:
  assumes "doubly_linked_list_insert_head m l d = Inr (m', l')"
  shows "\<exists>n. deref (dnodes m') (dhead l') = Inr n \<and> ddata n = d \<and> dcount l' = dcount l + 1"
  using assms
  by (auto simp: doubly_linked_list_insert_head_def Let_def bindR_eq_Inr modify_def deref_eq_Inr split: if_splits prod.splits)

text \<open>The handle that \<^verbatim>\<open>open\<close> returns is the first of the list, and its offset is 0.\<close>

lemma case_list_eq_Inr: "(case xs of [] \<Rightarrow> Inl e | x # xs \<Rightarrow> g x xs) = Inr y \<longleftrightarrow> (\<exists>x ys. xs = x # ys \<and> g x ys = Inr y)"
  by (cases xs) auto

lemma push_handle:
  assumes "bindR (doubly_linked_list_insert_head m l h) (\<lambda>(m, l).
      Inr (s\<lparr>hheap := rest, handles := (handles s)(h \<mapsto> x), num_handles := k, hl := m, handle_list := l\<rparr>, ret)) = Inr (s', handle)"
  shows "ret = handle \<and> doubly_linked_list_insert_head m l h = Inr (hl s', handle_list s') \<and> handles s' h = Some x"
  using assms by (auto simp: bindR_eq_Inr)

lemma opened_handle:
  assumes "vfs_open T pth s = Inr (s', handle)" "0 \<le> handle" "handle_to_vnode s' (word_of_int handle) = Inr v"
  shows "handle_to_offset s' (word_of_int handle) = Inr 0"
proof -
  from assms(1,2) have "vnode_open T pth s = Inr (s', handle)" by (auto simp: vfs_open_def bindR_eq_Inr split: if_splits)
  then obtain s1 ret where g: "get_new_file_handle s = (s1, ret)" "\<not> ret < 0" using assms(2)
    by (cases "get_new_file_handle s"; cases "snd (get_new_file_handle s) < 0") (auto simp: vnode_open_def)
  from \<open>vnode_open T pth s = Inr (s', handle)\<close> g assms(2) obtain m l h w where h: "doubly_linked_list_insert_head m l h = Inr (hl s', handle_list s')"
      "handles s' h = Some \<lparr>handle_id = word_of_int handle, handle_vnode = w, handle_offset = 0\<rparr>"
    unfolding vnode_open_def g(1) Let_def prod.case
    by (auto simp only: bindR_eq_Inr [of "vnode_lookup T pth s1"] bindR_eq_Inr [of "get_vnode _ _"] bindR_eq_Inr [of "modify_vnode _ _ _"]
          case_list_eq_Inr prod.case sum.inject split: if_splits dest!: push_handle) auto
  from inserted_head [OF h(1)] obtain n k where n: "deref (dnodes (hl s')) (dhead (handle_list s')) = Inr n" "ddata n = h" "dcount (handle_list s') = Suc k"
    by auto
  then have "deref (handles s') h = Inr \<lparr>handle_id = word_of_int handle, handle_vnode = w, handle_offset = 0\<rparr>"
    using assms(3) h(2) by (auto simp: handle_to_vnode_def deref_def split: if_splits)
  then show ?thesis using n by (simp add: handle_to_offset_def)
qed

section \<open>The header\<close>

lemma copy_bytes_overruns: "dpos + index \<le> length dst \<Longrightarrow> length dst < dpos + index + n \<Longrightarrow> copy_bytes n index dst dpos src spos = Inl OutOfBounds"
proof (induction n arbitrary: index dst)
  case (Suc n)
  then show ?case using Suc.IH [of "index + 1" "dst[dpos + index := src ! (spos + index)]"] by auto
qed simp

lemma read_block_overruns:
  assumes "dios_ok c device nblk rds" "b < s_num_blocks (fs_superblock c)" "pos \<le> length buf" "length buf < pos + 1024"
  shows "diosfs_read_block_by_number c b buf pos off sz rds = Inl OutOfBounds"
proof -
  let ?b = "s_block_start_pointer (fs_superblock c) + b"
  have "?b + 1 \<le> nblk" using dios.lay [OF assms(1)] assms(2) by (simp add: layout_ok_def)
  moreover have rd: "rd_ok device 1024 nblk rds" using assms(1) by (simp add: dios_ok_def)
  ultimately have "ramdisk_device_ops_read device ?b 1 buf pos rds = Inl OutOfBounds"
    using rd_block_range [OF rd, of ?b 1] copy_bytes_overruns [of pos 0 buf 1024] assms(3,4)
    by (auto simp: ramdisk_device_ops_read_def ramdisk_read_def rd_ok_def Let_def not_less PAGE_SIZE_def)
  then show ?thesis by (simp add: diosfs_read_block_by_number_def dios.fs_ops_eq [OF assms(1)] ramdisk_ops_def)
qed

text \<open>C39: 
  The loader asks for one byte of the header. DiosFS reads whole blocks, and the test of the size of the buffer is made with the number of
  bytes rounded up to a page. So the first block of the file is written over the 64 bytes of the header and what lies behind
  them, for every regular file of a volume and whatever it holds.
\<close>

theorem load_elf_overruns_header:
  assumes "vfs_open T pth (files s) = Inr (f, handle)" "0 \<le> handle" "handle_to_vnode f (word_of_int handle) = Inr v"
    and v: "volume_vnode device nblk v n c f" "vnode_type n = VFS.VNODE_FILE" "\<not> is_mount_point n" "node_lock n" "vnode_ops n = DIOSFS_OPS"
    and T: "T DIOSFS_OPS = Some (diosfs_vnode_ops T')"
    and i: "unat (vnode_inode_number n) < s_num_inodes (fs_superblock (ctx c))"
      "inode = inodes (dios_view (ctx c) device (disk (fs f))) (unat (vnode_inode_number n))"
      "i_type inode = DiosFS_Layout.VNODE_FILE" "unat (i_blocks inode ! 0) < s_num_blocks (fs_superblock (ctx c))"
  shows "load_elf T p (Some pth) base info s = Inl OutOfBounds"
proof -
  note vv = volume_vnodeD [OF v(1)]
  have nn: "v \<noteq> NULL" using vv(1) by (auto simp: get_vnode_def deref_def split: if_splits)
  have ino: "vnode_inode c n f = Inr inode" using dios.read_inode_ok [OF vv(3) i(1)] i(2) by (simp add: vnode_inode_def dios_view_def)
  have wf: "wf_inode inode" using dios.wf_inodes [OF vv(3)] i(2) by (simp add: dios_view_def)
  have "diosfs_get_relative_block_number_from_file (ctx c) inode 0 (disk (fs f)) = Inr (unat (i_blocks inode ! 0))"
    using dios.relative_block_ok [OF vv(3) wf, of 0] by (simp add: path_ok_def file_block_def)
  then have "diosfs_read_bytes_from_inode (ctx c) inode (replicate 64 0) 0 4096 0 1 (disk (fs f)) = Inl OutOfBounds"
    using read_block_overruns [OF vv(3) i(4), of 0 "replicate 64 0"] i(3)
    by (simp add: diosfs_read_bytes_from_inode_def Let_def dios.block_size_eq [OF vv(3)])
  then have "diosfs_read T' v 0 (replicate 64 0) 1 f = Inl OutOfBounds"
    using vv(2) v(2) ino dios.block_size_eq [OF vv(3)] round_up_page [of 1] by (simp add: diosfs_read_def DIOSFS_SUCCESS_def)
  then have "vnode_read T v 0 1 (replicate 64 0) f = Inl OutOfBounds"
    using vv(1) v(3-5) T by (simp add: vnode_read_def take_node_lock_def ops_of_def diosfs_vnode_ops_def)
  then have "vfs_read T (word_of_int handle) (replicate 64 0) 1 f = Inl OutOfBounds"
    using assms(3) nn opened_handle [OF assms(1-3)] by (simp add: vfs_read_def)
  then show ?thesis using assms(1,2) by (simp add: load_elf_def Let_def)
qed

section \<open>Witness\<close>

text \<open>
  The file with inode 5 of the demonstration volume, by the name \<^verbatim>\<open>ab\<close> in the root directory, whose entries were read before.
\<close>

definition demo_loader :: "ramdisk list \<Rightarrow> ramdisk list dios_state elf_state" where
  "demo_loader rds = \<lparr>files = (demo_dios rds)\<lparr>vnodes := [1 \<mapsto> (demo_dios_vnode 0 2)\<lparr>is_cached := True, num_children := 1, vnode_children := Some [2, NULL],
         vnode_flags := VNODE_CHILD_MEMORY_ALLOCATED\<rparr>, 2 \<mapsto> (demo_dios_vnode 1 5)\<lparr>vnode_name := [97, 98, 0], vnode_parent := 1\<rparr>],
       hheap := [20], hl := hl demo_vfs\<rparr>,
     vmem = \<lparr>tables = Map.empty, kpages = [], upages = [], kfreed = [], ufreed = []\<rparr>, frames = Map.empty,
     kernel_top = 0, proc_top = 0, reg_rip = 0, reg_rsp = 0, reg_rbp = 0, running_process = NULL\<rparr>"

definition no_info :: elf_info where
  "no_info = \<lparr>at_entry = 0, at_phdr = 0, at_phent = 0, at_phnum = 0, ld_path = None\<rparr>"

lemma demo_token: "strtok [97, 98, 0] SLASH 1 = Inr ([97, 98, 0], LAST_TOKEN)"
  using strtok_nth [of "[[97, 98]]" 0 "[]"] by (simp add: component_def)

lemma demo_child:
  "find_vnode_child T (files (demo_loader rds)\<lparr>handle_id_bitmap := b\<rparr>) 1 [97, 98, 0] = Inr (files (demo_loader rds)\<lparr>handle_id_bitmap := b\<rparr>, 2)"
  by (simp add: find_vnode_child_def demo_loader_def get_vnode_def demo_dios_vnode_def zero_vnode_def)

lemma demo_lookup:
  "vnode_lookup T [47, 97, 98, 0] (files (demo_loader rds)\<lparr>handle_id_bitmap := b\<rparr>) = Inr (files (demo_loader rds)\<lparr>handle_id_bitmap := b\<rparr>, 2)"
proof -
  let ?s = "files (demo_loader rds)\<lparr>handle_id_bitmap := b\<rparr>"
  have "\<exists>r. get_vnode ?s 1 = Inr r \<and> \<not> is_mount_point r" "\<exists>n. get_vnode ?s 2 = Inr n \<and> \<not> is_mount_point n"
    by (simp_all add: demo_loader_def get_vnode_def demo_dios_vnode_def zero_vnode_def)
  then have "path_walk (length [97, 98, 0]) T [97, 98, 0] 1 1 ?s = Inr (?s, 2)"
    using demo_token demo_child [of T b rds] by auto
  then show ?thesis using \<open>\<exists>r. get_vnode ?s 1 = Inr r \<and> \<not> is_mount_point r\<close> by (auto simp: vnode_lookup_def parse_path_def simp del: path_walk.simps)
qed

lemma demo_handle: "get_new_file_handle (files (demo_loader rds)) = (files (demo_loader rds)\<lparr>handle_id_bitmap := 1\<rparr>, 0)"
proof -
  have "free_id 0 0 64 = Some 0" using free_id.simps(2) [of 0 0 63] by simp
  moreover have "handle_id_bitmap (files (demo_loader rds)) = 0" by (simp add: demo_loader_def demo_dios_def)
  ultimately show ?thesis by (simp add: get_new_file_handle_def)
qed

lemma demo_open_facts:
  "\<exists>s. vfs_open T [47, 97, 98, 0] (files (demo_loader rds)) = Inr (s, 0) \<and> handle_to_vnode s 0 = Inr 2 \<and> fs s = fs (demo_dios rds) \<and>
    get_vnode s 2 = Inr ((demo_dios_vnode 1 5)\<lparr>vnode_name := [97, 98, 0], vnode_parent := 1, vnode_refcount := 1\<rparr>)"
  using demo_lookup [of T 1 rds] demo_handle
  by (simp add: vfs_open_def vnode_open_def) (simp add: demo_loader_def demo_dios_def get_vnode_def modify_vnode_def change_fs_refs_def demo_dios_vnode_def zero_vnode_def
    demo_vfs_def doubly_linked_list_insert_head_def node_kmalloc_def modify_def handle_to_vnode_def)

theorem load_elf_overruns_header_witness:
  "\<exists>rds. load_elf (diosfs_table 1) 9 (Some [47, 97, 98, 0]) 0 no_info (demo_loader rds) = Inl OutOfBounds"
proof -
  obtain rds where r: "dios_ok demo_fs demo_device 32 rds"
    "linked_file (fs_superblock demo_fs) (dios_view demo_fs demo_device rds) 5 DiosFS_Dirs.demo_file" using demo_linked_file by blast
  let ?n = "(demo_dios_vnode 1 5)\<lparr>vnode_name := [97, 98, 0], vnode_parent := 1, vnode_refcount := 1\<rparr>"
  obtain f where f: "vfs_open (diosfs_table 1) [47, 97, 98, 0] (files (demo_loader rds)) = Inr (f, 0)" "handle_to_vnode f 0 = Inr 2"
      "fs f = fs (demo_dios rds)" "get_vnode f 2 = Inr ?n"
    using demo_open_facts by blast
  have "volume_vnode demo_device 32 2 ?n demo_context f"
    using f(3,4) r(1) by (simp add: volume_vnode_def demo_dios_def demo_context_def demo_dios_vnode_def)
  moreover have "unat (vnode_inode_number ?n) = 5" "filesystem_object ?n = 1" "vnode_type ?n = VFS.VNODE_FILE" "node_lock ?n" "vnode_ops ?n = DIOSFS_OPS" "\<not> is_mount_point ?n"
    by (simp_all add: demo_dios_vnode_def zero_vnode_def)
  moreover have "ctx demo_context = demo_fs" "disk (fs f) = rds" using f(3) by (simp_all add: demo_context_def demo_dios_def)
  moreover have "5 < s_num_inodes (fs_superblock demo_fs)" "inodes (dios_view demo_fs demo_device rds) 5 = DiosFS_Dirs.demo_file"
      "i_type DiosFS_Dirs.demo_file = DiosFS_Layout.VNODE_FILE" "unat (i_blocks DiosFS_Dirs.demo_file ! 0) < s_num_blocks (fs_superblock demo_fs)"
    using r(2) by (auto simp: linked_file_def Let_def)
  ultimately have "load_elf (diosfs_table 1) 9 (Some [47, 97, 98, 0]) 0 no_info (demo_loader rds) = Inl OutOfBounds"
    using f(1,2) by (intro load_elf_overruns_header [where f = f and handle = 0 and v = 2 and n = ?n and c = demo_context and device = demo_device and nblk = 32
      and T' = Map.empty and inode = DiosFS_Dirs.demo_file]) simp_all
  then show ?thesis by blast
qed

end
