(* ===== verification/Mkdiosfs.thy ===== *)
theory Mkdiosfs
  imports DiosFS_Vnodes
begin

text \<open>
  The tool that makes file system images (\<^verbatim>\<open>tools/mkfs/mkdiosfs.c\<close>). It builds the whole disk in one buffer; the structures on it, the
  indices of blocks and the scans of the bitmaps are those of the kernel. \<^verbatim>\<open>exit(1)\<close> after a message is a panic. A string is a list of bytes
  that ends with its terminator; copying it over the end of a structure is a fault. What the host gives the tool (the contents of files, the names in
  a directory, the memory from \<^verbatim>\<open>malloc\<close>) are arguments.
\<close>

section \<open>The disk buffer\<close>

text \<open>The global variables.\<close>

record mkfs =
  disk_buffer :: "byte list"
  block_start :: nat
  inode_start :: nat
  block_bitmap_start :: nat
  inode_bitmap_start :: nat

abbreviation (input) DIOSFS_BLOCKSIZE :: nat where "DIOSFS_BLOCKSIZE \<equiv> 1024"
abbreviation (input) DIOSFS_DIRECTORY :: "16 word" where "DIOSFS_DIRECTORY \<equiv> 0"
abbreviation (input) DIOSFS_REG_FILE :: "16 word" where "DIOSFS_REG_FILE \<equiv> 1"

text \<open>The two uses of \<^verbatim>\<open>memcpy\<close>: between the buffer and another piece of memory.\<close>

definition put_disk :: "nat \<Rightarrow> byte list \<Rightarrow> mkfs \<Rightarrow> mkfs res" where
  "put_disk off bs s = (if length (disk_buffer s) < off + length bs then Inl OutOfBounds
     else Inr (s\<lparr>disk_buffer := overwrite (disk_buffer s) off bs\<rparr>))"

definition get_disk :: "nat \<Rightarrow> nat \<Rightarrow> mkfs \<Rightarrow> byte list res" where
  "get_disk off n s = (if length (disk_buffer s) < off + n then Inl OutOfBounds else Inr (window (disk_buffer s) off n))"

definition mk_write_block :: "nat \<Rightarrow> byte list \<Rightarrow> nat \<Rightarrow> nat \<Rightarrow> mkfs \<Rightarrow> mkfs res" where
  "mk_write_block block_number block_buffer offset write_size s =
     (if length block_buffer < write_size then Inl OutOfBounds
      else put_disk (block_number * DIOSFS_BLOCKSIZE + offset) (take write_size block_buffer) s)"

definition mk_read_block :: "nat \<Rightarrow> nat \<Rightarrow> nat \<Rightarrow> mkfs \<Rightarrow> byte list res" where
  "mk_read_block block_number offset read_size s = get_disk (block_number * DIOSFS_BLOCKSIZE + offset) read_size s"

definition INODE_TO_BYTE_OFFSET :: "mkfs \<Rightarrow> nat \<Rightarrow> nat" where
  "INODE_TO_BYTE_OFFSET s inode_number =
     inode_start s * DIOSFS_BLOCKSIZE + inode_number div NUM_INODES_PER_BLOCK * DIOSFS_BLOCKSIZE +
     inode_number mod NUM_INODES_PER_BLOCK * 256"

definition mk_read_inode :: "nat \<Rightarrow> mkfs \<Rightarrow> diosfs_inode res" where
  "mk_read_inode inode_number s = bindR (get_disk (INODE_TO_BYTE_OFFSET s inode_number) 256 s) (\<lambda>b. Inr (bytes_inode b))"

definition mk_write_inode :: "diosfs_inode \<Rightarrow> mkfs \<Rightarrow> mkfs res" where
  "mk_write_inode inode s = put_disk (INODE_TO_BYTE_OFFSET s (unat (i_inode_number inode))) (inode_bytes inode) s"

text \<open>Data blocks by number. A read takes the rest of the block, whatever the size asked for.\<close>

definition mk_write_block_by_number :: "nat \<Rightarrow> byte list \<Rightarrow> nat \<Rightarrow> nat \<Rightarrow> mkfs \<Rightarrow> mkfs res" where
  "mk_write_block_by_number block_number buffer offset write_size s =
     mk_write_block (block_number + block_start s) buffer offset write_size s"

definition mk_read_block_by_number :: "nat \<Rightarrow> nat \<Rightarrow> nat \<Rightarrow> mkfs \<Rightarrow> byte list res" where
  "mk_read_block_by_number block_number offset read_size s =
     (if DIOSFS_BLOCKSIZE < offset then Inl OutOfBounds
      else mk_read_block (block_number + block_start s) offset (DIOSFS_BLOCKSIZE - offset) s)"

section \<open>Bitmaps\<close>

text \<open>The scans are the kernel's, over the bytes from the start of a bitmap to the end of the buffer.\<close>

definition mk_get_free_block_and_mark_bitmap :: "mkfs \<Rightarrow> (nat \<times> mkfs) res" where
  "mk_get_free_block_and_mark_bitmap s =
     (let start = DIOSFS_BLOCKSIZE * block_bitmap_start s; buffer = drop start (disk_buffer s) in
      bindR (scan_block_bitmap DIOSFS_BLOCKSIZE 0 0 buffer) (\<lambda>(block, byte, bit).
        let p = block * DIOSFS_BLOCKSIZE + byte in
        Inr (block * DIOSFS_BLOCKSIZE * 8 + byte * 8 + bit,
             s\<lparr>disk_buffer := (disk_buffer s)[start + p := (buffer ! p) OR push_bit bit 1]\<rparr>)))"

text \<open>The bit is set in \<^verbatim>\<open>buffer[byte]\<close>, whatever the block it was found in.\<close>

definition mk_get_free_inode_and_mark_bitmap :: "mkfs \<Rightarrow> (diosfs_inode \<times> mkfs) res" where
  "mk_get_free_inode_and_mark_bitmap s =
     (let start = DIOSFS_BLOCKSIZE * inode_bitmap_start s; buffer = drop start (disk_buffer s) in
      bindR (scan_inode_bitmap DIOSFS_BLOCKSIZE 0 0 buffer) (\<lambda>(block, byte, bit).
        Inr (zero_inode\<lparr>i_inode_number := word_of_nat (block * DIOSFS_BLOCKSIZE * 8 + byte * 8 + bit)\<rparr>,
             s\<lparr>disk_buffer := (disk_buffer s)[start + byte := (buffer ! byte) OR push_bit bit 1]\<rparr>)))"

section \<open>Directories\<close>

text \<open>A new block for the next entry of a directory when one is needed.\<close>

definition mk_dirent_block :: "diosfs_inode \<Rightarrow> mkfs \<Rightarrow> (diosfs_inode \<times> mkfs) res" where
  "mk_dirent_block inode s =
     (let per = DIOSFS_BLOCKSIZE div 144; block = unat (i_size inode) div per; entry_in_block = unat (i_size inode) mod per in
      if entry_in_block = 0 \<or> i_block_count inode = 0 then
        bindR (mk_get_free_block_and_mark_bitmap s) (\<lambda>(b, s).
          if length (i_blocks inode) \<le> block then Inl OutOfBounds
          else Inr (inode\<lparr>i_blocks := (i_blocks inode)[block := word_of_nat b], i_block_count := i_block_count inode + 1\<rparr>, s))
      else Inr (inode, s))"

definition mk_write_dirent :: "diosfs_inode \<Rightarrow> diosfs_directory_entry \<Rightarrow> mkfs \<Rightarrow> (nat \<times> diosfs_inode \<times> mkfs) res" where
  "mk_write_dirent inode entry s =
     (if unat (i_size inode) = NUM_BLOCKS_DIRECT * DIOSFS_BLOCKSIZE div 144 then Inr (DIOSFS_CANT_ALLOCATE_BLOCKS_FOR_DIR, inode, s)
      else bindR (mk_read_inode (unat (i_inode_number inode)) s) (\<lambda>inode.
        let per = DIOSFS_BLOCKSIZE div 144; block = unat (i_size inode) div per; entry_in_block = unat (i_size inode) mod per in
        bindR (mk_dirent_block inode s) (\<lambda>(inode, s).
        if length (i_blocks inode) \<le> block then Inl OutOfBounds
        else bindR (mk_read_block_by_number (unat (i_blocks inode ! block)) 0 DIOSFS_BLOCKSIZE s) (\<lambda>read_buffer.
          let read_buffer = put_dirent read_buffer entry_in_block entry; inode = inode\<lparr>i_size := i_size inode + 1\<rparr> in
          bindR (mk_write_block_by_number (unat (i_blocks inode ! block)) read_buffer 0 DIOSFS_BLOCKSIZE s) (\<lambda>s.
          bindR (mk_write_inode inode s) (\<lambda>s.
            Inr (DIOSFS_SUCCESS, inode, s)))))))"

text \<open>\<^verbatim>\<open>diosfs_create\<close> returns the number of the new inode; the caller's structure for the parent is read again and changed.\<close>

definition mk_create :: "diosfs_inode \<Rightarrow> byte list \<Rightarrow> 8 word \<Rightarrow> mkfs \<Rightarrow> (nat \<times> diosfs_inode \<times> mkfs) res" where
  "mk_create parent_dir name inode_type s =
     bindR (mk_get_free_inode_and_mark_bitmap s) (\<lambda>(inode, s).
     bindR (mk_read_inode (unat (i_inode_number parent_dir)) s) (\<lambda>par.
     let par = par\<lparr>i_size := i_size par + 1\<rparr> in
     bindR (strcpy (i_name inode) 0 name) (\<lambda>nm.
     let inode = inode\<lparr>i_type := ucast inode_type, i_block_count := 0, i_parent_inode_number := i_inode_number par, i_name := nm, i_uid := 0\<rparr> in
     bindR (mk_write_inode inode s) (\<lambda>s.
     bindR (strcpy (replicate MAX_FILENAME_LENGTH 0) 0 name) (\<lambda>enm.
     bindR (mk_write_dirent par \<lparr>de_name = enm, de_inode_number = ucast (i_inode_number inode),
              de_parent_inode_number = ucast (i_parent_inode_number inode), de_type = i_type inode, de_device_number = 0, de_size = 0\<rparr> s) (\<lambda>(_, par, s).
     bindR (mk_write_inode par s) (\<lambda>s.
       Inr (unat (i_inode_number inode), par, s))))))))"

text \<open>
  The search of \<^verbatim>\<open>diosfs_find_directory_entry_and_update\<close>: the count of entries read is never incremented, so that only an empty
  directory ends it. \<open>None\<close> is the jump to \<^verbatim>\<open>not_found\<close>.
\<close>

fun mk_find_in_block :: "byte list \<Rightarrow> nat list \<Rightarrow> nat \<Rightarrow> nat option" where
  "mk_find_in_block buffer [] inode_number = None"
| "mk_find_in_block buffer (i # is) inode_number =
     (if unat (de_inode_number (get_dirent buffer i)) = inode_number then Some i else mk_find_in_block buffer is inode_number)"

fun mk_find_entry :: "nat list \<Rightarrow> nat \<Rightarrow> nat \<Rightarrow> mkfs \<Rightarrow> (nat \<times> byte list \<times> nat) option res" where
  "mk_find_entry [] sz inode_number s = Inl OutOfBounds"
| "mk_find_entry (b # bs) sz inode_number s =
     bindR (mk_read_block_by_number b 0 DIOSFS_BLOCKSIZE s) (\<lambda>buffer.
       if sz = 0 then Inr None
       else case mk_find_in_block buffer [0..<DIOSFS_BLOCKSIZE div 144] inode_number of Some i \<Rightarrow> Inr (Some (b, buffer, i))
         | None \<Rightarrow> mk_find_entry bs sz inode_number s)"

definition mk_find_directory_entry_and_update :: "nat \<Rightarrow> nat \<Rightarrow> mkfs \<Rightarrow> (nat \<times> mkfs) res" where
  "mk_find_directory_entry_and_update inode_number directory_inode_number s =
     bindR (mk_read_inode inode_number s) (\<lambda>entry.
     bindR (mk_read_inode directory_inode_number s) (\<lambda>inode.
       if i_type inode \<noteq> DIOSFS_DIRECTORY then Inr (DIOSFS_NOT_A_DIRECTORY, s)
       else bindR (mk_find_entry (map unat (i_blocks inode)) (unat (i_size inode)) inode_number s) (\<lambda>r. case r of
           None \<Rightarrow> Inr (DIOSFS_SUCCESS, s)
         | Some (block_number, buffer, i) \<Rightarrow>
             bindR (strcpy buffer (144 * i) (drop 10 (inode_bytes entry))) (\<lambda>buffer.
               let buffer = put_dirent buffer i ((get_dirent buffer i)\<lparr>de_size := i_size entry,
                              de_parent_inode_number := ucast (i_parent_inode_number entry)\<rparr>) in
               bindR (mk_write_block_by_number block_number buffer 0 DIOSFS_BLOCKSIZE s) (\<lambda>s.
                 Inr (DIOSFS_SUCCESS, s))))))"

section \<open>Blocks of a file\<close>

definition mk_read_pointer :: "nat \<Rightarrow> nat \<Rightarrow> mkfs \<Rightarrow> nat res" where
  "mk_read_pointer block_number index s =
     bindR (mk_read_block_by_number block_number 0 DIOSFS_BLOCKSIZE s) (\<lambda>b. Inr (unat (get_u64 b index)))"

definition mk_get_relative_block_number_from_file :: "diosfs_inode \<Rightarrow> nat \<Rightarrow> mkfs \<Rightarrow> nat res" where
  "mk_get_relative_block_number_from_file inode current_block s =
     bindR (diosfs_indirection_indices_for_block_number current_block) (\<lambda>indices.
       if levels_indirection indices = 0 then Inr (unat (i_blocks inode ! direct_block_number indices))
       else if levels_indirection indices = 1 then
         mk_read_pointer (unat (i_single_indirect inode)) (first_level_block_number indices) s
       else if levels_indirection indices = 2 then
         bindR (mk_read_pointer (unat (i_double_indirect inode)) (second_level_block_number indices) s) (\<lambda>b.
           mk_read_pointer b (first_level_block_number indices) s)
       else if levels_indirection indices = 3 then
         bindR (mk_read_pointer (unat (i_triple_indirect inode)) (third_level_block_number indices) s) (\<lambda>b.
         bindR (mk_read_pointer b (second_level_block_number indices) s) (\<lambda>b.
           mk_read_pointer b (first_level_block_number indices) s))
       else Inl (Panic ''diosfs_get_next_logical_block_from_file: unknown indirection''))"

fun mk_alloc_pointers :: "nat \<Rightarrow> nat \<Rightarrow> byte list \<Rightarrow> mkfs \<Rightarrow> (byte list \<times> mkfs) res" where
  "mk_alloc_pointers 0 i buffer s = Inr (buffer, s)"
| "mk_alloc_pointers (Suc n) i buffer s =
     bindR (mk_get_free_block_and_mark_bitmap s) (\<lambda>(b, s).
       if length buffer < 8 * i + 8 then Inl OutOfBounds
       else mk_alloc_pointers n (i + 1) (put_u64 buffer i (word_of_nat b)) s)"

text \<open>A new block is taken only when the inode has no single indirect block yet; otherwise the block is the one passed, 0 for a missing one.\<close>

definition mk_allocate_single_indirect_block :: "diosfs_inode \<Rightarrow> nat \<Rightarrow> nat \<Rightarrow> bool \<Rightarrow> nat \<Rightarrow> mkfs \<Rightarrow> (diosfs_inode \<times> nat \<times> mkfs) res" where
  "mk_allocate_single_indirect_block inode num_allocated num_to_allocate higher_order block_number s =
     (let num_to_allocate = (if NUM_BLOCKS_IN_INDIRECTION_BLOCK \<le> num_allocated + num_to_allocate
                             then NUM_BLOCKS_IN_INDIRECTION_BLOCK - num_allocated else num_to_allocate) in
      bindR (if i_single_indirect inode = 0 then
               bindR (mk_get_free_block_and_mark_bitmap s) (\<lambda>(b, s). Inr (inode\<lparr>i_single_indirect := word_of_nat b\<rparr>, b, s))
             else Inr (inode, block_number, s)) (\<lambda>(inode, single_indirect, s).
      bindR (mk_read_block_by_number single_indirect 0 DIOSFS_BLOCKSIZE s) (\<lambda>buffer.
      bindR (mk_alloc_pointers num_to_allocate num_allocated buffer s) (\<lambda>(buffer, s).
      bindR (mk_write_block_by_number single_indirect buffer 0 DIOSFS_BLOCKSIZE s) (\<lambda>s.
      bindR (mk_write_inode inode s) (\<lambda>s.
        Inr (inode, single_indirect, s)))))))"

function mk_double_loop :: "diosfs_inode \<Rightarrow> nat \<Rightarrow> nat \<Rightarrow> nat \<Rightarrow> nat \<Rightarrow> byte list \<Rightarrow> mkfs \<Rightarrow> (diosfs_inode \<times> byte list \<times> mkfs) res" where
  "mk_double_loop inode num_to_allocate index allocated block buffer s =
     (if 0 < num_to_allocate then
        let amount = (if num_to_allocate < NUM_BLOCKS_IN_INDIRECTION_BLOCK then num_to_allocate else NUM_BLOCKS_IN_INDIRECTION_BLOCK) in
        bindR (mk_allocate_single_indirect_block inode allocated amount True block s) (\<lambda>(inode, b, s).
          if length buffer < 8 * index + 16 then Inl OutOfBounds
          else let buffer = put_u64 buffer index (word_of_nat b) in
            mk_double_loop inode (num_to_allocate - amount) (index + 1) 0 (unat (get_u64 buffer (index + 1))) buffer s)
      else Inr (inode, buffer, s))"
  by pat_completeness auto
termination by (relation "measure (\<lambda>(inode, n, index, allocated, block, buffer, s). n)")
  (auto simp: NUM_BLOCKS_IN_INDIRECTION_BLOCK_def)

declare mk_double_loop.simps [simp del]

text \<open>A new double indirect block is taken at every call; the caller decides what becomes of its number.\<close>

definition mk_allocate_double_indirect_block :: "diosfs_inode \<Rightarrow> nat \<Rightarrow> nat \<Rightarrow> bool \<Rightarrow> nat \<Rightarrow> mkfs \<Rightarrow> (diosfs_inode \<times> nat \<times> mkfs) res" where
  "mk_allocate_double_indirect_block inode num_allocated num_to_allocate higher_order block_number s =
     bindR (mk_get_free_block_and_mark_bitmap s) (\<lambda>(double_indirect, s).
     bindR (mk_read_block_by_number double_indirect 0 DIOSFS_BLOCKSIZE s) (\<lambda>buffer.
       let index = (if num_allocated = 0 then 0 else num_allocated div NUM_BLOCKS_IN_INDIRECTION_BLOCK);
           allocated = (if num_allocated = 0 then 0 else num_allocated mod NUM_BLOCKS_IN_INDIRECTION_BLOCK) in
       if 0 < num_allocated \<and> length buffer < 8 * index + 8 then Inl OutOfBounds
       else let block = (if 0 < num_allocated then unat (get_u64 buffer index) else 0) in
         bindR (mk_double_loop inode num_to_allocate index allocated block buffer s) (\<lambda>(inode, buffer, s).
         bindR (mk_write_block_by_number double_indirect buffer 0 DIOSFS_BLOCKSIZE s) (\<lambda>s.
         bindR (mk_write_inode inode s) (\<lambda>s.
           Inr (inode, double_indirect, s))))))"

function mk_triple_loop :: "diosfs_inode \<Rightarrow> nat \<Rightarrow> nat \<Rightarrow> nat \<Rightarrow> byte list \<Rightarrow> mkfs \<Rightarrow> (diosfs_inode \<times> byte list \<times> mkfs) res" where
  "mk_triple_loop inode num_to_allocate index allocated buffer s =
     (if 0 < num_to_allocate then
        let amount = (if num_to_allocate < NUM_BLOCKS_DOUBLE_INDIRECTION then num_to_allocate else NUM_BLOCKS_DOUBLE_INDIRECTION) in
        bindR (mk_allocate_double_indirect_block inode allocated amount True 0 s) (\<lambda>(inode, b, s).
          if length buffer < 8 * index + 8 then Inl OutOfBounds
          else mk_triple_loop inode (num_to_allocate - amount) (index + 1) 0 (put_u64 buffer index (word_of_nat b)) s)
      else Inr (inode, buffer, s))"
  by pat_completeness auto
termination by (relation "measure (\<lambda>(inode, n, index, allocated, buffer, s). n)")
  (auto simp: NUM_BLOCKS_DOUBLE_INDIRECTION_def)

declare mk_triple_loop.simps [simp del]

definition mk_allocate_triple_indirect_block :: "diosfs_inode \<Rightarrow> nat \<Rightarrow> nat \<Rightarrow> mkfs \<Rightarrow> (diosfs_inode \<times> nat \<times> mkfs) res" where
  "mk_allocate_triple_indirect_block inode num_allocated num_to_allocate s =
     bindR (if i_triple_indirect inode = 0 then mk_get_free_block_and_mark_bitmap s else Inr (unat (i_triple_indirect inode), s)) (\<lambda>(triple_indirect, s).
     let inode = inode\<lparr>i_triple_indirect := word_of_nat triple_indirect\<rparr> in
     bindR (mk_read_block_by_number triple_indirect 0 DIOSFS_BLOCKSIZE s) (\<lambda>buffer.
       let index = (if num_allocated = 0 then 0 else num_allocated div NUM_BLOCKS_DOUBLE_INDIRECTION);
           allocated = (if num_allocated = 0 then 0 else num_allocated mod NUM_BLOCKS_DOUBLE_INDIRECTION) in
       bindR (mk_triple_loop inode num_to_allocate index allocated buffer s) (\<lambda>(inode, buffer, s).
       bindR (mk_write_block_by_number triple_indirect buffer 0 DIOSFS_BLOCKSIZE s) (\<lambda>s.
         Inr (inode, triple_indirect, s)))))"

text \<open>The loop at \<^verbatim>\<open>level_zero\<close> with \<open>k\<close> direct entries left; the flag tells whether all blocks asked for have been allocated.\<close>

fun mk_alloc_direct :: "nat \<Rightarrow> nat \<Rightarrow> diosfs_inode \<Rightarrow> 32 word \<Rightarrow> mkfs \<Rightarrow> (bool \<times> diosfs_inode \<times> 32 word \<times> mkfs) res" where
  "mk_alloc_direct 0 i inode num s = Inr (False, inode, num, s)"
| "mk_alloc_direct (Suc k) i inode num s =
     bindR (mk_get_free_block_and_mark_bitmap s) (\<lambda>(b, s).
       let inode = inode\<lparr>i_blocks := (i_blocks inode)[i := word_of_nat b], i_block_count := i_block_count inode + 1\<rparr>; num = num - 1 in
       if num = 0 then Inr (True, inode, num, s) else mk_alloc_direct k (i + 1) inode num s)"

text \<open>The three indirect levels; control falls through them. The counts that the allocations start from are taken as in the kernel.\<close>

definition mk_level_three :: "diosfs_inode \<Rightarrow> 32 word \<Rightarrow> mkfs \<Rightarrow> (diosfs_inode \<times> 32 word \<times> mkfs) res" where
  "mk_level_three inode num s =
     (let num_allocated = ucast (i_block_count inode - word_of_nat NUM_BLOCKS_DIRECT) -
            word_of_nat NUM_BLOCKS_IN_INDIRECTION_BLOCK - word_of_nat NUM_BLOCKS_DOUBLE_INDIRECTION;
          n = num_in_indirect num num_allocated NUM_BLOCKS_TRIPLE_INDIRECTION in
      bindR (mk_allocate_triple_indirect_block inode (unat num_allocated) (unat n) s) (\<lambda>(inode, _, s).
        Inr (inode\<lparr>i_block_count := i_block_count inode + ucast n\<rparr>, num - ucast n, s)))"

definition mk_level_two :: "diosfs_inode \<Rightarrow> 32 word \<Rightarrow> mkfs \<Rightarrow> (diosfs_inode \<times> 32 word \<times> mkfs) res" where
  "mk_level_two inode num s =
     (let num_allocated = ucast (i_block_count inode - word_of_nat NUM_BLOCKS_DIRECT) - word_of_nat NUM_BLOCKS_IN_INDIRECTION_BLOCK;
          n = num_in_indirect num num_allocated NUM_BLOCKS_DOUBLE_INDIRECTION in
      bindR (mk_allocate_double_indirect_block inode (unat num_allocated) (unat n) False 0 s) (\<lambda>(inode, _, s).
        let inode = inode\<lparr>i_block_count := i_block_count inode + ucast n\<rparr>; num = num - ucast n in
        if num = 0 then Inr (inode, num, s) else mk_level_three inode num s))"

definition mk_level_one :: "diosfs_inode \<Rightarrow> 32 word \<Rightarrow> mkfs \<Rightarrow> (diosfs_inode \<times> 32 word \<times> mkfs) res" where
  "mk_level_one inode num s =
     (let num_allocated = ucast (i_block_count inode - word_of_nat NUM_BLOCKS_DIRECT);
          n = num_in_indirect num num_allocated NUM_BLOCKS_IN_INDIRECTION_BLOCK in
      bindR (mk_allocate_single_indirect_block inode (unat num_allocated) (unat n) False 0 s) (\<lambda>(inode, _, s).
        let inode = inode\<lparr>i_block_count := i_block_count inode + ucast n\<rparr>; num = num - ucast n in
        if num = 0 then Inr (inode, num, s) else mk_level_two inode num s))"

definition mk_inode_allocate_new_blocks :: "diosfs_inode \<Rightarrow> 32 word \<Rightarrow> mkfs \<Rightarrow> (nat \<times> diosfs_inode \<times> mkfs) res" where
  "mk_inode_allocate_new_blocks inode num s =
     (let total = num + i_size inode div 1024; sz = unat (i_size inode) in
      if i_type inode = DIOSFS_DIRECTORY \<and> word_of_nat NUM_BLOCKS_DIRECT < total then Inr (DIOSFS_ERROR, inode, s)
      else if MAX_BLOCKS_IN_INODE < unat total then Inr (DIOSFS_ERROR, inode, s)
      else bindR (diosfs_indirection_indices_for_block_number
                    (if sz mod DIOSFS_BLOCKSIZE = 0 then sz div DIOSFS_BLOCKSIZE else sz div DIOSFS_BLOCKSIZE + 1)) (\<lambda>result.
        bindR (if levels_indirection result = 0 then
                 bindR (mk_alloc_direct (NUM_BLOCKS_DIRECT - unat (i_block_count inode)) (unat (i_block_count inode)) inode num s) (\<lambda>(stop, inode, num, s).
                   if stop then Inr (inode, num, s) else mk_level_one inode num s)
               else if levels_indirection result = 1 then mk_level_one inode num s
               else if levels_indirection result = 2 then mk_level_two inode num s
               else if levels_indirection result = 3 then mk_level_three inode num s
               else Inl (Panic ''diosfs_inode_allocate_new_block: unknown indirection'')) (\<lambda>(inode, num, s).
          if num \<noteq> 0 then Inl (Panic ''diosfs_inode_allocate_new_block: num_blocks_to_allocate != 0!'')
          else bindR (mk_write_inode inode s) (\<lambda>s. Inr (DIOSFS_SUCCESS, inode, s)))))"

section \<open>Contents of a file\<close>

text \<open>The loop over the blocks of the file from \<open>i\<close> on, with \<open>k\<close> to go.\<close>

fun mk_write_loop :: "nat \<Rightarrow> nat \<Rightarrow> diosfs_inode \<Rightarrow> byte list \<Rightarrow> nat \<Rightarrow> nat \<Rightarrow> mkfs \<Rightarrow> mkfs res" where
  "mk_write_loop 0 i inode buffer start_offset bytes_left s = Inr s"
| "mk_write_loop (Suc k) i inode buffer start_offset bytes_left s =
     (let byte_size = (if DIOSFS_BLOCKSIZE - start_offset < bytes_left then DIOSFS_BLOCKSIZE - start_offset else bytes_left) in
      bindR (mk_get_relative_block_number_from_file inode i s) (\<lambda>b.
      bindR (mk_write_block_by_number b buffer start_offset byte_size s) (\<lambda>s.
        mk_write_loop k (i + 1) inode (drop byte_size buffer) 0 (bytes_left - byte_size) s)))"

text \<open>An empty file gets its first block; then it gets the blocks up to number \<open>end_block\<close>.\<close>

definition mk_first_block :: "diosfs_inode \<Rightarrow> mkfs \<Rightarrow> (diosfs_inode \<times> mkfs) res" where
  "mk_first_block inode s =
     (if i_size inode = 0 then
        bindR (mk_get_free_block_and_mark_bitmap s) (\<lambda>(b, s).
        let inode = inode\<lparr>i_block_count := i_block_count inode + 1, i_blocks := (i_blocks inode)[0 := word_of_nat b]\<rparr> in
        bindR (mk_write_inode inode s) (\<lambda>s.
        bindR (mk_read_inode (unat (i_inode_number inode)) s) (\<lambda>inode. Inr (inode, s))))
      else Inr (inode, s))"

definition mk_grow_file :: "nat \<Rightarrow> diosfs_inode \<Rightarrow> mkfs \<Rightarrow> (diosfs_inode \<times> mkfs) res" where
  "mk_grow_file end_block inode s =
     (if unat (i_block_count inode) < end_block + 1 then
        bindR (mk_inode_allocate_new_blocks inode (word_of_nat (end_block + 1 - unat (i_block_count inode))) s) (\<lambda>(_, inode, s).
          Inr (inode\<lparr>i_block_count := word_of_nat (end_block + 1)\<rparr>, s))
      else Inr (inode, s))"

definition mk_write_bytes_to_inode :: "diosfs_inode \<Rightarrow> byte list \<Rightarrow> nat \<Rightarrow> nat \<Rightarrow> nat \<Rightarrow> mkfs \<Rightarrow> (nat \<times> diosfs_inode \<times> mkfs) res" where
  "mk_write_bytes_to_inode inode buffer buffer_size offset write_size_bytes s =
     (let start_block = offset div DIOSFS_BLOCKSIZE; start_offset = offset mod DIOSFS_BLOCKSIZE;
          n = write_size_bytes div DIOSFS_BLOCKSIZE;
          num_blocks_to_write = (if (start_offset + write_size_bytes) div DIOSFS_BLOCKSIZE \<noteq> 0 \<and> n = 0 then n + 1 else n);
          grow = offset + write_size_bytes - unat (i_size inode) in
      if i_type inode \<noteq> DIOSFS_REG_FILE then Inl (Panic ''diosfs_write_bytes_to_inode bad type'')
      else if buffer_size < write_size_bytes then Inr (DIOSFS_BUFFER_TOO_SMALL, inode, s)
      else if unat (i_size inode) < offset then Inl (Panic ''offset'')
      else bindR (mk_first_block inode s) (\<lambda>(inode, s).
        let end_block = start_block + num_blocks_to_write in
        bindR (mk_grow_file end_block inode s) (\<lambda>(inode, s).
        bindR (mk_write_loop (num_blocks_to_write + 1) start_block inode buffer start_offset write_size_bytes s) (\<lambda>s.
        let inode = inode\<lparr>i_size := i_size inode + word_of_nat grow\<rparr> in
        bindR (mk_write_inode inode s) (\<lambda>s.
        bindR (mk_find_directory_entry_and_update (unat (i_inode_number inode)) (unat (i_parent_inode_number inode)) s) (\<lambda>(_, s).
          Inr (DIOSFS_SUCCESS, inode, s)))))))"

section \<open>The layout of an image\<close>

definition mk_get_size_info :: "64 word \<Rightarrow> 64 word \<Rightarrow> diosfs_size_calculation res" where
  "mk_get_size_info megabytes block_size =
     (if megabytes = 0 then Inl (Panic ''exit'')
      else if block_size = 0 then Inl DivideError
      else let size_bytes = push_bit 20 megabytes; blocks = size_bytes div block_size; padding = blocks div 150;
               split = blocks div 32 - padding; inodes = split * (block_size div 256); data = blocks - split - padding in
        Inr \<lparr>total_blocks = blocks, total_inodes = inodes, total_data_blocks = data,
             total_block_bitmap_blocks = data div block_size div 8, total_inode_bitmap_blocks = inodes div block_size div 8\<rparr>)"

text \<open>\<open>bitmaps\<close> is the value that the global \<^verbatim>\<open>inode_bitmap_start\<close> has at this point.\<close>

definition mk_superblock :: "diosfs_size_calculation \<Rightarrow> nat \<Rightarrow> diosfs_superblock" where
  "mk_superblock z bitmaps =
     (let inodes_at = unat (total_inode_bitmap_blocks z + total_block_bitmap_blocks z + 1) in
      \<lparr>s_magic = DIOSFS_MAGIC, s_version = 1, s_block_size = DIOSFS_BLOCKSIZE, s_num_blocks = unat (total_blocks z),
       s_num_inodes = unat (total_inodes z), s_total_size = unat (total_blocks z * 1024),
       s_inode_bitmap_size = unat (total_inode_bitmap_blocks z), s_block_bitmap_size = unat (total_block_bitmap_blocks z),
       s_inode_bitmap_pointers_start = 1, s_block_bitmap_pointers_start = bitmaps + unat (total_inode_bitmap_blocks z),
       s_inode_start_pointer = inodes_at,
       s_block_start_pointer = inodes_at + unat (total_inodes z) div NUM_INODES_PER_BLOCK\<rparr>)"

text \<open>Zeroed blocks from block \<open>b\<close> on.\<close>

fun mk_zero_blocks :: "nat \<Rightarrow> nat \<Rightarrow> mkfs \<Rightarrow> mkfs res" where
  "mk_zero_blocks 0 b s = Inr s"
| "mk_zero_blocks (Suc k) b s = bindR (mk_write_block b (replicate DIOSFS_BLOCKSIZE 0) 0 DIOSFS_BLOCKSIZE s) (mk_zero_blocks k (b + 1))"

text \<open>The superblock goes to block 0, and the bitmaps, the inodes and the data blocks are cleared.\<close>

definition mk_format :: "diosfs_size_calculation \<Rightarrow> mkfs \<Rightarrow> mkfs res" where
  "mk_format z s =
     (let sb = mk_superblock z (inode_bitmap_start s);
          s = s\<lparr>block_bitmap_start := s_block_bitmap_pointers_start sb, block_start := s_block_start_pointer sb,
                inode_start := s_inode_start_pointer sb, inode_bitmap_start := s_inode_bitmap_pointers_start sb\<rparr> in
      bindR (mk_write_block 0 (superblock_bytes sb) 0 DIOSFS_BLOCKSIZE s) (\<lambda>s.
      bindR (mk_zero_blocks (unat (total_inode_bitmap_blocks z)) (inode_bitmap_start s) s) (\<lambda>s.
      bindR (mk_zero_blocks (unat (total_block_bitmap_blocks z)) (block_bitmap_start s) s) (\<lambda>s.
      bindR (mk_zero_blocks (unat (total_inodes z) div NUM_INODES_PER_BLOCK) (inode_start s) s) (\<lambda>s.
        mk_zero_blocks (unat (total_blocks z) + block_start s) (block_start s) s)))))"

definition mk_root :: "mkfs \<Rightarrow> (diosfs_inode \<times> mkfs) res" where
  "mk_root s =
     bindR (mk_get_free_inode_and_mark_bitmap s) (\<lambda>(inode, s).
     bindR (strcpy (i_name inode) 0 [47, 0]) (\<lambda>nm.
     bindR (mk_write_inode (inode\<lparr>i_name := nm, i_type := DIOSFS_DIRECTORY, i_uid := 0, i_parent_inode_number := 0, i_refcount := 1\<rparr>) s) (\<lambda>s.
     bindR (mk_read_inode (unat (i_inode_number inode)) s) (\<lambda>inode. Inr (inode, s)))))"

definition default_directories :: "byte list list" where
  "default_directories = map bytes_c [''boot'', ''bin'', ''etc'', ''home'', ''root'', ''mnt'', ''var'', ''temp'', ''dev'']"

fun mk_create_directories :: "byte list list \<Rightarrow> diosfs_inode \<Rightarrow> mkfs \<Rightarrow> mkfs res" where
  "mk_create_directories [] inode s = Inr s"
| "mk_create_directories (n # ns) inode s = bindR (mk_create inode n 0 s) (\<lambda>(_, inode, s). mk_create_directories ns inode s)"

section \<open>Files of the host\<close>

text \<open>The contents of a file, the names in a directory in alphabetical order, memory of a given size, and whether a file can be created.\<close>

record host =
  fopen_read :: "byte list \<Rightarrow> byte list option"
  scandir :: "byte list \<Rightarrow> byte list list option"
  malloc :: "nat \<Rightarrow> byte list option"
  fopen_write :: "byte list \<Rightarrow> bool"

text \<open>The name behind the first slash of a path.\<close>

definition after_slash :: "byte list \<Rightarrow> byte list" where
  "after_slash p = (case dropWhile (\<lambda>c. c \<noteq> 47 \<and> c \<noteq> 0) p of c # r \<Rightarrow> if c = 47 then r else p | [] \<Rightarrow> p)"

text \<open>A file of the host becomes a file in a directory.\<close>

definition mk_add_file :: "diosfs_inode \<Rightarrow> byte list \<Rightarrow> byte list \<Rightarrow> mkfs \<Rightarrow> (diosfs_inode \<times> mkfs) res" where
  "mk_add_file dir name contents s =
     bindR (mk_create dir name 1 s) (\<lambda>(inode_number, dir, s).
     bindR (mk_read_inode inode_number s) (\<lambda>new_inode.
     bindR (mk_write_bytes_to_inode new_inode contents (length contents) 0 (length contents) s) (\<lambda>(_, _, s).
       Inr (dir, s))))"

fun mk_add_files :: "host \<Rightarrow> byte list list \<Rightarrow> diosfs_inode \<Rightarrow> mkfs \<Rightarrow> mkfs res" where
  "mk_add_files H [] dir s = Inr s"
| "mk_add_files H (p # ps) dir s =
     (case fopen_read H p of None \<Rightarrow> Inl (Panic ''Error opening file'')
      | Some contents \<Rightarrow> bindR (mk_add_file dir (after_slash p) contents s) (\<lambda>(dir, s). mk_add_files H ps dir s))"

text \<open>The path is cut after 1023 bytes; a name that cannot be opened is skipped.\<close>

fun mk_fill_names :: "host \<Rightarrow> byte list \<Rightarrow> byte list list \<Rightarrow> diosfs_inode \<Rightarrow> mkfs \<Rightarrow> mkfs res" where
  "mk_fill_names H pth [] dir s = Inr s"
| "mk_fill_names H pth (n # ns) dir s =
     (if n = bytes_c ''.'' \<or> n = bytes_c ''..'' then mk_fill_names H pth ns dir s
      else case fopen_read H (take 1023 (butlast pth @ [47] @ butlast n) @ [0]) of None \<Rightarrow> mk_fill_names H pth ns dir s
        | Some contents \<Rightarrow> bindR (mk_add_file dir n contents s) (\<lambda>(dir, s). mk_fill_names H pth ns dir s))"

definition fill_directory :: "host \<Rightarrow> nat \<Rightarrow> byte list \<Rightarrow> mkfs \<Rightarrow> mkfs res" where
  "fill_directory H inode_number pth s =
     bindR (mk_read_inode inode_number s) (\<lambda>inode.
       case scandir H pth of None \<Rightarrow> Inr s | Some names \<Rightarrow> mk_fill_names H pth names inode s)"

section \<open>The program\<close>

text \<open>\<^verbatim>\<open>strtoull\<close> in base ten: white space, a sign, digits; a number that does not fit is the largest one. Nothing may follow.\<close>

definition is_digit :: "byte \<Rightarrow> bool" where
  "is_digit c \<longleftrightarrow> 48 \<le> c \<and> c \<le> 57"

definition strtoll_wrapper :: "byte list \<Rightarrow> 64 word res" where
  "strtoll_wrapper arg =
     (let t = dropWhile (\<lambda>c. c \<in> {9, 10, 11, 12, 13, 32}) arg;
          neg = (t \<noteq> [] \<and> hd t = 45);
          u = (if t \<noteq> [] \<and> hd t \<in> {43, 45} then tl t else t);
          ds = takeWhile is_digit u;
          rest = (if ds = [] then arg else dropWhile is_digit u);
          v = foldl (\<lambda>n c. 10 * n + unat (c - 48)) 0 ds in
      case rest of [] \<Rightarrow> Inl OutOfBounds
      | c # _ \<Rightarrow> if c \<noteq> 0 then Inl (Panic ''Error converting string'')
          else Inr (if 2 ^ 64 \<le> v then - 1 else if neg then - word_of_nat v else word_of_nat v))"

text \<open>The directories that the files of the host go into, by the numbers that their inodes have.\<close>

definition mk_populate :: "host \<Rightarrow> byte list list \<Rightarrow> mkfs \<Rightarrow> mkfs res" where
  "mk_populate H files s =
     bindR (if files = [] then Inr s else bindR (mk_read_inode 4 s) (\<lambda>home. mk_add_files H files home s)) (\<lambda>s.
     bindR (fill_directory H 2 (bytes_c ''./default_files/bin'') s) (\<lambda>s.
     bindR (fill_directory H 3 (bytes_c ''./default_files/etc'') s) (\<lambda>s.
     bindR (fill_directory H 4 (bytes_c ''./default_files/home'') s) (\<lambda>s.
       fill_directory H 7 (bytes_c ''./default_files/var'') s))))"

text \<open>\<^verbatim>\<open>main\<close>: the bytes written to the image file.\<close>

definition mk_main :: "host \<Rightarrow> byte list list \<Rightarrow> byte list res" where
  "mk_main H argv =
     (if length argv < 3 then Inl (Panic ''Usage: mkdiosfs name.img size-megs'')
      else if 3 < length argv \<and> takeWhile (\<lambda>c. c \<noteq> 0) (argv ! 3) \<noteq> butlast (bytes_c ''--f'') then Inl (Panic ''Invalid optional argument format'')
      else bindR (strtoll_wrapper (argv ! 2)) (\<lambda>arg2.
        if 8000 < arg2 then Inl (Panic ''This tool does not support images above 8GB'')
        else if \<not> fopen_write H (argv ! 1) then Inl (Panic ''Error creating file'')
        else let size_bytes = push_bit 20 arg2 in
          case malloc H (unat (size_bytes + size_bytes div 20)) of None \<Rightarrow> Inl (Panic ''Error allocating disk buffer'')
          | Some buffer \<Rightarrow>
              bindR (mk_get_size_info arg2 1024) (\<lambda>z.
              bindR (mk_format z \<lparr>disk_buffer = buffer, block_start = 0, inode_start = 0, block_bitmap_start = 0, inode_bitmap_start = 0\<rparr>) (\<lambda>s.
              bindR (mk_root s) (\<lambda>(root_dir, s).
              bindR (mk_create_directories default_directories root_dir s) (\<lambda>s.
              bindR (mk_populate H (drop 4 argv) s) (\<lambda>s.
              get_disk 0 (unat (total_blocks z * 1024)) s)))))))"

end
