(* ===== verification/Mkdiosfs_Volume.thy ===== *)
theory Mkdiosfs_Volume
  imports Mkdiosfs
begin

text \<open>
  The operations of \<^verbatim>\<open>mkdiosfs\<close> as changes of the abstract volume that the kernel works on: each of them changes the inodes and the data
  blocks in exactly one place; the allocators mark the first free bit; a new entry goes behind the entries of its directory.
\<close>

section \<open>Blocks of the buffer\<close>

definition img_of :: "mkfs \<Rightarrow> nat \<Rightarrow> byte list" where
  "img_of s i = window (disk_buffer s) (i * 1024) 1024"

lemma img_of_update [simp]: "img_of (s\<lparr>disk_buffer := d\<rparr>) i = window d (i * 1024) 1024"
  by (simp add: img_of_def)

lemma window_overwrite_in_block:
  assumes "off + length w \<le> 1024" and "B * 1024 + 1024 \<le> length m" and "b * 1024 + 1024 \<le> length m"
  shows "window (overwrite m (B * 1024 + off) w) (b * 1024) 1024 =
    (if b = B then overwrite (window m (b * 1024) 1024) off w else window m (b * 1024) 1024)"
proof (cases "b = B")
  case True
  have len: "length (overwrite m (B * 1024 + off) w) = length m" using assms by simp
  show ?thesis using True assms len
    by (intro nth_equalityI) (auto simp: nth_window nth_overwrite)
next
  case False
  then have "b * 1024 + 1024 \<le> B * 1024 \<or> B * 1024 + 1024 \<le> b * 1024" by linarith
  then show ?thesis using False assms by (auto simp: window_overwrite_other)
qed

lemma unat_word_of_nat_64: "n < 2 ^ 64 \<Longrightarrow> unat (word_of_nat n :: 64 word) = n"
  by (simp add: unat_of_nat take_bit_nat_eq_self)

section \<open>The volume in the buffer\<close>

text \<open>
  The inodes and the data blocks of an image as the abstract volume of the kernel. The bitmaps of an image overlap, so they are given to
  \<open>view\<close> as two blocks in front of the inodes that nothing below refers to.
\<close>

definition mk_area :: "mkfs \<Rightarrow> diosfs_superblock" where
  "mk_area s = \<lparr>s_magic = 0, s_version = 0, s_block_size = 1024, s_num_blocks = length (disk_buffer s) div 1024 - block_start s,
     s_num_inodes = 4 * (block_start s - inode_start s), s_total_size = 0, s_inode_bitmap_size = 1, s_block_bitmap_size = 1,
     s_inode_bitmap_pointers_start = 0, s_block_bitmap_pointers_start = 1, s_inode_start_pointer = inode_start s,
     s_block_start_pointer = block_start s\<rparr>"

definition mk_ok :: "mkfs \<Rightarrow> bool" where
  "mk_ok s \<longleftrightarrow> 2 \<le> inode_start s \<and> inode_start s \<le> block_start s \<and> block_start s \<le> length (disk_buffer s) div 1024"

definition mk_view :: "mkfs \<Rightarrow> volume" where
  "mk_view s = view (mk_area s) (img_of s)"

lemma mk_layout: "mk_ok s \<Longrightarrow> layout_ok (mk_area s) (length (disk_buffer s) div 1024) 409600"
  by (auto simp: mk_ok_def layout_ok_def mk_area_def)

lemma length_img: "i < length (disk_buffer s) div 1024 \<Longrightarrow> length (img_of s i) = 1024"
  unfolding img_of_def by (intro length_window) (simp add: less_eq_div_iff_mult_less_eq Suc_le_eq [symmetric])

lemma block_end: "b < n div 1024 \<Longrightarrow> b * 1024 + 1024 \<le> (n :: nat)"
  by linarith

lemma mk_inode_slot:
  assumes "mk_ok s" and "n < 4 * (block_start s - inode_start s)"
  shows "inode_start s + n div 4 < length (disk_buffer s) div 1024"
    and "INODE_TO_BYTE_OFFSET s n = (inode_start s + n div 4) * 1024 + n mod 4 * 256"
    and "n mod 4 * 256 + 256 \<le> 1024"
    and "INODE_TO_BYTE_OFFSET s n + 256 \<le> length (disk_buffer s)"
proof -
  have m: "n mod 4 < 4" by simp
  have "n div 4 < block_start s - inode_start s" using assms(2) by (simp add: div_less_iff_less_mult)
  then show b: "inode_start s + n div 4 < length (disk_buffer s) div 1024" using assms(1) unfolding mk_ok_def by linarith
  show o: "INODE_TO_BYTE_OFFSET s n = (inode_start s + n div 4) * 1024 + n mod 4 * 256"
    by (simp add: INODE_TO_BYTE_OFFSET_def NUM_INODES_PER_BLOCK_def)
  show "n mod 4 * 256 + 256 \<le> 1024" using m by linarith
  have "(inode_start s + n div 4) * 1024 + 1024 \<le> length (disk_buffer s)" by (rule block_end [OF b])
  then show "INODE_TO_BYTE_OFFSET s n + 256 \<le> length (disk_buffer s)" using m unfolding o by linarith
qed

lemma mk_read_inode_ok:
  assumes "mk_ok s" and "n < 4 * (block_start s - inode_start s)"
  shows "mk_read_inode n s = Inr (inodes (mk_view s) n)"
proof -
  note k = mk_inode_slot [OF assms]
  have "window (img_of s (inode_start s + n div 4)) (n mod 4 * 256) 256 = window (disk_buffer s) (INODE_TO_BYTE_OFFSET s n) 256"
    using k(3) by (simp add: img_of_def window_window k(2))
  then show ?thesis using assms(2) k(4)
    by (simp add: mk_read_inode_def get_disk_def mk_view_def view_def mk_area_def not_less)
qed

lemma mk_write_inode_ok:
  assumes "mk_ok s" and "wf_inode i" and "unat (i_inode_number i) < 4 * (block_start s - inode_start s)"
  obtains d where "mk_write_inode i s = Inr (s\<lparr>disk_buffer := d\<rparr>)" and "length d = length (disk_buffer s)"
    and "\<forall>b < length d div 1024. b < inode_start s \<or> block_start s \<le> b \<longrightarrow> window d (b * 1024) 1024 = img_of s b"
    and "mk_view (s\<lparr>disk_buffer := d\<rparr>) = (mk_view s)\<lparr>inodes := (inodes (mk_view s))(unat (i_inode_number i) := i)\<rparr>"
proof -
  let ?n = "unat (i_inode_number i)" and ?B = "inode_start s + unat (i_inode_number i) div 4"
  let ?d = "overwrite (disk_buffer s) (?B * 1024 + ?n mod 4 * 256) (inode_bytes i)"
  note k = mk_inode_slot [OF assms(1,3)]
  have len: "length ?d = length (disk_buffer s)" using k(2,4) assms(2) by simp
  have w: "window ?d (b * 1024) 1024 = (if b = ?B then overwrite (img_of s b) (?n mod 4 * 256) (inode_bytes i) else img_of s b)"
    if "b < length (disk_buffer s) div 1024" for b
  proof -
    have "b * 1024 + 1024 \<le> length (disk_buffer s)" "?B * 1024 + 1024 \<le> length (disk_buffer s)"
      by (rule block_end [OF that], rule block_end [OF k(1)])
    then show ?thesis using assms(2) k(3) unfolding img_of_def by (intro window_overwrite_in_block) simp_all
  qed
  show thesis
  proof (rule that)
    show "mk_write_inode i s = Inr (s\<lparr>disk_buffer := ?d\<rparr>)"
      using k(2,4) assms(2) by (simp add: mk_write_inode_def put_disk_def)
    show "length ?d = length (disk_buffer s)" by (rule len)
    have "?n div 4 < block_start s - inode_start s" using assms(3) by (simp add: div_less_iff_less_mult)
    then show "\<forall>b < length ?d div 1024. b < inode_start s \<or> block_start s \<le> b \<longrightarrow> window ?d (b * 1024) 1024 = img_of s b"
      using w len by auto
    have a: "mk_area (s\<lparr>disk_buffer := ?d\<rparr>) = mk_area s" using len by (simp add: mk_area_def)
    have "view (mk_area s) (img_of (s\<lparr>disk_buffer := ?d\<rparr>)) =
        (view (mk_area s) (img_of s))\<lparr>inodes := (inodes (view (mk_area s) (img_of s)))(?n := i)\<rparr>"
      using assms(3) k(1) w by (intro view_write_inode [OF mk_layout [OF assms(1)] _ assms(2)] length_img)
        (simp_all add: mk_area_def)
    then show "mk_view (s\<lparr>disk_buffer := ?d\<rparr>) = (mk_view s)\<lparr>inodes := (inodes (mk_view s))(?n := i)\<rparr>"
      using a by (simp add: mk_view_def)
  qed
qed

lemma mk_write_block_ok:
  assumes "mk_ok s" and "block_start s + n < length (disk_buffer s) div 1024" and "off + length w \<le> 1024"
  obtains d where "mk_write_block_by_number n (w @ r) off (length w) s = Inr (s\<lparr>disk_buffer := d\<rparr>)" and "length d = length (disk_buffer s)"
    and "\<forall>b < block_start s. window d (b * 1024) 1024 = img_of s b"
    and "mk_view (s\<lparr>disk_buffer := d\<rparr>) = (mk_view s)\<lparr>blocks := (blocks (mk_view s))(n := overwrite (blocks (mk_view s) n) off w)\<rparr>"
proof -
  let ?B = "block_start s + n" and ?d = "overwrite (disk_buffer s) ((block_start s + n) * 1024 + off) w"
  have B: "?B * 1024 + 1024 \<le> length (disk_buffer s)" by (rule block_end [OF assms(2)])
  then have len: "length ?d = length (disk_buffer s)" using assms(3) by simp
  have wd: "window ?d (b * 1024) 1024 = (if b = ?B then overwrite (img_of s b) off w else img_of s b)"
    if "b < length (disk_buffer s) div 1024" for b
    using assms(3) block_end [OF that] B unfolding img_of_def by (intro window_overwrite_in_block) simp_all
  have n: "n < s_num_blocks (mk_area s)" "s_block_start_pointer (mk_area s) = block_start s" using assms(2) by (simp_all add: mk_area_def)
  then have bl: "blocks (mk_view s) n = img_of s ?B" by (simp add: mk_view_def view_def)
  show thesis
  proof (rule that)
    show "mk_write_block_by_number n (w @ r) off (length w) s = Inr (s\<lparr>disk_buffer := ?d\<rparr>)"
      using B assms(3) by (simp add: mk_write_block_by_number_def mk_write_block_def put_disk_def add.commute)
    show "length ?d = length (disk_buffer s)" by (rule len)
    have "b < length (disk_buffer s) div 1024" if "b < block_start s" for b using that assms(2) by linarith
    then show "\<forall>b < block_start s. window ?d (b * 1024) 1024 = img_of s b" using wd by simp
    have "view (mk_area s) (img_of (s\<lparr>disk_buffer := ?d\<rparr>)) =
        (view (mk_area s) (img_of s))\<lparr>blocks := (blocks (view (mk_area s) (img_of s)))(n := overwrite (img_of s ?B) off w)\<rparr>"
      using n wd by (intro view_write_block [OF mk_layout [OF assms(1)]]) simp_all
    moreover have "mk_area (s\<lparr>disk_buffer := ?d\<rparr>) = mk_area s" using len by (simp add: mk_area_def)
    ultimately show "mk_view (s\<lparr>disk_buffer := ?d\<rparr>) = (mk_view s)\<lparr>blocks := (blocks (mk_view s))(n := overwrite (blocks (mk_view s) n) off w)\<rparr>"
      using bl by (simp add: mk_view_def)
  qed
qed

lemma mk_read_block_ok:
  assumes "mk_ok s" and "block_start s + n < length (disk_buffer s) div 1024"
  shows "mk_read_block_by_number n 0 k s = Inr (blocks (mk_view s) n)" and "length (blocks (mk_view s) n) = 1024"
proof -
  have "n < s_num_blocks (mk_area s)" "s_block_start_pointer (mk_area s) = block_start s" using assms(2) by (simp_all add: mk_area_def)
  then have b: "blocks (mk_view s) n = img_of s (block_start s + n)" by (simp add: mk_view_def view_def)
  then show "length (blocks (mk_view s) n) = 1024" using length_img [OF assms(2)] by simp
  show "mk_read_block_by_number n 0 k s = Inr (blocks (mk_view s) n)"
    using block_end [OF assms(2)] b by (simp add: mk_read_block_by_number_def mk_read_block_def get_disk_def img_of_def add.commute)
qed

section \<open>Allocation\<close>

lemma mk_view_cong:
  assumes "mk_ok s" and "length d = length (disk_buffer s)"
    and "\<forall>b < length d div 1024. inode_start s \<le> b \<longrightarrow> window d (b * 1024) 1024 = img_of s b"
  shows "inodes (mk_view (s\<lparr>disk_buffer := d\<rparr>)) = inodes (mk_view s)" and "blocks (mk_view (s\<lparr>disk_buffer := d\<rparr>)) = blocks (mk_view s)"
proof -
  have a: "mk_area (s\<lparr>disk_buffer := d\<rparr>) = mk_area s" using assms(2) by (simp add: mk_area_def)
  have o: "inode_start s \<le> block_start s" "block_start s \<le> length (disk_buffer s) div 1024" using assms(1) by (simp_all add: mk_ok_def)
  have p: "s_inode_start_pointer (mk_area s) = inode_start s" "s_block_start_pointer (mk_area s) = block_start s" by (simp_all add: mk_area_def)
  show "inodes (mk_view (s\<lparr>disk_buffer := d\<rparr>)) = inodes (mk_view s)"
    unfolding mk_view_def a using assms(2,3) o p by (intro view_inodes_cong [OF mk_layout [OF assms(1)]]) simp
  show "blocks (mk_view (s\<lparr>disk_buffer := d\<rparr>)) = blocks (mk_view s)"
    unfolding mk_view_def a using assms(2,3) o p by (intro view_blocks_cong [OF mk_layout [OF assms(1)]]) simp
qed

lemma window_list_update_other:
  assumes "b * 1024 + 1024 \<le> length d" and "k div 1024 \<noteq> b"
  shows "window (d[k := x]) (b * 1024) 1024 = window d (b * 1024) 1024"
proof -
  have "k < b * 1024 \<or> b * 1024 + 1024 \<le> k" using assms(2) by linarith
  then show ?thesis using assms(1) by (intro nth_equalityI) (auto simp: nth_window nth_list_update)
qed

text \<open>The bytes of a bitmap, and the first clear bit of it.\<close>

definition first_free :: "byte list \<Rightarrow> nat \<Rightarrow> bool" where
  "first_free buf n \<longleftrightarrow> \<not> buf_bit buf n \<and> (\<forall>m<n. buf_bit buf m)"

lemma bit_block: "(start * 1024 + n div 8) div 1024 = start + n div 8192" for n :: nat
  by (simp add: div_mult2_eq [symmetric])

lemma mk_free_block_ok:
  assumes "mk_ok s" and f: "first_free (drop (1024 * block_bitmap_start s) (disk_buffer s)) n"
    and n: "block_bitmap_start s + n div 8192 < inode_start s" "n div 8192 \<le> 128"
  obtains d where "mk_get_free_block_and_mark_bitmap s = Inr (n, s\<lparr>disk_buffer := d\<rparr>)" and "length d = length (disk_buffer s)"
    and "\<forall>b < length d div 1024. b \<noteq> block_bitmap_start s + n div 8192 \<longrightarrow> window d (b * 1024) 1024 = img_of s b"
    and "\<forall>m. buf_bit (drop (1024 * block_bitmap_start s) d) m \<longleftrightarrow> m = n \<or> buf_bit (drop (1024 * block_bitmap_start s) (disk_buffer s)) m"
proof -
  let ?st = "block_bitmap_start s * 1024" let ?buf = "drop ?st (disk_buffer s)"
  have bl: "block_bitmap_start s + n div 8192 < length (disk_buffer s) div 1024" using assms(1) n(1) by (simp add: mk_ok_def)
  have "?st + n div 8 < length (disk_buffer s)"
  proof -
    have "(?st + n div 8) div 1024 < length (disk_buffer s) div 1024" using bl by (simp add: bit_block)
    then show ?thesis by (meson div_le_mono leD leI)
  qed
  then have p: "n div 8 < length ?buf" by simp
  have fc: "\<not> buf_bit ?buf n" "\<forall>m<n. buf_bit ?buf m" using f by (simp_all add: first_free_def mult.commute)
  have n8: "n div 8 div 1024 = n div 8192" by (simp add: div_mult2_eq [symmetric])
  have sc: "scan_block_bitmap 1024 0 0 ?buf = Inr (n div 8 div 1024, n div 8 mod 1024, n mod 8)"
    using scan_block_bitmap_finds [of 1024 0 "n div 8" ?buf "n mod 8" 0] least_clear_byte [OF fc] p n(2) n8
    by (simp add: DIOSFS_NUM_BLOCK_POINTER_BLOCKS_def)
  have pos: "n div 8 div 1024 * 1024 + n div 8 mod 1024 = n div 8" by (rule div_mult_mod_eq)
  have num: "n div 8 div 1024 * 1024 * 8 + n div 8 mod 1024 * 8 + n mod 8 = n"
    using pos div_mult_mod_eq [of n 8] by (metis add_mult_distrib)
  let ?v = "(?buf ! (n div 8)) OR push_bit (n mod 8) 1"
  let ?d = "(disk_buffer s)[?st + n div 8 := ?v]"
  have dr: "drop ?st ?d = ?buf[n div 8 := ?v]" by (simp add: drop_update_swap)
  show thesis
  proof (rule that)
    show "mk_get_free_block_and_mark_bitmap s = Inr (n, s\<lparr>disk_buffer := ?d\<rparr>)"
      using sc num pos by (simp add: mk_get_free_block_and_mark_bitmap_def Let_def mult.commute [of 1024 "block_bitmap_start s"])
    show "length ?d = length (disk_buffer s)" by simp
    show "\<forall>b < length ?d div 1024. b \<noteq> block_bitmap_start s + n div 8192 \<longrightarrow> window ?d (b * 1024) 1024 = img_of s b"
      by (auto simp: img_of_def bit_block block_end intro!: window_list_update_other)
    show "\<forall>m. buf_bit (drop (1024 * block_bitmap_start s) ?d) m \<longleftrightarrow> m = n \<or> buf_bit (drop (1024 * block_bitmap_start s) (disk_buffer s)) m"
      unfolding mult.commute [of 1024 "block_bitmap_start s"] dr using buf_bit_set [OF p] by blast
  qed
qed

lemma mk_free_inode_ok:
  assumes "mk_ok s" and f: "first_free (drop (1024 * inode_bitmap_start s) (disk_buffer s)) n"
    and n: "inode_bitmap_start s < inode_start s" "n < 8192"
  obtains d where "mk_get_free_inode_and_mark_bitmap s = Inr (zero_inode\<lparr>i_inode_number := word_of_nat n\<rparr>, s\<lparr>disk_buffer := d\<rparr>)"
    and "length d = length (disk_buffer s)"
    and "\<forall>b < length d div 1024. b \<noteq> inode_bitmap_start s \<longrightarrow> window d (b * 1024) 1024 = img_of s b"
    and "\<forall>k. inode_bitmap_start s * 1024 + 1024 \<le> k \<longrightarrow> drop k d = drop k (disk_buffer s)"
proof -
  let ?st = "inode_bitmap_start s * 1024" let ?buf = "drop ?st (disk_buffer s)"
  have bl: "inode_bitmap_start s < length (disk_buffer s) div 1024" using assms(1) n(1) by (simp add: mk_ok_def)
  have n8: "n div 8 < 1024" using n(2) by linarith
  then have p: "n div 8 < length ?buf" using block_end [OF bl] by simp
  have fc: "\<not> buf_bit ?buf n" "\<forall>m<n. buf_bit ?buf m" using f by (simp_all add: first_free_def mult.commute)
  have sc: "scan_inode_bitmap 1024 0 0 ?buf = Inr (0, n div 8, n mod 8)"
    using scan_inode_bitmap_finds [of 1024 0 "n div 8" ?buf "n mod 8" 0] least_clear_byte [OF fc] p n8 by simp
  let ?v = "(?buf ! (n div 8)) OR push_bit (n mod 8) 1"
  let ?d = "(disk_buffer s)[?st + n div 8 := ?v]"
  have k: "(?st + n div 8) div 1024 = inode_bitmap_start s" using n8 by simp
  show thesis
  proof (rule that)
    show "mk_get_free_inode_and_mark_bitmap s = Inr (zero_inode\<lparr>i_inode_number := word_of_nat n\<rparr>, s\<lparr>disk_buffer := ?d\<rparr>)"
      using sc by (simp add: mk_get_free_inode_and_mark_bitmap_def Let_def mult.commute [of 1024 "inode_bitmap_start s"] del: of_nat_add of_nat_mult)
    show "length ?d = length (disk_buffer s)" by simp
    show "\<forall>b < length ?d div 1024. b \<noteq> inode_bitmap_start s \<longrightarrow> window ?d (b * 1024) 1024 = img_of s b"
      using k by (auto simp: img_of_def block_end intro!: window_list_update_other)
    show "\<forall>k. ?st + 1024 \<le> k \<longrightarrow> drop k ?d = drop k (disk_buffer s)" using n8 by simp
  qed
qed

lemma buf_bit_window:
  assumes "length d' = length d" and "st + m div 8192 < length d div 1024"
    and "window d' ((st + m div 8192) * 1024) 1024 = window d ((st + m div 8192) * 1024) 1024"
  shows "buf_bit (drop (1024 * st) d') m \<longleftrightarrow> buf_bit (drop (1024 * st) d) m"
proof -
  let ?B = "st + m div 8192"
  have r: "?B * 1024 + 1024 \<le> length d" by (rule block_end [OF assms(2)])
  have i: "1024 * st + m div 8 = ?B * 1024 + m div 8 mod 1024" using div_mult_mod_eq [of "m div 8" 1024] by (simp add: div_mult2_eq [symmetric])
  have "window d' (?B * 1024) 1024 ! (m div 8 mod 1024) = window d (?B * 1024) 1024 ! (m div 8 mod 1024)" using assms(3) by simp
  then have "d' ! (1024 * st + m div 8) = d ! (1024 * st + m div 8)" using r assms(1) unfolding i by (simp add: nth_window)
  moreover have "1024 * st + m div 8 < length d" using r unfolding i using mod_less_divisor [of 1024 "m div 8"] by linarith
  ultimately show ?thesis using assms(1) by (simp add: buf_bit_def)
qed

lemma first_free_cong:
  assumes "length d' = length d" and "st + n div 8192 < length d div 1024"
    and "\<And>b. st \<le> b \<Longrightarrow> b \<le> st + n div 8192 \<Longrightarrow> window d' (b * 1024) 1024 = window d (b * 1024) 1024"
  shows "first_free (drop (1024 * st) d') n \<longleftrightarrow> first_free (drop (1024 * st) d) n"
proof -
  have "buf_bit (drop (1024 * st) d') m \<longleftrightarrow> buf_bit (drop (1024 * st) d) m" if "m \<le> n" for m
  proof (rule buf_bit_window [OF assms(1)])
    have m: "st + m div 8192 \<le> st + n div 8192" using div_le_mono [OF that] by simp
    then show "st + m div 8192 < length d div 1024" using assms(2) by (rule le_less_trans)
    show "window d' ((st + m div 8192) * 1024) 1024 = window d ((st + m div 8192) * 1024) 1024" by (rule assms(3) [OF le_add1 m])
  qed
  then show ?thesis by (auto simp: first_free_def)
qed

section \<open>Directories\<close>

definition needs_block :: "diosfs_inode \<Rightarrow> bool" where
  "needs_block p \<longleftrightarrow> unat (i_size p) mod 7 = 0 \<or> i_block_count p = 0"

definition with_block :: "diosfs_inode \<Rightarrow> nat \<Rightarrow> diosfs_inode" where
  "with_block p b = (if needs_block p then p\<lparr>i_blocks := (i_blocks p)[unat (i_size p) div 7 := word_of_nat b], i_block_count := i_block_count p + 1\<rparr> else p)"

text \<open>The block that the next entry of a directory goes to: the first free one when the directory needs one.\<close>

definition next_block :: "mkfs \<Rightarrow> diosfs_inode \<Rightarrow> nat \<Rightarrow> bool" where
  "next_block s p b \<longleftrightarrow> block_start s + b < length (disk_buffer s) div 1024 \<and>
     (if needs_block p then first_free (drop (1024 * block_bitmap_start s) (disk_buffer s)) b \<and>
        block_bitmap_start s + b div 8192 < inode_start s \<and> b div 8192 \<le> 128
      else unat (i_blocks p ! (unat (i_size p) div 7)) = b)"

lemma with_block_simps [simp]:
  "i_size (with_block p b) = i_size p" "wf_inode (with_block p b) = wf_inode p" "i_inode_number (with_block p b) = i_inode_number p"
  "i_type (with_block p b) = i_type p"
  by (simp_all add: with_block_def wf_inode_def)

lemma with_block_slot:
  assumes "next_block s p b" and "wf_inode p" and "unat (i_size p) < 70"
  shows "unat (i_blocks (with_block p b) ! (unat (i_size p) div 7)) = b"
proof -
  have "unat (i_size p) div 7 < 10" using assms(3) by (simp add: div_less_iff_less_mult)
  moreover have "unat (word_of_nat b :: 64 word) = b" if "needs_block p"
  proof -
    have "b div 8192 \<le> 128" using that assms(1) by (simp add: next_block_def)
    then have "b < 129 * 8192" by linarith
    then have "b < 2 ^ 64" by simp
    then show ?thesis by (rule unat_word_of_nat_64)
  qed
  ultimately show ?thesis using assms by (simp add: with_block_def next_block_def wf_inode_def)
qed

lemma with_block_other: "k \<noteq> unat (i_size p) div 7 \<Longrightarrow> i_blocks (with_block p b) ! k = i_blocks p ! k"
  by (simp add: with_block_def)

lemma dir_list_with_block:
  assumes "wf_inode p" and "unat (i_size p) < 70" and "i_block_count p = 0 \<longrightarrow> i_size p = 0"
  shows "dir_list v (with_block p b) = dir_list v p"
proof (rule nth_equalityI)
  show "length (dir_list v (with_block p b)) = length (dir_list v p)" using assms by (simp add: length_dir_list)
  fix k assume "k < length (dir_list v (with_block p b))"
  then have k: "k < unat (i_size p)" using assms by (simp add: length_dir_list)
  have "i_blocks (with_block p b) ! (k div 7) = i_blocks p ! (k div 7)"
  proof (cases "needs_block p")
    case True
    then have "unat (i_size p) mod 7 = 0" using assms(3) k by (auto simp: needs_block_def)
    then have "k div 7 < unat (i_size p) div 7" using k by (metis mod_0_imp_dvd dvd_mult_div_cancel less_mult_imp_div_less mult.commute)
    then show ?thesis by (intro with_block_other) simp
  next
    case False
    then show ?thesis by (simp add: with_block_def)
  qed
  then show "dir_list v (with_block p b) ! k = dir_list v p ! k" using assms k by (simp add: nth_dir_list)
qed

text \<open>The block a directory needs is marked; no inode and no data block changes.\<close>

lemma mk_dirent_block_ok:
  assumes "mk_ok s" and "next_block s p b" and "wf_inode p" and "unat (i_size p) < 70"
  obtains d where "mk_dirent_block p s = Inr (with_block p b, s\<lparr>disk_buffer := d\<rparr>)"
    and "length d = length (disk_buffer s)"
    and "inodes (mk_view (s\<lparr>disk_buffer := d\<rparr>)) = inodes (mk_view s)" "blocks (mk_view (s\<lparr>disk_buffer := d\<rparr>)) = blocks (mk_view s)"
    and "\<forall>b < length d div 1024. inode_start s \<le> b \<longrightarrow> window d (b * 1024) 1024 = img_of s b"
proof (cases "needs_block p")
  case True
  with assms(2) have b: "first_free (drop (1024 * block_bitmap_start s) (disk_buffer s)) b" "block_bitmap_start s + b div 8192 < inode_start s"
    "b div 8192 \<le> 128" by (simp_all add: next_block_def)
  obtain d where d: "mk_get_free_block_and_mark_bitmap s = Inr (b, s\<lparr>disk_buffer := d\<rparr>)" "length d = length (disk_buffer s)"
    "\<forall>i < length d div 1024. i \<noteq> block_bitmap_start s + b div 8192 \<longrightarrow> window d (i * 1024) 1024 = img_of s i"
    by (rule mk_free_block_ok [OF assms(1) b])
  have e: "\<forall>i < length d div 1024. inode_start s \<le> i \<longrightarrow> window d (i * 1024) 1024 = img_of s i" using d(3) b(2) by auto
  have sl: "unat (i_size p) div 7 < length (i_blocks p)" using assms(3,4) by (simp add: wf_inode_def div_less_iff_less_mult)
  show thesis
    using True d sl mk_view_cong [OF assms(1) d(2) e] e by (intro that [of d]) (auto simp: mk_dirent_block_def Let_def needs_block_def with_block_def)
next
  case False
  then show thesis by (intro that [of "disk_buffer s"]) (auto simp: mk_dirent_block_def Let_def needs_block_def with_block_def img_of_def)
qed

lemma mk_write_dirent_ok:
  assumes ok: "mk_ok s" and K: "unat (i_inode_number q) = K" "K < 4 * (block_start s - inode_start s)" "inodes (mk_view s) K = p" "unat (i_inode_number p) = K"
    and sz: "unat (i_size q) \<noteq> 71" "unat (i_size p) < 70" and wf: "wf_inode p" and b: "next_block s p b" and e: "wf_dirent e"
  obtains d where "mk_write_dirent q e s = Inr (DIOSFS_SUCCESS, (with_block p b)\<lparr>i_size := i_size p + 1\<rparr>, s\<lparr>disk_buffer := d\<rparr>)"
    and "length d = length (disk_buffer s)"
    and "inodes (mk_view (s\<lparr>disk_buffer := d\<rparr>)) = (inodes (mk_view s))(K := (with_block p b)\<lparr>i_size := i_size p + 1\<rparr>)"
    and "blocks (mk_view (s\<lparr>disk_buffer := d\<rparr>)) = (blocks (mk_view s))(b := put_dirent (blocks (mk_view s) b) (unat (i_size p) mod 7) e)"
proof -
  let ?p = "with_block p b" and ?k = "unat (i_size p) div 7" and ?p' = "(with_block p b)\<lparr>i_size := i_size p + 1\<rparr>"
  obtain d1 where d1: "mk_dirent_block p s = Inr (?p, s\<lparr>disk_buffer := d1\<rparr>)" "length d1 = length (disk_buffer s)"
    "inodes (mk_view (s\<lparr>disk_buffer := d1\<rparr>)) = inodes (mk_view s)" "blocks (mk_view (s\<lparr>disk_buffer := d1\<rparr>)) = blocks (mk_view s)"
    by (rule mk_dirent_block_ok [OF ok b wf sz(2)])
  let ?s1 = "s\<lparr>disk_buffer := d1\<rparr>"
  have ok1: "mk_ok ?s1" using ok d1(2) by (simp add: mk_ok_def)
  have b1: "block_start ?s1 + b < length (disk_buffer ?s1) div 1024" using b d1(2) by (simp add: next_block_def)
  have sl: "unat (i_blocks ?p ! ?k) = b" "?k < length (i_blocks ?p)"
    using with_block_slot [OF b wf sz(2)] wf sz(2) by (simp_all add: with_block_def wf_inode_def div_less_iff_less_mult)
  let ?c = "put_dirent (blocks (mk_view s) b) (unat (i_size p) mod 7) e"
  have r7: "144 * (unat (i_size p) mod 7) + 144 \<le> 1024" using mod_less_divisor [of 7 "unat (i_size p)"] by linarith
  have lb: "length (blocks (mk_view s) b) = 1024" using mk_read_block_ok(2) [OF ok1 b1] d1(4) by simp
  then have lc: "length ?c = 1024" using r7 e by simp
  then have c0: "0 + length ?c \<le> 1024" by simp
  obtain d2 where d2: "mk_write_block_by_number b (?c @ []) 0 (length ?c) ?s1 = Inr (?s1\<lparr>disk_buffer := d2\<rparr>)" "length d2 = length (disk_buffer ?s1)"
    "mk_view (?s1\<lparr>disk_buffer := d2\<rparr>) = (mk_view ?s1)\<lparr>blocks := (blocks (mk_view ?s1))(b := overwrite (blocks (mk_view ?s1) b) 0 ?c)\<rparr>"
    by (rule mk_write_block_ok [OF ok1 b1 c0])
  let ?s2 = "s\<lparr>disk_buffer := d2\<rparr>"
  have ok2: "mk_ok ?s2" using ok d1(2) d2(2) by (simp add: mk_ok_def)
  have p2: "wf_inode ?p'" "unat (i_inode_number ?p') < 4 * (block_start ?s2 - inode_start ?s2)" using wf K by (simp_all add: wf_inode_def with_block_def)
  obtain d3 where d3: "mk_write_inode ?p' ?s2 = Inr (?s2\<lparr>disk_buffer := d3\<rparr>)" "length d3 = length (disk_buffer ?s2)"
    "mk_view (?s2\<lparr>disk_buffer := d3\<rparr>) = (mk_view ?s2)\<lparr>inodes := (inodes (mk_view ?s2))(unat (i_inode_number ?p') := ?p')\<rparr>"
    by (rule mk_write_inode_ok [OF ok2 p2])
  show thesis
  proof (rule that [of d3])
    have rd: "mk_read_block_by_number b 0 1024 ?s1 = Inr (blocks (mk_view s) b)" using mk_read_block_ok(1) [OF ok1 b1] d1(4) by simp
    have p: "mk_read_inode K s = Inr p" using mk_read_inode_ok [OF ok K(2)] K(3) by simp
    show "mk_write_dirent q e s = Inr (DIOSFS_SUCCESS, ?p', s\<lparr>disk_buffer := d3\<rparr>)"
      using sz(1) sl rd d1(1) d2(1) d3(1) lc p K(1) by (simp add: mk_write_dirent_def Let_def NUM_BLOCKS_DIRECT_def not_le)
    show "length d3 = length (disk_buffer s)" using d1(2) d2(2) d3(2) by simp
    show "inodes (mk_view (s\<lparr>disk_buffer := d3\<rparr>)) = (inodes (mk_view s))(K := ?p')" using d3(3) d2(3) d1(3) K(4) by simp
    show "blocks (mk_view (s\<lparr>disk_buffer := d3\<rparr>)) = (blocks (mk_view s))(b := ?c)"
      using d3(3) d2(3) d1(4) lc lb by (simp add: overwrite_def)
  qed
qed

text \<open>The inode and the entry of a new file.\<close>

definition new_inode :: "nat \<Rightarrow> nat \<Rightarrow> byte list \<Rightarrow> 8 word \<Rightarrow> diosfs_inode" where
  "new_inode n K x ty = zero_inode\<lparr>i_inode_number := word_of_nat n, i_type := ucast ty, i_parent_inode_number := word_of_nat K,
     i_name := overwrite (replicate 128 0) 0 (x @ [0])\<rparr>"

definition new_entry :: "nat \<Rightarrow> nat \<Rightarrow> byte list \<Rightarrow> 8 word \<Rightarrow> diosfs_directory_entry" where
  "new_entry n K x ty = \<lparr>de_name = overwrite (replicate 128 0) 0 (x @ [0]), de_inode_number = word_of_nat n, de_parent_inode_number = word_of_nat K,
     de_type = ucast ty, de_device_number = 0, de_size = 0\<rparr>"

lemma ucast_number: "n < 65536 \<Longrightarrow> ucast (word_of_nat n :: 16 word) = (word_of_nat n :: 32 word)"
  by (simp add: unsigned_of_nat take_bit_nat_eq_self)

lemma mk_create_ok:
  assumes ok: "mk_ok s" "inode_bitmap_start s < block_bitmap_start s" "inode_bitmap_start s < inode_start s"
    and q: "unat (i_inode_number q) = K"
    and K: "K < 4 * (block_start s - inode_start s)" "inodes (mk_view s) K = p" "unat (i_inode_number p) = K"
    and sz: "unat (i_size p) < 70" and wf: "wf_inode p" and b: "next_block s p b"
    and n: "first_free (drop (1024 * inode_bitmap_start s) (disk_buffer s)) n" "n < 8192" "n < 4 * (block_start s - inode_start s)" "n \<noteq> K"
    and x: "0 \<notin> set x" "length x < 128"
  obtains d where "mk_create q (x @ [0]) ty s = Inr (n, (with_block p b)\<lparr>i_size := i_size p + 1\<rparr>, s\<lparr>disk_buffer := d\<rparr>)"
    and "length d = length (disk_buffer s)"
    and "inodes (mk_view (s\<lparr>disk_buffer := d\<rparr>)) =
      (inodes (mk_view s))(n := new_inode n K x ty, K := (with_block p b)\<lparr>i_size := i_size p + 1\<rparr>)"
    and "blocks (mk_view (s\<lparr>disk_buffer := d\<rparr>)) = (blocks (mk_view s))(b := put_dirent (blocks (mk_view s) b) (unat (i_size p) mod 7) (new_entry n K x ty))"
proof -
  let ?p' = "(with_block p b)\<lparr>i_size := i_size p + 1\<rparr>" and ?i = "new_inode n K x ty" and ?e = "new_entry n K x ty"
  have num: "unat (word_of_nat n :: 16 word) = n" "i_inode_number p = word_of_nat K" "K < 65536"
    using n(2) K(3) unsigned_less [of "i_inode_number p", where 'a = nat] by (auto simp: unat_of_nat take_bit_nat_eq_self)
  obtain d1 where d1: "mk_get_free_inode_and_mark_bitmap s = Inr (zero_inode\<lparr>i_inode_number := word_of_nat n\<rparr>, s\<lparr>disk_buffer := d1\<rparr>)"
    "length d1 = length (disk_buffer s)" "\<forall>i < length d1 div 1024. i \<noteq> inode_bitmap_start s \<longrightarrow> window d1 (i * 1024) 1024 = img_of s i"
    "\<forall>k. inode_bitmap_start s * 1024 + 1024 \<le> k \<longrightarrow> drop k d1 = drop k (disk_buffer s)"
    by (rule mk_free_inode_ok [OF ok(1) n(1) ok(3) n(2)])
  let ?s1 = "s\<lparr>disk_buffer := d1\<rparr>"
  have ok1: "mk_ok ?s1" using ok d1(2) by (simp add: mk_ok_def)
  have "\<forall>i < length d1 div 1024. inode_start s \<le> i \<longrightarrow> window d1 (i * 1024) 1024 = img_of s i" using d1(3) ok(3) by auto
  note v1 = mk_view_cong [OF ok(1) d1(2) this]
  have i: "wf_inode ?i" "unat (i_inode_number ?i) < 4 * (block_start ?s1 - inode_start ?s1)"
    using x(2) n(3) num(1) by (simp_all add: new_inode_def wf_inode_def zero_inode_def)
  obtain d2 where d2: "mk_write_inode ?i ?s1 = Inr (?s1\<lparr>disk_buffer := d2\<rparr>)" "length d2 = length (disk_buffer ?s1)"
    "\<forall>b < length d2 div 1024. b < inode_start ?s1 \<or> block_start ?s1 \<le> b \<longrightarrow> window d2 (b * 1024) 1024 = img_of ?s1 b"
    "mk_view (?s1\<lparr>disk_buffer := d2\<rparr>) = (mk_view ?s1)\<lparr>inodes := (inodes (mk_view ?s1))(unat (i_inode_number ?i) := ?i)\<rparr>"
    by (rule mk_write_inode_ok [OF ok1 i])
  let ?s2 = "s\<lparr>disk_buffer := d2\<rparr>"
  have ok2: "mk_ok ?s2" using ok d1(2) d2(2) by (simp add: mk_ok_def)
  have b2: "next_block ?s2 p b"
  proof -
    have "window d2 (i * 1024) 1024 = img_of s i" if "i < inode_start s" "i \<noteq> inode_bitmap_start s" for i
    proof -
      have "i < length d2 div 1024" using that(1) ok(1) d1(2) d2(2) by (simp add: mk_ok_def)
      then show ?thesis using d2(2,3) d1(2,3) that by simp
    qed
    then have "first_free (drop (1024 * block_bitmap_start s) d2) b \<longleftrightarrow> first_free (drop (1024 * block_bitmap_start s) (disk_buffer s)) b"
      if "block_bitmap_start s + b div 8192 < inode_start s"
      using that ok d1(2) d2(2) by (intro first_free_cong) (auto simp: img_of_def mk_ok_def)
    then show ?thesis using b d1(2) d2(2) by (auto simp: next_block_def)
  qed
  let ?q = "p\<lparr>i_size := i_size p + 1\<rparr>"
  have w: "unat (i_inode_number ?q) = K" "K < 4 * (block_start ?s2 - inode_start ?s2)" "inodes (mk_view ?s2) K = p" "unat (i_size ?q) \<noteq> 71"
    using K d2(4) v1 n(4) num(1) sz unat_inc_32 [OF sz] by (simp_all add: new_inode_def)
  have e: "wf_dirent ?e" using x(2) by (simp add: new_entry_def wf_dirent_def)
  obtain d3 where d3: "mk_write_dirent ?q ?e ?s2 = Inr (DIOSFS_SUCCESS, ?p', ?s2\<lparr>disk_buffer := d3\<rparr>)" "length d3 = length (disk_buffer ?s2)"
    "inodes (mk_view (?s2\<lparr>disk_buffer := d3\<rparr>)) = (inodes (mk_view ?s2))(K := ?p')"
    "blocks (mk_view (?s2\<lparr>disk_buffer := d3\<rparr>)) = (blocks (mk_view ?s2))(b := put_dirent (blocks (mk_view ?s2) b) (unat (i_size p) mod 7) ?e)"
    by (rule mk_write_dirent_ok [OF ok2 w(1,2,3) K(3) w(4) sz wf b2 e])
  let ?s3 = "s\<lparr>disk_buffer := d3\<rparr>"
  have ok3: "mk_ok ?s3" using ok d1(2) d2(2) d3(2) by (simp add: mk_ok_def)
  have p3: "wf_inode ?p'" "unat (i_inode_number ?p') < 4 * (block_start ?s3 - inode_start ?s3)" using wf K by (simp_all add: wf_inode_def with_block_def)
  obtain d4 where d4: "mk_write_inode ?p' ?s3 = Inr (?s3\<lparr>disk_buffer := d4\<rparr>)" "length d4 = length (disk_buffer ?s3)"
    "mk_view (?s3\<lparr>disk_buffer := d4\<rparr>) = (mk_view ?s3)\<lparr>inodes := (inodes (mk_view ?s3))(unat (i_inode_number ?p') := ?p')\<rparr>"
    by (rule mk_write_inode_ok [OF ok3 p3])
  show thesis
  proof (rule that [of d4])
    have rd: "mk_read_inode K ?s1 = Inr p" using mk_read_inode_ok [OF ok1, of K] K v1 by simp
    have nm: "strcpy (replicate 128 0) 0 (x @ [0]) = Inr (overwrite (replicate 128 0) 0 (x @ [0]))" using strcpy_eq [of x 0 "replicate 128 0" "[]"] x by simp
    have en: "\<lparr>de_name = overwrite (replicate 128 0) 0 (x @ [0]), de_inode_number = ucast (i_inode_number ?i), de_parent_inode_number = ucast (i_parent_inode_number ?i),
        de_type = i_type ?i, de_device_number = 0, de_size = 0\<rparr> = ?e"
      using num(3) n(2) by (simp add: new_entry_def new_inode_def ucast_number)
    show "mk_create q (x @ [0]) ty s = Inr (n, ?p', s\<lparr>disk_buffer := d4\<rparr>)"
      using d1(1) q rd nm d2(1) en d3(1) d4(1) num
      by (simp add: mk_create_def Let_def new_inode_def zero_inode_def MAX_FILENAME_LENGTH_def)
    show "length d4 = length (disk_buffer s)" using d1(2) d2(2) d3(2) d4(2) by simp
    show "inodes (mk_view (s\<lparr>disk_buffer := d4\<rparr>)) = (inodes (mk_view s))(n := ?i, K := ?p')"
      using d4(3) d3(3) d2(4) v1 K(3) num(1) by (simp add: new_inode_def fun_eq_iff)
    show "blocks (mk_view (s\<lparr>disk_buffer := d4\<rparr>)) = (blocks (mk_view s))(b := put_dirent (blocks (mk_view s) b) (unat (i_size p) mod 7) ?e)"
      using d4(3) d3(4) d2(4) v1 by simp
  qed
qed

end
