(* ===== verification/Mkdiosfs_Images.thy ===== *)
theory Mkdiosfs_Images
  imports Mkdiosfs_Volume
begin

text \<open>
  What \<^verbatim>\<open>mkdiosfs\<close> writes and what the kernel reads from it: the format of an empty image, the blocks of large files, and directories
  of an image as the kernel lists them from a RAM disk.
\<close>

section \<open>Clearing blocks\<close>

lemma zero_blocks_eq:
  "(b + k) * 1024 \<le> length (disk_buffer s) \<Longrightarrow>
    mk_zero_blocks k b s = Inr (s\<lparr>disk_buffer := overwrite (disk_buffer s) (b * 1024) (replicate (k * 1024) 0)\<rparr>)"
proof (induction k arbitrary: b s)
  case 0
  then show ?case by (simp add: overwrite_def)
next
  case (Suc k)
  let ?s = "s\<lparr>disk_buffer := overwrite (disk_buffer s) (b * 1024) (replicate 1024 0)\<rparr>"
  have w: "mk_write_block b (replicate 1024 0) 0 1024 s = Inr ?s" using Suc.prems by (simp add: mk_write_block_def put_disk_def)
  have "overwrite (overwrite (disk_buffer s) (b * 1024) (replicate 1024 0)) ((b + 1) * 1024) (replicate (k * 1024) 0) =
      overwrite (disk_buffer s) (b * 1024) (replicate (Suc k * 1024) 0)"
    using Suc.prems by (intro nth_equalityI) (auto simp: nth_overwrite)
  moreover have "mk_zero_blocks k (b + 1) ?s = Inr (?s\<lparr>disk_buffer := overwrite (disk_buffer ?s) ((b + 1) * 1024) (replicate (k * 1024) 0)\<rparr>)"
    using Suc.prems by (intro Suc.IH) simp
  ultimately show ?case using w by (simp del: replicate.simps mk_write_block_def)
qed

lemma img_of_zero:
  assumes "(b + k) * 1024 \<le> length m" and "i * 1024 + 1024 \<le> length m"
  shows "window (overwrite m (b * 1024) (replicate (k * 1024) 0)) (i * 1024) 1024 =
    (if b \<le> i \<and> i < b + k then replicate 1024 (0 :: byte) else window m (i * 1024) 1024)"
proof -
  have "window (replicate (k * 1024) 0) ((i - b) * 1024) 1024 = replicate 1024 (0 :: byte)" if "b \<le> i" "i < b + k"
  proof -
    have "(i - b) * 1024 + 1024 \<le> k * 1024" using that by linarith
    then show ?thesis by (simp add: window_def)
  qed
  then show ?thesis using window_overwrite_block [of b 1024 k m i "replicate (k * 1024) 0"] assms by simp
qed

section \<open>Sizes\<close>

text \<open>The numbers of \<^verbatim>\<open>diosfs_get_size_info\<close> for an image of \<open>M\<close> megabytes, as natural numbers.\<close>

definition split_of :: "nat \<Rightarrow> nat" where
  "split_of M = 1024 * M div 32 - 1024 * M div 150"

definition inode_maps :: "nat \<Rightarrow> nat" where
  "inode_maps M = 4 * split_of M div 8192"

definition block_maps :: "nat \<Rightarrow> nat" where
  "block_maps M = (1024 * M - split_of M - 1024 * M div 150) div 8192"

definition mk_size :: "nat \<Rightarrow> diosfs_size_calculation" where
  "mk_size M = \<lparr>total_blocks = word_of_nat (1024 * M), total_inodes = word_of_nat (4 * split_of M),
     total_data_blocks = word_of_nat (1024 * M - split_of M - 1024 * M div 150),
     total_block_bitmap_blocks = word_of_nat (block_maps M), total_inode_bitmap_blocks = word_of_nat (inode_maps M)\<rparr>"

lemma word_of_nat_div_64:
  assumes "a < 2 ^ 64" and "b < 2 ^ 64"
  shows "(word_of_nat a :: 64 word) div word_of_nat b = word_of_nat (a div b)"
proof -
  have "a div b < 2 ^ 64" using assms(1) div_le_dividend [of a b] by (rule le_less_trans [rotated])
  then show ?thesis using assms by (intro word_unat_eq_iff [THEN iffD2]) (simp add: unat_div unat_word_of_nat_64)
qed

lemma split_le: "split_of M \<le> 32 * M" "1024 * M div 150 \<le> 1024 * M div 32" "1024 * M div 150 \<le> 7 * M"
  by (auto simp: split_of_def)

lemma size_info_eq:
  assumes "0 < M" and "M \<le> 8000"
  shows "mk_get_size_info (word_of_nat M) 1024 = Inr (mk_size M)"
proof -
  have "unat (word_of_nat M :: 64 word) \<noteq> 0" using assms unat_word_of_nat_64 [of M] by simp
  then have nz: "(word_of_nat M :: 64 word) \<noteq> 0" by (metis unat_0)
  have d: "(word_of_nat a :: 64 word) div 1024 = word_of_nat (a div 1024)" "(word_of_nat a :: 64 word) div 150 = word_of_nat (a div 150)"
    "(word_of_nat a :: 64 word) div 32 = word_of_nat (a div 32)" "(word_of_nat a :: 64 word) div 8 = word_of_nat (a div 8)" if "a < 2 ^ 64" for a
    using that word_of_nat_div_64 [of a 1024] word_of_nat_div_64 [of a 150] word_of_nat_div_64 [of a 32] word_of_nat_div_64 [of a 8] by simp_all
  have b: "push_bit 20 (word_of_nat M :: 64 word) div 1024 = word_of_nat (1024 * M)"
    using assms d(1) [of "M * 2 ^ 20"] by (simp add: push_bit_eq_mult)
  let ?T = "1024 * M" and ?p = "1024 * M div 150"
  have t: "?T < 2 ^ 64" "split_of M < 2 ^ 64" "4 * split_of M < 2 ^ 64" using assms split_le(1) [of M] by simp_all
  have sp: "(word_of_nat (?T div 32) :: 64 word) - word_of_nat ?p = word_of_nat (split_of M)"
    using split_le(2) [of M] unfolding split_of_def by (rule of_nat_diff [symmetric])
  have dt: "(word_of_nat ?T :: 64 word) - word_of_nat (split_of M) - word_of_nat ?p = word_of_nat (?T - split_of M - ?p)"
  proof -
    have "split_of M + ?p \<le> ?T" using split_le(2) [of M] by (simp add: split_of_def)
    then show ?thesis by (simp add: of_nat_diff)
  qed
  have m: "(?T - split_of M - ?p) div 1024 div 8 = block_maps M" "4 * split_of M div 1024 div 8 = inode_maps M"
    by (simp_all add: block_maps_def inode_maps_def div_mult2_eq [symmetric])
  have l: "?T - split_of M - ?p < 2 ^ 64" "(?T - split_of M - ?p) div 1024 < 2 ^ 64" "4 * split_of M div 1024 < 2 ^ 64" using t by linarith+
  show ?thesis
    unfolding mk_get_size_info_def mk_size_def Let_def b d(2,3) [OF t(1)] sp dt
    using nz d(1) [OF l(1)] d(4) [OF l(2)] d(1) [OF t(3)] d(4) [OF l(3)] m by (simp add: mult.commute [of _ 4])
qed

text \<open>The data blocks that are cleared, twice the start of the data area more than the disk has, fit the buffer from four megabytes on.\<close>

definition data_at :: "nat \<Rightarrow> nat" where
  "data_at M = inode_maps M + block_maps M + 1 + split_of M"

lemma data_at_bound:
  assumes "4 \<le> M"
  shows "(1024 * M + 2 * data_at M) * 1024 \<le> M * 2 ^ 20 + M * 2 ^ 20 div 20"
proof -
  have q: "20 * (M * 2 ^ 20 div 20) + 19 \<ge> M * 2 ^ 20" by linarith
  have p: "150 * (1024 * M div 150) + 149 \<ge> 1024 * M" by linarith
  have sp: "split_of M + 1024 * M div 150 = 32 * M" using split_le(2) [of M] by (simp add: split_of_def)
  have im: "8192 * inode_maps M \<le> 4 * split_of M" by (simp add: inode_maps_def)
  have bm: "8192 * block_maps M \<le> 1024 * M - split_of M - 1024 * M div 150" by (simp add: block_maps_def)
  consider "M = 4" | "M = 5" | "M = 6" | "7 \<le> M" using assms by linarith
  then show ?thesis
  proof cases
    case 4
    then show ?thesis using q p sp im bm by (simp add: data_at_def)
  qed (simp_all add: data_at_def inode_maps_def block_maps_def split_of_def)
qed

lemma maps_empty: "inode_maps M = 0 \<longleftrightarrow> M \<le> 81" "block_maps M = 0 \<longleftrightarrow> M \<le> 8"
proof -
  have p: "150 * (1024 * M div 150) + 149 \<ge> 1024 * M" "150 * (1024 * M div 150) \<le> 1024 * M" by linarith+
  have sp: "split_of M + 1024 * M div 150 = 32 * M" using split_le(2) [of M] by (simp add: split_of_def)
  have "inode_maps M = 0 \<longleftrightarrow> split_of M < 2048" by (auto simp: inode_maps_def)
  then show "inode_maps M = 0 \<longleftrightarrow> M \<le> 81" using p sp by linarith
  have "block_maps M = 0 \<longleftrightarrow> 1024 * M - split_of M - 1024 * M div 150 < 8192" by (auto simp: block_maps_def)
  then show "block_maps M = 0 \<longleftrightarrow> M \<le> 8" using sp by linarith
qed

lemma unat_mk_size:
  assumes "M \<le> 8000"
  shows "unat (total_blocks (mk_size M)) = 1024 * M" "unat (total_inodes (mk_size M)) = 4 * split_of M"
    "unat (total_inode_bitmap_blocks (mk_size M)) = inode_maps M" "unat (total_block_bitmap_blocks (mk_size M)) = block_maps M"
    "unat (total_inode_bitmap_blocks (mk_size M) + total_block_bitmap_blocks (mk_size M) + 1) = inode_maps M + block_maps M + 1"
proof -
  have b: "split_of M \<le> 256000" "inode_maps M \<le> 1000" "block_maps M \<le> 1000"
    using assms split_le(1) [of M] by (auto simp: inode_maps_def block_maps_def)
  show "unat (total_blocks (mk_size M)) = 1024 * M" "unat (total_inodes (mk_size M)) = 4 * split_of M"
    "unat (total_inode_bitmap_blocks (mk_size M)) = inode_maps M" "unat (total_block_bitmap_blocks (mk_size M)) = block_maps M"
    using b assms by (simp_all add: mk_size_def unat_word_of_nat_64 del: of_nat_mult)
  have e: "total_inode_bitmap_blocks (mk_size M) + total_block_bitmap_blocks (mk_size M) + 1 = word_of_nat (inode_maps M + block_maps M + 1)"
    by (simp add: mk_size_def)
  show "unat (total_inode_bitmap_blocks (mk_size M) + total_block_bitmap_blocks (mk_size M) + 1) = inode_maps M + block_maps M + 1"
    unfolding e using b by (intro unat_word_of_nat_64) simp
qed

lemma superblock_areas:
  assumes "M \<le> 8000"
  shows "s_inode_bitmap_pointers_start (mk_superblock (mk_size M) 0) = 1"
    "s_block_bitmap_pointers_start (mk_superblock (mk_size M) 0) = inode_maps M"
    "s_inode_start_pointer (mk_superblock (mk_size M) 0) = inode_maps M + block_maps M + 1"
    "s_block_start_pointer (mk_superblock (mk_size M) 0) = data_at M"
  using unat_mk_size [OF assms] by (simp_all add: mk_superblock_def Let_def data_at_def NUM_INODES_PER_BLOCK_def)

lemma length_superblock_block [simp]: "length (superblock_bytes b) = 1024"
  by (simp add: superblock_bytes_def)

text \<open>The buffer after each step: the superblock, and then the four areas that are cleared.\<close>

definition format_step :: "nat \<Rightarrow> nat \<Rightarrow> byte list \<Rightarrow> byte list" where
  "format_step b k m = overwrite m (b * 1024) (replicate (k * 1024) 0)"

definition formatted :: "nat \<Rightarrow> byte list \<Rightarrow> byte list" where
  "formatted M buf =
     format_step (data_at M) (1024 * M + data_at M) (format_step (inode_maps M + block_maps M + 1) (split_of M)
       (format_step (inode_maps M) (block_maps M) (format_step 1 (inode_maps M)
         (overwrite buf 0 (superblock_bytes (mk_superblock (mk_size M) 0))))))"

lemma length_format_step [simp]: "(b + k) * 1024 \<le> length m \<Longrightarrow> length (format_step b k m) = length m"
  by (simp add: format_step_def)

lemma zero_blocks_step: "(b + k) * 1024 \<le> length (disk_buffer s) \<Longrightarrow> mk_zero_blocks k b s = Inr (s\<lparr>disk_buffer := format_step b k (disk_buffer s)\<rparr>)"
  by (simp add: zero_blocks_eq format_step_def)

lemma window_format_step:
  "(b + k) * 1024 \<le> length m \<Longrightarrow> i * 1024 + 1024 \<le> length m \<Longrightarrow>
    window (format_step b k m) (i * 1024) 1024 = (if b \<le> i \<and> i < b + k then replicate 1024 0 else window m (i * 1024) 1024)"
  unfolding format_step_def by (rule img_of_zero)

lemma format_areas:
  assumes "4 \<le> M" and "length buf = M * 2 ^ 20 + M * 2 ^ 20 div 20"
  shows "1024 \<le> length buf" "(1 + inode_maps M) * 1024 \<le> length buf" "(inode_maps M + block_maps M) * 1024 \<le> length buf"
    "(inode_maps M + block_maps M + 1 + split_of M) * 1024 \<le> length buf" "(data_at M + (1024 * M + data_at M)) * 1024 \<le> length buf"
  using data_at_bound [OF assms(1), folded assms(2)] assms(1) by (simp_all add: data_at_def)

lemma mk_format_eq:
  assumes M: "4 \<le> M" "M \<le> 8000" and len: "length buf = M * 2 ^ 20 + M * 2 ^ 20 div 20"
  shows "mk_format (mk_size M) \<lparr>disk_buffer = buf, block_start = 0, inode_start = 0, block_bitmap_start = 0, inode_bitmap_start = 0\<rparr> =
    Inr \<lparr>disk_buffer = formatted M buf, block_start = data_at M, inode_start = inode_maps M + block_maps M + 1,
      block_bitmap_start = inode_maps M, inode_bitmap_start = 1\<rparr>"
  using format_areas [OF M(1) len] unat_mk_size [OF M(2)] superblock_areas [OF M(2)]
  by (simp add: mk_format_def Let_def mk_write_block_def put_disk_def zero_blocks_step formatted_def NUM_INODES_PER_BLOCK_def)

lemma window_formatted:
  assumes M: "4 \<le> M" and len: "length buf = M * 2 ^ 20 + M * 2 ^ 20 div 20" and i: "i < 1024 * M"
  shows "window (formatted M buf) (i * 1024) 1024 =
    (if i \<noteq> 0 \<and> i \<noteq> inode_maps M + block_maps M \<or> i = 0 \<and> inode_maps M = 0 \<and> 0 < block_maps M \<or> i \<noteq> 0 \<and> block_maps M = 0 then replicate 1024 0
     else window (overwrite buf 0 (superblock_bytes (mk_superblock (mk_size M) 0))) (i * 1024) 1024)"
proof -
  have l: "i * 1024 + 1024 \<le> length buf" using i len by simp
  define d0 where "d0 = overwrite buf 0 (superblock_bytes (mk_superblock (mk_size M) 0))"
  note B = format_areas [OF M len]
  have l0: "length d0 = length buf" using B(1) by (simp add: d0_def)
  have e: "window (format_step b k m) (i * 1024) 1024 = (if b \<le> i \<and> i < b + k then replicate 1024 0 else window m (i * 1024) 1024)"
      "length (format_step b k m) = length buf" if "(b + k) * 1024 \<le> length buf" "length m = length buf" for b k m
    using window_format_step [of b k m i] that l by simp_all
  have l1: "length (format_step 1 (inode_maps M) d0) = length buf" by (rule e(2) [OF B(2) l0])
  note l2 = e(2) [OF B(3) l1]
  note l3 = e(2) [OF B(4) l2]
  show ?thesis
    unfolding formatted_def d0_def [symmetric] e(1) [OF B(5) l3] e(1) [OF B(4) l2] e(1) [OF B(3) l1] e(1) [OF B(2) l0]
    using i by (cases "i = inode_maps M + block_maps M"; cases "i = 0") (auto simp: data_at_def)
qed

text \<open>C30: 
  Formatting an image of 4 to 8000 megabytes stays inside the buffer that \<^verbatim>\<open>main\<close> allocates and clears every block of the image except
  the one behind the block bitmap, which starts one block too early. For 9 to 81 megabytes there is no block of inode bitmap, so that the block
  bitmap starts at block 0 and the superblock is cleared with it; for all other sizes block 0 holds the superblock.
\<close>

theorem mkfs_format_layout:
  assumes M: "4 \<le> M" "M \<le> 8000" and len: "length buf = M * 2 ^ 20 + M * 2 ^ 20 div 20"
  shows "\<exists>z s'. mk_get_size_info (word_of_nat M) 1024 = Inr z \<and>
    mk_format z \<lparr>disk_buffer = buf, block_start = 0, inode_start = 0, block_bitmap_start = 0, inode_bitmap_start = 0\<rparr> = Inr s' \<and>
    length (disk_buffer s') = length buf \<and>
    img_of s' 0 = (if 9 \<le> M \<and> M \<le> 81 then replicate 1024 0 else superblock_bytes (mk_superblock z 0)) \<and>
    (\<forall>i. 0 < i \<and> i < 1024 * M \<and> i \<noteq> inode_maps M + block_maps M \<longrightarrow> img_of s' i = replicate 1024 0)"
proof -
  let ?f = "formatted M buf" and ?sb = "superblock_bytes (mk_superblock (mk_size M) 0)"
  have l: "length ?f = length buf" using format_areas [OF M(1) len] by (simp add: formatted_def)
  have "window (overwrite buf 0 ?sb) (0 * 1024) 1024 = ?sb" using format_areas(1) [OF M(1) len] by (simp add: window_overwrite_same)
  then have "window ?f (0 * 1024) 1024 = (if 9 \<le> M \<and> M \<le> 81 then replicate 1024 0 else ?sb)"
    using window_formatted [OF M(1) len, of 0] M maps_empty [of M] by (cases "M \<le> 8"; cases "M \<le> 81") simp_all
  moreover have "window ?f (i * 1024) 1024 = replicate 1024 0" if "0 < i" "i < 1024 * M" "i \<noteq> inode_maps M + block_maps M" for i
    using window_formatted [OF M(1) len that(2)] that(1,3) by simp
  ultimately show ?thesis
    using size_info_eq [of M] M l mk_format_eq [OF M len] by (intro exI [of _ "mk_size M"] exI) (auto simp: img_of_def)
qed

theorem mkfs_format_layout_witness:
  "\<exists>z s'. mk_get_size_info 250 1024 = Inr z \<and>
    mk_format z \<lparr>disk_buffer = replicate 275251200 170, block_start = 0, inode_start = 0, block_bitmap_start = 0, inode_bitmap_start = 0\<rparr> = Inr s' \<and>
    img_of s' 0 = superblock_bytes (mk_superblock z 0) \<and> img_of s' 2 = replicate 1024 0"
proof -
  have "inode_maps 250 + block_maps 250 = 33" by (simp add: inode_maps_def block_maps_def split_of_def)
  then show ?thesis using mkfs_format_layout [of 250 "replicate 275251200 170"] by fastforce
qed

section \<open>Indirect blocks\<close>

text \<open>No routine of the tool changes the pointer to the double indirect block.\<close>

lemma single_keeps_double:
  "mk_allocate_single_indirect_block i a n h b s = Inr (i', c, s') \<Longrightarrow> i_double_indirect i' = i_double_indirect i"
  by (auto simp: mk_allocate_single_indirect_block_def bindR_eq_Inr Let_def split: if_splits)

lemma double_loop_keeps_double:
  "mk_double_loop i n index a b buf s = Inr (i', buf', s') \<Longrightarrow> i_double_indirect i' = i_double_indirect i"
proof (induction n arbitrary: i index a b buf s rule: less_induct)
  case (less n)
  define q where "q = (if n < NUM_BLOCKS_IN_INDIRECTION_BLOCK then n else NUM_BLOCKS_IN_INDIRECTION_BLOCK)"
  show ?case
  proof (cases "0 < n")
    case True
    from less.prems [unfolded mk_double_loop.simps [of i n index a b buf s] Let_def q_def [symmetric]] True
    obtain i1 c s1 index1 b1 buf1 where "mk_allocate_single_indirect_block i a q True b s = Inr (i1, c, s1)"
      "mk_double_loop i1 (n - q) index1 0 b1 buf1 s1 = Inr (i', buf', s')"
      by (auto simp: bindR_eq_Inr split: if_splits)
    moreover have "n - q < n" using True by (simp add: q_def NUM_BLOCKS_IN_INDIRECTION_BLOCK_def)
    ultimately show ?thesis using less.IH single_keeps_double by metis
  next
    case False
    then show ?thesis using less.prems by (simp add: mk_double_loop.simps)
  qed
qed

lemma double_keeps_double:
  "mk_allocate_double_indirect_block i a n h b s = Inr (i', c, s') \<Longrightarrow> i_double_indirect i' = i_double_indirect i"
  by (auto simp: mk_allocate_double_indirect_block_def bindR_eq_Inr Let_def split: if_splits dest!: double_loop_keeps_double)

lemma triple_loop_keeps_double:
  "mk_triple_loop i n index a buf s = Inr (i', buf', s') \<Longrightarrow> i_double_indirect i' = i_double_indirect i"
proof (induction n arbitrary: i index a buf s rule: less_induct)
  case (less n)
  define q where "q = (if n < NUM_BLOCKS_DOUBLE_INDIRECTION then n else NUM_BLOCKS_DOUBLE_INDIRECTION)"
  show ?case
  proof (cases "0 < n")
    case True
    from less.prems [unfolded mk_triple_loop.simps [of i n index a buf s] Let_def q_def [symmetric]] True
    obtain i1 c s1 index1 buf1 where "mk_allocate_double_indirect_block i a q True 0 s = Inr (i1, c, s1)"
      "mk_triple_loop i1 (n - q) index1 0 buf1 s1 = Inr (i', buf', s')"
      by (auto simp: bindR_eq_Inr split: if_splits)
    moreover have "n - q < n" using True by (simp add: q_def NUM_BLOCKS_DOUBLE_INDIRECTION_def)
    ultimately show ?thesis using less.IH double_keeps_double by metis
  next
    case False
    then show ?thesis using less.prems by (simp add: mk_triple_loop.simps)
  qed
qed

lemma triple_keeps_double:
  "mk_allocate_triple_indirect_block i a n s = Inr (i', c, s') \<Longrightarrow> i_double_indirect i' = i_double_indirect i"
  by (auto simp: mk_allocate_triple_indirect_block_def bindR_eq_Inr Let_def split: if_splits dest!: triple_loop_keeps_double)

lemma direct_keeps_double:
  "mk_alloc_direct k j i n s = Inr (f, i', n', s') \<Longrightarrow> i_double_indirect i' = i_double_indirect i"
proof (induction k arbitrary: j i n s)
  case (Suc k)
  then show ?case by (fastforce simp: bindR_eq_Inr Let_def split: if_splits)
qed simp

lemma levels_keep_double:
  "mk_level_three i n s = Inr (i', n', s') \<Longrightarrow> i_double_indirect i' = i_double_indirect i"
  "mk_level_two i n s = Inr (i', n', s') \<Longrightarrow> i_double_indirect i' = i_double_indirect i"
  "mk_level_one i n s = Inr (i', n', s') \<Longrightarrow> i_double_indirect i' = i_double_indirect i"
proof -
  show three: "mk_level_three i n s = Inr (i', n', s') \<Longrightarrow> i_double_indirect i' = i_double_indirect i" for i n s
    by (auto simp: mk_level_three_def bindR_eq_Inr Let_def dest!: triple_keeps_double)
  show two: "mk_level_two i n s = Inr (i', n', s') \<Longrightarrow> i_double_indirect i' = i_double_indirect i" for i n s
    by (auto simp: mk_level_two_def bindR_eq_Inr Let_def split: if_splits dest!: double_keeps_double three)
  show "mk_level_one i n s = Inr (i', n', s') \<Longrightarrow> i_double_indirect i' = i_double_indirect i"
    by (auto simp: mk_level_one_def bindR_eq_Inr Let_def split: if_splits dest!: single_keeps_double two)
qed

lemma allocate_keeps_double:
  "mk_inode_allocate_new_blocks i n s = Inr (r, i', s') \<Longrightarrow> i_double_indirect i' = i_double_indirect i"
  by (auto simp: mk_inode_allocate_new_blocks_def bindR_eq_Inr Let_def split: if_splits dest!: levels_keep_double direct_keeps_double)

lemma write_read_inode_same:
  assumes "mk_write_inode i s = Inr s'" and "wf_inode i"
  shows "mk_read_inode (unat (i_inode_number i)) s' = Inr i"
  using assms by (auto simp: mk_write_inode_def mk_read_inode_def put_disk_def get_disk_def INODE_TO_BYTE_OFFSET_def
      window_overwrite_same bytes_inode_inode_bytes split: if_splits)

lemma first_block_keeps_double:
  assumes "mk_first_block i s = Inr (i', s')" and "wf_inode i"
  shows "i_double_indirect i' = i_double_indirect i"
proof (cases "i_size i = 0")
  case True
  with assms(1) obtain b s1 s2 where "mk_write_inode (i\<lparr>i_block_count := i_block_count i + 1, i_blocks := (i_blocks i)[0 := b]\<rparr>) s1 = Inr s2"
    "mk_read_inode (unat (i_inode_number i)) s2 = Inr i'"
    by (auto simp: mk_first_block_def bindR_eq_Inr Let_def)
  from write_read_inode_same [OF this(1)] this(2) assms(2) show ?thesis by (auto simp: wf_inode_def)
next
  case False
  with assms(1) show ?thesis by (simp add: mk_first_block_def)
qed

lemma grow_keeps_double:
  "mk_grow_file e i s = Inr (i', s') \<Longrightarrow> i_double_indirect i' = i_double_indirect i"
  by (auto simp: mk_grow_file_def bindR_eq_Inr split: if_splits dest!: allocate_keeps_double)

text \<open>An image of eight blocks with the root directory, which is inode 0.\<close>

definition demo_mkfs :: mkfs where
  "demo_mkfs = \<lparr>disk_buffer = (replicate 8192 0)[1024 := 1], block_start = 4, inode_start = 3, block_bitmap_start = 2, inode_bitmap_start = 1\<rparr>"

lemma demo_mkfs_fields:
  "length (disk_buffer demo_mkfs) = 8192" "block_start demo_mkfs = 4" "inode_start demo_mkfs = 3" "block_bitmap_start demo_mkfs = 2"
  "inode_bitmap_start demo_mkfs = 1"
  by (simp_all add: demo_mkfs_def)

lemma demo_mkfs_ok: "mk_ok demo_mkfs"
  by (simp add: mk_ok_def demo_mkfs_fields)

lemma bytes_zero_inode: "bytes_inode (replicate 256 0) = zero_inode"
  by code_simp

lemma demo_root: "inodes (mk_view demo_mkfs) 0 = zero_inode"
proof -
  have "img_of demo_mkfs 3 = replicate 1024 0"
    using window_list_update_other [of 3 "replicate 8192 (0 :: byte)" 1024 1] by (simp add: img_of_def demo_mkfs_def window_def)
  then have "window (img_of demo_mkfs 3) 0 256 = replicate 256 0" by (simp add: window_def)
  then show ?thesis using bytes_zero_inode by (simp add: mk_view_def view_def mk_area_def demo_mkfs_fields)
qed

lemma demo_mkfs_bits:
  "first_free (drop (1024 * inode_bitmap_start demo_mkfs) (disk_buffer demo_mkfs)) 1"
  "first_free (drop (1024 * block_bitmap_start demo_mkfs) (disk_buffer demo_mkfs)) 0"
  by (simp_all add: first_free_def buf_bit_def demo_mkfs_def bit_1_iff)

text \<open>
  A file that the tool writes never gets a double indirect block: the blocks behind the first 138 of a file are looked up through data block 0.
\<close>

theorem mkfs_no_double_indirect:
  assumes i: "wf_inode i" "i_double_indirect i = 0" and w: "mk_write_bytes_to_inode i buf bs off n s = Inr (r, i', s')"
    and k: "138 \<le> k" "k < 16522"
  shows "i_double_indirect i' = 0 \<and> mk_get_relative_block_number_from_file i' k t =
    bindR (mk_read_pointer 0 ((k - 138) div 128) t) (\<lambda>b. mk_read_pointer b ((k - 138) mod 128) t)"
proof -
  have "i_double_indirect i' = 0"
    using w i by (auto simp: mk_write_bytes_to_inode_def bindR_eq_Inr Let_def split: if_splits dest!: first_block_keeps_double grow_keeps_double)
  then show ?thesis
    using k by (simp add: mk_get_relative_block_number_from_file_def diosfs_indirection_indices_for_block_number_def diosfs_constants Let_def)
qed

theorem mkfs_no_double_indirect_witness:
  "\<exists>r i' s'. mk_write_bytes_to_inode (zero_inode\<lparr>i_type := 1, i_inode_number := 1, i_size := 3, i_block_count := 1\<rparr>) [1, 2, 3] 3 0 3 demo_mkfs = Inr (r, i', s') \<and>
    i_double_indirect i' = 0"
proof -
  let ?i = "zero_inode\<lparr>i_type := 1, i_inode_number := 1, i_size := 3, i_block_count := 1\<rparr>" and ?s = demo_mkfs
  have wf: "wf_inode ?i" by (simp add: wf_inode_def zero_inode_def)
  have z: "i_blocks zero_inode = replicate 10 0" "i_double_indirect zero_inode = 0" "i_parent_inode_number zero_inode = 0" by (simp_all add: zero_inode_def)
  obtain d1 where d1: "mk_write_block_by_number 0 ([1, 2, 3] @ []) 0 (length [1, 2, 3 :: byte]) ?s = Inr (?s\<lparr>disk_buffer := d1\<rparr>)" "length d1 = length (disk_buffer ?s)"
    "mk_view (?s\<lparr>disk_buffer := d1\<rparr>) = (mk_view ?s)\<lparr>blocks := (blocks (mk_view ?s))(0 := overwrite (blocks (mk_view ?s) 0) 0 [1, 2, 3])\<rparr>"
    by (rule mk_write_block_ok [OF demo_mkfs_ok, of 0 0 "[1, 2, 3]" "[]"]) (simp_all add: demo_mkfs_fields)
  let ?t = "?s\<lparr>disk_buffer := d1\<rparr>"
  have okt: "mk_ok ?t" using d1(2) by (simp add: mk_ok_def demo_mkfs_fields)
  have ni: "unat (i_inode_number ?i) < 4 * (block_start ?t - inode_start ?t)" by (simp add: demo_mkfs_fields)
  obtain d2 where d2: "mk_write_inode ?i ?t = Inr (?t\<lparr>disk_buffer := d2\<rparr>)" "length d2 = length (disk_buffer ?t)"
    "mk_view (?t\<lparr>disk_buffer := d2\<rparr>) = (mk_view ?t)\<lparr>inodes := (inodes (mk_view ?t))(unat (i_inode_number ?i) := ?i)\<rparr>"
    by (rule mk_write_inode_ok [OF okt wf ni])
  let ?u = "?s\<lparr>disk_buffer := d2\<rparr>"
  have oku: "mk_ok ?u" using d1(2) d2(2) by (simp add: mk_ok_def demo_mkfs_fields)
  have r: "mk_read_inode 1 ?u = Inr ?i" "mk_read_inode 0 ?u = Inr zero_inode"
    using mk_read_inode_ok [OF oku, of 1] mk_read_inode_ok [OF oku, of 0] d2(3) d1(3) demo_root by (simp_all add: demo_mkfs_fields)
  have "mk_find_directory_entry_and_update 1 0 ?u = Inr (DIOSFS_SUCCESS, ?u)"
    using r mk_read_block_ok(1) [OF oku, of 0 1024] d1(2) d2(2)
    by (simp add: mk_find_directory_entry_and_update_def z demo_mkfs_fields) (simp add: zero_inode_def numeral_eq_Suc)
  moreover have "mk_write_block_by_number 0 [1, 2, 3] 0 3 ?s = Inr (?s\<lparr>disk_buffer := d1\<rparr>)" using d1(1) by (simp add: numeral_3_eq_3)
  ultimately have w: "mk_write_bytes_to_inode ?i [1, 2, 3] 3 0 3 ?s = Inr (DIOSFS_SUCCESS, ?i, ?u)"
    using d2(1) by (simp add: mk_write_bytes_to_inode_def mk_first_block_def mk_grow_file_def Let_def z
        mk_get_relative_block_number_from_file_def diosfs_indirection_indices_for_block_number_def diosfs_constants)
  show ?thesis using mkfs_no_double_indirect [OF wf _ w, of 138 ?u] w z by auto
qed

section \<open>An image on a RAM disk\<close>

text \<open>Listing a directory does not depend on the fields of the superblock that describe the bitmaps and the sizes.\<close>

lemma read_dir_blocks_superblock:
  assumes "s_block_size A = s_block_size B" "s_block_start_pointer A = s_block_start_pointer B"
  shows "read_dir_blocks (fsc\<lparr>fs_superblock := A\<rparr>) bs sz cs buf ch d = read_dir_blocks (fsc\<lparr>fs_superblock := B\<rparr>) bs sz cs buf ch d"
  by (induction bs arbitrary: buf ch) (auto simp: assms diosfs_read_block_by_number_def dirents_per_block_def intro!: bindR_cong)

lemma directory_entries_superblock:
  assumes "s_block_size A = s_block_size B" "s_block_start_pointer A = s_block_start_pointer B" "s_inode_start_pointer A = s_inode_start_pointer B"
  shows "diosfs_get_directory_entries (fsc\<lparr>fs_superblock := A\<rparr>) n cs d = diosfs_get_directory_entries (fsc\<lparr>fs_superblock := B\<rparr>) n cs d"
  using assms by (auto simp: diosfs_get_directory_entries_def diosfs_read_inode_def read_dir_blocks_superblock [OF assms(1,2)] intro!: bindR_cong)

lemma dir_list_cong:
  assumes "wf_inode p" and "dir_blocks_ok nb p" and "\<And>i. i < nb \<Longrightarrow> blocks v i = blocks w i"
  shows "dir_list v p = dir_list w p"
proof (rule nth_equalityI)
  have sz: "unat (i_size p) \<le> 70" using assms(2) by (simp add: dir_blocks_ok_def)
  then show "length (dir_list v p) = length (dir_list w p)" using assms(1) by (simp add: length_dir_list)
  fix k assume "k < length (dir_list v p)"
  then have k: "k < unat (i_size p)" using sz assms(1) by (simp add: length_dir_list)
  then have "k div 7 \<le> unat (i_size p) div 7" by (simp add: div_le_mono)
  then have "unat (i_blocks p ! (k div 7)) < nb" using assms(2) by (simp add: dir_blocks_ok_def)
  then show "dir_list v p ! k = dir_list w p ! k" using assms(1,3) sz k by (simp add: nth_dir_list)
qed

text \<open>A context of the kernel for the areas of an image, and a RAM disk that holds the first \<open>nblk\<close> blocks of it.\<close>

definition reads_image :: "ramdisk list diosfs_filesystem_context \<Rightarrow> ramdisk_device \<Rightarrow> mkfs \<Rightarrow> nat \<Rightarrow> bool" where
  "reads_image fsc device s nblk \<longleftrightarrow> fs_ops fsc = ramdisk_ops device \<and> (\<forall>n. n \<le> length (fs_kmalloc fsc n)) \<and>
     s_block_size (fs_superblock fsc) = 1024 \<and> s_inode_start_pointer (fs_superblock fsc) = inode_start s \<and>
     s_block_start_pointer (fs_superblock fsc) = block_start s \<and> block_start s \<le> nblk \<and> nblk \<le> length (disk_buffer s) div 1024"

definition holds_image :: "ramdisk_device \<Rightarrow> ramdisk list \<Rightarrow> mkfs \<Rightarrow> nat \<Rightarrow> bool" where
  "holds_image device rds s nblk \<longleftrightarrow> rd_ok device 1024 nblk rds \<and> rd_mem device rds = take (nblk * 1024) (disk_buffer s)"

lemma kernel_lists_image:
  assumes ok: "mk_ok t" and fs: "reads_image fsc device t nblk" and rds: "holds_image device rds t nblk"
    and K: "K < 4 * (block_start t - inode_start t)" "inodes (mk_view t) K = p" "i_type p = DIOSFS_DIRECTORY" "dir_blocks_ok (nblk - block_start t) p"
    and cs: "unat (i_block_count p) * 1024 \<le> cs" "144 * unat (i_size p) \<le> cs"
  shows "diosfs_get_directory_entries fsc K cs rds = Inr (DIOSFS_SUCCESS, dir_list (mk_view t) p)"
proof -
  let ?A = "(mk_area t)\<lparr>s_num_blocks := nblk - block_start t\<rparr>" let ?f = "fsc\<lparr>fs_superblock := ?A\<rparr>"
  have A: "s_block_size ?A = 1024" "s_inode_start_pointer ?A = inode_start t" "s_block_start_pointer ?A = block_start t"
    "s_num_inodes ?A = 4 * (block_start t - inode_start t)" "s_num_blocks ?A = nblk - block_start t" by (simp_all add: mk_area_def)
  have o: "inode_start t \<le> block_start t" "block_start t \<le> nblk" "nblk \<le> length (disk_buffer t) div 1024"
    using ok fs by (simp_all add: mk_ok_def reads_image_def)
  have okf: "dios_ok ?f device nblk rds"
    using ok fs rds by (auto simp: dios_ok_def volume_ok_def layout_ok_def reads_image_def holds_image_def mk_ok_def mk_area_def PAGE_SIZE_def)
  have w: "rd_blk device 1024 rds i = img_of t i" if "i < nblk" for i
  proof -
    have "i * 1024 + 1024 \<le> nblk * 1024" using that by linarith
    then show ?thesis using rds by (simp add: holds_image_def rd_blk_def img_of_def window_def drop_take min_absorb1)
  qed
  let ?v = "view ?A (rd_blk device 1024 rds)"
  have "K div 4 < block_start t - inode_start t" using K(1) by (simp add: div_less_iff_less_mult)
  then have "inode_start t + K div 4 < nblk" using o by linarith
  then have iv: "inodes ?v K = p" using K(1,2) A w by (simp add: view_def mk_view_def mk_area_def)
  have bv: "blocks ?v i = blocks (mk_view t) i" if "i < nblk - block_start t" for i
  proof -
    have "i < length (disk_buffer t) div 1024 - block_start t" using that o(3) by linarith
    then show ?thesis using that w A by (simp add: view_def mk_view_def mk_area_def)
  qed
  have wf: "wf_inode p" using dios.wf_inodes [OF okf, of K] iv by simp
  have "diosfs_get_directory_entries ?f K cs rds = Inr (DIOSFS_SUCCESS, dir_list ?v p)"
    using dios.get_directory_entries_ok [OF okf, of K cs] K A iv cs by (simp add: DiosFS_Layout.VNODE_DIRECTORY_def)
  moreover have "diosfs_get_directory_entries ?f K cs rds = diosfs_get_directory_entries (fsc\<lparr>fs_superblock := fs_superblock fsc\<rparr>) K cs rds"
    using fs A by (intro directory_entries_superblock) (simp_all add: reads_image_def)
  moreover have "dir_list ?v p = dir_list (mk_view t) p" by (rule dir_list_cong [OF wf K(4) bv])
  ultimately show ?thesis by simp
qed

text \<open>C4: 
  A file or directory that the tool creates in a directory with fewer than 69 entries gets the first free inode, and a kernel that reads the image
  from a RAM disk lists the entries that were there before, in order, and then the new one, also when the directory needs a new block.
\<close>

theorem mkfs_created_file_listed:
  assumes ok: "mk_ok s" "inode_bitmap_start s < block_bitmap_start s" "inode_bitmap_start s < inode_start s"
    and q: "unat (i_inode_number q) = K"
    and K: "K < 4 * (block_start s - inode_start s)" "inodes (mk_view s) K = p" "unat (i_inode_number p) = K" "i_type p = DIOSFS_DIRECTORY"
    and sz: "unat (i_size p) < 69" "unat (i_block_count p) < 10" "i_block_count p = 0 \<longrightarrow> i_size p = 0" and wf: "wf_inode p"
    and b: "next_block s p b" "\<forall>k < unat (i_size p) div 7. unat (i_blocks p ! k) \<noteq> b"
    and n: "first_free (drop (1024 * inode_bitmap_start s) (disk_buffer s)) n" "n < 8192" "n < 4 * (block_start s - inode_start s)" "n \<noteq> K"
    and x: "0 \<notin> set x" "length x < 128"
    and fs: "reads_image fsc device s nblk" "dir_blocks_ok (nblk - block_start s) ((with_block p b)\<lparr>i_size := i_size p + 1\<rparr>)"
  shows "\<exists>p' s'. mk_create q (x @ [0]) ty s = Inr (n, p', s') \<and> length (disk_buffer s') = length (disk_buffer s) \<and> mk_read_inode n s' = Inr (new_inode n K x ty) \<and>
    (\<forall>rds. holds_image device rds s' nblk \<longrightarrow>
      diosfs_get_directory_entries fsc K 10240 rds = Inr (DIOSFS_SUCCESS, dir_list (mk_view s) p @ [new_entry n K x ty]))"
proof -
  let ?p' = "(with_block p b)\<lparr>i_size := i_size p + 1\<rparr>" and ?e = "new_entry n K x ty"
  have s70: "unat (i_size p) < 70" using sz(1) by simp
  obtain d where d: "mk_create q (x @ [0]) ty s = Inr (n, ?p', s\<lparr>disk_buffer := d\<rparr>)" "length d = length (disk_buffer s)"
    "inodes (mk_view (s\<lparr>disk_buffer := d\<rparr>)) = (inodes (mk_view s))(n := new_inode n K x ty, K := ?p')"
    "blocks (mk_view (s\<lparr>disk_buffer := d\<rparr>)) = (blocks (mk_view s))(b := put_dirent (blocks (mk_view s) b) (unat (i_size p) mod 7) ?e)"
    by (rule mk_create_ok [OF ok q K(1-3) s70 wf b(1) n x])
  let ?t = "s\<lparr>disk_buffer := d\<rparr>"
  have okt: "mk_ok ?t" using ok(1) d(2) by (simp add: mk_ok_def)
  have bl: "length (blocks (mk_view s) b) = 1024" using b(1) by (intro mk_read_block_ok(2) [OF ok(1)]) (simp add: next_block_def)
  have e: "wf_dirent ?e" using x(2) by (simp add: new_entry_def wf_dirent_def)
  have dist: "\<forall>k < unat (i_size (with_block p b)) div 7. unat (i_blocks (with_block p b) ! k) \<noteq> b" using b(2) by (simp add: with_block_other)
  have "dir_list (mk_view ?t) ?p' = dir_list (mk_view s) (with_block p b) @ [?e]"
    using dir_list_append [of "with_block p b" _ b "mk_view s" ?e "mk_view ?t"] wf s70 with_block_slot [OF b(1) wf s70] dist bl e d(4) by simp
  then have l: "dir_list (mk_view ?t) ?p' = dir_list (mk_view s) p @ [?e]" using dir_list_with_block [OF wf s70 sz(3)] by simp
  have "mk_read_inode n ?t = Inr (new_inode n K x ty)" using mk_read_inode_ok [OF okt, of n] n(3,4) d(3) by simp
  moreover have "diosfs_get_directory_entries fsc K 10240 rds = Inr (DIOSFS_SUCCESS, dir_list (mk_view s) p @ [?e])"
    if "holds_image device rds ?t nblk" for rds
  proof -
    have "unat (i_block_count p + 1) \<le> 10" using sz(2) by (simp add: unat_word_ariths)
    then have "unat (i_block_count ?p') * 1024 \<le> 10240" using sz(2) by (simp add: with_block_def)
    moreover have "144 * unat (i_size ?p') \<le> 10240" using sz(1) unat_inc_32 [OF s70] by simp
    moreover have "reads_image fsc device ?t nblk" using fs(1) d(2) by (simp add: reads_image_def)
    ultimately show ?thesis
      using kernel_lists_image [OF okt _ that, of fsc K ?p' 10240] K d(3) fs(2) l by simp
  qed
  ultimately show ?thesis using d(1,2) by force
qed

definition demo_reader :: "ramdisk list diosfs_filesystem_context" where
  "demo_reader = \<lparr>fs_superblock = mk_area demo_mkfs, fs_ops = ramdisk_ops demo_device, fs_kmalloc = (\<lambda>n. replicate n 170), fs_device_minor = 0\<rparr>"

theorem mkfs_created_file_listed_witness:
  "\<exists>p' s'. mk_create zero_inode [97, 0] 1 demo_mkfs = Inr (1, p', s') \<and>
    diosfs_get_directory_entries demo_reader 0 10240
      [\<lparr>ramdisk_start = Some (disk_buffer s'), ramdisk_end = 8192, ramdisk_size_pages = 2, rd_block_size = 1024\<rparr>] =
      Inr (DIOSFS_SUCCESS, [new_entry 1 0 [97] 1])"
proof -
  have z: "i_size zero_inode = 0" "i_block_count zero_inode = 0" "i_inode_number zero_inode = 0" "i_type zero_inode = 0"
    "i_blocks zero_inode = replicate 10 0" by (simp_all add: zero_inode_def)
  have nb: "next_block demo_mkfs zero_inode 0" using demo_mkfs_bits(2) z by (simp add: next_block_def needs_block_def demo_mkfs_fields)
  have ri: "reads_image demo_reader demo_device demo_mkfs 8"
    by (simp add: reads_image_def demo_reader_def mk_area_def demo_mkfs_fields)
  have db: "dir_blocks_ok (8 - block_start demo_mkfs) ((with_block zero_inode 0)\<lparr>i_size := i_size zero_inode + 1\<rparr>)"
    by (simp add: dir_blocks_ok_def with_block_def needs_block_def z demo_mkfs_fields)
  have e: "dir_list (mk_view demo_mkfs) zero_inode = []" by (simp add: dir_list_def z)
  obtain p' s' where c: "mk_create zero_inode ([97] @ [0]) 1 demo_mkfs = Inr (1, p', s')" "length (disk_buffer s') = 8192"
    "\<forall>rds. holds_image demo_device rds s' 8 \<longrightarrow>
      diosfs_get_directory_entries demo_reader 0 10240 rds = Inr (DIOSFS_SUCCESS, [] @ [new_entry 1 0 [97] 1])"
    using mkfs_created_file_listed [OF demo_mkfs_ok _ _ _ _ demo_root _ _ _ _ _ wf_zero_inode nb _ demo_mkfs_bits(1) _ _ _ _ _ ri db, of zero_inode "[97]" 1] e z
    by (auto simp: demo_mkfs_fields)
  have "holds_image demo_device [\<lparr>ramdisk_start = Some (disk_buffer s'), ramdisk_end = 8192, ramdisk_size_pages = 2, rd_block_size = 1024\<rparr>] s' 8"
    using c(2) by (simp add: holds_image_def rd_ok_def rd_mem_def demo_device_def PAGE_SIZE_def)
  then show ?thesis using c by auto
qed

end
