(* ===== verification/Framebuffer.thy ===== *)
theory Framebuffer
  imports Locks
begin

text \<open>
  The text console of \<^verbatim>\<open>drivers/display/framebuffer.c\<close>: drawing of characters into the memory of the framebuffer,
  scrolling, the cursor and clearing. The glyphs, the table \<^verbatim>\<open>default_font.data\<close> of \<^verbatim>\<open>drivers/display/font.c\<close>, are an argument.
\<close>

section \<open>State\<close>

record text_mode_context =
  current_x_pos :: "64 word"
  current_y_pos :: "64 word"

text \<open>\<open>fb_memory\<close> are the bytes from \<^verbatim>\<open>address\<close> on that belong to the framebuffer.\<close>

record framebuffer =
  fb_memory :: "byte list"
  fb_height :: "64 word"
  fb_width :: "64 word"
  fb_pitch :: "64 word"
  font_height :: "64 word"
  font_width :: "64 word"
  fb_context :: text_mode_context
  fb_lock :: spinlock

abbreviation (input) x_pos :: "framebuffer \<Rightarrow> 64 word" where "x_pos fb \<equiv> current_x_pos (fb_context fb)"
abbreviation (input) y_pos :: "framebuffer \<Rightarrow> 64 word" where "y_pos fb \<equiv> current_y_pos (fb_context fb)"

abbreviation (input) BLACK :: "32 word" where "BLACK \<equiv> 0x000000"
abbreviation (input) WHITE :: "32 word" where "WHITE \<equiv> 0xFFFFFF"
abbreviation (input) RED :: "32 word" where "RED \<equiv> 0xFF0000"
abbreviation (input) GREEN :: "32 word" where "GREEN \<equiv> 0x00FF00"
abbreviation (input) YELLOW :: "32 word" where "YELLOW \<equiv> 0xFFFF00"
abbreviation (input) ORANGE :: "32 word" where "ORANGE \<equiv> 0xFFA500"

definition move_cursor :: "64 word \<Rightarrow> 64 word \<Rightarrow> framebuffer \<Rightarrow> framebuffer" where
  "move_cursor x y fb = fb\<lparr>fb_context := \<lparr>current_x_pos = x, current_y_pos = y\<rparr>\<rparr>"

section \<open>Characters\<close>

text \<open>The assignment \<^verbatim>\<open>framebuffer[index] = color\<close> to a 32-bit pixel.\<close>

definition set_pixel :: "64 word \<Rightarrow> 64 word \<Rightarrow> 32 word \<Rightarrow> framebuffer \<Rightarrow> framebuffer res" where
  "set_pixel px py color fb =
     (let p = 4 * unat (py * (fb_pitch fb div 4) + px) in
      if p + 4 \<le> length (fb_memory fb) then Inr (fb\<lparr>fb_memory := overwrite (fb_memory fb) p (word_bytes color)\<rparr>)
      else Inl OutOfBounds)"

text \<open>
  The test \<^verbatim>\<open>bitmap[cy] & BIT(font_width - 1 - cx)\<close> on the bitmap of \<open>c\<close>. A shift by 64 or more bits is undefined in C
  and is not modelled.
\<close>

definition glyph_bit :: "byte list \<Rightarrow> byte \<Rightarrow> 64 word \<Rightarrow> 64 word \<Rightarrow> framebuffer \<Rightarrow> bool res" where
  "glyph_bit glyphs c cy cx fb =
     (let i = unat (ucast c * font_height fb) + unat cy; n = unat (font_width fb - 1 - cx) in
      if length glyphs \<le> i then Inl OutOfBounds
      else if 64 \<le> n then Inl Unmodelled
      else Inr (ucast (glyphs ! i) AND push_bit n (1 :: 64 word) \<noteq> 0))"

definition counter :: "64 word \<Rightarrow> 64 word list" where
  "counter n = map word_of_nat [0..<unat n]"

text \<open>
  The two nested loops over the bitmap; \<open>outside\<close> is what happens to a pixel outside the framebuffer:
  \<^verbatim>\<open>draw_char\<close> panics, \<^verbatim>\<open>draw_char_with_context\<close> drops it.
\<close>

definition draw_bit :: "(framebuffer \<Rightarrow> framebuffer res) \<Rightarrow> byte list \<Rightarrow> byte \<Rightarrow> 64 word \<Rightarrow> 64 word \<Rightarrow> 32 word \<Rightarrow>
    64 word \<Rightarrow> 64 word \<Rightarrow> framebuffer \<Rightarrow> framebuffer res" where
  "draw_bit outside glyphs c x y color cy cx fb =
     bindR (glyph_bit glyphs c cy cx fb) (\<lambda>b.
       if b then
         let px = x + cx; py = y + cy in
         if px < fb_width fb \<and> py < fb_height fb then set_pixel px py color fb else outside fb
       else Inr fb)"

definition draw_bitmap :: "(framebuffer \<Rightarrow> framebuffer res) \<Rightarrow> byte list \<Rightarrow> byte \<Rightarrow> 64 word \<Rightarrow> 64 word \<Rightarrow> 32 word \<Rightarrow>
    framebuffer \<Rightarrow> framebuffer res" where
  "draw_bitmap outside glyphs c x y color fb =
     fold_res (\<lambda>cy. fold_res (draw_bit outside glyphs c x y color cy) (counter (font_width fb))) (counter (font_height fb)) fb"

definition draw_char :: "byte list \<Rightarrow> byte \<Rightarrow> 64 word \<Rightarrow> 64 word \<Rightarrow> 32 word \<Rightarrow> framebuffer \<Rightarrow> framebuffer res" where
  "draw_char glyphs c x y color fb =
     (if c \<ge> 255 then Inr fb
      else draw_bitmap (\<lambda>_. Inl (Panic ''draw_char: can't draw char'')) glyphs c x y color fb)"

definition reset_x_value :: "framebuffer \<Rightarrow> framebuffer" where
  "reset_x_value fb = move_cursor 0 (y_pos fb + font_height fb) fb"

definition scroll_framebuffer :: "framebuffer \<Rightarrow> framebuffer res" where
  "scroll_framebuffer fb =
     (let rows_size = fb_pitch fb * (fb_height fb - font_height fb); row_size = fb_pitch fb * font_height fb in
      bindR (memcpy (fb_memory fb) 0 (unat row_size) (unat rows_size)) (\<lambda>mem.
      bindR (memset mem (unat rows_size) 0 (unat row_size)) (\<lambda>mem.
      Inr (move_cursor 0 (fb_height fb - font_height fb) (fb\<lparr>fb_memory := mem\<rparr>)))))"

definition draw_char_with_context :: "byte list \<Rightarrow> byte \<Rightarrow> 32 word \<Rightarrow> framebuffer \<Rightarrow> framebuffer res" where
  "draw_char_with_context glyphs c color fb =
     (if c \<ge> 255 then Inr fb
      else if c = 10 then Inr (move_cursor 0 (y_pos fb + font_height fb) fb)
      else
        let fb = (if x_pos fb \<ge> fb_width fb then reset_x_value fb else fb) in
        bindR (if y_pos fb \<ge> fb_height fb then scroll_framebuffer fb else Inr fb) (\<lambda>fb.
        bindR (draw_bitmap Inr glyphs c (x_pos fb) (y_pos fb) color fb) (\<lambda>fb.
        Inr (move_cursor (x_pos fb + font_width fb) (y_pos fb) fb))))"

text \<open>\<^verbatim>\<open>draw_string\<close> takes the color as a 64-bit integer and passes its low 32 bits on.\<close>

fun fb_draw_string :: "byte list \<Rightarrow> 64 word \<Rightarrow> byte list \<Rightarrow> framebuffer \<Rightarrow> framebuffer res" where
  "fb_draw_string glyphs color [] fb = Inl OutOfBounds"
| "fb_draw_string glyphs color (c # str) fb =
     (if c = 0 then Inr fb
      else bindR (draw_char_with_context glyphs c (ucast color) fb) (fb_draw_string glyphs color str))"

section \<open>Cursor and clearing\<close>

definition draw_cursor_box :: "32 word \<Rightarrow> framebuffer \<Rightarrow> framebuffer res" where
  "draw_cursor_box color fb =
     (let cy = font_height fb - 1 in
      if cy < font_height fb then
        fold_res (\<lambda>cx fb. set_pixel (x_pos fb + cx) (y_pos fb + cy) color fb) (counter (font_width fb)) fb
      else Inr fb)"

text \<open>The processor sleeps between the drawings, which changes neither the framebuffer nor the lock.\<close>

definition current_pos_cursor :: "addr \<Rightarrow> framebuffer \<times> bool \<Rightarrow> (framebuffer \<times> bool) res" where
  "current_pos_cursor me = (\<lambda>(fb, irq).
     case try_lock me (fb_lock fb, irq) of (ok, l, irq) \<Rightarrow>
       let fb = fb\<lparr>fb_lock := l\<rparr> in
       if \<not> ok then Inr (fb, irq)
       else
         let fb = (if x_pos fb \<ge> fb_width fb then reset_x_value fb else fb) in
         bindR (if y_pos fb \<ge> fb_height fb then scroll_framebuffer fb else Inr fb) (\<lambda>fb.
         bindR (fold_res (\<lambda>_ fb. bindR (draw_cursor_box WHITE fb) (draw_cursor_box BLACK)) [0..<3] fb) (\<lambda>fb.
         case release_spinlock (fb_lock fb, irq) of (l, irq) \<Rightarrow> Inr (fb\<lparr>fb_lock := l\<rparr>, irq))))"

text \<open>\<open>None\<close> is a run that does not end; \<^verbatim>\<open>(uint32_t *) fb->address + y\<close> is \<open>4 * y\<close> bytes after the start.\<close>

partial_function (option) clear_loop :: "64 word \<Rightarrow> framebuffer \<Rightarrow> framebuffer res option" where
  "clear_loop y fb =
     (if y < fb_height fb then
        case memset (fb_memory fb) (4 * unat y) 0 (unat (fb_width fb * fb_pitch fb)) of
          Inl e \<Rightarrow> Some (Inl e)
        | Inr mem \<Rightarrow> clear_loop (y + font_height fb * fb_pitch fb) (fb\<lparr>fb_memory := mem\<rparr>)
      else Some (Inr fb))"

definition clear :: "framebuffer \<Rightarrow> framebuffer res option" where
  "clear fb = (case clear_loop 0 fb of None \<Rightarrow> None | Some r \<Rightarrow> Some (bindR r (\<lambda>fb. Inr (move_cursor 0 0 fb))))"

section \<open>Device operations\<close>

text \<open>The operations of the device table act on the framebuffer that \<^verbatim>\<open>device_info\<close> of the device points to.\<close>

definition fb_ops_draw_char :: "byte list \<Rightarrow> byte \<Rightarrow> 32 word \<Rightarrow> framebuffer \<Rightarrow> framebuffer res" where
  "fb_ops_draw_char glyphs c color fb = draw_char_with_context glyphs c color fb"

definition fb_ops_draw_string :: "byte list \<Rightarrow> 32 word \<Rightarrow> byte list \<Rightarrow> framebuffer \<Rightarrow> framebuffer res" where
  "fb_ops_draw_string glyphs color str fb = fb_draw_string glyphs (ucast color) str fb"

definition fb_ops_clear :: "framebuffer \<Rightarrow> framebuffer res option" where
  "fb_ops_clear fb = clear fb"

text \<open>The write operation panics before anything else.\<close>

definition framebuffer_write :: "addr \<Rightarrow> 64 word \<Rightarrow> byte list \<Rightarrow> 64 word \<Rightarrow> framebuffer \<Rightarrow> (framebuffer \<times> int) res" where
  "framebuffer_write vnode offset buffer bytes fb = Inl (Panic (''HERE'' @ [CHR 10]))"

text \<open>The fields that the entry point \<^verbatim>\<open>_start\<close> sets from the answer of the boot loader and the font.\<close>

definition start_framebuffer :: "byte list \<Rightarrow> 64 word \<Rightarrow> 64 word \<Rightarrow> 64 word \<Rightarrow> 32 word \<Rightarrow> 32 word \<Rightarrow> framebuffer \<Rightarrow> framebuffer" where
  "start_framebuffer mem pitch width height fheight fwidth fb =
     move_cursor 0 0 (fb\<lparr>fb_memory := mem, fb_pitch := pitch, fb_width := width, fb_height := height,
       font_height := ucast fheight, font_width := ucast fwidth\<rparr>)"

end
