(* ===== verification/Framebuffer_Drawing.thy ===== *)
theory Framebuffer_Drawing
  imports Framebuffer
begin

text \<open>
  What the drawing routines of the console do to the pixels: which pixels a character paints, that no character
  writes outside the memory of the framebuffer, how scrolling moves the lines, and where the cursor and
  \<^verbatim>\<open>clear\<close> leave the framebuffer.
\<close>

lemma fold_res_map: "fold_res f (map g xs) s = fold_res (\<lambda>x. f (g x)) xs s"
  by (induction xs arbitrary: s) (simp_all add: bindR_def split: sum.splits)

section \<open>Geometry and pixels\<close>

text \<open>
  The geometry a framebuffer has in the kernel: its memory is \<open>height\<close> lines of \<open>pitch\<close> bytes, a line holds
  \<open>width\<close> pixels of four bytes, and the font has 256 glyphs that are no taller than the framebuffer.
\<close>

definition fb_ok :: "byte list \<Rightarrow> framebuffer \<Rightarrow> bool" where
  "fb_ok glyphs fb \<longleftrightarrow>
     length (fb_memory fb) = unat (fb_pitch fb) * unat (fb_height fb) \<and> length (fb_memory fb) < 2 ^ 64 \<and>
     4 * unat (fb_width fb) \<le> unat (fb_pitch fb) \<and> font_height fb \<le> fb_height fb \<and> font_width fb \<le> 64 \<and>
     256 * unat (font_height fb) \<le> length glyphs \<and> length glyphs < 2 ^ 64"

definition same_geometry :: "framebuffer \<Rightarrow> framebuffer \<Rightarrow> bool" where
  "same_geometry fb fb' \<longleftrightarrow>
     length (fb_memory fb') = length (fb_memory fb) \<and> fb_height fb' = fb_height fb \<and> fb_width fb' = fb_width fb \<and>
     fb_pitch fb' = fb_pitch fb \<and> font_height fb' = font_height fb \<and> font_width fb' = font_width fb \<and> fb_lock fb' = fb_lock fb"

definition offset :: "framebuffer \<Rightarrow> nat \<Rightarrow> nat \<Rightarrow> nat" where
  "offset fb a b = 4 * (b * (unat (fb_pitch fb) div 4) + a)"

definition pixel :: "framebuffer \<Rightarrow> nat \<Rightarrow> nat \<Rightarrow> 32 word" where
  "pixel fb a b = bytes_word (window (fb_memory fb) (offset fb a b) 4)"

lemma same_geometry_refl [simp]: "same_geometry fb fb"
  by (simp add: same_geometry_def)

lemma same_geometry_trans: "same_geometry fb fb' \<Longrightarrow> same_geometry fb' fb'' \<Longrightarrow> same_geometry fb fb''"
  by (simp add: same_geometry_def)

lemma same_geometry_fb_ok: "same_geometry fb fb' \<Longrightarrow> fb_ok glyphs fb \<Longrightarrow> fb_ok glyphs fb'"
  by (simp add: same_geometry_def fb_ok_def)

lemma same_geometry_move_cursor [simp]: "same_geometry fb (move_cursor x y fb') \<longleftrightarrow> same_geometry fb fb'"
  by (simp add: same_geometry_def move_cursor_def)

lemma fb_ok_move_cursor [simp]: "fb_ok glyphs (move_cursor x y fb) \<longleftrightarrow> fb_ok glyphs fb"
  by (simp add: fb_ok_def move_cursor_def)

lemma move_cursor_sel [simp]:
  "fb_memory (move_cursor x y fb) = fb_memory fb" "fb_height (move_cursor x y fb) = fb_height fb"
  "fb_width (move_cursor x y fb) = fb_width fb" "fb_pitch (move_cursor x y fb) = fb_pitch fb"
  "font_height (move_cursor x y fb) = font_height fb" "font_width (move_cursor x y fb) = font_width fb"
  "x_pos (move_cursor x y fb) = x" "y_pos (move_cursor x y fb) = y" "fb_lock (move_cursor x y fb) = fb_lock fb"
  by (simp_all add: move_cursor_def)

lemma pixel_move_cursor [simp]: "pixel (move_cursor x y fb) a b = pixel fb a b"
  by (simp add: pixel_def offset_def)

lemma offset_bound:
  assumes "fb_ok glyphs fb" "a < unat (fb_width fb)" "b < unat (fb_height fb)"
  shows "offset fb a b + 4 \<le> length (fb_memory fb)"
proof -
  let ?p = "unat (fb_pitch fb)"
  have "4 * (?p div 4) * b \<le> ?p * b" by (intro mult_right_mono) auto
  moreover have "?p * b + ?p \<le> ?p * unat (fb_height fb)"
    using assms(3) by (metis Suc_leI mult_Suc_right add.commute mult_le_mono2)
  moreover have "offset fb a b = 4 * (?p div 4) * b + 4 * a" by (simp add: offset_def)
  moreover have "length (fb_memory fb) = ?p * unat (fb_height fb)" "4 * unat (fb_width fb) \<le> ?p"
    using assms(1) by (simp_all add: fb_ok_def)
  ultimately show ?thesis using assms(2) by linarith
qed

lemma unat_index:
  assumes "fb_ok glyphs fb" "px < fb_width fb" "py < fb_height fb"
  shows "4 * unat (py * (fb_pitch fb div 4) + px) = offset fb (unat px) (unat py)"
proof -
  have "offset fb (unat px) (unat py) + 4 \<le> length (fb_memory fb)"
    using assms by (intro offset_bound [OF assms(1)]) (simp_all add: word_less_nat_alt)
  then have b: "unat py * (unat (fb_pitch fb) div 4) + unat px < 2 ^ 64"
    using assms(1) by (simp add: fb_ok_def offset_def)
  then have "unat (py * (fb_pitch fb div 4)) = unat py * (unat (fb_pitch fb) div 4)"
    by (subst unat_mult_lem [THEN iffD1]) (simp_all add: unat_div)
  with b have "unat (py * (fb_pitch fb div 4) + px) = unat py * (unat (fb_pitch fb) div 4) + unat px"
    by (subst unat_add_lem [THEN iffD1]) simp_all
  then show ?thesis by (simp add: offset_def)
qed

section \<open>Painting\<close>

text \<open>\<open>paints color S fb fb'\<close>: the pixels of \<open>S\<close> have got the color, the other pixels are the old ones.\<close>

definition paints :: "32 word \<Rightarrow> (nat \<times> nat) set \<Rightarrow> framebuffer \<Rightarrow> framebuffer \<Rightarrow> bool" where
  "paints color S fb fb' \<longleftrightarrow> same_geometry fb fb' \<and> fb_context fb' = fb_context fb \<and>
     (\<forall>a < unat (fb_width fb). \<forall>b < unat (fb_height fb). pixel fb' a b = (if (a, b) \<in> S then color else pixel fb a b))"

lemma paints_empty [simp]: "paints color {} fb fb"
  by (simp add: paints_def)

lemma paints_same_geometry: "paints color S fb fb' \<Longrightarrow> same_geometry fb fb'"
  by (simp add: paints_def)

lemma paints_trans:
  assumes "paints color S fb fb'" "paints color T fb' fb''"
  shows "paints color (S \<union> T) fb fb''"
  using assms same_geometry_trans [of fb fb' fb''] by (auto simp: paints_def same_geometry_def)

lemma line_offsets_apart:
  assumes "4 * w \<le> p" "a < w" "a' < w" "(a, b) \<noteq> (a', b')"
  shows "4 * (b * (p div 4) + a) + 4 \<le> 4 * (b' * (p div 4) + a') \<or> 4 * (b' * (p div 4) + a') + 4 \<le> 4 * (b * (p div 4) + (a :: nat))"
proof -
  define q where "q = p div 4"
  have q: "w \<le> q" using assms(1) by (simp add: q_def)
  consider "b < b'" | "b' < b" | "b = b'" by linarith
  then show ?thesis
  proof cases
    case 1
    then have "b * q + q \<le> b' * q" by (metis Suc_leI mult_Suc add.commute mult_le_mono1)
    then have "b * q + a + 1 \<le> b' * q + a'" using q assms(2) by linarith
    then show ?thesis unfolding q_def [symmetric] by simp
  next
    case 2
    then have "b' * q + q \<le> b * q" by (metis Suc_leI mult_Suc add.commute mult_le_mono1)
    then have "b' * q + a' + 1 \<le> b * q + a" using q assms(3) by linarith
    then show ?thesis unfolding q_def [symmetric] by simp
  next
    case 3
    then show ?thesis using assms(4) by auto
  qed
qed

lemma set_pixel_paints:
  assumes "fb_ok glyphs fb" "px < fb_width fb" "py < fb_height fb"
  shows "\<exists>fb'. set_pixel px py color fb = Inr fb' \<and> paints color {(unat px, unat py)} fb fb'"
proof -
  let ?p = "offset fb (unat px) (unat py)"
  let ?fb = "fb\<lparr>fb_memory := overwrite (fb_memory fb) ?p (word_bytes color)\<rparr>"
  have px: "unat px < unat (fb_width fb)" "unat py < unat (fb_height fb)"
    using assms(2,3) by (simp_all add: word_less_nat_alt)
  have b: "?p + 4 \<le> length (fb_memory fb)" by (rule offset_bound [OF assms(1) px])
  have "pixel ?fb a b = (if (a, b) = (unat px, unat py) then color else pixel fb a b)"
    if ab: "a < unat (fb_width fb)" "b < unat (fb_height fb)" for a b
  proof (cases "(a, b) = (unat px, unat py)")
    case True
    with b show ?thesis
      by (simp add: pixel_def offset_def window_overwrite_same bytes_word_word_bytes)
  next
    case False
    have "4 * unat (fb_width fb) \<le> unat (fb_pitch fb)" using assms(1) by (simp add: fb_ok_def)
    from line_offsets_apart [OF this ab(1) px(1) False]
    have "window (overwrite (fb_memory fb) ?p (word_bytes color)) (offset fb a b) 4 = window (fb_memory fb) (offset fb a b) 4"
      using b offset_bound [OF assms(1) ab] by (intro window_overwrite_other) (auto simp: offset_def)
    with False show ?thesis by (auto simp: pixel_def offset_def)
  qed
  then have "paints color {(unat px, unat py)} fb ?fb"
    using b by (simp add: paints_def same_geometry_def)
  moreover have "set_pixel px py color fb = Inr ?fb"
    using b unat_index [OF assms] by (simp add: set_pixel_def)
  ultimately show ?thesis by blast
qed

lemma fold_paints:
  assumes "\<And>x fb'. x \<in> set xs \<Longrightarrow> same_geometry fb fb' \<Longrightarrow> \<exists>fb''. f x fb' = Inr fb'' \<and> paints color (S x) fb' fb''"
  shows "\<exists>fb'. fold_res f xs fb = Inr fb' \<and> paints color (\<Union>x \<in> set xs. S x) fb fb'"
  using assms
proof (induction xs arbitrary: fb)
  case Nil
  then show ?case by simp
next
  case (Cons x xs)
  obtain fb1 where 1: "f x fb = Inr fb1" "paints color (S x) fb fb1"
    using Cons.prems [of x fb] by auto
  have g: "same_geometry fb fb1" using 1(2) by (rule paints_same_geometry)
  obtain fb2 where 2: "fold_res f xs fb1 = Inr fb2" "paints color (\<Union>x \<in> set xs. S x) fb1 fb2"
    using Cons.IH [of fb1] Cons.prems same_geometry_trans [OF g] by (meson list.set_intros(2))
  with 1 show ?case using paints_trans [OF 1(2) 2(2)] by auto
qed

section \<open>Glyphs\<close>

definition lit :: "byte list \<Rightarrow> framebuffer \<Rightarrow> byte \<Rightarrow> nat \<Rightarrow> nat \<Rightarrow> bool" where
  "lit glyphs fb c cx cy = bit (glyphs ! (unat c * unat (font_height fb) + cy)) (unat (font_width fb) - 1 - cx)"

text \<open>The pixel that a set bit of the bitmap paints, if it is inside the framebuffer.\<close>

definition dot :: "byte list \<Rightarrow> framebuffer \<Rightarrow> byte \<Rightarrow> 64 word \<Rightarrow> 64 word \<Rightarrow> nat \<Rightarrow> nat \<Rightarrow> (nat \<times> nat) set" where
  "dot glyphs fb c x y cx cy =
     (if lit glyphs fb c cx cy \<and> x + word_of_nat cx < fb_width fb \<and> y + word_of_nat cy < fb_height fb
      then {(unat (x + word_of_nat cx), unat (y + word_of_nat cy))} else {})"

lemma dot_same_geometry: "same_geometry fb fb' \<Longrightarrow> dot glyphs fb' c x y cx cy = dot glyphs fb c x y cx cy"
  by (simp add: dot_def lit_def same_geometry_def)

lemma unat_lt_64: "unat (w :: 64 word) < 2 ^ 64"
  using unsigned_less [of w] by simp

lemma unat_word_of_nat_below: "n < unat (w :: 64 word) \<Longrightarrow> unat (word_of_nat n :: 64 word) = n"
  using less_trans [OF _ unat_lt_64] by (simp add: unat_of_nat)

lemma unat_ucast_byte: "unat (ucast (c :: byte) :: 64 word) = unat c"
  using unat_byte_less [of c] by (simp add: unsigned_ucast_eq take_bit_nat_eq_self)

lemma glyph_bit_lit:
  assumes "fb_ok glyphs fb" "cx < unat (font_width fb)" "cy < unat (font_height fb)"
  shows "glyph_bit glyphs c (word_of_nat cy) (word_of_nat cx) fb = Inr (lit glyphs fb c cx cy)"
proof -
  let ?h = "unat (font_height fb)" and ?w = "unat (font_width fb)"
  note un = unat_word_of_nat_below [OF assms(2)] unat_word_of_nat_below [OF assms(3)]
  have gl: "256 * ?h \<le> length glyphs" "length glyphs < 2 ^ 64" "?w \<le> 64"
    using assms(1) by (simp_all add: fb_ok_def word_le_nat_alt)
  have "unat c * ?h + cy < (unat c + 1) * ?h" using assms(3) by simp
  also have "\<dots> \<le> 256 * ?h" using unat_byte_less [of c] by (intro mult_right_mono) auto
  finally have i: "unat c * ?h + cy < 256 * ?h" .
  then have "unat (ucast c * font_height fb) = unat c * ?h"
    using gl by (subst unat_mult_lem [THEN iffD1]) (simp_all add: unat_ucast_byte)
  moreover have "unat (font_width fb - 1 - word_of_nat cx) = ?w - 1 - cx"
  proof -
    have "(1 :: 64 word) \<le> font_width fb" using assms(2) by (simp add: word_le_nat_alt)
    then have 1: "unat (font_width fb - 1) = ?w - 1" by (simp add: unat_sub)
    then have "word_of_nat cx \<le> font_width fb - 1" using assms(2) un by (simp add: word_le_nat_alt)
    then show ?thesis using 1 un by (simp add: unat_sub)
  qed
  moreover have "(ucast g AND push_bit n (1 :: 64 word) \<noteq> 0) = bit g n" if "n < 64" for g :: byte and n
    using that by (simp add: push_bit_eq_mult and_exp_eq_0_iff_not_bit bit_ucast_iff)
  ultimately show ?thesis
    using i gl un assms(2) by (auto simp: glyph_bit_def lit_def Let_def)
qed

lemma draw_bit_paints:
  assumes "fb_ok glyphs fb" "cx < unat (font_width fb)" "cy < unat (font_height fb)"
  shows "\<exists>fb'. draw_bit Inr glyphs c x y color (word_of_nat cy) (word_of_nat cx) fb = Inr fb' \<and>
    paints color (dot glyphs fb c x y cx cy) fb fb'"
  using glyph_bit_lit [OF assms] set_pixel_paints [OF assms(1), of "x + word_of_nat cx" "y + word_of_nat cy" color]
  by (auto simp: draw_bit_def dot_def)

lemma draw_bitmap_paints:
  assumes "fb_ok glyphs fb"
  shows "\<exists>fb'. draw_bitmap Inr glyphs c x y color fb = Inr fb' \<and>
    paints color (\<Union>cy < unat (font_height fb). \<Union>cx < unat (font_width fb). dot glyphs fb c x y cx cy) fb fb'"
proof -
  define line where "line cy = fold_res (draw_bit Inr glyphs c x y color (word_of_nat cy)) (counter (font_width fb))" for cy
  have line: "\<exists>fb''. line cy fb' = Inr fb'' \<and> paints color (\<Union>cx < unat (font_width fb). dot glyphs fb c x y cx cy) fb' fb''"
    if g: "same_geometry fb fb'" and cy: "cy < unat (font_height fb)" for cy fb'
  proof -
    have "\<exists>fb''. fold_res (\<lambda>cx. draw_bit Inr glyphs c x y color (word_of_nat cy) (word_of_nat cx)) [0..<unat (font_width fb)] fb' =
        Inr fb'' \<and> paints color (\<Union>cx \<in> set [0..<unat (font_width fb)]. dot glyphs fb c x y cx cy) fb' fb''"
    proof (rule fold_paints)
      fix cx fb1 assume cx: "cx \<in> set [0..<unat (font_width fb)]" and "same_geometry fb' fb1"
      then have g1: "same_geometry fb fb1" using g by (blast intro: same_geometry_trans)
      then have "fb_ok glyphs fb1" using assms by (rule same_geometry_fb_ok)
      then show "\<exists>fb''. draw_bit Inr glyphs c x y color (word_of_nat cy) (word_of_nat cx) fb1 = Inr fb'' \<and>
          paints color (dot glyphs fb c x y cx cy) fb1 fb''"
        using draw_bit_paints [of glyphs fb1 cx cy c x y color] cx cy g1
        by (simp add: dot_same_geometry [OF g1]) (simp add: same_geometry_def)
    qed
    then show ?thesis by (simp add: line_def counter_def fold_res_map lessThan_atLeast0)
  qed
  have "\<exists>fb'. fold_res line [0..<unat (font_height fb)] fb = Inr fb' \<and>
      paints color (\<Union>cy \<in> set [0..<unat (font_height fb)]. \<Union>cx < unat (font_width fb). dot glyphs fb c x y cx cy) fb fb'"
    by (rule fold_paints) (auto intro: line)
  then show ?thesis
    by (simp add: draw_bitmap_def counter_def [of "font_height fb"] fold_res_map line_def [symmetric] lessThan_atLeast0)
qed

lemma shift_coordinate:
  fixes x :: "64 word"
  assumes "unat x + n < 2 ^ 64"
  shows "unat (x + word_of_nat n) = unat x + n"
  using assms by (simp add: unat_word_ariths unat_of_nat)

text \<open>The pixels of the bitmap of \<open>c\<close> at \<open>(x, y)\<close>, when the corner is inside the framebuffer.\<close>

lemma bitmap_dots:
  assumes "fb_ok glyphs fb" "x < fb_width fb" "y < fb_height fb" "a < unat (fb_width fb)" "b < unat (fb_height fb)"
  shows "(a, b) \<in> (\<Union>cy < unat (font_height fb). \<Union>cx < unat (font_width fb). dot glyphs fb c x y cx cy) \<longleftrightarrow>
    unat x \<le> a \<and> a < unat x + unat (font_width fb) \<and> unat y \<le> b \<and> b < unat y + unat (font_height fb) \<and>
    lit glyphs fb c (a - unat x) (b - unat y)"
proof -
  have w: "4 * unat (fb_width fb) \<le> unat (fb_pitch fb)" "unat (font_width fb) \<le> 64" "unat (font_height fb) \<le> unat (fb_height fb)"
    using assms(1) by (simp_all add: fb_ok_def word_le_nat_alt)
  have xy: "unat x < unat (fb_width fb)" "unat y < unat (fb_height fb)"
    using assms(2,3) by (simp_all add: word_less_nat_alt)
  have "4 \<le> unat (fb_pitch fb)" using w(1) xy(1) by linarith
  then have "4 * unat (fb_height fb) \<le> unat (fb_pitch fb) * unat (fb_height fb)" by (intro mult_right_mono) auto
  moreover have "unat (fb_pitch fb) * unat (fb_height fb) < 2 ^ 64" using assms(1) by (simp add: fb_ok_def)
  ultimately have h: "4 * unat (fb_height fb) < 2 ^ 64" by linarith
  have p: "4 * unat (fb_width fb) < 2 ^ 64" using w(1) unat_lt_64 [of "fb_pitch fb"] by linarith
  have sx: "unat (x + word_of_nat cx) = unat x + cx" if "cx < unat (font_width fb)" for cx
    using that w(2) xy(1) p by (intro shift_coordinate) simp
  have sy: "unat (y + word_of_nat cy) = unat y + cy" if "cy < unat (font_height fb)" for cy
    using that w(3) xy(2) h by (intro shift_coordinate) simp
  show ?thesis (is "?l \<longleftrightarrow> ?r")
  proof
    assume ?l
    then show ?r by (auto simp: dot_def sx sy split: if_splits)
  next
    assume r: ?r
    then have lt: "a - unat x < unat (font_width fb)" "b - unat y < unat (font_height fb)" by auto
    with r assms(4,5) have "(a, b) \<in> dot glyphs fb c x y (a - unat x) (b - unat y)"
      by (simp add: dot_def sx sy word_less_nat_alt unat_word_of_nat_below [OF assms(4)] unat_word_of_nat_below [OF assms(5)])
    with lt show ?l by blast
  qed
qed

section \<open>Scrolling\<close>

lemma le_nat_replicate_0: "le_nat (replicate n 0) = 0"
  by (induction n) simp_all

lemma memcpy_self: "d + n \<le> length mem \<Longrightarrow> memcpy mem d d n = Inr mem"
proof -
  have "d + i + k \<le> length mem \<Longrightarrow> copy_up k i mem d d = Inr mem" for i k
    by (induction k arbitrary: i) simp_all
  then show "d + n \<le> length mem \<Longrightarrow> memcpy mem d d n = Inr mem" by (simp add: memcpy_def)
qed

lemma scroll_eq:
  assumes "fb_ok glyphs fb"
  shows "scroll_framebuffer fb = Inr (move_cursor 0 (fb_height fb - font_height fb) (fb\<lparr>fb_memory :=
    drop (unat (fb_pitch fb) * unat (font_height fb)) (fb_memory fb) @ replicate (unat (fb_pitch fb) * unat (font_height fb)) 0\<rparr>))"
proof -
  let ?p = "unat (fb_pitch fb)" and ?h = "unat (fb_height fb)" and ?f = "unat (font_height fb)" and ?m = "fb_memory fb"
  have g: "length ?m = ?p * ?h" "length ?m < 2 ^ 64" "?f \<le> ?h" using assms by (simp_all add: fb_ok_def word_le_nat_alt)
  have le: "?p * ?f \<le> length ?m" "?p * (?h - ?f) \<le> length ?m" using g(1,3) by simp_all
  have sub: "unat (fb_height fb - font_height fb) = ?h - ?f" using assms by (simp add: unat_sub fb_ok_def)
  have r1: "unat (fb_pitch fb * font_height fb) = ?p * ?f"
    using le g(2) by (subst unat_mult_lem [THEN iffD1]) simp_all
  have r2: "unat (fb_pitch fb * (fb_height fb - font_height fb)) = ?p * (?h - ?f)"
    using le g(2) by (subst unat_mult_lem [THEN iffD1]) (simp_all add: sub)
  have sum: "?p * ?f + ?p * (?h - ?f) = length ?m" using g(1,3) by (simp add: distrib_left [symmetric])
  define u where "u = ?p * ?f"
  define v where "v = ?p * (?h - ?f)"
  have len: "u + v = length ?m" using sum by (simp add: u_def v_def)
  have "memcpy ?m 0 u v = Inr (overwrite ?m 0 (window ?m u v))"
  proof (cases "u = 0")
    case True
    then have "overwrite ?m 0 (window ?m 0 v) = ?m" using len by (simp add: overwrite_def window_def)
    with True len show ?thesis by (simp add: memcpy_self)
  next
    case False
    with len show ?thesis by (intro memcpy_eq) simp_all
  qed
  moreover have "overwrite ?m 0 (window ?m u v) = drop u ?m @ drop v ?m"
    using len [symmetric] by (simp add: overwrite_def window_def)
  moreover have "memset (drop u ?m @ drop v ?m) v 0 u = Inr (drop u ?m @ replicate u 0)"
    using len by (subst memset_eq) (auto simp: overwrite_def)
  ultimately show ?thesis
    by (simp add: scroll_framebuffer_def r1 r2 u_def [symmetric] v_def [symmetric])
qed

lemma scroll_geometry:
  assumes "fb_ok glyphs fb"
  obtains fb' where "scroll_framebuffer fb = Inr fb'" "same_geometry fb fb'"
    "x_pos fb' = 0" "y_pos fb' = fb_height fb - font_height fb"
proof
  have "unat (fb_pitch fb) * unat (font_height fb) \<le> length (fb_memory fb)"
    using assms by (simp add: fb_ok_def word_le_nat_alt)
  then show "same_geometry fb (move_cursor 0 (fb_height fb - font_height fb) (fb\<lparr>fb_memory :=
    drop (unat (fb_pitch fb) * unat (font_height fb)) (fb_memory fb) @ replicate (unat (fb_pitch fb) * unat (font_height fb)) 0\<rparr>))"
    unfolding same_geometry_move_cursor by (simp add: same_geometry_def)
qed (use scroll_eq [OF assms] in simp_all)

lemma draw_char_with_context_ok:
  assumes "fb_ok glyphs fb"
  shows "\<exists>fb'. draw_char_with_context glyphs c color fb = Inr fb' \<and> same_geometry fb fb'"
proof -
  have draw: "\<exists>fb'. bindR (draw_bitmap Inr glyphs c (x_pos fb1) (y_pos fb1) color fb1)
      (\<lambda>fb. Inr (move_cursor (x_pos fb + font_width fb) (y_pos fb) fb)) = Inr fb' \<and> same_geometry fb fb'"
    if g: "same_geometry fb fb1" for fb1
    using draw_bitmap_paints [OF same_geometry_fb_ok [OF g assms], of c "x_pos fb1" "y_pos fb1" color]
    by (auto dest!: paints_same_geometry intro: same_geometry_trans [OF g])
  define fb1 where "fb1 = (if x_pos fb \<ge> fb_width fb then reset_x_value fb else fb)"
  have g1: "same_geometry fb fb1" by (simp add: fb1_def reset_x_value_def)
  obtain fb2 where "(if y_pos fb1 \<ge> fb_height fb1 then scroll_framebuffer fb1 else Inr fb1) = Inr fb2" "same_geometry fb fb2"
    using scroll_geometry [OF same_geometry_fb_ok [OF g1 assms]] same_geometry_trans [OF g1] g1 by metis
  with draw show ?thesis
    unfolding draw_char_with_context_def Let_def fb1_def [symmetric] by simp
qed

section \<open>Properties\<close>

text \<open>C28: 
  Whatever character is drawn, at whatever position of the cursor, the console writes only to the memory of the framebuffer and
  returns, and its geometry and its lock are the same afterwards; so a terminated string is always drawn.
\<close>

theorem console_keeps_geometry:
  assumes "fb_ok glyphs fb" "0 \<notin> set s"
  shows "\<exists>fb'. fb_draw_string glyphs color (s @ 0 # r) fb = Inr fb' \<and> same_geometry fb fb' \<and> fb_ok glyphs fb'"
  using assms
proof (induction s arbitrary: fb)
  case Nil
  then show ?case by simp
next
  case (Cons c s)
  obtain fb1 where 1: "draw_char_with_context glyphs c (ucast color) fb = Inr fb1" "same_geometry fb fb1"
    using draw_char_with_context_ok [OF Cons.prems(1)] by blast
  with Cons show ?case
    using same_geometry_trans [OF 1(2)] same_geometry_fb_ok [OF 1(2)] by fastforce
qed

text \<open>C27: 
  A character other than a newline that is drawn with the cursor inside the framebuffer paints exactly the set bits of its glyph that are inside
  the framebuffer, leaves every other pixel, and moves the cursor by one cell.
\<close>

theorem draw_char_paints_glyph:
  assumes "fb_ok glyphs fb" "c < 255" "c \<noteq> 10" "x_pos fb < fb_width fb" "y_pos fb < fb_height fb"
  shows "\<exists>fb'. draw_char_with_context glyphs c color fb = Inr fb' \<and>
    x_pos fb' = x_pos fb + font_width fb \<and> y_pos fb' = y_pos fb \<and>
    (\<forall>a < unat (fb_width fb). \<forall>b < unat (fb_height fb). pixel fb' a b =
       (if unat (x_pos fb) \<le> a \<and> a < unat (x_pos fb) + unat (font_width fb) \<and>
           unat (y_pos fb) \<le> b \<and> b < unat (y_pos fb) + unat (font_height fb) \<and>
           bit (glyphs ! (unat c * unat (font_height fb) + (b - unat (y_pos fb)))) (unat (font_width fb) - 1 - (a - unat (x_pos fb)))
        then color else pixel fb a b))"
proof -
  obtain fb1 where 1: "draw_bitmap Inr glyphs c (x_pos fb) (y_pos fb) color fb = Inr fb1"
    "paints color (\<Union>cy < unat (font_height fb). \<Union>cx < unat (font_width fb). dot glyphs fb c (x_pos fb) (y_pos fb) cx cy) fb fb1"
    using draw_bitmap_paints [OF assms(1)] by blast
  have "draw_char_with_context glyphs c color fb = Inr (move_cursor (x_pos fb1 + font_width fb1) (y_pos fb1) fb1)"
    using 1(1) assms(2,4,5) [THEN not_le [THEN iffD2]] assms(3) by (simp add: draw_char_with_context_def)
  moreover have "fb_context fb1 = fb_context fb" "font_width fb1 = font_width fb"
    using 1(2) by (simp_all add: paints_def same_geometry_def)
  ultimately show ?thesis
    using 1(2) bitmap_dots [OF assms(1,4,5)] by (auto simp: paints_def lit_def)
qed

text \<open>
  Scrolling moves every line of pixels up by the height of a character, fills the freed lines with black and puts the cursor at the start
  of the last line of text.
\<close>

theorem scroll_moves_lines:
  assumes "fb_ok glyphs fb" "4 dvd unat (fb_pitch fb)"
  shows "\<exists>fb'. scroll_framebuffer fb = Inr fb' \<and> x_pos fb' = 0 \<and> y_pos fb' = fb_height fb - font_height fb \<and>
    (\<forall>a < unat (fb_width fb). \<forall>b < unat (fb_height fb). pixel fb' a b =
       (if b < unat (fb_height fb) - unat (font_height fb) then pixel fb a (b + unat (font_height fb)) else 0))"
proof -
  let ?p = "unat (fb_pitch fb)" and ?f = "unat (font_height fb)" and ?h = "unat (fb_height fb)" and ?m = "fb_memory fb"
  obtain q where q: "?p = 4 * q" using assms(2) by (auto elim: dvdE)
  have len: "length ?m = ?p * ?h" "?f \<le> ?h" "unat (fb_width fb) \<le> q" using assms(1) q by (simp_all add: fb_ok_def word_le_nat_alt)
  have "window (drop (?p * ?f) ?m @ replicate (?p * ?f) 0) (offset fb a b) 4 =
      (if b < ?h - ?f then window ?m (offset fb a (b + ?f)) 4 else replicate 4 0)"
    if a: "a < unat (fb_width fb)" and b: "b < ?h" for a b
  proof -
    have o: "offset fb a b = 4 * (b * q + a)" "offset fb a (b + ?f) = 4 * (b * q + a) + ?p * ?f"
      using q by (simp_all add: offset_def algebra_simps)
    have aq: "a < q" using a len(3) by simp
    show ?thesis
    proof (cases "b < ?h - ?f")
      case True
      then have "(b + 1) * q \<le> (?h - ?f) * q" by (intro mult_right_mono) auto
      then have "4 * (b * q + a) + 4 \<le> length (drop (?p * ?f) ?m)"
        using aq len(1) q by (simp add: algebra_simps)
      with True show ?thesis unfolding o by (simp add: window_def add.commute)
    next
      case False
      have "(?h - ?f) * q \<le> b * q" using False by (intro mult_right_mono) auto
      then have 1: "length (drop (?p * ?f) ?m) \<le> 4 * (b * q + a)" using len(1) q by (simp add: algebra_simps)
      have "(b + 1) * q \<le> ?h * q" using b by (intro mult_right_mono) auto
      then have 2: "4 * (b * q + a) + 4 \<le> ?p * ?h" using aq q by (simp add: algebra_simps)
      show ?thesis unfolding o using False 1 2 len
        by (simp add: window_def drop_append min_def)
    qed
  qed
  then show ?thesis
    using scroll_eq [OF assms(1)] by (auto simp: pixel_def offset_def bytes_word_def le_nat_replicate_0)
qed

text \<open>
  \<^verbatim>\<open>clear\<close> sets \<open>width\<close> times \<open>pitch\<close> bytes where the framebuffer has \<open>height\<close> times \<open>pitch\<close>: on a framebuffer that is wider
  than high it writes past the end of the memory.
\<close>

theorem clear_overruns:
  assumes "fb_ok glyphs fb" "0 < fb_height fb" "fb_height fb < fb_width fb" "unat (fb_width fb) * unat (fb_pitch fb) < 2 ^ 64"
  shows "clear fb = Some (Inl OutOfBounds)"
proof -
  let ?p = "unat (fb_pitch fb)"
  have w: "unat (fb_width fb * fb_pitch fb) = unat (fb_width fb) * ?p"
    using assms(4) by (subst unat_mult_lem [THEN iffD1]) simp_all
  have lt: "unat (fb_height fb) < unat (fb_width fb)" using assms(3) by (simp add: word_less_nat_alt)
  then have "0 < ?p" using assms(1) by (simp add: fb_ok_def)
  with lt have "length (fb_memory fb) < unat (fb_width fb) * ?p"
    using assms(1) by (simp add: fb_ok_def mult.commute)
  then have "memset (fb_memory fb) 0 0 (unat (fb_width fb * fb_pitch fb)) = Inl OutOfBounds"
    using w by (simp add: memset_overrun)
  with assms(2) show ?thesis by (simp add: clear_def clear_loop.simps [of 0])
qed

text \<open>On a framebuffer that is higher than wide it clears only the first \<open>width\<close> lines.\<close>

theorem clear_first_lines:
  assumes "fb_ok glyphs fb" "0 < fb_height fb" "fb_width fb \<le> fb_height fb"
    "unat (fb_height fb) \<le> unat (font_height fb) * unat (fb_pitch fb)"
  shows "\<exists>fb'. clear fb = Some (Inr fb') \<and> x_pos fb' = 0 \<and> y_pos fb' = 0 \<and> same_geometry fb fb' \<and>
    fb_memory fb' = replicate (unat (fb_width fb) * unat (fb_pitch fb)) 0 @ drop (unat (fb_width fb) * unat (fb_pitch fb)) (fb_memory fb)"
proof -
  let ?p = "unat (fb_pitch fb)" and ?n = "unat (fb_width fb) * unat (fb_pitch fb)" and ?m = "fb_memory fb"
  let ?mem = "replicate ?n 0 @ drop ?n ?m" and ?y = "font_height fb * fb_pitch fb"
  have g: "length ?m = ?p * unat (fb_height fb)" "length ?m < 2 ^ 64" "unat (font_height fb) \<le> unat (fb_height fb)"
    using assms(1) by (simp_all add: fb_ok_def word_le_nat_alt)
  have n: "?n \<le> length ?m" using assms(3) g(1) by (simp add: word_le_nat_alt)
  then have w: "unat (fb_width fb * fb_pitch fb) = ?n"
    using g(2) by (subst unat_mult_lem [THEN iffD1]) simp_all
  have "unat (font_height fb) * ?p \<le> length ?m" using g(1,3) by (simp add: mult.commute)
  then have "unat ?y = unat (font_height fb) * ?p"
    using g(2) by (subst unat_mult_lem [THEN iffD1]) simp_all
  then have y: "\<not> ?y < fb_height fb" using assms(4) by (simp add: word_less_nat_alt)
  have "memset ?m 0 0 (unat (fb_width fb * fb_pitch fb)) = Inr ?mem"
    using w n by (simp add: memset_eq overwrite_def)
  with assms(2) y have "clear_loop 0 fb = Some (Inr (fb\<lparr>fb_memory := ?mem\<rparr>))"
    by (simp add: clear_loop.simps [of 0] clear_loop.simps [of ?y])
  then have "clear fb = Some (Inr (move_cursor 0 0 (fb\<lparr>fb_memory := ?mem\<rparr>)))" by (simp add: clear_def)
  moreover have "same_geometry fb (fb\<lparr>fb_memory := ?mem\<rparr>)" using n by (simp add: same_geometry_def)
  ultimately show ?thesis by simp
qed

text \<open>
  The cursor is drawn without a test of the bounds: when the last line of text is cut off by the end of the framebuffer, as on one of 1080
  lines with a font of height 16, drawing the cursor there writes past the end of the memory.
\<close>

theorem cursor_past_last_line:
  assumes "fb_ok glyphs fb" "4 dvd unat (fb_pitch fb)" "0 < font_width fb" "x_pos fb < fb_width fb" "y_pos fb < fb_height fb"
    "unat (fb_height fb) < unat (y_pos fb) + unat (font_height fb)" "locked (fb_lock fb) = 0"
  shows "current_pos_cursor me (fb, irq) = Inl OutOfBounds"
proof -
  let ?p = "unat (fb_pitch fb)" and ?h = "unat (fb_height fb)" and ?f = "unat (font_height fb)" and ?py = "y_pos fb + (font_height fb - 1)"
  obtain q where q: "?p = 4 * q" using assms(2) by (auto elim: dvdE)
  have g: "length (fb_memory fb) = ?p * ?h" "?p * ?h < 2 ^ 64" "?f \<le> ?h" "unat (fb_width fb) \<le> q"
    using assms(1) q by (simp_all add: fb_ok_def word_le_nat_alt)
  have y: "unat (y_pos fb) < ?h" and x: "unat (x_pos fb) < q" using assms(4,5) g(4) by (simp_all add: word_less_nat_alt)
  then have f: "0 < ?f" "0 < q" using assms(6) by simp_all
  then have "1 * ?h \<le> q * ?h" by (intro mult_right_mono) auto
  moreover have "?p * ?h = 4 * (q * ?h)" using q by simp
  ultimately have h: "4 * ?h < 2 ^ 64" using g(2) by linarith
  have f1: "unat (font_height fb - 1) = ?f - 1" using f(1) by (simp add: unat_sub word_le_nat_alt)
  then have "unat ?py = unat (y_pos fb) + (?f - 1)"
    using y g(3) h by (subst unat_add_lem [THEN iffD1]) simp_all
  then have py: "?h \<le> unat ?py" "unat ?py < 2 * ?h" using y g(3) assms(6) f(1) by simp_all
  have "(unat ?py + 1) * q \<le> 2 * ?h * q" using py(2) by (intro mult_right_mono) auto
  then have up: "unat ?py * q + unat (x_pos fb) < 2 * ?h * q" using x by (simp add: distrib_right)
  moreover have "2 * ?h * q = 2 * (q * ?h)" by simp
  ultimately have b: "unat ?py * q + unat (x_pos fb) < 2 ^ 64" using g(2) q by simp
  then have "unat (?py * (fb_pitch fb div 4)) = unat ?py * q"
    using q by (subst unat_mult_lem [THEN iffD1]) (simp_all add: unat_div)
  then have "unat (?py * (fb_pitch fb div 4) + x_pos fb) = unat ?py * q + unat (x_pos fb)"
    using b by (subst unat_add_lem [THEN iffD1]) simp_all
  moreover have "?h * q \<le> unat ?py * q" using py(1) by (intro mult_right_mono) auto
  moreover have "length (fb_memory fb) = 4 * (?h * q)" using g(1) q by simp
  ultimately have "length (fb_memory fb) \<le> 4 * unat (?py * (fb_pitch fb div 4) + x_pos fb)" by linarith
  then have "set_pixel (x_pos fb) ?py color (fb\<lparr>fb_lock := l\<rparr>) = Inl OutOfBounds" for color l
    by (simp add: set_pixel_def Let_def)
  moreover have "\<exists>xs. counter (font_width fb) = 0 # xs"
    using assms(3) by (simp add: counter_def upt_conv_Cons word_less_nat_alt)
  moreover have "font_height fb - 1 < font_height fb" using f f1 by (simp add: word_less_nat_alt)
  ultimately have "draw_cursor_box WHITE (fb\<lparr>fb_lock := l\<rparr>) = Inl OutOfBounds" for l
    by (auto simp: draw_cursor_box_def)
  then show ?thesis
    using assms(4,5) [THEN not_le [THEN iffD2]] assms(7)
    by (auto simp: current_pos_cursor_def try_lock_def arch_atomic_swap_or_return_def Let_def upt_rec)
qed

section \<open>Witnesses\<close>

text \<open>A framebuffer of \<open>h\<close> lines of \<open>w\<close> pixels with a font of two lines of one pixel, whose glyphs are all set.\<close>

definition demo_fb :: "64 word \<Rightarrow> 64 word \<Rightarrow> 64 word \<Rightarrow> 64 word \<Rightarrow> framebuffer" where
  "demo_fb w h x y = \<lparr>fb_memory = replicate (unat (4 * w) * unat h) 0, fb_height = h, fb_width = w, fb_pitch = 4 * w,
     font_height = 2, font_width = 1, fb_context = \<lparr>current_x_pos = x, current_y_pos = y\<rparr>, fb_lock = fresh_lock\<rparr>"

definition demo_glyphs :: "byte list" where
  "demo_glyphs = replicate 512 1"

lemma demo_fb_ok: "unat (4 * w) * unat h < 2 ^ 64 \<Longrightarrow> 4 * unat w \<le> unat (4 * w) \<Longrightarrow> 2 \<le> h \<Longrightarrow> fb_ok demo_glyphs (demo_fb w h x y)"
  by (simp add: fb_ok_def demo_fb_def demo_glyphs_def)

theorem console_keeps_geometry_witness:
  "\<exists>fb'. fb_draw_string demo_glyphs 255 ([72, 10, 105] @ 0 # []) (demo_fb 2 3 0 0) = Inr fb' \<and>
    same_geometry (demo_fb 2 3 0 0) fb' \<and> fb_ok demo_glyphs fb'"
  by (rule console_keeps_geometry) (simp_all add: demo_fb_ok)

theorem draw_char_paints_glyph_witness:
  "\<exists>fb'. draw_char_with_context demo_glyphs 72 255 (demo_fb 2 3 1 0) = Inr fb' \<and> x_pos fb' = 2 \<and> pixel fb' 1 0 = 255"
proof -
  have "fb_ok demo_glyphs (demo_fb 2 3 1 0)" by (simp add: demo_fb_ok)
  from draw_char_paints_glyph [OF this, of 72 255]
  obtain fb' where "draw_char_with_context demo_glyphs 72 255 (demo_fb 2 3 1 0) = Inr fb'" "x_pos fb' = 2"
    "\<forall>a < 2. \<forall>b < 3. pixel fb' a b = (if 1 \<le> a \<and> a < 2 \<and> b < 2 \<and>
       bit (demo_glyphs ! (144 + b)) (1 - 1 - (a - 1)) then 255 else pixel (demo_fb 2 3 1 0) a b)"
    by (auto simp: demo_fb_def)
  moreover have "demo_glyphs ! 144 = 1" by (simp add: demo_glyphs_def)
  ultimately show ?thesis by (metis (no_types, lifting) one_less_numeral_iff semiring_norm(76) zero_less_numeral diff_self_eq_0 le_refl add.right_neutral bit_1_0 diff_0_eq_0 bit_1_iff)
qed

theorem scroll_moves_lines_witness:
  "\<exists>fb'. scroll_framebuffer (demo_fb 2 3 0 4) = Inr fb' \<and> x_pos fb' = 0 \<and> y_pos fb' = 1"
proof -
  have "fb_ok demo_glyphs (demo_fb 2 3 0 4)" by (simp add: demo_fb_ok)
  from scroll_moves_lines [OF this] show ?thesis by (auto simp: demo_fb_def)
qed

theorem clear_overruns_witness: "clear (demo_fb 4 3 0 0) = Some (Inl OutOfBounds)"
  by (rule clear_overruns [of demo_glyphs]) (simp add: demo_fb_ok, simp_all add: demo_fb_def)

theorem clear_first_lines_witness:
  "\<exists>fb'. clear (demo_fb 2 3 1 2) = Some (Inr fb') \<and> x_pos fb' = 0 \<and> fb_memory fb' = replicate 24 0"
proof -
  have "fb_ok demo_glyphs (demo_fb 2 3 1 2)" by (simp add: demo_fb_ok)
  from clear_first_lines [OF this] show ?thesis by (auto simp: demo_fb_def replicate_add [symmetric])
qed

theorem cursor_past_last_line_witness: "current_pos_cursor 1 (demo_fb 2 3 0 2, True) = Inl OutOfBounds"
  by (rule cursor_past_last_line [of demo_glyphs]) (simp add: demo_fb_ok, simp_all add: demo_fb_def fresh_lock_def initlock_def)

end
