(* ===== verification/Printf.thy ===== *)
theory Printf
  imports Framebuffer
begin

text \<open>
  The formatted output of the kernel: \<^verbatim>\<open>kprintf\<close> and its variants and \<^verbatim>\<open>ksprintf\<close> of \<^verbatim>\<open>drivers/display/framebuffer.c\<close>, and
  \<^verbatim>\<open>serial_printf\<close> of \<^verbatim>\<open>drivers/serial/uart.c\<close>. The loops over the format string differ in the operations they print with and in
  a few branches; these are the fields of a record, and the loop is written once.
\<close>

section \<open>Arguments\<close>

text \<open>
  The variable arguments of a call. Reading an argument of the wrong kind, or more arguments than were passed, is undefined in C
  and not modelled.
\<close>

datatype arg = ANum "64 word" | AStr "byte list"

fun va_arg64 :: "arg list \<Rightarrow> (64 word \<times> arg list) res" where
  "va_arg64 (ANum v # args) = Inr (v, args)"
| "va_arg64 args = Inl Unmodelled"

definition va_arg32 :: "arg list \<Rightarrow> (64 word \<times> arg list) res" where
  "va_arg32 args = bindR (va_arg64 args) (\<lambda>(v, args). Inr (ucast (ucast v :: 32 word), args))"

fun va_arg_str :: "arg list \<Rightarrow> (byte list \<times> arg list) res" where
  "va_arg_str (AStr v # args) = Inr (v, args)"
| "va_arg_str args = Inl Unmodelled"

section \<open>Digits\<close>

definition characters :: "byte list" where
  "characters = map of_char ''0123456789ABCDEF''"

text \<open>The test lets 16 pass, which is past the end of the table.\<close>

definition get_hex_char :: "byte \<Rightarrow> byte res" where
  "get_hex_char nibble =
     (if nibble \<le> 16 then if unat nibble < length characters then Inr (characters ! unat nibble) else Inl OutOfBounds
      else Inr (of_char (CHR ''?'')))"

text \<open>The loop over the nibbles of a number from the \<open>n\<close>-th one down; \<open>i\<close> of the source is \<open>4 * (n - 1)\<close>.\<close>

primrec hex_loop :: "(byte \<Rightarrow> 's \<Rightarrow> 's res) \<Rightarrow> 64 word \<Rightarrow> nat \<Rightarrow> 's \<Rightarrow> 's res" where
  "hex_loop emit num 0 s = Inr s"
| "hex_loop emit num (Suc n) s =
     bindR (get_hex_char (ucast (drop_bit (4 * n) num AND 0xF))) (\<lambda>c. bindR (emit c s) (hex_loop emit num n))"

text \<open>The digits of a decimal number, the last one first, in a buffer of 20 bytes.\<close>

function dec_loop :: "64 word \<Rightarrow> byte list \<Rightarrow> byte list res" where
  "dec_loop num buffer =
     (if num > 0 then
        if length buffer < 20 then dec_loop (num div 10) (buffer @ [characters ! unat (num mod 10)]) else Inl OutOfBounds
      else Inr buffer)"
  by pat_completeness auto
termination
  by (relation "measure (\<lambda>(num, buffer). unat num)") (auto simp: unat_div word_less_nat_alt)

declare dec_loop.simps [simp del]

section \<open>The loop over the format string\<close>

text \<open>
  What the loops print with: a character, a string, a newline, a hexadecimal number of a size, the number zero, the directives other than
  \<^verbatim>\<open>x\<close>, \<^verbatim>\<open>s\<close> and \<^verbatim>\<open>i\<close>, and a size behind \<^verbatim>\<open>%x.\<close> other than \<^verbatim>\<open>8\<close>, \<^verbatim>\<open>16\<close>, \<^verbatim>\<open>32\<close> and \<^verbatim>\<open>64\<close>.
\<close>

record 's sink =
  put_char :: "byte \<Rightarrow> 's \<Rightarrow> 's res"
  put_string :: "byte list \<Rightarrow> 's \<Rightarrow> 's res"
  put_newline :: "'s \<Rightarrow> 's res"
  put_hex :: "64 word \<Rightarrow> nat \<Rightarrow> 's \<Rightarrow> 's res"
  put_zero :: "'s \<Rightarrow> 's res"
  put_other :: "byte \<Rightarrow> arg list \<Rightarrow> 's \<Rightarrow> (arg list \<times> 's) res"
  put_other_size :: "arg list \<Rightarrow> 's \<Rightarrow> (arg list \<times> 's) res"

definition hex_arg :: "'s sink \<Rightarrow> (arg list \<Rightarrow> (64 word \<times> arg list) res) \<Rightarrow> nat \<Rightarrow> arg list \<Rightarrow> 's \<Rightarrow> (arg list \<times> 's) res" where
  "hex_arg k va bits args s =
     bindR (va args) (\<lambda>(v, args). bindR (put_hex k v bits s) (\<lambda>s. Inr (args, s)))"

text \<open>The digits behind \<^verbatim>\<open>%x.\<close>: of the sizes with two digits the second one is skipped.\<close>

fun hex_size :: "'s sink \<Rightarrow> byte list \<Rightarrow> arg list \<Rightarrow> 's \<Rightarrow> (byte list \<times> arg list \<times> 's) res" where
  "hex_size k [] args s = Inl OutOfBounds"
| "hex_size k (d # str) args s =
     (if d = of_char (CHR ''8'') then bindR (hex_arg k va_arg32 8 args s) (\<lambda>r. Inr (str, r))
      else if d = of_char (CHR ''1'') then bindR (hex_arg k va_arg32 16 args s) (\<lambda>r. Inr (drop 1 str, r))
      else if d = of_char (CHR ''3'') then bindR (hex_arg k va_arg32 32 args s) (\<lambda>r. Inr (drop 1 str, r))
      else if d = of_char (CHR ''6'') then bindR (hex_arg k va_arg64 64 args s) (\<lambda>r. Inr (drop 1 str, r))
      else bindR (put_other_size k args s) (\<lambda>r. Inr (str, r)))"

definition put_decimal :: "'s sink \<Rightarrow> 64 word \<Rightarrow> 's \<Rightarrow> 's res" where
  "put_decimal k v s =
     (if v = 0 then put_zero k s else bindR (dec_loop v []) (\<lambda>buffer. fold_res (put_char k) (rev buffer) s))"

text \<open>What stands behind a percent sign; the result is the string behind the directive.\<close>

fun directive :: "'s sink \<Rightarrow> byte list \<Rightarrow> arg list \<Rightarrow> 's \<Rightarrow> (byte list \<times> arg list \<times> 's) res" where
  "directive k [] args s = Inl OutOfBounds"
| "directive k (d # str) args s =
     (if d = of_char (CHR ''x'') then
        (case str of
           [] \<Rightarrow> Inl OutOfBounds
         | e # str' \<Rightarrow> if e = of_char (CHR ''.'') then hex_size k str' args s
                      else bindR (hex_arg k va_arg64 64 args s) (\<lambda>r. Inr (str, r)))
      else if d = of_char (CHR ''s'') then
        bindR (va_arg_str args) (\<lambda>(v, args). bindR (put_string k v s) (\<lambda>s. Inr (str, args, s)))
      else if d = of_char (CHR ''i'') then
        bindR (va_arg64 args) (\<lambda>(v, args). bindR (put_decimal k v s) (\<lambda>s. Inr (str, args, s)))
      else bindR (put_other k d args s) (\<lambda>r. Inr (str, r)))"

lemma hex_size_shorter: "hex_size k str args s = Inr (str', r) \<Longrightarrow> length str' < length str"
  by (cases "(k, str, args, s)" rule: hex_size.cases) (auto simp: bindR_eq_Inr split: if_splits)

lemma directive_shorter: "directive k str args s = Inr (str', r) \<Longrightarrow> length str' < length str"
  by (cases "(k, str, args, s)" rule: directive.cases)
    (auto simp: bindR_eq_Inr split: if_splits list.splits dest: hex_size_shorter)

function printf_loop :: "'s sink \<Rightarrow> byte list \<Rightarrow> arg list \<Rightarrow> 's \<Rightarrow> 's res" where
  "printf_loop k [] args s = Inl OutOfBounds"
| "printf_loop k (c # str) args s =
     (if c = 0 then Inr s
      else if c = 10 then bindR (put_newline k s) (\<lambda>s. printf_loop k str args s)
      else if c \<noteq> of_char (CHR ''%'') then bindR (put_char k c s) (\<lambda>s. printf_loop k str args s)
      else bindR (directive k str args s) (\<lambda>(str, args, s). printf_loop k str args s))"
  by pat_completeness auto
termination
  by (relation "measure (\<lambda>(k, str, args, s). length str)") (auto dest: directive_shorter)

section \<open>Numbers as text\<close>

text \<open>The text of a number, by the division of the number and not by the loops of the source.\<close>

definition hex_text :: "64 word \<Rightarrow> nat \<Rightarrow> byte list" where
  "hex_text v bits = map of_char ''0x'' @ map (\<lambda>i. characters ! (unat v div 16 ^ i mod 16)) (rev [0..<bits div 4])"

fun dec_text :: "nat \<Rightarrow> byte list" where
  "dec_text n = (if n < 10 then [characters ! n] else dec_text (n div 10) @ [characters ! (n mod 10)])"

declare dec_text.simps [simp del]

lemma length_characters [simp]: "length characters = 16"
  by (simp add: characters_def)

lemma take_bit_unsigned_64: "take_bit LENGTH(64) (unat (w :: 64 word)) = unat w"
  using unsigned_less [of w] by (intro take_bit_nat_eq_self) simp

lemma get_hex_char_nibble:
  "get_hex_char (ucast (drop_bit (4 * n) num AND (0xF :: 64 word))) = Inr (characters ! (unat num div 16 ^ n mod 16))"
proof -
  let ?w = "drop_bit (4 * n) num AND (0xF :: 64 word)"
  have "?w = take_bit 4 (drop_bit (4 * n) num)" by (simp add: take_bit_eq_mask mask_eq_exp_minus_1)
  then have "unat ?w = take_bit 4 (drop_bit (4 * n) (unat num))"
    by (simp only: unsigned_take_bit_eq unsigned_drop_bit_eq take_bit_unsigned_64)
  then have w: "unat ?w = unat num div 16 ^ n mod 16" by (simp add: drop_bit_eq_div take_bit_eq_mod power_mult)
  then have "unat (ucast ?w :: byte) = unat num div 16 ^ n mod 16"
    by (simp add: unsigned_ucast_eq take_bit_nat_eq_self)
  then show ?thesis by (simp add: get_hex_char_def word_le_nat_alt)
qed

lemma hex_loop_eq:
  "hex_loop emit num n s = fold_res emit (map (\<lambda>i. characters ! (unat num div 16 ^ i mod 16)) (rev [0..<n])) s"
  by (induction n arbitrary: s) (simp_all add: get_hex_char_nibble bindR_def split: sum.splits)

lemma dec_text_length: "n < 10 ^ Suc k \<Longrightarrow> length (dec_text n) \<le> Suc k"
proof (induction k arbitrary: n)
  case 0
  then show ?case by (simp add: dec_text.simps)
next
  case (Suc k)
  then have "n div 10 < 10 ^ Suc k" by (simp add: less_mult_imp_div_less)
  with Suc.IH [of "n div 10"] show ?case by (subst dec_text.simps) simp
qed

lemma dec_loop_eq:
  "0 < v \<Longrightarrow> length buffer + length (dec_text (unat v)) \<le> 20 \<Longrightarrow> dec_loop v buffer = Inr (buffer @ rev (dec_text (unat v)))"
proof (induction v buffer rule: dec_loop.induct)
  case (1 v buffer)
  show ?case
  proof (cases "unat v < 10")
    case True
    then have "v div 10 = 0" "unat (v mod 10) = unat v" by (simp_all add: word_unat_eq_iff unat_div unat_mod)
    with True 1 show ?thesis
      by (simp add: dec_loop.simps [of v] dec_loop.simps [of 0] dec_text.simps [of "unat v"])
  next
    case False
    then have "dec_text (unat v) = dec_text (unat (v div 10)) @ [characters ! unat (v mod 10)]"
      by (subst dec_text.simps) (simp add: unat_div unat_mod)
    moreover have "0 < v div 10" using False by (simp add: word_less_nat_alt unat_div)
    ultimately show ?thesis using 1 by (simp add: dec_loop.simps [of v])
  qed
qed

lemma dec_text_20: "length (dec_text (unat (v :: 64 word))) \<le> 20"
proof -
  have "unat v < 2 ^ 64" using unsigned_less [of v] by simp
  also have "(2 :: nat) ^ 64 \<le> 10 ^ Suc 19" by simp
  finally have "length (dec_text (unat v)) \<le> Suc 19" by (rule dec_text_length)
  then show ?thesis by simp
qed

lemma dec_loop_start: "0 < v \<Longrightarrow> dec_loop v [] = Inr (rev (dec_text (unat v)))"
  using dec_loop_eq [of v "[]"] dec_text_20 [of v] by simp

lemma bindR_fold_Nil: "bindR m (fold_res f []) = m"
  by (cases m) simp_all

section \<open>Reading numbers back\<close>

definition digit :: "byte \<Rightarrow> nat" where
  "digit c = (if c \<le> 0x39 then unat c - 0x30 else unat c - 0x37)"

definition number :: "nat \<Rightarrow> byte list \<Rightarrow> nat" where
  "number base cs = foldl (\<lambda>n c. base * n + digit c) 0 cs"

lemma number_snoc: "number base (cs @ [c]) = base * number base cs + digit c"
  by (simp add: number_def)

lemma digit_characters: "n < 16 \<Longrightarrow> digit (characters ! n) = n"
proof -
  assume n: "n < 16"
  have "map digit characters = [0..<16]" by code_simp
  then have "map digit characters ! n = [0..<16] ! n" by simp
  with n show ?thesis by simp
qed

lemma number_dec_text: "number 10 (dec_text n) = n"
proof (induction n rule: dec_text.induct)
  case (1 n)
  then show ?case
    by (subst dec_text.simps) (auto simp: number_snoc digit_characters number_def [of _ "[_]"])
qed

lemma number_nibbles:
  "number 16 (map (\<lambda>i. characters ! (v div 16 ^ i mod 16)) (rev [0..<n])) = v mod 16 ^ n"
proof (induction n arbitrary: v)
  case 0
  then show ?case by (simp add: number_def)
next
  case (Suc n)
  have "map (\<lambda>i. characters ! (v div 16 ^ i mod 16)) (rev [0..<Suc n]) =
      map (\<lambda>i. characters ! (v div 16 div 16 ^ i mod 16)) (rev [0..<n]) @ [characters ! (v mod 16)]"
  proof -
    have "[0..<Suc n] = 0 # map Suc [0..<n]" by (simp add: upt_conv_Cons map_Suc_upt)
    then show ?thesis by (simp add: rev_map div_mult2_eq o_def)
  qed
  then show ?case
    using Suc [of "v div 16"] by (simp add: number_snoc digit_characters mod_mult2_eq)
qed

section \<open>What a sink promises\<close>

text \<open>
  The contract of the operations: strings, newlines, hexadecimal numbers and zero are printed character by character. Under it the
  loop over a format string prints the text that the format describes.
\<close>

locale char_sink =
  fixes k :: "'s sink"
  assumes string: "0 \<notin> set x \<Longrightarrow> put_string k (x @ 0 # r) s = fold_res (put_char k) x s"
    and newline: "put_newline k s = put_char k 10 s"
    and hex: "bits \<in> {8, 16, 32, 64} \<Longrightarrow> put_hex k v bits s = fold_res (put_char k) (hex_text v bits) s"
    and zero: "put_zero k s = put_char k (characters ! 0) s"

text \<open>
  A format as a list of pieces with their arguments: a character, a hexadecimal number with or without a size, a decimal number and a
  string; how a piece is written in the format string, the argument it takes and the text it stands for.
\<close>

datatype piece = Lit byte | Hex nat "64 word" | Hex64 "64 word" | Dec "64 word" | Text "byte list"

definition bits_text :: "nat \<Rightarrow> string" where
  "bits_text bits = (if bits = 8 then ''8'' else if bits = 16 then ''16'' else if bits = 32 then ''32'' else ''64'')"

fun piece_format :: "piece \<Rightarrow> byte list" where
  "piece_format (Lit c) = [c]"
| "piece_format (Hex bits v) = map of_char (''%x.'' @ bits_text bits)"
| "piece_format (Hex64 v) = map of_char ''%x''"
| "piece_format (Dec v) = map of_char ''%i''"
| "piece_format (Text t) = map of_char ''%s''"

fun piece_args :: "piece \<Rightarrow> arg list" where
  "piece_args (Lit c) = []"
| "piece_args (Hex bits v) = [ANum v]"
| "piece_args (Hex64 v) = [ANum v]"
| "piece_args (Dec v) = [ANum v]"
| "piece_args (Text t) = [AStr (t @ [0])]"

fun piece_text :: "piece \<Rightarrow> byte list" where
  "piece_text (Lit c) = [c]"
| "piece_text (Hex bits v) = hex_text v bits"
| "piece_text (Hex64 v) = hex_text v 64"
| "piece_text (Dec v) = dec_text (unat v)"
| "piece_text (Text t) = t"

fun piece_ok :: "piece \<Rightarrow> bool" where
  "piece_ok (Lit c) \<longleftrightarrow> c \<noteq> 0 \<and> c \<noteq> of_char (CHR ''%'')"
| "piece_ok (Hex bits v) \<longleftrightarrow> bits \<in> {8, 16, 32, 64}"
| "piece_ok (Hex64 v) \<longleftrightarrow> True"
| "piece_ok (Dec v) \<longleftrightarrow> True"
| "piece_ok (Text t) \<longleftrightarrow> 0 \<notin> set t"

text \<open>A hexadecimal number without a size is not followed by a full stop, which would start a size.\<close>

fun format_ok :: "piece list \<Rightarrow> bool" where
  "format_ok [] \<longleftrightarrow> True"
| "format_ok (p # ps) \<longleftrightarrow> piece_ok p \<and> format_ok ps \<and>
     (case p of Hex64 _ \<Rightarrow> (case ps of Lit c # _ \<Rightarrow> c \<noteq> of_char (CHR ''.'') | _ \<Rightarrow> True) | _ \<Rightarrow> True)"

definition format :: "piece list \<Rightarrow> byte list" where
  "format ps = concat (map piece_format ps)"

definition format_args :: "piece list \<Rightarrow> arg list" where
  "format_args ps = concat (map piece_args ps)"

definition format_text :: "piece list \<Rightarrow> byte list" where
  "format_text ps = concat (map piece_text ps)"

lemma format_simps [simp]:
  "format [] = []" "format (p # ps) = piece_format p @ format ps"
  "format_args [] = []" "format_args (p # ps) = piece_args p @ format_args ps"
  "format_text [] = []" "format_text (p # ps) = piece_text p @ format_text ps"
  by (simp_all add: format_def format_args_def format_text_def)

lemma nibble_mod:
  fixes a :: nat
  assumes "i < n"
  shows "a mod 16 ^ n div 16 ^ i mod 16 = a div 16 ^ i mod 16"
proof -
  obtain m where n: "n = Suc m + i" using assms by (metis add.commute less_iff_Suc_add add_Suc_right)
  then have "(16 :: nat) ^ n = 16 ^ i * (16 * 16 ^ m)" by (simp add: power_add)
  then have "a mod 16 ^ n div 16 ^ i = a div 16 ^ i mod (16 * 16 ^ m)" by (simp only: mod_mult2_eq) simp
  then show ?thesis by (simp add: mod_mod_cancel)
qed

lemma hex_text_32:
  assumes "bits \<in> {8, 16, 32}"
  shows "hex_text (ucast (ucast v :: 32 word)) bits = hex_text v bits"
proof -
  have "unat (ucast (ucast v :: 32 word) :: 64 word) = unat v mod 2 ^ 32"
    by (simp add: unsigned_ucast_eq take_bit_eq_mod unat_mod)
  moreover have "(unat v mod 2 ^ 32) div 16 ^ i mod 16 = unat v div 16 ^ i mod (16 :: nat)" if "i < 8" for i
    using nibble_mod [OF that, of "unat v"] by simp
  ultimately show ?thesis using assms by (auto simp: hex_text_def)
qed

lemma Hex64_next:
  assumes "format_ok (Hex64 v # ps)"
  obtains e str where "format ps @ 0 # r = e # str" "e \<noteq> of_char (CHR ''.'')"
proof (cases ps)
  case Nil
  show ?thesis
  proof (rule that)
    show "format ps @ 0 # r = 0 # r" using Nil by simp
    show "(0 :: byte) \<noteq> of_char (CHR ''.'')" by code_simp
  qed
next
  case (Cons p qs)
  with assms that show ?thesis by (cases p) simp_all
qed

context char_sink
begin

lemma decimal: "put_decimal k v s = fold_res (put_char k) (dec_text (unat v)) s"
proof (cases "v = 0")
  case True
  then show ?thesis by (simp add: put_decimal_def zero dec_text.simps bindR_fold_Nil)
next
  case False
  then show ?thesis by (simp add: put_decimal_def dec_loop_start word_gt_0)
qed

lemma directive_piece:
  assumes "piece_ok p" "\<And>c. p \<noteq> Lit c" "\<And>v. p \<noteq> Hex64 v"
  shows "directive k (tl (piece_format p) @ str) (piece_args p @ args) s =
    bindR (fold_res (put_char k) (piece_text p) s) (\<lambda>s. Inr (str, args, s))"
  using assms
proof (cases p)
  case (Hex bits v)
  with assms(1) consider "bits = 8" | "bits = 16" | "bits = 32" | "bits = 64" by auto
  then show ?thesis
    by cases (simp_all add: Hex bits_text_def hex_arg_def va_arg32_def hex hex_text_32 bindR_assoc)
next
  case (Text t)
  with assms(1) string [of t "[]"] show ?thesis by simp
next
  case (Dec v)
  then show ?thesis by (simp add: decimal)
qed blast+

lemma Hex64_piece:
  assumes "e \<noteq> of_char (CHR ''.'')"
  shows "directive k (of_char (CHR ''x'') # e # str) (ANum v # args) s =
    bindR (fold_res (put_char k) (hex_text v 64) s) (\<lambda>s. Inr (e # str, args, s))"
  using assms by (simp add: hex_arg_def hex bindR_assoc)

lemma printf_format:
  "format_ok ps \<Longrightarrow> printf_loop k (format ps @ 0 # r) (format_args ps @ args) s = fold_res (put_char k) (format_text ps) s"
proof (induction ps arbitrary: s)
  case Nil
  then show ?case by simp
next
  case (Cons p ps)
  then have ok: "piece_ok p" "format_ok ps" by auto
  have IH: "printf_loop k (format ps @ 0 # r) (format_args ps @ args) = fold_res (put_char k) (format_text ps)"
    by (rule ext) (rule Cons.IH [OF ok(2)])
  show ?case
  proof (cases p)
    case (Lit c)
    with ok(1) show ?thesis by (simp add: newline IH)
  next
    case (Hex64 v)
    with Cons.prems obtain e str where e: "format ps @ 0 # r = e # str" "e \<noteq> of_char (CHR ''.'')"
      using Hex64_next by blast
    have "printf_loop k (e # str) (format_args ps @ args) = fold_res (put_char k) (format_text ps)"
      using IH e(1) by simp
    with Hex64 Hex64_piece [OF e(2)] e(1) show ?thesis by (simp add: bindR_assoc del: directive.simps)
  qed (use directive_piece [OF ok(1)] IH in \<open>simp_all add: bindR_assoc del: directive.simps\<close>)
qed

end

end
