(* ===== verification/Console.thy ===== *)
theory Console
  imports Printf Framebuffer_Drawing
begin

text \<open>
  The printing functions of \<^verbatim>\<open>drivers/display/framebuffer.c\<close>: \<^verbatim>\<open>kprintf\<close> and the variants with a prefix and a color, which draw on the
  framebuffer under its lock, and \<^verbatim>\<open>ksprintf\<close>, which writes to a buffer.
\<close>

section \<open>Printing on the framebuffer\<close>

definition draw_hex :: "byte list \<Rightarrow> 32 word \<Rightarrow> 64 word \<Rightarrow> nat \<Rightarrow> framebuffer \<Rightarrow> framebuffer res" where
  "draw_hex glyphs color num bits fb =
     bindR (fb_ops_draw_string glyphs color (ascii ''0x'') fb)
       (hex_loop (\<lambda>c. fb_ops_draw_char glyphs c color) num (bits div 4))"

text \<open>
  With a size other than 8, 16, 32 and 64 the functions read an argument and print a variable that has no value; this is not modelled.
\<close>

definition fb_sink :: "byte list \<Rightarrow> 32 word \<Rightarrow> framebuffer sink" where
  "fb_sink glyphs color = \<lparr>
     put_char = (\<lambda>c. fb_ops_draw_char glyphs c color),
     put_string = fb_ops_draw_string glyphs color,
     put_newline = fb_ops_draw_char glyphs 10 color,
     put_hex = draw_hex glyphs color,
     put_zero = fb_ops_draw_string glyphs color (ascii ''0''),
     put_other = (\<lambda>c args fb. bindR (fb_ops_draw_string glyphs color (ascii ''%'') fb) (\<lambda>fb.
       bindR (fb_ops_draw_char glyphs c color fb) (\<lambda>fb. Inr (args, fb)))),
     put_other_size = (\<lambda>args fb. Inl Unmodelled)\<rparr>"

text \<open>\<^verbatim>\<open>err_printf\<close> prints nothing for such a size, and takes no argument.\<close>

definition err_sink :: "byte list \<Rightarrow> framebuffer sink" where
  "err_sink glyphs = (fb_sink glyphs RED)\<lparr>put_other_size := \<lambda>args fb. Inr (args, fb)\<rparr>"

text \<open>What \<^verbatim>\<open>acquire_spinlock\<close> depends on: the flag of the bootstrap, the processor, its process, and what its exchanges find.\<close>

record caller =
  caller_bsp :: bool
  caller_cpu :: addr
  caller_process :: addr
  caller_found :: "nat \<Rightarrow> 64 word"

definition with_fb_lock :: "caller \<Rightarrow> (framebuffer \<Rightarrow> framebuffer res) \<Rightarrow> framebuffer \<times> bool \<Rightarrow> (framebuffer \<times> bool) res" where
  "with_fb_lock me body = (\<lambda>(fb, irq).
     case acquire_spinlock (caller_bsp me) (caller_cpu me) (caller_process me) (caller_found me) (fb_lock fb, irq) of (l, irq) \<Rightarrow>
     bindR (body (fb\<lparr>fb_lock := l\<rparr>)) (\<lambda>fb.
     case release_spinlock (fb_lock fb, irq) of (l, irq) \<Rightarrow> Inr (fb\<lparr>fb_lock := l\<rparr>, irq)))"

type_synonym fb_printf = "byte list \<Rightarrow> caller \<Rightarrow> byte list \<Rightarrow> arg list \<Rightarrow> framebuffer \<times> bool \<Rightarrow> (framebuffer \<times> bool) res"

definition kprintf :: fb_printf where
  "kprintf glyphs me str args = with_fb_lock me (printf_loop (fb_sink glyphs GREEN) str args)"

definition debug_printf :: fb_printf where
  "debug_printf glyphs me str args = with_fb_lock me (\<lambda>fb.
     bindR (fb_ops_draw_string glyphs WHITE (ascii ''[DEBUG] '') fb) (printf_loop (fb_sink glyphs WHITE) str args))"

definition err_printf :: "bool \<Rightarrow> fb_printf" where
  "err_printf panicked glyphs me str args = (\<lambda>s. if panicked then Inr s else with_fb_lock me (\<lambda>fb.
     bindR (fb_ops_draw_string glyphs RED (ascii ''[ERROR] '') fb) (printf_loop (err_sink glyphs) str args)) s)"

definition warn_printf :: fb_printf where
  "warn_printf glyphs me str args = with_fb_lock me (\<lambda>fb.
     bindR (fb_ops_draw_string glyphs ORANGE (ascii ''[WARN] '') fb) (printf_loop (fb_sink glyphs ORANGE) str args))"

definition info_printf :: fb_printf where
  "info_printf glyphs me str args = with_fb_lock me (\<lambda>fb.
     bindR (fb_ops_draw_string glyphs YELLOW (ascii ''[INFO] '') fb) (printf_loop (fb_sink glyphs YELLOW) str args))"

definition kprintf_color :: "32 word \<Rightarrow> fb_printf" where
  "kprintf_color color glyphs me str args = with_fb_lock me (printf_loop (fb_sink glyphs color) str args)"

section \<open>Printing to a buffer\<close>

text \<open>
  The buffer of \<^verbatim>\<open>ksprintf\<close> and the index of the next character. The buffer is not NULL, so that the test of \<^verbatim>\<open>insert_hex\<close> for
  that is left out.
\<close>

definition store_char :: "byte \<Rightarrow> byte list \<times> nat \<Rightarrow> (byte list \<times> nat) res" where
  "store_char c = (\<lambda>(buffer, index). if index < length buffer then Inr (buffer[index := c], index + 1) else Inl OutOfBounds)"

definition store_bytes :: "byte list \<Rightarrow> byte list \<times> nat \<Rightarrow> (byte list \<times> nat) res" where
  "store_bytes cs = (\<lambda>(buffer, index).
     if cs = [] \<or> index + length cs \<le> length buffer then Inr (overwrite buffer index cs, index + length cs) else Inl OutOfBounds)"

definition insert_hex :: "64 word \<Rightarrow> nat \<Rightarrow> byte list \<times> nat \<Rightarrow> (byte list \<times> nat) res" where
  "insert_hex num bits s = bindR (store_bytes (map of_char ''0x'') s) (hex_loop store_char num (bits div 4))"

definition buffer_sink :: "(byte list \<times> nat) sink" where
  "buffer_sink = \<lparr>
     put_char = store_char,
     put_string = (\<lambda>v s. bindR (strlen v) (\<lambda>len. store_bytes (take len v) s)),
     put_newline = store_char 10,
     put_hex = insert_hex,
     put_zero = store_char (of_char (CHR ''0'')),
     put_other = (\<lambda>c args s. bindR (store_char (of_char (CHR ''%'')) s) (\<lambda>s. Inr (args, s))),
     put_other_size = (\<lambda>args s. bindR (va_arg64 args) (\<lambda>(v, args). bindR (insert_hex v 64 s) (\<lambda>s. Inr (args, s))))\<rparr>"

definition ksprintf :: "byte list \<Rightarrow> byte list \<Rightarrow> arg list \<Rightarrow> byte list res" where
  "ksprintf buffer str args = bindR (printf_loop buffer_sink str args (buffer, 0)) (\<lambda>(buffer, index). Inr buffer)"

section \<open>The sinks keep the contract\<close>

lemma draw_string_fold:
  "0 \<notin> set x \<Longrightarrow> fb_draw_string glyphs color (x @ 0 # r) fb = fold_res (\<lambda>c. draw_char_with_context glyphs c (ucast color)) x fb"
  by (induction x arbitrary: fb) (auto simp: bindR_def split: sum.splits)

lemma ucast_color: "ucast (ucast (color :: 32 word) :: 64 word) = color"
  by (rule bit_word_eqI) (simp add: bit_ucast_iff)

lemma ops_draw_string_fold:
  "0 \<notin> set x \<Longrightarrow> fb_ops_draw_string glyphs color (x @ 0 # r) fb = fold_res (\<lambda>c. fb_ops_draw_char glyphs c color) x fb"
  by (simp add: fb_ops_draw_string_def draw_string_fold ucast_color fb_ops_draw_char_def [abs_def])

lemma ops_draw_ascii:
  "0 \<notin> set (map of_char t :: byte list) \<Longrightarrow>
   fb_ops_draw_string glyphs color (ascii t) fb = fold_res (\<lambda>c. fb_ops_draw_char glyphs c color) (map of_char t) fb"
  by (simp add: ascii_def ops_draw_string_fold)

lemma draw_hex_fold: "draw_hex glyphs color v bits fb = fold_res (\<lambda>c. fb_ops_draw_char glyphs c color) (hex_text v bits) fb"
  by (simp add: draw_hex_def ops_draw_ascii hex_loop_eq hex_text_def bindR_def split: sum.splits)

lemma draw_zero_fold: "fb_ops_draw_string glyphs color (ascii ''0'') fb = fb_ops_draw_char glyphs (characters ! 0) color fb"
  by (simp add: ops_draw_ascii characters_def bindR_fold_Nil)

interpretation fb: char_sink "fb_sink glyphs color" for glyphs color
  by unfold_locales (simp_all add: fb_sink_def ops_draw_string_fold draw_hex_fold draw_zero_fold)

interpretation err: char_sink "err_sink glyphs" for glyphs
  by unfold_locales (simp_all add: err_sink_def fb_sink_def ops_draw_string_fold draw_hex_fold draw_zero_fold)

lemma store_fold: "fold_res store_char cs s = store_bytes cs s"
proof (induction cs arbitrary: s)
  case Nil
  then show ?case by (cases s) (simp add: store_bytes_def overwrite_def)
next
  case (Cons c cs)
  obtain buffer index where s: "s = (buffer, index)" by (cases s)
  have "overwrite (buffer[index := c]) (Suc index) cs = overwrite buffer index (c # cs)" if "index < length buffer"
    using that by (simp add: overwrite_def take_Suc_conv_app_nth)
  with Cons s show ?case by (auto simp: store_char_def store_bytes_def)
qed

lemma insert_hex_fold: "insert_hex v bits s = fold_res store_char (hex_text v bits) s"
  unfolding insert_hex_def hex_text_def fold_res_append store_fold [symmetric] hex_loop_eq [abs_def] ..

interpretation buffer: char_sink buffer_sink
proof
  fix x r :: "byte list" and s assume "(0 :: byte) \<notin> set x"
  then show "put_string buffer_sink (x @ 0 # r) s = fold_res (put_char buffer_sink) x s"
    by (simp add: buffer_sink_def strlen_eq store_fold)
qed (simp_all add: buffer_sink_def insert_hex_fold characters_def)

section \<open>Drawing does not look at the lock\<close>

definition lock_blind :: "(framebuffer \<Rightarrow> framebuffer res) \<Rightarrow> bool" where
  "lock_blind f \<longleftrightarrow> (\<forall>fb l. f (fb\<lparr>fb_lock := l\<rparr>) = bindR (f fb) (\<lambda>fb'. Inr (fb'\<lparr>fb_lock := l\<rparr>)))"

lemma lock_blindD: "lock_blind f \<Longrightarrow> f (fb\<lparr>fb_lock := l\<rparr>) = bindR (f fb) (\<lambda>fb'. Inr (fb'\<lparr>fb_lock := l\<rparr>))"
  by (simp add: lock_blind_def)

lemma lock_blind_fold:
  assumes "\<And>x. lock_blind (f x)"
  shows "lock_blind (fold_res f xs)"
proof (induction xs)
  case Nil
  then show ?case by (simp add: lock_blind_def)
next
  case (Cons x xs)
  then show ?case
    using assms [of x] by (simp add: lock_blind_def bindR_def split: sum.splits)
qed

lemma lock_blind_draw_bit: "lock_blind (draw_bit Inr glyphs c x y color cy cx)"
  unfolding lock_blind_def
  by (auto simp: draw_bit_def glyph_bit_def set_pixel_def Let_def)

lemma lock_blind_draw_bitmap: "lock_blind (draw_bitmap Inr glyphs c x y color)"
  unfolding lock_blind_def
  by (auto simp: draw_bitmap_def intro!: lock_blindD lock_blind_fold lock_blind_draw_bit)

lemma lock_blind_scroll: "lock_blind scroll_framebuffer"
  unfolding lock_blind_def
  by (simp add: scroll_framebuffer_def move_cursor_def Let_def bindR_def split: sum.splits)

lemma lock_blind_bind: "lock_blind f \<Longrightarrow> lock_blind g \<Longrightarrow> lock_blind (\<lambda>fb. bindR (f fb) g)"
  by (simp add: lock_blind_def bindR_def split: sum.splits)

lemma lock_blind_if:
  "lock_blind f \<Longrightarrow> lock_blind g \<Longrightarrow> (\<And>fb l. P (fb\<lparr>fb_lock := l\<rparr>) = P fb) \<Longrightarrow> lock_blind (\<lambda>fb. if P fb then f fb else g fb)"
  by (simp add: lock_blind_def)

lemma lock_blind_Inr: "(\<And>fb l. f (fb\<lparr>fb_lock := l\<rparr>) = (f fb)\<lparr>fb_lock := l\<rparr>) \<Longrightarrow> lock_blind (\<lambda>fb. Inr (f fb))"
  by (simp add: lock_blind_def)

lemma lock_blind_draw_char: "lock_blind (draw_char_with_context glyphs c color)"
proof -
  let ?wrap = "\<lambda>fb. if x_pos fb \<ge> fb_width fb then reset_x_value fb else fb"
  let ?scroll = "\<lambda>fb. if y_pos fb \<ge> fb_height fb then scroll_framebuffer fb else Inr fb"
  let ?draw = "\<lambda>fb. draw_bitmap Inr glyphs c (x_pos fb) (y_pos fb) color fb"
  let ?next = "\<lambda>fb. Inr (move_cursor (x_pos fb + font_width fb) (y_pos fb) fb)"
  have wrap: "lock_blind (\<lambda>fb. Inr (?wrap fb))"
    by (rule lock_blind_Inr) (simp add: reset_x_value_def move_cursor_def)
  have scroll: "lock_blind ?scroll"
    using lock_blind_scroll lock_blind_Inr [of id] by (intro lock_blind_if) simp_all
  have draw: "lock_blind ?draw"
    using lock_blind_draw_bitmap [of glyphs c _ _ color] by (simp add: lock_blind_def)
  have move: "lock_blind ?next" by (rule lock_blind_Inr) (simp add: move_cursor_def)
  have "lock_blind (\<lambda>fb. bindR (Inr (?wrap fb)) (\<lambda>fb. bindR (?scroll fb) (\<lambda>fb. bindR (?draw fb) ?next)))"
    by (intro lock_blind_bind [OF wrap] lock_blind_bind [OF scroll] lock_blind_bind [OF draw] move)
  moreover have "lock_blind (\<lambda>fb. Inr (move_cursor 0 (y_pos fb + font_height fb) fb))" "lock_blind Inr"
    by (auto intro!: lock_blind_Inr simp: move_cursor_def)
  ultimately show ?thesis
    unfolding draw_char_with_context_def [abs_def] Let_def bindR_Inr by (intro lock_blind_if refl)
qed

abbreviation (input) draw_text :: "byte list \<Rightarrow> 32 word \<Rightarrow> byte list \<Rightarrow> framebuffer \<Rightarrow> framebuffer res" where
  "draw_text glyphs color \<equiv> fold_res (\<lambda>c. draw_char_with_context glyphs c color)"

lemma draw_text_ok:
  assumes "fb_ok glyphs fb"
  shows "\<exists>fb'. draw_text glyphs color cs fb = Inr fb' \<and> same_geometry fb fb'"
  by (rule fold_res_inv)
    (use assms draw_char_with_context_ok same_geometry_fb_ok same_geometry_trans same_geometry_refl in blast)+

definition lock_free :: "spinlock \<Rightarrow> bool" where
  "lock_free l \<longleftrightarrow> locked l = 0 \<and> lcpu l = NULL \<and> holding_process l = NULL \<and> recursion_depth l = 0"

definition can_lock :: "caller \<Rightarrow> bool" where
  "can_lock me \<longleftrightarrow> caller_cpu me \<noteq> NULL \<and> caller_found me 0 = 0"

lemma arch_atomic_swap_free: "found 0 = 0 \<Longrightarrow> arch_atomic_swap found 0 = (True, 0)"
  by (simp add: arch_atomic_swap.simps)

lemma with_fb_lock_draws:
  assumes "fb_ok glyphs fb" "lock_free (fb_lock fb)" "can_lock me"
    and body: "\<And>fb. body fb = draw_text glyphs color cs fb"
  shows "\<exists>fb'. draw_text glyphs color cs fb = Inr fb' \<and> with_fb_lock me body (fb, irq) = Inr (fb', True) \<and> same_geometry fb fb'"
proof -
  obtain fb' where fb': "draw_text glyphs color cs fb = Inr fb'" "same_geometry fb fb'"
    using draw_text_ok [OF assms(1)] by blast
  have "lock_blind (draw_text glyphs color cs)" by (intro lock_blind_fold lock_blind_draw_char)
  from lock_blindD [OF this] fb'(1)
  have "draw_text glyphs color cs (fb\<lparr>fb_lock := l\<rparr>) = Inr (fb'\<lparr>fb_lock := l\<rparr>)" for l by simp
  moreover have "fb_lock fb' = fb_lock fb" using fb'(2) by (simp add: same_geometry_def)
  ultimately have "with_fb_lock me body (fb, irq) = Inr (fb', True)"
    using assms(2,3) by (auto simp: with_fb_lock_def acquire_spinlock_def release_spinlock_def body lock_free_def can_lock_def
      arch_atomic_swap_free Let_def intro!: framebuffer.equality spinlock.equality)
  with fb' show ?thesis by blast
qed

lemma fb_sink_chars: "put_char (fb_sink glyphs color) = (\<lambda>c. draw_char_with_context glyphs c color)"
  by (simp add: fb_sink_def fb_ops_draw_char_def [abs_def])

lemma err_sink_chars: "put_char (err_sink glyphs) = (\<lambda>c. draw_char_with_context glyphs c RED)"
  by (simp add: err_sink_def fb_sink_def fb_ops_draw_char_def [abs_def])

lemma prefix_draws:
  assumes "\<And>fb. body fb = draw_text glyphs color cs fb" "0 \<notin> set (map of_char t :: byte list)"
  shows "bindR (fb_ops_draw_string glyphs color (ascii t) fb) body = draw_text glyphs color (map of_char t @ cs) fb"
proof -
  have "body = draw_text glyphs color cs" using assms(1) by (rule ext)
  with assms(2) show ?thesis by (simp add: ops_draw_ascii fb_ops_draw_char_def [abs_def])
qed

lemma fb_printf_loop:
  "format_ok ps \<Longrightarrow> printf_loop (fb_sink glyphs c) (format ps @ 0 # r) (format_args ps) fb = draw_text glyphs c (format_text ps) fb"
  using fb.printf_format [of ps glyphs c r "[]"] by (simp add: fb_sink_chars)

lemma err_printf_loop:
  "format_ok ps \<Longrightarrow> printf_loop (err_sink glyphs) (format ps @ 0 # r) (format_args ps) fb = draw_text glyphs RED (format_text ps) fb"
  using err.printf_format [of ps glyphs r "[]"] by (simp add: err_sink_chars)

lemma level_run:
  assumes "fb_ok glyphs fb" "lock_free (fb_lock fb)" "can_lock me" "\<And>fb. body fb = draw_text glyphs color cs fb"
    "0 \<notin> set (map of_char label :: byte list)"
  shows "\<exists>fb'. draw_text glyphs color (map of_char label @ cs) fb = Inr fb' \<and>
    with_fb_lock me (\<lambda>fb. bindR (fb_ops_draw_string glyphs color (ascii label) fb) body) (fb, irq) = Inr (fb', True) \<and> same_geometry fb fb'"
  by (rule with_fb_lock_draws [OF assms(1-3)]) (rule prefix_draws [OF assms(4,5)])

lemma ksprintf_writes:
  assumes "format_ok ps"
  shows "ksprintf buffer (format ps @ 0 # r) (format_args ps) =
    (if length (format_text ps) \<le> length buffer then Inr (format_text ps @ drop (length (format_text ps)) buffer) else Inl OutOfBounds)"
  using buffer.printf_format [OF assms, of r "[]" "(buffer, 0)"]
  by (auto simp: ksprintf_def buffer_sink_def store_fold store_bytes_def overwrite_def)

section \<open>Properties\<close>

text \<open>C7: 
  \<^verbatim>\<open>kprintf\<close> of a well-formed format string with its arguments returns, and the framebuffer is the one on which the characters of the
  formatted text have been drawn in green, one after the other; its geometry is unchanged, its lock is free again and interrupts are on.
\<close>

theorem kprintf_draws_text:
  assumes "fb_ok glyphs fb" "lock_free (fb_lock fb)" "can_lock me" "format_ok ps"
  shows "\<exists>fb'. fold_res (\<lambda>c. draw_char_with_context glyphs c GREEN) (format_text ps) fb = Inr fb' \<and>
    kprintf glyphs me (format ps @ 0 # r) (format_args ps) (fb, irq) = Inr (fb', True) \<and> same_geometry fb fb'"
  unfolding kprintf_def using assms by (intro with_fb_lock_draws fb_printf_loop)

text \<open>The variants for messages draw the label of their level before the text, in the color of the level.\<close>

definition levels :: "(fb_printf \<times> 32 word \<times> string) list" where
  "levels = [(debug_printf, WHITE, ''[DEBUG] ''), (err_printf False, RED, ''[ERROR] ''), (warn_printf, ORANGE, ''[WARN] ''),
     (info_printf, YELLOW, ''[INFO] '')]"

theorem level_printf_draws_text:
  assumes "fb_ok glyphs fb" "lock_free (fb_lock fb)" "can_lock me" "format_ok ps" "(printf, color, label) \<in> set levels"
  shows "\<exists>fb'. fold_res (\<lambda>c. draw_char_with_context glyphs c color) (map of_char label @ format_text ps) fb = Inr fb' \<and>
    printf glyphs me (format ps @ 0 # r) (format_args ps) (fb, irq) = Inr (fb', True) \<and> same_geometry fb fb'"
proof -
  note run = level_run [OF assms(1-3) fb_printf_loop [OF assms(4)]] and erun = level_run [OF assms(1-3) err_printf_loop [OF assms(4)]]
  consider "printf = debug_printf" "color = WHITE" "label = ''[DEBUG] ''" | "printf = err_printf False" "color = RED" "label = ''[ERROR] ''"
    | "printf = warn_printf" "color = ORANGE" "label = ''[WARN] ''" | "printf = info_printf" "color = YELLOW" "label = ''[INFO] ''"
    using assms(5) by (auto simp: levels_def)
  then show ?thesis
  proof cases
    case 1
    then show ?thesis unfolding 1 debug_printf_def by (intro run) simp
  next
    case 2
    then show ?thesis unfolding 2 err_printf_def if_False by (intro erun) simp
  next
    case 3
    then show ?thesis unfolding 3 warn_printf_def by (intro run) simp
  next
    case 4
    then show ?thesis unfolding 4 info_printf_def by (intro run) simp
  qed
qed

text \<open>
  \<^verbatim>\<open>ksprintf\<close> writes the formatted text to the start of the buffer and leaves the rest of it; there is no terminator behind the
  text, and a buffer that is too short is overrun.
\<close>

theorem ksprintf_writes_text:
  assumes "format_ok ps"
  shows "ksprintf buffer (format ps @ 0 # r) (format_args ps) =
    (if length (format_text ps) \<le> length buffer then Inr (format_text ps @ drop (length (format_text ps)) buffer) else Inl OutOfBounds)"
  using assms by (rule ksprintf_writes)

text \<open>C29: 
  What is printed of a number can be read back: the decimal digits give the number, the hexadecimal digits behind the prefix its value
  modulo two to the size.
\<close>

theorem printed_numbers_read_back:
  assumes "bits \<in> {8, 16, 32, 64}" "22 \<le> length buffer"
  shows "(\<exists>out n. ksprintf buffer (ascii ''%i'') [ANum v] = Inr out \<and> n \<le> 20 \<and> number 10 (take n out) = unat v) \<and>
    (\<exists>out. ksprintf buffer (map of_char (''%x.'' @ bits_text bits) @ [0]) [ANum v] = Inr out \<and>
       take 2 out = map of_char ''0x'' \<and> number 16 (take (bits div 4) (drop 2 out)) = unat v mod 2 ^ bits)"
proof
  have "length (dec_text (unat v)) \<le> length buffer" using dec_text_20 [of v] assms(2) by linarith
  then show "\<exists>out n. ksprintf buffer (ascii ''%i'') [ANum v] = Inr out \<and> n \<le> 20 \<and> number 10 (take n out) = unat v"
    using ksprintf_writes [of "[Dec v]" buffer "[]"] number_dec_text [of "unat v"] dec_text_20 [of v]
    by (auto simp: ascii_def intro!: exI [of _ "length (dec_text (unat v))"])
next
  have p: "(16 :: nat) ^ (bits div 4) = 2 ^ bits" using assms(1) by auto
  have l: "length (hex_text v bits) = 2 + bits div 4" by (simp add: hex_text_def)
  also have "\<dots> \<le> length buffer" using assms by auto
  finally have "ksprintf buffer (map of_char (''%x.'' @ bits_text bits) @ [0]) [ANum v] = Inr (hex_text v bits @ drop (2 + bits div 4) buffer)"
    using ksprintf_writes [of "[Hex bits v]" buffer "[]"] assms(1) l by simp
  then show "\<exists>out. ksprintf buffer (map of_char (''%x.'' @ bits_text bits) @ [0]) [ANum v] = Inr out \<and>
      take 2 out = map of_char ''0x'' \<and> number 16 (take (bits div 4) (drop 2 out)) = unat v mod 2 ^ bits"
    using number_nibbles [of "unat v" "bits div 4"] p by (simp add: hex_text_def)
qed

section \<open>Witnesses\<close>

definition demo_caller :: caller where
  "demo_caller = \<lparr>caller_bsp = False, caller_cpu = 1, caller_process = 2, caller_found = (\<lambda>_. 0)\<rparr>"

definition demo_format :: "piece list" where
  "demo_format = [Lit 73, Lit 58, Dec 255, Lit 10, Hex 8 255, Lit 32, Text [111, 107]]"

lemma demo_console: "fb_ok demo_glyphs (demo_fb 2 3 0 0)" "lock_free (fb_lock (demo_fb 2 3 0 0))" "can_lock demo_caller"
  "format_ok demo_format"
  by (simp_all add: demo_fb_ok) (simp_all add: demo_fb_def lock_free_def fresh_lock_def initlock_def can_lock_def demo_caller_def
    demo_format_def)

theorem kprintf_draws_text_witness:
  "\<exists>fb'. kprintf demo_glyphs demo_caller (format demo_format @ 0 # []) (format_args demo_format) (demo_fb 2 3 0 0, True) = Inr (fb', True)"
  using kprintf_draws_text [OF demo_console, of "[]" True] by blast

theorem level_printf_draws_text_witness:
  "\<exists>fb'. warn_printf demo_glyphs demo_caller (format demo_format @ 0 # []) (format_args demo_format) (demo_fb 2 3 0 0, True) = Inr (fb', True)"
  using level_printf_draws_text [OF demo_console, of warn_printf ORANGE "''[WARN] ''" "[]" True] by (auto simp: levels_def)

lemma demo_text: "format_text demo_format = map of_char ''I:255'' @ 10 # map of_char ''0xFF ok''"
  by code_simp

theorem ksprintf_writes_text_witness:
  "ksprintf (replicate 16 9) (format demo_format @ 0 # []) (format_args demo_format) =
     Inr (map of_char ''I:255'' @ 10 # map of_char ''0xFF ok'' @ replicate 3 9)"
  using ksprintf_writes_text [OF demo_console(4), of "replicate 16 9" "[]"] by (simp add: demo_text)

theorem printed_numbers_read_back_witness:
  "\<exists>out. ksprintf (replicate 30 0) (ascii ''%i'') [ANum 4095] = Inr out \<and> (\<exists>n. number 10 (take n out) = 4095)"
  using printed_numbers_read_back [of 16 "replicate 30 0" 4095] by auto

end
