(* ===== verification/Serial.thy ===== *)
theory Serial
  imports Console Devices
begin

text \<open>
  The serial port of \<^verbatim>\<open>drivers/serial/uart.c\<close>: \<^verbatim>\<open>serial_printf\<close> and what it prints with, on a device that is the list of the values its
  line status register will show and the list of what was written to its ports.
\<close>

section \<open>The device\<close>

record serial_port =
  line_status :: "byte list"
  received :: "byte list"
  port_writes :: "(16 word \<times> byte) list"
  serial_lock :: spinlock

abbreviation (input) BASE :: "16 word" where "BASE \<equiv> 0x3F8"
abbreviation (input) DEVICE_MAJOR_SERIAL :: "64 word" where "DEVICE_MAJOR_SERIAL \<equiv> 7"
abbreviation (input) BASE_SERIAL_DEVICE :: "64 word" where "BASE_SERIAL_DEVICE \<equiv> 0"
abbreviation (input) SERIAL_LOCK :: "64 word" where "SERIAL_LOCK \<equiv> 0"

text \<open>A write to a port is recorded with its value; the instruction that does it is one for 32 bits, of which these are the low eight.\<close>

definition write_port :: "16 word \<Rightarrow> byte \<Rightarrow> serial_port \<Rightarrow> serial_port" where
  "write_port port v s = s\<lparr>port_writes := port_writes s @ [(port, v)]\<rparr>"

text \<open>
  The wait for bit 5 of the line status, which is read once in each round. A list that ends without it stands for a device that
  never becomes ready.
\<close>

fun wait_transmit_empty :: "byte list \<Rightarrow> byte list res" where
  "wait_transmit_empty [] = Inl Hangs"
| "wait_transmit_empty (v # vs) = (if v AND 0x20 = 0 then wait_transmit_empty vs else Inr vs)"

definition write_serial :: "byte \<Rightarrow> serial_port \<Rightarrow> serial_port res" where
  "write_serial a s = bindR (wait_transmit_empty (line_status s)) (\<lambda>vs.
     let s = s\<lparr>line_status := vs\<rparr>; s = (if a = 10 then write_port BASE 13 s else s) in Inr (write_port BASE a s))"

fun write_string_serial :: "byte list \<Rightarrow> serial_port \<Rightarrow> serial_port res" where
  "write_string_serial [] s = Inl OutOfBounds"
| "write_string_serial (c # str) s = (if c = 0 then Inr s else bindR (write_serial c s) (write_string_serial str))"

definition write_hex_serial :: "64 word \<Rightarrow> nat \<Rightarrow> serial_port \<Rightarrow> serial_port res" where
  "write_hex_serial num bits s = bindR (write_string_serial (ascii ''0x'') s) (hex_loop write_serial num (bits div 4))"

text \<open>The loop of \<^verbatim>\<open>write_binary_serial\<close> runs while its unsigned counter is below zero.\<close>

function write_binary_loop :: "64 word \<Rightarrow> byte \<Rightarrow> nat \<Rightarrow> serial_port \<Rightarrow> serial_port res" where
  "write_binary_loop num i separator s =
     (if i < 0 then
        bindR (write_serial (of_char (if bit num (unat i) then CHR ''1'' else CHR ''0'')) s) (\<lambda>s.
        let separator = separator + 1 in
        bindR (if separator mod 4 = 0 \<and> i \<noteq> 63 then write_serial (of_char (CHR ''-'')) s else Inr s) (\<lambda>s.
        write_binary_loop num (i - 1) separator s))
      else Inr s)"
  by pat_completeness auto
termination
  by (relation "measure (\<lambda>_. 0)") auto

definition write_binary_serial :: "64 word \<Rightarrow> byte \<Rightarrow> serial_port \<Rightarrow> serial_port res" where
  "write_binary_serial num bits s = write_binary_loop num bits 0 s"

definition put :: "byte \<Rightarrow> serial_port \<Rightarrow> serial_port \<times> int" where
  "put c s = (write_port BASE c s, 0)"

text \<open>Reading the port takes the next byte that was received; what it shows when there is none is not modelled.\<close>

definition get :: "serial_port \<Rightarrow> (serial_port \<times> 32 word) res" where
  "get s = (case received s of [] \<Rightarrow> Inl Unmodelled | c # cs \<Rightarrow> Inr (s\<lparr>received := cs\<rparr>, ucast c))"

section \<open>Printing\<close>

definition serial_sink :: "serial_port sink" where
  "serial_sink = \<lparr>
     put_char = write_serial,
     put_string = write_string_serial,
     put_newline = write_string_serial [10, 0],
     put_hex = write_hex_serial,
     put_zero = write_serial (of_char (CHR ''0'')),
     put_other = (\<lambda>c args s.
       if c = of_char (CHR ''b'') then
         bindR (va_arg64 args) (\<lambda>(v, args). bindR (write_binary_serial v 64 s) (\<lambda>s. Inr (args, s)))
       else bindR (write_serial (of_char (CHR ''%'')) s) (\<lambda>s. bindR (write_serial c s) (\<lambda>s. Inr (args, s)))),
     put_other_size = (\<lambda>args s. bindR (va_arg64 args) (\<lambda>(v, args). bindR (write_hex_serial v 64 s) (\<lambda>s. Inr (args, s))))\<rparr>"

definition serial_printf :: "caller \<Rightarrow> byte list \<Rightarrow> arg list \<Rightarrow> serial_port \<times> bool \<Rightarrow> (serial_port \<times> bool) res" where
  "serial_printf me str args = (\<lambda>(s, irq).
     case acquire_spinlock (caller_bsp me) (caller_cpu me) (caller_process me) (caller_found me) (serial_lock s, irq) of (l, irq) \<Rightarrow>
     bindR (printf_loop serial_sink str args (s\<lparr>serial_lock := l\<rparr>)) (\<lambda>s.
     case release_spinlock (serial_lock s, irq) of (l, irq) \<Rightarrow> Inr (s\<lparr>serial_lock := l\<rparr>, irq)))"

text \<open>The fields of \<^verbatim>\<open>serial_device\<close> that the device layer does not use are left out; \<open>driver\<close> is the address of \<^verbatim>\<open>serial_driver\<close>.\<close>

definition init_serial :: "byte list \<Rightarrow> caller \<Rightarrow> addr \<Rightarrow> device \<Rightarrow> serial_port \<Rightarrow> framebuffer \<times> bool \<Rightarrow>
    (device \<times> serial_port \<times> framebuffer \<times> bool) res" where
  "init_serial glyphs me driver d s console =
     (let s = write_port (BASE + 1) 0x00 s;
          s = write_port (BASE + 3) 0x80 s;
          s = write_port BASE 0x03 s;
          s = write_port (BASE + 1) 0x00 s;
          s = write_port (BASE + 3) 0x03 s;
          s = write_port (BASE + 2) 0xC7 s;
          s = write_port (BASE + 4) 0x0B s;
          s = s\<lparr>serial_lock := initlock (serial_lock s) SERIAL_LOCK\<rparr>;
          d = d\<lparr>device_major := DEVICE_MAJOR_SERIAL, device_minor := BASE_SERIAL_DEVICE, dev_parent := NULL, dev_info := NULL,
                dev_driver := driver\<rparr> in
      bindR (kprintf glyphs me (map of_char ''Serial Initialized'' @ [10, 0]) [] console) (\<lambda>console. Inr (d, s, console)))"

section \<open>The contract\<close>

lemma write_string_fold: "0 \<notin> set x \<Longrightarrow> write_string_serial (x @ 0 # r) s = fold_res write_serial x s"
  by (induction x arbitrary: s) (auto simp: bindR_def split: sum.splits)

lemma write_hex_fold: "write_hex_serial v bits s = fold_res write_serial (hex_text v bits) s"
proof -
  have "write_string_serial (ascii ''0x'') s = fold_res write_serial (map of_char ''0x'') s"
    unfolding ascii_def by (rule write_string_fold) simp
  then show ?thesis unfolding write_hex_serial_def hex_text_def fold_res_append hex_loop_eq [abs_def] by (rule arg_cong)
qed

interpretation serial: char_sink serial_sink
proof
  show "put_newline serial_sink s = put_char serial_sink 10 s" for s
    by (simp add: serial_sink_def bindR_def split: sum.splits)
qed (simp_all add: serial_sink_def write_string_fold write_hex_fold characters_def)

lemma write_binary_serial_nothing: "write_binary_serial num bits s = Inr s"
  by (simp add: write_binary_serial_def)

section \<open>Properties\<close>

text \<open>What goes out on the line for a text: a carriage return before each newline.\<close>

definition crlf :: "byte list \<Rightarrow> byte list" where
  "crlf cs = concat (map (\<lambda>c. if c = 10 then [13, 10] else [c]) cs)"

definition ready :: "byte \<Rightarrow> bool" where
  "ready v \<longleftrightarrow> bit v 5"

lemma ready_mask: "ready v \<longleftrightarrow> v AND 0x20 \<noteq> 0"
  using and_exp_eq_0_iff_not_bit [of v 5] by (simp add: ready_def)

lemma wait_transmit_empty_drop:
  "wait_transmit_empty vs = (if list_ex ready vs then Inr (tl (dropWhile (\<lambda>v. \<not> ready v) vs)) else Inl Hangs)"
  by (induction vs) (auto simp: ready_mask)

text \<open>How much of the line status is left after the waits for \<open>n\<close> characters.\<close>

fun after_waits :: "nat \<Rightarrow> byte list \<Rightarrow> byte list option" where
  "after_waits 0 vs = Some vs"
| "after_waits (Suc n) vs = (if list_ex ready vs then after_waits n (tl (dropWhile (\<lambda>v. \<not> ready v) vs)) else None)"

lemma after_waits_enough: "n \<le> length (filter ready vs) \<Longrightarrow> \<exists>vs'. after_waits n vs = Some vs'"
proof (induction n arbitrary: vs)
  case 0
  then show ?case by simp
next
  case (Suc n)
  have "length (filter ready vs) = Suc (length (filter ready (tl (dropWhile (\<lambda>v. \<not> ready v) vs)))) \<and> list_ex ready vs"
    using Suc.prems by (induction vs) auto
  with Suc show ?case by simp
qed

lemma write_serial_text:
  "after_waits (length cs) (line_status s) = Some vs \<Longrightarrow>
   fold_res write_serial cs s = Inr (s\<lparr>line_status := vs, port_writes := port_writes s @ map (Pair BASE) (crlf cs)\<rparr>)"
proof (induction cs arbitrary: s)
  case Nil
  then show ?case by (simp add: crlf_def)
next
  case (Cons c cs)
  let ?vs = "tl (dropWhile (\<lambda>v. \<not> ready v) (line_status s))"
  let ?s = "s\<lparr>line_status := ?vs, port_writes := port_writes s @ map (Pair BASE) (crlf [c])\<rparr>"
  have "list_ex ready (line_status s)" "after_waits (length cs) (line_status ?s) = Some vs"
    using Cons.prems by (simp_all split: if_splits)
  moreover have "write_serial c s = Inr ?s" using calculation(1)
    by (simp add: write_serial_def wait_transmit_empty_drop write_port_def crlf_def)
  ultimately show ?case using Cons.IH [of ?s] by (simp add: crlf_def)
qed

text \<open>
  \<^verbatim>\<open>serial_printf\<close> of a well-formed format string returns when the device shows itself ready often enough, once for each character
  of the formatted text, and then the text has been written to the data port with a carriage return before each newline.
\<close>

theorem serial_printf_sends_text:
  assumes "format_ok ps" "lock_free (serial_lock s)" "can_lock me" "length (format_text ps) \<le> length (filter ready (line_status s))"
  shows "\<exists>vs. serial_printf me (format ps @ 0 # r) (format_args ps) (s, irq) =
    Inr (s\<lparr>line_status := vs, port_writes := port_writes s @ map (Pair BASE) (crlf (format_text ps))\<rparr>, True)"
proof -
  obtain vs where vs: "after_waits (length (format_text ps)) (line_status s) = Some vs"
    using after_waits_enough [OF assms(4)] by blast
  have "printf_loop serial_sink (format ps @ 0 # r) (format_args ps) (s\<lparr>serial_lock := l\<rparr>) =
      Inr (s\<lparr>serial_lock := l, line_status := vs, port_writes := port_writes s @ map (Pair BASE) (crlf (format_text ps))\<rparr>)" for l
    using serial.printf_format [OF assms(1), of r "[]" "s\<lparr>serial_lock := l\<rparr>"] write_serial_text [of "format_text ps" "s\<lparr>serial_lock := l\<rparr>" vs] vs
    by (simp add: serial_sink_def)
  then show ?thesis
    using assms(2,3) by (auto simp: serial_printf_def acquire_spinlock_def release_spinlock_def lock_free_def can_lock_def
      arch_atomic_swap_free Let_def intro!: exI [of _ vs] serial_port.equality spinlock.equality)
qed

text \<open>The binary directive takes its argument and prints nothing.\<close>

theorem serial_binary_prints_nothing:
  "printf_loop serial_sink (map of_char ''%b'' @ 0 # r) (ANum v # args) s = Inr s"
  by (simp add: serial_sink_def write_binary_serial_nothing)

definition demo_serial :: serial_port where
  "demo_serial = \<lparr>line_status = replicate 20 0x20, received = [], port_writes = [], serial_lock = fresh_lock\<rparr>"

theorem serial_printf_sends_text_witness:
  "\<exists>s'. serial_printf demo_caller (format demo_format @ 0 # []) (format_args demo_format) (demo_serial, True) = Inr (s', True) \<and>
    map snd (port_writes s') = map of_char ''I:255'' @ 13 # 10 # map of_char ''0xFF ok''"
proof -
  have "ready 0x20" by code_simp
  then have "length (format_text demo_format) \<le> length (filter ready (line_status demo_serial))"
    by (simp add: demo_text demo_serial_def filter_replicate)
  moreover have "lock_free (serial_lock demo_serial)" by (simp add: demo_serial_def lock_free_def fresh_lock_def initlock_def)
  moreover have "crlf (format_text demo_format) = map of_char ''I:255'' @ 13 # 10 # map of_char ''0xFF ok''" by code_simp
  ultimately show ?thesis
    using serial_printf_sends_text [OF demo_console(4), of demo_serial demo_caller "[]" True] demo_console(3)
    by (auto simp: demo_serial_def o_def)
qed

end
