(* ===== verification/Pci.thy ===== *)
theory Pci
  imports Doubly_Linked Locks Paging
begin

text \<open>
  The PCI bus of \<^verbatim>\<open>drivers/bus/pci.c\<close>: access to configuration space, the enumeration of the functions on all buses and the list of
  what it registers. What a read of 32 bits from an address of the configuration space returns is an argument. The setting
  up of NVMe and AHCI controllers is recorded as a trace of calls, messages are left out.
\<close>

section \<open>State\<close>

record pci_bus_information =
  pci_mmio_address :: "64 word"
  start_bus :: "8 word"
  end_bus :: "8 word"

record generic_pci_device =
  generic_base_address_registers :: "32 word list"
  sub_vendor :: "16 word"
  sub_device :: "16 word"
  generic_expansion_rom :: "32 word"
  generic_capabilities :: "8 word"
  generic_int_line :: "8 word"
  min_grant :: "8 word"
  max_latency :: "8 word"

record pci_bridge =
  bridge_base_address_registers :: "32 word list"
  bus_primary :: "8 word"
  bus_secondary :: "8 word"
  bus_subordinate :: "8 word"
  latency_timer2 :: "8 word"
  io_base :: "8 word"
  io_limit :: "8 word"
  status2 :: "16 word"
  mem_base :: "16 word"
  mem_limit :: "16 word"
  pre_base :: "16 word"
  pre_limit :: "16 word"
  pre_base_upper :: "32 word"
  pre_limit_upper :: "32 word"
  io_base_upper :: "16 word"
  io_limit_upper :: "16 word"
  bridge_capabilities :: "8 word"
  bridge_expansion_rom :: "32 word"
  bridge_int_line :: "8 word"
  bridge_int_pin :: "8 word"
  bridge_control :: "16 word"

text \<open>The union of the two kinds of header; \<open>Cleared\<close> is the union after \<^verbatim>\<open>memset\<close>.\<close>

datatype pci_header = Cleared | Generic generic_pci_device | Bridge pci_bridge

text \<open>The fields that no code sets are left out; the slot of a device is the pair of its bus and its number.\<close>

record pci_device =
  pci_bus :: "16 word"
  pci_slot_number :: "16 word"
  pci_function :: "8 word"
  vendor_id :: "16 word"
  device_id :: "16 word"
  revision_id :: "16 word"
  header_type :: "8 word"
  pci_command :: "16 word"
  pci_class :: "8 word"
  pci_subclass :: "8 word"
  sixtyfour_bit_bar :: bool
  pci_registered :: bool
  pci_header :: pci_header
  pci_slot :: "(nat \<times> nat) option"

definition no_device :: pci_device where
  "no_device = \<lparr>pci_bus = 0, pci_slot_number = 0, pci_function = 0, vendor_id = 0, device_id = 0, revision_id = 0, header_type = 0,
     pci_command = 0, pci_class = 0, pci_subclass = 0, sixtyfour_bit_bar = False, pci_registered = False, pci_header = Cleared,
     pci_slot = None\<rparr>"

type_synonym pci_place = "nat \<times> nat \<times> nat"

datatype pci_setup = Setup_Nvme pci_place | Setup_Ahci pci_place

record pci_state =
  pci_buses :: "pci_place \<Rightarrow> pci_device"
  pci_info :: pci_bus_information
  pci_nodes :: dll_mem
  registered_pci_devices :: dll
  registered_lock :: spinlock
  setup_calls :: "pci_setup list"
  config_writes :: "(64 word \<times> 32 word) list"

abbreviation (input) PCI_MAX_BUSES :: nat where "PCI_MAX_BUSES \<equiv> 256"
abbreviation (input) SLOTS_PER_BUS :: nat where "SLOTS_PER_BUS \<equiv> 32"
abbreviation (input) FUNCTIONS_PER_DEVICE :: nat where "FUNCTIONS_PER_DEVICE \<equiv> 8"
abbreviation (input) PCI_CLASS_UNASSIGNED :: "8 word" where "PCI_CLASS_UNASSIGNED \<equiv> 0xFF"
abbreviation (input) PCI_DEVICE_DOESNT_EXIST :: "16 word" where "PCI_DEVICE_DOESNT_EXIST \<equiv> 0xFFFF"
abbreviation (input) PCI_DEVICE_COMMAND_OFFSET :: "16 word" where "PCI_DEVICE_COMMAND_OFFSET \<equiv> 0x04"
abbreviation (input) PCI_GENERIC_BAR0_OFFSET :: "16 word" where "PCI_GENERIC_BAR0_OFFSET \<equiv> 0x10"

section \<open>Configuration space\<close>

text \<open>The shifts are done on an \<^verbatim>\<open>int\<close>, in which the numbers of buses, slots and functions leave room for them.\<close>

definition pci_config_address :: "64 word \<Rightarrow> pci_bus_information \<Rightarrow> pci_device \<Rightarrow> 16 word \<Rightarrow> 64 word" where
  "pci_config_address hhdm info d offset =
     pci_mmio_address info + hhdm + push_bit 16 (ucast (pci_bus d)) + push_bit 11 (ucast (pci_slot_number d)) +
     push_bit 8 (ucast (pci_function d)) + ucast offset"

definition pci_read_config :: "(64 word \<Rightarrow> 32 word) \<Rightarrow> 64 word \<Rightarrow> pci_bus_information \<Rightarrow> pci_device \<Rightarrow> 16 word \<Rightarrow> 32 word" where
  "pci_read_config mmio hhdm info d offset = mmio (pci_config_address hhdm info d offset)"

definition pci_write_config :: "64 word \<Rightarrow> pci_device \<Rightarrow> 16 word \<Rightarrow> 32 word \<Rightarrow> pci_state \<Rightarrow> pci_state" where
  "pci_write_config hhdm d offset v s = s\<lparr>config_writes := config_writes s @ [(pci_config_address hhdm (pci_info s) d offset, v)]\<rparr>"

record mcfg_entry =
  mcfg_base_address :: "64 word"
  segment_group :: "16 word"
  mcfg_start_bus :: "8 word"
  mcfg_end_bus :: "8 word"

definition set_pci_mmio_address :: "mcfg_entry \<Rightarrow> pci_state \<Rightarrow> pci_state" where
  "set_pci_mmio_address e s = s\<lparr>registered_pci_devices := doubly_linked_list_init,
     pci_info := \<lparr>pci_mmio_address = mcfg_base_address e, start_bus = mcfg_start_bus e, end_bus = mcfg_end_bus e\<rparr>\<rparr>"

text \<open>Mapping of a region of device memory; the load of the page table register is left out, and the address is taken for a virtual one.\<close>

definition pci_map_bar :: "64 word \<Rightarrow> 64 word \<Rightarrow> 64 word \<Rightarrow> 8 word \<Rightarrow> 64 word \<Rightarrow> vm \<Rightarrow> vm res" where
  "pci_map_bar hhdm bar pgdir permissions pages s =
     bindR (map_pages pgdir bar (bar - hhdm) (ucast permissions) (0x1000 * pages) s) (\<lambda>(s, ret). Inr s)"

definition is_bar_64bit :: "32 word \<Rightarrow> bool" where
  "is_bar_64bit address \<longleftrightarrow> address AND 0x6 = 0x4"

definition get_pci_info :: "pci_state \<Rightarrow> pci_bus_information" where
  "get_pci_info s = pci_info s"

section \<open>Names\<close>

definition class_names :: "(byte \<times> string) list" where
  "class_names = [
     (0x00, ''Unknown Device''), (0x01, ''Mass Storage Controller''), (0x02, ''Network Controller''),
      (0x03, ''Display Controller''), (0x04, ''Multimedia Controller''), (0x05, ''Memory Controller''), (0x06, ''Bridge''),
      (0x07, ''Simple Communication Controller''), (0x08, ''Base System Peripheral''), (0x09, ''Input Device Controller''),
      (0x0A, ''Docking Station''), (0x0B, ''Processor''), (0x0C, ''Serial Bus Controller''), (0x0D, ''Wireless Controller''),
      (0x0E, ''Intelligent Controller''), (0x0F, ''Satellite Communication Controller''), (0x10, ''Encryption Controller''),
      (0x11, ''Signal Processing Controller''), (0x12, ''Processing Accelerator''), (0x13, ''Non-Essential Instrumentation''),
      (0x40, ''Co-Processor''), (0xFF, ''Unassigned'')]"

definition pci_get_class_name :: "byte \<Rightarrow> byte list" where
  "pci_get_class_name c = ascii (case map_of class_names c of None \<Rightarrow> ''Unknown'' | Some n \<Rightarrow> n)"

definition subclass_names :: "(byte \<times> (byte \<times> string) list \<times> string) list" where
  "subclass_names = [
     (0x01, [(0x00, ''SCSI Bus Controller''), (0x01, ''IDE Controller''), (0x02, ''Floppy Disk Controller''),
        (0x03, ''IPI Bus Controller''), (0x04, ''RAID Controller''), (0x05, ''ATA Controller''),
        (0x06, ''Serial ATA Controller''), (0x07, ''Serial Attached SCSI Controller''),
        (0x08, ''Non-Volatile Memory Controller''), (0x80, ''Other Mass Storage Controller'')],
        ''Unknown Mass Storage Subclass''),
     (0x02, [(0x00, ''Ethernet Controller''), (0x01, ''Token Ring Controller''), (0x02, ''FDDI Controller''),
        (0x03, ''ATM Controller''), (0x04, ''ISDN Controller''), (0x05, ''WorldFip Controller''), (0x06, ''PICMG Controller''),
        (0x80, ''Other Network Controller'')],
        ''Unknown Network Subclass''),
     (0x03, [(0x00, ''VGA Compatible Controller''), (0x01, ''XGA Controller''), (0x02, ''3D Controller''),
        (0x80, ''Other Display Controller'')],
        ''Unknown Display Subclass''),
     (0x04, [(0x00, ''Multimedia Video Controller''), (0x01, ''Multimedia Audio Controller''),
        (0x02, ''Computer Telephony Device''), (0x03, ''Audio Device''), (0x80, ''Other Multimedia Controller'')],
        ''Unknown Multimedia Subclass''),
     (0x06, [(0x00, ''Host Bridge''), (0x01, ''ISA Bridge''), (0x02, ''EISA Bridge''), (0x03, ''MCA Bridge''),
        (0x04, ''PCI-to-PCI Bridge''), (0x05, ''PCMCIA Bridge''), (0x06, ''NuBus Bridge''), (0x07, ''CardBus Bridge''),
        (0x08, ''RACEway Bridge''), (0x09, ''PCI-to-PCI Bridge (Secondary)''), (0x0A, ''InfiniBand-to-PCI Host Bridge''),
        (0x80, ''Other Bridge Device'')],
        ''Unknown Bridge Subclass''),
     (0x0C, [(0x00, ''FireWire (IEEE 1394) Controller''), (0x01, ''ACCESS Bus''), (0x02, ''SSA''), (0x03, ''USB Controller''),
        (0x04, ''Fibre Channel''), (0x05, ''SMBus Controller''), (0x06, ''InfiniBand Controller''), (0x07, ''IPMI Interface''),
        (0x08, ''SERCOS Interface''), (0x09, ''CANbus Controller''), (0x80, ''Other Serial Bus Controller'')],
        ''Unknown Serial Bus Subclass''),
     (0x0D, [(0x00, ''iRDA Controller''), (0x01, ''Consumer IR Controller''), (0x10, ''RF Controller''),
        (0x11, ''Bluetooth Controller''), (0x12, ''Broadband Controller''), (0x20, ''Ethernet Controller (802.1a)''),
        (0x21, ''Ethernet Controller (802.1b)''), (0x80, ''Other Wireless Controller'')],
        ''Unknown Wireless Subclass'')]"

definition pci_get_subclass_name :: "byte \<Rightarrow> byte \<Rightarrow> byte list" where
  "pci_get_subclass_name c sub = ascii (case map_of subclass_names c of
     None \<Rightarrow> ''Unknown Subclass''
   | Some (names, other) \<Rightarrow> (case map_of names sub of None \<Rightarrow> other | Some n \<Rightarrow> n))"

section \<open>Enumeration\<close>

definition read_bridge :: "(16 word \<Rightarrow> 32 word) \<Rightarrow> pci_bridge" where
  "read_bridge rd = \<lparr>
     bridge_base_address_registers = [rd 0x10, rd 0x14],
     bus_primary = ucast (rd 0x18),
     bus_secondary = ucast (rd 0x19),
     bus_subordinate = ucast (rd 0x1A),
     latency_timer2 = ucast (rd 0x1B),
     io_base = ucast (rd 0x1C),
     io_limit = ucast (rd 0x1D),
     status2 = ucast (rd 0x1E),
     mem_base = ucast (rd 0x20),
     mem_limit = ucast (rd 0x22),
     pre_base = ucast (rd 0x24),
     pre_limit = ucast (rd 0x26),
     pre_base_upper = rd 0x28,
     pre_limit_upper = rd 0x2C,
     io_base_upper = ucast (rd 0x30),
     io_limit_upper = ucast (rd 0x32),
     bridge_capabilities = ucast (rd 0x34),
     bridge_expansion_rom = rd 0x38,
     bridge_int_line = ucast (rd 0x3C),
     bridge_int_pin = ucast (rd 0x3D),
     bridge_control = ucast (rd 0x3E)\<rparr>"

definition read_generic :: "(16 word \<Rightarrow> 32 word) \<Rightarrow> generic_pci_device" where
  "read_generic rd = \<lparr>
     generic_base_address_registers = [rd 0x10, rd 0x14, rd 0x18, rd 0x1C, rd 0x20, rd 0x24],
     sub_vendor = ucast (rd 0x2C),
     sub_device = ucast (rd 0x2E),
     generic_expansion_rom = rd 0x30,
     generic_capabilities = ucast (rd 0x34),
     generic_int_line = ucast (rd 0x3C),
     min_grant = ucast (rd 0x3E),
     max_latency = ucast (rd 0x3F)\<rparr>"

definition IS_NVME_CONTROLLER :: "pci_device \<Rightarrow> bool" where
  "IS_NVME_CONTROLLER d \<longleftrightarrow> pci_class d = 1 \<and> pci_subclass d = 8"

definition IS_AHCI_CONTROLLER :: "pci_device \<Rightarrow> bool" where
  "IS_AHCI_CONTROLLER d \<longleftrightarrow> pci_class d = 1 \<and> (pci_subclass d = 5 \<or> pci_subclass d = 6)"

text \<open>What is read of a function, and its registration.\<close>

definition read_device :: "(16 word \<Rightarrow> 32 word) \<Rightarrow> nat \<times> nat \<Rightarrow> pci_device \<Rightarrow> pci_device" where
  "read_device rd slot d =
     (let d = d\<lparr>vendor_id := ucast (rd 0x00), pci_class := ucast (rd 0x0B), device_id := ucast (rd 0x02), pci_command := ucast (rd 0x04),
                revision_id := ucast (rd 0x08), header_type := ucast (rd 0x0E), pci_subclass := ucast (rd 0x0A)\<rparr>;
          d = (if rd PCI_GENERIC_BAR0_OFFSET AND 0x6 = 0x4 then d\<lparr>sixtyfour_bit_bar := True\<rparr> else d) in
      d\<lparr>pci_header := (if header_type d = 1 then Bridge (read_bridge rd) else Generic (read_generic rd)),
        pci_slot := Some slot, pci_registered := True\<rparr>)"

definition register_function :: "(pci_place \<Rightarrow> addr) \<Rightarrow> pci_place \<Rightarrow> pci_device \<Rightarrow> pci_state \<Rightarrow> pci_state res" where
  "register_function at place d s =
     (let s = s\<lparr>pci_buses := (pci_buses s)(place := d)\<rparr>;
          s = (if IS_NVME_CONTROLLER d then s\<lparr>setup_calls := setup_calls s @ [Setup_Nvme place]\<rparr> else s);
          s = (if IS_AHCI_CONTROLLER d then s\<lparr>setup_calls := setup_calls s @ [Setup_Ahci place]\<rparr> else s) in
      bindR (doubly_linked_list_insert_head (pci_nodes s) (registered_pci_devices s) (at place)) (\<lambda>(m, l).
      Inr (s\<lparr>pci_nodes := m, registered_pci_devices := l\<rparr>)))"

text \<open>
  One round of the innermost loop: the new state, and whether the loop over the functions is left. \<open>at\<close> are the addresses of
  the device objects in \<^verbatim>\<open>pci_buses\<close>. A device object that is passed over is cleared.
\<close>

definition probe_function :: "(64 word \<Rightarrow> 32 word) \<Rightarrow> 64 word \<Rightarrow> (pci_place \<Rightarrow> addr) \<Rightarrow> nat \<Rightarrow> nat \<Rightarrow> nat \<Rightarrow> pci_state \<Rightarrow> (pci_state \<times> bool) res" where
  "probe_function mmio hhdm at bus slot fn s =
     (let place = (bus, slot, fn); d = pci_buses s place in
      if pci_registered d then Inr (s, False)
      else
        let d = d\<lparr>pci_bus := word_of_nat bus, pci_slot_number := word_of_nat slot, pci_function := word_of_nat fn\<rparr>;
            rd = pci_read_config mmio hhdm (pci_info s) d;
            cleared = s\<lparr>pci_buses := (pci_buses s)(place := no_device)\<rparr>;
            cls = ucast (rd 0x0B) in
        if ucast (rd 0x00) = PCI_DEVICE_DOESNT_EXIST then Inr (cleared, fn = 0)
        else
          bindR (if cls = PCI_CLASS_UNASSIGNED then Inr 1 else safe_strcmp (pci_get_class_name cls) (ascii ''Unknown'') 100) (\<lambda>skip.
          if skip \<noteq> 0 then Inr (cleared, False)
          else if (ucast (rd 0x0E) :: byte) \<noteq> 1 \<and> (ucast (rd 0x0E) :: byte) \<noteq> 0 then Inr (cleared, False)
          else bindR (register_function at place (read_device rd (bus, slot) d) s) (\<lambda>s. Inr (s, False))))"

fun functions_loop :: "(64 word \<Rightarrow> 32 word) \<Rightarrow> 64 word \<Rightarrow> (pci_place \<Rightarrow> addr) \<Rightarrow> nat \<Rightarrow> nat \<Rightarrow> nat list \<Rightarrow> pci_state \<Rightarrow> pci_state res" where
  "functions_loop mmio hhdm at bus slot [] s = Inr s"
| "functions_loop mmio hhdm at bus slot (fn # fns) s =
     bindR (probe_function mmio hhdm at bus slot fn s) (\<lambda>(s, leave).
       if leave then Inr s else functions_loop mmio hhdm at bus slot fns s)"

definition pci_enumerate_devices :: "(64 word \<Rightarrow> 32 word) \<Rightarrow> 64 word \<Rightarrow> (pci_place \<Rightarrow> addr) \<Rightarrow> pci_state \<Rightarrow> pci_state res" where
  "pci_enumerate_devices mmio hhdm at =
     fold_res (\<lambda>bus. fold_res (\<lambda>slot. functions_loop mmio hhdm at bus slot [0..<FUNCTIONS_PER_DEVICE]) [0..<SLOTS_PER_BUS])
       [0..<PCI_MAX_BUSES]"

section \<open>Registered devices and registers\<close>

text \<open>The walk over the list takes its length as fuel; \<open>object\<close> reads a device object. The lock is not released.\<close>

fun find_subclass :: "nat \<Rightarrow> (addr \<Rightarrow> pci_device) \<Rightarrow> dll_mem \<Rightarrow> byte \<Rightarrow> byte \<Rightarrow> addr \<Rightarrow> addr res" where
  "find_subclass fuel object m c sub current =
     (if current = NULL then Inr NULL
      else case fuel of 0 \<Rightarrow> Inl Unmodelled
      | Suc fuel \<Rightarrow> bindR (deref (dnodes m) current) (\<lambda>n.
          if pci_class (object (ddata n)) = c \<and> pci_subclass (object (ddata n)) = sub then Inr (ddata n)
          else find_subclass fuel object m c sub (dnext n)))"

definition get_pci_device_from_subclass :: "bool \<Rightarrow> addr \<Rightarrow> addr \<Rightarrow> (nat \<Rightarrow> 64 word) \<Rightarrow> (addr \<Rightarrow> pci_device) \<Rightarrow> byte \<Rightarrow> byte \<Rightarrow>
    pci_state \<times> bool \<Rightarrow> ((pci_state \<times> bool) \<times> addr) res" where
  "get_pci_device_from_subclass booting me process found object c sub = (\<lambda>(s, irq).
     case acquire_spinlock booting me process found (registered_lock s, irq) of (l, irq) \<Rightarrow>
     bindR (find_subclass (dcount (registered_pci_devices s)) object (pci_nodes s) c sub (dhead (registered_pci_devices s))) (\<lambda>d.
     Inr ((s\<lparr>registered_lock := l\<rparr>, irq), d)))"

text \<open>The offset of the register is computed from the address of the configuration space and cut to 16 bits.\<close>

definition pci_read_base_address_register :: "(64 word \<Rightarrow> 32 word) \<Rightarrow> 64 word \<Rightarrow> pci_state \<Rightarrow> pci_device \<Rightarrow> 32 word \<Rightarrow> 32 word" where
  "pci_read_base_address_register mmio hhdm s d number =
     (let bar = (ucast (pci_mmio_address (pci_info s) + scast (number * 4)) :: 32 word);
          address = pci_read_config mmio hhdm (pci_info s) d (ucast bar) in
      if address = 0xFFFFFFFF then address
      else if address AND 0x01 \<noteq> 0 then address AND NOT 0x03
      else address AND NOT 0x0F)"

definition pci_write_base_address_register :: "64 word \<Rightarrow> pci_device \<Rightarrow> 32 word \<Rightarrow> 32 word \<Rightarrow> pci_state \<Rightarrow> pci_state" where
  "pci_write_base_address_register hhdm d number address s =
     (let bar = (ucast (pci_mmio_address (pci_info s) + scast (number * 4)) :: 32 word) in pci_write_config hhdm d (ucast bar) address s)"

definition pci_enable_bus_mastering :: "64 word \<Rightarrow> pci_device \<Rightarrow> pci_state \<Rightarrow> pci_state" where
  "pci_enable_bus_mastering hhdm d s = pci_write_config hhdm d PCI_DEVICE_COMMAND_OFFSET (ucast (pci_command d OR 4)) s"

end
