(* ===== verification/Pci_Enumeration.thy ===== *)
theory Pci_Enumeration
  imports Pci
begin

text \<open>
  What the enumeration of the PCI bus finds: the functions it registers are those that the configuration space shows with a
  known class and header, in the order of the search; and which addresses of the configuration space the code reads.
\<close>

section \<open>Classes\<close>

definition known_class :: "byte \<Rightarrow> bool" where
  "known_class c \<longleftrightarrow> c \<in> set [0x01, 0x02, 0x03, 0x04, 0x05, 0x06, 0x07, 0x08, 0x09, 0x0A, 0x0B, 0x0C, 0x0D, 0x0E, 0x0F, 0x10, 0x11,
     0x12, 0x13, 0x40]"

lemma class_names_unknown:
  "list_all (\<lambda>(c, n). c = PCI_CLASS_UNASSIGNED \<or> safe_strcmp (ascii n) (ascii ''Unknown'') 100 = Inr (if known_class c then 0 else 1)) class_names"
  by (simp add: class_names_def ascii_def known_class_def)

lemma class_names_dom: "map fst class_names = [0x00, 0x01, 0x02, 0x03, 0x04, 0x05, 0x06, 0x07, 0x08, 0x09, 0x0A, 0x0B, 0x0C, 0x0D, 0x0E, 0x0F,
    0x10, 0x11, 0x12, 0x13, 0x40, 0xFF]"
  by (simp add: class_names_def)

lemma class_skipped_eq:
  "(if c = PCI_CLASS_UNASSIGNED then Inr 1 else safe_strcmp (pci_get_class_name c) (ascii ''Unknown'') 100) =
     Inr (if known_class c then 0 else 1)"
proof (cases "map_of class_names c")
  case None
  then have "c \<notin> set (map fst class_names)" by (simp add: map_of_eq_None_iff)
  then have "\<not> known_class c" "c \<noteq> 0xFF" unfolding class_names_dom known_class_def by auto
  moreover have "safe_strcmp (ascii ''Unknown'') (ascii ''Unknown'') 100 = Inr 1" by (simp add: ascii_def)
  ultimately show ?thesis using None by (simp add: pci_get_class_name_def)
next
  case (Some n)
  then have "(c, n) \<in> set class_names" by (rule map_of_SomeD)
  with class_names_unknown
  have "c = PCI_CLASS_UNASSIGNED \<or> safe_strcmp (ascii n) (ascii ''Unknown'') 100 = Inr (if known_class c then 0 else 1)"
    by (fastforce simp: list_all_iff)
  with Some show ?thesis by (auto simp: pci_get_class_name_def known_class_def)
qed

section \<open>What configuration space shows\<close>

definition config :: "(64 word \<Rightarrow> 32 word) \<Rightarrow> 64 word \<Rightarrow> pci_bus_information \<Rightarrow> pci_place \<Rightarrow> 16 word \<Rightarrow> 32 word" where
  "config mmio hhdm info = (\<lambda>(bus, slot, fn). pci_read_config mmio hhdm info
     (no_device\<lparr>pci_bus := word_of_nat bus, pci_slot_number := word_of_nat slot, pci_function := word_of_nat fn\<rparr>))"

text \<open>A function is there if its vendor is not all ones, and supported if its class has a name and its header is of a known type.\<close>

definition responds :: "(pci_place \<Rightarrow> 16 word \<Rightarrow> 32 word) \<Rightarrow> pci_place \<Rightarrow> bool" where
  "responds cfg p \<longleftrightarrow> (ucast (cfg p 0x00) :: 16 word) \<noteq> PCI_DEVICE_DOESNT_EXIST"

definition supported :: "(pci_place \<Rightarrow> 16 word \<Rightarrow> 32 word) \<Rightarrow> pci_place \<Rightarrow> bool" where
  "supported cfg p \<longleftrightarrow> responds cfg p \<and> known_class (ucast (cfg p 0x0B)) \<and> ucast (cfg p 0x0E) \<in> {0, 1 :: byte}"

text \<open>A slot without a function 0 is empty.\<close>

definition in_slot :: "(pci_place \<Rightarrow> 16 word \<Rightarrow> 32 word) \<Rightarrow> nat \<times> nat \<Rightarrow> pci_place list" where
  "in_slot cfg = (\<lambda>(bus, slot).
     if responds cfg (bus, slot, 0) then filter (supported cfg) (map (\<lambda>fn. (bus, slot, fn)) [0..<FUNCTIONS_PER_DEVICE]) else [])"

definition on_bus :: "(pci_place \<Rightarrow> 16 word \<Rightarrow> 32 word) \<Rightarrow> pci_place list" where
  "on_bus cfg = concat (map (in_slot cfg) (List.product [0..<PCI_MAX_BUSES] [0..<SLOTS_PER_BUS]))"

definition setups :: "(pci_place \<Rightarrow> 16 word \<Rightarrow> 32 word) \<Rightarrow> pci_place \<Rightarrow> pci_setup list" where
  "setups cfg p = (let c = ucast (cfg p 0x0B) :: byte; sub = ucast (cfg p 0x0A) :: byte in
     (if c = 1 \<and> sub = 8 then [Setup_Nvme p] else []) @ (if c = 1 \<and> (sub = 5 \<or> sub = 6) then [Setup_Ahci p] else []))"

text \<open>What is recorded of a function.\<close>

definition recorded :: "(pci_place \<Rightarrow> 16 word \<Rightarrow> 32 word) \<Rightarrow> pci_place \<Rightarrow> pci_device \<Rightarrow> bool" where
  "recorded cfg p d \<longleftrightarrow>
     (unat (pci_bus d), unat (pci_slot_number d), unat (pci_function d)) = p \<and> vendor_id d = ucast (cfg p 0x00) \<and>
     device_id d = ucast (cfg p 0x02) \<and> pci_class d = ucast (cfg p 0x0B) \<and> pci_subclass d = ucast (cfg p 0x0A) \<and>
     pci_header d = (if (ucast (cfg p 0x0E) :: byte) = 1 then Bridge (read_bridge (cfg p)) else Generic (read_generic (cfg p)))"

text \<open>The state after the search has found the functions of a list.\<close>

definition found_state :: "(pci_place \<Rightarrow> 16 word \<Rightarrow> 32 word) \<Rightarrow> (pci_place \<Rightarrow> addr) \<Rightarrow> pci_bus_information \<Rightarrow> nat \<Rightarrow> pci_place list \<Rightarrow> pci_state \<Rightarrow> bool" where
  "found_state cfg at info room found s \<longleftrightarrow> pci_info s = info \<and>
     (\<exists>ps. dll_rep (pci_nodes s) (registered_pci_devices s) ps \<and> dvals (pci_nodes s) ps = map at (rev found)) \<and>
     length (dheap (pci_nodes s)) + length found = room \<and>
     (\<forall>p. pci_registered (pci_buses s p) \<longleftrightarrow> p \<in> set found) \<and>
     (\<forall>p \<in> set found. recorded cfg p (pci_buses s p)) \<and> setup_calls s = concat (map (setups cfg) found)"

lemma read_config_cong:
  "pci_read_config mmio hhdm info (d\<lparr>pci_bus := b, pci_slot_number := sl, pci_function := f\<rparr>) =
   pci_read_config mmio hhdm info (no_device\<lparr>pci_bus := b, pci_slot_number := sl, pci_function := f\<rparr>)"
  by (rule ext) (simp add: pci_read_config_def pci_config_address_def)

lemma probe_skips:
  assumes "found_state cfg at info room found s" "(bus, slot, fn) \<notin> set found" "\<not> supported cfg (bus, slot, fn)"
    and cfg: "cfg = config mmio hhdm info"
  shows "\<exists>s'. probe_function mmio hhdm at bus slot fn s = Inr (s', fn = 0 \<and> \<not> responds cfg (bus, slot, fn)) \<and>
    found_state cfg at info room found s'"
proof -
  let ?p = "(bus, slot, fn)" and ?s = "s\<lparr>pci_buses := (pci_buses s)((bus, slot, fn) := no_device)\<rparr>"
  have u: "pci_info s = info" "\<not> pci_registered (pci_buses s ?p)" using assms(1,2) by (auto simp: found_state_def)
  have rd: "pci_read_config mmio hhdm info ((pci_buses s ?p)\<lparr>pci_bus := word_of_nat bus, pci_slot_number := word_of_nat slot,
      pci_function := word_of_nat fn\<rparr>) = cfg ?p"
    unfolding read_config_cong [where d = "pci_buses s ?p"] by (simp add: cfg config_def)
  have "probe_function mmio hhdm at bus slot fn s = Inr (?s, fn = 0 \<and> \<not> responds cfg ?p)"
    using assms(3) u(2) unfolding probe_function_def Let_def u(1) rd class_skipped_eq
    by (auto simp: supported_def responds_def)
  moreover have "found_state cfg at info room found ?s"
    using assms(1,2) by (auto simp: found_state_def no_device_def)
  ultimately show ?thesis by blast
qed

lemma probe_registers:
  assumes "found_state cfg at info room found s" "(bus, slot, fn) \<notin> set found" "supported cfg (bus, slot, fn)" "length found < room"
    and cfg: "cfg = config mmio hhdm info" and b: "bus < 65536" "slot < 65536" "fn < 256"
  shows "\<exists>s'. probe_function mmio hhdm at bus slot fn s = Inr (s', False) \<and>
    found_state cfg at info room (found @ [(bus, slot, fn)]) s'"
proof -
  let ?p = "(bus, slot, fn)" and ?d = "(pci_buses s (bus, slot, fn))\<lparr>pci_bus := word_of_nat bus, pci_slot_number := word_of_nat slot,
      pci_function := word_of_nat fn\<rparr>"
  have u: "pci_info s = info" "\<not> pci_registered (pci_buses s ?p)" using assms(1,2) by (auto simp: found_state_def)
  have rd: "pci_read_config mmio hhdm info ?d = cfg ?p"
    unfolding read_config_cong [where d = "pci_buses s ?p"] by (simp add: cfg config_def)
  obtain ps where ps: "dll_rep (pci_nodes s) (registered_pci_devices s) ps" "dvals (pci_nodes s) ps = map at (rev found)"
    using assms(1) by (auto simp: found_state_def)
  have "dheap (pci_nodes s) \<noteq> []" using assms(1,4) by (auto simp: found_state_def)
  with ps(1) obtain m l q where ins: "doubly_linked_list_insert_head (pci_nodes s) (registered_pci_devices s) (at ?p) = Inr (m, l)"
      "dll_rep m l (q # ps)" "dvals m (q # ps) = at ?p # dvals (pci_nodes s) ps" "Suc (length (dheap m)) = length (dheap (pci_nodes s))"
    using insert_head_ok by blast
  define d where "d = read_device (cfg ?p) (bus, slot) ?d"
  have d: "pci_registered d" "recorded cfg ?p d"
    using b by (simp_all add: d_def read_device_def recorded_def unat_of_nat Let_def)
  have set: "(if IS_NVME_CONTROLLER d then [Setup_Nvme ?p] else []) @ (if IS_AHCI_CONTROLLER d then [Setup_Ahci ?p] else []) = setups cfg ?p"
    by (simp add: setups_def IS_NVME_CONTROLLER_def IS_AHCI_CONTROLLER_def d_def read_device_def Let_def)
  let ?s = "s\<lparr>pci_buses := (pci_buses s)(?p := d), setup_calls := setup_calls s @ setups cfg ?p, pci_nodes := m, registered_pci_devices := l\<rparr>"
  have "register_function at ?p d s = Inr ?s"
    using ins(1) by (simp add: register_function_def set [symmetric])
  then have "probe_function mmio hhdm at bus slot fn s = Inr (?s, False)"
    using assms(3) u(2) unfolding probe_function_def Let_def u(1) rd class_skipped_eq d_def [symmetric]
    by (auto simp: supported_def responds_def)
  moreover have "found_state cfg at info room (found @ [?p]) ?s"
    using assms(1,2) ins ps(2) d by (auto simp: found_state_def intro!: exI [of _ "q # ps"])
  ultimately show ?thesis by blast
qed

section \<open>The loops\<close>

lemma functions_loop_finds:
  assumes "found_state cfg at info room found s" "distinct fns" "0 \<notin> set fns" "\<forall>fn \<in> set fns. (bus, slot, fn) \<notin> set found \<and> fn < 256"
    "length found + length (filter (supported cfg) (map (\<lambda>fn. (bus, slot, fn)) fns)) \<le> room"
    and cfg: "cfg = config mmio hhdm info" and b: "bus < 65536" "slot < 65536"
  shows "\<exists>s'. functions_loop mmio hhdm at bus slot fns s = Inr s' \<and>
    found_state cfg at info room (found @ filter (supported cfg) (map (\<lambda>fn. (bus, slot, fn)) fns)) s'"
  using assms(1-5)
proof (induction fns arbitrary: s found)
  case Nil
  then show ?case by simp
next
  case (Cons fn fns)
  show ?case
  proof (cases "supported cfg (bus, slot, fn)")
    case True
    obtain s' where "probe_function mmio hhdm at bus slot fn s = Inr (s', False)"
        "found_state cfg at info room (found @ [(bus, slot, fn)]) s'"
      using probe_registers [OF Cons.prems(1) _ True _ cfg b] Cons.prems True by (auto split: if_splits)
    with True Cons.prems Cons.IH [of "found @ [(bus, slot, fn)]" s'] show ?thesis by auto
  next
    case False
    obtain s' where "probe_function mmio hhdm at bus slot fn s = Inr (s', False)" "found_state cfg at info room found s'"
      using probe_skips [OF Cons.prems(1) _ False cfg] Cons.prems by auto
    with False Cons.prems Cons.IH [of found s'] show ?thesis by auto
  qed
qed

lemma slot_finds:
  assumes "found_state cfg at info room found s" "\<forall>p \<in> set found. (fst p, fst (snd p)) \<noteq> (bus, slot)"
    "length found + length (in_slot cfg (bus, slot)) \<le> room"
    and cfg: "cfg = config mmio hhdm info" and b: "bus < 65536" "slot < 65536"
  shows "\<exists>s'. functions_loop mmio hhdm at bus slot [0..<FUNCTIONS_PER_DEVICE] s = Inr s' \<and>
    found_state cfg at info room (found @ in_slot cfg (bus, slot)) s'"
proof -
  have new: "(bus, slot, fn) \<notin> set found" for fn using assms(2) by auto
  have fns: "[0..<FUNCTIONS_PER_DEVICE] = 0 # [1..<8]" by (simp add: upt_rec)
  show ?thesis
  proof (cases "responds cfg (bus, slot, 0)")
    case False
    then have "\<not> supported cfg (bus, slot, 0)" by (simp add: supported_def)
    from probe_skips [OF assms(1) new this cfg] False show ?thesis by (auto simp: fns in_slot_def)
  next
    case True
    have "\<exists>s'. probe_function mmio hhdm at bus slot 0 s = Inr (s', False) \<and>
        found_state cfg at info room (found @ filter (supported cfg) [(bus, slot, 0)]) s'"
    proof (cases "supported cfg (bus, slot, 0)")
      case True
      with assms(3) have "length found < room"
        using \<open>responds cfg (bus, slot, 0)\<close> by (auto simp: in_slot_def fns)
      from probe_registers [OF assms(1) new True this cfg b] True show ?thesis by simp
    next
      case False
      from probe_skips [OF assms(1) new this cfg] False True show ?thesis by auto
    qed
    then obtain s1 where s1: "probe_function mmio hhdm at bus slot 0 s = Inr (s1, False)"
        "found_state cfg at info room (found @ filter (supported cfg) [(bus, slot, 0)]) s1" by blast
    have "\<exists>s'. functions_loop mmio hhdm at bus slot [1..<8] s1 = Inr s' \<and>
        found_state cfg at info room ((found @ filter (supported cfg) [(bus, slot, 0)]) @
          filter (supported cfg) (map (\<lambda>fn. (bus, slot, fn)) [1..<8])) s'"
      using assms(3) True new by (intro functions_loop_finds [OF s1(2) _ _ _ _ cfg b]) (auto simp: in_slot_def fns)
    with s1(1) True show ?thesis by (auto simp: in_slot_def fns split: if_splits)
  qed
qed

lemma fold_res_product:
  "fold_res (\<lambda>x. fold_res (g x) ys) xs s = fold_res (\<lambda>(x, y). g x y) (List.product xs ys) s"
proof (induction xs arbitrary: s)
  case Nil
  then show ?case by simp
next
  case (Cons x xs)
  have "fold_res (\<lambda>(x, y). g x y) (map (Pair x) ys) t = fold_res (g x) ys t" for t
    by (induction ys arbitrary: t) (simp_all add: bindR_def split: sum.splits)
  with Cons show ?case by (simp add: bindR_def split: sum.splits)
qed

lemma in_slot_key: "p \<in> set (in_slot cfg k) \<Longrightarrow> (fst p, fst (snd p)) = k"
  by (cases k) (auto simp: in_slot_def split: if_splits)

lemma slots_find:
  assumes "found_state cfg at info room found s" "distinct ks" "\<forall>p \<in> set found. (fst p, fst (snd p)) \<notin> set ks"
    "\<forall>(bus, slot) \<in> set ks. bus < 65536 \<and> slot < 65536"
    "length found + length (concat (map (in_slot cfg) ks)) \<le> room" and cfg: "cfg = config mmio hhdm info"
  shows "\<exists>s'. fold_res (\<lambda>(bus, slot). functions_loop mmio hhdm at bus slot [0..<FUNCTIONS_PER_DEVICE]) ks s = Inr s' \<and>
    found_state cfg at info room (found @ concat (map (in_slot cfg) ks)) s'"
  using assms(1-5)
proof (induction ks arbitrary: s found)
  case Nil
  then show ?case by simp
next
  case (Cons k ks)
  obtain bus slot where k: "k = (bus, slot)" by (cases k)
  obtain s1 where s1: "functions_loop mmio hhdm at bus slot [0..<FUNCTIONS_PER_DEVICE] s = Inr s1"
      "found_state cfg at info room (found @ in_slot cfg (bus, slot)) s1"
    using slot_finds [OF Cons.prems(1) _ _ cfg, of bus slot] Cons.prems k by auto
  have "\<forall>p \<in> set (found @ in_slot cfg (bus, slot)). (fst p, fst (snd p)) \<notin> set ks"
    using Cons.prems(2,3) k in_slot_key [of _ cfg "(bus, slot)"] by auto
  with Cons.IH [OF s1(2)] Cons.prems s1(1) k show ?case by auto
qed

section \<open>Properties\<close>

text \<open>C9: 
  Starting with nothing registered, the enumeration returns when there are enough list nodes, and has registered exactly the functions that configuration
  space shows with a known class and header type, in slots that have a function 0: they are in the list of registered devices,
  the last one first, what is recorded of them is what was read, and the controllers among them were set up.
\<close>

theorem pci_enumerate_registers:
  assumes "\<forall>p. \<not> pci_registered (pci_buses s p)" "dll_rep (pci_nodes s) (registered_pci_devices s) []" "setup_calls s = []"
    "length (on_bus cfg) \<le> length (dheap (pci_nodes s))" "cfg = config mmio hhdm (pci_info s)"
  shows "\<exists>s' ps. pci_enumerate_devices mmio hhdm at s = Inr s' \<and>
    (\<forall>p. pci_registered (pci_buses s' p) \<longleftrightarrow> p \<in> set (on_bus cfg)) \<and>
    dll_rep (pci_nodes s') (registered_pci_devices s') ps \<and> dvals (pci_nodes s') ps = map at (rev (on_bus cfg)) \<and>
    (\<forall>p \<in> set (on_bus cfg). recorded cfg p (pci_buses s' p)) \<and> setup_calls s' = concat (map (setups cfg) (on_bus cfg))"
proof -
  let ?ks = "List.product [0..<PCI_MAX_BUSES] [0..<SLOTS_PER_BUS]"
  have start: "found_state cfg at (pci_info s) (length (dheap (pci_nodes s))) [] s"
    using assms(1-3) by (auto simp: found_state_def dvals_def)
  have "\<exists>s'. fold_res (\<lambda>(bus, slot). functions_loop mmio hhdm at bus slot [0..<FUNCTIONS_PER_DEVICE]) ?ks s = Inr s' \<and>
      found_state cfg at (pci_info s) (length (dheap (pci_nodes s))) ([] @ concat (map (in_slot cfg) ?ks)) s'"
    using assms(4,5) by (intro slots_find [OF start]) (auto simp: distinct_product on_bus_def)
  then show ?thesis
    unfolding pci_enumerate_devices_def fold_res_product append_Nil on_bus_def [symmetric] found_state_def by blast
qed

text \<open>
  PCI Express gives each function 4096 bytes of configuration space: the address of a register has the bus from bit 20 on, the slot from bit
  15 on and the function from bit 12 on. The addresses that the code reads from are those only for bus, slot and function 0.
\<close>

definition ecam_address :: "nat \<Rightarrow> pci_place \<Rightarrow> nat \<Rightarrow> nat" where
  "ecam_address base = (\<lambda>(bus, slot, fn) offset. base + bus * 2 ^ 20 + slot * 2 ^ 15 + fn * 2 ^ 12 + offset)"

theorem pci_config_not_ecam:
  assumes "unat (pci_mmio_address info) + 2 ^ 28 < 2 ^ 64" "pci_bus d < 256" "pci_slot_number d < 32" "pci_function d < 8" "offset < 4096"
  shows "unat (pci_config_address 0 info d offset) =
      ecam_address (unat (pci_mmio_address info)) (unat (pci_bus d), unat (pci_slot_number d), unat (pci_function d)) (unat offset) \<longleftrightarrow>
    pci_bus d = 0 \<and> pci_slot_number d = 0 \<and> pci_function d = 0"
proof -
  let ?b = "unat (pci_bus d)" and ?s = "unat (pci_slot_number d)" and ?f = "unat (pci_function d)" and ?o = "unat offset" and ?m = "unat (pci_mmio_address info)"
  have lt: "?b < 256" "?s < 32" "?f < 8" "?o < 4096" using assms(2-5) by (simp_all add: word_less_nat_alt)
  define n where "n = ?m + ?b * 2 ^ 16 + ?s * 2 ^ 11 + ?f * 2 ^ 8 + ?o"
  have "pci_config_address 0 info d offset = word_of_nat n"
    by (simp add: n_def pci_config_address_def push_bit_eq_mult)
  moreover have "n < 2 ^ 64" using lt assms(1) by (simp add: n_def)
  ultimately have "unat (pci_config_address 0 info d offset) = n" by (simp add: unat_of_nat)
  then show ?thesis by (auto simp: n_def ecam_address_def word_unat_eq_iff)
qed

text \<open>Two neighbouring functions share addresses: what the code reads as a register of one is 256 bytes further in that of the other.\<close>

theorem pci_functions_overlap:
  assumes "unat fn + 1 < 256" "unat offset + 256 < 65536"
  shows "pci_read_config mmio hhdm info (d\<lparr>pci_function := fn + 1\<rparr>) offset =
    pci_read_config mmio hhdm info (d\<lparr>pci_function := fn\<rparr>) (offset + 256)"
proof -
  have "unat (fn + 1) = unat fn + 1" "unat (offset + 256) = unat offset + 256"
    using assms by (simp_all add: unat_word_ariths)
  then have "word_of_nat (unat (fn + 1)) = (word_of_nat (unat fn + 1) :: 64 word)"
    "word_of_nat (unat (offset + 256)) = (word_of_nat (unat offset + 256) :: 64 word)" by (simp_all only:)
  then have "(ucast (fn + 1) :: 64 word) = ucast fn + 1" "(ucast (offset + 256) :: 64 word) = ucast offset + 256" by simp_all
  then show ?thesis by (simp add: pci_read_config_def pci_config_address_def push_bit_eq_mult algebra_simps)
qed

text \<open>\<^verbatim>\<open>get_pci_device_from_subclass\<close> returns with the lock of the list held.\<close>

theorem pci_lookup_keeps_lock:
  assumes "get_pci_device_from_subclass False me process found object c sub (s, irq) = Inr ((s', irq'), d)"
    "lcpu (registered_lock s) \<noteq> me"
  shows "locked (registered_lock s') = 1 \<and> lcpu (registered_lock s') = me \<and> \<not> irq'"
  using assms by (auto simp: get_pci_device_from_subclass_def acquire_spinlock_def Let_def bindR_eq_Inr split: prod.splits)

section \<open>Witnesses\<close>

text \<open>A machine with one function, a mass storage controller at bus 0, slot 0.\<close>

definition demo_mmio :: "64 word \<Rightarrow> 32 word" where
  "demo_mmio a = (if a = 0 then 0x12341AF4 else if a = 0x0B then 1 else if a = 0x0E then 0 else 0xFFFFFFFF)"

definition demo_info :: pci_bus_information where
  "demo_info = \<lparr>pci_mmio_address = 0, start_bus = 0, end_bus = 255\<rparr>"

definition demo_pci :: pci_state where
  "demo_pci = \<lparr>pci_buses = \<lambda>_. no_device, pci_info = demo_info, pci_nodes = \<lparr>dnodes = Map.empty, dheap = [64]\<rparr>,
     registered_pci_devices = doubly_linked_list_init, registered_lock = fresh_lock, setup_calls = [], config_writes = []\<rparr>"

abbreviation (input) demo_config :: "pci_place \<Rightarrow> 16 word \<Rightarrow> 32 word" where
  "demo_config \<equiv> config demo_mmio 0 demo_info"

lemma demo_config_0:
  assumes "bus < 256" "slot < 32" "fn < 8"
  shows "demo_config (bus, slot, fn) 0 = (if (bus, slot, fn) = (0, 0, 0) then 0x12341AF4 else 0xFFFFFFFF)"
proof -
  define n where "n = bus * 2 ^ 16 + slot * 2 ^ 11 + fn * 2 ^ 8"
  have m: "n = 256 * (bus * 256 + slot * 8 + fn)" by (simp add: n_def)
  have "256 * k \<noteq> (11 :: nat)" "256 * k \<noteq> (14 :: nat)" for k by presburger+
  then have "n \<noteq> 11" "n \<noteq> 14" unfolding m by blast+
  moreover have "n < 2 ^ 64" "n = 0 \<longleftrightarrow> (bus, slot, fn) = (0, 0, 0)" using m assms by simp_all
  ultimately have n: "n < 2 ^ 64" "n \<noteq> 11" "n \<noteq> 14" "n = 0 \<longleftrightarrow> (bus, slot, fn) = (0, 0, 0)" by simp_all
  have "(ucast (word_of_nat bus :: 16 word) :: 64 word) = word_of_nat bus" "(ucast (word_of_nat slot :: 16 word) :: 64 word) = word_of_nat slot"
    "(ucast (word_of_nat fn :: 8 word) :: 64 word) = word_of_nat fn"
    using assms by (simp_all add: word_unat_eq_iff unsigned_ucast_eq unsigned_of_nat take_bit_nat_eq_self)
  then have "demo_config (bus, slot, fn) 0 = demo_mmio (word_of_nat n)"
    by (simp add: n_def config_def pci_read_config_def pci_config_address_def demo_info_def push_bit_eq_mult)
  moreover have "word_of_nat n = (word_of_nat k :: 64 word) \<longleftrightarrow> n = k" if "k < 2 ^ 64" for k
    using n(1) that by (simp add: word_unat_eq_iff unat_of_nat)
  from this [of 0] this [of 11] this [of 14]
  have "word_of_nat n = (0 :: 64 word) \<longleftrightarrow> n = 0" "word_of_nat n \<noteq> (11 :: 64 word)" "word_of_nat n \<noteq> (14 :: 64 word)"
    using n by simp_all
  ultimately show ?thesis using n(4) by (simp add: demo_mmio_def)
qed

lemma demo_on_bus: "on_bus demo_config = [(0, 0, 0)]"
proof -
  have pr: "responds demo_config (bus, slot, fn) \<longleftrightarrow> (bus, slot, fn) = (0, 0, 0)" if "bus < 256" "slot < 32" "fn < 8" for bus slot fn
    using demo_config_0 [OF that] by (auto simp: responds_def)
  then have none: "in_slot demo_config k = []" if "k \<in> set (map (Pair 0) [1..<32] @ List.product [1..<256] [0..<32])" for k
    using that by (auto simp: in_slot_def)
  have "supported demo_config (0, 0, 0)"
    using pr [of 0 0 0] by (simp add: supported_def config_def pci_read_config_def pci_config_address_def demo_info_def no_device_def
      demo_mmio_def known_class_def)
  moreover have "\<not> supported demo_config (0, 0, fn)" if "fn \<in> set [1..<8]" for fn using pr [of 0 0 fn] that by (simp add: supported_def)
  ultimately have "in_slot demo_config (0, 0) = [(0, 0, 0)]"
    using pr [of 0 0 0] by (simp add: in_slot_def upt_conv_Cons [of 0 8] filter_empty_conv)
  moreover have "List.product [0..<PCI_MAX_BUSES] [0..<SLOTS_PER_BUS] = (0, 0) # map (Pair 0) [1..<32] @ List.product [1..<256] [0..<32]"
    by (simp add: upt_conv_Cons [of 0 256] upt_conv_Cons [of 0 32])
  moreover have "concat (map (in_slot demo_config) (map (Pair 0) [1..<32] @ List.product [1..<256] [0..<32])) = []"
    using none by (simp only: concat_eq_Nil_conv set_map) blast
  ultimately show ?thesis by (simp only: on_bus_def list.map concat.simps append.simps)
qed

theorem pci_enumerate_registers_witness:
  "\<exists>s'. pci_enumerate_devices demo_mmio 0 (\<lambda>_. 4096) demo_pci = Inr s' \<and>
    (\<forall>p. pci_registered (pci_buses s' p) \<longleftrightarrow> p = (0, 0, 0)) \<and> vendor_id (pci_buses s' (0, 0, 0)) = 0x1AF4"
proof -
  have st: "\<forall>p. \<not> pci_registered (pci_buses demo_pci p)" "dll_rep (pci_nodes demo_pci) (registered_pci_devices demo_pci) []"
    "setup_calls demo_pci = []" "pci_info demo_pci = demo_info" "length (dheap (pci_nodes demo_pci)) = 1"
    by (simp_all add: demo_pci_def no_device_def dll_rep_def doubly_linked_list_init_def)
  obtain s' where "pci_enumerate_devices demo_mmio 0 (\<lambda>_. 4096) demo_pci = Inr s'"
      "\<forall>p. pci_registered (pci_buses s' p) \<longleftrightarrow> p \<in> set (on_bus demo_config)"
      "\<forall>p \<in> set (on_bus demo_config). recorded demo_config p (pci_buses s' p)"
    using pci_enumerate_registers [OF st(1-3) _ refl, of demo_mmio 0 "\<lambda>_. 4096"] unfolding st(4,5) demo_on_bus by auto
  moreover have "demo_config (0, 0, 0) 0 = 0x12341AF4" using demo_config_0 [of 0 0 0] by simp
  ultimately show ?thesis unfolding demo_on_bus by (auto simp: recorded_def)
qed

theorem pci_config_not_ecam_witness:
  "unat (pci_config_address 0 demo_info (no_device\<lparr>pci_function := 1\<rparr>) 0) \<noteq> ecam_address 0 (0, 0, 1) 0"
  using pci_config_not_ecam [of demo_info "no_device\<lparr>pci_function := 1\<rparr>" 0] by (simp add: demo_info_def no_device_def)

theorem pci_functions_overlap_witness:
  "pci_read_config demo_mmio 0 demo_info (no_device\<lparr>pci_function := 1\<rparr>) 0 = pci_read_config demo_mmio 0 demo_info (no_device\<lparr>pci_function := 0\<rparr>) 256"
  using pci_functions_overlap [of 0 0 demo_mmio 0 demo_info no_device] by simp

theorem pci_lookup_keeps_lock_witness:
  "\<exists>s' irq' d. get_pci_device_from_subclass False 1 2 (\<lambda>_. 0) (\<lambda>_. no_device) 1 6 (demo_pci, True) = Inr ((s', irq'), d) \<and>
    locked (registered_lock s') = 1"
proof -
  have r: "get_pci_device_from_subclass False 1 2 (\<lambda>_. 0) (\<lambda>_. no_device) 1 6 (demo_pci, True) =
      Inr ((demo_pci\<lparr>registered_lock := (registered_lock demo_pci)\<lparr>locked := 1, lcpu := 1, holding_process := 2\<rparr>\<rparr>, False), NULL)"
    by (simp add: get_pci_device_from_subclass_def acquire_spinlock_def demo_pci_def fresh_lock_def initlock_def arch_atomic_swap.simps
      doubly_linked_list_init_def)
  have "lcpu (registered_lock demo_pci) \<noteq> 1" by (simp add: demo_pci_def fresh_lock_def initlock_def)
  from pci_lookup_keeps_lock [OF r this] r show ?thesis by blast
qed

end
