(* ===== verification/Acpi.thy ===== *)
theory Acpi
  imports Pci
begin

text \<open>
  The tables of the firmware, \<^verbatim>\<open>acpi/acpi.c\<close> and \<^verbatim>\<open>acpi/madt.c\<close>, and the interrupt controller that they describe,
  \<^verbatim>\<open>cpu/ioapic.c\<close>. Memory is a function from virtual addresses to bytes; physical memory is seen at the offset \<open>hhdm\<close>.
\<close>

section \<open>Memory\<close>

definition mem32 :: "(64 word \<Rightarrow> byte) \<Rightarrow> 64 word \<Rightarrow> 32 word" where
  "mem32 mem a = bytes_word (mem_bytes mem a 4)"

definition mem64 :: "(64 word \<Rightarrow> byte) \<Rightarrow> 64 word \<Rightarrow> 64 word" where
  "mem64 mem a = bytes_word (mem_bytes mem a 8)"

definition mem16 :: "(64 word \<Rightarrow> byte) \<Rightarrow> 64 word \<Rightarrow> 16 word" where
  "mem16 mem a = bytes_word (mem_bytes mem a 2)"

section \<open>Tables\<close>

abbreviation (input) SIZEOF_SDT :: "64 word" where "SIZEOF_SDT \<equiv> 36"
abbreviation (input) SIZEOF_MADT :: "64 word" where "SIZEOF_MADT \<equiv> 44"

text \<open>
  The number of pointers of the root table, each of \<open>width\<close> bytes: the subtraction and the division are done with 64 bits and the result is
  cut to 32.
\<close>

definition sdt_entries :: "(64 word \<Rightarrow> byte) \<Rightarrow> 64 word \<Rightarrow> 64 word \<Rightarrow> 32 word" where
  "sdt_entries mem root width = ucast ((ucast (mem32 mem (root + 4)) - SIZEOF_SDT) div width)"

text \<open>The loop over the pointers from the \<open>i\<close>-th one on; the result is the address of the table, or NULL.\<close>

function search_tables :: "(64 word \<Rightarrow> byte) \<Rightarrow> (nat \<Rightarrow> 64 word) \<Rightarrow> byte list \<Rightarrow> nat \<Rightarrow> nat \<Rightarrow> (64 word option) res" where
  "search_tables mem sdt name i entries =
     (if i < entries then
        bindR (memcmp (mem_bytes mem (sdt i) 4) name 4) (\<lambda>c.
        if c = 0 then Inr (Some (sdt i)) else search_tables mem sdt name (Suc i) entries)
      else Inr None)"
  by pat_completeness auto
termination
  by (relation "measure (\<lambda>(mem, sdt, name, i, entries). entries - i)") auto

declare search_tables.simps [simp del]

definition find_acpi_table :: "(64 word \<Rightarrow> byte) \<Rightarrow> 64 word \<Rightarrow> bool \<Rightarrow> 64 word \<Rightarrow> byte list \<Rightarrow> (64 word option) res" where
  "find_acpi_table mem hhdm acpi_extended acpi_root_sdt name =
     (if \<not> acpi_extended then
        search_tables mem (\<lambda>i. ucast (mem32 mem (acpi_root_sdt + SIZEOF_SDT + 4 * word_of_nat i)) + hhdm) name 0
          (unat (sdt_entries mem acpi_root_sdt 4))
      else
        bindR (search_tables mem (\<lambda>i. mem64 mem (acpi_root_sdt + SIZEOF_SDT + 8 * word_of_nat i) + hhdm) name 0
          (unat (sdt_entries mem acpi_root_sdt 8))) (\<lambda>t.
        case t of None \<Rightarrow> Inl (Panic ''ACPI Table not found'') | Some t \<Rightarrow> Inr (Some t)))"

section \<open>The interrupt controllers\<close>

text \<open>
  The addresses of the entries of the four kinds; the arrays have 32 places and their lengths are the lengths of the lists. Only three of
  the lengths are set to 0 before the search.
\<close>

record madt_lists =
  madt_ioapic_list :: "64 word list"
  madt_lapic_list :: "64 word list"
  madt_iso_list :: "64 word list"
  madt_nmi_list :: "64 word list"

definition append_entry :: "64 word list \<Rightarrow> 64 word \<Rightarrow> 64 word list res" where
  "append_entry xs header = (if length xs < 32 then Inr (xs @ [header]) else Inl OutOfBounds)"

definition madt_entry :: "byte \<Rightarrow> 64 word \<Rightarrow> madt_lists \<Rightarrow> madt_lists res" where
  "madt_entry type header m =
     (if type = 0 then bindR (append_entry (madt_lapic_list m) header) (\<lambda>xs. Inr (m\<lparr>madt_lapic_list := xs\<rparr>))
      else if type = 1 then bindR (append_entry (madt_ioapic_list m) header) (\<lambda>xs. Inr (m\<lparr>madt_ioapic_list := xs\<rparr>))
      else if type = 2 then bindR (append_entry (madt_iso_list m) header) (\<lambda>xs. Inr (m\<lparr>madt_iso_list := xs\<rparr>))
      else if type = 4 then bindR (append_entry (madt_nmi_list m) header) (\<lambda>xs. Inr (m\<lparr>madt_nmi_list := xs\<rparr>))
      else Inr m)"

text \<open>The loop over the entries; \<open>None\<close> is a run that does not end.\<close>

partial_function (option) madt_loop :: "(64 word \<Rightarrow> byte) \<Rightarrow> 64 word \<Rightarrow> 64 word \<Rightarrow> madt_lists \<Rightarrow> madt_lists res option" where
  "madt_loop mem madt offset m =
     (let header = madt + SIZEOF_MADT + offset in
      if offset > ucast (mem32 mem (madt + 4)) - (SIZEOF_MADT - 1) \<or> mem (header + 1) = 0 then Some (Inr m)
      else case madt_entry (mem header) header m of
        Inl e \<Rightarrow> Some (Inl e)
      | Inr m \<Rightarrow> madt_loop mem madt (offset + ucast (mem (header + 1))) m)"

definition madt_init :: "(64 word \<Rightarrow> byte) \<Rightarrow> 64 word \<Rightarrow> bool \<Rightarrow> 64 word \<Rightarrow> madt_lists \<Rightarrow> madt_lists res option" where
  "madt_init mem hhdm acpi_extended acpi_root_sdt m =
     (case find_acpi_table mem hhdm acpi_extended acpi_root_sdt (ascii ''APIC'') of
        Inl e \<Rightarrow> Some (Inl e)
      | Inr None \<Rightarrow> Some (Inl (Panic ''No MADT!''))
      | Inr (Some madt) \<Rightarrow> madt_loop mem madt 0 (m\<lparr>madt_ioapic_list := [], madt_lapic_list := [], madt_iso_list := []\<rparr>))"

section \<open>Initialisation\<close>

text \<open>
  \<open>rsdp\<close> is the address that the boot loader gives, 0 if it has none. The table of the high precision timer is copied as the
  20 bytes of \<^verbatim>\<open>struct hpet\<close>; the messages are left out.
\<close>

record acpi_state =
  acpi_pci :: pci_state
  acpi_madt :: madt_lists
  acpi_hpet :: "byte list"
  use_pit :: bool
  acpi_extended :: bool
  acpi_root_sdt :: "64 word"

definition read_mcfg :: "(64 word \<Rightarrow> byte) \<Rightarrow> 64 word \<Rightarrow> mcfg_entry" where
  "read_mcfg mem a = \<lparr>mcfg_base_address = mem64 mem a, segment_group = mem16 mem (a + 8), mcfg_start_bus = mem (a + 10),
     mcfg_end_bus = mem (a + 11)\<rparr>"

definition acpi_init :: "(64 word \<Rightarrow> byte) \<Rightarrow> (64 word \<Rightarrow> 32 word) \<Rightarrow> 64 word \<Rightarrow> (pci_place \<Rightarrow> addr) \<Rightarrow> 64 word \<Rightarrow> acpi_state \<Rightarrow>
    acpi_state res option" where
  "acpi_init mem mmio hhdm at rsdp s =
     (if rsdp = 0 then Some (Inl (Panic ''rsdp null''))
      else
        let extended = mem (rsdp + 15) \<noteq> 0;
            root_phys = (if extended then mem64 mem (rsdp + 24) else ucast (mem32 mem (rsdp + 16)));
            root = root_phys + hhdm;
            s = s\<lparr>acpi_extended := (extended \<or> acpi_extended s), acpi_root_sdt := root\<rparr> in
        if root_phys = 0 then Some (Inl (Panic (''acpi init failed'' @ [CHR 10])))
        else case bindR (find_acpi_table mem hhdm (acpi_extended s) root (ascii ''MCFG'')) (\<lambda>mcfg.
            case mcfg of None \<Rightarrow> Inl (Panic (''Cannot find mcfg header to set up PCI'' @ [CHR 10]))
            | Some mcfg \<Rightarrow> bindR (find_acpi_table mem hhdm (acpi_extended s) root (ascii ''HPET'')) (\<lambda>hpet.
                let s = (case hpet of None \<Rightarrow> s | Some h \<Rightarrow> s\<lparr>acpi_hpet := mem_bytes mem (h + SIZEOF_SDT) 20, use_pit := False\<rparr>) in
                bindR (pci_enumerate_devices mmio hhdm at (set_pci_mmio_address (read_mcfg mem (mcfg + 44)) (acpi_pci s))) (\<lambda>p.
                Inr (s\<lparr>acpi_pci := p\<rparr>)))) of
            Inl e \<Rightarrow> Some (Inl e)
          | Inr s \<Rightarrow> (case madt_init mem hhdm (acpi_extended s) root (acpi_madt s) of
                None \<Rightarrow> None | Some r \<Rightarrow> Some (bindR r (\<lambda>m. Inr (s\<lparr>acpi_madt := m\<rparr>)))))"

section \<open>Redirection of interrupts\<close>

text \<open>
  An interrupt controller is its registers, by the physical address of the controller. A controller that the list does not have is
  read through a NULL pointer.
\<close>

type_synonym ioapic_regs = "32 word \<Rightarrow> 32 word \<Rightarrow> 32 word"

definition ioapic_entry :: "madt_lists \<Rightarrow> nat \<Rightarrow> (64 word) res" where
  "ioapic_entry m i = (if i < length (madt_ioapic_list m) then Inr (madt_ioapic_list m ! i)
     else if i < 32 then Inl NullDeref else Inl OutOfBounds)"

definition write_ioapic :: "(64 word \<Rightarrow> byte) \<Rightarrow> madt_lists \<Rightarrow> nat \<Rightarrow> 32 word \<Rightarrow> 32 word \<Rightarrow> ioapic_regs \<Rightarrow> ioapic_regs res" where
  "write_ioapic mem m ioapic reg v r =
     bindR (ioapic_entry m ioapic) (\<lambda>e. let a = mem32 mem (e + 4) in Inr (r(a := (r a)(reg := v))))"

definition read_ioapic :: "(64 word \<Rightarrow> byte) \<Rightarrow> madt_lists \<Rightarrow> nat \<Rightarrow> 32 word \<Rightarrow> ioapic_regs \<Rightarrow> (32 word) res" where
  "read_ioapic mem m ioapic reg r = bindR (ioapic_entry m ioapic) (\<lambda>e. Inr (r (mem32 mem (e + 4)) reg))"

definition ioapic_gsi_count :: "(64 word \<Rightarrow> byte) \<Rightarrow> madt_lists \<Rightarrow> nat \<Rightarrow> ioapic_regs \<Rightarrow> (64 word) res" where
  "ioapic_gsi_count mem m ioapic r =
     (if ioapic > length (madt_ioapic_list m) then Inr 0
      else bindR (read_ioapic mem m ioapic 1 r) (\<lambda>v. Inr (ucast (drop_bit 16 (v AND 0xFF0000)))))"

definition gsi_base :: "(64 word \<Rightarrow> byte) \<Rightarrow> 64 word \<Rightarrow> 32 word" where
  "gsi_base mem e = mem32 mem (e + 8)"

function get_gsi_loop :: "(64 word \<Rightarrow> byte) \<Rightarrow> madt_lists \<Rightarrow> 32 word \<Rightarrow> ioapic_regs \<Rightarrow> nat \<Rightarrow> nat res" where
  "get_gsi_loop mem m gsi r i =
     (if i < length (madt_ioapic_list m) then
        let base = gsi_base mem (madt_ioapic_list m ! i) in
        bindR (ioapic_gsi_count mem m i r) (\<lambda>n.
        if base \<le> gsi \<and> ucast base + n > ucast gsi then Inr i else get_gsi_loop mem m gsi r (Suc i))
      else Inl (Panic (''Cannot determine IOAPIC from GSI'' @ [CHR 10])))"
  by pat_completeness auto
termination
  by (relation "measure (\<lambda>(mem, m, gsi, r, i). length (madt_ioapic_list m) - i)") auto

declare get_gsi_loop.simps [simp del]

definition ioapic_get_gsi :: "(64 word \<Rightarrow> byte) \<Rightarrow> madt_lists \<Rightarrow> 32 word \<Rightarrow> ioapic_regs \<Rightarrow> nat res" where
  "ioapic_get_gsi mem m gsi r = get_gsi_loop mem m gsi r 0"

text \<open>
  The cast in \<^verbatim>\<open>(uint32_t) redirect >> 32\<close> comes before the shift, which C then leaves undefined; \<open>shift32\<close> is what the compiled
  code makes of it.
\<close>

definition ioapic_redirect_gsi :: "(32 word \<Rightarrow> 32 word) \<Rightarrow> (64 word \<Rightarrow> byte) \<Rightarrow> madt_lists \<Rightarrow> 32 word \<Rightarrow> byte \<Rightarrow> 32 word \<Rightarrow> 16 word \<Rightarrow> byte \<Rightarrow>
    ioapic_regs \<Rightarrow> ioapic_regs res" where
  "ioapic_redirect_gsi shift32 mem m lapic_id vector gsi flags masked r =
     bindR (ioapic_get_gsi mem m gsi r) (\<lambda>ioapic.
     let redirect = (ucast vector :: 64 word);
         redirect = (if ucast flags AND push_bit 1 (1 :: 64 word) \<noteq> 0 then redirect OR push_bit 13 1 else redirect);
         redirect = (if ucast flags AND push_bit 3 (1 :: 64 word) \<noteq> 0 then redirect OR push_bit 15 1 else redirect);
         redirect = (if masked = 1 then redirect OR push_bit 16 1 else redirect);
         redirect = redirect OR push_bit 56 (ucast lapic_id) in
     bindR (ioapic_entry m ioapic) (\<lambda>e.
     let table = (gsi - gsi_base mem e) * 2 + 16 in
     bindR (write_ioapic mem m ioapic table (ucast redirect) r) (\<lambda>r.
     write_ioapic mem m ioapic (table + 1) (shift32 (ucast redirect)) r)))"

fun redirect_irq_loop :: "(32 word \<Rightarrow> 32 word) \<Rightarrow> (64 word \<Rightarrow> byte) \<Rightarrow> madt_lists \<Rightarrow> 32 word \<Rightarrow> byte \<Rightarrow> byte \<Rightarrow> byte \<Rightarrow> 64 word list \<Rightarrow>
    ioapic_regs \<Rightarrow> ioapic_regs res" where
  "redirect_irq_loop shift32 mem m lapic_id vector irq masked [] r = ioapic_redirect_gsi shift32 mem m lapic_id vector (ucast irq) 0 masked r"
| "redirect_irq_loop shift32 mem m lapic_id vector irq masked (entry # isos) r =
     (if mem (entry + 3) = irq
      then ioapic_redirect_gsi shift32 mem m lapic_id vector (mem32 mem (entry + 4)) (mem16 mem (entry + 8)) masked r
      else redirect_irq_loop shift32 mem m lapic_id vector irq masked isos r)"

definition ioapic_redirect_irq :: "(32 word \<Rightarrow> 32 word) \<Rightarrow> (64 word \<Rightarrow> byte) \<Rightarrow> madt_lists \<Rightarrow> 32 word \<Rightarrow> byte \<Rightarrow> byte \<Rightarrow> byte \<Rightarrow>
    ioapic_regs \<Rightarrow> ioapic_regs res" where
  "ioapic_redirect_irq shift32 mem m lapic_id vector irq masked r = redirect_irq_loop shift32 mem m lapic_id vector irq masked (madt_iso_list m) r"

end
