(* ===== verification/Acpi_Tables.thy ===== *)
theory Acpi_Tables
  imports Acpi
begin

text \<open>
  What the search for a table returns, what is collected from the table of interrupt controllers, and what the redirection of
  an interrupt writes.
\<close>

section \<open>Searching\<close>

text \<open>The first table of the root table with the signature.\<close>

definition first_table :: "(64 word \<Rightarrow> byte) \<Rightarrow> (nat \<Rightarrow> 64 word) \<Rightarrow> byte list \<Rightarrow> nat list \<Rightarrow> 64 word option" where
  "first_table mem sdt sig is = map_option sdt (find (\<lambda>i. mem_bytes mem (sdt i) 4 = sig) is)"

lemma memcmp_eq: "length xs = n \<Longrightarrow> length ys = n \<Longrightarrow> \<exists>c. memcmp xs (ys @ r) n = Inr c \<and> (c = 0 \<longleftrightarrow> xs = ys)"
  by (induction xs arbitrary: ys n) (auto simp: length_Suc_conv)

lemma search_tables_first:
  "length sig = 4 \<Longrightarrow> search_tables mem sdt (sig @ r) i entries = Inr (first_table mem sdt sig [i..<entries])"
proof (induction mem sdt "sig @ r" i entries rule: search_tables.induct)
  case (1 mem sdt i entries)
  show ?case
  proof (cases "i < entries")
    case True
    obtain c where c: "memcmp (mem_bytes mem (sdt i) 4) (sig @ r) 4 = Inr c" "c = 0 \<longleftrightarrow> mem_bytes mem (sdt i) 4 = sig"
      using memcmp_eq [of "mem_bytes mem (sdt i) 4" 4 sig r] 1(2) by auto
    then show ?thesis
      using 1 True by (subst search_tables.simps) (auto simp: first_table_def upt_conv_Cons)
  next
    case False
    then show ?thesis by (simp add: search_tables.simps first_table_def)
  qed
qed

lemma ascii_signature: "ascii name = map of_char name @ [0]"
  by (simp add: ascii_def)

lemma find_acpi_table_eq:
  assumes "length name = 4"
  shows "find_acpi_table mem hhdm extended root (ascii name) =
    (let w = (if extended then 8 else 4);
         sdt = (\<lambda>i. (if extended then mem64 mem (root + 36 + 8 * word_of_nat i) else ucast (mem32 mem (root + 36 + 4 * word_of_nat i))) + hhdm);
         t = first_table mem sdt (map of_char name) [0..<unat (sdt_entries mem root w)] in
     if extended \<and> t = None then Inl (Panic ''ACPI Table not found'') else Inr t)"
  using assms by (simp add: find_acpi_table_def ascii_signature search_tables_first Let_def split: option.split)

section \<open>Entries of the table of interrupt controllers\<close>

text \<open>Entries in memory as their types and lengths, and their addresses.\<close>

fun entries_at :: "(64 word \<Rightarrow> byte) \<Rightarrow> 64 word \<Rightarrow> (byte \<times> byte) list \<Rightarrow> bool" where
  "entries_at mem a [] \<longleftrightarrow> True"
| "entries_at mem a ((ty, len) # es) \<longleftrightarrow> mem a = ty \<and> mem (a + 1) = len \<and> len \<noteq> 0 \<and> entries_at mem (a + ucast len) es"

fun entry_addresses :: "64 word \<Rightarrow> (byte \<times> byte) list \<Rightarrow> (byte \<times> 64 word) list" where
  "entry_addresses a [] = []"
| "entry_addresses a ((ty, len) # es) = (ty, a) # entry_addresses (a + ucast len) es"

definition total_len :: "(byte \<times> byte) list \<Rightarrow> nat" where
  "total_len es = sum_list (map (\<lambda>(ty, len). unat len) es)"

definition of_type :: "byte \<Rightarrow> (byte \<times> 64 word) list \<Rightarrow> 64 word list" where
  "of_type ty xs = map snd (filter (\<lambda>(t, a). t = ty) xs)"

definition collect :: "(byte \<times> 64 word) list \<Rightarrow> madt_lists \<Rightarrow> madt_lists" where
  "collect xs m = \<lparr>madt_ioapic_list = madt_ioapic_list m @ of_type 1 xs, madt_lapic_list = madt_lapic_list m @ of_type 0 xs,
     madt_iso_list = madt_iso_list m @ of_type 2 xs, madt_nmi_list = madt_nmi_list m @ of_type 4 xs\<rparr>"

definition fits :: "madt_lists \<Rightarrow> bool" where
  "fits m \<longleftrightarrow> length (madt_ioapic_list m) \<le> 32 \<and> length (madt_lapic_list m) \<le> 32 \<and> length (madt_iso_list m) \<le> 32 \<and>
     length (madt_nmi_list m) \<le> 32"

lemma madt_entry_collect:
  "fits (collect ((ty, a) # xs) m) \<Longrightarrow> madt_entry ty a m = Inr (collect [(ty, a)] m)"
  by (auto simp: madt_entry_def append_entry_def collect_def of_type_def fits_def)

lemma collect_Cons: "collect (x # xs) m = collect xs (collect [x] m)"
  by (cases x) (auto simp: collect_def of_type_def)

lemma total_len_Cons [simp]: "total_len ((ty, len) # es) = unat len + total_len es"
  by (simp add: total_len_def)

lemma collect_Nil [simp]: "collect [] m = m"
  by (cases m) (simp add: collect_def of_type_def)

lemma mem32_less: "unat (mem32 mem a) < 2 ^ 32"
  using unsigned_less [of "mem32 mem a"] by simp

lemma entries_at_append:
  "entries_at mem a (es @ fs) \<longleftrightarrow> entries_at mem a es \<and> entries_at mem (a + word_of_nat (total_len es)) fs"
proof (induction es arbitrary: a)
  case Nil
  then show ?case by (simp add: total_len_def)
next
  case (Cons e es)
  then show ?case by (cases e) (simp add: add.assoc)
qed

lemma entry_addresses_append:
  "entry_addresses a (es @ fs) = entry_addresses a es @ entry_addresses (a + word_of_nat (total_len es)) fs"
proof (induction es arbitrary: a)
  case Nil
  then show ?case by (simp add: total_len_def)
next
  case (Cons e es)
  then show ?case by (cases e) (simp add: add.assoc)
qed

lemma collect_append: "collect (xs @ ys) m = collect ys (collect xs m)"
  by (simp add: collect_def of_type_def)

lemma fits_append: "fits (collect (xs @ ys) m) \<Longrightarrow> fits (collect xs m)"
  by (simp add: collect_def of_type_def fits_def)

lemma not_past_end:
  fixes offset :: "64 word"
  assumes "unat offset + 44 \<le> unat (mem32 mem (madt + 4))"
  shows "\<not> offset > ucast (mem32 mem (madt + 4)) - 43"
proof -
  let ?L = "mem32 mem (madt + 4)"
  have "unat (ucast ?L :: 64 word) = unat ?L" using mem32_less [of mem "madt + 4"] by (simp add: unsigned_ucast_eq take_bit_nat_eq_self)
  then have "unat (ucast ?L - (43 :: 64 word)) = unat ?L - 43" using assms by (simp add: unat_sub word_le_nat_alt)
  then show ?thesis using assms by (simp add: word_less_nat_alt)
qed

text \<open>The loop walks over entries that end at or before the end of the table.\<close>

lemma madt_loop_walk:
  assumes "entries_at mem (madt + 44 + offset) es" "unat offset + total_len es + 44 \<le> unat (mem32 mem (madt + 4))"
    "fits (collect (entry_addresses (madt + 44 + offset) es) m)"
  shows "madt_loop mem madt offset m =
    madt_loop mem madt (offset + word_of_nat (total_len es)) (collect (entry_addresses (madt + 44 + offset) es) m)"
  using assms
proof (induction es arbitrary: offset m)
  case Nil
  then show ?case by (simp add: total_len_def)
next
  case (Cons e es)
  obtain ty len where e: "e = (ty, len)" by (cases e)
  let ?L = "mem32 mem (madt + 4)" and ?a = "madt + 44 + offset"
  have sum: "unat offset + (unat len + total_len es) + 44 \<le> unat ?L" using Cons.prems(2) e by simp
  have lenb: "unat (ucast len :: 64 word) = unat len" using unat_byte_less [of len] by (simp add: unsigned_ucast_eq take_bit_nat_eq_self)
  have off: "unat (offset + ucast len) = unat offset + unat len"
    using sum mem32_less [of mem "madt + 4"] lenb by (subst unat_add_lem [THEN iffD1]) simp_all
  have assoc: "madt + 44 + (offset + ucast len) = ?a + ucast len" by simp
  have ent: "madt_entry ty ?a m = Inr (collect [(ty, ?a)] m)"
    using Cons.prems(3) e by (intro madt_entry_collect) simp
  note cc = collect_Cons [of "(ty, ?a)" "entry_addresses (?a + ucast len) es" m]
  have "madt_loop mem madt (offset + ucast len) (collect [(ty, ?a)] m) =
      madt_loop mem madt (offset + ucast len + word_of_nat (total_len es)) (collect (entry_addresses (?a + ucast len) es) (collect [(ty, ?a)] m))"
    using Cons.IH [of "offset + ucast len" "collect [(ty, ?a)] m"] Cons.prems e off sum assoc cc by simp
  moreover have "madt_loop mem madt offset m = madt_loop mem madt (offset + ucast len) (collect [(ty, ?a)] m)"
    using Cons.prems(1) e not_past_end [of offset mem madt] sum ent by (subst madt_loop.simps) (simp add: Let_def)
  ultimately show ?case using e cc by (simp add: add.assoc)
qed

lemma total_offset:
  assumes "total_len es + 44 = unat (mem32 mem (madt + 4))"
  shows "unat (word_of_nat (total_len es) :: 64 word) = total_len es"
  using assms mem32_less [of mem "madt + 4"] by (simp add: unat_of_nat)

section \<open>Properties\<close>

text \<open>
  A table is found by its signature, the first one if there are several. When there is none, the search in the root table of a firmware
  with 64-bit pointers panics, while the callers expect NULL, as the search with 32-bit pointers returns.
\<close>

theorem find_acpi_table_first:
  assumes "length name = 4"
  shows "find_acpi_table mem hhdm extended root (ascii name) =
    (let w = (if extended then 8 else 4);
         sdt = (\<lambda>i. (if extended then mem64 mem (root + 36 + 8 * word_of_nat i) else ucast (mem32 mem (root + 36 + 4 * word_of_nat i))) + hhdm);
         t = first_table mem sdt (map of_char name) [0..<unat (sdt_entries mem root w)] in
     if extended \<and> t = None then Inl (Panic ''ACPI Table not found'') else Inr t)"
  using assms by (rule find_acpi_table_eq)

text \<open>C33: 
  From a table of interrupt controllers whose entries end where the table ends, and behind which a zero stands for the length of
  a next entry, the entries of each kind are collected, if there are at most 32 of them.
\<close>

theorem madt_init_collects:
  assumes "find_acpi_table mem hhdm extended root (ascii ''APIC'') = Inr (Some madt)"
    "entries_at mem (madt + 44) es" "total_len es + 44 = unat (mem32 mem (madt + 4))" "mem (madt + 44 + word_of_nat (total_len es) + 1) = 0"
    "fits (collect (entry_addresses (madt + 44) es) (m\<lparr>madt_ioapic_list := [], madt_lapic_list := [], madt_iso_list := []\<rparr>))"
  shows "madt_init mem hhdm extended root m =
    Some (Inr (collect (entry_addresses (madt + 44) es) (m\<lparr>madt_ioapic_list := [], madt_lapic_list := [], madt_iso_list := []\<rparr>)))"
  using madt_loop_walk [of mem madt 0 es] assms
  by (simp add: madt_init_def) (subst madt_loop.simps, simp add: Let_def)

text \<open>
  The test for the end of the table is off by one: what stands behind the table is taken for one more entry if the second byte there is not zero.
\<close>

theorem madt_reads_past_end:
  assumes "find_acpi_table mem hhdm extended root (ascii ''APIC'') = Inr (Some madt)"
    "entries_at mem (madt + 44) (es @ [(ty, len)])" "total_len es + 44 = unat (mem32 mem (madt + 4))" "2 \<le> len"
    "fits (collect (entry_addresses (madt + 44) (es @ [(ty, len)])) (m\<lparr>madt_ioapic_list := [], madt_lapic_list := [], madt_iso_list := []\<rparr>))"
  shows "madt_init mem hhdm extended root m = Some (Inr (collect (entry_addresses (madt + 44) (es @ [(ty, len)]))
    (m\<lparr>madt_ioapic_list := [], madt_lapic_list := [], madt_iso_list := []\<rparr>)))"
proof -
  let ?m = "m\<lparr>madt_ioapic_list := [], madt_lapic_list := [], madt_iso_list := []\<rparr>" and ?o = "word_of_nat (total_len es) :: 64 word"
  let ?a = "madt + 44 + ?o" and ?L = "mem32 mem (madt + 4)"
  note app = entries_at_append [of mem "madt + 44" es] entry_addresses_append [of "madt + 44" es "[(ty, len)]"]
  let ?xs = "entry_addresses (madt + 44) es"
  have at: "entries_at mem (madt + 44) es" "mem ?a = ty" "mem (?a + 1) = len" "len \<noteq> 0" using assms(2) app(1) by simp_all
  have fit: "fits (collect ?xs ?m)" "fits (collect [(ty, ?a)] (collect ?xs ?m))"
    using assms(5) app(2) fits_append by (simp_all add: collect_append)
  have uo: "unat ?o = total_len es" by (rule total_offset [OF assms(3)])
  have ul: "unat (ucast ?L :: 64 word) = unat ?L" using mem32_less [of mem "madt + 4"] by (simp add: unsigned_ucast_eq take_bit_nat_eq_self)
  have "unat (ucast len :: 64 word) = unat len" using unat_byte_less [of len] by (simp add: unsigned_ucast_eq take_bit_nat_eq_self)
  then have "unat (?o + ucast len) = total_len es + unat len"
    using uo assms(3) mem32_less [of mem "madt + 4"] unat_byte_less [of len] by (subst unat_add_lem [THEN iffD1]) simp_all
  moreover have "unat (ucast ?L - (43 :: 64 word)) = total_len es + 1" using assms(3) ul by (simp add: unat_sub word_le_nat_alt)
  ultimately have past: "?o + ucast len > ucast ?L - 43" using assms(4) by (simp add: word_less_nat_alt word_le_nat_alt)
  have "madt_loop mem madt (?o + ucast len) (collect [(ty, ?a)] (collect ?xs ?m)) = Some (Inr (collect [(ty, ?a)] (collect ?xs ?m)))"
    using past by (subst madt_loop.simps) (simp add: Let_def)
  moreover have "madt_entry ty ?a (collect ?xs ?m) = Inr (collect [(ty, ?a)] (collect ?xs ?m))"
    using fit(2) by (rule madt_entry_collect)
  ultimately have "madt_loop mem madt ?o (collect ?xs ?m) = Some (Inr (collect [(ty, ?a)] (collect ?xs ?m)))"
    using at not_past_end [of ?o mem madt] uo assms(3) by (subst madt_loop.simps) (simp add: Let_def)
  then show ?thesis
    using madt_loop_walk [of mem madt 0 es ?m] at(1) fit(1) assms(1,3) app(2) by (simp add: madt_init_def collect_append)
qed

lemma low_word_destination: "ucast (w OR push_bit 56 (x :: 64 word)) = (ucast w :: 32 word)"
  by (rule bit_word_eqI) (auto simp: bit_ucast_iff bit_or_iff bit_push_bit_iff)

text \<open>
  The processor that an interrupt is to go to has no influence on what is written to the interrupt controller: it stands in the high half of the
  entry, and both halves that are written are made of the low half.
\<close>

theorem ioapic_redirect_ignores_destination:
  "ioapic_redirect_irq shift32 mem m lapic_id vector irq masked r = ioapic_redirect_irq shift32 mem m 0 vector irq masked r"
proof -
  have g: "ioapic_redirect_gsi shift32 mem m lapic_id vector gsi flags masked = ioapic_redirect_gsi shift32 mem m 0 vector gsi flags masked" for gsi flags
    by (rule ext) (simp add: ioapic_redirect_gsi_def Let_def low_word_destination)
  have "redirect_irq_loop shift32 mem m lapic_id vector irq masked isos r = redirect_irq_loop shift32 mem m 0 vector irq masked isos r" for isos
    by (induction isos) (simp_all add: g)
  then show ?thesis by (simp add: ioapic_redirect_irq_def)
qed

text \<open>
  The version register holds the number of the last entry, which is taken for the number of entries: with one controller the last
  of its interrupts cannot be redirected, but panics.
\<close>

theorem ioapic_last_gsi_panics:
  assumes "madt_ioapic_list m = [e]" "n = drop_bit 16 (r (mem32 mem (e + 4)) 1 AND 0xFF0000)" "unat (gsi_base mem e) + unat n < 2 ^ 32"
  shows "ioapic_get_gsi mem m gsi r =
    (if gsi_base mem e \<le> gsi \<and> gsi < gsi_base mem e + n then Inr 0 else Inl (Panic (''Cannot determine IOAPIC from GSI'' @ [CHR 10])))"
proof -
  let ?b = "gsi_base mem e"
  have n: "unat (?b + n) = unat ?b + unat n" using assms(3) by (subst unat_add_lem [THEN iffD1]) simp_all
  have u: "unat (ucast w :: 64 word) = unat w" for w :: "32 word"
  proof -
    have "unat w < 2 ^ 32" using unsigned_less [of w] by simp
    then show ?thesis by (simp add: unsigned_ucast_eq take_bit_nat_eq_self)
  qed
  have "unat (ucast ?b + ucast n :: 64 word) = unat ?b + unat n"
    using assms(3) by (subst unat_add_lem [THEN iffD1]) (simp_all add: u)
  then have "(ucast ?b + ucast n :: 64 word) > ucast gsi \<longleftrightarrow> gsi < ?b + n"
    using n by (simp add: word_less_nat_alt u)
  moreover have "ioapic_gsi_count mem m 0 r = Inr (ucast n)"
    using assms(1,2) by (simp add: ioapic_gsi_count_def read_ioapic_def ioapic_entry_def)
  ultimately show ?thesis
    using assms(1) by (simp add: ioapic_get_gsi_def get_gsi_loop.simps [of _ _ _ _ 0] get_gsi_loop.simps [of _ _ _ _ "Suc 0"] Let_def)
qed

section \<open>Witnesses\<close>

text \<open>A root table at address 0 with one pointer to a table of one processor and one interrupt controller at 40; \<open>junk\<close> stands behind it.\<close>

definition demo_tables :: "byte list \<Rightarrow> byte list" where
  "demo_tables junk = [0, 0, 0, 0, 40, 0, 0, 0] @ replicate 28 0 @ [40, 0, 0, 0] @ [65, 80, 73, 67, 64, 0, 0, 0] @ replicate 36 0 @
     [0, 8] @ replicate 6 0 @ [1, 12, 0, 0, 0, 0, 0xC0, 0xFE, 0, 0, 0, 0] @ junk"

definition demo_firmware :: "byte list \<Rightarrow> 64 word \<Rightarrow> byte" where
  "demo_firmware junk a = (if unat a < length (demo_tables junk) then demo_tables junk ! unat a else 0)"

definition no_madt :: madt_lists where
  "no_madt = \<lparr>madt_ioapic_list = [], madt_lapic_list = [], madt_iso_list = [], madt_nmi_list = []\<rparr>"

lemma demo_firmware_root:
  "sdt_entries (demo_firmware []) 0 4 = 1" "sdt_entries (demo_firmware [1, 8]) 0 4 = 1" "mem32 (demo_firmware []) 36 = 40" "mem32 (demo_firmware [1, 8]) 36 = 40"
  "mem_bytes (demo_firmware []) 40 4 = map of_char ''APIC''" "mem_bytes (demo_firmware [1, 8]) 40 4 = map of_char ''APIC''"
  by code_simp+

lemma demo_found:
  "find_acpi_table (demo_firmware []) 0 False 0 (ascii ''APIC'') = Inr (Some 40)"
  "find_acpi_table (demo_firmware [1, 8]) 0 False 0 (ascii ''APIC'') = Inr (Some 40)"
  using demo_firmware_root by (simp_all add: find_acpi_table_eq first_table_def Let_def)

theorem find_acpi_table_first_witness: "find_acpi_table (demo_firmware []) 0 False 0 (ascii ''APIC'') = Inr (Some 40)"
  using find_acpi_table_first [of "''APIC''" "demo_firmware []" 0 False 0] demo_firmware_root by (simp add: first_table_def Let_def)

theorem madt_init_collects_witness:
  "madt_init (demo_firmware []) 0 False 0 no_madt =
     Some (Inr \<lparr>madt_ioapic_list = [92], madt_lapic_list = [84], madt_iso_list = [], madt_nmi_list = []\<rparr>)"
proof -
  have "entries_at (demo_firmware []) (40 + 44) [(0, 8), (1, 12)]" by code_simp
  moreover have "total_len [(0, 8), (1, 12)] + 44 = unat (mem32 (demo_firmware []) (40 + 4))" by code_simp
  moreover have "demo_firmware [] (40 + 44 + word_of_nat (total_len [(0, 8), (1, 12)]) + 1) = 0" by code_simp
  moreover have "fits (collect (entry_addresses (40 + 44) [(0, 8), (1, 12)])
      (no_madt\<lparr>madt_ioapic_list := [], madt_lapic_list := [], madt_iso_list := []\<rparr>))" by code_simp
  ultimately show ?thesis
    using madt_init_collects [OF demo_found(1), of "[(0, 8), (1, 12)]" no_madt] by (simp add: collect_def of_type_def no_madt_def)
qed

theorem madt_reads_past_end_witness:
  "madt_init (demo_firmware [1, 8]) 0 False 0 no_madt =
     Some (Inr \<lparr>madt_ioapic_list = [92, 104], madt_lapic_list = [84], madt_iso_list = [], madt_nmi_list = []\<rparr>)"
proof -
  have "entries_at (demo_firmware [1, 8]) (40 + 44) ([(0, 8), (1, 12)] @ [(1, 8)])" by code_simp
  moreover have "total_len [(0, 8), (1, 12)] + 44 = unat (mem32 (demo_firmware [1, 8]) (40 + 4))" by code_simp
  moreover have "fits (collect (entry_addresses (40 + 44) ([(0, 8), (1, 12)] @ [(1, 8)]))
      (no_madt\<lparr>madt_ioapic_list := [], madt_lapic_list := [], madt_iso_list := []\<rparr>))" by code_simp
  ultimately show ?thesis
    using madt_reads_past_end [OF demo_found(2), of "[(0, 8), (1, 12)]" 1 8 no_madt] by (simp add: collect_def of_type_def no_madt_def)
qed

theorem ioapic_last_gsi_panics_witness:
  "ioapic_get_gsi (demo_firmware []) (no_madt\<lparr>madt_ioapic_list := [92]\<rparr>) 23 (\<lambda>_ _. 0x170000) =
     Inl (Panic (''Cannot determine IOAPIC from GSI'' @ [CHR 10]))"
proof -
  have b: "gsi_base (demo_firmware []) 92 = 0" by code_simp
  have n: "drop_bit 16 ((0x170000 :: 32 word) AND 0xFF0000) = 23" by code_simp
  show ?thesis
    using ioapic_last_gsi_panics [of "no_madt\<lparr>madt_ioapic_list := [92]\<rparr>" 92 23 "\<lambda>_ _. 0x170000" "demo_firmware []" 23] n b by simp
qed

end
