(* ===== verification/System_Calls.thy ===== *)
theory System_Calls
  imports VFS_Handles Scheduler Page_Tables
begin

text \<open>
  \<^verbatim>\<open>system_call/system_calls.c\<close>: the dispatch of system calls to the virtual file system and the scheduler, and the conversion of
  pointers. The entry from user mode is assembly and left out, as is the output of messages.
\<close>

section \<open>State\<close>

record syscall_args =
  arg1 :: "64 word"
  arg2 :: "64 word"
  arg3 :: "64 word"
  arg4 :: "64 word"
  arg5 :: "64 word"
  arg6 :: "64 word"

text \<open>
  \<open>inside_kernel\<close> is the field of the calling process. \<open>extent\<close> says how many bytes of memory there are from an address of the
  program on; a string or a buffer argument is that memory.
\<close>

record 'f kernel =
  kernel_vfs :: "'f vfs"
  kernel_sched :: sched
  inside_kernel :: bool
  user_memory :: "64 word \<Rightarrow> byte"
  extent :: "64 word \<Rightarrow> nat"

definition user_bytes :: "'f kernel \<Rightarrow> 64 word \<Rightarrow> byte list" where
  "user_bytes k p = mem_bytes (user_memory k) p (extent k p)"

definition store_user :: "64 word \<Rightarrow> byte list \<Rightarrow> 'f kernel \<Rightarrow> 'f kernel" where
  "store_user p bs k = k\<lparr>user_memory := (\<lambda>a. if unat (a - p) < length bs then bs ! unat (a - p) else user_memory k a)\<rparr>"

text \<open>A call returns a value to the program, or the process ends; a call that never returns is \<open>Stuck\<close>.\<close>

datatype 'f outcome = Return "'f kernel" int | Exits "'f kernel" | Stuck

abbreviation (input) MIN_SYS :: int where "MIN_SYS \<equiv> 0"
abbreviation (input) SYS_WRITE :: int where "SYS_WRITE \<equiv> 1"
abbreviation (input) SYS_READ :: int where "SYS_READ \<equiv> 2"
abbreviation (input) SYS_SEEK :: int where "SYS_SEEK \<equiv> 3"
abbreviation (input) SYS_OPEN :: int where "SYS_OPEN \<equiv> 4"
abbreviation (input) SYS_CLOSE :: int where "SYS_CLOSE \<equiv> 5"
abbreviation (input) SYS_MOUNT :: int where "SYS_MOUNT \<equiv> 6"
abbreviation (input) SYS_UNMOUNT :: int where "SYS_UNMOUNT \<equiv> 7"
abbreviation (input) SYS_RENAME :: int where "SYS_RENAME \<equiv> 8"
abbreviation (input) SYS_EXIT :: int where "SYS_EXIT \<equiv> 9"
abbreviation (input) SYS_CREATE :: int where "SYS_CREATE \<equiv> 13"
abbreviation (input) MAX_SYS :: int where "MAX_SYS \<equiv> 16"
abbreviation (input) KERN_NO_SYS :: int where "KERN_NO_SYS \<equiv> -12"

section \<open>Dispatch\<close>

text \<open>The two ways out of the switch: a return, and the label \<^verbatim>\<open>exit\<close>, where the flag is cleared.\<close>

definition return_from :: "'f kernel \<Rightarrow> ('f vfs \<times> int) res \<Rightarrow> 'f outcome res" where
  "return_from k r = bindR r (\<lambda>(v, ret). Inr (Return (k\<lparr>kernel_vfs := v\<rparr>) ret))"

definition goto_exit :: "'f kernel \<Rightarrow> ('f vfs \<times> int) res \<Rightarrow> 'f outcome res" where
  "goto_exit k r = bindR r (\<lambda>(v, ret). Inr (Return (k\<lparr>kernel_vfs := v, inside_kernel := False\<rparr>) ret))"

text \<open>\<open>c\<close> is the processor, \<open>fuel\<close> bounds the search of a close among the open handles.\<close>

definition system_call_dispatch :: "nat \<Rightarrow> 'f fs_table \<Rightarrow> nat \<Rightarrow> int \<Rightarrow> syscall_args \<Rightarrow> 'f kernel \<Rightarrow> 'f outcome res" where
  "system_call_dispatch fuel T c syscall_no a k =
     (let k = k\<lparr>inside_kernel := True\<rparr>; v = kernel_vfs k in
      if syscall_no < MIN_SYS \<or> syscall_no > MAX_SYS then Inl (Panic ''NO SYS'')
      else if syscall_no = SYS_CLOSE then
        bindR (vfs_close fuel T (arg1 a) v) (\<lambda>r. case r of None \<Rightarrow> Inr Stuck | Some v \<Rightarrow> Inr (Return (k\<lparr>kernel_vfs := v\<rparr>) KERN_OK))
      else if syscall_no = SYS_CREATE then
        goto_exit k (vfs_create T (user_bytes k (arg1 a)) (user_bytes k (arg2 a)) (arg3 a) v)
      else if syscall_no = SYS_WRITE then
        goto_exit k (vfs_write T (arg1 a) (user_bytes k (arg2 a)) (arg3 a) v)
      else if syscall_no = SYS_READ then
        bindR (vfs_read T (arg1 a) (user_bytes k (arg2 a)) (arg3 a) v) (\<lambda>(v, buffer, ret).
          goto_exit (store_user (arg2 a) buffer k) (Inr (v, ret)))
      else if syscall_no = SYS_SEEK then goto_exit k (vfs_seek (arg1 a) (arg2 a) v)
      else if syscall_no = SYS_OPEN then goto_exit k (vfs_open T (user_bytes k (arg1 a)) v)
      else if syscall_no = SYS_MOUNT then
        return_from k (vfs_mount T (user_bytes k (arg1 a)) (user_bytes k (arg2 a)) v)
      else if syscall_no = SYS_UNMOUNT then return_from k (vfs_unmount T (user_bytes k (arg1 a)) v)
      else if syscall_no = SYS_RENAME then
        return_from k (vfs_rename T (user_bytes k (arg1 a)) (user_bytes k (arg2 a)) v)
      else if syscall_no = SYS_EXIT then
        bindR (sched_exit c (kernel_sched k)) (\<lambda>(s, _). Inr (Exits (k\<lparr>kernel_sched := s\<rparr>)))
      else Inr (Return k KERN_NO_SYS))"

section \<open>Pointers\<close>

text \<open>
  The mask \<^verbatim>\<open>0x1000\<close> keeps one bit of the address. The result is the address of the entry of the page table, as the table and
  the index in it.
\<close>

definition user_to_kernel_pointer :: "64 word \<Rightarrow> 64 word \<Rightarrow> vm \<Rightarrow> (vm \<times> (64 word \<times> nat) option) res" where
  "user_to_kernel_pointer pgdir pointer s = walk_page_directory pgdir (pointer AND 0x1000) 0 s"

definition kernel_to_user_pointer :: "64 word \<Rightarrow> 64 word \<Rightarrow> 64 word \<Rightarrow> vm \<Rightarrow> (vm \<times> 64 word) res" where
  "kernel_to_user_pointer hhdm pgdir pointer s =
     (let phys_addr = pointer - hhdm in
      bindR (map_pages pgdir phys_addr (phys_addr - hhdm) (PTE_RW OR PTE_NX) 0x1000 s) (\<lambda>(s, ret). Inr (s, pointer)))"

section \<open>Properties\<close>

definition clears_flag :: "int \<Rightarrow> bool" where
  "clears_flag n \<longleftrightarrow> n \<in> {SYS_WRITE, SYS_READ, SYS_SEEK, SYS_OPEN, SYS_CREATE}"

text \<open>C31: 
  The flag that a process is inside the kernel is cleared by the calls that leave through the label at the end, and stays set
  after the others: closing, mounting, unmounting, renaming and the calls that are not implemented.
\<close>

theorem syscall_leaves_flag_set:
  assumes "system_call_dispatch fuel T c n a k = Inr (Return k' ret)"
  shows "inside_kernel k' \<longleftrightarrow> \<not> clears_flag n"
  using assms unfolding system_call_dispatch_def Let_def clears_flag_def return_from_def goto_exit_def
  by (auto simp: bindR_eq_Inr split: if_splits option.splits)

text \<open>
  A program can stop the machine: a call with a number outside the range of the system calls panics, whatever the state. The two ends of
  the range are inside it, and return an error like every number without an implementation.
\<close>

theorem syscall_number_range:
  "(n < MIN_SYS \<or> MAX_SYS < n \<longrightarrow> system_call_dispatch fuel T c n a k = Inl (Panic ''NO SYS'')) \<and>
   (n \<in> {MIN_SYS, 10, 11, 12, 14, 15, MAX_SYS} \<longrightarrow>
      system_call_dispatch fuel T c n a k = Inr (Return (k\<lparr>inside_kernel := True\<rparr>) KERN_NO_SYS))"
  by (auto simp: system_call_dispatch_def Let_def)

text \<open>The memory of a program changes only by a read, and then only in the buffer of the call.\<close>

lemma store_user_outside: "length bs \<le> unat (a - p) \<Longrightarrow> user_memory (store_user p bs k) a = user_memory k a"
  by (simp add: store_user_def)

theorem syscall_user_memory:
  assumes "system_call_dispatch fuel T c n args k = Inr (Return k' ret)"
    and read: "\<And>v buffer ret. vfs_read T (arg1 args) (user_bytes k (arg2 args)) (arg3 args) (kernel_vfs k) = Inr (v, buffer, ret) \<Longrightarrow>
      length buffer = extent k (arg2 args)"
    and "n = SYS_READ \<longrightarrow> extent k (arg2 args) \<le> unat (a - arg2 args)"
  shows "user_memory k' a = user_memory k a"
proof (cases "n = SYS_READ")
  case True
  with assms(1) obtain v buffer where r: "vfs_read T (arg1 args) (user_bytes k (arg2 args)) (arg3 args) (kernel_vfs k) = Inr (v, buffer, ret)"
      "k' = (store_user (arg2 args) buffer (k\<lparr>inside_kernel := True\<rparr>))\<lparr>kernel_vfs := v, inside_kernel := False\<rparr>"
    by (auto simp: system_call_dispatch_def Let_def goto_exit_def bindR_eq_Inr user_bytes_def)
  with assms(3) True read [OF r(1)] show ?thesis
    using store_user_outside [of buffer a "arg2 args" "k\<lparr>inside_kernel := True\<rparr>"] by simp
next
  case False
  with assms(1) show ?thesis
    unfolding system_call_dispatch_def Let_def return_from_def goto_exit_def
    by (auto simp: bindR_eq_Inr split: if_splits option.splits)
qed

text \<open>\<^verbatim>\<open>user_to_kernel_pointer\<close> gives the same result for all pointers that agree in bit 12.\<close>

theorem user_pointer_one_bit:
  assumes "bit p 12 = bit q 12"
  shows "user_to_kernel_pointer pgdir p s = user_to_kernel_pointer pgdir q s"
proof -
  have m: "w AND 0x1000 = (if bit w 12 then 0x1000 else 0)" for w :: "64 word"
  proof (rule bit_word_eqI)
    have "(0x1000 :: 64 word) = 2 ^ 12" by simp
    then show "bit (w AND 0x1000) n = bit (if bit w 12 then 0x1000 else 0 :: 64 word) n" for n
      by (auto simp only: bit_and_iff bit_exp_iff if_True if_False bit_0_eq bot_apply bot_bool_def split: if_splits)
  qed
  show ?thesis unfolding user_to_kernel_pointer_def m using assms by simp
qed

section \<open>Witnesses\<close>

definition demo_kernel :: "unit kernel" where
  "demo_kernel = \<lparr>kernel_vfs = demo_open, kernel_sched = demo_sched, inside_kernel = False, user_memory = \<lambda>_. 0, extent = \<lambda>_. 8\<rparr>"

definition demo_args :: syscall_args where
  "demo_args = \<lparr>arg1 = 7, arg2 = 0x2000, arg3 = 4, arg4 = 0, arg5 = 0, arg6 = 0\<rparr>"

theorem syscall_leaves_flag_set_witness:
  "\<exists>k'. system_call_dispatch 10 Map.empty 0 10 demo_args demo_kernel = Inr (Return k' (-12)) \<and> inside_kernel k'"
proof -
  have r: "system_call_dispatch 10 Map.empty 0 10 demo_args demo_kernel = Inr (Return (demo_kernel\<lparr>inside_kernel := True\<rparr>) (-12))"
    by (simp add: system_call_dispatch_def Let_def)
  from syscall_leaves_flag_set [OF r] r show ?thesis by (auto simp: clears_flag_def)
qed

theorem syscall_number_range_witness:
  "system_call_dispatch 10 Map.empty 0 (-1) demo_args demo_kernel = Inl (Panic ''NO SYS'')"
  using syscall_number_range [of "-1" 10 Map.empty 0 demo_args demo_kernel] by simp

lemma demo_no_handle: "vfs_read Map.empty 7 buffer 4 demo_open = Inr (demo_open, buffer, -5)"
proof -
  have "handle_walk (Suc (Suc 0)) demo_open 11 7 = Inr NULL" by (simp add: demo_open_def)
  moreover have "dcount (handle_list demo_open) = Suc (Suc 0)" "dhead (handle_list demo_open) = 11" by (simp_all add: demo_open_def)
  ultimately show ?thesis by (simp add: vfs_read_def handle_to_vnode_def)
qed

theorem syscall_user_memory_witness:
  "\<exists>k'. system_call_dispatch 10 Map.empty 0 SYS_READ demo_args demo_kernel = Inr (Return k' (-5)) \<and> user_memory k' 0x5000 = 0"
proof -
  have args: "arg1 demo_args = 7" "arg2 demo_args = 0x2000" "arg3 demo_args = 4" "kernel_vfs demo_kernel = demo_open"
      "extent demo_kernel 0x2000 = 8" "user_memory demo_kernel 0x5000 = 0"
    by (simp_all add: demo_args_def demo_kernel_def)
  obtain k' where r: "system_call_dispatch 10 Map.empty 0 SYS_READ demo_args demo_kernel = Inr (Return k' (-5))"
    by (simp add: system_call_dispatch_def Let_def args demo_no_handle goto_exit_def)
  have "length buffer = extent demo_kernel (arg2 demo_args)"
    if "vfs_read Map.empty (arg1 demo_args) (user_bytes demo_kernel (arg2 demo_args)) (arg3 demo_args) (kernel_vfs demo_kernel) = Inr (v, buffer, ret)"
    for v buffer ret
    using that by (auto simp: args demo_no_handle user_bytes_def)
  from syscall_user_memory [OF r this, where a = "0x5000"] r args show ?thesis by auto
qed

theorem user_pointer_one_bit_witness:
  "user_to_kernel_pointer 0 0x400000 demo_vm = user_to_kernel_pointer 0 0x7FFFE000 demo_vm"
proof -
  have "bit (0x400000 :: 64 word) 12 = bit (0x7FFFE000 :: 64 word) 12" by code_simp
  then show ?thesis by (rule user_pointer_one_bit)
qed

end
