(* ===== verification/Nvme.thy ===== *)
theory Nvme
  imports Acpi
begin

text \<open>
  The driver for NVMe controllers, \<^verbatim>\<open>drivers/block/nvme.c\<close> and \<^verbatim>\<open>nvme.h\<close>: commands, queues, the wait for a completion, the
  lists of physical regions, reading and writing, and the initialisation of a controller. The controller is an argument:
  what the driver reads from its registers and from the memory they share depends on what the driver has written so far and on the time.
  Messages are left out. The table of operations of the driver has only \<^verbatim>\<open>submit_cmd\<close>, which is \<^verbatim>\<open>nvme_submit_command\<close> itself.
\<close>

section \<open>Commands\<close>

text \<open>The structures of the commands that the driver sends, without their reserved words.\<close>

record nvme_rw_command =
  rw_opcode :: byte
  rw_flags :: byte
  rw_command_id :: "16 word"
  rw_nsid :: "32 word"
  rw_metadata :: "64 word"
  rw_prp1 :: "64 word"
  rw_prp2 :: "64 word"
  rw_slba :: "64 word"
  rw_length :: "16 word"
  rw_control :: "16 word"
  rw_dsmgmt :: "32 word"
  rw_reftag :: "32 word"
  rw_apptag :: "16 word"
  rw_appmask :: "16 word"

record nvme_identify_command =
  id_opcode :: byte
  id_flags :: byte
  id_command_id :: "16 word"
  id_nsid :: "32 word"
  id_prp1 :: "64 word"
  id_prp2 :: "64 word"
  id_cns :: "32 word"

record nvme_features =
  ft_opcode :: byte
  ft_flags :: byte
  ft_command_id :: "16 word"
  ft_nsid :: "32 word"
  ft_prp1 :: "64 word"
  ft_prp2 :: "64 word"
  ft_fid :: "32 word"
  ft_dword11 :: "32 word"

record nvme_create_cq =
  cc_opcode :: byte
  cc_flags :: byte
  cc_command_id :: "16 word"
  cc_prp1 :: "64 word"
  cc_cqid :: "16 word"
  cc_qsize :: "16 word"
  cc_cq_flags :: "16 word"
  cc_irq_vector :: "16 word"

record nvme_create_sq =
  cs_opcode :: byte
  cs_flags :: byte
  cs_command_id :: "16 word"
  cs_prp1 :: "64 word"
  cs_sqid :: "16 word"
  cs_qsize :: "16 word"
  cs_sq_flags :: "16 word"
  cs_cqid :: "16 word"

record nvme_delete_queue_command =
  dq_opcode :: byte
  dq_flags :: byte
  dq_command_id :: "16 word"
  dq_qid :: "16 word"

datatype nvme_command =
  Rw nvme_rw_command
| Identify nvme_identify_command
| Features nvme_features
| Create_Cq nvme_create_cq
| Create_Sq nvme_create_sq
| Delete_Queue nvme_delete_queue_command

text \<open>\<^verbatim>\<open>command->common.command_id = id\<close>: the field has the same place in every structure of the union.\<close>

primrec set_command_id :: "16 word \<Rightarrow> nvme_command \<Rightarrow> nvme_command" where
  "set_command_id c (Rw x) = Rw (x\<lparr>rw_command_id := c\<rparr>)"
| "set_command_id c (Identify x) = Identify (x\<lparr>id_command_id := c\<rparr>)"
| "set_command_id c (Features x) = Features (x\<lparr>ft_command_id := c\<rparr>)"
| "set_command_id c (Create_Cq x) = Create_Cq (x\<lparr>cc_command_id := c\<rparr>)"
| "set_command_id c (Create_Sq x) = Create_Sq (x\<lparr>cs_command_id := c\<rparr>)"
| "set_command_id c (Delete_Queue x) = Delete_Queue (x\<lparr>dq_command_id := c\<rparr>)"

abbreviation (input) NVME_ADMIN_OPCODE_DELETE_SQ :: byte where "NVME_ADMIN_OPCODE_DELETE_SQ \<equiv> 0"
abbreviation (input) NVME_ADMIN_OPCODE_CREATE_SQ :: byte where "NVME_ADMIN_OPCODE_CREATE_SQ \<equiv> 1"
abbreviation (input) NVME_ADMIN_OPCODE_DELETE_CQ :: byte where "NVME_ADMIN_OPCODE_DELETE_CQ \<equiv> 4"
abbreviation (input) NVME_ADMIN_OPCODE_CREATE_CQ :: byte where "NVME_ADMIN_OPCODE_CREATE_CQ \<equiv> 5"
abbreviation (input) NVME_ADMIN_OPCODE_IDENTIFY :: byte where "NVME_ADMIN_OPCODE_IDENTIFY \<equiv> 6"
abbreviation (input) NVME_ADMIN_OPCODE_SET_FEATURES :: byte where "NVME_ADMIN_OPCODE_SET_FEATURES \<equiv> 9"
abbreviation (input) nvme_cmd_write :: byte where "nvme_cmd_write \<equiv> 1"
abbreviation (input) nvme_cmd_read :: byte where "nvme_cmd_read \<equiv> 2"

abbreviation (input) NVME_ADMIN_Q :: nat where "NVME_ADMIN_Q \<equiv> 0"
abbreviation (input) NVME_IO_Q :: nat where "NVME_IO_Q \<equiv> 1"
abbreviation (input) NVME_Q_NUM :: nat where "NVME_Q_NUM \<equiv> 2"
abbreviation (input) NVME_QUEUE_DEPTH :: nat where "NVME_QUEUE_DEPTH \<equiv> 2"
abbreviation (input) ADMIN_TIMEOUT :: "64 word" where "ADMIN_TIMEOUT \<equiv> 60"
abbreviation (input) IO_TIMEOUT :: "64 word" where "IO_TIMEOUT \<equiv> 30"
abbreviation (input) KERN_NO_MEM :: int where "KERN_NO_MEM \<equiv> -2"
abbreviation (input) KERN_IO_ERROR :: int where "KERN_IO_ERROR \<equiv> -7"
abbreviation (input) KERN_NO_DEVICE :: int where "KERN_NO_DEVICE \<equiv> -34"
abbreviation (input) KERN_TIMEOUT :: int where "KERN_TIMEOUT \<equiv> -47"

section \<open>The controller and the driver\<close>

text \<open>What the driver writes to the controller: commands into the memory of a submission queue, by queue and slot, and registers.\<close>

datatype nvme_write =
  Command nat nat nvme_command
| Doorbell nat "32 word"
| Controller_Config "32 word"
| Admin_Queue_Attrs "32 word"
| Admin_Sq_Base "32 word" "32 word"
| Admin_Cq_Base "32 word" "32 word"

text \<open>
  What the driver reads: the ticks of the timer, the status register, the memory that the controller writes to, and the capability register in
  two halves. Time is the number of reads so far.
\<close>

record nvme_hw =
  hw_count :: "nat \<Rightarrow> 16 word"
  hw_status :: "nvme_write list \<Rightarrow> nat \<Rightarrow> 32 word"
  hw_memory :: "nvme_write list \<Rightarrow> nat \<Rightarrow> 64 word \<Rightarrow> byte"
  hw_capabilities :: "32 word \<times> 32 word"

record nvme_queue =
  q_address :: "64 word"
  submission_queue_commands :: "64 word"
  completion_queue_entries :: "64 word"
  q_db :: "32 word"
  q_depth :: "16 word"
  cq_vector :: "16 word"
  sq_head :: "16 word"
  sq_tail :: "16 word"
  cq_head :: "16 word"
  qid :: "16 word"
  cq_phase :: byte

text \<open>The pointers \<^verbatim>\<open>queues[]\<close> are a list with \<open>None\<close> for NULL; \<^verbatim>\<open>doorbells\<close> are numbered.\<close>

record nvme_device =
  queues_at :: "64 word"
  queues :: "nvme_queue option list"
  total_queues :: "32 word"
  active_queues :: "32 word"
  max_queue_id :: "32 word"
  queue_depth :: "32 word"
  doorbell_stride :: "32 word"
  controller_config :: "32 word"
  serial_number :: "byte list"
  model_number :: "byte list"
  firmware_revision :: "byte list"
  max_transfer_shift :: "32 word"
  nvme_capabilities :: "64 word"
  nvme_page_size :: "32 word"
  prp_pool :: "64 word"
  prp_entry_count :: "32 word"
  namespace_count :: "32 word"

record nvme_namespace =
  namespace_id :: "32 word"
  eui64 :: "byte list"
  logical_block_address_shift :: nat

text \<open>
  \<open>prp_list\<close> are the words of the memory at \<^verbatim>\<open>prp_pool\<close>; \<open>command_id\<close> is the static variable of \<^verbatim>\<open>nvme_get_command_id\<close>. The
  addresses that \<^verbatim>\<open>kzmalloc\<close> has still to hand out and those that were passed to \<^verbatim>\<open>kfree\<close> are lists. \<open>namespace_devices\<close> are the namespaces
  for which a device was created.
\<close>

record nvme_state =
  nvme_dev :: nvme_device
  prp_list :: "64 word list"
  nvme_trace :: "nvme_write list"
  nvme_now :: nat
  command_id :: "16 word"
  nvme_heap :: "64 word list"
  nvme_freed :: "64 word list"
  namespace_devices :: "nat list"

text \<open>A wait for the controller may never end; \<open>None\<close> is a call that does not return.\<close>

definition bindL :: "'a res option \<Rightarrow> ('a \<Rightarrow> 'b res option) \<Rightarrow> 'b res option" where
  "bindL m f = (case m of None \<Rightarrow> None | Some r \<Rightarrow> (case r of Inl e \<Rightarrow> Some (Inl e) | Inr x \<Rightarrow> f x))"

lemma bindL_simps [simp]: "bindL None f = None" "bindL (Some (Inl e)) f = Some (Inl e)" "bindL (Some (Inr x)) f = f x"
  by (simp_all add: bindL_def)

lemma bindL_mono [partial_function_mono]:
  assumes "mono_option B" "\<And>y. mono_option (\<lambda>f. C y f)"
  shows "mono_option (\<lambda>f. bindL (B f) (\<lambda>y. C y f))"
proof -
  have "mono_option (\<lambda>f. Option.bind (B f) (\<lambda>r. case r of Inl e \<Rightarrow> Some (Inl e) | Inr y \<Rightarrow> C y f))"
    using assms by (intro bind_mono monotoneI) (auto split: sum.split simp: monotone_def option.leq_refl)
  moreover have "Option.bind m (\<lambda>r. case r of Inl e \<Rightarrow> Some (Inl e) | Inr y \<Rightarrow> g y) = bindL m g"
    for m :: "'c res option" and g :: "'c \<Rightarrow> 'd res option"
    by (cases m) (simp_all add: bindL_def)
  ultimately show ?thesis by simp
qed

definition tick :: "nvme_state \<Rightarrow> nvme_state" where
  "tick s = s\<lparr>nvme_now := Suc (nvme_now s)\<rparr>"

definition emit :: "nvme_write \<Rightarrow> nvme_state \<Rightarrow> nvme_state" where
  "emit w s = s\<lparr>nvme_trace := nvme_trace s @ [w]\<rparr>"

definition upd_dev :: "(nvme_device \<Rightarrow> nvme_device) \<Rightarrow> nvme_state \<Rightarrow> nvme_state" where
  "upd_dev f s = s\<lparr>nvme_dev := f (nvme_dev s)\<rparr>"

definition nvme_kzmalloc :: "nvme_state \<Rightarrow> nvme_state \<times> 64 word" where
  "nvme_kzmalloc s = (case nvme_heap s of [] \<Rightarrow> (s, 0) | a # as \<Rightarrow> (s\<lparr>nvme_heap := as\<rparr>, a))"

definition nvme_kfree :: "64 word \<Rightarrow> nvme_state \<Rightarrow> nvme_state" where
  "nvme_kfree a s = s\<lparr>nvme_freed := nvme_freed s @ [a]\<rparr>"

text \<open>Access through \<^verbatim>\<open>queues[i]\<close>.\<close>

definition get_queue :: "nat \<Rightarrow> nvme_state \<Rightarrow> nvme_queue res" where
  "get_queue i s = (if i < length (queues (nvme_dev s)) then
     (case queues (nvme_dev s) ! i of None \<Rightarrow> Inl NullDeref | Some q \<Rightarrow> Inr q) else Inl OutOfBounds)"

definition put_queue :: "nat \<Rightarrow> nvme_queue option \<Rightarrow> nvme_state \<Rightarrow> nvme_state res" where
  "put_queue i q s = (if i < length (queues (nvme_dev s)) then Inr (upd_dev (\<lambda>d. d\<lparr>queues := (queues d)[i := q]\<rparr>) s) else Inl OutOfBounds)"

definition nvme_read_q :: "32 word \<times> 32 word \<Rightarrow> 64 word" where
  "nvme_read_q = (\<lambda>(val_lo, val_hi). ucast val_lo OR push_bit 32 (ucast val_hi))"

definition nvme_write_q :: "64 word \<Rightarrow> 32 word \<times> 32 word" where
  "nvme_write_q val = (ucast (val AND 0xFFFFFFFF), ucast (drop_bit 32 val))"

definition NVME_CAP_TIMEOUT :: "64 word \<Rightarrow> 64 word" where "NVME_CAP_TIMEOUT cap = drop_bit 24 cap AND 0xFF"
definition NVME_CAP_STRIDE :: "64 word \<Rightarrow> 64 word" where "NVME_CAP_STRIDE cap = drop_bit 32 cap AND 0xF"
definition NVME_CAP_MPSMIN :: "64 word \<Rightarrow> 64 word" where "NVME_CAP_MPSMIN cap = drop_bit 48 cap AND 0xF"
definition NVME_CAP_MPSMAX :: "64 word \<Rightarrow> 64 word" where "NVME_CAP_MPSMAX cap = drop_bit 52 cap AND 0xF"

section \<open>Submission and completion\<close>

text \<open>A submission queue has a page of memory, which holds 64 commands.\<close>

definition nvme_submit_command :: "nat \<Rightarrow> nvme_command \<Rightarrow> nvme_state \<Rightarrow> nvme_state res" where
  "nvme_submit_command i command s =
     bindR (get_queue i s) (\<lambda>q.
     let tail = sq_tail q in
     if unat tail \<ge> 64 then Inl OutOfBounds
     else
       let s = emit (Command i (unat tail) command) s;
           tail = (if tail + 1 = q_depth q then 0 else tail + 1);
           s = emit (Doorbell (unat (q_db q)) (ucast tail)) s in
       put_queue i (Some (q\<lparr>sq_tail := tail\<rparr>)) s)"

definition nvme_get_command_id :: "nvme_state \<Rightarrow> 16 word \<times> nvme_state" where
  "nvme_get_command_id s =
     (if command_id s < 65535 then (command_id s, s\<lparr>command_id := command_id s + 1\<rparr>) else (0, s))"

text \<open>\<^verbatim>\<open>struct nvme_completion\<close> has 22 bytes, with the result in the first four and the status in the last four.\<close>

abbreviation (input) SIZEOF_COMPLETION :: "64 word" where "SIZEOF_COMPLETION \<equiv> 22"
abbreviation (input) STATUS_OFFSET :: "64 word" where "STATUS_OFFSET \<equiv> 18"

definition nvme_read_completion_status :: "nvme_hw \<Rightarrow> nvme_queue \<Rightarrow> 16 word \<Rightarrow> nvme_state \<Rightarrow> (nvme_state \<times> 16 word) res" where
  "nvme_read_completion_status hw q index s =
     (let csts = hw_status hw (nvme_trace s) (nvme_now s); s = tick s in
      if csts AND 2 \<noteq> 0 then Inl (Panic (''NVMe Fatal Controller Status'' @ [CHR 10]))
      else Inr (tick s, mem16 (hw_memory hw (nvme_trace s) (nvme_now s))
        (completion_queue_entries q + SIZEOF_COMPLETION * ucast index + STATUS_OFFSET)))"

text \<open>The loop of \<^verbatim>\<open>nvme_submit_sync_command\<close>; the result is the status, or \<open>None\<close> after the timeout.\<close>

partial_function (option) completion_loop :: "nvme_hw \<Rightarrow> nvme_queue \<Rightarrow> 16 word \<Rightarrow> 16 word \<Rightarrow> 64 word \<Rightarrow> 64 word \<Rightarrow> nvme_state \<Rightarrow>
    (nvme_state \<times> 16 word option) res option" where
  "completion_loop hw q head phase timeout start_time s =
     (case nvme_read_completion_status hw q head s of
        Inl e \<Rightarrow> Some (Inl e)
      | Inr (s, status) \<Rightarrow>
          if status AND 1 = phase then Some (Inr (s, Some status))
          else if timeout > 0 \<and> ucast (hw_count hw (nvme_now s)) - start_time \<ge> timeout then Some (Inr (tick s, None))
          else completion_loop hw q head phase timeout start_time (tick s))"

text \<open>
  The end of \<^verbatim>\<open>nvme_submit_sync_command\<close>: the head of the completion queue moves on, the phase changes when it wraps, and the controller is told.
\<close>

definition advance_head :: "nat \<Rightarrow> 16 word \<Rightarrow> 16 word \<Rightarrow> nvme_state \<Rightarrow> nvme_state res" where
  "advance_head i head phase s =
     bindR (get_queue i s) (\<lambda>q.
     let (head, phase) = (if head + 1 = q_depth q then (0, if phase = 0 then 1 else 0) else (head + 1, phase));
         s = emit (Doorbell (unat (q_db q) + unat (doorbell_stride (nvme_dev s))) (ucast head)) s in
     put_queue i (Some (q\<lparr>cq_head := head, cq_phase := ucast phase\<rparr>)) s)"

text \<open>The result is what \<^verbatim>\<open>*result\<close> is set to, if it is, and the value that is returned.\<close>

definition nvme_submit_sync_command :: "nvme_hw \<Rightarrow> nat \<Rightarrow> nvme_command \<Rightarrow> 64 word \<Rightarrow> nvme_state \<Rightarrow>
    (nvme_state \<times> 32 word option \<times> int) res option" where
  "nvme_submit_sync_command hw i command timeout s =
     bindL (Some (get_queue i s)) (\<lambda>q.
     let head = cq_head q; phase = ucast (cq_phase q); (c, s) = nvme_get_command_id s in
     bindL (Some (nvme_submit_command i (set_command_id c command) s)) (\<lambda>s.
     let start_time = ucast (hw_count hw (nvme_now s)) in
     bindL (completion_loop hw q head phase timeout start_time (tick s)) (\<lambda>(s, status).
     case status of
       None \<Rightarrow> Some (Inr (s, None, KERN_TIMEOUT))
     | Some status \<Rightarrow>
         if drop_bit 1 status \<noteq> 0 then bindL (Some (advance_head i head phase s)) (\<lambda>s. Some (Inr (s, None, KERN_IO_ERROR)))
         else
           let r = mem32 (hw_memory hw (nvme_trace s) (nvme_now s)) (completion_queue_entries q + SIZEOF_COMPLETION * ucast head) in
           bindL (Some (advance_head i head phase (tick s))) (\<lambda>s. Some (Inr (s, Some r, 0))))))"

definition nvme_submit_admin_command :: "nvme_hw \<Rightarrow> nvme_command \<Rightarrow> nvme_state \<Rightarrow> (nvme_state \<times> 32 word option \<times> int) res option" where
  "nvme_submit_admin_command hw command s = nvme_submit_sync_command hw NVME_ADMIN_Q command ADMIN_TIMEOUT s"

section \<open>Reading and writing\<close>

definition store_prp :: "nat \<Rightarrow> 64 word \<Rightarrow> 64 word list \<Rightarrow> 64 word list res" where
  "store_prp k v l = (if k < length l then Inr (l[k := v]) else Inl OutOfBounds)"

text \<open>
  The loop that fills the list: \<open>base\<close> is the index of the word that \<^verbatim>\<open>prp_pool\<close> points to. Adding the size of a page to that pointer moves it by
  as many words.
\<close>

fun prp_loop :: "64 word \<Rightarrow> 32 word \<Rightarrow> nat \<Rightarrow> nat \<Rightarrow> nat \<Rightarrow> 64 word \<Rightarrow> 64 word list \<Rightarrow> 64 word list res" where
  "prp_loop pool page_size 0 base i dma_addr l = Inr l"
| "prp_loop pool page_size (Suc number_prps) base i dma_addr l =
     (if i = unat (drop_bit 3 page_size - 1) then
        bindR (store_prp (base + i) (pool + 8 * word_of_nat base + ucast page_size) l) (\<lambda>l.
        bindR (store_prp (base + unat page_size) dma_addr l) (\<lambda>l.
        prp_loop pool page_size number_prps (base + unat page_size) 1 (dma_addr + ucast page_size) l))
      else
        bindR (store_prp (base + i) dma_addr l) (\<lambda>l.
        prp_loop pool page_size number_prps base (Suc i) (dma_addr + ucast page_size) l))"

text \<open>The result is the second entry of the command and the value returned.\<close>

definition nvme_setup_physical_region_pools :: "64 word \<Rightarrow> 32 word \<Rightarrow> 64 word \<Rightarrow> nvme_state \<Rightarrow> (nvme_state \<times> 64 word \<times> int) res" where
  "nvme_setup_physical_region_pools hhdm total_len dma_addr s =
     (let page_size = nvme_page_size (nvme_dev s);
          offset = ucast (dma_addr AND ucast (page_size - 1));
          prps_per_page = drop_bit 3 page_size;
          len = total_len - (page_size - offset) in
      if sint len \<le> 0 then Inr (s, 0, 0)
      else
        let dma_addr = dma_addr + ucast (page_size - offset) in
        if len \<le> page_size then Inr (s, dma_addr, 0)
        else if prps_per_page = 0 then Inl DivideError
        else
          let number_prps = (len + (page_size - 1)) div page_size;
              num_pages = (number_prps + (prps_per_page - 1)) div prps_per_page;
              grown = (if number_prps > prp_entry_count (nvme_dev s) then
                  let (s, a) = nvme_kzmalloc (nvme_kfree (prp_pool (nvme_dev s) + hhdm) s);
                      s = upd_dev (\<lambda>d. d\<lparr>prp_pool := a\<rparr>) s in
                  if a = 0 then (s, False)
                  else (upd_dev (\<lambda>d. d\<lparr>prp_entry_count := prps_per_page * num_pages\<rparr>)
                    (s\<lparr>prp_list := replicate (unat (num_pages * page_size) div 8) 0\<rparr>), True)
                else (s, True)) in
          case grown of
            (s, False) \<Rightarrow> Inr (s, 0, KERN_NO_MEM)
          | (s, True) \<Rightarrow>
              bindR (prp_loop (prp_pool (nvme_dev s)) page_size (unat number_prps) 0 0 dma_addr (prp_list s)) (\<lambda>l.
              Inr (s\<lparr>prp_list := l\<rparr>, prp_pool (nvme_dev s), 0)))"

text \<open>
  The loop of \<^verbatim>\<open>nvme_raw_block\<close>: \<open>lbas\<close> blocks at a time, with the start of the data in \<open>temp_buffer\<close>; \<open>temp_len\<close> starts with the number of blocks and
  is lowered by the number of bytes.
\<close>

definition rw_command :: "byte \<Rightarrow> nvme_namespace \<Rightarrow> 64 word \<Rightarrow> 16 word \<Rightarrow> 64 word \<Rightarrow> 64 word \<Rightarrow> nvme_command" where
  "rw_command opcode ns slba lbas prp1 prp2 = Rw \<lparr>rw_opcode = opcode, rw_flags = 0, rw_command_id = 0, rw_nsid = namespace_id ns, rw_metadata = 0,
     rw_prp1 = prp1, rw_prp2 = prp2, rw_slba = slba, rw_length = lbas - 1, rw_control = 0, rw_dsmgmt = 0, rw_reftag = 0, rw_apptag = 0, rw_appmask = 0\<rparr>"

partial_function (option) raw_loop :: "nvme_hw \<Rightarrow> 64 word \<Rightarrow> nvme_namespace \<Rightarrow> byte \<Rightarrow> 64 word \<Rightarrow> 16 word \<Rightarrow> 64 word \<Rightarrow> 64 word \<Rightarrow> 64 word \<Rightarrow>
    64 word \<Rightarrow> nvme_state \<Rightarrow> (nvme_state \<times> 64 word) res option" where
  "raw_loop hw hhdm ns opcode total_len lbas total_lbas slba temp_len temp_buffer s =
     (if total_lbas = 0 then Some (Inr (s, total_len - temp_len))
      else
        let (lbas, total_lbas) = (if total_lbas < ucast lbas then (ucast total_lbas, 0) else (lbas, total_lbas - ucast lbas));
            bytes = push_bit (logical_block_address_shift ns) (ucast lbas) in
        bindL (Some (nvme_setup_physical_region_pools hhdm bytes temp_buffer s)) (\<lambda>(s, prp2, ret).
        if ret \<noteq> 0 then Some (Inr (s, word_of_int KERN_IO_ERROR))
        else
          bindL (nvme_submit_sync_command hw NVME_IO_Q (rw_command opcode ns slba lbas temp_buffer prp2) IO_TIMEOUT s) (\<lambda>(s, _, status).
          if status \<noteq> 0 then Some (Inr (s, total_len - temp_len))
          else raw_loop hw hhdm ns opcode total_len lbas total_lbas (slba + ucast lbas) (temp_len - ucast bytes) (temp_buffer + scast bytes) s)))"

text \<open>A shift of \<^verbatim>\<open>1\<close> by 32 or more bits is undefined in C and is 0 here.\<close>

definition nvme_raw_block :: "nvme_hw \<Rightarrow> 64 word \<Rightarrow> nvme_namespace \<Rightarrow> 64 word \<Rightarrow> 64 word \<Rightarrow> 64 word \<Rightarrow> bool \<Rightarrow> nvme_state \<Rightarrow>
    (nvme_state \<times> 64 word) res option" where
  "nvme_raw_block hw hhdm ns block_number block_count buffer wr s =
     (let lbas = ucast (push_bit (unat (max_transfer_shift (nvme_dev s) - word_of_nat (logical_block_address_shift ns))) 1 :: 32 word);
          opcode = (if wr then nvme_cmd_write else nvme_cmd_read) in
      raw_loop hw hhdm ns opcode block_count lbas block_count block_number block_count buffer s)"

definition nvme_read_block :: "nvme_hw \<Rightarrow> 64 word \<Rightarrow> nvme_namespace \<Rightarrow> 64 word \<Rightarrow> 64 word \<Rightarrow> 64 word \<Rightarrow> nvme_state \<Rightarrow>
    (nvme_state \<times> 64 word) res option" where
  "nvme_read_block hw hhdm ns block_number block_count buffer s = nvme_raw_block hw hhdm ns block_number block_count buffer False s"

definition nvme_write_block :: "nvme_hw \<Rightarrow> 64 word \<Rightarrow> nvme_namespace \<Rightarrow> 64 word \<Rightarrow> 64 word \<Rightarrow> 64 word \<Rightarrow> nvme_state \<Rightarrow>
    (nvme_state \<times> 64 word) res option" where
  "nvme_write_block hw hhdm ns block_number block_count buffer s = nvme_raw_block hw hhdm ns block_number block_count buffer True s"

definition nvme_get_namespace_id :: "nvme_namespace \<Rightarrow> 32 word \<times> byte list" where
  "nvme_get_namespace_id ns = (namespace_id ns, eui64 ns)"

section \<open>Initialisation of a controller\<close>

text \<open>
  The wait of \<^verbatim>\<open>nvme_wait_ready\<close>: the difference of the ticks, of 16 bits each, is compared as a signed number.
\<close>

partial_function (option) wait_loop :: "nvme_hw \<Rightarrow> 32 word \<Rightarrow> int \<Rightarrow> int \<Rightarrow> nvme_state \<Rightarrow> (nvme_state \<times> int) res option" where
  "wait_loop hw ready start_count timeout_millis s =
     (if uint (hw_count hw (nvme_now s)) - start_count < timeout_millis then
        let s = tick s; csts = hw_status hw (nvme_trace s) (nvme_now s); s = tick s in
        if csts AND 1 = ready then Some (Inr (s, 0))
        else
          let csts = hw_status hw (nvme_trace s) (nvme_now s); s = tick s in
          if csts AND 2 \<noteq> 0 then Some (Inl (Panic (''NVMe Fatal Controller Status'' @ [CHR 10])))
          else wait_loop hw ready start_count timeout_millis s
      else Some (Inl (Panic ''timeout'')))"

definition nvme_wait_ready :: "nvme_hw \<Rightarrow> bool \<Rightarrow> nvme_state \<Rightarrow> (nvme_state \<times> int) res option" where
  "nvme_wait_ready hw enabled s =
     wait_loop hw (if enabled then 1 else 0) (uint (hw_count hw (nvme_now s))) (uint (NVME_CAP_TIMEOUT (nvme_capabilities (nvme_dev s)) * 500)) (tick s)"

abbreviation (input) NVME_CC_SHN_MASK :: "32 word" where "NVME_CC_SHN_MASK \<equiv> 0xC000"
abbreviation (input) NVME_CC_IOSQES :: "32 word" where "NVME_CC_IOSQES \<equiv> 0x60000"
abbreviation (input) NVME_CC_IOCQES :: "32 word" where "NVME_CC_IOCQES \<equiv> 0x400000"

definition set_control :: "nvme_hw \<Rightarrow> bool \<Rightarrow> nvme_state \<Rightarrow> (nvme_state \<times> int) res option" where
  "set_control hw enabled s =
     (let c = controller_config (nvme_dev s) AND NOT NVME_CC_SHN_MASK;
          c = (if enabled then c OR 1 else c AND NOT 1);
          s = upd_dev (\<lambda>d. d\<lparr>controller_config := c\<rparr>) s in
      nvme_wait_ready hw enabled (emit (Controller_Config c) s))"

definition nvme_enable_control :: "nvme_hw \<Rightarrow> nvme_state \<Rightarrow> (nvme_state \<times> int) res option" where
  "nvme_enable_control hw s = set_control hw True s"

definition nvme_disable_control :: "nvme_hw \<Rightarrow> nvme_state \<Rightarrow> (nvme_state \<times> int) res option" where
  "nvme_disable_control hw s = set_control hw False s"

text \<open>The doorbell of a queue: the multiplication is done with 32 bits.\<close>

definition doorbell_of :: "32 word \<Rightarrow> nvme_state \<Rightarrow> 32 word" where
  "doorbell_of queue_id s = queue_id * 2 * doorbell_stride (nvme_dev s)"

definition nvme_alloc_queue :: "nat \<Rightarrow> 32 word \<Rightarrow> nvme_state \<Rightarrow> nvme_state res" where
  "nvme_alloc_queue queue_id depth s =
     (let (s, a) = nvme_kzmalloc s in
      if a = 0 then Inl NullDeref
      else
        let (s, sq) = nvme_kzmalloc s; (s, cq) = nvme_kzmalloc s;
            q = \<lparr>q_address = a, submission_queue_commands = sq, completion_queue_entries = cq, q_db = doorbell_of (word_of_nat queue_id) s,
                 q_depth = ucast depth, cq_vector = 0, sq_head = 0, sq_tail = 0, cq_head = 0, qid = word_of_nat queue_id, cq_phase = 1\<rparr> in
        put_queue queue_id (Some q) (upd_dev (\<lambda>d. d\<lparr>total_queues := total_queues d + 1\<rparr>) s))"

definition nvme_init_queue :: "nat \<Rightarrow> nvme_state \<Rightarrow> nvme_state res" where
  "nvme_init_queue i s =
     bindR (get_queue i s) (\<lambda>q.
     bindR (put_queue i (Some (q\<lparr>sq_head := 0, sq_tail := 0, cq_phase := 1, q_db := doorbell_of (word_of_nat i) s\<rparr>)) s) (\<lambda>s.
     Inr (upd_dev (\<lambda>d. d\<lparr>active_queues := active_queues d + 1\<rparr>) s)))"

definition nvme_free_queue :: "nvme_queue \<Rightarrow> nvme_state \<Rightarrow> nvme_state" where
  "nvme_free_queue q s = nvme_kfree (q_address q) (nvme_kfree (submission_queue_commands q) (nvme_kfree (completion_queue_entries q) s))"

text \<open>The loop starts at \<^verbatim>\<open>total_queues\<close>, the index behind the last queue.\<close>

definition free_queue_at :: "nat \<Rightarrow> nvme_state \<Rightarrow> nvme_state res" where
  "free_queue_at i s =
     (if i < length (queues (nvme_dev s)) then
        let queue = queues (nvme_dev s) ! i;
            s = upd_dev (\<lambda>d. d\<lparr>total_queues := total_queues d - 1, queues := (queues d)[i := None]\<rparr>) s in
        case queue of None \<Rightarrow> Inl NullDeref | Some q \<Rightarrow> Inr (nvme_free_queue q s)
      else Inl OutOfBounds)"

definition nvme_free_queues :: "nat \<Rightarrow> nvme_state \<Rightarrow> nvme_state res" where
  "nvme_free_queues lowest s = fold_res free_queue_at (rev [lowest..<nat (sint (total_queues (nvme_dev s)) + 1)]) s"

definition nvme_configure_admin_queue :: "nvme_hw \<Rightarrow> 64 word \<Rightarrow> nvme_state \<Rightarrow> (nvme_state \<times> int) res option" where
  "nvme_configure_admin_queue hw hhdm s =
     (let cap = nvme_capabilities (nvme_dev s); page_shift = 12;
          device_page_min = NVME_CAP_MPSMIN cap + 12; device_page_max = NVME_CAP_MPSMAX cap + 12 in
      if page_shift < device_page_min then Some (Inr (s, KERN_NO_DEVICE))
      else
        let page_shift = (if page_shift > device_page_max then device_page_max else page_shift) in
        bindL (nvme_disable_control hw s) (\<lambda>(s, ret).
        if ret < 0 then Some (Inr (s, ret))
        else
          bindL (Some (case get_queue NVME_ADMIN_Q s of Inl NullDeref \<Rightarrow> nvme_alloc_queue 0 (of_nat NVME_QUEUE_DEPTH) s
            | Inl e \<Rightarrow> Inl e | Inr q \<Rightarrow> Inr s)) (\<lambda>s.
          bindL (Some (get_queue NVME_ADMIN_Q s)) (\<lambda>q.
          let aqa = ucast (q_depth q) - (1 :: 32 word);
              aqa = aqa OR push_bit 16 aqa;
              c = ucast (push_bit 7 (page_shift - 12)) OR (NVME_CC_IOSQES OR NVME_CC_IOCQES);
              s = upd_dev (\<lambda>d. d\<lparr>nvme_page_size := push_bit (unat page_shift) 1, controller_config := c\<rparr>) s;
              s = emit (Admin_Queue_Attrs aqa) s;
              s = (case nvme_write_q (submission_queue_commands q - hhdm) of (lo, hi) \<Rightarrow> emit (Admin_Sq_Base lo hi) s);
              s = (case nvme_write_q (completion_queue_entries q - hhdm) of (lo, hi) \<Rightarrow> emit (Admin_Cq_Base lo hi) s) in
          bindL (nvme_enable_control hw s) (\<lambda>(s, ret).
          if ret = KERN_TIMEOUT \<or> ret = -36 then bindL (Some (nvme_free_queues 0 s)) (\<lambda>s. Some (Inr (s, ret)))
          else bindL (Some (bindR (get_queue NVME_ADMIN_Q s) (\<lambda>q. put_queue NVME_ADMIN_Q (Some (q\<lparr>cq_vector := 0\<rparr>)) s))) (\<lambda>s.
            bindL (Some (nvme_init_queue NVME_ADMIN_Q s)) (\<lambda>s. Some (Inr (s, ret)))))))))"

section \<open>Administration\<close>

definition nvme_set_features :: "nvme_hw \<Rightarrow> 64 word \<Rightarrow> 64 word \<Rightarrow> 64 word \<Rightarrow> nvme_state \<Rightarrow> (nvme_state \<times> 32 word option \<times> int) res option" where
  "nvme_set_features hw feature_id double_word11 dma_address s =
     nvme_submit_admin_command hw (Features \<lparr>ft_opcode = NVME_ADMIN_OPCODE_SET_FEATURES, ft_flags = 0, ft_command_id = 0, ft_nsid = 0, ft_prp1 = dma_address,
       ft_prp2 = 0, ft_fid = ucast feature_id, ft_dword11 = ucast double_word11\<rparr>) s"

definition nvme_set_queue_count :: "nvme_hw \<Rightarrow> 32 word \<Rightarrow> nvme_state \<Rightarrow> (nvme_state \<times> int) res option" where
  "nvme_set_queue_count hw count s =
     (let queue_count = (count - 1) OR push_bit 16 (count - 1) in
      bindL (nvme_set_features hw 7 (ucast queue_count) 0 s) (\<lambda>(s, r, status).
      if status < 0 then Some (Inr (s, status))
      else if status > 1 then Some (Inr (s, 0))
      else case r of
        None \<Rightarrow> Some (Inl Unmodelled)
      | Some r \<Rightarrow> Some (Inr (s, (if r AND 0xFFFF > drop_bit 16 r then uint (drop_bit 16 r) + 1 else uint (r AND 0xFFFF) + 1)))))"

definition nvme_delete_queue :: "nvme_hw \<Rightarrow> byte \<Rightarrow> 16 word \<Rightarrow> nvme_state \<Rightarrow> (nvme_state \<times> 32 word option \<times> int) res option" where
  "nvme_delete_queue hw opcode i s =
     nvme_submit_admin_command hw (Delete_Queue \<lparr>dq_opcode = opcode, dq_flags = 0, dq_command_id = 0, dq_qid = i\<rparr>) s"

definition nvme_delete_sq :: "nvme_hw \<Rightarrow> 16 word \<Rightarrow> nvme_state \<Rightarrow> (nvme_state \<times> 32 word option \<times> int) res option" where
  "nvme_delete_sq hw i s = nvme_delete_queue hw NVME_ADMIN_OPCODE_DELETE_SQ i s"

definition nvme_delete_cq :: "nvme_hw \<Rightarrow> 16 word \<Rightarrow> nvme_state \<Rightarrow> (nvme_state \<times> 32 word option \<times> int) res option" where
  "nvme_delete_cq hw i s = nvme_delete_queue hw NVME_ADMIN_OPCODE_DELETE_CQ i s"

definition nvme_delete_submission_queue :: "nvme_hw \<Rightarrow> 16 word \<Rightarrow> nvme_state \<Rightarrow> (nvme_state \<times> 32 word option \<times> int) res option" where
  "nvme_delete_submission_queue hw i s = nvme_delete_queue hw NVME_ADMIN_OPCODE_CREATE_SQ i s"

definition nvme_delete_completion_queue :: "nvme_hw \<Rightarrow> 16 word \<Rightarrow> nvme_state \<Rightarrow> (nvme_state \<times> 32 word option \<times> int) res option" where
  "nvme_delete_completion_queue hw i s = nvme_delete_queue hw NVME_ADMIN_OPCODE_DELETE_CQ i s"

definition nvme_alloc_completion_queue :: "nvme_hw \<Rightarrow> 64 word \<Rightarrow> 16 word \<Rightarrow> nvme_queue \<Rightarrow> nvme_state \<Rightarrow> (nvme_state \<times> 32 word option \<times> int) res option" where
  "nvme_alloc_completion_queue hw hhdm queue_id q s =
     nvme_submit_admin_command hw (Create_Cq \<lparr>cc_opcode = NVME_ADMIN_OPCODE_CREATE_CQ, cc_flags = 0, cc_command_id = 0,
       cc_prp1 = completion_queue_entries q - hhdm, cc_cqid = queue_id, cc_qsize = q_depth q - 1, cc_cq_flags = 3, cc_irq_vector = cq_vector q\<rparr>) s"

definition nvme_alloc_submission_queue :: "nvme_hw \<Rightarrow> 64 word \<Rightarrow> 16 word \<Rightarrow> nvme_queue \<Rightarrow> nvme_state \<Rightarrow> (nvme_state \<times> 32 word option \<times> int) res option" where
  "nvme_alloc_submission_queue hw hhdm queue_id q s =
     nvme_submit_admin_command hw (Create_Sq \<lparr>cs_opcode = NVME_ADMIN_OPCODE_CREATE_SQ, cs_flags = 0, cs_command_id = 0,
       cs_prp1 = submission_queue_commands q - hhdm, cs_sqid = queue_id, cs_qsize = q_depth q - 1, cs_sq_flags = 5, cs_cqid = queue_id\<rparr>) s"

text \<open>The release of what was created falls through from one label to the next.\<close>

definition nvme_create_queue :: "nvme_hw \<Rightarrow> 64 word \<Rightarrow> nat \<Rightarrow> nvme_state \<Rightarrow> (nvme_state \<times> int) res option" where
  "nvme_create_queue hw hhdm i s =
     bindL (Some (bindR (get_queue i s) (\<lambda>q. put_queue i (Some (q\<lparr>cq_vector := word_of_nat i - 1\<rparr>)) s))) (\<lambda>s.
     bindL (Some (get_queue i s)) (\<lambda>q.
     bindL (nvme_alloc_completion_queue hw hhdm (word_of_nat i) q s) (\<lambda>(s, _, ret).
     if ret < 0 then bindL (nvme_delete_cq hw (word_of_nat i) s) (\<lambda>(s, _, _). Some (Inr (s, ret)))
     else
       bindL (nvme_alloc_submission_queue hw hhdm (word_of_nat i) q s) (\<lambda>(s, _, ret).
       if ret < 0 then
         bindL (nvme_delete_sq hw (word_of_nat i) s) (\<lambda>(s, _, _).
         bindL (nvme_delete_cq hw (word_of_nat i) s) (\<lambda>(s, _, _). Some (Inr (s, ret))))
       else bindL (Some (nvme_init_queue i s)) (\<lambda>s. Some (Inr (s, ret)))))))"

text \<open>
  The two loops of \<^verbatim>\<open>nvme_create_io_queues\<close>. The bound of the second, \<^verbatim>\<open>i <= total_queues\<close>, does not change in it.
\<close>

fun alloc_queues :: "nat list \<Rightarrow> nvme_state \<Rightarrow> nvme_state res" where
  "alloc_queues [] s = Inr s"
| "alloc_queues (i # is) s = bindR (nvme_alloc_queue i (queue_depth (nvme_dev s)) s) (alloc_queues is)"

fun create_queues :: "nvme_hw \<Rightarrow> 64 word \<Rightarrow> nat list \<Rightarrow> nvme_state \<Rightarrow> nvme_state res option" where
  "create_queues hw hhdm [] s = Some (Inr s)"
| "create_queues hw hhdm (i # is) s =
     bindL (nvme_create_queue hw hhdm i s) (\<lambda>(s, ret). if ret \<noteq> 0 then Some (Inr s) else create_queues hw hhdm is s)"

definition nvme_create_io_queues :: "nvme_hw \<Rightarrow> 64 word \<Rightarrow> nvme_state \<Rightarrow> nvme_state res option" where
  "nvme_create_io_queues hw hhdm s =
     bindL (Some (alloc_queues [unat (total_queues (nvme_dev s))..<Suc (unat (max_queue_id (nvme_dev s)))] s)) (\<lambda>s.
     create_queues hw hhdm [unat (active_queues (nvme_dev s))..<Suc (unat (total_queues (nvme_dev s)))] s)"

definition nvme_setup_io_queues :: "nvme_hw \<Rightarrow> 64 word \<Rightarrow> nvme_state \<Rightarrow> (nvme_state \<times> int) res option" where
  "nvme_setup_io_queues hw hhdm s =
     bindL (nvme_set_queue_count hw 1 s) (\<lambda>(s, ret).
     if ret \<le> 0 then Some (Inr (s, ret))
     else
       bindL (Some (nvme_free_queues 2 (upd_dev (\<lambda>d. d\<lparr>max_queue_id := 1\<rparr>) s))) (\<lambda>s.
       bindL (nvme_create_io_queues hw hhdm s) (\<lambda>s. Some (Inr (s, 0)))))"

text \<open>
  The second entry of the command stays 0 on both paths. The address of the buffer is a parameter of 32 bits.
\<close>

definition nvme_identify :: "nvme_hw \<Rightarrow> 64 word \<Rightarrow> 64 word \<Rightarrow> 32 word \<Rightarrow> nvme_state \<Rightarrow> (nvme_state \<times> 32 word option \<times> int) res option" where
  "nvme_identify hw nsid cns dma_address s =
     nvme_submit_admin_command hw (Identify \<lparr>id_opcode = NVME_ADMIN_OPCODE_IDENTIFY, id_flags = 0, id_command_id = 0, id_nsid = ucast nsid,
       id_prp1 = ucast dma_address, id_prp2 = 0, id_cns = ucast cns\<rparr>) s"

text \<open>
  The fields of \<^verbatim>\<open>struct nvme_id_ctrl\<close> that are read: the serial number from byte 4 on, the model from 24, the revision from 64 and the transfer size
  in byte 76. The statement about the number of namespaces computes a difference and drops it.
\<close>

definition nvme_get_info_from_identify :: "nvme_hw \<Rightarrow> nvme_state \<Rightarrow> (nvme_state \<times> int) res option" where
  "nvme_get_info_from_identify hw s =
     (let shift = ucast (NVME_CAP_MPSMIN (nvme_capabilities (nvme_dev s)) + 12); (s, a) = nvme_kzmalloc s in
      bindL (nvme_identify hw 0 1 (ucast a) s) (\<lambda>(s, _, ret).
      if ret > 0 then Some (Inr (nvme_kfree a s, KERN_IO_ERROR))
      else if a = 0 then Some (Inl NullDeref)
      else
        let mem = hw_memory hw (nvme_trace s) (nvme_now s);
            mdts = mem (a + 76);
            s = upd_dev (\<lambda>d. d\<lparr>serial_number := mem_bytes mem (a + 4) 20, model_number := mem_bytes mem (a + 24) 40,
                  firmware_revision := mem_bytes mem (a + 64) 8,
                  max_transfer_shift := (if mdts \<noteq> 0 then ucast mdts + shift else 20)\<rparr>) (tick s) in
        Some (Inr (nvme_kfree a s, 0))))"

text \<open>The loop over the namespaces; the result says whether all could be identified.\<close>

fun namespaces_loop :: "nvme_hw \<Rightarrow> 64 word \<Rightarrow> nat list \<Rightarrow> nvme_state \<Rightarrow> (nvme_state \<times> bool) res option" where
  "namespaces_loop hw nsid [] s = Some (Inr (s, True))"
| "namespaces_loop hw nsid (i # is) s =
     bindL (nvme_identify hw (word_of_nat i) 0 (ucast nsid) s) (\<lambda>(s, _, ret).
     if ret \<noteq> 0 then Some (Inr (s, False))
     else if nsid = 0 then Some (Inl NullDeref)
     else if mem64 (hw_memory hw (nvme_trace s) (nvme_now s)) nsid = 0 then namespaces_loop hw nsid is (tick s)
     else namespaces_loop hw nsid is ((fst (nvme_kzmalloc (tick s)))\<lparr>namespace_devices := namespace_devices s @ [i]\<rparr>))"

definition nvme_init :: "nvme_hw \<Rightarrow> 64 word \<Rightarrow> nvme_state \<Rightarrow> (nvme_state \<times> int) res option" where
  "nvme_init hw hhdm s =
     (let (s, a) = nvme_kzmalloc s;
          cap = nvme_read_q (hw_capabilities hw);
          s = upd_dev (\<lambda>d. d\<lparr>queues_at := a, queues := (if a = 0 then [] else replicate NVME_Q_NUM None), queue_depth := of_nat NVME_QUEUE_DEPTH,
                nvme_capabilities := cap, doorbell_stride := push_bit (unat (NVME_CAP_STRIDE cap)) 1\<rparr>) s in
      bindL (nvme_configure_admin_queue hw hhdm s) (\<lambda>(s, ret).
      if ret \<noteq> 0 then Some (Inr (nvme_kfree (queues_at (nvme_dev s)) s, KERN_IO_ERROR))
      else
        let (s, pool) = nvme_kzmalloc s;
            s = upd_dev (\<lambda>d. d\<lparr>prp_pool := pool, prp_entry_count := 64\<rparr>)
              (s\<lparr>prp_list := (if pool = 0 then [] else replicate (unat (nvme_page_size (nvme_dev s)) div 8) 0)\<rparr>) in
        bindL (nvme_setup_io_queues hw hhdm s) (\<lambda>(s, ret).
        if ret \<noteq> 0 then Some (Inr (nvme_kfree (queues_at (nvme_dev s)) s, KERN_IO_ERROR))
        else
          bindL (nvme_get_info_from_identify hw s) (\<lambda>(s, _).
          let (s, nsid) = nvme_kzmalloc s in
          bindL (namespaces_loop hw nsid [1..<Suc (unat (namespace_count (nvme_dev s)))] s) (\<lambda>(s, ok).
          if ok then Some (Inr (nvme_kfree nsid s, 0))
          else Some (Inr (nvme_kfree (queues_at (nvme_dev s)) (nvme_kfree nsid s), KERN_IO_ERROR)))))))"

definition nvme_shutdown :: "nvme_hw \<Rightarrow> nvme_state \<Rightarrow> (nvme_state \<times> int) res option" where
  "nvme_shutdown hw s = nvme_disable_control hw s"

text \<open>
  The address of the registers, from the base address registers of the function: two of them when the first says that the address has 64 bits.
\<close>

definition nvme_bar_address :: "pci_device \<Rightarrow> 32 word list \<Rightarrow> 64 word" where
  "nvme_bar_address d bars =
     (if sixtyfour_bit_bar d then ucast (bars ! 0 AND NOT 0xF) OR push_bit 32 (ucast (bars ! 1)) else ucast (bars ! 0))"

end
