(* ===== verification/Nvme_Queues.thy ===== *)
theory Nvme_Queues
  imports Nvme Acpi_Tables
begin

text \<open>
  The queues of the NVMe driver: command identifiers, the position of the driver in a queue, and what a synchronous command does, whatever
  the controller answers. Of the controller nothing is assumed but that it reports no fatal error, and of the timer that it runs.
\<close>

section \<open>Positions in a queue\<close>

lemma get_queue_upd [simp]:
  "i < length (queues (nvme_dev s)) \<Longrightarrow> get_queue i (upd_dev (\<lambda>d. d\<lparr>queues := (queues d)[i := Some q]\<rparr>) s) = Inr q"
  by (simp add: get_queue_def upd_dev_def)

lemma get_queue_length: "get_queue i s = Inr q \<Longrightarrow> i < length (queues (nvme_dev s)) \<and> queues (nvme_dev s) ! i = Some q"
  by (auto simp: get_queue_def split: if_splits option.splits)

lemma state_simps [simp]:
  "get_queue i (tick s) = get_queue i s" "get_queue i (emit w s) = get_queue i s" "get_queue i (s\<lparr>command_id := c\<rparr>) = get_queue i s"
  "get_queue i (s\<lparr>nvme_now := t\<rparr>) = get_queue i s"
  "put_queue i q (tick s) = map_sum id tick (put_queue i q s)"
  "nvme_trace (tick s) = nvme_trace s" "nvme_trace (emit w s) = nvme_trace s @ [w]" "nvme_now (tick s) = Suc (nvme_now s)"
  "nvme_now (emit w s) = nvme_now s" "nvme_dev (tick s) = nvme_dev s" "nvme_dev (emit w s) = nvme_dev s"
  "command_id (tick s) = command_id s" "command_id (emit w s) = command_id s"
  by (simp_all add: get_queue_def put_queue_def tick_def emit_def upd_dev_def)

text \<open>
  The \<open>n\<close>-th command of a queue, counted from 0, uses slot \<open>n mod depth\<close>. The \<open>n\<close>-th completion is expected in slot \<open>n mod depth\<close>, with a phase
  that changes each time the queue wraps.
\<close>

definition phase :: "nvme_queue \<Rightarrow> nat \<Rightarrow> byte" where
  "phase q n = (if even (n div unat (q_depth q)) then 1 else 0)"

definition slot :: "nvme_queue \<Rightarrow> nat \<Rightarrow> nat" where
  "slot q n = n mod unat (q_depth q)"

text \<open>A queue after \<open>a\<close> commands and \<open>b\<close> completions.\<close>

definition at_positions :: "nvme_queue \<Rightarrow> nat \<Rightarrow> nat \<Rightarrow> nvme_queue" where
  "at_positions q a b = q\<lparr>sq_tail := word_of_nat (slot q a), cq_head := word_of_nat (slot q b), cq_phase := phase q b\<rparr>"

definition queue_ok :: "nvme_queue \<Rightarrow> bool" where
  "queue_ok q \<longleftrightarrow> 0 < q_depth q \<and> q_depth q \<le> 64"

lemma slot_bound: "queue_ok q \<Longrightarrow> slot q n < unat (q_depth q) \<and> unat (q_depth q) \<le> 64"
  unfolding queue_ok_def slot_def by (simp add: word_less_nat_alt word_le_nat_alt)

lemma slot_word: "queue_ok q \<Longrightarrow> unat (word_of_nat (slot q n) :: 16 word) = slot q n"
  using slot_bound [of q n] by (simp add: unat_of_nat)

lemma slot_wraps:
  assumes "queue_ok q"
  shows "word_of_nat (slot q n) + 1 = q_depth q \<longleftrightarrow> Suc (slot q n) = unat (q_depth q)"
proof -
  have "unat (word_of_nat (slot q n) + 1 :: 16 word) = Suc (slot q n)"
    using slot_bound [OF assms, of n] slot_word [OF assms, of n] by (subst unat_add_lem [THEN iffD1]) simp_all
  then show ?thesis by (simp add: word_unat_eq_iff)
qed

lemma next_slot:
  assumes "queue_ok q"
  shows "slot q (Suc n) = (if Suc (slot q n) = unat (q_depth q) then 0 else Suc (slot q n))"
    and "phase q (Suc n) = (if Suc (slot q n) = unat (q_depth q) then (if phase q n = 0 then 1 else 0) else phase q n)"
  using slot_bound [OF assms, of n] unfolding slot_def phase_def by (auto simp: mod_Suc div_Suc split: if_splits)

text \<open>The slots that the commands of a queue were written to.\<close>

definition slots_used :: "nat \<Rightarrow> nvme_write list \<Rightarrow> nat list" where
  "slots_used i tr = List.map_filter (\<lambda>w. case w of Command j k _ \<Rightarrow> if i = j then Some k else None | _ \<Rightarrow> None) tr"

lemma slots_used_simps [simp]:
  "slots_used i [] = []" "slots_used i (tr @ tr') = slots_used i tr @ slots_used i tr'"
  "slots_used i (Command j k c # tr) = (if i = j then k # slots_used i tr else slots_used i tr)" "slots_used i (Doorbell d v # tr) = slots_used i tr"
  by (auto simp: slots_used_def List.map_filter_def)

definition next_slot_word :: "nvme_queue \<Rightarrow> nat \<Rightarrow> 16 word" where
  "next_slot_word q n = (if word_of_nat (slot q n) + 1 = q_depth q then 0 else word_of_nat (slot q n) + 1)"

lemma at_positions_sel [simp]:
  "sq_tail (at_positions q a b) = word_of_nat (slot q a)" "cq_head (at_positions q a b) = word_of_nat (slot q b)" "cq_phase (at_positions q a b) = phase q b"
  "q_depth (at_positions q a b) = q_depth q" "q_db (at_positions q a b) = q_db q" "completion_queue_entries (at_positions q a b) = completion_queue_entries q"
  by (simp_all add: at_positions_def)

lemma at_positions_Suc:
  assumes "queue_ok q"
  shows "(at_positions q a b)\<lparr>sq_tail := next_slot_word q a\<rparr> = at_positions q (Suc a) b"
    and "(at_positions q a b)\<lparr>cq_head := next_slot_word q b,
      cq_phase := (if word_of_nat (slot q b) + 1 = q_depth q then (if phase q b = 0 then 1 else 0) else phase q b)\<rparr> = at_positions q a (Suc b)"
  using next_slot [OF assms] slot_wraps [OF assms] by (auto simp: at_positions_def next_slot_word_def)

lemma phase_cases: "phase q n = 0 \<or> phase q n = 1"
  by (simp add: phase_def)

section \<open>Waiting for a completion\<close>

text \<open>The controller does not report a fatal error, in the bit of its status register for it.\<close>

definition no_fatal :: "nvme_hw \<Rightarrow> bool" where
  "no_fatal hw \<longleftrightarrow> (\<forall>tr t. hw_status hw tr t AND 2 = 0)"

text \<open>
  The timer runs: from any time on, the ticks, subtracted as the driver subtracts them, reach the limit at some later time and stay there for the
  time of one round of the loop, which makes three reads.
\<close>

definition timer_runs :: "nvme_hw \<Rightarrow> 64 word \<Rightarrow> bool" where
  "timer_runs hw timeout \<longleftrightarrow> 0 < timeout \<and>
     (\<forall>t. \<exists>v>t. \<forall>u\<in>{v..v + 2}. timeout \<le> ucast (hw_count hw u) - ucast (hw_count hw t))"

text \<open>At some time, the driver reads a status with the expected phase in the slot.\<close>

definition status_seen :: "nvme_hw \<Rightarrow> nvme_queue \<Rightarrow> 16 word \<Rightarrow> 16 word \<Rightarrow> bool" where
  "status_seen hw q head ph \<longleftrightarrow> (\<exists>tr t. mem16 (hw_memory hw tr t) (completion_queue_entries q + 22 * ucast head + 18) AND 1 = ph)"

lemma completion_loop_returns:
  assumes "no_fatal hw" "0 < timeout" "\<forall>u\<in>{v..v + 2}. timeout \<le> ucast (hw_count hw u) - start_time" "nvme_now s \<le> v"
  shows "\<exists>u st. completion_loop hw q head ph timeout start_time s = Some (Inr (s\<lparr>nvme_now := u\<rparr>, st)) \<and> (st \<noteq> None \<longrightarrow> status_seen hw q head ph)"
  using assms(4)
proof (induction "v - nvme_now s" arbitrary: s rule: less_induct)
  case less
  let ?st = "mem16 (hw_memory hw (nvme_trace s) (Suc (nvme_now s))) (completion_queue_entries q + 22 * ucast head + 18)"
  have rd: "nvme_read_completion_status hw q head s = Inr (tick (tick s), ?st)"
    using assms(1) by (simp add: nvme_read_completion_status_def Let_def no_fatal_def)
  let ?late = "timeout \<le> ucast (hw_count hw (Suc (Suc (nvme_now s)))) - start_time"
  consider "?st AND 1 = ph" | "?st AND 1 \<noteq> ph" ?late | "?st AND 1 \<noteq> ph" "\<not> ?late" by blast
  then show ?case
  proof cases
    case 1
    then have "status_seen hw q head ph" unfolding status_seen_def by blast
    then show ?thesis using 1 rd by (subst completion_loop.simps) (auto simp: tick_def)
  next
    case 2
    then show ?thesis using rd assms(2) by (subst completion_loop.simps) (auto simp: tick_def)
  next
    case 3
    then have step: "completion_loop hw q head ph timeout start_time s = completion_loop hw q head ph timeout start_time (tick (tick (tick s)))"
      using rd by (subst completion_loop.simps) simp
    have "Suc (Suc (nvme_now s)) \<notin> {v..v + 2}" using 3(2) assms(3) by blast
    then have "Suc (Suc (nvme_now s)) < v" using less.prems by simp
    then have "v - nvme_now (tick (tick (tick s))) < v - nvme_now s" "nvme_now (tick (tick (tick s))) \<le> v" by simp_all
    from less.hyps [OF this] show ?thesis unfolding step by (simp add: tick_def)
  qed
qed

section \<open>Synchronous commands\<close>

definition next_id :: "nvme_state \<Rightarrow> 16 word" where
  "next_id s = (if command_id s < 65535 then command_id s else 0)"

lemma get_id: "\<exists>c. nvme_get_command_id s = (next_id s, s\<lparr>command_id := c\<rparr>)"
proof (cases "command_id s < 65535")
  case False
  then have "nvme_get_command_id s = (next_id s, s\<lparr>command_id := command_id s\<rparr>)" by (simp add: nvme_get_command_id_def next_id_def)
  then show ?thesis by blast
qed (auto simp: nvme_get_command_id_def next_id_def)

text \<open>
  What a command leaves: the command and doorbells are written, the queue is one command further, one completion further when the command was
  completed, and nothing else changes but the time.
\<close>

definition after_command :: "nat \<Rightarrow> nvme_queue \<Rightarrow> nat \<Rightarrow> nat \<Rightarrow> nvme_command \<Rightarrow> nvme_state \<Rightarrow> bool \<Rightarrow> nvme_state \<Rightarrow> bool" where
  "after_command i q a b c s completed s' \<longleftrightarrow>
     (\<exists>ds. nvme_trace s' = nvme_trace s @ Command i (slot q a) (set_command_id (next_id s) c) # map (\<lambda>(d, v). Doorbell d v) ds) \<and>
     nvme_dev s' = (nvme_dev s)\<lparr>queues := (queues (nvme_dev s))[i := Some (at_positions q (Suc a) (if completed then Suc b else b))]\<rparr> \<and>
     prp_list s' = prp_list s \<and> nvme_heap s' = nvme_heap s \<and> nvme_freed s' = nvme_freed s \<and> namespace_devices s' = namespace_devices s"

lemma after_command_queue:
  "after_command i q a b c s completed s' \<Longrightarrow> i < length (queues (nvme_dev s)) \<Longrightarrow>
     get_queue i s' = Inr (at_positions q (Suc a) (if completed then Suc b else b))"
  by (simp add: after_command_def get_queue_def)

lemma no_slots_in_doorbells [simp]: "slots_used i (map (\<lambda>(d, v). Doorbell d v) ds) = []"
  by (induction ds) auto

lemma submit_at_positions:
  assumes "get_queue i s = Inr (at_positions q a b)" "queue_ok q"
  shows "nvme_submit_command i c s = Inr (s\<lparr>nvme_trace := nvme_trace s @ [Command i (slot q a) c, Doorbell (unat (q_db q)) (ucast (next_slot_word q a))],
    nvme_dev := (nvme_dev s)\<lparr>queues := (queues (nvme_dev s))[i := Some (at_positions q (Suc a) b)]\<rparr>\<rparr>)"
  using assms get_queue_length [OF assms(1)] slot_word [OF assms(2), of a] slot_bound [OF assms(2), of a] at_positions_Suc(1) [OF assms(2), where a = a and b = b]
  by (auto simp: nvme_submit_command_def Let_def put_queue_def upd_dev_def emit_def next_slot_word_def split: if_splits)

lemma advance_at_positions:
  assumes "get_queue i s = Inr (at_positions q a b)" "queue_ok q"
  shows "\<exists>d. advance_head i (word_of_nat (slot q b)) (ucast (phase q b)) s =
    Inr (s\<lparr>nvme_trace := nvme_trace s @ [Doorbell d (ucast (next_slot_word q b))],
      nvme_dev := (nvme_dev s)\<lparr>queues := (queues (nvme_dev s))[i := Some (at_positions q a (Suc b))]\<rparr>\<rparr>)"
proof -
  have ph: "(ucast (ucast (phase q b) :: 16 word) :: byte) = phase q b" "(ucast (phase q b) :: 16 word) = 0 \<longleftrightarrow> phase q b = 0"
    using phase_cases [of q b] by auto
  show ?thesis
    using assms(1) get_queue_length [OF assms(1)] ph at_positions_Suc(2) [OF assms(2), where a = a and b = b]
    by (auto simp: advance_head_def Let_def put_queue_def upd_dev_def emit_def next_slot_word_def split: if_splits)
qed

text \<open>Whatever the controller does, a synchronous command returns: with success, with an error of the command, or after the timeout.\<close>

lemma sync_returns:
  assumes "get_queue i s = Inr (at_positions q a b)" "queue_ok q" "no_fatal hw" "timer_runs hw timeout"
  shows "\<exists>s' r ret. nvme_submit_sync_command hw i c timeout s = Some (Inr (s', r, ret)) \<and> ret \<in> {0, KERN_IO_ERROR, KERN_TIMEOUT} \<and>
    after_command i q a b c s (ret \<noteq> KERN_TIMEOUT) s' \<and> (ret \<noteq> KERN_TIMEOUT \<longrightarrow> status_seen hw q (word_of_nat (slot q b)) (ucast (phase q b)))"
proof -
  let ?id = "next_id s" and ?q1 = "at_positions q (Suc a) b"
  let ?tr = "nvme_trace s @ [Command i (slot q a) (set_command_id ?id c), Doorbell (unat (q_db q)) (ucast (next_slot_word q a))]"
  let ?dev = "(nvme_dev s)\<lparr>queues := (queues (nvme_dev s))[i := Some ?q1]\<rparr>"
  note len = get_queue_length [OF assms(1)]
  obtain d where id: "nvme_get_command_id s = (?id, s\<lparr>command_id := d\<rparr>)" using get_id by blast
  let ?s1 = "s\<lparr>command_id := d, nvme_trace := ?tr, nvme_dev := ?dev\<rparr>"
  have s1: "nvme_submit_command i (set_command_id ?id c) (s\<lparr>command_id := d\<rparr>) = Inr ?s1"
    using submit_at_positions [OF _ assms(2), of i "s\<lparr>command_id := d\<rparr>" a b "set_command_id ?id c"] assms(1) by simp
  from assms(4) obtain v where v: "0 < timeout" "nvme_now s < v" "\<forall>u\<in>{v..v + 2}. timeout \<le> ucast (hw_count hw u) - ucast (hw_count hw (nvme_now s))"
    unfolding timer_runs_def by blast
  from completion_loop_returns [OF assms(3) v(1,3), of "tick ?s1" "at_positions q a b" "word_of_nat (slot q b)" "ucast (phase q b)"] v(2)
  obtain u st where loop: "completion_loop hw (at_positions q a b) (word_of_nat (slot q b)) (ucast (phase q b)) timeout (ucast (hw_count hw (nvme_now s))) (tick ?s1) =
      Some (Inr (?s1\<lparr>nvme_now := u\<rparr>, st))" and "st \<noteq> None \<Longrightarrow> status_seen hw (at_positions q a b) (word_of_nat (slot q b)) (ucast (phase q b))" by (auto simp: tick_def)
  then have seen: "st \<noteq> None \<Longrightarrow> status_seen hw q (word_of_nat (slot q b)) (ucast (phase q b))" by (simp add: status_seen_def)
  have live: "get_queue i (?s1\<lparr>nvme_now := u\<rparr>) = Inr ?q1" "get_queue i (tick (?s1\<lparr>nvme_now := u\<rparr>)) = Inr ?q1" using len by (simp_all add: get_queue_def)
  from advance_at_positions [OF live(1) assms(2)] advance_at_positions [OF live(2) assms(2)] obtain d1 d2 where
    adv: "advance_head i (word_of_nat (slot q b)) (ucast (phase q b)) (?s1\<lparr>nvme_now := u\<rparr>) =
      Inr (?s1\<lparr>nvme_now := u, nvme_trace := ?tr @ [Doorbell d1 (ucast (next_slot_word q b))],
        nvme_dev := (nvme_dev s)\<lparr>queues := (queues (nvme_dev s))[i := Some (at_positions q (Suc a) (Suc b))]\<rparr>\<rparr>)"
      "advance_head i (word_of_nat (slot q b)) (ucast (phase q b)) (tick (?s1\<lparr>nvme_now := u\<rparr>)) =
      Inr (?s1\<lparr>nvme_now := Suc u, nvme_trace := ?tr @ [Doorbell d2 (ucast (next_slot_word q b))],
        nvme_dev := (nvme_dev s)\<lparr>queues := (queues (nvme_dev s))[i := Some (at_positions q (Suc a) (Suc b))]\<rparr>\<rparr>)"
    by (auto simp: tick_def)
  let ?bell = "Doorbell (unat (q_db q)) (ucast (next_slot_word q a))"
  have bells: "\<exists>ds. [?bell] = map (\<lambda>(d, v). Doorbell d v) ds" "\<exists>ds. [?bell, Doorbell d v] = map (\<lambda>(d, v). Doorbell d v) ds" for d v
    by (rule exI [of _ "[(unat (q_db q), ucast (next_slot_word q a))]"], simp)
      (rule exI [of _ "[(unat (q_db q), ucast (next_slot_word q a)), (d, v)]"], simp)
  show ?thesis
  proof (cases st)
    case None
    then show ?thesis unfolding nvme_submit_sync_command_def after_command_def using assms(1) id s1 loop bells(1) by (simp add: Let_def)
  next
    case (Some status)
    show ?thesis
    proof (cases "drop_bit 1 status = 0")
      case True
      then show ?thesis unfolding nvme_submit_sync_command_def after_command_def using Some seen assms(1) id s1 loop adv(2) bells(2) by (simp add: Let_def)
    next
      case False
      then show ?thesis unfolding nvme_submit_sync_command_def after_command_def using Some seen assms(1) id s1 loop adv(1) bells(2) by (simp add: Let_def)
    qed
  qed
qed

end
