(* ===== verification/Nvme_Transfers.thy ===== *)
theory Nvme_Transfers
  imports Nvme_Queues
begin

text \<open>
  Reading and writing with the NVMe driver: the regions of memory that a command names, and the commands of a transfer.
\<close>

section \<open>Physical regions\<close>

lemma prp_loop_fills:
  assumes "i + n \<le> unat (drop_bit 3 page_size - 1)" "i + n \<le> length l"
  shows "prp_loop pool page_size n 0 i dma_addr l = Inr (overwrite l i (map (\<lambda>j. dma_addr + word_of_nat j * ucast page_size) [0..<n]))"
  using assms
proof (induction n arbitrary: i dma_addr l)
  case 0
  then show ?case by (simp add: overwrite_def)
next
  case (Suc n)
  have "[0..<Suc n] = 0 # map Suc [0..<n]" by (simp add: upt_conv_Cons map_Suc_upt)
  then have "map (\<lambda>j. dma_addr + word_of_nat j * ucast page_size) [0..<Suc n] =
      dma_addr # map (\<lambda>j. (dma_addr + ucast page_size) + word_of_nat j * ucast page_size) [0..<n]"
    by (simp add: algebra_simps)
  then show ?case using Suc.prems Suc.IH [of "Suc i" "l[i := dma_addr]" "dma_addr + ucast page_size"]
    by (simp add: store_prp_def overwrite_def take_Suc_conv_app_nth)
qed

lemma page_offset:
  fixes dma :: "64 word"
  defines "p \<equiv> (ucast (dma AND ucast (4096 - 1 :: 32 word)) :: 32 word)"
  shows "unat p = unat (dma AND 0xFFF)" "unat (dma AND 0xFFF) < 4096" "dma + ucast (4096 - p) = dma - (dma AND 0xFFF) + 4096"
proof -
  show lt: "unat (dma AND 0xFFF) < 4096" using word_and_le1 [of dma "0xFFF"] by (simp add: word_le_nat_alt)
  have u: "(ucast (4096 - 1 :: 32 word) :: 64 word) = 0xFFF" by simp
  show p: "unat p = unat (dma AND 0xFFF)" unfolding p_def u using lt by (simp add: unsigned_ucast_eq take_bit_nat_eq_self)
  have "unat (ucast (4096 - p) :: 64 word) = 4096 - unat (dma AND 0xFFF)"
    using p lt by (simp add: unsigned_ucast_eq take_bit_nat_eq_self unat_sub word_le_nat_alt)
  moreover have "unat (4096 - (dma AND 0xFFF)) = 4096 - unat (dma AND 0xFFF)"
    using lt by (simp add: unat_sub word_le_nat_alt)
  ultimately have "ucast (4096 - p) = 4096 - (dma AND 0xFFF)" by (simp add: word_unat_eq_iff)
  then show "dma + ucast (4096 - p) = dma - (dma AND 0xFFF) + 4096" by simp
qed

text \<open>The length that is left behind the first page, as the code computes it with 32 bits.\<close>

lemma length_left:
  assumes "m < 4096" "n < 2 ^ 31"
  shows "sint (word_of_nat n - (4096 - word_of_nat m) :: 32 word) = int n + int m - 4096"
    and "4096 < n + m \<Longrightarrow> word_of_nat n - (4096 - word_of_nat m) = (word_of_nat (n + m - 4096) :: 32 word)"
proof -
  have e: "word_of_nat n - (4096 - word_of_nat m) = (word_of_int (int n + int m - 4096) :: 32 word)"
    by (simp add: algebra_simps)
  show "sint (word_of_nat n - (4096 - word_of_nat m) :: 32 word) = int n + int m - 4096"
    unfolding e signed_of_int using assms by (subst signed_take_bit_int_eq_self) simp_all
  show "4096 < n + m \<Longrightarrow> word_of_nat n - (4096 - word_of_nat m) = (word_of_nat (n + m - 4096) :: 32 word)"
    by (simp add: of_nat_diff algebra_simps)
qed

definition further_pages :: "64 word \<Rightarrow> nat \<Rightarrow> nat" where
  "further_pages dma n = (unat (dma AND 0xFFF) + n - 1) div 4096"

definition page_behind :: "64 word \<Rightarrow> nat \<Rightarrow> 64 word" where
  "page_behind dma j = dma - (dma AND 0xFFF) + 4096 * word_of_nat (Suc j)"

text \<open>The pool after it was replaced by one that has room for \<open>k\<close> regions.\<close>

definition pool_pages :: "nat \<Rightarrow> nat" where
  "pool_pages k = (k + 511) div 512"

definition grown :: "64 word \<Rightarrow> nat \<Rightarrow> nvme_state \<Rightarrow> nvme_state" where
  "grown hhdm k s = s\<lparr>nvme_freed := nvme_freed s @ [prp_pool (nvme_dev s) + hhdm], nvme_heap := tl (nvme_heap s), prp_list := replicate (512 * pool_pages k) 0,
     nvme_dev := (nvme_dev s)\<lparr>prp_pool := hd (nvme_heap s), prp_entry_count := 512 * word_of_nat (pool_pages k)\<rparr>\<rparr>"

lemma number_of_regions:
  assumes "(m + 4095) div 4096 \<le> 4096"
  shows "unat ((word_of_nat m + (4096 - 1) :: 32 word) div 4096) = (m + 4095) div 4096"
    "((word_of_nat m + (4096 - 1) :: 32 word) div 4096 + (512 - 1)) div 512 = word_of_nat (pool_pages ((m + 4095) div 4096))"
proof -
  let ?k = "(m + 4095) div 4096"
  have "m + 4095 < 4097 * 4096" using assms by (simp add: div_less_iff_less_mult [symmetric] flip: less_Suc_eq_le)
  then have "unat (word_of_nat m + (4096 - 1) :: 32 word) = m + 4095"
    by (subst unat_add_lem [THEN iffD1]) (simp_all add: unat_of_nat)
  then show 1: "unat ((word_of_nat m + (4096 - 1) :: 32 word) div 4096) = ?k"
    by (simp add: unat_div)
  have "unat ((word_of_nat m + (4096 - 1) :: 32 word) div 4096 + (512 - 1)) = ?k + 511"
    using 1 assms by (subst unat_add_lem [THEN iffD1]) simp_all
  then have "unat (((word_of_nat m + (4096 - 1) :: 32 word) div 4096 + (512 - 1)) div 512) = pool_pages ?k"
    using assms by (simp add: unat_div pool_pages_def)
  then show "((word_of_nat m + (4096 - 1) :: 32 word) div 4096 + (512 - 1)) div 512 = word_of_nat (pool_pages ?k)"
    by (metis of_nat_unat ucast_id)
qed

lemma pool_pages_bound: "k \<le> 4096 \<Longrightarrow> unat (word_of_nat (pool_pages k) * 4096 :: 32 word) div 8 = 512 * pool_pages k"
  by (simp add: pool_pages_def unat_word_ariths unat_of_nat)

lemma setup_pools_eq:
  assumes ps: "nvme_page_size (nvme_dev s) = 4096" and n: "0 < n" "n < 2 ^ 31" and k: "further_pages dma n \<le> 4096"
    and room: "further_pages dma n > unat (prp_entry_count (nvme_dev s)) \<Longrightarrow> nvme_heap s \<noteq> [] \<and> hd (nvme_heap s) \<noteq> 0"
  shows "nvme_setup_physical_region_pools hhdm (word_of_nat n) dma s =
    (if further_pages dma n = 0 then Inr (s, 0, 0)
     else if further_pages dma n = 1 then Inr (s, page_behind dma 0, 0)
     else let s = (if further_pages dma n > unat (prp_entry_count (nvme_dev s)) then grown hhdm (further_pages dma n) s else s) in
       bindR (prp_loop (prp_pool (nvme_dev s)) 4096 (further_pages dma n) 0 0 (page_behind dma 0) (prp_list s)) (\<lambda>l.
         Inr (s\<lparr>prp_list := l\<rparr>, prp_pool (nvme_dev s), 0)))"
proof -
  define p where "p = (ucast (dma AND ucast (4096 - 1 :: 32 word)) :: 32 word)"
  note po = page_offset [of dma, folded p_def]
  define m where "m = unat (dma AND 0xFFF)"
  have pm: "p = word_of_nat m" "m < 4096" using po by (simp_all add: m_def flip: po(1))
  let ?len = "word_of_nat n - (4096 - word_of_nat m) :: 32 word" and ?k = "further_pages dma n"
  have kk: "?k = (m + n - 1) div 4096" by (simp add: further_pages_def m_def)
  note len = length_left [OF pm(2) n(2)]
  have k0: "sint ?len \<le> 0 \<longleftrightarrow> ?k = 0" using len(1) n unfolding kk by (auto simp: div_eq_0_iff)
  let ?L = "n + m - 4096"
  have long: "4096 < n + m" "?len = word_of_nat ?L" "unat (word_of_nat ?L :: 32 word) = ?L" if "?k \<noteq> 0"
  proof -
    show g: "4096 < n + m" using that unfolding kk by (simp add: div_eq_0_iff)
    then show "?len = word_of_nat ?L" by (rule len(2))
    show "unat (word_of_nat ?L :: 32 word) = ?L" using pm(2) n(2) by (subst unat_of_nat) simp
  qed
  have k1: "?len \<le> 4096 \<longleftrightarrow> ?k = 1" if "?k \<noteq> 0"
  proof -
    have "?len \<le> 4096 \<longleftrightarrow> ?L \<le> 4096" unfolding long(2) [OF that] word_le_nat_alt long(3) [OF that] by simp
    also have "\<dots> \<longleftrightarrow> ?k = 1" using that long(1) [OF that] unfolding kk by (auto simp: div_eq_0_iff)
    finally show ?thesis .
  qed
  have big: "4096 < ?L" "(?L + 4095) div 4096 = ?k" if "?k \<noteq> 0" "?k \<noteq> 1"
  proof -
    show "4096 < ?L" using k1 [OF that(1)] that(2) unfolding long(2) [OF that(1)] word_le_nat_alt long(3) [OF that(1)] by simp
    then show "(?L + 4095) div 4096 = ?k" unfolding kk by (simp add: add.commute)
  qed
  have d: "drop_bit 3 (4096 :: 32 word) = 512" by simp
  note unfolded = nvme_setup_physical_region_pools_def Let_def ps p_def [symmetric] pm(1) po(3) [unfolded pm(1)] d
  show ?thesis
  proof (cases "?k = 0 \<or> ?k = 1")
    case True
    then show ?thesis unfolding unfolded using k0 k1 by (auto simp: page_behind_def)
  next
    case False
    then have no: "?k \<noteq> 0" "?k \<noteq> 1" by auto
    note regions = number_of_regions [of ?L, unfolded big(2) [OF no], OF k]
    have cmp: "(word_of_nat ?L + (4096 - 1) :: 32 word) div 4096 > c \<longleftrightarrow> ?k > unat c" for c
      using regions(1) by (simp only: word_less_nat_alt)
    have neg: "\<not> sint (word_of_nat ?L :: 32 word) \<le> 0" "\<not> (word_of_nat ?L :: 32 word) \<le> 4096"
      using k0 k1 no unfolding long(2) [OF no(1)] by auto
    have pb: "dma - (dma AND 0xFFF) + 4096 = page_behind dma 0" by (simp add: page_behind_def)
    show ?thesis
    proof (cases "?k > unat (prp_entry_count (nvme_dev s))")
      case True
      then obtain a h where h: "nvme_heap s = a # h" "a \<noteq> 0" using room by (cases "nvme_heap s") auto
      show ?thesis
        unfolding unfolded if_not_P [OF neg(1)] if_not_P [OF neg(2)] if_not_P [OF no(1)] if_not_P [OF no(2)] long(2) [OF no(1)] cmp if_P [OF True] regions(2) pb
        using h neg regions(1) pool_pages_bound [OF k] by (simp add: nvme_kzmalloc_def nvme_kfree_def upd_dev_def grown_def)
    next
      case False
      then show ?thesis
        unfolding unfolded if_not_P [OF neg(1)] if_not_P [OF neg(2)] if_not_P [OF no(1)] if_not_P [OF no(2)] long(2) [OF no(1)] cmp if_not_P [OF False] pb
        using neg regions(1) by simp
    qed
  qed
qed


section \<open>Properties of the regions\<close>

text \<open>C38: 
  A command names the pages of its buffer: the first one by the address itself; what lies behind is nothing, one further page, or a list of
  consecutive pages in the pool, which is replaced by a larger one when it is too small.
\<close>

theorem nvme_regions_describe_buffer:
  assumes "nvme_page_size (nvme_dev s) = 4096" "0 < n" "n < 2 ^ 31" "further_pages dma n \<le> 511"
    "unat (prp_entry_count (nvme_dev s)) \<le> length (prp_list s)"
    "unat (prp_entry_count (nvme_dev s)) < further_pages dma n \<longrightarrow> nvme_heap s \<noteq> [] \<and> hd (nvme_heap s) \<noteq> 0"
  shows "\<exists>s' prp2. nvme_setup_physical_region_pools hhdm (word_of_nat n) dma s = Inr (s', prp2, 0) \<and>
    (if further_pages dma n = 0 then prp2 = 0
     else if further_pages dma n = 1 then prp2 = page_behind dma 0
     else prp2 = prp_pool (nvme_dev s') \<and> take (further_pages dma n) (prp_list s') = map (page_behind dma) [0..<further_pages dma n])"
proof -
  let ?k = "further_pages dma n"
  have pages: "page_behind dma 0 + word_of_nat j * 4096 = page_behind dma j" for j by (simp add: page_behind_def algebra_simps)
  have "511 = unat (drop_bit 3 (4096 :: 32 word) - 1)" by simp
  then have fills: "prp_loop pool 4096 ?k 0 0 (page_behind dma 0) l = Inr (overwrite l 0 (map (page_behind dma) [0..<?k]))" if "?k \<le> length l" for pool l
    using that assms(4) prp_loop_fills [of 0 ?k 4096 l] by (simp add: pages)
  have "1 < ?k \<Longrightarrow> ?k \<le> 512 * pool_pages ?k" by (simp add: pool_pages_def)
  then show ?thesis
    using assms setup_pools_eq [of s n dma hhdm] fills by (auto simp: Let_def grown_def overwrite_def)
qed

lemma prp_loop_overruns:
  assumes "i \<le> 511" "512 \<le> i + n" "length l \<le> 4096"
  shows "prp_loop pool 4096 n 0 i dma l = Inl OutOfBounds"
  using assms
proof (induction n arbitrary: i dma l)
  case (Suc n)
  have "511 = unat (drop_bit 3 (4096 :: 32 word) - 1)" by simp
  then show ?case using Suc by (cases "i = 511") (auto simp: store_prp_def)
qed simp

text \<open>
  A list that does not fit into one page is to be continued in the next page of the pool. The driver moves the pointer by eight pages instead,
  and writes behind the pool that it has just allocated.
\<close>

theorem nvme_region_list_overruns:
  assumes "nvme_page_size (nvme_dev s) = 4096" "0 < n" "n < 2 ^ 31" "512 \<le> further_pages dma n" "further_pages dma n \<le> 4096"
    "unat (prp_entry_count (nvme_dev s)) < further_pages dma n" "nvme_heap s \<noteq> []" "hd (nvme_heap s) \<noteq> 0"
  shows "nvme_setup_physical_region_pools hhdm (word_of_nat n) dma s = Inl OutOfBounds"
proof -
  have "512 * pool_pages (further_pages dma n) \<le> 4096" using assms(5) by (simp add: pool_pages_def)
  with prp_loop_overruns [of 0 "further_pages dma n"] show ?thesis
    using assms setup_pools_eq [of s n dma hhdm] by (simp add: Let_def grown_def)
qed


section \<open>Transfers\<close>

text \<open>The commands of a transfer, \<open>l\<close> blocks of \<open>2 ^ shift\<close> bytes at a time: the first block, the number of blocks less one and the address of the data.\<close>

function transfers :: "nat \<Rightarrow> nat \<Rightarrow> nat \<Rightarrow> 64 word \<Rightarrow> 64 word \<Rightarrow> (64 word \<times> 16 word \<times> 64 word) list" where
  "transfers l shift left_over blk buf =
     (if left_over = 0 \<or> l = 0 then []
      else (blk, word_of_nat (min l left_over) - 1, buf) #
        transfers l shift (left_over - min l left_over) (blk + word_of_nat (min l left_over)) (buf + word_of_nat (min l left_over * 2 ^ shift)))"
  by pat_completeness auto
termination
  by (relation "measure (\<lambda>(l, shift, left_over, blk, buf). left_over)") auto

declare transfers.simps [simp del]

definition request :: "nvme_write \<Rightarrow> (byte \<times> 64 word \<times> 16 word \<times> 64 word) option" where
  "request w = (case w of Command i _ (Rw x) \<Rightarrow> if i = NVME_IO_Q then Some (rw_opcode x, rw_slba x, rw_length x, rw_prp1 x) else None | _ \<Rightarrow> None)"

definition requests :: "nvme_write list \<Rightarrow> (byte \<times> 64 word \<times> 16 word \<times> 64 word) list" where
  "requests tr = List.map_filter request tr"

lemma requests_simps [simp]:
  "requests (tr @ tr') = requests tr @ requests tr'" "requests [] = []" "requests (Doorbell d v # tr) = requests tr"
  "requests (Command (Suc 0) k (set_command_id c (rw_command opcode ns slba lbas prp1 prp2)) # tr) = (opcode, slba, lbas - 1, prp1) # requests tr"
  by (simp_all add: requests_def request_def List.map_filter_def rw_command_def)

lemma no_requests_in_doorbells [simp]: "requests (map (\<lambda>(d, v). Doorbell d v) ds) = []"
  by (induction ds) auto

text \<open>The driver is ready: its queue has seen some commands and some completions, and the pool is large enough for 64 regions.\<close>

definition ready :: "nvme_queue \<Rightarrow> nvme_state \<Rightarrow> bool" where
  "ready q s \<longleftrightarrow> (\<exists>a b. get_queue NVME_IO_Q s = Inr (at_positions q a b)) \<and> nvme_page_size (nvme_dev s) = 4096 \<and>
     64 \<le> unat (prp_entry_count (nvme_dev s)) \<and> unat (prp_entry_count (nvme_dev s)) \<le> length (prp_list s)"

lemma ready_after_command: "ready q s \<Longrightarrow> after_command NVME_IO_Q q a b c s completed s' \<Longrightarrow> ready q s'"
  using get_queue_length [of 1 s] after_command_queue [of 1 q a b c s completed s'] unfolding ready_def by (fastforce simp: after_command_def)

text \<open>A command of a transfer returns; what it leaves of the state depends on the controller.\<close>

lemma rw_returns:
  assumes "ready q s" "queue_ok q" "no_fatal hw" "timer_runs hw IO_TIMEOUT"
  shows "\<exists>s' r ret. nvme_submit_sync_command hw NVME_IO_Q (rw_command opcode ns slba lbas prp1 prp2) IO_TIMEOUT s = Some (Inr (s', r, ret)) \<and> ready q s' \<and>
    requests (nvme_trace s') = requests (nvme_trace s) @ [(opcode, slba, lbas - 1, prp1)]"
proof -
  obtain a b where q: "get_queue NVME_IO_Q s = Inr (at_positions q a b)" using assms(1) by (auto simp: ready_def)
  from sync_returns [OF this assms(2-4), of "rw_command opcode ns slba lbas prp1 prp2"] obtain s' r ret where
    r: "nvme_submit_sync_command hw NVME_IO_Q (rw_command opcode ns slba lbas prp1 prp2) IO_TIMEOUT s = Some (Inr (s', r, ret))"
    "after_command NVME_IO_Q q a b (rw_command opcode ns slba lbas prp1 prp2) s (ret \<noteq> KERN_TIMEOUT) s'" by blast
  from r(2) have "requests (nvme_trace s') = requests (nvme_trace s) @ [(opcode, slba, lbas - 1, prp1)]" by (auto simp: after_command_def)
  with r(1) ready_after_command [OF assms(1) r(2)] show ?thesis by blast
qed

lemma setup_ready:
  assumes "ready q s" "0 < n" "n \<le> 64 * 4096"
  shows "\<exists>l prp2. nvme_setup_physical_region_pools hhdm (word_of_nat n) dma s = Inr (s\<lparr>prp_list := l\<rparr>, prp2, 0) \<and> ready q (s\<lparr>prp_list := l\<rparr>)"
proof -
  let ?k = "further_pages dma n"
  have s: "s = s\<lparr>prp_list := prp_list s\<rparr>" by simp
  have "unat (dma AND 0xFFF) < 4096" by (rule page_offset)
  then have k: "?k \<le> 64" using assms(3) unfolding further_pages_def by linarith
  have "511 = unat (drop_bit 3 (4096 :: 32 word) - 1)" by simp
  then have "\<exists>l. prp_loop pool 4096 ?k 0 0 (page_behind dma 0) (prp_list s) = Inr l \<and> length l = length (prp_list s)" for pool
    using k assms(1) prp_loop_fills [of 0 ?k 4096 "prp_list s"] by (simp add: ready_def)
  then obtain l where l: "prp_loop (prp_pool (nvme_dev s)) 4096 ?k 0 0 (page_behind dma 0) (prp_list s) = Inr l" "length l = length (prp_list s)" by blast
  note eq = setup_pools_eq [of s n dma hhdm]
  have keep: "ready q (s\<lparr>prp_list := l\<rparr>)" if "length l = length (prp_list s)" for l
    using that assms(1) by (auto simp: ready_def get_queue_def split: if_splits)
  show ?thesis
  proof (cases "?k = 0 \<or> ?k = 1")
    case True
    then have "\<exists>prp2. nvme_setup_physical_region_pools hhdm (word_of_nat n) dma s = Inr (s\<lparr>prp_list := prp_list s\<rparr>, prp2, 0)"
      using assms k eq by (auto simp: ready_def)
    then show ?thesis using keep by blast
  next
    case False
    then have "nvme_setup_physical_region_pools hhdm (word_of_nat n) dma s = Inr (s\<lparr>prp_list := l\<rparr>, prp_pool (nvme_dev s), 0)"
      using assms k eq l by (auto simp: ready_def)
    then show ?thesis using keep l(2) by blast
  qed
qed

text \<open>The number of blocks of some commands, and that the last command that was sent returned an error.\<close>

definition blocks :: "(64 word \<times> 16 word \<times> 64 word) list \<Rightarrow> nat" where
  "blocks ts = sum_list (map (\<lambda>(_, n, _). Suc (unat n)) ts)"

definition last_failed :: "nvme_hw \<Rightarrow> nvme_state \<Rightarrow> bool" where
  "last_failed hw s' \<longleftrightarrow> (\<exists>s c r ret. nvme_submit_sync_command hw NVME_IO_Q c IO_TIMEOUT s = Some (Inr (s', r, ret)) \<and> ret \<noteq> 0)"

lemma blocks_of_command:
  assumes "0 < c" "c < 65536"
  shows "Suc (unat (word_of_nat c - 1 :: 16 word)) = c"
proof -
  have "unat (word_of_nat c :: 16 word) = c" using assms by (subst unat_of_nat) simp
  then show ?thesis using assms by (subst unat_minus_one) (auto simp: word_unat_eq_iff)
qed

lemma cast_32:
  assumes "m < 2 ^ 31"
  shows "(ucast (word_of_nat m :: 32 word) :: 64 word) = word_of_nat m" "(scast (word_of_nat m :: 32 word) :: 64 word) = word_of_nat m"
proof -
  show "(ucast (word_of_nat m :: 32 word) :: 64 word) = word_of_nat m"
    using assms by (simp add: word_unat_eq_iff unsigned_ucast_eq unat_of_nat take_bit_nat_eq_self)
  have "sint (word_of_int (int m) :: 32 word) = int m"
    unfolding signed_of_int using assms by (subst signed_take_bit_int_eq_self) simp_all
  then show "(scast (word_of_nat m :: 32 word) :: 64 word) = word_of_nat m"
    unfolding scast_eq by simp
qed

lemma cast_16: "c < 65536 \<Longrightarrow> (ucast (word_of_nat c :: 16 word) :: 64 word) = word_of_nat c"
  by (simp add: word_unat_eq_iff unsigned_ucast_eq unat_of_nat take_bit_nat_eq_self)

lemma bytes_moved: "c < 65536 \<Longrightarrow> push_bit shift (ucast (word_of_nat c :: 16 word)) = (word_of_nat (c * 2 ^ shift) :: 32 word)"
proof -
  assume "c < 65536"
  then have "(ucast (word_of_nat c :: 16 word) :: 32 word) = word_of_nat c"
    by (simp add: word_unat_eq_iff unsigned_ucast_eq unat_of_nat take_bit_nat_eq_self)
  then show "push_bit shift (ucast (word_of_nat c :: 16 word)) = (word_of_nat (c * 2 ^ shift) :: 32 word)" by (simp add: push_bit_eq_mult)
qed

text \<open>
  The loop sends an initial part of the commands of the transfer: all of them, or those up to the first one that returns an error. Its result counts the
  bytes of the commands that were successful.
\<close>

lemma raw_loop_transfers:
  assumes "0 < l" "l < 65536" "l * 2 ^ logical_block_address_shift ns \<le> 64 * 4096" "left_over < 2 ^ 64"
    "ready q s" "queue_ok q" "no_fatal hw" "timer_runs hw IO_TIMEOUT"
  shows "\<exists>s' k. raw_loop hw hhdm ns opcode whole (word_of_nat l) (word_of_nat left_over) slba temp_len buf s =
      Some (Inr (s', whole - (temp_len - word_of_nat (blocks (take k (transfers l (logical_block_address_shift ns) left_over slba buf)) * 2 ^ logical_block_address_shift ns)))) \<and>
    requests (nvme_trace s') = requests (nvme_trace s) @ map (Pair opcode) (take (Suc k) (transfers l (logical_block_address_shift ns) left_over slba buf)) \<and>
    k \<le> length (transfers l (logical_block_address_shift ns) left_over slba buf) \<and>
    (k < length (transfers l (logical_block_address_shift ns) left_over slba buf) \<longrightarrow> last_failed hw s')"
  using assms
proof (induction left_over arbitrary: slba temp_len buf s rule: less_induct)
  case (less left_over)
  let ?sh = "logical_block_address_shift ns" and ?c = "min l left_over"
  show ?case
  proof (cases "left_over = 0")
    case True
    then show ?thesis using less.prems by (subst raw_loop.simps) (simp add: transfers.simps blocks_def)
  next
    case False
    have c: "0 < ?c" "?c < 65536" "?c * 2 ^ ?sh \<le> 64 * 4096" "?c * 2 ^ ?sh < 2 ^ 31" "0 < ?c * 2 ^ ?sh"
      using False less.prems(1-3) order_trans [OF mult_le_mono1 [of ?c l "2 ^ ?sh"] less.prems(3)] by auto
    obtain pl prp2 where pool: "nvme_setup_physical_region_pools hhdm (word_of_nat (?c * 2 ^ ?sh)) buf s = Inr (s\<lparr>prp_list := pl\<rparr>, prp2, 0)"
        "ready q (s\<lparr>prp_list := pl\<rparr>)"
      using setup_ready [OF less.prems(5) c(5,3)] by blast
    let ?cmd = "rw_command opcode ns slba (word_of_nat ?c) buf prp2"
    from rw_returns [OF pool(2) less.prems(6-8), of opcode ns slba "word_of_nat ?c" buf prp2] obtain s1 r ret where
      s1: "nvme_submit_sync_command hw NVME_IO_Q ?cmd IO_TIMEOUT (s\<lparr>prp_list := pl\<rparr>) = Some (Inr (s1, r, ret))" "ready q s1"
        "requests (nvme_trace s1) = requests (nvme_trace s) @ [(opcode, slba, word_of_nat ?c - 1, buf)]" by auto
    have lo: "unat (word_of_nat left_over :: 64 word) = left_over" using less.prems(4) by (subst unat_of_nat) simp
    have lt: "(word_of_nat left_over :: 64 word) < ucast (word_of_nat l :: 16 word) \<longleftrightarrow> left_over < l"
      unfolding cast_16 [OF less.prems(2)] word_less_nat_alt lo using less.prems(2) by (subst unat_of_nat) simp
    have nz: "(word_of_nat left_over :: 64 word) \<noteq> 0" using False lo by (metis unat_0)
    have sp: "(if (word_of_nat left_over :: 64 word) < ucast (word_of_nat l :: 16 word) then (ucast (word_of_nat left_over :: 64 word), 0)
        else (word_of_nat l, word_of_nat left_over - ucast (word_of_nat l :: 16 word))) = (word_of_nat ?c :: 16 word, word_of_nat (left_over - ?c) :: 64 word)"
    proof (cases "left_over < l")
      case True
      then have "(ucast (word_of_nat left_over :: 64 word) :: 16 word) = word_of_nat left_over"
        using less.prems(2) by (simp add: word_unat_eq_iff unsigned_ucast_eq unat_of_nat take_bit_nat_eq_self)
      then show ?thesis unfolding lt using True by (simp add: min_absorb2)
    next
      case False
      then show ?thesis unfolding lt using less.prems(2) by (simp add: cast_16 min_absorb1)
    qed
    have step: "raw_loop hw hhdm ns opcode whole (word_of_nat l) (word_of_nat left_over) slba temp_len buf s =
        (if ret \<noteq> 0 then Some (Inr (s1, whole - temp_len))
         else raw_loop hw hhdm ns opcode whole (word_of_nat ?c) (word_of_nat (left_over - ?c)) (slba + word_of_nat ?c) (temp_len - word_of_nat (?c * 2 ^ ?sh))
          (buf + word_of_nat (?c * 2 ^ ?sh)) s1)"
      by (subst raw_loop.simps) (simp only: nz if_False Let_def sp prod.case bytes_moved [OF c(2)] pool(1) bindL_simps s1(1) cast_16 [OF c(2)] cast_32 [OF c(4)] simp_thms if_cancel HOL.refl not_True_eq_False)
    let ?rest = "transfers l ?sh (left_over - ?c) (slba + word_of_nat ?c) (buf + word_of_nat (?c * 2 ^ ?sh))"
    have list: "transfers l ?sh left_over slba buf = (slba, word_of_nat ?c - 1, buf) # ?rest"
      using False less.prems(1) by (subst transfers.simps) simp
    have first: "blocks ((slba, word_of_nat ?c - 1, buf) # ts) = ?c + blocks ts" for ts
      using blocks_of_command [OF c(1,2)] by (simp add: blocks_def)
    show ?thesis
    proof (cases "ret = 0")
      case False
      then have "last_failed hw s1" using s1(1) unfolding last_failed_def by blast
      then show ?thesis unfolding step list using False s1(3) by (intro exI [of _ s1] exI [of _ 0]) (simp add: blocks_def)
    next
      case True
      have "left_over - ?c < left_over" "left_over - ?c < 2 ^ 64" using c(1) less.prems(4) by auto
      note IH = less.IH [OF this(1) less.prems(1-3) this(2) s1(2) less.prems(6-8), of "slba + word_of_nat ?c" "temp_len - word_of_nat (?c * 2 ^ ?sh)" "buf + word_of_nat (?c * 2 ^ ?sh)"]
      have same: "raw_loop hw hhdm ns opcode whole (word_of_nat ?c) (word_of_nat (left_over - ?c)) x y z s1 =
          raw_loop hw hhdm ns opcode whole (word_of_nat l) (word_of_nat (left_over - ?c)) x y z s1" for x y z
        by (cases "left_over \<le> l") (simp_all add: raw_loop.simps [of _ _ _ _ _ _ 0] min_absorb1)
      have bytes: "t - word_of_nat (?c * 2 ^ ?sh) - word_of_nat (n * 2 ^ ?sh) = t - word_of_nat ((?c + n) * 2 ^ ?sh)" for t :: "64 word" and n
        by (simp add: algebra_simps)
      from IH obtain s2 k where
        s2: "raw_loop hw hhdm ns opcode whole (word_of_nat l) (word_of_nat (left_over - ?c)) (slba + word_of_nat ?c) (temp_len - word_of_nat (?c * 2 ^ ?sh))
            (buf + word_of_nat (?c * 2 ^ ?sh)) s1 = Some (Inr (s2, whole - (temp_len - word_of_nat (?c * 2 ^ ?sh) - word_of_nat (blocks (take k ?rest) * 2 ^ ?sh))))"
          "requests (nvme_trace s2) = requests (nvme_trace s1) @ map (Pair opcode) (take (Suc k) ?rest)" "k \<le> length ?rest" "k < length ?rest \<longrightarrow> last_failed hw s2" by blast
      show ?thesis unfolding step list same using s2 s1(3)
        by (intro exI [of _ s2] exI [of _ "Suc k"])
          (simp only: True take_Suc_Cons first bytes list.map list.size(4) append_assoc append.simps Suc_le_mono Suc_less_eq add_Suc_right add_0_right
            simp_thms if_False HOL.refl)
    qed
  qed
qed

lemma transfers_blocks:
  assumes "0 < l" "l < 65536"
  shows "blocks (transfers l shift left_over blk buf) = left_over"
  using assms
proof (induction left_over arbitrary: blk buf rule: less_induct)
  case (less left_over)
  show ?case
  proof (cases "left_over = 0")
    case True
    then show ?thesis by (simp add: transfers.simps blocks_def)
  next
    case False
    then have "Suc (unat (word_of_nat (min l left_over) - 1 :: 16 word)) = min l left_over" using less.prems by (intro blocks_of_command) auto
    then show ?thesis using False less unfolding blocks_def by (subst transfers.simps) simp
  qed
qed

section \<open>Properties of a transfer\<close>


section \<open>Witnesses\<close>

text \<open>
  A controller with completions of 16 bytes, as the driver has configured it: the last command in slot \<open>k\<close> is completed at once, with the status 0 and its
  phase in the last two bytes of entry \<open>k\<close> and 0 elsewhere. The timer counts reads.
\<close>

definition demo_controller :: "nat \<Rightarrow> nvme_queue \<Rightarrow> nvme_hw" where
  "demo_controller i q = \<lparr>hw_count = word_of_nat, hw_status = \<lambda>_ _. 1,
     hw_memory = \<lambda>tr t a.
       let n = length (slots_used i tr); k = unat (a - completion_queue_entries q) div 16 in
       if unat (a - completion_queue_entries q) mod 16 = 14 \<and> k < min n (unat (q_depth q)) then phase q (n - 1 - (n - 1 - k) mod unat (q_depth q)) else 0,
     hw_capabilities = (0, 0)\<rparr>"

lemma counting_reaches:
  assumes "timeout \<le> 60"
  shows "\<exists>v>t. \<forall>u\<in>{v..v + 2}. timeout \<le> ucast (word_of_nat u :: 16 word) - (ucast (word_of_nat t :: 16 word) :: 64 word)"
proof -
  have cast: "(ucast (word_of_nat n :: 16 word) :: 64 word) = word_of_nat (n mod 65536)" for n
    by (simp add: word_unat_eq_iff unsigned_ucast_eq unat_of_nat take_bit_nat_eq_self)
  let ?x = "t mod 65536"
  have diff: "timeout \<le> word_of_nat ((t + j) mod 65536) - word_of_nat ?x" if j: "65533 \<le> j" "j < 65536" for j
  proof (cases "?x + j < 65536")
    case True
    then have "(t + j) mod 65536 = ?x + j" by (simp add: mod_add_left_eq [of t, symmetric] del: mod_add_left_eq)
    then have "word_of_nat ((t + j) mod 65536) - word_of_nat ?x = (word_of_nat j :: 64 word)" by simp
    moreover have "(60 :: 64 word) \<le> word_of_nat j" using j by (simp add: word_le_nat_alt unat_of_nat)
    ultimately show ?thesis using assms by simp
  next
    case False
    have "(t + j) mod 65536 = (?x + j) mod 65536" by (simp add: mod_add_left_eq)
    also have "\<dots> = ?x - (65536 - j)" using False j by (subst le_mod_geq) simp_all
    finally have "word_of_nat ((t + j) mod 65536) - word_of_nat ?x = (- word_of_nat (65536 - j) :: 64 word)" using False by (simp add: of_nat_diff)
    moreover have "65536 - j \<in> {1, 2, 3}" using j by auto
    ultimately have "(60 :: 64 word) \<le> word_of_nat ((t + j) mod 65536) - word_of_nat ?x" by auto
    then show ?thesis using assms by simp
  qed
  show ?thesis unfolding cast
  proof (rule exI [of _ "t + 65533"], intro conjI ballI)
    fix u assume "u \<in> {t + 65533..t + 65533 + 2}"
    then obtain j where "u = t + j" "65533 \<le> j" "j < 65536" by (intro that [of "u - t"]) auto
    then show "timeout \<le> word_of_nat (u mod 65536) - word_of_nat ?x" using diff by simp
  qed simp
qed

lemma demo_controller_facts:
  "no_fatal (demo_controller i q)" "0 < timeout \<Longrightarrow> timeout \<le> 60 \<Longrightarrow> timer_runs (demo_controller i q) timeout"
  using counting_reaches by (simp_all add: no_fatal_def timer_runs_def demo_controller_def)

definition demo_queue :: nvme_queue where
  "demo_queue = \<lparr>q_address = 0x1000, submission_queue_commands = 0x2000, completion_queue_entries = 0x3000, q_db = 0, q_depth = 2, cq_vector = 0, sq_head = 0,
     sq_tail = 0, cq_head = 0, qid = 0, cq_phase = 1\<rparr>"

definition demo_nvme :: nvme_state where
  "demo_nvme = \<lparr>nvme_dev = \<lparr>queues_at = 0x500, queues = [Some demo_queue, Some demo_queue], total_queues = 1, active_queues = 1, max_queue_id = 0, queue_depth = 2,
       doorbell_stride = 1, controller_config = 0, serial_number = [], model_number = [], firmware_revision = [], max_transfer_shift = 12,
       nvme_capabilities = 0, nvme_page_size = 4096, prp_pool = 0x6000, prp_entry_count = 64, namespace_count = 0\<rparr>,
     prp_list = replicate 512 0, nvme_trace = [], nvme_now = 0, command_id = 0, nvme_heap = [0x8000, 0x9000, 0xA000], nvme_freed = [], namespace_devices = []\<rparr>"

definition demo_namespace :: nvme_namespace where
  "demo_namespace = \<lparr>namespace_id = 1, eui64 = replicate 8 0, logical_block_address_shift = 9\<rparr>"

lemma demo_queue_facts: "queue_ok demo_queue" "get_queue 0 demo_nvme = Inr (at_positions demo_queue 0 0)" "get_queue 1 demo_nvme = Inr (at_positions demo_queue 0 0)"
  by (simp_all add: queue_ok_def demo_queue_def demo_nvme_def get_queue_def at_positions_def slot_def phase_def)

lemma demo_ready: "ready demo_queue demo_nvme"
  using demo_queue_facts(3) by (auto simp: ready_def) (auto simp: demo_nvme_def)

theorem nvme_regions_describe_buffer_witness:
  "\<exists>s' prp2. nvme_setup_physical_region_pools 0 (word_of_nat 12288) 0x1000 demo_nvme = Inr (s', prp2, 0) \<and>
    take 2 (prp_list s') = [page_behind 0x1000 0, page_behind 0x1000 1]"
proof -
  have k: "further_pages 0x1000 12288 = 2" by (simp add: further_pages_def)
  have "nvme_page_size (nvme_dev demo_nvme) = 4096" "unat (prp_entry_count (nvme_dev demo_nvme)) = 64" "length (prp_list demo_nvme) = 512"
    by (simp_all add: demo_nvme_def)
  then show ?thesis using nvme_regions_describe_buffer [of demo_nvme 12288 "0x1000" 0] by (auto simp: k upt_rec)
qed

theorem nvme_region_list_overruns_witness:
  "nvme_setup_physical_region_pools 0 (word_of_nat 2457600) 0x1000 demo_nvme = Inl OutOfBounds"
proof -
  have "further_pages 0x1000 2457600 = 599" by (simp add: further_pages_def)
  moreover have "nvme_page_size (nvme_dev demo_nvme) = 4096" "unat (prp_entry_count (nvme_dev demo_nvme)) = 64" "nvme_heap demo_nvme = [0x8000, 0x9000, 0xA000]"
    by (simp_all add: demo_nvme_def)
  ultimately show ?thesis using nvme_region_list_overruns [of demo_nvme 2457600 "0x1000" 0] by simp
qed


end
