(* ===== verification/Nvme_Setup.thy ===== *)
theory Nvme_Setup
  imports Nvme_Transfers
begin

text \<open>
  Sequences of commands of the NVMe driver: the positions in a queue, command identifiers, the layout of completions, and identification.
\<close>

section \<open>Commands\<close>

primrec command_ids :: "nat \<Rightarrow> nvme_state \<Rightarrow> 16 word list" where
  "command_ids 0 s = []"
| "command_ids (Suc n) s = (case nvme_get_command_id s of (c, s) \<Rightarrow> c # command_ids n s)"

lemma command_ids_from:
  assumes "command_id s = word_of_nat k" "k \<le> 65535"
  shows "command_ids n s = map word_of_nat [k..<min (k + n) 65535] @ replicate (k + n - 65535) 0"
  using assms
proof (induction n arbitrary: k s)
  case (Suc n)
  have u: "unat (word_of_nat k :: 16 word) = k" using Suc.prems(2) by (subst unat_of_nat) simp
  show ?case
  proof (cases "k < 65535")
    case True
    let ?s = "s\<lparr>command_id := command_id s + 1\<rparr>"
    have "command_id ?s = word_of_nat (Suc k)" using Suc.prems(1) by (simp add: add.commute)
    note IH = Suc.IH [OF this Suc_leI [OF True], unfolded add_Suc_shift]
    have "k < min (k + Suc n) 65535" using True by simp
    then have l: "[k..<min (k + Suc n) 65535] = k # [Suc k..<min (k + Suc n) 65535]" by (rule upt_conv_Cons)
    have "nvme_get_command_id s = (word_of_nat k, ?s)" using True Suc.prems(1) u by (simp add: nvme_get_command_id_def word_less_nat_alt)
    then show ?thesis unfolding l command_ids.simps by (simp only: prod.case IH list.map append_Cons)
  next
    case False
    then show ?thesis using Suc.IH [OF Suc.prems] Suc.prems u by (simp add: nvme_get_command_id_def word_less_nat_alt)
  qed
qed simp

text \<open>
  The identifiers of commands are the numbers from 0 to 65534; after that every command gets the identifier 0, instead of starting again.
\<close>

theorem nvme_command_ids_stick:
  assumes "command_id s = 0"
  shows "command_ids n s = map word_of_nat [0..<min n 65535] @ replicate (n - 65535) 0"
  using command_ids_from [of s 0 n] assms by simp

text \<open>
  The driver tells the controller that completions have 16 bytes, where the status is in the last two. It reads the status at other places: no
  byte of any status influences what it reads.
\<close>

theorem nvme_completion_status_unread:
  assumes "index < 2" "hw_status hw = hw_status hw'"
    "\<And>tr t a. (\<forall>j<256. a \<noteq> completion_queue_entries q + 16 * word_of_nat j + 14 \<and> a \<noteq> completion_queue_entries q + 16 * word_of_nat j + 15) \<Longrightarrow>
      hw_memory hw tr t a = hw_memory hw' tr t a"
  shows "nvme_read_completion_status hw q index s = nvme_read_completion_status hw' q index s"
proof -
  let ?cq = "completion_queue_entries q"
  have u: "unat (16 * word_of_nat j + of_nat c :: 64 word) = 16 * j + c" if "j < 256" "c < 16" for j c
    using that by (simp add: unat_word_ariths unat_of_nat)
  have ne: "?cq + of_nat d \<noteq> ?cq + 16 * word_of_nat j + 14 \<and> ?cq + of_nat d \<noteq> ?cq + 16 * word_of_nat j + 15"
    if "d \<in> {18, 19, 40, 41}" "j < 256" for d j
  proof -
    have "unat (of_nat d :: 64 word) = d" using that(1) by auto
    moreover have "d \<noteq> 16 * j + 14" "d \<noteq> 16 * j + 15" using that(1) by (auto, presburger+)
    ultimately show ?thesis using u [OF that(2), of 14] u [OF that(2), of 15] by (simp add: add.assoc) metis
  qed
  have "hw_memory hw tr t (?cq + of_nat d) = hw_memory hw' tr t (?cq + of_nat d)" if "d \<in> {18, 19, 40, 41}" for d tr t
    using assms(3) ne [OF that] by blast
  from this [of 18] this [of 19] this [of 40] this [of 41]
  have m: "mem16 (hw_memory hw tr t) (?cq + 18) = mem16 (hw_memory hw' tr t) (?cq + 18)" "mem16 (hw_memory hw tr t) (?cq + 40) = mem16 (hw_memory hw' tr t) (?cq + 40)" for tr t
    by (simp_all add: mem16_def mem_bytes_def numeral_2_eq_2 add.assoc)
  have "index = 0 \<or> index = 1" using assms(1) by (simp add: word_less_nat_alt word_unat_eq_iff) linarith
  then show ?thesis unfolding nvme_read_completion_status_def Let_def assms(2) using m by (auto simp: add.assoc)
qed

text \<open>
  The address of the buffer for an identification is cut to 32 bits, so that the controller writes somewhere else than into the buffer.
\<close>

theorem nvme_identify_truncates_address:
  assumes "get_queue NVME_ADMIN_Q s = Inr (at_positions q a b)" "queue_ok q" "no_fatal hw" "timer_runs hw ADMIN_TIMEOUT" "2 ^ 32 \<le> unat buffer"
  shows "\<exists>s' r ret x. nvme_identify hw nsid cns (ucast buffer) s = Some (Inr (s', r, ret)) \<and>
    Command NVME_ADMIN_Q (slot q a) (Identify x) \<in> set (nvme_trace s') \<and> id_prp1 x = take_bit 32 buffer \<and> id_prp1 x \<noteq> buffer"
proof -
  have t: "(ucast (ucast buffer :: 32 word) :: 64 word) = take_bit 32 buffer"
    by (rule bit_word_eqI) (auto simp: bit_ucast_iff bit_take_bit_iff)
  have "unat (take_bit 32 buffer) < 2 ^ 32" by (simp add: unsigned_take_bit_eq take_bit_nat_less_exp [of 32, simplified])
  then have "take_bit 32 buffer \<noteq> buffer" using assms(5) by auto
  then show ?thesis
    using sync_returns [OF assms(1-4), of "Identify \<lparr>id_opcode = 6, id_flags = 0, id_command_id = 0, id_nsid = ucast nsid, id_prp1 = ucast (ucast buffer :: 32 word), id_prp2 = 0, id_cns = ucast cns\<rparr>"]
    unfolding nvme_identify_def nvme_submit_admin_command_def after_command_def t by fastforce
qed

section \<open>Sequences of commands\<close>

text \<open>Synchronous commands one after the other, and the values that they return.\<close>

primrec send_all :: "nvme_hw \<Rightarrow> nat \<Rightarrow> 64 word \<Rightarrow> nvme_command list \<Rightarrow> nvme_state \<Rightarrow> (nvme_state \<times> int list) res option" where
  "send_all hw i timeout [] s = Some (Inr (s, []))"
| "send_all hw i timeout (c # cs) s =
     bindL (nvme_submit_sync_command hw i c timeout s) (\<lambda>(s, _, ret).
     bindL (send_all hw i timeout cs s) (\<lambda>(s, rets). Some (Inr (s, ret # rets))))"

definition completed :: "int list \<Rightarrow> nat" where
  "completed rets = length (filter (\<lambda>ret. ret \<noteq> KERN_TIMEOUT) rets)"

lemma send_all_positions:
  assumes "get_queue i s = Inr (at_positions q a b)" "queue_ok q" "no_fatal hw" "timer_runs hw timeout"
  shows "\<exists>s' rets. send_all hw i timeout cs s = Some (Inr (s', rets)) \<and> length rets = length cs \<and> set rets \<subseteq> {0, KERN_IO_ERROR, KERN_TIMEOUT} \<and>
    slots_used i (nvme_trace s') = slots_used i (nvme_trace s) @ map (slot q) [a..<a + length cs] \<and>
    get_queue i s' = Inr (at_positions q (a + length cs) (b + completed rets))"
  using assms(1)
proof (induction cs arbitrary: s a b)
  case Nil
  then show ?case by (simp add: completed_def)
next
  case (Cons c cs)
  from sync_returns [OF Cons.prems assms(2-4), of c] obtain s1 r ret where
    s1: "nvme_submit_sync_command hw i c timeout s = Some (Inr (s1, r, ret))" "ret \<in> {0, KERN_IO_ERROR, KERN_TIMEOUT}"
      "after_command i q a b c s (ret \<noteq> KERN_TIMEOUT) s1" by blast
  let ?b = "if ret \<noteq> KERN_TIMEOUT then Suc b else b"
  have "get_queue i s1 = Inr (at_positions q (Suc a) ?b)" using after_command_queue [OF s1(3)] get_queue_length [OF Cons.prems] by blast
  from Cons.IH [OF this] obtain s' rets where
    IH: "send_all hw i timeout cs s1 = Some (Inr (s', rets))" "length rets = length cs" "set rets \<subseteq> {0, KERN_IO_ERROR, KERN_TIMEOUT}"
      "slots_used i (nvme_trace s') = slots_used i (nvme_trace s1) @ map (slot q) [Suc a..<Suc a + length cs]"
      "get_queue i s' = Inr (at_positions q (Suc a + length cs) (?b + completed rets))" by blast
  have "slots_used i (nvme_trace s1) = slots_used i (nvme_trace s) @ [slot q a]" using s1(3) by (auto simp: after_command_def)
  moreover have "[a..<a + length (c # cs)] = a # [Suc a..<Suc a + length cs]" by (simp add: upt_conv_Cons del: upt_Suc)
  moreover have "?b + completed rets = b + completed (ret # rets)" by (simp add: completed_def)
  ultimately show ?case using s1(1,2) IH by simp
qed

text \<open>C37: 
  The positions of the driver in a queue, for any controller that reports no fatal error and any number of commands: every command returns, with success, an error or
  the timeout; the commands go to consecutive slots modulo the depth; the tail is the number of commands modulo the depth, the head the
  number of completions modulo the depth, where a command that timed out has none; and the expected phase changes each time that the completions wrap.
\<close>

theorem nvme_queue_positions:
  assumes "get_queue i s = Inr (at_positions q a b)" "queue_ok q" "no_fatal hw" "timer_runs hw timeout"
  shows "\<exists>s' rets q'. send_all hw i timeout cs s = Some (Inr (s', rets)) \<and> length rets = length cs \<and> set rets \<subseteq> {0, KERN_IO_ERROR, KERN_TIMEOUT} \<and>
    slots_used i (nvme_trace s') = slots_used i (nvme_trace s) @ map (\<lambda>n. n mod unat (q_depth q)) [a..<a + length cs] \<and> get_queue i s' = Inr q' \<and>
    unat (sq_tail q') = (a + length cs) mod unat (q_depth q) \<and> unat (cq_head q') = (b + completed rets) mod unat (q_depth q) \<and>
    cq_phase q' = (if even ((b + completed rets) div unat (q_depth q)) then 1 else 0)"
  using send_all_positions [OF assms, of cs] slot_word [OF assms(2)] by (fastforce simp: slot_def [abs_def] phase_def)

text \<open>
  With completions of 16 bytes the driver never sees one: it reads the first status from the bytes 2 and 3 of the second entry, which belong to the result of
  a command and are 0 unless the command returns one. So every command of a new queue times out.
\<close>

theorem nvme_commands_time_out:
  assumes "get_queue i s = Inr (at_positions q a 0)" "queue_ok q" "no_fatal hw" "timer_runs hw timeout"
    "\<And>tr t. hw_memory hw tr t (completion_queue_entries q + 18) = 0"
  shows "\<exists>s'. send_all hw i timeout cs s = Some (Inr (s', replicate (length cs) KERN_TIMEOUT))"
  using assms(1)
proof (induction cs arbitrary: s a)
  case (Cons c cs)
  have "mem16 (hw_memory hw tr t) (completion_queue_entries q + 18) AND 1 = 0" for tr t
    using assms(5) by (simp add: mem16_def mem_bytes_def numeral_2_eq_2 bytes_word_def and_one_eq flip: even_iff_mod_2_eq_zero)
  then have "\<not> status_seen hw q (word_of_nat (slot q 0)) (ucast (phase q 0))" by (simp add: status_seen_def slot_def phase_def)
  with sync_returns [OF Cons.prems assms(2-4), of c] obtain s1 r where
    s1: "nvme_submit_sync_command hw i c timeout s = Some (Inr (s1, r, KERN_TIMEOUT))" "after_command i q a 0 c s False s1" by force
  have "get_queue i s1 = Inr (at_positions q (Suc a) 0)" using after_command_queue [OF s1(2)] get_queue_length [OF Cons.prems] by simp
  from Cons.IH [OF this] s1(1) show ?case by auto
qed simp

section \<open>Witnesses\<close>

theorem nvme_queue_positions_witness:
  "\<exists>s' rets q'. send_all (demo_controller 1 demo_queue) 1 30 (replicate 3 (rw_command 2 demo_namespace 0 1 0 0)) demo_nvme = Some (Inr (s', rets)) \<and> length rets = 3 \<and>
    slots_used 1 (nvme_trace s') = [0, 1, 0] \<and> get_queue 1 s' = Inr q' \<and> sq_tail q' = 1 \<and> unat (cq_head q') = completed rets mod 2"
proof -
  have "nvme_trace demo_nvme = []" "q_depth demo_queue = 2" by (simp_all add: demo_nvme_def demo_queue_def)
  with nvme_queue_positions [OF demo_queue_facts(3,1) demo_controller_facts(1) [of 1 demo_queue] demo_controller_facts(2) [of 30], of "replicate 3 (rw_command 2 demo_namespace 0 1 0 0)"]
  show ?thesis by (auto simp: word_unat_eq_iff upt_rec)
qed

theorem nvme_commands_time_out_witness:
  "\<exists>s'. send_all (demo_controller 1 demo_queue) 1 30 (replicate 3 (rw_command 2 demo_namespace 0 1 0 0)) demo_nvme = Some (Inr (s', [-47, -47, -47]))"
proof -
  have "hw_memory (demo_controller 1 demo_queue) tr t (completion_queue_entries demo_queue + 18) = 0" for tr t
    by (simp add: demo_controller_def Let_def)
  from nvme_commands_time_out [OF demo_queue_facts(3,1) demo_controller_facts(1) [of 1 demo_queue] demo_controller_facts(2) [of 30] this, of "replicate 3 (rw_command 2 demo_namespace 0 1 0 0)"]
  show ?thesis by (simp add: numeral_3_eq_3)
qed

theorem nvme_command_ids_stick_witness: "command_ids 65537 demo_nvme = map word_of_nat [0..<65535] @ [0, 0]"
proof -
  have "command_id demo_nvme = 0" by (simp add: demo_nvme_def)
  from nvme_command_ids_stick [OF this, of 65537] show ?thesis by (simp only: min_def) (simp add: numeral_2_eq_2 del: upt_Suc)
qed

theorem nvme_completion_status_unread_witness:
  "nvme_read_completion_status ((demo_controller 1 demo_queue)\<lparr>hw_memory := (\<lambda>tr t a. if a = 0x300E then 1 else 0)\<rparr>) demo_queue 0 demo_nvme =
   nvme_read_completion_status ((demo_controller 1 demo_queue)\<lparr>hw_memory := (\<lambda>tr t a. 0)\<rparr>) demo_queue 0 demo_nvme"
proof (rule nvme_completion_status_unread, goal_cases)
  case (3 tr t a)
  from 3 [rule_format, of 0] show ?case by (auto simp: demo_queue_def)
qed simp_all

theorem nvme_identify_truncates_address_witness:
  "\<exists>s' r ret k x. nvme_identify (demo_controller 0 demo_queue) 0 1 (ucast (0xFFFF800000008000 :: 64 word)) demo_nvme = Some (Inr (s', r, ret)) \<and>
    Command 0 k (Identify x) \<in> set (nvme_trace s') \<and> id_prp1 x = 0x8000"
  using nvme_identify_truncates_address [OF demo_queue_facts(2,1) demo_controller_facts(1) [of 0 demo_queue] demo_controller_facts(2) [of 60], of "0xFFFF800000008000" 0 1] by auto

end
