(* ===== verification/Ahci.thy ===== *)
theory Ahci
  imports Nvme
begin

text \<open>
  The driver for AHCI controllers, \<^verbatim>\<open>drivers/block/ahci.c\<close> and \<^verbatim>\<open>ahci.h\<close>: command slots, command tables, the exchange of a command with a
  port, reading and writing, and the initialisation of ports and controllers. What registers read depends on what was written to them so far and on the time,
  as for the NVMe driver; command lists and tables are memory of the machine. Messages are left out, and with them the strings that are made for them.
\<close>

section \<open>Registers and memory\<close>

datatype port_register =
  Command_List_Base | Command_List_Base_Upper | Fis_Base | Fis_Base_Upper | Command_And_Status | Task_File_Data | Signature | Sata_Active | Command_Issue

datatype host_register =
  Capabilities | Global_Host_Control | Ports_Implemented | Version | Capabilities_Extended | Bios_Os_Handoff

text \<open>A port is the address of its registers.\<close>

datatype ahci_write = Port "64 word" port_register "32 word" | Host host_register "32 word"

record ahci_hw =
  port_read :: "ahci_write list \<Rightarrow> nat \<Rightarrow> 64 word \<Rightarrow> port_register \<Rightarrow> 32 word"
  host_read :: "ahci_write list \<Rightarrow> nat \<Rightarrow> host_register \<Rightarrow> 32 word"

record ahci_controller =
  pci_bar :: "64 word"
  port_count :: "32 word"
  command_slots :: "32 word"
  ahci_major :: "32 word"
  ahci_minor :: "32 word"

text \<open>
  \<open>ahci_ports\<close> are the ports for which a device was made; \<open>ahci_heap\<close> are the addresses that \<^verbatim>\<open>kmalloc\<close> has still to hand out.
\<close>

record ahci_state =
  ahci_memory :: "64 word \<Rightarrow> byte"
  ahci_trace :: "ahci_write list"
  ahci_now :: nat
  ahci_heap :: "64 word list"
  ahci_ports :: "64 word list"

definition store_bytes_at :: "64 word \<Rightarrow> byte list \<Rightarrow> (64 word \<Rightarrow> byte) \<Rightarrow> (64 word \<Rightarrow> byte)" where
  "store_bytes_at p bs m = (\<lambda>a. if unat (a - p) < length bs then bs ! unat (a - p) else m a)"

definition store_mem :: "64 word \<Rightarrow> byte list \<Rightarrow> ahci_state \<Rightarrow> ahci_state" where
  "store_mem p bs s = s\<lparr>ahci_memory := store_bytes_at p bs (ahci_memory s)\<rparr>"

definition read_port :: "ahci_hw \<Rightarrow> 64 word \<Rightarrow> port_register \<Rightarrow> ahci_state \<Rightarrow> 32 word \<times> ahci_state" where
  "read_port hw p r s = (port_read hw (ahci_trace s) (ahci_now s) p r, s\<lparr>ahci_now := Suc (ahci_now s)\<rparr>)"

definition read_host :: "ahci_hw \<Rightarrow> host_register \<Rightarrow> ahci_state \<Rightarrow> 32 word \<times> ahci_state" where
  "read_host hw r s = (host_read hw (ahci_trace s) (ahci_now s) r, s\<lparr>ahci_now := Suc (ahci_now s)\<rparr>)"

definition write_port :: "64 word \<Rightarrow> port_register \<Rightarrow> 32 word \<Rightarrow> ahci_state \<Rightarrow> ahci_state" where
  "write_port p r v s = s\<lparr>ahci_trace := ahci_trace s @ [Port p r v]\<rparr>"

definition write_host :: "host_register \<Rightarrow> 32 word \<Rightarrow> ahci_state \<Rightarrow> ahci_state" where
  "write_host r v s = s\<lparr>ahci_trace := ahci_trace s @ [Host r v]\<rparr>"

definition ahci_kmalloc :: "ahci_state \<Rightarrow> ahci_state \<times> 64 word" where
  "ahci_kmalloc s = (case ahci_heap s of [] \<Rightarrow> (s, 0) | a # as \<Rightarrow> (s\<lparr>ahci_heap := as\<rparr>, a))"

text \<open>\<^verbatim>\<open>while (register & mask) {}\<close>; \<open>None\<close> is a wait that never ends.\<close>

partial_function (option) port_wait :: "ahci_hw \<Rightarrow> 64 word \<Rightarrow> port_register \<Rightarrow> 32 word \<Rightarrow> ahci_state \<Rightarrow> ahci_state res option" where
  "port_wait hw p r m s =
     (case read_port hw p r s of (v, s) \<Rightarrow> if v AND m \<noteq> 0 then port_wait hw p r m s else Some (Inr s))"

abbreviation (input) HBA_CMD_ST :: "32 word" where "HBA_CMD_ST \<equiv> 0x0001"
abbreviation (input) HBA_CMD_FR :: "32 word" where "HBA_CMD_FR \<equiv> 0x4000"
abbreviation (input) HBA_CMD_CR :: "32 word" where "HBA_CMD_CR \<equiv> 0x8000"
abbreviation (input) SATA_ATA :: "32 word" where "SATA_ATA \<equiv> 0x101"
abbreviation (input) UINT32_MAX :: "32 word" where "UINT32_MAX \<equiv> 0xFFFFFFFF"
abbreviation (input) KERN_NO_RESOURCE :: int where "KERN_NO_RESOURCE \<equiv> -24"
abbreviation (input) KERN_NOT_SUPPORTED :: int where "KERN_NOT_SUPPORTED \<equiv> -9"

section \<open>Commands\<close>

fun find_slot :: "ahci_hw \<Rightarrow> 64 word \<Rightarrow> nat list \<Rightarrow> ahci_state \<Rightarrow> 32 word \<times> ahci_state" where
  "find_slot hw p [] s = (UINT32_MAX, s)"
| "find_slot hw p (i # is) s =
     (case read_port hw p Sata_Active s of (active, s) \<Rightarrow>
      case read_port hw p Command_Issue s of (issued, s) \<Rightarrow>
      if (active OR issued) AND push_bit i 1 = 0 then (word_of_nat i, s) else find_slot hw p is s)"

definition ahci_find_command_slot :: "ahci_hw \<Rightarrow> 64 word \<Rightarrow> 32 word \<Rightarrow> ahci_state \<Rightarrow> 32 word \<times> ahci_state" where
  "ahci_find_command_slot hw p slots s = find_slot hw p [0..<unat slots] s"

text \<open>
  The header of a command has the address of its table in bytes 8 to 15; a table has the command in bytes 0 to 63 and its only region of memory
  in bytes 128 to 143.
\<close>

definition table_address :: "64 word \<Rightarrow> 64 word \<Rightarrow> ahci_state \<Rightarrow> 64 word" where
  "table_address hhdm header s =
     (ucast (mem32 (ahci_memory s) (header + 8)) OR push_bit 32 (ucast (mem32 (ahci_memory s) (header + 12)))) + hhdm"

definition set_prdt :: "64 word \<Rightarrow> 64 word \<Rightarrow> 64 word \<Rightarrow> 32 word \<Rightarrow> 32 word \<Rightarrow> ahci_state \<Rightarrow> ahci_state \<times> 64 word" where
  "set_prdt hhdm header buffer interrupt_vector byte_count s =
     (let table = table_address hhdm header s;
          s = store_mem (table + 128) (word_bytes (ucast buffer :: 32 word)) s;
          s = store_mem (table + 132) (word_bytes (ucast (drop_bit 32 buffer) :: 32 word)) s;
          s = store_mem (table + 140) (word_bytes (byte_count OR push_bit 31 (interrupt_vector AND 1))) s in
      (s, table))"

definition ahci_send_command :: "ahci_hw \<Rightarrow> 32 word \<Rightarrow> 64 word \<Rightarrow> ahci_state \<Rightarrow> ahci_state res option" where
  "ahci_send_command hw slot p s =
     bindL (port_wait hw p Task_File_Data 0x88 s) (\<lambda>s.
     case read_port hw p Command_And_Status s of (c, s) \<Rightarrow>
     let s = write_port p Command_And_Status (c AND NOT HBA_CMD_CR) s in
     bindL (port_wait hw p Command_And_Status HBA_CMD_ST s) (\<lambda>s.
     case read_port hw p Command_And_Status s of (c, s) \<Rightarrow>
     let s = write_port p Command_And_Status (c OR (HBA_CMD_FR OR HBA_CMD_ST)) s;
         s = write_port p Command_Issue (push_bit (unat slot) 1) s in
     bindL (port_wait hw p Command_Issue (push_bit (unat slot) 1) s) (\<lambda>s.
     case read_port hw p Command_And_Status s of (c, s) \<Rightarrow>
     let s = write_port p Command_And_Status (c AND NOT HBA_CMD_ST) s in
     bindL (port_wait hw p Command_And_Status HBA_CMD_ST s) (\<lambda>s.
     case read_port hw p Command_And_Status s of (c, s) \<Rightarrow>
     Some (Inr (write_port p Command_And_Status (c AND NOT HBA_CMD_FR) s))))))"

text \<open>The address of the header of a slot, read from the registers of the port.\<close>

definition header_address :: "ahci_hw \<Rightarrow> 64 word \<Rightarrow> 64 word \<Rightarrow> 64 word \<Rightarrow> ahci_state \<Rightarrow> 64 word \<times> ahci_state" where
  "header_address hw hhdm p slot s =
     (case read_port hw p Command_List_Base s of (lo, s) \<Rightarrow>
      case read_port hw p Command_List_Base_Upper s of (hi, s) \<Rightarrow>
      ((ucast lo OR push_bit 32 (ucast hi)) + slot * 32 + hhdm, s))"

text \<open>The 20 bytes of \<^verbatim>\<open>struct ahci_fis_host_to_device\<close> as \<^verbatim>\<open>read_write_lba\<close> fills them.\<close>

definition host_to_device :: "bool \<Rightarrow> 64 word \<Rightarrow> 64 word \<Rightarrow> byte list" where
  "host_to_device wr first count =
     [0x27, 0x80, (if wr then 0x35 else 0x25), 0,
      ucast (first AND 0xFF), ucast (drop_bit 8 first AND 0xFF), ucast (drop_bit 16 first AND 0xFF), 0x40,
      ucast (drop_bit 24 first AND 0xFF), ucast (drop_bit 32 first AND 0xFF), ucast (drop_bit 40 first AND 0xFF), 0,
      ucast (count AND 0xFF), ucast (drop_bit 8 count AND 0xFF), 0, 0, 0, 0, 0, 0]"

definition set_header :: "64 word \<Rightarrow> 16 word \<Rightarrow> ahci_state \<Rightarrow> ahci_state" where
  "set_header header keep s =
     (let flags = mem16 (ahci_memory s) header AND keep;
          s = store_mem header (word_bytes (flags OR 5)) s in
      store_mem (header + 2) (word_bytes (1 :: 16 word)) s)"

definition read_write_lba :: "ahci_hw \<Rightarrow> 64 word \<Rightarrow> 32 word \<Rightarrow> 64 word \<Rightarrow> 64 word \<Rightarrow> 64 word \<Rightarrow> 64 word \<Rightarrow> bool \<Rightarrow> ahci_state \<Rightarrow>
    (ahci_state \<times> int) res option" where
  "read_write_lba hw hhdm slots p buffer first count wr s =
     (case ahci_find_command_slot hw p slots s of (slot, s) \<Rightarrow>
      if slot = UINT32_MAX then Some (Inr (s, KERN_NO_RESOURCE))
      else
        case header_address hw hhdm p (ucast slot) s of (header, s) \<Rightarrow>
        let s = set_header header (NOT 0x5F) s in
        case set_prdt hhdm header (buffer - hhdm) 1 (ucast (count * 0x200 - 1)) s of (s, table) \<Rightarrow>
        let s = store_mem table (host_to_device wr first count) s in
        bindL (ahci_send_command hw slot p s) (\<lambda>s. Some (Inr (s, 0))))"

definition ahci_read_block :: "ahci_hw \<Rightarrow> 64 word \<Rightarrow> 32 word \<Rightarrow> 64 word \<Rightarrow> 64 word \<Rightarrow> 64 word \<Rightarrow> 64 word \<Rightarrow> ahci_state \<Rightarrow> (ahci_state \<times> int) res option" where
  "ahci_read_block hw hhdm slots p block_number block_count buffer s = read_write_lba hw hhdm slots p buffer block_number block_count False s"

definition ahci_write_block :: "ahci_hw \<Rightarrow> 64 word \<Rightarrow> 32 word \<Rightarrow> 64 word \<Rightarrow> 64 word \<Rightarrow> 64 word \<Rightarrow> 64 word \<Rightarrow> ahci_state \<Rightarrow> (ahci_state \<times> int) res option" where
  "ahci_write_block hw hhdm slots p block_number block_count buffer s = read_write_lba hw hhdm slots p buffer block_number block_count True s"

section \<open>Initialisation\<close>

fun init_headers :: "ahci_hw \<Rightarrow> 64 word \<Rightarrow> 64 word \<Rightarrow> nat list \<Rightarrow> ahci_state \<Rightarrow> ahci_state" where
  "init_headers hw hhdm p [] s = s"
| "init_headers hw hhdm p (i # is) s =
     (case header_address hw hhdm p (word_of_nat i) s of (header, s) \<Rightarrow>
      case ahci_kmalloc s of (s, base) \<Rightarrow>
      let s = store_mem (header + 8) (word_bytes (ucast base :: 32 word)) s;
          s = store_mem (header + 12) (word_bytes (ucast (drop_bit 32 base) :: 32 word)) s in
      init_headers hw hhdm p is s)"

text \<open>The addresses that are given to the port are virtual ones. The mask for the flags of the header is \<^verbatim>\<open>~0b11111 | (1 << 7)\<close>.\<close>

definition ahci_initialize_device :: "ahci_hw \<Rightarrow> 64 word \<Rightarrow> 32 word \<Rightarrow> 64 word \<Rightarrow> ahci_state \<Rightarrow> (ahci_state \<times> int) res option" where
  "ahci_initialize_device hw hhdm slots p s =
     (case ahci_find_command_slot hw p slots s of (slot, s) \<Rightarrow>
      case ahci_kmalloc s of (s, command_list) \<Rightarrow>
      let s = write_port p Command_List_Base (ucast command_list) s;
          s = write_port p Command_List_Base_Upper (ucast (drop_bit 32 command_list)) s;
          s = init_headers hw hhdm p [0..<32] s in
      case ahci_kmalloc s of (s, fis_base) \<Rightarrow>
      let s = write_port p Fis_Base (ucast fis_base) s;
          s = write_port p Fis_Base_Upper (ucast (drop_bit 32 fis_base)) s in
      case read_port hw p Command_And_Status s of (c, s) \<Rightarrow>
      let s = write_port p Command_And_Status (c OR 0x11) s in
      case header_address hw hhdm p (ucast slot) s of (header, s) \<Rightarrow>
      let s = set_header header (NOT 0x1F OR 0x80) s in
      case ahci_kmalloc s of (s, identity) \<Rightarrow>
      case set_prdt hhdm header (identity - hhdm) 1 511 s of (s, table) \<Rightarrow>
      let s = store_mem table ([0x27, 0x80, 0xEC] @ replicate 17 0) s in
      bindL (ahci_send_command hw slot p s) (\<lambda>s.
      let s = fst (ahci_kmalloc (fst (ahci_kmalloc (fst (ahci_kmalloc s))))) in
      Some (Inr (s, 0))))"

text \<open>The wait for the firmware: \<^verbatim>\<open>while ((control_status & (1 << 0)) == 0)\<close>.\<close>

partial_function (option) handoff_wait :: "ahci_hw \<Rightarrow> ahci_state \<Rightarrow> ahci_state res option" where
  "handoff_wait hw s = (case read_host hw Bios_Os_Handoff s of (v, s) \<Rightarrow> if v AND 1 = 0 then handoff_wait hw s else Some (Inr s))"

text \<open>The processor sleeps between the reads, which lets time pass.\<close>

definition ahci_give_kernel_ownership :: "ahci_hw \<Rightarrow> ahci_state \<Rightarrow> (ahci_state \<times> int) res option" where
  "ahci_give_kernel_ownership hw s =
     (case read_host hw Capabilities_Extended s of (v, s) \<Rightarrow>
      if v AND 1 = 0 then Some (Inr (s, KERN_NOT_SUPPORTED))
      else
        case read_host hw Bios_Os_Handoff s of (v, s) \<Rightarrow>
        bindL (handoff_wait hw (write_host Bios_Os_Handoff (v OR 2) s)) (\<lambda>s.
        case read_host hw Bios_Os_Handoff s of (_, s) \<Rightarrow>
        case read_host hw Bios_Os_Handoff s of (v, s) \<Rightarrow>
        if v AND 16 \<noteq> 0 then Some (Inr (s, KERN_IO_ERROR))
        else case read_host hw Bios_Os_Handoff s of (v, s) \<Rightarrow>
          if v AND 1 \<noteq> 0 then Some (Inr (s, KERN_IO_ERROR))
          else case read_host hw Bios_Os_Handoff s of (v, s) \<Rightarrow> Some (Inr (s, (if v AND 2 = 0 then KERN_IO_ERROR else 0)))))"

definition is_bar_64_bit :: "32 word \<Rightarrow> bool" where
  "is_bar_64_bit bar \<longleftrightarrow> bar AND 1 = 0 \<and> drop_bit 1 bar AND 3 = 2"

text \<open>
  The address of the registers of a port: the sum of the address in \<^verbatim>\<open>pci_bar\<close>, \<^verbatim>\<open>sizeof(struct ahci_registers)\<close> and \<open>i\<close> times
  \<^verbatim>\<open>sizeof(struct ahci_port_registers)\<close>, where the last two count structures of 156 bytes.
\<close>

definition port_address :: "64 word \<Rightarrow> ahci_controller \<Rightarrow> nat \<Rightarrow> 64 word" where
  "port_address hhdm c i = pci_bar c + 156 * (256 + word_of_nat i * 156) + hhdm"

text \<open>The test of \<^verbatim>\<open>ports_implemented & (1 << i) != 0\<close> compares first.\<close>

fun ports_loop :: "ahci_hw \<Rightarrow> 64 word \<Rightarrow> ahci_controller \<Rightarrow> nat list \<Rightarrow> ahci_state \<Rightarrow> ahci_state res option" where
  "ports_loop hw hhdm c [] s = Some (Inr s)"
| "ports_loop hw hhdm c (i # is) s =
     (case read_host hw Ports_Implemented s of (v, s) \<Rightarrow>
      if v AND (if push_bit i (1 :: 32 word) \<noteq> 0 then 1 else 0) \<noteq> 0 then
        case read_port hw (port_address hhdm c i) Signature s of (sig, s) \<Rightarrow>
        if sig = SATA_ATA then
          case ahci_kmalloc s of (s, d) \<Rightarrow>
          if d = 0 then Some (Inl NullDeref)
          else
            bindL (ahci_initialize_device hw hhdm (command_slots c) (port_address hhdm c i) s) (\<lambda>(s, ret).
            let s = (fst (ahci_kmalloc s))\<lparr>ahci_ports := ahci_ports s @ [port_address hhdm c i]\<rparr> in
            ports_loop hw hhdm c is s)
        else ports_loop hw hhdm c is s
      else ports_loop hw hhdm c is s)"

definition initialize_ahci_controller :: "ahci_hw \<Rightarrow> 64 word \<Rightarrow> ahci_controller \<Rightarrow> ahci_state \<Rightarrow> (ahci_controller \<times> ahci_state \<times> int) res option" where
  "initialize_ahci_controller hw hhdm c s =
     (case read_host hw Version s of (v, s) \<Rightarrow>
      case read_host hw Version s of (v', s) \<Rightarrow>
      let c = c\<lparr>ahci_major := drop_bit 16 v AND 0xFFFF, ahci_minor := v' AND 0xFFFF\<rparr> in
      case read_host hw Capabilities s of (cap, s) \<Rightarrow>
      if cap AND push_bit 31 1 = 0 then Some (Inr (c, s, KERN_NOT_SUPPORTED))
      else
        bindL (ahci_give_kernel_ownership hw s) (\<lambda>(s, _).
        case read_host hw Global_Host_Control s of (g, s) \<Rightarrow>
        let s = write_host Global_Host_Control (g OR push_bit 31 1) s in
        case read_host hw Global_Host_Control s of (g, s) \<Rightarrow>
        let s = write_host Global_Host_Control (g AND NOT 2) s in
        case read_host hw Capabilities s of (cap, s) \<Rightarrow>
        case read_host hw Capabilities s of (cap', s) \<Rightarrow>
        let c = c\<lparr>port_count := cap AND 0x1F, command_slots := drop_bit 8 cap' AND 0x1F\<rparr> in
        bindL (ports_loop hw hhdm c [0..<unat (port_count c)] s) (\<lambda>s. Some (Inr (c, s, 0)))))"

end
