(* ===== verification/Ahci_Commands.thy ===== *)
theory Ahci_Commands
  imports Ahci Acpi_Tables
begin

text \<open>
  What the AHCI driver sends to a port, and where its waits do not end.
\<close>

section \<open>Memory\<close>

lemma mem_bytes_store:
  assumes "length bs = n" "n < 2 ^ 64"
  shows "mem_bytes (store_bytes_at p bs m) p n = bs"
proof (rule nth_equalityI)
  fix i assume "i < length (mem_bytes (store_bytes_at p bs m) p n)"
  then have i: "i < n" by simp
  then have "unat (word_of_nat i :: 64 word) = i" using assms(2) by (subst unat_of_nat) simp
  with i assms(1) show "mem_bytes (store_bytes_at p bs m) p n ! i = bs ! i" by (simp add: mem_bytes_def store_bytes_at_def)
qed (simp add: assms(1))

lemma mem_bytes_store_other:
  assumes "\<And>i. i < n \<Longrightarrow> length bs \<le> unat (a + word_of_nat i - p)"
  shows "mem_bytes (store_bytes_at p bs m) a n = mem_bytes m a n"
  using assms unfolding mem_bytes_def store_bytes_at_def by (intro map_cong) (auto dest: leD)

section \<open>Commands\<close>

text \<open>The first block and the number of blocks, as a disk reads them from the command.\<close>

definition fis_lba :: "byte list \<Rightarrow> 64 word" where
  "fis_lba f = ucast (f ! 4) OR push_bit 8 (ucast (f ! 5)) OR push_bit 16 (ucast (f ! 6)) OR
     push_bit 24 (ucast (f ! 8)) OR push_bit 32 (ucast (f ! 9)) OR push_bit 40 (ucast (f ! 10))"

definition fis_count :: "byte list \<Rightarrow> 64 word" where
  "fis_count f = ucast (f ! 12) OR push_bit 8 (ucast (f ! 13))"

lemma byte_of: "ucast (ucast (w AND 0xFF) :: byte) = take_bit 8 (w :: 64 word)"
proof -
  have "(w AND 0xFF) = take_bit 8 w" by (simp add: take_bit_eq_mask mask_eq_exp_minus_1)
  then show ?thesis by (intro bit_word_eqI) (auto simp: bit_ucast_iff bit_take_bit_iff)
qed

lemma join_byte: "n + 8 \<le> 64 \<Longrightarrow> take_bit n w OR push_bit n (take_bit 8 (drop_bit n w)) = take_bit (n + 8) (w :: 64 word)"
  by (rule bit_word_eqI) (auto simp: bit_or_iff bit_push_bit_iff bit_take_bit_iff bit_drop_bit_eq)

lemmas join_bytes = join_byte [of 8, simplified] join_byte [of 16, simplified] join_byte [of 24, simplified] join_byte [of 32, simplified]
  join_byte [of 40, simplified]

text \<open>
  A disk reads from the command the block and the count that the driver was asked for, the block modulo \<open>2 ^ 48\<close> and the count modulo \<open>2 ^ 16\<close>.
\<close>

theorem ahci_command_decodes:
  "fis_lba (host_to_device wr first count) = take_bit 48 first \<and> fis_count (host_to_device wr first count) = take_bit 16 count \<and>
   (host_to_device wr first count ! 2 = 0x35 \<longleftrightarrow> wr) \<and> length (host_to_device wr first count) = 20"
proof (intro conjI)
  show "fis_lba (host_to_device wr first count) = take_bit 48 first"
    by (simp add: fis_lba_def host_to_device_def byte_of join_bytes flip: or.assoc)
  show "fis_count (host_to_device wr first count) = take_bit 16 count"
    by (simp add: fis_count_def host_to_device_def byte_of join_bytes)
qed (auto simp: host_to_device_def)

section \<open>Waits\<close>

lemma port_wait_diverges:
  assumes "\<And>t. port_read hw (ahci_trace s) t p r AND m \<noteq> 0"
  shows "port_wait hw p r m s = None"
proof -
  have "port_wait hw p r m s \<noteq> Some y" for y
  proof
    assume eq: "port_wait hw p r m s = Some y"
    have "(\<forall>t. port_read hw (ahci_trace s) t p r AND m \<noteq> 0) \<longrightarrow> False"
    proof (rule port_wait.raw_induct [where P = "\<lambda>hw p r m s y. (\<forall>t. port_read hw (ahci_trace s) t p r AND m \<noteq> 0) \<longrightarrow> False", OF _ eq], goal_cases)
      case (1 f hw p r m s y)
      show ?case
      proof
        assume a: "\<forall>t. port_read hw (ahci_trace s) t p r AND m \<noteq> 0"
        then have "f hw p r m (s\<lparr>ahci_now := Suc (ahci_now s)\<rparr>) = Some y" using 1(2) by (simp add: read_port_def)
        from 1(1) [OF this] a show False by simp
      qed
    qed
    with assms show False by blast
  qed
  then show ?thesis by (cases "port_wait hw p r m s") auto
qed

lemma port_wait_ends:
  assumes "\<And>t. t \<ge> u \<Longrightarrow> port_read hw (ahci_trace s) t p r AND m = 0"
  shows "\<exists>t. port_wait hw p r m s = Some (Inr (s\<lparr>ahci_now := t\<rparr>))"
  using assms
proof (induction "u - ahci_now s" arbitrary: s rule: less_induct)
  case less
  show ?case
  proof (cases "port_read hw (ahci_trace s) (ahci_now s) p r AND m = 0")
    case True
    then show ?thesis by (subst port_wait.simps) (auto simp: read_port_def)
  next
    case False
    then have "ahci_now s < u" using less.prems not_less by blast
    then have "u - ahci_now (s\<lparr>ahci_now := Suc (ahci_now s)\<rparr>) < u - ahci_now s" by simp
    from less.hyps [OF this] less.prems have "\<exists>t. port_wait hw p r m (s\<lparr>ahci_now := Suc (ahci_now s)\<rparr>) = Some (Inr (s\<lparr>ahci_now := t\<rparr>))" by simp
    then show ?thesis using False by (subst port_wait.simps) (auto simp: read_port_def)
  qed
qed

lemma handoff_wait_diverges:
  assumes "\<And>t. host_read hw (ahci_trace s) t Bios_Os_Handoff AND 1 = 0"
  shows "handoff_wait hw s = None"
proof -
  have "handoff_wait hw s \<noteq> Some y" for y
  proof
    assume eq: "handoff_wait hw s = Some y"
    have "(\<forall>t. host_read hw (ahci_trace s) t Bios_Os_Handoff AND 1 = 0) \<longrightarrow> False"
    proof (rule handoff_wait.raw_induct [where P = "\<lambda>hw s y. (\<forall>t. host_read hw (ahci_trace s) t Bios_Os_Handoff AND 1 = 0) \<longrightarrow> False", OF _ eq], goal_cases)
      case (1 f hw s y)
      show ?case
      proof
        assume a: "\<forall>t. host_read hw (ahci_trace s) t Bios_Os_Handoff AND 1 = 0"
        then have "f hw (s\<lparr>ahci_now := Suc (ahci_now s)\<rparr>) = Some y" using 1(2) by (simp add: read_host_def)
        from 1(1) [OF this] a show False by simp
      qed
    qed
    with assms show False by blast
  qed
  then show ?thesis by (cases "handoff_wait hw s") auto
qed

lemma port_wait_state: "port_wait hw p r m s = None \<or> (\<exists>t. port_wait hw p r m s = Some (Inr (s\<lparr>ahci_now := t\<rparr>)))"
proof (cases "port_wait hw p r m s")
  case (Some y)
  have "\<exists>t. y = Inr (s\<lparr>ahci_now := t\<rparr>)"
  proof (rule port_wait.raw_induct [where P = "\<lambda>hw p r m s y. \<exists>t. y = Inr (s\<lparr>ahci_now := t\<rparr>)", OF _ Some], goal_cases)
    case (1 f hw p r m s y)
    then show ?case by (fastforce simp: read_port_def split: if_splits)
  qed
  then show ?thesis using Some by simp
qed simp

section \<open>The command register\<close>

text \<open>
  The bit that starts a port can be read and written: it reads as it was written last. Of the other bits of the register nothing is said.
\<close>

definition last_command :: "64 word \<Rightarrow> ahci_write list \<Rightarrow> 32 word option" where
  "last_command p tr = fold (\<lambda>w v. case w of Port q r x \<Rightarrow> if q = p \<and> r = Command_And_Status then Some x else v | Host _ _ \<Rightarrow> v) tr None"

definition start_reads_back :: "ahci_hw \<Rightarrow> 64 word \<Rightarrow> bool" where
  "start_reads_back hw p \<longleftrightarrow>
     (\<forall>tr t v. last_command p tr = Some v \<longrightarrow> port_read hw tr t p Command_And_Status AND HBA_CMD_ST = v AND HBA_CMD_ST)"

lemma last_command_snoc [simp]:
  "last_command p (tr @ [Port q r v]) = (if q = p \<and> r = Command_And_Status then Some v else last_command p tr)"
  by (simp add: last_command_def)

section \<open>Memory of a command\<close>

lemma read_above:
  assumes "length bs \<le> d" "d + n \<le> 2 ^ 64"
  shows "mem_bytes (store_bytes_at p bs m) (p + word_of_nat d) n = mem_bytes m (p + word_of_nat d) n"
proof (rule mem_bytes_store_other)
  fix i assume "i < n"
  then have "unat (word_of_nat (d + i) :: 64 word) = d + i" using assms(2) by (subst unat_of_nat) simp
  then show "length bs \<le> unat (p + word_of_nat d + word_of_nat i - p)" using assms(1) by simp
qed

lemma read_below:
  assumes "n \<le> d" "d + length bs \<le> 2 ^ 64"
  shows "mem_bytes (store_bytes_at (a + word_of_nat d) bs m) a n = mem_bytes m a n"
proof (rule mem_bytes_store_other)
  fix i assume i: "i < n"
  have "word_of_nat i - word_of_nat d = (word_of_nat (2 ^ 64 - (d - i)) :: 64 word)"
    using i assms by (simp add: of_nat_diff)
  moreover have "unat (word_of_nat (2 ^ 64 - (d - i)) :: 64 word) = 2 ^ 64 - (d - i)" using i assms by (subst unat_of_nat) simp
  ultimately show "length bs \<le> unat (a + word_of_nat i - (a + word_of_nat d))" using assms by simp
qed

lemma read_apart:
  assumes "e + length bs \<le> d \<or> d + n \<le> e" "d + n \<le> 2 ^ 64" "e + length bs \<le> 2 ^ 64"
  shows "mem_bytes (store_bytes_at (b + word_of_nat e) bs m) (b + word_of_nat d) n = mem_bytes m (b + word_of_nat d) n"
  using assms(1)
proof
  assume "e + length bs \<le> d"
  then obtain k where "d = e + k" "length bs \<le> k" by (metis add_le_cancel_left add_leD1 le_Suc_ex)
  then show ?thesis using read_above [of bs k n "b + word_of_nat e" m] assms(2) by (simp add: add.assoc)
next
  assume "d + n \<le> e"
  then obtain k where "e = d + k" "n \<le> k" by (metis add_le_cancel_left add_leD1 le_Suc_ex)
  then show ?thesis using read_below [of n k bs "b + word_of_nat d" m] assms(3) by (simp add: add.assoc)
qed

lemma start_bit: "w AND 1 = (0 :: 32 word) \<longleftrightarrow> \<not> bit w 0"
  by (simp add: and_one_eq bit_0 even_iff_mod_2_eq_zero)

lemma send_command_hangs:
  assumes "start_reads_back hw p" "last_command p (ahci_trace s) = Some v" "v AND 1 \<noteq> 0"
  shows "ahci_send_command hw slot p s = None"
proof (cases "port_wait hw p Task_File_Data 0x88 s")
  case None
  then show ?thesis by (simp add: ahci_send_command_def)
next
  case (Some y)
  then obtain t1 where t1: "port_wait hw p Task_File_Data 0x88 s = Some (Inr (s\<lparr>ahci_now := t1\<rparr>))" using port_wait_state by (metis not_None_eq)
  let ?c = "port_read hw (ahci_trace s) t1 p Command_And_Status"
  let ?s1 = "write_port p Command_And_Status (?c AND NOT 0x8000) (s\<lparr>ahci_now := Suc t1\<rparr>)"
  have "?c AND 1 = v AND 1" using assms(1,2) unfolding start_reads_back_def by blast
  then have "bit ?c 0" using assms(3) start_bit by metis
  then have c: "(?c AND NOT 0x8000) AND 1 \<noteq> 0" unfolding start_bit by (simp add: bit_and_iff bit_not_iff)
  have "last_command p (ahci_trace ?s1) = Some (?c AND NOT 0x8000)" by (simp add: write_port_def)
  then have "port_read hw (ahci_trace ?s1) t p Command_And_Status AND 1 \<noteq> 0" for t
    using assms(1) c unfolding start_reads_back_def by metis
  then have "port_wait hw p Command_And_Status 1 ?s1 = None" by (rule port_wait_diverges)
  then show ?thesis
    unfolding ahci_send_command_def t1 bindL_simps read_port_def prod.case Let_def by simp
qed

lemma trace_simps [simp]:
  "ahci_trace (store_mem a bs s) = ahci_trace s" "ahci_trace (set_header a k s) = ahci_trace s" "ahci_trace (snd (header_address hw hhdm p i s)) = ahci_trace s"
  "ahci_trace (fst (set_prdt hhdm h b v n s)) = ahci_trace s" "ahci_trace (fst (ahci_kmalloc s)) = ahci_trace s"
  by (simp_all add: store_mem_def set_header_def header_address_def set_prdt_def ahci_kmalloc_def read_port_def Let_def split: prod.splits list.splits)

section \<open>Properties\<close>

lemma filter_upt_least: "\<exists>i<n. P i \<Longrightarrow> \<exists>r. filter P [0..<n] = (LEAST i. P i) # r"
proof (induction n)
  case (Suc n)
  show ?case
  proof (cases "\<exists>i<n. P i")
    case True
    with Suc.IH show ?thesis by auto
  next
    case False
    then have "P n" using Suc.prems less_Suc_eq by auto
    moreover from this have "(LEAST i. P i) = n" using False by (intro Least_equality) (auto simp: not_less [symmetric])
    moreover have "filter P [0..<n] = []" using False by (auto simp: filter_empty_conv)
    ultimately show ?thesis by simp
  qed
qed simp

lemma find_slot_state: "\<exists>t. snd (find_slot hw p is s) = s\<lparr>ahci_now := t\<rparr>"
proof (induction "is" arbitrary: s)
  case Nil
  have "s = s\<lparr>ahci_now := ahci_now s\<rparr>" by simp
  then show ?case by (metis find_slot.simps(1) snd_conv)
next
  case (Cons i "is")
  from Cons.IH [of "s\<lparr>ahci_now := Suc (Suc (ahci_now s))\<rparr>"] show ?case by (auto simp: read_port_def)
qed

lemma find_slot_stable:
  assumes "\<And>t. port_read hw (ahci_trace s) t p Sata_Active = a" "\<And>t. port_read hw (ahci_trace s) t p Command_Issue = c"
  shows "fst (find_slot hw p is s) = (case filter (\<lambda>i. (a OR c) AND push_bit i 1 = 0) is of [] \<Rightarrow> 0xFFFFFFFF | i # _ \<Rightarrow> word_of_nat i)"
  using assms by (induction "is" arbitrary: s) (auto simp: read_port_def)

text \<open>
  The first free slot is used: the first bit that neither register has set, among the slots that the controller has. When all are in use, the result is
  \<^verbatim>\<open>UINT32_MAX\<close>.
\<close>

theorem ahci_find_command_slot_first:
  assumes "\<And>t. port_read hw (ahci_trace s) t p Sata_Active = a" "\<And>t. port_read hw (ahci_trace s) t p Command_Issue = c" "slots \<le> 32"
  shows "fst (ahci_find_command_slot hw p slots s) =
    (if \<exists>i<unat slots. \<not> bit (a OR c) i then word_of_nat (LEAST i. \<not> bit (a OR c) i) else 0xFFFFFFFF)"
proof -
  let ?free = "\<lambda>i. (a OR c) AND push_bit i 1 = 0"
  have n: "unat slots \<le> 32" using assms(3) by (simp add: word_le_nat_alt)
  have f: "?free i \<longleftrightarrow> \<not> bit (a OR c) i" if "i < 32" for i
    using that by (simp add: push_bit_eq_mult and_exp_eq_0_iff_not_bit)
  have fl: "filter ?free [0..<unat slots] = filter (\<lambda>i. \<not> bit (a OR c) i) [0..<unat slots]" using f n by (intro filter_cong) auto
  show ?thesis
  proof (cases "\<exists>i<unat slots. \<not> bit (a OR c) i")
    case True
    with filter_upt_least [OF True] show ?thesis
      unfolding ahci_find_command_slot_def find_slot_stable [OF assms(1,2)] fl by auto
  next
    case False
    then have "filter (\<lambda>i. \<not> bit (a OR c) i) [0..<unat slots] = []" by (auto simp: filter_empty_conv)
    with False show ?thesis unfolding ahci_find_command_slot_def find_slot_stable [OF assms(1,2)] fl by auto
  qed
qed

lemma first_slot_free:
  assumes "\<And>t. port_read hw (ahci_trace s) t p Sata_Active = 0" "\<And>t. port_read hw (ahci_trace s) t p Command_Issue = 0" "0 < slots"
  shows "\<exists>t. ahci_find_command_slot hw p slots s = (0, s\<lparr>ahci_now := t\<rparr>)"
proof -
  have "fst (ahci_find_command_slot hw p slots s) = 0"
    using find_slot_stable [of hw s p 0 0] assms by (simp add: ahci_find_command_slot_def word_less_nat_alt upt_conv_Cons read_port_def)
  with find_slot_state [of hw p "[0..<unat slots]" s] show ?thesis
    unfolding ahci_find_command_slot_def by (metis prod.collapse)
qed

text \<open>
  What the four stores into a command table leave there, and that they leave a header behind the table alone.
\<close>

lemma command_table_stores:
  fixes x y z :: "32 word"
  assumes "m' = store_bytes_at table fis (store_bytes_at (table + 140) (word_bytes z)
      (store_bytes_at (table + 132) (word_bytes y) (store_bytes_at (table + 128) (word_bytes x) m)))" "length fis = 20"
  shows "mem_bytes m' table 20 = fis" "mem_bytes m' (table + 128) 4 = word_bytes x" "mem_bytes m' (table + 132) 4 = word_bytes y"
    "mem_bytes m' (table + 140) 4 = word_bytes z"
    "\<lbrakk>144 \<le> d; d + 32 < 2 ^ 64\<rbrakk> \<Longrightarrow> mem_bytes m' (table + word_of_nat d) 2 = mem_bytes m (table + word_of_nat d) 2"
proof -
  define m128 where "m128 = store_bytes_at (table + 128) (word_bytes x) m"
  define m132 where "m132 = store_bytes_at (table + 132) (word_bytes y) m128"
  define m140 where "m140 = store_bytes_at (table + 140) (word_bytes z) m132"
  have m': "m' = store_bytes_at table fis m140" using assms(1) by (simp add: m128_def m132_def m140_def)
  note apart = read_apart [of 0 fis _ _ table m140] read_apart [of 140 "word_bytes z" _ _ table m132]
    read_apart [of 132 "word_bytes y" _ _ table m128] read_apart [of 128 "word_bytes x" _ _ table m]
  show "mem_bytes m' table 20 = fis" unfolding m' by (rule mem_bytes_store) (simp_all add: assms(2))
  show "mem_bytes m' (table + 128) 4 = word_bytes x"
    using apart(1) [of 128 4] apart(2) [of 128 4] apart(3) [of 128 4] mem_bytes_store [of "word_bytes x" 4 "table + 128" m]
    by (simp add: m' m140_def m132_def m128_def assms(2))
  show "mem_bytes m' (table + 132) 4 = word_bytes y"
    using apart(1) [of 132 4] apart(2) [of 132 4] mem_bytes_store [of "word_bytes y" 4 "table + 132" m128]
    by (simp add: m' m140_def m132_def assms(2))
  show "mem_bytes m' (table + 140) 4 = word_bytes z"
    using apart(1) [of 140 4] mem_bytes_store [of "word_bytes z" 4 "table + 140" m132] by (simp add: m' m140_def assms(2))
  show "mem_bytes m' (table + word_of_nat d) 2 = mem_bytes m (table + word_of_nat d) 2" if "144 \<le> d" "d + 32 < 2 ^ 64"
    using that apart(1) [of d 2] apart(2) [of d 2] apart(3) [of d 2] apart(4) [of d 2] by (simp add: m' m140_def m132_def m128_def assms(2))
qed

text \<open>
  Writing the flags and the number of regions into a header keeps the address of its command table.
\<close>

lemma set_header_facts:
  assumes "s1 = set_header header kept s"
  shows "ahci_trace s1 = ahci_trace s" "table_address hhdm header s1 = table_address hhdm header s"
    "mem_bytes (ahci_memory s1) header 2 = word_bytes ((mem16 (ahci_memory s) header AND kept) OR 5)"
proof -
  let ?f = "word_bytes ((mem16 (ahci_memory s) header AND kept) OR 5)"
  have m1: "ahci_memory s1 = store_bytes_at (header + 2) (word_bytes (1 :: 16 word)) (store_bytes_at header ?f (ahci_memory s))"
    and "ahci_trace s1 = ahci_trace s" by (simp_all add: assms set_header_def store_mem_def Let_def)
  then show "ahci_trace s1 = ahci_trace s" by simp
  have "mem_bytes (ahci_memory s1) (header + word_of_nat k) 4 = mem_bytes (ahci_memory s) (header + word_of_nat k) 4" if "k = 8 \<or> k = 12" for k
    using that read_apart [of 2 "word_bytes (1 :: 16 word)" k 4 header] read_apart [of 0 ?f k 4 header] by (auto simp: m1)
  from this [of 8] this [of 12] show "table_address hhdm header s1 = table_address hhdm header s"
    by (simp add: table_address_def mem32_def)
  show "mem_bytes (ahci_memory s1) header 2 = ?f"
    using read_apart [of 2 "word_bytes (1 :: 16 word)" 0 2 header] mem_bytes_store [of ?f 2 header] by (simp add: m1)
qed

text \<open>
  Before the driver writes to a register of the port, the command stands in the table of slot 0 with the region of memory that it is about, whatever
  the port does then; the flag that says that data go to the disk is clear in the header, for a write as for a read.
\<close>

theorem ahci_read_write_fills_table:
  assumes "\<And>t. port_read hw (ahci_trace s) t p Sata_Active = 0" "\<And>t. port_read hw (ahci_trace s) t p Command_Issue = 0" "0 < slots"
    "\<And>t. port_read hw (ahci_trace s) t p Command_List_Base = lo" "\<And>t. port_read hw (ahci_trace s) t p Command_List_Base_Upper = hi"
    "header = (ucast lo OR push_bit 32 (ucast hi)) + hhdm" "table = table_address hhdm header s"
    "header = table + word_of_nat d" "144 \<le> d" "d + 32 < 2 ^ 64"
  shows "\<exists>s1. read_write_lba hw hhdm slots p buffer first count wr s = bindL (ahci_send_command hw 0 p s1) (\<lambda>s. Some (Inr (s, 0))) \<and>
    ahci_trace s1 = ahci_trace s \<and> mem_bytes (ahci_memory s1) table 20 = host_to_device wr first count \<and>
    mem32 (ahci_memory s1) (table + 128) = ucast (buffer - hhdm) \<and> mem32 (ahci_memory s1) (table + 132) = ucast (drop_bit 32 (buffer - hhdm)) \<and>
    mem32 (ahci_memory s1) (table + 140) = ucast (count * 0x200 - 1) OR 0x80000000 \<and>
    \<not> bit (mem16 (ahci_memory s1) header) 6"
proof -
  from first_slot_free [OF assms(1-3)] obtain t where slot: "ahci_find_command_slot hw p slots s = (0, s\<lparr>ahci_now := t\<rparr>)" by auto
  have head: "header_address hw hhdm p 0 (s\<lparr>ahci_now := t\<rparr>) = (header, s\<lparr>ahci_now := Suc (Suc t)\<rparr>)"
    using assms(4-6) by (simp add: header_address_def read_port_def)
  define s1 where "s1 = set_header header (NOT 0x5F) (s\<lparr>ahci_now := Suc (Suc t)\<rparr>)"
  note h = set_header_facts [OF s1_def]
  have tab: "table_address hhdm header s1 = table" using h(2) [of hhdm] assms(7) by (simp add: table_address_def)
  let ?b = "buffer - hhdm" and ?n = "ucast (count * 0x200 - 1) OR 0x80000000 :: 32 word" and ?fis = "host_to_device wr first count"
  obtain s2 where prdt: "set_prdt hhdm header ?b 1 (ucast (count * 0x200 - 1)) s1 = (s2, table)" "ahci_trace s2 = ahci_trace s"
    "ahci_memory s2 = store_bytes_at (table + 140) (word_bytes ?n) (store_bytes_at (table + 132) (word_bytes (ucast (drop_bit 32 ?b) :: 32 word))
      (store_bytes_at (table + 128) (word_bytes (ucast ?b :: 32 word)) (ahci_memory s1)))"
    using h(1) by (simp add: set_prdt_def store_mem_def Let_def tab)
  let ?s3 = "store_mem table ?fis s2"
  have "read_write_lba hw hhdm slots p buffer first count wr s = bindL (ahci_send_command hw 0 p ?s3) (\<lambda>s. Some (Inr (s, 0)))"
    unfolding read_write_lba_def slot prod.case Let_def using head prdt(1) by (simp add: s1_def [simplified, symmetric])
  moreover have "ahci_trace ?s3 = ahci_trace s" using prdt(2) by simp
  moreover have m4: "ahci_memory ?s3 = store_bytes_at table ?fis (ahci_memory s2)" "length ?fis = 20" by (simp_all add: store_mem_def host_to_device_def)
  note m = command_table_stores [OF m4(1) [unfolded prdt(3)] m4(2)]
  moreover have "mem_bytes (ahci_memory ?s3) header 2 = word_bytes ((mem16 (ahci_memory s) header AND NOT 0x5F) OR 5)"
    using m(5) [OF assms(9,10)] h(3) assms(8) by simp
  ultimately show ?thesis
    using m(1-4) by (intro exI [of _ ?s3]) (simp add: mem32_def mem16_def bytes_word_word_bytes bit_or_iff bit_and_iff bit_not_iff)
qed

text \<open>C40: 
  The initialisation of a port never returns, whatever the state of the port and of memory is, as long as the bit of the command register that starts the port reads as
  it was written: the driver sets that bit, and before the first command it waits until the bit is clear, without clearing it.
\<close>

theorem ahci_initialize_device_hangs:
  assumes "start_reads_back hw p"
  shows "ahci_initialize_device hw hhdm slots p s = None"
proof -
  obtain slot s1 where 1: "ahci_find_command_slot hw p slots s = (slot, s1)" by fastforce
  obtain s2 cl where 2: "ahci_kmalloc s1 = (s2, cl)" by fastforce
  let ?s2 = "init_headers hw hhdm p [0..<32] (write_port p Command_List_Base_Upper (ucast (drop_bit 32 cl)) (write_port p Command_List_Base (ucast cl) s2))"
  obtain s3 fis where 3: "ahci_kmalloc ?s2 = (s3, fis)" by fastforce
  obtain c s4 where 4: "read_port hw p Command_And_Status (write_port p Fis_Base_Upper (ucast (drop_bit 32 fis)) (write_port p Fis_Base (ucast fis) s3)) = (c, s4)"
    by fastforce
  let ?s4 = "write_port p Command_And_Status (c OR 0x11) s4"
  obtain header s5 where 5: "header_address hw hhdm p (ucast slot) ?s4 = (header, s5)" by fastforce
  obtain s6 identity where 6: "ahci_kmalloc (set_header header (NOT 0x1F OR 0x80) s5) = (s6, identity)" by fastforce
  obtain s7 table where 7: "set_prdt hhdm header (identity - hhdm) 1 511 s6 = (s7, table)" by fastforce
  have "ahci_trace s6 = ahci_trace s5" using trace_simps(5) [of "set_header header (NOT 0x1F OR 0x80) s5"] unfolding 6 by simp
  then have "ahci_trace s7 = ahci_trace ?s4"
    using trace_simps(3) [of hw hhdm p "ucast slot" ?s4] trace_simps(4) [of hhdm header "identity - hhdm" 1 511 s6] unfolding 5 7 by simp
  then have "last_command p (ahci_trace (store_mem table ([0x27, 0x80, 0xEC] @ replicate 17 0) s7)) = Some (c OR 0x11)" by (simp add: write_port_def)
  moreover have "(c OR 0x11) AND 1 \<noteq> 0" unfolding start_bit by (simp add: bit_or_iff)
  note send_command_hangs [OF assms _ this, of _ slot]
  ultimately have "ahci_send_command hw slot p (store_mem table ([0x27, 0x80, 0xEC] @ replicate 17 0) s7) = None" by blast
  then
  show ?thesis unfolding ahci_initialize_device_def 1 2 prod.case Let_def 3 4 5 6 7 by simp
qed

text \<open>
  Ownership is to be taken from the firmware when the firmware has it; the driver waits until the firmware has it. Where it has not, the wait never
  ends, and where it keeps it, the result is an error.
\<close>

theorem ahci_handoff_waits_for_firmware:
  assumes "\<And>tr t. host_read hw tr t Capabilities_Extended AND 1 \<noteq> 0"
  shows "((\<forall>tr t. host_read hw tr t Bios_Os_Handoff AND 1 = 0) \<longrightarrow> ahci_give_kernel_ownership hw s = None) \<and>
    ((\<forall>tr t. host_read hw tr t Bios_Os_Handoff AND 1 \<noteq> 0) \<longrightarrow> (\<exists>s'. ahci_give_kernel_ownership hw s = Some (Inr (s', KERN_IO_ERROR))))"
proof
  show "(\<forall>tr t. host_read hw tr t Bios_Os_Handoff AND 1 = 0) \<longrightarrow> ahci_give_kernel_ownership hw s = None"
    using assms handoff_wait_diverges [of hw] by (simp add: ahci_give_kernel_ownership_def read_host_def)
  have "handoff_wait hw s = Some (Inr (s\<lparr>ahci_now := Suc (ahci_now s)\<rparr>))" if "\<forall>tr t. host_read hw tr t Bios_Os_Handoff AND 1 \<noteq> 0" for s
    using that by (subst handoff_wait.simps) (simp add: read_host_def)
  then show "(\<forall>tr t. host_read hw tr t Bios_Os_Handoff AND 1 \<noteq> 0) \<longrightarrow> (\<exists>s'. ahci_give_kernel_ownership hw s = Some (Inr (s', KERN_IO_ERROR)))"
    using assms by (auto simp: ahci_give_kernel_ownership_def read_host_def)
qed

text \<open>
  Whether a port is used does not depend on its own bit in the register of implemented ports, but on the bit of port 0: without port 0 no other port is
  looked at.
\<close>

theorem ahci_ports_need_port_0:
  assumes "\<And>tr t. \<not> bit (host_read hw tr t Ports_Implemented) 0" "\<forall>i \<in> set is. i < 32"
  shows "\<exists>t. ports_loop hw hhdm c is s = Some (Inr (s\<lparr>ahci_now := t\<rparr>))"
  using assms(2)
proof (induction "is" arbitrary: s)
  case Nil
  have "s = s\<lparr>ahci_now := ahci_now s\<rparr>" by simp
  then show ?case by (metis ports_loop.simps(1))
next
  case (Cons i "is")
  have "host_read hw (ahci_trace s) (ahci_now s) Ports_Implemented AND 1 = 0" using assms(1) unfolding start_bit by blast
  moreover have "push_bit i (1 :: 32 word) \<noteq> 0" using Cons.prems by (simp add: push_bit_eq_mult)
  ultimately show ?case using Cons.IH [of "s\<lparr>ahci_now := Suc (ahci_now s)\<rparr>"] Cons.prems by (simp add: read_host_def)
qed

section \<open>Witnesses\<close>

text \<open>
  A port at address 0 whose command register reads as it was written, with the bits for a running port following the start bit, with the command list
  at \<open>0x2000\<close>, and a table at \<open>0x1000\<close> for its first header.
\<close>

definition demo_ahci :: ahci_hw where
  "demo_ahci = \<lparr>port_read = \<lambda>tr t p r.
       if r = Command_And_Status then (case last_command p tr of None \<Rightarrow> 0 | Some v \<Rightarrow> if bit v 0 then v OR 0xC000 else v AND NOT 0xC000)
       else if r = Command_List_Base then 0x2000 else 0,
     host_read = \<lambda>tr t r. if r = Capabilities_Extended then 1 else 0\<rparr>"

definition demo_ahci_state :: ahci_state where
  "demo_ahci_state = \<lparr>ahci_memory = (\<lambda>_. 0)(0x2009 := 0x10), ahci_trace = [], ahci_now = 0, ahci_heap = [], ahci_ports = []\<rparr>"

lemma demo_ahci_start: "start_reads_back demo_ahci 0"
proof -
  have "(v OR 0xC000) AND 1 = v AND 1" "(v AND NOT 0xC000) AND 1 = v AND 1" for v :: "32 word"
    by (rule bit_word_eqI, auto simp: bit_or_iff bit_and_iff bit_not_iff bit_1_iff)+
  then show ?thesis by (simp add: start_reads_back_def demo_ahci_def)
qed

theorem ahci_find_command_slot_first_witness: "fst (ahci_find_command_slot demo_ahci 0 4 demo_ahci_state) = 0"
proof -
  have "port_read demo_ahci (ahci_trace demo_ahci_state) t 0 Sata_Active = 0" "port_read demo_ahci (ahci_trace demo_ahci_state) t 0 Command_Issue = 0" for t
    by (simp_all add: demo_ahci_def)
  from ahci_find_command_slot_first [OF this, of 4] show ?thesis by (auto simp: Least_eq_0 intro: exI [of _ 0])
qed

theorem ahci_read_write_fills_table_witness:
  "\<exists>s1. read_write_lba demo_ahci 0 4 0 0x5000 77 3 True demo_ahci_state = bindL (ahci_send_command demo_ahci 0 0 s1) (\<lambda>s. Some (Inr (s, 0))) \<and>
    mem_bytes (ahci_memory s1) 0x1000 20 = host_to_device True 77 3"
proof -
  have t: "table_address 0 0x2000 demo_ahci_state = 0x1000"
    by (simp add: table_address_def mem32_def mem_bytes_def demo_ahci_state_def) code_simp
  have "\<exists>s1. read_write_lba demo_ahci 0 4 0 0x5000 77 3 True demo_ahci_state = bindL (ahci_send_command demo_ahci 0 0 s1) (\<lambda>s. Some (Inr (s, 0))) \<and>
      ahci_trace s1 = ahci_trace demo_ahci_state \<and>
      mem_bytes (ahci_memory s1) 0x1000 20 = host_to_device True 77 3 \<and> mem32 (ahci_memory s1) (0x1000 + 128) = ucast (0x5000 - 0 :: 64 word) \<and>
      mem32 (ahci_memory s1) (0x1000 + 132) = ucast (drop_bit 32 (0x5000 - 0 :: 64 word)) \<and>
      mem32 (ahci_memory s1) (0x1000 + 140) = ucast (3 * 0x200 - 1 :: 64 word) OR 0x80000000 \<and> \<not> bit (mem16 (ahci_memory s1) 0x2000) 6"
    by (rule ahci_read_write_fills_table [where lo = "0x2000" and hi = 0 and d = "0x1000"])
      (simp_all add: t, simp_all add: demo_ahci_def demo_ahci_state_def)
  then show ?thesis by blast
qed

theorem ahci_initialize_device_hangs_witness: "ahci_initialize_device demo_ahci 0 4 0 demo_ahci_state = None"
  by (rule ahci_initialize_device_hangs [OF demo_ahci_start])

theorem ahci_handoff_waits_for_firmware_witness: "ahci_give_kernel_ownership demo_ahci demo_ahci_state = None"
proof -
  have "host_read demo_ahci tr t Capabilities_Extended AND 1 \<noteq> 0" "host_read demo_ahci tr t Bios_Os_Handoff AND 1 = 0" for tr t by (simp_all add: demo_ahci_def)
  then show ?thesis using ahci_handoff_waits_for_firmware [of demo_ahci] by blast
qed

theorem ahci_ports_need_port_0_witness:
  "\<exists>t. ports_loop (demo_ahci\<lparr>host_read := \<lambda>_ _ _. 6\<rparr>) 0 c [0, 1, 2] demo_ahci_state = Some (Inr (demo_ahci_state\<lparr>ahci_now := t\<rparr>))"
  by (rule ahci_ports_need_port_0) simp_all

end
